(* ===== verification/Prelude.thy ===== *)
theory Prelude
  imports Main "HOL-Library.Word" "HOL-Library.AList"
begin

section \<open>Shared vocabulary of the development\<close>

text \<open>
  Bytes, the little-endian \<open>struct\<close> layouts of the Python standard library, Python
  dictionaries, and the collections of facts the component theories share.

  \<^item> A byte is an \<open>8 word\<close>, a Python \<open>bytes\<close> object a list of them.
  \<^item> \<open>struct.pack\<close> may raise \<open>struct.error\<close>; here it is \<open>None\<close>.
  \<^item> A Python \<open>dict\<close> is an association list in insertion order, read with \<open>map_of\<close>
    and written with \<open>AList.update\<close> (which keeps the position of an existing key and
    appends a new one, as a Python dictionary does).
\<close>

named_theorems layout_simps "struct layouts, their sizes and the unpack of a pack"

type_synonym byte = "8 word"
type_synonym bytes = "byte list"

subsection \<open>Little-endian integers\<close>

fun le_bytes :: "nat \<Rightarrow> int \<Rightarrow> bytes" where
  "le_bytes 0 v = []"
| "le_bytes (Suc n) v = word_of_int v # le_bytes n (v div 256)"

fun le_int :: "bytes \<Rightarrow> int" where
  "le_int [] = 0"
| "le_int (b # bs) = uint b + 256 * le_int bs"

lemma length_le_bytes [simp]: "length (le_bytes n v) = n"
  by (induction n arbitrary: v) auto

lemma le_int_nonneg [simp]: "0 \<le> le_int bs"
  by (induction bs) auto

lemma le_int_bound: "le_int bs < 256 ^ length bs"
proof (induction bs)
  case Nil
  then show ?case by simp
next
  case (Cons b bs)
  have "uint b < 256" using uint_lt2p [of b] by simp
  moreover have "le_int bs + 1 \<le> 256 ^ length bs" using Cons.IH by simp
  ultimately show ?case by simp
qed

lemma le_int_le_bytes_mod: "le_int (le_bytes n v) = v mod 256 ^ n"
proof (induction n arbitrary: v)
  case 0
  then show ?case by simp
next
  case (Suc n)
  have "uint (word_of_int v :: byte) = v mod 256"
    by (simp add: uint_word_of_int)
  then show ?case
    using Suc.IH [of "v div 256"]
    by (simp add: mod_mult2_eq' zmod_zmult2_eq)
qed

lemma le_int_le_bytes [simp]: "0 \<le> v \<Longrightarrow> v < 256 ^ n \<Longrightarrow> le_int (le_bytes n v) = v"
  by (simp add: le_int_le_bytes_mod)

lemma le_bytes_le_int [simp]: "le_bytes (length bs) (le_int bs) = bs"
proof (induction bs)
  case Nil
  then show ?case by simp
next
  case (Cons b bs)
  have b: "0 \<le> uint b" "uint b < 256" using uint_lt2p [of b] by simp_all
  then have "(uint b + 256 * le_int bs) div 256 = le_int bs" by simp
  moreover have "word_of_int (uint b + 256 * le_int bs) = b"
  proof -
    have "(word_of_int 256 :: byte) = 0" by simp
    then have "(word_of_int (256 * le_int bs) :: byte) = 0"
      by (simp only: wi_hom_mult [symmetric] mult_zero_left)
    then show ?thesis by (simp only: wi_hom_add [symmetric]) simp
  qed
  ultimately show ?case using Cons.IH by simp
qed

lemma le_bytes_inj:
  "le_bytes n v = le_bytes n w \<Longrightarrow> 0 \<le> v \<Longrightarrow> v < 256 ^ n \<Longrightarrow> 0 \<le> w \<Longrightarrow> w < 256 ^ n \<Longrightarrow> v = w"
  by (metis le_int_le_bytes)

text \<open>Two's complement reading, for the one signed field of the manifest header.\<close>

definition le_sint :: "bytes \<Rightarrow> int" where
  "le_sint bs =
     (let v = le_int bs; m = 256 ^ length bs in if 2 * v < m then v else v - m)"

lemma le_sint_le_bytes:
  assumes "- (256 ^ n) \<le> 2 * v" "2 * v < 256 ^ n"
  shows "le_sint (le_bytes n v) = v"
proof (cases "0 \<le> v")
  case True
  then show ?thesis using assms by (simp add: le_sint_def le_int_le_bytes_mod Let_def)
next
  case False
  then have "(v + 256 ^ n) mod 256 ^ n = v + 256 ^ n"
    using assms by (intro mod_pos_pos_trivial) auto
  then have "v mod 256 ^ n = v + 256 ^ n" by simp
  then show ?thesis using False assms by (simp add: le_sint_def le_int_le_bytes_mod Let_def)
qed


subsection \<open>The \<open>struct\<close> module: layouts, pack and unpack\<close>

text \<open>
  A format such as \<open>"<4sHIIQ"\<close> is a list of field kinds: \<open>FU n\<close> an unsigned integer
  of \<open>n\<close> bytes (B, H, I, Q), \<open>FI n\<close> a signed one (i), \<open>FS n\<close> a byte string
  (\<open>4s\<close>, padded with zero bytes or cut, as Python does).
\<close>

datatype sfmt = FU nat | FI nat | FS nat
datatype sval = VI int | VB bytes

fun fmt_size :: "sfmt \<Rightarrow> nat" where
  "fmt_size (FU n) = n"
| "fmt_size (FI n) = n"
| "fmt_size (FS n) = n"

definition struct_size :: "sfmt list \<Rightarrow> nat" where
  "struct_size fs = sum_list (map fmt_size fs)"

lemma struct_size_simps [simp]:
  "struct_size [] = 0" "struct_size (f # fs) = fmt_size f + struct_size fs"
  by (simp_all add: struct_size_def)

fun pack1 :: "sfmt \<Rightarrow> sval \<Rightarrow> bytes option" where
  "pack1 (FU n) (VI v) = (if 0 \<le> v \<and> v < 256 ^ n then Some (le_bytes n v) else None)"
| "pack1 (FI n) (VI v) =
     (if - (256 ^ n) \<le> 2 * v \<and> 2 * v < 256 ^ n then Some (le_bytes n v) else None)"
| "pack1 (FS n) (VB b) = Some (take n b @ replicate (n - length b) 0)"
| "pack1 _ _ = None"

fun struct_pack :: "sfmt list \<Rightarrow> sval list \<Rightarrow> bytes option" where
  "struct_pack [] [] = Some []"
| "struct_pack (f # fs) (v # vs) =
     (case pack1 f v of None \<Rightarrow> None
      | Some b \<Rightarrow> (case struct_pack fs vs of None \<Rightarrow> None | Some bs \<Rightarrow> Some (b @ bs)))"
| "struct_pack _ _ = None"

fun unpack1 :: "sfmt \<Rightarrow> bytes \<Rightarrow> sval" where
  "unpack1 (FU n) b = VI (le_int (take n b))"
| "unpack1 (FI n) b = VI (le_sint (take n b))"
| "unpack1 (FS n) b = VB (take n b)"

fun struct_unpack :: "sfmt list \<Rightarrow> bytes \<Rightarrow> sval list" where
  "struct_unpack [] b = []"
| "struct_unpack (f # fs) b = unpack1 f b # struct_unpack fs (drop (fmt_size f) b)"

text \<open>\<open>unpack_from\<close> raises \<open>struct.error\<close> when the buffer is too short.\<close>

definition unpack_from :: "sfmt list \<Rightarrow> bytes \<Rightarrow> nat \<Rightarrow> sval list option" where
  "unpack_from fs b off =
     (if off + struct_size fs \<le> length b then Some (struct_unpack fs (drop off b)) else None)"

text \<open>Reading one field of an unpacked layout, by its position in the format.\<close>

fun vint :: "sval \<Rightarrow> int" where
  "vint (VI v) = v"
| "vint (VB b) = 0"

fun vbytes :: "sval \<Rightarrow> bytes" where
  "vbytes (VB b) = b"
| "vbytes (VI v) = []"

definition fi :: "sval list \<Rightarrow> nat \<Rightarrow> int" where "fi vs k = vint (vs ! k)"
definition fb :: "sval list \<Rightarrow> nat \<Rightarrow> bytes" where "fb vs k = vbytes (vs ! k)"

lemma fi_simps [simp]:
  "fi (v # vs) 0 = vint v" "fi (v # vs) (Suc k) = fi vs k"
  "fi (v # vs) (numeral n) = fi vs (pred_numeral n)"
  by (simp_all add: fi_def)

lemma fb_simps [simp]:
  "fb (v # vs) 0 = vbytes v" "fb (v # vs) (Suc k) = fb vs k"
  "fb (v # vs) (numeral n) = fb vs (pred_numeral n)"
  by (simp_all add: fb_def)

lemma fi_one [simp]: "fi (v # vs) 1 = fi vs 0"
  by (simp add: fi_def)

lemma fb_one [simp]: "fb (v # vs) 1 = fb vs 0"
  by (simp add: fb_def)

text \<open>Which values a field stores without loss.\<close>

fun fits :: "sfmt \<Rightarrow> sval \<Rightarrow> bool" where
  "fits (FU n) (VI v) \<longleftrightarrow> 0 \<le> v \<and> v < 256 ^ n"
| "fits (FI n) (VI v) \<longleftrightarrow> - (256 ^ n) \<le> 2 * v \<and> 2 * v < 256 ^ n"
| "fits (FS n) (VB b) \<longleftrightarrow> length b = n"
| "fits _ _ \<longleftrightarrow> False"

lemma pack1_length: "pack1 f v = Some b \<Longrightarrow> length b = fmt_size f"
  by (induction f v rule: pack1.induct) (auto split: if_splits)

lemma struct_pack_length: "struct_pack fs vs = Some b \<Longrightarrow> length b = struct_size fs"
  by (induction fs vs arbitrary: b rule: struct_pack.induct)
    (auto split: option.splits dest: pack1_length)

lemma fits_pack1: "fits f v \<Longrightarrow> \<exists>b. pack1 f v = Some b"
  by (induction f v rule: fits.induct) auto

lemma fits_struct_pack: "list_all2 fits fs vs \<Longrightarrow> \<exists>b. struct_pack fs vs = Some b"
proof (induction rule: list_all2_induct)
  case Nil
  then show ?case by simp
next
  case (Cons f fs v vs)
  then obtain b1 b2 where "pack1 f v = Some b1" "struct_pack fs vs = Some b2"
    using fits_pack1 by blast
  then show ?case by simp
qed

lemma unpack1_pack1: "pack1 f v = Some b \<Longrightarrow> fits f v \<Longrightarrow> unpack1 f (b @ r) = v"
  by (cases f; cases v) (auto simp: le_sint_le_bytes split: if_splits)

text \<open>Unpacking what was packed, whatever bytes follow.\<close>

lemma struct_unpack_pack:
  "struct_pack fs vs = Some b \<Longrightarrow> list_all2 fits fs vs \<Longrightarrow> struct_unpack fs (b @ r) = vs"
proof (induction fs vs arbitrary: b rule: struct_pack.induct)
  case (2 f fs v vs)
  then obtain b1 b2 where b: "pack1 f v = Some b1" "struct_pack fs vs = Some b2" "b = b1 @ b2"
    by (auto split: option.splits)
  have "drop (fmt_size f) (b @ r) = b2 @ r"
    using b pack1_length by fastforce
  then show ?case
    using b 2 unpack1_pack1 [OF b(1), of "b2 @ r"] by auto
qed auto

text \<open>Conversely, packing what was unpacked gives the bytes back: a layout is lossless.\<close>

lemma unpack1_fits: "fmt_size f \<le> length b \<Longrightarrow> fits f (unpack1 f b)"
proof (cases f)
  case (FU n)
  then show ?thesis if l: "fmt_size f \<le> length b"
  proof -
    have "length (take n b) = n" using FU l by simp
    then show ?thesis using FU le_int_bound [of "take n b"] by simp
  qed
next
  case (FI n)
  then show ?thesis if l: "fmt_size f \<le> length b"
  proof -
    have n: "length (take n b) = n" using FI l by simp
    then have "le_int (take n b) < 256 ^ n" using le_int_bound [of "take n b"] by simp
    moreover have "- (256 ^ n) \<le> 2 * le_int (take n b)"
      using le_int_nonneg [of "take n b"] by (meson le_minus_iff neg_le_0_iff_le order_trans
          zero_le_mult_iff zero_le_numeral zero_le_power)
    ultimately show ?thesis using FI n by (auto simp: le_sint_def Let_def)
  qed
qed auto

lemma struct_unpack_fits:
  "struct_size fs \<le> length b \<Longrightarrow> list_all2 fits fs (struct_unpack fs b)"
  by (induction fs arbitrary: b) (auto simp: unpack1_fits)

lemma le_bytes_mod: "le_bytes n (v mod 256 ^ n) = le_bytes n v"
  by (metis le_bytes_le_int le_int_le_bytes_mod length_le_bytes)

lemma pack1_unpack1: "fmt_size f \<le> length b \<Longrightarrow> pack1 f (unpack1 f b) = Some (take (fmt_size f) b)"
proof (cases f)
  case (FU n)
  then show ?thesis if l: "fmt_size f \<le> length b"
  proof -
    have n: "length (take n b) = n" using FU l by simp
    then show ?thesis
      using FU le_int_bound [of "take n b"] le_bytes_le_int [of "take n b"] by simp
  qed
next
  case (FI n)
  then show ?thesis if l: "fmt_size f \<le> length b"
  proof -
    let ?t = "take n b"
    have l': "length ?t = n" using FI l by simp
    then have b: "le_int ?t < 256 ^ n" using le_int_bound [of ?t] by simp
    have "le_sint ?t mod 256 ^ n = le_int ?t"
      using b l' by (auto simp: le_sint_def Let_def)
    then have "le_bytes n (le_sint ?t) = ?t"
      by (metis l' le_bytes_le_int le_bytes_mod)
    moreover have "fits f (unpack1 f b)" using l by (rule unpack1_fits)
    ultimately show ?thesis using FI by simp
  qed
qed auto

lemma struct_pack_unpack:
  "struct_size fs \<le> length b \<Longrightarrow>
   struct_pack fs (struct_unpack fs b) = Some (take (struct_size fs) b)"
proof (induction fs arbitrary: b)
  case Nil
  then show ?case by simp
next
  case (Cons f fs)
  then have "struct_pack fs (struct_unpack fs (drop (fmt_size f) b))
      = Some (take (struct_size fs) (drop (fmt_size f) b))"
    by simp
  then show ?case using Cons.prems pack1_unpack1 [of f b] by (simp add: take_add)
qed

text \<open>\<open>b"".join(layout.pack(...) for row in rows)\<close>\<close>

fun pack_rows :: "sfmt list \<Rightarrow> sval list list \<Rightarrow> bytes option" where
  "pack_rows fs [] = Some []"
| "pack_rows fs (r # rs) =
     (case (struct_pack fs r, pack_rows fs rs) of (Some b, Some bs) \<Rightarrow> Some (b @ bs) | _ \<Rightarrow> None)"

lemma pack_rows_length: "pack_rows fs rs = Some body \<Longrightarrow> length body = length rs * struct_size fs"
  by (induction rs arbitrary: body) (auto dest: struct_pack_length split: option.splits)

lemma pack_rows_fits: "\<forall>r \<in> set rs. list_all2 fits fs r \<Longrightarrow> \<exists>b. pack_rows fs rs = Some b"
  by (induction rs) (auto dest: fits_struct_pack)

lemma pack_rows_nth:
  "pack_rows fs rs = Some body \<Longrightarrow> \<forall>r \<in> set rs. list_all2 fits fs r \<Longrightarrow> i < length rs \<Longrightarrow>
   struct_unpack fs (drop (i * struct_size fs) (body @ t)) = rs ! i"
proof (induction rs arbitrary: body i)
  case Nil
  then show ?case by simp
next
  case (Cons r rs)
  obtain b bs where b: "struct_pack fs r = Some b" "pack_rows fs rs = Some bs" "body = b @ bs"
    using Cons.prems(1) by (auto split: option.splits)
  have lb: "length b = struct_size fs" using struct_pack_length [OF b(1)] by simp
  show ?case
  proof (cases i)
    case 0
    then show ?thesis using struct_unpack_pack [OF b(1), of "bs @ t"] Cons.prems(2) b(3) by simp
  next
    case (Suc j)
    then have "drop (i * struct_size fs) (body @ t) = drop (j * struct_size fs) (bs @ t)"
      using lb by (simp add: b(3))
    then show ?thesis using Cons.IH [OF b(2), of j] Cons.prems Suc by simp
  qed
qed

text \<open>\<open>blob[i:j]\<close>, with Python's clamping at the end of the buffer.\<close>

definition slice :: "'a list \<Rightarrow> nat \<Rightarrow> nat \<Rightarrow> 'a list" where
  "slice xs i j = take (j - i) (drop i xs)"

lemma length_slice [simp]: "length (slice xs i j) = min (j - i) (length xs - i)"
  by (simp add: slice_def)

lemma slice_append_left: "j \<le> length xs \<Longrightarrow> slice (xs @ ys) i j = slice xs i j"
  by (cases "i \<le> length xs") (auto simp: slice_def)

lemma slice_append_right:
  "length xs \<le> i \<Longrightarrow> slice (xs @ ys) i j = slice ys (i - length xs) (j - length xs)"
  by (simp add: slice_def)

lemma slice_split: "i \<le> j \<Longrightarrow> xs = take i xs @ slice xs i j @ drop j xs"
  using append_take_drop_id [of "j - i" "drop i xs"] by (simp add: slice_def)

lemma slice_0 [simp]: "slice xs 0 j = take j xs"
  by (simp add: slice_def)

lemma slice_all: "length xs \<le> j \<Longrightarrow> slice xs 0 j = xs"
  by simp


lemma slice_concat_const:
  "\<forall>x \<in> set xss. length x = k \<Longrightarrow> i < length xss \<Longrightarrow> slice (concat xss) (i * k) (i * k + k) = xss ! i"
proof (induction xss arbitrary: i)
  case Nil
  then show ?case by simp
next
  case (Cons x xss)
  show ?case
  proof (cases i)
    case 0
    then show ?thesis using Cons.prems by (simp add: slice_def)
  next
    case (Suc j)
    then show ?thesis
      using Cons.IH [of j] Cons.prems by (simp add: slice_append_right add.commute)
  qed
qed

lemma length_concat_const: "\<forall>x \<in> set xss. length x = k \<Longrightarrow> length (concat xss) = length xss * k"
  by (induction xss) auto

subsection \<open>Binary search\<close>

text \<open>The loop with which the artifacts find a key among entries in ascending order.\<close>

function bsearch :: "(nat \<Rightarrow> 'k :: linorder \<times> 'v) \<Rightarrow> 'k \<Rightarrow> nat \<Rightarrow> nat \<Rightarrow> 'v option" where
  "bsearch entry k lo hi =
     (if lo < hi then
        (let mid = (lo + hi) div 2; (k', v) = entry mid
         in if k' = k then Some v
            else if k' < k then bsearch entry k (mid + 1) hi
            else bsearch entry k lo mid)
      else None)"
  by pat_completeness auto
termination
  by (relation "measure (\<lambda>(e, k, lo, hi). hi - lo)") auto

declare bsearch.simps [simp del]

lemma bsearch_correct:
  assumes mono: "\<And>i j. i < j \<Longrightarrow> j < n \<Longrightarrow> fst (entry i) < fst (entry j)"
  shows "hi \<le> n \<Longrightarrow> (\<And>i. i < lo \<Longrightarrow> fst (entry i) < k) \<Longrightarrow>
    (\<And>i. hi \<le> i \<Longrightarrow> i < n \<Longrightarrow> k < fst (entry i)) \<Longrightarrow>
    bsearch entry k lo hi = map_of (map entry [0..<n]) k"
proof (induction "hi - lo" arbitrary: lo hi rule: less_induct)
  case less
  have key: "fst (entry i) = k \<Longrightarrow> i < n \<Longrightarrow> map_of (map entry [0..<n]) k = Some (snd (entry i))" for i
  proof -
    assume i: "fst (entry i) = k" "i < n"
    have "sorted_wrt (<) (map fst (map entry [0..<n]))"
      using mono by (simp add: sorted_wrt_iff_nth_less)
    then have "distinct (map fst (map entry [0..<n]))" by (simp only: strict_sorted_iff)
    moreover have "entry i \<in> set (map entry [0..<n])" using i(2) by simp
    ultimately show ?thesis using i(1) by (metis map_of_eq_Some_iff prod.collapse)
  qed
  show ?case
  proof (cases "lo < hi")
    case False
    have "fst (entry i) \<noteq> k" if i: "i < n" for i
    proof -
      consider "i < lo" | "hi \<le> i" using False by linarith
      then show ?thesis by cases (use less.prems(2) [of i] less.prems(3) [of i] i in auto)
    qed
    then have "k \<notin> fst ` entry ` {0..<n}" by fastforce
    then have "map_of (map entry [0..<n]) k = None" by (simp add: map_of_eq_None_iff)
    then show ?thesis using False by (simp add: bsearch.simps)
  next
    case True
    let ?m = "(lo + hi) div 2"
    have m: "?m < n" "lo \<le> ?m" "?m < hi" using True less.prems(1) by simp_all
    have step: "bsearch entry k lo hi = (if fst (entry ?m) = k then Some (snd (entry ?m))
        else if fst (entry ?m) < k then bsearch entry k (?m + 1) hi else bsearch entry k lo ?m)"
      using True by (subst bsearch.simps) (simp add: Let_def split_beta)
    consider "fst (entry ?m) = k" | "fst (entry ?m) < k" | "k < fst (entry ?m)" by fastforce
    then show ?thesis
    proof cases
      case 1
      then show ?thesis using step key [OF 1 m(1)] by simp
    next
      case 2
      have "fst (entry i) < k" if "i < ?m + 1" for i
      proof (cases "i = ?m")
        case False
        then have "fst (entry i) < fst (entry ?m)" using that m(1) by (intro mono) simp_all
        then show ?thesis using 2 by simp
      qed (use 2 in simp)
      then have "bsearch entry k (?m + 1) hi = map_of (map entry [0..<n]) k"
        using True less.prems by (intro less.hyps) auto
      then show ?thesis using step 2 less_imp_neq [OF 2] by simp
    next
      case 3
      have "k < fst (entry i)" if "?m \<le> i" "i < n" for i
      proof (cases "i = ?m")
        case False
        then have "fst (entry ?m) < fst (entry i)" using that by (intro mono) simp_all
        then show ?thesis using 3 by simp
      qed (use 3 in simp)
      then have "bsearch entry k lo ?m = map_of (map entry [0..<n]) k"
        using True less.prems m by (intro less.hyps) auto
      then show ?thesis using step less_not_sym [OF 3] less_imp_neq [OF 3] by simp
    qed
  qed
qed

lemma bsearch_map_of:
  assumes "sorted_wrt (<) (map fst (map entry [0..<n]))"
  shows "bsearch entry k 0 n = map_of (map entry [0..<n]) k"
proof (rule bsearch_correct)
  fix i j :: nat
  assume "i < j" "j < n"
  then show "fst (entry i) < fst (entry j)" using sorted_wrt_nth_less [OF assms, of i j] by simp
qed auto

text \<open>The exceptions that building and opening an artifact can raise; \<open>PackError\<close> is
  \<open>struct.error\<close>.\<close>

datatype open_exn = IntegrityError | IncompatibleError | PackError | ValueError | IndexError


subsection \<open>Python dictionaries\<close>

type_synonym ('k, 'v) pydict = "('k \<times> 'v) list"

abbreviation dget :: "('k, 'v) pydict \<Rightarrow> 'k \<Rightarrow> 'v option" where
  "dget d k \<equiv> map_of d k"

abbreviation dput :: "'k \<Rightarrow> 'v \<Rightarrow> ('k, 'v) pydict \<Rightarrow> ('k, 'v) pydict" where
  "dput k v d \<equiv> AList.update k v d"

abbreviation dkeys :: "('k, 'v) pydict \<Rightarrow> 'k list" where
  "dkeys d \<equiv> map fst d"

lemma dget_dput: "dget (dput k v d) j = (if j = k then Some v else dget d j)"
  by (simp add: update_conv')

lemma distinct_dput: "distinct (dkeys d) \<Longrightarrow> distinct (dkeys (dput k v d))"
  by (rule distinct_update)

lemma set_dkeys_dput: "set (dkeys (dput k v d)) = insert k (set (dkeys d))"
  by (simp add: dom_update)

lemma set_dput_cases: "p \<in> set (dput k v d) \<Longrightarrow> p = (k, v) \<or> p \<in> set d"
  by (induction d) (auto split: if_splits)

lemma dput_new: "dget d k = None \<Longrightarrow> dput k v d = d @ [(k, v)]"
  by (induction d) (auto split: if_splits)

lemma dget_append: "dget (d @ e) k = (case dget d k of None \<Rightarrow> dget e k | Some v \<Rightarrow> Some v)"
  by (simp add: map_add_def split: option.splits)

end
