(* ===== verification/Bitmap.thy ===== *)
theory Bitmap
  imports Crypto
begin

section \<open>Bitmaps with a rank directory\<close>

text \<open>
  The residual field and the bulk snapshot both store a bitmap over the ordinals (most
  significant bit first), a directory with the number of ones before every 512 bit block, and
  one payload byte per one. This theory models the two routines they share, \<open>_get_bit\<close> and
  \<open>_rank1\<close>, the loops that write and check the directory, and shows that \<open>_rank1\<close> counts
  the ones before an ordinal.

  \<open>numpy.packbits\<close> and \<open>numpy.unpackbits\<close> are not part of the repository: they are the
  fields of the record \<open>numpy\<close>, and what numpy documents of them is the locale
  \<open>numpy_bits\<close>. Arrays of zeros and ones are lists of booleans.
\<close>

abbreviation (input) RANK_BLOCK :: nat where "RANK_BLOCK \<equiv> 512"

record numpy =
  np_packbits :: "bool list \<Rightarrow> bytes"
  np_unpackbits :: "bytes \<Rightarrow> bool list"

text \<open>The bits of a byte, most significant first.\<close>

definition byte_bits :: "byte \<Rightarrow> bool list" where
  "byte_bits b = map (\<lambda>k. bit b (7 - k)) [0..<8]"

locale numpy_bits =
  fixes np :: numpy
  assumes unpackbits: "np_unpackbits np b = concat (map byte_bits b)"
    and packbits_length: "length (np_packbits np bs) = (length bs + 7) div 8"
    and unpack_packbits: "np_unpackbits np (np_packbits np bs)
      = bs @ replicate (8 * ((length bs + 7) div 8) - length bs) False"

text \<open>\<open>bits.sum()\<close>\<close>

definition count_true :: "bool list \<Rightarrow> nat" where
  "count_true bs = length (filter id bs)"

lemma count_true_simps [simp]:
  "count_true [] = 0"
  "count_true (b # bs) = (if b then 1 else 0) + count_true bs"
  "count_true (xs @ ys) = count_true xs + count_true ys"
  "count_true (replicate n False) = 0"
  by (simp_all add: count_true_def)

lemma count_true_le: "count_true bs \<le> length bs"
  by (simp add: count_true_def)

definition get_bit :: "bytes \<Rightarrow> nat \<Rightarrow> nat \<Rightarrow> bool" where
  "get_bit blob bitmap_off ordinal = bit (blob ! (bitmap_off + ordinal div 8)) (7 - ordinal mod 8)"

text \<open>\<open>bin(byte).count("1")\<close>\<close>

definition byte_popcount :: "byte \<Rightarrow> nat" where
  "byte_popcount b = length (filter (bit b) [0..<8])"

text \<open>The two loops of \<open>_rank1\<close>: whole bytes, then single bits.\<close>

function rank_bytes :: "bytes \<Rightarrow> nat \<Rightarrow> nat \<Rightarrow> nat \<Rightarrow> nat \<Rightarrow> nat \<times> nat" where
  "rank_bytes blob bitmap_off ordinal i cnt =
     (if i + 8 \<le> ordinal
      then rank_bytes blob bitmap_off ordinal (i + 8) (cnt + byte_popcount (blob ! (bitmap_off + i div 8)))
      else (i, cnt))"
  by pat_completeness auto
termination
  by (relation "measure (\<lambda>(b, f, ordinal, i, c). ordinal - i)") auto

function rank_bits :: "bytes \<Rightarrow> nat \<Rightarrow> nat \<Rightarrow> nat \<Rightarrow> nat \<Rightarrow> nat" where
  "rank_bits blob bitmap_off ordinal i cnt =
     (if i < ordinal
      then rank_bits blob bitmap_off ordinal (i + 1) (cnt + (if get_bit blob bitmap_off i then 1 else 0))
      else cnt)"
  by pat_completeness auto
termination
  by (relation "measure (\<lambda>(b, f, ordinal, i, c). ordinal - i)") auto

declare rank_bytes.simps [simp del] rank_bits.simps [simp del]

definition rank1 :: "bytes \<Rightarrow> nat \<Rightarrow> nat \<Rightarrow> nat \<Rightarrow> nat" where
  "rank1 blob bitmap_off rank_off ordinal =
     (let blk = ordinal div RANK_BLOCK;
          base = fi (struct_unpack [FU 4] (drop (rank_off + blk * 4) blob)) 0;
          (i, cnt) = rank_bytes blob bitmap_off ordinal (blk * RANK_BLOCK) 0
      in nat base + rank_bits blob bitmap_off ordinal i cnt)"

definition n_blocks :: "nat \<Rightarrow> nat" where
  "n_blocks fact_count = (fact_count + RANK_BLOCK - 1) div RANK_BLOCK"

text \<open>The directory \<open>build\<close> writes and the one the open checks, from block \<open>blk\<close> on.\<close>

fun rank_dir_from :: "bool list \<Rightarrow> nat \<Rightarrow> nat \<Rightarrow> nat \<Rightarrow> nat \<Rightarrow> nat list" where
  "rank_dir_from bits fact_count blk 0 acc = []"
| "rank_dir_from bits fact_count blk (Suc k) acc =
     (let lo = blk * RANK_BLOCK; hi = min ((blk + 1) * RANK_BLOCK) fact_count
      in acc # rank_dir_from bits fact_count (Suc blk) k (acc + count_true (slice bits lo hi)))"

definition rank_dir_bytes :: "nat list \<Rightarrow> bytes" where
  "rank_dir_bytes ns = concat (map (\<lambda>n. le_bytes 4 (int n)) ns)"

fun rank_dir_check :: "bytes \<Rightarrow> bool list \<Rightarrow> nat \<Rightarrow> nat \<Rightarrow> nat \<Rightarrow> nat \<Rightarrow> bool" where
  "rank_dir_check rank bits fact_count blk 0 acc = True"
| "rank_dir_check rank bits fact_count blk (Suc k) acc =
     (if le_int (slice rank (blk * 4) (blk * 4 + 4)) \<noteq> int acc then False
      else
        (let lo = blk * RANK_BLOCK; hi = min ((blk + 1) * RANK_BLOCK) fact_count
         in rank_dir_check rank bits fact_count (Suc blk) k (acc + count_true (slice bits lo hi))))"

text \<open>\<open>np.zeros(n)\<close> with ones at the given ordinals.\<close>

definition bits_of :: "nat \<Rightarrow> nat list \<Rightarrow> bool list" where
  "bits_of n ordinals = foldl (\<lambda>bs i. bs[i := True]) (replicate n False) ordinals"

text \<open>\<open>np.flatnonzero(bits[:fact_count])\<close>\<close>

definition flatnonzero :: "bool list \<Rightarrow> nat list" where
  "flatnonzero bs = filter (\<lambda>i. bs ! i) [0..<length bs]"

subsection \<open>Bits and counts\<close>

lemma length_byte_bits [simp]: "length (byte_bits b) = 8"
  by (simp add: byte_bits_def)

lemma length_concat_byte_bits [simp]: "length (concat (map byte_bits bm)) = 8 * length bm"
  by (induction bm) auto

lemma nth_concat_byte_bits:
  "i < 8 * length bm \<Longrightarrow> concat (map byte_bits bm) ! i = bit (bm ! (i div 8)) (7 - i mod 8)"
proof (induction bm arbitrary: i)
  case Nil
  then show ?case by simp
next
  case (Cons b bm)
  show ?case
  proof (cases "i < 8")
    case True
    then show ?thesis by (simp add: nth_append byte_bits_def del: upt_Suc)
  next
    case False
    then have "i div 8 = Suc ((i - 8) div 8)" "(i - 8) mod 8 = i mod 8"
      by (simp_all add: le_div_geq le_mod_geq)
    then show ?thesis using False Cons.IH [of "i - 8"] Cons.prems by (simp add: nth_append)
  qed
qed

lemma byte_popcount_bits: "byte_popcount b = count_true (byte_bits b)"
proof -
  have "byte_popcount b = length (filter (bit b) (rev [0..<8]))"
    by (simp add: byte_popcount_def rev_filter [symmetric])
  moreover have "byte_bits b = map (bit b) (rev [0..<8])"
    by (simp add: byte_bits_def upt_rec numeral_eq_Suc)
  ultimately show ?thesis by (simp add: count_true_def filter_map o_def id_def)
qed

text \<open>A bitmap inside a blob, as the list of its bits.\<close>

definition bitmap_at :: "bytes \<Rightarrow> nat \<Rightarrow> nat \<Rightarrow> bool list" where
  "bitmap_at blob off len = concat (map byte_bits (slice blob off (off + len)))"

lemma get_bit_at:
  assumes "o' < 8 * len" "off + len \<le> length blob"
  shows "get_bit blob off o' = bitmap_at blob off len ! o'"
proof -
  have "length (slice blob off (off + len)) = len" using assms by simp
  moreover have "o' div 8 < len" using assms by (simp add: less_mult_imp_div_less mult.commute)
  ultimately show ?thesis
    using assms by (simp add: bitmap_at_def nth_concat_byte_bits get_bit_def slice_def)
qed

lemma count_true_take_Suc: "i < length bs \<Longrightarrow> count_true (take (Suc i) bs) = count_true (take i bs) + (if bs ! i then 1 else 0)"
  by (simp add: take_Suc_conv_app_nth)

lemma rank_bits_count:
  assumes "ordinal \<le> 8 * len" "off + len \<le> length blob"
  shows "i \<le> ordinal \<Longrightarrow> rank_bits blob off ordinal i c + count_true (take i (bitmap_at blob off len))
    = c + count_true (take ordinal (bitmap_at blob off len))"
proof (induction "ordinal - i" arbitrary: i c)
  case 0
  then show ?case by (simp add: rank_bits.simps)
next
  case (Suc x)
  let ?B = "bitmap_at blob off len"
  have lb: "length ?B = 8 * len" using assms(2) by (simp add: bitmap_at_def)
  have i: "i < ordinal" using Suc by simp
  then have "i < length ?B" using assms(1) lb by simp
  then have "count_true (take (Suc i) ?B) = count_true (take i ?B) + (if get_bit blob off i then 1 else 0)"
    using get_bit_at [of i len off blob] assms lb by (simp add: count_true_take_Suc)
  then show ?case
    using Suc.hyps(1) [of "i + 1" "c + (if get_bit blob off i then 1 else 0)"] Suc.hyps(2) i
    by (subst rank_bits.simps) simp
qed

lemma take_bitmap_byte:
  assumes "j < len" "off + len \<le> length blob"
  shows "count_true (take (8 * j + 8) (bitmap_at blob off len))
    = count_true (take (8 * j) (bitmap_at blob off len)) + byte_popcount (blob ! (off + j))"
proof -
  let ?s = "slice blob off (off + len)"
  have l: "length ?s = len" using assms by simp
  have s: "?s = take j ?s @ ?s ! j # drop (Suc j) ?s" using assms l by (simp add: id_take_nth_drop)
  have lt: "length (concat (map byte_bits (take j ?s))) = 8 * j" using assms l by simp
  have "bitmap_at blob off len = concat (map byte_bits (take j ?s)) @ byte_bits (?s ! j) @ concat (map byte_bits (drop (Suc j) ?s))"
    unfolding bitmap_at_def by (subst s) simp
  moreover have "?s ! j = blob ! (off + j)" using assms by (simp add: slice_def)
  ultimately show ?thesis using lt by (simp add: byte_popcount_bits)
qed

lemma rank_bytes_count:
  assumes "ordinal \<le> 8 * len" "off + len \<le> length blob"
  shows "8 * j \<le> ordinal \<Longrightarrow> rank_bytes blob off ordinal (8 * j) c = (i, cnt) \<Longrightarrow>
    i \<le> ordinal \<and> cnt + count_true (take (8 * j) (bitmap_at blob off len))
      = c + count_true (take i (bitmap_at blob off len))"
proof (induction "ordinal - 8 * j" arbitrary: j c rule: less_induct)
  case less
  show ?case
  proof (cases "8 * j + 8 \<le> ordinal")
    case True
    then have j: "j < len" using assms(1) by simp
    have "rank_bytes blob off ordinal (8 * Suc j) (c + byte_popcount (blob ! (off + j))) = (i, cnt)"
      using less.prems(2) True by (subst (asm) rank_bytes.simps) (simp add: add.commute)
    from less.hyps [OF _ _ this] True take_bitmap_byte [OF j assms(2)]
    show ?thesis by (simp add: add.commute)
  next
    case False
    then show ?thesis using less.prems by (subst (asm) rank_bytes.simps) auto
  qed
qed

text \<open>The directory entry of a block counts the ones before it.\<close>

lemma rank_dir_check_entry:
  "rank_dir_check rank bits fc blk k acc \<Longrightarrow> acc = count_true (take (blk * RANK_BLOCK) bits) \<Longrightarrow>
   fc \<le> length bits \<Longrightarrow> blk + k \<le> n_blocks fc \<Longrightarrow> j < k \<Longrightarrow>
   le_int (slice rank ((blk + j) * 4) ((blk + j) * 4 + 4)) = int (count_true (take ((blk + j) * RANK_BLOCK) bits))"
proof (induction k arbitrary: blk acc j)
  case 0
  then show ?case by simp
next
  case (Suc k)
  show ?case
  proof (cases j)
    case 0
    then show ?thesis using Suc.prems(1,2) by (simp split: if_splits)
  next
    case (Suc j')
    have lt: "(blk + 1) * RANK_BLOCK \<le> fc"
      using Suc.prems(4,5) Suc by (simp add: n_blocks_def)
    let ?acc = "acc + count_true (slice bits (blk * RANK_BLOCK) (min ((blk + 1) * RANK_BLOCK) fc))"
    have "?acc = count_true (take (Suc blk * RANK_BLOCK) bits)"
    proof -
      have "take (Suc blk * RANK_BLOCK) bits = take (blk * RANK_BLOCK) bits @ slice bits (blk * RANK_BLOCK) ((blk + 1) * RANK_BLOCK)"
        by (simp add: slice_def take_add [symmetric] add.commute)
      then show ?thesis using Suc.prems(2) lt by (simp add: min_absorb1)
    qed
    then show ?thesis
      using Suc.IH [of "Suc blk" ?acc j'] Suc.prems Suc by (simp add: Let_def split: if_splits)
  qed
qed

text \<open>\<open>_rank1\<close> counts the ones before an ordinal.\<close>

lemma rank1_count:
  assumes o: "ordinal < fc" and len: "len = (fc + 7) div 8" "off + len \<le> length blob"
    and rk: "rank_off + 4 * n_blocks fc \<le> length blob"
    and ck: "rank_dir_check (slice blob rank_off (rank_off + 4 * n_blocks fc)) (bitmap_at blob off len) fc 0 (n_blocks fc) 0"
  shows "rank1 blob off rank_off ordinal = count_true (take ordinal (bitmap_at blob off len))"
proof -
  let ?blk = "ordinal div RANK_BLOCK" and ?B = "bitmap_at blob off len"
  have lB: "length ?B = 8 * len" using len(2) by (simp add: bitmap_at_def)
  have fl: "fc \<le> 8 * len" using len(1) by simp
  have blk: "?blk < n_blocks fc" using o by (simp add: n_blocks_def)
  have e: "le_int (slice (slice blob rank_off (rank_off + 4 * n_blocks fc)) (?blk * 4) (?blk * 4 + 4))
      = int (count_true (take (?blk * RANK_BLOCK) ?B))"
    using rank_dir_check_entry [OF ck, of ?blk] blk fl lB by simp
  have s: "slice (slice blob rank_off (rank_off + 4 * n_blocks fc)) (?blk * 4) (?blk * 4 + 4)
      = take 4 (drop (rank_off + ?blk * 4) blob)"
    using blk by (simp add: slice_def drop_take min_def add.commute)
  have base: "nat (fi (struct_unpack [FU 4] (drop (rank_off + ?blk * 4) blob)) 0) = count_true (take (?blk * RANK_BLOCK) ?B)"
    using e unfolding s by simp
  obtain i cnt where r: "rank_bytes blob off ordinal (?blk * RANK_BLOCK) 0 = (i, cnt)" by fastforce
  have r': "rank_bytes blob off ordinal (8 * (64 * ?blk)) 0 = (i, cnt)" using r by (simp add: mult.commute)
  have "8 * (64 * ?blk) \<le> ordinal" by simp
  from rank_bytes_count [OF _ len(2) this r'] o fl
  have i: "i \<le> ordinal" "cnt + count_true (take (?blk * RANK_BLOCK) ?B) = count_true (take i ?B)"
    by (simp_all add: mult.commute)
  have "rank_bits blob off ordinal i cnt + count_true (take i ?B) = cnt + count_true (take ordinal ?B)"
    using rank_bits_count [OF _ len(2) i(1), of cnt] o fl by simp
  then show ?thesis
    unfolding rank1_def Let_def r base prod.case using i(2) by linarith
qed

subsection \<open>Bitmaps built from ordinals\<close>

lemma bits_of_snoc: "bits_of n (ords @ [x]) = (bits_of n ords)[x := True]"
  by (simp add: bits_of_def)

lemma length_bits_of [simp]: "length (bits_of n ords) = n"
  by (induction ords rule: rev_induct) (simp add: bits_of_def, simp add: bits_of_snoc)

lemma bits_of_nth:
  "i < n \<Longrightarrow> \<forall>x \<in> set ords. x < n \<Longrightarrow> bits_of n ords ! i \<longleftrightarrow> i \<in> set ords"
proof (induction ords rule: rev_induct)
  case Nil
  then show ?case by (simp add: bits_of_def)
next
  case (snoc x ords)
  have "\<forall>x \<in> set ords. x < n" using snoc.prems(2) by simp
  from snoc.IH [OF snoc.prems(1) this] show ?case
    unfolding bits_of_snoc using snoc.prems(1) by (cases "x = i") auto
qed

lemma count_true_card: "count_true bs = card {i. i < length bs \<and> bs ! i}"
  by (simp add: count_true_def length_filter_conv_card)

lemma count_true_bits_of:
  assumes "distinct ords" "\<forall>x \<in> set ords. x < n" "k \<le> n"
  shows "count_true (take k (bits_of n ords)) = length (filter (\<lambda>x. x < k) ords)"
proof -
  have "{i. i < length (take k (bits_of n ords)) \<and> take k (bits_of n ords) ! i} = {x \<in> set ords. x < k}"
  proof (rule set_eqI)
    fix i
    show "i \<in> {i. i < length (take k (bits_of n ords)) \<and> take k (bits_of n ords) ! i} \<longleftrightarrow> i \<in> {x \<in> set ords. x < k}"
    proof (cases "i < k")
      case True
      then have "i < n" using assms(3) by simp
      from bits_of_nth [OF this assms(2)] show ?thesis using True assms(3) by simp
    next
      case False
      then show ?thesis by simp
    qed
  qed
  moreover have "card {x \<in> set ords. x < k} = length (filter (\<lambda>x. x < k) ords)"
    using distinct_card [OF distinct_filter [OF assms(1), of "\<lambda>x. x < k"]] by (simp only: set_filter)
  ultimately show ?thesis by (simp only: count_true_card)
qed

lemma count_true_bits_of_all:
  "distinct ords \<Longrightarrow> \<forall>x \<in> set ords. x < n \<Longrightarrow> count_true (bits_of n ords) = length ords"
  using count_true_bits_of [of ords n n] by (simp add: filter_id_conv)

lemma sorted_filter_rank:
  "sorted_wrt (<) ords \<Longrightarrow> i < length ords \<Longrightarrow> length (filter (\<lambda>x. x < ords ! i) ords) = i"
  for ords :: "nat list"
proof (induction ords arbitrary: i)
  case Nil
  then show ?case by simp
next
  case (Cons a ords)
  show ?case
  proof (cases i)
    case 0
    then have "filter (\<lambda>x. x < a) ords = []" using Cons.prems(1) by (auto simp: filter_empty_conv)
    then show ?thesis using 0 by simp
  next
    case (Suc j)
    then have "a < ords ! j" using Cons.prems by simp
    then show ?thesis using Suc Cons.IH [of j] Cons.prems by simp
  qed
qed

lemma length_rank_dir_from [simp]: "length (rank_dir_from bits fc blk k acc) = k"
  by (induction bits fc blk k acc rule: rank_dir_from.induct) (auto simp: Let_def)

lemma length_rank_dir_bytes [simp]: "length (rank_dir_bytes ns) = 4 * length ns"
  by (induction ns) (auto simp: rank_dir_bytes_def)

lemma slice_rank_dir_bytes:
  "j < length ns \<Longrightarrow> slice (rank_dir_bytes ns) (j * 4) (j * 4 + 4) = le_bytes 4 (int (ns ! j))"
proof (induction ns arbitrary: j)
  case Nil
  then show ?case by simp
next
  case (Cons n ns)
  have c: "rank_dir_bytes (n # ns) = le_bytes 4 (int n) @ rank_dir_bytes ns"
    by (simp add: rank_dir_bytes_def)
  show ?case
  proof (cases j)
    case 0
    then show ?thesis unfolding c by (simp add: slice_def)
  next
    case (Suc i)
    then show ?thesis
      unfolding c using Cons.IH [of i] Cons.prems by (simp add: slice_append_right add.commute)
  qed
qed

text \<open>The directory \<open>build\<close> writes passes the check of the open, padding bits ignored.\<close>

lemma rank_dir_check_built:
  assumes "length bits = fc" "fc < 2 ^ 32"
  shows "k = length ns \<Longrightarrow> blk + k \<le> length all \<Longrightarrow>
    ns = rank_dir_from bits fc blk k acc \<Longrightarrow> (\<forall>j < k. all ! (blk + j) = ns ! j) \<Longrightarrow>
    acc = count_true (take (blk * RANK_BLOCK) bits) \<Longrightarrow>
    rank_dir_check (rank_dir_bytes all) (bits @ pad) fc blk k acc"
proof (induction k arbitrary: blk acc ns)
  case 0
  then show ?case by simp
next
  case (Suc k)
  let ?lo = "blk * RANK_BLOCK" and ?hi = "min ((blk + 1) * RANK_BLOCK) fc"
  have "acc \<le> fc" using Suc.prems(5) count_true_le [of "take ?lo bits"] assms(1) by simp
  then have a: "int acc < 256 ^ 4" using assms(2) by simp
  have "all ! blk = acc" using Suc.prems(3) Suc.prems(4) [rule_format, of 0] by (simp add: Let_def)
  then have e: "le_int (slice (rank_dir_bytes all) (blk * 4) (blk * 4 + 4)) = int acc"
    using slice_rank_dir_bytes [of blk all] Suc.prems(2) a by simp
  let ?acc = "acc + count_true (slice bits ?lo ?hi)"
  have sl: "slice (bits @ pad) ?lo ?hi = slice bits ?lo ?hi"
    using assms(1) by (intro slice_append_left) simp
  have "take (Suc blk * RANK_BLOCK) bits = take ?lo bits @ slice bits ?lo ((blk + 1) * RANK_BLOCK)"
    by (simp add: slice_def take_add [symmetric] add.commute)
  moreover have "slice bits ?lo ((blk + 1) * RANK_BLOCK) = slice bits ?lo ?hi"
    using assms(1) by (simp add: slice_def min_def)
  ultimately have acc: "?acc = count_true (take (Suc blk * RANK_BLOCK) bits)"
    using Suc.prems(5) by simp
  obtain ns' where ns': "ns = acc # ns'" "ns' = rank_dir_from bits fc (Suc blk) k ?acc"
    using Suc.prems(3) by (simp add: Let_def)
  have "rank_dir_check (rank_dir_bytes all) (bits @ pad) fc (Suc blk) k ?acc"
    by (rule Suc.IH [OF _ _ ns'(2) _ acc])
      (use Suc.prems(1,2,4) ns' in \<open>auto simp: nth_Cons' split: if_splits\<close>)
  then show ?case using e sl by (simp add: Let_def)
qed

lemma rank_dir_check_build:
  assumes "length bits = fc" "fc < 2 ^ 32"
  defines "ns \<equiv> rank_dir_from bits fc 0 (n_blocks fc) 0"
  shows "rank_dir_check (rank_dir_bytes ns) (bits @ pad) fc 0 (n_blocks fc) 0"
  by (rule rank_dir_check_built [OF assms(1,2), of _ ns]) (simp_all add: ns_def)

subsection \<open>Ranked payloads\<close>

text \<open>What an open has validated of a bitmap with \<open>n\<close> ones and its directory.\<close>

definition ranked :: "bytes \<Rightarrow> nat \<Rightarrow> nat \<Rightarrow> nat \<Rightarrow> nat \<Rightarrow> bool" where
  "ranked blob bitmap_off rank_off fact_count n \<longleftrightarrow>
     rank_off = bitmap_off + (fact_count + 7) div 8 \<and>
     rank_off + 4 * n_blocks fact_count \<le> length blob \<and>
     count_true (bitmap_at blob bitmap_off ((fact_count + 7) div 8)) = n \<and>
     count_true (drop fact_count (bitmap_at blob bitmap_off ((fact_count + 7) div 8))) = 0 \<and>
     rank_dir_check (slice blob rank_off (rank_off + 4 * n_blocks fact_count))
       (bitmap_at blob bitmap_off ((fact_count + 7) div 8)) fact_count 0 (n_blocks fact_count) 0"

definition ranked_bits :: "bytes \<Rightarrow> nat \<Rightarrow> nat \<Rightarrow> bool list" where
  "ranked_bits blob bitmap_off fact_count = take fact_count (bitmap_at blob bitmap_off ((fact_count + 7) div 8))"

lemma length_bitmap_at: "off + len \<le> length blob \<Longrightarrow> length (bitmap_at blob off len) = 8 * len"
  by (simp add: bitmap_at_def)

lemma ranked_length:
  assumes "ranked blob bo ro fc n"
  shows "length (bitmap_at blob bo ((fc + 7) div 8)) = 8 * ((fc + 7) div 8)" "fc \<le> 8 * ((fc + 7) div 8)"
    "length (ranked_bits blob bo fc) = fc"
proof -
  have "bo + (fc + 7) div 8 \<le> length blob" using assms by (simp add: ranked_def)
  then show l: "length (bitmap_at blob bo ((fc + 7) div 8)) = 8 * ((fc + 7) div 8)"
    by (rule length_bitmap_at)
  show m: "fc \<le> 8 * ((fc + 7) div 8)" by simp
  show "length (ranked_bits blob bo fc) = fc"
    unfolding ranked_bits_def length_take l using m by (rule min_absorb2)
qed

lemma ranked_get_bit:
  assumes r: "ranked blob bo ro fc n" and o: "o' < fc"
  shows "get_bit blob bo o' = ranked_bits blob bo fc ! o'"
proof -
  have b: "bo + (fc + 7) div 8 \<le> length blob" using r by (simp add: ranked_def)
  have "o' < 8 * ((fc + 7) div 8)" using o ranked_length(2) [OF r] by linarith
  from get_bit_at [OF this b] show ?thesis using o by (simp add: ranked_bits_def)
qed

lemma ranked_rank1:
  assumes r: "ranked blob bo ro fc n" and o: "o' < fc"
  shows "rank1 blob bo ro o' = count_true (take o' (ranked_bits blob bo fc))"
proof -
  have b: "bo + (fc + 7) div 8 \<le> length blob" and rk: "ro + 4 * n_blocks fc \<le> length blob"
    and ck: "rank_dir_check (slice blob ro (ro + 4 * n_blocks fc)) (bitmap_at blob bo ((fc + 7) div 8)) fc 0 (n_blocks fc) 0"
    using r by (auto simp only: ranked_def)
  from rank1_count [OF o refl b rk ck] show ?thesis using o by (simp add: ranked_bits_def min_def)
qed

lemma ranked_count: "ranked blob bo ro fc n \<Longrightarrow> count_true (ranked_bits blob bo fc) = n"
proof -
  assume r: "ranked blob bo ro fc n"
  let ?B = "bitmap_at blob bo ((fc + 7) div 8)"
  have "count_true (take fc ?B @ drop fc ?B) = n" using r by (simp add: ranked_def)
  then show ?thesis using r by (simp only: count_true_simps(3) ranked_def ranked_bits_def)
qed

lemma count_true_take_less:
  assumes "i < length bs" "bs ! i"
  shows "count_true (take i bs) < count_true bs"
proof -
  have "count_true (take i bs @ bs ! i # drop (Suc i) bs) = count_true bs"
    using id_take_nth_drop [OF assms(1)] by simp
  then show ?thesis using assms(2) by simp
qed

text \<open>The payload index of a set bit lies inside the payload, and two set bits never share one.\<close>

lemma ranked_index:
  assumes r: "ranked blob bo ro fc n" and o: "o' < fc" "get_bit blob bo o'"
  shows "rank1 blob bo ro o' < n"
  using count_true_take_less [of o' "ranked_bits blob bo fc"] o ranked_length(3) [OF r]
    ranked_get_bit [OF r o(1)] ranked_count [OF r] ranked_rank1 [OF r o(1)] by simp

lemma count_true_take_mono:
  assumes "i < j" "j \<le> length bs" "bs ! i"
  shows "count_true (take i bs) < count_true (take j bs)"
  using count_true_take_less [of i "take j bs"] assms by (simp add: min_def)

lemma ranked_index_inj:
  assumes r: "ranked blob bo ro fc n" and o: "i < fc" "get_bit blob bo i" "j < fc" "get_bit blob bo j"
    and e: "rank1 blob bo ro i = rank1 blob bo ro j"
  shows "i = j"
proof (rule ccontr)
  let ?B = "ranked_bits blob bo fc"
  have b: "?B ! i" "?B ! j" "length ?B = fc"
    using ranked_get_bit [OF r] o ranked_length(3) [OF r] by simp_all
  have e': "count_true (take i ?B) = count_true (take j ?B)"
    using e ranked_rank1 [OF r] o by simp
  assume "i \<noteq> j"
  then consider "i < j" | "j < i" by linarith
  then show False
    by cases (use count_true_take_mono [of i j ?B] count_true_take_mono [of j i ?B] b o e' in simp_all)
qed

context numpy_bits
begin

lemma packbits_bitmap:
  "length pre = off \<Longrightarrow> len = (length bs + 7) div 8 \<Longrightarrow>
   bitmap_at (pre @ np_packbits np bs @ post) off len = bs @ replicate (8 * len - length bs) False"
  using unpack_packbits [of bs] packbits_length [of bs]
  by (simp add: bitmap_at_def slice_def unpackbits)

text \<open>The bitmap and directory \<open>build\<close> writes are ranked, one payload index per ordinal.\<close>

lemma ranked_build:
  assumes ords: "sorted_wrt (<) ords" "\<forall>x \<in> set ords. x < fc" and fc: "fc < 2 ^ 32"
    and blob: "blob = pre @ np_packbits np (bits_of fc ords)
        @ rank_dir_bytes (rank_dir_from (bits_of fc ords) fc 0 (n_blocks fc) 0) @ post"
    and bo: "bo = length pre" and ro: "ro = length pre + (fc + 7) div 8"
  shows "ranked blob bo ro fc (length ords)"
    and "ranked_bits blob bo fc = bits_of fc ords"
proof -
  let ?bits = "bits_of fc ords"
  let ?rd = "rank_dir_bytes (rank_dir_from ?bits fc 0 (n_blocks fc) 0)"
  let ?pad = "replicate (8 * ((fc + 7) div 8) - fc) False"
  have B: "bitmap_at blob bo ((fc + 7) div 8) = ?bits @ ?pad"
    unfolding blob bo using packbits_bitmap [of pre "length pre" "(fc + 7) div 8" ?bits] by simp
  show "ranked_bits blob bo fc = ?bits" unfolding ranked_bits_def B by simp
  have lp: "length (np_packbits np ?bits) = (fc + 7) div 8" using packbits_length [of ?bits] by simp
  have rd: "slice blob ro (ro + 4 * n_blocks fc) = ?rd"
    unfolding blob ro using lp by (simp add: slice_def)
  have d: "distinct ords" using ords(1) by (simp add: strict_sorted_iff)
  show "ranked blob bo ro fc (length ords)"
    unfolding ranked_def B rd
    using count_true_bits_of_all [OF d ords(2)] rank_dir_check_build [OF _ fc, of ?bits ?pad]
    by (simp add: blob bo ro lp)
qed

lemma unpack_slice: "np_unpackbits np (slice blob off (off + len)) = bitmap_at blob off len"
  by (simp add: unpackbits bitmap_at_def)

end

text \<open>A concrete \<open>packbits\<close>, which meets what numpy documents.\<close>

fun bits_byte :: "bool list \<Rightarrow> byte" where
  "bits_byte [] = 0"
| "bits_byte (b # bs) = (if b then push_bit (length bs) 1 else 0) OR bits_byte bs"

fun pack8 :: "nat \<Rightarrow> bool list \<Rightarrow> bytes" where
  "pack8 0 bs = []"
| "pack8 (Suc k) bs = bits_byte (take 8 bs @ replicate (8 - length bs) False) # pack8 k (drop 8 bs)"

definition np_concrete :: numpy where
  "np_concrete = \<lparr>np_packbits = (\<lambda>bs. pack8 ((length bs + 7) div 8) bs),
     np_unpackbits = (\<lambda>b. concat (map byte_bits b))\<rparr>"

lemma bit_bits_byte: "length bs \<le> 8 \<Longrightarrow> bit (bits_byte bs) k \<longleftrightarrow> k < length bs \<and> bs ! (length bs - 1 - k)"
proof (induction bs)
  case Nil
  then show ?case by simp
next
  case (Cons b bs)
  have "bit (push_bit (length bs) 1 :: byte) k \<longleftrightarrow> k = length bs"
    using Cons.prems by (auto simp: bit_exp_iff)
  then show ?case using Cons by (auto simp: bit_or_iff nth_Cons' not_less_eq less_Suc_eq)
qed

lemma byte_bits_bits_byte: "length bs = 8 \<Longrightarrow> byte_bits (bits_byte bs) = bs"
  by (rule nth_equalityI) (auto simp: byte_bits_def bit_bits_byte)

lemma concat_pack8:
  "length bs \<le> 8 * k \<Longrightarrow> concat (map byte_bits (pack8 k bs)) = bs @ replicate (8 * k - length bs) False"
proof (induction k arbitrary: bs)
  case 0
  then show ?case by simp
next
  case (Suc k)
  have h: "byte_bits (bits_byte (take 8 bs @ replicate (8 - length bs) False)) = take 8 bs @ replicate (8 - length bs) False"
    by (rule byte_bits_bits_byte) (simp add: min_def)
  have t: "concat (map byte_bits (pack8 k (drop 8 bs))) = drop 8 bs @ replicate (8 * k - (length bs - 8)) False"
    using Suc.IH [of "drop 8 bs"] Suc.prems by simp
  show ?case
  proof (cases "8 \<le> length bs")
    case True
    then have "8 * k - (length bs - 8) = 8 * Suc k - length bs" by simp
    then show ?thesis using h t True by (simp add: append_assoc [symmetric] del: append_assoc)
  next
    case False
    then have "replicate (8 - length bs) False @ replicate (8 * k) False = replicate (8 * Suc k - length bs) False"
      by (simp add: replicate_add [symmetric])
    then show ?thesis using h t False by simp
  qed
qed

lemma length_pack8 [simp]: "length (pack8 k bs) = k"
  by (induction k arbitrary: bs) auto

interpretation npc: numpy_bits np_concrete
  by unfold_locales (auto simp: np_concrete_def concat_pack8)

end
