(* ===== verification/Registry.thy ===== *)
theory Registry
  imports Crypto
begin

section \<open>The fact registry (\<open>FactRegistry\<close> of \<open>horizon_store.py\<close>)\<close>

text \<open>
  The authenticated map from fact ids to \<open>(ordinal, fact_version)\<close>: a 22 byte header, one
  16 byte entry per fact in ascending order of fact id, a 16 byte tag. Everything is validated
  when it is opened; lookups are a binary search over the bytes. The lemmas show that a lookup
  is the map of the entries, that no two facts share an ordinal, and that what \<open>build\<close>
  writes opens again with the same entries.
\<close>

definition REG_MAGIC :: bytes where "REG_MAGIC = [0x48, 0x52, 0x47, 0x31]"
abbreviation (input) REG_FORMAT_VERSION :: int where "REG_FORMAT_VERSION \<equiv> 2"
abbreviation (input) REG_HEADER :: "sfmt list" where
  "REG_HEADER \<equiv> [FS 4, FU 2, FU 4, FU 4, FU 4, FU 4]"
abbreviation (input) REG_ENTRY :: "sfmt list" where "REG_ENTRY \<equiv> [FU 8, FU 4, FU 4]"
abbreviation (input) REG_HEADER_SIZE :: nat where "REG_HEADER_SIZE \<equiv> 22"
abbreviation (input) REG_ENTRY_SIZE :: nat where "REG_ENTRY_SIZE \<equiv> 16"
abbreviation (input) MAX_REGISTRY_ENTRIES :: int where "MAX_REGISTRY_ENTRIES \<equiv> 0x1000000"
abbreviation (input) MAX_FACT_COUNT :: int where "MAX_FACT_COUNT \<equiv> 0x40000000"

definition REGISTRY_TAG :: bytes where
  "REGISTRY_TAG = [0x52, 0x45, 0x47, 0x49, 0x53, 0x54, 0x52, 0x59]"

record fact_registry =
  fr_blob :: bytes
  fr_key :: bytes
  fr_scope_id :: int
  fr_generation_id :: int
  fr_fact_count :: int
  fr_n_entries :: nat

definition reg_mac :: "bytes \<Rightarrow> bytes \<Rightarrow> bytes \<Rightarrow> bytes" where
  "reg_mac key header body = mac16 key (REGISTRY_TAG @ header @ body)"

text \<open>\<open>_REG_ENTRY.unpack_from(blob, entries_off + i * _REG_ENTRY.size)\<close>\<close>

definition reg_entry :: "bytes \<Rightarrow> nat \<Rightarrow> int \<times> int \<times> int" where
  "reg_entry blob i =
     (let x = struct_unpack REG_ENTRY (drop (REG_HEADER_SIZE + i * REG_ENTRY_SIZE) blob)
      in (fi x 0, fi x 1, fi x 2))"

definition reg_verify :: "bytes \<Rightarrow> bytes \<Rightarrow> nat \<Rightarrow> bool" where
  "reg_verify blob key n =
     (let tag_off = REG_HEADER_SIZE + n * REG_ENTRY_SIZE
      in reg_mac key (take REG_HEADER_SIZE blob) (slice blob REG_HEADER_SIZE tag_off)
         = slice blob tag_off (tag_off + TAG_BYTES))"

text \<open>The loop over the entries, \<open>k\<close> of them from index \<open>i\<close> on.\<close>

fun reg_check :: "bytes \<Rightarrow> int \<Rightarrow> nat \<Rightarrow> nat \<Rightarrow> int \<Rightarrow> int list \<Rightarrow> bool" where
  "reg_check blob fact_count i 0 prev_fid seen = True"
| "reg_check blob fact_count i (Suc k) prev_fid seen =
     (let (fid, ordinal, fver) = reg_entry blob i
      in if fid \<le> prev_fid then False
         else if \<not> (0 \<le> ordinal \<and> ordinal < fact_count) then False
         else if ordinal \<in> set seen then False
         else if fver < 1 then False
         else reg_check blob fact_count (Suc i) k fid (ordinal # seen))"

definition reg_open :: "bytes \<Rightarrow> bytes \<Rightarrow> open_exn + fact_registry" where
  "reg_open blob key =
     (if length blob < REG_HEADER_SIZE then Inl IntegrityError
      else
        (let x = struct_unpack REG_HEADER blob;
             magic = fb x 0; ver = fi x 1; scope = fi x 2; gen = fi x 3; fact_count = fi x 4;
             n = fi x 5
         in if magic \<noteq> REG_MAGIC then Inl IntegrityError
            else if ver \<noteq> REG_FORMAT_VERSION then Inl IncompatibleError
            else if n > MAX_REGISTRY_ENTRIES then Inl IntegrityError
            else if fact_count > MAX_FACT_COUNT then Inl IntegrityError
            else if length blob \<noteq> REG_HEADER_SIZE + nat n * REG_ENTRY_SIZE + TAG_BYTES
              then Inl IntegrityError
            else if \<not> reg_verify blob key (nat n) then Inl IntegrityError
            else if \<not> reg_check blob fact_count 0 (nat n) (-1) [] then Inl IntegrityError
            else Inr \<lparr>fr_blob = blob, fr_key = key, fr_scope_id = scope, fr_generation_id = gen,
                      fr_fact_count = fact_count, fr_n_entries = nat n\<rparr>))"

definition reg_row :: "int \<times> int \<times> int \<Rightarrow> sval list" where
  "reg_row e = [VI (fst e), VI (fst (snd e)), VI (snd (snd e))]"

definition pack_entries :: "(int \<times> int \<times> int) list \<Rightarrow> bytes option" where
  "pack_entries es = pack_rows REG_ENTRY (map reg_row es)"

text \<open>\<open>build\<close>: the mapping is a dictionary, \<open>sorted(mapping.items())\<close> its entries.\<close>

definition reg_build ::
  "(int, int \<times> int) pydict \<Rightarrow> int \<Rightarrow> int \<Rightarrow> int \<Rightarrow> bytes \<Rightarrow> open_exn + fact_registry" where
  "reg_build mapping scope_id generation_id fact_count key =
     (let items = sort_key fst mapping
      in case struct_pack REG_HEADER
               [VB REG_MAGIC, VI REG_FORMAT_VERSION, VI scope_id, VI generation_id, VI fact_count,
                VI (int (length items))] of
           None \<Rightarrow> Inl PackError
         | Some header \<Rightarrow>
             (case pack_entries items of
                None \<Rightarrow> Inl PackError
              | Some body \<Rightarrow> reg_open (header @ body @ reg_mac key header body) key))"

definition reg_lookup :: "fact_registry \<Rightarrow> int \<Rightarrow> (int \<times> int) option" where
  "reg_lookup r fact_id = bsearch (reg_entry (fr_blob r)) fact_id 0 (fr_n_entries r)"

definition reg_iter_entries :: "fact_registry \<Rightarrow> (int \<times> int \<times> int) list" where
  "reg_iter_entries r = map (reg_entry (fr_blob r)) [0..<fr_n_entries r]"

definition reg_ordinals :: "fact_registry \<Rightarrow> int set" where
  "reg_ordinals r = set (map (\<lambda>i. fst (snd (reg_entry (fr_blob r) i))) [0..<fr_n_entries r])"

definition reg_try_open :: "bytes option \<Rightarrow> bytes \<Rightarrow> fact_registry option" where
  "reg_try_open blob key =
     (case blob of
        None \<Rightarrow> None
      | Some b \<Rightarrow> (case reg_open b key of Inl _ \<Rightarrow> None | Inr r \<Rightarrow> Some r))"

subsection \<open>What an open registry guarantees\<close>

lemma reg_check_entries:
  "reg_check blob fc i k prev seen \<Longrightarrow> es = map (reg_entry blob) [i..<i + k] \<Longrightarrow>
     sorted_wrt (<) (map fst es) \<and> (\<forall>e \<in> set es. prev < fst e) \<and>
     distinct (map (\<lambda>e. fst (snd e)) es) \<and> (\<forall>e \<in> set es. fst (snd e) \<notin> set seen) \<and>
     (\<forall>e \<in> set es. 0 \<le> fst (snd e) \<and> fst (snd e) < fc \<and> 1 \<le> snd (snd e))"
proof (induction k arbitrary: i prev seen es)
  case 0
  then show ?case by simp
next
  case (Suc k)
  obtain fid ordinal fver where e: "reg_entry blob i = (fid, ordinal, fver)" by (cases "reg_entry blob i") auto
  from Suc.prems(1) e have c: "prev < fid" "0 \<le> ordinal" "ordinal < fc" "ordinal \<notin> set seen" "1 \<le> fver"
    and r: "reg_check blob fc (Suc i) k fid (ordinal # seen)"
    by (auto split: if_splits)
  define T where "T = map (reg_entry blob) [Suc i..<Suc i + k]"
  have u: "es = (fid, ordinal, fver) # T"
    using Suc.prems(2) e by (simp add: upt_conv_Cons T_def del: upt_Suc)
  from Suc.IH [OF r T_def] have ih: "sorted_wrt (<) (map fst T)" "\<And>e. e \<in> set T \<Longrightarrow> fid < fst e"
    "distinct (map (\<lambda>e. fst (snd e)) T)" "\<And>e. e \<in> set T \<Longrightarrow> fst (snd e) \<notin> set (ordinal # seen)"
    "\<And>e. e \<in> set T \<Longrightarrow> 0 \<le> fst (snd e) \<and> fst (snd e) < fc \<and> 1 \<le> snd (snd e)"
    by blast+
  have "ordinal \<notin> fst ` snd ` set T" using ih(4) by fastforce
  moreover have "prev < fst e" if "e \<in> set T" for e using ih(2) [OF that] c(1) by simp
  ultimately show ?case
    unfolding u using ih c by (auto simp: image_iff)
qed

text \<open>What an open registry guarantees of its entries.\<close>

definition reg_valid :: "fact_registry \<Rightarrow> bool" where
  "reg_valid r \<longleftrightarrow>
     sorted_wrt (<) (map fst (reg_iter_entries r)) \<and>
     distinct (map (\<lambda>e. fst (snd e)) (reg_iter_entries r)) \<and>
     (\<forall>e \<in> set (reg_iter_entries r).
        0 \<le> fst e \<and> 0 \<le> fst (snd e) \<and> fst (snd e) < fr_fact_count r \<and> 1 \<le> snd (snd e))"

lemma reg_open_valid: "reg_open blob key = Inr r \<Longrightarrow> reg_valid r"
proof -
  assume o: "reg_open blob key = Inr r"
  then have "reg_check (fr_blob r) (fr_fact_count r) 0 (fr_n_entries r) (-1) []"
    unfolding reg_open_def Let_def
    by (auto simp del: struct_unpack.simps reg_check.simps split: if_split_asm)
  note c = reg_check_entries [OF this refl, simplified add_0, folded reg_iter_entries_def]
  have "0 \<le> fst e" if e: "e \<in> set (reg_iter_entries r)" for e
  proof -
    have "-1 < fst e" using c e by blast
    then show ?thesis by simp
  qed
  then show ?thesis unfolding reg_valid_def using c by blast
qed

lemma reg_build_valid: "reg_build m sc gn fc key = Inr r \<Longrightarrow> reg_valid r"
  unfolding reg_build_def Let_def by (auto split: option.splits intro: reg_open_valid)

lemma reg_build_reopens:
  assumes "reg_build m sc gn fc key = Inr r"
  shows "reg_open (fr_blob r) key = Inr r"
proof -
  obtain blob where b: "reg_open blob key = Inr r"
    using assms by (auto simp: reg_build_def Let_def split: option.splits)
  moreover have "fr_blob r = blob" using b unfolding reg_open_def Let_def
    by (auto simp del: struct_unpack.simps reg_check.simps split: if_split_asm)
  ultimately show ?thesis by simp
qed

subsection \<open>The binary search is the map of the entries\<close>

lemma reg_lookup_map_of: "reg_valid r \<Longrightarrow> reg_lookup r f = map_of (reg_iter_entries r) f"
  unfolding reg_lookup_def reg_iter_entries_def
  by (rule bsearch_map_of) (simp add: reg_valid_def reg_iter_entries_def)

lemma reg_lookup_inj:
  assumes v: "reg_valid r" and l: "reg_lookup r f = Some (i, v1)" "reg_lookup r g = Some (i, v2)"
  shows "f = g"
proof -
  have m: "(f, i, v1) \<in> set (reg_iter_entries r)" "(g, i, v2) \<in> set (reg_iter_entries r)"
    using l by (auto simp: reg_lookup_map_of [OF v] dest: map_of_SomeD)
  have "inj_on (\<lambda>e. fst (snd e)) (set (reg_iter_entries r))"
    using v by (simp add: reg_valid_def distinct_map)
  from inj_onD [OF this _ m] show ?thesis by simp
qed

lemma reg_lookup_bounds:
  assumes "reg_valid r" "reg_lookup r f = Some (i, v)"
  shows "0 \<le> i \<and> i < fr_fact_count r \<and> 1 \<le> v \<and> i \<in> reg_ordinals r"
proof -
  have "(f, i, v) \<in> set (reg_iter_entries r)"
    using assms by (auto simp: reg_lookup_map_of dest: map_of_SomeD)
  note e = this
  have "i \<in> (\<lambda>e. fst (snd e)) ` set (reg_iter_entries r)" using e by (rule rev_image_eqI) simp
  then have "i \<in> reg_ordinals r" by (simp add: reg_ordinals_def reg_iter_entries_def image_image)
  moreover have "0 \<le> i \<and> i < fr_fact_count r \<and> 1 \<le> v"
    using assms(1) e unfolding reg_valid_def by (metis fst_conv snd_conv)
  ultimately show ?thesis by blast
qed

subsection \<open>Build and open\<close>

lemma reg_entry_packed:
  assumes "pack_entries es = Some body" "\<forall>e \<in> set es. list_all2 fits REG_ENTRY (reg_row e)"
    "i < length es" "length h = REG_HEADER_SIZE"
  shows "reg_entry (h @ body @ t) i = es ! i"
proof -
  have d: "drop (REG_HEADER_SIZE + i * REG_ENTRY_SIZE) (h @ body @ t) = drop (i * struct_size REG_ENTRY) (body @ t)"
    using assms(4) by simp
  have "struct_unpack REG_ENTRY (drop (i * struct_size REG_ENTRY) (body @ t)) = reg_row (es ! i)"
    using pack_rows_nth [OF assms(1) [unfolded pack_entries_def], of i t] assms(2,3) by simp
  then show ?thesis
    unfolding reg_entry_def Let_def d by (simp add: reg_row_def del: struct_unpack.simps drop_append)
qed

lemma pack_entries_length: "pack_entries es = Some body \<Longrightarrow> length body = length es * REG_ENTRY_SIZE"
  unfolding pack_entries_def by (drule pack_rows_length) simp

lemma reg_check_complete:
  "sorted_wrt (<) (map fst es) \<Longrightarrow> distinct (map (\<lambda>e. fst (snd e)) es) \<Longrightarrow>
   \<forall>e \<in> set es. prev < fst e \<and> fst (snd e) \<notin> set seen \<and> 0 \<le> fst (snd e) \<and> fst (snd e) < fc \<and> 1 \<le> snd (snd e) \<Longrightarrow>
   (\<forall>j < length es. reg_entry blob (i + j) = es ! j) \<Longrightarrow>
   reg_check blob fc i (length es) prev seen"
proof (induction es arbitrary: i prev seen)
  case Nil
  then show ?case by simp
next
  case (Cons e es)
  obtain fid ordinal fver where e: "e = (fid, ordinal, fver)" by (cases e) auto
  have "reg_entry blob i = e" using Cons.prems(4) by (metis add_0_right length_greater_0_conv list.distinct(1) nth_Cons_0)
  moreover have "reg_entry blob (Suc i + j) = es ! j" if "j < length es" for j
    using Cons.prems(4) [rule_format, of "Suc j"] that by simp
  moreover have "ordinal \<notin> (\<lambda>e. fst (snd e)) ` set es" using Cons.prems(2) by (simp add: e)
  ultimately show ?case
    using Cons.prems Cons.IH [of fid "ordinal # seen" "Suc i"] by (auto simp: e image_iff)
qed

text \<open>The dictionaries \<open>build\<close> is called with: every field in range, no ordinal twice.\<close>

definition reg_mapping_ok :: "(int, int \<times> int) pydict \<Rightarrow> int \<Rightarrow> bool" where
  "reg_mapping_ok m fc \<longleftrightarrow> distinct (dkeys m) \<and> distinct (map (\<lambda>e. fst (snd e)) m) \<and>
     int (length m) \<le> MAX_REGISTRY_ENTRIES \<and>
     (\<forall>(fid, ordinal, fver) \<in> set m. 0 \<le> fid \<and> fid < 2 ^ 64 \<and> 0 \<le> ordinal \<and> ordinal < fc \<and>
        1 \<le> fver \<and> fver < 2 ^ 32)"

lemma reg_rows_fit:
  assumes "reg_mapping_ok m fc" "fc \<le> MAX_FACT_COUNT"
  shows "\<forall>e \<in> set m. list_all2 fits REG_ENTRY (reg_row e)"
  using assms by (fastforce simp: reg_mapping_ok_def reg_row_def)

lemma sort_key_dict:
  assumes "distinct (dkeys m)"
  shows "sorted_wrt (<) (map fst (sort_key fst m))" "map_of (sort_key fst m) = map_of m"
proof -
  have d: "distinct (map fst (sort_key fst m))"
    using assms by (metis distinct_map distinct_sort set_sort)
  then show "sorted_wrt (<) (map fst (sort_key fst m))"
    by (simp add: strict_sorted_iff)
  show "map_of (sort_key fst m) = map_of m"
  proof
    fix k
    show "map_of (sort_key fst m) k = map_of m k"
      using d assms by (metis (no_types, lifting) map_of_eq_None_iff map_of_eq_Some_iff not_Some_eq set_map set_sort)
  qed
qed

lemma reg_build_opens:
  assumes m: "reg_mapping_ok m fc" and fc: "fc \<le> MAX_FACT_COUNT"
    and ids: "0 \<le> sc" "sc < 2 ^ 32" "0 \<le> gn" "gn < 2 ^ 32" "0 \<le> fc"
  shows "\<exists>r. reg_build m sc gn fc key = Inr r \<and> fr_scope_id r = sc \<and> fr_generation_id r = gn \<and>
    fr_fact_count r = fc \<and> reg_iter_entries r = sort_key fst m"
proof -
  let ?es = "sort_key fst m"
  let ?vs = "[VB REG_MAGIC, VI 2, VI sc, VI gn, VI fc, VI (int (length m))]"
  have f: "list_all2 fits REG_HEADER ?vs"
    using fc ids m by (simp add: reg_mapping_ok_def REG_MAGIC_def)
  obtain h where h: "struct_pack REG_HEADER ?vs = Some h" using fits_struct_pack [OF f] by blast
  have lh: "length h = 22" using struct_pack_length [OF h] by simp
  obtain body where body: "pack_entries ?es = Some body"
  proof -
    have "\<forall>r \<in> set (map reg_row ?es). list_all2 fits REG_ENTRY r"
      using reg_rows_fit [OF m fc] by (simp only: set_map set_sort) blast
    from pack_rows_fits [OF this] show ?thesis using that unfolding pack_entries_def by blast
  qed
  have lb: "length body = length m * 16" using pack_entries_length [OF body] by simp
  let ?blob = "h @ body @ reg_mac key h body"
  have un: "struct_unpack REG_HEADER ?blob = ?vs" by (rule struct_unpack_pack [OF h f])
  have en: "reg_entry ?blob i = ?es ! i" if "i < length m" for i
    using reg_entry_packed [OF body _ _ lh] reg_rows_fit [OF m fc] that by simp
  have "reg_verify ?blob key (length m)"
    using lh lb by (simp add: reg_verify_def Let_def slice_def reg_mac_def)
  moreover have "reg_check ?blob fc 0 (length ?es) (-1) []"
    using m sort_key_dict(1) [of m] en
    by (intro reg_check_complete) (fastforce simp: reg_mapping_ok_def distinct_map)+
  ultimately have "reg_open ?blob key = Inr \<lparr>fr_blob = ?blob, fr_key = key, fr_scope_id = sc,
      fr_generation_id = gn, fr_fact_count = fc, fr_n_entries = length m\<rparr>"
    unfolding reg_open_def Let_def un
    using m fc lh lb by (simp add: reg_mapping_ok_def reg_mac_def)
  moreover have "reg_build m sc gn fc key = reg_open ?blob key"
    unfolding reg_build_def Let_def by (simp add: h body del: struct_pack.simps)
  moreover have "map (reg_entry ?blob) [0..<length m] = ?es"
    using en by (intro nth_equalityI) auto
  ultimately show ?thesis by (simp add: reg_iter_entries_def)
qed

lemma reg_build_lookup:
  assumes "reg_mapping_ok m fc" "fc \<le> MAX_FACT_COUNT"
    "0 \<le> sc" "sc < 2 ^ 32" "0 \<le> gn" "gn < 2 ^ 32" "0 \<le> fc"
  shows "\<exists>r. reg_build m sc gn fc key = Inr r \<and> reg_valid r \<and> reg_lookup r = map_of m \<and>
    fr_scope_id r = sc \<and> fr_generation_id r = gn \<and> fr_fact_count r = fc"
proof -
  from reg_build_opens [OF assms, of key] obtain r where r: "reg_build m sc gn fc key = Inr r"
    "fr_scope_id r = sc" "fr_generation_id r = gn" "fr_fact_count r = fc"
    "reg_iter_entries r = sort_key fst m"
    by blast
  have "reg_lookup r = map_of m"
    using reg_lookup_map_of [OF reg_build_valid [OF r(1)]] r(5) sort_key_dict(2) assms(1)
    by (auto simp: reg_mapping_ok_def fun_eq_iff)
  then show ?thesis using r reg_build_valid by blast
qed

end
