(* ===== verification/Residual.thy ===== *)
theory Residual
  imports Bitmap Registry
begin

section \<open>The residual field and the tombstone layer (\<open>residual_field.py\<close>)\<close>

text \<open>
  \<open>ResidualField\<close> is a blob: header, support bitmap, rank directory, payload in pages, a
  tag per page, a manifest tag. It is validated once when it is opened; a lookup then verifies
  the page it reads. \<open>TombstoneLayer\<close> is the authenticated set of deleted facts that
  shadows it, \<open>resolve\<close> the layered read.

  Reads of the blob that Python checks (an index past its end, \<open>unpack_from\<close> on a short
  buffer) are explicit branches of \<open>rf_lookup\<close>. The lemmas show that they cannot be
  taken on a field that was opened, that a lookup is the map of the corrections the field was
  built from, and that a deleted fact never reaches the field.
\<close>

definition RF_MAGIC :: bytes where "RF_MAGIC = [0x48, 0x52, 0x46, 0x31]"
abbreviation (input) RF_FORMAT_VERSION :: int where "RF_FORMAT_VERSION \<equiv> 1"
abbreviation (input) RF_HEADER :: "sfmt list" where
  "RF_HEADER \<equiv> [FS 4, FU 2, FU 4, FU 4, FU 4, FU 4, FU 4, FU 1]"
abbreviation (input) RF_HEADER_SIZE :: nat where "RF_HEADER_SIZE \<equiv> 27"
abbreviation (input) PAYLOAD_RAW_U8 :: int where "PAYLOAD_RAW_U8 \<equiv> 0"

definition MANIFEST_TAG :: bytes where
  "MANIFEST_TAG = [0x4D, 0x41, 0x4E, 0x49, 0x46, 0x45, 0x53, 0x54]"

text \<open>The statuses of a read.\<close>

datatype rstatus = CORRECT | NO_RESIDUAL | DELETED | FALLBACK
  | ABSTAIN_INTEGRITY | ABSTAIN_SCOPE | ABSTAIN_EPOCH | OUT_OF_RANGE

record residual_field =
  rf_blob :: bytes
  rf_key :: bytes
  rf_format_version :: int
  rf_scope_id :: int
  rf_bulk_epoch :: int
  rf_fact_count :: nat
  rf_page_size_bytes :: nat
  rf_n_corrections :: nat
  rf_payload_kind :: int

subsection \<open>Layout and tags\<close>

text \<open>The offsets \<open>_parse\<close> computes.\<close>

abbreviation (input) rf_bitmap_off :: nat where "rf_bitmap_off \<equiv> RF_HEADER_SIZE"
definition rf_rank_off :: "residual_field \<Rightarrow> nat" where
  "rf_rank_off f = rf_bitmap_off + (rf_fact_count f + 7) div 8"
definition rf_payload_off :: "residual_field \<Rightarrow> nat" where
  "rf_payload_off f = rf_rank_off f + n_blocks (rf_fact_count f) * 4"
definition rf_n_pages :: "residual_field \<Rightarrow> nat" where
  "rf_n_pages f = (if rf_n_corrections f \<noteq> 0
     then (rf_n_corrections f + rf_page_size_bytes f - 1) div rf_page_size_bytes f else 0)"
definition rf_page_tags_off :: "residual_field \<Rightarrow> nat" where
  "rf_page_tags_off f = rf_payload_off f + rf_n_corrections f"
definition rf_manifest_off :: "residual_field \<Rightarrow> nat" where
  "rf_manifest_off f = rf_page_tags_off f + rf_n_pages f * TAG_BYTES"

definition rf_page_mac :: "bytes \<Rightarrow> int \<Rightarrow> int \<Rightarrow> int \<Rightarrow> nat \<Rightarrow> bytes \<Rightarrow> bytes" where
  "rf_page_mac key ver scope epoch page_index page =
     mac16 key (le_bytes 2 ver @ le_bytes 4 scope @ le_bytes 4 epoch @ le_bytes 4 (int page_index) @ page)"

definition rf_manifest_mac :: "bytes \<Rightarrow> bytes \<Rightarrow> bytes \<Rightarrow> bytes \<Rightarrow> bytes \<Rightarrow> bytes" where
  "rf_manifest_mac key header bitmap rank_dir page_tags =
     mac16 key (MANIFEST_TAG @ header @ bitmap @ rank_dir @ page_tags)"

definition rf_verify_manifest :: "residual_field \<Rightarrow> bool" where
  "rf_verify_manifest f =
     (let b = rf_blob f;
          expected = rf_manifest_mac (rf_key f) (take RF_HEADER_SIZE b)
            (slice b rf_bitmap_off (rf_rank_off f)) (slice b (rf_rank_off f) (rf_payload_off f))
            (slice b (rf_page_tags_off f) (rf_manifest_off f))
      in expected = slice b (rf_manifest_off f) (rf_manifest_off f + TAG_BYTES))"

definition rf_verify_page :: "residual_field \<Rightarrow> nat \<Rightarrow> bool" where
  "rf_verify_page f page_index =
     (let b = rf_blob f;
          off = rf_payload_off f + page_index * rf_page_size_bytes f;
          en = min (off + rf_page_size_bytes f) (rf_payload_off f + rf_n_corrections f);
          t = rf_page_tags_off f + page_index * TAG_BYTES
      in rf_page_mac (rf_key f) (rf_format_version f) (rf_scope_id f) (rf_bulk_epoch f) page_index
           (slice b off en) = slice b t (t + TAG_BYTES))"

subsection \<open>Open\<close>

definition rf_parse :: "bytes \<Rightarrow> bytes \<Rightarrow> open_exn + residual_field" where
  "rf_parse blob key =
     (if length blob < RF_HEADER_SIZE then Inl IntegrityError
      else
        (let x = struct_unpack RF_HEADER blob;
             f = \<lparr>rf_blob = blob, rf_key = key, rf_format_version = fi x 1, rf_scope_id = fi x 2,
                  rf_bulk_epoch = fi x 3, rf_fact_count = nat (fi x 4),
                  rf_page_size_bytes = nat (fi x 5), rf_n_corrections = nat (fi x 6),
                  rf_payload_kind = fi x 7\<rparr>
         in if fb x 0 \<noteq> RF_MAGIC then Inl IntegrityError
            else if rf_format_version f \<noteq> RF_FORMAT_VERSION then Inl IncompatibleError
            else if rf_payload_kind f \<noteq> PAYLOAD_RAW_U8 then Inl IncompatibleError
            else if rf_page_size_bytes f = 0 then Inl IntegrityError
            else if rf_n_corrections f > rf_fact_count f then Inl IntegrityError
            else if length blob \<noteq> rf_manifest_off f + TAG_BYTES then Inl IntegrityError
            else Inr f))"

definition rf_validate :: "numpy \<Rightarrow> residual_field \<Rightarrow> bool" where
  "rf_validate np f =
     (let b = rf_blob f; fact_count = rf_fact_count f;
          bits = np_unpackbits np (slice b rf_bitmap_off (rf_rank_off f));
          rank = slice b (rf_rank_off f) (rf_payload_off f)
      in if \<not> rf_verify_manifest f then False
         else if count_true bits \<noteq> rf_n_corrections f then False
         else if length bits > fact_count \<and> count_true (drop fact_count bits) \<noteq> 0 then False
         else rank_dir_check rank bits fact_count 0 (n_blocks fact_count) 0)"

definition rf_open :: "numpy \<Rightarrow> bytes \<Rightarrow> bytes \<Rightarrow> open_exn + residual_field" where
  "rf_open np blob key =
     (case rf_parse blob key of
        Inl e \<Rightarrow> Inl e
      | Inr f \<Rightarrow> if rf_validate np f then Inr f else Inl IntegrityError)"

definition rf_try_open :: "numpy \<Rightarrow> bytes \<Rightarrow> bytes \<Rightarrow> residual_field option" where
  "rf_try_open np blob key = (case rf_open np blob key of Inl _ \<Rightarrow> None | Inr f \<Rightarrow> Some f)"

subsection \<open>Build\<close>

text \<open>The tags of the pages of a payload, \<open>range(0, len(payload), page_size_bytes)\<close>.\<close>

definition rf_page_tags :: "bytes \<Rightarrow> int \<Rightarrow> int \<Rightarrow> nat \<Rightarrow> bytes \<Rightarrow> bytes" where
  "rf_page_tags key scope_id bulk_epoch page_size payload =
     concat (map (\<lambda>pidx. rf_page_mac key RF_FORMAT_VERSION scope_id bulk_epoch pidx
                    (slice payload (pidx * page_size) (pidx * page_size + page_size)))
       [0..<(length payload + page_size - 1) div page_size])"

definition rf_build ::
  "numpy \<Rightarrow> int \<Rightarrow> (int, int) pydict \<Rightarrow> int \<Rightarrow> int \<Rightarrow> int \<Rightarrow> bytes \<Rightarrow> open_exn + residual_field" where
  "rf_build np fact_count corrections page_size scope_id bulk_epoch key =
     (let items = sort_key fst corrections; ordinals = map fst items; n = length ordinals
      in if \<exists>x \<in> set ordinals. \<not> (0 \<le> x \<and> x < fact_count) then Inl IntegrityError
         else if fact_count < 0 then Inl ValueError
         else
           (let fc = nat fact_count;
                bits = bits_of fc (map nat ordinals);
                bitmap = np_packbits np bits;
                rank_dir = rank_dir_bytes (rank_dir_from bits fc 0 (n_blocks fc) 0);
                payload = map (\<lambda>(o', v). word_of_int v) items
            in case struct_pack RF_HEADER [VB RF_MAGIC, VI RF_FORMAT_VERSION, VI scope_id,
                      VI bulk_epoch, VI fact_count, VI page_size, VI (int n), VI PAYLOAD_RAW_U8] of
                 None \<Rightarrow> Inl PackError
               | Some header \<Rightarrow>
                   if page_size = 0 then Inl ValueError
                   else
                     (let tags = rf_page_tags key scope_id bulk_epoch (nat page_size) payload;
                          manifest = rf_manifest_mac key header bitmap rank_dir tags
                      in rf_open np (header @ bitmap @ rank_dir @ payload @ tags @ manifest) key)))"

subsection \<open>Lookup\<close>

definition rf_lookup :: "residual_field \<Rightarrow> int \<Rightarrow> int \<Rightarrow> int \<Rightarrow> open_exn + (rstatus \<times> int option)" where
  "rf_lookup f fact_id scope_id bulk_epoch =
     (let b = rf_blob f; ordinal = nat fact_id
      in if scope_id \<noteq> rf_scope_id f then Inr (ABSTAIN_SCOPE, None)
         else if bulk_epoch \<noteq> rf_bulk_epoch f then Inr (ABSTAIN_EPOCH, None)
         else if fact_id < 0 \<or> fact_id \<ge> int (rf_fact_count f) then Inr (OUT_OF_RANGE, None)
         else if length b \<le> rf_bitmap_off + ordinal div 8 then Inl IndexError
         else if \<not> get_bit b rf_bitmap_off ordinal then Inr (NO_RESIDUAL, None)
         else if length b < rf_rank_off f + ordinal div RANK_BLOCK * 4 + 4 then Inl PackError
         else
           (let index = rank1 b rf_bitmap_off (rf_rank_off f) ordinal
            in if index \<ge> rf_n_corrections f then Inr (ABSTAIN_INTEGRITY, None)
               else if \<not> rf_verify_page f (index div rf_page_size_bytes f)
                 then Inr (ABSTAIN_INTEGRITY, None)
               else if length b \<le> rf_payload_off f + index then Inl IndexError
               else Inr (CORRECT, Some (uint (b ! (rf_payload_off f + index))))))"

definition rf_safe_lookup :: "residual_field \<Rightarrow> int \<Rightarrow> int \<Rightarrow> int \<Rightarrow> rstatus \<times> int option" where
  "rf_safe_lookup f fact_id scope_id bulk_epoch =
     (case rf_lookup f fact_id scope_id bulk_epoch of
        Inl _ \<Rightarrow> (ABSTAIN_INTEGRITY, None)
      | Inr r \<Rightarrow> r)"

definition rf_support_ordinals :: "numpy \<Rightarrow> residual_field \<Rightarrow> nat set" where
  "rf_support_ordinals np f =
     (let bitmap = slice (rf_blob f) rf_bitmap_off (rf_rank_off f);
          bits = (if bitmap \<noteq> [] then np_unpackbits np bitmap else [])
      in set (flatnonzero (take (rf_fact_count f) bits)))"

definition rf_n_bits :: "residual_field \<Rightarrow> nat" where
  "rf_n_bits f = length (rf_blob f) * 8"

definition estimate_blob_bits :: "nat \<Rightarrow> nat \<Rightarrow> nat \<Rightarrow> nat" where
  "estimate_blob_bits fact_count n_corrections page_size_bytes =
     (let header = RF_HEADER_SIZE; bitmap = (fact_count + 7) div 8;
          rank_dir = (fact_count + RANK_BLOCK - 1) div RANK_BLOCK * 4;
          n_pages = (if n_corrections \<noteq> 0
            then (n_corrections + page_size_bytes - 1) div page_size_bytes else 0)
      in (header + bitmap + rank_dir + n_corrections + n_pages * TAG_BYTES + TAG_BYTES) * 8)"

subsection \<open>What an open field guarantees\<close>

lemma rf_offsets:
  "rf_payload_off f = rf_rank_off f + 4 * n_blocks (rf_fact_count f)"
  "rf_page_tags_off f = rf_payload_off f + rf_n_corrections f"
  by (simp_all add: rf_payload_off_def rf_page_tags_off_def)

definition rf_valid :: "residual_field \<Rightarrow> bool" where
  "rf_valid f \<longleftrightarrow>
     length (rf_blob f) = rf_manifest_off f + TAG_BYTES \<and> 0 < rf_page_size_bytes f \<and>
     rf_n_corrections f \<le> rf_fact_count f \<and> rf_verify_manifest f \<and>
     rf_format_version f = RF_FORMAT_VERSION \<and> rf_fact_count f < 2 ^ 32 \<and>
     ranked (rf_blob f) rf_bitmap_off (rf_rank_off f) (rf_fact_count f) (rf_n_corrections f)"

lemma nat_field_bound: "RF_HEADER_SIZE \<le> length b \<Longrightarrow> nat (fi (struct_unpack RF_HEADER b) 4) < 2 ^ 32"
  using le_int_bound [of "take 4 (drop 14 b)"] by (simp add: nat_less_iff)

lemma rf_parse_ok:
  assumes "rf_parse blob key = Inr f"
  shows "rf_blob f = blob \<and> rf_key f = key \<and> length blob = rf_manifest_off f + TAG_BYTES \<and>
    0 < rf_page_size_bytes f \<and> rf_n_corrections f \<le> rf_fact_count f \<and>
    rf_format_version f = RF_FORMAT_VERSION \<and> rf_fact_count f < 2 ^ 32"
  using assms nat_field_bound [of blob] unfolding rf_parse_def Let_def
  by (auto simp del: struct_unpack.simps split: if_split_asm)

context numpy_bits
begin

lemma rf_open_valid:
  assumes "rf_open np blob key = Inr f"
  shows "rf_valid f" "rf_blob f = blob" "rf_key f = key"
proof -
  have p: "rf_parse blob key = Inr f" and v: "rf_validate np f"
    using assms unfolding rf_open_def by (auto split: sum.splits if_split_asm)
  note h = rf_parse_ok [OF p]
  then show "rf_blob f = blob" "rf_key f = key" by simp_all
  let ?fc = "rf_fact_count f" and ?b = "rf_blob f"
  have bits: "np_unpackbits np (slice ?b rf_bitmap_off (rf_rank_off f)) = bitmap_at ?b rf_bitmap_off ((?fc + 7) div 8)"
    unfolding rf_rank_off_def by (rule unpack_slice)
  have v': "rf_verify_manifest f" "count_true (bitmap_at ?b rf_bitmap_off ((?fc + 7) div 8)) = rf_n_corrections f"
    "\<not> (length (bitmap_at ?b rf_bitmap_off ((?fc + 7) div 8)) > ?fc \<and>
       count_true (drop ?fc (bitmap_at ?b rf_bitmap_off ((?fc + 7) div 8))) \<noteq> 0)"
    "rank_dir_check (slice ?b (rf_rank_off f) (rf_payload_off f))
       (bitmap_at ?b rf_bitmap_off ((?fc + 7) div 8)) ?fc 0 (n_blocks ?fc) 0"
    using v unfolding rf_validate_def Let_def bits by (auto split: if_split_asm)
  have pad: "count_true (drop ?fc (bitmap_at ?b rf_bitmap_off ((?fc + 7) div 8))) = 0"
    using v'(3) by (cases "length (bitmap_at ?b rf_bitmap_off ((?fc + 7) div 8)) > ?fc") simp_all
  have len: "rf_rank_off f + 4 * n_blocks ?fc \<le> length ?b"
    using h by (simp add: rf_offsets rf_manifest_off_def)
  have "ranked ?b rf_bitmap_off (rf_rank_off f) ?fc (rf_n_corrections f)"
    unfolding ranked_def using v' pad len by (simp add: rf_rank_off_def rf_offsets)
  then show "rf_valid f" unfolding rf_valid_def using h v' by simp
qed

end

subsection \<open>The lookup\<close>

definition rf_bits :: "residual_field \<Rightarrow> bool list" where
  "rf_bits f = ranked_bits (rf_blob f) rf_bitmap_off (rf_fact_count f)"

definition rf_index :: "residual_field \<Rightarrow> nat \<Rightarrow> nat" where
  "rf_index f i = count_true (take i (rf_bits f))"

definition rf_payload :: "residual_field \<Rightarrow> bytes" where
  "rf_payload f = slice (rf_blob f) (rf_payload_off f) (rf_page_tags_off f)"

text \<open>What a lookup on an open field answers: no exception, and no index past the payload.\<close>

definition rf_answer :: "residual_field \<Rightarrow> int \<Rightarrow> int \<Rightarrow> int \<Rightarrow> rstatus \<times> int option" where
  "rf_answer f fact_id scope_id bulk_epoch =
     (if scope_id \<noteq> rf_scope_id f then (ABSTAIN_SCOPE, None)
      else if bulk_epoch \<noteq> rf_bulk_epoch f then (ABSTAIN_EPOCH, None)
      else if fact_id < 0 \<or> int (rf_fact_count f) \<le> fact_id then (OUT_OF_RANGE, None)
      else if \<not> rf_bits f ! nat fact_id then (NO_RESIDUAL, None)
      else if rf_verify_page f (rf_index f (nat fact_id) div rf_page_size_bytes f)
        then (CORRECT, Some (uint (rf_payload f ! rf_index f (nat fact_id))))
      else (ABSTAIN_INTEGRITY, None))"

lemma rf_valid_lengths:
  assumes "rf_valid f"
  shows "length (rf_payload f) = rf_n_corrections f"
    "rf_payload_off f + rf_n_corrections f \<le> length (rf_blob f)"
    "length (rf_bits f) = rf_fact_count f"
proof -
  show l: "rf_payload_off f + rf_n_corrections f \<le> length (rf_blob f)"
    using assms by (simp add: rf_valid_def rf_manifest_off_def rf_page_tags_off_def)
  then show "length (rf_payload f) = rf_n_corrections f"
    by (simp add: rf_payload_def rf_page_tags_off_def)
  show "length (rf_bits f) = rf_fact_count f"
    using assms ranked_length(3) unfolding rf_bits_def rf_valid_def by blast
qed

lemma rf_lookup_answer:
  assumes v: "rf_valid f"
  shows "rf_lookup f fact_id scope_id bulk_epoch = Inr (rf_answer f fact_id scope_id bulk_epoch)"
proof (cases "0 \<le> fact_id \<and> fact_id < int (rf_fact_count f)")
  case False
  then show ?thesis by (auto simp: rf_lookup_def rf_answer_def Let_def)
next
  case True
  let ?b = "rf_blob f" and ?i = "nat fact_id" and ?fc = "rf_fact_count f"
  have i: "?i < ?fc" using True by auto
  have r: "ranked ?b rf_bitmap_off (rf_rank_off f) ?fc (rf_n_corrections f)"
    using v by (simp add: rf_valid_def)
  have g: "get_bit ?b rf_bitmap_off ?i = rf_bits f ! ?i" unfolding rf_bits_def by (rule ranked_get_bit [OF r i])
  have k: "rank1 ?b rf_bitmap_off (rf_rank_off f) ?i = rf_index f ?i"
    unfolding rf_index_def rf_bits_def by (rule ranked_rank1 [OF r i])
  have a: "\<not> length ?b \<le> rf_bitmap_off + ?i div 8"
    using r i unfolding ranked_def rf_rank_off_def by linarith
  have "?i div RANK_BLOCK < n_blocks ?fc" using i by (simp add: n_blocks_def)
  then have c: "\<not> length ?b < rf_rank_off f + ?i div RANK_BLOCK * 4 + 4"
    using r unfolding ranked_def by linarith
  have idx: "rf_bits f ! ?i \<Longrightarrow> rf_index f ?i < rf_n_corrections f"
    using ranked_index [OF r i] g k by simp
  have p: "rf_payload f ! rf_index f ?i = ?b ! (rf_payload_off f + rf_index f ?i)"
    if "rf_bits f ! ?i"
    using idx [OF that] rf_valid_lengths(2) [OF v]
    by (simp add: rf_payload_def rf_page_tags_off_def slice_def)
  have q: "\<not> length ?b \<le> rf_payload_off f + rf_index f ?i" if "rf_bits f ! ?i"
    using idx [OF that] rf_valid_lengths(2) [OF v] by linarith
  show ?thesis
    using True a c idx p q unfolding rf_lookup_def rf_answer_def Let_def g k
    by (auto simp: not_le)
qed

lemma rf_index_bound:
  assumes v: "rf_valid f" and i: "0 \<le> i" "i < int (rf_fact_count f)" "rf_bits f ! nat i"
  shows "rf_index f (nat i) < length (rf_payload f)"
proof -
  note l = rf_valid_lengths [OF v]
  have "count_true (rf_bits f) = rf_n_corrections f"
    using v ranked_count unfolding rf_bits_def rf_valid_def by blast
  then show ?thesis
    using count_true_take_less [of "nat i" "rf_bits f"] i l by (simp add: rf_index_def nat_less_iff)
qed

lemma rf_safe_lookup_answer: "rf_valid f \<Longrightarrow> rf_safe_lookup f i s e = rf_answer f i s e"
  by (simp add: rf_safe_lookup_def rf_lookup_answer)

subsection \<open>Build and open\<close>

text \<open>The dictionaries \<open>build\<close> accepts, and its sorted items.\<close>

definition ordinal_dict :: "(int, int) pydict \<Rightarrow> int \<Rightarrow> bool" where
  "ordinal_dict m fact_count \<longleftrightarrow> distinct (dkeys m) \<and> (\<forall>k \<in> set (dkeys m). 0 \<le> k \<and> k < fact_count)"

definition dict_ordinals :: "(int, int) pydict \<Rightarrow> nat list" where
  "dict_ordinals m = map (\<lambda>e. nat (fst e)) (sort_key fst m)"

lemma dict_ordinals_sorted:
  assumes "ordinal_dict m fc"
  shows "sorted_wrt (<) (dict_ordinals m)" "\<forall>x \<in> set (dict_ordinals m). x < nat fc"
    "length (dict_ordinals m) = length m" "length m \<le> nat fc"
proof -
  have s: "sorted_wrt (<) (map fst (sort_key fst m))"
    using assms by (intro sort_key_dict) (simp add: ordinal_dict_def)
  have "sorted_wrt (\<lambda>a b. nat a < nat b) (map fst (sort_key fst m))"
    by (rule sorted_wrt_mono_rel [OF _ s]) (use assms in \<open>auto simp: ordinal_dict_def\<close>)
  then show w: "sorted_wrt (<) (dict_ordinals m)"
    by (simp add: dict_ordinals_def sorted_wrt_map)
  show b: "\<forall>x \<in> set (dict_ordinals m). x < nat fc"
    using assms by (auto simp: dict_ordinals_def ordinal_dict_def)
  show l: "length (dict_ordinals m) = length m" by (simp add: dict_ordinals_def)
  have "distinct (dict_ordinals m)" using w by (simp add: strict_sorted_iff)
  then have "length (dict_ordinals m) = card (set (dict_ordinals m))" by (simp add: distinct_card)
  also have "\<dots> \<le> card {..<nat fc}" using b by (intro card_mono) auto
  finally show "length m \<le> nat fc" using l by simp
qed

lemma dict_ordinals_nth: "j < length m \<Longrightarrow> dict_ordinals m ! j = nat (fst (sort_key fst m ! j))"
  by (simp add: dict_ordinals_def)

lemma dict_ordinals_mem:
  assumes "ordinal_dict m fc" "0 \<le> i"
  shows "nat i \<in> set (dict_ordinals m) \<longleftrightarrow> dget m i \<noteq> None"
proof -
  have "nat i = nat k \<longleftrightarrow> i = k" if "k \<in> fst ` set m" for k
    using assms that by (auto simp: ordinal_dict_def)
  then show ?thesis
    by (auto simp: dict_ordinals_def map_of_eq_None_iff image_iff)
qed

text \<open>The \<open>j\<close>-th item of the sorted dictionary sits at payload index \<open>j\<close>.\<close>

lemma dict_ordinals_rank:
  assumes m: "ordinal_dict m fc" and d: "dget m i = Some v"
  obtains j where "j < length m" "sort_key fst m ! j = (i, v)"
    "count_true (take (nat i) (bits_of (nat fc) (dict_ordinals m))) = j"
proof -
  have "map_of (sort_key fst m) i = Some v"
    using d m sort_key_dict(2) [of m] by (simp add: ordinal_dict_def)
  then obtain j where j: "j < length m" "sort_key fst m ! j = (i, v)"
    by (metis in_set_conv_nth length_sort map_of_SomeD)
  note s = dict_ordinals_sorted [OF m]
  have n: "dict_ordinals m ! j = nat i" using dict_ordinals_nth [OF j(1)] j(2) by simp
  then have "nat i < nat fc" using s(2,3) j(1) by (metis nth_mem)
  then have le: "nat i \<le> nat fc" by (rule less_imp_le)
  have d: "distinct (dict_ordinals m)" using s(1) by (simp add: strict_sorted_iff)
  have "count_true (take (nat i) (bits_of (nat fc) (dict_ordinals m)))
      = length (filter (\<lambda>x. x < nat i) (dict_ordinals m))"
    by (rule count_true_bits_of [OF d s(2) le])
  also have "\<dots> = j"
    using sorted_filter_rank [OF s(1), of j] s(3) j(1) n by simp
  finally show ?thesis using that j by blast
qed

lemma length_rf_page_tags [simp]:
  "length (rf_page_tags key sc ep ps payload) = (length payload + ps - 1) div ps * 16"
  using length_concat_const [of "map (\<lambda>p. rf_page_mac key RF_FORMAT_VERSION sc ep p
    (slice payload (p * ps) (p * ps + ps))) [0..<(length payload + ps - 1) div ps]" 16]
  by (simp add: rf_page_tags_def rf_page_mac_def)

lemma slice_rf_page_tags:
  "p < (length payload + ps - 1) div ps \<Longrightarrow>
   slice (rf_page_tags key sc ep ps payload) (p * 16) (p * 16 + 16)
     = rf_page_mac key RF_FORMAT_VERSION sc ep p (slice payload (p * ps) (p * ps + ps))"
  unfolding rf_page_tags_def
  by (subst slice_concat_const) (simp_all add: rf_page_mac_def)

lemma slice_min: "length xs \<le> n \<Longrightarrow> slice xs i (min j n) = slice xs i j"
  by (cases "j \<le> n") (auto simp: slice_def min_def)

lemma slice_shift: "slice xs (a + i) (a + j) = slice (drop a xs) i j"
  by (simp add: slice_def add.commute)

lemma slice_take: "j \<le> n \<Longrightarrow> slice (take n xs) i j = slice xs i j"
  by (simp add: slice_def drop_take min_def)


text \<open>What \<open>build\<close> returns: the corrections, in order of their ordinals, every page
  and the manifest authenticated.\<close>

definition rf_built :: "residual_field \<Rightarrow> (int, int) pydict \<Rightarrow> int \<Rightarrow> bool" where
  "rf_built f m fact_count \<longleftrightarrow>
     rf_valid f \<and> rf_fact_count f = nat fact_count \<and>
     rf_bits f = bits_of (nat fact_count) (dict_ordinals m) \<and>
     rf_payload f = map (\<lambda>(i, v). word_of_int v) (sort_key fst m) \<and>
     (\<forall>p < rf_n_pages f. rf_verify_page f p)"

context numpy_bits
begin

lemma rf_build_opens:
  assumes m: "ordinal_dict m fc" and fc: "0 \<le> fc" "fc < 2 ^ 32" and ps: "0 < ps" "ps < 2 ^ 32"
    and ids: "0 \<le> sc" "sc < 2 ^ 32" "0 \<le> ep" "ep < 2 ^ 32"
  shows "\<exists>f. rf_build np fc m ps sc ep key = Inr f \<and> rf_built f m fc \<and>
    rf_scope_id f = sc \<and> rf_bulk_epoch f = ep \<and> rf_page_size_bytes f = nat ps"
proof -
  note s = dict_ordinals_sorted [OF m]
  define n where "n = length m"
  have nfc: "n \<le> nat fc" using s(4) by (simp add: n_def)
  let ?vs = "[VB RF_MAGIC, VI 1, VI sc, VI ep, VI fc, VI ps, VI (int n), VI 0]"
  have fits: "list_all2 fits RF_HEADER ?vs"
    using nfc fc ps ids by (simp add: RF_MAGIC_def nat_le_iff le_nat_iff)
  obtain h where h: "struct_pack RF_HEADER ?vs = Some h" using fits_struct_pack [OF fits] by blast
  have lh: "length h = 27" using struct_pack_length [OF h] by simp
  define bits where "bits = bits_of (nat fc) (dict_ordinals m)"
  define bm where "bm = np_packbits np bits"
  define rd where "rd = rank_dir_bytes (rank_dir_from bits (nat fc) 0 (n_blocks (nat fc)) 0)"
  define pl :: bytes where "pl = map (\<lambda>(i, v). word_of_int v) (sort_key fst m)"
  define tags where "tags = rf_page_tags key sc ep (nat ps) pl"
  define mf where "mf = rf_manifest_mac key h bm rd tags"
  define blob where "blob = h @ bm @ rd @ pl @ tags @ mf"
  have lens: "length bm = (nat fc + 7) div 8" "length rd = 4 * n_blocks (nat fc)" "length pl = n"
    "length tags = (n + nat ps - 1) div nat ps * 16" "length mf = 16"
    by (simp_all add: bm_def packbits_length bits_def rd_def pl_def n_def tags_def mf_def rf_manifest_mac_def)
  have un: "struct_unpack RF_HEADER blob = ?vs" unfolding blob_def by (rule struct_unpack_pack [OF h fits])
  define f where "f = \<lparr>rf_blob = blob, rf_key = key, rf_format_version = 1, rf_scope_id = sc,
      rf_bulk_epoch = ep, rf_fact_count = nat fc, rf_page_size_bytes = nat ps, rf_n_corrections = n,
      rf_payload_kind = 0\<rparr>"
  have ff: "rf_blob f = blob" "rf_key f = key" "rf_format_version f = 1" "rf_scope_id f = sc"
    "rf_bulk_epoch f = ep" "rf_fact_count f = nat fc" "rf_page_size_bytes f = nat ps"
    "rf_n_corrections f = n" "rf_payload_kind f = 0"
    by (simp_all add: f_def)
  have np: "rf_n_pages f = (n + nat ps - 1) div nat ps" using ps by (simp add: rf_n_pages_def ff)
  have off: "rf_rank_off f = 27 + length bm" "rf_payload_off f = 27 + length bm + length rd"
    "rf_page_tags_off f = 27 + length bm + length rd + length pl"
    "rf_manifest_off f = 27 + length bm + length rd + length pl + length tags"
    by (simp_all add: rf_rank_off_def rf_payload_off_def rf_page_tags_off_def rf_manifest_off_def np lens ff)
  have lblob: "length blob = rf_manifest_off f + 16" by (simp add: blob_def off lens lh)
  have rec: "\<lparr>rf_blob = blob, rf_key = key, rf_format_version = fi ?vs 1, rf_scope_id = fi ?vs 2,
      rf_bulk_epoch = fi ?vs 3, rf_fact_count = nat (fi ?vs 4), rf_page_size_bytes = nat (fi ?vs 5),
      rf_n_corrections = nat (fi ?vs 6), rf_payload_kind = fi ?vs 7\<rparr> = f"
    by (simp add: f_def)
  have parse: "rf_parse blob key = Inr f"
    unfolding rf_parse_def Let_def un rec using lblob ff nfc ps lh by (simp add: blob_def)
  have sl: "take 27 blob = h" "slice blob 27 (27 + length bm) = bm"
    "slice blob (27 + length bm) (27 + length bm + length rd) = rd"
    "slice blob (27 + length bm + length rd) (27 + length bm + length rd + length pl) = pl"
    "slice blob (27 + length bm + length rd + length pl) (27 + length bm + length rd + length pl + length tags) = tags"
    by (simp_all add: blob_def lh slice_def)
  have mft: "slice blob (rf_manifest_off f) (rf_manifest_off f + 16) = mf"
    unfolding off by (simp add: blob_def lh slice_def lens(5))
  have vm: "rf_verify_manifest f"
    unfolding rf_verify_manifest_def Let_def ff mft unfolding off sl by (simp add: mf_def)
  have rb: "ranked blob 27 (rf_rank_off f) (nat fc) n" "ranked_bits blob 27 (nat fc) = bits"
    using ranked_build [OF s(1,2), of blob h "pl @ tags @ mf" 27 "rf_rank_off f"] fc lh off(1) lens(1) s(3)
    by (simp_all add: blob_def bm_def rd_def bits_def n_def nat_less_iff)
  have pay: "rf_payload f = pl" unfolding rf_payload_def ff off by (simp add: sl)
  have valid: "rf_valid f"
    unfolding rf_valid_def ff using lblob ps nfc vm fc rb(1) by (simp add: nat_less_iff)
  have val: "rf_validate np f"
  proof -
    have b: "np_unpackbits np (slice blob 27 (rf_rank_off f)) = bitmap_at blob 27 ((nat fc + 7) div 8)"
      unfolding rf_rank_off_def ff by (rule unpack_slice)
    let ?B = "bitmap_at blob 27 ((nat fc + 7) div 8)"
    have "count_true ?B = n" "count_true (drop (nat fc) ?B) = 0"
      "rank_dir_check (slice blob (rf_rank_off f) (rf_rank_off f + 4 * n_blocks (nat fc))) ?B (nat fc) 0
        (n_blocks (nat fc)) 0"
      using rb(1) by (auto simp only: ranked_def)
    then show ?thesis
      unfolding rf_validate_def Let_def ff b rf_offsets using vm by simp
  qed
  have pages: "rf_verify_page f p" if "p < rf_n_pages f" for p
  proof -
    have p: "p < (length pl + nat ps - 1) div nat ps" using that np lens(3) by simp
    have "slice blob (rf_payload_off f + p * nat ps) (min (rf_payload_off f + p * nat ps + nat ps) (rf_payload_off f + n))
        = slice blob (rf_payload_off f + p * nat ps) (rf_payload_off f + min (p * nat ps + nat ps) n)"
      by (simp only: min_add_distrib_right add.assoc)
    also have "\<dots> = slice (pl @ tags @ mf) (p * nat ps) (min (p * nat ps + nat ps) n)"
      unfolding slice_shift by (simp add: off blob_def lh)
    also have "\<dots> = slice pl (p * nat ps) (min (p * nat ps + nat ps) n)"
      by (rule slice_append_left) (simp add: lens)
    also have "\<dots> = slice pl (p * nat ps) (p * nat ps + nat ps)" by (rule slice_min) (simp add: lens)
    finally have "slice blob (rf_payload_off f + p * nat ps) (min (rf_payload_off f + p * nat ps + nat ps) (rf_payload_off f + n))
        = slice pl (p * nat ps) (p * nat ps + nat ps)" .
    moreover have "slice blob (rf_page_tags_off f + p * 16) (rf_page_tags_off f + p * 16 + 16)
        = slice tags (p * 16) (p * 16 + 16)"
    proof -
      have "p * 16 + 16 \<le> length tags" using p lens(3,4) by simp
      then have "slice (tags @ mf) (p * 16) (p * 16 + 16) = slice tags (p * 16) (p * 16 + 16)"
        by (rule slice_append_left)
      moreover have "drop (rf_page_tags_off f) blob = tags @ mf" by (simp add: off blob_def lh)
      ultimately show ?thesis
        using slice_shift [of blob "rf_page_tags_off f" "p * 16" "p * 16 + 16"] by (simp add: add.assoc)
    qed
    ultimately show ?thesis
      unfolding rf_verify_page_def Let_def ff using slice_rf_page_tags [OF p, of key sc ep]
      by (simp add: tags_def)
  qed
  have op: "rf_open np blob key = Inr f" unfolding rf_open_def by (simp add: parse val)
  have "fst e \<in> set (dkeys m)" if "e \<in> set m" for e using that by simp
  then have rng: "\<not> (\<exists>x \<in> set (map fst (sort_key fst m)). \<not> (0 \<le> x \<and> x < fc))"
    using m by (auto simp: ordinal_dict_def)
  have ords: "map nat (map fst (sort_key fst m)) = dict_ordinals m" by (simp add: dict_ordinals_def)
  have ln: "length (map fst (sort_key fst m)) = n" by (simp add: n_def)
  have "rf_build np fc m ps sc ep key = rf_open np blob key"
    unfolding rf_build_def Let_def ords ln h option.case using rng fc(1) ps(1)
    by (simp add: blob_def mf_def tags_def pl_def rd_def bm_def bits_def)
  then show ?thesis
    using op valid rb(2) pay pages ff by (auto simp: rf_built_def rf_bits_def bits_def pl_def)
qed

end

text \<open>The field answers with the corrections it was built from.\<close>

definition corrections_answer :: "(int, int) pydict \<Rightarrow> int \<Rightarrow> int \<Rightarrow> rstatus \<times> int option" where
  "corrections_answer m fact_count fact_id =
     (if fact_id < 0 \<or> fact_count \<le> fact_id then (OUT_OF_RANGE, None)
      else case dget m fact_id of
             None \<Rightarrow> (NO_RESIDUAL, None)
           | Some v \<Rightarrow> (CORRECT, Some (v mod 256)))"

lemma rf_index_page:
  assumes "rf_valid f" "k < rf_n_corrections f"
  shows "k div rf_page_size_bytes f < rf_n_pages f"
proof -
  have p: "0 < rf_page_size_bytes f" using assms(1) by (simp add: rf_valid_def)
  define q where "q = k div rf_page_size_bytes f * rf_page_size_bytes f"
  have "q \<le> k" by (simp add: q_def)
  then have "rf_page_size_bytes f + q \<le> rf_n_corrections f + rf_page_size_bytes f - 1"
    using assms(2) by linarith
  then have "Suc (k div rf_page_size_bytes f) * rf_page_size_bytes f
      \<le> rf_n_corrections f + rf_page_size_bytes f - 1"
    by (simp add: q_def)
  then have "Suc (k div rf_page_size_bytes f) \<le> (rf_n_corrections f + rf_page_size_bytes f - 1) div rf_page_size_bytes f"
    using p by (simp add: less_eq_div_iff_mult_less_eq)
  then show ?thesis using assms(2) by (simp add: rf_n_pages_def)
qed

lemma rf_built_answer:
  assumes b: "rf_built f m fc" and m: "ordinal_dict m fc"
  shows "rf_answer f i (rf_scope_id f) (rf_bulk_epoch f) = corrections_answer m fc i"
proof (cases "0 \<le> i \<and> i < fc")
  case False
  then show ?thesis using b by (auto simp: rf_answer_def corrections_answer_def rf_built_def)
next
  case True
  note s = dict_ordinals_sorted [OF m]
  have B: "rf_bits f = bits_of (nat fc) (dict_ordinals m)" and v: "rf_valid f" and fcn: "rf_fact_count f = nat fc"
    using b by (simp_all add: rf_built_def)
  have i: "nat i < nat fc" using True by auto
  have bit: "rf_bits f ! nat i \<longleftrightarrow> dget m i \<noteq> None"
    unfolding B using bits_of_nth [OF i s(2)] dict_ordinals_mem [OF m, of i] True by simp
  show ?thesis
  proof (cases "dget m i")
    case None
    then show ?thesis using True bit fcn by (simp add: rf_answer_def corrections_answer_def)
  next
    case (Some w)
    obtain j where j: "j < length m" "sort_key fst m ! j = (i, w)" "rf_index f (nat i) = j"
      using dict_ordinals_rank [OF m Some] unfolding rf_index_def B by blast
    have pl: "rf_payload f ! j = word_of_int w" using b j by (simp add: rf_built_def)
    have "length (rf_payload f) = length m" using b by (simp add: rf_built_def)
    then have "j < rf_n_corrections f" using rf_valid_lengths(1) [OF v] j(1) by simp
    then have "rf_verify_page f (j div rf_page_size_bytes f)"
      using rf_index_page [OF v] b by (simp add: rf_built_def)
    then show ?thesis
      using True bit fcn Some j(3) pl by (simp add: rf_answer_def corrections_answer_def uint_word_of_int)
  qed
qed

lemma rf_valid_n_bits:
  "rf_valid f \<Longrightarrow> rf_n_bits f = estimate_blob_bits (rf_fact_count f) (rf_n_corrections f) (rf_page_size_bytes f)"
  by (simp add: rf_valid_def rf_n_bits_def estimate_blob_bits_def rf_manifest_off_def rf_page_tags_off_def
      rf_payload_off_def rf_rank_off_def rf_n_pages_def n_blocks_def Let_def)

lemma set_flatnonzero: "set (flatnonzero bs) = {i. i < length bs \<and> bs ! i}"
  by (auto simp: flatnonzero_def)

context numpy_bits
begin

lemma rf_support:
  assumes v: "rf_valid f"
  shows "rf_support_ordinals np f = {i. i < rf_fact_count f \<and> rf_bits f ! i}"
proof -
  have "take (rf_fact_count f) (if slice (rf_blob f) rf_bitmap_off (rf_rank_off f) \<noteq> []
      then np_unpackbits np (slice (rf_blob f) rf_bitmap_off (rf_rank_off f)) else []) = rf_bits f"
    unfolding rf_rank_off_def rf_bits_def ranked_bits_def unpack_slice
    by (simp add: bitmap_at_def)
  then show ?thesis
    unfolding rf_support_ordinals_def Let_def using rf_valid_lengths(3) [OF v]
    by (simp add: set_flatnonzero)
qed

end

subsection \<open>The tombstone layer\<close>

definition TOMB_MAGIC :: bytes where "TOMB_MAGIC = [0x48, 0x54, 0x42, 0x31]"
abbreviation (input) TOMB_HEADER :: "sfmt list" where
  "TOMB_HEADER \<equiv> [FS 4, FU 2, FU 4, FU 4, FU 4]"
abbreviation (input) TOMB_HEADER_SIZE :: nat where "TOMB_HEADER_SIZE \<equiv> 18"
definition TOMBSTONE_TAG :: bytes where
  "TOMBSTONE_TAG = [0x54, 0x4F, 0x4D, 0x42, 0x53, 0x54, 0x4F, 0x4E, 0x45]"

record tombstone_layer =
  tl_blob :: bytes
  tl_key :: bytes
  tl_format_version :: int
  tl_scope_id :: int
  tl_bulk_epoch :: int
  tl_fact_count :: nat

definition tl_tag_off :: "tombstone_layer \<Rightarrow> nat" where
  "tl_tag_off t = TOMB_HEADER_SIZE + (tl_fact_count t + 7) div 8"

definition tl_mac :: "bytes \<Rightarrow> bytes \<Rightarrow> bytes \<Rightarrow> bytes" where
  "tl_mac key header bitmap = mac16 key (TOMBSTONE_TAG @ header @ bitmap)"

definition tl_verify :: "tombstone_layer \<Rightarrow> bool" where
  "tl_verify t =
     (tl_mac (tl_key t) (take TOMB_HEADER_SIZE (tl_blob t))
        (slice (tl_blob t) TOMB_HEADER_SIZE (tl_tag_off t))
      = slice (tl_blob t) (tl_tag_off t) (tl_tag_off t + TAG_BYTES))"

definition tl_open :: "numpy \<Rightarrow> bytes \<Rightarrow> bytes \<Rightarrow> open_exn + tombstone_layer" where
  "tl_open np blob key =
     (if length blob < TOMB_HEADER_SIZE then Inl IntegrityError
      else
        (let x = struct_unpack TOMB_HEADER blob;
             t = \<lparr>tl_blob = blob, tl_key = key, tl_format_version = fi x 1, tl_scope_id = fi x 2,
                  tl_bulk_epoch = fi x 3, tl_fact_count = nat (fi x 4)\<rparr>
         in if fb x 0 \<noteq> TOMB_MAGIC then Inl IntegrityError
            else if fi x 1 \<noteq> RF_FORMAT_VERSION then Inl IncompatibleError
            else if length blob \<noteq> tl_tag_off t + TAG_BYTES then Inl IntegrityError
            else if \<not> tl_verify t then Inl IntegrityError
            else
              (let bits = np_unpackbits np (slice blob TOMB_HEADER_SIZE (tl_tag_off t))
               in if length bits > tl_fact_count t \<and> count_true (drop (tl_fact_count t) bits) \<noteq> 0
                  then Inl IntegrityError
                  else Inr t)))"

text \<open>\<open>build\<close> iterates over a set: the list gives its elements in some order.\<close>

definition tl_build ::
  "numpy \<Rightarrow> int \<Rightarrow> int list \<Rightarrow> int \<Rightarrow> int \<Rightarrow> bytes \<Rightarrow> open_exn + tombstone_layer" where
  "tl_build np fact_count deleted scope_id bulk_epoch key =
     (if \<exists>x \<in> set deleted. \<not> (0 \<le> x \<and> x < fact_count) then Inl IntegrityError
      else if fact_count < 0 then Inl ValueError
      else
        (let bitmap = np_packbits np (bits_of (nat fact_count) (map nat deleted))
         in case struct_pack TOMB_HEADER [VB TOMB_MAGIC, VI RF_FORMAT_VERSION, VI scope_id,
                   VI bulk_epoch, VI fact_count] of
              None \<Rightarrow> Inl PackError
            | Some header \<Rightarrow> tl_open np (header @ bitmap @ tl_mac key header bitmap) key))"

definition tl_is_deleted :: "tombstone_layer \<Rightarrow> int \<Rightarrow> bool" where
  "tl_is_deleted t ordinal =
     (if ordinal < 0 \<or> ordinal \<ge> int (tl_fact_count t) then False
      else get_bit (tl_blob t) TOMB_HEADER_SIZE (nat ordinal))"

definition tl_support_ordinals :: "numpy \<Rightarrow> tombstone_layer \<Rightarrow> nat set" where
  "tl_support_ordinals np t =
     (let bitmap = slice (tl_blob t) TOMB_HEADER_SIZE (tl_tag_off t);
          bits = (if bitmap \<noteq> [] then np_unpackbits np bitmap else [])
      in set (flatnonzero (take (tl_fact_count t) bits)))"

text \<open>The typed result of opening a component.\<close>

datatype open_state = ABSENT_ALLOWED | VALID | REQUIRED_MISSING | CORRUPT_LAYER | INCOMPATIBLE_LAYER

record 'l open_result =
  or_state :: open_state
  or_layer :: "'l option"

definition open_tombstone :: "numpy \<Rightarrow> bytes option \<Rightarrow> bytes \<Rightarrow> bool \<Rightarrow> tombstone_layer open_result" where
  "open_tombstone np blob key required =
     (case blob of
        None \<Rightarrow> if required then \<lparr>or_state = REQUIRED_MISSING, or_layer = None\<rparr>
                else \<lparr>or_state = ABSENT_ALLOWED, or_layer = None\<rparr>
      | Some b \<Rightarrow>
          (case tl_open np b key of
             Inl IncompatibleError \<Rightarrow> \<lparr>or_state = INCOMPATIBLE_LAYER, or_layer = None\<rparr>
           | Inl _ \<Rightarrow> \<lparr>or_state = CORRUPT_LAYER, or_layer = None\<rparr>
           | Inr t \<Rightarrow> \<lparr>or_state = VALID, or_layer = Some t\<rparr>))"

definition resolve ::
  "residual_field option \<Rightarrow> tombstone_layer open_result \<Rightarrow> int \<Rightarrow> int \<Rightarrow> int \<Rightarrow> rstatus \<times> int option" where
  "resolve fld tombstone fact_id scope_id bulk_epoch =
     (let l1 = (case fld of
                  None \<Rightarrow> (FALLBACK, None)
                | Some f \<Rightarrow> rf_safe_lookup f fact_id scope_id bulk_epoch)
      in if or_state tombstone \<in> {CORRUPT_LAYER, INCOMPATIBLE_LAYER, REQUIRED_MISSING}
         then (ABSTAIN_INTEGRITY, None)
         else
           (case (or_state tombstone, or_layer tombstone) of
              (VALID, Some t) \<Rightarrow>
                if tl_scope_id t \<noteq> scope_id then (ABSTAIN_SCOPE, None)
                else if tl_bulk_epoch t \<noteq> bulk_epoch then (ABSTAIN_EPOCH, None)
                else if tl_is_deleted t fact_id then (DELETED, None)
                else l1
            | _ \<Rightarrow> l1))"

subsection \<open>Deletion is terminal\<close>

definition tl_bits :: "tombstone_layer \<Rightarrow> bool list" where
  "tl_bits t = take (tl_fact_count t) (bitmap_at (tl_blob t) TOMB_HEADER_SIZE ((tl_fact_count t + 7) div 8))"

definition tl_valid :: "tombstone_layer \<Rightarrow> bool" where
  "tl_valid t \<longleftrightarrow> length (tl_blob t) = tl_tag_off t + TAG_BYTES \<and> tl_verify t"

lemma tl_open_valid: "tl_open np blob key = Inr t \<Longrightarrow> tl_valid t \<and> tl_blob t = blob \<and> tl_key t = key"
  unfolding tl_open_def Let_def tl_valid_def
  by (auto simp del: struct_unpack.simps split: if_split_asm)

lemma length_tl_bits: "tl_valid t \<Longrightarrow> length (tl_bits t) = tl_fact_count t"
proof -
  assume "tl_valid t"
  then have "TOMB_HEADER_SIZE + (tl_fact_count t + 7) div 8 \<le> length (tl_blob t)"
    by (simp add: tl_valid_def tl_tag_off_def)
  note l = length_bitmap_at [OF this]
  have "tl_fact_count t \<le> 8 * ((tl_fact_count t + 7) div 8)" by simp
  then show ?thesis unfolding tl_bits_def length_take l by (rule min_absorb2)
qed

lemma tl_is_deleted_bits:
  assumes v: "tl_valid t"
  shows "tl_is_deleted t i \<longleftrightarrow> 0 \<le> i \<and> i < int (tl_fact_count t) \<and> tl_bits t ! nat i"
proof (cases "0 \<le> i \<and> i < int (tl_fact_count t)")
  case False
  then show ?thesis by (auto simp: tl_is_deleted_def)
next
  case True
  have b: "TOMB_HEADER_SIZE + (tl_fact_count t + 7) div 8 \<le> length (tl_blob t)"
    using v by (simp add: tl_valid_def tl_tag_off_def)
  have i: "nat i < tl_fact_count t" using True by auto
  then have "nat i < 8 * ((tl_fact_count t + 7) div 8)" by linarith
  from get_bit_at [OF this b] show ?thesis using True i by (simp add: tl_is_deleted_def tl_bits_def)
qed

context numpy_bits
begin

lemma tl_support:
  assumes v: "tl_valid t"
  shows "tl_support_ordinals np t = {i. tl_is_deleted t (int i)}"
proof -
  have "take (tl_fact_count t) (if slice (tl_blob t) TOMB_HEADER_SIZE (tl_tag_off t) \<noteq> []
      then np_unpackbits np (slice (tl_blob t) TOMB_HEADER_SIZE (tl_tag_off t)) else []) = tl_bits t"
    unfolding tl_tag_off_def tl_bits_def unpack_slice by (simp add: bitmap_at_def)
  then show ?thesis
    unfolding tl_support_ordinals_def Let_def
    by (simp add: set_flatnonzero length_tl_bits [OF v] tl_is_deleted_bits [OF v])
qed

lemma tl_build_opens:
  assumes d: "\<forall>x \<in> set deleted. 0 \<le> x \<and> x < fc" and fc: "0 \<le> fc" "fc < 2 ^ 32"
    and ids: "0 \<le> sc" "sc < 2 ^ 32" "0 \<le> ep" "ep < 2 ^ 32"
  shows "\<exists>t. tl_build np fc deleted sc ep key = Inr t \<and> tl_valid t \<and> tl_scope_id t = sc \<and>
    tl_bulk_epoch t = ep \<and> (\<forall>i. tl_is_deleted t i \<longleftrightarrow> i \<in> set deleted) \<and> int (tl_fact_count t) = fc"
proof -
  let ?vs = "[VB TOMB_MAGIC, VI 1, VI sc, VI ep, VI fc]"
  have fits: "list_all2 fits TOMB_HEADER ?vs" using fc ids by (simp add: TOMB_MAGIC_def)
  obtain h where h: "struct_pack TOMB_HEADER ?vs = Some h" using fits_struct_pack [OF fits] by blast
  have lh: "length h = 18" using struct_pack_length [OF h] by simp
  define bits where "bits = bits_of (nat fc) (map nat deleted)"
  define bm where "bm = np_packbits np bits"
  define blob where "blob = h @ bm @ tl_mac key h bm"
  have lb: "length bm = (nat fc + 7) div 8" by (simp add: bm_def packbits_length bits_def)
  have un: "struct_unpack TOMB_HEADER blob = ?vs" unfolding blob_def by (rule struct_unpack_pack [OF h fits])
  define t where "t = \<lparr>tl_blob = blob, tl_key = key, tl_format_version = 1, tl_scope_id = sc,
      tl_bulk_epoch = ep, tl_fact_count = nat fc\<rparr>"
  have tf: "tl_blob t = blob" "tl_key t = key" "tl_scope_id t = sc" "tl_bulk_epoch t = ep"
    "tl_fact_count t = nat fc" by (simp_all add: t_def)
  have rec: "\<lparr>tl_blob = blob, tl_key = key, tl_format_version = fi ?vs 1, tl_scope_id = fi ?vs 2,
      tl_bulk_epoch = fi ?vs 3, tl_fact_count = nat (fi ?vs 4)\<rparr> = t" by (simp add: t_def)
  have off: "tl_tag_off t = 18 + length bm" by (simp add: tl_tag_off_def tf lb)
  have B: "bitmap_at blob 18 ((nat fc + 7) div 8) = bits @ replicate (8 * ((nat fc + 7) div 8) - nat fc) False"
    unfolding blob_def bm_def using packbits_bitmap [of h 18 "(nat fc + 7) div 8" bits] lh
    by (simp add: bits_def)
  have ub: "np_unpackbits np (slice blob 18 (tl_tag_off t)) = bitmap_at blob 18 ((nat fc + 7) div 8)"
    unfolding off lb by (rule unpack_slice)
  have "length blob = tl_tag_off t + 16" by (simp add: blob_def lh off tl_mac_def)
  moreover have "tl_verify t"
    unfolding tl_verify_def tf off by (simp add: blob_def lh slice_def tl_mac_def)
  ultimately have "tl_open np blob key = Inr t"
    unfolding tl_open_def Let_def un rec ub B tf by (simp add: bits_def lh blob_def)
  moreover have "tl_build np fc deleted sc ep key = tl_open np blob key"
    unfolding tl_build_def Let_def h option.case using d fc(1) by (auto simp: blob_def bm_def bits_def)
  ultimately have bo: "tl_build np fc deleted sc ep key = Inr t" "tl_open np blob key = Inr t" by simp_all
  note v = tl_open_valid [OF bo(2)]
  have "tl_bits t = bits" unfolding tl_bits_def tf B by (simp add: bits_def)
  then have "tl_is_deleted t i \<longleftrightarrow> i \<in> set deleted" for i
  proof (cases "0 \<le> i \<and> i < fc")
    case True
    then have "nat i < nat fc" by auto
    moreover have "\<forall>x \<in> set (map nat deleted). x < nat fc" using d by fastforce
    ultimately have "bits ! nat i \<longleftrightarrow> nat i \<in> nat ` set deleted"
      unfolding bits_def using bits_of_nth by (metis set_map)
    also have "\<dots> \<longleftrightarrow> i \<in> set deleted"
    proof
      assume "nat i \<in> nat ` set deleted"
      then obtain x where x: "x \<in> set deleted" "nat i = nat x" by blast
      then have "0 \<le> x" using d by blast
      then show "i \<in> set deleted" using x True by (simp add: eq_nat_nat_iff)
    qed simp
    finally show ?thesis if "tl_bits t = bits" using tl_is_deleted_bits v True tf that by auto
  next
    case False
    then show ?thesis using tl_is_deleted_bits v tf d fc(1) by auto
  qed
  moreover have "int (tl_fact_count t) = fc" using tf(5) fc(1) by simp
  ultimately show ?thesis using bo(1) v tf by blast
qed

end

text \<open>A read is released to the field, or below it, only past an open tombstone layer of the
  same scope and epoch that does not hold the fact.\<close>

lemma resolve_released:
  assumes o: "r = open_tombstone np blob key True"
    and s: "fst (resolve fld r i sc ep) \<in> {CORRECT, NO_RESIDUAL, FALLBACK}"
  shows "\<exists>b t. blob = Some b \<and> tl_open np b key = Inr t \<and> tl_valid t \<and> tl_scope_id t = sc \<and>
    tl_bulk_epoch t = ep \<and> \<not> tl_is_deleted t i"
proof (cases blob)
  case None
  then show ?thesis using o s by (simp add: open_tombstone_def resolve_def)
next
  case (Some b)
  show ?thesis
  proof (cases "tl_open np b key")
    case (Inl e)
    then show ?thesis using o s Some by (cases e) (simp_all add: open_tombstone_def resolve_def)
  next
    case (Inr t)
    then show ?thesis
      using o s Some tl_open_valid [OF Inr]
      by (auto simp: open_tombstone_def resolve_def split: if_splits)
  qed
qed

lemma resolve_deleted:
  "open_tombstone np (Some b) key req = \<lparr>or_state = VALID, or_layer = Some t\<rparr> \<Longrightarrow> tl_is_deleted t i \<Longrightarrow>
   resolve fld (open_tombstone np (Some b) key req) i (tl_scope_id t) (tl_bulk_epoch t) = (DELETED, None)"
  by (simp add: resolve_def)

end
