(* ===== verification/Bulk.thy ===== *)
theory Bulk
  imports Residual
begin

section \<open>The bulk snapshot (\<open>horizon_bulk.py\<close>)\<close>

text \<open>
  \<open>BulkSnapshot\<close> is the base value of every ordinal that has one: header, support bitmap,
  rank directory, one payload byte per supported ordinal, one tag over everything. It is
  validated in full when it is opened. The lemmas show that a lookup on an open snapshot never
  leaves the payload and that a built snapshot answers with the dictionary it was built from.
\<close>

definition BULK_MAGIC :: bytes where "BULK_MAGIC = [0x48, 0x42, 0x4B, 0x31]"
abbreviation (input) BULK_HEADER :: "sfmt list" where
  "BULK_HEADER \<equiv> [FS 4, FU 2, FU 2, FU 4, FU 8, FU 4, FU 4, FU 4]"
abbreviation (input) BULK_HEADER_SIZE :: nat where "BULK_HEADER_SIZE \<equiv> 32"
abbreviation (input) BULK_FORMAT_VERSION :: int where "BULK_FORMAT_VERSION \<equiv> 1"
abbreviation (input) VALUE_KIND_U8 :: int where "VALUE_KIND_U8 \<equiv> 0"
definition BULKSNAP_TAG :: bytes where
  "BULKSNAP_TAG = [0x42, 0x55, 0x4C, 0x4B, 0x53, 0x4E, 0x41, 0x50]"

datatype bulk_status = BULK_VALUE | BULK_ABSENT | BULK_OUT_OF_RANGE

record bulk_snapshot =
  bs_blob :: bytes
  bs_key :: bytes
  bs_scope_id :: int
  bs_generation_id :: int
  bs_fact_count :: nat
  bs_support_count :: nat

definition bs_rank_off :: "bulk_snapshot \<Rightarrow> nat" where
  "bs_rank_off s = BULK_HEADER_SIZE + (bs_fact_count s + 7) div 8"
definition bs_payload_off :: "bulk_snapshot \<Rightarrow> nat" where
  "bs_payload_off s = bs_rank_off s + n_blocks (bs_fact_count s) * 4"
definition bs_mac_off :: "bulk_snapshot \<Rightarrow> nat" where
  "bs_mac_off s = bs_payload_off s + bs_support_count s"

definition bs_mac :: "bytes \<Rightarrow> bytes \<Rightarrow> bytes \<Rightarrow> bytes \<Rightarrow> bytes \<Rightarrow> bytes" where
  "bs_mac key header bitmap rank_dir payload =
     mac16 key (BULKSNAP_TAG @ header @ bitmap @ rank_dir @ payload)"

definition bs_parse :: "bytes \<Rightarrow> bytes \<Rightarrow> open_exn + bulk_snapshot" where
  "bs_parse blob key =
     (if length blob < BULK_HEADER_SIZE then Inl IntegrityError
      else
        (let x = struct_unpack BULK_HEADER blob; fact_count = fi x 5; support = fi x 6;
             s = \<lparr>bs_blob = blob, bs_key = key, bs_scope_id = fi x 3, bs_generation_id = fi x 4,
                  bs_fact_count = nat fact_count, bs_support_count = nat support\<rparr>
         in if fb x 0 \<noteq> BULK_MAGIC then Inl IntegrityError
            else if fi x 1 \<noteq> BULK_FORMAT_VERSION then Inl IncompatibleError
            else if fi x 2 \<noteq> VALUE_KIND_U8 then Inl IncompatibleError
            else if fi x 7 \<noteq> int RANK_BLOCK then Inl IntegrityError
            else if fact_count > MAX_FACT_COUNT \<or> support > fact_count then Inl IntegrityError
            else if length blob \<noteq> bs_mac_off s + TAG_BYTES then Inl IntegrityError
            else Inr s))"

definition bs_validate :: "numpy \<Rightarrow> bulk_snapshot \<Rightarrow> bool" where
  "bs_validate np s =
     (let b = bs_blob s; fact_count = bs_fact_count s;
          bitmap = slice b BULK_HEADER_SIZE (bs_rank_off s);
          rank_dir = slice b (bs_rank_off s) (bs_payload_off s);
          payload = slice b (bs_payload_off s) (bs_mac_off s);
          bits = (if bitmap \<noteq> [] then np_unpackbits np bitmap else [])
      in if bs_mac (bs_key s) (take BULK_HEADER_SIZE b) bitmap rank_dir payload
              \<noteq> slice b (bs_mac_off s) (bs_mac_off s + TAG_BYTES) then False
         else if count_true bits \<noteq> bs_support_count s then False
         else if length bits > fact_count \<and> count_true (drop fact_count bits) \<noteq> 0 then False
         else rank_dir_check rank_dir bits fact_count 0 (n_blocks fact_count) 0)"

definition bs_open :: "numpy \<Rightarrow> bytes \<Rightarrow> bytes \<Rightarrow> open_exn + bulk_snapshot" where
  "bs_open np blob key =
     (case bs_parse blob key of
        Inl e \<Rightarrow> Inl e
      | Inr s \<Rightarrow> if bs_validate np s then Inr s else Inl IntegrityError)"

definition bs_try_open :: "numpy \<Rightarrow> bytes option \<Rightarrow> bytes \<Rightarrow> bulk_snapshot option" where
  "bs_try_open np blob key =
     (case blob of
        None \<Rightarrow> None
      | Some b \<Rightarrow> (case bs_open np b key of Inl _ \<Rightarrow> None | Inr s \<Rightarrow> Some s))"

text \<open>The loop over the sorted ordinals; the duplicate check can not fire on the keys of a
  dictionary.\<close>

fun bs_check_values :: "(int \<times> int) list \<Rightarrow> int \<Rightarrow> int list \<Rightarrow> bool" where
  "bs_check_values [] fact_count seen = True"
| "bs_check_values ((o', v) # items) fact_count seen =
     (if \<not> (0 \<le> o' \<and> o' < fact_count) then False
      else if o' \<in> set seen then False
      else if \<not> (0 \<le> v \<and> v \<le> 0xFF) then False
      else bs_check_values items fact_count (o' # seen))"

definition bs_build ::
  "numpy \<Rightarrow> int \<Rightarrow> (int, int) pydict \<Rightarrow> int \<Rightarrow> int \<Rightarrow> bytes \<Rightarrow> open_exn + bulk_snapshot" where
  "bs_build np fact_count vals scope_id generation_id key =
     (if fact_count < 0 \<or> fact_count > MAX_FACT_COUNT then Inl IntegrityError
      else
        (let items = sort_key fst vals
         in if \<not> bs_check_values items fact_count [] then Inl IntegrityError
            else
              (let fc = nat fact_count;
                   bits = bits_of fc (map (\<lambda>e. nat (fst e)) items);
                   bitmap = (if fc \<noteq> 0 then np_packbits np bits else []);
                   rank_dir = rank_dir_bytes (rank_dir_from bits fc 0 (n_blocks fc) 0);
                   payload = map (\<lambda>(o', v). word_of_int v) items
               in case struct_pack BULK_HEADER [VB BULK_MAGIC, VI BULK_FORMAT_VERSION, VI VALUE_KIND_U8,
                         VI scope_id, VI generation_id, VI fact_count, VI (int (length items)),
                         VI (int RANK_BLOCK)] of
                    None \<Rightarrow> Inl PackError
                  | Some header \<Rightarrow>
                      bs_open np (header @ bitmap @ rank_dir @ payload
                        @ bs_mac key header bitmap rank_dir payload) key)))"

definition bs_lookup :: "bulk_snapshot \<Rightarrow> int \<Rightarrow> bulk_status \<times> int option" where
  "bs_lookup s ordinal =
     (if ordinal < 0 \<or> ordinal \<ge> int (bs_fact_count s) then (BULK_OUT_OF_RANGE, None)
      else if \<not> get_bit (bs_blob s) BULK_HEADER_SIZE (nat ordinal) then (BULK_ABSENT, None)
      else (BULK_VALUE, Some (uint (bs_blob s !
              (bs_payload_off s + rank1 (bs_blob s) BULK_HEADER_SIZE (bs_rank_off s) (nat ordinal))))))"

definition bs_support_ordinals :: "numpy \<Rightarrow> bulk_snapshot \<Rightarrow> nat set" where
  "bs_support_ordinals np s =
     (let bitmap = slice (bs_blob s) BULK_HEADER_SIZE (bs_rank_off s);
          bits = (if bitmap \<noteq> [] then np_unpackbits np bitmap else [])
      in set (flatnonzero (take (bs_fact_count s) bits)))"

subsection \<open>What an open snapshot guarantees\<close>

definition bs_valid :: "bulk_snapshot \<Rightarrow> bool" where
  "bs_valid s \<longleftrightarrow>
     length (bs_blob s) = bs_mac_off s + TAG_BYTES \<and>
     ranked (bs_blob s) BULK_HEADER_SIZE (bs_rank_off s) (bs_fact_count s) (bs_support_count s)"

definition bs_bits :: "bulk_snapshot \<Rightarrow> bool list" where
  "bs_bits s = ranked_bits (bs_blob s) BULK_HEADER_SIZE (bs_fact_count s)"

definition bs_payload :: "bulk_snapshot \<Rightarrow> bytes" where
  "bs_payload s = slice (bs_blob s) (bs_payload_off s) (bs_mac_off s)"

lemma bs_payload_off_eq: "bs_payload_off s = bs_rank_off s + 4 * n_blocks (bs_fact_count s)"
  by (simp add: bs_payload_off_def)

lemma bs_parse_ok:
  "bs_parse blob key = Inr s \<Longrightarrow> bs_blob s = blob \<and> bs_key s = key \<and> length blob = bs_mac_off s + TAG_BYTES"
  unfolding bs_parse_def Let_def by (auto simp del: struct_unpack.simps split: if_split_asm)

text \<open>The rank of a supported ordinal is the index of its payload byte.\<close>

lemma bs_lookup_bits:
  assumes v: "bs_valid s"
  shows "bs_lookup s i =
    (if i < 0 \<or> int (bs_fact_count s) \<le> i then (BULK_OUT_OF_RANGE, None)
     else if \<not> bs_bits s ! nat i then (BULK_ABSENT, None)
     else (BULK_VALUE, Some (uint (bs_payload s ! count_true (take (nat i) (bs_bits s))))))"
    and "0 \<le> i \<Longrightarrow> i < int (bs_fact_count s) \<Longrightarrow> bs_bits s ! nat i \<Longrightarrow>
      count_true (take (nat i) (bs_bits s)) < length (bs_payload s)"
proof -
  let ?b = "bs_blob s" and ?i = "nat i" and ?k = "count_true (take (nat i) (bs_bits s))"
  have r: "ranked ?b BULK_HEADER_SIZE (bs_rank_off s) (bs_fact_count s) (bs_support_count s)"
    using v by (simp add: bs_valid_def)
  have len: "bs_mac_off s \<le> length ?b" using v by (simp add: bs_valid_def)
  then have lp: "length (bs_payload s) = bs_support_count s" by (simp add: bs_payload_def bs_mac_off_def)
  have *: "get_bit ?b BULK_HEADER_SIZE ?i = bs_bits s ! ?i"
    "rank1 ?b BULK_HEADER_SIZE (bs_rank_off s) ?i = ?k"
    "bs_bits s ! ?i \<Longrightarrow> ?k < bs_support_count s" if "0 \<le> i" "i < int (bs_fact_count s)"
  proof -
    have i: "?i < bs_fact_count s" using that by auto
    show g: "get_bit ?b BULK_HEADER_SIZE ?i = bs_bits s ! ?i"
      unfolding bs_bits_def by (rule ranked_get_bit [OF r i])
    show k: "rank1 ?b BULK_HEADER_SIZE (bs_rank_off s) ?i = ?k"
      unfolding bs_bits_def by (rule ranked_rank1 [OF r i])
    show "bs_bits s ! ?i \<Longrightarrow> ?k < bs_support_count s" using ranked_index [OF r i] g k by simp
  qed
  show "bs_lookup s i =
    (if i < 0 \<or> int (bs_fact_count s) \<le> i then (BULK_OUT_OF_RANGE, None)
     else if \<not> bs_bits s ! nat i then (BULK_ABSENT, None)
     else (BULK_VALUE, Some (uint (bs_payload s ! ?k))))"
  proof (cases "0 \<le> i \<and> i < int (bs_fact_count s)")
    case False
    then show ?thesis by (auto simp: bs_lookup_def)
  next
    case True
    then have "bs_bits s ! ?i \<Longrightarrow> bs_payload s ! ?k = ?b ! (bs_payload_off s + ?k)"
      using *(3) len by (simp add: bs_payload_def bs_mac_off_def slice_def)
    then show ?thesis using True *(1,2) by (auto simp: bs_lookup_def)
  qed
  show "0 \<le> i \<Longrightarrow> i < int (bs_fact_count s) \<Longrightarrow> bs_bits s ! nat i \<Longrightarrow> ?k < length (bs_payload s)"
    using *(3) lp by simp
qed

lemma bs_lookup_in_range:
  assumes v: "bs_valid s"
  shows "fst (bs_lookup s i) = BULK_OUT_OF_RANGE \<longleftrightarrow> i < 0 \<or> int (bs_fact_count s) \<le> i"
  unfolding bs_lookup_bits(1) [OF v] by simp

lemma unpack_or_empty:
  "numpy_bits np \<Longrightarrow> (if slice b i j \<noteq> [] then np_unpackbits np (slice b i j) else []) = np_unpackbits np (slice b i j)"
  by (simp add: numpy_bits.unpackbits)

lemma bs_check_values_ok:
  "sorted_wrt (<) (map fst items) \<Longrightarrow> \<forall>x \<in> set seen. \<forall>e \<in> set items. x \<noteq> fst e \<Longrightarrow>
   bs_check_values items fc seen \<longleftrightarrow>
     (\<forall>(k, v) \<in> set items. 0 \<le> k \<and> k < fc \<and> 0 \<le> v \<and> v \<le> 0xFF)"
proof (induction items fc seen rule: bs_check_values.induct)
  case (1 fc seen)
  then show ?case by simp
next
  case (2 k v items fc seen)
  have "k \<noteq> fst e" if "e \<in> set items" for e
    using 2(2) that by (auto dest: bspec)
  then have s: "\<forall>x \<in> set (k # seen). \<forall>e \<in> set items. x \<noteq> fst e" using 2(3) by auto
  have n: "k \<notin> set seen" using 2(3) by auto
  show ?case
  proof (cases "0 \<le> k \<and> k < fc \<and> 0 \<le> v \<and> v \<le> 0xFF")
    case True
    then show ?thesis using 2(1) [OF _ _ _ _ s] 2(2) n by auto
  next
    case False
    then show ?thesis by auto
  qed
qed

text \<open>The dictionaries \<open>build\<close> accepts.\<close>

definition value_dict :: "(int, int) pydict \<Rightarrow> int \<Rightarrow> bool" where
  "value_dict m fact_count \<longleftrightarrow> ordinal_dict m fact_count \<and> (\<forall>e \<in> set m. 0 \<le> snd e \<and> snd e \<le> 0xFF)"

definition values_answer :: "(int, int) pydict \<Rightarrow> int \<Rightarrow> int \<Rightarrow> bulk_status \<times> int option" where
  "values_answer m fact_count i =
     (if i < 0 \<or> fact_count \<le> i then (BULK_OUT_OF_RANGE, None)
      else case dget m i of None \<Rightarrow> (BULK_ABSENT, None) | Some v \<Rightarrow> (BULK_VALUE, Some v))"

context numpy_bits
begin

lemma bs_open_valid:
  assumes "bs_open np blob key = Inr s"
  shows "bs_valid s" "bs_blob s = blob" "bs_key s = key"
proof -
  have p: "bs_parse blob key = Inr s" and v: "bs_validate np s"
    using assms unfolding bs_open_def by (auto split: sum.splits if_split_asm)
  note h = bs_parse_ok [OF p]
  then show "bs_blob s = blob" "bs_key s = key" by simp_all
  let ?fc = "bs_fact_count s" and ?b = "bs_blob s"
  let ?B = "bitmap_at ?b BULK_HEADER_SIZE ((?fc + 7) div 8)"
  have bits: "np_unpackbits np (slice ?b BULK_HEADER_SIZE (bs_rank_off s)) = ?B"
    unfolding bs_rank_off_def by (rule unpack_slice)
  have v': "count_true ?B = bs_support_count s" "\<not> (length ?B > ?fc \<and> count_true (drop ?fc ?B) \<noteq> 0)"
    "rank_dir_check (slice ?b (bs_rank_off s) (bs_payload_off s)) ?B ?fc 0 (n_blocks ?fc) 0"
    using v unfolding bs_validate_def Let_def unpack_or_empty [OF numpy_bits_axioms] bits
    by (auto split: if_split_asm)
  have pad: "count_true (drop ?fc ?B) = 0"
    using v'(2) by (cases "length ?B > ?fc") simp_all
  have "bs_rank_off s + 4 * n_blocks ?fc \<le> length ?b"
    using h by (simp add: bs_mac_off_def bs_payload_off_def)
  then have "ranked ?b BULK_HEADER_SIZE (bs_rank_off s) ?fc (bs_support_count s)"
    unfolding ranked_def using v' pad by (simp add: bs_rank_off_def bs_payload_off_eq)
  then show "bs_valid s" unfolding bs_valid_def using h by simp
qed

lemma bs_build_opens:
  assumes m: "value_dict m fc" and fc: "0 \<le> fc" "fc \<le> MAX_FACT_COUNT"
    and ids: "0 \<le> sc" "sc < 2 ^ 32" "0 \<le> gn" "gn < 2 ^ 64"
  shows "\<exists>s. bs_build np fc m sc gn key = Inr s \<and> bs_valid s \<and> bs_scope_id s = sc \<and>
    bs_generation_id s = gn \<and> bs_fact_count s = nat fc \<and>
    bs_bits s = bits_of (nat fc) (dict_ordinals m) \<and>
    bs_payload s = map (\<lambda>(i, v). word_of_int v) (sort_key fst m)"
proof -
  have om: "ordinal_dict m fc" using m by (simp add: value_dict_def)
  note s = dict_ordinals_sorted [OF om]
  define n where "n = length m"
  have nfc: "n \<le> nat fc" using s(4) by (simp add: n_def)
  let ?vs = "[VB BULK_MAGIC, VI 1, VI 0, VI sc, VI gn, VI fc, VI (int n), VI 512]"
  have fits: "list_all2 fits BULK_HEADER ?vs"
    using nfc fc ids by (simp add: BULK_MAGIC_def nat_le_iff le_nat_iff)
  obtain h where h: "struct_pack BULK_HEADER ?vs = Some h" using fits_struct_pack [OF fits] by blast
  have lh: "length h = 32" using struct_pack_length [OF h] by simp
  define bits where "bits = bits_of (nat fc) (dict_ordinals m)"
  define bm where "bm = np_packbits np bits"
  define rd where "rd = rank_dir_bytes (rank_dir_from bits (nat fc) 0 (n_blocks (nat fc)) 0)"
  define pl :: bytes where "pl = map (\<lambda>(i, v). word_of_int v) (sort_key fst m)"
  define mac where "mac = bs_mac key h bm rd pl"
  define blob where "blob = h @ bm @ rd @ pl @ mac"
  have lens: "length bm = (nat fc + 7) div 8" "length rd = 4 * n_blocks (nat fc)" "length pl = n" "length mac = 16"
    by (simp_all add: bm_def packbits_length bits_def rd_def pl_def n_def mac_def bs_mac_def)
  have un: "struct_unpack BULK_HEADER blob = ?vs" unfolding blob_def by (rule struct_unpack_pack [OF h fits])
  define s' where "s' = \<lparr>bs_blob = blob, bs_key = key, bs_scope_id = sc, bs_generation_id = gn,
      bs_fact_count = nat fc, bs_support_count = n\<rparr>"
  have sf: "bs_blob s' = blob" "bs_key s' = key" "bs_scope_id s' = sc" "bs_generation_id s' = gn"
    "bs_fact_count s' = nat fc" "bs_support_count s' = n" by (simp_all add: s'_def)
  have rec: "\<lparr>bs_blob = blob, bs_key = key, bs_scope_id = fi ?vs 3, bs_generation_id = fi ?vs 4,
      bs_fact_count = nat (fi ?vs 5), bs_support_count = nat (fi ?vs 6)\<rparr> = s'"
    by (simp add: s'_def)
  have off: "bs_rank_off s' = 32 + length bm" "bs_payload_off s' = 32 + length bm + length rd"
    "bs_mac_off s' = 32 + length bm + length rd + length pl"
    by (simp_all add: bs_rank_off_def bs_payload_off_def bs_mac_off_def lens sf)
  have lblob: "length blob = bs_mac_off s' + 16" by (simp add: blob_def off lens lh)
  have parse: "bs_parse blob key = Inr s'"
    unfolding bs_parse_def Let_def un rec using lblob fc nfc lh by (simp add: blob_def)
  have sl: "take 32 blob = h" "slice blob 32 (32 + length bm) = bm"
    "slice blob (32 + length bm) (32 + length bm + length rd) = rd"
    "slice blob (32 + length bm + length rd) (32 + length bm + length rd + length pl) = pl"
    by (simp_all add: blob_def lh slice_def)
  have mt: "slice blob (bs_mac_off s') (bs_mac_off s' + 16) = mac"
    unfolding off by (simp add: blob_def lh slice_def lens(4))
  have rb: "ranked blob 32 (bs_rank_off s') (nat fc) n" "ranked_bits blob 32 (nat fc) = bits"
  proof -
    have nf: "nat fc < 2 ^ 32" using fc by (simp add: nat_less_iff)
    have e: "blob = h @ np_packbits np (bits_of (nat fc) (dict_ordinals m))
        @ rank_dir_bytes (rank_dir_from (bits_of (nat fc) (dict_ordinals m)) (nat fc) 0 (n_blocks (nat fc)) 0) @ pl @ mac"
      by (simp only: blob_def bm_def rd_def bits_def)
    have o32: "32 = length h" "bs_rank_off s' = length h + (nat fc + 7) div 8"
      by (simp_all only: lh off lens)
    show "ranked blob 32 (bs_rank_off s') (nat fc) n" "ranked_bits blob 32 (nat fc) = bits"
      using ranked_build [OF s(1,2) nf e o32] unfolding s(3) n_def bits_def by blast+
  qed
  have b: "np_unpackbits np (slice blob 32 (bs_rank_off s')) = bitmap_at blob 32 ((nat fc + 7) div 8)"
    unfolding bs_rank_off_def sf by (rule unpack_slice)
  let ?B = "bitmap_at blob 32 ((nat fc + 7) div 8)"
  have rc: "count_true ?B = n" "count_true (drop (nat fc) ?B) = 0"
    "rank_dir_check (slice blob (bs_rank_off s') (bs_rank_off s' + 4 * n_blocks (nat fc))) ?B (nat fc) 0
      (n_blocks (nat fc)) 0"
    using rb(1) by (auto simp only: ranked_def)
  have mc: "bs_mac key (take 32 blob) (slice blob 32 (bs_rank_off s'))
      (slice blob (bs_rank_off s') (bs_payload_off s')) (slice blob (bs_payload_off s') (bs_mac_off s')) = mac"
    unfolding off sl by (simp add: mac_def)
  have val: "bs_validate np s'"
    unfolding bs_validate_def Let_def unpack_or_empty [OF numpy_bits_axioms] sf b mt mc
    using rc by (simp add: bs_payload_off_eq sf)
  have op: "bs_open np blob key = Inr s'" unfolding bs_open_def by (simp add: parse val)
  have "sorted_wrt (<) (map fst (sort_key fst m))"
    using om by (intro sort_key_dict) (simp add: ordinal_dict_def)
  then have ck: "bs_check_values (sort_key fst m) fc []"
    using m by (subst bs_check_values_ok) (auto simp: value_dict_def ordinal_dict_def)
  have bme: "(if nat fc \<noteq> 0 then np_packbits np bits else []) = bm"
    using lens(1) by (cases "nat fc = 0") (simp_all add: bm_def)
  have "bs_build np fc m sc gn key = bs_open np blob key"
    unfolding bs_build_def Let_def dict_ordinals_def [symmetric] bits_def [symmetric] bme
    using fc ck h by (simp add: n_def blob_def mac_def pl_def rd_def del: struct_pack.simps)
  then show ?thesis
    using op bs_open_valid(1) [OF op] rb(2) sf off sl by (simp add: bs_bits_def bits_def bs_payload_def pl_def)
qed

lemma bs_build_lookup:
  assumes m: "value_dict m fc" and fc: "0 \<le> fc" "fc \<le> MAX_FACT_COUNT"
    and ids: "0 \<le> sc" "sc < 2 ^ 32" "0 \<le> gn" "gn < 2 ^ 64"
  shows "\<exists>s. bs_build np fc m sc gn key = Inr s \<and> bs_valid s \<and> bs_scope_id s = sc \<and>
    bs_generation_id s = gn \<and> bs_fact_count s = nat fc \<and> (\<forall>i. bs_lookup s i = values_answer m fc i)"
proof -
  obtain s where s: "bs_build np fc m sc gn key = Inr s" "bs_valid s" "bs_scope_id s = sc"
    "bs_generation_id s = gn" "bs_fact_count s = nat fc"
    "bs_bits s = bits_of (nat fc) (dict_ordinals m)"
    "bs_payload s = map (\<lambda>(i, v). word_of_int v) (sort_key fst m)"
    using bs_build_opens [OF assms] by blast
  have om: "ordinal_dict m fc" using m by (simp add: value_dict_def)
  note so = dict_ordinals_sorted [OF om]
  have "bs_lookup s i = values_answer m fc i" for i
  proof (cases "0 \<le> i \<and> i < fc")
    case False
    then show ?thesis using s(5) fc(1) by (auto simp: bs_lookup_def values_answer_def)
  next
    case True
    then have i: "nat i < nat fc" by auto
    have bit: "bs_bits s ! nat i \<longleftrightarrow> dget m i \<noteq> None"
      unfolding s(6) using bits_of_nth [OF i so(2)] dict_ordinals_mem [OF om, of i] True by simp
    show ?thesis
    proof (cases "dget m i")
      case None
      then show ?thesis using True bit s(5) by (simp add: bs_lookup_bits(1) [OF s(2)] values_answer_def)
    next
      case (Some v)
      obtain j where j: "j < length m" "sort_key fst m ! j = (i, v)"
        "count_true (take (nat i) (bs_bits s)) = j"
        using dict_ordinals_rank [OF om Some] unfolding s(6) by blast
      have "(i, v) \<in> set m" using Some by (rule map_of_SomeD)
      then have "0 \<le> v" "v \<le> 0xFF" using m by (auto simp: value_dict_def)
      then show ?thesis
        using True bit Some j s(5,7)
        by (simp add: bs_lookup_bits(1) [OF s(2)] values_answer_def uint_word_of_int)
    qed
  qed
  then show ?thesis using s by blast
qed

end

end
