(* ===== verification/Versions.thy ===== *)
theory Versions
  imports Prelude
begin

section \<open>Version lines and retry memory (\<open>horizon_store.py\<close>)\<close>

text \<open>
  The in-memory L0 of the engine: for every fact its current version line
  \<open>(version, op, value)\<close>, and for every operation id the digest of the command and its
  sequence number. This theory models the version rule in its two forms
  (\<open>preflight\<close>, \<open>apply_versioned\<close>), the classes built on it (\<open>SequentialModel\<close>,
  \<open>WalIndex\<close>, \<open>TxIdIndex\<close>), the duck-typed base view, and \<open>classify_dedup\<close>. The
  contract of an L0 index is the locale \<open>version_index\<close>.
\<close>

text \<open>The \<open>op\<close> argument is any Python string; two of them are operations.\<close>

datatype opk = OP_PUT | OP_DELETE | OP_OTHER string

type_synonym vline = "int \<times> opk \<times> int option"

datatype verdict = Applied | Stale | Idempotent | Conflict

definition preflight :: "vline option \<Rightarrow> opk \<Rightarrow> int \<Rightarrow> int option \<Rightarrow> verdict" where
  "preflight cur op version value =
     (case cur of None \<Rightarrow> Applied
      | Some (cv, cop, cval) \<Rightarrow>
          (if version < cv then Stale
           else if version = cv
             then (if (op, value) = (cop, cval) then Idempotent else Conflict)
           else Applied))"

definition apply_versioned ::
  "(int, vline) pydict \<Rightarrow> int \<Rightarrow> int \<Rightarrow> opk \<Rightarrow> int option \<Rightarrow> verdict \<times> (int, vline) pydict" where
  "apply_versioned state fact_id version op value =
     (case dget state fact_id of
        None \<Rightarrow> (Applied, dput fact_id (version, op, value) state)
      | Some (cv, cop, cval) \<Rightarrow>
          (if version > cv then (Applied, dput fact_id (version, op, value) state)
           else if version = cv
             then (if (op, value) = (cop, cval) then (Idempotent, state) else (Conflict, state))
           else (Stale, state)))"

subsection \<open>\<open>SequentialModel\<close>\<close>

record seq_model =
  sm_state :: "(int, vline) pydict"
  sm_conflicts :: nat

definition sm_init :: seq_model where
  "sm_init = \<lparr>sm_state = [], sm_conflicts = 0\<rparr>"

definition sm_write :: "seq_model \<Rightarrow> int \<Rightarrow> int \<Rightarrow> opk \<Rightarrow> int option \<Rightarrow> verdict \<times> seq_model" where
  "sm_write m fact_id version op value =
     (let (r, st) = apply_versioned (sm_state m) fact_id version op value
      in (r, m\<lparr>sm_state := st,
               sm_conflicts := (if r = Conflict then Suc (sm_conflicts m) else sm_conflicts m)\<rparr>))"

definition sm_put :: "seq_model \<Rightarrow> int \<Rightarrow> int \<Rightarrow> int \<Rightarrow> verdict \<times> seq_model" where
  "sm_put m fact_id value version = sm_write m fact_id version OP_PUT (Some value)"

definition sm_delete :: "seq_model \<Rightarrow> int \<Rightarrow> int \<Rightarrow> verdict \<times> seq_model" where
  "sm_delete m fact_id version = sm_write m fact_id version OP_DELETE None"

datatype sm_status = SmNotFound | SmDeleted | SmValue "int option"

definition sm_read :: "seq_model \<Rightarrow> int \<Rightarrow> sm_status" where
  "sm_read m fact_id =
     (case dget (sm_state m) fact_id of
        None \<Rightarrow> SmNotFound
      | Some (_, op, value) \<Rightarrow> (if op = OP_DELETE then SmDeleted else SmValue value))"

subsection \<open>\<open>WalIndex\<close> and its clone builder\<close>

record wal_index =
  wi_state :: "(int, vline) pydict"
  wi_conflicts :: nat

definition wi_empty :: wal_index where
  "wi_empty = \<lparr>wi_state = [], wi_conflicts = 0\<rparr>"

definition wi_apply ::
  "wal_index \<Rightarrow> int \<Rightarrow> int \<Rightarrow> opk \<Rightarrow> int option \<Rightarrow> verdict \<times> wal_index" where
  "wi_apply m fact_id version op value =
     (let (r, st) = apply_versioned (wi_state m) fact_id version op value
      in (r, m\<lparr>wi_state := st,
               wi_conflicts := (if r = Conflict then Suc (wi_conflicts m) else wi_conflicts m)\<rparr>))"

definition wi_get :: "wal_index \<Rightarrow> int \<Rightarrow> vline option" where
  "wi_get m fact_id = dget (wi_state m) fact_id"

definition wi_items :: "wal_index \<Rightarrow> (int \<times> vline) list" where
  "wi_items m = wi_state m"

definition wi_clone :: "wal_index \<Rightarrow> wal_index" where
  "wi_clone m = \<lparr>wi_state = wi_state m, wi_conflicts = wi_conflicts m\<rparr>"

text \<open>The builder is a clone; \<open>freeze\<close> hands the clone out.\<close>

definition wi_begin_mutation :: "wal_index \<Rightarrow> wal_index" where
  "wi_begin_mutation m = wi_clone m"

definition wi_freeze :: "wal_index \<Rightarrow> wal_index" where
  "wi_freeze b = b"

subsection \<open>\<open>TxIdIndex\<close>\<close>

type_synonym tx_index = "(bytes, bytes \<times> int) pydict"

datatype tx_verdict = TxNew | TxReplay | TxConflict

definition tx_check :: "tx_index \<Rightarrow> bytes \<Rightarrow> bytes \<Rightarrow> tx_verdict" where
  "tx_check m operation_id digest =
     (case dget m operation_id of
        None \<Rightarrow> TxNew
      | Some (d, _) \<Rightarrow> (if d = digest then TxReplay else TxConflict))"

definition tx_record :: "tx_index \<Rightarrow> bytes \<Rightarrow> bytes \<Rightarrow> int \<Rightarrow> tx_index" where
  "tx_record m operation_id digest seq = dput operation_id (digest, seq) m"

definition tx_get_seq :: "tx_index \<Rightarrow> bytes \<Rightarrow> int option" where
  "tx_get_seq m operation_id = map_option snd (dget m operation_id)"

definition tx_items :: "tx_index \<Rightarrow> (bytes \<times> bytes \<times> int) list" where
  "tx_items m = m"

definition tx_clone :: "tx_index \<Rightarrow> tx_index" where
  "tx_clone m = m"

definition tx_begin_mutation :: "tx_index \<Rightarrow> tx_index" where
  "tx_begin_mutation m = tx_clone m"

definition tx_freeze :: "tx_index \<Rightarrow> tx_index" where
  "tx_freeze b = b"

subsection \<open>The base view and the single deduplication authority\<close>

datatype base_lookup = BASE_ABSENT | BASE_ABSTAIN | VersionedFact int opk "int option"

datatype probe = PReplay int | PConflict | PExpired | PAbstain | PNew

text \<open>A base is any object with \<open>lookup\<close> and \<open>dedup_probe\<close> methods.\<close>

record base_view =
  bv_lookup :: "int \<Rightarrow> base_lookup"
  bv_dedup_probe :: "bytes \<Rightarrow> bytes \<Rightarrow> probe"

definition EmptyBaseView :: base_view where
  "EmptyBaseView = \<lparr>bv_lookup = (\<lambda>_. BASE_ABSENT), bv_dedup_probe = (\<lambda>_ _. PNew)\<rparr>"

datatype dedup_decision =
  DedupReplay "int option" | TxidConflict | IdempotencyExpired | AbstainBase | DedupNew

definition classify_dedup ::
  "tx_verdict \<Rightarrow> (bytes \<Rightarrow> int option) \<Rightarrow> base_view \<Rightarrow> bytes \<Rightarrow> bytes \<Rightarrow> dedup_decision" where
  "classify_dedup wal_check wal_get_seq base operation_id digest =
     (case wal_check of
        TxReplay \<Rightarrow> DedupReplay (wal_get_seq operation_id)
      | TxConflict \<Rightarrow> TxidConflict
      | TxNew \<Rightarrow>
          (case bv_dedup_probe base operation_id digest of
             PReplay seq \<Rightarrow> DedupReplay (Some seq)
           | PConflict \<Rightarrow> TxidConflict
           | PExpired \<Rightarrow> IdempotencyExpired
           | PAbstain \<Rightarrow> AbstainBase
           | PNew \<Rightarrow> DedupNew))"

subsection \<open>The contract of an L0 index\<close>

text \<open>
  What a client of an L0 index relies on: reading after an apply, the verdict being the one
  of \<open>preflight\<close> on the current line, and the representation invariant being kept.
\<close>

locale version_index =
  fixes get :: "'m \<Rightarrow> int \<Rightarrow> vline option"
    and app :: "'m \<Rightarrow> int \<Rightarrow> int \<Rightarrow> opk \<Rightarrow> int option \<Rightarrow> verdict \<times> 'm"
    and inv :: "'m \<Rightarrow> bool"
  assumes app_verdict: "inv m \<Longrightarrow> fst (app m f v op x) = preflight (get m f) op v x"
    and app_get: "inv m \<Longrightarrow> get (snd (app m f v op x)) g =
        (if g = f \<and> preflight (get m f) op v x = Applied then Some (v, op, x) else get m g)"
    and app_inv: "inv m \<Longrightarrow> inv (snd (app m f v op x))"

definition app_list ::
  "('m \<Rightarrow> int \<Rightarrow> int \<Rightarrow> opk \<Rightarrow> int option \<Rightarrow> verdict \<times> 'm) \<Rightarrow> 'm \<Rightarrow> (int \<times> vline) list \<Rightarrow> 'm" where
  "app_list app m ops = foldl (\<lambda>m (f, v, op, x). snd (app m f v op x)) m ops"

lemma app_list_simps [simp]:
  "app_list app m [] = m"
  "app_list app m ((f, v, op, x) # ops) = app_list app (snd (app m f v op x)) ops"
  by (simp_all add: app_list_def)

text \<open>No two writes of one fact carry one version with different contents.\<close>

definition consistent_ops :: "(int \<times> vline) list \<Rightarrow> bool" where
  "consistent_ops ops \<longleftrightarrow>
     (\<forall>(f, v, c) \<in> set ops. \<forall>(g, w, d) \<in> set ops. f = g \<longrightarrow> v = w \<longrightarrow> c = d)"

lemma preflight_Applied:
  "preflight cur op v x = Applied \<longleftrightarrow> (\<forall>l. cur = Some l \<longrightarrow> fst l < v)"
  by (auto simp: preflight_def split: option.splits if_splits)

context version_index
begin

lemma get_app_mono:
  assumes "inv m" "get m g = Some l"
  shows "\<exists>l'. get (snd (app m f v op x)) g = Some l' \<and> fst l \<le> fst l'"
  using assms by (cases l) (auto simp: app_get preflight_Applied)

lemma app_not_Applied:
  "inv m \<Longrightarrow> fst (app m f v op x) \<noteq> Applied \<Longrightarrow> get (snd (app m f v op x)) = get m"
  by (auto simp: app_verdict app_get)

lemma app_list_inv: "inv m \<Longrightarrow> inv (app_list app m ops)"
  by (induction ops arbitrary: m) (auto simp: app_inv)

lemma app_list_mono:
  "inv m \<Longrightarrow> get m g = Some l \<Longrightarrow> \<exists>l'. get (app_list app m ops) g = Some l' \<and> fst l \<le> fst l'"
proof (induction ops arbitrary: m l)
  case Nil
  then show ?case by auto
next
  case (Cons a ops)
  obtain f v op x where a: "a = (f, v, op, x)" by (cases a) auto
  obtain l1 where l1: "get (snd (app m f v op x)) g = Some l1" "fst l \<le> fst l1"
    using get_app_mono [OF Cons.prems] by blast
  obtain l' where "get (app_list app (snd (app m f v op x)) ops) g = Some l'" "fst l1 \<le> fst l'"
    using Cons.IH [OF app_inv [OF Cons.prems(1)] l1(1)] by blast
  then show ?case using a l1(2) by auto
qed

lemma app_list_source:
  "inv m \<Longrightarrow> get (app_list app m ops) g = Some l \<Longrightarrow> get m g = Some l \<or> (g, l) \<in> set ops"
proof (induction ops arbitrary: m)
  case Nil
  then show ?case by simp
next
  case (Cons a ops)
  obtain f v op x where a: "a = (f, v, op, x)" by (cases a) auto
  from Cons.prems a have "get (app_list app (snd (app m f v op x)) ops) g = Some l" by simp
  then have "get (snd (app m f v op x)) g = Some l \<or> (g, l) \<in> set ops"
    by (rule Cons.IH [OF app_inv [OF Cons.prems(1)]])
  then show ?case using Cons.prems(1) by (auto simp: a app_get split: if_splits)
qed

lemma app_list_covers:
  "inv m \<Longrightarrow> (g, l) \<in> set ops \<Longrightarrow> \<exists>l'. get (app_list app m ops) g = Some l' \<and> fst l \<le> fst l'"
proof (induction ops arbitrary: m)
  case Nil
  then show ?case by simp
next
  case (Cons a ops)
  obtain f v op x where a: "a = (f, v, op, x)" by (cases a) auto
  let ?m = "snd (app m f v op x)"
  have inv: "inv ?m" by (rule app_inv [OF Cons.prems(1)])
  show ?case
  proof (cases "(g, l) = a")
    case True
    then have "\<exists>l'. get ?m g = Some l' \<and> fst l \<le> fst l'"
      using Cons.prems(1) by (fastforce simp: a app_get preflight_Applied)
    then show ?thesis using app_list_mono [OF inv] a by (metis app_list_simps(2) order_trans)
  next
    case False
    then show ?thesis using Cons.IH [OF inv] Cons.prems(2) a by auto
  qed
qed

text \<open>The index after a set of consistent writes does not depend on their order.\<close>

lemma app_list_order_independent:
  assumes "inv m" "get m g = None" "set ops = set ops'" "consistent_ops ops"
  shows "get (app_list app m ops) g = get (app_list app m ops') g"
proof (cases "get (app_list app m ops) g")
  case None
  have "get (app_list app m ops') g = None"
  proof (rule ccontr)
    assume "get (app_list app m ops') g \<noteq> None"
    then obtain l where "get (app_list app m ops') g = Some l" by auto
    then have "(g, l) \<in> set ops" using app_list_source assms by fastforce
    then show False using app_list_covers [OF assms(1)] None by fastforce
  qed
  then show ?thesis using None by simp
next
  case (Some l)
  then have l: "(g, l) \<in> set ops" using app_list_source assms(1,2) by fastforce
  then obtain l' where l': "get (app_list app m ops') g = Some l'" "fst l \<le> fst l'"
    using app_list_covers [OF assms(1)] assms(3) by blast
  then have in': "(g, l') \<in> set ops" using app_list_source assms(1-3) by fastforce
  then have "fst l' \<le> fst l" using app_list_covers [OF assms(1) in'] Some by auto
  then have "l = l'"
    using l in' l'(2) assms(4) unfolding consistent_ops_def by (cases l; cases l') fastforce
  then show ?thesis using Some l' by simp
qed

end

text \<open>The verdicts of a sequence of writes, in order.\<close>

fun app_verdicts ::
  "('m \<Rightarrow> int \<Rightarrow> int \<Rightarrow> opk \<Rightarrow> int option \<Rightarrow> verdict \<times> 'm) \<Rightarrow> 'm \<Rightarrow> (int \<times> vline) list \<Rightarrow> verdict list"
where
  "app_verdicts app m [] = []"
| "app_verdicts app m ((f, v, op, x) # ops) =
     fst (app m f v op x) # app_verdicts app (snd (app m f v op x)) ops"

text \<open>Two indexes that meet the contract are interchangeable.\<close>

locale index_refinement =
  abs: version_index aget aapp ainv + con: version_index cget capp cinv
  for aget :: "'a \<Rightarrow> int \<Rightarrow> vline option" and aapp and ainv
    and cget :: "'c \<Rightarrow> int \<Rightarrow> vline option" and capp and cinv
begin

lemma step:
  assumes "ainv a" "cinv c" "cget c = aget a"
  shows "fst (capp c f v op x) = fst (aapp a f v op x)"
    and "cget (snd (capp c f v op x)) = aget (snd (aapp a f v op x))"
  using assms by (auto simp: abs.app_verdict con.app_verdict abs.app_get con.app_get fun_eq_iff)

lemma run:
  "ainv a \<Longrightarrow> cinv c \<Longrightarrow> cget c = aget a \<Longrightarrow>
   app_verdicts capp c ops = app_verdicts aapp a ops \<and>
   cget (app_list capp c ops) = aget (app_list aapp a ops)"
proof (induction ops arbitrary: a c)
  case Nil
  then show ?case by simp
next
  case (Cons p ops)
  obtain f v op x where p: "p = (f, v, op, x)" by (cases p) auto
  show ?case
    using Cons.IH [OF abs.app_inv [OF Cons.prems(1)] con.app_inv [OF Cons.prems(2)]
        step(2) [OF Cons.prems]] step(1) [OF Cons.prems]
    by (simp add: p)
qed

end

text \<open>The contract of a retry memory: what a check answers after a record.\<close>

locale retry_memory =
  fixes chk :: "'m \<Rightarrow> bytes \<Rightarrow> bytes \<Rightarrow> tx_verdict"
    and seq_of :: "'m \<Rightarrow> bytes \<Rightarrow> int option"
    and rec :: "'m \<Rightarrow> bytes \<Rightarrow> bytes \<Rightarrow> int \<Rightarrow> 'm"
    and inv :: "'m \<Rightarrow> bool"
  assumes chk_rec: "inv m \<Longrightarrow> chk (rec m i d s) j e =
        (if j = i then (if d = e then TxReplay else TxConflict) else chk m j e)"
    and seq_rec: "inv m \<Longrightarrow> seq_of (rec m i d s) j = (if j = i then Some s else seq_of m j)"
    and rec_inv: "inv m \<Longrightarrow> inv (rec m i d s)"
begin

definition rec_list :: "'m \<Rightarrow> (bytes \<times> bytes \<times> int) list \<Rightarrow> 'm" where
  "rec_list m xs = foldl (\<lambda>m (i, d, s). rec m i d s) m xs"

lemma rec_list_inv: "inv m \<Longrightarrow> inv (rec_list m xs)"
  unfolding rec_list_def by (induction xs arbitrary: m) (auto simp: rec_inv)

text \<open>An operation recorded once is never new again: it replays, or it conflicts.\<close>

lemma never_new_again:
  "inv m \<Longrightarrow> chk m i d \<noteq> TxNew \<or> i \<in> fst ` set xs \<Longrightarrow> chk (rec_list m xs) i d \<noteq> TxNew"
proof (induction xs arbitrary: m)
  case Nil
  then show ?case by (simp add: rec_list_def)
next
  case (Cons a xs)
  obtain j e s where a: "a = (j, e, s)" by (cases a)
  have "chk (rec m j e s) i d \<noteq> TxNew \<or> i \<in> fst ` set xs"
    using Cons.prems by (auto simp: a chk_rec)
  then show ?case
    using Cons.IH [OF rec_inv [OF Cons.prems(1)]] by (simp add: rec_list_def a)
qed

lemma other_records:
  "inv m \<Longrightarrow> i \<notin> fst ` set xs \<Longrightarrow>
   chk (rec_list m xs) i d = chk m i d \<and> seq_of (rec_list m xs) i = seq_of m i"
proof (induction xs arbitrary: m)
  case Nil
  then show ?case by (simp add: rec_list_def)
next
  case (Cons a xs)
  obtain j e s where a: "a = (j, e, s)" by (cases a)
  then show ?case
    using Cons.IH [OF rec_inv [OF Cons.prems(1), of j e s]] Cons.prems
    by (auto simp: rec_list_def chk_rec seq_rec)
qed

end

subsection \<open>The classes of \<open>horizon_store\<close> keep the contract\<close>

lemma apply_versioned_verdict:
  "fst (apply_versioned st f v op x) = preflight (dget st f) op v x"
  by (auto simp: apply_versioned_def preflight_def split: option.splits)

lemma apply_versioned_get:
  "dget (snd (apply_versioned st f v op x)) g =
     (if g = f \<and> preflight (dget st f) op v x = Applied then Some (v, op, x) else dget st g)"
  by (auto simp: apply_versioned_def preflight_def dget_dput split: option.splits)

lemma apply_versioned_distinct:
  "distinct (dkeys st) \<Longrightarrow> distinct (dkeys (snd (apply_versioned st f v op x)))"
  by (auto simp: apply_versioned_def distinct_dput split: option.splits)

definition wi_inv :: "wal_index \<Rightarrow> bool" where
  "wi_inv m \<longleftrightarrow> distinct (dkeys (wi_state m))"

lemma wi_apply_eq:
  "fst (wi_apply m f v op x) = fst (apply_versioned (wi_state m) f v op x)"
  "wi_state (snd (wi_apply m f v op x)) = snd (apply_versioned (wi_state m) f v op x)"
  by (auto simp: wi_apply_def Let_def split: prod.splits)

interpretation wal: version_index wi_get wi_apply wi_inv
  by unfold_locales
    (auto simp: wi_get_def wi_apply_eq wi_inv_def apply_versioned_verdict apply_versioned_get
      apply_versioned_distinct)

definition sm_get :: "seq_model \<Rightarrow> int \<Rightarrow> vline option" where
  "sm_get m f = dget (sm_state m) f"

lemma sm_write_eq:
  "fst (sm_write m f v op x) = fst (apply_versioned (sm_state m) f v op x)"
  "sm_state (snd (sm_write m f v op x)) = snd (apply_versioned (sm_state m) f v op x)"
  by (auto simp: sm_write_def Let_def split: prod.splits)

interpretation seqm: version_index sm_get sm_write "\<lambda>m. distinct (dkeys (sm_state m))"
  by unfold_locales
    (auto simp: sm_get_def sm_write_eq apply_versioned_verdict apply_versioned_get
      apply_versioned_distinct)

subsection \<open>Retry memory\<close>

lemma tx_check_record:
  "tx_check (tx_record m i d s) j e =
     (if j = i then (if d = e then TxReplay else TxConflict) else tx_check m j e)"
  by (simp add: tx_check_def tx_record_def dget_dput)

lemma tx_get_seq_record:
  "tx_get_seq (tx_record m i d s) j = (if j = i then Some s else tx_get_seq m j)"
  by (simp add: tx_get_seq_def tx_record_def dget_dput)

lemma tx_check_new: "tx_check m i d = TxNew \<longleftrightarrow> dget m i = None"
  by (auto simp: tx_check_def split: option.splits)

interpretation tx: retry_memory tx_check tx_get_seq tx_record "\<lambda>m. distinct (dkeys m)"
  by unfold_locales (simp add: tx_check_record, simp add: tx_get_seq_record,
      simp add: tx_record_def distinct_dput)

end
