(* ===== verification/Dedup.thy ===== *)
theory Dedup
  imports Versions Registry "HOL-Library.List_Lexorder"
begin

section \<open>The retry memory of a base (\<open>DedupTable\<close> of \<open>horizon_artifacts.py\<close>)\<close>

text \<open>
  The operations a generation still remembers, \<open>(operation_id, content_digest, original_seq)\<close>
  in ascending order of operation id (Python compares \<open>bytes\<close> lexicographically, as the list
  order of \<open>HOL-Library.List_Lexorder\<close> does), and per client the highest transaction id seen
  and the lowest one retained. The lemmas show that the probe is the map of the entries, that an
  operation at or below the highest id of its client is never new, and the round trip of
  \<open>build\<close>.
\<close>

definition DEDUP_MAGIC :: bytes where "DEDUP_MAGIC = [0x48, 0x44, 0x54, 0x31]"
abbreviation (input) DEDUP_FORMAT_VERSION :: int where "DEDUP_FORMAT_VERSION \<equiv> 1"
abbreviation (input) DEDUP_HEADER :: "sfmt list" where
  "DEDUP_HEADER \<equiv> [FS 4, FU 2, FU 4, FU 4, FU 8, FU 8, FU 4, FU 4, FU 4]"
abbreviation (input) DEDUP_HEADER_SIZE :: nat where "DEDUP_HEADER_SIZE \<equiv> 42"
abbreviation (input) DEDUP_ENTRY :: "sfmt list" where "DEDUP_ENTRY \<equiv> [FS 16, FS 16, FU 8]"
abbreviation (input) DEDUP_ENTRY_SIZE :: nat where "DEDUP_ENTRY_SIZE \<equiv> 40"
abbreviation (input) DEDUP_CLIENT :: "sfmt list" where "DEDUP_CLIENT \<equiv> [FU 8, FU 8, FU 8]"
abbreviation (input) DEDUP_CLIENT_SIZE :: nat where "DEDUP_CLIENT_SIZE \<equiv> 24"
definition DEDUPTABLE_TAG :: bytes where
  "DEDUPTABLE_TAG = [0x44, 0x45, 0x44, 0x55, 0x50, 0x54, 0x41, 0x42, 0x4C, 0x45]"

type_synonym dedup_entry = "bytes \<times> bytes \<times> int"
type_synonym dedup_clients = "(int, int \<times> int) pydict"

record dedup_table =
  dt_blob :: bytes
  dt_key :: bytes
  dt_scope_id :: int
  dt_generation_id :: int
  dt_dedup_floor_seq :: int
  dt_dedup_through_seq :: int
  dt_retention :: int
  dt_entry_count :: nat
  dt_client_count :: nat
  dt_clients :: dedup_clients

definition dt_mac :: "bytes \<Rightarrow> bytes \<Rightarrow> bytes \<Rightarrow> bytes" where
  "dt_mac key header body = mac16 key (DEDUPTABLE_TAG @ header @ body)"

definition dt_entry_at :: "bytes \<Rightarrow> nat \<Rightarrow> dedup_entry" where
  "dt_entry_at blob i =
     (let x = struct_unpack DEDUP_ENTRY (drop (DEDUP_HEADER_SIZE + i * DEDUP_ENTRY_SIZE) blob)
      in (fb x 0, fb x 1, fi x 2))"

definition dt_client_at :: "bytes \<Rightarrow> nat \<Rightarrow> nat \<Rightarrow> int \<times> int \<times> int" where
  "dt_client_at blob off i =
     (let x = struct_unpack DEDUP_CLIENT (drop (off + i * DEDUP_CLIENT_SIZE) blob)
      in (fi x 0, fi x 1, fi x 2))"

text \<open>\<open>struct.unpack("<QQ", operation_id)\<close>, which raises unless it gets 16 bytes.\<close>

definition split_opid :: "bytes \<Rightarrow> (int \<times> int) option" where
  "split_opid operation_id =
     (if length operation_id = 16 then Some (le_int (take 8 operation_id), le_int (drop 8 operation_id))
      else None)"

text \<open>The two validation loops: clients, then entries.\<close>

fun dt_read_clients :: "(int \<times> int \<times> int) list \<Rightarrow> int \<Rightarrow> dedup_clients option" where
  "dt_read_clients [] prev = Some []"
| "dt_read_clients ((c, hi, lo) # cs) prev =
     (if c \<le> prev then None
      else if lo > hi then None
      else (case dt_read_clients cs c of None \<Rightarrow> None | Some d \<Rightarrow> Some ((c, (hi, lo)) # d)))"

fun dt_check_entries :: "int \<Rightarrow> int \<Rightarrow> dedup_clients \<Rightarrow> dedup_entry list \<Rightarrow> bytes \<Rightarrow> bool" where
  "dt_check_entries floor_seq through clients [] prev = True"
| "dt_check_entries floor_seq through clients ((o', d, s) # es) prev =
     (if o' \<le> prev then False
      else if \<not> (floor_seq \<le> s \<and> s \<le> through) then False
      else
        (case split_opid o' of
           None \<Rightarrow> False
         | Some (client_id, txid) \<Rightarrow>
             (case dget clients client_id of
                None \<Rightarrow> False
              | Some (hi, lo) \<Rightarrow>
                  (if \<not> (lo \<le> txid \<and> txid \<le> hi) then False
                   else dt_check_entries floor_seq through clients es o'))))"

definition dt_open :: "bytes \<Rightarrow> bytes \<Rightarrow> open_exn + dedup_table" where
  "dt_open blob key =
     (if length blob < DEDUP_HEADER_SIZE then Inl IntegrityError
      else
        (let x = struct_unpack DEDUP_HEADER blob;
             floor_seq = fi x 4; through = fi x 5; ne = nat (fi x 7); nc = nat (fi x 8);
             ent_end = DEDUP_HEADER_SIZE + ne * DEDUP_ENTRY_SIZE;
             cli_end = ent_end + nc * DEDUP_CLIENT_SIZE
         in if fb x 0 \<noteq> DEDUP_MAGIC then Inl IntegrityError
            else if fi x 1 \<noteq> DEDUP_FORMAT_VERSION then Inl IncompatibleError
            else if length blob \<noteq> cli_end + TAG_BYTES then Inl IntegrityError
            else if dt_mac key (take DEDUP_HEADER_SIZE blob) (slice blob DEDUP_HEADER_SIZE cli_end)
                      \<noteq> slice blob cli_end (cli_end + TAG_BYTES) then Inl IntegrityError
            else if ne = 0 \<and> floor_seq \<noteq> through + 1 then Inl IntegrityError
            else
              (case dt_read_clients (map (dt_client_at blob ent_end) [0..<nc]) (-1) of
                 None \<Rightarrow> Inl IntegrityError
               | Some clients \<Rightarrow>
                   if \<not> dt_check_entries floor_seq through clients (map (dt_entry_at blob) [0..<ne]) []
                   then Inl IntegrityError
                   else Inr \<lparr>dt_blob = blob, dt_key = key, dt_scope_id = fi x 2, dt_generation_id = fi x 3,
                             dt_dedup_floor_seq = floor_seq, dt_dedup_through_seq = through,
                             dt_retention = fi x 6, dt_entry_count = ne, dt_client_count = nc,
                             dt_clients = clients\<rparr>)))"

definition dedup_row :: "dedup_entry \<Rightarrow> sval list" where
  "dedup_row e = [VB (fst e), VB (fst (snd e)), VI (snd (snd e))]"

definition client_row :: "int \<times> int \<times> int \<Rightarrow> sval list" where
  "client_row e = [VI (fst e), VI (fst (snd e)), VI (snd (snd e))]"

definition dt_build ::
  "int \<Rightarrow> int \<Rightarrow> int \<Rightarrow> int \<Rightarrow> int \<Rightarrow> dedup_entry list \<Rightarrow> dedup_clients \<Rightarrow> bytes \<Rightarrow> open_exn + dedup_table"
  where
  "dt_build scope_id generation_id floor_seq through retention entries clients key =
     (let ents = sort_key fst entries; cls = sort_key fst clients
      in case (struct_pack DEDUP_HEADER [VB DEDUP_MAGIC, VI DEDUP_FORMAT_VERSION, VI scope_id,
                 VI generation_id, VI floor_seq, VI through, VI retention, VI (int (length ents)),
                 VI (int (length cls))],
               pack_rows DEDUP_ENTRY (map dedup_row ents), pack_rows DEDUP_CLIENT (map client_row cls)) of
           (Some header, Some b1, Some b2) \<Rightarrow>
             dt_open (header @ (b1 @ b2) @ dt_mac key header (b1 @ b2)) key
         | _ \<Rightarrow> Inl PackError)"

definition dt_iter_entries :: "dedup_table \<Rightarrow> dedup_entry list" where
  "dt_iter_entries t = map (dt_entry_at (dt_blob t)) [0..<dt_entry_count t]"

definition dt_entry :: "dedup_table \<Rightarrow> bytes \<Rightarrow> (bytes \<times> int) option" where
  "dt_entry t operation_id = bsearch (dt_entry_at (dt_blob t)) operation_id 0 (dt_entry_count t)"

text \<open>\<open>probe\<close>; an operation id that is not 16 bytes long raises \<open>struct.error\<close>.\<close>

definition dt_probe :: "dedup_table \<Rightarrow> bytes \<Rightarrow> bytes \<Rightarrow> open_exn + probe" where
  "dt_probe t operation_id digest =
     (case dt_entry t operation_id of
        Some (d, s) \<Rightarrow> Inr (if d = digest then PReplay s else PConflict)
      | None \<Rightarrow>
          (case split_opid operation_id of
             None \<Rightarrow> Inl PackError
           | Some (client_id, txid) \<Rightarrow>
               (case dget (dt_clients t) client_id of
                  None \<Rightarrow> Inr PNew
                | Some (highest_seen, retained_floor) \<Rightarrow>
                    if txid > highest_seen then Inr PNew else Inr PExpired)))"

definition dt_try_open :: "bytes \<Rightarrow> bytes \<Rightarrow> dedup_table option" where
  "dt_try_open blob key = (case dt_open blob key of Inl _ \<Rightarrow> None | Inr t \<Rightarrow> Some t)"

subsection \<open>What an open table guarantees\<close>

definition dt_entry_ok :: "dedup_table \<Rightarrow> dedup_entry \<Rightarrow> bool" where
  "dt_entry_ok t e \<longleftrightarrow>
     (case e of (o', d, s) \<Rightarrow>
        dt_dedup_floor_seq t \<le> s \<and> s \<le> dt_dedup_through_seq t \<and>
        (\<exists>c x hi lo. split_opid o' = Some (c, x) \<and> dget (dt_clients t) c = Some (hi, lo) \<and> lo \<le> x \<and> x \<le> hi))"

definition dt_valid :: "dedup_table \<Rightarrow> bool" where
  "dt_valid t \<longleftrightarrow>
     sorted_wrt (<) (map fst (dt_iter_entries t)) \<and>
     sorted_wrt (<) (map fst (dt_clients t)) \<and>
     (\<forall>(c, hi, lo) \<in> set (dt_clients t). lo \<le> hi) \<and>
     (\<forall>e \<in> set (dt_iter_entries t). dt_entry_ok t e) \<and>
     (dt_entry_count t = 0 \<longrightarrow> dt_dedup_floor_seq t = dt_dedup_through_seq t + 1)"

lemma dt_read_clients_sorted:
  "dt_read_clients cs prev = Some d \<Longrightarrow>
     d = cs \<and> sorted_wrt (<) (map fst d) \<and> (\<forall>e \<in> set d. prev < fst e) \<and> (\<forall>(c, hi, lo) \<in> set d. lo \<le> hi)"
proof (induction cs prev arbitrary: d rule: dt_read_clients.induct)
  case (1 prev)
  then show ?case by simp
next
  case (2 c hi lo cs prev)
  from 2(2) obtain d' where d: "\<not> c \<le> prev" "\<not> lo > hi" "dt_read_clients cs c = Some d'" "d = (c, hi, lo) # d'"
    by (auto split: if_splits option.splits)
  note ih = 2(1) [OF d(1,2,3)]
  have "prev < fst e" if "e \<in> set d'" for e using ih that d(1) by fastforce
  then show ?case using ih d by auto
qed

lemma dt_check_entries_sound:
  "dt_check_entries fl th cl es prev \<Longrightarrow>
     sorted_wrt (<) (map fst es) \<and> (\<forall>e \<in> set es. prev < fst e) \<and>
     (\<forall>(o', d, s) \<in> set es. fl \<le> s \<and> s \<le> th \<and>
        (\<exists>c x hi lo. split_opid o' = Some (c, x) \<and> dget cl c = Some (hi, lo) \<and> lo \<le> x \<and> x \<le> hi))"
proof (induction fl th cl es prev rule: dt_check_entries.induct)
  case (1 fl th cl prev)
  then show ?case by simp
next
  case (2 fl th cl o' d s es prev)
  obtain c x hi lo where h: "\<not> o' \<le> prev" "fl \<le> s" "s \<le> th" "split_opid o' = Some (c, x)"
    "dget cl c = Some (hi, lo)" "lo \<le> x" "x \<le> hi" "dt_check_entries fl th cl es o'"
    using 2(2) by (auto split: if_splits option.splits prod.splits)
  have ih: "sorted_wrt (<) (map fst es)" "\<forall>e \<in> set es. o' < fst e"
    "\<forall>(o', d, s) \<in> set es. fl \<le> s \<and> s \<le> th \<and>
        (\<exists>c x hi lo. split_opid o' = Some (c, x) \<and> dget cl c = Some (hi, lo) \<and> lo \<le> x \<and> x \<le> hi)"
    using 2(1) [of "(c, x)" c x "(hi, lo)" hi lo] h by simp_all
  have p: "prev < o'" using h(1) by simp
  have "prev < fst e" if "e \<in> set es" for e using ih(2) that p by (meson order_less_trans)
  then show ?case using ih h p by auto
qed

lemma dt_open_valid: "dt_open blob key = Inr t \<Longrightarrow> dt_valid t \<and> dt_blob t = blob \<and> dt_key t = key"
proof -
  assume o: "dt_open blob key = Inr t"
  then obtain ent_end where c: "dt_read_clients (map (dt_client_at blob ent_end) [0..<dt_client_count t]) (-1) = Some (dt_clients t)"
    and e: "dt_check_entries (dt_dedup_floor_seq t) (dt_dedup_through_seq t) (dt_clients t) (dt_iter_entries t) []"
    and z: "dt_entry_count t = 0 \<longrightarrow> dt_dedup_floor_seq t = dt_dedup_through_seq t + 1"
    and b: "dt_blob t = blob" "dt_key t = key"
    unfolding dt_open_def Let_def dt_iter_entries_def
    by (auto simp del: struct_unpack.simps split: if_split_asm option.split_asm)
  from dt_read_clients_sorted [OF c] dt_check_entries_sound [OF e] z b show ?thesis
    unfolding dt_valid_def dt_entry_ok_def by blast
qed

lemma dt_entry_map_of: "dt_valid t \<Longrightarrow> dt_entry t o' = map_of (dt_iter_entries t) o'"
  unfolding dt_entry_def dt_iter_entries_def
  by (rule bsearch_map_of) (simp add: dt_valid_def dt_iter_entries_def)

subsection \<open>The probe\<close>

text \<open>A remembered operation is replayed with its own sequence number, or refused.\<close>

lemma dt_probe_known:
  assumes v: "dt_valid t" and e: "(o', d, s) \<in> set (dt_iter_entries t)"
  shows "dt_probe t o' d' = Inr (if d = d' then PReplay s else PConflict)"
    and "dt_dedup_floor_seq t \<le> s \<and> s \<le> dt_dedup_through_seq t"
proof -
  have "distinct (map fst (dt_iter_entries t))"
    using v by (simp add: dt_valid_def strict_sorted_iff)
  then have "dt_entry t o' = Some (d, s)" using e by (simp add: dt_entry_map_of [OF v])
  then show "dt_probe t o' d' = Inr (if d = d' then PReplay s else PConflict)" by (simp add: dt_probe_def)
  show "dt_dedup_floor_seq t \<le> s \<and> s \<le> dt_dedup_through_seq t"
    using v e by (fastforce simp: dt_valid_def dt_entry_ok_def)
qed

text \<open>New means: not remembered, and above everything seen of its client.\<close>

lemma dt_probe_new:
  assumes v: "dt_valid t" and o: "split_opid o' = Some (c, x)"
  shows "dt_probe t o' d = Inr PNew \<longleftrightarrow>
    (case dget (dt_clients t) c of None \<Rightarrow> True | Some (hi, lo) \<Rightarrow> hi < x)"
proof (cases "dt_entry t o'")
  case None
  then show ?thesis using o by (simp add: dt_probe_def split: option.splits prod.splits)
next
  case (Some ds)
  obtain d1 s where ds: "ds = (d1, s)" by (cases ds)
  have "(o', d1, s) \<in> set (dt_iter_entries t)"
    using Some by (auto simp: dt_entry_map_of [OF v] ds dest: map_of_SomeD)
  then have "dt_entry_ok t (o', d1, s)" using v by (simp add: dt_valid_def)
  then obtain hi lo where "dget (dt_clients t) c = Some (hi, lo)" "x \<le> hi"
    using o by (auto simp: dt_entry_ok_def)
  then show ?thesis using Some by (simp add: dt_probe_def ds split: if_splits)
qed

lemma dt_probe_total: "split_opid o' = Some cx \<Longrightarrow> \<exists>p. dt_probe t o' d = Inr p"
  by (auto simp: dt_probe_def split: option.splits prod.splits)

subsection \<open>Build and open\<close>

definition dedup_args_ok :: "int \<Rightarrow> int \<Rightarrow> dedup_entry list \<Rightarrow> dedup_clients \<Rightarrow> bool" where
  "dedup_args_ok floor_seq through entries clients \<longleftrightarrow>
     distinct (map fst entries) \<and> distinct (map fst clients) \<and>
     length entries < 2 ^ 32 \<and> length clients < 2 ^ 32 \<and>
     (\<forall>e \<in> set entries. length (fst e) = 16 \<and> length (fst (snd e)) = 16 \<and>
        floor_seq \<le> snd (snd e) \<and> snd (snd e) \<le> through \<and>
        (\<exists>c x hi lo. split_opid (fst e) = Some (c, x) \<and> dget clients c = Some (hi, lo) \<and> lo \<le> x \<and> x \<le> hi)) \<and>
     (\<forall>e \<in> set clients. 0 \<le> fst e \<and> fst e < 2 ^ 64 \<and> 0 \<le> snd (snd e) \<and>
        snd (snd e) \<le> fst (snd e) \<and> fst (snd e) < 2 ^ 64) \<and>
     (entries = [] \<longrightarrow> floor_seq = through + 1)"

lemma dt_read_clients_complete:
  "sorted_wrt (<) (map fst cs) \<Longrightarrow> \<forall>e \<in> set cs. prev < fst e \<and> snd (snd e) \<le> fst (snd e) \<Longrightarrow>
   dt_read_clients cs prev = Some cs"
  by (induction cs prev rule: dt_read_clients.induct) auto

lemma dt_check_entries_complete:
  "sorted_wrt (<) (map fst es) \<Longrightarrow> \<forall>e \<in> set es. prev < fst e \<Longrightarrow>
   \<forall>e \<in> set es. fl \<le> snd (snd e) \<and> snd (snd e) \<le> th \<and>
     (\<exists>c x hi lo. split_opid (fst e) = Some (c, x) \<and> dget cl c = Some (hi, lo) \<and> lo \<le> x \<and> x \<le> hi) \<Longrightarrow>
   dt_check_entries fl th cl es prev"
proof (induction fl th cl es prev rule: dt_check_entries.induct)
  case (1 fl th cl prev)
  then show ?case by simp
next
  case (2 fl th cl o' d s es prev)
  obtain c x hi lo where h: "split_opid o' = Some (c, x)" "dget cl c = Some (hi, lo)" "lo \<le> x" "x \<le> hi"
    using 2(4) by auto
  have "prev < o'" "fl \<le> s" "s \<le> th" using 2(3,4) by auto
  moreover have "dt_check_entries fl th cl es o'"
    using 2(1) [of "(c, x)" c x "(hi, lo)" hi lo] 2(2-4) h calculation by auto
  ultimately show ?case using h by simp
qed

lemma dedup_rows_fit:
  assumes "dedup_args_ok fl th es cl" "0 \<le> fl" "th < 2 ^ 64"
  shows "\<forall>r \<in> set (map dedup_row (sort_key fst es)). list_all2 fits DEDUP_ENTRY r"
    "\<forall>r \<in> set (map client_row (sort_key fst cl)). list_all2 fits DEDUP_CLIENT r"
  using assms by (fastforce simp: dedup_args_ok_def dedup_row_def client_row_def)+

lemma dt_build_opens:
  assumes a: "dedup_args_ok fl th es cl"
    and ids: "0 \<le> sc" "sc < 2 ^ 32" "0 \<le> gn" "gn < 2 ^ 32" "0 \<le> rt" "rt < 2 ^ 32"
    and sq: "0 \<le> fl" "fl < 2 ^ 64" "0 \<le> th" "th < 2 ^ 64"
  shows "\<exists>t. dt_build sc gn fl th rt es cl key = Inr t \<and> dt_valid t \<and> dt_scope_id t = sc \<and>
    dt_generation_id t = gn \<and> dt_dedup_floor_seq t = fl \<and> dt_dedup_through_seq t = th \<and>
    dt_iter_entries t = sort_key fst es \<and> dt_clients t = sort_key fst cl"
proof -
  let ?es = "sort_key fst es" and ?cl = "sort_key fst cl"
  define ne nc where "ne = length es" and "nc = length cl"
  let ?vs = "[VB DEDUP_MAGIC, VI 1, VI sc, VI gn, VI fl, VI th, VI rt, VI (int ne), VI (int nc)]"
  have "int ne < 2 ^ 32" "int nc < 2 ^ 32" using a by (simp_all add: dedup_args_ok_def ne_def nc_def)
  then have f: "list_all2 fits DEDUP_HEADER ?vs"
    using ids sq by (simp add: DEDUP_MAGIC_def)
  obtain h where h: "struct_pack DEDUP_HEADER ?vs = Some h" using fits_struct_pack [OF f] by blast
  have lh: "length h = 42" using struct_pack_length [OF h] by simp
  note rows = dedup_rows_fit [OF a sq(1,4)]
  obtain b1 b2 where b: "pack_rows DEDUP_ENTRY (map dedup_row ?es) = Some b1"
    "pack_rows DEDUP_CLIENT (map client_row ?cl) = Some b2"
    using pack_rows_fits [OF rows(1)] pack_rows_fits [OF rows(2)] by blast
  have lb: "length b1 = ne * 40" "length b2 = nc * 24"
    using pack_rows_length [OF b(1)] pack_rows_length [OF b(2)] by (simp_all add: ne_def nc_def)
  define mac where "mac = dt_mac key h (b1 @ b2)"
  define blob where "blob = h @ (b1 @ b2) @ mac"
  have lm: "length mac = 16" by (simp add: mac_def dt_mac_def)
  have un: "struct_unpack DEDUP_HEADER blob = ?vs" unfolding blob_def by (rule struct_unpack_pack [OF h f])
  have en: "map (dt_entry_at blob) [0..<ne] = ?es"
  proof (rule nth_equalityI)
    fix i assume "i < length (map (dt_entry_at blob) [0..<ne])"
    then have i: "i < length (map dedup_row ?es)" by (simp add: ne_def)
    have d: "drop (42 + i * 40) blob = drop (i * struct_size DEDUP_ENTRY) (b1 @ (b2 @ mac))"
      using lh by (simp add: blob_def)
    show "map (dt_entry_at blob) [0..<ne] ! i = ?es ! i"
      using i pack_rows_nth [OF b(1) rows(1) i, of "b2 @ mac"]
      by (simp add: dt_entry_at_def d Let_def dedup_row_def ne_def del: struct_unpack.simps drop_append struct_size_simps)
  qed (simp add: ne_def)
  have cn: "map (dt_client_at blob (42 + ne * 40)) [0..<nc] = ?cl"
  proof (rule nth_equalityI)
    fix i assume "i < length (map (dt_client_at blob (42 + ne * 40)) [0..<nc])"
    then have i: "i < length (map client_row ?cl)" by (simp add: nc_def)
    have d: "drop (42 + ne * 40 + i * 24) blob = drop (i * struct_size DEDUP_CLIENT) (b2 @ mac)"
      using lh lb by (simp add: blob_def)
    show "map (dt_client_at blob (42 + ne * 40)) [0..<nc] ! i = ?cl ! i"
      using i pack_rows_nth [OF b(2) rows(2) i, of mac]
      by (simp add: dt_client_at_def d Let_def client_row_def nc_def del: struct_unpack.simps drop_append struct_size_simps)
  qed (simp add: nc_def)
  have s: "sorted_wrt (<) (map fst ?es)" "sorted_wrt (<) (map fst ?cl)" "map_of ?cl = map_of cl"
    using a sort_key_dict [of es] sort_key_dict [of cl] by (simp_all add: dedup_args_ok_def)
  have rc: "dt_read_clients (map (dt_client_at blob (42 + ne * 40)) [0..<nc]) (-1) = Some ?cl"
    unfolding cn using a s(2) by (intro dt_read_clients_complete) (fastforce simp: dedup_args_ok_def)+
  have "[] < fst e" if "e \<in> set es" for e
    using a that by (cases "fst e") (fastforce simp: dedup_args_ok_def)+
  then have ck: "dt_check_entries fl th ?cl (map (dt_entry_at blob) [0..<ne]) []"
    unfolding en using a s(1,3)
    by (intro dt_check_entries_complete) (simp_all add: dedup_args_ok_def del: split_paired_Ex map_of_eq_Some_iff)
  have sl: "take 42 blob = h" "slice blob 42 (42 + ne * 40 + nc * 24) = b1 @ b2"
    "slice blob (42 + ne * 40 + nc * 24) (42 + ne * 40 + nc * 24 + 16) = mac"
    "length blob = 42 + ne * 40 + nc * 24 + 16"
    using lb lh lm by (simp_all add: blob_def slice_def)
  have e0: "\<not> (ne = 0 \<and> fl \<noteq> th + 1)" using a by (simp add: dedup_args_ok_def ne_def)
  define t where "t = \<lparr>dt_blob = blob, dt_key = key, dt_scope_id = sc, dt_generation_id = gn,
     dt_dedup_floor_seq = fl, dt_dedup_through_seq = th, dt_retention = rt, dt_entry_count = ne,
     dt_client_count = nc, dt_clients = ?cl\<rparr>"
  have op: "dt_open blob key = Inr t"
    unfolding dt_open_def Let_def un using sl e0 rc ck
    by (auto simp: t_def mac_def)
  have "dt_build sc gn fl th rt es cl key = dt_open blob key"
    unfolding dt_build_def Let_def using h b
    by (simp add: blob_def mac_def ne_def nc_def del: struct_pack.simps)
  then show ?thesis
    using op dt_open_valid [OF op] en by (simp add: t_def dt_iter_entries_def)
qed

end
