(* ===== verification/ReadPath.thy ===== *)
theory ReadPath
  imports Bulk Dedup
begin

section \<open>Reading a generation (\<open>horizon_store.py\<close>)\<close>

text \<open>
  The consumer of the engine: \<open>read\<close> takes the L0 entry of a fact if there is one, else it
  goes through the registry to the tombstone layer, the residual field and the bulk snapshot of
  the generation. \<open>BundleBaseView\<close> is the same path seen by a writer, and
  \<open>validate_base_artifacts\<close> the cross validation of the four artifacts. The bulk of a
  \<open>GenerationBundle\<close> is a snapshot (its only constructors never pass \<open>None\<close>).
\<close>

record read_view =
  rv_generation_id :: int
  rv_scope_id :: int
  rv_base_seq :: int
  rv_read_seq :: int

datatype read_status = RCorrect | RDeleted | RFromBulk | RFallbackBulk | RAbstain | RNotFound
datatype read_source = SrcL0 | SrcResidual | SrcTombstone | SrcBulk | SrcNone

record read_result =
  rr_status :: read_status
  rr_value :: "int option"
  rr_authoritative :: bool
  rr_source :: read_source

abbreviation (input) ReadResult :: "read_status \<Rightarrow> int option \<Rightarrow> bool \<Rightarrow> read_source \<Rightarrow> read_result" where
  "ReadResult s v a src \<equiv> \<lparr>rr_status = s, rr_value = v, rr_authoritative = a, rr_source = src\<rparr>"

record generation_bundle =
  gb_scope_id :: int
  gb_generation_id :: int
  gb_field :: "residual_field option"
  gb_registry :: "fact_registry option"
  gb_tombstone :: "tombstone_layer open_result"
  gb_bulk :: bulk_snapshot

subsection \<open>Cross validation of the artifacts\<close>

text \<open>The reasons are kept; the first violated rule wins.\<close>

datatype base_fault = ScopeOrGeneration string | FactCount string | BulkNotRegistry
  | ResidualNotBulk | TombstoneNotBulk | DeadCorrection

fun check_parts :: "(string \<times> int \<times> int \<times> int) list \<Rightarrow> int \<Rightarrow> int \<Rightarrow> int \<Rightarrow> base_fault option" where
  "check_parts [] scope_id generation_id fact_count = None"
| "check_parts ((name, sc, gn, fc) # ps) scope_id generation_id fact_count =
     (if sc \<noteq> scope_id \<or> gn \<noteq> generation_id then Some (ScopeOrGeneration name)
      else if fc \<noteq> fact_count then Some (FactCount name)
      else check_parts ps scope_id generation_id fact_count)"

definition validate_base_artifacts ::
  "numpy \<Rightarrow> fact_registry \<Rightarrow> bulk_snapshot \<Rightarrow> residual_field \<Rightarrow> tombstone_layer \<Rightarrow> int \<Rightarrow> int \<Rightarrow> int
   \<Rightarrow> base_fault option" where
  "validate_base_artifacts np registry bulk residual tombstone scope_id generation_id fact_count =
     (case check_parts
         [(''registry'', fr_scope_id registry, fr_generation_id registry, fr_fact_count registry),
          (''bulk'', bs_scope_id bulk, bs_generation_id bulk, int (bs_fact_count bulk)),
          (''residual'', rf_scope_id residual, rf_bulk_epoch residual, int (rf_fact_count residual)),
          (''tombstone'', tl_scope_id tombstone, tl_bulk_epoch tombstone, int (tl_fact_count tombstone))]
         scope_id generation_id fact_count of
        Some f \<Rightarrow> Some f
      | None \<Rightarrow>
          (let reg_ord = reg_ordinals registry;
               bulk_sup = int ` bs_support_ordinals np bulk;
               res_sup = int ` rf_support_ordinals np residual;
               tomb_sup = int ` tl_support_ordinals np tombstone
           in if bulk_sup \<noteq> reg_ord then Some BulkNotRegistry
              else if \<not> res_sup \<subseteq> bulk_sup then Some ResidualNotBulk
              else if \<not> tomb_sup \<subseteq> bulk_sup then Some TombstoneNotBulk
              else if res_sup \<inter> tomb_sup \<noteq> {} then Some DeadCorrection
              else None))"

subsection \<open>\<open>BundleBaseView\<close>\<close>

record bundle_base =
  bb_view :: read_view
  bb_bundle :: generation_bundle
  bb_base_dedup :: "dedup_table option"

definition bb_dedup_probe :: "bundle_base \<Rightarrow> bytes \<Rightarrow> bytes \<Rightarrow> open_exn + probe" where
  "bb_dedup_probe b operation_id digest =
     (case bb_base_dedup b of
        None \<Rightarrow> Inr PNew
      | Some d \<Rightarrow>
          (if dt_scope_id d \<noteq> rv_scope_id (bb_view b) \<or> dt_generation_id d \<noteq> rv_generation_id (bb_view b)
           then Inr PAbstain
           else dt_probe d operation_id digest))"

definition bb_lookup :: "bundle_base \<Rightarrow> int \<Rightarrow> base_lookup" where
  "bb_lookup base fact_id =
     (let b = bb_bundle base; view = bb_view base
      in if gb_scope_id b \<noteq> rv_scope_id view \<or> gb_generation_id b \<noteq> rv_generation_id view
         then BASE_ABSTAIN
         else
           (case gb_registry b of
              None \<Rightarrow> BASE_ABSTAIN
            | Some reg \<Rightarrow>
                (case reg_lookup reg fact_id of
                   None \<Rightarrow> BASE_ABSENT
                 | Some (ordinal, fver) \<Rightarrow>
                     (case resolve (gb_field b) (gb_tombstone b) ordinal (rv_scope_id view)
                             (rv_generation_id view) of
                        (DELETED, _) \<Rightarrow> VersionedFact fver OP_DELETE None
                      | (CORRECT, v) \<Rightarrow> VersionedFact fver OP_PUT v
                      | (NO_RESIDUAL, _) \<Rightarrow>
                          (case bs_lookup (gb_bulk b) ordinal of
                             (BULK_VALUE, v) \<Rightarrow> VersionedFact fver OP_PUT v
                           | _ \<Rightarrow> BASE_ABSTAIN)
                      | _ \<Rightarrow> BASE_ABSTAIN))))"

text \<open>As the duck-typed base of the writers. Operation ids of commands are 16 bytes, so the
  probe does not raise on them (\<open>bb_probe_total\<close>).\<close>

definition bundle_base_view :: "bundle_base \<Rightarrow> base_view" where
  "bundle_base_view b =
     \<lparr>bv_lookup = bb_lookup b,
      bv_dedup_probe = (\<lambda>operation_id digest.
        case bb_dedup_probe b operation_id digest of Inr p \<Rightarrow> p | Inl _ \<Rightarrow> PAbstain)\<rparr>"

subsection \<open>The consumer\<close>

definition view_matches :: "read_view \<Rightarrow> generation_bundle \<Rightarrow> bool" where
  "view_matches view b =
     (let sc = rv_scope_id view; gn = rv_generation_id view
      in gb_scope_id b = sc \<and> gb_generation_id b = gn \<and>
         (case gb_registry b of None \<Rightarrow> True | Some r \<Rightarrow> fr_scope_id r = sc \<and> fr_generation_id r = gn) \<and>
         (case gb_field b of None \<Rightarrow> True | Some f \<Rightarrow> rf_scope_id f = sc \<and> rf_bulk_epoch f = gn) \<and>
         bs_scope_id (gb_bulk b) = sc \<and> bs_generation_id (gb_bulk b) = gn \<and>
         (case or_layer (gb_tombstone b) of None \<Rightarrow> True | Some t \<Rightarrow> tl_scope_id t = sc \<and> tl_bulk_epoch t = gn))"

text \<open>\<open>read\<close>; \<open>l0\<close> is the lookup of the L0 index. \<open>int(None)\<close> raises \<open>TypeError\<close>, which
  is the value \<open>None\<close>.\<close>

definition read :: "read_view \<Rightarrow> generation_bundle \<Rightarrow> (int \<Rightarrow> vline option) \<Rightarrow> int \<Rightarrow> read_result option" where
  "read view bundle l0 fact_id =
     (if \<not> view_matches view bundle then Some (ReadResult RAbstain None False SrcNone)
      else
        (case l0 fact_id of
           Some (_, op, value) \<Rightarrow>
             (if op = OP_DELETE then Some (ReadResult RDeleted None True SrcL0)
              else (case value of
                      None \<Rightarrow> None
                    | Some v \<Rightarrow> Some (ReadResult RCorrect (Some v) True SrcL0)))
         | None \<Rightarrow>
             (case gb_registry bundle of
                None \<Rightarrow> Some (ReadResult RAbstain None False SrcNone)
              | Some reg \<Rightarrow>
                  (case reg_lookup reg fact_id of
                     None \<Rightarrow> Some (ReadResult RNotFound None True SrcNone)
                   | Some (ordinal, _) \<Rightarrow>
                       Some (case resolve (gb_field bundle) (gb_tombstone bundle) ordinal
                                  (rv_scope_id view) (rv_generation_id view) of
                          (CORRECT, v) \<Rightarrow> ReadResult RCorrect v True SrcResidual
                        | (DELETED, _) \<Rightarrow> ReadResult RDeleted None True SrcTombstone
                        | (NO_RESIDUAL, _) \<Rightarrow>
                            (case bs_lookup (gb_bulk bundle) ordinal of
                               (BULK_VALUE, v) \<Rightarrow> ReadResult RFromBulk v True SrcBulk
                             | _ \<Rightarrow> ReadResult RAbstain None False SrcNone)
                        | (FALLBACK, _) \<Rightarrow>
                            (case bs_lookup (gb_bulk bundle) ordinal of
                               (BULK_VALUE, v) \<Rightarrow> ReadResult RFallbackBulk v False SrcBulk
                             | _ \<Rightarrow> ReadResult RAbstain None False SrcNone)
                        | _ \<Rightarrow> ReadResult RAbstain None False SrcNone)))))"

subsection \<open>A validated base answers every fact it knows\<close>

text \<open>The bundle \<open>bundle_from_validated\<close> assembles, with its tombstone opened as required.\<close>

definition base_bundle ::
  "int \<Rightarrow> int \<Rightarrow> fact_registry \<Rightarrow> bulk_snapshot \<Rightarrow> residual_field \<Rightarrow> tombstone_layer \<Rightarrow> generation_bundle" where
  "base_bundle sc gn r b f t =
     \<lparr>gb_scope_id = sc, gb_generation_id = gn, gb_field = Some f, gb_registry = Some r,
      gb_tombstone = \<lparr>or_state = VALID, or_layer = Some t\<rparr>, gb_bulk = b\<rparr>"

definition opened_base :: "fact_registry \<Rightarrow> bulk_snapshot \<Rightarrow> residual_field \<Rightarrow> tombstone_layer \<Rightarrow> bool" where
  "opened_base r b f t \<longleftrightarrow> reg_valid r \<and> bs_valid b \<and> rf_valid f \<and> tl_valid t"

lemma check_parts_all:
  "check_parts ps sc gn fc = None \<longleftrightarrow> (\<forall>(name, s, g, f) \<in> set ps. s = sc \<and> g = gn \<and> f = fc)"
  by (induction ps sc gn fc rule: check_parts.induct) auto

context numpy_bits
begin

lemma bs_support:
  assumes v: "bs_valid b"
  shows "bs_support_ordinals np b = {i. fst (bs_lookup b (int i)) = BULK_VALUE}"
proof -
  have r: "ranked (bs_blob b) BULK_HEADER_SIZE (bs_rank_off b) (bs_fact_count b) (bs_support_count b)"
    using v by (simp add: bs_valid_def)
  have "take (bs_fact_count b) (if slice (bs_blob b) BULK_HEADER_SIZE (bs_rank_off b) \<noteq> []
      then np_unpackbits np (slice (bs_blob b) BULK_HEADER_SIZE (bs_rank_off b)) else []) = bs_bits b"
    unfolding bs_rank_off_def bs_bits_def ranked_bits_def unpack_slice
    by (simp add: bitmap_at_def)
  moreover have "length (bs_bits b) = bs_fact_count b" using ranked_length(3) [OF r] by (simp add: bs_bits_def)
  moreover have "fst (bs_lookup b (int i)) = BULK_VALUE \<longleftrightarrow> i < bs_fact_count b \<and> bs_bits b ! i" for i
    unfolding bs_lookup_bits(1) [OF v] by auto
  ultimately show ?thesis
    unfolding bs_support_ordinals_def Let_def by (simp add: set_flatnonzero)
qed

lemma validated_ids:
  assumes "validate_base_artifacts np r b f t sc gn fc = None"
  shows "fr_scope_id r = sc" "fr_generation_id r = gn" "bs_scope_id b = sc" "bs_generation_id b = gn"
    "rf_scope_id f = sc" "rf_bulk_epoch f = gn" "tl_scope_id t = sc" "tl_bulk_epoch t = gn"
    "fr_fact_count r = fc" "int (bs_fact_count b) = fc" "int (rf_fact_count f) = fc" "int (tl_fact_count t) = fc"
  using assms unfolding validate_base_artifacts_def
  by (auto simp: check_parts_all simp del: check_parts.simps split: option.splits)

lemma validated_support:
  assumes v: "validate_base_artifacts np r b f t sc gn fc = None" and o: "opened_base r b f t"
    and l: "reg_lookup r fid = Some (i, ver)"
  shows "\<exists>v. bs_lookup b i = (BULK_VALUE, Some v)" "0 \<le> i" "i < fc"
    "\<not> (tl_is_deleted t i \<and> rf_bits f ! nat i)"
proof -
  note ids = validated_ids [OF v]
  have sup: "int ` bs_support_ordinals np b = reg_ordinals r"
    and dead: "int ` rf_support_ordinals np f \<inter> int ` tl_support_ordinals np t = {}"
    using v unfolding validate_base_artifacts_def by (auto simp: Let_def split: option.splits if_splits)
  have lb: "0 \<le> i" "i < fc" "i \<in> reg_ordinals r"
    using reg_lookup_bounds [OF _ l] o ids by (simp_all add: opened_base_def)
  then show "0 \<le> i" "i < fc" by simp_all
  have bv: "bs_valid b" and tv: "tl_valid t" and fv: "rf_valid f" using o by (simp_all add: opened_base_def)
  obtain k where k: "k \<in> bs_support_ordinals np b" "i = int k" using lb(3) sup by blast
  then have "fst (bs_lookup b i) = BULK_VALUE" using bs_support [OF bv] by simp
  then show "\<exists>v. bs_lookup b i = (BULK_VALUE, Some v)"
    unfolding bs_lookup_bits(1) [OF bv] by (auto split: if_splits)
  show "\<not> (tl_is_deleted t i \<and> rf_bits f ! nat i)"
  proof
    assume a: "tl_is_deleted t i \<and> rf_bits f ! nat i"
    have "k < rf_fact_count f" using lb(2) k(2) ids(11) by simp
    then have "k \<in> rf_support_ordinals np f" using a k(2) by (simp add: rf_support [OF fv])
    moreover have "k \<in> tl_support_ordinals np t" using a k(2) by (simp add: tl_support [OF tv])
    ultimately show False using dead by blast
  qed
qed

text \<open>What a reader of a validated base sees of a fact the L0 does not hold.\<close>

lemma read_validated:
  assumes v: "validate_base_artifacts np r b f t sc gn fc = None" and o: "opened_base r b f t"
    and view: "rv_scope_id view = sc" "rv_generation_id view = gn" and l0: "l0 fid = None"
  shows "read view (base_bundle sc gn r b f t) l0 fid = Some
    (case reg_lookup r fid of
       None \<Rightarrow> ReadResult RNotFound None True SrcNone
     | Some (i, ver) \<Rightarrow>
         if tl_is_deleted t i then ReadResult RDeleted None True SrcTombstone
         else if \<not> rf_bits f ! nat i then ReadResult RFromBulk (snd (bs_lookup b i)) True SrcBulk
         else if rf_verify_page f (rf_index f (nat i) div rf_page_size_bytes f)
           then ReadResult RCorrect (Some (uint (rf_payload f ! rf_index f (nat i)))) True SrcResidual
         else ReadResult RAbstain None False SrcNone)"
proof -
  note ids = validated_ids [OF v]
  have m: "view_matches view (base_bundle sc gn r b f t)"
    by (simp add: view_matches_def base_bundle_def view ids)
  show ?thesis
  proof (cases "reg_lookup r fid")
    case None
    then show ?thesis using m l0 by (simp add: read_def base_bundle_def)
  next
    case (Some e)
    obtain i ver where e: "e = (i, ver)" by (cases e)
    note s = validated_support [OF v o Some [unfolded e]]
    obtain bv where bv: "bs_lookup b i = (BULK_VALUE, Some bv)" using s(1) by blast
    have fv: "rf_valid f" using o by (simp add: opened_base_def)
    have "rf_answer f i sc gn =
      (if \<not> rf_bits f ! nat i then (NO_RESIDUAL, None)
       else if rf_verify_page f (rf_index f (nat i) div rf_page_size_bytes f)
         then (CORRECT, Some (uint (rf_payload f ! rf_index f (nat i))))
       else (ABSTAIN_INTEGRITY, None))"
      using s(2,3) ids by (simp add: rf_answer_def)
    then show ?thesis
      using m l0 Some e bv
      by (simp add: read_def base_bundle_def resolve_def view ids rf_safe_lookup_answer [OF fv])
  qed
qed

end

subsection \<open>A writer's base view and a reader agree\<close>

text \<open>How a reader sees what \<open>BundleBaseView.lookup\<close> returns.\<close>

definition base_reads_as :: "base_lookup \<Rightarrow> read_result \<Rightarrow> bool" where
  "base_reads_as l r \<longleftrightarrow>
     (case l of
        BASE_ABSENT \<Rightarrow> rr_status r = RNotFound
      | BASE_ABSTAIN \<Rightarrow> rr_status r \<in> {RAbstain, RFallbackBulk} \<and> \<not> rr_authoritative r
      | VersionedFact _ op v \<Rightarrow>
          rr_authoritative r \<and> rr_value r = v \<and>
          (if op = OP_DELETE then rr_status r = RDeleted else rr_status r \<in> {RCorrect, RFromBulk}))"

lemma bb_lookup_read:
  assumes "view_matches view bundle" "l0 fid = None"
  shows "\<exists>r. read view bundle l0 fid = Some r \<and>
    base_reads_as (bb_lookup \<lparr>bb_view = view, bb_bundle = bundle, bb_base_dedup = d\<rparr> fid) r"
  using assms
  by (auto simp: read_def bb_lookup_def base_reads_as_def view_matches_def Let_def
      split: option.splits rstatus.splits prod.splits bulk_status.splits)

text \<open>L0 shadows the generation, and an L0 delete is terminal.\<close>

lemma read_l0:
  assumes "view_matches view bundle" "l0 fid = Some (ver, op, v)" "op \<noteq> OP_DELETE \<Longrightarrow> v \<noteq> None"
  shows "read view bundle l0 fid = Some
    (if op = OP_DELETE then ReadResult RDeleted None True SrcL0 else ReadResult RCorrect v True SrcL0)"
  using assms by (auto simp: read_def)

text \<open>A fact the tombstone layer of the generation holds is never served.\<close>

lemma read_tombstone_terminal:
  assumes "or_state (gb_tombstone bundle) = VALID" "or_layer (gb_tombstone bundle) = Some t"
    "gb_registry bundle = Some reg" "reg_lookup reg fid = Some (i, ver)" "tl_is_deleted t i" "l0 fid = None"
  shows "\<exists>r. read view bundle l0 fid = Some r \<and> rr_value r = None \<and> rr_status r \<in> {RDeleted, RAbstain}"
  using assms by (auto simp: read_def resolve_def view_matches_def Let_def)

lemma bb_probe_total: "length oid = 16 \<Longrightarrow> \<exists>p. bb_dedup_probe b oid digest = Inr p"
  by (auto simp: bb_dedup_probe_def split_opid_def intro!: dt_probe_total split: option.splits)

text \<open>A table of another generation or scope never makes an operation new.\<close>

lemma bb_probe_new:
  assumes "bv_dedup_probe (bundle_base_view b) oid digest = PNew" "bb_base_dedup b = Some d"
  shows "dt_scope_id d = rv_scope_id (bb_view b) \<and> dt_generation_id d = rv_generation_id (bb_view b) \<and>
    dt_probe d oid digest = Inr PNew"
  using assms by (auto simp: bundle_base_view_def bb_dedup_probe_def split: if_splits sum.splits)

end
