(* ===== verification/Artifacts.thy ===== *)
theory Artifacts
  imports ReadPath
begin

section \<open>Typed artifacts and the object store (\<open>horizon_artifacts.py\<close>)\<close>

text \<open>
  An artifact is named by its SHA-256 digest in the object store and described by a descriptor
  in the manifest of a generation. \<open>open_artifact\<close> checks the descriptor, the key, the size
  limits, the length and the outer digest before it parses, and answers with a typed state;
  \<open>open_base_artifacts\<close> opens the four artifacts of a base and cross validates them. The
  lemmas show that the store never replaces an object, that an artifact is opened only when its
  bytes are the ones described, and that a base that opens satisfies what \<open>ReadPath\<close> needs.
\<close>

datatype artifact_kind = REGISTRY | BULK | RESIDUAL | TOMBSTONE | DEDUP

datatype artifact_open_state = A_VALID | A_ABSENT_ALLOWED | A_REQUIRED_MISSING | A_CORRUPT
  | A_INCOMPATIBLE | A_RESOURCE_LIMIT

datatype reason_code = UNSUPPORTED_VERSION | NON_CANONICAL_LENGTH | DIGEST_MISMATCH | MAC_MISMATCH
  | COUNT_LIMIT | MISSING | BAD_DESCRIPTOR | KEY_UNKNOWN | CONCURRENT_CHANGE | OK

type_synonym keyring = "(int, bytes) pydict"

record artifact_limits =
  max_blob_bytes :: int
  max_fact_count :: int
  max_registry_entries :: int
  max_corrections :: int
  max_pages :: int
  max_dedup_entries :: int
  max_clients :: int

definition default_limits :: artifact_limits where
  "default_limits = \<lparr>max_blob_bytes = 64 * 2 ^ 20, max_fact_count = 2 ^ 24, max_registry_entries = 2 ^ 24,
     max_corrections = 2 ^ 22, max_pages = 2 ^ 20, max_dedup_entries = 2 ^ 22, max_clients = 2 ^ 20\<rparr>"

fun descriptor_version :: "artifact_kind \<Rightarrow> int" where
  "descriptor_version REGISTRY = 2"
| "descriptor_version BULK = 1"
| "descriptor_version RESIDUAL = 1"
| "descriptor_version TOMBSTONE = 1"
| "descriptor_version DEDUP = 1"

record artifact_descriptor =
  ad_kind :: artifact_kind
  ad_format_version :: int
  ad_required :: bool
  ad_byte_length :: int
  ad_sha256 :: bytes
  ad_key_id :: int

definition make_descriptor :: "artifact_kind \<Rightarrow> bytes \<Rightarrow> bool \<Rightarrow> int \<Rightarrow> artifact_descriptor" where
  "make_descriptor kind blob required key_id =
     \<lparr>ad_kind = kind, ad_format_version = descriptor_version kind, ad_required = required,
      ad_byte_length = int (length blob), ad_sha256 = sha256 blob, ad_key_id = key_id\<rparr>"

subsection \<open>The object store\<close>

text \<open>
  The directory \<open>objects\<close> is a map from digests to file contents (the file name is the hex
  form of the digest, so names and digests correspond one to one). Publishing an object writes
  and syncs a private temporary file and links it to its name; a fault is the system call that
  raises. Until the link the store does not change; the temporary file is removed in every case.
\<close>

datatype put_fault = WriteFault | FsyncFault | LinkFault | DirSyncFault

datatype put_result = PutOk bytes | PutOSError | PutIntegrityError

type_synonym object_store = "(bytes, bytes) pydict"

record object_read_result =
  or_ok :: bool
  or_blob :: "bytes option"
  or_reason :: reason_code

text \<open>\<open>changed\<close>: the second \<open>fstat\<close> differs from the first, or the file was cut short.\<close>

definition get_limited :: "object_store \<Rightarrow> bytes \<Rightarrow> int \<Rightarrow> bool \<Rightarrow> object_read_result" where
  "get_limited store digest max_bytes changed =
     (case dget store digest of
        None \<Rightarrow> \<lparr>or_ok = False, or_blob = None, or_reason = MISSING\<rparr>
      | Some data \<Rightarrow>
          if int (length data) > max_bytes
          then \<lparr>or_ok = False, or_blob = None, or_reason = COUNT_LIMIT\<rparr>
          else if changed then \<lparr>or_ok = False, or_blob = None, or_reason = CONCURRENT_CHANGE\<rparr>
          else \<lparr>or_ok = True, or_blob = Some data, or_reason = OK\<rparr>)"

definition put_object :: "object_store \<Rightarrow> bytes \<Rightarrow> put_fault option \<Rightarrow> put_result \<times> object_store" where
  "put_object store blob fault =
     (let digest = sha256 blob
      in case fault of
           Some WriteFault \<Rightarrow> (PutOSError, store)
         | Some FsyncFault \<Rightarrow> (PutOSError, store)
         | Some LinkFault \<Rightarrow> (PutOSError, store)
         | _ \<Rightarrow>
             (case dget store digest of
                None \<Rightarrow> (if fault = Some DirSyncFault then PutOSError else PutOk digest, dput digest blob store)
              | Some _ \<Rightarrow>
                  (let existing = get_limited store digest (int (length blob) + 1) False
                   in if \<not> or_ok existing \<or> or_blob existing \<noteq> Some blob
                      then (PutIntegrityError, store)
                      else (PutOk digest, store))))"

definition store_get :: "object_store \<Rightarrow> bytes \<Rightarrow> int \<Rightarrow> bytes option" where
  "store_get store digest max_bytes =
     (let r = get_limited store digest max_bytes False in if or_ok r then or_blob r else None)"

subsection \<open>Opening an artifact\<close>

datatype component = CRegistry fact_registry | CBulk bulk_snapshot | CResidual residual_field
  | CTombstone tombstone_layer | CDedup dedup_table

record open_artifact_result =
  oa_state :: artifact_open_state
  oa_kind :: artifact_kind
  oa_component :: "component option"
  oa_reason_code :: reason_code

abbreviation (input) OpenArtifact ::
  "artifact_open_state \<Rightarrow> artifact_kind \<Rightarrow> component option \<Rightarrow> reason_code \<Rightarrow> open_artifact_result" where
  "OpenArtifact s k c r \<equiv> \<lparr>oa_state = s, oa_kind = k, oa_component = c, oa_reason_code = r\<rparr>"

text \<open>The counts a header announces; a missing count is zero.\<close>

record counts =
  c_fact_count :: int
  c_entries :: int
  c_corrections :: int
  c_pages :: int
  c_clients :: int

fun peek_counts :: "artifact_kind \<Rightarrow> bytes \<Rightarrow> counts option" where
  "peek_counts REGISTRY blob =
     (case unpack_from REG_HEADER blob 0 of None \<Rightarrow> None
      | Some x \<Rightarrow> Some \<lparr>c_fact_count = fi x 4, c_entries = fi x 5, c_corrections = 0, c_pages = 0, c_clients = 0\<rparr>)"
| "peek_counts BULK blob =
     (case unpack_from BULK_HEADER blob 0 of None \<Rightarrow> None
      | Some x \<Rightarrow> Some \<lparr>c_fact_count = fi x 5, c_entries = 0, c_corrections = 0, c_pages = 0, c_clients = 0\<rparr>)"
| "peek_counts RESIDUAL blob =
     (case unpack_from RF_HEADER blob 0 of None \<Rightarrow> None
      | Some x \<Rightarrow>
          (let page = fi x 5; ncorr = fi x 6
           in Some \<lparr>c_fact_count = fi x 4, c_entries = 0, c_corrections = ncorr,
                    c_pages = (if page \<noteq> 0 then (ncorr + page - 1) div page else 0), c_clients = 0\<rparr>))"
| "peek_counts TOMBSTONE blob =
     (case unpack_from TOMB_HEADER blob 0 of None \<Rightarrow> None
      | Some x \<Rightarrow> Some \<lparr>c_fact_count = fi x 4, c_entries = 0, c_corrections = 0, c_pages = 0, c_clients = 0\<rparr>)"
| "peek_counts DEDUP blob =
     (case unpack_from DEDUP_HEADER blob 0 of None \<Rightarrow> None
      | Some x \<Rightarrow> Some \<lparr>c_fact_count = 0, c_entries = fi x 7, c_corrections = 0, c_pages = 0, c_clients = fi x 8\<rparr>)"

definition within_limits :: "artifact_kind \<Rightarrow> counts \<Rightarrow> artifact_limits \<Rightarrow> bool" where
  "within_limits kind c limits =
     (if c_fact_count c > max_fact_count limits then False
      else if c_entries c > (if kind = DEDUP then max_dedup_entries limits else max_registry_entries limits)
        then False
      else if c_corrections c > max_corrections limits then False
      else if c_pages c > max_pages limits then False
      else if c_clients c > max_clients limits then False
      else True)"

fun parse_artifact :: "numpy \<Rightarrow> artifact_kind \<Rightarrow> bytes \<Rightarrow> bytes \<Rightarrow> open_exn + component" where
  "parse_artifact np REGISTRY blob key = map_sum id CRegistry (reg_open blob key)"
| "parse_artifact np BULK blob key = map_sum id CBulk (bs_open np blob key)"
| "parse_artifact np RESIDUAL blob key = map_sum id CResidual (rf_open np blob key)"
| "parse_artifact np TOMBSTONE blob key = map_sum id CTombstone (tl_open np blob key)"
| "parse_artifact np DEDUP blob key = map_sum id CDedup (dt_open blob key)"

text \<open>The checks of a blob that is present, with the key already resolved.\<close>

definition open_present ::
  "numpy \<Rightarrow> artifact_descriptor \<Rightarrow> bytes \<Rightarrow> bytes \<Rightarrow> artifact_limits \<Rightarrow> open_artifact_result" where
  "open_present np descriptor b key limits =
     (let kind = ad_kind descriptor
      in if int (length b) > max_blob_bytes limits
         then OpenArtifact A_RESOURCE_LIMIT kind None COUNT_LIMIT
         else if int (length b) \<noteq> ad_byte_length descriptor
         then OpenArtifact A_CORRUPT kind None NON_CANONICAL_LENGTH
         else if sha256 b \<noteq> ad_sha256 descriptor
         then OpenArtifact A_CORRUPT kind None DIGEST_MISMATCH
         else
           (case peek_counts kind b of
              None \<Rightarrow> OpenArtifact A_CORRUPT kind None NON_CANONICAL_LENGTH
            | Some c \<Rightarrow>
                if \<not> within_limits kind c limits
                then OpenArtifact A_RESOURCE_LIMIT kind None COUNT_LIMIT
                else
                  (case parse_artifact np kind b key of
                     Inl IncompatibleError \<Rightarrow> OpenArtifact A_INCOMPATIBLE kind None UNSUPPORTED_VERSION
                   | Inl _ \<Rightarrow> OpenArtifact A_CORRUPT kind None MAC_MISMATCH
                   | Inr part \<Rightarrow> OpenArtifact A_VALID kind (Some part) OK)))"

definition open_artifact ::
  "numpy \<Rightarrow> artifact_descriptor \<Rightarrow> bytes option \<Rightarrow> bytes \<Rightarrow> artifact_limits \<Rightarrow> keyring option \<Rightarrow> open_artifact_result"
  where
  "open_artifact np descriptor blob key limits keyring =
     (let kind = ad_kind descriptor;
          key' = (case keyring of None \<Rightarrow> Some key | Some kr \<Rightarrow> dget kr (ad_key_id descriptor))
      in if length (ad_sha256 descriptor) \<noteq> 32 \<or> ad_byte_length descriptor < 0
         then OpenArtifact A_CORRUPT kind None BAD_DESCRIPTOR
         else if ad_format_version descriptor \<noteq> descriptor_version kind
         then OpenArtifact A_INCOMPATIBLE kind None UNSUPPORTED_VERSION
         else
           (case (key', blob) of
              (None, _) \<Rightarrow> OpenArtifact A_INCOMPATIBLE kind None KEY_UNKNOWN
            | (Some k, None) \<Rightarrow>
                OpenArtifact (if ad_required descriptor then A_REQUIRED_MISSING else A_ABSENT_ALLOWED) kind None MISSING
            | (Some k, Some b) \<Rightarrow> open_present np descriptor b k limits))"

subsection \<open>Opening a base\<close>

record validated_base =
  vb_scope_id :: int
  vb_generation_id :: int
  vb_fact_count :: int
  vb_registry :: fact_registry
  vb_bulk :: bulk_snapshot
  vb_residual :: residual_field
  vb_tombstone :: "tombstone_layer open_result"
  vb_sealed :: bool

datatype open_base_reason = NoDescriptor artifact_kind | KindMismatch artifact_kind
  | NotRequired artifact_kind | StoreFault artifact_kind reason_code
  | NotValid artifact_kind artifact_open_state reason_code | CrossFault base_fault

text \<open>One round of the loop over the four kinds.\<close>

definition open_one ::
  "numpy \<Rightarrow> (artifact_kind, artifact_descriptor) pydict \<Rightarrow> object_store \<Rightarrow> keyring \<Rightarrow> artifact_limits \<Rightarrow>
   (bytes \<Rightarrow> bool) \<Rightarrow> artifact_kind \<Rightarrow> open_base_reason + component" where
  "open_one np descriptors store keyring limits changed kind =
     (case dget descriptors kind of
        None \<Rightarrow> Inl (NoDescriptor kind)
      | Some desc \<Rightarrow>
          if ad_kind desc \<noteq> kind then Inl (KindMismatch kind)
          else if \<not> ad_required desc then Inl (NotRequired kind)
          else
            (let rr = get_limited store (ad_sha256 desc) (max_blob_bytes limits) (changed (ad_sha256 desc))
             in if \<not> or_ok rr \<and> or_reason rr \<noteq> MISSING then Inl (StoreFault kind (or_reason rr))
                else
                  (let blob = (if or_ok rr then or_blob rr else None);
                       oa = open_artifact np desc blob [] limits (Some keyring)
                   in case (oa_state oa, oa_component oa) of
                        (A_VALID, Some part) \<Rightarrow> Inr part
                      | _ \<Rightarrow> Inl (NotValid kind (oa_state oa) (oa_reason_code oa)))))"

fun open_all :: "(artifact_kind \<Rightarrow> open_base_reason + component) \<Rightarrow> artifact_kind list \<Rightarrow> open_base_reason + component list" where
  "open_all opn [] = Inr []"
| "open_all opn (k # ks) =
     (case opn k of
        Inl e \<Rightarrow> Inl e
      | Inr part \<Rightarrow> (case open_all opn ks of Inl e \<Rightarrow> Inl e | Inr cs \<Rightarrow> Inr (part # cs)))"

text \<open>The parser of a kind returns a component of that kind, so the last case is never taken.\<close>

definition open_base_artifacts ::
  "numpy \<Rightarrow> (artifact_kind, artifact_descriptor) pydict \<Rightarrow> object_store \<Rightarrow> (bytes \<Rightarrow> bool) \<Rightarrow> int \<Rightarrow> int \<Rightarrow> int \<Rightarrow>
   keyring \<Rightarrow> artifact_limits \<Rightarrow> (open_base_reason + validated_base) option" where
  "open_base_artifacts np descriptors store changed scope_id generation_id fact_count keyring limits =
     (case open_all (open_one np descriptors store keyring limits changed) [REGISTRY, BULK, RESIDUAL, TOMBSTONE] of
        Inl e \<Rightarrow> Some (Inl e)
      | Inr [CRegistry r, CBulk b, CResidual f, CTombstone t] \<Rightarrow>
          (case validate_base_artifacts np r b f t scope_id generation_id fact_count of
             Some x \<Rightarrow> Some (Inl (CrossFault x))
           | None \<Rightarrow>
               (case dget descriptors TOMBSTONE of
                  None \<Rightarrow> None
                | Some d \<Rightarrow>
                    (case dget keyring (ad_key_id d) of
                       None \<Rightarrow> None
                     | Some k \<Rightarrow>
                         Some (Inr \<lparr>vb_scope_id = scope_id, vb_generation_id = generation_id,
                           vb_fact_count = fact_count, vb_registry = r, vb_bulk = b, vb_residual = f,
                           vb_tombstone = open_tombstone np (Some (tl_blob t)) k True, vb_sealed = True\<rparr>))))
      | Inr _ \<Rightarrow> None)"

definition bundle_from_validated :: "validated_base \<Rightarrow> open_exn + generation_bundle" where
  "bundle_from_validated v =
     (if \<not> vb_sealed v then Inl IntegrityError
      else Inr \<lparr>gb_scope_id = vb_scope_id v, gb_generation_id = vb_generation_id v,
                gb_field = Some (vb_residual v), gb_registry = Some (vb_registry v),
                gb_tombstone = vb_tombstone v, gb_bulk = vb_bulk v\<rparr>)"

subsection \<open>The store is content addressed and never replaces an object\<close>

definition store_ok :: "object_store \<Rightarrow> bool" where
  "store_ok store \<longleftrightarrow> distinct (dkeys store) \<and> (\<forall>(d, b) \<in> set store. sha256 b = d)"

lemma store_ok_get: "store_ok store \<Longrightarrow> dget store d = Some b \<Longrightarrow> sha256 b = d"
  by (auto simp: store_ok_def dest: map_of_SomeD)

lemma put_object_keeps:
  "dget store d = Some b \<Longrightarrow> dget (snd (put_object store blob fault)) d = Some b"
  by (auto simp: put_object_def Let_def dget_dput split: option.splits put_fault.splits)

lemma put_object_ok:
  assumes "store_ok store"
  shows "store_ok (snd (put_object store blob fault))"
proof -
  have "store_ok (dput (sha256 blob) blob store)"
    using assms distinct_dput [of store] by (auto simp: store_ok_def dest: set_dput_cases)
  then show ?thesis using assms by (auto simp: put_object_def Let_def split: option.splits put_fault.splits)
qed

lemma put_object_get:
  assumes "put_object store blob fault = (PutOk d, store')"
  shows "d = sha256 blob \<and> dget store' d = Some blob"
proof -
  have *: "or_blob r = Some blob \<Longrightarrow> r = get_limited store d m False \<Longrightarrow> dget store d = Some blob" for r m
    by (auto simp: get_limited_def split: option.splits if_splits)
  show ?thesis
    using assms * by (auto simp: put_object_def Let_def dget_dput split: option.splits put_fault.splits if_splits)
qed

text \<open>A put fails on the content only when two different blobs share a digest.\<close>

lemma put_object_no_collision:
  assumes s: "store_ok store" and c: "\<And>b. sha256 b = sha256 blob \<Longrightarrow> b = blob"
  shows "fst (put_object store blob None) = PutOk (sha256 blob)"
proof (cases "dget store (sha256 blob)")
  case None
  then show ?thesis by (simp add: put_object_def Let_def)
next
  case (Some b)
  have "b = blob" by (rule c) (rule store_ok_get [OF s Some])
  then show ?thesis using Some by (simp add: put_object_def get_limited_def Let_def)
qed

subsection \<open>What an opened artifact is\<close>

lemma open_present_valid:
  assumes "oa_state (open_present np d b k limits) = A_VALID"
  shows "sha256 b = ad_sha256 d \<and> int (length b) = ad_byte_length d \<and> int (length b) \<le> max_blob_bytes limits \<and>
    (\<exists>c. peek_counts (ad_kind d) b = Some c \<and> within_limits (ad_kind d) c limits) \<and>
    (\<exists>part. parse_artifact np (ad_kind d) b k = Inr part \<and>
       open_present np d b k limits = OpenArtifact A_VALID (ad_kind d) (Some part) OK)"
proof (cases "int (length b) > max_blob_bytes limits \<or> int (length b) \<noteq> ad_byte_length d \<or> sha256 b \<noteq> ad_sha256 d")
  case True
  then have "oa_state (open_present np d b k limits) \<noteq> A_VALID"
    by (cases "int (length b) > max_blob_bytes limits"; cases "int (length b) \<noteq> ad_byte_length d")
      (simp_all add: open_present_def Let_def)
  then show ?thesis using assms by contradiction
next
  case False
  note ok = this
  show ?thesis
  proof (cases "peek_counts (ad_kind d) b")
    case None
    then show ?thesis using ok assms by (simp add: open_present_def Let_def)
  next
    case (Some c)
    have w: "within_limits (ad_kind d) c limits"
      using ok assms Some by (cases "within_limits (ad_kind d) c limits") (simp_all add: open_present_def Let_def)
    show ?thesis
    proof (cases "parse_artifact np (ad_kind d) b k")
      case (Inl e)
      then show ?thesis using ok assms Some w by (cases e) (simp_all add: open_present_def Let_def)
    next
      case (Inr part)
      then show ?thesis using ok Some w by (simp add: open_present_def Let_def)
    qed
  qed
qed

lemma open_present_component:
  "oa_component (open_present np d b k limits) \<noteq> None \<longleftrightarrow> oa_state (open_present np d b k limits) = A_VALID"
  by (simp add: open_present_def Let_def split: option.splits sum.splits open_exn.splits)

lemma open_artifact_valid:
  assumes "oa_state (open_artifact np d blob key limits kr) = A_VALID"
  shows "\<exists>b k. blob = Some b \<and> (case kr of None \<Rightarrow> k = key | Some r \<Rightarrow> dget r (ad_key_id d) = Some k) \<and>
    ad_format_version d = descriptor_version (ad_kind d) \<and>
    open_artifact np d blob key limits kr = open_present np d b k limits"
  using assms by (auto simp: open_artifact_def Let_def split: if_splits option.splits)

lemma open_artifact_component:
  "oa_component (open_artifact np d blob key limits kr) \<noteq> None \<longleftrightarrow>
   oa_state (open_artifact np d blob key limits kr) = A_VALID"
  using open_present_component by (auto simp: open_artifact_def Let_def split: option.splits)

text \<open>Changing a byte of an object makes it unreadable, unless the digests collide.\<close>

lemma open_artifact_tampered:
  assumes "sha256 b \<noteq> ad_sha256 d"
  shows "oa_state (open_artifact np d (Some b) key limits kr) \<noteq> A_VALID"
proof
  assume a: "oa_state (open_artifact np d (Some b) key limits kr) = A_VALID"
  from open_artifact_valid [OF this] obtain k where
    "open_artifact np d (Some b) key limits kr = open_present np d b k limits" by auto
  then show False using open_present_valid [of np d b k limits] a assms by simp
qed

lemma map_sum_Inr: "map_sum id f s = Inr y \<longleftrightarrow> (\<exists>x. s = Inr x \<and> y = f x)"
  by (cases s) auto

lemma open_one_parsed:
  assumes "open_one np ds store kr limits changed kind = Inr part"
  shows "\<exists>d b k. dget ds kind = Some d \<and> ad_kind d = kind \<and> dget store (ad_sha256 d) = Some b \<and>
    sha256 b = ad_sha256 d \<and> dget kr (ad_key_id d) = Some k \<and> parse_artifact np kind b k = Inr part"
proof -
  obtain d where d: "dget ds kind = Some d" "ad_kind d = kind"
    using assms by (auto simp: open_one_def split: option.splits if_splits)
  define rr where "rr = get_limited store (ad_sha256 d) (max_blob_bytes limits) (changed (ad_sha256 d))"
  define blob where "blob = (if or_ok rr then or_blob rr else None)"
  define oa where "oa = open_artifact np d blob [] limits (Some kr)"
  have oa: "oa_state oa = A_VALID" "oa_component oa = Some part"
    using assms d unfolding open_one_def Let_def oa_def blob_def rr_def
    by (auto split: if_splits artifact_open_state.splits option.splits)
  from open_artifact_valid [OF oa(1) [unfolded oa_def]]
  obtain b k where b: "blob = Some b" "dget kr (ad_key_id d) = Some k" "oa = open_present np d b k limits"
    unfolding oa_def by auto
  from open_present_valid [OF oa(1) [unfolded b(3)]] oa(2) d(2)
  have p: "sha256 b = ad_sha256 d" "parse_artifact np kind b k = Inr part" unfolding b(3) by auto
  have "dget store (ad_sha256 d) = Some b"
    using b(1) by (auto simp: blob_def rr_def get_limited_def split: option.splits if_splits)
  then show ?thesis using d b p by blast
qed

lemma open_all_Inr:
  "open_all opn ks = Inr cs \<Longrightarrow> list_all2 (\<lambda>k c. opn k = Inr c) ks cs"
  by (induction ks arbitrary: cs) (auto split: sum.splits)

text \<open>A base that opens is made of opened, cross validated artifacts of the described bytes.\<close>

lemma open_base_parts:
  assumes n: "numpy_bits np" and o: "open_base_artifacts np ds store changed sc gn fc kr limits = Some (Inr v)"
  shows "opened_base (vb_registry v) (vb_bulk v) (vb_residual v) (the (or_layer (vb_tombstone v))) \<and>
    validate_base_artifacts np (vb_registry v) (vb_bulk v) (vb_residual v) (the (or_layer (vb_tombstone v))) sc gn fc = None \<and>
    bundle_from_validated v = Inr (base_bundle sc gn (vb_registry v) (vb_bulk v) (vb_residual v) (the (or_layer (vb_tombstone v))))"
proof -
  let ?open = "open_one np ds store kr limits changed"
  obtain r b f t d k where p: "open_all ?open [REGISTRY, BULK, RESIDUAL, TOMBSTONE] = Inr [CRegistry r, CBulk b, CResidual f, CTombstone t]"
    and val: "validate_base_artifacts np r b f t sc gn fc = None"
    and d: "dget ds TOMBSTONE = Some d" "dget kr (ad_key_id d) = Some k"
    and v: "v = \<lparr>vb_scope_id = sc, vb_generation_id = gn, vb_fact_count = fc, vb_registry = r,
      vb_bulk = b, vb_residual = f, vb_tombstone = open_tombstone np (Some (tl_blob t)) k True, vb_sealed = True\<rparr>"
    using o unfolding open_base_artifacts_def
    by (auto split: sum.splits list.splits component.splits option.splits)
  have q: "?open REGISTRY = Inr (CRegistry r)" "?open BULK = Inr (CBulk b)" "?open RESIDUAL = Inr (CResidual f)"
    "?open TOMBSTONE = Inr (CTombstone t)"
    using open_all_Inr [OF p] by simp_all
  have rv: "reg_valid r" using open_one_parsed [OF q(1)] by (auto simp: map_sum_Inr intro: reg_open_valid)
  have bv: "bs_valid b" using open_one_parsed [OF q(2)] by (auto simp: map_sum_Inr intro: numpy_bits.bs_open_valid [OF n])
  have fv: "rf_valid f" using open_one_parsed [OF q(3)] by (auto simp: map_sum_Inr intro: numpy_bits.rf_open_valid [OF n])
  obtain tb where tb: "tl_open np tb k = Inr t"
    using open_one_parsed [OF q(4)] d by (auto simp: map_sum_Inr)
  note tv = tl_open_valid [OF tb]
  have tomb: "open_tombstone np (Some (tl_blob t)) k True = \<lparr>or_state = VALID, or_layer = Some t\<rparr>"
    using tb tv by (simp add: open_tombstone_def)
  show ?thesis
    using rv bv fv conjunct1 [OF tv] val by (simp add: v tomb opened_base_def bundle_from_validated_def base_bundle_def)
qed

end
