(* ===== verification/Sharded.thy ===== *)
theory Sharded
  imports Versions
begin

unbundle bit_operations_syntax

section \<open>Copy-on-write shards for the L0 (\<open>horizon_sharded.py\<close>)\<close>

text \<open>
  \<open>ShardedWalIndex\<close> and \<open>ShardedTxIdIndex\<close> split an index over \<open>2 ^ shard_bits\<close>
  dictionaries chosen by \<open>splitmix64\<close>; a builder copies a shard on the first write to it
  and \<open>freeze\<close> replaces the touched shards only. The lemmas show the two sharded indexes to
  be drop-in replacements: the builder meets the contract \<open>version_index\<close>, and every
  run over it gives the answers of the plain index.
\<close>

definition splitmix64 :: "64 word \<Rightarrow> 64 word" where
  "splitmix64 x =
     (let z = x + 0x9E3779B97F4A7C15;
          z = (z XOR drop_bit 30 z) * 0xBF58476D1CE4E5B9;
          z = (z XOR drop_bit 27 z) * 0x94D049BB133111EB
      in z XOR drop_bit 31 z)"

definition shard_of_fact :: "int \<Rightarrow> int \<Rightarrow> int \<Rightarrow> nat" where
  "shard_of_fact fact_id seed msk =
     nat (uint (splitmix64 (word_of_int (fact_id XOR seed))) AND msk)"

definition shard_of_opid :: "bytes \<Rightarrow> int \<Rightarrow> int \<Rightarrow> nat" where
  "shard_of_opid operation_id seed msk =
     (let v = struct_unpack [FU 8, FU 8] operation_id;
          client = fi v 0; txid = fi v 1
      in nat (uint (splitmix64 (splitmix64 (word_of_int (client XOR seed)) XOR word_of_int txid))
              AND msk))"

subsection \<open>The shard tuple and its builder\<close>

record ('k, 'v) sharded =
  shard_bits :: nat
  shard_seed :: int
  shards :: "('k, 'v) pydict list"

definition shard_mask :: "('k, 'v) sharded \<Rightarrow> int" where
  "shard_mask s = 2 ^ shard_bits s - 1"

definition sharded_empty :: "nat \<Rightarrow> int \<Rightarrow> ('k, 'v) sharded" where
  "sharded_empty bits seed =
     \<lparr>shard_bits = bits, shard_seed = seed, shards = replicate (2 ^ bits) []\<rparr>"

text \<open>\<open>fact_shard\<close> and \<open>opid_shard\<close> are the two \<open>_shard\<close> methods.\<close>

definition fact_shard :: "(int, 'v) sharded \<Rightarrow> int \<Rightarrow> nat" where
  "fact_shard s fact_id = shard_of_fact fact_id (shard_seed s) (shard_mask s)"

definition opid_shard :: "(bytes, 'v) sharded \<Rightarrow> bytes \<Rightarrow> nat" where
  "opid_shard s opid = shard_of_opid opid (shard_seed s) (shard_mask s)"

definition shw_get :: "(int, vline) sharded \<Rightarrow> int \<Rightarrow> vline option" where
  "shw_get s fact_id = dget (shards s ! fact_shard s fact_id) fact_id"

definition sharded_items :: "('k, 'v) sharded \<Rightarrow> ('k \<times> 'v) list" where
  "sharded_items s = concat (shards s)"

record ('k, 'v) shard_builder =
  sb_base :: "('k, 'v) sharded"
  sb_dirty :: "(nat, ('k, 'v) pydict) pydict"
  sb_conflicts :: nat

definition sb_begin :: "('k, 'v) sharded \<Rightarrow> ('k, 'v) shard_builder" where
  "sb_begin s = \<lparr>sb_base = s, sb_dirty = [], sb_conflicts = 0\<rparr>"

text \<open>\<open>_mut\<close>: the dirty copy of a shard, made on the first write.\<close>

definition sb_mut :: "('k, 'v) shard_builder \<Rightarrow> nat \<Rightarrow> ('k, 'v) pydict \<times> ('k, 'v) shard_builder" where
  "sb_mut b idx =
     (case dget (sb_dirty b) idx of
        Some d \<Rightarrow> (d, b)
      | None \<Rightarrow> (let d = shards (sb_base b) ! idx in (d, b\<lparr>sb_dirty := dput idx d (sb_dirty b)\<rparr>)))"

text \<open>The shard a reader of the builder looks into: the dirty copy, else the base.\<close>

definition sb_shard :: "('k, 'v) shard_builder \<Rightarrow> nat \<Rightarrow> ('k, 'v) pydict" where
  "sb_shard b idx =
     (case dget (sb_dirty b) idx of Some d \<Rightarrow> d | None \<Rightarrow> shards (sb_base b) ! idx)"

definition sbw_get :: "(int, vline) shard_builder \<Rightarrow> int \<Rightarrow> vline option" where
  "sbw_get b fact_id = dget (sb_shard b (fact_shard (sb_base b) fact_id)) fact_id"

definition sbw_apply ::
  "(int, vline) shard_builder \<Rightarrow> int \<Rightarrow> int \<Rightarrow> opk \<Rightarrow> int option
    \<Rightarrow> verdict \<times> (int, vline) shard_builder" where
  "sbw_apply b fact_id version op value =
     (let idx = fact_shard (sb_base b) fact_id;
          (d, b) = sb_mut b idx;
          (r, d) = apply_versioned d fact_id version op value
      in (r, b\<lparr>sb_dirty := dput idx d (sb_dirty b),
               sb_conflicts := (if r = Conflict then Suc (sb_conflicts b) else sb_conflicts b)\<rparr>))"

definition freeze_shards ::
  "('k, 'v) pydict list \<Rightarrow> (nat, ('k, 'v) pydict) pydict \<Rightarrow> ('k, 'v) pydict list" where
  "freeze_shards base_shards dirty =
     foldl (\<lambda>ss (idx, d). ss[idx := (if d = [] then [] else d)]) base_shards dirty"

definition sb_freeze :: "('k, 'v) shard_builder \<Rightarrow> ('k, 'v) sharded" where
  "sb_freeze b =
     \<lparr>shard_bits = shard_bits (sb_base b), shard_seed = shard_seed (sb_base b),
      shards = freeze_shards (shards (sb_base b)) (sb_dirty b)\<rparr>"

subsection \<open>\<open>ShardedTxIdIndex\<close> and its builder\<close>

definition sht_check :: "(bytes, bytes \<times> int) sharded \<Rightarrow> bytes \<Rightarrow> bytes \<Rightarrow> tx_verdict" where
  "sht_check s operation_id digest = tx_check (shards s ! opid_shard s operation_id) operation_id digest"

definition sht_get_seq :: "(bytes, bytes \<times> int) sharded \<Rightarrow> bytes \<Rightarrow> int option" where
  "sht_get_seq s operation_id = tx_get_seq (shards s ! opid_shard s operation_id) operation_id"

definition sbt_check :: "(bytes, bytes \<times> int) shard_builder \<Rightarrow> bytes \<Rightarrow> bytes \<Rightarrow> tx_verdict" where
  "sbt_check b operation_id digest =
     tx_check (sb_shard b (opid_shard (sb_base b) operation_id)) operation_id digest"

definition sbt_get_seq :: "(bytes, bytes \<times> int) shard_builder \<Rightarrow> bytes \<Rightarrow> int option" where
  "sbt_get_seq b operation_id =
     tx_get_seq (sb_shard b (opid_shard (sb_base b) operation_id)) operation_id"

definition sbt_record ::
  "(bytes, bytes \<times> int) shard_builder \<Rightarrow> bytes \<Rightarrow> bytes \<Rightarrow> int
    \<Rightarrow> (bytes, bytes \<times> int) shard_builder" where
  "sbt_record b operation_id digest seq =
     (let idx = opid_shard (sb_base b) operation_id;
          (d, b) = sb_mut b idx
      in b\<lparr>sb_dirty := dput idx (dput operation_id (digest, seq) d) (sb_dirty b)\<rparr>)"

definition copy_stats_wal :: "(int, vline) shard_builder \<Rightarrow> nat \<times> nat" where
  "copy_stats_wal b = (length (sb_dirty b), sum_list (map (length \<circ> snd) (sb_dirty b)))"

subsection \<open>The invariant of the representation\<close>

text \<open>
  Generic in the shard function \<open>h\<close>: the tuple has \<open>2 ^ bits\<close> dictionaries, every key
  sits in the shard it hashes to, and no dictionary holds a key twice.
\<close>

definition shard_ok :: "('k \<Rightarrow> nat) \<Rightarrow> nat \<Rightarrow> ('k, 'v) pydict \<Rightarrow> bool" where
  "shard_ok h i d \<longleftrightarrow> distinct (dkeys d) \<and> (\<forall>k \<in> set (dkeys d). h k = i)"

definition sharded_ok :: "('k \<Rightarrow> nat) \<Rightarrow> ('k, 'v) sharded \<Rightarrow> bool" where
  "sharded_ok h s \<longleftrightarrow>
     length (shards s) = 2 ^ shard_bits s \<and> (\<forall>i < length (shards s). shard_ok h i (shards s ! i))"

definition sb_ok :: "('k \<Rightarrow> nat) \<Rightarrow> ('k, 'v) shard_builder \<Rightarrow> bool" where
  "sb_ok h b \<longleftrightarrow> sharded_ok h (sb_base b) \<and> distinct (dkeys (sb_dirty b)) \<and>
     (\<forall>(i, d) \<in> set (sb_dirty b). i < length (shards (sb_base b)) \<and> shard_ok h i d)"

lemma mask_bound: "nat (uint (w :: 64 word) AND (2 ^ n - 1)) < 2 ^ n"
proof -
  have "uint w AND (2 ^ n - 1) = uint w mod 2 ^ n"
    by (simp add: mask_eq_exp_minus_1 [symmetric] take_bit_eq_mask [symmetric] take_bit_eq_mod)
  then show ?thesis by (simp add: nat_less_iff)
qed

lemma fact_shard_bound: "sharded_ok h s \<Longrightarrow> fact_shard s f < length (shards s)"
  by (simp add: sharded_ok_def fact_shard_def shard_of_fact_def shard_mask_def mask_bound)

lemma opid_shard_bound: "sharded_ok h s \<Longrightarrow> opid_shard s f < length (shards s)"
  by (simp add: sharded_ok_def opid_shard_def shard_of_opid_def shard_mask_def mask_bound Let_def)

lemma sharded_empty_ok: "sharded_ok h (sharded_empty bits seed)"
  by (simp add: sharded_ok_def sharded_empty_def shard_ok_def)

lemma sb_begin_ok: "sharded_ok h s \<Longrightarrow> sb_ok h (sb_begin s)"
  by (simp add: sb_ok_def sb_begin_def)

lemma sb_shard_ok: "sb_ok h b \<Longrightarrow> i < length (shards (sb_base b)) \<Longrightarrow> shard_ok h i (sb_shard b i)"
  by (auto simp: sb_ok_def sb_shard_def sharded_ok_def split: option.splits dest!: map_of_SomeD)

lemma sb_mut_eq: "fst (sb_mut b i) = sb_shard b i" "sb_base (snd (sb_mut b i)) = sb_base b"
  by (auto simp: sb_mut_def sb_shard_def Let_def split: option.splits)

lemma sb_shard_put:
  "sb_shard (b\<lparr>sb_dirty := dput i d (sb_dirty (snd (sb_mut b i))), sb_conflicts := n\<rparr>) j =
     (if j = i then d else sb_shard b j)"
  by (auto simp: sb_shard_def sb_mut_def Let_def dget_dput split: option.splits)

lemma sb_shard_put':
  "sb_shard (b\<lparr>sb_dirty := dput i d (sb_dirty (snd (sb_mut b i)))\<rparr>) j =
     (if j = i then d else sb_shard b j)"
  by (auto simp: sb_shard_def sb_mut_def Let_def dget_dput split: option.splits)

lemma sb_ok_conflicts [simp]: "sb_ok h (b\<lparr>sb_conflicts := n\<rparr>) = sb_ok h b"
  by (simp add: sb_ok_def)

lemma sb_put_ok:
  assumes "sb_ok h b" "i < length (shards (sb_base b))" "shard_ok h i d"
  shows "sb_ok h (b\<lparr>sb_dirty := dput i d (sb_dirty (snd (sb_mut b i)))\<rparr>)"
proof -
  let ?D = "sb_dirty (snd (sb_mut b i))"
  have D: "distinct (dkeys ?D)"
    using assms(1) by (auto simp: sb_ok_def sb_mut_def Let_def distinct_dput split: option.splits)
  have "\<forall>(j, e) \<in> set ?D. j < length (shards (sb_base b)) \<and> shard_ok h j e"
    using assms sb_shard_ok [OF assms(1,2)]
    by (auto simp: sb_ok_def sb_mut_def sb_shard_def Let_def split: option.splits
        dest!: set_dput_cases)
  then have "\<forall>(j, e) \<in> set (dput i d ?D). j < length (shards (sb_base b)) \<and> shard_ok h j e"
    using assms(2,3) by (auto dest!: set_dput_cases)
  then show ?thesis using assms(1) D by (simp add: sb_ok_def distinct_dput)
qed

lemma sbw_apply_eq:
  "sbw_apply b f v op x =
     (let i = fact_shard (sb_base b) f; r = apply_versioned (sb_shard b i) f v op x
      in (fst r, (snd (sb_mut b i))\<lparr>sb_dirty := dput i (snd r) (sb_dirty (snd (sb_mut b i))),
            sb_conflicts := (if fst r = Conflict then Suc (sb_conflicts b) else sb_conflicts b)\<rparr>))"
proof -
  have c: "sb_conflicts (snd (sb_mut b i)) = sb_conflicts b" for i
    by (auto simp: sb_mut_def Let_def split: option.splits)
  let ?i = "fact_shard (sb_base b) f"
  obtain d b' where m: "sb_mut b ?i = (d, b')" by fastforce
  obtain r d' where r: "apply_versioned d f v op x = (r, d')" by fastforce
  have "d = sb_shard b ?i" using sb_mut_eq(1) [of b ?i] m by simp
  moreover have "sb_conflicts b' = sb_conflicts b" using c [of ?i] m by simp
  ultimately show ?thesis using m r by (simp add: sbw_apply_def Let_def)
qed

lemma sb_mut_restore:
  "(snd (sb_mut b i))\<lparr>sb_dirty := D, sb_conflicts := n\<rparr> = b\<lparr>sb_dirty := D, sb_conflicts := n\<rparr>"
  by (auto simp: sb_mut_def Let_def split: option.splits)

lemma shard_ok_put: "shard_ok h i d \<Longrightarrow> h k = i \<Longrightarrow> shard_ok h i (dput k v d)"
  unfolding shard_ok_def set_dkeys_dput by (auto simp: distinct_dput)

lemma shard_ok_apply:
  "shard_ok h i d \<Longrightarrow> h f = i \<Longrightarrow> shard_ok h i (snd (apply_versioned d f v op x))"
  by (auto simp: apply_versioned_def shard_ok_put split: option.splits)

lemma sb_base_apply [simp]: "sb_base (snd (sbw_apply b f v op x)) = sb_base b"
  by (simp add: sbw_apply_eq Let_def sb_mut_restore)

text \<open>The builder meets the contract, with the shard function of its base.\<close>

definition sbw_inv :: "(int, vline) shard_builder \<Rightarrow> bool" where
  "sbw_inv b \<longleftrightarrow> sb_ok (fact_shard (sb_base b)) b"

lemma sbw_get_apply:
  "sbw_get (snd (sbw_apply b f v op x)) g =
     (if g = f \<and> preflight (sbw_get b f) op v x = Applied then Some (v, op, x) else sbw_get b g)"
  by (auto simp: sbw_get_def sbw_apply_eq Let_def sb_mut_restore sb_shard_put
      apply_versioned_get)

lemma sbw_inv_apply:
  assumes "sbw_inv b"
  shows "sbw_inv (snd (sbw_apply b f v op x))"
proof -
  let ?h = "fact_shard (sb_base b)"
  have ok: "sb_ok ?h b" using assms by (simp add: sbw_inv_def)
  then have i: "?h f < length (shards (sb_base b))"
    by (auto simp: sb_ok_def intro: fact_shard_bound)
  have "shard_ok ?h (?h f) (snd (apply_versioned (sb_shard b (?h f)) f v op x))"
    using sb_shard_ok [OF ok i] by (rule shard_ok_apply) simp
  then show ?thesis
    using sb_put_ok [OF ok i]
    by (simp add: sbw_inv_def sbw_apply_eq Let_def sb_mut_restore sb_ok_def)
qed

lemma sbw_apply_verdict: "fst (sbw_apply b f v op x) = preflight (sbw_get b f) op v x"
  by (simp add: sbw_apply_eq Let_def apply_versioned_verdict sbw_get_def)

interpretation shw: version_index sbw_get sbw_apply sbw_inv
  by unfold_locales (simp_all add: sbw_get_apply sbw_inv_apply sbw_apply_verdict)

subsection \<open>Freezing\<close>

lemma length_freeze_shards [simp]: "length (freeze_shards ss D) = length ss"
  unfolding freeze_shards_def by (induction D arbitrary: ss) auto

lemma freeze_shards_nth:
  assumes "distinct (dkeys D)" "i < length ss"
  shows "freeze_shards ss D ! i = (case dget D i of Some d \<Rightarrow> d | None \<Rightarrow> ss ! i)"
  using assms
proof (induction D arbitrary: ss)
  case Nil
  then show ?case by (simp add: freeze_shards_def)
next
  case (Cons a D)
  obtain j d where a: "a = (j, d)" by (cases a)
  have "freeze_shards ss (a # D) = freeze_shards (ss[j := d]) D"
    by (simp add: freeze_shards_def a)
  moreover have "j \<notin> set (dkeys D)" using Cons.prems a by simp
  then have "dget D j = None" by (simp add: map_of_eq_None_iff)
  ultimately show ?case
    using Cons.IH [of "ss[j := d]"] Cons.prems a by (auto simp: nth_list_update split: option.splits)
qed

lemma sb_freeze_shard:
  "sb_ok h b \<Longrightarrow> i < length (shards (sb_base b)) \<Longrightarrow> shards (sb_freeze b) ! i = sb_shard b i"
  by (auto simp: sb_freeze_def sb_shard_def freeze_shards_nth sb_ok_def split: option.splits)

lemma sb_freeze_ok: "sb_ok h b \<Longrightarrow> sharded_ok h (sb_freeze b)"
proof -
  assume ok: "sb_ok h b"
  then have s: "sharded_ok h (sb_base b)" by (simp add: sb_ok_def)
  have l: "length (shards (sb_freeze b)) = length (shards (sb_base b))"
    by (simp add: sb_freeze_def)
  have "shard_ok h i (shards (sb_freeze b) ! i)" if "i < length (shards (sb_base b))" for i
    using sb_freeze_shard [OF ok that] sb_shard_ok [OF ok that] by simp
  then show ?thesis using s l by (simp add: sharded_ok_def) (simp add: sb_freeze_def)
qed

lemma fact_shard_freeze [simp]: "fact_shard (sb_freeze b) = fact_shard (sb_base b)"
  by (rule ext) (simp add: fact_shard_def sb_freeze_def shard_mask_def)

lemma opid_shard_freeze [simp]: "opid_shard (sb_freeze b) = opid_shard (sb_base b)"
  by (rule ext) (simp add: opid_shard_def sb_freeze_def shard_mask_def)

lemma shw_get_freeze: "sbw_inv b \<Longrightarrow> shw_get (sb_freeze b) f = sbw_get b f"
  by (auto simp: shw_get_def sbw_get_def sbw_inv_def sb_ok_def sb_freeze_shard fact_shard_bound)

lemma sbw_inv_begin: "sharded_ok (fact_shard s) s \<Longrightarrow> sbw_inv (sb_begin s)"
  using sb_begin_ok [of "fact_shard s" s] by (simp add: sbw_inv_def sb_begin_def)

lemma sharded_ok_freeze: "sbw_inv b \<Longrightarrow> sharded_ok (fact_shard (sb_base b)) (sb_freeze b)"
  by (simp add: sbw_inv_def sb_freeze_ok)

lemma sbw_get_begin: "sbw_get (sb_begin s) f = shw_get s f"
  by (simp add: sbw_get_def shw_get_def sb_begin_def sb_shard_def)

subsection \<open>The sharded index refines the plain one\<close>

interpretation wal_shw: index_refinement wi_get wi_apply wi_inv sbw_get sbw_apply sbw_inv
  by unfold_locales

subsection \<open>Sharded retry memory\<close>

definition sbt_inv :: "(bytes, bytes \<times> int) shard_builder \<Rightarrow> bool" where
  "sbt_inv b \<longleftrightarrow> sb_ok (opid_shard (sb_base b)) b"

lemma sbt_record_eq:
  "sbt_record b oid d s =
     (let i = opid_shard (sb_base b) oid
      in b\<lparr>sb_dirty := dput i (dput oid (d, s) (sb_shard b i)) (sb_dirty (snd (sb_mut b i)))\<rparr>)"
  by (auto simp: sbt_record_def sb_mut_def sb_shard_def Let_def split: option.splits)

lemma sb_base_record [simp]: "sb_base (sbt_record b oid d s) = sb_base b"
  by (simp add: sbt_record_eq Let_def)

lemma sb_shard_record:
  "sb_shard (sbt_record b oid d s) j =
     (if j = opid_shard (sb_base b) oid then dput oid (d, s) (sb_shard b j) else sb_shard b j)"
  by (simp add: sbt_record_eq Let_def sb_shard_put')

lemma sbt_inv_record:
  assumes "sbt_inv b"
  shows "sbt_inv (sbt_record b oid d s)"
proof -
  let ?h = "opid_shard (sb_base b)"
  have ok: "sb_ok ?h b" using assms by (simp add: sbt_inv_def)
  then have i: "?h oid < length (shards (sb_base b))"
    by (auto simp: sb_ok_def intro: opid_shard_bound)
  have "shard_ok ?h (?h oid) (dput oid (d, s) (sb_shard b (?h oid)))"
    by (simp add: shard_ok_put sb_shard_ok [OF ok i])
  then show ?thesis
    using sb_put_ok [OF ok i] by (simp add: sbt_inv_def sbt_record_eq Let_def)
qed

interpretation sht: retry_memory sbt_check sbt_get_seq sbt_record sbt_inv
  by unfold_locales
    (auto simp: sbt_inv_record sbt_check_def sbt_get_seq_def sb_shard_record tx_check_def
      tx_get_seq_def dget_dput)

lemma sbt_freeze:
  "sbt_inv b \<Longrightarrow> sht_check (sb_freeze b) = sbt_check b"
  "sbt_inv b \<Longrightarrow> sht_get_seq (sb_freeze b) = sbt_get_seq b"
  by (auto simp: fun_eq_iff sht_check_def sht_get_seq_def sbt_check_def sbt_get_seq_def sbt_inv_def
      sb_ok_def sb_freeze_shard opid_shard_bound)

lemma sbt_inv_begin: "sharded_ok (opid_shard s) s \<Longrightarrow> sbt_inv (sb_begin s)"
  using sb_begin_ok [of "opid_shard s" s] by (simp add: sbt_inv_def sb_begin_def)

lemma sbt_begin:
  "sbt_check (sb_begin s) i d = sht_check s i d" "sbt_get_seq (sb_begin s) i = sht_get_seq s i"
  by (simp_all add: sbt_check_def sht_check_def sbt_get_seq_def sht_get_seq_def sb_begin_def
      sb_shard_def)

lemma sbt_freeze_ok: "sbt_inv b \<Longrightarrow> sharded_ok (opid_shard (sb_base b)) (sb_freeze b)"
  by (simp add: sbt_inv_def sb_freeze_ok)

lemma sharded_empty_reads:
  "shw_get (sharded_empty bits seed) f = None"
  "sht_check (sharded_empty bits seed) i d = TxNew"
  "sht_get_seq (sharded_empty bits seed) i = None"
proof -
  have "fact_shard (sharded_empty bits seed :: (int, vline) sharded) f < 2 ^ bits"
    using fact_shard_bound [OF sharded_empty_ok, of bits seed f] by (simp add: sharded_empty_def)
  then show "shw_get (sharded_empty bits seed) f = None"
    by (simp add: shw_get_def) (simp add: sharded_empty_def)
  have "opid_shard (sharded_empty bits seed :: (bytes, bytes \<times> int) sharded) i < 2 ^ bits"
    using opid_shard_bound [OF sharded_empty_ok, of bits seed i] by (simp add: sharded_empty_def)
  then show "sht_check (sharded_empty bits seed) i d = TxNew"
    and "sht_get_seq (sharded_empty bits seed) i = None"
    by (simp_all add: sht_check_def sht_get_seq_def)
      (simp_all add: sharded_empty_def tx_check_def tx_get_seq_def)
qed

end
