(* ===== verification/IndexOps.thy ===== *)
theory IndexOps
  imports Sharded
begin

section \<open>The index factories of the engine\<close>

text \<open>
  The replay reducer, the batch preparation and the group commit take a pair of index
  factories and use only \<open>begin_mutation\<close>, \<open>get\<close>, \<open>apply\<close>, \<open>check\<close>,
  \<open>get_seq\<close>, \<open>record\<close> and \<open>freeze\<close>. The record \<open>index_ops\<close> is that
  interface, \<open>plain_ops\<close> and \<open>sharded_ops\<close> its two instances, and the locale
  \<open>l0_index\<close> its contract.
\<close>

record ('w, 'wb, 't, 'tb) index_ops =
  io_wal_new :: 'w
  io_wal_begin :: "'w \<Rightarrow> 'wb"
  io_wal_get :: "'w \<Rightarrow> int \<Rightarrow> vline option"
  io_get :: "'wb \<Rightarrow> int \<Rightarrow> vline option"
  io_apply :: "'wb \<Rightarrow> int \<Rightarrow> int \<Rightarrow> opk \<Rightarrow> int option \<Rightarrow> verdict \<times> 'wb"
  io_wal_freeze :: "'wb \<Rightarrow> 'w"
  io_tx_new :: 't
  io_tx_begin :: "'t \<Rightarrow> 'tb"
  io_tx_check :: "'t \<Rightarrow> bytes \<Rightarrow> bytes \<Rightarrow> tx_verdict"
  io_tx_get_seq :: "'t \<Rightarrow> bytes \<Rightarrow> int option"
  io_check :: "'tb \<Rightarrow> bytes \<Rightarrow> bytes \<Rightarrow> tx_verdict"
  io_get_seq :: "'tb \<Rightarrow> bytes \<Rightarrow> int option"
  io_record :: "'tb \<Rightarrow> bytes \<Rightarrow> bytes \<Rightarrow> int \<Rightarrow> 'tb"
  io_tx_freeze :: "'tb \<Rightarrow> 't"

text \<open>\<open>WalIndex\<close> and \<open>TxIdIndex\<close>.\<close>

definition plain_ops :: "(wal_index, wal_index, tx_index, tx_index) index_ops" where
  "plain_ops =
     \<lparr>io_wal_new = wi_empty, io_wal_begin = wi_begin_mutation, io_wal_get = wi_get,
      io_get = wi_get, io_apply = wi_apply, io_wal_freeze = wi_freeze,
      io_tx_new = [], io_tx_begin = tx_begin_mutation, io_tx_check = tx_check,
      io_tx_get_seq = tx_get_seq, io_check = tx_check, io_get_seq = tx_get_seq,
      io_record = tx_record, io_tx_freeze = tx_freeze\<rparr>"

text \<open>\<open>ShardedWalIndex.empty(bits, seed)\<close> and \<open>ShardedTxIdIndex.empty(bits, seed)\<close>.\<close>

definition sharded_ops :: "nat \<Rightarrow> int \<Rightarrow>
    ((int, vline) sharded, (int, vline) shard_builder,
     (bytes, bytes \<times> int) sharded, (bytes, bytes \<times> int) shard_builder) index_ops" where
  "sharded_ops bits seed =
     \<lparr>io_wal_new = sharded_empty bits seed, io_wal_begin = sb_begin, io_wal_get = shw_get,
      io_get = sbw_get, io_apply = sbw_apply, io_wal_freeze = sb_freeze,
      io_tx_new = sharded_empty bits seed, io_tx_begin = sb_begin, io_tx_check = sht_check,
      io_tx_get_seq = sht_get_seq, io_check = sbt_check, io_get_seq = sbt_get_seq,
      io_record = sbt_record, io_tx_freeze = sb_freeze\<rparr>"

text \<open>
  The contract: the builders meet \<open>version_index\<close> and \<open>retry_memory\<close>, a new index
  is empty, and a builder reads what its base holds until it is written, a frozen index what
  its builder held.
\<close>

locale l0_index =
  w: version_index "io_get ops" "io_apply ops" binv + t: retry_memory "io_check ops" "io_get_seq ops"
    "io_record ops" tbinv
  for ops :: "('w, 'wb, 't, 'tb) index_ops" and binv and tbinv +
  fixes winv :: "'w \<Rightarrow> bool" and tinv :: "'t \<Rightarrow> bool"
  assumes new_inv: "winv (io_wal_new ops)" "tinv (io_tx_new ops)"
    and new_get: "io_wal_get ops (io_wal_new ops) f = None"
    and new_check: "io_tx_check ops (io_tx_new ops) i d = TxNew"
    and new_get_seq: "io_tx_get_seq ops (io_tx_new ops) i = None"
    and begin_inv: "winv w \<Longrightarrow> binv (io_wal_begin ops w)" "tinv t \<Longrightarrow> tbinv (io_tx_begin ops t)"
    and begin_get: "winv w \<Longrightarrow> io_get ops (io_wal_begin ops w) = io_wal_get ops w"
    and begin_check: "tinv t \<Longrightarrow> io_check ops (io_tx_begin ops t) = io_tx_check ops t"
    and begin_get_seq: "tinv t \<Longrightarrow> io_get_seq ops (io_tx_begin ops t) = io_tx_get_seq ops t"
    and freeze_inv: "binv b \<Longrightarrow> winv (io_wal_freeze ops b)" "tbinv c \<Longrightarrow> tinv (io_tx_freeze ops c)"
    and freeze_get: "binv b \<Longrightarrow> io_wal_get ops (io_wal_freeze ops b) = io_get ops b"
    and freeze_check: "tbinv c \<Longrightarrow> io_tx_check ops (io_tx_freeze ops c) = io_check ops c"
    and freeze_get_seq: "tbinv c \<Longrightarrow> io_tx_get_seq ops (io_tx_freeze ops c) = io_get_seq ops c"

interpretation plain: l0_index plain_ops wi_inv "\<lambda>m. distinct (dkeys m)" wi_inv
    "\<lambda>m. distinct (dkeys m)"
proof -
  have w: "version_index (io_get plain_ops) (io_apply plain_ops) wi_inv"
    by (simp add: plain_ops_def wal.version_index_axioms)
  have t: "retry_memory (io_check plain_ops) (io_get_seq plain_ops) (io_record plain_ops)
      (\<lambda>m. distinct (dkeys m))"
    by (simp add: plain_ops_def tx.retry_memory_axioms)
  show "l0_index plain_ops wi_inv (\<lambda>m. distinct (dkeys m)) wi_inv (\<lambda>m. distinct (dkeys m))"
    using w t
    by (intro l0_index.intro l0_index_axioms.intro)
      (simp_all add: plain_ops_def wi_inv_def wi_empty_def wi_get_def tx_check_def tx_get_seq_def
        wi_begin_mutation_def wi_clone_def tx_begin_mutation_def tx_clone_def wi_freeze_def
        tx_freeze_def fun_eq_iff)
qed

interpretation shl: l0_index "sharded_ops bits seed" sbw_inv sbt_inv
    "\<lambda>s. sharded_ok (fact_shard s) s" "\<lambda>s. sharded_ok (opid_shard s) s" for bits seed
proof -
  have w: "version_index (io_get (sharded_ops bits seed)) (io_apply (sharded_ops bits seed)) sbw_inv"
    by (simp add: sharded_ops_def shw.version_index_axioms)
  have t: "retry_memory (io_check (sharded_ops bits seed)) (io_get_seq (sharded_ops bits seed))
      (io_record (sharded_ops bits seed)) sbt_inv"
    by (simp add: sharded_ops_def sht.retry_memory_axioms)
  show "l0_index (sharded_ops bits seed) sbw_inv sbt_inv (\<lambda>s. sharded_ok (fact_shard s) s)
      (\<lambda>s. sharded_ok (opid_shard s) s)"
    using w t
    by (intro l0_index.intro l0_index_axioms.intro)
      (simp_all add: sharded_ops_def sharded_empty_ok sharded_empty_reads sbw_inv_begin
        sbt_inv_begin sbw_get_begin sbt_begin sharded_ok_freeze sbt_freeze_ok shw_get_freeze sbt_freeze fun_eq_iff)
qed

end
