(* ===== verification/WalCodec.thy ===== *)
theory WalCodec
  imports Crypto Versions
begin

unbundle bit_operations_syntax

section \<open>The WAL on disk: frames, header, footer and scan (\<open>horizon_wal.py\<close>)\<close>

text \<open>
  The append-only log of the engine: a 67 byte authenticated segment header, one frame per
  operation (length and its complement, fixed fields, payload, CRC-32, HMAC tag, length
  again) and, once sealed, a 53 byte authenticated footer. \<open>scan\<close> validates a whole
  file and never raises; what follows the last complete frame is a dropped tail.
\<close>

definition WAL_MAGIC :: bytes where "WAL_MAGIC = [0x48, 0x57, 0x4C, 0x31]"
definition SEAL_MAGIC :: bytes where "SEAL_MAGIC = [0x57, 0x53, 0x45, 0x41, 0x4C]"
abbreviation (input) WAL_FORMAT_VERSION :: int where "WAL_FORMAT_VERSION \<equiv> 2"
abbreviation (input) RECORD_VERSION :: int where "RECORD_VERSION \<equiv> 2"
abbreviation (input) STATE_ACTIVE :: int where "STATE_ACTIVE \<equiv> 0"
abbreviation (input) STATE_SEALED :: int where "STATE_SEALED \<equiv> 1"
abbreviation (input) MAX_PAYLOAD :: int where "MAX_PAYLOAD \<equiv> 0x100000"
abbreviation (input) PUT_PAYLOAD :: int where "PUT_PAYLOAD \<equiv> 4"
abbreviation (input) MIN_FRAME :: int where "MIN_FRAME \<equiv> 76"
abbreviation (input) MAX_FRAME :: int where "MAX_FRAME \<equiv> MIN_FRAME + MAX_PAYLOAD"
abbreviation (input) MAX_RECORDS :: int where "MAX_RECORDS \<equiv> 0x40000000"
abbreviation (input) MAX_SEQ :: int where "MAX_SEQ \<equiv> 0x4000000000000000"
abbreviation (input) MAX_FACT_ID :: int where "MAX_FACT_ID \<equiv> 0x4000000000000000"
abbreviation (input) U32_MAX :: int where "U32_MAX \<equiv> 0xFFFFFFFF"

abbreviation (input) SEG_HEADER :: "sfmt list" where
  "SEG_HEADER \<equiv> [FS 4, FU 2, FU 4, FU 4, FU 8, FU 4, FU 4, FU 4, FU 1, FS 16]"
abbreviation (input) FRAME_FIXED :: "sfmt list" where
  "FRAME_FIXED \<equiv> [FU 2, FU 1, FU 1, FU 8, FS 16, FU 8, FU 4, FU 4]"
abbreviation (input) SEAL :: "sfmt list" where
  "SEAL \<equiv> [FS 5, FU 8, FU 8, FS 16]"

text \<open>\<open>_SEG_HEADER.size\<close>, \<open>_FRAME_FIXED.size\<close>, \<open>_SEAL.size\<close>.\<close>

abbreviation (input) SEG_SIZE :: nat where "SEG_SIZE \<equiv> 51"
abbreviation (input) FIXED_SIZE :: nat where "FIXED_SIZE \<equiv> 44"
abbreviation (input) SEAL_SIZE :: nat where "SEAL_SIZE \<equiv> 37"
abbreviation (input) SEAL_FOOTER_BYTES :: nat where "SEAL_FOOTER_BYTES \<equiv> 53"

lemma layout_sizes:
  "struct_size SEG_HEADER = SEG_SIZE" "struct_size FRAME_FIXED = FIXED_SIZE"
  "struct_size SEAL = SEAL_SIZE" "SEAL_FOOTER_BYTES = SEAL_SIZE + TAG_BYTES"
  by simp_all

text \<open>The exceptions the log raises.\<close>

datatype exn = WalError | StructError | KeyError | OSError

fun op_code :: "opk \<Rightarrow> int option" where
  "op_code OP_PUT = Some 1"
| "op_code OP_DELETE = Some 2"
| "op_code (OP_OTHER s) = None"

definition code_op :: "int \<Rightarrow> opk option" where
  "code_op c = (if c = 1 then Some OP_PUT else if c = 2 then Some OP_DELETE else None)"

definition u32 :: "int \<Rightarrow> bool" where
  "u32 v \<longleftrightarrow> 0 \<le> v \<and> v \<le> U32_MAX"

definition is_u8_value :: "int option \<Rightarrow> bool" where
  "is_u8_value value = (case value of None \<Rightarrow> False | Some v \<Rightarrow> 0 \<le> v \<and> v \<le> 255)"

definition make_operation_id :: "int \<Rightarrow> int \<Rightarrow> bytes option" where
  "make_operation_id client_id txid = struct_pack [FU 8, FU 8] [VI client_id, VI txid]"

text \<open>\<open>b"" if value is None else struct.pack("<I", int(value))\<close>.\<close>

definition payload_of :: "int option \<Rightarrow> bytes option" where
  "payload_of value = (case value of None \<Rightarrow> Some [] | Some v \<Rightarrow> struct_pack [FU 4] [VI v])"

definition OPDIGEST :: bytes where
  "OPDIGEST = [0x4F, 0x50, 0x44, 0x49, 0x47, 0x45, 0x53, 0x54]"

definition content_digest :: "opk \<Rightarrow> int \<Rightarrow> int \<Rightarrow> int option \<Rightarrow> exn + bytes" where
  "content_digest op fact_id fact_version value =
     (case payload_of value of
        None \<Rightarrow> Inl StructError
      | Some payload \<Rightarrow>
          (case op_code op of
             None \<Rightarrow> Inl KeyError
           | Some c \<Rightarrow>
               (case struct_pack [FU 1, FU 8, FU 4] [VI c, VI fact_id, VI fact_version] of
                  None \<Rightarrow> Inl StructError
                | Some fixed \<Rightarrow> Inr (take 16 (sha256 (OPDIGEST @ fixed @ payload))))))"

subsection \<open>Encoding\<close>

definition WALFRAME :: bytes where
  "WALFRAME = [0x57, 0x41, 0x4C, 0x46, 0x52, 0x41, 0x4D, 0x45]"
definition WALSEGMENT :: bytes where
  "WALSEGMENT = [0x57, 0x41, 0x4C, 0x53, 0x45, 0x47, 0x4D, 0x45, 0x4E, 0x54]"
definition WALSEAL :: bytes where
  "WALSEAL = [0x57, 0x41, 0x4C, 0x53, 0x45, 0x41, 0x4C]"

text \<open>
  \<open>struct.pack("<II", scope_id, segment_id)\<close>. The encoders below refuse identities that do
  not fit, and \<open>scan\<close> uses it after the identities equal two u32 header flds.
\<close>

definition ids_bytes :: "int \<Rightarrow> int \<Rightarrow> bytes" where
  "ids_bytes scope_id segment_id = le_bytes 4 scope_id @ le_bytes 4 segment_id"

definition frame_mac :: "bytes \<Rightarrow> int \<Rightarrow> int \<Rightarrow> bytes \<Rightarrow> bytes" where
  "frame_mac key scope_id segment_id body_crc =
     mac16 key (WALFRAME @ ids_bytes scope_id segment_id @ body_crc)"

definition encode_frame ::
  "bytes \<Rightarrow> int \<Rightarrow> int \<Rightarrow> opk \<Rightarrow> int \<Rightarrow> bytes \<Rightarrow> int \<Rightarrow> int \<Rightarrow> bytes \<Rightarrow> exn + bytes" where
  "encode_frame key scope_id segment_id op wal_seq operation_id fact_id fact_version payload =
     (case op_code op of
        None \<Rightarrow> Inl WalError
      | Some c \<Rightarrow>
          if length operation_id \<noteq> 16 then Inl WalError
          else if int (length payload) > MAX_PAYLOAD then Inl WalError
          else
            (case struct_pack FRAME_FIXED
                    [VI RECORD_VERSION, VI c, VI 0, VI wal_seq, VB operation_id, VI fact_id,
                     VI fact_version, VI (int (length payload))] of
               None \<Rightarrow> Inl StructError
             | Some fixed \<Rightarrow>
                 if \<not> u32 scope_id \<or> \<not> u32 segment_id then Inl StructError
                 else
                   (let total_length = 8 + int (length fixed) + int (length payload) + 4
                          + int TAG_BYTES + 4;
                        head = le_bytes 4 total_length @ le_bytes 4 (total_length XOR U32_MAX);
                        body = head @ fixed @ payload;
                        body_crc = body @ le_bytes 4 (crc32 body);
                        mac = frame_mac key scope_id segment_id body_crc
                    in Inr (body_crc @ mac @ le_bytes 4 total_length))))"

definition encode_segment_header ::
  "bytes \<Rightarrow> int \<Rightarrow> int \<Rightarrow> int \<Rightarrow> int \<Rightarrow> int \<Rightarrow> bytes \<Rightarrow> bytes option" where
  "encode_segment_header key scope_id segment_id first_seq key_id segment_state prev =
     (case struct_pack SEG_HEADER
             [VB WAL_MAGIC, VI WAL_FORMAT_VERSION, VI scope_id, VI segment_id, VI first_seq,
              VI key_id, VI MAX_PAYLOAD, VI MAX_RECORDS, VI segment_state, VB prev] of
        None \<Rightarrow> None
      | Some flds \<Rightarrow> Some (flds @ mac16 key (WALSEGMENT @ flds)))"

definition seal_footer :: "bytes \<Rightarrow> int \<Rightarrow> int \<Rightarrow> int \<Rightarrow> int \<Rightarrow> bytes \<Rightarrow> bytes option" where
  "seal_footer key scope_id segment_id last_seq byte_length prefix_digest =
     (case struct_pack SEAL [VB SEAL_MAGIC, VI last_seq, VI byte_length, VB prefix_digest] of
        None \<Rightarrow> None
      | Some flds \<Rightarrow>
          if \<not> u32 scope_id \<or> \<not> u32 segment_id then None
          else Some (flds @ mac16 key (WALSEAL @ ids_bytes scope_id segment_id @ flds)))"

subsection \<open>Canonical commands and frames\<close>

definition command_is_canonical :: "opk \<Rightarrow> int \<Rightarrow> int \<Rightarrow> int option \<Rightarrow> bytes \<Rightarrow> bool" where
  "command_is_canonical op fact_id fact_version value operation_id =
     (if op_code op = None then False
      else if length operation_id \<noteq> 16 then False
      else if fact_version < 1 then False
      else if \<not> (0 \<le> fact_id \<and> fact_id < MAX_FACT_ID) then False
      else if op = OP_PUT \<and> (case value of None \<Rightarrow> True | Some v \<Rightarrow> \<not> (0 \<le> v \<and> v \<le> U32_MAX))
        then False
      else if op = OP_DELETE \<and> value \<noteq> None then False
      else True)"

definition canonical_frame_ok :: "int \<Rightarrow> int \<Rightarrow> int \<Rightarrow> int \<Rightarrow> int \<Rightarrow> int \<Rightarrow> bool" where
  "canonical_frame_ok opc flags seq fact_id fver plen =
     (case code_op opc of
        None \<Rightarrow> False
      | Some op \<Rightarrow>
          if flags \<noteq> 0 then False
          else if op = OP_PUT \<and> plen \<noteq> PUT_PAYLOAD then False
          else if op = OP_DELETE \<and> plen \<noteq> 0 then False
          else if fver < 1 then False
          else if \<not> (0 \<le> seq \<and> seq < MAX_SEQ) then False
          else if \<not> (0 \<le> fact_id \<and> fact_id < MAX_FACT_ID) then False
          else True)"

definition value_of :: "bytes \<Rightarrow> int" where
  "value_of payload = fi (struct_unpack [FU 4] payload) 0"

subsection \<open>The physical scan\<close>

datatype wal_class =
  CLEAN | TAIL_DROPPED | CORRUPT_COMMITTED_PREFIX | MISSING_REQUIRED | MISSING_COMMITTED_PREFIX
| INCOMPATIBLE

text \<open>\<open>(op, seq, operation_id, fact_id, fact_version, value)\<close>\<close>

type_synonym wframe = "opk \<times> int \<times> bytes \<times> int \<times> int \<times> int option"

record wal_header_info =
  whi_scope_id :: int
  whi_segment_id :: int
  whi_first_seq :: int
  whi_key_id :: int
  whi_prev_digest :: bytes
  whi_format_version :: int

record segment_seal =
  ss_last_seq :: int
  ss_byte_length :: int
  ss_prefix_digest :: bytes

record scan_result =
  sr_class :: wal_class
  sr_frames :: "wframe list"
  sr_last_seq :: int
  sr_consumed :: nat
  sr_dropped :: nat
  sr_sealed :: bool
  sr_header :: "wal_header_info option"

definition scan_fail :: "wal_class \<Rightarrow> wframe list \<Rightarrow> int \<Rightarrow> nat \<Rightarrow> scan_result" where
  "scan_fail c frames last_seq off =
     \<lparr>sr_class = c, sr_frames = frames, sr_last_seq = last_seq, sr_consumed = off, sr_dropped = 0,
      sr_sealed = False, sr_header = None\<rparr>"

text \<open>What one turn of the loop decides.\<close>

datatype scan_step =
  SCorrupt                 \<comment> \<open>return CORRUPT with the frames so far\<close>
| SMissing                 \<comment> \<open>return MISSING\_COMMITTED\_PREFIX without frames\<close>
| STail                    \<comment> \<open>break: what remains is a torn tail\<close>
| SSealed                  \<comment> \<open>break: a valid footer ends the file\<close>
| SFrame wframe nat        \<comment> \<open>a valid frame and its length\<close>

definition scan_seal ::
  "bytes \<Rightarrow> bytes \<Rightarrow> int \<Rightarrow> int \<Rightarrow> segment_seal option \<Rightarrow> nat \<Rightarrow> int \<Rightarrow> scan_step" where
  "scan_seal blob key scope_id segment_id expected_seal off last_seq =
     (let sfields = slice blob off (off + SEAL_SIZE);
          s = struct_unpack SEAL sfields;
          s_last = fi s 1; s_len = fi s 2; s_dig = fb s 3;
          s_mac = slice blob (off + SEAL_SIZE) (off + SEAL_SIZE + TAG_BYTES);
          exp_s = mac16 key (WALSEAL @ ids_bytes scope_id segment_id @ sfields)
      in if exp_s \<noteq> s_mac then SCorrupt
         else if off + SEAL_SIZE + TAG_BYTES \<noteq> length blob then SCorrupt
         else if s_len \<noteq> int off \<or> s_last \<noteq> last_seq
             \<or> s_dig \<noteq> take 16 (sha256 (take off blob)) then SCorrupt
         else
           (case expected_seal of
              None \<Rightarrow> SSealed
            | Some es \<Rightarrow>
                if s_last \<noteq> ss_last_seq es \<or> s_len \<noteq> ss_byte_length es
                  \<or> s_dig \<noteq> ss_prefix_digest es then SMissing
                else SSealed))"

definition scan_frame ::
  "bytes \<Rightarrow> int \<Rightarrow> int \<Rightarrow> bytes \<Rightarrow> int \<Rightarrow> int \<Rightarrow> scan_step" where
  "scan_frame key scope_id segment_id frame total_length expected_seq =
     (let t = nat total_length;
          x = struct_unpack FRAME_FIXED (drop 8 frame);
          rec_ver = fi x 0; opc = fi x 1; flags = fi x 2; seq = fi x 3; op_id = fb x 4;
          fact_id = fi x 5; fver = fi x 6; plen = fi x 7;
          body_end = 8 + FIXED_SIZE + nat plen;
          mac_off = body_end + 4
      in if fi (struct_unpack [FU 4] (drop (t - 4) frame)) 0 \<noteq> total_length then SCorrupt
         else if rec_ver \<noteq> RECORD_VERSION \<or> plen \<noteq> total_length - MIN_FRAME then SCorrupt
         else if crc32 (take body_end frame)
             \<noteq> fi (struct_unpack [FU 4] (drop body_end frame)) 0 then SCorrupt
         else if frame_mac key scope_id segment_id (take mac_off frame)
             \<noteq> slice frame mac_off (mac_off + TAG_BYTES) then SCorrupt
         else if seq \<noteq> expected_seq then SCorrupt
         else if \<not> canonical_frame_ok opc flags seq fact_id fver plen then SCorrupt
         else
           (let payload = slice frame (8 + FIXED_SIZE) body_end;
                op = the (code_op opc);
                value = (if op = OP_PUT then Some (value_of payload) else None)
            in SFrame (op, seq, op_id, fact_id, fver, value) t))"

definition scan_step ::
  "bytes \<Rightarrow> bytes \<Rightarrow> int \<Rightarrow> int \<Rightarrow> segment_seal option \<Rightarrow> nat \<Rightarrow> int \<Rightarrow> int \<Rightarrow> scan_step" where
  "scan_step blob key scope_id segment_id expected_seal off expected_seq last_seq =
     (let remaining = length blob - off
      in if remaining \<ge> 5 \<and> slice blob off (off + 5) = SEAL_MAGIC then
           (if remaining < SEAL_SIZE + TAG_BYTES then STail
            else scan_seal blob key scope_id segment_id expected_seal off last_seq)
         else if remaining < 8 then STail
         else
           (let h = struct_unpack [FU 4, FU 4] (drop off blob);
                total_length = fi h 0; comp = fi h 1
            in if total_length XOR U32_MAX \<noteq> comp then SCorrupt
               else if \<not> (MIN_FRAME \<le> total_length \<and> total_length \<le> MAX_FRAME) then SCorrupt
               else if int remaining < total_length then STail
               else scan_frame key scope_id segment_id
                      (slice blob off (off + nat total_length)) total_length expected_seq))"

lemma scan_frame_pos:
  "scan_frame key sc sg fr tlen es = SFrame f len \<Longrightarrow> len = nat tlen"
  by (auto simp: scan_frame_def Let_def split: if_splits)

lemma scan_seal_no_frame: "scan_seal blob key sc sg es off ls \<noteq> SFrame f len"
  by (auto simp: scan_seal_def Let_def split: if_splits option.splits)

lemma scan_step_pos:
  "scan_step blob key sc sg es off xs ls = SFrame f len \<Longrightarrow>
   0 < len \<and> off + len \<le> length blob"
  by (auto simp: scan_step_def Let_def scan_seal_no_frame split: if_splits dest!: scan_frame_pos)

datatype scan_end =
  EndReturn wal_class "wframe list" int nat
| EndBreak "wframe list" int nat nat bool  \<comment> \<open>frames, last\_seq, off, tail\_bytes, sealed\<close>

function scan_loop ::
  "bytes \<Rightarrow> bytes \<Rightarrow> int \<Rightarrow> int \<Rightarrow> segment_seal option \<Rightarrow> nat \<Rightarrow> int \<Rightarrow> int \<Rightarrow> wframe list
    \<Rightarrow> scan_end" where
  "scan_loop blob key scope_id segment_id es off expected_seq last_seq frames =
     (if off < length blob then
        (case scan_step blob key scope_id segment_id es off expected_seq last_seq of
           SCorrupt \<Rightarrow> EndReturn CORRUPT_COMMITTED_PREFIX frames last_seq off
         | SMissing \<Rightarrow> EndReturn MISSING_COMMITTED_PREFIX [] last_seq off
         | STail \<Rightarrow> EndBreak frames last_seq off (length blob - off) False
         | SSealed \<Rightarrow> EndBreak frames last_seq (length blob) 0 True
         | SFrame f len \<Rightarrow>
             scan_loop blob key scope_id segment_id es (off + len) (expected_seq + 1)
               (fst (snd f)) (frames @ [f]))
      else EndBreak frames last_seq off 0 False)"
  by pat_completeness auto
termination
  by (relation "measure (\<lambda>(blob, key, sc, sg, es, off, xs, ls, fr). length blob - off)")
    (auto dest!: scan_step_pos)

declare scan_loop.simps [simp del]

definition scan_finish ::
  "bytes \<Rightarrow> segment_seal option \<Rightarrow> wal_header_info \<Rightarrow> scan_end \<Rightarrow> scan_result" where
  "scan_finish blob expected_seal hi e =
     (case e of
        EndReturn c frames last_seq off \<Rightarrow> scan_fail c frames last_seq off
      | EndBreak frames last_seq off tail_bytes sealed \<Rightarrow>
          (let tail = off < length blob;
               ok = (\<lambda>c sealed dropped.
                 \<lparr>sr_class = c, sr_frames = frames, sr_last_seq = last_seq, sr_consumed = off,
                  sr_dropped = dropped, sr_sealed = sealed, sr_header = Some hi\<rparr>)
           in if sealed then ok CLEAN True 0
              else
                (case expected_seal of
                   Some es \<Rightarrow>
                     if \<not> tail \<and> int (length blob) = ss_byte_length es \<and> last_seq = ss_last_seq es
                       \<and> take 16 (sha256 (take (nat (ss_byte_length es)) blob)) = ss_prefix_digest es
                     then ok (if tail then TAIL_DROPPED else CLEAN) False tail_bytes
                     else scan_fail MISSING_COMMITTED_PREFIX [] last_seq off
                 | None \<Rightarrow> ok (if tail then TAIL_DROPPED else CLEAN) False tail_bytes)))"

definition scan ::
  "bytes option \<Rightarrow> bytes \<Rightarrow> bool \<Rightarrow> int \<Rightarrow> int \<Rightarrow> segment_seal option \<Rightarrow> scan_result" where
  "scan blob_opt key required scope_id segment_id expected_seal =
     (case blob_opt of
        None \<Rightarrow> scan_fail (if required then MISSING_REQUIRED else CLEAN) [] 0 0
      | Some blob \<Rightarrow>
          if length blob < SEG_SIZE + TAG_BYTES then scan_fail CORRUPT_COMMITTED_PREFIX [] 0 0
          else
            (let hdr = take SEG_SIZE blob;
                 x = struct_unpack SEG_HEADER hdr;
                 magic = fb x 0; ver = fi x 1; scope = fi x 2; seg = fi x 3; first_seq = fi x 4;
                 kid = fi x 5; maxp = fi x 6; maxr = fi x 7; seg_state = fi x 8; prev = fb x 9
             in if magic \<noteq> WAL_MAGIC then scan_fail CORRUPT_COMMITTED_PREFIX [] 0 0
                else if ver \<noteq> WAL_FORMAT_VERSION then scan_fail INCOMPATIBLE [] 0 0
                else if mac16 key (WALSEGMENT @ hdr)
                    \<noteq> slice blob SEG_SIZE (SEG_SIZE + TAG_BYTES)
                  then scan_fail CORRUPT_COMMITTED_PREFIX [] 0 0
                else if scope \<noteq> scope_id \<or> seg \<noteq> segment_id
                  then scan_fail CORRUPT_COMMITTED_PREFIX [] 0 0
                else if maxp > MAX_PAYLOAD \<or> maxr > MAX_RECORDS
                    \<or> seg_state \<notin> {STATE_ACTIVE, STATE_SEALED}
                  then scan_fail CORRUPT_COMMITTED_PREFIX [] 0 0
                else
                  (let hi = \<lparr>whi_scope_id = scope, whi_segment_id = seg, whi_first_seq = first_seq,
                             whi_key_id = kid, whi_prev_digest = prev, whi_format_version = ver\<rparr>
                   in scan_finish blob expected_seal hi
                        (scan_loop blob key scope_id segment_id expected_seal
                           (SEG_SIZE + TAG_BYTES) first_seq (first_seq - 1) []))))"

end
