(* ===== verification/WalScan.thy ===== *)
theory WalScan
  imports WalCodec
begin

unbundle bit_operations_syntax

section \<open>What \<open>scan\<close> reads back from what the encoders wrote\<close>

text \<open>
  Lemmas about one turn of the scan loop at the end of a known prefix: a complete frame is
  read back, a proper prefix of a frame or of a footer is a torn tail, a footer seals.
  From them: the scan of a header, a list of frames and any of these endings.
\<close>

lemma unpack_cons [layout_simps]:
  "struct_unpack (FU n # fs) (le_bytes n v @ r) = VI (v mod 256 ^ n) # struct_unpack fs r"
  "length b = n \<Longrightarrow> struct_unpack (FS n # fs) (b @ r) = VB b # struct_unpack fs r"
  by (simp_all add: le_int_le_bytes_mod)

lemma unpack_byte [layout_simps]:
  "struct_unpack (FU (Suc 0) # fs) (b # r) = VI (uint b) # struct_unpack fs r"
  "struct_unpack (FU (Suc 0) # fs) ([b] @ r) = VI (uint b) # struct_unpack fs r"
  by simp_all

lemma unpack_last [layout_simps]:
  "struct_unpack (FU n # fs) (le_bytes n v) = VI (v mod 256 ^ n) # struct_unpack fs []"
  "length b = n \<Longrightarrow> struct_unpack (FS n # fs) b = VB b # struct_unpack fs []"
  by (simp_all add: le_int_le_bytes_mod)

text \<open>Reading at the end of a known prefix.\<close>

lemma drop_pre: "drop (length p + k) (p @ xs) = drop k xs"
  by simp

lemma slice_pre: "slice (p @ xs) (length p) (length p + k) = take k xs"
  by (simp add: slice_def)

lemma slice_pre2: "slice (p @ xs) (length p + i) (length p + j) = slice xs i j"
  by (simp add: slice_def)

lemma u32_xor_max: "0 \<le> t \<Longrightarrow> t < 2 ^ 32 \<Longrightarrow> 0 \<le> t XOR U32_MAX \<and> t XOR U32_MAX < 2 ^ 32"
  using XOR_upper [of t 32 U32_MAX] XOR_lower [of t U32_MAX] by simp

subsection \<open>Frames in closed form\<close>

fun frame_seq :: "wframe \<Rightarrow> int" where
  "frame_seq (op, seq, oid, fid, fver, v) = seq"

fun frame_opid :: "wframe \<Rightarrow> bytes" where
  "frame_opid (op, seq, oid, fid, fver, v) = oid"

text \<open>The frames a writer can emit: canonical, every field within its width.\<close>

fun valid_frame :: "wframe \<Rightarrow> bool" where
  "valid_frame (op, seq, oid, fid, fver, v) \<longleftrightarrow>
     length oid = 16 \<and> 0 \<le> seq \<and> seq < MAX_SEQ \<and> 0 \<le> fid \<and> fid < MAX_FACT_ID \<and>
     1 \<le> fver \<and> u32 fver \<and>
     (case v of Some x \<Rightarrow> op = OP_PUT \<and> u32 x | None \<Rightarrow> op = OP_DELETE)"

definition fixed_bytes :: "int \<Rightarrow> int \<Rightarrow> bytes \<Rightarrow> int \<Rightarrow> int \<Rightarrow> int \<Rightarrow> bytes" where
  "fixed_bytes c seq oid fid fver plen =
     le_bytes 2 2 @ le_bytes 1 c @ le_bytes 1 0 @ le_bytes 8 seq @ oid @ le_bytes 8 fid
       @ le_bytes 4 fver @ le_bytes 4 plen"

definition body_bytes :: "int \<Rightarrow> bytes \<Rightarrow> bytes \<Rightarrow> bytes" where
  "body_bytes t fixed payload = le_bytes 4 t @ le_bytes 4 (t XOR U32_MAX) @ fixed @ payload"

definition close_frame :: "bytes \<Rightarrow> int \<Rightarrow> int \<Rightarrow> int \<Rightarrow> bytes \<Rightarrow> bytes" where
  "close_frame key sc sg t body =
     (let bc = body @ le_bytes 4 (crc32 body) in bc @ frame_mac key sc sg bc @ le_bytes 4 t)"

fun frame_code :: "wframe \<Rightarrow> int" where
  "frame_code (op, seq, oid, fid, fver, v) = the (op_code op)"

fun frame_payload :: "wframe \<Rightarrow> bytes" where
  "frame_payload (op, seq, oid, fid, fver, v) = (case v of None \<Rightarrow> [] | Some x \<Rightarrow> le_bytes 4 x)"

fun frame_fixed :: "wframe \<Rightarrow> bytes" where
  "frame_fixed (op, seq, oid, fid, fver, v) =
     fixed_bytes (the (op_code op)) seq oid fid fver (if v = None then 0 else 4)"

definition frame_len :: "wframe \<Rightarrow> nat" where
  "frame_len f = 76 + length (frame_payload f)"

definition frame_bytes :: "bytes \<Rightarrow> int \<Rightarrow> int \<Rightarrow> wframe \<Rightarrow> bytes" where
  "frame_bytes key sc sg f =
     close_frame key sc sg (int (frame_len f))
       (body_bytes (int (frame_len f)) (frame_fixed f) (frame_payload f))"

lemma length_frame_mac [simp]: "length (frame_mac key sc sg b) = 16"
  by (simp add: frame_mac_def)

lemma length_fixed: "valid_frame f \<Longrightarrow> length (frame_fixed f) = 44"
  by (cases f) (auto simp: fixed_bytes_def)

lemma length_frame_payload: "length (frame_payload f) = 0 \<or> length (frame_payload f) = 4"
  by (cases f) (auto split: option.splits)

lemma length_frame_bytes: "valid_frame f \<Longrightarrow> length (frame_bytes key sc sg f) = frame_len f"
  by (simp add: frame_bytes_def close_frame_def body_bytes_def length_fixed frame_len_def Let_def)

lemma frame_len_bounds: "76 \<le> frame_len f" "frame_len f \<le> 80"
  using length_frame_payload [of f] by (auto simp: frame_len_def)

lemma encode_frame_bytes:
  assumes "valid_frame (op, seq, oid, fid, fver, v)" "u32 sc" "u32 sg" "payload_of v = Some pl"
  shows "encode_frame key sc sg op seq oid fid fver pl
           = Inr (frame_bytes key sc sg (op, seq, oid, fid, fver, v))"
  using assms
  by (cases v)
    (auto simp: encode_frame_def u32_def payload_of_def frame_bytes_def close_frame_def
      body_bytes_def fixed_bytes_def frame_len_def Let_def)

lemma payload_of_valid:
  "valid_frame (op, seq, oid, fid, fver, v) \<Longrightarrow>
   payload_of v = Some (frame_payload (op, seq, oid, fid, fver, v))"
  by (auto simp: payload_of_def u32_def split: option.splits)

subsection \<open>One turn of the loop\<close>

lemma scan_frame_bytes:
  assumes v: "valid_frame f" and ids: "u32 sc" "u32 sg"
  shows "scan_frame key sc sg (frame_bytes key sc sg f) (int (frame_len f)) (frame_seq f)
           = SFrame f (frame_len f)"
proof -
  obtain op seq oid fid fver x where f: "f = (op, seq, oid, fid, fver, x)" by (cases f) auto
  let ?t = "int (frame_len f)" and ?p = "frame_payload f"
  let ?body = "body_bytes ?t (frame_fixed f) ?p"
  let ?fr = "frame_bytes key sc sg f"
  let ?bc = "?body @ le_bytes 4 (crc32 ?body)"
  have lp: "length ?p = (if x = None then 0 else 4)" by (auto simp: f split: option.splits)
  have lb: "length ?body = 52 + length ?p" using length_fixed [OF v] by (simp add: body_bytes_def)
  have lf: "frame_len f = 76 + length ?p" by (simp add: frame_len_def)
  have d8: "drop 8 ?fr = frame_fixed f @ ?p @ le_bytes 4 (crc32 ?body) @ frame_mac key sc sg ?bc
      @ le_bytes 4 ?t"
    by (simp add: frame_bytes_def close_frame_def body_bytes_def Let_def)
  have un: "struct_unpack FRAME_FIXED (drop 8 ?fr) =
      [VI 2, VI (the (op_code op)), VI 0, VI seq, VB oid, VI fid, VI fver, VI (int (length ?p))]"
    using v lp unfolding d8 unfolding f
    by (auto simp: fixed_bytes_def layout_simps u32_def simp del: struct_unpack.simps(2)
        split: option.splits)
  have last: "struct_unpack [FU 4] (drop (frame_len f - 4) ?fr) = [VI ?t]"
  proof -
    have "drop (frame_len f - 4) ?fr = le_bytes 4 ?t"
      using lb lf by (simp add: frame_bytes_def close_frame_def Let_def)
    then show ?thesis using frame_len_bounds [of f] by (simp add: layout_simps del: struct_unpack.simps(2))
  qed
  have tb: "take (52 + length ?p) ?fr = ?body"
    using lb by (simp add: frame_bytes_def close_frame_def Let_def)
  have cr: "struct_unpack [FU 4] (drop (52 + length ?p) ?fr) = [VI (crc32 ?body)]"
  proof -
    have "drop (52 + length ?p) ?fr = le_bytes 4 (crc32 ?body) @ frame_mac key sc sg ?bc @ le_bytes 4 ?t"
      using lb by (simp add: frame_bytes_def close_frame_def Let_def)
    then show ?thesis by (simp add: layout_simps del: struct_unpack.simps(2))
  qed
  have tm: "take (56 + length ?p) ?fr = ?bc"
    using lb by (simp add: frame_bytes_def close_frame_def Let_def)
  have sm: "slice ?fr (56 + length ?p) (72 + length ?p) = frame_mac key sc sg ?bc"
    using lb by (simp add: frame_bytes_def close_frame_def Let_def slice_def)
  have pl: "slice ?fr 52 (52 + length ?p) = ?p"
    using length_fixed [OF v]
    by (simp add: slice_def frame_bytes_def close_frame_def body_bytes_def Let_def)
  have canon: "canonical_frame_ok (the (op_code op)) 0 seq fid fver (int (length ?p))"
    using v lp by (auto simp: f canonical_frame_ok_def code_op_def split: option.splits)
  have co: "the (code_op (the (op_code op))) = op"
    using v by (auto simp: f code_op_def split: option.splits)
  have val: "(if op = OP_PUT then Some (value_of ?p) else None) = x"
    using v by (auto simp: f value_of_def u32_def layout_simps simp del: struct_unpack.simps(2)
        split: option.splits)
  have pn: "?t - MIN_FRAME = int (length ?p)" using lf by simp
  have sq: "frame_seq f = seq" by (simp add: f)
  have val': "(op = OP_PUT \<longrightarrow> Some (value_of ?p) = x) \<and> (op \<noteq> OP_PUT \<longrightarrow> x = None)"
    using val by (auto split: if_splits)
  show ?thesis
    unfolding scan_frame_def Let_def un sq
    using last tb cr tm sm pl canon co val' pn
    by (simp del: struct_unpack.simps(2) frame_payload.simps) (auto simp: f simp del: frame_payload.simps)
qed


text \<open>The first eight bytes of a frame, as the loop reads them.\<close>

lemma frame_bytes_head:
  "\<exists>r. frame_bytes key sc sg f
     = le_bytes 4 (int (frame_len f)) @ le_bytes 4 (int (frame_len f) XOR U32_MAX) @ r"
  by (simp add: frame_bytes_def close_frame_def body_bytes_def Let_def)

lemma frame_bytes_first: "\<exists>r. frame_bytes key sc sg f = word_of_int (int (frame_len f)) # r"
  using frame_bytes_head [of key sc sg f] by (auto simp: numeral_eq_Suc)

lemma frame_not_seal: "0 < k \<Longrightarrow> take 5 (take k (frame_bytes key sc sg f) @ r) \<noteq> SEAL_MAGIC"
proof -
  assume k: "0 < k"
  obtain q where q: "frame_bytes key sc sg f = word_of_int (int (frame_len f)) # q"
    using frame_bytes_first by blast
  have "frame_len f = 76 \<or> frame_len f = 80"
    using length_frame_payload [of f] by (auto simp: frame_len_def)
  then have "(word_of_int (int (frame_len f)) :: byte) \<noteq> 0x57" by auto
  moreover have "take 5 (take k (frame_bytes key sc sg f) @ r) =
      word_of_int (int (frame_len f)) # take 4 (take (k - 1) q @ r)"
    using k q by (cases k) (auto simp: numeral_eq_Suc)
  ultimately show ?thesis by (auto simp: SEAL_MAGIC_def)
qed

lemma head_unpack:
  assumes "8 \<le> k"
  shows "struct_unpack [FU 4, FU 4] (take k (frame_bytes key sc sg f) @ r) =
           [VI (int (frame_len f)), VI (int (frame_len f) XOR U32_MAX)]"
proof -
  let ?t = "int (frame_len f)"
  obtain q where q: "frame_bytes key sc sg f = le_bytes 4 ?t @ le_bytes 4 (?t XOR U32_MAX) @ q"
    using frame_bytes_head by blast
  have t: "0 \<le> ?t" "?t < 2 ^ 32" using frame_len_bounds [of f] by auto
  have "take k (frame_bytes key sc sg f) @ r =
      le_bytes 4 ?t @ le_bytes 4 (?t XOR U32_MAX) @ take (k - 8) q @ r"
    using assms by (simp add: q)
  then show ?thesis
    using t u32_xor_max [OF t] by (simp add: layout_simps del: struct_unpack.simps(2))
qed

lemma scan_step_frame:
  assumes "valid_frame f" "u32 sc" "u32 sg" "frame_seq f = xs"
  shows "scan_step (p @ frame_bytes key sc sg f @ r) key sc sg es (length p) xs ls
           = SFrame f (frame_len f)"
proof -
  let ?fr = "frame_bytes key sc sg f" and ?t = "int (frame_len f)"
  have l: "length ?fr = frame_len f" by (rule length_frame_bytes [OF assms(1)])
  have b: "76 \<le> frame_len f" "frame_len f \<le> 80" by (rule frame_len_bounds)+
  have ns: "slice (p @ ?fr @ r) (length p) (length p + 5) \<noteq> SEAL_MAGIC"
    unfolding slice_pre using frame_not_seal [of "length ?fr" key sc sg f r] l b by simp
  have h: "struct_unpack [FU 4, FU 4] (drop (length p) (p @ ?fr @ r)) = [VI ?t, VI (?t XOR U32_MAX)]"
    using head_unpack [of "length ?fr" key sc sg f r] l b by simp
  have s: "slice (p @ ?fr @ r) (length p) (length p + frame_len f) = ?fr"
    unfolding slice_pre using l by simp
  show ?thesis
    unfolding scan_step_def Let_def h
    using ns l b s scan_frame_bytes [OF assms(1-3), of key] assms(4)
    by (simp del: struct_unpack.simps(2))
qed

text \<open>A proper prefix of a frame, not empty, is a torn tail.\<close>

lemma scan_step_torn:
  assumes "valid_frame f" "0 < k" "k < frame_len f"
  shows "scan_step (p @ take k (frame_bytes key sc sg f)) key sc sg es (length p) xs ls = STail"
proof -
  let ?fr = "frame_bytes key sc sg f" and ?t = "int (frame_len f)"
  have l: "length (take k ?fr) = k" using assms length_frame_bytes [OF assms(1)] by simp
  have ns: "slice (p @ take k ?fr) (length p) (length p + 5) \<noteq> SEAL_MAGIC"
    unfolding slice_pre using frame_not_seal [OF assms(2), of key sc sg f "[]"] by simp
  show ?thesis
  proof (cases "k < 8")
    case True
    then show ?thesis using ns l by (simp add: scan_step_def Let_def)
  next
    case False
    then have h: "struct_unpack [FU 4, FU 4] (drop (length p) (p @ take k ?fr))
        = [VI ?t, VI (?t XOR U32_MAX)]"
      using head_unpack [of k key sc sg f "[]"] by simp
    show ?thesis
      unfolding scan_step_def Let_def h
      using ns l False assms(3) frame_len_bounds [of f] by (simp del: struct_unpack.simps(2))
  qed
qed

subsection \<open>Footers\<close>

lemma seal_footer_bytes:
  assumes "u32 sc" "u32 sg" "0 \<le> ls" "ls < 2 ^ 64" "0 \<le> bl" "bl < 2 ^ 64" "length d = 16"
  defines "flds \<equiv> SEAL_MAGIC @ le_bytes 8 ls @ le_bytes 8 bl @ d"
  shows "seal_footer key sc sg ls bl d
           = Some (flds @ mac16 key (WALSEAL @ ids_bytes sc sg @ flds))"
  using assms by (simp add: seal_footer_def SEAL_MAGIC_def)

lemma scan_step_seal:
  assumes ids: "u32 sc" "u32 sg" and ls: "0 \<le> ls" "ls < 2 ^ 64" and lp: "length p < 2 ^ 64"
    and ft: "seal_footer key sc sg ls (int (length p)) (take 16 (sha256 p)) = Some ft"
    and es: "\<And>e. es = Some e \<Longrightarrow> ss_last_seq e = ls \<and> ss_byte_length e = int (length p)
               \<and> ss_prefix_digest e = take 16 (sha256 p)"
  shows "scan_step (p @ ft) key sc sg es (length p) xs ls = SSealed"
proof -
  let ?d = "take 16 (sha256 p)"
  let ?f = "SEAL_MAGIC @ le_bytes 8 ls @ le_bytes 8 (int (length p)) @ ?d"
  let ?m = "mac16 key (WALSEAL @ ids_bytes sc sg @ ?f)"
  have bl: "int (length p) < 2 ^ 64" using lp by (metis of_nat_less_numeral_power_cancel_iff)
  have f: "ft = ?f @ ?m" using seal_footer_bytes [OF ids ls _ bl, of ?d key] ft by simp
  have lm: "length SEAL_MAGIC = 5" by (simp add: SEAL_MAGIC_def)
  have l: "length ft = 53" "length ?f = 37" by (simp_all add: f lm)
  have sm: "slice (p @ ft) (length p) (length p + 5) = SEAL_MAGIC"
    unfolding slice_pre by (simp add: f lm)
  have sf: "slice (p @ ft) (length p) (length p + SEAL_SIZE) = ?f"
    unfolding slice_pre using l by (simp add: f lm)
  have un: "struct_unpack SEAL ?f = [VB SEAL_MAGIC, VI ls, VI (int (length p)), VB ?d]"
    using ls bl by (simp add: layout_simps lm del: struct_unpack.simps(2))
  have smac: "slice (p @ ft) (length p + SEAL_SIZE) (length p + SEAL_SIZE + TAG_BYTES) = ?m"
    using l slice_pre2 [of p ft 37 53] by (simp add: slice_def f lm)
  have "scan_seal (p @ ft) key sc sg es (length p) ls = SSealed"
    unfolding scan_seal_def Let_def sf un smac using l es by (auto split: option.splits)
  then show ?thesis unfolding scan_step_def Let_def using sm l by simp
qed

lemma scan_step_seal_torn:
  assumes "length ft = SEAL_FOOTER_BYTES" "take 5 ft = SEAL_MAGIC" "0 < k" "k < SEAL_FOOTER_BYTES"
  shows "scan_step (p @ take k ft) key sc sg es (length p) xs ls = STail"
proof -
  have l: "length (take k ft) = k" using assms by simp
  show ?thesis
  proof (cases "5 \<le> k")
    case True
    then have "slice (p @ take k ft) (length p) (length p + 5) = SEAL_MAGIC"
      unfolding slice_pre using assms(2) by (simp add: min_def)
    then show ?thesis using l assms(4) True by (simp add: scan_step_def Let_def)
  next
    case False
    then show ?thesis using l by (simp add: scan_step_def Let_def)
  qed
qed

subsection \<open>Whole files\<close>

definition frames_bytes :: "bytes \<Rightarrow> int \<Rightarrow> int \<Rightarrow> wframe list \<Rightarrow> bytes" where
  "frames_bytes key sc sg fs = concat (map (frame_bytes key sc sg) fs)"

lemma frames_bytes_simps [simp]:
  "frames_bytes key sc sg [] = []"
  "frames_bytes key sc sg (f # fs) = frame_bytes key sc sg f @ frames_bytes key sc sg fs"
  "frames_bytes key sc sg (fs @ gs) = frames_bytes key sc sg fs @ frames_bytes key sc sg gs"
  by (simp_all add: frames_bytes_def)

fun seqs_from :: "int \<Rightarrow> wframe list \<Rightarrow> bool" where
  "seqs_from n [] \<longleftrightarrow> True"
| "seqs_from n (f # fs) \<longleftrightarrow> frame_seq f = n \<and> seqs_from (n + 1) fs"

lemma seqs_from_append [simp]:
  "seqs_from n (fs @ gs) \<longleftrightarrow> seqs_from n fs \<and> seqs_from (n + int (length fs)) gs"
  by (induction fs arbitrary: n) (auto simp: algebra_simps)

definition frames_ok :: "int \<Rightarrow> wframe list \<Rightarrow> bool" where
  "frames_ok n fs \<longleftrightarrow> (\<forall>f \<in> set fs. valid_frame f) \<and> seqs_from n fs"

lemma frames_ok_simps [simp]:
  "frames_ok n []"
  "frames_ok n (f # fs) \<longleftrightarrow> valid_frame f \<and> frame_seq f = n \<and> frames_ok (n + 1) fs"
  "frames_ok n (fs @ gs) \<longleftrightarrow> frames_ok n fs \<and> frames_ok (n + int (length fs)) gs"
  by (auto simp: frames_ok_def)

lemma frame_seq_fst: "fst (snd f) = frame_seq f"
  by (cases f) auto

lemma scan_loop_frames:
  assumes "u32 sc" "u32 sg"
  shows "frames_ok n fs \<Longrightarrow>
    scan_loop (p @ frames_bytes key sc sg fs @ r) key sc sg es (length p) n (n - 1) acc =
    scan_loop (p @ frames_bytes key sc sg fs @ r) key sc sg es
      (length p + length (frames_bytes key sc sg fs)) (n + int (length fs))
      (n + int (length fs) - 1) (acc @ fs)"
proof (induction fs arbitrary: p n acc)
  case Nil
  then show ?case by simp
next
  case (Cons f fs)
  let ?fr = "frame_bytes key sc sg f" and ?blob = "p @ frames_bytes key sc sg (f # fs) @ r"
  have v: "valid_frame f" "frame_seq f = n" "frames_ok (n + 1) fs" using Cons.prems by auto
  have l: "length ?fr = frame_len f" by (rule length_frame_bytes [OF v(1)])
  have "0 < frame_len f" using frame_len_bounds [of f] by simp
  then have o: "length p < length ?blob" using l by simp
  have "scan_step ?blob key sc sg es (length p) n (n - 1) = SFrame f (frame_len f)"
    using scan_step_frame [OF v(1) assms v(2), of p key "frames_bytes key sc sg fs @ r"] by simp
  then have "scan_loop ?blob key sc sg es (length p) n (n - 1) acc
      = scan_loop ?blob key sc sg es (length p + frame_len f) (n + 1) n (acc @ [f])"
    using o v(2) by (subst scan_loop.simps) (simp add: frame_seq_fst)
  also have "\<dots> = scan_loop ?blob key sc sg es
      (length p + frame_len f + length (frames_bytes key sc sg fs)) (n + 1 + int (length fs))
      (n + 1 + int (length fs) - 1) (acc @ f # fs)"
    using Cons.IH [OF v(3), of "p @ ?fr" "acc @ [f]"] l by simp
  finally show ?case by (simp add: l algebra_simps)
qed

text \<open>The header of a segment whose identity fits its fields.\<close>

record seg_id =
  sg_scope :: int
  sg_segment :: int
  sg_first :: int
  sg_key_id :: int
  sg_prev :: bytes

definition seg_id_ok :: "seg_id \<Rightarrow> bool" where
  "seg_id_ok s \<longleftrightarrow> u32 (sg_scope s) \<and> u32 (sg_segment s) \<and> 0 \<le> sg_first s \<and> sg_first s < MAX_SEQ \<and>
     u32 (sg_key_id s) \<and> length (sg_prev s) = 16"

definition header_bytes :: "bytes \<Rightarrow> seg_id \<Rightarrow> bytes" where
  "header_bytes key s =
     the (encode_segment_header key (sg_scope s) (sg_segment s) (sg_first s) (sg_key_id s)
            STATE_ACTIVE (sg_prev s))"

definition header_info :: "seg_id \<Rightarrow> wal_header_info" where
  "header_info s = \<lparr>whi_scope_id = sg_scope s, whi_segment_id = sg_segment s,
     whi_first_seq = sg_first s, whi_key_id = sg_key_id s, whi_prev_digest = sg_prev s,
     whi_format_version = WAL_FORMAT_VERSION\<rparr>"

definition header_fields :: "seg_id \<Rightarrow> bytes" where
  "header_fields s = WAL_MAGIC @ le_bytes 2 2 @ le_bytes 4 (sg_scope s) @ le_bytes 4 (sg_segment s)
     @ le_bytes 8 (sg_first s) @ le_bytes 4 (sg_key_id s) @ le_bytes 4 MAX_PAYLOAD
     @ le_bytes 4 MAX_RECORDS @ le_bytes 1 0 @ sg_prev s"

lemma header_bytes_eq:
  assumes "seg_id_ok s"
  shows "encode_segment_header key (sg_scope s) (sg_segment s) (sg_first s) (sg_key_id s)
           STATE_ACTIVE (sg_prev s) = Some (header_bytes key s)"
    and "header_bytes key s = header_fields s @ mac16 key (WALSEGMENT @ header_fields s)"
  using assms
  by (simp_all add: header_bytes_def encode_segment_header_def seg_id_ok_def header_fields_def
      u32_def WAL_MAGIC_def)

lemma length_header_fields: "seg_id_ok s \<Longrightarrow> length (header_fields s) = 51"
  by (simp add: header_fields_def WAL_MAGIC_def seg_id_ok_def)

lemma length_header_bytes: "seg_id_ok s \<Longrightarrow> length (header_bytes key s) = 67"
  by (simp add: header_bytes_eq length_header_fields)

lemma scan_header:
  assumes "seg_id_ok s"
  shows "scan (Some (header_bytes key s @ r)) key req (sg_scope s) (sg_segment s) es =
    scan_finish (header_bytes key s @ r) es (header_info s)
      (scan_loop (header_bytes key s @ r) key (sg_scope s) (sg_segment s) es 67
        (sg_first s) (sg_first s - 1) [])"
proof -
  let ?f = "header_fields s" and ?blob = "header_bytes key s @ r"
  have l: "length ?f = 51" by (rule length_header_fields [OF assms])
  have t: "take SEG_SIZE ?blob = ?f" using l by (simp add: header_bytes_eq(2) [OF assms])
  have m: "slice ?blob SEG_SIZE (SEG_SIZE + TAG_BYTES) = mac16 key (WALSEGMENT @ ?f)"
    using l by (simp add: header_bytes_eq(2) [OF assms] slice_def)
  have un: "struct_unpack SEG_HEADER ?f =
      [VB WAL_MAGIC, VI 2, VI (sg_scope s), VI (sg_segment s), VI (sg_first s), VI (sg_key_id s),
       VI MAX_PAYLOAD, VI MAX_RECORDS, VI 0, VB (sg_prev s)]"
    using assms
    by (simp add: header_fields_def seg_id_ok_def u32_def layout_simps WAL_MAGIC_def
        del: struct_unpack.simps(2) append.simps)
  have lb: "\<not> length ?blob < SEG_SIZE + TAG_BYTES" using length_header_bytes [OF assms] by simp
  show ?thesis
    unfolding scan_def Let_def option.case t m un
    using lb by (simp add: header_info_def)
qed

text \<open>An ACTIVE file: the header and the frames, and what may follow them.\<close>

definition wal_image :: "bytes \<Rightarrow> seg_id \<Rightarrow> wframe list \<Rightarrow> bytes" where
  "wal_image key s fs = header_bytes key s @ frames_bytes key (sg_scope s) (sg_segment s) fs"

definition next_seq_of :: "seg_id \<Rightarrow> wframe list \<Rightarrow> int" where
  "next_seq_of s fs = sg_first s + int (length fs)"

lemma scan_image:
  assumes "seg_id_ok s" "frames_ok (sg_first s) fs"
  shows "scan (Some (wal_image key s fs @ r)) key req (sg_scope s) (sg_segment s) es =
    scan_finish (wal_image key s fs @ r) es (header_info s)
      (scan_loop (wal_image key s fs @ r) key (sg_scope s) (sg_segment s) es
        (length (wal_image key s fs)) (next_seq_of s fs) (next_seq_of s fs - 1) fs)"
proof -
  have "u32 (sg_scope s)" "u32 (sg_segment s)" using assms(1) by (simp_all add: seg_id_ok_def)
  from scan_loop_frames [OF this assms(2), of "header_bytes key s" key r es "[]"]
  show ?thesis
    using scan_header [OF assms(1), of key "frames_bytes key (sg_scope s) (sg_segment s) fs @ r"]
    by (simp add: wal_image_def next_seq_of_def length_header_bytes [OF assms(1)])
qed

lemma scan_image_clean:
  assumes "seg_id_ok s" "frames_ok (sg_first s) fs"
  shows "scan (Some (wal_image key s fs)) key req (sg_scope s) (sg_segment s) None =
    \<lparr>sr_class = CLEAN, sr_frames = fs, sr_last_seq = next_seq_of s fs - 1,
     sr_consumed = length (wal_image key s fs), sr_dropped = 0, sr_sealed = False,
     sr_header = Some (header_info s)\<rparr>"
  using scan_image [OF assms, of key "[]" req None]
  by (simp add: scan_loop.simps [of _ _ _ _ _ "length (wal_image key s fs)"] scan_finish_def)

lemma scan_image_torn:
  assumes "seg_id_ok s" "frames_ok (sg_first s) fs" "0 < length t"
    "scan_step (wal_image key s fs @ t) key (sg_scope s) (sg_segment s) None
       (length (wal_image key s fs)) (next_seq_of s fs) (next_seq_of s fs - 1) = STail"
  shows "scan (Some (wal_image key s fs @ t)) key req (sg_scope s) (sg_segment s) None =
    \<lparr>sr_class = TAIL_DROPPED, sr_frames = fs, sr_last_seq = next_seq_of s fs - 1,
     sr_consumed = length (wal_image key s fs), sr_dropped = length t, sr_sealed = False,
     sr_header = Some (header_info s)\<rparr>"
  using scan_image [OF assms(1,2), of key t req None] assms(3,4)
  by (simp add: scan_loop.simps [of _ _ _ _ _ "length (wal_image key s fs)"] scan_finish_def)

lemma scan_image_frame_torn:
  assumes "seg_id_ok s" "frames_ok (sg_first s) fs" "valid_frame f" "0 < k" "k < frame_len f"
  shows "scan (Some (wal_image key s fs @ take k (frame_bytes key (sg_scope s) (sg_segment s) f)))
     key req (sg_scope s) (sg_segment s) None =
    \<lparr>sr_class = TAIL_DROPPED, sr_frames = fs, sr_last_seq = next_seq_of s fs - 1,
     sr_consumed = length (wal_image key s fs), sr_dropped = k, sr_sealed = False,
     sr_header = Some (header_info s)\<rparr>"
proof -
  let ?t = "take k (frame_bytes key (sg_scope s) (sg_segment s) f)"
  have "length ?t = k" using assms length_frame_bytes [OF assms(3)] by simp
  then show ?thesis
    using scan_image_torn [OF assms(1,2) _ scan_step_torn [OF assms(3-5)], of key req] assms(4)
    by simp
qed

text \<open>The footer the writer appends when it seals these frames.\<close>

definition footer_bytes :: "bytes \<Rightarrow> seg_id \<Rightarrow> wframe list \<Rightarrow> bytes" where
  "footer_bytes key s fs =
     the (seal_footer key (sg_scope s) (sg_segment s) (next_seq_of s fs - 1)
            (int (length (wal_image key s fs))) (take 16 (sha256 (wal_image key s fs))))"

definition sealable :: "bytes \<Rightarrow> seg_id \<Rightarrow> wframe list \<Rightarrow> bool" where
  "sealable key s fs \<longleftrightarrow> seg_id_ok s \<and> frames_ok (sg_first s) fs \<and> 1 \<le> next_seq_of s fs \<and>
     next_seq_of s fs \<le> MAX_SEQ \<and> length (wal_image key s fs) < 2 ^ 64"

lemma footer_bytes_eq:
  assumes "sealable key s fs"
  shows "seal_footer key (sg_scope s) (sg_segment s) (next_seq_of s fs - 1)
      (int (length (wal_image key s fs))) (take 16 (sha256 (wal_image key s fs)))
      = Some (footer_bytes key s fs)"
    and "length (footer_bytes key s fs) = SEAL_FOOTER_BYTES"
    and "take 5 (footer_bytes key s fs) = SEAL_MAGIC"
proof -
  let ?n = "length (wal_image key s fs)"
  have "int ?n < 2 ^ 64"
    using assms unfolding sealable_def by (metis of_nat_less_numeral_power_cancel_iff)
  then have *: "\<exists>x. seal_footer key (sg_scope s) (sg_segment s) (next_seq_of s fs - 1) (int ?n)
      (take 16 (sha256 (wal_image key s fs))) = Some x
      \<and> length x = SEAL_FOOTER_BYTES \<and> take 5 x = SEAL_MAGIC"
    using assms seal_footer_bytes [of "sg_scope s" "sg_segment s" "next_seq_of s fs - 1" "int ?n"]
    by (simp add: sealable_def seg_id_ok_def SEAL_MAGIC_def)
  then show "seal_footer key (sg_scope s) (sg_segment s) (next_seq_of s fs - 1) (int ?n)
      (take 16 (sha256 (wal_image key s fs))) = Some (footer_bytes key s fs)"
    and "length (footer_bytes key s fs) = SEAL_FOOTER_BYTES"
    and "take 5 (footer_bytes key s fs) = SEAL_MAGIC"
    by (auto simp: footer_bytes_def)
qed

definition seal_of :: "bytes \<Rightarrow> seg_id \<Rightarrow> wframe list \<Rightarrow> segment_seal" where
  "seal_of key s fs = \<lparr>ss_last_seq = next_seq_of s fs - 1,
     ss_byte_length = int (length (wal_image key s fs)),
     ss_prefix_digest = take 16 (sha256 (wal_image key s fs))\<rparr>"

lemma scan_image_sealed:
  assumes "sealable key s fs" "es = None \<or> es = Some (seal_of key s fs)"
  shows "scan (Some (wal_image key s fs @ footer_bytes key s fs)) key req
      (sg_scope s) (sg_segment s) es =
    \<lparr>sr_class = CLEAN, sr_frames = fs, sr_last_seq = next_seq_of s fs - 1,
     sr_consumed = length (wal_image key s fs) + SEAL_FOOTER_BYTES, sr_dropped = 0,
     sr_sealed = True, sr_header = Some (header_info s)\<rparr>"
proof -
  have ok: "seg_id_ok s" "frames_ok (sg_first s) fs" using assms(1) by (simp_all add: sealable_def)
  have "scan_step (wal_image key s fs @ footer_bytes key s fs) key (sg_scope s) (sg_segment s) es
      (length (wal_image key s fs)) (next_seq_of s fs) (next_seq_of s fs - 1) = SSealed"
    using assms(2) assms(1)
    by (intro scan_step_seal footer_bytes_eq)
      (auto simp: sealable_def seg_id_ok_def seal_of_def)
  then show ?thesis
    using scan_image [OF ok, of key "footer_bytes key s fs" req es] footer_bytes_eq(2) [OF assms(1)]
    by (simp add: scan_loop.simps [of _ _ _ _ _ "length (wal_image key s fs)"] scan_finish_def)
qed

lemma scan_image_seal_torn:
  assumes "sealable key s fs" "0 < k" "k < SEAL_FOOTER_BYTES"
  shows "scan (Some (wal_image key s fs @ take k (footer_bytes key s fs))) key req
      (sg_scope s) (sg_segment s) None =
    \<lparr>sr_class = TAIL_DROPPED, sr_frames = fs, sr_last_seq = next_seq_of s fs - 1,
     sr_consumed = length (wal_image key s fs), sr_dropped = k, sr_sealed = False,
     sr_header = Some (header_info s)\<rparr>"
proof -
  have ok: "seg_id_ok s" "frames_ok (sg_first s) fs" using assms(1) by (simp_all add: sealable_def)
  have l: "length (take k (footer_bytes key s fs)) = k"
    using footer_bytes_eq(2) [OF assms(1)] assms(3) by simp
  have "0 < length (take k (footer_bytes key s fs))" unfolding l by (rule assms(2))
  from scan_image_torn [OF ok this scan_step_seal_torn [OF footer_bytes_eq(2,3) [OF assms(1)]
          assms(2,3)], of key req]
  show ?thesis unfolding l .
qed

subsection \<open>Only canonical encodings are accepted\<close>

lemma le_bytes_take: "k \<le> length b \<Longrightarrow> le_bytes k (le_int (take k b)) = take k b"
  using le_bytes_le_int [of "take k b"] by simp

lemma le_int_take_u32: "4 \<le> length b \<Longrightarrow> u32 (le_int (take 4 b))"
  using le_int_bound [of "take 4 b"] by (simp add: u32_def)

lemma unpack_fixed:
  assumes "FIXED_SIZE \<le> length b"
  shows "\<exists>rv opc fl seq oid fid fver plen.
    struct_unpack FRAME_FIXED b = [VI rv, VI opc, VI fl, VI seq, VB oid, VI fid, VI fver, VI plen]
    \<and> length oid = 16 \<and> u32 fver \<and>
    take 44 b = le_bytes 2 rv @ le_bytes 1 opc @ le_bytes 1 fl @ le_bytes 8 seq @ oid @ le_bytes 8 fid
       @ le_bytes 4 fver @ le_bytes 4 plen"
proof -
  have p: "struct_pack FRAME_FIXED (struct_unpack FRAME_FIXED b) = Some (take 44 b)"
    using struct_pack_unpack [of FRAME_FIXED b] assms by simp
  let ?x = "\<lambda>n k. le_int (take n (drop k b))"
  have u: "struct_unpack FRAME_FIXED b = [VI (?x 2 0), VI (?x 1 2), VI (?x 1 3), VI (?x 8 4),
      VB (take 16 (drop 12 b)), VI (?x 8 28), VI (?x 4 36), VI (?x 4 40)]"
    by (simp, simp add: numeral_eq_Suc)
  have l: "length (take 16 (drop 12 b)) = 16" using assms by simp
  have f: "u32 (?x 4 36)" using le_int_take_u32 [of "drop 36 b"] assms by simp
  have "take 44 b = le_bytes 2 (?x 2 0) @ le_bytes 1 (?x 1 2) @ le_bytes 1 (?x 1 3)
      @ le_bytes 8 (?x 8 4) @ take 16 (drop 12 b) @ le_bytes 8 (?x 8 28) @ le_bytes 4 (?x 4 36)
      @ le_bytes 4 (?x 4 40)"
    using p l unfolding u by (auto split: if_splits option.splits)
  then show ?thesis using u l f by blast
qed

lemma scan_frame_inv:
  assumes sf: "scan_frame key sc sg fr t xs = SFrame f len"
    and t: "MIN_FRAME \<le> t" and l: "length fr = nat t"
    and hd: "take 8 fr = le_bytes 4 t @ le_bytes 4 (t XOR U32_MAX)"
  shows "valid_frame f \<and> fr = frame_bytes key sc sg f \<and> frame_seq f = xs \<and> len = length fr"
proof -
  have "FIXED_SIZE \<le> length (drop 8 fr)" using t l by simp
  then obtain rv opc fl seq oid fid fver plen where
    un: "struct_unpack FRAME_FIXED (drop 8 fr)
           = [VI rv, VI opc, VI fl, VI seq, VB oid, VI fid, VI fver, VI plen]"
    and lo: "length oid = 16" and fv: "u32 fver"
    and tk: "take 44 (drop 8 fr) = le_bytes 2 rv @ le_bytes 1 opc @ le_bytes 1 fl @ le_bytes 8 seq
       @ oid @ le_bytes 8 fid @ le_bytes 4 fver @ le_bytes 4 plen"
    using unpack_fixed by blast
  define be where "be = 52 + nat plen"
  define body where "body = take be fr"
  from sf [unfolded scan_frame_def Let_def un]
  have c: "fi (struct_unpack [FU 4] (drop (nat t - 4) fr)) 0 = t" "rv = 2" "plen = t - MIN_FRAME"
    "crc32 body = fi (struct_unpack [FU 4] (drop be fr)) 0"
    "frame_mac key sc sg (take (be + 4) fr) = slice fr (be + 4) (be + 4 + TAG_BYTES)"
    "seq = xs" "canonical_frame_ok opc fl seq fid fver plen" "len = nat t"
    and fq: "f = (the (code_op opc), seq, oid, fid, fver,
      if the (code_op opc) = OP_PUT then Some (value_of (slice fr 52 be)) else None)"
    by (auto simp: be_def body_def split: if_splits)
  have bt: "be + 24 = nat t" using c(3) t by (simp add: be_def)
  define pl where "pl = slice fr 52 be"
  have lpl: "length pl = nat plen" using bt l by (simp add: pl_def be_def)
  have body: "body = le_bytes 4 t @ le_bytes 4 (t XOR U32_MAX)
      @ fixed_bytes opc seq oid fid fver plen @ pl"
  proof -
    have "take be fr = take 8 fr @ take 44 (drop 8 fr) @ take (nat plen) (drop 52 fr)"
    proof -
      have "take be fr = take (8 + (44 + nat plen)) fr" by (simp add: be_def)
      then show ?thesis by (simp only: take_add drop_drop) simp
    qed
    moreover have "fl = 0" using c(7) by (auto simp: canonical_frame_ok_def split: option.splits if_splits)
    ultimately show ?thesis
      unfolding body_def hd tk using c(2) by (simp add: fixed_bytes_def pl_def slice_def be_def)
  qed
  have crc: "take (be + 4) fr = body @ le_bytes 4 (crc32 body)"
    using c(4) bt l by (simp add: take_add body_def le_bytes_take)
  have tail: "drop (be + 20) fr = le_bytes 4 t"
  proof -
    have "le_int (take 4 (drop (be + 20) fr)) = t" using c(1) bt [symmetric] by (simp add: add.commute)
    moreover have "take 4 (drop (be + 20) fr) = drop (be + 20) fr" using bt l by simp
    ultimately show ?thesis using le_bytes_take [of 4 "drop (be + 20) fr"] bt l by simp
  qed
  have "fr = take (be + 4) fr @ slice fr (be + 4) (be + 4 + TAG_BYTES) @ drop (be + 20) fr"
    using slice_split [of "be + 4" "be + 20" fr] by (simp add: add.commute)
  then have fr: "fr = close_frame key sc sg t body"
    unfolding close_frame_def Let_def using crc tail c(5) by simp
  have vb: "length b = 4 \<Longrightarrow> value_of b = le_int b" for b by (simp add: value_of_def)
  consider (put) "opc = 1" "plen = 4" | (del) "opc = 2" "plen = 0"
    using c(7) by (auto simp: canonical_frame_ok_def code_op_def split: if_splits)
  then show ?thesis
  proof cases
    case put
    then have pl4: "length pl = 4" using lpl by simp
    have f: "f = (OP_PUT, seq, oid, fid, fver, Some (le_int pl))"
      using fq put vb [OF pl4] by (simp add: code_op_def pl_def)
    have fl: "t = int (frame_len f)" using c(3) put by (simp add: f frame_len_def)
    have "u32 (le_int pl)" using le_int_bound [of pl] pl4 by (simp add: u32_def)
    then have "valid_frame f"
      using c(7) lo fv by (auto simp: f canonical_frame_ok_def split: option.splits if_splits)
    moreover have "fr = frame_bytes key sc sg f"
      unfolding frame_bytes_def fl [symmetric] fr body body_bytes_def
      using put pl4 le_bytes_le_int [of pl] by (simp add: f)
    ultimately show ?thesis using c(6,8) l by (simp add: f)
  next
    case del
    then have pl0: "pl = []" using lpl by simp
    have f: "f = (OP_DELETE, seq, oid, fid, fver, None)"
      using fq del by (simp add: code_op_def)
    have fl: "t = int (frame_len f)" using c(3) del by (simp add: f frame_len_def)
    have "valid_frame f"
      using c(7) lo fv by (auto simp: f canonical_frame_ok_def split: option.splits if_splits)
    moreover have "fr = frame_bytes key sc sg f"
      unfolding frame_bytes_def fl [symmetric] fr body body_bytes_def
      using del pl0 by (simp add: f)
    ultimately show ?thesis using c(6,8) l by (simp add: f)
  qed
qed

lemma scan_step_inv:
  assumes ids: "u32 sc" "u32 sg" and off: "off \<le> length blob"
    and st: "scan_step blob key sc sg es off xs ls = SFrame f len"
  shows "valid_frame f \<and> frame_seq f = xs \<and> take (off + len) blob = take off blob @ frame_bytes key sc sg f"
proof -
  let ?b = "drop off blob" and ?t = "le_int (take 4 (drop off blob))"
  have st': "scan_frame key sc sg (slice blob off (off + nat ?t)) ?t xs = SFrame f len"
    and g: "?t XOR U32_MAX = le_int (take 4 (drop 4 ?b))" "MIN_FRAME \<le> ?t"
      "\<not> int (length blob - off) < ?t" "\<not> length blob - off < 8"
    using st by (auto simp: scan_step_def Let_def scan_seal_no_frame add.commute split: if_splits)
  let ?fr = "slice blob off (off + nat ?t)"
  have l: "length ?fr = nat ?t" using g off by simp
  have "take 8 ?fr = take (4 + 4) ?b" using g by (simp add: slice_def min_def)
  also have "\<dots> = take 4 ?b @ take 4 (drop 4 ?b)" by (rule take_add)
  also have "\<dots> = le_bytes 4 ?t @ le_bytes 4 (?t XOR U32_MAX)"
    unfolding g(1) using g(4) by (simp add: le_bytes_take)
  finally have hd: "take 8 ?fr = le_bytes 4 ?t @ le_bytes 4 (?t XOR U32_MAX)" .
  have "valid_frame f \<and> ?fr = frame_bytes key sc sg f \<and> frame_seq f = xs \<and> len = length ?fr"
    by (rule scan_frame_inv [OF st' g(2) l hd])
  moreover have "take (off + nat ?t) blob = take off blob @ ?fr"
    by (simp add: take_add slice_def)
  ultimately show ?thesis using l by metis
qed

lemma scan_seal_inv:
  assumes ids: "u32 sc" "u32 sg" and mg: "slice blob off (off + 5) = SEAL_MAGIC"
    and l: "SEAL_FOOTER_BYTES \<le> length blob - off"
    and st: "scan_seal blob key sc sg es off ls = SSealed"
  shows "seal_footer key sc sg ls (int off) (take 16 (sha256 (take off blob))) = Some (drop off blob)
    \<and> (\<forall>e. es = Some e \<longrightarrow> ss_last_seq e = ls \<and> ss_byte_length e = int off
            \<and> ss_prefix_digest e = take 16 (sha256 (take off blob)))"
proof -
  let ?s = "slice blob off (off + SEAL_SIZE)" and ?d = "take 16 (sha256 (take off blob))"
  have ls: "length ?s = 37" using l by simp
  have "take 5 ?s = SEAL_MAGIC" using mg by (simp add: slice_def)
  then have un: "struct_unpack SEAL ?s =
      [VB SEAL_MAGIC, VI (fi (struct_unpack SEAL ?s) 1), VI (fi (struct_unpack SEAL ?s) 2),
       VB (fb (struct_unpack SEAL ?s) 3)]"
    by simp
  from st have c: "mac16 key (WALSEAL @ ids_bytes sc sg @ ?s)
      = slice blob (off + SEAL_SIZE) (off + SEAL_SIZE + TAG_BYTES)"
    "off + SEAL_SIZE + TAG_BYTES = length blob"
    "fi (struct_unpack SEAL ?s) 2 = int off" "fi (struct_unpack SEAL ?s) 1 = ls"
    "fb (struct_unpack SEAL ?s) 3 = ?d"
    and e: "\<forall>e. es = Some e \<longrightarrow> ss_last_seq e = ls \<and> ss_byte_length e = int off \<and> ss_prefix_digest e = ?d"
    unfolding scan_seal_def Let_def by (auto split: if_splits option.splits)
  have "struct_pack SEAL (struct_unpack SEAL ?s) = Some ?s"
    using struct_pack_unpack [of SEAL ?s] ls by simp
  then have "struct_pack SEAL [VB SEAL_MAGIC, VI ls, VI (int off), VB ?d] = Some ?s"
    using un c(3-5) by metis
  moreover have "drop off blob = ?s @ slice blob (off + SEAL_SIZE) (off + SEAL_SIZE + TAG_BYTES)"
    using c(2) by (simp add: slice_def)
      (metis append_take_drop_id drop_drop add.commute)
  ultimately show ?thesis using ids c(1) e by (simp add: seal_footer_def)
qed

lemma scan_frame_not_sealed: "scan_frame key sc sg fr t xs \<noteq> SSealed"
  unfolding scan_frame_def Let_def by (simp split: if_split)

lemma scan_step_sealed:
  "scan_step blob key sc sg es off xs ls = SSealed \<Longrightarrow>
   slice blob off (off + 5) = SEAL_MAGIC \<and> SEAL_FOOTER_BYTES \<le> length blob - off \<and>
   scan_seal blob key sc sg es off ls = SSealed"
  unfolding scan_step_def Let_def
  by (simp add: scan_frame_not_sealed split: if_split_asm)

lemma scan_loop_sound:
  "u32 sc \<Longrightarrow> u32 sg \<Longrightarrow> scan_loop blob key sc sg es off n ls acc = EndBreak fs ls' off' tb sl \<Longrightarrow>
    off \<le> length blob \<Longrightarrow> take off blob = h @ frames_bytes key sc sg acc \<Longrightarrow>
    frames_ok n0 acc \<Longrightarrow> n = n0 + int (length acc) \<Longrightarrow> ls = n - 1 \<Longrightarrow>
    frames_ok n0 fs \<and> ls' = n0 + int (length fs) - 1 \<and> off' \<le> length blob \<and>
    (if sl then off' = length blob \<and> tb = 0 \<and>
       (\<exists>ft. blob = (h @ frames_bytes key sc sg fs) @ ft \<and>
         seal_footer key sc sg ls' (int (length (h @ frames_bytes key sc sg fs)))
           (take 16 (sha256 (h @ frames_bytes key sc sg fs))) = Some ft \<and>
         (\<forall>e. es = Some e \<longrightarrow> ss_last_seq e = ls' \<and>
            ss_byte_length e = int (length (h @ frames_bytes key sc sg fs)) \<and>
            ss_prefix_digest e = take 16 (sha256 (h @ frames_bytes key sc sg fs))))
     else take off' blob = h @ frames_bytes key sc sg fs \<and> tb = length blob - off')"
proof (induction blob key sc sg es off n ls acc rule: scan_loop.induct)
  case (1 blob key sc sg es off n ls acc)
  note ids = "1.prems"(1,2)
  note loop = "1.prems"(3)
  show ?case
  proof (cases "off < length blob")
    case False
    then show ?thesis using "1.prems" by (subst (asm) scan_loop.simps) auto
  next
    case True
    show ?thesis
    proof (cases "scan_step blob key sc sg es off n ls")
      case (SFrame f len)
      note st = scan_step_inv [OF ids "1.prems"(4) SFrame]
      have le: "off + len \<le> length blob" using scan_step_pos [OF SFrame] by simp
      have lp: "scan_loop blob key sc sg es (off + len) (n + 1) (fst (snd f)) (acc @ [f])
          = EndBreak fs ls' off' tb sl"
        using loop True SFrame by (subst (asm) scan_loop.simps) simp
      show ?thesis
        by (rule "1.IH" [OF True SFrame ids lp le])
          (use ids st "1.prems" in \<open>auto simp: frame_seq_fst\<close>)
    next
      case SSealed
      have e: "fs = acc" "ls' = ls" "off' = length blob" "tb = 0" "sl"
        using loop True SSealed by (subst (asm) scan_loop.simps, simp)+
      have mg: "slice blob off (off + 5) = SEAL_MAGIC" "SEAL_FOOTER_BYTES \<le> length blob - off"
        "scan_seal blob key sc sg es off ls = SSealed"
        using SSealed
        by (simp_all add: scan_step_sealed)
      have lp: "length (h @ frames_bytes key sc sg acc) = off"
        using "1.prems"(4,5) by (metis length_take min.absorb2)
      have "seal_footer key sc sg ls (int (length (h @ frames_bytes key sc sg acc)))
          (take 16 (sha256 (h @ frames_bytes key sc sg acc))) = Some (drop off blob)
        \<and> (\<forall>e. es = Some e \<longrightarrow> ss_last_seq e = ls \<and>
            ss_byte_length e = int (length (h @ frames_bytes key sc sg acc)) \<and>
            ss_prefix_digest e = take 16 (sha256 (h @ frames_bytes key sc sg acc)))"
        using scan_seal_inv [OF ids mg] unfolding lp "1.prems"(5) .
      moreover have "blob = h @ frames_bytes key sc sg acc @ drop off blob"
        using append_take_drop_id [of off blob] "1.prems"(5) by simp
      ultimately show ?thesis using "1.prems"(6-8) e(5) unfolding e(1-4) lp by simp
    next
      case STail
      then show ?thesis using "1.prems" True by (subst (asm) scan_loop.simps) auto
    next
      case SCorrupt
      then show ?thesis using loop True by (subst (asm) scan_loop.simps) simp
    next
      case SMissing
      then show ?thesis using loop True by (subst (asm) scan_loop.simps) simp
    qed
  qed
qed

lemma scan_loop_return: "scan_loop blob key sc sg es off n ls acc = EndReturn c fs l o' \<Longrightarrow>
   c = CORRUPT_COMMITTED_PREFIX \<or> c = MISSING_COMMITTED_PREFIX"
proof (induction blob key sc sg es off n ls acc rule: scan_loop.induct)
  case (1 blob key sc sg es off n ls acc)
  show ?case
  proof (cases "off < length blob")
    case True
    then show ?thesis
      using "1.prems" "1.IH" by (subst (asm) scan_loop.simps) (simp split: scan_step.splits)
  next
    case False
    then show ?thesis using "1.prems" by (subst (asm) scan_loop.simps) simp
  qed
qed

text \<open>What an accepted file is, byte for byte.\<close>

definition accepted_as :: "bytes \<Rightarrow> int \<Rightarrow> int \<Rightarrow> bytes \<Rightarrow> segment_seal option \<Rightarrow> scan_result \<Rightarrow> bool" where
  "accepted_as key sc sg blob es r \<longleftrightarrow>
     (\<exists>hi. sr_header r = Some hi \<and> whi_scope_id hi = sc \<and> whi_segment_id hi = sg \<and>
       frames_ok (whi_first_seq hi) (sr_frames r) \<and>
       sr_last_seq r = whi_first_seq hi + int (length (sr_frames r)) - 1) \<and>
     slice blob 51 67 = mac16 key (WALSEGMENT @ take 51 blob) \<and>
     (let body = take 67 blob @ frames_bytes key sc sg (sr_frames r) in
       (if sr_sealed r then sr_consumed r = length blob \<and> sr_dropped r = 0 \<and>
          (\<exists>ft. blob = body @ ft \<and>
             seal_footer key sc sg (sr_last_seq r) (int (length body)) (take 16 (sha256 body)) = Some ft)
        else take (sr_consumed r) blob = body \<and> sr_consumed r + sr_dropped r = length blob \<and>
          (sr_class r = CLEAN \<longleftrightarrow> sr_dropped r = 0)) \<and>
       (\<forall>e. es = Some e \<longrightarrow> sr_class r = CLEAN \<and> ss_last_seq e = sr_last_seq r \<and>
          ss_byte_length e = int (length body) \<and> ss_prefix_digest e = take 16 (sha256 body)))"

lemma scan_accepted:
  assumes c: "sr_class (scan (Some blob) key req sc sg es) \<in> {CLEAN, TAIL_DROPPED}"
  shows "accepted_as key sc sg blob es (scan (Some blob) key req sc sg es)"
proof -
  let ?r = "scan (Some blob) key req sc sg es"
  define x where "x = struct_unpack SEG_HEADER (take SEG_SIZE blob)"
  define hi where "hi = \<lparr>whi_scope_id = fi x 2, whi_segment_id = fi x 3, whi_first_seq = fi x 4,
    whi_key_id = fi x 5, whi_prev_digest = fb x 9, whi_format_version = fi x 1\<rparr>"
  define e where "e = scan_loop blob key sc sg es 67 (fi x 4) (fi x 4 - 1) []"
  have c': "sr_class ?r \<noteq> CORRUPT_COMMITTED_PREFIX" "sr_class ?r \<noteq> INCOMPATIBLE"
    using c by auto
  have sf [simp]: "sr_class (scan_fail k fr l o') = k" for k fr l o' by (simp add: scan_fail_def)
  have r: "?r = (if length blob < SEG_SIZE + TAG_BYTES then scan_fail CORRUPT_COMMITTED_PREFIX [] 0 0
      else if fb x 0 \<noteq> WAL_MAGIC then scan_fail CORRUPT_COMMITTED_PREFIX [] 0 0
      else if fi x 1 \<noteq> 2 then scan_fail INCOMPATIBLE [] 0 0
      else if mac16 key (WALSEGMENT @ take SEG_SIZE blob) \<noteq> slice blob SEG_SIZE (SEG_SIZE + TAG_BYTES)
        then scan_fail CORRUPT_COMMITTED_PREFIX [] 0 0
      else if fi x 2 \<noteq> sc \<or> fi x 3 \<noteq> sg then scan_fail CORRUPT_COMMITTED_PREFIX [] 0 0
      else if fi x 6 > MAX_PAYLOAD \<or> fi x 7 > MAX_RECORDS \<or> fi x 8 \<notin> {STATE_ACTIVE, STATE_SEALED}
        then scan_fail CORRUPT_COMMITTED_PREFIX [] 0 0
      else scan_finish blob es hi e)"
    unfolding scan_def Let_def option.case x_def [symmetric] hi_def e_def by simp
  have g: "\<not> length blob < SEG_SIZE + TAG_BYTES"
    "mac16 key (WALSEGMENT @ take SEG_SIZE blob) = slice blob SEG_SIZE (SEG_SIZE + TAG_BYTES)"
    "fi x 2 = sc" "fi x 3 = sg" and r: "?r = scan_finish blob es hi e"
    using c' unfolding r by (simp_all split: if_split_asm) blast
  have ids: "u32 sc" "u32 sg"
    using g(1) le_int_take_u32 [of "drop 6 (take 51 blob)"] le_int_take_u32 [of "drop 10 (take 51 blob)"]
    by (auto simp flip: g(3,4) simp: x_def)
  obtain fs ls off tb sl where e: "e = EndBreak fs ls off tb sl"
    using c r scan_loop_return [of blob key sc sg es 67 "fi x 4" "fi x 4 - 1" "[]"]
    by (cases e) (auto simp: scan_finish_def scan_fail_def e_def)
  define body where "body = take 67 blob @ frames_bytes key sc sg fs"
  note S = scan_loop_sound [OF ids e [unfolded e_def], of "take 67 blob" "fi x 4", folded body_def]
  have p: "67 \<le> length blob" "take 67 blob = take 67 blob @ frames_bytes key sc sg []"
    "frames_ok (fi x 4) []" "fi x 4 = fi x 4 + int (length [])" "fi x 4 - 1 = fi x 4 - 1"
    using g(1) by simp_all
  have s: "frames_ok (fi x 4) fs" "ls = fi x 4 + int (length fs) - 1" "off \<le> length blob"
    "if sl then off = length blob \<and> tb = 0 \<and>
       (\<exists>ft. blob = body @ ft \<and>
         seal_footer key sc sg ls (int (length body)) (take 16 (sha256 body)) = Some ft \<and>
         (\<forall>e. es = Some e \<longrightarrow> ss_last_seq e = ls \<and> ss_byte_length e = int (length body) \<and>
            ss_prefix_digest e = take 16 (sha256 body)))
     else take off blob = body \<and> tb = length blob - off"
    using S [OF p] by - (elim conjE, assumption)+
  show ?thesis
  proof (cases sl)
    case True
    then have "?r = \<lparr>sr_class = CLEAN, sr_frames = fs, sr_last_seq = ls, sr_consumed = off,
        sr_dropped = 0, sr_sealed = True, sr_header = Some hi\<rparr>"
      by (simp add: r e scan_finish_def)
    then show ?thesis
      using s True g by (auto simp: accepted_as_def Let_def body_def [symmetric] hi_def)
  next
    case False
    have "sr_class (scan_finish blob es hi (EndBreak fs ls off tb sl)) \<noteq> MISSING_COMMITTED_PREFIX"
      using c unfolding r e by auto
    then have ok: "es = None \<or> (\<exists>d. es = Some d \<and> off = length blob \<and> int (length blob) = ss_byte_length d
        \<and> ls = ss_last_seq d \<and> take 16 (sha256 (take (nat (ss_byte_length d)) blob)) = ss_prefix_digest d)"
      using s(3) False by (cases es) (auto simp: scan_finish_def scan_fail_def Let_def split: if_splits)
    then have "?r = \<lparr>sr_class = (if off < length blob then TAIL_DROPPED else CLEAN), sr_frames = fs,
        sr_last_seq = ls, sr_consumed = off, sr_dropped = tb, sr_sealed = False, sr_header = Some hi\<rparr>"
      using False by (auto simp: r e scan_finish_def Let_def)
    moreover have "\<And>d. es = Some d \<Longrightarrow> off = length blob \<and> ss_last_seq d = ls \<and>
        ss_byte_length d = int (length body) \<and> ss_prefix_digest d = take 16 (sha256 body)"
      using ok s(4) False by auto
    ultimately show ?thesis
      using s False g by (auto simp: accepted_as_def Let_def body_def [symmetric] hi_def)
  qed
qed

end
