(* ===== verification/Reducer.thy ===== *)
theory Reducer
  imports IndexOps WalScan
begin

section \<open>Replay: the reducer and recovery (\<open>horizon_wal.py\<close>)\<close>

text \<open>
  \<open>ReducerState\<close> is the one authority that turns frames into an L0 index and a retry
  memory; \<open>reduce_frames\<close> and \<open>recover\<close> are its wrappers. The model keeps every
  field of the Python object; the two builders are options, \<open>None\<close> once they were
  discarded. An exception (\<open>struct.error\<close> out of \<open>content_digest\<close>, a call on a
  discarded builder) is the left side of the result.
\<close>

datatype rclass =
  REDUCE_OK | REDUCE_CONFLICT | REDUCE_TXID_CONFLICT | REDUCE_COVERAGE | REDUCE_LIMIT
| REDUCE_SEAL | REDUCE_STATE

datatype rexn = LogExn exn | AttributeError

record reducer_limits =
  rl_max_segments :: nat
  rl_max_total_frames :: nat
  rl_max_total_wal_bytes :: nat
  rl_max_frames_per_segment :: nat
  rl_max_segment_bytes :: nat

definition UNBOUNDED_REDUCER_LIMITS :: reducer_limits where
  "UNBOUNDED_REDUCER_LIMITS =
     \<lparr>rl_max_segments = 2 ^ 62, rl_max_total_frames = 2 ^ 62, rl_max_total_wal_bytes = 2 ^ 62,
      rl_max_frames_per_segment = 2 ^ 62, rl_max_segment_bytes = 2 ^ 62\<rparr>"

record ('wb, 'tb) reducer =
  rs_base :: base_view
  rs_wal :: "'wb option"
  rs_tx :: "'tb option"
  rs_initial_seq :: int
  rs_target_seq :: int
  rs_expected_next :: int
  rs_applied :: nat
  rs_last_applied :: int
  rs_limits :: reducer_limits
  rs_seg_count :: nat
  rs_prev_segment_id :: int
  rs_total_frames :: nat
  rs_total_bytes :: nat
  rs_terminal :: bool
  rs_class :: rclass
  rs_finished :: bool
  rs_legacy :: bool

definition reducer_begin ::
  "('w, 'wb, 't, 'tb) index_ops \<Rightarrow> base_view option \<Rightarrow> int \<Rightarrow> int \<Rightarrow> reducer_limits
    \<Rightarrow> ('wb, 'tb) reducer" where
  "reducer_begin ops base initial_seq target_seq limits =
     \<lparr>rs_base = (case base of None \<Rightarrow> EmptyBaseView | Some b \<Rightarrow> b),
      rs_wal = Some (io_wal_begin ops (io_wal_new ops)),
      rs_tx = Some (io_tx_begin ops (io_tx_new ops)),
      rs_initial_seq = initial_seq, rs_target_seq = target_seq,
      rs_expected_next = initial_seq + 1, rs_applied = 0, rs_last_applied = initial_seq,
      rs_limits = limits, rs_seg_count = 0, rs_prev_segment_id = -1, rs_total_frames = 0,
      rs_total_bytes = 0, rs_terminal = False, rs_class = REDUCE_OK, rs_finished = False,
      rs_legacy = False\<rparr>"

text \<open>\<open>_to_terminal\<close>: the step result carries the classification (its reason is a message).\<close>

definition to_terminal :: "('wb, 'tb) reducer \<Rightarrow> rclass \<Rightarrow> rclass \<times> ('wb, 'tb) reducer" where
  "to_terminal st c =
     (c, st\<lparr>rs_terminal := True, rs_class := c, rs_wal := None, rs_tx := None\<rparr>)"

text \<open>The version line a frame meets: the L0 first, else the base; \<open>None\<close> when the base abstains.\<close>

definition current_line :: "vline option \<Rightarrow> base_view \<Rightarrow> int \<Rightarrow> vline option option" where
  "current_line l0 base fact_id =
     (case l0 of
        Some l \<Rightarrow> Some (Some l)
      | None \<Rightarrow>
          (case bv_lookup base fact_id of
             BASE_ABSTAIN \<Rightarrow> None
           | BASE_ABSENT \<Rightarrow> Some None
           | VersionedFact v op x \<Rightarrow> Some (Some (v, op, x))))"

definition apply_one ::
  "('w, 'wb, 't, 'tb) index_ops \<Rightarrow> ('wb, 'tb) reducer \<Rightarrow> wframe
    \<Rightarrow> rexn + (rclass option \<times> ('wb, 'tb) reducer)" where
  "apply_one ops st fr =
     (case fr of (op, seq, op_id, fact_id, fver, value) \<Rightarrow>
      (case content_digest op fact_id fver value of
         Inl e \<Rightarrow> Inl (LogExn e)
       | Inr digest \<Rightarrow>
      (case (rs_wal st, rs_tx st) of
         (Some wb, Some tb) \<Rightarrow>
           (if io_check ops tb op_id digest \<noteq> TxNew then Inr (Some REDUCE_TXID_CONFLICT, st)
            else if bv_dedup_probe (rs_base st) op_id digest \<noteq> PNew
              then Inr (Some REDUCE_TXID_CONFLICT, st)
            else
              (case current_line (io_get ops wb fact_id) (rs_base st) fact_id of
                 None \<Rightarrow> Inr (Some REDUCE_CONFLICT, st)
               | Some cur \<Rightarrow>
                   if preflight cur op fver value \<noteq> Applied then Inr (Some REDUCE_CONFLICT, st)
                   else Inr (None, st\<lparr>rs_wal := Some (snd (io_apply ops wb fact_id fver op value)),
                                      rs_tx := Some (io_record ops tb op_id digest seq),
                                      rs_applied := rs_applied st + 1,
                                      rs_last_applied := seq\<rparr>)))
       | _ \<Rightarrow> Inl AttributeError)))"

subsection \<open>Feeding segments\<close>

record segment_token =
  st_sealed_by_store :: bool   \<comment> \<open>\<open>segment.seal is WAL_SEGMENT_SEAL\<close>\<close>
  st_frames :: "wframe list"
  st_byte_length :: nat

record segment_desc =
  sd_ordinal :: nat
  sd_segment_id :: int
  sd_first_seq :: int
  sd_record_count :: nat

fun feed_loop ::
  "('w, 'wb, 't, 'tb) index_ops \<Rightarrow> ('wb, 'tb) reducer \<Rightarrow> wframe list
    \<Rightarrow> rexn + (rclass option \<times> ('wb, 'tb) reducer)" where
  "feed_loop ops st [] = Inr (None, st)"
| "feed_loop ops st (fr # frs) =
     (let seq = fst (snd fr)
      in if seq \<noteq> rs_expected_next st then Inr (Some REDUCE_COVERAGE, st)
         else if seq > rs_target_seq st then Inr (Some REDUCE_COVERAGE, st)
         else (case apply_one ops st fr of
                 Inl e \<Rightarrow> Inl e
               | Inr (Some c, st) \<Rightarrow> Inr (Some c, st)
               | Inr (None, st) \<Rightarrow>
                   feed_loop ops (st\<lparr>rs_expected_next := rs_expected_next st + 1\<rparr>) frs))"

definition feed_segment ::
  "('w, 'wb, 't, 'tb) index_ops \<Rightarrow> ('wb, 'tb) reducer \<Rightarrow> segment_token \<Rightarrow> segment_desc
    \<Rightarrow> rexn + (rclass \<times> ('wb, 'tb) reducer)" where
  "feed_segment ops st segment d =
     (let frames = st_frames segment; lim = rs_limits st
      in if rs_terminal st then Inr (rs_class st, st)
         else if rs_finished st then Inr (to_terminal st REDUCE_STATE)
         else if \<not> st_sealed_by_store segment then Inr (to_terminal st REDUCE_SEAL)
         else if sd_ordinal d \<noteq> rs_seg_count st then Inr (to_terminal st REDUCE_COVERAGE)
         else if sd_segment_id d \<le> rs_prev_segment_id st then Inr (to_terminal st REDUCE_COVERAGE)
         else if sd_first_seq d \<noteq> rs_expected_next st then Inr (to_terminal st REDUCE_COVERAGE)
         else if length frames \<noteq> sd_record_count d then Inr (to_terminal st REDUCE_COVERAGE)
         else if rs_seg_count st + 1 > rl_max_segments lim then Inr (to_terminal st REDUCE_LIMIT)
         else if length frames > rl_max_frames_per_segment lim
           then Inr (to_terminal st REDUCE_LIMIT)
         else if st_byte_length segment > rl_max_segment_bytes lim
           then Inr (to_terminal st REDUCE_LIMIT)
         else if rs_total_frames st + length frames > rl_max_total_frames lim
           then Inr (to_terminal st REDUCE_LIMIT)
         else if rs_total_bytes st + st_byte_length segment > rl_max_total_wal_bytes lim
           then Inr (to_terminal st REDUCE_LIMIT)
         else
           (case feed_loop ops st frames of
              Inl e \<Rightarrow> Inl e
            | Inr (Some c, st) \<Rightarrow> Inr (to_terminal st c)
            | Inr (None, st) \<Rightarrow>
                Inr (REDUCE_OK,
                     st\<lparr>rs_seg_count := rs_seg_count st + 1,
                        rs_prev_segment_id := sd_segment_id d,
                        rs_total_frames := rs_total_frames st + length frames,
                        rs_total_bytes := rs_total_bytes st + st_byte_length segment\<rparr>)))"

text \<open>The flat loop of \<open>feed_legacy_frames\<close>, cut at the first frame after \<open>upto_seq\<close>.\<close>

fun legacy_loop ::
  "('w, 'wb, 't, 'tb) index_ops \<Rightarrow> ('wb, 'tb) reducer \<Rightarrow> wframe list \<Rightarrow> int option
    \<Rightarrow> rexn + (rclass \<times> ('wb, 'tb) reducer)" where
  "legacy_loop ops st [] upto_seq = Inr (REDUCE_OK, st)"
| "legacy_loop ops st (fr # frs) upto_seq =
     (if (case upto_seq of None \<Rightarrow> False | Some u \<Rightarrow> fst (snd fr) > u) then Inr (REDUCE_OK, st)
      else (case apply_one ops st fr of
              Inl e \<Rightarrow> Inl e
            | Inr (Some c, st) \<Rightarrow> Inr (to_terminal st c)
            | Inr (None, st) \<Rightarrow> legacy_loop ops st frs upto_seq))"

definition feed_legacy_frames ::
  "('w, 'wb, 't, 'tb) index_ops \<Rightarrow> ('wb, 'tb) reducer \<Rightarrow> wframe list \<Rightarrow> int option
    \<Rightarrow> rexn + (rclass \<times> ('wb, 'tb) reducer)" where
  "feed_legacy_frames ops st frames upto_seq =
     (if rs_terminal st then Inr (rs_class st, st)
      else legacy_loop ops (st\<lparr>rs_legacy := True\<rparr>) frames upto_seq)"

record ('w, 't) replay_result =
  rr_class :: rclass
  rr_index :: 'w
  rr_txindex :: 't
  rr_applied_count :: nat
  rr_applied_seq :: int

definition empty_replay :: "('w, 'wb, 't, 'tb) index_ops \<Rightarrow> rclass \<Rightarrow> ('w, 't) replay_result" where
  "empty_replay ops c =
     \<lparr>rr_class = c, rr_index = io_wal_new ops, rr_txindex = io_tx_new ops, rr_applied_count = 0,
      rr_applied_seq = 0\<rparr>"

definition reducer_finish ::
  "('w, 'wb, 't, 'tb) index_ops \<Rightarrow> ('wb, 'tb) reducer
    \<Rightarrow> rexn + (('w, 't) replay_result \<times> ('wb, 'tb) reducer)" where
  "reducer_finish ops st =
     (if rs_terminal st then Inr (empty_replay ops (rs_class st), st)
      else if rs_finished st
        then Inr (empty_replay ops REDUCE_STATE, snd (to_terminal st REDUCE_STATE))
      else if \<not> rs_legacy st \<and> rs_expected_next st \<noteq> rs_target_seq st + 1
        then Inr (empty_replay ops REDUCE_COVERAGE, snd (to_terminal st REDUCE_COVERAGE))
      else
        (case (rs_wal st, rs_tx st) of
           (Some wb, Some tb) \<Rightarrow>
             Inr (\<lparr>rr_class = REDUCE_OK, rr_index = io_wal_freeze ops wb,
                   rr_txindex = io_tx_freeze ops tb, rr_applied_count = rs_applied st,
                   rr_applied_seq = rs_last_applied st\<rparr>,
                  st\<lparr>rs_finished := True, rs_wal := None, rs_tx := None\<rparr>)
         | _ \<Rightarrow> Inl AttributeError))"

definition reduce_frames ::
  "('w, 'wb, 't, 'tb) index_ops \<Rightarrow> wframe list \<Rightarrow> int option \<Rightarrow> base_view option \<Rightarrow> int
    \<Rightarrow> rexn + ('w, 't) replay_result" where
  "reduce_frames ops frames upto_seq base initial_seq =
     (case feed_legacy_frames ops
             (reducer_begin ops base initial_seq (2 ^ 62) UNBOUNDED_REDUCER_LIMITS) frames upto_seq of
        Inl e \<Rightarrow> Inl e
      | Inr (_, st) \<Rightarrow> (case reducer_finish ops st of Inl e \<Rightarrow> Inl e | Inr (r, _) \<Rightarrow> Inr r))"

subsection \<open>Recovery\<close>

datatype recovery_class = ScanClass wal_class | ReplayClass rclass

record recovery_result =
  rc_class :: recovery_class
  rc_index :: wal_index
  rc_txindex :: tx_index
  rc_applied_count :: nat
  rc_applied_seq :: int
  rc_dropped :: nat

definition recover ::
  "bytes option \<Rightarrow> bytes \<Rightarrow> bool \<Rightarrow> int \<Rightarrow> int \<Rightarrow> int option \<Rightarrow> segment_seal option
    \<Rightarrow> rexn + recovery_result" where
  "recover blob key required scope_id segment_id upto_seq expected_seal =
     (let sr = scan blob key required scope_id segment_id expected_seal;
          empty = (\<lambda>c dropped.
            \<lparr>rc_class = c, rc_index = wi_empty, rc_txindex = [], rc_applied_count = 0,
             rc_applied_seq = 0, rc_dropped = dropped\<rparr>)
      in if sr_class sr \<in> {CORRUPT_COMMITTED_PREFIX, INCOMPATIBLE, MISSING_REQUIRED,
             MISSING_COMMITTED_PREFIX}
         then Inr (empty (ScanClass (sr_class sr)) (sr_dropped sr))
         else
           (case reduce_frames plain_ops (sr_frames sr) upto_seq None 0 of
              Inl e \<Rightarrow> Inl e
            | Inr rr \<Rightarrow>
                if rr_class rr \<noteq> REDUCE_OK then Inr (empty (ReplayClass (rr_class rr)) 0)
                else Inr \<lparr>rc_class = ScanClass (sr_class sr), rc_index = rr_index rr,
                          rc_txindex = rr_txindex rr, rc_applied_count = rr_applied_count rr,
                          rc_applied_seq = rr_applied_seq rr, rc_dropped = sr_dropped sr\<rparr>))"

subsection \<open>The abstract history\<close>

text \<open>
  What a replay means, on maps: the version line of every fact and the digest and sequence
  number of every operation id. A step refuses an operation id already known here or in the
  base, an unreadable base and a version that does not apply.
\<close>

type_synonym history = "(int \<Rightarrow> vline option) \<times> (bytes \<Rightarrow> (bytes \<times> int) option)"

definition abs_step :: "base_view \<Rightarrow> history \<Rightarrow> wframe \<Rightarrow> rexn + (rclass + history)" where
  "abs_step base h fr =
     (case h of (L, T) \<Rightarrow> case fr of (op, seq, op_id, fact_id, fver, value) \<Rightarrow>
      (case content_digest op fact_id fver value of
         Inl e \<Rightarrow> Inl (LogExn e)
       | Inr digest \<Rightarrow> Inr
           (if T op_id \<noteq> None then Inl REDUCE_TXID_CONFLICT
            else if bv_dedup_probe base op_id digest \<noteq> PNew then Inl REDUCE_TXID_CONFLICT
            else (case current_line (L fact_id) base fact_id of
                    None \<Rightarrow> Inl REDUCE_CONFLICT
                  | Some cur \<Rightarrow>
                      if preflight cur op fver value \<noteq> Applied then Inl REDUCE_CONFLICT
                      else Inr (L(fact_id \<mapsto> (fver, op, value)), T(op_id \<mapsto> (digest, seq)))))))"

fun abs_replay :: "base_view \<Rightarrow> history \<Rightarrow> wframe list \<Rightarrow> rexn + (rclass + history)" where
  "abs_replay base h [] = Inr (Inr h)"
| "abs_replay base h (fr # frs) =
     (case abs_step base h fr of
        Inr (Inr h') \<Rightarrow> abs_replay base h' frs
      | r \<Rightarrow> r)"

definition history0 :: history where
  "history0 = ((\<lambda>_. None), (\<lambda>_. None))"

lemma abs_replay_append:
  "abs_replay base h frs = Inr (Inr h') \<Longrightarrow> abs_replay base h (frs @ gs) = abs_replay base h' gs"
  by (induction frs arbitrary: h) (auto split: sum.splits)

text \<open>The parts of a reducer that \<open>apply_one\<close> reads and writes.\<close>

definition same_core :: "('wb, 'tb) reducer \<Rightarrow> ('wb, 'tb) reducer \<Rightarrow> bool" where
  "same_core a b \<longleftrightarrow> rs_base a = rs_base b \<and> rs_wal a = rs_wal b \<and> rs_tx a = rs_tx b \<and>
     rs_applied a = rs_applied b \<and> rs_last_applied a = rs_last_applied b"

definition same_frame :: "('wb, 'tb) reducer \<Rightarrow> ('wb, 'tb) reducer \<Rightarrow> bool" where
  "same_frame a b \<longleftrightarrow> b = a\<lparr>rs_wal := rs_wal b, rs_tx := rs_tx b, rs_applied := rs_applied b,
     rs_last_applied := rs_last_applied b\<rparr>"

lemma apply_one_cases:
  "(\<exists>e. apply_one ops st fr = Inl e) \<or> (\<exists>c. apply_one ops st fr = Inr (Some c, st) \<and> c \<noteq> REDUCE_OK)
   \<or> (\<exists>st'. apply_one ops st fr = Inr (None, st') \<and> same_frame st st')"
proof -
  obtain op seq op_id fact_id fver x where fr: "fr = (op, seq, op_id, fact_id, fver, x)"
    by (cases fr) auto
  show ?thesis
    by (cases "content_digest op fact_id fver x"; cases "rs_wal st"; cases "rs_tx st")
      (auto simp: apply_one_def fr same_frame_def split: option.splits)
qed

lemma apply_one_core:
  assumes "same_core a b"
  shows "(case apply_one ops a fr of
      Inl e \<Rightarrow> apply_one ops b fr = Inl e
    | Inr (Some c, a') \<Rightarrow> apply_one ops b fr = Inr (Some c, b)
    | Inr (None, a') \<Rightarrow> \<exists>b'. apply_one ops b fr = Inr (None, b') \<and> same_core a' b' \<and> same_frame b b')"
proof -
  obtain op seq op_id fact_id fver x where fr: "fr = (op, seq, op_id, fact_id, fver, x)"
    by (cases fr) auto
  show ?thesis
    using assms
    by (cases "content_digest op fact_id fver x"; cases "rs_wal a"; cases "rs_tx a")
      (auto simp: apply_one_def fr same_frame_def same_core_def split: option.splits)
qed

subsection \<open>A reducer over any index refines the abstract history\<close>

context l0_index
begin

definition rel :: "('wb, 'tb) reducer \<Rightarrow> history \<Rightarrow> bool" where
  "rel st h \<longleftrightarrow> (\<exists>wb tb. rs_wal st = Some wb \<and> rs_tx st = Some tb \<and> binv wb \<and> tbinv tb \<and>
     io_get ops wb = fst h \<and>
     (\<forall>i d. io_check ops tb i d = (case snd h i of None \<Rightarrow> TxNew
        | Some (e, s) \<Rightarrow> if e = d then TxReplay else TxConflict)) \<and>
     (\<forall>i. io_get_seq ops tb i = map_option snd (snd h i)))"

lemma rel_begin: "rel (reducer_begin ops base i t lim) history0"
  by (simp add: rel_def new_get_seq reducer_begin_def begin_inv new_inv begin_get begin_check begin_get_seq
      new_get new_check history0_def fun_eq_iff)

lemma rel_step:
  assumes "rel st h"
  shows "(case abs_step (rs_base st) h fr of
      Inl e \<Rightarrow> apply_one ops st fr = Inl e
    | Inr (Inl c) \<Rightarrow> apply_one ops st fr = Inr (Some c, st)
    | Inr (Inr h') \<Rightarrow> \<exists>st'. apply_one ops st fr = Inr (None, st') \<and> rel st' h' \<and>
        rs_base st' = rs_base st \<and> rs_applied st' = rs_applied st + 1 \<and>
        rs_last_applied st' = fst (snd fr) \<and> rs_legacy st' = rs_legacy st \<and>
        rs_terminal st' = rs_terminal st \<and> rs_finished st' = rs_finished st)"
proof -
  obtain op seq op_id fact_id fver x where fr: "fr = (op, seq, op_id, fact_id, fver, x)"
    by (cases fr) auto
  obtain L T where h: "h = (L, T)" by (cases h)
  from assms obtain wb tb where st: "rs_wal st = Some wb" "rs_tx st = Some tb" "binv wb" "tbinv tb"
    and g: "io_get ops wb = L"
    and c: "\<And>i d. io_check ops tb i d = (case T i of None \<Rightarrow> TxNew
        | Some (e, s) \<Rightarrow> if e = d then TxReplay else TxConflict)"
    and s: "\<And>i. io_get_seq ops tb i = map_option snd (T i)"
    by (auto simp: rel_def h)
  show ?thesis
  proof (cases "content_digest op fact_id fver x")
    case (Inl e)
    then show ?thesis by (simp add: abs_step_def apply_one_def fr h)
  next
    case (Inr d)
    note ab = abs_step_def [of _ h fr, unfolded h fr prod.case Inr sum.case, folded h fr]
    note co = apply_one_def [of ops st fr, unfolded fr prod.case Inr sum.case st option.case, folded fr]
    show ?thesis
    proof (cases "abs_step (rs_base st) h fr")
      case (Inl e)
      then show ?thesis by (simp add: ab)
    next
      case (Inr r)
      show ?thesis
      proof (cases r)
        case (Inl k)
        then show ?thesis
          using Inr unfolding ab
          by (auto simp: co c g split: if_splits option.splits)
      next
        case (Inr h')
        then have a: "abs_step (rs_base st) h fr = Inr (Inr h')" using \<open>abs_step _ _ _ = Inr r\<close> by simp
        then have n: "T op_id = None" "bv_dedup_probe (rs_base st) op_id d = PNew"
          unfolding ab by (cases "T op_id"; auto split: if_splits)+
        from a n obtain cur where cur: "current_line (L fact_id) (rs_base st) fact_id = Some cur"
          "preflight cur op fver x = Applied"
          and h': "h' = (L(fact_id \<mapsto> (fver, op, x)), T(op_id \<mapsto> (d, seq)))"
          unfolding ab by (auto split: option.splits if_splits)
        have l0: "preflight (L fact_id) op fver x = Applied"
          using cur by (auto simp: current_line_def preflight_def split: option.splits base_lookup.splits)
        let ?st = "st\<lparr>rs_wal := Some (snd (io_apply ops wb fact_id fver op x)),
            rs_tx := Some (io_record ops tb op_id d seq), rs_applied := rs_applied st + 1,
            rs_last_applied := seq\<rparr>"
        have "apply_one ops st fr = Inr (None, ?st)"
          unfolding co using n cur c g by simp
        moreover have "rel ?st h'"
          unfolding rel_def h'
          using st l0 g c s by (auto simp: w.app_inv t.rec_inv w.app_get t.chk_rec t.seq_rec fun_eq_iff)
        ultimately show ?thesis unfolding a by (simp add: fr)
      qed
    qed
  qed
qed

lemma rel_legacy_loop:
  "rel st h \<Longrightarrow> \<not> rs_terminal st \<Longrightarrow> \<not> rs_finished st \<Longrightarrow>
   (case abs_replay (rs_base st) h frs of
      Inl e \<Rightarrow> legacy_loop ops st frs None = Inl e
    | Inr (Inl c) \<Rightarrow> \<exists>st'. legacy_loop ops st frs None = Inr (c, st') \<and> rs_terminal st' \<and> rs_class st' = c
    | Inr (Inr h') \<Rightarrow> \<exists>st'. legacy_loop ops st frs None = Inr (REDUCE_OK, st') \<and> rel st' h' \<and>
        \<not> rs_terminal st' \<and> \<not> rs_finished st' \<and> rs_legacy st' = rs_legacy st \<and>
        rs_applied st' = rs_applied st + length frs \<and>
        rs_last_applied st' = (if frs = [] then rs_last_applied st else fst (snd (last frs))))"
proof (induction frs arbitrary: st h)
  case Nil
  then show ?case by simp
next
  case (Cons fr frs)
  note step = rel_step [OF Cons.prems(1), of fr]
  show ?case
  proof (cases "abs_step (rs_base st) h fr")
    case (Inl e)
    then show ?thesis using step by simp
  next
    case (Inr r)
    note st1 = Inr
    show ?thesis
    proof (cases r)
      case (Inl c)
      then show ?thesis using step st1 by (auto simp: to_terminal_def)
    next
      case (Inr h1)
      then obtain st1 where a: "apply_one ops st fr = Inr (None, st1)" and r1: "rel st1 h1"
        and k: "rs_base st1 = rs_base st" "rs_applied st1 = rs_applied st + 1"
          "rs_last_applied st1 = fst (snd fr)" "rs_legacy st1 = rs_legacy st"
          "rs_terminal st1 = rs_terminal st" "rs_finished st1 = rs_finished st"
        using step st1 by auto
      have ab: "abs_replay (rs_base st) h (fr # frs) = abs_replay (rs_base st1) h1 frs"
        using st1 Inr k(1) by simp
      have le: "legacy_loop ops st (fr # frs) None = legacy_loop ops st1 frs None"
        using a by simp
      show ?thesis
        unfolding ab le using Cons.IH [OF r1] Cons.prems k
        by (auto split: sum.splits)
    qed
  qed
qed

text \<open>\<open>reduce_frames\<close> over any index computes the abstract history, or refuses it.\<close>

lemma reduce_frames_refines:
  "(case abs_replay (case base of None \<Rightarrow> EmptyBaseView | Some b \<Rightarrow> b) history0 frs of
      Inl e \<Rightarrow> reduce_frames ops frs None base i = Inl e
    | Inr (Inl c) \<Rightarrow> reduce_frames ops frs None base i = Inr (empty_replay ops c)
    | Inr (Inr h) \<Rightarrow> \<exists>r. reduce_frames ops frs None base i = Inr r \<and> rr_class r = REDUCE_OK \<and>
        winv (rr_index r) \<and> tinv (rr_txindex r) \<and>
        io_wal_get ops (rr_index r) = fst h \<and>
        (\<forall>k d. io_tx_check ops (rr_txindex r) k d = (case snd h k of None \<Rightarrow> TxNew
           | Some (e, s) \<Rightarrow> if e = d then TxReplay else TxConflict)) \<and>
        (\<forall>k. io_tx_get_seq ops (rr_txindex r) k = map_option snd (snd h k)) \<and>
        rr_applied_count r = length frs \<and>
        rr_applied_seq r = (if frs = [] then i else fst (snd (last frs))))"
proof -
  let ?b = "case base of None \<Rightarrow> EmptyBaseView | Some b \<Rightarrow> b"
  let ?s = "(reducer_begin ops base i (2 ^ 62) UNBOUNDED_REDUCER_LIMITS)\<lparr>rs_legacy := True\<rparr>"
  have r0: "rel ?s history0"
    using rel_begin [of base i "2 ^ 62" UNBOUNDED_REDUCER_LIMITS] by (simp add: rel_def)
  have k: "rs_base ?s = ?b" "\<not> rs_terminal ?s" "\<not> rs_finished ?s" "rs_legacy ?s"
    "rs_applied ?s = 0" "rs_last_applied ?s = i"
    by (simp_all add: reducer_begin_def)
  have rf: "reduce_frames ops frs None base i =
      (case legacy_loop ops ?s frs None of
         Inl e \<Rightarrow> Inl e
       | Inr (_, st) \<Rightarrow> (case reducer_finish ops st of Inl e \<Rightarrow> Inl e | Inr (r, _) \<Rightarrow> Inr r))"
    by (simp add: reduce_frames_def feed_legacy_frames_def) (simp add: reducer_begin_def)
  note loop = rel_legacy_loop [OF r0 k(2,3), of frs, unfolded k]
  show ?thesis
  proof (cases "abs_replay ?b history0 frs")
    case (Inl e)
    then show ?thesis using loop by (simp add: rf)
  next
    case (Inr r)
    note r = Inr
    show ?thesis
    proof (cases r)
      case (Inl c)
      then show ?thesis using loop r by (auto simp: rf reducer_finish_def)
    next
      case (Inr h)
      then obtain st' where st': "legacy_loop ops ?s frs None = Inr (REDUCE_OK, st')" "rel st' h"
        "\<not> rs_terminal st'" "\<not> rs_finished st'" "rs_legacy st'" "rs_applied st' = length frs"
        "rs_last_applied st' = (if frs = [] then i else fst (snd (last frs)))"
        using loop r by auto
      from st'(2) obtain wb tb where b: "rs_wal st' = Some wb" "rs_tx st' = Some tb" "binv wb" "tbinv tb"
        "io_get ops wb = fst h"
        "\<forall>i d. io_check ops tb i d = (case snd h i of None \<Rightarrow> TxNew
           | Some (e, s) \<Rightarrow> if e = d then TxReplay else TxConflict)"
        "\<forall>i. io_get_seq ops tb i = map_option snd (snd h i)"
        by (auto simp: rel_def)
      show ?thesis
        unfolding r Inr using st' b
        by (simp add: rf reducer_finish_def freeze_inv freeze_get freeze_check freeze_get_seq)
    qed
  qed
qed

end

subsection \<open>Fail-closed, and streamed like flat\<close>

definition reducer_closed :: "('wb, 'tb) reducer \<Rightarrow> bool" where
  "reducer_closed st \<longleftrightarrow> rs_terminal st \<and> rs_class st \<noteq> REDUCE_OK \<and> rs_wal st = None \<and> rs_tx st = None"

lemma apply_one_err: "apply_one ops st fr = Inr (Some c, st') \<Longrightarrow> c \<noteq> REDUCE_OK \<and> st' = st"
  using apply_one_cases [of ops st fr] by auto

lemma feed_loop_err: "feed_loop ops st frs = Inr (Some c, st') \<Longrightarrow> c \<noteq> REDUCE_OK"
proof (induction frs arbitrary: st)
  case (Cons fr frs)
  consider (cov) "c = REDUCE_COVERAGE" | (err) k st1 where "apply_one ops st fr = Inr (Some k, st1)" "c = k"
    | (ok) st1 where "apply_one ops st fr = Inr (None, st1)"
        "feed_loop ops (st1\<lparr>rs_expected_next := rs_expected_next st1 + 1\<rparr>) frs = Inr (Some c, st')"
    using Cons.prems by (simp add: Let_def split: if_splits sum.splits option.splits prod.splits)
  then show ?case
    by cases (use apply_one_err [of ops st fr] Cons.IH in auto)
qed simp

lemma to_terminal_closed: "c \<noteq> REDUCE_OK \<Longrightarrow> reducer_closed (snd (to_terminal st c))"
  by (simp add: to_terminal_def reducer_closed_def)

text \<open>A call that did not answer OK leaves the reducer closed; a closed one stays closed.\<close>

lemma feed_segment_closes:
  assumes "feed_segment ops st seg d = Inr (c, st')" "rs_terminal st \<Longrightarrow> reducer_closed st"
  shows "(c = REDUCE_OK \<or> reducer_closed st' \<and> rs_class st' = c) \<and> (reducer_closed st \<longrightarrow> st' = st)"
  using assms
  by (auto simp: feed_segment_def Let_def to_terminal_def reducer_closed_def dest: feed_loop_err
      split: if_splits sum.splits option.splits)

lemma finish_closed:
  "reducer_closed st \<Longrightarrow> reducer_finish ops st = Inr (empty_replay ops (rs_class st), st)"
  by (simp add: reducer_finish_def reducer_closed_def)

text \<open>The calls of \<open>open_generation\<close>: every segment in turn, then \<open>finish\<close>.\<close>

fun feed_all ::
  "('w, 'wb, 't, 'tb) index_ops \<Rightarrow> ('wb, 'tb) reducer \<Rightarrow> (segment_token \<times> segment_desc) list
    \<Rightarrow> rexn + ('wb, 'tb) reducer" where
  "feed_all ops st [] = Inr st"
| "feed_all ops st ((seg, d) # xs) =
     (case feed_segment ops st seg d of
        Inl e \<Rightarrow> Inl e
      | Inr (c, st') \<Rightarrow> feed_all ops st' xs)"

lemma feed_all_closed:
  "reducer_closed st \<Longrightarrow> feed_all ops st xs = Inr st"
  by (induction xs) (auto simp: feed_segment_def reducer_closed_def)

definition keeps :: "('wb, 'tb) reducer \<Rightarrow> ('wb, 'tb) reducer \<Rightarrow> bool" where
  "keeps a b \<longleftrightarrow> rs_target_seq b = rs_target_seq a \<and> rs_terminal b = rs_terminal a \<and>
     rs_finished b = rs_finished a \<and> rs_legacy b = rs_legacy a"

lemma same_frame_keeps: "same_frame a b \<Longrightarrow> keeps a b \<and> rs_expected_next b = rs_expected_next a"
proof -
  assume "same_frame a b"
  then have e: "b = a\<lparr>rs_wal := rs_wal b, rs_tx := rs_tx b, rs_applied := rs_applied b,
      rs_last_applied := rs_last_applied b\<rparr>"
    by (simp only: same_frame_def)
  show ?thesis
    using arg_cong [OF e, of rs_target_seq] arg_cong [OF e, of rs_terminal]
      arg_cong [OF e, of rs_finished] arg_cong [OF e, of rs_legacy]
      arg_cong [OF e, of rs_expected_next]
    by (simp add: keeps_def)
qed

lemma feed_loop_flat:
  "feed_loop ops a frs = Inr (None, a') \<Longrightarrow> same_core a b \<Longrightarrow>
   (\<exists>b'. (\<forall>gs. legacy_loop ops b (frs @ gs) None = legacy_loop ops b' gs None) \<and> same_core a' b' \<and>
      keeps b b') \<and>
   keeps a a' \<and> rs_expected_next a' = rs_expected_next a + int (length frs) \<and>
   seqs_from (rs_expected_next a) frs"
proof (induction frs arbitrary: a b)
  case Nil
  then show ?case by (auto simp: keeps_def)
next
  case (Cons fr frs)
  from Cons.prems(1) obtain a1 where sq: "frame_seq fr = rs_expected_next a"
    and a1: "apply_one ops a fr = Inr (None, a1)"
    and lp: "feed_loop ops (a1\<lparr>rs_expected_next := rs_expected_next a1 + 1\<rparr>) frs = Inr (None, a')"
    by (auto simp: Let_def frame_seq_fst split: if_splits sum.splits option.splits)
  let ?a2 = "a1\<lparr>rs_expected_next := rs_expected_next a1 + 1\<rparr>"
  have k1: "keeps a a1" "rs_expected_next a1 = rs_expected_next a"
    using apply_one_cases [of ops a fr] a1 same_frame_keeps by auto
  from apply_one_core [OF Cons.prems(2), of ops fr] a1
  obtain b1 where b1: "apply_one ops b fr = Inr (None, b1)" "same_core a1 b1" "same_frame b b1"
    by auto
  have "same_core ?a2 b1" using b1(2) by (simp add: same_core_def)
  from Cons.IH [OF lp this] same_frame_keeps [OF b1(3)] k1 b1(1) sq
  show ?case by (auto simp: keeps_def)
qed

lemma feed_all_flat:
  "feed_all ops a xs = Inr a' \<Longrightarrow> \<not> rs_terminal a' \<Longrightarrow> \<not> rs_finished a \<Longrightarrow> same_core a b \<Longrightarrow>
   (rs_terminal a \<longrightarrow> reducer_closed a) \<Longrightarrow>
   (let frs = concat (map (st_frames \<circ> fst) xs) in
    (\<exists>b'. legacy_loop ops b frs None = Inr (REDUCE_OK, b') \<and> same_core a' b' \<and> keeps b b') \<and>
    keeps a a' \<and> rs_expected_next a' = rs_expected_next a + int (length frs) \<and>
    seqs_from (rs_expected_next a) frs)"
proof (induction xs arbitrary: a b)
  case Nil
  then show ?case by (auto simp: keeps_def)
next
  case (Cons x xs)
  obtain seg d where x: "x = (seg, d)" by (cases x)
  from Cons.prems(1) obtain c a1 where f: "feed_segment ops a seg d = Inr (c, a1)"
    and r: "feed_all ops a1 xs = Inr a'"
    by (auto simp: x split: sum.splits)
  have nt: "\<not> rs_terminal a"
    using Cons.prems(1,2,5) feed_all_closed [of a ops "x # xs"] by auto
  have c: "c = REDUCE_OK"
    using feed_segment_closes [OF f] Cons.prems(2,5) feed_all_closed [of a1 ops xs] r
    by (auto simp: reducer_closed_def)
  from f c nt Cons.prems(3) obtain a0 where lp: "feed_loop ops a (st_frames seg) = Inr (None, a0)"
    and a1: "a1 = a0\<lparr>rs_seg_count := rs_seg_count a0 + 1, rs_prev_segment_id := sd_segment_id d,
      rs_total_frames := rs_total_frames a0 + length (st_frames seg),
      rs_total_bytes := rs_total_bytes a0 + st_byte_length seg\<rparr>"
    by (auto simp: feed_segment_def Let_def to_terminal_def dest: feed_loop_err
        split: if_splits sum.splits option.splits)
  from feed_loop_flat [OF lp Cons.prems(4)] obtain b1 where
    b1: "\<And>gs. legacy_loop ops b (st_frames seg @ gs) None = legacy_loop ops b1 gs None"
      "same_core a0 b1" "keeps b b1"
    and k: "keeps a a0" "rs_expected_next a0 = rs_expected_next a + int (length (st_frames seg))"
      "seqs_from (rs_expected_next a) (st_frames seg)"
    by auto
  have "same_core a1 b1" using b1(2) by (simp add: same_core_def a1)
  moreover have "\<not> rs_finished a1" "\<not> rs_terminal a1" using k(1) Cons.prems(3) nt
    by (simp_all add: a1 keeps_def)
  ultimately show ?case
    using Cons.IH [OF r Cons.prems(2), of b1] b1 k by (auto simp: x Let_def a1 keeps_def)
qed

lemma same_core_refl [simp]: "same_core a a"
  by (simp add: same_core_def)

definition term_closed :: "('wb, 'tb) reducer \<Rightarrow> bool" where
  "term_closed st \<longleftrightarrow> (rs_terminal st \<longrightarrow> reducer_closed st)"

lemma feed_segment_term:
  assumes "feed_segment ops st seg d = Inr (c, st')" "term_closed st"
  shows "term_closed st'"
proof (cases "c = REDUCE_OK \<and> \<not> rs_terminal st")
  case True
  then obtain a0 where lp: "feed_loop ops st (st_frames seg) = Inr (None, a0)"
    and "rs_terminal st' = rs_terminal a0"
    using assms
    by (auto simp: feed_segment_def Let_def to_terminal_def dest: feed_loop_err
        split: if_splits sum.splits option.splits)
  then show ?thesis
    using feed_loop_flat [OF lp same_core_refl] True by (simp add: term_closed_def keeps_def)
next
  case False
  then show ?thesis
    using feed_segment_closes [OF assms(1)] assms(2) by (auto simp: term_closed_def)
qed

lemma feed_all_term: "feed_all ops a xs = Inr st \<Longrightarrow> term_closed a \<Longrightarrow> term_closed st"
  by (induction ops a xs rule: feed_all.induct)
    (auto dest: feed_segment_term split: sum.splits)

lemma streamed_flat:
  assumes f: "feed_all ops (reducer_begin ops base i t lim) xs = Inr st"
    and fin: "reducer_finish ops st = Inr (r, st')" and ok: "rr_class r = REDUCE_OK"
  defines "frs \<equiv> concat (map (st_frames \<circ> fst) xs)"
  shows "reduce_frames ops frs None base i = Inr r \<and> seqs_from (i + 1) frs \<and> t = i + int (length frs)"
proof -
  let ?a = "reducer_begin ops base i t lim"
  let ?b = "(reducer_begin ops base i (2 ^ 62) UNBOUNDED_REDUCER_LIMITS)\<lparr>rs_legacy := True\<rparr>"
  have a: "term_closed ?a" "\<not> rs_terminal ?a" "\<not> rs_finished ?a" "same_core ?a ?b"
    "rs_expected_next ?a = i + 1" "rs_target_seq ?a = t" "\<not> rs_legacy ?a"
    by (simp_all add: reducer_begin_def term_closed_def same_core_def)
  have nt: "\<not> rs_terminal st"
    using feed_all_term [OF f a(1)] finish_closed [of st ops] fin ok
    by (auto simp: term_closed_def empty_replay_def reducer_closed_def)
  obtain b' where b': "legacy_loop ops ?b frs None = Inr (REDUCE_OK, b')" "same_core st b'" "keeps ?b b'"
    and k: "keeps ?a st" "rs_expected_next st = i + 1 + int (length frs)" "seqs_from (i + 1) frs"
    using feed_all_flat [OF f nt a(3,4)] a(2,5) by (auto simp: Let_def frs_def)
  have st: "\<not> rs_finished st" "\<not> rs_legacy st" "rs_target_seq st = t"
    using k(1) a by (simp_all add: keeps_def)
  obtain wb tb where w: "rs_wal st = Some wb" "rs_tx st = Some tb" and cov: "rs_expected_next st = t + 1"
    and r: "r = \<lparr>rr_class = REDUCE_OK, rr_index = io_wal_freeze ops wb, rr_txindex = io_tx_freeze ops tb,
      rr_applied_count = rs_applied st, rr_applied_seq = rs_last_applied st\<rparr>"
    using fin ok nt st
    by (auto simp: reducer_finish_def empty_replay_def split: if_splits option.splits)
  have b: "\<not> rs_terminal b'" "\<not> rs_finished b'" "rs_legacy b'"
    using b'(3) by (simp_all add: keeps_def reducer_begin_def)
  have "rs_wal b' = Some wb" "rs_tx b' = Some tb" "rs_applied b' = rs_applied st"
    "rs_last_applied b' = rs_last_applied st"
    using b'(2) w by (simp_all add: same_core_def)
  then have "reducer_finish ops b' = Inr (r, b'\<lparr>rs_finished := True, rs_wal := None, rs_tx := None\<rparr>)"
    using b by (simp add: reducer_finish_def r)
  moreover have "feed_legacy_frames ops (reducer_begin ops base i (2 ^ 62) UNBOUNDED_REDUCER_LIMITS) frs None
      = Inr (REDUCE_OK, b')"
    using b'(1) by (simp add: feed_legacy_frames_def) (simp add: reducer_begin_def)
  ultimately show ?thesis using k(2,3) cov by (simp add: reduce_frames_def)
qed

end
