(* ===== verification/WalWriter.thy ===== *)
theory WalWriter
  imports Reducer
begin

section \<open>The single writer (\<open>WalWriter\<close> of \<open>horizon_wal.py\<close>)\<close>

text \<open>
  Writing is the only part of the log that meets the operating system. Its answers are a
  script: for every \<open>os.write\<close> how many bytes it took (or EINTR, or an exception), for
  \<open>os.fsync\<close> whether it returned or raised; a script that runs out is the process being
  killed at that point. The writer keeps the bytes of its file (its descriptor stands at the
  end) and, as ghost state, how many of them the last successful fsync made durable.
\<close>

datatype os_write = Eintr | Wrote nat | WriteRaises

datatype io_end = IoDone | IoRaise exn | IoKilled

text \<open>\<open>_write_all\<close>: the bytes that reached the file and how it ended.\<close>

fun write_all :: "nat option \<Rightarrow> bytes \<Rightarrow> os_write list \<Rightarrow> bytes \<times> io_end" where
  "write_all max_chunk data [] = ([], if data = [] then IoDone else IoKilled)"
| "write_all max_chunk data (Eintr # s) = (if data = [] then ([], IoDone) else write_all max_chunk data s)"
| "write_all max_chunk data (WriteRaises # s) = ([], if data = [] then IoDone else IoRaise OSError)"
| "write_all max_chunk data (Wrote k # s) =
     (if data = [] then ([], IoDone)
      else
        (let chunk = (case max_chunk of None \<Rightarrow> data | Some m \<Rightarrow> take m data);
             written = min k (length chunk)
         in if written = 0 then ([], IoRaise WalError)
            else (let (b, e) = write_all max_chunk (drop written data) s
                  in (take written data @ b, e))))"

record io_script =
  io_writes :: "os_write list"
  io_fsync :: "bool option"   \<comment> \<open>returns, raises, or never returns\<close>

datatype 'a out = Ret 'a | Raise exn | Killed

record wal_writer =
  ww_file :: bytes
  ww_durable :: nat
  ww_key :: bytes
  ww_scope_id :: int
  ww_segment_id :: int
  ww_first_seq :: int
  ww_key_id :: int
  ww_prev_digest :: bytes
  ww_next_seq :: int
  ww_max_chunk :: "nat option"
  ww_index :: wal_index
  ww_txindex :: tx_index
  ww_poisoned :: bool
  ww_sealed :: bool

text \<open>
  \<open>try: _write_all; os.fsync except: poisoned = True; raise\<close>. A kill leaves the bytes
  written so far.
\<close>

definition write_sync :: "wal_writer \<Rightarrow> bytes \<Rightarrow> io_script \<Rightarrow> unit out \<times> wal_writer" where
  "write_sync w data sc =
     (let (b, e) = write_all (ww_max_chunk w) data (io_writes sc);
          w = w\<lparr>ww_file := ww_file w @ b\<rparr>
      in (case e of
            IoRaise x \<Rightarrow> (Raise x, w\<lparr>ww_poisoned := True\<rparr>)
          | IoKilled \<Rightarrow> (Killed, w)
          | IoDone \<Rightarrow>
              (case io_fsync sc of
                 Some True \<Rightarrow> (Ret (), w\<lparr>ww_durable := length (ww_file w)\<rparr>)
               | Some False \<Rightarrow> (Raise OSError, w\<lparr>ww_poisoned := True\<rparr>)
               | None \<Rightarrow> (Killed, w))))"

text \<open>\<open>create_new\<close>: \<open>O_EXCL\<close> refuses an existing path.\<close>

definition create_new ::
  "bytes option \<Rightarrow> bytes \<Rightarrow> int \<Rightarrow> int \<Rightarrow> int \<Rightarrow> nat option \<Rightarrow> int \<Rightarrow> bytes \<Rightarrow> io_script
    \<Rightarrow> wal_writer out \<times> bytes option" where
  "create_new existing key scope_id segment_id first_seq max_chunk key_id prev sc =
     (case existing of
        Some b \<Rightarrow> (Raise OSError, Some b)
      | None \<Rightarrow>
          (let w = \<lparr>ww_file = [], ww_durable = 0, ww_key = key, ww_scope_id = scope_id,
                    ww_segment_id = segment_id, ww_first_seq = first_seq, ww_key_id = key_id,
                    ww_prev_digest = prev, ww_next_seq = first_seq, ww_max_chunk = max_chunk,
                    ww_index = wi_empty, ww_txindex = [], ww_poisoned = False, ww_sealed = False\<rparr>
           in (case encode_segment_header key scope_id segment_id first_seq key_id STATE_ACTIVE prev of
                 None \<Rightarrow> (Raise StructError, Some [])
               | Some hdr \<Rightarrow>
                   (case write_sync w hdr sc of
                      (Ret _, w) \<Rightarrow> (Ret w, Some (ww_file w))
                    | (Raise x, w) \<Rightarrow> (Raise x, Some (ww_file w))
                    | (Killed, w) \<Rightarrow> (Killed, Some (ww_file w))))))"

text \<open>
  \<open>resume_existing\<close> on the bytes of an existing file, of which \<open>durable\<close> survive a
  power loss: the writer, or the exception. A torn tail is cut off and the cut synced; a file
  without one is taken over without a sync.
\<close>

definition resume_existing ::
  "bytes \<Rightarrow> nat \<Rightarrow> bytes \<Rightarrow> int \<Rightarrow> int \<Rightarrow> nat option \<Rightarrow> int option \<Rightarrow> bytes option
    \<Rightarrow> rexn + wal_writer" where
  "resume_existing blob durable key scope_id segment_id max_chunk expected_key_id expected_prev =
     (let sr = scan (Some blob) key True scope_id segment_id None
      in if sr_sealed sr then Inl (LogExn WalError)
         else if sr_class sr \<notin> {CLEAN, TAIL_DROPPED} then Inl (LogExn WalError)
         else
           (case sr_header sr of
              None \<Rightarrow> Inl (LogExn WalError)
            | Some h \<Rightarrow>
                if expected_key_id \<noteq> None \<and> expected_key_id \<noteq> Some (whi_key_id h)
                  then Inl (LogExn WalError)
                else if expected_prev \<noteq> None \<and> expected_prev \<noteq> Some (whi_prev_digest h)
                  then Inl (LogExn WalError)
                else
                  (case reduce_frames plain_ops (sr_frames sr) None None 0 of
                     Inl e \<Rightarrow> Inl e
                   | Inr rr \<Rightarrow>
                       if rr_class rr \<noteq> REDUCE_OK then Inl (LogExn WalError)
                       else
                         (let file = (if sr_class sr = TAIL_DROPPED then take (sr_consumed sr) blob
                                      else blob)
                          in Inr \<lparr>ww_file = file,
                                  ww_durable = (if sr_class sr = TAIL_DROPPED then length file
                                                else durable),
                                  ww_key = key,
                                  ww_scope_id = scope_id, ww_segment_id = segment_id,
                                  ww_first_seq = whi_first_seq h, ww_key_id = whi_key_id h,
                                  ww_prev_digest = whi_prev_digest h,
                                  ww_next_seq = sr_last_seq sr + 1, ww_max_chunk = max_chunk,
                                  ww_index = rr_index rr, ww_txindex = rr_txindex rr,
                                  ww_poisoned = False, ww_sealed = False\<rparr>))))"

subsection \<open>Append\<close>

datatype append_status =
  APPLIED | IDEMPOTENT | STALE_REJECTED | VERSION_CONFLICT | DEDUP_REPLAY | TXID_CONFLICT
| IDEMPOTENCY_EXPIRED | POISONED | INVALID_ARGUMENT

type_synonym append_result = "append_status \<times> int option"

definition ww_append ::
  "wal_writer \<Rightarrow> opk \<Rightarrow> int \<Rightarrow> int \<Rightarrow> int option \<Rightarrow> bytes \<Rightarrow> io_script
    \<Rightarrow> append_result out \<times> wal_writer" where
  "ww_append w op fact_id fact_version value operation_id sc =
     (if ww_poisoned w then (Ret (POISONED, None), w)
      else if \<not> command_is_canonical op fact_id fact_version value operation_id
        then (Ret (INVALID_ARGUMENT, None), w)
      else if ww_sealed w then (Raise WalError, w)
      else
        (case content_digest op fact_id fact_version value of
           Inl e \<Rightarrow> (Raise e, w)
         | Inr digest \<Rightarrow>
        (case tx_check (ww_txindex w) operation_id digest of
           TxReplay \<Rightarrow> (Ret (DEDUP_REPLAY, tx_get_seq (ww_txindex w) operation_id), w)
         | TxConflict \<Rightarrow> (Ret (TXID_CONFLICT, None), w)
         | TxNew \<Rightarrow>
        (let cur = wi_get (ww_index w) fact_id;
             apply = (\<lambda>_ :: unit.
               (let seq = ww_next_seq w
                in (case payload_of value of
                      None \<Rightarrow> (Raise StructError, w)
                    | Some payload \<Rightarrow>
                   (case encode_frame (ww_key w) (ww_scope_id w) (ww_segment_id w) op seq
                           operation_id fact_id fact_version payload of
                      Inl e \<Rightarrow> (Raise e, w)
                    | Inr frame \<Rightarrow>
                   (case write_sync w frame sc of
                      (Raise e, w) \<Rightarrow> (Raise e, w)
                    | (Killed, w) \<Rightarrow> (Killed, w)
                    | (Ret _, w) \<Rightarrow>
                        (Ret (APPLIED, Some seq),
                         w\<lparr>ww_index := snd (wi_apply (ww_index w) fact_id fact_version op value),
                           ww_txindex := tx_record (ww_txindex w) operation_id digest seq,
                           ww_next_seq := ww_next_seq w + 1\<rparr>))))))
         in (case cur of
               None \<Rightarrow> apply ()
             | Some (cv, cop, cval) \<Rightarrow>
                 if fact_version < cv then (Ret (STALE_REJECTED, None), w)
                 else if fact_version = cv then
                   (if (op, value) = (cop, cval) then (Ret (IDEMPOTENT, None), w)
                    else (Ret (VERSION_CONFLICT, None), w))
                 else apply ())))))"

text \<open>
  \<open>seal\<close>: fsync, then the footer over everything in the file. The first fsync
  (\<open>pre\<close>) is outside the \<open>try\<close> of the source, so a raise there does not poison.
\<close>

definition ww_seal :: "wal_writer \<Rightarrow> bool option \<Rightarrow> io_script \<Rightarrow> unit out \<times> wal_writer" where
  "ww_seal w pre sc =
     (if ww_poisoned w then (Raise WalError, w)
      else
        (case pre of
           None \<Rightarrow> (Killed, w)
         | Some False \<Rightarrow> (Raise OSError, w)
         | Some True \<Rightarrow>
             (let w = w\<lparr>ww_durable := length (ww_file w)\<rparr>;
                  byte_length = int (length (ww_file w));
                  digest = take 16 (sha256 (ww_file w))
              in (case seal_footer (ww_key w) (ww_scope_id w) (ww_segment_id w)
                         (ww_next_seq w - 1) byte_length digest of
                    None \<Rightarrow> (Raise StructError, w)
                  | Some footer \<Rightarrow>
                      (case write_sync w footer sc of
                         (Ret _, w) \<Rightarrow> (Ret (), w\<lparr>ww_sealed := True\<rparr>)
                       | r \<Rightarrow> r)))))"

subsection \<open>The invariant: the file is the history, the indexes are its replay\<close>

definition writer_id :: "wal_writer \<Rightarrow> seg_id" where
  "writer_id w = \<lparr>sg_scope = ww_scope_id w, sg_segment = ww_segment_id w, sg_first = ww_first_seq w,
     sg_key_id = ww_key_id w, sg_prev = ww_prev_digest w\<rparr>"

lemma writer_id_simps [simp]:
  "sg_scope (writer_id w) = ww_scope_id w" "sg_segment (writer_id w) = ww_segment_id w"
  "sg_first (writer_id w) = ww_first_seq w" "sg_key_id (writer_id w) = ww_key_id w"
  "sg_prev (writer_id w) = ww_prev_digest w"
  by (simp_all add: writer_id_def)

definition writer_inv :: "wal_writer \<Rightarrow> wframe list \<Rightarrow> history \<Rightarrow> bool" where
  "writer_inv w fs h \<longleftrightarrow>
     seg_id_ok (writer_id w) \<and> frames_ok (ww_first_seq w) fs \<and>
     ww_file w = wal_image (ww_key w) (writer_id w) fs \<and>
     ww_next_seq w = next_seq_of (writer_id w) fs \<and>
     abs_replay EmptyBaseView history0 fs = Inr (Inr h) \<and>
     wi_inv (ww_index w) \<and> wi_get (ww_index w) = fst h \<and>
     distinct (dkeys (ww_txindex w)) \<and> dget (ww_txindex w) = snd h \<and>
     ww_durable w \<le> length (ww_file w) \<and> \<not> ww_poisoned w \<and> \<not> ww_sealed w"

lemma write_all_prefix: "write_all mc d s = (b, e) \<Longrightarrow> (\<exists>k. b = take k d) \<and> (e = IoDone \<longrightarrow> b = d)"
proof (induction mc d s arbitrary: b rule: write_all.induct)
  case (4 mc d k s)
  define n where "n = min k (length (case mc of None \<Rightarrow> d | Some m \<Rightarrow> take m d))"
  obtain b' e' where r: "write_all mc (drop n d) s = (b', e')" by fastforce
  have eq: "write_all mc d (Wrote k # s) = (if d = [] then ([], IoDone) else if n = 0 then ([], IoRaise WalError)
      else (take n d @ b', e'))"
    unfolding write_all.simps(4) Let_def n_def [symmetric] r by simp
  show ?case
  proof (cases "d = [] \<or> n = 0")
    case True
    then show ?thesis using 4(2) unfolding eq by (auto intro: exI [of _ 0] split: if_splits)
  next
    case False
    then have b: "b = take n d @ b'" "e' = e" using 4(2) unfolding eq by auto
    have "(\<exists>j. b' = take j (drop n d)) \<and> (e = IoDone \<longrightarrow> b' = drop n d)"
      using 4(1) [OF _ refl n_def] False r b(2) by blast
    then obtain j where j: "b' = take j (drop n d)" "e = IoDone \<longrightarrow> b' = drop n d" by blast
    have "b = take (n + j) d" using b j by (simp add: take_add)
    moreover have "e = IoDone \<longrightarrow> b = d" using b j by simp
    ultimately show ?thesis by blast
  qed
qed (auto split: if_splits intro: exI [of _ 0])

text \<open>What a write leaves behind, by outcome.\<close>

lemma write_sync_cases:
  assumes "write_sync w d sc = (o', w')"
  shows "\<exists>k. w' = w\<lparr>ww_file := ww_file w @ take k d, ww_durable := ww_durable w', ww_poisoned := ww_poisoned w'\<rparr>
    \<and> (o' = Ret () \<longrightarrow> take k d = d \<and> ww_durable w' = length (ww_file w') \<and> ww_poisoned w' = ww_poisoned w)
    \<and> (o' \<noteq> Ret () \<longrightarrow> ww_durable w' = ww_durable w \<and> (\<forall>x. o' = Raise x \<longrightarrow> ww_poisoned w'))"
proof -
  obtain b e where b: "write_all (ww_max_chunk w) d (io_writes sc) = (b, e)" by fastforce
  from write_all_prefix [OF b] obtain k where k: "b = take k d" "e = IoDone \<longrightarrow> b = d" by blast
  show ?thesis
    by (rule exI [of _ k])
      (use assms b k in \<open>auto simp: write_sync_def Let_def split: io_end.splits option.splits bool.splits\<close>)
qed

lemma create_new_inv:
  assumes "create_new None key sc sg first mc kid prev io = (Ret w, file)"
    and "u32 sc" "u32 sg" "0 \<le> first" "first < MAX_SEQ" "u32 kid" "length prev = 16"
  shows "writer_inv w [] history0 \<and> file = Some (ww_file w)"
proof -
  let ?s = "\<lparr>sg_scope = sc, sg_segment = sg, sg_first = first, sg_key_id = kid, sg_prev = prev\<rparr>"
  have ok: "seg_id_ok ?s" using assms(2-) by (simp add: seg_id_ok_def)
  let ?w = "\<lparr>ww_file = [], ww_durable = 0, ww_key = key, ww_scope_id = sc, ww_segment_id = sg,
    ww_first_seq = first, ww_key_id = kid, ww_prev_digest = prev, ww_next_seq = first, ww_max_chunk = mc,
    ww_index = wi_empty, ww_txindex = [], ww_poisoned = False, ww_sealed = False\<rparr>"
  obtain o' w' where ws: "write_sync ?w (header_bytes key ?s) io = (o', w')" by fastforce
  have e: "create_new None key sc sg first mc kid prev io =
      (case (o', w') of (Ret _, w) \<Rightarrow> (Ret w, Some (ww_file w))
        | (Raise x, w) \<Rightarrow> (Raise x, Some (ww_file w)) | (Killed, w) \<Rightarrow> (Killed, Some (ww_file w)))"
    using header_bytes_eq(1) [OF ok, of key] ws by (simp add: create_new_def Let_def)
  then have o: "o' = Ret ()" "w = w'" "file = Some (ww_file w)"
    using assms(1) by (auto split: out.splits)
  from write_sync_cases [OF ws] o have
    w: "w = ?w\<lparr>ww_file := header_bytes key ?s, ww_durable := ww_durable w, ww_poisoned := ww_poisoned w\<rparr>"
    "ww_durable w = length (ww_file w)" "\<not> ww_poisoned w"
    by auto
  have "ww_file w = header_bytes key ?s" "writer_id w = ?s" "ww_key w = key" "ww_first_seq w = first"
    "ww_next_seq w = first" "ww_index w = wi_empty" "ww_txindex w = []" "\<not> ww_sealed w"
    by (subst w(1), simp add: writer_id_def)+
  then show ?thesis
    using ok w(2,3) o(3)
    by (simp add: writer_inv_def wal_image_def next_seq_of_def history0_def wi_inv_def wi_empty_def
        wi_get_def fun_eq_iff)
qed

subsection \<open>What an append decides and what it writes\<close>

definition decide ::
  "history \<Rightarrow> opk \<Rightarrow> int \<Rightarrow> int \<Rightarrow> int option \<Rightarrow> bytes \<Rightarrow> bytes \<Rightarrow> append_result option" where
  "decide h op fact_id fact_version value operation_id digest =
     (case snd h operation_id of
        Some (d, s) \<Rightarrow> Some (if d = digest then (DEDUP_REPLAY, Some s) else (TXID_CONFLICT, None))
      | None \<Rightarrow>
          (case preflight (fst h fact_id) op fact_version value of
             Stale \<Rightarrow> Some (STALE_REJECTED, None)
           | Idempotent \<Rightarrow> Some (IDEMPOTENT, None)
           | Conflict \<Rightarrow> Some (VERSION_CONFLICT, None)
           | Applied \<Rightarrow> None))"

lemma canonical_valid:
  assumes "command_is_canonical op fid fver x oid" "u32 fver" "0 \<le> seq" "seq < MAX_SEQ"
  shows "valid_frame (op, seq, oid, fid, fver, x)"
  using assms
  by (cases op) (auto simp: command_is_canonical_def u32_def split: if_splits option.splits)

lemma canonical_digest:
  assumes "command_is_canonical op fid fver x oid" "u32 fver"
  shows "\<exists>d. content_digest op fid fver x = Inr d"
  using assms
  by (cases op)
    (auto simp: command_is_canonical_def content_digest_def payload_of_def u32_def
      split: if_splits option.splits)

definition ww_apply_commit :: "wal_writer \<Rightarrow> wframe \<Rightarrow> bytes \<Rightarrow> wal_writer" where
  "ww_apply_commit w f digest =
     (case f of (op, seq, oid, fid, fver, x) \<Rightarrow>
        w\<lparr>ww_index := snd (wi_apply (ww_index w) fid fver op x),
          ww_txindex := tx_record (ww_txindex w) oid digest seq,
          ww_next_seq := ww_next_seq w + 1\<rparr>)"

lemma append_decided:
  assumes inv: "writer_inv w fs h" and can: "command_is_canonical op fid fver x oid" "u32 fver"
    and nx: "ww_next_seq w < MAX_SEQ" and dg: "content_digest op fid fver x = Inr d"
  defines "f \<equiv> (op, ww_next_seq w, oid, fid, fver, x)"
  shows "ww_append w op fid fver x oid sc =
    (case decide h op fid fver x oid d of
       Some r \<Rightarrow> (Ret r, w)
     | None \<Rightarrow>
         (case write_sync w (frame_bytes (ww_key w) (ww_scope_id w) (ww_segment_id w) f) sc of
            (Raise e, w1) \<Rightarrow> (Raise e, w1)
          | (Killed, w1) \<Rightarrow> (Killed, w1)
          | (Ret _, w1) \<Rightarrow> (Ret (APPLIED, Some (ww_next_seq w)), ww_apply_commit w1 f d)))"
proof -
  have s: "\<not> ww_poisoned w" "\<not> ww_sealed w" "wi_get (ww_index w) = fst h" "dget (ww_txindex w) = snd h"
    "u32 (ww_scope_id w)" "u32 (ww_segment_id w)" "0 \<le> ww_next_seq w"
    using inv by (auto simp: writer_inv_def seg_id_ok_def next_seq_of_def)
  have v: "valid_frame f" unfolding f_def by (rule canonical_valid [OF can s(7) nx])
  have pl: "payload_of x = Some (frame_payload f)" using payload_of_valid [OF v [unfolded f_def]]
    by (simp add: f_def)
  have en: "encode_frame (ww_key w) (ww_scope_id w) (ww_segment_id w) op (ww_next_seq w) oid fid fver
      (frame_payload f) = Inr (frame_bytes (ww_key w) (ww_scope_id w) (ww_segment_id w) f)"
    unfolding f_def by (rule encode_frame_bytes [OF v [unfolded f_def] s(5,6) pl [unfolded f_def]])
  have ns: "ww_next_seq (snd (write_sync w b sc)) = ww_next_seq w"
    "ww_index (snd (write_sync w b sc)) = ww_index w"
    "ww_txindex (snd (write_sync w b sc)) = ww_txindex w" for b
    by (auto simp: write_sync_def Let_def split: prod.splits io_end.splits option.splits bool.splits)
  let ?b = "frame_bytes (ww_key w) (ww_scope_id w) (ww_segment_id w) f"
  obtain o' w1 where ws: "write_sync w ?b sc = (o', w1)" by fastforce
  have w1: "ww_next_seq w1 = ww_next_seq w" "ww_index w1 = ww_index w" "ww_txindex w1 = ww_txindex w"
    using ns [of ?b] unfolding ws by simp_all
  show ?thesis
    unfolding ww_append_def dg sum.case Let_def tx_check_def tx_get_seq_def s(3,4) pl option.case en ws
    using s(1,2) can(1) w1
    by (auto simp: decide_def preflight_def ww_apply_commit_def f_def split: option.splits out.splits)
qed

lemma current_line_empty [simp]: "current_line l EmptyBaseView f = Some l"
  by (simp add: current_line_def EmptyBaseView_def split: option.split)

lemma probe_empty [simp]: "bv_dedup_probe EmptyBaseView i d = PNew"
  by (simp add: EmptyBaseView_def)

lemma decide_None_step:
  assumes "decide h op fid fver x oid d = None" "content_digest op fid fver x = Inr d"
  shows "abs_step EmptyBaseView h (op, seq, oid, fid, fver, x)
    = Inr (Inr ((fst h)(fid \<mapsto> (fver, op, x)), (snd h)(oid \<mapsto> (d, seq))))"
proof -
  have n: "snd h oid = None" and p: "preflight (fst h fid) op fver x = Applied"
    using assms(1) by (auto simp: decide_def split: option.splits verdict.splits if_splits)
  then show ?thesis using assms(2) by (cases h) (simp add: abs_step_def)
qed

lemma commit_inv:
  assumes inv: "writer_inv w fs h" and v: "valid_frame f" "frame_seq f = ww_next_seq w"
    and st: "abs_step EmptyBaseView h f = Inr (Inr h')"
    and dg: "f = (op, seq, oid, fid, fver, x)" "content_digest op fid fver x = Inr d"
    and w1: "w1 = w\<lparr>ww_file := ww_file w @ frame_bytes (ww_key w) (ww_scope_id w) (ww_segment_id w) f,
      ww_durable := ww_durable w1, ww_poisoned := ww_poisoned w1\<rparr>"
      "\<not> ww_poisoned w1" "ww_durable w1 = length (ww_file w1)"
  shows "writer_inv (ww_apply_commit w1 f d) (fs @ [f]) h'"
proof -
  let ?w = "ww_apply_commit w1 f d"
  note i = inv [unfolded writer_inv_def]
  have k: "ww_file w1 = ww_file w @ frame_bytes (ww_key w) (ww_scope_id w) (ww_segment_id w) f"
    "writer_id w1 = writer_id w" "ww_key w1 = ww_key w" "ww_first_seq w1 = ww_first_seq w"
    "ww_next_seq w1 = ww_next_seq w" "ww_index w1 = ww_index w" "ww_txindex w1 = ww_txindex w"
    "ww_sealed w1 = ww_sealed w"
    by (subst w1(1), simp add: writer_id_def)+
  have c: "ww_file ?w = ww_file w1" "writer_id ?w = writer_id w1" "ww_key ?w = ww_key w1"
    "ww_first_seq ?w = ww_first_seq w1" "ww_sealed ?w = ww_sealed w1" "ww_durable ?w = ww_durable w1"
    "ww_poisoned ?w = ww_poisoned w1" "ww_next_seq ?w = ww_next_seq w1 + 1"
    by (simp_all add: ww_apply_commit_def dg(1) writer_id_def)
  obtain L T where h: "h = (L, T)" by (cases h)
  note st' = st [unfolded abs_step_def h dg(1) prod.case dg(2) sum.case]
  have "T oid = None" using st' by (cases "T oid") simp_all
  then have n: "snd h oid = None" "preflight (fst h fid) op fver x = Applied"
    and h': "h' = ((fst h)(fid \<mapsto> (fver, op, x)), (snd h)(oid \<mapsto> (d, seq)))"
    using st' by (simp_all add: h split: if_split_asm)
  have "wi_get (ww_index ?w) = fst h'"
    using i n(2) k(6)
    by (auto simp: ww_apply_commit_def dg(1) wal.app_get h' fun_eq_iff)
  moreover have "dget (ww_txindex ?w) = snd h'"
    using i k(7) by (auto simp: ww_apply_commit_def dg(1) tx_record_def dget_dput h' fun_eq_iff)
  moreover have "distinct (dkeys (ww_txindex ?w))"
    using i k(7) by (simp add: ww_apply_commit_def dg(1) tx_record_def distinct_dput)
  moreover have "wi_inv (ww_index ?w)"
    using i k(6) by (simp add: ww_apply_commit_def dg(1) wal.app_inv)
  moreover have "abs_replay EmptyBaseView history0 (fs @ [f]) = Inr (Inr h')"
    using i st abs_replay_append [of EmptyBaseView history0 fs h "[f]"] by simp
  moreover have "frames_ok (ww_first_seq w) (fs @ [f])"
    using i v by (simp add: next_seq_of_def)
  ultimately show ?thesis
    using i w1(2,3) unfolding writer_inv_def c k
    by (simp add: wal_image_def next_seq_of_def)
qed

text \<open>Every outcome of an append, and what it leaves in the file.\<close>

lemma append_outcomes:
  assumes inv: "writer_inv w fs h" and can: "command_is_canonical op fid fver x oid" "u32 fver"
    and nx: "ww_next_seq w < MAX_SEQ" and ap: "ww_append w op fid fver x oid sc = (o', w')"
  defines "f \<equiv> (op, ww_next_seq w, oid, fid, fver, x)"
  shows "(\<exists>r. o' = Ret r \<and> fst r \<noteq> APPLIED \<and> w' = w) \<or>
    (valid_frame f \<and> (\<exists>h' k. abs_replay EmptyBaseView history0 (fs @ [f]) = Inr (Inr h') \<and>
      ww_file w' = ww_file w @ take k (frame_bytes (ww_key w) (ww_scope_id w) (ww_segment_id w) f) \<and>
      (if o' = Ret (APPLIED, Some (ww_next_seq w))
       then writer_inv w' (fs @ [f]) h' \<and> ww_durable w' = length (ww_file w')
       else (\<forall>r. o' \<noteq> Ret r) \<and> ww_durable w' = ww_durable w \<and> (o' \<noteq> Killed \<longrightarrow> ww_poisoned w'))))"
proof -
  obtain d where dg: "content_digest op fid fver x = Inr d" using canonical_digest [OF can] by blast
  note ad = append_decided [OF inv can nx dg, of sc, folded f_def]
  show ?thesis
  proof (cases "decide h op fid fver x oid d")
    case (Some r)
    then have "fst r \<noteq> APPLIED"
      by (auto simp: decide_def split: option.splits if_splits verdict.splits)
    then show ?thesis using ad Some ap by auto
  next
    case None
    let ?b = "frame_bytes (ww_key w) (ww_scope_id w) (ww_segment_id w) f"
    have pos: "0 \<le> ww_next_seq w"
      using inv by (auto simp: writer_inv_def next_seq_of_def seg_id_ok_def)
    have v: "valid_frame f" "frame_seq f = ww_next_seq w"
      using canonical_valid [OF can pos nx] by (simp_all add: f_def)
    obtain h' where st: "abs_step EmptyBaseView h f = Inr (Inr h')"
      using decide_None_step [OF None dg] unfolding f_def by blast
    have rp: "abs_replay EmptyBaseView history0 (fs @ [f]) = Inr (Inr h')"
      using inv st abs_replay_append [of EmptyBaseView history0 fs h "[f]"]
      by (simp add: writer_inv_def)
    obtain o1 w1 where ws: "write_sync w ?b sc = (o1, w1)" by fastforce
    from write_sync_cases [OF ws] obtain k where
      w1: "w1 = w\<lparr>ww_file := ww_file w @ take k ?b, ww_durable := ww_durable w1, ww_poisoned := ww_poisoned w1\<rparr>"
      and ok: "o1 = Ret () \<longrightarrow> take k ?b = ?b \<and> ww_durable w1 = length (ww_file w1) \<and> ww_poisoned w1 = ww_poisoned w"
      and bad: "o1 \<noteq> Ret () \<longrightarrow> ww_durable w1 = ww_durable w \<and> (\<forall>x. o1 = Raise x \<longrightarrow> ww_poisoned w1)"
      by blast
    have fl: "ww_file w1 = ww_file w @ take k ?b" by (subst w1) simp
    show ?thesis
    proof (cases o1)
      case (Ret u)
      then have r: "o' = Ret (APPLIED, Some (ww_next_seq w))" "w' = ww_apply_commit w1 f d"
        using ad None ap ws by auto
      have "\<not> ww_poisoned w1" using ok Ret inv by (simp add: writer_inv_def)
      then have "writer_inv w' (fs @ [f]) h'"
        unfolding r using commit_inv [OF inv v st f_def [THEN meta_eq_to_obj_eq] dg, of w1] w1 ok Ret by simp
      moreover have "ww_file w' = ww_file w1" "ww_durable w' = ww_durable w1"
        by (simp_all add: r ww_apply_commit_def f_def)
      ultimately show ?thesis
        using r v(1) rp fl ok Ret by (intro disjI2 conjI exI [of _ h'] exI [of _ k]) simp_all
    next
      case (Raise e)
      then have "o' = Raise e" "w' = w1" using ad None ap ws by auto
      then show ?thesis using v(1) rp fl bad Raise by auto
    next
      case Killed
      then have "o' = Killed" "w' = w1" using ad None ap ws by auto
      then show ?thesis using v(1) rp fl bad Killed by auto
    qed
  qed
qed

end
