(* ===== verification/WalCrash.thy ===== *)
theory WalCrash
  imports WalWriter
begin

section \<open>Crashes, recovery and resumption of the log\<close>

text \<open>
  A crash leaves any prefix of the file that contains what was durable. Recovery of such a
  file yields the history of its complete frames: the operations acknowledged before the
  crash are there, an operation in flight is there entirely or not at all, and a resumed
  writer continues from it. The lemmas also cover the sealed file and its second footer.
\<close>

definition crash_image :: "wal_writer \<Rightarrow> bytes \<Rightarrow> bool" where
  "crash_image w b \<longleftrightarrow> (\<exists>k. ww_durable w \<le> k \<and> k \<le> length (ww_file w) \<and> b = take k (ww_file w))"

text \<open>A recovery that yields the history \<open>h\<close> of \<open>n\<close> frames.\<close>

definition recovers_to ::
  "bytes \<Rightarrow> int \<Rightarrow> int \<Rightarrow> bytes \<Rightarrow> nat \<Rightarrow> history \<Rightarrow> bool" where
  "recovers_to key sc sg b n h \<longleftrightarrow>
     (\<exists>r. recover (Some b) key True sc sg None None = Inr r \<and>
        rc_class r \<in> {ScanClass CLEAN, ScanClass TAIL_DROPPED} \<and>
        wi_get (rc_index r) = fst h \<and> dget (rc_txindex r) = snd h \<and> rc_applied_count r = n)"

lemma tx_reads_ext:
  assumes "\<And>k d. tx_check m k d = (case T k of None \<Rightarrow> TxNew
      | Some (e, s) \<Rightarrow> if e = d then TxReplay else TxConflict)"
    and "\<And>k. tx_get_seq m k = map_option snd (T k)"
  shows "dget m = T"
proof
  fix k
  show "dget m k = T k"
  proof (cases "T k")
    case None
    then show ?thesis using assms(1) [of k "[]"] by (simp add: tx_check_new)
  next
    case (Some p)
    obtain e s where p: "p = (e, s)" by (cases p)
    have "tx_check m k e = TxReplay" "tx_get_seq m k = Some s"
      using assms(1) [of k e] assms(2) [of k] Some p by simp_all
    then show ?thesis
      using Some p by (auto simp: tx_check_def tx_get_seq_def split: option.splits if_splits)
  qed
qed

lemma reduce_plain:
  assumes "abs_replay EmptyBaseView history0 fs = Inr (Inr h)"
  shows "\<exists>rr. reduce_frames plain_ops fs None None i = Inr rr \<and> rr_class rr = REDUCE_OK \<and>
    wi_inv (rr_index rr) \<and> distinct (dkeys (rr_txindex rr)) \<and>
    wi_get (rr_index rr) = fst h \<and> dget (rr_txindex rr) = snd h \<and>
    rr_applied_count rr = length fs \<and> rr_applied_seq rr = (if fs = [] then i else fst (snd (last fs)))"
proof -
  from plain.reduce_frames_refines [where base = None and frs = fs and i = i] assms obtain rr where
    rr: "reduce_frames plain_ops fs None None i = Inr rr" "rr_class rr = REDUCE_OK"
      "wi_inv (rr_index rr)" "distinct (dkeys (rr_txindex rr))"
      "io_wal_get plain_ops (rr_index rr) = fst h"
      "\<And>k d. io_tx_check plain_ops (rr_txindex rr) k d = (case snd h k of None \<Rightarrow> TxNew
           | Some (e, s) \<Rightarrow> if e = d then TxReplay else TxConflict)"
      "\<And>k. io_tx_get_seq plain_ops (rr_txindex rr) k = map_option snd (snd h k)"
      "rr_applied_count rr = length fs"
      "rr_applied_seq rr = (if fs = [] then i else fst (snd (last fs)))"
    by auto
  have "dget (rr_txindex rr) = snd h"
    using rr(6,7) by (intro tx_reads_ext) (simp_all add: plain_ops_def)
  then show ?thesis using rr by (intro exI [of _ rr]) (simp add: plain_ops_def)
qed

lemma recover_scanned:
  assumes "scan (Some b) key True sc sg None = sr" "sr_class sr \<in> {CLEAN, TAIL_DROPPED}"
    and "abs_replay EmptyBaseView history0 (sr_frames sr) = Inr (Inr h)"
  shows "recovers_to key sc sg b (length (sr_frames sr)) h"
proof -
  from reduce_plain [OF assms(3), of 0] obtain rr where
    rr: "reduce_frames plain_ops (sr_frames sr) None None 0 = Inr rr" "rr_class rr = REDUCE_OK"
      "wi_get (rr_index rr) = fst h" "dget (rr_txindex rr) = snd h"
      "rr_applied_count rr = length (sr_frames sr)"
    by blast
  then show ?thesis
    using assms(1,2) by (auto simp: recovers_to_def recover_def Let_def)
qed

lemma abs_replay_take:
  assumes "abs_replay b h fs = Inr (Inr h')"
  shows "\<exists>h''. abs_replay b h (take n fs) = Inr (Inr h'')"
  using assms
  by (induction fs arbitrary: h n) (auto simp: take_Cons split: sum.splits nat.splits)

subsection \<open>Any cut of an ACTIVE file\<close>

lemma take_frames_bytes:
  assumes "\<forall>f \<in> set fs. valid_frame f" "k \<le> length (frames_bytes key sc sg fs)"
  shows "\<exists>n \<le> length fs. \<exists>t. take k (frames_bytes key sc sg fs) = frames_bytes key sc sg (take n fs) @ t \<and>
    (t = [] \<or> (n < length fs \<and> (\<exists>j. 0 < j \<and> j < frame_len (fs ! n) \<and>
        t = take j (frame_bytes key sc sg (fs ! n)))))"
  using assms
proof (induction fs arbitrary: k)
  case Nil
  then show ?case by simp
next
  case (Cons f fs)
  let ?b = "frame_bytes key sc sg f"
  have l: "length ?b = frame_len f" using Cons.prems by (simp add: length_frame_bytes)
  show ?case
  proof (cases "k < frame_len f")
    case True
    then show ?thesis
      using l by (intro exI [of _ 0]) (cases "k = 0"; auto intro: exI [of _ k])
  next
    case False
    have "k - frame_len f \<le> length (frames_bytes key sc sg fs)" "\<forall>f \<in> set fs. valid_frame f"
      using Cons.prems l False by simp_all
    from Cons.IH [OF this(2,1)] obtain n t where n: "n \<le> length fs"
      "take (k - frame_len f) (frames_bytes key sc sg fs) = frames_bytes key sc sg (take n fs) @ t"
      "t = [] \<or> (n < length fs \<and> (\<exists>j. 0 < j \<and> j < frame_len (fs ! n) \<and>
        t = take j (frame_bytes key sc sg (fs ! n))))"
      by blast
    then show ?thesis
      using False l by (intro exI [of _ "Suc n"]) auto
  qed
qed

text \<open>The frames a cut leaves whole.\<close>

lemma scan_cut:
  assumes s: "seg_id_ok s" and ok: "frames_ok (sg_first s) fs"
    and k: "67 \<le> k" "k \<le> length (wal_image key s fs)"
  shows "\<exists>n \<le> length fs. \<exists>c d. scan (Some (take k (wal_image key s fs))) key req (sg_scope s) (sg_segment s) None =
      \<lparr>sr_class = c, sr_frames = take n fs, sr_last_seq = next_seq_of s (take n fs) - 1,
       sr_consumed = length (wal_image key s (take n fs)), sr_dropped = d, sr_sealed = False,
       sr_header = Some (header_info s)\<rparr> \<and> c \<in> {CLEAN, TAIL_DROPPED} \<and>
      take (length (wal_image key s (take n fs))) (take k (wal_image key s fs)) = wal_image key s (take n fs) \<and>
      (c = CLEAN \<longrightarrow> take k (wal_image key s fs) = wal_image key s (take n fs)) \<and>
      (\<forall>m \<le> length fs. length (wal_image key s (take m fs)) \<le> k \<longrightarrow> m \<le> n)"
proof -
  let ?F = "frames_bytes key (sg_scope s) (sg_segment s)"
  have v: "\<forall>f \<in> set fs. valid_frame f" using ok by (simp add: frames_ok_def)
  have lh: "length (header_bytes key s) = 67" by (rule length_header_bytes [OF s])
  have "k - 67 \<le> length (?F fs)" using k lh by (simp add: wal_image_def)
  from take_frames_bytes [OF v this] obtain n t where
    n: "n \<le> length fs" and t: "take (k - 67) (?F fs) = ?F (take n fs) @ t"
    and cs: "t = [] \<or> (n < length fs \<and> (\<exists>j. 0 < j \<and> j < frame_len (fs ! n) \<and>
        t = take j (frame_bytes key (sg_scope s) (sg_segment s) (fs ! n))))"
    by blast
  have img: "take k (wal_image key s fs) = wal_image key s (take n fs) @ t"
    using t lh k by (simp add: wal_image_def)
  have okn: "frames_ok (sg_first s) (take n fs)"
    using ok append_take_drop_id [of n fs] by (metis frames_ok_simps(3))
  have mx: "m \<le> n" if m: "m \<le> length fs" "length (wal_image key s (take m fs)) \<le> k" for m
  proof (rule ccontr)
    assume "\<not> m \<le> n"
    then have lt: "n < length fs" "n < m" using m by simp_all
    then have "take m fs = take n fs @ fs ! n # take (m - Suc n) (drop (Suc n) fs)"
      by (metis Cons_nth_drop_Suc Suc_diff_Suc less_imp_le_nat take_Suc_Cons take_add
          le_add_diff_inverse)
    then have a: "length (wal_image key s (take n fs)) + frame_len (fs ! n) \<le> k"
      using m(2) v lt by (simp add: wal_image_def length_frame_bytes)
    have "length (take k (wal_image key s fs)) = k" using k by simp
    then have "k = length (wal_image key s (take n fs)) + length t" unfolding img by simp
    moreover have "length t < frame_len (fs ! n)" using cs frame_len_bounds [of "fs ! n"] by auto
    ultimately show False using a by simp
  qed
  show ?thesis
  proof (cases "t = []")
    case True
    then show ?thesis
      unfolding img using scan_image_clean [OF s okn, of key req] mx n
      by (intro exI [of _ n]) auto
  next
    case False
    then obtain j where j: "0 < j" "j < frame_len (fs ! n)" "n < length fs"
      "t = take j (frame_bytes key (sg_scope s) (sg_segment s) (fs ! n))"
      using cs by auto
    have "valid_frame (fs ! n)" using v j(3) by simp
    from scan_image_frame_torn [OF s okn this j(1,2), of key req] show ?thesis
      unfolding img using mx n j(4) by (intro exI [of _ n]) auto
  qed
qed

text \<open>Recovery of a cut file.\<close>

lemma recover_cut:
  assumes s: "seg_id_ok s" and ok: "frames_ok (sg_first s) fs"
    and h: "abs_replay EmptyBaseView history0 fs = Inr (Inr h)"
    and k: "67 \<le> k" "k \<le> length (wal_image key s fs)"
  shows "\<exists>n \<le> length fs. \<exists>hn. abs_replay EmptyBaseView history0 (take n fs) = Inr (Inr hn) \<and>
    recovers_to key (sg_scope s) (sg_segment s) (take k (wal_image key s fs)) n hn \<and>
    (\<forall>m \<le> length fs. length (wal_image key s (take m fs)) \<le> k \<longrightarrow> m \<le> n)"
proof -
  from scan_cut [OF s ok k, of True] obtain n sr where
    n: "n \<le> length fs" "scan (Some (take k (wal_image key s fs))) key True (sg_scope s) (sg_segment s) None = sr"
      "sr_class sr \<in> {CLEAN, TAIL_DROPPED}" "sr_frames sr = take n fs"
      "\<forall>m \<le> length fs. length (wal_image key s (take m fs)) \<le> k \<longrightarrow> m \<le> n"
    by auto
  obtain hn where hn: "abs_replay EmptyBaseView history0 (take n fs) = Inr (Inr hn)"
    using abs_replay_take [OF h] by blast
  have "recovers_to key (sg_scope s) (sg_segment s) (take k (wal_image key s fs)) n hn"
    using recover_scanned [OF n(2,3)] hn n(1,4) by simp
  then show ?thesis using n(1,5) hn by blast
qed

subsection \<open>Resuming\<close>

lemma resume_scanned:
  assumes s: "seg_id_ok s"
    and sr: "scan (Some b) key True (sg_scope s) (sg_segment s) None =
      \<lparr>sr_class = c, sr_frames = fs, sr_last_seq = next_seq_of s fs - 1,
       sr_consumed = length (wal_image key s fs), sr_dropped = d, sr_sealed = False,
       sr_header = Some (header_info s)\<rparr>"
    and c: "c \<in> {CLEAN, TAIL_DROPPED}"
    and b: "take (length (wal_image key s fs)) b = wal_image key s fs" "c = CLEAN \<longrightarrow> b = wal_image key s fs"
    and ok: "frames_ok (sg_first s) fs" and h: "abs_replay EmptyBaseView history0 fs = Inr (Inr h)"
    and du: "du \<le> length b"
    and ex: "ek = None \<or> ek = Some (sg_key_id s)" "ep = None \<or> ep = Some (sg_prev s)"
  shows "\<exists>w. resume_existing b du key (sg_scope s) (sg_segment s) mc ek ep = Inr w \<and> writer_inv w fs h \<and>
    writer_id w = s \<and> ww_key w = key \<and>
    ww_durable w = (if c = CLEAN then du else length (ww_file w))"
proof -
  from reduce_plain [OF h, of 0] obtain rr where
    rr: "reduce_frames plain_ops fs None None 0 = Inr rr" "rr_class rr = REDUCE_OK"
      "wi_inv (rr_index rr)" "distinct (dkeys (rr_txindex rr))"
      "wi_get (rr_index rr) = fst h" "dget (rr_txindex rr) = snd h"
    by blast
  let ?w = "\<lparr>ww_file = wal_image key s fs,
      ww_durable = (if c = TAIL_DROPPED then length (wal_image key s fs) else du), ww_key = key,
      ww_scope_id = sg_scope s, ww_segment_id = sg_segment s, ww_first_seq = sg_first s,
      ww_key_id = sg_key_id s, ww_prev_digest = sg_prev s, ww_next_seq = next_seq_of s fs,
      ww_max_chunk = mc, ww_index = rr_index rr, ww_txindex = rr_txindex rr, ww_poisoned = False,
      ww_sealed = False\<rparr>"
  have id: "writer_id ?w = s" by (cases s) (simp add: writer_id_def)
  have "resume_existing b du key (sg_scope s) (sg_segment s) mc ek ep = Inr ?w"
    using c b ex rr(1,2) by (auto simp: resume_existing_def sr Let_def header_info_def)
  moreover have "writer_inv ?w fs h"
    using s ok h rr du b(2) c by (auto simp: writer_inv_def id)
  ultimately show ?thesis using id c by (intro exI [of _ ?w]) auto
qed

lemma resume_cut:
  assumes s: "seg_id_ok s" and ok: "frames_ok (sg_first s) fs"
    and h: "abs_replay EmptyBaseView history0 fs = Inr (Inr h)"
    and k: "67 \<le> k" "k \<le> length (wal_image key s fs)" and du: "du \<le> k"
  shows "\<exists>n \<le> length fs. \<exists>hn w. abs_replay EmptyBaseView history0 (take n fs) = Inr (Inr hn) \<and>
    resume_existing (take k (wal_image key s fs)) du key (sg_scope s) (sg_segment s) mc None None = Inr w \<and>
    writer_inv w (take n fs) hn \<and> writer_id w = s \<and> ww_key w = key \<and>
    (ww_durable w = du \<or> ww_durable w = length (ww_file w)) \<and>
    (\<forall>m \<le> length fs. length (wal_image key s (take m fs)) \<le> k \<longrightarrow> m \<le> n)"
proof -
  from scan_cut [OF s ok k, of True] obtain n c d where
    n: "n \<le> length fs" and sr: "scan (Some (take k (wal_image key s fs))) key True (sg_scope s) (sg_segment s) None =
      \<lparr>sr_class = c, sr_frames = take n fs, sr_last_seq = next_seq_of s (take n fs) - 1,
       sr_consumed = length (wal_image key s (take n fs)), sr_dropped = d, sr_sealed = False,
       sr_header = Some (header_info s)\<rparr>"
    and c: "c \<in> {CLEAN, TAIL_DROPPED}"
      "take (length (wal_image key s (take n fs))) (take k (wal_image key s fs)) = wal_image key s (take n fs)"
      "c = CLEAN \<longrightarrow> take k (wal_image key s fs) = wal_image key s (take n fs)"
    and mx: "\<forall>m \<le> length fs. length (wal_image key s (take m fs)) \<le> k \<longrightarrow> m \<le> n"
    by blast
  obtain hn where hn: "abs_replay EmptyBaseView history0 (take n fs) = Inr (Inr hn)"
    using abs_replay_take [OF h] by blast
  have okn: "frames_ok (sg_first s) (take n fs)"
    using ok append_take_drop_id [of n fs] by (metis frames_ok_simps(3))
  have "du \<le> length (take k (wal_image key s fs))" using k du by simp
  from resume_scanned [OF s sr c okn hn this, of None None mc] show ?thesis
    using n hn mx by (metis (full_types))
qed

lemma abs_replay_keeps:
  "abs_replay b h fs = Inr (Inr h') \<Longrightarrow> snd h i = Some x \<Longrightarrow> snd h' i = Some x"
proof (induction fs arbitrary: h)
  case Nil
  then show ?case by simp
next
  case (Cons f fs)
  obtain op seq oid fid fver y where f: "f = (op, seq, oid, fid, fver, y)" by (cases f) auto
  obtain h1 where h1: "abs_step b h f = Inr (Inr h1)" "abs_replay b h1 fs = Inr (Inr h')"
    using Cons.prems(1) by (auto split: sum.splits)
  then have "snd h1 i = Some x"
    using Cons.prems(2) by (cases h; cases x) (auto simp: abs_step_def f split: sum.splits option.splits if_splits)
  then show ?case using Cons.IH h1(2) by blast
qed

lemma abs_replay_take_keeps:
  assumes "abs_replay b h (take m fs) = Inr (Inr hm)" "abs_replay b h (take n fs) = Inr (Inr hn)"
    "m \<le> n" "snd hm i = Some x"
  shows "snd hn i = Some x"
proof -
  have "take n fs = take m fs @ take (n - m) (drop m fs)"
    using assms(3) by (metis le_add_diff_inverse take_add)
  then have "abs_replay b hm (take (n - m) (drop m fs)) = Inr (Inr hn)"
    using assms(1,2) abs_replay_append [OF assms(1)] by metis
  then show ?thesis using abs_replay_keeps assms(4) by blast
qed

subsection \<open>The log under crashes, as a state machine\<close>

text \<open>
  A run of the writer: appends of any command with any answers of the operating system, and
  crashes. A crash at any moment keeps some prefix of the file that contains the durable part
  and the log is resumed from it (a killed process keeps everything, a power loss what was
  synced, so at least \<open>du\<close> bytes of the file that is resumed are durable).
  \<open>sy_acked\<close> collects operation id, digest and sequence number of every APPLIED answer.
\<close>

record wal_sys =
  sy_writer :: wal_writer
  sy_dead :: bool
  sy_acked :: "(bytes \<times> bytes \<times> int) list"

definition ack_of :: "append_result out \<Rightarrow> exn + bytes \<Rightarrow> bytes \<Rightarrow> (bytes \<times> bytes \<times> int) list" where
  "ack_of o' dg oid =
     (case (o', dg) of (Ret (APPLIED, Some s), Inr d) \<Rightarrow> [(oid, d, s)] | _ \<Rightarrow> [])"

inductive wal_step :: "wal_sys \<Rightarrow> wal_sys \<Rightarrow> bool" where
  step_append:
    "ww_next_seq w < MAX_SEQ \<Longrightarrow> ww_append w op fid fver x oid sc = (o', w') \<Longrightarrow>
     wal_step \<lparr>sy_writer = w, sy_dead = False, sy_acked = A\<rparr>
       \<lparr>sy_writer = w', sy_dead = (o' = Killed),
        sy_acked = ack_of o' (content_digest op fid fver x) oid @ A\<rparr>"
| step_crash:
    "ww_durable w \<le> du \<Longrightarrow> du \<le> k \<Longrightarrow> k \<le> length (ww_file w) \<Longrightarrow>
     resume_existing (take k (ww_file w)) du (ww_key w) (ww_scope_id w) (ww_segment_id w) mc None None
       = Inr w' \<Longrightarrow>
     wal_step \<lparr>sy_writer = w, sy_dead = dead, sy_acked = A\<rparr>
       \<lparr>sy_writer = w', sy_dead = False, sy_acked = A\<rparr>"

inductive wal_reachable :: "wal_sys \<Rightarrow> bool" where
  reach_new:
    "create_new None key sc sg first mc kid prev io = (Ret w, file) \<Longrightarrow> u32 sc \<Longrightarrow> u32 sg \<Longrightarrow>
     0 \<le> first \<Longrightarrow> first < MAX_SEQ \<Longrightarrow> u32 kid \<Longrightarrow> length prev = 16 \<Longrightarrow>
     wal_reachable \<lparr>sy_writer = w, sy_dead = False, sy_acked = []\<rparr>"
| reach_step: "wal_reachable st \<Longrightarrow> wal_step st st' \<Longrightarrow> wal_reachable st'"

text \<open>
  The invariant: the file is a cut of the image of some history, its durable part contains
  every acknowledged operation, and a live writer that is not poisoned is exactly there.
\<close>

definition sys_at :: "wal_sys \<Rightarrow> wframe list \<Rightarrow> history \<Rightarrow> nat \<Rightarrow> history \<Rightarrow> bool" where
  "sys_at st fs h m hm \<longleftrightarrow>
     (let w = sy_writer st; s = writer_id w; key = ww_key w in
      seg_id_ok s \<and> frames_ok (sg_first s) fs \<and>
      abs_replay EmptyBaseView history0 fs = Inr (Inr h) \<and>
      (\<exists>k \<le> length (wal_image key s fs). ww_file w = take k (wal_image key s fs)) \<and>
      67 \<le> ww_durable w \<and> ww_durable w \<le> length (ww_file w) \<and>
      m \<le> length fs \<and> length (wal_image key s (take m fs)) \<le> ww_durable w \<and>
      abs_replay EmptyBaseView history0 (take m fs) = Inr (Inr hm) \<and>
      (\<forall>(oid, d, q) \<in> set (sy_acked st). snd hm oid = Some (d, q)) \<and>
      (sy_dead st \<or> ww_poisoned w \<or> writer_inv w fs h))"

definition sys_inv :: "wal_sys \<Rightarrow> bool" where
  "sys_inv st \<longleftrightarrow> (\<exists>fs h m hm. sys_at st fs h m hm)"

lemma image_take_mono:
  "m \<le> n \<Longrightarrow> length (wal_image key s (take m fs)) \<le> length (wal_image key s (take n fs))"
proof -
  assume "m \<le> n"
  then have "take n fs = take m fs @ take (n - m) (drop m fs)"
    by (metis le_add_diff_inverse take_add)
  then show ?thesis by (simp add: wal_image_def)
qed

lemma append_same_id:
  assumes "ww_append w op fid fver x oid sc = (o', w')"
  shows "writer_id w' = writer_id w" "ww_key w' = ww_key w"
proof -
  have ws: "writer_id (snd (write_sync v b sc)) = writer_id v \<and> ww_key (snd (write_sync v b sc)) = ww_key v"
    for v b
    by (auto simp: write_sync_def Let_def writer_id_def split: prod.splits io_end.splits option.splits bool.splits)
  have "writer_id (snd (ww_append w op fid fver x oid sc)) = writer_id w \<and>
      ww_key (snd (ww_append w op fid fver x oid sc)) = ww_key w"
    using ws [of w] unfolding ww_append_def Let_def
    by (auto simp: writer_id_def split: sum.splits option.splits prod.splits out.splits tx_verdict.splits if_splits)
      (metis snd_conv)+
  then show "writer_id w' = writer_id w" "ww_key w' = ww_key w" using assms by simp_all
qed

lemma sys_inv_append:
  assumes at: "sys_at \<lparr>sy_writer = w, sy_dead = False, sy_acked = A\<rparr> fs h m hm"
    and nx: "ww_next_seq w < MAX_SEQ" and ap: "ww_append w op fid fver x oid sc = (o', w')"
  shows "sys_inv \<lparr>sy_writer = w', sy_dead = (o' = Killed),
    sy_acked = ack_of o' (content_digest op fid fver x) oid @ A\<rparr>"
proof -
  have same: ?thesis if "w' = w" "o' \<noteq> Killed" "\<And>s. o' \<noteq> Ret (APPLIED, Some s)"
  proof -
    have "ack_of o' (content_digest op fid fver x) oid = []"
      using that(3) by (auto simp: ack_of_def split: out.splits append_status.splits option.splits sum.splits)
    then have "sys_at \<lparr>sy_writer = w', sy_dead = (o' = Killed),
        sy_acked = ack_of o' (content_digest op fid fver x) oid @ A\<rparr> fs h m hm"
      using at that(1,2) by simp
    then show ?thesis unfolding sys_inv_def by blast
  qed
  show ?thesis
  proof (cases "ww_poisoned w \<or> \<not> command_is_canonical op fid fver x oid")
    case True
    then show ?thesis using ap by (intro same) (auto simp: ww_append_def split: if_splits)
  next
    case False
    then have inv: "writer_inv w fs h" using at by (simp add: sys_at_def Let_def)
    show ?thesis
    proof (cases "u32 fver")
      case bad: False
      then have "content_digest op fid fver x = Inl StructError"
        using False by (cases op) (auto simp: command_is_canonical_def content_digest_def u32_def
            payload_of_def split: if_splits option.splits)
      then show ?thesis
        using ap False inv by (intro same) (auto simp: ww_append_def writer_inv_def)
    next
      case True
      let ?f = "(op, ww_next_seq w, oid, fid, fver, x)"
      have can: "command_is_canonical op fid fver x oid" using False by simp
      note id = append_same_id [OF ap]
      have fst_seq: "ww_first_seq w' = ww_first_seq w" using arg_cong [OF id(1), of sg_first] by simp
      from append_outcomes [OF inv can True nx ap] show ?thesis
      proof (elim disjE exE conjE)
        fix r assume "o' = Ret r" "fst r \<noteq> APPLIED" "w' = w"
        then show ?thesis by (intro same) auto
      next
        fix h' k
        assume v: "valid_frame ?f" and rp: "abs_replay EmptyBaseView history0 (fs @ [?f]) = Inr (Inr h')"
          and fl: "ww_file w' = ww_file w @ take k (frame_bytes (ww_key w) (ww_scope_id w) (ww_segment_id w) ?f)"
          and cs: "if o' = Ret (APPLIED, Some (ww_next_seq w))
            then writer_inv w' (fs @ [?f]) h' \<and> ww_durable w' = length (ww_file w')
            else (\<forall>r. o' \<noteq> Ret r) \<and> ww_durable w' = ww_durable w \<and> (o' \<noteq> Killed \<longrightarrow> ww_poisoned w')"
        have img: "ww_file w = wal_image (ww_key w) (writer_id w) fs" using inv by (simp add: writer_inv_def)
        have img': "wal_image (ww_key w) (writer_id w) (fs @ [?f])
            = ww_file w @ frame_bytes (ww_key w) (ww_scope_id w) (ww_segment_id w) ?f"
          by (simp add: img wal_image_def)
        have ok: "frames_ok (ww_first_seq w) (fs @ [?f])"
          using inv v by (simp add: writer_inv_def next_seq_of_def)
        have old: "snd h' i = Some y" if "snd hm i = Some y" for i y
          using abs_replay_take_keeps [of EmptyBaseView history0 m "fs @ [?f]" hm "length (fs @ [?f])" h' i y]
            at rp that by (simp add: sys_at_def Let_def)
        show ?thesis
        proof (cases "o' = Ret (APPLIED, Some (ww_next_seq w))")
          case True
          obtain d where d: "content_digest op fid fver x = Inr d" using canonical_digest [OF can \<open>u32 fver\<close>] by blast
          have new: "snd h' oid = Some (d, ww_next_seq w)"
          proof -
            have "abs_step EmptyBaseView h ?f = Inr (Inr h')"
              using rp inv abs_replay_append [of EmptyBaseView history0 fs h "[?f]"]
              by (auto simp: writer_inv_def split: sum.splits)
            then show ?thesis using d by (cases h) (auto simp: abs_step_def split: if_splits option.splits)
          qed
          have w': "writer_inv w' (fs @ [?f]) h'" "ww_durable w' = length (ww_file w')" using cs True by simp_all
          have "67 \<le> length (ww_file w')" using at fl by (simp add: sys_at_def Let_def)
          then have "sys_at \<lparr>sy_writer = w', sy_dead = (o' = Killed),
              sy_acked = ack_of o' (content_digest op fid fver x) oid @ A\<rparr> (fs @ [?f]) h' (length (fs @ [?f])) h'"
            using w' at rp new old True d
            by (auto simp: sys_at_def Let_def ack_of_def writer_inv_def)
          then show ?thesis unfolding sys_inv_def by blast
        next
          case no: False
          then have "ack_of o' (content_digest op fid fver x) oid = []"
            using cs by (auto simp: ack_of_def split: out.splits)
          moreover have "length (wal_image (ww_key w) (writer_id w) (take m (fs @ [?f]))) \<le> ww_durable w"
            "take m (fs @ [?f]) = take m fs"
            using at by (simp_all add: sys_at_def Let_def)
          moreover have "\<exists>j \<le> length (wal_image (ww_key w) (writer_id w) (fs @ [?f])).
              ww_file w' = take j (wal_image (ww_key w) (writer_id w) (fs @ [?f]))"
            unfolding img' fl
            by (rule exI [of _ "length (ww_file w) + min k (length (frame_bytes (ww_key w) (ww_scope_id w) (ww_segment_id w) ?f))"])
              (simp add: min_def)
          moreover have "ww_durable w \<le> length (ww_file w')" using at fl by (simp add: sys_at_def Let_def)
          ultimately have "sys_at \<lparr>sy_writer = w', sy_dead = (o' = Killed),
              sy_acked = ack_of o' (content_digest op fid fver x) oid @ A\<rparr> (fs @ [?f]) h' m hm"
            using at rp ok cs no id fst_seq by (auto simp: sys_at_def Let_def)
          then show ?thesis unfolding sys_inv_def by blast
        qed
      qed
    qed
  qed
qed

lemma sys_inv_crash:
  assumes at: "sys_at \<lparr>sy_writer = w, sy_dead = dead, sy_acked = A\<rparr> fs h m hm"
    and k: "ww_durable w \<le> du" "du \<le> k" "k \<le> length (ww_file w)"
    and rs: "resume_existing (take k (ww_file w)) du (ww_key w) (ww_scope_id w) (ww_segment_id w) mc None None
       = Inr w'"
  shows "sys_inv \<lparr>sy_writer = w', sy_dead = False, sy_acked = A\<rparr>"
proof -
  let ?s = "writer_id w"
  have s: "seg_id_ok ?s" "frames_ok (sg_first ?s) fs" "abs_replay EmptyBaseView history0 fs = Inr (Inr h)"
    "67 \<le> k" using at k by (simp_all add: sys_at_def Let_def)
  obtain j where j: "j \<le> length (wal_image (ww_key w) ?s fs)" "ww_file w = take j (wal_image (ww_key w) ?s fs)"
    using at by (auto simp: sys_at_def Let_def)
  have cut: "take k (ww_file w) = take k (wal_image (ww_key w) ?s fs)"
    using j k(3) by (simp add: min_absorb1)
  have "k \<le> length (wal_image (ww_key w) ?s fs)" using j k(3) by simp
  from resume_cut [OF s this k(2), of mc] obtain n hn v where
    n: "n \<le> length fs" "abs_replay EmptyBaseView history0 (take n fs) = Inr (Inr hn)"
      "resume_existing (take k (wal_image (ww_key w) ?s fs)) du (ww_key w) (sg_scope ?s) (sg_segment ?s) mc None None = Inr v"
      "writer_inv v (take n fs) hn" "writer_id v = ?s" "ww_key v = ww_key w"
      "ww_durable v = du \<or> ww_durable v = length (ww_file v)"
    and mx: "\<And>i. i \<le> length fs \<Longrightarrow> length (wal_image (ww_key w) ?s (take i fs)) \<le> k \<Longrightarrow> i \<le> n"
    by blast
  have v: "v = w'" using n(3) rs unfolding cut by simp
  have m: "m \<le> length fs" "length (wal_image (ww_key w) ?s (take m fs)) \<le> ww_durable w"
    using at by (simp_all add: sys_at_def Let_def)
  then have mn: "m \<le> n" using mx k by simp
  have fl: "ww_file v = wal_image (ww_key w) ?s (take n fs)"
    using n(4-6) by (simp add: writer_inv_def)
  have "67 \<le> length (wal_image (ww_key w) ?s (take n fs))"
    using length_header_bytes [OF s(1)] by (simp add: wal_image_def)
  then have du: "67 \<le> ww_durable v" "length (wal_image (ww_key w) ?s (take m fs)) \<le> ww_durable v"
    using n(7) fl image_take_mono [OF mn, of "ww_key w" ?s fs] at k m(2)
    by (auto simp: sys_at_def Let_def)
  have "sys_at \<lparr>sy_writer = v, sy_dead = False, sy_acked = A\<rparr> (take n fs) hn m hm"
    using at n du mn by (auto simp: sys_at_def Let_def writer_inv_def min_def)
  then show ?thesis unfolding v sys_inv_def by blast
qed

lemma wal_step_inv: "wal_step st st' \<Longrightarrow> sys_inv st \<Longrightarrow> sys_inv st'"
proof (induction rule: wal_step.induct)
  case (step_append w op fid fver x oid sc o' w' A)
  then show ?case using sys_inv_append unfolding sys_inv_def [of "\<lparr>sy_writer = w, sy_dead = False, sy_acked = A\<rparr>"]
    by blast
next
  case (step_crash w du k mc w' dead A)
  then show ?case using sys_inv_crash unfolding sys_inv_def [of "\<lparr>sy_writer = w, sy_dead = dead, sy_acked = A\<rparr>"]
    by blast
qed

lemma create_new_durable:
  assumes "create_new None key sc sg first mc kid prev io = (Ret w, file)"
  shows "ww_durable w = length (ww_file w)"
proof -
  have "fst (write_sync v b io) = Ret () \<Longrightarrow> ww_durable (snd (write_sync v b io)) = length (ww_file (snd (write_sync v b io)))"
    for v b
    using write_sync_cases [of v b io "fst (write_sync v b io)" "snd (write_sync v b io)"] by (metis prod.collapse)
  then show ?thesis
    using assms by (auto simp: create_new_def Let_def split: option.splits prod.splits out.splits) (metis fst_conv snd_conv)
qed

lemma wal_reachable_inv: "wal_reachable st \<Longrightarrow> sys_inv st"
proof (induction rule: wal_reachable.induct)
  case (reach_new key sc sg first mc kid prev io w fl)
  have i: "writer_inv w [] history0" using create_new_inv [OF reach_new] by simp
  have d: "ww_durable w = length (ww_file w)" by (rule create_new_durable [OF reach_new(1)])
  have l: "length (ww_file w) = 67"
    using i length_header_bytes [of "writer_id w"] by (simp add: writer_inv_def wal_image_def)
  have "sys_at \<lparr>sy_writer = w, sy_dead = False, sy_acked = []\<rparr> [] history0 0 history0"
    using i d l by (auto simp: sys_at_def Let_def writer_inv_def)
  then show ?case unfolding sys_inv_def by blast
next
  case (reach_step st st')
  then show ?case using wal_step_inv by blast
qed

text \<open>Whatever a crash leaves recovers to a history that has every acknowledged operation.\<close>

lemma sys_inv_recovers:
  assumes inv: "sys_inv st" and cr: "crash_image (sy_writer st) b"
  shows "\<exists>n h. recovers_to (ww_key (sy_writer st)) (ww_scope_id (sy_writer st)) (ww_segment_id (sy_writer st)) b n h \<and>
    (\<forall>(oid, d, q) \<in> set (sy_acked st). snd h oid = Some (d, q))"
proof -
  obtain fs h m hm where at: "sys_at st fs h m hm" using inv by (auto simp: sys_inv_def)
  let ?w = "sy_writer st"
  let ?s = "writer_id ?w"
  obtain k where k: "ww_durable ?w \<le> k" "k \<le> length (ww_file ?w)" "b = take k (ww_file ?w)"
    using cr by (auto simp: crash_image_def)
  obtain j where j: "j \<le> length (wal_image (ww_key ?w) ?s fs)" "ww_file ?w = take j (wal_image (ww_key ?w) ?s fs)"
    using at by (auto simp: sys_at_def Let_def)
  have b: "b = take k (wal_image (ww_key ?w) ?s fs)" using j k by (simp add: min_absorb1)
  have s: "seg_id_ok ?s" "frames_ok (sg_first ?s) fs" "abs_replay EmptyBaseView history0 fs = Inr (Inr h)"
    "67 \<le> k" "k \<le> length (wal_image (ww_key ?w) ?s fs)"
    using at k j by (auto simp: sys_at_def Let_def)
  from recover_cut [OF s, of ] obtain n hn where
    n: "n \<le> length fs" "abs_replay EmptyBaseView history0 (take n fs) = Inr (Inr hn)"
      "recovers_to (ww_key ?w) (sg_scope ?s) (sg_segment ?s) b n hn"
      "\<And>i. i \<le> length fs \<Longrightarrow> length (wal_image (ww_key ?w) ?s (take i fs)) \<le> k \<Longrightarrow> i \<le> n"
    unfolding b by blast
  have m: "m \<le> n" "abs_replay EmptyBaseView history0 (take m fs) = Inr (Inr hm)"
    "\<forall>(oid, d, q) \<in> set (sy_acked st). snd hm oid = Some (d, q)"
    using at k n(4) [of m] by (auto simp: sys_at_def Let_def)
  have "\<forall>(oid, d, q) \<in> set (sy_acked st). snd hn oid = Some (d, q)"
    using m abs_replay_take_keeps [OF m(2) n(2) m(1)] by blast
  moreover have "recovers_to (ww_key ?w) (ww_scope_id ?w) (ww_segment_id ?w) b n hn" using n(3) by simp
  ultimately show ?thesis by blast
qed

subsection \<open>Sealing\<close>

lemma write_sync_ok:
  assumes "write_sync w d sc = (Ret (), w')"
  shows "ww_file w' = ww_file w @ d" "writer_id w' = writer_id w" "ww_key w' = ww_key w"
    "ww_next_seq w' = ww_next_seq w" "ww_poisoned w' = ww_poisoned w"
proof -
  obtain b e where b: "write_all (ww_max_chunk w) d (io_writes sc) = (b, e)" by fastforce
  have "e = IoDone" and w': "w' = w\<lparr>ww_file := ww_file w @ b, ww_durable := length (ww_file w @ b)\<rparr>"
    using assms b by (auto simp: write_sync_def Let_def split: io_end.splits option.splits bool.splits)
  then show "ww_file w' = ww_file w @ d" "writer_id w' = writer_id w" "ww_key w' = ww_key w"
    "ww_next_seq w' = ww_next_seq w" "ww_poisoned w' = ww_poisoned w"
    using write_all_prefix [OF b] by (simp_all add: writer_id_def)
qed

lemma seal_decided:
  assumes inv: "writer_inv w fs h" and sl: "sealable (ww_key w) (writer_id w) fs"
    and se: "ww_seal w (Some True) sc = (Ret (), w')"
  shows "ww_file w' = wal_image (ww_key w) (writer_id w) fs @ footer_bytes (ww_key w) (writer_id w) fs \<and>
    ww_sealed w' \<and> \<not> ww_poisoned w' \<and> writer_id w' = writer_id w \<and> ww_key w' = ww_key w \<and>
    ww_next_seq w' = ww_next_seq w"
proof -
  let ?w = "w\<lparr>ww_durable := length (ww_file w)\<rparr>" and ?ft = "footer_bytes (ww_key w) (writer_id w) fs"
  note i = inv [unfolded writer_inv_def]
  obtain o1 w1 where ws: "write_sync ?w ?ft sc = (o1, w1)" by fastforce
  have ft: "seal_footer (ww_key w) (ww_scope_id w) (ww_segment_id w) (ww_next_seq w - 1)
      (int (length (ww_file w))) (take 16 (sha256 (ww_file w))) = Some ?ft"
    using footer_bytes_eq(1) [OF sl] i by simp
  have "o1 = Ret () \<and> w' = w1\<lparr>ww_sealed := True\<rparr>"
    using se i ft ws by (auto simp: ww_seal_def Let_def split: out.splits)
  then have o1: "o1 = Ret ()" "w' = w1\<lparr>ww_sealed := True\<rparr>" by simp_all
  show ?thesis
    using write_sync_ok [OF ws [unfolded o1(1)]] i by (simp add: o1(2) writer_id_def)
qed

text \<open>
  \<open>seal\<close> does not look at \<open>_sealed\<close>: called twice it appends a second footer, and
  the file with two footers is corrupt to every later scan.
\<close>

lemma seal_length: "seal_footer key sc sg ls bl d = Some ft \<Longrightarrow> length ft = SEAL_FOOTER_BYTES"
  by (auto simp: seal_footer_def dest!: struct_pack_length split: option.splits if_splits)

lemma scan_two_footers:
  assumes sl: "sealable key s fs" and x: "x \<noteq> []"
  shows "sr_class (scan (Some ((wal_image key s fs @ footer_bytes key s fs) @ x)) key req
      (sg_scope s) (sg_segment s) None) = CORRUPT_COMMITTED_PREFIX"
proof -
  let ?p = "wal_image key s fs" and ?ft = "footer_bytes key s fs"
  let ?b = "?p @ ?ft @ x"
  have ok: "seg_id_ok s" "frames_ok (sg_first s) fs" using sl by (simp_all add: sealable_def)
  have l: "length ?ft = 53" by (rule footer_bytes_eq(2) [OF sl])
  have mg: "slice ?b (length ?p) (length ?p + 5) = SEAL_MAGIC"
    unfolding slice_pre using footer_bytes_eq(3) [OF sl] l by simp
  have "scan_seal ?b key (sg_scope s) (sg_segment s) None (length ?p) (next_seq_of s fs - 1) = SCorrupt"
    using x l by (simp add: scan_seal_def Let_def)
  then have "scan_step ?b key (sg_scope s) (sg_segment s) None (length ?p) (next_seq_of s fs)
      (next_seq_of s fs - 1) = SCorrupt"
    using mg l by (simp add: scan_step_def Let_def)
  then show ?thesis
    using scan_image [OF ok, of key "?ft @ x" req None] l
    by (simp add: scan_loop.simps [of _ _ _ _ _ "length (wal_image key s fs)"] scan_finish_def scan_fail_def)
qed

lemma seal_twice:
  assumes inv: "writer_inv w fs h" and sl: "sealable (ww_key w) (writer_id w) fs"
    and s1: "ww_seal w (Some True) sc = (Ret (), w1)" and s2: "ww_seal w1 (Some True) sc2 = (Ret (), w2)"
  shows "sr_class (scan (Some (ww_file w2)) (ww_key w) True (ww_scope_id w) (ww_segment_id w) None)
    = CORRUPT_COMMITTED_PREFIX"
proof -
  note d = seal_decided [OF inv sl s1]
  obtain ft where ft: "seal_footer (ww_key w1) (ww_scope_id w1) (ww_segment_id w1) (ww_next_seq w1 - 1)
      (int (length (ww_file w1))) (take 16 (sha256 (ww_file w1))) = Some ft"
    using s2 by (auto simp: ww_seal_def Let_def split: if_splits option.splits)
  let ?w = "w1\<lparr>ww_durable := length (ww_file w1)\<rparr>"
  obtain o1 w3 where ws: "write_sync ?w ft sc2 = (o1, w3)" by fastforce
  have o1: "o1 = Ret ()" "w2 = w3\<lparr>ww_sealed := True\<rparr>"
    using s2 ft ws by (auto simp: ww_seal_def Let_def split: if_splits out.splits)
  have "ww_file w3 = ww_file w1 @ ft" using write_sync_ok(1) [OF ws [unfolded o1(1)]] by simp
  then have f: "ww_file w2 = (wal_image (ww_key w) (writer_id w) fs @ footer_bytes (ww_key w) (writer_id w) fs) @ ft"
    using d by (simp add: o1(2))
  have "ft \<noteq> []" using seal_length [OF ft] by auto
  from scan_two_footers [OF sl this, of True] show ?thesis unfolding f by simp
qed

subsection \<open>A fresh writer\<close>

text \<open>What \<open>create_new\<close> returns when every byte is written and synced at once.\<close>

definition fresh_writer :: "bytes \<Rightarrow> seg_id \<Rightarrow> wal_writer" where
  "fresh_writer key s = \<lparr>ww_file = header_bytes key s, ww_durable = length (header_bytes key s),
     ww_key = key, ww_scope_id = sg_scope s, ww_segment_id = sg_segment s, ww_first_seq = sg_first s,
     ww_key_id = sg_key_id s, ww_prev_digest = sg_prev s, ww_next_seq = sg_first s,
     ww_max_chunk = None, ww_index = wi_empty, ww_txindex = [], ww_poisoned = False,
     ww_sealed = False\<rparr>"

lemma write_all_once: "d \<noteq> [] \<Longrightarrow> write_all None d [Wrote (length d)] = (d, IoDone)"
  by simp

definition all_at_once :: "nat \<Rightarrow> io_script" where
  "all_at_once n = \<lparr>io_writes = [Wrote n], io_fsync = Some True\<rparr>"

lemma create_new_fresh:
  assumes "seg_id_ok s"
  shows "create_new None key (sg_scope s) (sg_segment s) (sg_first s) None (sg_key_id s) (sg_prev s)
    (all_at_once 67) = (Ret (fresh_writer key s), Some (header_bytes key s))"
proof -
  have l: "length (header_bytes key s) = 67" by (rule length_header_bytes [OF assms])
  then have w: "write_all None (header_bytes key s) [Wrote 67] = (header_bytes key s, IoDone)"
    using write_all_once [of "header_bytes key s"] by auto
  show ?thesis
    using l w header_bytes_eq(1) [OF assms, of key]
    by (simp add: create_new_def Let_def write_sync_def all_at_once_def fresh_writer_def
        del: write_all.simps)
qed

lemma fresh_reachable:
  "seg_id_ok s \<Longrightarrow> wal_reachable \<lparr>sy_writer = fresh_writer key s, sy_dead = False, sy_acked = []\<rparr>"
  by (rule reach_new [OF create_new_fresh]) (simp_all add: seg_id_ok_def)

lemma fresh_inv: "seg_id_ok s \<Longrightarrow> writer_inv (fresh_writer key s) [] history0"
  using create_new_inv [OF create_new_fresh] by (simp add: seg_id_ok_def)

definition seg31 :: seg_id where
  "seg31 = \<lparr>sg_scope = 3, sg_segment = 1, sg_first = 1, sg_key_id = 0, sg_prev = replicate 16 0\<rparr>"

lemma seg31_ok: "seg_id_ok seg31"
  by (simp add: seg31_def seg_id_ok_def u32_def)

lemma write_sync_once:
  assumes "d \<noteq> []" "ww_max_chunk w = None"
  shows "\<exists>w'. write_sync w d (all_at_once (length d)) = (Ret (), w')"
proof -
  have "write_all None d [Wrote (length d)] = (d, IoDone)" by (rule write_all_once [OF assms(1)])
  then show ?thesis using assms(2) by (simp add: write_sync_def all_at_once_def Let_def del: write_all.simps)
qed

lemma fresh_append:
  assumes s: "seg_id_ok s" and can: "command_is_canonical op fid fver x oid" "u32 fver"
  shows "\<exists>d w'. content_digest op fid fver x = Inr d \<and>
    ww_append (fresh_writer key s) op fid fver x oid
      (all_at_once (frame_len (op, sg_first s, oid, fid, fver, x))) = (Ret (APPLIED, Some (sg_first s)), w') \<and>
    writer_id w' = s \<and> ww_key w' = key"
proof -
  let ?w = "fresh_writer key s" and ?f = "(op, sg_first s, oid, fid, fver, x)"
  obtain d where d: "content_digest op fid fver x = Inr d" using canonical_digest [OF can] by blast
  have nx: "ww_next_seq ?w < MAX_SEQ" "0 \<le> sg_first s" "sg_first s < MAX_SEQ"
    using s by (simp_all add: fresh_writer_def seg_id_ok_def)
  have id: "writer_id ?w = s" "ww_key ?w = key" by (cases s, simp add: fresh_writer_def writer_id_def)+
  have v: "valid_frame ?f" by (rule canonical_valid [OF can nx(2,3)])
  let ?b = "frame_bytes (ww_key ?w) (ww_scope_id ?w) (ww_segment_id ?w) ?f"
  have l: "length ?b = frame_len ?f" by (rule length_frame_bytes [OF v])
  then have "?b \<noteq> []" using frame_len_bounds [of ?f] by auto
  from write_sync_once [OF this, of ?w] l obtain w1 where
    w1: "write_sync ?w ?b (all_at_once (frame_len ?f)) = (Ret (), w1)"
    by (auto simp: fresh_writer_def)
  have de: "decide history0 op fid fver x oid d = None" by (simp add: decide_def history0_def preflight_def)
  have "ww_append ?w op fid fver x oid (all_at_once (frame_len ?f))
      = (Ret (APPLIED, Some (sg_first s)), ww_apply_commit w1 ?f d)"
    using append_decided [OF fresh_inv [OF s] can nx(1) d, of "all_at_once (frame_len ?f)"] de w1
    by (simp add: fresh_writer_def)
  then show ?thesis using d append_same_id id by metis
qed

text \<open>One acknowledged write: \<open>PUT 5 = 200\<close> at version 1.\<close>

definition opid1 :: bytes where "opid1 = replicate 15 0 @ [1]"

lemma cmd1: "command_is_canonical OP_PUT 5 1 (Some 200) opid1" "u32 1"
  by (simp_all add: command_is_canonical_def opid1_def u32_def)

lemma reachable_one_ack:
  "\<exists>st d. wal_reachable st \<and> content_digest OP_PUT 5 1 (Some 200) = Inr d \<and>
     sy_acked st = [(opid1, d, 1)] \<and> crash_image (sy_writer st) (ww_file (sy_writer st)) \<and>
     writer_id (sy_writer st) = seg31 \<and> ww_key (sy_writer st) = [7]"
proof -
  from fresh_append [OF seg31_ok cmd1] obtain d w' where d: "content_digest OP_PUT 5 1 (Some 200) = Inr d"
    and ap: "ww_append (fresh_writer [7] seg31) OP_PUT 5 1 (Some 200) opid1
      (all_at_once (frame_len (OP_PUT, sg_first seg31, opid1, 5, 1, Some 200)))
      = (Ret (APPLIED, Some (sg_first seg31)), w')"
    and id: "writer_id w' = seg31" "ww_key w' = [7]"
    by blast
  have "ww_next_seq (fresh_writer [7] seg31) < MAX_SEQ" by (simp add: fresh_writer_def seg31_def)
  from wal_step.step_append [OF this ap, of "[]"] fresh_reachable [OF seg31_ok]
  have r: "wal_reachable \<lparr>sy_writer = w', sy_dead = False, sy_acked = [(opid1, d, 1)]\<rparr>"
    using wal_reachable.reach_step d by (fastforce simp: ack_of_def seg31_def)
  from wal_reachable_inv [OF r] have "ww_durable w' \<le> length (ww_file w')"
    by (auto simp: sys_inv_def sys_at_def Let_def)
  then have "crash_image w' (ww_file w')"
    unfolding crash_image_def by (intro exI [of _ "length (ww_file w')"]) simp
  then show ?thesis
    using r d id by (intro exI [of _ "\<lparr>sy_writer = w', sy_dead = False, sy_acked = [(opid1, d, 1)]\<rparr>"] exI [of _ d]) simp
qed

end
