(* ===== verification/WalStore.thy ===== *)
theory WalStore
  imports Artifacts WalCrash
begin

section \<open>The WAL store (\<open>horizon_walstore.py\<close>)\<close>

text \<open>
  The ACTIVE segments are files named by their identity \<open>(scope_id, segment_id)\<close>, the sealed
  ones objects of the object store. The directory of the ACTIVE files maps identities to file
  nodes; a symbolic link or a node that is not a regular file is refused. Operating system
  failures are parameters of the operations. The lemmas show that a committed prefix is read
  the same whatever is appended behind it, that sealing never removes a byte of a frame and can
  be repeated after any crash, and that a sealed, published segment is read back frame by frame.
\<close>

datatype wal_store_state = WS_VALID | WS_MISSING | WS_ALREADY_EXISTS | WS_CORRUPT | WS_INCOMPATIBLE
  | WS_RESOURCE_LIMIT | WS_IO_ERROR

datatype active_prefix_state = AP_VALID | AP_MISSING | AP_MISSING_COMMITTED_PREFIX | AP_CORRUPT
  | AP_INCOMPATIBLE | AP_RESOURCE_LIMIT | AP_IO_ERROR

type_synonym wal_identity = "int \<times> int"   \<comment> \<open>scope, segment\<close>

datatype file_node = RegularFile bytes | Symlink | OtherNode

record wal_store =
  ws_active :: "(wal_identity, file_node) pydict"
  ws_objects :: object_store
  ws_keyring :: keyring

record wal_store_limits =
  max_active_bytes :: int
  max_sealed_bytes :: int

text \<open>Failures of \<open>open\<close> and \<open>pread\<close>, and a file that changes while it is read.\<close>

datatype read_fault = OpenFault | ReadFault | ChangeFault

definition identity_ok :: "wal_identity \<Rightarrow> bool" where
  "identity_ok ident \<longleftrightarrow> u32 (fst ident) \<and> u32 (snd ident)"

definition authenticate_header ::
  "keyring \<Rightarrow> bytes \<Rightarrow> wal_identity \<Rightarrow> wal_store_state \<times> wal_header_info option" where
  "authenticate_header kr header ident =
     (if length header < SEG_SIZE + TAG_BYTES then (WS_CORRUPT, None)
      else
        (let key_id = fi (struct_unpack SEG_HEADER header) 5
         in case dget kr key_id of
              None \<Rightarrow> (WS_INCOMPATIBLE, None)
            | Some key \<Rightarrow>
                (let sr = scan (Some (take (SEG_SIZE + TAG_BYTES) header)) key True (fst ident) (snd ident) None
                 in if sr_class sr = INCOMPATIBLE then (WS_INCOMPATIBLE, None)
                    else if sr_class sr \<noteq> CLEAN \<or> sr_header sr = None then (WS_CORRUPT, None)
                    else (WS_VALID, sr_header sr))))"

text \<open>\<open>_safe_read\<close> of a node, bounded before anything is read.\<close>

definition safe_read :: "file_node option \<Rightarrow> int \<Rightarrow> read_fault option \<Rightarrow> wal_store_state \<times> bytes option" where
  "safe_read node max_bytes fault =
     (case node of
        None \<Rightarrow> (WS_MISSING, None)
      | Some nd \<Rightarrow>
          if fault = Some OpenFault then (WS_IO_ERROR, None)
          else
            (case nd of
               Symlink \<Rightarrow> (WS_CORRUPT, None)
             | OtherNode \<Rightarrow> (WS_CORRUPT, None)
             | RegularFile b \<Rightarrow>
                 if int (length b) > max_bytes then (WS_RESOURCE_LIMIT, None)
                 else if fault = Some ReadFault then (WS_IO_ERROR, None)
                 else if fault = Some ChangeFault then (WS_CORRUPT, None)
                 else (WS_VALID, Some b)))"

subsection \<open>Creating and opening an ACTIVE file\<close>

text \<open>
  Failures of \<open>create_active\<close>: the directory chain, the open, the write or its fsync (after
  \<open>k\<close> bytes), a kill after \<open>k\<close> bytes, and the fsync of the directory, which is not caught.
\<close>

datatype create_fault = MkdirFault | CreateOpenFault | HeaderFault | HeaderKill nat | NameSyncFault

definition create_active ::
  "wal_store \<Rightarrow> wal_identity \<Rightarrow> bytes \<Rightarrow> create_fault option
     \<Rightarrow> (wal_store_state \<times> wal_header_info option) out \<times> wal_store" where
  "create_active st ident header fault =
     (if \<not> identity_ok ident then (Ret (WS_CORRUPT, None), st)
      else
        (case authenticate_header (ws_keyring st) header ident of
           (WS_VALID, hi) \<Rightarrow>
             if fault = Some MkdirFault then (Ret (WS_IO_ERROR, None), st)
             else if dget (ws_active st) ident \<noteq> None then (Ret (WS_ALREADY_EXISTS, None), st)
             else
               (case fault of
                  Some CreateOpenFault \<Rightarrow> (Ret (WS_IO_ERROR, None), st)
                | Some HeaderFault \<Rightarrow> (Ret (WS_IO_ERROR, None), st)
                | Some (HeaderKill k) \<Rightarrow>
                    (Killed, st\<lparr>ws_active := dput ident (RegularFile (take k header)) (ws_active st)\<rparr>)
                | Some NameSyncFault \<Rightarrow>
                    (Raise OSError, st\<lparr>ws_active := dput ident (RegularFile header) (ws_active st)\<rparr>)
                | _ \<Rightarrow>
                    (Ret (WS_VALID, hi), st\<lparr>ws_active := dput ident (RegularFile header) (ws_active st)\<rparr>))
         | (s, _) \<Rightarrow> (Ret (s, None), st)))"

definition open_active ::
  "wal_store \<Rightarrow> wal_identity \<Rightarrow> wal_store_limits \<Rightarrow> read_fault option
     \<Rightarrow> wal_store_state \<times> (bytes \<times> wal_header_info option) option" where
  "open_active st ident limits fault =
     (if \<not> identity_ok ident then (WS_CORRUPT, None)
      else
        (case safe_read (dget (ws_active st) ident) (max_active_bytes limits) fault of
           (WS_VALID, Some data) \<Rightarrow>
             (case authenticate_header (ws_keyring st) data ident of
                (WS_VALID, hi) \<Rightarrow> (WS_VALID, Some (data, hi))
              | (s, _) \<Rightarrow> (s, None))
         | (s, _) \<Rightarrow> (s, None)))"

subsection \<open>Publishing a sealed segment\<close>

definition publish_sealed ::
  "wal_store \<Rightarrow> wal_identity \<Rightarrow> wal_store_limits \<Rightarrow> read_fault option \<Rightarrow> put_fault option
     \<Rightarrow> (wal_store_state \<times> (bytes \<times> int) option) \<times> wal_store" where
  "publish_sealed st ident limits fault pfault =
     (if \<not> identity_ok ident then ((WS_CORRUPT, None), st)
      else
        (case safe_read (dget (ws_active st) ident) (max_sealed_bytes limits) fault of
           (WS_VALID, Some data) \<Rightarrow>
             (case authenticate_header (ws_keyring st) data ident of
                (WS_VALID, Some hi) \<Rightarrow>
                  (case dget (ws_keyring st) (whi_key_id hi) of
                     None \<Rightarrow> ((WS_CORRUPT, None), st)
                   | Some key \<Rightarrow>
                       (let sr = scan (Some data) key True (fst ident) (snd ident) None
                        in if sr_class sr = INCOMPATIBLE then ((WS_INCOMPATIBLE, None), st)
                           else if sr_class sr \<noteq> CLEAN then ((WS_CORRUPT, None), st)
                           else if \<not> sr_sealed sr then ((WS_CORRUPT, None), st)
                           else
                             (case put_object (ws_objects st) data pfault of
                                (PutOk digest, objs) \<Rightarrow>
                                  ((WS_VALID, Some (digest, int (length data))), st\<lparr>ws_objects := objs\<rparr>)
                              | (_, objs) \<Rightarrow> ((WS_CORRUPT, None), st\<lparr>ws_objects := objs\<rparr>))))
              | (s, _) \<Rightarrow> ((s, None), st))
         | (s, _) \<Rightarrow> ((s, None), st)))"

subsection \<open>The committed prefix of an ACTIVE file\<close>

record active_prefix_expectation =
  ape_byte_length :: int
  ape_sha256 :: bytes

text \<open>A segment token, with the fields the manifest binds.\<close>

record validated_segment = segment_token +
  vs_identity :: wal_identity
  vs_header :: wal_header_info
  vs_last_seq :: int
  vs_is_sealed :: bool

text \<open>The checks on the bytes of the prefix.\<close>

definition check_prefix ::
  "keyring \<Rightarrow> wal_identity \<Rightarrow> active_prefix_expectation \<Rightarrow> bytes
     \<Rightarrow> active_prefix_state \<times> validated_segment option" where
  "check_prefix kr ident expected data =
     (if sha256 data \<noteq> ape_sha256 expected then (AP_CORRUPT, None)
      else
        (case authenticate_header kr data ident of
           (WS_VALID, Some hi) \<Rightarrow>
             (case dget kr (whi_key_id hi) of
                None \<Rightarrow> (AP_CORRUPT, None)
              | Some key \<Rightarrow>
                  (let sr = scan (Some data) key True (fst ident) (snd ident) None
                   in if sr_class sr = INCOMPATIBLE then (AP_INCOMPATIBLE, None)
                      else if sr_class sr \<noteq> CLEAN \<or> sr_dropped sr \<noteq> 0
                          \<or> int (sr_consumed sr) \<noteq> ape_byte_length expected then (AP_CORRUPT, None)
                      else if sr_sealed sr then (AP_INCOMPATIBLE, None)
                      else (AP_VALID,
                            Some \<lparr>st_sealed_by_store = True, st_frames = sr_frames sr,
                              st_byte_length = nat (ape_byte_length expected), vs_identity = ident,
                              vs_header = hi, vs_last_seq = sr_last_seq sr, vs_is_sealed = False\<rparr>)))
         | (WS_INCOMPATIBLE, _) \<Rightarrow> (AP_INCOMPATIBLE, None)
         | _ \<Rightarrow> (AP_CORRUPT, None)))"

text \<open>\<open>ChangeFault\<close> is a file that is cut while it is read: \<open>pread\<close> then returns less.\<close>

definition read_active_prefix ::
  "wal_store \<Rightarrow> wal_identity \<Rightarrow> active_prefix_expectation \<Rightarrow> wal_store_limits \<Rightarrow> read_fault option
     \<Rightarrow> active_prefix_state \<times> validated_segment option" where
  "read_active_prefix st ident expected limits fault =
     (if \<not> identity_ok ident then (AP_CORRUPT, None)
      else if length (ape_sha256 expected) \<noteq> 32 \<or> ape_byte_length expected \<le> 0 then (AP_CORRUPT, None)
      else if ape_byte_length expected > max_active_bytes limits then (AP_RESOURCE_LIMIT, None)
      else
        (case dget (ws_active st) ident of
           None \<Rightarrow> (AP_MISSING, None)
         | Some nd \<Rightarrow>
             if fault = Some OpenFault then (AP_IO_ERROR, None)
             else
               (case nd of
                  Symlink \<Rightarrow> (AP_CORRUPT, None)
                | OtherNode \<Rightarrow> (AP_CORRUPT, None)
                | RegularFile b \<Rightarrow>
                    if int (length b) < ape_byte_length expected then (AP_MISSING_COMMITTED_PREFIX, None)
                    else if fault = Some ReadFault then (AP_IO_ERROR, None)
                    else if fault = Some ChangeFault then (AP_MISSING_COMMITTED_PREFIX, None)
                    else check_prefix (ws_keyring st) ident expected (take (nat (ape_byte_length expected)) b))))"

subsection \<open>Reading a segment of a manifest\<close>

record wal_segment_descriptor = segment_desc +
  wsd_status :: int
  wsd_durable_prefix_length :: int
  wsd_durable_prefix_sha256 :: bytes
  wsd_sealed_object_length :: int
  wsd_sealed_object_sha256 :: bytes
  wsd_prev_segment_digest :: bytes
  wsd_key_id :: int

definition open_sealed ::
  "wal_store \<Rightarrow> bytes \<Rightarrow> wal_store_limits \<Rightarrow> read_fault option \<Rightarrow> wal_store_state \<times> bytes option" where
  "open_sealed st digest limits fault =
     (if length digest \<noteq> 32 then (WS_CORRUPT, None)
      else
        (case safe_read (map_option RegularFile (dget (ws_objects st) digest)) (max_sealed_bytes limits) fault of
           (WS_VALID, Some data) \<Rightarrow> if sha256 data \<noteq> digest then (WS_CORRUPT, None) else (WS_VALID, Some data)
         | (s, _) \<Rightarrow> (s, None)))"

definition read_validated_segment ::
  "wal_store \<Rightarrow> wal_segment_descriptor \<Rightarrow> int \<Rightarrow> wal_store_limits \<Rightarrow> read_fault option
     \<Rightarrow> active_prefix_state \<times> validated_segment option" where
  "read_validated_segment st d scope_id limits fault =
     (let ident = (scope_id, sd_segment_id d)
      in if wsd_status d = STATE_ACTIVE then
           read_active_prefix st ident
             \<lparr>ape_byte_length = wsd_durable_prefix_length d, ape_sha256 = wsd_durable_prefix_sha256 d\<rparr> limits fault
         else if wsd_status d \<noteq> STATE_SEALED then (AP_CORRUPT, None)
         else
           (case open_sealed st (wsd_sealed_object_sha256 d) limits fault of
              (WS_VALID, Some obj) \<Rightarrow>
                if int (length obj) \<noteq> wsd_sealed_object_length d then (AP_CORRUPT, None)
                else
                  (case dget (ws_keyring st) (wsd_key_id d) of
                     None \<Rightarrow> (AP_INCOMPATIBLE, None)
                   | Some key \<Rightarrow>
                       (let sr = scan (Some obj) key True scope_id (sd_segment_id d) None
                        in if sr_class sr = INCOMPATIBLE then (AP_INCOMPATIBLE, None)
                           else if sr_class sr \<noteq> CLEAN \<or> \<not> sr_sealed sr then (AP_CORRUPT, None)
                           else
                             (case sr_header sr of
                                None \<Rightarrow> (AP_CORRUPT, None)
                              | Some hi \<Rightarrow>
                                  (AP_VALID,
                                   Some \<lparr>st_sealed_by_store = True, st_frames = sr_frames sr,
                                     st_byte_length = length obj, vs_identity = ident, vs_header = hi,
                                     vs_last_seq = sr_last_seq sr, vs_is_sealed = True\<rparr>))))
            | (WS_MISSING, _) \<Rightarrow> (AP_MISSING, None)
            | (WS_RESOURCE_LIMIT, _) \<Rightarrow> (AP_RESOURCE_LIMIT, None)
            | (WS_INCOMPATIBLE, _) \<Rightarrow> (AP_INCOMPATIBLE, None)
            | _ \<Rightarrow> (AP_CORRUPT, None)))"

subsection \<open>Acquiring the ACTIVE file for writing\<close>

definition acquire_active_writer ::
  "wal_store \<Rightarrow> wal_identity \<Rightarrow> int \<Rightarrow> bytes \<Rightarrow> wal_store_limits \<Rightarrow> read_fault option
     \<Rightarrow> wal_store_state \<times> (wal_identity \<times> int \<times> wal_header_info) option" where
  "acquire_active_writer st ident expected_length expected_sha256 limits fault =
     (if \<not> identity_ok ident then (WS_CORRUPT, None)
      else if expected_length \<le> 0 \<or> expected_length > max_active_bytes limits \<or> length expected_sha256 \<noteq> 32
        then (WS_CORRUPT, None)
      else
        (case dget (ws_active st) ident of
           None \<Rightarrow> (WS_MISSING, None)
         | Some nd \<Rightarrow>
             if fault = Some OpenFault then (WS_IO_ERROR, None)
             else
               (case nd of
                  RegularFile b \<Rightarrow>
                    if int (length b) \<noteq> expected_length then (WS_CORRUPT, None)
                    else if fault = Some ReadFault then (WS_IO_ERROR, None)
                    else if fault = Some ChangeFault \<or> sha256 b \<noteq> expected_sha256 then (WS_CORRUPT, None)
                    else
                      (case authenticate_header (ws_keyring st) b ident of
                         (WS_VALID, Some hi) \<Rightarrow> (WS_VALID, Some (ident, expected_length, hi))
                       | (s, _) \<Rightarrow> (s, None))
                | _ \<Rightarrow> (WS_CORRUPT, None))))"

subsection \<open>Sealing the ACTIVE file\<close>

record seal_result =
  sl_state :: wal_store_state
  sl_repaired :: bool
  sl_idempotent :: bool

abbreviation (input) SealResult :: "wal_store_state \<Rightarrow> seal_result" where
  "SealResult s \<equiv> \<lparr>sl_state = s, sl_repaired = False, sl_idempotent = False\<rparr>"

text \<open>\<open>_pwrite_all\<close> of the footer behind the prefix, and its fsync; every failure is an
  \<open>OSError\<close>, caught as \<open>IO_ERROR\<close>.\<close>

definition seal_write :: "bytes \<Rightarrow> bytes \<Rightarrow> seal_result \<Rightarrow> io_script \<Rightarrow> seal_result out \<times> bytes" where
  "seal_write prefix footer ok sc =
     (let (b, e) = write_all None footer (io_writes sc); file = prefix @ b
      in case e of
           IoRaise _ \<Rightarrow> (Ret (SealResult WS_IO_ERROR), file)
         | IoKilled \<Rightarrow> (Killed, file)
         | IoDone \<Rightarrow>
             (case io_fsync sc of
                Some True \<Rightarrow> (Ret ok, file)
              | Some False \<Rightarrow> (Ret (SealResult WS_IO_ERROR), file)
              | None \<Rightarrow> (Killed, file)))"

text \<open>The footer behind the proved prefix: absent, there, torn, or something else.\<close>

definition seal_tail :: "bytes \<Rightarrow> nat \<Rightarrow> bytes \<Rightarrow> io_script \<Rightarrow> seal_result out \<times> bytes" where
  "seal_tail b n footer sc =
     (let prefix = take n b; tail = drop n b
      in if tail = [] then seal_write prefix footer (SealResult WS_VALID) sc
         else if length tail > length footer then (Ret (SealResult WS_CORRUPT), b)
         else if tail = footer
           then (Ret \<lparr>sl_state = WS_VALID, sl_repaired = False, sl_idempotent = True\<rparr>, b)
         else if take (length tail) footer = tail
           then seal_write prefix footer \<lparr>sl_state = WS_VALID, sl_repaired = True, sl_idempotent = False\<rparr> sc
         else (Ret (SealResult WS_CORRUPT), b))"

definition seal_file ::
  "keyring \<Rightarrow> wal_identity \<Rightarrow> active_prefix_expectation \<Rightarrow> int \<Rightarrow> bytes \<Rightarrow> io_script
     \<Rightarrow> seal_result out \<times> bytes" where
  "seal_file kr ident expected expected_last_seq b sc =
     (let n = nat (ape_byte_length expected); prefix = take n b
      in if length b < n then (Ret (SealResult WS_CORRUPT), b)
         else if sha256 prefix \<noteq> ape_sha256 expected then (Ret (SealResult WS_CORRUPT), b)
         else
           (case authenticate_header kr prefix ident of
              (WS_VALID, Some hi) \<Rightarrow>
                (case dget kr (whi_key_id hi) of
                   None \<Rightarrow> (Ret (SealResult WS_CORRUPT), b)
                 | Some key \<Rightarrow>
                     (let sr = scan (Some prefix) key True (fst ident) (snd ident) None
                      in if sr_class sr \<noteq> CLEAN \<or> sr_consumed sr \<noteq> n \<or> sr_sealed sr
                           then (Ret (SealResult WS_CORRUPT), b)
                         else if sr_last_seq sr \<noteq> expected_last_seq then (Ret (SealResult WS_CORRUPT), b)
                         else
                           (case seal_footer key (fst ident) (snd ident) expected_last_seq
                                   (ape_byte_length expected) (take 16 (sha256 prefix)) of
                              None \<Rightarrow> (Raise StructError, b)
                            | Some footer \<Rightarrow> seal_tail b n footer sc)))
            | (s, _) \<Rightarrow> (Ret (SealResult s), b)))"

definition seal_active ::
  "wal_store \<Rightarrow> wal_identity \<Rightarrow> active_prefix_expectation \<Rightarrow> int \<Rightarrow> wal_store_limits \<Rightarrow> read_fault option
     \<Rightarrow> io_script \<Rightarrow> seal_result out \<times> wal_store" where
  "seal_active st ident expected expected_last_seq limits fault sc =
     (if \<not> identity_ok ident then (Ret (SealResult WS_CORRUPT), st)
      else if length (ape_sha256 expected) \<noteq> 32 \<or> ape_byte_length expected \<le> 0
        then (Ret (SealResult WS_CORRUPT), st)
      else if ape_byte_length expected > max_active_bytes limits then (Ret (SealResult WS_RESOURCE_LIMIT), st)
      else
        (case dget (ws_active st) ident of
           None \<Rightarrow> (Ret (SealResult WS_MISSING), st)
         | Some nd \<Rightarrow>
             if fault = Some OpenFault then (Ret (SealResult WS_IO_ERROR), st)
             else
               (case nd of
                  RegularFile b \<Rightarrow>
                    if fault = Some ReadFault then (Ret (SealResult WS_IO_ERROR), st)
                    else if fault = Some ChangeFault then (Ret (SealResult WS_CORRUPT), st)
                    else
                      (let (r, b') = seal_file (ws_keyring st) ident expected expected_last_seq b sc
                       in (r, st\<lparr>ws_active := dput ident (RegularFile b') (ws_active st)\<rparr>))
                | _ \<Rightarrow> (Ret (SealResult WS_CORRUPT), st))))"

subsection \<open>Reading a committed prefix\<close>

lemma header_key_id:
  assumes "seg_id_ok s"
  shows "fi (struct_unpack SEG_HEADER (header_bytes key s @ r)) 5 = sg_key_id s"
  unfolding header_bytes_eq(2) [OF assms] header_fields_def
  using assms by (simp add: seg_id_ok_def u32_def layout_simps WAL_MAGIC_def del: struct_unpack.simps(2) append.simps)

lemma authenticate_image:
  assumes s: "seg_id_ok s" and k: "dget kr (sg_key_id s) = Some key"
  shows "authenticate_header kr (wal_image key s fs @ r) (sg_scope s, sg_segment s) = (WS_VALID, Some (header_info s))"
proof -
  have l: "length (header_bytes key s) = 67" by (rule length_header_bytes [OF s])
  have w: "wal_image key s fs @ r = header_bytes key s @ (frames_bytes key (sg_scope s) (sg_segment s) fs @ r)"
    by (simp add: wal_image_def)
  have "scan (Some (header_bytes key s)) key True (sg_scope s) (sg_segment s) None =
    \<lparr>sr_class = CLEAN, sr_frames = [], sr_last_seq = next_seq_of s [] - 1, sr_consumed = 67, sr_dropped = 0,
     sr_sealed = False, sr_header = Some (header_info s)\<rparr>"
    using scan_image_clean [OF s, of "[]" key True] l by (simp add: wal_image_def)
  then show ?thesis
    unfolding w authenticate_header_def header_key_id [OF s] Let_def k
    using l by (simp add: header_info_def)
qed

text \<open>The committed prefix is read the same, whatever was appended behind it since.\<close>

lemma read_active_prefix_append:
  assumes "dget (ws_active st) ident = Some (RegularFile b)" "ape_byte_length expected \<le> int (length b)"
  shows "read_active_prefix (st\<lparr>ws_active := dput ident (RegularFile (b @ t)) (ws_active st)\<rparr>) ident expected limits None
    = read_active_prefix st ident expected limits None"
proof -
  have "nat (ape_byte_length expected) \<le> length b" using assms(2) by simp
  then show ?thesis using assms by (simp add: read_active_prefix_def dget_dput)
qed

lemma read_active_prefix_image:
  assumes s: "seg_id_ok s" "frames_ok (sg_first s) fs" and k: "dget (ws_keyring st) (sg_key_id s) = Some key"
    and f: "dget (ws_active st) (sg_scope s, sg_segment s) = Some (RegularFile (wal_image key s fs @ r))"
    and lim: "int (length (wal_image key s fs)) \<le> max_active_bytes limits"
  shows "read_active_prefix st (sg_scope s, sg_segment s)
      \<lparr>ape_byte_length = int (length (wal_image key s fs)), ape_sha256 = sha256 (wal_image key s fs)\<rparr> limits None =
    (AP_VALID, Some \<lparr>st_sealed_by_store = True, st_frames = fs, st_byte_length = length (wal_image key s fs),
       vs_identity = (sg_scope s, sg_segment s), vs_header = header_info s,
       vs_last_seq = next_seq_of s fs - 1, vs_is_sealed = False\<rparr>)"
proof -
  have a: "authenticate_header (ws_keyring st) (wal_image key s fs) (sg_scope s, sg_segment s) = (WS_VALID, Some (header_info s))"
    using authenticate_image [OF s(1) k, of fs "[]"] by simp
  have l: "67 \<le> length (wal_image key s fs)" by (simp add: wal_image_def length_header_bytes [OF s(1)])
  then have "wal_image key s fs \<noteq> []" by auto
  moreover have "identity_ok (sg_scope s, sg_segment s)" using s(1) by (simp add: identity_ok_def seg_id_ok_def)
  ultimately show ?thesis
    using f lim l
    by (simp add: read_active_prefix_def check_prefix_def a scan_image_clean [OF s] k header_info_def)
qed

subsection \<open>Sealing never loses a frame\<close>

text \<open>What sealing may do to a file: nothing, or put a part of the footer behind the prefix, in
  place of a tail that was already a part of the footer.\<close>

definition seal_step :: "bytes \<Rightarrow> nat \<Rightarrow> bytes \<Rightarrow> bytes \<Rightarrow> bool" where
  "seal_step footer n b b' \<longleftrightarrow>
     b' = b \<or> ((\<exists>j. drop n b = take j footer) \<and> (\<exists>k. b' = take n b @ take k footer))"

lemma seal_write_step:
  assumes "seal_write prefix footer ok sc = (r, b')"
  shows "\<exists>k. b' = prefix @ take k footer"
proof -
  obtain b e where w: "write_all None footer (io_writes sc) = (b, e)" by fastforce
  then obtain k where "b = take k footer" using write_all_prefix by blast
  then show ?thesis
    using assms w by (auto simp: seal_write_def Let_def split: io_end.splits option.splits bool.splits if_splits)
qed

lemma seal_tail_step:
  assumes "seal_tail b n footer sc = (r, b')"
  shows "seal_step footer n b b'"
proof -
  have t: "drop n b = [] \<Longrightarrow> \<exists>j. drop n b = take j footer" by (intro exI [of _ 0]) simp
  show ?thesis
    using assms t
    by (auto simp: seal_tail_def seal_step_def Let_def split: if_splits dest!: seal_write_step)
      metis+
qed

lemma seal_file_step:
  assumes "seal_file kr ident expected ls b sc = (r, b')"
  shows "b' = b \<or> (\<exists>key hi footer. authenticate_header kr (take (nat (ape_byte_length expected)) b) ident = (WS_VALID, Some hi) \<and>
    dget kr (whi_key_id hi) = Some key \<and>
    seal_footer key (fst ident) (snd ident) ls (ape_byte_length expected)
      (take 16 (sha256 (take (nat (ape_byte_length expected)) b))) = Some footer \<and>
    seal_step footer (nat (ape_byte_length expected)) b b')"
  using assms seal_tail_step
  by (auto simp: seal_file_def Let_def split: if_splits prod.splits wal_store_state.splits option.splits)

text \<open>The prefix survives, and only bytes of the footer are ever cut.\<close>

lemma seal_file_keeps:
  assumes "seal_file kr ident expected ls b sc = (r, b')" "nat (ape_byte_length expected) \<le> length b"
  shows "take (nat (ape_byte_length expected)) b' = take (nat (ape_byte_length expected)) b"
  using seal_file_step [OF assms(1)] assms(2) by (auto simp: seal_step_def min_def)

subsection \<open>Sealing converges, whatever crashes came before\<close>

definition expect_image :: "bytes \<Rightarrow> seg_id \<Rightarrow> wframe list \<Rightarrow> active_prefix_expectation" where
  "expect_image key s fs = \<lparr>ape_byte_length = int (length (wal_image key s fs)), ape_sha256 = sha256 (wal_image key s fs)\<rparr>"

lemma seal_file_image:
  assumes s: "sealable key s fs" and k: "dget kr (sg_key_id s) = Some key"
  shows "seal_file kr (sg_scope s, sg_segment s) (expect_image key s fs) (next_seq_of s fs - 1)
      (wal_image key s fs @ t) sc
    = seal_tail (wal_image key s fs @ t) (length (wal_image key s fs)) (footer_bytes key s fs) sc"
proof -
  have ok: "seg_id_ok s" "frames_ok (sg_first s) fs" using s by (simp_all add: sealable_def)
  have a: "authenticate_header kr (wal_image key s fs) (sg_scope s, sg_segment s) = (WS_VALID, Some (header_info s))"
    using authenticate_image [OF ok(1) k, of fs "[]"] by simp
  show ?thesis
    by (simp add: seal_file_def expect_image_def a Let_def scan_image_clean [OF ok] k header_info_def
        footer_bytes_eq(1) [OF s])
qed

lemma seal_torn_converges:
  assumes s: "sealable key s fs" and k: "dget kr (sg_key_id s) = Some key"
    and sc: "write_all None (footer_bytes key s fs) (io_writes sc) = (footer_bytes key s fs, IoDone)" "io_fsync sc = Some True"
  shows "\<exists>r. seal_file kr (sg_scope s, sg_segment s) (expect_image key s fs) (next_seq_of s fs - 1)
      (wal_image key s fs @ take j (footer_bytes key s fs)) sc
    = (Ret r, wal_image key s fs @ footer_bytes key s fs) \<and> sl_state r = WS_VALID"
  unfolding seal_file_image [OF s k] seal_tail_def
  using sc by (auto simp: seal_write_def Let_def min_def)

text \<open>Whatever happens to a seal of such a file, it stays such a file.\<close>

lemma seal_torn_stays:
  assumes s: "sealable key s fs" and k: "dget kr (sg_key_id s) = Some key"
    and r: "seal_file kr (sg_scope s, sg_segment s) (expect_image key s fs) (next_seq_of s fs - 1)
      (wal_image key s fs @ take j (footer_bytes key s fs)) sc = (r, b')"
  shows "\<exists>i. b' = wal_image key s fs @ take i (footer_bytes key s fs)"
  using seal_tail_step [OF r [unfolded seal_file_image [OF s k]]] by (auto simp: seal_step_def)

text \<open>A frame behind the prefix is never cut: the seal is refused and the file stays.\<close>

lemma frame_not_footer:
  assumes "sealable key s fs" "valid_frame f"
  shows "drop (length (wal_image key s fs)) (wal_image key s fs @ frame_bytes key (sg_scope s) (sg_segment s) f @ r)
    \<noteq> take j (footer_bytes key s fs)"
proof
  let ?fb = "frame_bytes key (sg_scope s) (sg_segment s) f"
  assume a: "drop (length (wal_image key s fs)) (wal_image key s fs @ ?fb @ r) = take j (footer_bytes key s fs)"
  then have "length (?fb @ r) \<le> SEAL_FOOTER_BYTES" using footer_bytes_eq(2) [OF assms(1)] by simp
  moreover have "length ?fb = frame_len f" using assms(2) by (rule length_frame_bytes)
  moreover have "76 \<le> frame_len f" by (rule frame_len_bounds)
  ultimately show False by simp
qed

lemma seal_refuses_frames:
  assumes s: "sealable key s fs" and k: "dget kr (sg_key_id s) = Some key" and f: "valid_frame f"
  shows "seal_file kr (sg_scope s, sg_segment s) (expect_image key s fs) (next_seq_of s fs - 1)
      (wal_image key s fs @ frame_bytes key (sg_scope s) (sg_segment s) f @ r) sc
    = (Ret (SealResult WS_CORRUPT), wal_image key s fs @ frame_bytes key (sg_scope s) (sg_segment s) f @ r)"
proof -
  let ?fb = "frame_bytes key (sg_scope s) (sg_segment s) f"
  have l: "length ?fb = frame_len f" using f by (rule length_frame_bytes)
  have "length (footer_bytes key s fs) < length ?fb"
    using footer_bytes_eq(2) [OF s] frame_len_bounds(1) [of f] l by simp
  moreover from this have "?fb \<noteq> []" by auto
  ultimately show ?thesis unfolding seal_file_image [OF s k] seal_tail_def by (auto simp: Let_def)
qed

subsection \<open>Seal, publish, read back\<close>

lemma publish_then_read:
  assumes s: "sealable key s fs" and k: "dget (ws_keyring st) (sg_key_id s) = Some key"
    and f: "dget (ws_active st) (sg_scope s, sg_segment s) = Some (RegularFile b)"
    and b: "b = wal_image key s fs @ footer_bytes key s fs"
    and lim: "int (length b) \<le> max_sealed_bytes limits"
    and p: "publish_sealed st (sg_scope s, sg_segment s) limits None pf = ((WS_VALID, Some (d, n)), st')"
    and desc: "wsd_status ds = STATE_SEALED" "wsd_sealed_object_sha256 ds = d" "wsd_sealed_object_length ds = n"
      "sd_segment_id ds = sg_segment s" "wsd_key_id ds = sg_key_id s"
  shows "read_validated_segment st' ds (sg_scope s) limits None =
    (AP_VALID, Some \<lparr>st_sealed_by_store = True, st_frames = fs, st_byte_length = length b,
       vs_identity = (sg_scope s, sg_segment s), vs_header = header_info s,
       vs_last_seq = next_seq_of s fs - 1, vs_is_sealed = True\<rparr>)"
proof -
  have ok: "seg_id_ok s" using s by (simp add: sealable_def)
  have a: "authenticate_header (ws_keyring st) b (sg_scope s, sg_segment s) = (WS_VALID, Some (header_info s))"
    unfolding b by (rule authenticate_image [OF ok k])
  have sc: "scan (Some b) key True (sg_scope s) (sg_segment s) None =
    \<lparr>sr_class = CLEAN, sr_frames = fs, sr_last_seq = next_seq_of s fs - 1, sr_consumed = length b,
     sr_dropped = 0, sr_sealed = True, sr_header = Some (header_info s)\<rparr>"
    unfolding b using scan_image_sealed [OF s, of None] footer_bytes_eq(2) [OF s] by simp
  have i: "identity_ok (sg_scope s, sg_segment s)" using ok by (simp add: identity_ok_def seg_id_ok_def)
  obtain objs where o: "put_object (ws_objects st) b pf = (PutOk d, objs)" "st' = st\<lparr>ws_objects := objs\<rparr>"
    "n = int (length b)"
    using p f i lim k by (auto simp: publish_sealed_def safe_read_def a sc header_info_def Let_def
        split: prod.splits put_result.splits)
  have g: "d = sha256 b" "dget objs (sha256 b) = Some b" using put_object_get [OF o(1)] by auto
  have "open_sealed st' d limits None = (WS_VALID, Some b)"
    using g lim o(2) by (simp add: open_sealed_def safe_read_def)
  then show ?thesis
    using desc o(2,3) k sc by (simp add: read_validated_segment_def)
qed

text \<open>An ACTIVE file is never replaced by \<open>create_active\<close>.\<close>

lemma create_active_keeps:
  "dget (ws_active st) i = Some nd \<Longrightarrow> dget (ws_active (snd (create_active st ident header fault))) i = Some nd"
  by (auto simp: create_active_def dget_dput split: prod.splits wal_store_state.splits option.splits create_fault.splits)

text \<open>A failed directory fsync raises, and leaves a file that the retry finds.\<close>

lemma create_active_name_sync:
  assumes "identity_ok ident" "authenticate_header (ws_keyring st) header ident = (WS_VALID, hi)"
    "dget (ws_active st) ident = None"
  shows "fst (create_active st ident header (Some NameSyncFault)) = Raise OSError"
    and "fst (create_active (snd (create_active st ident header (Some NameSyncFault))) ident header None)
      = Ret (WS_ALREADY_EXISTS, None)"
  using assms by (simp_all add: create_active_def dget_dput)

end
