(* ===== verification/Manifest.thy ===== *)
theory Manifest
  imports WalStore
begin

section \<open>The manifest of a generation (\<open>horizon_manifest.py\<close>)\<close>

text \<open>
  An \<open>EpochManifest\<close> names the five artifacts of a base and the WAL segments that extend it
  from \<open>base_seq\<close> to \<open>read_seq\<close>. This theory models its encoding and parser, the
  coverage law and the resource preflight (\<open>open_generation\<close> is in \<open>Generation\<close>). The
  lemmas show the round trip (for any order of the descriptors) and that the coverage law is a
  partition of the sequence numbers. The human readable reasons are left out.
\<close>

datatype generation_state = G_VALID | G_REQUIRED_MISSING | G_CORRUPT | G_INCOMPATIBLE
  | G_RESOURCE_LIMIT | G_COVERAGE_ERROR

datatype lineage = GENESIS | VERIFIED | UNVERIFIED

record generation_limits =
  gl_max_manifest_bytes :: int
  gl_max_base_bytes :: int
  gl_max_segments :: nat
  gl_max_segment_bytes :: nat
  gl_max_total_wal_bytes :: nat
  gl_max_frames_per_segment :: nat
  gl_max_total_frames :: nat
  gl_max_total_generation_bytes :: int

definition DEFAULT_GENERATION_LIMITS :: generation_limits where
  "DEFAULT_GENERATION_LIMITS = \<lparr>gl_max_manifest_bytes = 2 ^ 24, gl_max_base_bytes = 2 ^ 34,
     gl_max_segments = 2 ^ 20, gl_max_segment_bytes = 2 ^ 32, gl_max_total_wal_bytes = 2 ^ 34,
     gl_max_frames_per_segment = 2 ^ 24, gl_max_total_frames = 2 ^ 26,
     gl_max_total_generation_bytes = 2 ^ 35\<rparr>"

record epoch_manifest =
  em_scope_id :: int
  em_generation_id :: int
  em_fact_count :: int
  em_base_seq :: int
  em_read_seq :: int
  em_parent_generation_id :: int
  em_parent_manifest_digest :: bytes
  em_base_descriptors :: "(artifact_kind, artifact_descriptor) pydict"
  em_segments :: "wal_segment_descriptor list"
  em_key_id :: int

definition BASE_KINDS :: "artifact_kind list" where
  "BASE_KINDS = [REGISTRY, BULK, RESIDUAL, TOMBSTONE, DEDUP]"

fun kind_code :: "artifact_kind \<Rightarrow> int" where
  "kind_code REGISTRY = 1"
| "kind_code BULK = 2"
| "kind_code RESIDUAL = 3"
| "kind_code TOMBSTONE = 4"
| "kind_code DEDUP = 5"

definition code_kind :: "int \<Rightarrow> artifact_kind option" where
  "code_kind c = (if c = 1 then Some REGISTRY else if c = 2 then Some BULK else if c = 3 then Some RESIDUAL
     else if c = 4 then Some TOMBSTONE else if c = 5 then Some DEDUP else None)"

definition MANIFEST_MAGIC :: bytes where "MANIFEST_MAGIC = [0x48, 0x45, 0x4D, 0x32]"
definition HORIZONEPOCH :: bytes where
  "HORIZONEPOCH = [0x48, 0x4F, 0x52, 0x49, 0x5A, 0x4F, 0x4E, 0x45, 0x50, 0x4F, 0x43, 0x48]"
abbreviation (input) MANIFEST_FORMAT_VERSION :: int where "MANIFEST_FORMAT_VERSION \<equiv> 2"
abbreviation (input) ZERO32 :: bytes where "ZERO32 \<equiv> replicate 32 0"
abbreviation (input) ZERO16 :: bytes where "ZERO16 \<equiv> replicate 16 0"

abbreviation (input) MAN_HEADER :: "sfmt list" where
  "MAN_HEADER \<equiv> [FS 4, FU 2, FU 4, FU 4, FU 4, FU 8, FU 8, FI 4, FU 1, FU 1, FU 4, FU 4]"
abbreviation (input) MAN_HEADER_SIZE :: nat where "MAN_HEADER_SIZE \<equiv> 48"
abbreviation (input) MAN_DESC :: "sfmt list" where "MAN_DESC \<equiv> [FU 1, FU 2, FU 1, FU 8, FS 32, FU 4]"
abbreviation (input) MAN_DESC_SIZE :: nat where "MAN_DESC_SIZE \<equiv> 48"
abbreviation (input) MAN_SEG :: "sfmt list" where
  "MAN_SEG \<equiv> [FU 4, FU 4, FU 8, FU 4, FU 1, FU 8, FS 32, FU 8, FS 32, FS 16, FU 4]"
abbreviation (input) MAN_SEG_SIZE :: nat where "MAN_SEG_SIZE \<equiv> 121"

subsection \<open>Encoding\<close>

definition lineage_flag :: "int \<Rightarrow> int" where
  "lineage_flag parent = (if parent < 0 then 0 else 2)"

definition desc_row :: "artifact_kind \<Rightarrow> artifact_descriptor \<Rightarrow> sval list" where
  "desc_row kind d = [VI (kind_code kind), VI (ad_format_version d), VI (if ad_required d then 1 else 0),
     VI (ad_byte_length d), VB (ad_sha256 d), VI (ad_key_id d)]"

definition seg_row :: "wal_segment_descriptor \<Rightarrow> sval list" where
  "seg_row s = [VI (int (sd_ordinal s)), VI (sd_segment_id s), VI (sd_first_seq s),
     VI (int (sd_record_count s)), VI (wsd_status s), VI (wsd_durable_prefix_length s),
     VB (wsd_durable_prefix_sha256 s), VI (wsd_sealed_object_length s), VB (wsd_sealed_object_sha256 s),
     VB (wsd_prev_segment_digest s), VI (wsd_key_id s)]"

definition header_row :: "epoch_manifest \<Rightarrow> sval list" where
  "header_row m = [VB MANIFEST_MAGIC, VI MANIFEST_FORMAT_VERSION, VI (em_scope_id m), VI (em_generation_id m),
     VI (em_fact_count m), VI (em_base_seq m), VI (em_read_seq m), VI (em_parent_generation_id m),
     VI (lineage_flag (em_parent_generation_id m)), VI (int (length BASE_KINDS)),
     VI (int (length (em_segments m))), VI (em_key_id m)]"

text \<open>\<open>_body\<close>, with the descriptors in the order \<open>kinds\<close>; the code writes \<open>BASE_KINDS\<close>.
  \<open>None\<close> stands for \<open>struct.error\<close> and for the \<open>KeyError\<close> of a missing kind.\<close>

definition em_body :: "artifact_kind list \<Rightarrow> epoch_manifest \<Rightarrow> bytes option" where
  "em_body kinds m =
     (if \<not> list_all (\<lambda>k. dget (em_base_descriptors m) k \<noteq> None) kinds then None
      else
        (case (struct_pack MAN_HEADER (header_row m), struct_pack [FS 32] [VB (em_parent_manifest_digest m)],
               pack_rows MAN_DESC (map (\<lambda>k. desc_row k (the (dget (em_base_descriptors m) k))) kinds),
               pack_rows MAN_SEG (map seg_row (em_segments m))) of
           (Some h, Some p, Some ds, Some ss) \<Rightarrow> Some (h @ p @ ds @ ss)
         | _ \<Rightarrow> None))"

definition em_mac :: "bytes \<Rightarrow> bytes \<Rightarrow> bytes" where
  "em_mac key body = mac16 key (HORIZONEPOCH @ body)"

definition em_serialize :: "epoch_manifest \<Rightarrow> bytes \<Rightarrow> bytes option" where
  "em_serialize m key = map_option (\<lambda>body. body @ em_mac key body) (em_body BASE_KINDS m)"

subsection \<open>Parsing\<close>

fun read_descs :: "sval list list \<Rightarrow> (artifact_kind, artifact_descriptor) pydict
    \<Rightarrow> (artifact_kind, artifact_descriptor) pydict option" where
  "read_descs [] acc = Some acc"
| "read_descs (x # xs) acc =
     (case code_kind (fi x 0) of
        None \<Rightarrow> None
      | Some kind \<Rightarrow>
          if dget acc kind \<noteq> None then None
          else read_descs xs (dput kind
                 \<lparr>ad_kind = kind, ad_format_version = fi x 1, ad_required = (fi x 2 \<noteq> 0),
                  ad_byte_length = fi x 3, ad_sha256 = fb x 4, ad_key_id = fi x 5\<rparr> acc))"

definition seg_of_row :: "sval list \<Rightarrow> wal_segment_descriptor" where
  "seg_of_row x =
     \<lparr>sd_ordinal = nat (fi x 0), sd_segment_id = fi x 1, sd_first_seq = fi x 2,
      sd_record_count = nat (fi x 3), wsd_status = fi x 4, wsd_durable_prefix_length = fi x 5,
      wsd_durable_prefix_sha256 = fb x 6, wsd_sealed_object_length = fi x 7,
      wsd_sealed_object_sha256 = fb x 8, wsd_prev_segment_digest = fb x 9, wsd_key_id = fi x 10\<rparr>"

definition row_at :: "sfmt list \<Rightarrow> bytes \<Rightarrow> nat \<Rightarrow> nat \<Rightarrow> sval list" where
  "row_at fs blob off i = struct_unpack fs (drop (off + i * struct_size fs) blob)"

text \<open>The header checks up to the MAC: the segment count and the key, or the state.\<close>

definition check_man_header :: "bytes \<Rightarrow> sval list \<Rightarrow> keyring \<Rightarrow> generation_state" where
  "check_man_header blob x kr =
     (let n_base = fi x 9; n_seg = fi x 10
      in if fb x 0 \<noteq> MANIFEST_MAGIC then G_CORRUPT
         else if fi x 1 \<noteq> MANIFEST_FORMAT_VERSION then G_INCOMPATIBLE
         else if n_base \<noteq> int (length BASE_KINDS) then G_CORRUPT
         else if n_seg < 0 \<or> n_seg > 2 ^ 20 then G_CORRUPT
         else if int (length blob) \<noteq> int MAN_HEADER_SIZE + 32 + n_base * int MAN_DESC_SIZE
                   + n_seg * int MAN_SEG_SIZE + int TAG_BYTES then G_CORRUPT
         else
           (case dget kr (fi x 11) of
              None \<Rightarrow> G_INCOMPATIBLE
            | Some key \<Rightarrow>
                (let body = take (length blob - TAG_BYTES) blob
                 in if em_mac key body \<noteq> drop (length blob - TAG_BYTES) blob then G_CORRUPT else G_VALID)))"

definition seq_ok :: "int \<Rightarrow> bool" where
  "seq_ok v \<longleftrightarrow> 0 \<le> v \<and> v < MAX_SEQ"

text \<open>The semantic checks behind the MAC.\<close>

definition check_man_fields :: "bytes \<Rightarrow> sval list \<Rightarrow> bool" where
  "check_man_fields blob x =
     (let parent = fi x 7; gen = fi x 3; parent_digest = slice blob MAN_HEADER_SIZE (MAN_HEADER_SIZE + 32)
      in if \<not> (seq_ok (fi x 5) \<and> seq_ok (fi x 6)) then False
         else if \<not> (u32 gen \<and> u32 (fi x 2)) then False
         else if parent < -1 then False
         else if parent \<ge> 0 \<and> \<not> parent < gen then False
         else if parent < 0 \<and> parent_digest \<noteq> ZERO32 then False
         else if parent \<ge> 0 \<and> parent_digest = ZERO32 then False
         else True)"

definition parse_manifest :: "bytes option \<Rightarrow> keyring \<Rightarrow> generation_state \<times> epoch_manifest option" where
  "parse_manifest blob_opt kr =
     (case blob_opt of
        None \<Rightarrow> (G_REQUIRED_MISSING, None)
      | Some blob \<Rightarrow>
          if length blob < MAN_HEADER_SIZE + 32 + TAG_BYTES then (G_CORRUPT, None)
          else
            (let x = struct_unpack MAN_HEADER blob
             in case check_man_header blob x kr of
                  G_VALID \<Rightarrow>
                    if \<not> check_man_fields blob x then (G_CORRUPT, None)
                    else
                      (let off = MAN_HEADER_SIZE + 32; off2 = off + length BASE_KINDS * MAN_DESC_SIZE
                       in case read_descs (map (row_at MAN_DESC blob off) [0..<length BASE_KINDS]) [] of
                            None \<Rightarrow> (G_CORRUPT, None)
                          | Some descs \<Rightarrow>
                              if set (dkeys descs) \<noteq> set BASE_KINDS then (G_CORRUPT, None)
                              else (G_VALID, Some
                                \<lparr>em_scope_id = fi x 2, em_generation_id = fi x 3, em_fact_count = fi x 4,
                                 em_base_seq = fi x 5, em_read_seq = fi x 6, em_parent_generation_id = fi x 7,
                                 em_parent_manifest_digest = slice blob MAN_HEADER_SIZE (MAN_HEADER_SIZE + 32),
                                 em_base_descriptors = descs,
                                 em_segments = map (\<lambda>i. seg_of_row (row_at MAN_SEG blob off2 i)) [0..<nat (fi x 10)],
                                 em_key_id = fi x 11\<rparr>))
                | s \<Rightarrow> (s, None)))"

subsection \<open>The coverage law and the preflight\<close>

text \<open>One turn of the loop of \<open>check_coverage\<close>, and the loop: the next sequence number, or
  \<open>None\<close>.\<close>

definition segment_covers ::
  "int \<Rightarrow> int \<Rightarrow> wal_segment_descriptor \<Rightarrow> bool \<Rightarrow> nat \<Rightarrow> int \<Rightarrow> bytes \<Rightarrow> int \<Rightarrow> bool" where
  "segment_covers H R s is_last i prev_id prev_digest expected =
     (let active = (wsd_status s = STATE_ACTIVE); sealed = (wsd_status s = STATE_SEALED)
      in if sd_ordinal s \<noteq> i then False
         else if \<not> u32 (sd_segment_id s) then False
         else if sd_segment_id s \<le> prev_id then False
         else if \<not> active \<and> \<not> sealed then False
         else if sd_first_seq s \<noteq> expected then False
         else if active \<and> \<not> is_last then False
         else if sealed \<and> is_last \<and> R > H \<and> sd_record_count s = 0 then False
         else if sd_record_count s = 0 \<and> \<not> (is_last \<and> active) then False
         else if wsd_durable_prefix_length s \<le> 0 then False
         else if sealed \<and> (wsd_sealed_object_length s \<noteq> wsd_durable_prefix_length s
             \<or> wsd_sealed_object_sha256 s \<noteq> wsd_durable_prefix_sha256 s
             \<or> wsd_sealed_object_sha256 s = ZERO32) then False
         else if \<not> sealed \<and> (wsd_sealed_object_length s \<noteq> 0 \<or> wsd_sealed_object_sha256 s \<noteq> ZERO32) then False
         else if wsd_prev_segment_digest s \<noteq> prev_digest then False
         else if expected + int (sd_record_count s) \<ge> MAX_SEQ then False
         else True)"

fun coverage_loop ::
  "int \<Rightarrow> int \<Rightarrow> wal_segment_descriptor list \<Rightarrow> nat \<Rightarrow> int \<Rightarrow> bytes \<Rightarrow> int \<Rightarrow> int option" where
  "coverage_loop H R [] i prev_id prev_digest expected = Some expected"
| "coverage_loop H R (s # ss) i prev_id prev_digest expected =
     (if \<not> segment_covers H R s (ss = []) i prev_id prev_digest expected then None
      else coverage_loop H R ss (Suc i) (sd_segment_id s) (take 16 (wsd_sealed_object_sha256 s))
             (expected + int (sd_record_count s)))"

definition check_coverage :: "epoch_manifest \<Rightarrow> bool" where
  "check_coverage m =
     (let H = em_base_seq m; R = em_read_seq m
      in if R < H then False
         else if em_segments m = [] then R = H
         else coverage_loop H R (em_segments m) 0 (-1) ZERO16 (H + 1) = Some (R + 1))"

fun preflight_base :: "artifact_descriptor list \<Rightarrow> int \<Rightarrow> int \<Rightarrow> int option" where
  "preflight_base [] lim base_bytes = Some base_bytes"
| "preflight_base (d # ds) lim base_bytes =
     (if ad_byte_length d > lim - base_bytes then None
      else preflight_base ds lim (base_bytes + ad_byte_length d))"

fun preflight_segments ::
  "wal_segment_descriptor list \<Rightarrow> generation_limits \<Rightarrow> int \<Rightarrow> int \<Rightarrow> int option" where
  "preflight_segments [] gl total_wal total_frames = Some total_wal"
| "preflight_segments (s # ss) gl total_wal total_frames =
     (if wsd_durable_prefix_length s > int (gl_max_segment_bytes gl) then None
      else if sd_record_count s > gl_max_frames_per_segment gl then None
      else if wsd_durable_prefix_length s > int (gl_max_total_wal_bytes gl) - total_wal then None
      else if int (sd_record_count s) > int (gl_max_total_frames gl) - total_frames then None
      else preflight_segments ss gl (total_wal + wsd_durable_prefix_length s)
             (total_frames + int (sd_record_count s)))"

definition generation_preflight :: "epoch_manifest \<Rightarrow> nat \<Rightarrow> generation_limits \<Rightarrow> bool" where
  "generation_preflight m manifest_len gl =
     (if int manifest_len > gl_max_manifest_bytes gl then False
      else
        (case preflight_base (map snd (em_base_descriptors m)) (gl_max_base_bytes gl) 0 of
           None \<Rightarrow> False
         | Some base_bytes \<Rightarrow>
             if length (em_segments m) > gl_max_segments gl then False
             else
               (case preflight_segments (em_segments m) gl 0 0 of
                  None \<Rightarrow> False
                | Some total_wal \<Rightarrow> total_wal \<le> gl_max_total_generation_bytes gl - base_bytes)))"

subsection \<open>The round trip\<close>

text \<open>The manifests that fit the layout.\<close>

definition desc_fits :: "artifact_kind \<Rightarrow> artifact_descriptor \<Rightarrow> bool" where
  "desc_fits k d \<longleftrightarrow> ad_kind d = k \<and> 0 \<le> ad_format_version d \<and> ad_format_version d < 2 ^ 16 \<and>
     0 \<le> ad_byte_length d \<and> ad_byte_length d < 2 ^ 64 \<and> length (ad_sha256 d) = 32 \<and> u32 (ad_key_id d)"

definition seg_fits :: "wal_segment_descriptor \<Rightarrow> bool" where
  "seg_fits s \<longleftrightarrow> list_all2 fits MAN_SEG (seg_row s)"

definition manifest_fits :: "epoch_manifest \<Rightarrow> bool" where
  "manifest_fits m \<longleftrightarrow>
     u32 (em_scope_id m) \<and> u32 (em_generation_id m) \<and> u32 (em_fact_count m) \<and> u32 (em_key_id m) \<and>
     seq_ok (em_base_seq m) \<and> seq_ok (em_read_seq m) \<and>
     length (em_parent_manifest_digest m) = 32 \<and>
     (if em_parent_generation_id m = -1 then em_parent_manifest_digest m = ZERO32
      else 0 \<le> em_parent_generation_id m \<and> em_parent_generation_id m < 2 ^ 31 \<and>
        em_parent_generation_id m < em_generation_id m \<and> em_parent_manifest_digest m \<noteq> ZERO32) \<and>
     (\<forall>k. \<exists>d. dget (em_base_descriptors m) k = Some d \<and> desc_fits k d) \<and>
     length (em_segments m) \<le> 2 ^ 20 \<and> (\<forall>s \<in> set (em_segments m). seg_fits s)"

lemma set_BASE_KINDS [simp]: "set BASE_KINDS = UNIV" "length BASE_KINDS = 5" "distinct BASE_KINDS"
proof -
  show "set BASE_KINDS = UNIV"
  proof (rule set_eqI)
    fix k
    show "k \<in> set BASE_KINDS \<longleftrightarrow> k \<in> UNIV" by (cases k) (simp_all add: BASE_KINDS_def)
  qed
qed (simp_all add: BASE_KINDS_def)

lemma code_kind_code [simp]: "code_kind (kind_code k) = Some k"
  by (cases k) (simp_all add: code_kind_def)

lemma seg_of_seg_row [simp]: "seg_of_row (seg_row s) = s"
  by (simp add: seg_of_row_def seg_row_def)

lemma desc_row_fits: "desc_fits k d \<Longrightarrow> list_all2 fits MAN_DESC (desc_row k d)"
  by (cases k) (simp_all add: desc_fits_def desc_row_def u32_def)

lemma read_descs_rows:
  "distinct ks \<Longrightarrow> \<forall>k \<in> set ks. dget acc k = None \<and> ad_kind (D k) = k \<Longrightarrow>
   read_descs (map (\<lambda>k. desc_row k (D k)) ks) acc = Some (acc @ map (\<lambda>k. (k, D k)) ks)"
proof (induction ks arbitrary: acc)
  case Nil
  then show ?case by simp
next
  case (Cons k ks)
  have n: "dget acc k = None" using Cons.prems(2) by simp
  have d: "\<lparr>ad_kind = k, ad_format_version = ad_format_version (D k), ad_required = ad_required (D k),
      ad_byte_length = ad_byte_length (D k), ad_sha256 = ad_sha256 (D k), ad_key_id = ad_key_id (D k)\<rparr> = D k"
    using Cons.prems(2) by simp
  have h: "read_descs (desc_row k (D k) # xs) acc = read_descs xs (acc @ [(k, D k)])" for xs
    using d n by (auto simp: desc_row_def dput_new simp del: One_nat_def)
  have "\<forall>j \<in> set ks. dget (acc @ [(k, D k)]) j = None \<and> ad_kind (D j) = j"
    using Cons.prems by (auto simp: dget_append)
  from Cons.IH [OF _ this] Cons.prems(1) show ?case by (simp add: h del: read_descs.simps)
qed

lemma slice_mid: "length a = i \<Longrightarrow> j = i + length b \<Longrightarrow> slice (a @ b @ r) i j = b"
  by (simp add: slice_def)

lemma rows_at:
  assumes "pack_rows fs rs = Some body" "\<forall>r \<in> set rs. list_all2 fits fs r" "length pre = off"
  shows "map (row_at fs (pre @ body @ t) off) [0..<length rs] = rs"
proof (rule nth_equalityI)
  fix i assume "i < length (map (row_at fs (pre @ body @ t) off) [0..<length rs])"
  then have i: "i < length rs" by simp
  have "drop (off + i * struct_size fs) (pre @ body @ t) = drop (i * struct_size fs) (body @ t)"
    using assms(3) by simp
  then show "map (row_at fs (pre @ body @ t) off) [0..<length rs] ! i = rs ! i"
    using pack_rows_nth [OF assms(1,2) i, of t] i by (simp add: row_at_def del: drop_append)
qed simp

text \<open>The parser accepts the five descriptors in any order.\<close>

definition with_order :: "artifact_kind list \<Rightarrow> epoch_manifest \<Rightarrow> epoch_manifest" where
  "with_order kinds m = m\<lparr>em_base_descriptors := map (\<lambda>k. (k, the (dget (em_base_descriptors m) k))) kinds\<rparr>"

lemma em_body_parts:
  assumes m: "manifest_fits m"
  obtains h ds ss where "em_body kinds m = Some (h @ em_parent_manifest_digest m @ ds @ ss)"
    "struct_pack MAN_HEADER (header_row m) = Some h" "list_all2 fits MAN_HEADER (header_row m)"
    "pack_rows MAN_DESC (map (\<lambda>k. desc_row k (the (dget (em_base_descriptors m) k))) kinds) = Some ds"
    "pack_rows MAN_SEG (map seg_row (em_segments m)) = Some ss"
    "\<forall>r \<in> set (map (\<lambda>k. desc_row k (the (dget (em_base_descriptors m) k))) kinds). list_all2 fits MAN_DESC r"
    "\<forall>r \<in> set (map seg_row (em_segments m)). list_all2 fits MAN_SEG r"
proof -
  have n: "int (length (em_segments m)) \<le> 2 ^ 20" using m by (simp add: manifest_fits_def)
  have f: "list_all2 fits MAN_HEADER (header_row m)"
    using m n by (auto simp: header_row_def manifest_fits_def seq_ok_def u32_def MANIFEST_MAGIC_def lineage_flag_def
        split: if_splits)
  obtain h where h: "struct_pack MAN_HEADER (header_row m) = Some h" using fits_struct_pack [OF f] by blast
  have rd: "\<forall>r \<in> set (map (\<lambda>k. desc_row k (the (dget (em_base_descriptors m) k))) kinds). list_all2 fits MAN_DESC r"
  proof
    fix r assume "r \<in> set (map (\<lambda>k. desc_row k (the (dget (em_base_descriptors m) k))) kinds)"
    then obtain k where k: "r = desc_row k (the (dget (em_base_descriptors m) k))" by auto
    obtain d where "dget (em_base_descriptors m) k = Some d" "desc_fits k d"
      using m by (auto simp: manifest_fits_def)
    then show "list_all2 fits MAN_DESC r" using desc_row_fits k by simp
  qed
  have rs: "\<forall>r \<in> set (map seg_row (em_segments m)). list_all2 fits MAN_SEG r"
    using m by (auto simp: manifest_fits_def seg_fits_def)
  obtain ds ss where p: "pack_rows MAN_DESC (map (\<lambda>k. desc_row k (the (dget (em_base_descriptors m) k))) kinds) = Some ds"
    "pack_rows MAN_SEG (map seg_row (em_segments m)) = Some ss"
    using pack_rows_fits [OF rd] pack_rows_fits [OF rs] by blast
  have e: "dget (em_base_descriptors m) k \<noteq> None" for k using m by (auto simp: manifest_fits_def)
  have "length (em_parent_manifest_digest m) = 32" using m by (simp add: manifest_fits_def)
  then have pd: "struct_pack [FS 32] [VB (em_parent_manifest_digest m)] = Some (em_parent_manifest_digest m)"
    by simp
  have "em_body kinds m = Some (h @ em_parent_manifest_digest m @ ds @ ss)"
    unfolding em_body_def h p pd using e by (simp add: list_all_iff)
  then show ?thesis using that h f p rd rs by blast
qed


lemma pack_32 [simp]: "length d = 32 \<Longrightarrow> struct_pack [FS 32] [VB d] = Some d"
  by simp

text \<open>Any order of the five descriptors is accepted; \<open>serialize\<close> writes \<open>BASE_KINDS\<close>.\<close>

lemma parse_any_order:
  assumes m: "manifest_fits m" and ks: "distinct kinds" "set kinds = UNIV"
    and key: "dget kr (em_key_id m) = Some key"
  shows "\<exists>body. em_body kinds m = Some body \<and>
    parse_manifest (Some (body @ em_mac key body)) kr = (G_VALID, Some (with_order kinds m))"
proof -
  let ?D = "\<lambda>k. the (dget (em_base_descriptors m) k)"
  obtain h ds ss where b: "em_body kinds m = Some (h @ em_parent_manifest_digest m @ ds @ ss)"
    and h: "struct_pack MAN_HEADER (header_row m) = Some h" "list_all2 fits MAN_HEADER (header_row m)"
    and ds: "pack_rows MAN_DESC (map (\<lambda>k. desc_row k (?D k)) kinds) = Some ds"
    and ss: "pack_rows MAN_SEG (map seg_row (em_segments m)) = Some ss"
    and rd: "\<forall>r \<in> set (map (\<lambda>k. desc_row k (?D k)) kinds). list_all2 fits MAN_DESC r"
    and rs: "\<forall>r \<in> set (map seg_row (em_segments m)). list_all2 fits MAN_SEG r"
    by (rule em_body_parts [OF m, of kinds])
  let ?p = "em_parent_manifest_digest m"
  let ?body = "h @ ?p @ ds @ ss"
  let ?mac = "em_mac key ?body"
  let ?blob = "?body @ ?mac"
  have nk: "length kinds = 5"
    using distinct_card [OF ks(1)] distinct_card [OF set_BASE_KINDS(3)] ks(2) by simp
  have lh: "length h = 48" using struct_pack_length [OF h(1)] by simp
  have lp: "length ?p = 32" using m by (simp add: manifest_fits_def)
  have ld: "length ds = 240" using pack_rows_length [OF ds] nk by simp
  have ls: "length ss = length (em_segments m) * 121" using pack_rows_length [OF ss] by simp
  have lm: "length ?mac = TAG_BYTES" by (simp add: em_mac_def)
  have x: "struct_unpack MAN_HEADER ?blob = header_row m"
    using struct_unpack_pack [OF h(1,2), of "?p @ ds @ ss @ ?mac"] by (simp only: append_assoc)
  have lb: "length ?blob = 320 + length (em_segments m) * 121 + TAG_BYTES"
    using lh lp ld ls lm by simp
  have tk: "take (length ?blob - TAG_BYTES) ?blob = ?body" "drop (length ?blob - TAG_BYTES) ?blob = ?mac"
    using lm by simp_all
  have sel: "fb (header_row m) 0 = MANIFEST_MAGIC" "fi (header_row m) 1 = 2" "fi (header_row m) 2 = em_scope_id m"
    "fi (header_row m) 3 = em_generation_id m" "fi (header_row m) 4 = em_fact_count m"
    "fi (header_row m) 5 = em_base_seq m" "fi (header_row m) 6 = em_read_seq m"
    "fi (header_row m) 7 = em_parent_generation_id m" "fi (header_row m) 9 = 5"
    "fi (header_row m) 10 = int (length (em_segments m))" "fi (header_row m) 11 = em_key_id m"
    by (simp_all add: header_row_def)
  have hdr: "check_man_header ?blob (header_row m) kr = G_VALID"
    unfolding check_man_header_def Let_def tk sel using m lb key by (simp add: manifest_fits_def)
  have sp: "slice ?blob 48 80 = ?p" using slice_mid [OF lh, of 80 ?p "ds @ ss @ ?mac"] lp by simp
  have fl: "check_man_fields ?blob (header_row m)"
    unfolding check_man_fields_def Let_def sel using m sp
    by (simp add: manifest_fits_def u32_def split: if_splits)
  have rows: "map (row_at MAN_DESC ?blob 80) [0..<5] = map (\<lambda>k. desc_row k (?D k)) kinds"
    using rows_at [OF ds rd, of "h @ ?p" 80 "ss @ ?mac"] lh lp nk by simp
  have desc: "read_descs (map (\<lambda>k. desc_row k (?D k)) kinds) [] = Some (map (\<lambda>k. (k, ?D k)) kinds)"
  proof -
    have "\<forall>k \<in> set kinds. dget [] k = None \<and> ad_kind (?D k) = k"
    proof
      fix k
      obtain d where "dget (em_base_descriptors m) k = Some d" "desc_fits k d"
        using m by (auto simp: manifest_fits_def)
      then show "dget [] k = None \<and> ad_kind (?D k) = k" by (simp add: desc_fits_def)
    qed
    from read_descs_rows [OF ks(1) this] show ?thesis by simp
  qed
  have segs: "map (\<lambda>i. seg_of_row (row_at MAN_SEG ?blob 320 i)) [0..<length (em_segments m)] = em_segments m"
  proof -
    have "map (row_at MAN_SEG ?blob 320) [0..<length (em_segments m)] = map seg_row (em_segments m)"
      using rows_at [OF ss rs, of "h @ ?p @ ds" 320 ?mac] lh lp ld by simp
    then have "map seg_of_row (map (row_at MAN_SEG ?blob 320) [0..<length (em_segments m)]) = em_segments m"
      by (simp add: comp_def)
    then show ?thesis by (simp add: comp_def)
  qed
  have long: "\<not> length ?blob < 48 + 32 + TAG_BYTES" using lh lp lm by simp
  have "parse_manifest (Some ?blob) kr = (G_VALID, Some (with_order kinds m))"
    unfolding parse_manifest_def option.case Let_def x hdr generation_state.case
    using long fl rows desc segs sp
    by (simp add: header_row_def with_order_def comp_def ks(2) )
  then show ?thesis using b by blast
qed

subsection \<open>The coverage law is a partition\<close>

definition seg_seqs :: "wal_segment_descriptor \<Rightarrow> int list" where
  "seg_seqs s = [sd_first_seq s..sd_first_seq s + int (sd_record_count s) - 1]"

lemma segment_coversD:
  assumes "segment_covers H R s is_last i pid pd e"
  shows "sd_ordinal s = i" "sd_first_seq s = e" "pid < sd_segment_id s"
    "u32 (sd_segment_id s)" "wsd_prev_segment_digest s = pd" "e + int (sd_record_count s) < MAX_SEQ"
    "wsd_status s = STATE_SEALED \<or> wsd_status s = STATE_ACTIVE"
    "wsd_status s = STATE_ACTIVE \<longrightarrow> is_last" "\<not> is_last \<longrightarrow> 0 < sd_record_count s"
    "0 < wsd_durable_prefix_length s"
  using assms by (auto simp: segment_covers_def Let_def split: if_splits)

lemma seqs_split: "0 \<le> (n :: int) \<Longrightarrow> e + n \<le> f \<Longrightarrow> [e..e + n - 1] @ [e + n..f - 1] = [e..f - 1]"
  using upto_split1 [of e "e + n" "f - 1"] by (cases "e + n \<le> f - 1") auto

lemma coverage_loop_partition:
  "coverage_loop H R ss i pid pd e = Some f \<Longrightarrow>
   e \<le> f \<and> concat (map seg_seqs ss) = [e..f - 1] \<and> map sd_ordinal ss = [i..<i + length ss] \<and>
   (\<forall>s \<in> set ss. pid < sd_segment_id s) \<and> sorted_wrt (<) (map sd_segment_id ss) \<and>
   (\<forall>s \<in> set (butlast ss). wsd_status s = STATE_SEALED \<and> 0 < sd_record_count s)"
proof (induction ss arbitrary: i pid pd e)
  case Nil
  then show ?case by simp
next
  case (Cons s ss)
  have c: "segment_covers H R s (ss = []) i pid pd e"
    and l: "coverage_loop H R ss (Suc i) (sd_segment_id s) (take 16 (wsd_sealed_object_sha256 s))
      (e + int (sd_record_count s)) = Some f"
    using Cons.prems by (auto split: if_splits)
  note d = segment_coversD [OF c] and ih = Cons.IH [OF l]
  have "concat (map seg_seqs (s # ss)) = [e..f - 1]"
    using conjunct1 [OF conjunct2 [OF ih]] ih d(2) seqs_split [of "int (sd_record_count s)" e f]
    by (simp add: seg_seqs_def [of s])
  moreover have "map sd_ordinal (s # ss) = [i..<i + length (s # ss)]"
    using ih d(1) by (simp add: upt_conv_Cons del: upt_Suc)
  moreover have "\<forall>x \<in> set ss. pid < sd_segment_id x" using ih d(3) by fastforce
  ultimately show ?case using ih d by auto
qed

lemma check_coverage_partition:
  assumes "check_coverage m"
  shows "em_base_seq m \<le> em_read_seq m"
    "concat (map seg_seqs (em_segments m)) = [em_base_seq m + 1..em_read_seq m]"
    "sorted_wrt (<) (map sd_segment_id (em_segments m))"
    "\<forall>s \<in> set (butlast (em_segments m)). wsd_status s = STATE_SEALED \<and> 0 < sd_record_count s"
proof -
  have "em_base_seq m \<le> em_read_seq m \<and>
    concat (map seg_seqs (em_segments m)) = [em_base_seq m + 1..em_read_seq m] \<and>
    sorted_wrt (<) (map sd_segment_id (em_segments m)) \<and>
    (\<forall>s \<in> set (butlast (em_segments m)). wsd_status s = STATE_SEALED \<and> 0 < sd_record_count s)"
    using assms coverage_loop_partition [of "em_base_seq m" "em_read_seq m" "em_segments m" 0 "-1" ZERO16
        "em_base_seq m + 1" "em_read_seq m + 1"]
    by (cases "em_segments m = []") (auto simp: check_coverage_def Let_def split: if_splits)
  then show "em_base_seq m \<le> em_read_seq m"
    "concat (map seg_seqs (em_segments m)) = [em_base_seq m + 1..em_read_seq m]"
    "sorted_wrt (<) (map sd_segment_id (em_segments m))"
    "\<forall>s \<in> set (butlast (em_segments m)). wsd_status s = STATE_SEALED \<and> 0 < sd_record_count s"
    by simp_all
qed

end
