(* ===== verification/Generation.thy ===== *)
theory Generation
  imports Manifest
begin

section \<open>Opening a generation (\<open>horizon_manifest.py\<close>)\<close>

text \<open>
  \<open>open_generation\<close> takes a manifest to a sealed handle: it parses, checks the coverage law
  and the preflight, opens and cross validates the five artifacts, replays the segments over
  the base and fixes the lineage. Every failure is a typed state; the messages are left out.
  Faults of the stores are parameters: \<open>changed\<close> says of an object that it changed while it
  was read, \<open>fault\<close> gives the fault of reading a segment. The lemmas show that a valid result
  is exactly the abstract replay of the covered frames over the validated base.
\<close>

record generation_handle =
  gh_scope_id :: int
  gh_generation_id :: int
  gh_fact_count :: int
  gh_base_seq :: int
  gh_read_seq :: int
  gh_lineage :: lineage
  gh_bundle :: generation_bundle
  gh_l0 :: wal_index
  gh_txindex :: tx_index
  gh_dedup :: dedup_table
  gh_sealed :: bool

text \<open>Exceptions that leave \<open>open_generation\<close>: one of the reducer, an attribute of a component
  of the wrong type, an HMAC with the key \<open>None\<close>.\<close>

datatype gen_exn = ReducerExn rexn | ComponentExn | NoKeyExn

definition handle_view :: "generation_handle \<Rightarrow> read_view" where
  "handle_view h = \<lparr>rv_generation_id = gh_generation_id h, rv_scope_id = gh_scope_id h,
     rv_base_seq = gh_base_seq h, rv_read_seq = gh_read_seq h\<rparr>"

text \<open>\<open>GenerationHandle.read_fact\<close>; an unsealed handle raises \<open>ValueError\<close>.\<close>

definition read_fact :: "generation_handle \<Rightarrow> int \<Rightarrow> open_exn + read_result option" where
  "read_fact h fact_id =
     (if \<not> gh_sealed h then Inl ValueError
      else Inr (read (handle_view h) (gh_bundle h) (wi_get (gh_l0 h)) fact_id))"

subsection \<open>The base\<close>

fun base_state_map :: "artifact_open_state \<Rightarrow> generation_state" where
  "base_state_map A_REQUIRED_MISSING = G_REQUIRED_MISSING"
| "base_state_map A_ABSENT_ALLOWED = G_REQUIRED_MISSING"
| "base_state_map A_CORRUPT = G_CORRUPT"
| "base_state_map A_INCOMPATIBLE = G_INCOMPATIBLE"
| "base_state_map A_RESOURCE_LIMIT = G_RESOURCE_LIMIT"
| "base_state_map A_VALID = G_CORRUPT"

definition open_base_artifact ::
  "numpy \<Rightarrow> artifact_descriptor \<Rightarrow> object_store \<Rightarrow> (bytes \<Rightarrow> bool) \<Rightarrow> artifact_limits \<Rightarrow> keyring
     \<Rightarrow> generation_state + component" where
  "open_base_artifact np desc store changed limits kr =
     (let rr = get_limited store (ad_sha256 desc) (max_blob_bytes limits) (changed (ad_sha256 desc))
      in if \<not> or_ok rr \<and> or_reason rr \<noteq> MISSING
         then Inl (if or_reason rr = COUNT_LIMIT then G_RESOURCE_LIMIT else G_CORRUPT)
         else
           (let blob = (if or_ok rr then or_blob rr else None);
                oa = open_artifact np desc blob [] limits (Some kr)
            in case (oa_state oa, oa_component oa) of
                 (A_VALID, Some part) \<Rightarrow> Inr part
               | (s, _) \<Rightarrow> Inl (base_state_map s)))"

text \<open>The two loops over \<open>BASE_KINDS\<close>.\<close>

fun check_base_descriptors ::
  "(artifact_kind, artifact_descriptor) pydict \<Rightarrow> artifact_kind list \<Rightarrow> generation_state" where
  "check_base_descriptors ds [] = G_VALID"
| "check_base_descriptors ds (k # ks) =
     (case dget ds k of
        None \<Rightarrow> G_CORRUPT
      | Some d \<Rightarrow>
          if \<not> ad_required d then G_COVERAGE_ERROR
          else if ad_format_version d \<noteq> descriptor_version k then G_INCOMPATIBLE
          else check_base_descriptors ds ks)"

fun open_base_components ::
  "(artifact_descriptor \<Rightarrow> generation_state + component)
     \<Rightarrow> (artifact_kind, artifact_descriptor) pydict \<Rightarrow> artifact_kind list \<Rightarrow> generation_state + component list" where
  "open_base_components opn ds [] = Inr []"
| "open_base_components opn ds (k # ks) =
     (case dget ds k of
        None \<Rightarrow> Inl G_CORRUPT
      | Some d \<Rightarrow>
          (case opn d of
             Inl e \<Rightarrow> Inl e
           | Inr part \<Rightarrow>
               (case open_base_components opn ds ks of Inl e \<Rightarrow> Inl e | Inr cs \<Rightarrow> Inr (part # cs))))"

subsection \<open>The segments\<close>

fun segment_state_map :: "active_prefix_state \<Rightarrow> generation_state" where
  "segment_state_map AP_MISSING = G_REQUIRED_MISSING"
| "segment_state_map AP_MISSING_COMMITTED_PREFIX = G_CORRUPT"
| "segment_state_map AP_RESOURCE_LIMIT = G_RESOURCE_LIMIT"
| "segment_state_map AP_INCOMPATIBLE = G_INCOMPATIBLE"
| "segment_state_map _ = G_CORRUPT"

fun reduce_state_map :: "rclass \<Rightarrow> generation_state" where
  "reduce_state_map REDUCE_COVERAGE = G_COVERAGE_ERROR"
| "reduce_state_map REDUCE_LIMIT = G_RESOURCE_LIMIT"
| "reduce_state_map _ = G_CORRUPT"

text \<open>The authenticated header of the file binds every field of the descriptor.\<close>

definition header_binds :: "wal_header_info \<Rightarrow> int \<Rightarrow> wal_segment_descriptor \<Rightarrow> bool" where
  "header_binds h scope_id s \<longleftrightarrow>
     whi_scope_id h = scope_id \<and> whi_segment_id h = sd_segment_id s \<and> whi_first_seq h = sd_first_seq s \<and>
     whi_key_id h = wsd_key_id s \<and> whi_prev_digest h = wsd_prev_segment_digest s"

fun replay_segments ::
  "wal_store \<Rightarrow> keyring \<Rightarrow> int \<Rightarrow> wal_store_limits \<Rightarrow> (wal_segment_descriptor \<Rightarrow> read_fault option)
     \<Rightarrow> wal_segment_descriptor list \<Rightarrow> (wal_index, tx_index) reducer
     \<Rightarrow> gen_exn + (generation_state + (wal_index, tx_index) reducer)" where
  "replay_segments ws kr scope_id wlim fault [] reducer = Inr (Inr reducer)"
| "replay_segments ws kr scope_id wlim fault (s # ss) reducer =
     (if dget kr (wsd_key_id s) = None then Inr (Inl G_INCOMPATIBLE)
      else
        (case read_validated_segment ws s scope_id wlim (fault s) of
           (AP_VALID, Some seg) \<Rightarrow>
             if whi_format_version (vs_header seg) \<noteq> WAL_FORMAT_VERSION then Inr (Inl G_INCOMPATIBLE)
             else if \<not> header_binds (vs_header seg) scope_id s then Inr (Inl G_COVERAGE_ERROR)
             else
               (case feed_segment plain_ops reducer (segment_token.truncate seg) (segment_desc.truncate s) of
                  Inl e \<Rightarrow> Inl (ReducerExn e)
                | Inr (c, reducer') \<Rightarrow>
                    if c \<noteq> REDUCE_OK then Inr (Inl (reduce_state_map c))
                    else replay_segments ws kr scope_id wlim fault ss reducer')
         | (st, _) \<Rightarrow> Inr (Inl (segment_state_map st))))"

text \<open>The lineage: genesis, or checked against the parent given, or not checked.\<close>

definition resolve_lineage :: "epoch_manifest \<Rightarrow> bytes option \<Rightarrow> keyring \<Rightarrow> lineage option" where
  "resolve_lineage man parent_blob kr =
     (if em_parent_generation_id man < 0 then Some GENESIS
      else
        (case parent_blob of
           None \<Rightarrow> Some UNVERIFIED
         | Some pb \<Rightarrow>
             (case parse_manifest (Some pb) kr of
                (G_VALID, Some p) \<Rightarrow>
                  if sha256 pb \<noteq> em_parent_manifest_digest man then None
                  else if em_scope_id p \<noteq> em_scope_id man
                    \<or> em_generation_id p \<noteq> em_parent_generation_id man then None
                  else Some VERIFIED
              | _ \<Rightarrow> None)))"

subsection \<open>\<open>open_generation\<close>\<close>

text \<open>What the caller supplies besides the manifest.\<close>

record gen_env =
  ge_np :: numpy
  ge_objects :: object_store
  ge_wal :: wal_store
  ge_keyring :: keyring
  ge_changed :: "bytes \<Rightarrow> bool"
  ge_fault :: "wal_segment_descriptor \<Rightarrow> read_fault option"
  ge_limits :: artifact_limits
  ge_parent :: "bytes option"
  ge_reducer_limits :: reducer_limits
  ge_gen_limits :: generation_limits

definition derived_reducer_limits :: "generation_limits \<Rightarrow> reducer_limits" where
  "derived_reducer_limits gl =
     \<lparr>rl_max_segments = gl_max_segments gl, rl_max_total_frames = gl_max_total_frames gl,
      rl_max_total_wal_bytes = gl_max_total_wal_bytes gl,
      rl_max_frames_per_segment = gl_max_frames_per_segment gl,
      rl_max_segment_bytes = gl_max_segment_bytes gl\<rparr>"

definition wal_limits :: "generation_limits \<Rightarrow> wal_store_limits" where
  "wal_limits gl = \<lparr>max_active_bytes = int (gl_max_segment_bytes gl), max_sealed_bytes = int (gl_max_segment_bytes gl)\<rparr>"

text \<open>The replay over the opened base, and the handle.\<close>

definition replay_generation ::
  "gen_env \<Rightarrow> epoch_manifest \<Rightarrow> generation_bundle \<Rightarrow> dedup_table
     \<Rightarrow> gen_exn + generation_state \<times> generation_handle option" where
  "replay_generation env man bundle dedup =
     (let view = \<lparr>rv_generation_id = em_generation_id man, rv_scope_id = em_scope_id man,
                  rv_base_seq = em_base_seq man, rv_read_seq = em_read_seq man\<rparr>;
          base = bundle_base_view \<lparr>bb_view = view, bb_bundle = bundle, bb_base_dedup = Some dedup\<rparr>;
          reducer = reducer_begin plain_ops (Some base) (em_base_seq man) (em_read_seq man) (ge_reducer_limits env)
      in case replay_segments (ge_wal env) (ge_keyring env) (em_scope_id man) (wal_limits (ge_gen_limits env))
                (ge_fault env) (em_segments man) reducer of
           Inl e \<Rightarrow> Inl e
         | Inr (Inl st) \<Rightarrow> Inr (st, None)
         | Inr (Inr reducer) \<Rightarrow>
             (case reducer_finish plain_ops reducer of
                Inl e \<Rightarrow> Inl (ReducerExn e)
              | Inr (rp, _) \<Rightarrow>
                  if rr_class rp \<noteq> REDUCE_OK then Inr (reduce_state_map (rr_class rp), None)
                  else if rr_applied_seq rp \<noteq> em_read_seq man then Inr (G_COVERAGE_ERROR, None)
                  else
                    (case resolve_lineage man (ge_parent env) (ge_keyring env) of
                       None \<Rightarrow> Inr (G_CORRUPT, None)
                     | Some lin \<Rightarrow>
                         Inr (G_VALID, Some
                           \<lparr>gh_scope_id = em_scope_id man, gh_generation_id = em_generation_id man,
                            gh_fact_count = em_fact_count man, gh_base_seq = em_base_seq man,
                            gh_read_seq = em_read_seq man, gh_lineage = lin, gh_bundle = bundle,
                            gh_l0 = rr_index rp, gh_txindex = rr_txindex rp, gh_dedup = dedup,
                            gh_sealed = True\<rparr>))))"

text \<open>The checks of the opened base, its bundle, and the replay.\<close>

definition open_over_base ::
  "gen_env \<Rightarrow> epoch_manifest \<Rightarrow> component list \<Rightarrow> gen_exn + generation_state \<times> generation_handle option" where
  "open_over_base env man parts =
     (case parts of
        [CRegistry r, CBulk b, CResidual f, CTombstone t, CDedup d] \<Rightarrow>
          if validate_base_artifacts (ge_np env) r b f t (em_scope_id man) (em_generation_id man)
               (em_fact_count man) \<noteq> None then Inr (G_CORRUPT, None)
          else if dt_scope_id d \<noteq> em_scope_id man \<or> dt_generation_id d \<noteq> em_generation_id man
            then Inr (G_COVERAGE_ERROR, None)
          else if dt_dedup_through_seq d \<noteq> em_base_seq man then Inr (G_COVERAGE_ERROR, None)
          else
            (case map_option ad_key_id (dget (em_base_descriptors man) TOMBSTONE) of
               None \<Rightarrow> Inl ComponentExn
             | Some kid \<Rightarrow>
                 (case dget (ge_keyring env) kid of
                    None \<Rightarrow> Inl NoKeyExn
                  | Some tomb_key \<Rightarrow>
                      replay_generation env man
                        \<lparr>gb_scope_id = em_scope_id man, gb_generation_id = em_generation_id man,
                         gb_field = Some f, gb_registry = Some r,
                         gb_tombstone = open_tombstone (ge_np env) (Some (tl_blob t)) tomb_key True,
                         gb_bulk = b\<rparr> d))
      | _ \<Rightarrow> Inl ComponentExn)"

definition open_generation ::
  "gen_env \<Rightarrow> bytes option \<Rightarrow> gen_exn + generation_state \<times> generation_handle option" where
  "open_generation env manifest_blob =
     (case parse_manifest manifest_blob (ge_keyring env) of
        (G_VALID, Some man) \<Rightarrow>
          if \<not> check_coverage man then Inr (G_COVERAGE_ERROR, None)
          else if \<not> generation_preflight man (length (the manifest_blob)) (ge_gen_limits env)
            then Inr (G_RESOURCE_LIMIT, None)
          else
            (case check_base_descriptors (em_base_descriptors man) BASE_KINDS of
               G_VALID \<Rightarrow>
                 (case open_base_components
                         (\<lambda>d. open_base_artifact (ge_np env) d (ge_objects env) (ge_changed env)
                                (ge_limits env) (ge_keyring env))
                         (em_base_descriptors man) BASE_KINDS of
                    Inl st \<Rightarrow> Inr (st, None)
                  | Inr parts \<Rightarrow> open_over_base env man parts)
             | st \<Rightarrow> Inr (st, None))
      | (st, _) \<Rightarrow> Inr (st, None))"

text \<open>\<open>resolve_current\<close>: a current generation that does not open abstains; the parent is
  never opened in its place.\<close>

record current_decision =
  cd_opened :: bool
  cd_handle :: "generation_handle option"
  cd_state :: generation_state
  cd_abstained :: bool

definition resolve_current :: "gen_env \<Rightarrow> bytes option \<Rightarrow> gen_exn + current_decision" where
  "resolve_current env manifest_blob =
     (case open_generation env manifest_blob of
        Inl e \<Rightarrow> Inl e
      | Inr (st, h) \<Rightarrow>
          Inr (if st = G_VALID
               then \<lparr>cd_opened = True, cd_handle = h, cd_state = st, cd_abstained = False\<rparr>
               else \<lparr>cd_opened = False, cd_handle = None, cd_state = st, cd_abstained = True\<rparr>))"

subsection \<open>A valid generation is the replay of its frames over its base\<close>

definition segment_read :: "gen_env \<Rightarrow> int \<Rightarrow> wal_segment_descriptor \<Rightarrow> validated_segment \<Rightarrow> bool" where
  "segment_read env sc s g \<longleftrightarrow>
     read_validated_segment (ge_wal env) s sc (wal_limits (ge_gen_limits env)) (ge_fault env s) = (AP_VALID, Some g) \<and>
     header_binds (vs_header g) sc s"

lemma replay_segments_feed:
  "replay_segments (ge_wal env) kr sc (wal_limits (ge_gen_limits env)) (ge_fault env) ss st = Inr (Inr st') \<Longrightarrow>
   \<exists>gs. list_all2 (segment_read env sc) ss gs \<and>
     feed_all plain_ops st (map2 (\<lambda>g s. (segment_token.truncate g, segment_desc.truncate s)) gs ss) = Inr st'"
proof (induction ss arbitrary: st)
  case Nil
  then show ?case by simp
next
  case (Cons s ss)
  then obtain g st1 where g: "segment_read env sc s g"
    and f: "feed_segment plain_ops st (segment_token.truncate g) (segment_desc.truncate s) = Inr (REDUCE_OK, st1)"
    and r: "replay_segments (ge_wal env) kr sc (wal_limits (ge_gen_limits env)) (ge_fault env) ss st1 = Inr (Inr st')"
    by (auto simp: segment_read_def split: if_splits prod.splits active_prefix_state.splits option.splits sum.splits)
  from Cons.IH [OF r] obtain gs where "list_all2 (segment_read env sc) ss gs"
    "feed_all plain_ops st1 (map2 (\<lambda>g s. (segment_token.truncate g, segment_desc.truncate s)) gs ss) = Inr st'"
    by blast
  then show ?case using g f by (intro exI [of _ "g # gs"]) simp
qed

definition man_base ::
  "epoch_manifest \<Rightarrow> fact_registry \<Rightarrow> bulk_snapshot \<Rightarrow> residual_field \<Rightarrow> tombstone_layer \<Rightarrow> dedup_table \<Rightarrow> base_view"
  where
  "man_base m r b f t d = bundle_base_view
     \<lparr>bb_view = \<lparr>rv_generation_id = em_generation_id m, rv_scope_id = em_scope_id m,
                rv_base_seq = em_base_seq m, rv_read_seq = em_read_seq m\<rparr>,
      bb_bundle = base_bundle (em_scope_id m) (em_generation_id m) r b f t, bb_base_dedup = Some d\<rparr>"

text \<open>The handle of a manifest, a base and the history the frames left.\<close>

definition generation_of ::
  "epoch_manifest \<Rightarrow> fact_registry \<Rightarrow> bulk_snapshot \<Rightarrow> residual_field \<Rightarrow> tombstone_layer \<Rightarrow> dedup_table \<Rightarrow> history
     \<Rightarrow> generation_handle \<Rightarrow> bool" where
  "generation_of m r b f t d hist h \<longleftrightarrow>
     gh_sealed h \<and> gh_scope_id h = em_scope_id m \<and> gh_generation_id h = em_generation_id m \<and>
     gh_fact_count h = em_fact_count m \<and> gh_base_seq h = em_base_seq m \<and> gh_read_seq h = em_read_seq m \<and>
     gh_bundle h = base_bundle (em_scope_id m) (em_generation_id m) r b f t \<and> gh_dedup h = d \<and>
     wi_get (gh_l0 h) = fst hist \<and>
     (\<forall>k e. tx_check (gh_txindex h) k e = (case snd hist k of None \<Rightarrow> TxNew
        | Some (e', q) \<Rightarrow> if e' = e then TxReplay else TxConflict)) \<and>
     (\<forall>k. tx_get_seq (gh_txindex h) k = map_option snd (snd hist k)) \<and>
     wi_inv (gh_l0 h) \<and> distinct (dkeys (gh_txindex h))"

lemma concat_zip_frames:
  "list_all2 P ss gs \<Longrightarrow>
   concat (map (st_frames \<circ> fst) (map2 (\<lambda>g s. (segment_token.truncate g, segment_desc.truncate s)) gs ss))
     = concat (map st_frames gs)"
  by (induction rule: list_all2_induct) (simp_all add: segment_token.truncate_def)

lemma abs_replay_not_ok: "abs_replay base hs frs = Inr (Inl c) \<Longrightarrow> c \<noteq> REDUCE_OK"
  by (induction frs arbitrary: hs) (auto simp: abs_step_def split: sum.splits option.splits prod.splits if_splits)

lemma replay_generation_history:
  assumes v: "replay_generation env m (base_bundle (em_scope_id m) (em_generation_id m) r b f t) d = Inr (G_VALID, Some h)"
  shows "\<exists>gs hist. list_all2 (segment_read env (em_scope_id m)) (em_segments m) gs \<and>
    seqs_from (em_base_seq m + 1) (concat (map st_frames gs)) \<and>
    em_read_seq m = em_base_seq m + int (length (concat (map st_frames gs))) \<and>
    abs_replay (man_base m r b f t d) history0 (concat (map st_frames gs)) = Inr (Inr hist) \<and>
    generation_of m r b f t d hist h \<and> resolve_lineage m (ge_parent env) (ge_keyring env) = Some (gh_lineage h)"
proof -
  let ?base = "man_base m r b f t d"
  let ?red = "reducer_begin plain_ops (Some ?base) (em_base_seq m) (em_read_seq m) (ge_reducer_limits env)"
  obtain red rp st lin where
    s: "replay_segments (ge_wal env) (ge_keyring env) (em_scope_id m) (wal_limits (ge_gen_limits env))
      (ge_fault env) (em_segments m) ?red = Inr (Inr red)"
    and fin: "reducer_finish plain_ops red = Inr (rp, st)" and ok: "rr_class rp = REDUCE_OK"
    and lin: "resolve_lineage m (ge_parent env) (ge_keyring env) = Some lin"
    and h: "h = \<lparr>gh_scope_id = em_scope_id m, gh_generation_id = em_generation_id m,
      gh_fact_count = em_fact_count m, gh_base_seq = em_base_seq m, gh_read_seq = em_read_seq m,
      gh_lineage = lin, gh_bundle = base_bundle (em_scope_id m) (em_generation_id m) r b f t,
      gh_l0 = rr_index rp, gh_txindex = rr_txindex rp, gh_dedup = d, gh_sealed = True\<rparr>"
    using v unfolding replay_generation_def Let_def man_base_def
    by (auto split: sum.splits prod.splits if_splits option.splits)
  from replay_segments_feed [OF s] obtain gs where gs: "list_all2 (segment_read env (em_scope_id m)) (em_segments m) gs"
    and fd: "feed_all plain_ops ?red
      (map2 (\<lambda>g s. (segment_token.truncate g, segment_desc.truncate s)) gs (em_segments m)) = Inr red"
    by blast
  let ?frs = "concat (map st_frames gs)"
  from streamed_flat [OF fd fin ok, unfolded concat_zip_frames [OF gs]]
  have fl: "reduce_frames plain_ops ?frs None (Some ?base) (em_base_seq m) = Inr rp"
    "seqs_from (em_base_seq m + 1) ?frs" "em_read_seq m = em_base_seq m + int (length ?frs)" by simp_all
  note ref = plain.reduce_frames_refines [where base = "Some ?base" and frs = ?frs and i = "em_base_seq m"]
  obtain hist where hist: "abs_replay ?base history0 ?frs = Inr (Inr hist)"
    using ref fl(1) ok abs_replay_not_ok [of ?base history0 ?frs]
    by (auto simp: empty_replay_def split: sum.splits)
  from ref [unfolded option.case hist sum.case] fl(1)
  have "wi_get (rr_index rp) = fst hist"
    "\<forall>k e. tx_check (rr_txindex rp) k e = (case snd hist k of None \<Rightarrow> TxNew
        | Some (e', q) \<Rightarrow> if e' = e then TxReplay else TxConflict)"
    "\<forall>k. tx_get_seq (rr_txindex rp) k = map_option snd (snd hist k)"
    "wi_inv (rr_index rp)" "distinct (dkeys (rr_txindex rp))"
    by (simp_all add: plain_ops_def)
  then have "generation_of m r b f t d hist h" by (simp add: generation_of_def h)
  then show ?thesis using gs fl hist lin h by (intro exI [of _ gs] exI [of _ hist]) simp
qed

text \<open>The base of a generation is made of the described bytes, parsed under the described keys.\<close>

lemma open_base_artifact_parsed:
  assumes "open_base_artifact np d store changed limits kr = Inr part"
  shows "\<exists>b k. dget store (ad_sha256 d) = Some b \<and> sha256 b = ad_sha256 d \<and>
    dget kr (ad_key_id d) = Some k \<and> parse_artifact np (ad_kind d) b k = Inr part"
proof -
  define rr where "rr = get_limited store (ad_sha256 d) (max_blob_bytes limits) (changed (ad_sha256 d))"
  define blob where "blob = (if or_ok rr then or_blob rr else None)"
  define oa where "oa = open_artifact np d blob [] limits (Some kr)"
  have oa: "oa_state oa = A_VALID" "oa_component oa = Some part"
    using assms unfolding open_base_artifact_def Let_def oa_def blob_def rr_def
    by (auto split: if_splits artifact_open_state.splits option.splits)
  from open_artifact_valid [OF oa(1) [unfolded oa_def]]
  obtain b k where b: "blob = Some b" "dget kr (ad_key_id d) = Some k" "oa = open_present np d b k limits"
    unfolding oa_def by auto
  from open_present_valid [OF oa(1) [unfolded b(3)]] oa(2)
  have "sha256 b = ad_sha256 d" "parse_artifact np (ad_kind d) b k = Inr part" unfolding b(3) by auto
  moreover have "dget store (ad_sha256 d) = Some b"
    using b(1) by (auto simp: blob_def rr_def get_limited_def split: option.splits if_splits)
  ultimately show ?thesis using b(2) by blast
qed

lemma open_base_components_Inr:
  "open_base_components opn ds ks = Inr cs \<Longrightarrow>
   list_all2 (\<lambda>k c. \<exists>d. dget ds k = Some d \<and> opn d = Inr c) ks cs"
  by (induction ks arbitrary: cs) (auto split: sum.splits option.splits)

lemma parse_artifact_kind:
  "parse_artifact np k b key = Inr (CRegistry r) \<Longrightarrow> reg_open b key = Inr r"
  "parse_artifact np k b key = Inr (CBulk s) \<Longrightarrow> bs_open np b key = Inr s"
  "parse_artifact np k b key = Inr (CResidual f) \<Longrightarrow> rf_open np b key = Inr f"
  "parse_artifact np k b key = Inr (CTombstone t) \<Longrightarrow> tl_open np b key = Inr t"
  "parse_artifact np k b key = Inr (CDedup d) \<Longrightarrow> dt_open b key = Inr d"
  by (cases k; simp add: map_sum_Inr)+

lemma open_over_base_parts:
  assumes n: "numpy_bits (ge_np env)"
    and c: "open_base_components (\<lambda>d. open_base_artifact (ge_np env) d (ge_objects env) (ge_changed env)
        (ge_limits env) (ge_keyring env)) (em_base_descriptors m) BASE_KINDS = Inr parts"
    and o: "open_over_base env m parts = Inr (G_VALID, Some h)"
  shows "\<exists>r b f t d. opened_base r b f t \<and> dt_valid d \<and>
    validate_base_artifacts (ge_np env) r b f t (em_scope_id m) (em_generation_id m) (em_fact_count m) = None \<and>
    dt_scope_id d = em_scope_id m \<and> dt_generation_id d = em_generation_id m \<and>
    dt_dedup_through_seq d = em_base_seq m \<and>
    replay_generation env m (base_bundle (em_scope_id m) (em_generation_id m) r b f t) d = Inr (G_VALID, Some h)"
proof -
  let ?opn = "\<lambda>d. open_base_artifact (ge_np env) d (ge_objects env) (ge_changed env) (ge_limits env) (ge_keyring env)"
  obtain r b f t d e k where p: "parts = [CRegistry r, CBulk b, CResidual f, CTombstone t, CDedup d]"
    and v: "validate_base_artifacts (ge_np env) r b f t (em_scope_id m) (em_generation_id m) (em_fact_count m) = None"
      "dt_scope_id d = em_scope_id m" "dt_generation_id d = em_generation_id m" "dt_dedup_through_seq d = em_base_seq m"
    and e: "dget (em_base_descriptors m) TOMBSTONE = Some e" "dget (ge_keyring env) (ad_key_id e) = Some k"
    and g: "replay_generation env m
        \<lparr>gb_scope_id = em_scope_id m, gb_generation_id = em_generation_id m, gb_field = Some f, gb_registry = Some r,
         gb_tombstone = open_tombstone (ge_np env) (Some (tl_blob t)) k True, gb_bulk = b\<rparr> d = Inr (G_VALID, Some h)"
    using o unfolding open_over_base_def
    by (auto split: list.splits component.splits if_splits option.splits)
  have q: "\<exists>d. ?opn d = Inr (CRegistry r)" "\<exists>d. ?opn d = Inr (CBulk b)" "\<exists>d. ?opn d = Inr (CResidual f)"
    "?opn e = Inr (CTombstone t)" "\<exists>d'. ?opn d' = Inr (CDedup d)"
    using open_base_components_Inr [OF c] e(1) by (auto simp: p BASE_KINDS_def)
  have "reg_valid r" using q(1) by (auto dest!: open_base_artifact_parsed parse_artifact_kind intro: reg_open_valid)
  moreover have "bs_valid b"
    using q(2) by (auto dest!: open_base_artifact_parsed parse_artifact_kind intro: numpy_bits.bs_open_valid [OF n])
  moreover have "rf_valid f"
    using q(3) by (auto dest!: open_base_artifact_parsed parse_artifact_kind intro: numpy_bits.rf_open_valid [OF n])
  moreover have "dt_valid d"
    using q(5) by (auto dest!: open_base_artifact_parsed parse_artifact_kind dt_open_valid)
  moreover obtain tb where tb: "tl_open (ge_np env) tb k = Inr t"
    using open_base_artifact_parsed [OF q(4)] e(2) by (auto dest: parse_artifact_kind)
  moreover have "open_tombstone (ge_np env) (Some (tl_blob t)) k True = \<lparr>or_state = VALID, or_layer = Some t\<rparr>"
    using tb tl_open_valid [OF tb] by (simp add: open_tombstone_def)
  ultimately show ?thesis
    using v g tl_open_valid [OF tb] unfolding opened_base_def base_bundle_def
    by (intro exI [of _ r] exI [of _ b] exI [of _ f] exI [of _ t] exI [of _ d]) simp
qed

lemma open_generation_valid:
  assumes "open_generation env mb = Inr (G_VALID, Some h)"
  obtains m parts where "parse_manifest mb (ge_keyring env) = (G_VALID, Some m)" "check_coverage m"
    "generation_preflight m (length (the mb)) (ge_gen_limits env)"
    "open_base_components (\<lambda>d. open_base_artifact (ge_np env) d (ge_objects env) (ge_changed env)
        (ge_limits env) (ge_keyring env)) (em_base_descriptors m) BASE_KINDS = Inr parts"
    "open_over_base env m parts = Inr (G_VALID, Some h)"
  using assms unfolding open_generation_def
  by (auto split: prod.splits generation_state.splits option.splits if_splits sum.splits)

text \<open>The main fact of this theory.\<close>

definition generation_parts ::
  "gen_env \<Rightarrow> epoch_manifest \<Rightarrow> fact_registry \<Rightarrow> bulk_snapshot \<Rightarrow> residual_field \<Rightarrow> tombstone_layer \<Rightarrow> dedup_table
     \<Rightarrow> wframe list \<Rightarrow> history \<Rightarrow> generation_handle \<Rightarrow> bool" where
  "generation_parts env m r b f t d frs hist h \<longleftrightarrow>
     opened_base r b f t \<and> dt_valid d \<and>
     validate_base_artifacts (ge_np env) r b f t (em_scope_id m) (em_generation_id m) (em_fact_count m) = None \<and>
     dt_scope_id d = em_scope_id m \<and> dt_generation_id d = em_generation_id m \<and>
     dt_dedup_through_seq d = em_base_seq m \<and>
     (\<exists>gs. list_all2 (segment_read env (em_scope_id m)) (em_segments m) gs \<and> frs = concat (map st_frames gs)) \<and>
     seqs_from (em_base_seq m + 1) frs \<and>
     em_read_seq m = em_base_seq m + int (length frs) \<and>
     abs_replay (man_base m r b f t d) history0 frs = Inr (Inr hist) \<and>
     generation_of m r b f t d hist h"

lemma opened_is_generation:
  assumes n: "numpy_bits (ge_np env)" and o: "open_generation env mb = Inr (G_VALID, Some h)"
  shows "\<exists>m. parse_manifest mb (ge_keyring env) = (G_VALID, Some m) \<and> check_coverage m \<and>
    (\<exists>r b f t d frs hist. generation_parts env m r b f t d frs hist h) \<and>
    resolve_lineage m (ge_parent env) (ge_keyring env) = Some (gh_lineage h)"
proof -
  obtain m parts where m: "parse_manifest mb (ge_keyring env) = (G_VALID, Some m)" "check_coverage m"
    and c: "open_base_components (\<lambda>d. open_base_artifact (ge_np env) d (ge_objects env) (ge_changed env)
        (ge_limits env) (ge_keyring env)) (em_base_descriptors m) BASE_KINDS = Inr parts"
      "open_over_base env m parts = Inr (G_VALID, Some h)"
    using open_generation_valid [OF o] by metis
  from open_over_base_parts [OF n c] obtain r b f t d where p: "opened_base r b f t" "dt_valid d"
    "validate_base_artifacts (ge_np env) r b f t (em_scope_id m) (em_generation_id m) (em_fact_count m) = None"
    "dt_scope_id d = em_scope_id m" "dt_generation_id d = em_generation_id m" "dt_dedup_through_seq d = em_base_seq m"
    "replay_generation env m (base_bundle (em_scope_id m) (em_generation_id m) r b f t) d = Inr (G_VALID, Some h)"
    by blast
  from replay_generation_history [OF p(7)] p(1-6) m show ?thesis
    unfolding generation_parts_def by blast
qed

subsection \<open>Reading from the handle\<close>

lemma segment_read_valid:
  assumes "read_validated_segment ws s sc lim flt = (AP_VALID, Some g)"
  shows "\<forall>f \<in> set (st_frames g). valid_frame f" "st_sealed_by_store g"
proof -
  have *: "\<exists>key d. st_frames g = sr_frames (scan (Some d) key True sc (sd_segment_id s) None) \<and>
      sr_class (scan (Some d) key True sc (sd_segment_id s) None) = CLEAN \<and> st_sealed_by_store g"
  proof (cases "wsd_status s = STATE_ACTIVE")
    case True
    then obtain ex d where "check_prefix (ws_keyring ws) (sc, sd_segment_id s) ex d = (AP_VALID, Some g)"
      using assms by (auto simp: read_validated_segment_def read_active_prefix_def Let_def
          split: if_splits option.splits file_node.splits)
    then show ?thesis
      by (fastforce simp: check_prefix_def Let_def split: if_splits option.splits prod.splits wal_store_state.splits)
  next
    case False
    then show ?thesis
      using assms
      by (fastforce simp: read_validated_segment_def Let_def split: if_splits option.splits prod.splits wal_store_state.splits)
  qed
  then obtain key d where k: "st_frames g = sr_frames (scan (Some d) key True sc (sd_segment_id s) None)"
    "sr_class (scan (Some d) key True sc (sd_segment_id s) None) = CLEAN" by blast
  then have "sr_class (scan (Some d) key True sc (sd_segment_id s) None) \<in> {CLEAN, TAIL_DROPPED}" by simp
  from scan_accepted [OF this] k(1) show "\<forall>f \<in> set (st_frames g). valid_frame f"
    by (auto simp: accepted_as_def frames_ok_def)
  from * show "st_sealed_by_store g" by blast
qed

lemma abs_replay_values:
  assumes "abs_replay base h frs = Inr (Inr h')" "\<forall>f \<in> set frs. valid_frame f"
    "\<forall>f ver op x. fst h f = Some (ver, op, x) \<longrightarrow> (op = OP_DELETE \<longleftrightarrow> x = None)"
  shows "\<forall>f ver op x. fst h' f = Some (ver, op, x) \<longrightarrow> (op = OP_DELETE \<longleftrightarrow> x = None)"
  using assms
proof (induction frs arbitrary: h)
  case Nil
  then show ?case by simp
next
  case (Cons fr frs)
  obtain op q oid fid ver x where fr: "fr = (op, q, oid, fid, ver, x)" by (cases fr) auto
  from Cons.prems(1) obtain h1 where h1: "abs_step base h fr = Inr (Inr h1)" "abs_replay base h1 frs = Inr (Inr h')"
    by (auto split: sum.splits)
  have "fst h1 = (fst h)(fid \<mapsto> (ver, op, x))"
    using h1(1) by (auto simp: abs_step_def fr split: prod.splits sum.splits if_splits option.splits)
  moreover have "op = OP_DELETE \<longleftrightarrow> x = None"
    using Cons.prems(2) by (auto simp: fr split: option.splits)
  ultimately have "\<forall>f ver op x. fst h1 f = Some (ver, op, x) \<longrightarrow> (op = OP_DELETE \<longleftrightarrow> x = None)"
    using Cons.prems(3) by (simp split: if_splits)
  moreover have "\<forall>f \<in> set frs. valid_frame f" using Cons.prems(2) by simp
  ultimately show ?case by (intro Cons.IH [OF h1(2)])
qed

lemma generation_parts_frames:
  assumes "generation_parts env m r b f t d frs hist h"
  shows "\<forall>fr \<in> set frs. valid_frame fr"
proof -
  obtain gs where "list_all2 (segment_read env (em_scope_id m)) (em_segments m) gs" "frs = concat (map st_frames gs)"
    using assms by (auto simp: generation_parts_def)
  note gs = this
  have "\<forall>fr \<in> set (st_frames g). valid_frame fr" if mem: "g \<in> set gs" for g
  proof -
    obtain i where "i < length gs" "g = gs ! i" using mem by (auto simp: in_set_conv_nth)
    then have "segment_read env (em_scope_id m) (em_segments m ! i) g" using gs(1) by (simp add: list_all2_conv_all_nth)
    then show ?thesis unfolding segment_read_def by (elim conjE segment_read_valid(1))
  qed
  then show ?thesis using gs(2) by simp
qed

text \<open>What a reader of an opened generation sees: the last write of the log, else the base.\<close>

definition generation_answer ::
  "fact_registry \<Rightarrow> bulk_snapshot \<Rightarrow> residual_field \<Rightarrow> tombstone_layer \<Rightarrow> (int \<Rightarrow> vline option) \<Rightarrow> int \<Rightarrow> read_result"
  where
  "generation_answer r b f t L fid =
     (case L fid of
        Some (ver, op, x) \<Rightarrow>
          if op = OP_DELETE then ReadResult RDeleted None True SrcL0 else ReadResult RCorrect x True SrcL0
      | None \<Rightarrow>
          (case reg_lookup r fid of
             None \<Rightarrow> ReadResult RNotFound None True SrcNone
           | Some (i, ver) \<Rightarrow>
               if tl_is_deleted t i then ReadResult RDeleted None True SrcTombstone
               else if \<not> rf_bits f ! nat i then ReadResult RFromBulk (snd (bs_lookup b i)) True SrcBulk
               else if rf_verify_page f (rf_index f (nat i) div rf_page_size_bytes f)
                 then ReadResult RCorrect (Some (uint (rf_payload f ! rf_index f (nat i)))) True SrcResidual
               else ReadResult RAbstain None False SrcNone))"

lemma generation_reads:
  assumes n: "numpy_bits (ge_np env)" and g: "generation_parts env m r b f t d frs hist h"
  shows "read_fact h fid = Inr (Some (generation_answer r b f t (fst hist) fid))"
proof -
  have v: "validate_base_artifacts (ge_np env) r b f t (em_scope_id m) (em_generation_id m) (em_fact_count m) = None"
    and o: "opened_base r b f t" and go: "generation_of m r b f t d hist h"
    and ab: "abs_replay (man_base m r b f t d) history0 frs = Inr (Inr hist)"
    using g by (simp_all add: generation_parts_def)
  have view: "rv_scope_id (handle_view h) = em_scope_id m" "rv_generation_id (handle_view h) = em_generation_id m"
    using go by (simp_all add: generation_of_def handle_view_def)
  have bun: "gh_bundle h = base_bundle (em_scope_id m) (em_generation_id m) r b f t" "gh_sealed h"
    and l0: "wi_get (gh_l0 h) = fst hist" using go by (simp_all add: generation_of_def)
  note ids = numpy_bits.validated_ids [OF n v]
  have vm: "view_matches (handle_view h) (gh_bundle h)"
    by (simp add: view_matches_def base_bundle_def view ids bun(1))
  show ?thesis
  proof (cases "fst hist fid")
    case None
    then show ?thesis
      using numpy_bits.read_validated [OF n v o view, of "wi_get (gh_l0 h)" fid]
      by (simp add: read_fact_def bun l0 generation_answer_def)
  next
    case (Some l)
    obtain ver op x where l: "l = (ver, op, x)" by (cases l)
    have "op = OP_DELETE \<longleftrightarrow> x = None"
      using abs_replay_values [OF ab generation_parts_frames [OF g]] Some
      by (simp add: history0_def l)
    then show ?thesis
      using read_l0 [OF vm, of "wi_get (gh_l0 h)" fid ver op x] Some
      by (simp add: read_fact_def bun l0 generation_answer_def l)
  qed
qed

text \<open>An invalid current generation abstains; no handle of another generation is served.\<close>

lemma resolve_current_abstains:
  "resolve_current env mb = Inr c \<Longrightarrow>
   (cd_abstained c \<longleftrightarrow> cd_state c \<noteq> G_VALID) \<and> (cd_abstained c \<longrightarrow> cd_handle c = None) \<and>
   (\<not> cd_abstained c \<longrightarrow> open_generation env mb = Inr (G_VALID, cd_handle c))"
  by (auto simp: resolve_current_def split: sum.splits prod.splits if_splits)

end
