(* ===== verification/BaseRound.thy ===== *)
theory BaseRound
  imports Generation
begin

section \<open>A base built from a model of facts reads back as that model\<close>

text \<open>
  What a compaction or an import has in hand when it builds the five artifacts of a base: the
  registry mapping, the value of every ordinal, the corrections and the deleted ordinals
  (\<open>FactRegistry.build\<close>, \<open>BulkSnapshot.build\<close>, \<open>ResidualField.build\<close>, \<open>TombstoneLayer.build\<close>).
  Under the consistency \<open>validate_base_artifacts\<close> asks for, the built artifacts open, validate,
  and every read through a generation bundle gives the answer of the model.
\<close>

record base_model =
  bm_registry :: "(int, int \<times> int) pydict"
  bm_values :: "(int, int) pydict"
  bm_corrections :: "(int, int) pydict"
  bm_deleted :: "int list"
  bm_fact_count :: int

definition bm_ok :: "base_model \<Rightarrow> bool" where
  "bm_ok m \<longleftrightarrow> reg_mapping_ok (bm_registry m) (bm_fact_count m) \<and> value_dict (bm_values m) (bm_fact_count m) \<and>
     ordinal_dict (bm_corrections m) (bm_fact_count m) \<and> 0 \<le> bm_fact_count m \<and> bm_fact_count m \<le> MAX_FACT_COUNT \<and>
     (\<lambda>e. fst (snd e)) ` set (bm_registry m) = set (dkeys (bm_values m)) \<and>
     set (dkeys (bm_corrections m)) \<subseteq> set (dkeys (bm_values m)) \<and> set (bm_deleted m) \<subseteq> set (dkeys (bm_values m)) \<and>
     set (dkeys (bm_corrections m)) \<inter> set (bm_deleted m) = {}"

text \<open>What the model says of a fact.\<close>

definition bm_answer :: "base_model \<Rightarrow> int \<Rightarrow> read_result" where
  "bm_answer m fid =
     (case dget (bm_registry m) fid of
        None \<Rightarrow> ReadResult RNotFound None True SrcNone
      | Some (i, ver) \<Rightarrow>
          if i \<in> set (bm_deleted m) then ReadResult RDeleted None True SrcTombstone
          else (case dget (bm_corrections m) i of
                  Some v \<Rightarrow> ReadResult RCorrect (Some (v mod 256)) True SrcResidual
                | None \<Rightarrow> ReadResult RFromBulk (dget (bm_values m) i) True SrcBulk))"

text \<open>The artifacts of a model, each with what its lookups answer.\<close>

definition bm_parts ::
  "base_model \<Rightarrow> int \<Rightarrow> int \<Rightarrow> fact_registry \<Rightarrow> bulk_snapshot \<Rightarrow> residual_field \<Rightarrow> tombstone_layer \<Rightarrow> bool" where
  "bm_parts m sc gn r b f t \<longleftrightarrow>
     opened_base r b f t \<and> reg_lookup r = dget (bm_registry m) \<and> fr_scope_id r = sc \<and> fr_generation_id r = gn \<and>
     fr_fact_count r = bm_fact_count m \<and> reg_ordinals r = (\<lambda>e. fst (snd e)) ` set (bm_registry m) \<and>
     (\<forall>i. bs_lookup b i = values_answer (bm_values m) (bm_fact_count m) i) \<and> bs_scope_id b = sc \<and>
     bs_generation_id b = gn \<and> int (bs_fact_count b) = bm_fact_count m \<and>
     rf_built f (bm_corrections m) (bm_fact_count m) \<and> rf_scope_id f = sc \<and> rf_bulk_epoch f = gn \<and>
     (\<forall>i. tl_is_deleted t i \<longleftrightarrow> i \<in> set (bm_deleted m)) \<and> tl_scope_id t = sc \<and> tl_bulk_epoch t = gn \<and>
     int (tl_fact_count t) = bm_fact_count m"

lemma int_support: "\<forall>k \<in> K. 0 \<le> k \<Longrightarrow> int ` {i. int i \<in> K} = K"
  by (auto simp: image_iff) (metis nat_0_le)

context numpy_bits
begin

lemma bm_build:
  assumes m: "bm_ok m" and ids: "u32 sc" "u32 gn" and ps: "0 < ps" "u32 ps"
  shows "\<exists>r b f t. reg_build (bm_registry m) sc gn (bm_fact_count m) key = Inr r \<and>
    bs_build np (bm_fact_count m) (bm_values m) sc gn key = Inr b \<and>
    rf_build np (bm_fact_count m) (bm_corrections m) ps sc gn key = Inr f \<and>
    tl_build np (bm_fact_count m) (bm_deleted m) sc gn key = Inr t \<and> tl_open np (tl_blob t) key = Inr t \<and>
    bm_parts m sc gn r b f t"
proof -
  have fc: "0 \<le> bm_fact_count m" "bm_fact_count m \<le> MAX_FACT_COUNT" "bm_fact_count m < 2 ^ 32"
    using m by (simp_all add: bm_ok_def)
  have i: "0 \<le> sc" "sc < 2 ^ 32" "0 \<le> gn" "gn < 2 ^ 32" "gn < 2 ^ 64" using ids by (simp_all add: u32_def)
  have mp: "reg_mapping_ok (bm_registry m) (bm_fact_count m)" "value_dict (bm_values m) (bm_fact_count m)"
    "ordinal_dict (bm_corrections m) (bm_fact_count m)" using m by (simp_all add: bm_ok_def)
  have dl: "\<forall>x \<in> set (bm_deleted m). 0 \<le> x \<and> x < bm_fact_count m"
    using m by (auto simp: bm_ok_def value_dict_def ordinal_dict_def)
  obtain r where r: "reg_build (bm_registry m) sc gn (bm_fact_count m) key = Inr r" "reg_valid r"
    "reg_lookup r = dget (bm_registry m)" "fr_scope_id r = sc" "fr_generation_id r = gn" "fr_fact_count r = bm_fact_count m"
    using reg_build_lookup [OF mp(1) fc(2) i(1-4) fc(1)] by blast
  have ro: "reg_iter_entries r = sort_key fst (bm_registry m)"
    using reg_build_opens [OF mp(1) fc(2) i(1-4) fc(1), of key] r(1) by auto
  obtain b where b: "bs_build np (bm_fact_count m) (bm_values m) sc gn key = Inr b" "bs_valid b" "bs_scope_id b = sc"
    "bs_generation_id b = gn" "bs_fact_count b = nat (bm_fact_count m)"
    "\<forall>i. bs_lookup b i = values_answer (bm_values m) (bm_fact_count m) i"
    using bs_build_lookup [OF mp(2) fc(1,2) i(1-3,5)] by blast
  obtain f where f: "rf_build np (bm_fact_count m) (bm_corrections m) ps sc gn key = Inr f"
    "rf_built f (bm_corrections m) (bm_fact_count m)" "rf_scope_id f = sc" "rf_bulk_epoch f = gn"
    using rf_build_opens [OF mp(3) fc(1,3) _ _ i(1-4), of ps key] ps by (auto simp: u32_def)
  obtain t where t: "tl_build np (bm_fact_count m) (bm_deleted m) sc gn key = Inr t" "tl_valid t" "tl_scope_id t = sc"
    "tl_bulk_epoch t = gn" "\<forall>i. tl_is_deleted t i \<longleftrightarrow> i \<in> set (bm_deleted m)" "int (tl_fact_count t) = bm_fact_count m"
    using tl_build_opens [OF dl fc(1,3) i(1-4)] by blast
  have "reg_ordinals r = (\<lambda>e. fst (snd e)) ` set (bm_registry m)"
    using arg_cong [OF ro, of "\<lambda>es. (\<lambda>e. fst (snd e)) ` set es"] by (simp add: reg_ordinals_def reg_iter_entries_def image_image)
  then have "bm_parts m sc gn r b f t"
    using r(2-6) b(2-6) f(2-4) t(2-6) fc(1) by (simp add: bm_parts_def opened_base_def rf_built_def)
  moreover have "tl_open np (tl_blob t) key = Inr t"
  proof -
    obtain blob where "tl_open np blob key = Inr t"
      using t(1) by (auto simp: tl_build_def Let_def split: option.splits if_splits)
    then show ?thesis using tl_open_valid by metis
  qed
  ultimately show ?thesis using r(1) b(1) f(1) t(1) by blast
qed

lemma bm_validates:
  assumes m: "bm_ok m" and p: "bm_parts m sc gn r b f t"
  shows "validate_base_artifacts np r b f t sc gn (bm_fact_count m) = None"
proof -
  have v: "bs_valid b" "rf_valid f" "tl_valid t" using p by (simp_all add: bm_parts_def opened_base_def)
  have vk: "\<forall>k \<in> set (dkeys (bm_values m)). 0 \<le> k \<and> k < bm_fact_count m"
    using m by (simp add: bm_ok_def value_dict_def ordinal_dict_def)
  have ids: "fr_scope_id r = sc" "fr_generation_id r = gn" "fr_fact_count r = bm_fact_count m" "bs_scope_id b = sc"
    "bs_generation_id b = gn" "int (bs_fact_count b) = bm_fact_count m" "rf_scope_id f = sc" "rf_bulk_epoch f = gn"
    "tl_scope_id t = sc" "tl_bulk_epoch t = gn" "int (tl_fact_count t) = bm_fact_count m"
    "int (rf_fact_count f) = bm_fact_count m"
    using p m by (simp_all add: bm_parts_def rf_built_def bm_ok_def)
  have bs: "int ` bs_support_ordinals np b = set (dkeys (bm_values m))"
  proof -
    have "fst (bs_lookup b (int i)) = BULK_VALUE \<longleftrightarrow> int i \<in> set (dkeys (bm_values m))" for i
    proof (cases "dget (bm_values m) (int i)")
      case None
      then have "int i \<notin> set (dkeys (bm_values m))" by (simp add: map_of_eq_None_iff)
      then show ?thesis using p None by (simp add: bm_parts_def values_answer_def)
    next
      case (Some v)
      then have k: "int i \<in> set (dkeys (bm_values m))" using map_of_eq_None_iff [of "bm_values m" "int i"] by simp
      moreover have "int i < bm_fact_count m" using k vk by blast
      ultimately show ?thesis using p Some by (simp add: bm_parts_def values_answer_def)
    qed
    then show ?thesis using vk by (simp add: bs_support [OF v(1)] int_support)
  qed
  have rs: "int ` rf_support_ordinals np f = set (dkeys (bm_corrections m))"
  proof -
    have od: "ordinal_dict (bm_corrections m) (bm_fact_count m)" using m by (simp add: bm_ok_def)
    have e: "rf_fact_count f = nat (bm_fact_count m)" "rf_bits f = bits_of (nat (bm_fact_count m)) (dict_ordinals (bm_corrections m))"
      using p by (simp_all add: bm_parts_def rf_built_def)
    have "i < nat (bm_fact_count m) \<and> rf_bits f ! i \<longleftrightarrow> int i \<in> set (dkeys (bm_corrections m))" for i
    proof -
      have "i < nat (bm_fact_count m) \<Longrightarrow> rf_bits f ! i \<longleftrightarrow> i \<in> set (dict_ordinals (bm_corrections m))"
        unfolding e(2) using bits_of_nth dict_ordinals_sorted(2) [OF od] by blast
      moreover have "i \<in> set (dict_ordinals (bm_corrections m)) \<longleftrightarrow> int i \<in> set (dkeys (bm_corrections m))"
        using dict_ordinals_mem [OF od, of "int i"] by (simp add: map_of_eq_None_iff)
      ultimately show ?thesis using dict_ordinals_sorted(2) [OF od] by blast
    qed
    then show ?thesis using od by (simp add: rf_support [OF v(2)] e(1) int_support ordinal_dict_def)
  qed
  have ts: "int ` tl_support_ordinals np t = set (bm_deleted m)"
  proof -
    have "{i. tl_is_deleted t (int i)} = {i. int i \<in> set (bm_deleted m)}" using p unfolding bm_parts_def by blast
    moreover have "\<forall>k \<in> set (bm_deleted m). 0 \<le> k" using m vk unfolding bm_ok_def by blast
    ultimately show ?thesis unfolding tl_support [OF v(3)] using int_support by metis
  qed
  have cp: "check_parts [(''registry'', sc, gn, bm_fact_count m), (''bulk'', sc, gn, bm_fact_count m),
      (''residual'', sc, gn, bm_fact_count m), (''tombstone'', sc, gn, bm_fact_count m)] sc gn (bm_fact_count m) = None"
    by (simp add: check_parts_all)
  have ro: "reg_ordinals r = set (dkeys (bm_values m))" using m p unfolding bm_ok_def bm_parts_def by metis
  have "set (dkeys (bm_corrections m)) \<subseteq> set (dkeys (bm_values m))" "set (bm_deleted m) \<subseteq> set (dkeys (bm_values m))"
    "set (dkeys (bm_corrections m)) \<inter> set (bm_deleted m) = {}"
    using m unfolding bm_ok_def by blast+
  then show ?thesis
    unfolding validate_base_artifacts_def Let_def ids cp option.case bs rs ts ro by simp
qed

text \<open>Every read of a fact the L0 does not hold gives the answer of the model.\<close>

lemma bm_reads:
  assumes m: "bm_ok m" and p: "bm_parts m sc gn r b f t"
    and view: "rv_scope_id view = sc" "rv_generation_id view = gn" and l0: "l0 fid = None"
  shows "read view (base_bundle sc gn r b f t) l0 fid = Some (bm_answer m fid)"
proof -
  note rd = read_validated [OF bm_validates [OF m p] _ view, where ?l0.0 = l0 and fid = fid, OF _ l0]
  have o: "opened_base r b f t" and lk: "reg_lookup r = dget (bm_registry m)"
    and td: "\<And>i. tl_is_deleted t i \<longleftrightarrow> i \<in> set (bm_deleted m)"
    and bl: "\<And>i. bs_lookup b i = values_answer (bm_values m) (bm_fact_count m) i"
    and fb: "rf_built f (bm_corrections m) (bm_fact_count m)"
    using p by (simp_all add: bm_parts_def)
  show ?thesis
  proof (cases "dget (bm_registry m) fid")
    case None
    then show ?thesis using rd [OF o] by (simp add: lk bm_answer_def)
  next
    case (Some e)
    obtain i ver where e: "e = (i, ver)" by (cases e)
    have "i \<in> (\<lambda>e. fst (snd e)) ` set (bm_registry m)" using map_of_SomeD [OF Some] by (force simp: e)
    then have "i \<in> set (dkeys (bm_values m))" using m by (simp add: bm_ok_def)
    moreover have "\<forall>k \<in> set (dkeys (bm_values m)). 0 \<le> k \<and> k < bm_fact_count m"
      using m by (simp add: bm_ok_def value_dict_def ordinal_dict_def)
    ultimately have i: "0 \<le> i" "i < bm_fact_count m" by blast+
    have od: "ordinal_dict (bm_corrections m) (bm_fact_count m)" using m by (simp add: bm_ok_def)
    have fc: "rf_fact_count f = nat (bm_fact_count m)" using fb by (simp add: rf_built_def)
    have ans: "rf_answer f i (rf_scope_id f) (rf_bulk_epoch f) = corrections_answer (bm_corrections m) (bm_fact_count m) i"
      by (rule rf_built_answer [OF fb od])
    have bv: "snd (bs_lookup b i) = dget (bm_values m) i"
      using i by (simp add: bl values_answer_def split: option.split)
    show ?thesis
    proof (cases "dget (bm_corrections m) i")
      case None
      then have "\<not> rf_bits f ! nat i"
        using ans i by (auto simp: rf_answer_def corrections_answer_def fc split: if_splits)
      then show ?thesis using rd [OF o] Some None by (simp add: lk e td bv bm_answer_def)
    next
      case (Some v)
      then have "rf_bits f ! nat i" "rf_verify_page f (rf_index f (nat i) div rf_page_size_bytes f)"
        "uint (rf_payload f ! rf_index f (nat i)) = v mod 256"
        using ans i by (auto simp: rf_answer_def corrections_answer_def fc split: if_splits)
      then show ?thesis using rd [OF o] \<open>dget (bm_registry m) fid = Some e\<close> Some by (simp add: lk e td bm_answer_def)
    qed
  qed
qed

end

text \<open>
  A generation whose manifest names no log segment opens over those artifacts, and the handle
  reads the model. This is the generation a compaction publishes.
\<close>

lemma bm_generation_opens:
  assumes n: "numpy_bits (ge_np env)" and m: "bm_ok m" and p: "bm_parts m (em_scope_id man) (em_generation_id man) r b f t"
    and t: "tl_open (ge_np env) (tl_blob t) key = Inr t"
    and man: "em_fact_count man = bm_fact_count m" "em_segments man = []" "em_read_seq man = em_base_seq man"
    and d: "dt_scope_id d = em_scope_id man" "dt_generation_id d = em_generation_id man" "dt_dedup_through_seq d = em_base_seq man"
    and ds: "dget (em_base_descriptors man) TOMBSTONE = Some e" "dget (ge_keyring env) (ad_key_id e) = Some key"
    and lin: "resolve_lineage man (ge_parent env) (ge_keyring env) = Some lin"
  shows "\<exists>h. open_over_base env man [CRegistry r, CBulk b, CResidual f, CTombstone t, CDedup d] = Inr (G_VALID, Some h) \<and>
    gh_lineage h = lin \<and> gh_read_seq h = em_base_seq man \<and> (\<forall>fid. read_fact h fid = Inr (Some (bm_answer m fid)))"
proof -
  have v: "validate_base_artifacts (ge_np env) r b f t (em_scope_id man) (em_generation_id man) (em_fact_count man) = None"
    using numpy_bits.bm_validates [OF n m p] man(1) by simp
  let ?bun = "base_bundle (em_scope_id man) (em_generation_id man) r b f t"
  have tb: "open_tombstone (ge_np env) (Some (tl_blob t)) key True = \<lparr>or_state = VALID, or_layer = Some t\<rparr>"
    using t by (simp add: open_tombstone_def)
  have o: "open_over_base env man [CRegistry r, CBulk b, CResidual f, CTombstone t, CDedup d] = replay_generation env man ?bun d"
    by (simp add: open_over_base_def v d ds tb base_bundle_def)
  obtain h where h: "replay_generation env man ?bun d = Inr (G_VALID, Some h)" "gh_lineage h = lin"
    "gh_read_seq h = em_read_seq man" "gh_bundle h = ?bun" "gh_sealed h" "gh_scope_id h = em_scope_id man"
    "gh_generation_id h = em_generation_id man" "gh_l0 h = wi_freeze (wi_begin_mutation wi_empty)"
    by (simp add: replay_generation_def Let_def reducer_finish_def reducer_begin_def man(2,3) lin plain_ops_def)
  have "read_fact h fid = Inr (Some (bm_answer m fid))" for fid
  proof -
    have "wi_get (gh_l0 h) fid = None"
      using plain.new_get [of fid] plain.begin_get [OF plain.new_inv(1)] plain.freeze_get [OF plain.begin_inv(1) [OF plain.new_inv(1)]]
      by (simp add: h(8) plain_ops_def)
    moreover have "rv_scope_id (handle_view h) = em_scope_id man" "rv_generation_id (handle_view h) = em_generation_id man"
      using h(6,7) by (simp_all add: handle_view_def)
    ultimately show ?thesis
      using numpy_bits.bm_reads [OF n m p] by (simp add: read_fact_def h(4,5))
  qed
  then show ?thesis using h(1-3) man(3) o by auto
qed

end
