(* ===== verification/Lease.thy ===== *)
theory Lease
  imports Prelude
begin

section \<open>The writer lease of a scope (\<open>ScopeWriterLease\<close> of \<open>horizon_batch.py\<close>)\<close>

text \<open>
  One lease per scope, handed from owner to owner and never released in between. The lease is an
  exclusive \<open>flock\<close> on a file of the scope; the lock of the scope is modelled as the number of
  descriptors that hold it (at most one). The lemmas show that only the edges of the frozen
  matrix are taken, that a closed lease stays closed and is released once, and that two leases of
  one scope are never held at the same time.
\<close>

datatype lease_state = OWNED_BY_STORE | OWNED_BY_ROTATION | OWNED_BY_PREPARED | OWNED_BY_NEW_STORE | CLOSED
  | OWNED_BY_COMPACTION | OWNED_BY_COMPACTION_PREPARED

record scope_lease =
  le_scope_id :: int
  le_state :: lease_state
  le_sealed :: bool

text \<open>\<open>_LEASE_TRANSITIONS\<close>.\<close>

fun lease_transitions :: "lease_state \<Rightarrow> lease_state list" where
  "lease_transitions OWNED_BY_STORE = [OWNED_BY_ROTATION, OWNED_BY_COMPACTION]"
| "lease_transitions OWNED_BY_NEW_STORE = [OWNED_BY_ROTATION, OWNED_BY_COMPACTION]"
| "lease_transitions OWNED_BY_ROTATION = [OWNED_BY_PREPARED]"
| "lease_transitions OWNED_BY_PREPARED = [OWNED_BY_NEW_STORE]"
| "lease_transitions OWNED_BY_COMPACTION = [OWNED_BY_COMPACTION_PREPARED]"
| "lease_transitions OWNED_BY_COMPACTION_PREPARED = [OWNED_BY_NEW_STORE]"
| "lease_transitions CLOSED = []"

text \<open>The locks of the scopes: \<open>held sc\<close> when some descriptor holds the \<open>flock\<close>.\<close>

type_synonym scope_locks = "int \<Rightarrow> bool"

definition lease_acquire :: "scope_locks \<Rightarrow> int \<Rightarrow> scope_lease option \<times> scope_locks" where
  "lease_acquire held scope_id =
     (if held scope_id then (None, held)
      else (Some \<lparr>le_scope_id = scope_id, le_state = OWNED_BY_STORE, le_sealed = True\<rparr>, held(scope_id := True)))"

definition lease_close :: "scope_lease \<Rightarrow> scope_locks \<Rightarrow> scope_lease \<times> scope_locks" where
  "lease_close l held =
     (if le_state l \<noteq> CLOSED then (l\<lparr>le_state := CLOSED\<rparr>, held(le_scope_id l := False)) else (l, held))"

definition lease_held :: "scope_lease \<Rightarrow> bool" where
  "lease_held l \<longleftrightarrow> le_state l \<noteq> CLOSED"

text \<open>\<open>transfer\<close>; \<open>None\<close> is the \<open>WalError\<close> of an illegal edge.\<close>

definition lease_transfer :: "scope_lease \<Rightarrow> lease_state \<Rightarrow> scope_locks \<Rightarrow> (scope_lease \<times> scope_locks) option" where
  "lease_transfer l new_state held =
     (if new_state = CLOSED then Some (lease_close l held)
      else if new_state \<notin> set (lease_transitions (le_state l)) then None
      else Some (l\<lparr>le_state := new_state\<rparr>, held))"

subsection \<open>Exclusion and single release\<close>

text \<open>The leases of a process: a list, each operation on one of them.\<close>

inductive lease_step :: "scope_lease list \<times> scope_locks \<Rightarrow> scope_lease list \<times> scope_locks \<Rightarrow> bool" where
  lstep_acquire: "lease_acquire held sc = (Some l, held') \<Longrightarrow> lease_step (ls, held) (l # ls, held')"
| lstep_transfer: "i < length ls \<Longrightarrow> lease_transfer (ls ! i) s held = Some (l, held') \<Longrightarrow>
    lease_step (ls, held) (ls[i := l], held')"
| lstep_close: "i < length ls \<Longrightarrow> lease_close (ls ! i) held = (l, held') \<Longrightarrow>
    lease_step (ls, held) (ls[i := l], held')"

inductive lease_reachable :: "scope_lease list \<times> scope_locks \<Rightarrow> bool" where
  lreach_init: "lease_reachable ([], \<lambda>_. False)"
| lreach_step: "lease_reachable st \<Longrightarrow> lease_step st st' \<Longrightarrow> lease_reachable st'"

inductive_cases lease_stepE: "lease_step (ls, held) st'"

definition held_leases :: "scope_lease list \<Rightarrow> int \<Rightarrow> nat set" where
  "held_leases ls sc = {i. i < length ls \<and> le_scope_id (ls ! i) = sc \<and> lease_held (ls ! i)}"

text \<open>A scope has at most one held lease, and its lock is taken exactly when it has one.\<close>

definition lease_inv :: "scope_lease list \<times> scope_locks \<Rightarrow> bool" where
  "lease_inv st = (case st of (ls, held) \<Rightarrow>
     \<forall>sc. if held sc then \<exists>i. held_leases ls sc = {i} else held_leases ls sc = {})"

lemma held_leases_Cons:
  "held_leases (l # ls) sc = (if le_scope_id l = sc \<and> lease_held l then {0} else {}) \<union> Suc ` held_leases ls sc"
proof (rule set_eqI)
  fix x
  show "x \<in> held_leases (l # ls) sc \<longleftrightarrow>
      x \<in> (if le_scope_id l = sc \<and> lease_held l then {0} else {}) \<union> Suc ` held_leases ls sc"
    by (cases x) (auto simp: held_leases_def)
qed

lemma Suc_image_singleton: "\<exists>i. A = {i} \<Longrightarrow> \<exists>i. Suc ` A = {i}"
  by auto

lemma held_leases_update:
  assumes "i < length ls" "le_scope_id l = le_scope_id (ls ! i)"
  shows "held_leases (ls[i := l]) sc =
    (if le_scope_id l = sc then (if lease_held l then insert i (held_leases ls sc) else held_leases ls sc - {i})
     else held_leases ls sc)"
  using assms by (auto simp: held_leases_def nth_list_update)

lemma lease_close_inv:
  assumes "i < length ls" "lease_inv (ls, held)" "lease_close (ls ! i) held = (l, held')"
  shows "lease_inv (ls[i := l], held')"
proof (cases "lease_held (ls ! i)")
  case True
  then have l: "l = (ls ! i)\<lparr>le_state := CLOSED\<rparr>" "held' = held(le_scope_id (ls ! i) := False)"
    using assms(3) by (simp_all add: lease_close_def lease_held_def)
  have m: "i \<in> held_leases ls (le_scope_id (ls ! i))" using True assms(1) by (simp add: held_leases_def)
  have "held (le_scope_id (ls ! i))" "held_leases ls (le_scope_id (ls ! i)) = {i}"
    using assms(2) m by (auto simp: lease_inv_def split: if_splits) (metis empty_iff singletonD)+
  then show ?thesis
    using assms(2) by (auto simp: lease_inv_def l held_leases_update [OF assms(1)] lease_held_def)
next
  case False
  then have "l = ls ! i" "held' = held" using assms(3) by (simp_all add: lease_close_def lease_held_def)
  then show ?thesis using assms(1,2) by simp
qed

lemma lease_step_inv: "lease_step st st' \<Longrightarrow> lease_inv st \<Longrightarrow> lease_inv st'"
proof (induction rule: lease_step.induct)
  case (lstep_acquire held sc l held' ls)
  then have l: "\<not> held sc" "l = \<lparr>le_scope_id = sc, le_state = OWNED_BY_STORE, le_sealed = True\<rparr>"
    "held' = held(sc := True)"
    by (auto simp: lease_acquire_def split: if_splits)
  then show ?case
    using lstep_acquire.prems by (auto simp: lease_inv_def held_leases_Cons lease_held_def intro: Suc_image_singleton)
next
  case (lstep_transfer i ls s held l held')
  show ?case
  proof (cases "s = CLOSED")
    case True
    then show ?thesis
      using lstep_transfer lease_close_inv [of i ls held l held'] by (simp add: lease_transfer_def)
  next
    case False
    then have l: "l = (ls ! i)\<lparr>le_state := s\<rparr>" "held' = held" "s \<in> set (lease_transitions (le_state (ls ! i)))"
      using lstep_transfer.hyps by (auto simp: lease_transfer_def split: if_splits)
    have "le_state (ls ! i) \<noteq> CLOSED" using l(3) by auto
    then have "held_leases (ls[i := l]) sc = held_leases ls sc" for sc
      using lstep_transfer.hyps(1) False
      by (auto simp: l(1) lease_held_def held_leases_def nth_list_update)
    then show ?thesis using lstep_transfer.prems by (simp add: lease_inv_def l(2))
  qed
next
  case (lstep_close i ls held l held')
  then show ?case using lease_close_inv by simp
qed

lemma lease_reachable_inv: "lease_reachable st \<Longrightarrow> lease_inv st"
proof (induction rule: lease_reachable.induct)
  case lreach_init
  then show ?case by (simp add: lease_inv_def held_leases_def)
next
  case (lreach_step st st')
  then show ?case by (blast intro: lease_step_inv)
qed

lemma lease_unique:
  assumes "lease_reachable (ls, held)" "i < length ls" "j < length ls" "lease_held (ls ! i)" "lease_held (ls ! j)"
    "le_scope_id (ls ! i) = le_scope_id (ls ! j)"
  shows "i = j"
proof -
  let ?sc = "le_scope_id (ls ! j)"
  have "i \<in> held_leases ls ?sc" "j \<in> held_leases ls ?sc" using assms by (auto simp: held_leases_def)
  moreover have "\<exists>k. held_leases ls ?sc \<subseteq> {k}"
    using lease_reachable_inv [OF assms(1)] by (auto simp: lease_inv_def) (metis empty_subsetI subset_refl)
  ultimately show ?thesis by blast
qed

text \<open>A closed lease never becomes an owner again.\<close>

lemma lease_closed_stays:
  "le_state l = CLOSED \<Longrightarrow> lease_transfer l s held = (if s = CLOSED then Some (l, held) else None)"
  by (simp add: lease_transfer_def lease_close_def)

end
