(* ===== verification/StorageProperties.thy ===== *)
theory StorageProperties
  imports BaseRound Lease
begin

text \<open>
  The properties of the stored forms: the artifacts of a base and their round trips, the object
  store, the files of the log, the manifest, and a generation opened from them. Each follows from
  the lemmas of its component; the witnesses apply them at small concrete inputs.
\<close>

section \<open>The artifacts of a base\<close>

text \<open>A registry blob that opens, whatever its bytes, answers every lookup: the binary search
  returns exactly the entry of the fact in the table, no two facts share an ordinal, and every
  ordinal and version it returns is in range.\<close>

theorem registry_lookup_exact:
  assumes "reg_open blob key = Inr r"
  shows "reg_lookup r fid = map_of (reg_iter_entries r) fid \<and>
    (\<forall>i v. reg_lookup r fid = Some (i, v) \<longrightarrow>
       0 \<le> i \<and> i < fr_fact_count r \<and> 1 \<le> v \<and> (\<forall>g w. reg_lookup r g = Some (i, w) \<longrightarrow> g = fid))"
proof -
  note v = reg_open_valid [OF assms]
  show ?thesis
    using reg_lookup_map_of [OF v] reg_lookup_bounds [OF v] reg_lookup_inj [OF v] by blast
qed

theorem registry_lookup_exact_witness:
  "\<exists>r. reg_open (fr_blob r) [7] = Inr r \<and> reg_lookup r 9 = map_of (reg_iter_entries r) 9 \<and> reg_lookup r 9 = Some (1, 4)"
proof -
  have m: "reg_mapping_ok [(5, (0, 3)), (9, (1, 4))] 2" by (simp add: reg_mapping_ok_def)
  obtain r where r: "reg_build [(5, (0, 3)), (9, (1, 4))] 3 1 2 [7] = Inr r" "reg_lookup r = map_of [(5, (0, 3)), (9, (1, 4))]"
    using reg_build_lookup [OF m, of 3 1 "[7]"] by auto
  have o: "reg_open (fr_blob r) [7] = Inr r" by (rule reg_build_reopens [OF r(1)])
  show ?thesis using registry_lookup_exact [OF o, of 9] o r(2) by auto
qed

text \<open>Building a registry from a mapping of facts to distinct ordinals and versions succeeds, the
  result opens, and it looks up exactly that mapping.\<close>

theorem registry_round_trip:
  assumes "reg_mapping_ok m fc" "fc \<le> MAX_FACT_COUNT" "0 \<le> fc" "u32 sc" "u32 gn"
  shows "\<exists>r. reg_build m sc gn fc key = Inr r \<and> reg_open (fr_blob r) key = Inr r \<and> reg_lookup r = map_of m \<and>
    fr_scope_id r = sc \<and> fr_generation_id r = gn \<and> fr_fact_count r = fc"
  using reg_build_lookup [OF assms(1,2) _ _ _ _ assms(3), of sc gn key] assms(4,5) reg_build_reopens
  by (fastforce simp: u32_def)

theorem registry_round_trip_witness:
  "\<exists>r. reg_build [(5, (0, 3)), (9, (1, 4))] 3 1 2 [7] = Inr r \<and> reg_lookup r 5 = Some (0, 3) \<and> reg_lookup r 6 = None"
proof -
  have "reg_mapping_ok [(5, (0, 3)), (9, (1, 4))] 2" by (simp add: reg_mapping_ok_def)
  from registry_round_trip [OF this, of 3 1 "[7]"] show ?thesis by (auto simp: u32_def)
qed

text \<open>Building a residual field from a dictionary of corrections succeeds for every page size, the
  result passes all its own checks, and looking up a fact under its scope and epoch gives exactly the
  correction of the dictionary (its low byte), no residual, or out of range; under any other scope or
  epoch it abstains.\<close>

theorem residual_round_trip:
  assumes "numpy_bits np" "ordinal_dict m fc" "u32 fc" "0 < ps" "u32 ps" "u32 sc" "u32 ep"
  shows "\<exists>f. rf_build np fc m ps sc ep key = Inr f \<and>
    (\<forall>i. rf_safe_lookup f i sc ep = corrections_answer m fc i) \<and>
    (\<forall>i sc' ep'. (sc', ep') \<noteq> (sc, ep) \<longrightarrow> fst (rf_safe_lookup f i sc' ep') \<in> {ABSTAIN_SCOPE, ABSTAIN_EPOCH})"
proof -
  from numpy_bits.rf_build_opens [OF assms(1,2), of ps sc ep key] assms(3-7) obtain f where
    f: "rf_build np fc m ps sc ep key = Inr f" "rf_built f m fc" "rf_scope_id f = sc" "rf_bulk_epoch f = ep"
    by (auto simp: u32_def)
  have "rf_valid f" using f(2) by (simp add: rf_built_def)
  note l = rf_safe_lookup_answer [OF this]
  have "rf_safe_lookup f i sc ep = corrections_answer m fc i" for i
    using rf_built_answer [OF f(2) assms(2), of i] by (simp add: l f(3,4))
  moreover have "fst (rf_safe_lookup f i sc' ep') \<in> {ABSTAIN_SCOPE, ABSTAIN_EPOCH}" if "(sc', ep') \<noteq> (sc, ep)" for i sc' ep'
    using that by (auto simp: l rf_answer_def f(3,4))
  ultimately show ?thesis using f(1) by blast
qed

theorem residual_round_trip_witness:
  "\<exists>f. rf_build np_concrete 4 [(2, 300)] 16 3 1 [7] = Inr f \<and> rf_safe_lookup f 2 3 1 = (CORRECT, Some 44) \<and>
    rf_safe_lookup f 1 3 1 = (NO_RESIDUAL, None)"
proof -
  have "ordinal_dict [(2, 300)] 4" by (simp add: ordinal_dict_def)
  from residual_round_trip [OF npc.numpy_bits_axioms this, of 16 3 1 "[7]"] show ?thesis
    by (auto simp: u32_def corrections_answer_def)
qed

text \<open>Whatever blob opens as a residual field, no lookup in it raises or reads out of bounds: the
  popcount rank over the checked rank directory gives the payload index of the fact, and the answer is
  the one its authenticated bitmap, payload and page tag determine.\<close>

theorem residual_lookup_total:
  assumes "numpy_bits np" "rf_open np blob key = Inr f"
  shows "rf_lookup f i sc ep = Inr (rf_answer f i sc ep) \<and>
    (0 \<le> i \<and> i < int (rf_fact_count f) \<and> rf_bits f ! nat i \<longrightarrow> rf_index f (nat i) < length (rf_payload f))"
  using rf_lookup_answer [OF numpy_bits.rf_open_valid(1) [OF assms]] rf_index_bound [OF numpy_bits.rf_open_valid(1) [OF assms]]
  by simp

theorem residual_lookup_total_witness:
  "\<exists>f. rf_open np_concrete (rf_blob f) [7] = Inr f \<and> rf_lookup f 2 3 1 = Inr (rf_answer f 2 3 1) \<and>
    rf_answer f 2 3 1 = (CORRECT, Some 44)"
proof -
  have d: "ordinal_dict [(2, 300)] 4" by (simp add: ordinal_dict_def)
  from npc.rf_build_opens [OF d, of 16 3 1 "[7]"] obtain f where
    f: "rf_build np_concrete 4 [(2, 300)] 16 3 1 [7] = Inr f" "rf_built f [(2, 300)] 4" "rf_scope_id f = 3" "rf_bulk_epoch f = 1"
    by auto
  obtain blob where b: "rf_open np_concrete blob [7] = Inr f"
    using f(1) by (auto simp: rf_build_def Let_def split: option.splits if_splits)
  have o: "rf_open np_concrete (rf_blob f) [7] = Inr f" using npc.rf_open_valid(2) [OF b] b by simp
  have "rf_answer f 2 3 1 = (CORRECT, Some 44)"
    using rf_built_answer [OF f(2) d, of 2] by (simp add: f(3,4) corrections_answer_def)
  then show ?thesis using residual_lookup_total [OF npc.numpy_bits_axioms o, of 2 3 1] o by blast
qed

text \<open>C26: When a deletion layer is required, no answer that lets a value through is given unless the
  layer is present, opened, of this scope and epoch, and does not delete the fact.\<close>

theorem deletion_fail_closed:
  assumes "fst (resolve fld (open_tombstone np blob key True) i sc ep) \<in> {CORRECT, NO_RESIDUAL, FALLBACK}"
  shows "\<exists>b t. blob = Some b \<and> tl_open np b key = Inr t \<and> tl_scope_id t = sc \<and> tl_bulk_epoch t = ep \<and> \<not> tl_is_deleted t i"
  using resolve_released [OF refl assms] by blast

theorem deletion_fail_closed_witness:
  "\<exists>b t. tl_build np_concrete 4 [2] 3 1 [7] = Inr t \<and> b = tl_blob t \<and>
     fst (resolve None (open_tombstone np_concrete (Some b) [7] True) 1 3 1) = FALLBACK \<and> \<not> tl_is_deleted t 1 \<and>
     (\<exists>u. tl_open np_concrete b [7] = Inr u \<and> tl_scope_id u = 3)"
proof -
  from npc.tl_build_opens [of "[2]" 4 3 1 "[7]"] obtain t where
    t: "tl_build np_concrete 4 [2] 3 1 [7] = Inr t" "tl_valid t" "tl_scope_id t = 3" "tl_bulk_epoch t = 1"
      "\<forall>i. tl_is_deleted t i \<longleftrightarrow> i \<in> set [2]" by auto
  obtain blob where b: "tl_open np_concrete blob [7] = Inr t"
    using t(1) by (auto simp: tl_build_def Let_def split: option.splits if_splits)
  have o: "tl_open np_concrete (tl_blob t) [7] = Inr t" using b tl_open_valid [OF b] by simp
  have f: "fst (resolve None (open_tombstone np_concrete (Some (tl_blob t)) [7] True) 1 3 1) = FALLBACK"
    using t by (simp add: resolve_def open_tombstone_def o)
  have "fst (resolve None (open_tombstone np_concrete (Some (tl_blob t)) [7] True) 1 3 1) \<in> {CORRECT, NO_RESIDUAL, FALLBACK}"
    using f by simp
  from deletion_fail_closed [OF this] show ?thesis using t(1,5) f o by auto
qed


text \<open>Building a bulk snapshot from a dictionary of byte values succeeds, the result opens, and its
  rank lookup gives exactly the value of the dictionary, absent, or out of range, for every ordinal.\<close>

theorem bulk_round_trip:
  assumes "numpy_bits np" "value_dict m fc" "0 \<le> fc" "fc \<le> MAX_FACT_COUNT" "u32 sc" "0 \<le> gn" "gn < 2 ^ 64"
  shows "\<exists>s. bs_build np fc m sc gn key = Inr s \<and> bs_open np (bs_blob s) key = Inr s \<and>
    (\<forall>i. bs_lookup s i = values_answer m fc i) \<and> bs_scope_id s = sc \<and> bs_generation_id s = gn"
proof -
  from numpy_bits.bs_build_lookup [OF assms(1-4), of sc gn key] assms(5-7) obtain s where
    s: "bs_build np fc m sc gn key = Inr s" "bs_scope_id s = sc" "bs_generation_id s = gn"
      "\<forall>i. bs_lookup s i = values_answer m fc i"
    by (auto simp: u32_def)
  obtain blob where b: "bs_open np blob key = Inr s"
    using s(1) by (auto simp: bs_build_def Let_def split: option.splits if_splits)
  have "bs_open np (bs_blob s) key = Inr s" using numpy_bits.bs_open_valid(2) [OF assms(1) b] b by simp
  then show ?thesis using s by blast
qed

theorem bulk_round_trip_witness:
  "\<exists>s. bs_build np_concrete 3 [(1, 200)] 3 1 [7] = Inr s \<and> bs_lookup s 1 = (BULK_VALUE, Some 200) \<and>
    bs_lookup s 0 = (BULK_ABSENT, None) \<and> fst (bs_lookup s 3) = BULK_OUT_OF_RANGE"
proof -
  have "value_dict [(1, 200)] 3" by (simp add: value_dict_def ordinal_dict_def)
  from bulk_round_trip [OF npc.numpy_bits_axioms this, of 3 1 "[7]"] obtain s where
    s: "bs_build np_concrete 3 [(1, 200)] 3 1 [7] = Inr s" "\<forall>i. bs_lookup s i = values_answer [(1, 200)] 3 i"
    by (auto simp: u32_def)
  then show ?thesis by (simp add: values_answer_def)
qed

text \<open>Building a dedup table succeeds; probing a recorded operation replays its sequence number for
  the same digest and conflicts for another, and a probe answers new exactly when the client is unknown
  or the counter is above its highest one: an old operation is never taken for a new one.\<close>

theorem dedup_round_trip:
  assumes "dedup_args_ok fl th es cl" "u32 sc" "u32 gn" "u32 rt" "0 \<le> fl" "fl < 2 ^ 64" "0 \<le> th" "th < 2 ^ 64"
  shows "\<exists>t. dt_build sc gn fl th rt es cl key = Inr t \<and>
    (\<forall>(oid, d, q) \<in> set es. \<forall>d'. dt_probe t oid d' = Inr (if d = d' then PReplay q else PConflict)) \<and>
    (\<forall>oid c x d. split_opid oid = Some (c, x) \<longrightarrow>
       (dt_probe t oid d = Inr PNew \<longleftrightarrow> (case map_of cl c of None \<Rightarrow> True | Some (hi, lo) \<Rightarrow> hi < x)))"
proof -
  from dt_build_opens [OF assms(1), of sc gn rt key] assms(2-8) obtain t where
    t: "dt_build sc gn fl th rt es cl key = Inr t" "dt_valid t" "dt_iter_entries t = sort_key fst es"
      "dt_clients t = sort_key fst cl"
    by (auto simp: u32_def)
  have cl: "map_of (sort_key fst cl) = map_of cl"
    by (rule sort_key_dict(2)) (use assms(1) in \<open>simp add: dedup_args_ok_def\<close>)
  have "dt_probe t oid d' = Inr (if d = d' then PReplay q else PConflict)" if "(oid, d, q) \<in> set es" for oid d q d'
    using dt_probe_known(1) [OF t(2), of oid d q d'] that t(3) by simp
  moreover have "dt_probe t oid d = Inr PNew \<longleftrightarrow> (case map_of cl c of None \<Rightarrow> True | Some (hi, lo) \<Rightarrow> hi < x)"
    if "split_opid oid = Some (c, x)" for oid c x d
    using dt_probe_new [OF t(2) that, of d] unfolding t(4) cl .
  ultimately show ?thesis using t(1) by blast
qed

theorem dedup_round_trip_witness:
  "\<exists>t oid oid2. dt_build 3 1 4 9 1 [(oid, replicate 16 7, 6)] [(1, (5, 2))] [7] = Inr t \<and>
    dt_probe t oid (replicate 16 7) = Inr (PReplay 6) \<and> dt_probe t oid (replicate 16 8) = Inr PConflict \<and>
    dt_probe t oid2 [] = Inr PNew"
proof -
  define oid oid2 :: bytes where "oid = le_bytes 8 1 @ le_bytes 8 4" and "oid2 = le_bytes 8 1 @ le_bytes 8 6"
  have sp: "split_opid oid = Some (1, 4)" "split_opid oid2 = Some (1, 6)"
    by (simp_all add: split_opid_def oid_def oid2_def)
  have "dedup_args_ok 4 9 [(oid, replicate 16 7, 6)] [(1, (5, 2))]"
    using sp(1) by (simp add: dedup_args_ok_def) (simp add: oid_def)
  from dedup_round_trip [OF this, of 3 1 1 "[7]"] show ?thesis using sp(2) by (fastforce simp: u32_def)
qed

section \<open>A base and a generation\<close>

text \<open>C27: From a consistent model of facts the four builders produce artifacts that validate together,
  and reading any fact through the bundle gives exactly what the model says: deleted, corrected (the low
  byte of the correction), the bulk value, or not found; always authoritatively.\<close>

theorem base_reads_back:
  assumes "numpy_bits np" "bm_ok m" "u32 sc" "u32 gn" "0 < ps" "u32 ps"
  shows "\<exists>r b f t. reg_build (bm_registry m) sc gn (bm_fact_count m) key = Inr r \<and>
    bs_build np (bm_fact_count m) (bm_values m) sc gn key = Inr b \<and>
    rf_build np (bm_fact_count m) (bm_corrections m) ps sc gn key = Inr f \<and>
    tl_build np (bm_fact_count m) (bm_deleted m) sc gn key = Inr t \<and>
    validate_base_artifacts np r b f t sc gn (bm_fact_count m) = None \<and>
    (\<forall>fid bs rs. read \<lparr>rv_generation_id = gn, rv_scope_id = sc, rv_base_seq = bs, rv_read_seq = rs\<rparr>
       (base_bundle sc gn r b f t) (\<lambda>_. None) fid = Some (bm_answer m fid))"
proof -
  obtain r b f t where p: "reg_build (bm_registry m) sc gn (bm_fact_count m) key = Inr r"
    "bs_build np (bm_fact_count m) (bm_values m) sc gn key = Inr b"
    "rf_build np (bm_fact_count m) (bm_corrections m) ps sc gn key = Inr f"
    "tl_build np (bm_fact_count m) (bm_deleted m) sc gn key = Inr t" "bm_parts m sc gn r b f t"
    using numpy_bits.bm_build [OF assms] by metis
  have "read \<lparr>rv_generation_id = gn, rv_scope_id = sc, rv_base_seq = bs, rv_read_seq = rs\<rparr>
       (base_bundle sc gn r b f t) (\<lambda>_. None) fid = Some (bm_answer m fid)" for fid bs rs
    by (rule numpy_bits.bm_reads [OF assms(1,2) p(5)]) simp_all
  then show ?thesis using p numpy_bits.bm_validates [OF assms(1,2) p(5)] by blast
qed

definition base3 :: base_model where
  "base3 = \<lparr>bm_registry = [(5, (0, 3)), (6, (1, 1)), (9, (2, 1))], bm_values = [(0, 200), (1, 7), (2, 8)],
     bm_corrections = [(1, 300)], bm_deleted = [2], bm_fact_count = 3\<rparr>"

lemma base3_ok: "bm_ok base3"
  by (simp add: base3_def bm_ok_def reg_mapping_ok_def value_dict_def ordinal_dict_def)

theorem base_reads_back_witness:
  "\<exists>r b f t. validate_base_artifacts np_concrete r b f t 3 1 3 = None \<and>
    read \<lparr>rv_generation_id = 1, rv_scope_id = 3, rv_base_seq = 0, rv_read_seq = 0\<rparr> (base_bundle 3 1 r b f t) (\<lambda>_. None) 6
      = Some (ReadResult RCorrect (Some 44) True SrcResidual)"
proof -
  have "u32 3" "u32 1" "(0 :: int) < 16" "u32 16" by (simp_all add: u32_def)
  from base_reads_back [OF npc.numpy_bits_axioms base3_ok this, of "[7]"] obtain r b f t where
    v: "validate_base_artifacts np_concrete r b f t 3 1 (bm_fact_count base3) = None"
    and r: "\<And>fid bs rs. read \<lparr>rv_generation_id = 1, rv_scope_id = 3, rv_base_seq = bs, rv_read_seq = rs\<rparr>
       (base_bundle 3 1 r b f t) (\<lambda>_. None) fid = Some (bm_answer base3 fid)" by blast
  have "bm_answer base3 6 = ReadResult RCorrect (Some 44) True SrcResidual" by (simp add: bm_answer_def base3_def)
  then show ?thesis using v r [of 0 0 6] by (intro exI conjI) (simp add: base3_def, simp)
qed

text \<open>A manifest without log segments over the artifacts built from a model opens as VALID, whatever
  the other inputs, and every read of the opened generation gives the answer of the model.\<close>

theorem compacted_generation_opens:
  assumes "numpy_bits (ge_np env)" "bm_ok m"
    and "u32 (em_scope_id man)" "u32 (em_generation_id man)" "0 < ps" "u32 ps"
    and "em_fact_count man = bm_fact_count m" "em_segments man = []" "em_read_seq man = em_base_seq man"
    and "dt_scope_id d = em_scope_id man" "dt_generation_id d = em_generation_id man" "dt_dedup_through_seq d = em_base_seq man"
    and "dget (em_base_descriptors man) TOMBSTONE = Some e" "dget (ge_keyring env) (ad_key_id e) = Some key"
    and "resolve_lineage man (ge_parent env) (ge_keyring env) = Some lin"
  shows "\<exists>r b f t h. reg_build (bm_registry m) (em_scope_id man) (em_generation_id man) (bm_fact_count m) key = Inr r \<and>
    open_over_base env man [CRegistry r, CBulk b, CResidual f, CTombstone t, CDedup d] = Inr (G_VALID, Some h) \<and>
    gh_lineage h = lin \<and> (\<forall>fid. read_fact h fid = Inr (Some (bm_answer m fid)))"
proof -
  obtain r b f t where p: "reg_build (bm_registry m) (em_scope_id man) (em_generation_id man) (bm_fact_count m) key = Inr r"
    "tl_open (ge_np env) (tl_blob t) key = Inr t" "bm_parts m (em_scope_id man) (em_generation_id man) r b f t"
    using numpy_bits.bm_build [OF assms(1-6), of key] by metis
  from bm_generation_opens [OF assms(1,2) p(3,2) assms(7-15)] p(1) show ?thesis by blast
qed

definition man3 :: epoch_manifest where
  "man3 = \<lparr>em_scope_id = 3, em_generation_id = 1, em_fact_count = 3, em_base_seq = 6, em_read_seq = 6,
     em_parent_generation_id = -1, em_parent_manifest_digest = [],
     em_base_descriptors = [(TOMBSTONE, make_descriptor TOMBSTONE [] True 1)], em_segments = [], em_key_id = 1\<rparr>"

definition env3 :: gen_env where
  "env3 = \<lparr>ge_np = np_concrete, ge_objects = [], ge_wal = \<lparr>ws_active = [], ws_objects = [], ws_keyring = [(1, [7])]\<rparr>, ge_keyring = [(1, [7])],
     ge_changed = (\<lambda>_. False), ge_fault = (\<lambda>_. None), ge_limits = default_limits, ge_parent = None,
     ge_reducer_limits = derived_reducer_limits DEFAULT_GENERATION_LIMITS, ge_gen_limits = DEFAULT_GENERATION_LIMITS\<rparr>"

theorem compacted_generation_opens_witness:
  "\<exists>parts h. open_over_base env3 man3 parts = Inr (G_VALID, Some h) \<and> gh_lineage h = GENESIS \<and>
    read_fact h 5 = Inr (Some (ReadResult RFromBulk (Some 200) True SrcBulk)) \<and>
    read_fact h 9 = Inr (Some (ReadResult RDeleted None True SrcTombstone))"
proof -
  have a: "dedup_args_ok 7 6 [] []" by (simp add: dedup_args_ok_def)
  from dt_build_opens [OF this, of 3 1 1 "[7]"] obtain d :: dedup_table where
    d: "dt_scope_id d = 3" "dt_generation_id d = 1" "dt_dedup_through_seq d = 6" by auto
  have e: "numpy_bits (ge_np env3)" "dget (em_base_descriptors man3) TOMBSTONE = Some (make_descriptor TOMBSTONE [] True 1)"
    "dget (ge_keyring env3) (ad_key_id (make_descriptor TOMBSTONE [] True 1)) = Some [7]"
    "resolve_lineage man3 (ge_parent env3) (ge_keyring env3) = Some GENESIS"
    using npc.numpy_bits_axioms by (simp_all add: env3_def man3_def make_descriptor_def resolve_lineage_def)
  have s: "u32 (em_scope_id man3)" "u32 (em_generation_id man3)" "(0 :: int) < 16" "u32 16"
    "em_fact_count man3 = bm_fact_count base3" "em_segments man3 = []" "em_read_seq man3 = em_base_seq man3"
    "dt_scope_id d = em_scope_id man3" "dt_generation_id d = em_generation_id man3" "dt_dedup_through_seq d = em_base_seq man3"
    by (simp_all add: man3_def base3_def u32_def d)
  have "bm_answer base3 5 = ReadResult RFromBulk (Some 200) True SrcBulk" "bm_answer base3 9 = ReadResult RDeleted None True SrcTombstone"
    by (simp_all add: bm_answer_def base3_def)
  then show ?thesis using compacted_generation_opens [OF e(1) base3_ok s e(2-4)] by metis
qed

lemma seg31_sealable: "sealable [7] seg31 []"
  using seg31_ok length_header_bytes [OF seg31_ok, of "[7]"]
  by (simp add: sealable_def wal_image_def next_seq_of_def seg31_def)

lemma seg31_ids: "sg_scope seg31 = 3" "sg_segment seg31 = 1" "sg_first seg31 = 1"
  by (simp_all add: seg31_def)

section \<open>Stores, manifests and generations\<close>

text \<open>What a writer decides from the base and what a reader sees of it are the same: over any bundle
  that matches the view and a fact the live index does not hold, the lookup of the writer is absent,
  abstains, or gives a version line exactly as the read is not found, not authoritative, or gives that
  value or deletion.\<close>

theorem writer_reader_agree:
  assumes "view_matches view bundle" "l0 fid = None"
  shows "\<exists>r. read view bundle l0 fid = Some r \<and>
    base_reads_as (bb_lookup \<lparr>bb_view = view, bb_bundle = bundle, bb_base_dedup = d\<rparr> fid) r"
  using bb_lookup_read [OF assms(1), where fid = fid] assms(2) by blast

theorem writer_reader_agree_witness:
  "\<exists>b r. view_matches \<lparr>rv_generation_id = 1, rv_scope_id = 3, rv_base_seq = 0, rv_read_seq = 0\<rparr> b \<and>
    read \<lparr>rv_generation_id = 1, rv_scope_id = 3, rv_base_seq = 0, rv_read_seq = 0\<rparr> b (\<lambda>_. None) 5 = Some r"
proof -
  have "u32 3" "u32 1" "(0 :: int) < 16" "u32 16" by (simp_all add: u32_def)
  from numpy_bits.bm_build [OF npc.numpy_bits_axioms base3_ok this, of "[7]"] obtain r b f t where
    p: "bm_parts base3 3 1 r b f t" by metis
  note v = numpy_bits.bm_validates [OF npc.numpy_bits_axioms base3_ok p]
  note ids = numpy_bits.validated_ids [OF npc.numpy_bits_axioms v]
  have m: "view_matches \<lparr>rv_generation_id = 1, rv_scope_id = 3, rv_base_seq = 0, rv_read_seq = 0\<rparr> (base_bundle 3 1 r b f t)"
    by (simp add: view_matches_def base_bundle_def ids)
  from writer_reader_agree [OF this, of "\<lambda>_. None" 5] m show ?thesis by blast
qed

text \<open>The object store is content addressed and never replaces an object, whatever system call
  fails: a put keeps every name the digest of its content and every stored object, and when it answers a
  digest that digest reads back the bytes.\<close>

theorem object_store_immutable:
  assumes "store_ok store"
  shows "store_ok (snd (put_object store blob fault)) \<and>
    (\<forall>d b. dget store d = Some b \<longrightarrow> dget (snd (put_object store blob fault)) d = Some b) \<and>
    (\<forall>d. fst (put_object store blob fault) = PutOk d \<longrightarrow>
       d = sha256 blob \<and> store_get (snd (put_object store blob fault)) d (int (length blob)) = Some blob)"
proof (intro conjI allI impI)
  show "store_ok (snd (put_object store blob fault))" by (rule put_object_ok [OF assms])
  fix d
  show "dget (snd (put_object store blob fault)) d = Some b" if "dget store d = Some b" for b
    using that by (rule put_object_keeps)
  assume "fst (put_object store blob fault) = PutOk d"
  then have "put_object store blob fault = (PutOk d, snd (put_object store blob fault))" by (metis prod.collapse)
  from put_object_get [OF this]
  show "d = sha256 blob" "store_get (snd (put_object store blob fault)) d (int (length blob)) = Some blob"
    by (auto simp: store_get_def get_limited_def)
qed

theorem object_store_immutable_witness:
  "store_ok [] \<and> store_get (snd (put_object [] [1, 2] None)) (sha256 [1, 2]) 2 = Some [1, 2]"
proof -
  have s: "store_ok []" by (simp add: store_ok_def)
  have "fst (put_object [] [1, 2] None) = PutOk (sha256 [1, 2])" by (simp add: put_object_def Let_def)
  then show ?thesis using object_store_immutable [OF s, of "[1, 2]" None] s by auto
qed

text \<open>The committed prefix of an ACTIVE file reads as exactly the frames it was published with,
  whatever bytes were appended behind it since.\<close>

theorem committed_prefix_reads:
  assumes "seg_id_ok s" "frames_ok (sg_first s) fs" "dget (ws_keyring st) (sg_key_id s) = Some key"
    and "dget (ws_active st) (sg_scope s, sg_segment s) = Some (RegularFile (wal_image key s fs @ r))"
    and "int (length (wal_image key s fs)) \<le> max_active_bytes limits"
  shows "read_active_prefix st (sg_scope s, sg_segment s) (expect_image key s fs) limits None =
    (AP_VALID, Some \<lparr>st_sealed_by_store = True, st_frames = fs, st_byte_length = length (wal_image key s fs),
       vs_identity = (sg_scope s, sg_segment s), vs_header = header_info s,
       vs_last_seq = next_seq_of s fs - 1, vs_is_sealed = False\<rparr>)"
  unfolding expect_image_def by (rule read_active_prefix_image [OF assms])

theorem committed_prefix_reads_witness:
  "fst (read_active_prefix \<lparr>ws_active = [((3, 1), RegularFile (wal_image [7] seg31 [] @ [9, 9]))], ws_objects = [], ws_keyring = [(0, [7])]\<rparr>
     (3, 1) (expect_image [7] seg31 []) \<lparr>max_active_bytes = 100, max_sealed_bytes = 100\<rparr> None) = AP_VALID"
proof -
  let ?st = "\<lparr>ws_active = [((3, 1), RegularFile (wal_image [7] seg31 [] @ [9, 9]))], ws_objects = [], ws_keyring = [(0, [7])]\<rparr>"
  have "dget (ws_keyring ?st) (sg_key_id seg31) = Some [7]" by (simp add: seg31_def)
  moreover have "dget (ws_active ?st) (sg_scope seg31, sg_segment seg31) = Some (RegularFile (wal_image [7] seg31 [] @ [9, 9]))"
    by (simp add: seg31_ids)
  moreover have "int (length (wal_image [7] seg31 [])) \<le> max_active_bytes \<lparr>max_active_bytes = 100, max_sealed_bytes = 100\<rparr>"
    using length_header_bytes [OF seg31_ok, of "[7]"] by (simp add: wal_image_def)
  ultimately show ?thesis
    using committed_prefix_reads [OF seg31_ok frames_ok_simps(1)] by (simp add: seg31_ids)
qed

text \<open>Sealing converges: whatever attempts to seal a committed image were cut short, at whatever
  byte, each leaves the image with a part of the footer behind it, and one uninterrupted attempt then
  answers VALID and leaves exactly the image and its footer.\<close>

theorem sealing_converges:
  assumes "sealable key s fs" "dget kr (sg_key_id s) = Some key"
    and "seal_file kr (sg_scope s, sg_segment s) (expect_image key s fs) (next_seq_of s fs - 1)
      (wal_image key s fs @ take j (footer_bytes key s fs)) sc = (r, b')"
    and "write_all None (footer_bytes key s fs) (io_writes sc') = (footer_bytes key s fs, IoDone)" "io_fsync sc' = Some True"
  shows "(\<exists>i. b' = wal_image key s fs @ take i (footer_bytes key s fs)) \<and>
    (\<exists>r'. seal_file kr (sg_scope s, sg_segment s) (expect_image key s fs) (next_seq_of s fs - 1) b' sc'
      = (Ret r', wal_image key s fs @ footer_bytes key s fs) \<and> sl_state r' = WS_VALID)"
proof -
  obtain i where i: "b' = wal_image key s fs @ take i (footer_bytes key s fs)"
    using seal_torn_stays [OF assms(1-3)] by blast
  show ?thesis using seal_torn_converges [OF assms(1,2,4,5), of i] unfolding i by blast
qed

theorem sealing_converges_witness:
  "\<exists>r'. seal_file [(0, [7])] (3, 1) (expect_image [7] seg31 []) 0
      (snd (seal_file [(0, [7])] (3, 1) (expect_image [7] seg31 []) 0 (wal_image [7] seg31 [])
        \<lparr>io_writes = [Wrote 20], io_fsync = None\<rparr>)) (all_at_once 53)
      = (Ret r', wal_image [7] seg31 [] @ footer_bytes [7] seg31 []) \<and> sl_state r' = WS_VALID"
proof -
  have l: "length (footer_bytes [7] seg31 []) = 53" by (rule footer_bytes_eq(2) [OF seg31_sealable])
  then have "footer_bytes [7] seg31 [] \<noteq> []" by auto
  from write_all_once [OF this] l have w: "write_all None (footer_bytes [7] seg31 []) (io_writes (all_at_once 53)) = (footer_bytes [7] seg31 [], IoDone)"
    by (simp add: all_at_once_def)
  have k: "dget [(0, [7 :: byte])] (sg_key_id seg31) = Some [7]" by (simp add: seg31_def)
  have n: "next_seq_of seg31 [] - 1 = 0" by (simp add: next_seq_of_def seg31_def)
  obtain r b' where t: "seal_file [(0, [7])] (sg_scope seg31, sg_segment seg31) (expect_image [7] seg31 []) (next_seq_of seg31 [] - 1)
      (wal_image [7] seg31 [] @ take 0 (footer_bytes [7] seg31 [])) \<lparr>io_writes = [Wrote 20], io_fsync = None\<rparr> = (r, b')"
    by fastforce
  have "io_fsync (all_at_once 53) = Some True" by (simp add: all_at_once_def)
  from sealing_converges [OF seg31_sealable k t w this] t show ?thesis by (simp add: seg31_ids n)
qed

text \<open>A seal never cuts a frame: when a whole frame follows the expected prefix, the seal is refused
  as corrupt and the file keeps every byte.\<close>

theorem seal_keeps_later_frames:
  assumes "sealable key s fs" "dget kr (sg_key_id s) = Some key" "valid_frame f"
  shows "seal_file kr (sg_scope s, sg_segment s) (expect_image key s fs) (next_seq_of s fs - 1)
      (wal_image key s fs @ frame_bytes key (sg_scope s) (sg_segment s) f @ r) sc
    = (Ret (SealResult WS_CORRUPT), wal_image key s fs @ frame_bytes key (sg_scope s) (sg_segment s) f @ r)"
  by (rule seal_refuses_frames [OF assms])


theorem seal_keeps_later_frames_witness:
  "\<exists>f. valid_frame f \<and> seal_file [(0, [7])] (3, 1) (expect_image [7] seg31 []) 0
      (wal_image [7] seg31 [] @ frame_bytes [7] 3 1 f) (all_at_once 53)
    = (Ret (SealResult WS_CORRUPT), wal_image [7] seg31 [] @ frame_bytes [7] 3 1 f)"
proof -
  have v: "valid_frame (OP_DELETE, 1, replicate 16 0, 5, 1, None)" by (simp add: u32_def)
  have k: "dget [(0, [7 :: byte])] (sg_key_id seg31) = Some [7]" by (simp add: seg31_def)
  have n: "next_seq_of seg31 [] - 1 = 0" by (simp add: next_seq_of_def seg31_def)
  from seal_keeps_later_frames [OF seg31_sealable k v, of "[]" "all_at_once 53"] v show ?thesis
    unfolding seg31_ids n by (intro exI conjI) (assumption, simp)
qed

text \<open>A sealed segment that was published reads back, through the descriptor of a manifest, as
  exactly its frames, under the digest the publication answered.\<close>

theorem published_segment_reads:
  assumes "sealable key s fs" "dget (ws_keyring st) (sg_key_id s) = Some key"
    and "dget (ws_active st) (sg_scope s, sg_segment s) = Some (RegularFile (wal_image key s fs @ footer_bytes key s fs))"
    and "int (length (wal_image key s fs @ footer_bytes key s fs)) \<le> max_sealed_bytes limits"
    and "publish_sealed st (sg_scope s, sg_segment s) limits None pf = ((WS_VALID, Some (d, n)), st')"
    and "wsd_status ds = STATE_SEALED" "wsd_sealed_object_sha256 ds = d" "wsd_sealed_object_length ds = n"
      "sd_segment_id ds = sg_segment s" "wsd_key_id ds = sg_key_id s"
  shows "\<exists>g. read_validated_segment st' ds (sg_scope s) limits None = (AP_VALID, Some g) \<and>
    st_frames g = fs \<and> vs_is_sealed g \<and> vs_last_seq g = next_seq_of s fs - 1"
  using publish_then_read [OF assms(1-3) refl assms(4-10)] by simp

theorem published_segment_reads_witness:
  "\<exists>st d n st' g ds. publish_sealed st (3, 1) \<lparr>max_active_bytes = 200, max_sealed_bytes = 200\<rparr> None None = ((WS_VALID, Some (d, n)), st') \<and>
    read_validated_segment st' ds 3 \<lparr>max_active_bytes = 200, max_sealed_bytes = 200\<rparr> None = (AP_VALID, Some g) \<and> st_frames g = []"
proof -
  let ?b = "wal_image [7] seg31 [] @ footer_bytes [7] seg31 []"
  let ?st = "\<lparr>ws_active = [((3, 1), RegularFile ?b)], ws_objects = [], ws_keyring = [(0, [7])]\<rparr>"
  let ?lim = "\<lparr>max_active_bytes = 200, max_sealed_bytes = 200\<rparr>"
  let ?ds = "\<lparr>sd_ordinal = 0, sd_segment_id = 1, sd_first_seq = 1, sd_record_count = 0, wsd_status = STATE_SEALED,
    wsd_durable_prefix_length = int (length ?b), wsd_durable_prefix_sha256 = sha256 ?b,
    wsd_sealed_object_length = int (length ?b), wsd_sealed_object_sha256 = sha256 ?b,
    wsd_prev_segment_digest = replicate 16 0, wsd_key_id = 0\<rparr>"
  have k: "dget (ws_keyring ?st) (sg_key_id seg31) = Some [7]" by (simp add: seg31_def)
  have f: "dget (ws_active ?st) (sg_scope seg31, sg_segment seg31) = Some (RegularFile ?b)" by (simp add: seg31_ids)
  have l: "length ?b = 120"
    using length_header_bytes [OF seg31_ok, of "[7]"] footer_bytes_eq(2) [OF seg31_sealable] by (simp add: wal_image_def)
  then have lim: "int (length ?b) \<le> max_sealed_bytes ?lim" by simp
  have kd: "whi_key_id (header_info seg31) = 0" by (simp add: header_info_def seg31_def)
  have a: "authenticate_header [(0, [7])] ?b (3, 1) = (WS_VALID, Some (header_info seg31))"
    using authenticate_image [OF seg31_ok, of "[(0, [7])]" "[7]" "[]"] k by (simp add: seg31_ids)
  have sc: "sr_class (scan (Some ?b) [7] True 3 1 None) = CLEAN" "sr_sealed (scan (Some ?b) [7] True 3 1 None)"
    using scan_image_sealed [OF seg31_sealable, of None True] by (simp_all add: seg31_ids)
  have p: "publish_sealed ?st (sg_scope seg31, sg_segment seg31) ?lim None None = ((WS_VALID, Some (sha256 ?b, int (length ?b))),
      ?st\<lparr>ws_objects := dput (sha256 ?b) ?b []\<rparr>)"
    using l sc by (simp add: publish_sealed_def identity_ok_def u32_def safe_read_def seg31_ids a kd Let_def put_object_def)
  from published_segment_reads [OF seg31_sealable k f lim p, of ?ds] p show ?thesis
    by (simp add: seg31_ids seg31_def) blast
qed

text \<open>C28: A manifest that fits the layout serializes, and the parser reads the same manifest back, for
  any order of the five base descriptors and not only for the one \<open>serialize\<close> writes.\<close>

theorem manifest_round_trip:
  assumes "manifest_fits m" "distinct kinds" "set kinds = UNIV" "dget kr (em_key_id m) = Some key"
  shows "\<exists>body. em_body kinds m = Some body \<and>
    parse_manifest (Some (body @ em_mac key body)) kr = (G_VALID, Some (with_order kinds m)) \<and>
    (kinds = BASE_KINDS \<longrightarrow> em_serialize m key = Some (body @ em_mac key body))"
  using parse_any_order [OF assms] by (auto simp: em_serialize_def)

definition man5 :: epoch_manifest where
  "man5 = \<lparr>em_scope_id = 3, em_generation_id = 1, em_fact_count = 3, em_base_seq = 6, em_read_seq = 6,
     em_parent_generation_id = -1, em_parent_manifest_digest = ZERO32,
     em_base_descriptors = map (\<lambda>k. (k, \<lparr>ad_kind = k, ad_format_version = 1, ad_required = True, ad_byte_length = 9,
       ad_sha256 = ZERO32, ad_key_id = 1\<rparr>)) BASE_KINDS, em_segments = [], em_key_id = 1\<rparr>"

lemma man5_fits: "manifest_fits man5"
proof -
  have "\<exists>d. dget (em_base_descriptors man5) k = Some d \<and> desc_fits k d" for k
    by (cases k) (simp_all add: man5_def BASE_KINDS_def desc_fits_def u32_def)
  then show ?thesis by (simp add: manifest_fits_def man5_def u32_def seq_ok_def)
qed

theorem manifest_round_trip_witness:
  "\<exists>body. em_body (rev BASE_KINDS) man5 = Some body \<and>
    parse_manifest (Some (body @ em_mac [7] body)) [(1, [7])] = (G_VALID, Some (with_order (rev BASE_KINDS) man5)) \<and>
    with_order (rev BASE_KINDS) man5 \<noteq> man5"
proof -
  have o: "distinct (rev BASE_KINDS)" "set (rev BASE_KINDS) = UNIV" by simp_all
  have k: "dget [(1, [7 :: byte])] (em_key_id man5) = Some [7]" by (simp add: man5_def)
  have "with_order (rev BASE_KINDS) man5 \<noteq> man5" by (simp add: with_order_def man5_def BASE_KINDS_def)
  then show ?thesis using manifest_round_trip [OF man5_fits o k] by blast
qed

text \<open>C29: The coverage law partitions the history: the sequence numbers of the segments, in their order,
  are exactly those between the base and the read position, each once, and every segment but the last is
  sealed and not empty.\<close>

theorem coverage_partitions:
  assumes "check_coverage m"
  shows "em_base_seq m \<le> em_read_seq m \<and>
    concat (map seg_seqs (em_segments m)) = [em_base_seq m + 1..em_read_seq m] \<and>
    sorted_wrt (<) (map sd_segment_id (em_segments m)) \<and>
    (\<forall>s \<in> set (butlast (em_segments m)). wsd_status s = STATE_SEALED \<and> 0 < sd_record_count s)"
  using check_coverage_partition [OF assms] by blast

definition segd :: "nat \<Rightarrow> int \<Rightarrow> int \<Rightarrow> nat \<Rightarrow> int \<Rightarrow> bytes \<Rightarrow> bytes \<Rightarrow> wal_segment_descriptor" where
  "segd i sid first n status obj prev = \<lparr>sd_ordinal = i, sd_segment_id = sid, sd_first_seq = first, sd_record_count = n,
     wsd_status = status, wsd_durable_prefix_length = 99, wsd_durable_prefix_sha256 = obj,
     wsd_sealed_object_length = (if status = STATE_SEALED then 99 else 0),
     wsd_sealed_object_sha256 = (if status = STATE_SEALED then obj else ZERO32),
     wsd_prev_segment_digest = prev, wsd_key_id = 0\<rparr>"

theorem coverage_partitions_witness:
  "concat (map seg_seqs (em_segments (man5\<lparr>em_read_seq := 9, em_segments :=
      [segd 0 1 7 2 STATE_SEALED (replicate 32 5) ZERO16, segd 1 4 9 1 STATE_ACTIVE (replicate 32 6) (replicate 16 5)]\<rparr>))) = [7..9]"
proof -
  have "check_coverage (man5\<lparr>em_read_seq := 9, em_segments :=
      [segd 0 1 7 2 STATE_SEALED (replicate 32 5) ZERO16, segd 1 4 9 1 STATE_ACTIVE (replicate 32 6) (replicate 16 5)]\<rparr>)"
    by (simp add: check_coverage_def man5_def segd_def segment_covers_def u32_def)
  from coverage_partitions [OF this] show ?thesis by (simp add: man5_def)
qed



text \<open>When the current generation does not open, the decision abstains and gives no handle; only a
  generation that opened as VALID is served, never its parent in its place.\<close>

theorem current_generation_abstains:
  assumes "resolve_current env mb = Inr c"
  shows "(cd_abstained c \<longleftrightarrow> cd_state c \<noteq> G_VALID) \<and> (cd_abstained c \<longrightarrow> cd_handle c = None \<and> \<not> cd_opened c) \<and>
    (\<not> cd_abstained c \<longrightarrow> open_generation env mb = Inr (G_VALID, cd_handle c))"
  using resolve_current_abstains [OF assms] assms by (auto simp: resolve_current_def split: sum.splits prod.splits if_splits)

theorem current_generation_abstains_witness:
  "\<exists>c. resolve_current env3 None = Inr c \<and> cd_abstained c \<and> cd_state c = G_REQUIRED_MISSING"
proof -
  obtain c where c: "resolve_current env3 None = Inr c" "cd_state c = G_REQUIRED_MISSING"
    by (simp add: resolve_current_def open_generation_def parse_manifest_def)
  then show ?thesis using current_generation_abstains [OF c(1)] by simp
qed

text \<open>C31: Two leases of one scope are never held at the same time, over any acquisitions, transfers and
  closings, and a lease that was closed is never an owner again.\<close>

theorem lease_exclusive:
  assumes "lease_reachable (ls, held)" "i < length ls" "j < length ls" "lease_held (ls ! i)"
    "le_scope_id (ls ! i) = le_scope_id (ls ! j)"
  shows "(lease_held (ls ! j) \<longleftrightarrow> i = j) \<and>
    (\<forall>s held'. i \<noteq> j \<longrightarrow> lease_transfer (ls ! j) s held' = (if s = CLOSED then Some (ls ! j, held') else None))"
proof -
  have u: "lease_held (ls ! j) \<longleftrightarrow> i = j" using lease_unique [OF assms(1-4)] assms(4,5) by auto
  then have "le_state (ls ! j) = CLOSED" if "i \<noteq> j" using that by (simp add: lease_held_def)
  then show ?thesis using u lease_closed_stays by blast
qed

theorem lease_exclusive_witness:
  "\<exists>ls held. lease_reachable (ls, held) \<and> length ls = 2 \<and> lease_held (ls ! 0) \<and> \<not> lease_held (ls ! 1) \<and>
    lease_transfer (ls ! 1) OWNED_BY_ROTATION held = None"
proof -
  let ?l = "\<lambda>s. \<lparr>le_scope_id = 3, le_state = s, le_sealed = True\<rparr>"
  let ?h = "\<lambda>b. (\<lambda>_. False)(3 := b)"
  have "lease_step ([], \<lambda>_. False) ([?l OWNED_BY_STORE], ?h True)"
    by (rule lstep_acquire [where sc = 3]) (simp add: lease_acquire_def)
  from lreach_step [OF lreach_init this] have 1: "lease_reachable ([?l OWNED_BY_STORE], ?h True)" .
  have "lease_step ([?l OWNED_BY_STORE], ?h True) ([?l OWNED_BY_STORE][0 := ?l CLOSED], ?h False)"
    by (rule lstep_close) (simp_all add: lease_close_def)
  from lreach_step [OF 1 this] have 2: "lease_reachable ([?l CLOSED], ?h False)" by simp
  have "lease_step ([?l CLOSED], ?h False) ([?l OWNED_BY_STORE, ?l CLOSED], ?h True)"
    by (rule lstep_acquire [where sc = 3]) (simp add: lease_acquire_def)
  from lreach_step [OF 2 this] have 3: "lease_reachable ([?l OWNED_BY_STORE, ?l CLOSED], ?h True)" .
  from lease_exclusive [OF 3, of 0 1] 3 show ?thesis
    by (intro exI [of _ "[?l OWNED_BY_STORE, ?l CLOSED]"] exI [of _ "?h True"]) (simp add: lease_held_def)
qed

end
