(* ===== verification/Batch.thy ===== *)
theory Batch
  imports WalCrash
begin

section \<open>Planning and writing a batch (\<open>horizon_batch.py\<close>)\<close>

text \<open>
  \<open>prepare_batch\<close> decides a list of commands against a snapshot without any I/O: it works on
  builders of the two indexes, gives every accepted command the next sequence number, and
  returns the frames, the receipts and the candidate snapshot. \<open>commit_prepared\<close> and
  \<open>commit_prepared_durable\<close> write the frames. The hasher, an incremental SHA-256, is modelled
  by the bytes it was fed. The lemmas show that a plan is exactly the abstract history extended
  by the accepted commands, and that a batch is on disk in full before it is durable.
\<close>

datatype request_status = Logged append_status | ABSTAIN_BASE | NOT_ACCEPTED | COMMIT_UNKNOWN | OVERLOADED

record wal_head =
  wh_scope_id :: int
  wh_segment_id :: int
  wh_first_seq :: int
  wh_durable_through_seq :: int
  wh_byte_length :: nat
  wh_prefix_digest :: bytes
  wh_state :: int

record ('w, 't) l0_snapshot =
  ls_index :: 'w
  ls_txindex :: 't
  ls_visible_through_seq :: int
  ls_wal_head :: wal_head

record commit_command =
  cc_operation_id :: bytes
  cc_op :: opk
  cc_fact_id :: int
  cc_fact_version :: int
  cc_value :: "int option"
  cc_enqueue_ticket :: int

record planned_receipt =
  pr_ticket :: int
  pr_status :: request_status
  pr_wal_seq :: "int option"

abbreviation (input) PlannedReceipt :: "int \<Rightarrow> request_status \<Rightarrow> int option \<Rightarrow> planned_receipt" where
  "PlannedReceipt t s q \<equiv> \<lparr>pr_ticket = t, pr_status = s, pr_wal_seq = q\<rparr>"

record ('w, 't) batch_plan =
  bp_expected_first_seq :: int
  bp_frames :: "bytes list"
  bp_receipts :: "planned_receipt list"
  bp_candidate_snapshot :: "('w, 't) l0_snapshot"
  bp_candidate_head :: wal_head
  bp_byte_count :: nat
  bp_candidate_hasher :: bytes

text \<open>The local variables of the loop.\<close>

record ('wb, 'tb) prepare_state =
  ps_index :: 'wb
  ps_tx :: 'tb
  ps_seq :: int
  ps_frames :: "bytes list"
  ps_receipts :: "planned_receipt list"
  ps_hasher :: bytes
  ps_byte_len :: nat

definition add_receipt ::
  "('wb, 'tb) prepare_state \<Rightarrow> int \<Rightarrow> request_status \<Rightarrow> int option \<Rightarrow> ('wb, 'tb) prepare_state" where
  "add_receipt st t s q = st\<lparr>ps_receipts := ps_receipts st @ [PlannedReceipt t s q]\<rparr>"

text \<open>The write of an accepted command.\<close>

definition plan_apply ::
  "('w, 'wb, 't, 'tb) index_ops \<Rightarrow> bytes \<Rightarrow> int \<Rightarrow> int \<Rightarrow> commit_command \<Rightarrow> bytes
     \<Rightarrow> ('wb, 'tb) prepare_state \<Rightarrow> exn + ('wb, 'tb) prepare_state" where
  "plan_apply ops key scope_id segment_id cmd digest st =
     (case payload_of (cc_value cmd) of
        None \<Rightarrow> Inl StructError
      | Some payload \<Rightarrow>
          (case encode_frame key scope_id segment_id (cc_op cmd) (ps_seq st) (cc_operation_id cmd)
                  (cc_fact_id cmd) (cc_fact_version cmd) payload of
             Inl e \<Rightarrow> Inl e
           | Inr frame \<Rightarrow>
               Inr (add_receipt
                 (st\<lparr>ps_frames := ps_frames st @ [frame], ps_hasher := ps_hasher st @ frame,
                     ps_byte_len := ps_byte_len st + length frame,
                     ps_index := snd (io_apply ops (ps_index st) (cc_fact_id cmd) (cc_fact_version cmd)
                                        (cc_op cmd) (cc_value cmd)),
                     ps_tx := io_record ops (ps_tx st) (cc_operation_id cmd) digest (ps_seq st),
                     ps_seq := ps_seq st + 1\<rparr>)
                 (cc_enqueue_ticket cmd) (Logged APPLIED) (Some (ps_seq st)))))"

text \<open>The version check, with the base consulted only when the L0 does not know the fact.\<close>

definition plan_versions ::
  "('w, 'wb, 't, 'tb) index_ops \<Rightarrow> bytes \<Rightarrow> int \<Rightarrow> int \<Rightarrow> base_view \<Rightarrow> commit_command \<Rightarrow> bytes
     \<Rightarrow> ('wb, 'tb) prepare_state \<Rightarrow> exn + ('wb, 'tb) prepare_state" where
  "plan_versions ops key scope_id segment_id base cmd digest st =
     (let t = cc_enqueue_ticket cmd
      in case current_line (io_get ops (ps_index st) (cc_fact_id cmd)) base (cc_fact_id cmd) of
           None \<Rightarrow> Inr (add_receipt st t ABSTAIN_BASE None)
         | Some cur \<Rightarrow>
             (case preflight cur (cc_op cmd) (cc_fact_version cmd) (cc_value cmd) of
                Stale \<Rightarrow> Inr (add_receipt st t (Logged STALE_REJECTED) None)
              | Idempotent \<Rightarrow> Inr (add_receipt st t (Logged IDEMPOTENT) None)
              | Conflict \<Rightarrow> Inr (add_receipt st t (Logged VERSION_CONFLICT) None)
              | Applied \<Rightarrow> plan_apply ops key scope_id segment_id cmd digest st))"

definition plan_one ::
  "('w, 'wb, 't, 'tb) index_ops \<Rightarrow> bytes \<Rightarrow> int \<Rightarrow> int \<Rightarrow> base_view \<Rightarrow> bool \<Rightarrow> commit_command
     \<Rightarrow> ('wb, 'tb) prepare_state \<Rightarrow> exn + ('wb, 'tb) prepare_state" where
  "plan_one ops key scope_id segment_id base u8_domain cmd st =
     (let t = cc_enqueue_ticket cmd
      in if \<not> command_is_canonical (cc_op cmd) (cc_fact_id cmd) (cc_fact_version cmd) (cc_value cmd)
              (cc_operation_id cmd)
         then Inr (add_receipt st t (Logged INVALID_ARGUMENT) None)
         else if u8_domain \<and> cc_op cmd = OP_PUT \<and> \<not> is_u8_value (cc_value cmd)
         then Inr (add_receipt st t (Logged INVALID_ARGUMENT) None)
         else
           (case content_digest (cc_op cmd) (cc_fact_id cmd) (cc_fact_version cmd) (cc_value cmd) of
              Inl e \<Rightarrow> Inl e
            | Inr digest \<Rightarrow>
                (case classify_dedup (io_check ops (ps_tx st) (cc_operation_id cmd) digest)
                        (io_get_seq ops (ps_tx st)) base (cc_operation_id cmd) digest of
                   DedupReplay q \<Rightarrow> Inr (add_receipt st t (Logged DEDUP_REPLAY) q)
                 | TxidConflict \<Rightarrow> Inr (add_receipt st t (Logged TXID_CONFLICT) None)
                 | IdempotencyExpired \<Rightarrow> Inr (add_receipt st t (Logged IDEMPOTENCY_EXPIRED) None)
                 | AbstainBase \<Rightarrow> Inr (add_receipt st t ABSTAIN_BASE None)
                 | DedupNew \<Rightarrow> plan_versions ops key scope_id segment_id base cmd digest st)))"

fun plan_loop ::
  "('w, 'wb, 't, 'tb) index_ops \<Rightarrow> bytes \<Rightarrow> int \<Rightarrow> int \<Rightarrow> base_view \<Rightarrow> bool \<Rightarrow> commit_command list
     \<Rightarrow> ('wb, 'tb) prepare_state \<Rightarrow> exn + ('wb, 'tb) prepare_state" where
  "plan_loop ops key scope_id segment_id base u8_domain [] st = Inr st"
| "plan_loop ops key scope_id segment_id base u8_domain (cmd # cmds) st =
     (case plan_one ops key scope_id segment_id base u8_domain cmd st of
        Inl e \<Rightarrow> Inl e
      | Inr st \<Rightarrow> plan_loop ops key scope_id segment_id base u8_domain cmds st)"

definition prepare_batch ::
  "('w, 'wb, 't, 'tb) index_ops \<Rightarrow> ('w, 't) l0_snapshot \<Rightarrow> bytes \<Rightarrow> commit_command list \<Rightarrow> bytes \<Rightarrow> int \<Rightarrow> int
     \<Rightarrow> base_view \<Rightarrow> bool \<Rightarrow> exn + ('w, 't) batch_plan" where
  "prepare_batch ops snapshot hasher commands key scope_id segment_id base u8_domain =
     (let head = ls_wal_head snapshot; next_seq = wh_durable_through_seq head + 1
      in case plan_loop ops key scope_id segment_id base u8_domain commands
              \<lparr>ps_index = io_wal_begin ops (ls_index snapshot), ps_tx = io_tx_begin ops (ls_txindex snapshot),
               ps_seq = next_seq, ps_frames = [], ps_receipts = [], ps_hasher = hasher,
               ps_byte_len = wh_byte_length head\<rparr> of
           Inl e \<Rightarrow> Inl e
         | Inr st \<Rightarrow>
             (let last_seq = ps_seq st - 1;
                  cand_head = \<lparr>wh_scope_id = scope_id, wh_segment_id = segment_id,
                    wh_first_seq = wh_first_seq head, wh_durable_through_seq = last_seq,
                    wh_byte_length = ps_byte_len st, wh_prefix_digest = sha256 (ps_hasher st),
                    wh_state = STATE_ACTIVE\<rparr>
              in Inr \<lparr>bp_expected_first_seq = next_seq, bp_frames = ps_frames st,
                      bp_receipts = ps_receipts st,
                      bp_candidate_snapshot = \<lparr>ls_index = io_wal_freeze ops (ps_index st),
                        ls_txindex = io_tx_freeze ops (ps_tx st), ls_visible_through_seq = last_seq,
                        ls_wal_head = cand_head\<rparr>,
                      bp_candidate_head = cand_head,
                      bp_byte_count = sum_list (map length (ps_frames st)),
                      bp_candidate_hasher = ps_hasher st\<rparr>))"

subsection \<open>Writing a plan\<close>

text \<open>
  \<open>commit_prepared\<close> on the file of the writer; \<open>True\<close> is \<open>durable\<close>. The failpoints are
  hooks of the tests. A kill leaves the bytes written so far.
\<close>

definition commit_prepared ::
  "bytes \<Rightarrow> ('w, 't) batch_plan \<Rightarrow> io_script \<Rightarrow> bool out \<times> bytes" where
  "commit_prepared file plan sc =
     (if bp_frames plan = [] then (Ret False, file)
      else
        (let (b, e) = write_all None (concat (bp_frames plan)) (io_writes sc); file = file @ b
         in case e of
              IoRaise x \<Rightarrow> (Raise x, file)
            | IoKilled \<Rightarrow> (Killed, file)
            | IoDone \<Rightarrow>
                (case io_fsync sc of
                   Some True \<Rightarrow> (Ret True, file)
                 | Some False \<Rightarrow> (Raise OSError, file)
                 | None \<Rightarrow> (Killed, file))))"

subsection \<open>The abstract batch\<close>

text \<open>What one command does to a history over a base: refused with a receipt, or applied.\<close>

definition abs_decide ::
  "base_view \<Rightarrow> history \<Rightarrow> commit_command \<Rightarrow> bytes \<Rightarrow> (request_status \<times> int option) option" where
  "abs_decide base h cmd digest =
     (case snd h (cc_operation_id cmd) of
        Some (d, s) \<Rightarrow> Some (if d = digest then (Logged DEDUP_REPLAY, Some s) else (Logged TXID_CONFLICT, None))
      | None \<Rightarrow>
          (case bv_dedup_probe base (cc_operation_id cmd) digest of
             PReplay s \<Rightarrow> Some (Logged DEDUP_REPLAY, Some s)
           | PConflict \<Rightarrow> Some (Logged TXID_CONFLICT, None)
           | PExpired \<Rightarrow> Some (Logged IDEMPOTENCY_EXPIRED, None)
           | PAbstain \<Rightarrow> Some (ABSTAIN_BASE, None)
           | PNew \<Rightarrow>
               (case current_line (fst h (cc_fact_id cmd)) base (cc_fact_id cmd) of
                  None \<Rightarrow> Some (ABSTAIN_BASE, None)
                | Some cur \<Rightarrow>
                    (case preflight cur (cc_op cmd) (cc_fact_version cmd) (cc_value cmd) of
                       Stale \<Rightarrow> Some (Logged STALE_REJECTED, None)
                     | Idempotent \<Rightarrow> Some (Logged IDEMPOTENT, None)
                     | Conflict \<Rightarrow> Some (Logged VERSION_CONFLICT, None)
                     | Applied \<Rightarrow> None))))"

definition cmd_ok :: "bool \<Rightarrow> commit_command \<Rightarrow> bool" where
  "cmd_ok u8_domain cmd \<longleftrightarrow>
     command_is_canonical (cc_op cmd) (cc_fact_id cmd) (cc_fact_version cmd) (cc_value cmd) (cc_operation_id cmd) \<and>
     (u8_domain \<and> cc_op cmd = OP_PUT \<longrightarrow> is_u8_value (cc_value cmd))"

definition cmd_digest :: "commit_command \<Rightarrow> exn + bytes" where
  "cmd_digest cmd = content_digest (cc_op cmd) (cc_fact_id cmd) (cc_fact_version cmd) (cc_value cmd)"

definition cmd_frame :: "commit_command \<Rightarrow> int \<Rightarrow> wframe" where
  "cmd_frame cmd q = (cc_op cmd, q, cc_operation_id cmd, cc_fact_id cmd, cc_fact_version cmd, cc_value cmd)"

text \<open>The receipts, the frames and the history of a batch.\<close>

fun abs_batch ::
  "base_view \<Rightarrow> bool \<Rightarrow> history \<Rightarrow> int \<Rightarrow> commit_command list \<Rightarrow> planned_receipt list \<times> wframe list \<times> history"
  where
  "abs_batch base u8_domain h q [] = ([], [], h)"
| "abs_batch base u8_domain h q (cmd # cmds) =
     (let t = cc_enqueue_ticket cmd; d = projr (cmd_digest cmd)
      in if \<not> cmd_ok u8_domain cmd then
           (let (rs, fs, h') = abs_batch base u8_domain h q cmds
            in (PlannedReceipt t (Logged INVALID_ARGUMENT) None # rs, fs, h'))
         else
           (case abs_decide base h cmd d of
              Some (s, v) \<Rightarrow>
                (let (rs, fs, h') = abs_batch base u8_domain h q cmds in (PlannedReceipt t s v # rs, fs, h'))
            | None \<Rightarrow>
                (let (rs, fs, h') = abs_batch base u8_domain
                       ((fst h)(cc_fact_id cmd \<mapsto> (cc_fact_version cmd, cc_op cmd, cc_value cmd)),
                        (snd h)(cc_operation_id cmd \<mapsto> (d, q))) (q + 1) cmds
                 in (PlannedReceipt t (Logged APPLIED) (Some q) # rs, cmd_frame cmd q # fs, h'))))"

subsection \<open>A plan is the abstract batch\<close>

definition builder_reads ::
  "('w, 'wb, 't, 'tb) index_ops \<Rightarrow> 'wb \<Rightarrow> 'tb \<Rightarrow> history \<Rightarrow> bool" where
  "builder_reads ops wb tb h \<longleftrightarrow> io_get ops wb = fst h \<and>
     (\<forall>i d. io_check ops tb i d = (case snd h i of None \<Rightarrow> TxNew
        | Some (e, s) \<Rightarrow> if e = d then TxReplay else TxConflict)) \<and>
     (\<forall>i. io_get_seq ops tb i = map_option snd (snd h i))"

definition index_reads :: "('w, 'wb, 't, 'tb) index_ops \<Rightarrow> 'w \<Rightarrow> 't \<Rightarrow> history \<Rightarrow> bool" where
  "index_reads ops w t h \<longleftrightarrow> io_wal_get ops w = fst h \<and>
     (\<forall>i d. io_tx_check ops t i d = (case snd h i of None \<Rightarrow> TxNew
        | Some (e, s) \<Rightarrow> if e = d then TxReplay else TxConflict)) \<and>
     (\<forall>i. io_tx_get_seq ops t i = map_option snd (snd h i))"

text \<open>The commands whose version fits the frame; for an accepted one that does not the plan
  raises (below).\<close>

definition version_fits :: "bool \<Rightarrow> commit_command \<Rightarrow> bool" where
  "version_fits u8_domain cmd \<longleftrightarrow> (cmd_ok u8_domain cmd \<longrightarrow> cc_fact_version cmd < 2 ^ 32)"

lemma cmd_ok_digest:
  assumes "cmd_ok u8 cmd" "version_fits u8 cmd"
  shows "\<exists>d. cmd_digest cmd = Inr d"
proof -
  have "u32 (cc_fact_version cmd)"
    using assms by (auto simp: cmd_ok_def version_fits_def command_is_canonical_def u32_def split: if_splits)
  from canonical_digest [OF _ this] assms(1) show ?thesis unfolding cmd_ok_def cmd_digest_def by blast
qed

lemma cmd_ok_frame:
  assumes "cmd_ok u8 cmd" "version_fits u8 cmd" "0 \<le> q" "q < MAX_SEQ"
  shows "valid_frame (cmd_frame cmd q)"
proof -
  have "u32 (cc_fact_version cmd)"
    using assms by (auto simp: cmd_ok_def version_fits_def command_is_canonical_def u32_def split: if_splits)
  from canonical_valid [OF _ this assms(3,4)] assms(1) show ?thesis unfolding cmd_ok_def cmd_frame_def by blast
qed

definition applied_history :: "history \<Rightarrow> commit_command \<Rightarrow> bytes \<Rightarrow> int \<Rightarrow> history" where
  "applied_history h cmd d q =
     ((fst h)(cc_fact_id cmd \<mapsto> (cc_fact_version cmd, cc_op cmd, cc_value cmd)),
      (snd h)(cc_operation_id cmd \<mapsto> (d, q)))"

lemma classify_history:
  assumes "builder_reads ops wb tb h"
  shows "classify_dedup (io_check ops tb i d) (io_get_seq ops tb) base i d =
    (case snd h i of
       Some (e, s) \<Rightarrow> if e = d then DedupReplay (Some s) else TxidConflict
     | None \<Rightarrow> (case bv_dedup_probe base i d of PReplay s \<Rightarrow> DedupReplay (Some s) | PConflict \<Rightarrow> TxidConflict
         | PExpired \<Rightarrow> IdempotencyExpired | PAbstain \<Rightarrow> AbstainBase | PNew \<Rightarrow> DedupNew))"
  using assms by (auto simp: builder_reads_def classify_dedup_def split: option.splits)

text \<open>A command that is refused changes nothing but the receipts.\<close>

lemma plan_one_refused:
  assumes r: "builder_reads ops (ps_index st) (ps_tx st) h" and v: "version_fits u8 cmd"
  shows "\<not> cmd_ok u8 cmd \<Longrightarrow> plan_one ops key sc sg base u8 cmd st =
      Inr (add_receipt st (cc_enqueue_ticket cmd) (Logged INVALID_ARGUMENT) None)"
    and "cmd_ok u8 cmd \<Longrightarrow> abs_decide base h cmd (projr (cmd_digest cmd)) = Some (s, q) \<Longrightarrow>
      plan_one ops key sc sg base u8 cmd st = Inr (add_receipt st (cc_enqueue_ticket cmd) s q)"
    and "cmd_ok u8 cmd \<Longrightarrow> abs_decide base h cmd (projr (cmd_digest cmd)) = None \<Longrightarrow>
      plan_one ops key sc sg base u8 cmd st = plan_apply ops key sc sg cmd (projr (cmd_digest cmd)) st"
proof -
  show "\<not> cmd_ok u8 cmd \<Longrightarrow> plan_one ops key sc sg base u8 cmd st =
      Inr (add_receipt st (cc_enqueue_ticket cmd) (Logged INVALID_ARGUMENT) None)"
    by (auto simp: cmd_ok_def plan_one_def Let_def)
  assume ok: "cmd_ok u8 cmd"
  obtain d where d: "cmd_digest cmd = Inr d" using cmd_ok_digest [OF ok v] by blast
  have g: "io_get ops (ps_index st) = fst h" using r by (simp add: builder_reads_def)
  have one: "plan_one ops key sc sg base u8 cmd st =
      (case classify_dedup (io_check ops (ps_tx st) (cc_operation_id cmd) d) (io_get_seq ops (ps_tx st)) base
              (cc_operation_id cmd) d of
         DedupReplay q \<Rightarrow> Inr (add_receipt st (cc_enqueue_ticket cmd) (Logged DEDUP_REPLAY) q)
       | TxidConflict \<Rightarrow> Inr (add_receipt st (cc_enqueue_ticket cmd) (Logged TXID_CONFLICT) None)
       | IdempotencyExpired \<Rightarrow> Inr (add_receipt st (cc_enqueue_ticket cmd) (Logged IDEMPOTENCY_EXPIRED) None)
       | AbstainBase \<Rightarrow> Inr (add_receipt st (cc_enqueue_ticket cmd) ABSTAIN_BASE None)
       | DedupNew \<Rightarrow> plan_versions ops key sc sg base cmd d st)"
    using ok d by (auto simp: cmd_ok_def plan_one_def cmd_digest_def Let_def)
  show "abs_decide base h cmd (projr (cmd_digest cmd)) = Some (s, q) \<Longrightarrow>
      plan_one ops key sc sg base u8 cmd st = Inr (add_receipt st (cc_enqueue_ticket cmd) s q)"
    unfolding one classify_history [OF r]
    by (auto simp: abs_decide_def plan_versions_def g d split: option.splits probe.splits verdict.splits if_splits)
  show "abs_decide base h cmd (projr (cmd_digest cmd)) = None \<Longrightarrow>
      plan_one ops key sc sg base u8 cmd st = plan_apply ops key sc sg cmd (projr (cmd_digest cmd)) st"
    unfolding one classify_history [OF r]
    by (auto simp: abs_decide_def plan_versions_def g d split: option.splits probe.splits verdict.splits if_splits)
qed

lemma decide_None:
  assumes "abs_decide base h cmd d = None"
  shows "snd h (cc_operation_id cmd) = None" "bv_dedup_probe base (cc_operation_id cmd) d = PNew"
    "\<exists>cur. current_line (fst h (cc_fact_id cmd)) base (cc_fact_id cmd) = Some cur \<and>
       preflight cur (cc_op cmd) (cc_fact_version cmd) (cc_value cmd) = Applied"
  using assms by (auto simp: abs_decide_def split: option.splits probe.splits verdict.splits if_splits)

lemma decide_None_abs_step:
  assumes "abs_decide base h cmd d = None" "cmd_digest cmd = Inr d"
  shows "abs_step base h (cmd_frame cmd q) = Inr (Inr (applied_history h cmd d q))"
  using decide_None [OF assms(1)] assms(2)
  by (cases h) (auto simp: abs_step_def cmd_frame_def applied_history_def cmd_digest_def)

text \<open>The frames of a batch are a legal continuation of the history.\<close>

lemma abs_batch_replay:
  "\<forall>c \<in> set cmds. version_fits u8 c \<Longrightarrow> 0 \<le> q \<Longrightarrow> q + int (length cmds) \<le> MAX_SEQ \<Longrightarrow>
   abs_batch base u8 h q cmds = (rs, fs, h') \<Longrightarrow>
   abs_replay base h fs = Inr (Inr h') \<and> frames_ok q fs \<and> length fs \<le> length cmds \<and>
   map pr_ticket rs = map cc_enqueue_ticket cmds \<and>
   [pr_wal_seq r. r \<leftarrow> rs, pr_status r = Logged APPLIED] = map (\<lambda>i. Some (q + int i)) [0..<length fs]"
proof (induction cmds arbitrary: h q rs fs h')
  case Nil
  then show ?case by simp
next
  case (Cons cmd cmds)
  let ?d = "projr (cmd_digest cmd)"
  consider (bad) "\<not> cmd_ok u8 cmd" | (ref) s v where "cmd_ok u8 cmd" "abs_decide base h cmd ?d = Some (s, v)"
    | (app) "cmd_ok u8 cmd" "abs_decide base h cmd ?d = None"
    by (cases "cmd_ok u8 cmd"; cases "abs_decide base h cmd ?d") auto
  then show ?case
  proof cases
    case bad
    obtain rs1 fs1 h1 where b: "abs_batch base u8 h q cmds = (rs1, fs1, h1)" by (cases "abs_batch base u8 h q cmds")
    then show ?thesis using Cons.IH [OF _ Cons.prems(2) _ b] Cons.prems bad by (auto simp: Let_def)
  next
    case ref
    obtain rs1 fs1 h1 where b: "abs_batch base u8 h q cmds = (rs1, fs1, h1)" by (cases "abs_batch base u8 h q cmds")
    have "s \<noteq> Logged APPLIED"
      using ref(2) by (auto simp: abs_decide_def split: option.splits probe.splits verdict.splits if_splits)
    then show ?thesis using Cons.IH [OF _ Cons.prems(2) _ b] Cons.prems b ref by (auto simp: Let_def)
  next
    case app
    have v: "version_fits u8 cmd" using Cons.prems(1) by simp
    obtain d where d: "cmd_digest cmd = Inr d" using cmd_ok_digest [OF app(1) v] by blast
    let ?h = "applied_history h cmd d q"
    obtain rs1 fs1 h1 where b: "abs_batch base u8 ?h (q + 1) cmds = (rs1, fs1, h1)"
      by (cases "abs_batch base u8 ?h (q + 1) cmds")
    have e: "rs = PlannedReceipt (cc_enqueue_ticket cmd) (Logged APPLIED) (Some q) # rs1"
      "fs = cmd_frame cmd q # fs1" "h' = h1"
      using Cons.prems(4) app b d by (simp_all add: applied_history_def)
    have ih: "abs_replay base ?h fs1 = Inr (Inr h1)" "frames_ok (q + 1) fs1" "length fs1 \<le> length cmds"
      "map pr_ticket rs1 = map cc_enqueue_ticket cmds"
      "[pr_wal_seq r. r \<leftarrow> rs1, pr_status r = Logged APPLIED] = map (\<lambda>i. Some (q + 1 + int i)) [0..<length fs1]"
      using Cons.IH [OF _ _ _ b] Cons.prems(1,2,3) by auto
    have st: "abs_step base h (cmd_frame cmd q) = Inr (Inr ?h)"
      using decide_None_abs_step app(2) d by simp
    have vf: "valid_frame (cmd_frame cmd q)" using cmd_ok_frame [OF app(1) v] Cons.prems(2,3) by simp
    have sq: "frame_seq (cmd_frame cmd q) = q" by (simp add: cmd_frame_def)
    have "map (\<lambda>i. Some (q + int i)) [0..<length fs] = Some q # map (\<lambda>i. Some (q + 1 + int i)) [0..<length fs1]"
      by (simp add: e(2) upt_conv_Cons map_Suc_upt [symmetric] comp_def add.assoc del: upt_Suc)
    then show ?thesis using ih st vf sq by (simp add: e)
  qed
qed

lemma plan_apply_ok:
  assumes v: "valid_frame (cmd_frame cmd (ps_seq st))" and u: "u32 sc" "u32 sg"
  shows "plan_apply ops key sc sg cmd d st = Inr (add_receipt
    (st\<lparr>ps_frames := ps_frames st @ [frame_bytes key sc sg (cmd_frame cmd (ps_seq st))],
        ps_hasher := ps_hasher st @ frame_bytes key sc sg (cmd_frame cmd (ps_seq st)),
        ps_byte_len := ps_byte_len st + length (frame_bytes key sc sg (cmd_frame cmd (ps_seq st))),
        ps_index := snd (io_apply ops (ps_index st) (cc_fact_id cmd) (cc_fact_version cmd) (cc_op cmd) (cc_value cmd)),
        ps_tx := io_record ops (ps_tx st) (cc_operation_id cmd) d (ps_seq st),
        ps_seq := ps_seq st + 1\<rparr>)
    (cc_enqueue_ticket cmd) (Logged APPLIED) (Some (ps_seq st)))"
proof -
  note v' = v [unfolded cmd_frame_def]
  show ?thesis
    using encode_frame_bytes [OF v' u payload_of_valid [OF v'], of key] payload_of_valid [OF v']
    by (simp add: plan_apply_def cmd_frame_def)
qed

context l0_index
begin

lemma builder_reads_begin:
  assumes "winv w" "tinv t" "index_reads ops w t h"
  shows "builder_reads ops (io_wal_begin ops w) (io_tx_begin ops t) h"
  using assms by (simp add: builder_reads_def index_reads_def begin_get begin_check begin_get_seq)

lemma index_reads_freeze:
  assumes "binv b" "tbinv c" "builder_reads ops b c h"
  shows "index_reads ops (io_wal_freeze ops b) (io_tx_freeze ops c) h"
  using assms by (simp add: builder_reads_def index_reads_def freeze_get freeze_check freeze_get_seq)

lemma builder_reads_applied:
  assumes i: "binv b" "tbinv c" and r: "builder_reads ops b c h" and d: "abs_decide base h cmd d = None"
  shows "builder_reads ops
    (snd (io_apply ops b (cc_fact_id cmd) (cc_fact_version cmd) (cc_op cmd) (cc_value cmd)))
    (io_record ops c (cc_operation_id cmd) d q) (applied_history h cmd d q)"
proof -
  have g: "io_get ops b = fst h" using r by (simp add: builder_reads_def)
  have "preflight (fst h (cc_fact_id cmd)) (cc_op cmd) (cc_fact_version cmd) (cc_value cmd) = Applied"
    using decide_None(3) [OF d] by (cases "fst h (cc_fact_id cmd)") (auto simp: current_line_def preflight_def)
  then have "io_get ops (snd (io_apply ops b (cc_fact_id cmd) (cc_fact_version cmd) (cc_op cmd) (cc_value cmd)))
      = fst (applied_history h cmd d q)"
    by (auto simp: w.app_get [OF i(1)] g applied_history_def fun_eq_iff)
  then show ?thesis
    using r by (auto simp: builder_reads_def applied_history_def t.chk_rec [OF i(2)] t.seq_rec [OF i(2)])
qed

lemma plan_loop_refines:
  "\<forall>c \<in> set cmds. version_fits u8 c \<Longrightarrow> u32 sc \<Longrightarrow> u32 sg \<Longrightarrow> 0 \<le> ps_seq st \<Longrightarrow>
   ps_seq st + int (length cmds) \<le> MAX_SEQ \<Longrightarrow> binv (ps_index st) \<Longrightarrow> tbinv (ps_tx st) \<Longrightarrow>
   builder_reads ops (ps_index st) (ps_tx st) h \<Longrightarrow>
   abs_batch base u8 h (ps_seq st) cmds = (rs, fs, h') \<Longrightarrow>
   \<exists>st'. plan_loop ops key sc sg base u8 cmds st = Inr st' \<and> binv (ps_index st') \<and> tbinv (ps_tx st') \<and>
     builder_reads ops (ps_index st') (ps_tx st') h' \<and> ps_receipts st' = ps_receipts st @ rs \<and>
     ps_frames st' = ps_frames st @ map (frame_bytes key sc sg) fs \<and>
     ps_hasher st' = ps_hasher st @ frames_bytes key sc sg fs \<and>
     ps_byte_len st' = ps_byte_len st + length (frames_bytes key sc sg fs) \<and>
     ps_seq st' = ps_seq st + int (length fs)"
proof (induction cmds arbitrary: st h rs fs)
  case Nil
  then show ?case by simp
next
  case (Cons cmd cmds)
  let ?d = "projr (cmd_digest cmd)"
  have v: "version_fits u8 cmd" using Cons.prems(1) by simp
  consider (bad) "\<not> cmd_ok u8 cmd" | (ref) s q where "cmd_ok u8 cmd" "abs_decide base h cmd ?d = Some (s, q)"
    | (app) "cmd_ok u8 cmd" "abs_decide base h cmd ?d = None"
    by (cases "cmd_ok u8 cmd"; cases "abs_decide base h cmd ?d") auto
  then show ?case
  proof cases
    case bad
    obtain rs1 fs1 h1 where b: "abs_batch base u8 h (ps_seq st) cmds = (rs1, fs1, h1)"
      by (cases "abs_batch base u8 h (ps_seq st) cmds")
    let ?st = "add_receipt st (cc_enqueue_ticket cmd) (Logged INVALID_ARGUMENT) None"
    have "ps_seq ?st = ps_seq st" "ps_index ?st = ps_index st" "ps_tx ?st = ps_tx st"
      by (simp_all add: add_receipt_def)
    then show ?thesis
      using Cons.IH [of ?st h rs1 fs1] Cons.prems b bad plan_one_refused(1) [OF Cons.prems(8) v bad]
      by (auto simp: Let_def add_receipt_def)
  next
    case ref
    obtain rs1 fs1 h1 where b: "abs_batch base u8 h (ps_seq st) cmds = (rs1, fs1, h1)"
      by (cases "abs_batch base u8 h (ps_seq st) cmds")
    let ?st = "add_receipt st (cc_enqueue_ticket cmd) s q"
    have "ps_seq ?st = ps_seq st" "ps_index ?st = ps_index st" "ps_tx ?st = ps_tx st"
      by (simp_all add: add_receipt_def)
    then show ?thesis
      using Cons.IH [of ?st h rs1 fs1] Cons.prems b ref plan_one_refused(2) [OF Cons.prems(8) v ref]
      by (auto simp: Let_def add_receipt_def)
  next
    case app
    obtain d where d: "cmd_digest cmd = Inr d" using cmd_ok_digest [OF app(1) v] by blast
    have vf: "valid_frame (cmd_frame cmd (ps_seq st))" using cmd_ok_frame [OF app(1) v] Cons.prems(4,5) by simp
    let ?f = "frame_bytes key sc sg (cmd_frame cmd (ps_seq st))"
    define st1 where "st1 = add_receipt
      (st\<lparr>ps_frames := ps_frames st @ [?f], ps_hasher := ps_hasher st @ ?f, ps_byte_len := ps_byte_len st + length ?f,
        ps_index := snd (io_apply ops (ps_index st) (cc_fact_id cmd) (cc_fact_version cmd) (cc_op cmd) (cc_value cmd)),
        ps_tx := io_record ops (ps_tx st) (cc_operation_id cmd) d (ps_seq st), ps_seq := ps_seq st + 1\<rparr>)
      (cc_enqueue_ticket cmd) (Logged APPLIED) (Some (ps_seq st))"
    have one: "plan_one ops key sc sg base u8 cmd st = Inr st1"
      using plan_one_refused(3) [OF Cons.prems(8) v app] plan_apply_ok [OF vf Cons.prems(2,3)] d
      by (simp add: st1_def)
    have s1: "ps_seq st1 = ps_seq st + 1" "ps_frames st1 = ps_frames st @ [?f]" "ps_hasher st1 = ps_hasher st @ ?f"
      "ps_byte_len st1 = ps_byte_len st + length ?f"
      "ps_receipts st1 = ps_receipts st @ [PlannedReceipt (cc_enqueue_ticket cmd) (Logged APPLIED) (Some (ps_seq st))]"
      by (simp_all add: st1_def add_receipt_def)
    let ?h = "applied_history h cmd d (ps_seq st)"
    have i1: "binv (ps_index st1)" "tbinv (ps_tx st1)" "builder_reads ops (ps_index st1) (ps_tx st1) ?h"
      using builder_reads_applied [OF Cons.prems(6,7,8), of base cmd d "ps_seq st"] app(2) d Cons.prems(6,7)
      by (simp_all add: st1_def add_receipt_def w.app_inv t.rec_inv)
    obtain rs1 fs1 h1 where b: "abs_batch base u8 ?h (ps_seq st + 1) cmds = (rs1, fs1, h1)"
      by (cases "abs_batch base u8 ?h (ps_seq st + 1) cmds")
    have e: "rs = PlannedReceipt (cc_enqueue_ticket cmd) (Logged APPLIED) (Some (ps_seq st)) # rs1"
      "fs = cmd_frame cmd (ps_seq st) # fs1" "h' = h1"
      using Cons.prems(9) app b d by (simp_all add: applied_history_def)
    show ?thesis
      using Cons.IH [of st1 ?h rs1 fs1] Cons.prems(1-5) one i1 b s1 e by (auto simp: add.assoc)
  qed
qed

end

subsection \<open>The snapshot, the hasher and the file\<close>

text \<open>
  The state of a store whose log holds the frames \<open>fs\<close>: the hasher was fed exactly the file,
  and the snapshot reads as the replay of the frames from the history \<open>h0\<close> the store started
  with.
\<close>

definition head_of :: "bytes \<Rightarrow> seg_id \<Rightarrow> wframe list \<Rightarrow> wal_head" where
  "head_of key s fs = \<lparr>wh_scope_id = sg_scope s, wh_segment_id = sg_segment s, wh_first_seq = sg_first s,
     wh_durable_through_seq = next_seq_of s fs - 1, wh_byte_length = length (wal_image key s fs),
     wh_prefix_digest = sha256 (wal_image key s fs), wh_state = STATE_ACTIVE\<rparr>"

definition snapshot_ok ::
  "('w, 'wb, 't, 'tb) index_ops \<Rightarrow> bytes \<Rightarrow> seg_id \<Rightarrow> base_view \<Rightarrow> history \<Rightarrow> wframe list \<Rightarrow> history
     \<Rightarrow> ('w, 't) l0_snapshot \<Rightarrow> bytes \<Rightarrow> bool" where
  "snapshot_ok ops key s base h0 fs h snap hasher \<longleftrightarrow>
     seg_id_ok s \<and> frames_ok (sg_first s) fs \<and> hasher = wal_image key s fs \<and>
     abs_replay base h0 fs = Inr (Inr h) \<and> index_reads ops (ls_index snap) (ls_txindex snap) h \<and>
     ls_visible_through_seq snap = next_seq_of s fs - 1 \<and> ls_wal_head snap = head_of key s fs"

lemma wal_image_append: "wal_image key s (fs @ gs) = wal_image key s fs @ frames_bytes key (sg_scope s) (sg_segment s) gs"
  by (induction fs) (simp_all add: wal_image_def)

lemma next_seq_append: "next_seq_of s (fs @ gs) = next_seq_of s fs + int (length gs)"
  by (simp add: next_seq_of_def)

lemma sum_list_frames: "sum_list (map (length \<circ> frame_bytes key sc sg) fs) = length (frames_bytes key sc sg fs)"
  by (induction fs) simp_all

lemma concat_frames: "concat (map (frame_bytes key sc sg) fs) = frames_bytes key sc sg fs"
  by (induction fs) simp_all

text \<open>What the planning of a batch gives.\<close>

definition plan_extends ::
  "('w, 'wb, 't, 'tb) index_ops \<Rightarrow> bytes \<Rightarrow> seg_id \<Rightarrow> base_view \<Rightarrow> history \<Rightarrow> wframe list \<Rightarrow> wframe list \<Rightarrow> history
     \<Rightarrow> planned_receipt list \<Rightarrow> ('w, 't) batch_plan \<Rightarrow> bool" where
  "plan_extends ops key s base h0 fs gs h' rs plan \<longleftrightarrow>
     bp_receipts plan = rs \<and> concat (bp_frames plan) = frames_bytes key (sg_scope s) (sg_segment s) gs \<and>
     (bp_frames plan = [] \<longleftrightarrow> gs = []) \<and> bp_expected_first_seq plan = next_seq_of s fs \<and>
     bp_candidate_head plan = ls_wal_head (bp_candidate_snapshot plan) \<and>
     bp_byte_count plan = length (frames_bytes key (sg_scope s) (sg_segment s) gs) \<and>
     snapshot_ok ops key s base h0 (fs @ gs) h' (bp_candidate_snapshot plan) (bp_candidate_hasher plan)"

context l0_index
begin

lemma prepare_batch_extends:
  assumes s: "snapshot_ok ops key s base h0 fs h snap hasher" and i: "winv (ls_index snap)" "tinv (ls_txindex snap)"
    and c: "\<forall>c \<in> set cmds. version_fits u8 c" and q: "next_seq_of s fs + int (length cmds) \<le> MAX_SEQ"
    and b: "abs_batch base u8 h (next_seq_of s fs) cmds = (rs, gs, h')"
  shows "\<exists>plan. prepare_batch ops snap hasher cmds key (sg_scope s) (sg_segment s) base u8 = Inr plan \<and>
    plan_extends ops key s base h0 fs gs h' rs plan \<and>
    winv (ls_index (bp_candidate_snapshot plan)) \<and> tinv (ls_txindex (bp_candidate_snapshot plan))"
proof -
  note s' = s [unfolded snapshot_ok_def]
  have u: "u32 (sg_scope s)" "u32 (sg_segment s)" "0 \<le> next_seq_of s fs"
    using s' by (auto simp: seg_id_ok_def next_seq_of_def)
  have nx: "wh_durable_through_seq (ls_wal_head snap) + 1 = next_seq_of s fs" using s' by (simp add: head_of_def)
  let ?st = "\<lparr>ps_index = io_wal_begin ops (ls_index snap), ps_tx = io_tx_begin ops (ls_txindex snap),
    ps_seq = next_seq_of s fs, ps_frames = [], ps_receipts = [], ps_hasher = hasher,
    ps_byte_len = wh_byte_length (ls_wal_head snap)\<rparr>"
  have "builder_reads ops (ps_index ?st) (ps_tx ?st) h"
    using builder_reads_begin [OF i] s' by simp
  from plan_loop_refines [where st = ?st and key = key, OF c u(1,2) _ _ _ _ this, of base rs gs h'] u(3) q b
    begin_inv(1) [OF i(1)] begin_inv(2) [OF i(2)]
  obtain st' where l: "plan_loop ops key (sg_scope s) (sg_segment s) base u8 cmds ?st = Inr st'"
    and iv: "binv (ps_index st')" "tbinv (ps_tx st')" "builder_reads ops (ps_index st') (ps_tx st') h'"
    and st': "ps_receipts st' = rs" "ps_frames st' = map (frame_bytes key (sg_scope s) (sg_segment s)) gs"
      "ps_hasher st' = hasher @ frames_bytes key (sg_scope s) (sg_segment s) gs"
      "ps_byte_len st' = wh_byte_length (ls_wal_head snap) + length (frames_bytes key (sg_scope s) (sg_segment s) gs)"
      "ps_seq st' = next_seq_of s fs + int (length gs)"
    by auto
  have rp: "abs_replay base h gs = Inr (Inr h')" "frames_ok (next_seq_of s fs) gs"
    using abs_batch_replay [OF c u(3) q b] by simp_all
  have "abs_replay base h0 (fs @ gs) = Inr (Inr h')"
    using abs_replay_append [of base h0 fs h gs] s' rp(1) by simp
  moreover have "frames_ok (sg_first s) (fs @ gs)" using s' rp(2) by (simp add: next_seq_of_def)
  ultimately show ?thesis
    unfolding prepare_batch_def Let_def nx l sum.case
    using st' s' index_reads_freeze [OF iv] freeze_inv(1) [OF iv(1)] freeze_inv(2) [OF iv(2)]
    by (auto simp: plan_extends_def snapshot_ok_def head_of_def wal_image_append next_seq_append
        concat_frames sum_list_frames)
qed

end

text \<open>Writing a batch: the file grows by a part of its frames; all of them once it is durable.\<close>

lemma commit_prepared_file:
  assumes "commit_prepared file plan sc = (o', f')"
  shows "(\<exists>k. f' = file @ take k (concat (bp_frames plan))) \<and>
    (o' = Ret True \<longrightarrow> f' = file @ concat (bp_frames plan) \<and> bp_frames plan \<noteq> []) \<and>
    (o' = Ret False \<longleftrightarrow> bp_frames plan = []) \<and> (o' = Ret False \<longrightarrow> f' = file)"
proof (cases "bp_frames plan = []")
  case True
  then show ?thesis using assms by (auto simp: commit_prepared_def)
next
  case False
  obtain b e where w: "write_all None (concat (bp_frames plan)) (io_writes sc) = (b, e)" by fastforce
  from write_all_prefix [OF w] obtain k where k: "b = take k (concat (bp_frames plan))"
    "e = IoDone \<longrightarrow> b = concat (bp_frames plan)" by blast
  have "\<exists>k. concat (bp_frames plan) = take k (concat (bp_frames plan))"
    by (intro exI [of _ "length (concat (bp_frames plan))"]) simp
  then show ?thesis
    using assms False w k
    by (auto simp: commit_prepared_def Let_def split: io_end.splits option.splits bool.splits)
qed

text \<open>A command whose version does not fit the frame makes the planning raise.\<close>

lemma wide_version_raises:
  assumes "cmd_ok u8 cmd" "\<not> version_fits u8 cmd"
  shows "plan_one ops key sc sg base u8 cmd st = Inl StructError"
proof -
  have ge: "2 ^ 32 \<le> cc_fact_version cmd" using assms(2) by (simp add: version_fits_def)
  have pl: "\<exists>p. payload_of (cc_value cmd) = Some p" and oc: "op_code (cc_op cmd) \<noteq> None"
    using assms(1)
    by (cases "cc_op cmd"; auto simp: cmd_ok_def command_is_canonical_def payload_of_def split: if_splits option.splits)+
  have "content_digest (cc_op cmd) (cc_fact_id cmd) (cc_fact_version cmd) (cc_value cmd) = Inl StructError"
    using pl oc ge by (auto simp: content_digest_def split: option.splits)
  then show ?thesis
    using assms(1) by (auto simp: plan_one_def cmd_ok_def Let_def)
qed

lemma prepare_batch_raises:
  assumes "c \<in> set cmds" "cmd_ok u8 c" "\<not> version_fits u8 c"
  shows "\<exists>e. prepare_batch ops snap hasher cmds key sc sg base u8 = Inl e"
proof -
  have "\<exists>e. plan_loop ops key sc sg base u8 cmds st = Inl e" for st
    using assms(1)
    by (induction cmds arbitrary: st) (auto simp: wide_version_raises [OF assms(2,3)] split: sum.split)
  then show ?thesis by (auto simp: prepare_batch_def Let_def split: sum.split) (metis Inl_Inr_False)
qed

end
