(* ===== verification/GroupCommit.thy ===== *)
theory GroupCommit
  imports Batch Lease "HOL-Library.Multiset"
begin

section \<open>The group commit store (\<open>GroupCommitStore\<close> of \<open>horizon_batch.py\<close>)\<close>

text \<open>
  Many clients submit commands; one worker takes them from the queue in batches, plans, writes
  and syncs a batch, publishes the new snapshot and answers. Each operation under the lock of the
  store is one function on its state, and a worker turn is two: \<open>gc_claim\<close> (drain the queue
  under the lock) and \<open>gc_commit\<close> (plan, write, publish, answer). Submissions, cancellations and
  timeouts interleave between them. The thread is gone when an exception leaves
  \<open>_commit_batch\<close> (\<open>gs_worker_dead\<close>) or when the process is killed (\<open>gs_killed\<close>). This
  theory models the writer without a publication context; \<open>stats\<close> and telemetry are left out.
\<close>

record gc_limits =
  max_queue_commands :: nat
  max_queue_bytes :: nat
  max_batch_commands :: nat
  max_batch_bytes :: nat

definition default_gc_limits :: gc_limits where
  "default_gc_limits = \<lparr>max_queue_commands = 1024, max_queue_bytes = 2 ^ 20, max_batch_commands = 64,
     max_batch_bytes = 2 ^ 18\<rparr>"

datatype request_state = ADMITTED | CLAIMED | DONE

record request =
  rq_cmd :: commit_command
  rq_size :: nat
  rq_state :: request_state
  rq_status :: "request_status option"
  rq_wal_seq :: "int option"
  rq_cancelled :: bool

definition new_request :: "commit_command \<Rightarrow> nat \<Rightarrow> request" where
  "new_request cmd sz = \<lparr>rq_cmd = cmd, rq_size = sz, rq_state = ADMITTED, rq_status = None,
     rq_wal_seq = None, rq_cancelled = False\<rparr>"

definition rq_finish :: "request_status \<Rightarrow> int option \<Rightarrow> request \<Rightarrow> request" where
  "rq_finish status wal_seq r = r\<lparr>rq_status := Some status, rq_wal_seq := wal_seq, rq_state := DONE\<rparr>"

abbreviation rq_ticket :: "request \<Rightarrow> int" where
  "rq_ticket r \<equiv> cc_enqueue_ticket (rq_cmd r)"

text \<open>
  Ghost state: \<open>gs_durable\<close> (the bytes the last fsync covered), \<open>gs_finished\<close> (the requests
  that were answered), \<open>gs_withdrawn\<close> (the tickets a timeout or a cancel answered before they
  were claimed), \<open>gs_log\<close> (the frames handed to the disk, each with its ticket) and
  \<open>gs_published\<close> (how many of them a snapshot shows).
\<close>

record ('w, 't) gc_store =
  gs_key :: bytes
  gs_scope_id :: int
  gs_segment_id :: int
  gs_key_id :: int
  gs_prev_digest :: bytes
  gs_limits :: gc_limits
  gs_file :: bytes
  gs_hasher :: bytes
  gs_snapshot :: "('w, 't) l0_snapshot"
  gs_base :: base_view
  gs_u8_domain :: bool
  gs_queue :: "request list"
  gs_queue_bytes :: nat
  gs_ticket :: nat
  gs_poisoned :: bool
  gs_stop :: bool
  gs_rotating :: bool
  gs_fd_open :: bool
  gs_lease :: "scope_lease option"
  gs_inflight :: "request list option"
  gs_worker_dead :: bool
  gs_killed :: bool
  gs_durable :: nat
  gs_finished :: "request list"
  gs_withdrawn :: "int list"
  gs_log :: "(int \<times> wframe) list"
  gs_published :: nat

subsection \<open>Booting\<close>

text \<open>\<open>_pow2_bits\<close>; \<open>None\<close> is the \<open>ValueError\<close>.\<close>

fun bit_length :: "nat \<Rightarrow> nat" where
  "bit_length n = (if n = 0 then 0 else Suc (bit_length (n div 2)))"

declare bit_length.simps [simp del]

definition pow2_bits :: "nat \<Rightarrow> nat option" where
  "pow2_bits n = (if n < 2 \<or> and n (n - 1) \<noteq> 0 then None else Some (bit_length n - 1))"

definition gc_boot ::
  "bytes \<Rightarrow> int \<Rightarrow> int \<Rightarrow> bytes \<Rightarrow> nat \<Rightarrow> ('w, 't) l0_snapshot \<Rightarrow> bytes \<Rightarrow> gc_limits \<Rightarrow> base_view option \<Rightarrow> int \<Rightarrow> bytes
     \<Rightarrow> bool \<Rightarrow> ('w, 't) gc_store" where
  "gc_boot key scope_id segment_id file durable snapshot hasher limits base key_id prev u8_domain =
     \<lparr>gs_key = key, gs_scope_id = scope_id, gs_segment_id = segment_id, gs_key_id = key_id,
      gs_prev_digest = prev, gs_limits = limits, gs_file = file, gs_hasher = hasher,
      gs_snapshot = snapshot, gs_base = (case base of None \<Rightarrow> EmptyBaseView | Some b \<Rightarrow> b),
      gs_u8_domain = u8_domain, gs_queue = [], gs_queue_bytes = 0, gs_ticket = 0, gs_poisoned = False,
      gs_stop = False, gs_rotating = False, gs_fd_open = True, gs_lease = None, gs_inflight = None,
      gs_worker_dead = False, gs_killed = False, gs_durable = durable, gs_finished = [],
      gs_withdrawn = [], gs_log = [], gs_published = 0\<rparr>"

text \<open>The constructor: \<open>O_EXCL\<close>, the header, an fsync.\<close>

definition gc_create ::
  "('w, 'wb, 't, 'tb) index_ops \<Rightarrow> bytes option \<Rightarrow> bytes \<Rightarrow> int \<Rightarrow> int \<Rightarrow> int \<Rightarrow> gc_limits \<Rightarrow> base_view option \<Rightarrow> int
     \<Rightarrow> bytes \<Rightarrow> io_script \<Rightarrow> ('w, 't) gc_store out \<times> bytes option" where
  "gc_create ops existing key scope_id segment_id first_seq limits base key_id prev sc =
     (case existing of
        Some b \<Rightarrow> (Raise OSError, Some b)
      | None \<Rightarrow>
          (case encode_segment_header key scope_id segment_id first_seq key_id STATE_ACTIVE prev of
             None \<Rightarrow> (Raise StructError, Some [])
           | Some header \<Rightarrow>
               (let (b, e) = write_all None header (io_writes sc)
                in case e of
                     IoRaise x \<Rightarrow> (Raise x, Some b)
                   | IoKilled \<Rightarrow> (Killed, Some b)
                   | IoDone \<Rightarrow>
                       (case io_fsync sc of
                          None \<Rightarrow> (Killed, Some b)
                        | Some False \<Rightarrow> (Raise OSError, Some b)
                        | Some True \<Rightarrow>
                            (let head = \<lparr>wh_scope_id = scope_id, wh_segment_id = segment_id,
                                   wh_first_seq = first_seq, wh_durable_through_seq = first_seq - 1,
                                   wh_byte_length = length header, wh_prefix_digest = sha256 header,
                                   wh_state = STATE_ACTIVE\<rparr>
                             in (Ret (gc_boot key scope_id segment_id b (length b)
                                   \<lparr>ls_index = io_wal_new ops, ls_txindex = io_tx_new ops,
                                    ls_visible_through_seq = first_seq - 1, ls_wal_head = head\<rparr>
                                   header limits base key_id prev False), Some b))))))"

text \<open>\<open>resume_existing\<close>, on the bytes of a file of which \<open>durable\<close> survive a power loss.\<close>

definition gc_resume ::
  "('w, 'wb, 't, 'tb) index_ops \<Rightarrow> bytes \<Rightarrow> nat \<Rightarrow> bytes \<Rightarrow> int \<Rightarrow> int \<Rightarrow> gc_limits \<Rightarrow> base_view option
     \<Rightarrow> int option \<Rightarrow> bytes option \<Rightarrow> rexn + ('w, 't) gc_store" where
  "gc_resume ops blob durable key scope_id segment_id limits base expected_key_id expected_prev =
     (let sr = scan (Some blob) key True scope_id segment_id None
      in if sr_sealed sr then Inl (LogExn WalError)
         else if sr_class sr \<notin> {CLEAN, TAIL_DROPPED} then Inl (LogExn WalError)
         else
           (case sr_header sr of
              None \<Rightarrow> Inl (LogExn WalError)
            | Some h \<Rightarrow>
                if expected_key_id \<noteq> None \<and> expected_key_id \<noteq> Some (whi_key_id h) then Inl (LogExn WalError)
                else if expected_prev \<noteq> None \<and> expected_prev \<noteq> Some (whi_prev_digest h)
                  then Inl (LogExn WalError)
                else
                  (let first_seq = whi_first_seq h
                   in case reduce_frames ops (sr_frames sr) None base (first_seq - 1) of
                        Inl e \<Rightarrow> Inl e
                      | Inr rr \<Rightarrow>
                          if rr_class rr \<noteq> REDUCE_OK then Inl (LogExn WalError)
                          else
                            (let prefix = take (sr_consumed sr) blob;
                                 file = (if sr_class sr = TAIL_DROPPED then prefix else blob);
                                 head = \<lparr>wh_scope_id = scope_id, wh_segment_id = segment_id,
                                   wh_first_seq = first_seq, wh_durable_through_seq = rr_applied_seq rr,
                                   wh_byte_length = sr_consumed sr, wh_prefix_digest = sha256 prefix,
                                   wh_state = STATE_ACTIVE\<rparr>
                             in Inr (gc_boot key scope_id segment_id file
                                   (if sr_class sr = TAIL_DROPPED then length file else durable)
                                   \<lparr>ls_index = rr_index rr, ls_txindex = rr_txindex rr,
                                    ls_visible_through_seq = rr_applied_seq rr, ls_wal_head = head\<rparr>
                                   prefix limits base (whi_key_id h) (whi_prev_digest h) False)))))"

subsection \<open>The clients\<close>

definition gc_submit ::
  "('w, 't) gc_store \<Rightarrow> opk \<Rightarrow> int \<Rightarrow> int \<Rightarrow> int option \<Rightarrow> bytes \<Rightarrow> request \<times> ('w, 't) gc_store" where
  "gc_submit st op fact_id fact_version value operation_id =
     (let sz = (76 :: nat) + (if value \<noteq> None then 4 else 0);
          cmd = (\<lambda>t. \<lparr>cc_operation_id = operation_id, cc_op = op, cc_fact_id = fact_id,
                       cc_fact_version = fact_version, cc_value = value, cc_enqueue_ticket = t\<rparr>);
          instant = (\<lambda>s. rq_finish s None (new_request (cmd (-1)) sz))
      in if gs_poisoned st \<or> gs_stop st then (instant NOT_ACCEPTED, st)
         else if sz > max_batch_bytes (gs_limits st) then (instant OVERLOADED, st)
         else if length (gs_queue st) \<ge> max_queue_commands (gs_limits st)
           \<or> gs_queue_bytes st + sz > max_queue_bytes (gs_limits st) then (instant OVERLOADED, st)
         else
           (let req = new_request (cmd (int (gs_ticket st + 1))) sz
            in (req, st\<lparr>gs_ticket := gs_ticket st + 1, gs_queue := gs_queue st @ [req],
                        gs_queue_bytes := gs_queue_bytes st + sz\<rparr>)))"

text \<open>Setting \<open>cancelled\<close> on the queued request with this ticket.\<close>

definition withdraw :: "int \<Rightarrow> ('w, 't) gc_store \<Rightarrow> ('w, 't) gc_store" where
  "withdraw t st =
     st\<lparr>gs_queue := map (\<lambda>r. if rq_ticket r = t then r\<lparr>rq_cancelled := True\<rparr> else r) (gs_queue st),
        gs_withdrawn := t # gs_withdrawn st\<rparr>"

definition queued :: "int \<Rightarrow> ('w, 't) gc_store \<Rightarrow> bool" where
  "queued t st \<longleftrightarrow> t \<in> rq_ticket ` set (gs_queue st)"

definition gc_cancel :: "('w, 't) gc_store \<Rightarrow> int \<Rightarrow> bool \<times> ('w, 't) gc_store" where
  "gc_cancel st t = (if queued t st then (True, withdraw t st) else (False, st))"

text \<open>\<open>_resolve\<close> of an admitted request once its wait has timed out: a request that is done
  answers, a queued one is withdrawn, a claimed one is uncertain.\<close>

definition gc_resolve ::
  "('w, 't) gc_store \<Rightarrow> int \<Rightarrow> (request_status \<times> int option) \<times> ('w, 't) gc_store" where
  "gc_resolve st t =
     (case find (\<lambda>r. rq_ticket r = t) (gs_finished st) of
        Some r \<Rightarrow> ((the (rq_status r), rq_wal_seq r), st)
      | None \<Rightarrow>
          if queued t st then ((NOT_ACCEPTED, None), withdraw t st)
          else ((COMMIT_UNKNOWN, None), st))"

subsection \<open>The worker\<close>

text \<open>\<open>_drain_locked\<close>: the batch, what stays queued (and its bytes), and the cancelled requests
  that were answered on the way.\<close>

fun drain_loop ::
  "gc_limits \<Rightarrow> request list \<Rightarrow> nat \<Rightarrow> request list \<Rightarrow> nat \<Rightarrow> request list
     \<Rightarrow> request list \<times> request list \<times> nat \<times> request list" where
  "drain_loop lim [] qb batch bytes fin = (batch, [], qb, fin)"
| "drain_loop lim (r # q) qb batch bytes fin =
     (if length batch \<ge> max_batch_commands lim then (batch, r # q, qb, fin)
      else if rq_cancelled r
        then drain_loop lim q (qb - rq_size r) batch bytes (fin @ [rq_finish NOT_ACCEPTED None r])
      else if batch \<noteq> [] \<and> bytes + rq_size r > max_batch_bytes lim then (batch, r # q, qb, fin)
      else drain_loop lim q (qb - rq_size r) (batch @ [r\<lparr>rq_state := CLAIMED\<rparr>]) (bytes + rq_size r) fin)"

definition gc_claim :: "('w, 't) gc_store \<Rightarrow> ('w, 't) gc_store" where
  "gc_claim st =
     (let (batch, q, qb, fin) = drain_loop (gs_limits st) (gs_queue st) (gs_queue_bytes st) [] 0 []
      in st\<lparr>gs_queue := q, gs_queue_bytes := qb, gs_finished := gs_finished st @ fin,
            gs_inflight := (if batch = [] then None else Some batch)\<rparr>)"

definition release_lease :: "('w, 't) gc_store \<Rightarrow> ('w, 't) gc_store" where
  "release_lease st = st\<lparr>gs_lease := None\<rparr>"

text \<open>\<open>_poison_locked_then_finish\<close> and \<open>_poison_pre_wal\<close> answer the batch with a status.\<close>

definition gc_poison :: "request_status \<Rightarrow> request list \<Rightarrow> ('w, 't) gc_store \<Rightarrow> ('w, 't) gc_store" where
  "gc_poison status batch st =
     release_lease (st\<lparr>gs_poisoned := True, gs_stop := True, gs_queue := [], gs_queue_bytes := 0,
       gs_inflight := None,
       gs_finished := gs_finished st @ map (rq_finish status None) batch
         @ map (rq_finish NOT_ACCEPTED None) (gs_queue st)\<rparr>)"

text \<open>\<open>by_ticket\<close>, the last receipt of a ticket; \<open>None\<close> is a \<open>KeyError\<close>.\<close>

definition receipt_of :: "planned_receipt list \<Rightarrow> int \<Rightarrow> planned_receipt option" where
  "receipt_of rs t = map_of (rev (map (\<lambda>r. (pr_ticket r, r)) rs)) t"

fun finish_receipts :: "planned_receipt list \<Rightarrow> request list \<Rightarrow> request list option" where
  "finish_receipts rs [] = Some []"
| "finish_receipts rs (r # batch) =
     (case receipt_of rs (rq_ticket r) of
        None \<Rightarrow> None
      | Some rc \<Rightarrow> map_option ((#) (rq_finish (pr_status rc) (pr_wal_seq rc) r)) (finish_receipts rs batch))"

text \<open>The frames of a plan with the tickets of their receipts (ghost).\<close>

definition plan_log :: "commit_command list \<Rightarrow> planned_receipt list \<Rightarrow> (int \<times> wframe) list" where
  "plan_log cmds rs = map (\<lambda>(c, r). (pr_ticket r, cmd_frame c (the (pr_wal_seq r))))
     (filter (\<lambda>(c, r). pr_status r = Logged APPLIED) (zip cmds rs))"

definition gc_written :: "bytes \<Rightarrow> commit_command list \<Rightarrow> ('w, 't) batch_plan \<Rightarrow> ('w, 't) gc_store \<Rightarrow> ('w, 't) gc_store" where
  "gc_written fl cmds plan st =
     st\<lparr>gs_file := fl, gs_log := gs_log st @ plan_log cmds (bp_receipts plan)\<rparr>"

text \<open>The swap of the published state, only after a durable write.\<close>

definition gc_swap :: "bool \<Rightarrow> ('w, 't) batch_plan \<Rightarrow> ('w, 't) gc_store \<Rightarrow> ('w, 't) gc_store" where
  "gc_swap durable plan st =
     (if durable
      then st\<lparr>gs_durable := length (gs_file st), gs_snapshot := bp_candidate_snapshot plan,
              gs_hasher := bp_candidate_hasher plan, gs_published := length (gs_log st)\<rparr>
      else st)"

definition gc_answer :: "request list option \<Rightarrow> ('w, 't) gc_store \<Rightarrow> ('w, 't) gc_store" where
  "gc_answer answers st =
     (case answers of
        None \<Rightarrow> st\<lparr>gs_worker_dead := True\<rparr>
      | Some ds \<Rightarrow> st\<lparr>gs_inflight := None, gs_finished := gs_finished st @ ds\<rparr>)"

definition gc_plan :: "('w, 'wb, 't, 'tb) index_ops \<Rightarrow> ('w, 't) gc_store \<Rightarrow> request list \<Rightarrow> exn + ('w, 't) batch_plan" where
  "gc_plan ops st batch =
     prepare_batch ops (gs_snapshot st) (gs_hasher st) (map rq_cmd batch) (gs_key st) (gs_scope_id st)
       (gs_segment_id st) (gs_base st) (gs_u8_domain st)"

definition gc_commit ::
  "('w, 'wb, 't, 'tb) index_ops \<Rightarrow> ('w, 't) gc_store \<Rightarrow> request list \<Rightarrow> io_script \<Rightarrow> ('w, 't) gc_store" where
  "gc_commit ops st batch sc =
     (case gc_plan ops st batch of
        Inl e \<Rightarrow> st\<lparr>gs_worker_dead := True\<rparr>
      | Inr plan \<Rightarrow>
          (case commit_prepared (gs_file st) plan sc of
             (Killed, fl) \<Rightarrow> (gc_written fl (map rq_cmd batch) plan st)\<lparr>gs_killed := True\<rparr>
           | (Raise e, fl) \<Rightarrow> gc_poison COMMIT_UNKNOWN batch (gc_written fl (map rq_cmd batch) plan st)
           | (Ret durable, fl) \<Rightarrow>
               gc_answer (finish_receipts (bp_receipts plan) batch)
                 (gc_swap durable plan (gc_written fl (map rq_cmd batch) plan st))))"

subsection \<open>Fencing and shutting down\<close>

text \<open>
  The waiting operations are two functions each: what they do under the lock, and what they do
  once \<open>join\<close> returned. The worker is alive until it leaves its loop (stopped, queue empty,
  nothing in flight) or dies.
\<close>

definition worker_alive :: "('w, 't) gc_store \<Rightarrow> bool" where
  "worker_alive st \<longleftrightarrow> \<not> gs_worker_dead st \<and> \<not> (gs_stop st \<and> gs_queue st = [] \<and> gs_inflight st = None)"

datatype shutdown_exn = ShutdownTimeout | FenceWalError

definition gc_stop :: "('w, 't) gc_store \<Rightarrow> ('w, 't) gc_store" where
  "gc_stop st = st\<lparr>gs_stop := True\<rparr>"

definition gc_close_joined :: "('w, 't) gc_store \<Rightarrow> shutdown_exn + ('w, 't) gc_store" where
  "gc_close_joined st =
     (if worker_alive st then Inl ShutdownTimeout else Inr (release_lease (st\<lparr>gs_fd_open := False\<rparr>)))"

text \<open>The first section of \<open>fence_and_drain\<close> and \<open>begin_compaction\<close>.\<close>

definition gc_fence :: "('w, 't) gc_store \<Rightarrow> shutdown_exn + ('w, 't) gc_store" where
  "gc_fence st =
     (if gs_poisoned st then Inl FenceWalError else Inr (st\<lparr>gs_rotating := True, gs_stop := True\<rparr>))"

definition gc_drained :: "('w, 't) gc_store \<Rightarrow> shutdown_exn + (('w, 't) l0_snapshot \<times> ('w, 't) gc_store)" where
  "gc_drained st =
     (if worker_alive st then Inl ShutdownTimeout
      else if gs_poisoned st then Inl FenceWalError
      else Inr (gs_snapshot st, st\<lparr>gs_fd_open := False\<rparr>))"

text \<open>The first section of \<open>begin_rotation\<close>: \<open>None\<close> is \<open>ROTATION_NOT_NEEDED\<close>.\<close>

definition gc_begin_rotation :: "('w, 't) gc_store \<Rightarrow> shutdown_exn + ('w, 't) gc_store option" where
  "gc_begin_rotation st =
     (if gs_poisoned st then Inl FenceWalError
      else
        (let head = ls_wal_head (gs_snapshot st)
         in if wh_durable_through_seq head < wh_first_seq head \<and> gs_queue st = [] then Inr None
            else Inr (Some (st\<lparr>gs_rotating := True, gs_stop := True\<rparr>))))"

text \<open>The last section of \<open>begin_rotation\<close> and \<open>begin_compaction\<close>: the lease is detached and
  handed to the new owner; an illegal edge of the lease raises.\<close>

definition gc_detach ::
  "lease_state \<Rightarrow> scope_locks \<Rightarrow> ('w, 't) gc_store
     \<Rightarrow> shutdown_exn + (('w, 't) l0_snapshot \<times> scope_lease option \<times> ('w, 't) gc_store)" where
  "gc_detach owner held st =
     (case gc_drained st of
        Inl e \<Rightarrow> Inl e
      | Inr (snap, st') \<Rightarrow>
          (case gs_lease st' of
             None \<Rightarrow> Inr (snap, None, st')
           | Some l \<Rightarrow>
               (case lease_transfer l owner held of
                  None \<Rightarrow> Inl FenceWalError
                | Some (l', _) \<Rightarrow> Inr (snap, Some l', st'\<lparr>gs_lease := None\<rparr>))))"

definition gc_await_fenced :: "('w, 't) gc_store \<Rightarrow> bool \<times> ('w, 't) gc_store" where
  "gc_await_fenced st = (if worker_alive st then (False, st) else (True, st\<lparr>gs_fd_open := False\<rparr>))"

subsection \<open>The steps of the system\<close>

definition seq_room :: "('w, 't) gc_store \<Rightarrow> bool" where
  "seq_room st \<longleftrightarrow> (case gs_inflight st of None \<Rightarrow> True
     | Some batch \<Rightarrow> wh_durable_through_seq (ls_wal_head (gs_snapshot st)) + 1 + int (length batch) \<le> MAX_SEQ)"

inductive gc_step :: "('w, 'wb, 't, 'tb) index_ops \<Rightarrow> ('w, 't) gc_store \<Rightarrow> ('w, 't) gc_store \<Rightarrow> bool"
  for ops :: "('w, 'wb, 't, 'tb) index_ops" where
  gstep_submit: "\<not> gs_killed st \<Longrightarrow> gc_submit st op fid ver v oid = (r, st') \<Longrightarrow> gc_step ops st st'"
| gstep_cancel: "\<not> gs_killed st \<Longrightarrow> gc_cancel st t = (b, st') \<Longrightarrow> gc_step ops st st'"
| gstep_timeout: "\<not> gs_killed st \<Longrightarrow> gc_resolve st t = (a, st') \<Longrightarrow> gc_step ops st st'"
| gstep_stop: "\<not> gs_killed st \<Longrightarrow> gc_step ops st (gc_stop st)"
| gstep_fence: "\<not> gs_killed st \<Longrightarrow> gc_fence st = Inr st' \<Longrightarrow> gc_step ops st st'"
| gstep_claim: "\<not> gs_killed st \<Longrightarrow> \<not> gs_worker_dead st \<Longrightarrow> gs_inflight st = None \<Longrightarrow> gs_queue st \<noteq> [] \<Longrightarrow>
    gc_step ops st (gc_claim st)"
| gstep_commit: "\<not> gs_killed st \<Longrightarrow> \<not> gs_worker_dead st \<Longrightarrow> gs_inflight st = Some batch \<Longrightarrow> seq_room st \<Longrightarrow>
    gc_step ops st (gc_commit ops st batch sc)"
| gstep_kill: "gc_step ops st (st\<lparr>gs_killed := True\<rparr>)"

inductive gc_run :: "('w, 'wb, 't, 'tb) index_ops \<Rightarrow> ('w, 't) gc_store \<Rightarrow> ('w, 't) gc_store \<Rightarrow> bool"
  for ops :: "('w, 'wb, 't, 'tb) index_ops" where
  grun_refl: "gc_run ops st st"
| grun_step: "gc_run ops st st' \<Longrightarrow> gc_step ops st' st'' \<Longrightarrow> gc_run ops st st''"

subsection \<open>Draining the queue\<close>

lemma rq_ticket_simps [simp]:
  "rq_ticket (rq_finish s q r) = rq_ticket r" "rq_ticket (r\<lparr>rq_state := x\<rparr>) = rq_ticket r"
  "rq_ticket (r\<lparr>rq_cancelled := c\<rparr>) = rq_ticket r" "rq_ticket (new_request cmd n) = cc_enqueue_ticket cmd"
  "rq_status (rq_finish s q r) = Some s" "rq_wal_seq (rq_finish s q r) = q" "rq_state (rq_finish s q r) = DONE"
  "rq_cmd (rq_finish s q r) = rq_cmd r" "rq_size (rq_finish s q r) = rq_size r"
  by (simp_all add: rq_finish_def new_request_def)

abbreviation claim :: "request \<Rightarrow> request" where
  "claim r \<equiv> r\<lparr>rq_state := CLAIMED\<rparr>"

lemma drain_loop_spec:
  "drain_loop lim q qb batch bytes fin = (b', q', qb', fin') \<Longrightarrow>
   \<exists>pre. q = pre @ q' \<and> b' = batch @ map claim (filter (\<lambda>r. \<not> rq_cancelled r) pre) \<and>
     fin' = fin @ map (rq_finish NOT_ACCEPTED None) (filter rq_cancelled pre) \<and>
     qb' = qb - sum_list (map rq_size pre) \<and>
     (length batch \<le> max_batch_commands lim \<longrightarrow> length b' \<le> max_batch_commands lim) \<and>
     (bytes \<le> max_batch_bytes lim \<and> (\<forall>r \<in> set q. rq_size r \<le> max_batch_bytes lim) \<and> (batch = [] \<longrightarrow> bytes = 0) \<longrightarrow>
       bytes + sum_list (map rq_size (filter (\<lambda>r. \<not> rq_cancelled r) pre)) \<le> max_batch_bytes lim)"
proof (induction lim q qb batch bytes fin rule: drain_loop.induct)
  case (1 lim qb batch bytes fin)
  then show ?case by simp
next
  case (2 lim r q qb batch bytes fin)
  consider (full) "length batch \<ge> max_batch_commands lim"
    | (canc) "\<not> length batch \<ge> max_batch_commands lim" "rq_cancelled r"
    | (over) "\<not> length batch \<ge> max_batch_commands lim" "\<not> rq_cancelled r"
        "batch \<noteq> []" "bytes + rq_size r > max_batch_bytes lim"
    | (take) "\<not> length batch \<ge> max_batch_commands lim" "\<not> rq_cancelled r"
        "\<not> (batch \<noteq> [] \<and> bytes + rq_size r > max_batch_bytes lim)"
    by blast
  then show ?case
  proof cases
    case full
    then show ?thesis using 2(3) by (intro exI [of _ "[]"]) auto
  next
    case canc
    have "drain_loop lim q (qb - rq_size r) batch bytes (fin @ [rq_finish NOT_ACCEPTED None r]) = (b', q', qb', fin')"
      using 2(3) canc by simp
    from 2(1) [OF canc this] obtain pre where p: "q = pre @ q' \<and> b' = batch @ map claim (filter (\<lambda>r. \<not> rq_cancelled r) pre) \<and>
     fin' = (fin @ [rq_finish NOT_ACCEPTED None r]) @ map (rq_finish NOT_ACCEPTED None) (filter rq_cancelled pre) \<and>
     qb' = qb - rq_size r - sum_list (map rq_size pre) \<and>
     (length batch \<le> max_batch_commands lim \<longrightarrow> length b' \<le> max_batch_commands lim) \<and>
     (bytes \<le> max_batch_bytes lim \<and> (\<forall>r \<in> set q. rq_size r \<le> max_batch_bytes lim) \<and> (batch = [] \<longrightarrow> bytes = 0) \<longrightarrow>
       bytes + sum_list (map rq_size (filter (\<lambda>r. \<not> rq_cancelled r) pre)) \<le> max_batch_bytes lim)" ..
    then show ?thesis using canc by (elim conjE, intro exI [of _ "r # pre"]) simp
  next
    case over
    then show ?thesis using 2(3) by (intro exI [of _ "[]"]) auto
  next
    case take
    have "drain_loop lim q (qb - rq_size r) (batch @ [claim r]) (bytes + rq_size r) fin = (b', q', qb', fin')"
      using 2(3) take by auto
    from 2(2) [OF take this] obtain pre where p: "q = pre @ q' \<and>
     b' = (batch @ [claim r]) @ map claim (filter (\<lambda>r. \<not> rq_cancelled r) pre) \<and>
     fin' = fin @ map (rq_finish NOT_ACCEPTED None) (filter rq_cancelled pre) \<and>
     qb' = qb - rq_size r - sum_list (map rq_size pre) \<and>
     (length (batch @ [claim r]) \<le> max_batch_commands lim \<longrightarrow> length b' \<le> max_batch_commands lim) \<and>
     (bytes + rq_size r \<le> max_batch_bytes lim \<and> (\<forall>r \<in> set q. rq_size r \<le> max_batch_bytes lim) \<and>
       (batch @ [claim r] = [] \<longrightarrow> bytes + rq_size r = 0) \<longrightarrow>
       bytes + rq_size r + sum_list (map rq_size (filter (\<lambda>r. \<not> rq_cancelled r) pre)) \<le> max_batch_bytes lim)" ..
    have "bytes \<le> max_batch_bytes lim \<and> (\<forall>x \<in> set (r # q). rq_size x \<le> max_batch_bytes lim) \<and> (batch = [] \<longrightarrow> bytes = 0) \<Longrightarrow>
      bytes + rq_size r \<le> max_batch_bytes lim"
      using take(3) by (cases "batch = []") auto
    then show ?thesis using p take by (elim conjE, intro exI [of _ "r # pre"]) (simp add: add.assoc)
  qed
qed

subsection \<open>Every admitted request is answered once, in order\<close>

definition inflight :: "('w, 't) gc_store \<Rightarrow> request list" where
  "inflight st = (case gs_inflight st of None \<Rightarrow> [] | Some b \<Rightarrow> b)"

definition tickets_upto :: "nat \<Rightarrow> int list" where
  "tickets_upto n = map int [1..<Suc n]"

lemma tickets_upto_Suc: "tickets_upto (Suc n) = tickets_upto n @ [int (Suc n)]"
  by (simp add: tickets_upto_def)

lemma set_tickets_upto: "set (tickets_upto n) = {1..int n}"
  by (induction n) (auto simp: tickets_upto_Suc simp: tickets_upto_def [of 0])

lemma distinct_tickets_upto: "distinct (tickets_upto n)"
  by (simp add: tickets_upto_def distinct_map inj_on_def del: upt_Suc)

lemma inflight_simps [simp]:
  "inflight (st\<lparr>gs_ticket := a\<rparr>) = inflight st" "inflight (st\<lparr>gs_queue := b\<rparr>) = inflight st"
  "inflight (st\<lparr>gs_queue_bytes := a\<rparr>) = inflight st" "inflight (st\<lparr>gs_withdrawn := c\<rparr>) = inflight st"
  "inflight (st\<lparr>gs_finished := b\<rparr>) = inflight st" "inflight (st\<lparr>gs_stop := d\<rparr>) = inflight st"
  "inflight (st\<lparr>gs_inflight := Some b\<rparr>) = b" "inflight (st\<lparr>gs_inflight := None\<rparr>) = []"
  by (simp_all add: inflight_def)

text \<open>The tickets from 1 on, each exactly once among the answered, the claimed and the queued.\<close>

definition gc_tickets :: "('w, 't) gc_store \<Rightarrow> bool" where
  "gc_tickets st \<longleftrightarrow>
     mset (map rq_ticket (gs_finished st)) + mset (map rq_ticket (inflight st)) + mset (map rq_ticket (gs_queue st))
       = mset (tickets_upto (gs_ticket st))"

definition gc_fifo :: "('w, 't) gc_store \<Rightarrow> bool" where
  "gc_fifo st \<longleftrightarrow> sorted_wrt (<) (map rq_ticket (inflight st @ gs_queue st))"

definition gc_states :: "('w, 't) gc_store \<Rightarrow> bool" where
  "gc_states st \<longleftrightarrow> (\<forall>r \<in> set (gs_queue st). rq_state r = ADMITTED) \<and>
     (\<forall>r \<in> set (inflight st). rq_state r = CLAIMED \<and> \<not> rq_cancelled r) \<and>
     (\<forall>r \<in> set (gs_finished st). rq_state r = DONE \<and> rq_status r \<noteq> None)"

definition gc_bounds :: "('w, 't) gc_store \<Rightarrow> bool" where
  "gc_bounds st \<longleftrightarrow> gs_queue_bytes st = sum_list (map rq_size (gs_queue st)) \<and>
     length (gs_queue st) \<le> max_queue_commands (gs_limits st) \<and>
     gs_queue_bytes st \<le> max_queue_bytes (gs_limits st) \<and>
     (\<forall>r \<in> set (gs_queue st). rq_size r \<le> max_batch_bytes (gs_limits st)) \<and>
     length (inflight st) \<le> max_batch_commands (gs_limits st) \<and>
     sum_list (map rq_size (inflight st)) \<le> max_batch_bytes (gs_limits st)"

definition gc_withdrawals :: "('w, 't) gc_store \<Rightarrow> bool" where
  "gc_withdrawals st \<longleftrightarrow> (\<forall>t \<in> set (gs_withdrawn st).
     (\<exists>r \<in> set (gs_queue st). rq_ticket r = t \<and> rq_cancelled r) \<or>
     (\<exists>r \<in> set (gs_finished st). rq_ticket r = t \<and> rq_status r = Some NOT_ACCEPTED))"

definition gc_wf :: "('w, 't) gc_store \<Rightarrow> bool" where
  "gc_wf st \<longleftrightarrow> gc_tickets st \<and> gc_fifo st \<and> gc_states st \<and> gc_bounds st \<and> gc_withdrawals st"

lemmas gc_wf_defs = gc_wf_def gc_tickets_def gc_fifo_def gc_states_def gc_bounds_def gc_withdrawals_def

lemma gc_tickets_range:
  assumes "gc_tickets st"
  shows "rq_ticket ` (set (gs_finished st) \<union> set (inflight st) \<union> set (gs_queue st)) = {1..int (gs_ticket st)}"
    "distinct (map rq_ticket (gs_finished st @ inflight st @ gs_queue st))"
proof -
  have m: "mset (map rq_ticket (gs_finished st @ inflight st @ gs_queue st)) = mset (tickets_upto (gs_ticket st))"
    using assms by (simp add: gc_tickets_def add.assoc)
  show "rq_ticket ` (set (gs_finished st) \<union> set (inflight st) \<union> set (gs_queue st)) = {1..int (gs_ticket st)}"
    using mset_eq_setD [OF m] by (simp only: set_map set_append image_Un Un_assoc set_tickets_upto)
  show "distinct (map rq_ticket (gs_finished st @ inflight st @ gs_queue st))"
    using mset_eq_imp_distinct_iff [OF m] distinct_tickets_upto by blast
qed

text \<open>Updates of fields the invariant does not read.\<close>

lemma gc_wf_updates [simp]:
  "gc_wf (st\<lparr>gs_worker_dead := a\<rparr>) = gc_wf st" "gc_wf (st\<lparr>gs_killed := a\<rparr>) = gc_wf st"
  "gc_wf (st\<lparr>gs_stop := a\<rparr>) = gc_wf st" "gc_wf (st\<lparr>gs_rotating := a\<rparr>) = gc_wf st"
  "gc_wf (st\<lparr>gs_file := b\<rparr>) = gc_wf st" "gc_wf (st\<lparr>gs_log := c\<rparr>) = gc_wf st"
  "gc_wf (st\<lparr>gs_durable := n\<rparr>) = gc_wf st" "gc_wf (st\<lparr>gs_snapshot := p\<rparr>) = gc_wf st"
  "gc_wf (st\<lparr>gs_hasher := b\<rparr>) = gc_wf st" "gc_wf (st\<lparr>gs_published := n\<rparr>) = gc_wf st"
  by (simp_all add: gc_wf_defs inflight_def)

lemma gc_submit_wf:
  assumes "gc_wf st" "gc_submit st op fid ver v oid = (r, st')"
  shows "gc_wf st'"
proof (cases "st' = st")
  case False
  then obtain cmd n where r: "r = new_request cmd n" "cc_enqueue_ticket cmd = int (gs_ticket st + 1)"
    and b: "n \<le> max_batch_bytes (gs_limits st)" "length (gs_queue st) < max_queue_commands (gs_limits st)"
      "gs_queue_bytes st + n \<le> max_queue_bytes (gs_limits st)"
    and st': "st' = st\<lparr>gs_ticket := gs_ticket st + 1, gs_queue := gs_queue st @ [r],
      gs_queue_bytes := gs_queue_bytes st + n\<rparr>"
    using assms(2) by (auto simp: gc_submit_def Let_def split: if_splits)
  have sz: "rq_size r = n" "rq_state r = ADMITTED" "rq_ticket r = int (gs_ticket st + 1)"
    by (simp_all add: r new_request_def)
  have i: "inflight st' = inflight st" by (simp add: st' inflight_def)
  have lt: "x < int (gs_ticket st + 1)" if x: "x \<in> rq_ticket ` (set (inflight st) \<union> set (gs_queue st))" for x
  proof -
    have "x \<in> {1..int (gs_ticket st)}" using x gc_tickets_range(1) [of st] assms(1) by (auto simp: gc_wf_def)
    then show ?thesis by simp
  qed
  have "gc_tickets st'" using assms(1) by (simp add: gc_wf_def gc_tickets_def i st' sz tickets_upto_Suc)
  moreover have "gc_fifo st'"
  proof -
    have "sorted_wrt (<) (map rq_ticket ((inflight st @ gs_queue st) @ [r]))"
      unfolding map_append sorted_wrt_append using assms(1) lt by (auto simp: gc_wf_def gc_fifo_def sz sorted_wrt_append)
    then show ?thesis by (simp add: gc_fifo_def i) (simp add: st')
  qed
  moreover have "gc_states st'" "gc_bounds st'"
    using assms(1) b sz by (auto simp: gc_wf_def gc_states_def gc_bounds_def i) (auto simp: st')
  moreover have "gc_withdrawals st'" using assms(1) by (auto simp: gc_wf_def gc_withdrawals_def st')
  ultimately show ?thesis by (simp add: gc_wf_def)
qed (use assms in simp)

lemma withdraw_wf:
  assumes "gc_wf st" "queued t st"
  shows "gc_wf (withdraw t st)"
proof -
  let ?f = "\<lambda>r. if rq_ticket r = t then r\<lparr>rq_cancelled := True\<rparr> else r"
  have m: "map rq_ticket (map ?f q) = map rq_ticket q" "map rq_size (map ?f q) = map rq_size q"
    "map rq_state (map ?f q) = map rq_state q" for q
    by (induction q) auto
  have i: "inflight (withdraw t st) = inflight st" "gs_queue (withdraw t st) = map ?f (gs_queue st)"
    by (simp_all add: withdraw_def inflight_def)
  have "gc_tickets (withdraw t st)" "gc_fifo (withdraw t st)"
    using assms(1) by (simp_all only: gc_wf_def gc_tickets_def gc_fifo_def i m map_append) (simp_all add: withdraw_def)
  moreover have "gc_states (withdraw t st)" using assms(1) by (auto simp: gc_wf_def gc_states_def i) (auto simp: withdraw_def)
  moreover have "gc_bounds (withdraw t st)"
    using assms(1) by (simp only: gc_wf_def gc_bounds_def i m length_map) (auto simp: withdraw_def)
  moreover have "gc_withdrawals (withdraw t st)"
    unfolding gc_withdrawals_def
  proof
    fix u assume u: "u \<in> set (gs_withdrawn (withdraw t st))"
    have q: "\<exists>r \<in> set (gs_queue st). rq_ticket r = t" using assms(2) by (auto simp: queued_def)
    have "(\<exists>r \<in> set (gs_queue st). rq_ticket (?f r) = u \<and> rq_cancelled (?f r)) \<or>
      (\<exists>r \<in> set (gs_finished st). rq_ticket r = u \<and> rq_status r = Some NOT_ACCEPTED)"
    proof (cases "u = t")
      case True
      then show ?thesis using q by auto
    next
      case False
      then have "u \<in> set (gs_withdrawn st)" using u by (simp add: withdraw_def)
      then show ?thesis using assms(1) by (auto simp: gc_wf_def gc_withdrawals_def)
    qed
    then show "(\<exists>r \<in> set (gs_queue (withdraw t st)). rq_ticket r = u \<and> rq_cancelled r) \<or>
      (\<exists>r \<in> set (gs_finished (withdraw t st)). rq_ticket r = u \<and> rq_status r = Some NOT_ACCEPTED)"
      unfolding i set_map bex_simps by (simp add: withdraw_def)
  qed
  ultimately show ?thesis by (simp add: gc_wf_def)
qed

lemma sum_list_split: "sum_list (map f (xs @ ys)) - sum_list (map f xs) = (sum_list (map f ys) :: nat)"
  by simp

lemma mset_filter_split: "image_mset f (mset (filter P xs)) + image_mset f (mset (filter (\<lambda>x. \<not> P x) xs)) = image_mset f (mset xs)"
  by (induction xs) auto

lemma sorted_wrt_filter_prefix:
  "sorted_wrt R (map f (pre @ q)) \<Longrightarrow> sorted_wrt R (map f (filter P pre @ q))"
  by (induction pre) (auto simp: sorted_wrt_append)

lemma gc_withdrawals_move:
  assumes "gc_withdrawals st" "set (gs_withdrawn st') \<subseteq> set (gs_withdrawn st)"
    "set (gs_finished st) \<subseteq> set (gs_finished st')"
    "\<And>r. r \<in> set (gs_queue st) \<Longrightarrow> rq_cancelled r \<Longrightarrow>
       r \<in> set (gs_queue st') \<or> rq_finish NOT_ACCEPTED None r \<in> set (gs_finished st')"
  shows "gc_withdrawals st'"
  unfolding gc_withdrawals_def
proof
  fix t assume "t \<in> set (gs_withdrawn st')"
  then have "t \<in> set (gs_withdrawn st)" using assms(2) by blast
  then consider (q) r where "r \<in> set (gs_queue st)" "rq_ticket r = t" "rq_cancelled r"
    | (f) r where "r \<in> set (gs_finished st)" "rq_ticket r = t" "rq_status r = Some NOT_ACCEPTED"
    using assms(1) by (auto simp: gc_withdrawals_def)
  then show "(\<exists>r \<in> set (gs_queue st'). rq_ticket r = t \<and> rq_cancelled r) \<or>
      (\<exists>r \<in> set (gs_finished st'). rq_ticket r = t \<and> rq_status r = Some NOT_ACCEPTED)"
  proof cases
    case q
    from assms(4) [OF q(1,3)] show ?thesis
    proof
      assume "rq_finish NOT_ACCEPTED None r \<in> set (gs_finished st')"
      then show ?thesis using q(2) by (intro disjI2 bexI [of _ "rq_finish NOT_ACCEPTED None r"]) simp_all
    qed (use q in blast)
  qed (use assms(3) in blast)
qed

lemma gc_claim_cases:
  assumes "gs_inflight st = None"
  obtains pre q where "gs_queue st = pre @ q"
    "gs_queue (gc_claim st) = q" "gs_queue_bytes (gc_claim st) = gs_queue_bytes st - sum_list (map rq_size pre)"
    "inflight (gc_claim st) = map claim (filter (\<lambda>r. \<not> rq_cancelled r) pre)"
    "gs_finished (gc_claim st) = gs_finished st @ map (rq_finish NOT_ACCEPTED None) (filter rq_cancelled pre)"
    "length (inflight (gc_claim st)) \<le> max_batch_commands (gs_limits st)"
    "(\<forall>r \<in> set (gs_queue st). rq_size r \<le> max_batch_bytes (gs_limits st)) \<Longrightarrow>
       sum_list (map rq_size (inflight (gc_claim st))) \<le> max_batch_bytes (gs_limits st)"
proof -
  obtain b q qb fin where d: "drain_loop (gs_limits st) (gs_queue st) (gs_queue_bytes st) [] 0 [] = (b, q, qb, fin)"
    by (metis prod_cases4)
  from drain_loop_spec [OF d] obtain pre where pre: "gs_queue st = pre @ q"
    "b = map claim (filter (\<lambda>r. \<not> rq_cancelled r) pre)"
    "fin = map (rq_finish NOT_ACCEPTED None) (filter rq_cancelled pre)"
    "qb = gs_queue_bytes st - sum_list (map rq_size pre)" "length b \<le> max_batch_commands (gs_limits st)"
    "(\<forall>r \<in> set (gs_queue st). rq_size r \<le> max_batch_bytes (gs_limits st)) \<longrightarrow>
       sum_list (map rq_size (filter (\<lambda>r. \<not> rq_cancelled r) pre)) \<le> max_batch_bytes (gs_limits st)"
    by (elim exE conjE) simp
  have c: "gs_queue (gc_claim st) = q" "gs_queue_bytes (gc_claim st) = qb" "inflight (gc_claim st) = b"
    "gs_finished (gc_claim st) = gs_finished st @ fin"
    by (simp_all add: gc_claim_def d inflight_def)
  have "map rq_size b = map rq_size (filter (\<lambda>r. \<not> rq_cancelled r) pre)" by (simp add: pre(2) comp_def)
  then show ?thesis using pre(5,6) by (intro that [OF pre(1)]) (simp_all add: c pre(2-4) comp_def)
qed

lemma gc_claim_other [simp]:
  "gs_ticket (gc_claim st) = gs_ticket st" "gs_limits (gc_claim st) = gs_limits st"
  "gs_withdrawn (gc_claim st) = gs_withdrawn st" "gs_log (gc_claim st) = gs_log st"
  "gs_published (gc_claim st) = gs_published st" "gs_file (gc_claim st) = gs_file st"
  "gs_snapshot (gc_claim st) = gs_snapshot st" "gs_hasher (gc_claim st) = gs_hasher st"
  "gs_durable (gc_claim st) = gs_durable st" "gs_killed (gc_claim st) = gs_killed st"
  "gs_poisoned (gc_claim st) = gs_poisoned st" "gs_worker_dead (gc_claim st) = gs_worker_dead st"
  "gs_key (gc_claim st) = gs_key st" "gs_scope_id (gc_claim st) = gs_scope_id st"
  "gs_segment_id (gc_claim st) = gs_segment_id st" "gs_base (gc_claim st) = gs_base st"
  "gs_u8_domain (gc_claim st) = gs_u8_domain st"
  by (simp_all add: gc_claim_def split: prod.split)

lemma gc_claim_wf:
  assumes wf: "gc_wf st" and i: "gs_inflight st = None"
  shows "gc_wf (gc_claim st)"
proof (rule gc_claim_cases [OF i])
  fix pre q
  assume a: "gs_queue st = pre @ q" "gs_queue (gc_claim st) = q"
    "gs_queue_bytes (gc_claim st) = gs_queue_bytes st - sum_list (map rq_size pre)"
    "inflight (gc_claim st) = map claim (filter (\<lambda>r. \<not> rq_cancelled r) pre)"
    "gs_finished (gc_claim st) = gs_finished st @ map (rq_finish NOT_ACCEPTED None) (filter rq_cancelled pre)"
    "length (inflight (gc_claim st)) \<le> max_batch_commands (gs_limits st)"
    "(\<forall>r \<in> set (gs_queue st). rq_size r \<le> max_batch_bytes (gs_limits st)) \<Longrightarrow>
       sum_list (map rq_size (inflight (gc_claim st))) \<le> max_batch_bytes (gs_limits st)"
  have n: "inflight st = []" using i by (simp add: inflight_def)
  have "gc_tickets (gc_claim st)"
    using wf mset_filter_split [of rq_ticket rq_cancelled pre]
    by (simp add: gc_wf_def gc_tickets_def a(1,2,4,5) n comp_def image_mset.compositionality ac_simps)
  moreover have "gc_fifo (gc_claim st)"
    using wf sorted_wrt_filter_prefix [of "(<)" rq_ticket pre q]
    by (simp add: gc_wf_def gc_fifo_def a(1,2,4) n comp_def)
  moreover have "gc_states (gc_claim st)"
    using wf by (auto simp: gc_wf_def gc_states_def a(1,2,4,5) n)
  moreover have "gc_bounds (gc_claim st)"
    using wf a(6,7) by (simp add: gc_wf_def gc_bounds_def a(1,2,3) ball_Un)
  moreover have "gc_withdrawals (gc_claim st)"
    by (rule gc_withdrawals_move [of st], insert wf) (auto simp: gc_wf_def a(1,2,5))
  ultimately show ?thesis by (simp add: gc_wf_def)
qed

lemma finish_receipts_spec:
  "finish_receipts rs batch = Some done \<Longrightarrow>
   list_all2 (\<lambda>d r. \<exists>rc. receipt_of rs (rq_ticket r) = Some rc \<and> d = rq_finish (pr_status rc) (pr_wal_seq rc) r) done batch"
  by (induction batch arbitrary: "done") (auto split: option.splits)

lemma finished_tickets:
  "list_all2 (\<lambda>d r. \<exists>rc. R rc r \<and> d = rq_finish (pr_status rc) (pr_wal_seq rc) r) ds batch \<Longrightarrow>
   map rq_ticket ds = map rq_ticket batch \<and> (\<forall>d \<in> set ds. rq_state d = DONE \<and> rq_status d \<noteq> None)"
  by (induction rule: list_all2_induct) auto

lemma gc_poison_wf:
  assumes wf: "gc_wf st" and i: "inflight st = batch"
  shows "gc_wf (gc_poison s batch st)"
proof -
  have q: "gs_queue (gc_poison s batch st) = []" "inflight (gc_poison s batch st) = []"
    "gs_finished (gc_poison s batch st) = gs_finished st @ map (rq_finish s None) batch
       @ map (rq_finish NOT_ACCEPTED None) (gs_queue st)"
    "gs_ticket (gc_poison s batch st) = gs_ticket st" "gs_queue_bytes (gc_poison s batch st) = 0"
    "gs_withdrawn (gc_poison s batch st) = gs_withdrawn st"
    by (simp_all add: gc_poison_def release_lease_def inflight_def)
  have "gc_tickets (gc_poison s batch st)"
    using wf by (simp add: gc_wf_def gc_tickets_def q i comp_def image_mset.compositionality add.assoc)
  moreover have "gc_withdrawals (gc_poison s batch st)"
    by (rule gc_withdrawals_move [of st], insert wf) (auto simp: gc_wf_def q)
  moreover have "gc_states (gc_poison s batch st)" using wf by (auto simp: gc_wf_def gc_states_def q)
  ultimately show ?thesis by (simp add: gc_wf_def gc_fifo_def gc_bounds_def q)
qed

lemma gc_done_wf:
  assumes wf: "gc_wf st" and f: "finish_receipts rs (inflight st) = Some done"
  shows "gc_wf (st\<lparr>gs_inflight := None, gs_finished := gs_finished st @ done\<rparr>)"
proof -
  note d = finished_tickets [OF finish_receipts_spec [OF f]]
  have "mset (map rq_ticket done) = mset (map rq_ticket (inflight st))" using d by simp
  then show ?thesis using wf d by (auto simp: gc_wf_defs sorted_wrt_append inflight_def [of "_\<lparr>gs_finished := _\<rparr>"] ac_simps)
qed

lemma gc_written_simps [simp]:
  "gs_inflight (gc_written fl cmds plan st) = gs_inflight st" "inflight (gc_written fl cmds plan st) = inflight st"
  "gs_finished (gc_written fl cmds plan st) = gs_finished st" "gs_queue (gc_written fl cmds plan st) = gs_queue st"
  "gs_file (gc_written fl cmds plan st) = fl" "gs_log (gc_written fl cmds plan st) = gs_log st @ plan_log cmds (bp_receipts plan)"
  "gs_withdrawn (gc_written fl cmds plan st) = gs_withdrawn st"
  by (simp_all add: gc_written_def inflight_def)

lemma gc_swap_simps [simp]:
  "gs_inflight (gc_swap du plan st) = gs_inflight st" "inflight (gc_swap du plan st) = inflight st"
  "gs_finished (gc_swap du plan st) = gs_finished st" "gs_queue (gc_swap du plan st) = gs_queue st"
  "gs_file (gc_swap du plan st) = gs_file st" "gs_log (gc_swap du plan st) = gs_log st"
  "gs_withdrawn (gc_swap du plan st) = gs_withdrawn st"
  by (simp_all add: gc_swap_def inflight_def)

lemma gc_written_wf: "gc_wf st \<Longrightarrow> gc_wf (gc_written fl cmds plan st)"
  by (simp add: gc_written_def)

lemma gc_swap_wf: "gc_wf st \<Longrightarrow> gc_wf (gc_swap du plan st)"
  by (simp add: gc_swap_def)

lemma gc_answer_wf:
  assumes "gc_wf st" "gs_inflight st = Some batch"
  shows "gc_wf (gc_answer (finish_receipts rs batch) st)"
proof (cases "finish_receipts rs batch")
  case None
  then show ?thesis using assms(1) by (simp add: gc_answer_def)
next
  case (Some ds)
  then show ?thesis using gc_done_wf [OF assms(1), of rs ds] assms(2) by (simp add: gc_answer_def inflight_def)
qed

lemma gc_commit_wf:
  assumes wf: "gc_wf st" and i: "gs_inflight st = Some batch"
  shows "gc_wf (gc_commit ops st batch sc)"
proof (cases "gc_plan ops st batch")
  case (Inl e)
  then show ?thesis using wf by (simp add: gc_commit_def)
next
  case (Inr plan)
  obtain r fl where c: "commit_prepared (gs_file st) plan sc = (r, fl)" by fastforce
  note w = gc_written_wf [OF wf, of fl "map rq_cmd batch" plan]
  show ?thesis
  proof (cases r)
    case (Ret durable)
    have "gc_wf (gc_answer (finish_receipts (bp_receipts plan) batch)
        (gc_swap durable plan (gc_written fl (map rq_cmd batch) plan st)))"
      by (rule gc_answer_wf [OF gc_swap_wf [OF w]]) (simp add: i)
    then show ?thesis using Inr c Ret by (simp add: gc_commit_def)
  next
    case (Raise x)
    have "gc_wf (gc_poison COMMIT_UNKNOWN batch (gc_written fl (map rq_cmd batch) plan st))"
      by (rule gc_poison_wf [OF w]) (simp add: i inflight_def)
    then show ?thesis using Inr c Raise by (simp add: gc_commit_def)
  next
    case Killed
    then show ?thesis using Inr c w by (simp add: gc_commit_def)
  qed
qed

lemma gc_step_wf: "gc_step ops st st' \<Longrightarrow> gc_wf st \<Longrightarrow> gc_wf st'"
proof (induction rule: gc_step.induct)
  case (gstep_submit st op fid ver v oid r st')
  then show ?case using gc_submit_wf by blast
next
  case (gstep_cancel st t b st')
  then show ?case using withdraw_wf by (auto simp: gc_cancel_def split: if_splits)
next
  case (gstep_timeout st t a st')
  then show ?case using withdraw_wf by (auto simp: gc_resolve_def split: if_splits option.splits)
next
  case (gstep_stop st)
  then show ?case by (simp add: gc_stop_def)
next
  case (gstep_fence st st')
  then have "st' = st\<lparr>gs_rotating := True, gs_stop := True\<rparr>" by (simp add: gc_fence_def split: if_splits)
  then show ?case using gstep_fence(3) by simp
next
  case (gstep_claim st)
  then show ?case using gc_claim_wf by blast
next
  case (gstep_commit st batch sc)
  then show ?case using gc_commit_wf by blast
next
  case (gstep_kill st)
  then show ?case by simp
qed

lemma gc_run_wf: "gc_run ops st st' \<Longrightarrow> gc_wf st \<Longrightarrow> gc_wf st'"
  by (induction rule: gc_run.induct) (auto intro: gc_step_wf)

lemma gc_boot_wf: "gc_wf (gc_boot key sc sg fl du snap hasher lim base kid prev u8)"
  by (simp add: gc_wf_defs gc_boot_def inflight_def tickets_upto_def)

subsection \<open>The log of a run\<close>

abbreviation published :: "('w, 't) gc_store \<Rightarrow> (int \<times> wframe) list" where
  "published st \<equiv> take (gs_published st) (gs_log st)"

abbreviation unpublished :: "('w, 't) gc_store \<Rightarrow> (int \<times> wframe) list" where
  "unpublished st \<equiv> drop (gs_published st) (gs_log st)"

text \<open>
  A store of the segment \<open>s\<close> that started with the frames \<open>fs0\<close>: the published snapshot
  reads as the replay of the published frames, the file is the image of the published frames
  followed by a part of the unpublished ones (there are none unless the store is poisoned or
  killed), and the published frames are durable.
\<close>

definition gc_log_ok ::
  "('w, 'wb, 't, 'tb) index_ops \<Rightarrow> ('w \<Rightarrow> bool) \<Rightarrow> ('t \<Rightarrow> bool) \<Rightarrow> bytes \<Rightarrow> seg_id \<Rightarrow> base_view \<Rightarrow> history \<Rightarrow> wframe list
     \<Rightarrow> ('w, 't) gc_store \<Rightarrow> bool" where
  "gc_log_ok ops wi ti key s base h0 fs0 st \<longleftrightarrow>
     gs_key st = key \<and> gs_scope_id st = sg_scope s \<and> gs_segment_id st = sg_segment s \<and> gs_base st = base \<and>
     gs_published st \<le> length (gs_log st) \<and>
     (\<exists>h. snapshot_ok ops key s base h0 (fs0 @ map snd (published st)) h (gs_snapshot st) (gs_hasher st)) \<and>
     wi (ls_index (gs_snapshot st)) \<and> ti (ls_txindex (gs_snapshot st)) \<and>
     frames_ok (sg_first s) (fs0 @ map snd (gs_log st)) \<and>
     (\<exists>h. abs_replay base h0 (fs0 @ map snd (gs_log st)) = Inr (Inr h)) \<and>
     (\<exists>k. gs_file st = wal_image key s (fs0 @ map snd (published st))
        @ take k (frames_bytes key (sg_scope s) (sg_segment s) (map snd (unpublished st)))) \<and>
     (unpublished st \<noteq> [] \<longrightarrow> gs_poisoned st \<or> gs_killed st) \<and>
     gs_durable st \<le> length (gs_file st) \<and>
     (published st \<noteq> [] \<longrightarrow> length (wal_image key s (fs0 @ map snd (published st))) \<le> gs_durable st)"

definition gc_quiet :: "('w, 't) gc_store \<Rightarrow> bool" where
  "gc_quiet st \<longleftrightarrow> (gs_poisoned st \<longrightarrow> gs_inflight st = None \<and> gs_queue st = [])"

lemma plan_log_frames:
  "\<forall>c \<in> set cmds. version_fits u8 c \<Longrightarrow> abs_batch base u8 h q cmds = (rs, fs, h') \<Longrightarrow>
   map snd (plan_log cmds rs) = fs \<and> length rs = length cmds \<and>
   (\<forall>r \<in> set rs. pr_status r \<noteq> NOT_ACCEPTED \<and> pr_status r \<noteq> COMMIT_UNKNOWN \<and>
      (pr_status r = Logged APPLIED \<longrightarrow> pr_wal_seq r \<noteq> None)) \<and>
   map pr_ticket rs = map cc_enqueue_ticket cmds"
proof (induction cmds arbitrary: h q rs fs h')
  case Nil
  then show ?case by (simp add: plan_log_def)
next
  case (Cons cmd cmds)
  let ?d = "projr (cmd_digest cmd)"
  consider (bad) "\<not> cmd_ok u8 cmd" | (ref) s v where "cmd_ok u8 cmd" "abs_decide base h cmd ?d = Some (s, v)"
    | (app) "cmd_ok u8 cmd" "abs_decide base h cmd ?d = None"
    by (cases "cmd_ok u8 cmd"; cases "abs_decide base h cmd ?d") auto
  then show ?case
  proof cases
    case bad
    obtain rs1 fs1 h1 where b: "abs_batch base u8 h q cmds = (rs1, fs1, h1)" by (cases "abs_batch base u8 h q cmds")
    then show ?thesis using Cons.IH [OF _ b] Cons.prems bad by (auto simp: Let_def plan_log_def)
  next
    case ref
    obtain rs1 fs1 h1 where b: "abs_batch base u8 h q cmds = (rs1, fs1, h1)" by (cases "abs_batch base u8 h q cmds")
    have "s \<noteq> Logged APPLIED \<and> s \<noteq> NOT_ACCEPTED \<and> s \<noteq> COMMIT_UNKNOWN"
      using ref(2) by (auto simp: abs_decide_def split: option.splits probe.splits verdict.splits if_splits)
    then show ?thesis using Cons.IH [OF _ b] Cons.prems b ref by (auto simp: Let_def plan_log_def)
  next
    case app
    let ?h = "((fst h)(cc_fact_id cmd \<mapsto> (cc_fact_version cmd, cc_op cmd, cc_value cmd)),
      (snd h)(cc_operation_id cmd \<mapsto> (?d, q)))"
    obtain rs1 fs1 h1 where b: "abs_batch base u8 ?h (q + 1) cmds = (rs1, fs1, h1)"
      by (cases "abs_batch base u8 ?h (q + 1) cmds")
    then show ?thesis using Cons.IH [OF _ b] Cons.prems app by (auto simp: Let_def plan_log_def)
  qed
qed

lemma plan_log_tickets: "length rs = length cmds \<Longrightarrow> map pr_ticket rs = map cc_enqueue_ticket cmds \<Longrightarrow>
    fst ` set (plan_log cmds rs) \<subseteq> cc_enqueue_ticket ` set cmds"
proof
  fix t assume l: "length rs = length cmds" "map pr_ticket rs = map cc_enqueue_ticket cmds"
    and t: "t \<in> fst ` set (plan_log cmds rs)"
  from t obtain c r where r: "(c, r) \<in> set (zip cmds rs)" "t = pr_ticket r"
    by (auto simp: plan_log_def)
  from r(1) obtain i where i: "i < length cmds" "c = cmds ! i" "r = rs ! i"
    by (auto simp: set_zip)
  then have "t = cc_enqueue_ticket (cmds ! i)"
    using l r(2) nth_map [of i rs pr_ticket] nth_map [of i cmds cc_enqueue_ticket] by simp
  then show "t \<in> cc_enqueue_ticket ` set cmds" using i(1) by simp
qed

lemma gc_log_ok_frame:
  "gc_log_ok ops wi ti key s base h0 fs0 st \<Longrightarrow> gs_key st' = gs_key st \<Longrightarrow> gs_scope_id st' = gs_scope_id st \<Longrightarrow>
   gs_segment_id st' = gs_segment_id st \<Longrightarrow> gs_base st' = gs_base st \<Longrightarrow> gs_published st' = gs_published st \<Longrightarrow>
   gs_log st' = gs_log st \<Longrightarrow> gs_snapshot st' = gs_snapshot st \<Longrightarrow> gs_hasher st' = gs_hasher st \<Longrightarrow>
   gs_file st' = gs_file st \<Longrightarrow> gs_durable st' = gs_durable st \<Longrightarrow>
   (gs_poisoned st \<Longrightarrow> gs_poisoned st') \<Longrightarrow> (gs_killed st \<Longrightarrow> gs_killed st') \<Longrightarrow>
   gc_log_ok ops wi ti key s base h0 fs0 st'"
  unfolding gc_log_ok_def by auto

context l0_index
begin

text \<open>What a commit that planned does to the log.\<close>

lemma gc_commit_plan:
  assumes l: "gc_log_ok ops winv tinv key s base h0 fs0 st" and i: "gs_inflight st = Some batch"
    and room: "seq_room st" and u: "unpublished st = []" and p: "gc_plan ops st batch = Inr plan"
  obtains rs gs h' h where "bp_receipts plan = rs" "map snd (plan_log (map rq_cmd batch) rs) = gs"
    "map pr_ticket rs = map rq_ticket batch"
    "\<forall>r \<in> set rs. pr_status r \<noteq> NOT_ACCEPTED \<and> pr_status r \<noteq> COMMIT_UNKNOWN \<and>
      (pr_status r = Logged APPLIED \<longrightarrow> pr_wal_seq r \<noteq> None)"
    "plan_extends ops key s base h0 (fs0 @ map snd (gs_log st)) gs h' rs plan"
    "winv (ls_index (bp_candidate_snapshot plan))" "tinv (ls_txindex (bp_candidate_snapshot plan))"
proof -
  have pub: "published st = gs_log st" using u by simp
  obtain h where sn: "snapshot_ok ops key s base h0 (fs0 @ map snd (gs_log st)) h (gs_snapshot st) (gs_hasher st)"
    and w: "winv (ls_index (gs_snapshot st))" "tinv (ls_txindex (gs_snapshot st))"
    using l unfolding gc_log_ok_def pub by blast
  have id: "gs_key st = key" "gs_scope_id st = sg_scope s" "gs_segment_id st = sg_segment s" "gs_base st = base"
    using l by (simp_all add: gc_log_ok_def)
  let ?cmds = "map rq_cmd batch"
  have fits: "\<forall>c \<in> set ?cmds. version_fits (gs_u8_domain st) c"
  proof (rule ccontr)
    assume "\<not> ?thesis"
    then obtain c where "c \<in> set ?cmds" "cmd_ok (gs_u8_domain st) c" "\<not> version_fits (gs_u8_domain st) c"
      by (auto simp: version_fits_def)
    from prepare_batch_raises [OF this, of ops "gs_snapshot st" "gs_hasher st" "gs_key st" "gs_scope_id st"
        "gs_segment_id st" "gs_base st"] p
    show False by (auto simp: gc_plan_def)
  qed
  have q: "next_seq_of s (fs0 @ map snd (gs_log st)) + int (length ?cmds) \<le> MAX_SEQ"
    using room sn i by (simp add: seq_room_def snapshot_ok_def head_of_def)
  obtain rs gs h' where b: "abs_batch base (gs_u8_domain st) h (next_seq_of s (fs0 @ map snd (gs_log st))) ?cmds = (rs, gs, h')"
    by (cases "abs_batch base (gs_u8_domain st) h (next_seq_of s (fs0 @ map snd (gs_log st))) ?cmds")
  from prepare_batch_extends [OF sn w fits q b] p have
    x: "plan_extends ops key s base h0 (fs0 @ map snd (gs_log st)) gs h' rs plan"
    "winv (ls_index (bp_candidate_snapshot plan))" "tinv (ls_txindex (bp_candidate_snapshot plan))"
    by (auto simp: gc_plan_def id)
  note pl = plan_log_frames [OF fits b]
  show ?thesis
    by (rule that [of rs gs h']) (use x pl in \<open>auto simp: plan_extends_def comp_def\<close>)
qed

lemma gc_commit_log:
  assumes l: "gc_log_ok ops winv tinv key s base h0 fs0 st" and i: "gs_inflight st = Some batch"
    and room: "seq_room st" and q: "gc_quiet st" and k: "\<not> gs_killed st"
  shows "gc_log_ok ops winv tinv key s base h0 fs0 (gc_commit ops st batch sc)"
proof (cases "gc_plan ops st batch")
  case (Inl e)
  then show ?thesis by (simp add: gc_commit_def) (rule gc_log_ok_frame [OF l], simp_all)
next
  case (Inr plan)
  have u: "unpublished st = []" using l i q k by (auto simp: gc_log_ok_def gc_quiet_def)
  then have pub: "published st = gs_log st" "gs_published st = length (gs_log st)"
    using l by (auto simp: gc_log_ok_def)
  let ?L = "fs0 @ map snd (gs_log st)"
  let ?F = "frames_bytes key (sg_scope s) (sg_segment s)"
  from gc_commit_plan [OF l i room u Inr] obtain rs gs h' where
    rs: "bp_receipts plan = rs" "map snd (plan_log (map rq_cmd batch) rs) = gs"
    and x: "plan_extends ops key s base h0 ?L gs h' rs plan"
      "winv (ls_index (bp_candidate_snapshot plan))" "tinv (ls_txindex (bp_candidate_snapshot plan))"
    by metis
  have l0: "gs_key st = key" "gs_scope_id st = sg_scope s" "gs_segment_id st = sg_segment s" "gs_base st = base"
    "gs_file st = wal_image key s ?L" "gs_durable st \<le> length (wal_image key s ?L)"
    "gs_log st \<noteq> [] \<longrightarrow> length (wal_image key s ?L) \<le> gs_durable st"
    "\<exists>h. snapshot_ok ops key s base h0 ?L h (gs_snapshot st) (gs_hasher st)"
    "winv (ls_index (gs_snapshot st))" "tinv (ls_txindex (gs_snapshot st))"
    using l unfolding gc_log_ok_def pub(1) u by auto
  have cand: "snapshot_ok ops key s base h0 (?L @ gs) h' (bp_candidate_snapshot plan) (bp_candidate_hasher plan)"
    and bytes: "concat (bp_frames plan) = ?F gs" "bp_frames plan = [] \<longleftrightarrow> gs = []"
    using x(1) by (simp_all add: plan_extends_def)
  have ok: "frames_ok (sg_first s) (?L @ gs)" "abs_replay base h0 (?L @ gs) = Inr (Inr h')"
    using cand by (simp_all add: snapshot_ok_def)
  obtain r fl where c: "commit_prepared (gs_file st) plan sc = (r, fl)" by fastforce
  from commit_prepared_file [OF c] obtain j where
    fl: "fl = gs_file st @ take j (?F gs)" "r = Ret True \<longrightarrow> fl = gs_file st @ ?F gs \<and> gs \<noteq> []"
      "r = Ret False \<longleftrightarrow> gs = []" "r = Ret False \<longrightarrow> fl = gs_file st"
    unfolding bytes by blast
  let ?st = "gc_written fl (map rq_cmd batch) plan st"
  have lg: "gs_log ?st = gs_log st @ plan_log (map rq_cmd batch) rs" "gs_published ?st = length (gs_log st)"
    using pub by (simp_all add: gc_written_def rs(1))
  have torn: "gc_log_ok ops winv tinv key s base h0 fs0 st'"
    if e: "gs_log st' = gs_log ?st" "gs_published st' = gs_published ?st" "gs_file st' = fl"
      "gs_durable st' = gs_durable st" "gs_snapshot st' = gs_snapshot st" "gs_hasher st' = gs_hasher st"
      "gs_key st' = key" "gs_scope_id st' = sg_scope s" "gs_segment_id st' = sg_segment s" "gs_base st' = base"
      "gs_poisoned st' \<or> gs_killed st' \<or> gs = []" for st'
  proof -
    have "published st' = gs_log st" "unpublished st' = plan_log (map rq_cmd batch) rs"
      using lg by (simp_all add: e)
    moreover have "plan_log (map rq_cmd batch) rs \<noteq> [] \<longleftrightarrow> gs \<noteq> []" using rs(2) by auto
    moreover have "fs0 @ map snd (gs_log st') = ?L @ gs" using lg rs(2) by (simp add: e)
    ultimately show ?thesis
      using e l0 ok fl(1) lg rs(2) by (auto simp: gc_log_ok_def)
  qed
  show ?thesis
  proof (cases r)
    case (Ret durable)
    define st1 where "st1 = gc_swap durable plan ?st"
    have "gc_log_ok ops winv tinv key s base h0 fs0 st1"
    proof (cases durable)
      case False
      then show ?thesis unfolding st1_def
        by (intro torn) (use Ret fl(3) l0 in \<open>auto simp: gc_swap_def gc_written_def rs(1)\<close>)
    next
      case True
      have e: "gs_log st1 = gs_log st @ plan_log (map rq_cmd batch) rs" "gs_published st1 = length (gs_log st1)"
        "gs_file st1 = gs_file st @ ?F gs" "gs_durable st1 = length (gs_file st1)"
        "gs_snapshot st1 = bp_candidate_snapshot plan" "gs_hasher st1 = bp_candidate_hasher plan"
        "gs_key st1 = key" "gs_scope_id st1 = sg_scope s" "gs_segment_id st1 = sg_segment s" "gs_base st1 = base"
        using True Ret fl(2) l0 by (simp_all add: st1_def gc_swap_def gc_written_def rs(1))
      have "published st1 = gs_log st1" "unpublished st1 = []" using e(2) by simp_all
      moreover have "fs0 @ map snd (gs_log st1) = ?L @ gs" using rs(2) by (simp add: e)
      ultimately show ?thesis
        using e(2-) cand x(2,3) ok l0(5) by (cases h') (auto simp: gc_log_ok_def wal_image_append)
    qed
    then show ?thesis
      using Inr c Ret st1_def
      by (simp add: gc_commit_def) (rule gc_log_ok_frame, assumption, simp_all add: gc_answer_def split: option.split)
  next
    case (Raise e)
    have "gc_log_ok ops winv tinv key s base h0 fs0 (gc_poison COMMIT_UNKNOWN batch ?st)"
      by (rule torn) (simp_all add: gc_poison_def release_lease_def gc_written_def l0)
    then show ?thesis using Inr c Raise by (simp add: gc_commit_def)
  next
    case Killed
    have "gc_log_ok ops winv tinv key s base h0 fs0 (?st\<lparr>gs_killed := True\<rparr>)"
      by (rule torn) (simp_all add: gc_written_def l0)
    then show ?thesis using Inr c Killed by (simp add: gc_commit_def)
  qed
qed

lemma gc_step_log:
  "gc_step ops st st' \<Longrightarrow> gc_log_ok ops winv tinv key s base h0 fs0 st \<Longrightarrow> gc_quiet st \<Longrightarrow>
   gc_log_ok ops winv tinv key s base h0 fs0 st' \<and> gc_quiet st'"
proof (induction rule: gc_step.induct)
  case (gstep_submit st op fid ver v oid r st')
  then show ?case
    by (intro conjI, elim gc_log_ok_frame) (auto simp: gc_submit_def gc_quiet_def Let_def split: if_splits)
next
  case (gstep_cancel st t b st')
  then show ?case
    by (intro conjI, elim gc_log_ok_frame) (auto simp: gc_cancel_def withdraw_def gc_quiet_def split: if_splits)
next
  case (gstep_timeout st t a st')
  then show ?case
    by (intro conjI, elim gc_log_ok_frame)
      (auto simp: gc_resolve_def withdraw_def gc_quiet_def split: if_splits option.splits)
next
  case (gstep_stop st)
  then show ?case by (intro conjI, elim gc_log_ok_frame) (auto simp: gc_stop_def gc_quiet_def)
next
  case (gstep_fence st st')
  then show ?case by (intro conjI, elim gc_log_ok_frame) (auto simp: gc_fence_def gc_quiet_def split: if_splits)
next
  case (gstep_claim st)
  then show ?case
    by (intro conjI, elim gc_log_ok_frame) (auto simp: gc_quiet_def)
next
  case (gstep_commit st batch sc)
  have "gc_quiet (gc_commit ops st batch sc)"
    using gstep_commit.hyps(3) gstep_commit.prems(2)
    by (auto simp: gc_commit_def gc_quiet_def gc_poison_def release_lease_def gc_written_def gc_swap_def
        gc_answer_def split: sum.split prod.split out.split option.split)
  then show ?case using gc_commit_log gstep_commit by blast
next
  case (gstep_kill st)
  then show ?case by (intro conjI, elim gc_log_ok_frame) (auto simp: gc_quiet_def)
qed

end

subsection \<open>What the answers promise\<close>

text \<open>
  An \<open>APPLIED\<close> answer names a frame of the published log; the ticket of a \<open>NOT_ACCEPTED\<close> answer
  never reached the disk; neither did those of the queue, nor those in flight while the process
  lives.
\<close>

definition gc_answers :: "('w, 't) gc_store \<Rightarrow> bool" where
  "gc_answers st \<longleftrightarrow>
     (\<forall>r \<in> set (gs_finished st). rq_status r = Some (Logged APPLIED) \<longrightarrow>
        (\<exists>q. rq_wal_seq r = Some q \<and> (rq_ticket r, cmd_frame (rq_cmd r) q) \<in> set (published st))) \<and>
     (\<forall>r \<in> set (gs_finished st). rq_status r = Some NOT_ACCEPTED \<longrightarrow> rq_ticket r \<notin> fst ` set (gs_log st)) \<and>
     (\<forall>t \<in> rq_ticket ` set (gs_queue st). t \<notin> fst ` set (gs_log st)) \<and>
     (\<not> gs_killed st \<longrightarrow> (\<forall>t \<in> rq_ticket ` set (inflight st). t \<notin> fst ` set (gs_log st))) \<and>
     (\<forall>t \<in> fst ` set (gs_log st). t \<le> int (gs_ticket st))"

lemma receipt_of_nth:
  assumes "distinct (map pr_ticket rs)" "i < length rs"
  shows "receipt_of rs (pr_ticket (rs ! i)) = Some (rs ! i)"
  unfolding receipt_of_def
  by (rule map_of_is_SomeI) (use assms in \<open>auto simp: comp_def rev_map [symmetric]\<close>)

lemma finish_receipts_total:
  assumes t: "map pr_ticket rs = map rq_ticket batch" "distinct (map rq_ticket batch)"
  shows "\<exists>ds. finish_receipts rs batch = Some ds \<and>
    (\<forall>d \<in> set ds. \<exists>i < length batch. d = rq_finish (pr_status (rs ! i)) (pr_wal_seq (rs ! i)) (batch ! i))"
proof -
  have l: "length rs = length batch" using t(1) by (metis length_map)
  have r: "receipt_of rs (rq_ticket (batch ! i)) = Some (rs ! i)" if "i < length batch" for i
    using receipt_of_nth [of rs i] that l t nth_map [of i rs pr_ticket] nth_map [of i batch rq_ticket] by simp
  have "set bs \<subseteq> set batch \<Longrightarrow> \<exists>ds. finish_receipts rs bs = Some ds \<and>
    (\<forall>d \<in> set ds. \<exists>i < length batch. d = rq_finish (pr_status (rs ! i)) (pr_wal_seq (rs ! i)) (batch ! i))" for bs
  proof (induction bs)
    case (Cons b bs)
    then obtain ds where ds: "finish_receipts rs bs = Some ds"
      "\<forall>d \<in> set ds. \<exists>i < length batch. d = rq_finish (pr_status (rs ! i)) (pr_wal_seq (rs ! i)) (batch ! i)" by auto
    from Cons.prems obtain i where i: "i < length batch" "b = batch ! i" by (auto simp: in_set_conv_nth)
    show ?case using ds i r [OF i(1)] by auto
  qed simp
  then show ?thesis by blast
qed

lemma plan_log_nth:
  assumes "i < length cmds" "i < length rs" "pr_status (rs ! i) = Logged APPLIED" "pr_wal_seq (rs ! i) = Some q"
  shows "(pr_ticket (rs ! i), cmd_frame (cmds ! i) q) \<in> set (plan_log cmds rs)"
proof -
  have "(cmds ! i, rs ! i) \<in> set (zip cmds rs)" using assms(1,2) by (auto simp: set_zip)
  then have "(\<lambda>(c, r). (pr_ticket r, cmd_frame c (the (pr_wal_seq r)))) (cmds ! i, rs ! i) \<in> set (plan_log cmds rs)"
    unfolding plan_log_def set_map using assms(3) by (intro imageI) simp
  then show ?thesis using assms(4) by simp
qed

lemma gc_answersD:
  assumes "gc_answers st"
  shows "\<And>r. r \<in> set (gs_finished st) \<Longrightarrow> rq_status r = Some (Logged APPLIED) \<Longrightarrow>
      \<exists>q. rq_wal_seq r = Some q \<and> (rq_ticket r, cmd_frame (rq_cmd r) q) \<in> set (published st)"
    "\<And>r. r \<in> set (gs_finished st) \<Longrightarrow> rq_status r = Some NOT_ACCEPTED \<Longrightarrow> rq_ticket r \<notin> fst ` set (gs_log st)"
    "\<And>t. t \<in> rq_ticket ` set (gs_queue st) \<Longrightarrow> t \<notin> fst ` set (gs_log st)"
    "\<And>t. \<not> gs_killed st \<Longrightarrow> t \<in> rq_ticket ` set (inflight st) \<Longrightarrow> t \<notin> fst ` set (gs_log st)"
    "\<And>t. t \<in> fst ` set (gs_log st) \<Longrightarrow> t \<le> int (gs_ticket st)"
proof -
  note c = assms [unfolded gc_answers_def]
  note c2 = c [THEN conjunct2]
  note c3 = c2 [THEN conjunct2]
  note c4 = c3 [THEN conjunct2]
  show "\<And>r. r \<in> set (gs_finished st) \<Longrightarrow> rq_status r = Some (Logged APPLIED) \<Longrightarrow>
      \<exists>q. rq_wal_seq r = Some q \<and> (rq_ticket r, cmd_frame (rq_cmd r) q) \<in> set (published st)"
    by (rule c [THEN conjunct1, rule_format])
  show "\<And>r. r \<in> set (gs_finished st) \<Longrightarrow> rq_status r = Some NOT_ACCEPTED \<Longrightarrow> rq_ticket r \<notin> fst ` set (gs_log st)"
    by (rule c2 [THEN conjunct1, rule_format])
  show "\<And>t. t \<in> rq_ticket ` set (gs_queue st) \<Longrightarrow> t \<notin> fst ` set (gs_log st)"
    by (rule c3 [THEN conjunct1, THEN bspec])
  show "\<And>t. \<not> gs_killed st \<Longrightarrow> t \<in> rq_ticket ` set (inflight st) \<Longrightarrow> t \<notin> fst ` set (gs_log st)"
    by (rule c4 [THEN conjunct1, THEN mp, THEN bspec])
  show "\<And>t. t \<in> fst ` set (gs_log st) \<Longrightarrow> t \<le> int (gs_ticket st)"
    by (rule c4 [THEN conjunct2, THEN bspec])
qed

lemma gc_answersI:
  assumes "\<And>r. r \<in> set (gs_finished st) \<Longrightarrow> rq_status r = Some (Logged APPLIED) \<Longrightarrow>
      \<exists>q. rq_wal_seq r = Some q \<and> (rq_ticket r, cmd_frame (rq_cmd r) q) \<in> set (published st)"
    "\<And>r. r \<in> set (gs_finished st) \<Longrightarrow> rq_status r = Some NOT_ACCEPTED \<Longrightarrow> rq_ticket r \<notin> fst ` set (gs_log st)"
    "\<And>t. t \<in> rq_ticket ` set (gs_queue st) \<Longrightarrow> t \<notin> fst ` set (gs_log st)"
    "\<And>t. \<not> gs_killed st \<Longrightarrow> t \<in> rq_ticket ` set (inflight st) \<Longrightarrow> t \<notin> fst ` set (gs_log st)"
    "\<And>t. t \<in> fst ` set (gs_log st) \<Longrightarrow> t \<le> int (gs_ticket st)"
  shows "gc_answers st"
  unfolding gc_answers_def by (intro conjI ballI impI) (rule assms; assumption)+

text \<open>Steps that leave the log alone: requests only move on, and those answered leave the queue
  with \<open>NOT_ACCEPTED\<close>.\<close>

lemma gc_answers_frame:
  assumes a: "gc_answers st"
    and f: "set (gs_finished st') \<subseteq> set (gs_finished st) \<union> rq_finish NOT_ACCEPTED None ` set (gs_queue st)"
    and q: "rq_ticket ` set (gs_queue st') \<subseteq> rq_ticket ` set (gs_queue st)"
    and i: "rq_ticket ` set (inflight st') \<subseteq> rq_ticket ` set (inflight st) \<union> rq_ticket ` set (gs_queue st)"
    and e: "gs_log st' = gs_log st" "gs_published st' = gs_published st" "gs_ticket st' = gs_ticket st"
      "gs_killed st \<Longrightarrow> gs_killed st'"
  shows "gc_answers st'"
proof (rule gc_answersI)
  note d = gc_answersD [OF a]
  fix r assume r: "r \<in> set (gs_finished st')"
  then have m: "r \<in> set (gs_finished st) \<or> r \<in> rq_finish NOT_ACCEPTED None ` set (gs_queue st)" using f by blast
  show "\<exists>q. rq_wal_seq r = Some q \<and> (rq_ticket r, cmd_frame (rq_cmd r) q) \<in> set (published st')"
    if "rq_status r = Some (Logged APPLIED)"
    using m
  proof
    assume "r \<in> set (gs_finished st)"
    from d(1) [OF this that] show ?thesis unfolding e .
  qed (use that in auto)
  show "rq_ticket r \<notin> fst ` set (gs_log st')" if "rq_status r = Some NOT_ACCEPTED"
    using m
  proof
    assume "r \<in> set (gs_finished st)"
    from d(2) [OF this that] show ?thesis unfolding e .
  next
    assume "r \<in> rq_finish NOT_ACCEPTED None ` set (gs_queue st)"
    then have "rq_ticket r \<in> rq_ticket ` set (gs_queue st)" by auto
    from d(3) [OF this] show ?thesis unfolding e .
  qed
next
  fix t assume "t \<in> rq_ticket ` set (gs_queue st')"
  then have "t \<in> rq_ticket ` set (gs_queue st)" using q by blast
  from gc_answersD(3) [OF a this] show "t \<notin> fst ` set (gs_log st')" unfolding e .
next
  fix t assume k: "\<not> gs_killed st'" and t: "t \<in> rq_ticket ` set (inflight st')"
  have "\<not> gs_killed st" using k e(4) by blast
  moreover have "t \<in> rq_ticket ` set (inflight st) \<or> t \<in> rq_ticket ` set (gs_queue st)" using t i by blast
  ultimately show "t \<notin> fst ` set (gs_log st')" unfolding e using gc_answersD(3,4) [OF a] by blast
next
  fix t assume "t \<in> fst ` set (gs_log st')"
  then show "t \<le> int (gs_ticket st')" unfolding e by (rule gc_answersD(5) [OF a])
qed

lemma gc_submit_answers:
  assumes a: "gc_answers st" and s: "gc_submit st op fid ver v oid = (r, st')"
  shows "gc_answers st'"
proof (cases "st' = st")
  case False
  then obtain cmd n where r: "r = new_request cmd n" "cc_enqueue_ticket cmd = int (gs_ticket st + 1)"
    and st': "st' = st\<lparr>gs_ticket := gs_ticket st + 1, gs_queue := gs_queue st @ [r],
      gs_queue_bytes := gs_queue_bytes st + n\<rparr>"
    using s by (auto simp: gc_submit_def Let_def split: if_splits)
  have e: "gs_finished st' = gs_finished st" "gs_log st' = gs_log st" "gs_published st' = gs_published st"
    "inflight st' = inflight st" "gs_killed st' = gs_killed st" "gs_ticket st' = gs_ticket st + 1"
    "rq_ticket ` set (gs_queue st') = insert (int (gs_ticket st) + 1) (rq_ticket ` set (gs_queue st))"
    by (auto simp: st' inflight_def r)
  show ?thesis
  proof (rule gc_answersI, unfold e)
    fix t assume "t \<in> insert (int (gs_ticket st) + 1) (rq_ticket ` set (gs_queue st))"
    then show "t \<notin> fst ` set (gs_log st)" using gc_answersD(3) [OF a, of t] gc_answersD(5) [OF a, of t] by fastforce
  next
    fix t assume "t \<in> fst ` set (gs_log st)"
    then show "t \<le> int (gs_ticket st + 1)" using gc_answersD(5) [OF a, of t] by simp
  qed (fact gc_answersD(1,2,4) [OF a])+
qed (use a in simp)

lemma gc_log_extend_answers:
  assumes a: "gc_answers st" and w: "gc_wf st" and i: "gs_inflight st = Some batch" and k: "\<not> gs_killed st"
    and u: "gs_published st = length (gs_log st)"
    and t: "fst ` set new \<subseteq> rq_ticket ` set batch"
    and st': "gs_log st' = gs_log st @ new" "gs_ticket st' = gs_ticket st"
      "rq_ticket ` set (gs_queue st') \<subseteq> rq_ticket ` set (gs_queue st)"
      "gs_published st \<le> gs_published st'" "gs_killed st' \<or> inflight st' = []"
      "\<And>r. r \<in> set (gs_finished st') \<Longrightarrow> r \<in> set (gs_finished st) \<or> r \<in> rq_finish NOT_ACCEPTED None ` set (gs_queue st) \<or>
         rq_status r \<noteq> Some NOT_ACCEPTED \<and>
           (rq_status r = Some (Logged APPLIED) \<longrightarrow>
             (\<exists>q. rq_wal_seq r = Some q \<and> (rq_ticket r, cmd_frame (rq_cmd r) q) \<in> set (published st')))"
  shows "gc_answers st'"
proof -
  have w': "gc_tickets st" using w by (simp add: gc_wf_def)
  have b: "inflight st = batch" using i by (simp add: inflight_def)
  note d = gc_tickets_range [OF w', unfolded b]
  have fresh: "rq_ticket r \<notin> fst ` set (gs_log st')"
    if "r \<in> set (gs_finished st) \<and> rq_ticket r \<notin> fst ` set (gs_log st) \<or> r \<in> set (gs_queue st)" for r
  proof -
    have "rq_ticket r \<notin> fst ` set (gs_log st)" using that gc_answersD(3) [OF a, of "rq_ticket r"] by blast
    moreover have "rq_ticket r \<notin> rq_ticket ` set batch" using that d(2) by (auto simp: rev_image_eqI)
    ultimately show ?thesis using t st'(1) by auto
  qed
  have p: "set (published st) \<subseteq> set (published st')" using st'(1,4) u by auto
  show ?thesis
  proof (rule gc_answersI)
    fix r assume r: "r \<in> set (gs_finished st')" "rq_status r = Some (Logged APPLIED)"
    from st'(6) [OF r(1)] consider "r \<in> set (gs_finished st)" |
      "\<exists>q. rq_wal_seq r = Some q \<and> (rq_ticket r, cmd_frame (rq_cmd r) q) \<in> set (published st')"
      using r(2) by auto
    then show "\<exists>q. rq_wal_seq r = Some q \<and> (rq_ticket r, cmd_frame (rq_cmd r) q) \<in> set (published st')"
      by cases (use gc_answersD(1) [OF a _ r(2)] p in \<open>blast+\<close>)
  next
    fix r assume r: "r \<in> set (gs_finished st')" "rq_status r = Some NOT_ACCEPTED"
    from st'(6) [OF r(1)] r(2) consider "r \<in> set (gs_finished st)" | s where "s \<in> set (gs_queue st)" "rq_ticket r = rq_ticket s"
      by auto
    then show "rq_ticket r \<notin> fst ` set (gs_log st')"
      using fresh r(2) gc_answersD(2) [OF a] by cases metis+
  next
    fix t assume "t \<in> rq_ticket ` set (gs_queue st')"
    then obtain s where "s \<in> set (gs_queue st)" "t = rq_ticket s" using st'(3) by blast
    then show "t \<notin> fst ` set (gs_log st')" using fresh by simp
  next
    fix t assume "\<not> gs_killed st'" "t \<in> rq_ticket ` set (inflight st')"
    then show "t \<notin> fst ` set (gs_log st')" using st'(5) by simp
  next
    fix x assume "x \<in> fst ` set (gs_log st')"
    then consider "x \<in> fst ` set (gs_log st)" | "x \<in> rq_ticket ` set batch" using st'(1) t by auto
    then show "x \<le> int (gs_ticket st')"
    proof cases
      case 2
      then have "x \<in> {1..int (gs_ticket st)}" using d(1) by blast
      then show ?thesis using st'(2) by simp
    qed (use gc_answersD(5) [OF a] st'(2) in simp)
  qed
qed

definition gc_inv ::
  "('w, 'wb, 't, 'tb) index_ops \<Rightarrow> ('w \<Rightarrow> bool) \<Rightarrow> ('t \<Rightarrow> bool) \<Rightarrow> bytes \<Rightarrow> seg_id \<Rightarrow> base_view \<Rightarrow> history \<Rightarrow> wframe list
     \<Rightarrow> ('w, 't) gc_store \<Rightarrow> bool" where
  "gc_inv ops wi ti key s base h0 fs0 st \<longleftrightarrow>
     gc_wf st \<and> gc_log_ok ops wi ti key s base h0 fs0 st \<and> gc_quiet st \<and> gc_answers st"

context l0_index
begin

lemma gc_commit_answers:
  assumes w: "gc_wf st" and l: "gc_log_ok ops winv tinv key s base h0 fs0 st" and q: "gc_quiet st"
    and a: "gc_answers st" and i: "gs_inflight st = Some batch" and room: "seq_room st" and k: "\<not> gs_killed st"
  shows "gc_answers (gc_commit ops st batch sc)"
proof (cases "gc_plan ops st batch")
  case (Inl e)
  then show ?thesis by (simp add: gc_commit_def) (rule gc_answers_frame [OF a], simp_all add: inflight_def)
next
  case (Inr plan)
  have u: "unpublished st = []" using l i q k by (auto simp: gc_log_ok_def gc_quiet_def)
  then have pub: "gs_published st = length (gs_log st)" using l by (auto simp: gc_log_ok_def)
  have b: "inflight st = batch" using i by (simp add: inflight_def)
  from gc_commit_plan [OF l i room u Inr] obtain rs where
    rs: "bp_receipts plan = rs" "map pr_ticket rs = map rq_ticket batch"
      "\<forall>r \<in> set rs. pr_status r \<noteq> NOT_ACCEPTED \<and> pr_status r \<noteq> COMMIT_UNKNOWN \<and>
        (pr_status r = Logged APPLIED \<longrightarrow> pr_wal_seq r \<noteq> None)"
    and gs: "\<exists>gs. map snd (plan_log (map rq_cmd batch) rs) = gs \<and> (concat (bp_frames plan) =
         frames_bytes key (sg_scope s) (sg_segment s) gs) \<and> (bp_frames plan = [] \<longleftrightarrow> gs = [])"
    unfolding plan_extends_def by metis
  have len: "length rs = length batch" using rs(2) by (metis length_map)
  let ?new = "plan_log (map rq_cmd batch) rs"
  have t: "fst ` set ?new \<subseteq> rq_ticket ` set batch"
    using plan_log_tickets [of rs "map rq_cmd batch"] len rs(2) by (simp add: comp_def image_image)
  have dist: "distinct (map rq_ticket batch)"
    using gc_tickets_range(2) [of st] w by (simp add: gc_wf_def b)
  obtain r fl where c: "commit_prepared (gs_file st) plan sc = (r, fl)" by fastforce
  let ?st = "gc_written fl (map rq_cmd batch) plan st"
  have e: "gs_ticket ?st = gs_ticket st" "gs_published ?st = gs_published st"
    "gs_killed ?st = gs_killed st" by (simp_all add: gc_written_def)
  show ?thesis
  proof (cases r)
    case (Ret durable)
    from finish_receipts_total [OF rs(2) dist] obtain ds where ds: "finish_receipts rs batch = Some ds"
      "\<And>d. d \<in> set ds \<Longrightarrow> \<exists>i < length batch. d = rq_finish (pr_status (rs ! i)) (pr_wal_seq (rs ! i)) (batch ! i)"
      by blast
    have du: "durable \<or> ?new = []"
      using commit_prepared_file [OF c] gs Ret by (cases durable) auto
    let ?st2 = "gc_answer (Some ds) (gc_swap durable plan ?st)"
    have e2: "gs_log ?st2 = gs_log st @ ?new" "gs_published ?st2 = length (gs_log ?st2)"
      "gs_ticket ?st2 = gs_ticket st" "gs_queue ?st2 = gs_queue st" "inflight ?st2 = []"
      "gs_finished ?st2 = gs_finished st @ ds"
      using du pub by (auto simp: gc_answer_def gc_swap_def gc_written_def rs(1) inflight_def)
    have "gc_answers ?st2"
    proof (rule gc_log_extend_answers [OF a w i k pub t e2(1,3)])
      fix d assume "d \<in> set (gs_finished ?st2)"
      then consider "d \<in> set (gs_finished st)" | "d \<in> set ds" unfolding e2 by auto
      then show "d \<in> set (gs_finished st) \<or> d \<in> rq_finish NOT_ACCEPTED None ` set (gs_queue st) \<or>
         rq_status d \<noteq> Some NOT_ACCEPTED \<and> (rq_status d = Some (Logged APPLIED) \<longrightarrow>
           (\<exists>q. rq_wal_seq d = Some q \<and> (rq_ticket d, cmd_frame (rq_cmd d) q) \<in> set (published ?st2)))"
      proof cases
        case 2
        from ds(2) [OF this] obtain j where j: "j < length batch"
          "d = rq_finish (pr_status (rs ! j)) (pr_wal_seq (rs ! j)) (batch ! j)" by blast
        have m: "rs ! j \<in> set rs" using j(1) len by simp
        have tj: "pr_ticket (rs ! j) = rq_ticket (batch ! j)"
          using rs(2) j(1) len nth_map [of j rs pr_ticket] nth_map [of j batch rq_ticket] by simp
        have "\<exists>q. pr_wal_seq (rs ! j) = Some q \<and> (rq_ticket (batch ! j), cmd_frame (rq_cmd (batch ! j)) q) \<in> set ?new"
          if "pr_status (rs ! j) = Logged APPLIED"
          using that rs(3) m plan_log_nth [of j "map rq_cmd batch" rs] j(1) len tj by auto
        moreover have "set (published ?st2) = set (gs_log st) \<union> set ?new" using e2(1,2) by simp
        ultimately show ?thesis using rs(3) m by (auto simp: j(2))
      qed simp
    qed (use e2 pub in simp_all)
    then show ?thesis using Inr c Ret ds(1) by (simp add: gc_commit_def rs(1))
  next
    case (Raise x)
    have "gc_answers (gc_poison COMMIT_UNKNOWN batch ?st)"
      by (rule gc_log_extend_answers [OF a w i k pub t])
        (auto simp: gc_poison_def release_lease_def gc_written_def rs(1) inflight_def)
    then show ?thesis using Inr c Raise by (simp add: gc_commit_def)
  next
    case Killed
    have "gc_answers (?st\<lparr>gs_killed := True\<rparr>)"
      by (rule gc_log_extend_answers [OF a w i k pub t]) (auto simp: gc_written_def rs(1))
    then show ?thesis using Inr c Killed by (simp add: gc_commit_def)
  qed
qed

end

end
