(* ===== verification/GroupRecovery.thy ===== *)
theory GroupRecovery
  imports GroupCommit
begin

section \<open>Runs of the group commit store, and crashes\<close>

text \<open>
  The invariants of \<open>GroupCommit\<close> over whole runs, from a created or a resumed store: whatever
  interleaving of submissions, cancellations, timeouts, worker turns, fences and kills, and
  whatever the disk does to each write. Then what a crash leaves, and what \<open>gc_resume\<close> makes of it.
\<close>

lemma withdraw_answers:
  assumes a: "gc_answers st"
  shows "gc_answers (withdraw t st)"
  by (rule gc_answers_frame [OF a]) (auto simp: withdraw_def inflight_def)

lemma last_frame_seq:
  assumes "frames_ok (sg_first s) fs"
  shows "(if fs = [] then sg_first s - 1 else fst (snd (last fs))) = next_seq_of s fs - 1"
proof (cases fs rule: rev_cases)
  case (snoc gs f)
  then show ?thesis using assms by (simp add: next_seq_of_def frame_seq_fst frames_ok_def)
qed (simp add: next_seq_of_def)

context l0_index
begin

lemma gc_step_inv:
  assumes s: "gc_step ops st st'" and i: "gc_inv ops winv tinv key s base h0 fs0 st"
  shows "gc_inv ops winv tinv key s base h0 fs0 st'"
proof -
  have w: "gc_wf st" and l: "gc_log_ok ops winv tinv key s base h0 fs0 st" and q: "gc_quiet st" and a: "gc_answers st"
    using i by (simp_all add: gc_inv_def)
  have "gc_answers st'"
    using s
  proof cases
    case (gstep_submit op fid ver v oid r)
    then show ?thesis using gc_submit_answers [OF a] by blast
  next
    case (gstep_cancel t b)
    then have "st' = st \<or> st' = withdraw t st" by (auto simp: gc_cancel_def split: if_splits)
    then show ?thesis using withdraw_answers [OF a] a by auto
  next
    case (gstep_timeout t ans)
    then have "st' = st \<or> st' = withdraw t st" by (auto simp: gc_resolve_def split: option.splits if_splits)
    then show ?thesis using withdraw_answers [OF a] a by auto
  next
    case gstep_stop
    then show ?thesis using gc_answers_frame [OF a, of st'] by (simp add: gc_stop_def)
  next
    case gstep_fence
    then show ?thesis using gc_answers_frame [OF a, of st'] by (auto simp: gc_fence_def inflight_def split: if_splits)
  next
    case gstep_claim
    from gc_claim_cases [OF gstep_claim(4)] obtain pre q where
      p: "gs_queue st = pre @ q" "gs_queue (gc_claim st) = q"
        "inflight (gc_claim st) = map claim (filter (\<lambda>r. \<not> rq_cancelled r) pre)"
        "gs_finished (gc_claim st) = gs_finished st @ map (rq_finish NOT_ACCEPTED None) (filter rq_cancelled pre)"
      by metis
    show ?thesis unfolding gstep_claim(1)
      by (rule gc_answers_frame [OF a]) (auto simp: p)
  next
    case (gstep_commit batch sc)
    then show ?thesis using gc_commit_answers [OF w l q a] by blast
  next
    case gstep_kill
    then show ?thesis using gc_answers_frame [OF a, of st'] by (simp add: inflight_def)
  qed
  then show ?thesis
    using gc_step_wf [OF s w] gc_step_log [OF s l q] by (simp add: gc_inv_def)
qed

lemma gc_run_inv:
  "gc_run ops st st' \<Longrightarrow> gc_inv ops winv tinv key s base h0 fs0 st \<Longrightarrow> gc_inv ops winv tinv key s base h0 fs0 st'"
  by (induction rule: gc_run.induct) (auto intro: gc_step_inv)

end

text \<open>Nothing a poisoned store or a crash leaves behind is lost, and nothing torn is kept.\<close>

lemma frame_in_history:
  assumes "abs_replay b h fs = Inr (Inr h')" "(op, q, oid, fid, ver, v) \<in> set fs"
  shows "\<exists>d. content_digest op fid ver v = Inr d \<and> snd h' oid = Some (d, q)"
  using assms
proof (induction fs arbitrary: h)
  case (Cons f fs)
  obtain h1 where h1: "abs_step b h f = Inr (Inr h1)" "abs_replay b h1 fs = Inr (Inr h')"
    using Cons.prems(1) by (auto split: sum.splits)
  show ?case
  proof (cases "f = (op, q, oid, fid, ver, v)")
    case True
    then obtain d where "content_digest op fid ver v = Inr d" "snd h1 oid = Some (d, q)"
      using h1(1) by (cases h) (auto simp: abs_step_def split: sum.splits option.splits if_splits)
    then show ?thesis using abs_replay_keeps [OF h1(2)] by blast
  qed (use Cons h1(2) in auto)
qed simp

context l0_index
begin

text \<open>\<open>resume_existing\<close> of a scanned file, over any base.\<close>

lemma gc_resume_scanned:
  assumes s: "seg_id_ok s"
    and sr: "scan (Some b) key True (sg_scope s) (sg_segment s) None =
      \<lparr>sr_class = c, sr_frames = fs, sr_last_seq = next_seq_of s fs - 1,
       sr_consumed = length (wal_image key s fs), sr_dropped = d, sr_sealed = False,
       sr_header = Some (header_info s)\<rparr>"
    and c: "c \<in> {CLEAN, TAIL_DROPPED}"
    and b: "take (length (wal_image key s fs)) b = wal_image key s fs" "c = CLEAN \<longrightarrow> b = wal_image key s fs"
    and ok: "frames_ok (sg_first s) fs"
    and h: "abs_replay (case base of None \<Rightarrow> EmptyBaseView | Some b \<Rightarrow> b) history0 fs = Inr (Inr h)"
    and du: "du \<le> length b"
    and ex: "ek = None \<or> ek = Some (sg_key_id s)" "ep = None \<or> ep = Some (sg_prev s)"
  shows "\<exists>st. gc_resume ops b du key (sg_scope s) (sg_segment s) lim base ek ep = Inr st \<and>
    gs_file st = wal_image key s fs \<and> gs_log st = [] \<and> gs_finished st = [] \<and>
    (gs_durable st = du \<or> gs_durable st = length (wal_image key s fs)) \<and>
    snapshot_ok ops key s (case base of None \<Rightarrow> EmptyBaseView | Some b \<Rightarrow> b) history0 fs h (gs_snapshot st) (gs_hasher st) \<and>
    gc_inv ops winv tinv key s (case base of None \<Rightarrow> EmptyBaseView | Some b \<Rightarrow> b) history0 fs st"
proof -
  let ?base = "case base of None \<Rightarrow> EmptyBaseView | Some b \<Rightarrow> b"
  from reduce_frames_refines [where base = base and frs = fs and i = "sg_first s - 1"] h obtain rr where
    rr: "reduce_frames ops fs None base (sg_first s - 1) = Inr rr" "rr_class rr = REDUCE_OK"
      "winv (rr_index rr)" "tinv (rr_txindex rr)" "io_wal_get ops (rr_index rr) = fst h"
      "\<And>k d. io_tx_check ops (rr_txindex rr) k d = (case snd h k of None \<Rightarrow> TxNew
           | Some (e, s) \<Rightarrow> if e = d then TxReplay else TxConflict)"
      "\<And>k. io_tx_get_seq ops (rr_txindex rr) k = map_option snd (snd h k)"
      "rr_applied_seq rr = (if fs = [] then sg_first s - 1 else fst (snd (last fs)))"
    by auto
  have seq: "rr_applied_seq rr = next_seq_of s fs - 1"
    unfolding rr(8) by (rule last_frame_seq [OF ok])
  let ?snap = "\<lparr>ls_index = rr_index rr, ls_txindex = rr_txindex rr,
      ls_visible_through_seq = rr_applied_seq rr, ls_wal_head = head_of key s fs\<rparr>"
  let ?st = "gc_boot key (sg_scope s) (sg_segment s) (wal_image key s fs)
      (if c = TAIL_DROPPED then length (wal_image key s fs) else du) ?snap (wal_image key s fs) lim base
      (sg_key_id s) (sg_prev s) False"
  have "gc_resume ops b du key (sg_scope s) (sg_segment s) lim base ek ep = Inr ?st"
    using c b ex rr(1,2) by (auto simp: gc_resume_def sr Let_def header_info_def head_of_def seq)
  moreover have sn: "snapshot_ok ops key s ?base history0 fs h ?snap (wal_image key s fs)"
    using s ok h rr(5-7) by (simp add: snapshot_ok_def index_reads_def seq)
  moreover have "gc_log_ok ops winv tinv key s ?base history0 fs ?st"
    using sn rr(3,4) ok h du b(2) c by (cases h) (auto simp: gc_log_ok_def gc_boot_def)
  moreover have "gc_quiet ?st" "gc_answers ?st"
    by (simp_all add: gc_quiet_def gc_answers_def gc_boot_def inflight_def)
  moreover have "gc_wf ?st" by (rule gc_boot_wf)
  moreover have "gs_file ?st = wal_image key s fs" "gs_log ?st = []" "gs_finished ?st = []"
    "gs_durable ?st = du \<or> gs_durable ?st = length (wal_image key s fs)"
    "gs_snapshot ?st = ?snap" "gs_hasher ?st = wal_image key s fs"
    by (simp_all add: gc_boot_def)
  ultimately show ?thesis unfolding gc_inv_def by metis
qed

text \<open>A crash of a store keeps a prefix of the log that has every published frame.\<close>

lemma gc_crash_resume:
  assumes i: "gc_inv ops winv tinv key s (case base of None \<Rightarrow> EmptyBaseView | Some b \<Rightarrow> b) history0 fs0 st"
    and k: "gs_durable st \<le> k" "k \<le> length (gs_file st)" "67 \<le> k" and du: "du \<le> k"
  obtains n h st' where "n \<le> length (fs0 @ map snd (gs_log st))"
    "\<And>m. m \<le> length (fs0 @ map snd (gs_log st)) \<Longrightarrow>
       length (wal_image key s (take m (fs0 @ map snd (gs_log st)))) \<le> k \<Longrightarrow> m \<le> n"
    "gs_durable st' = du \<or> gs_durable st' = length (wal_image key s (take n (fs0 @ map snd (gs_log st))))"
    "gs_log st' = []" "gs_finished st' = []"
    "gc_resume ops (take k (gs_file st)) du key (sg_scope s) (sg_segment s) lim base None None = Inr st'"
    "snapshot_ok ops key s (case base of None \<Rightarrow> EmptyBaseView | Some b \<Rightarrow> b) history0
      (take n (fs0 @ map snd (gs_log st))) h (gs_snapshot st') (gs_hasher st')"
    "gc_inv ops winv tinv key s (case base of None \<Rightarrow> EmptyBaseView | Some b \<Rightarrow> b) history0
      (take n (fs0 @ map snd (gs_log st))) st'"
proof -
  let ?base = "case base of None \<Rightarrow> EmptyBaseView | Some b \<Rightarrow> b"
  let ?all = "fs0 @ map snd (gs_log st)"
  have "gc_log_ok ops winv tinv key s ?base history0 fs0 st" using i by (simp add: gc_inv_def)
  note l = this [unfolded gc_log_ok_def]
  have s: "seg_id_ok s" using l by (auto simp: snapshot_ok_def)
  have ok: "frames_ok (sg_first s) ?all" using l by blast
  obtain h where h: "abs_replay ?base history0 ?all = Inr (Inr h)" using l by blast
  obtain j where j: "gs_file st = wal_image key s (fs0 @ map snd (published st))
      @ take j (frames_bytes key (sg_scope s) (sg_segment s) (map snd (unpublished st)))" using l by blast
  have all: "?all = (fs0 @ map snd (published st)) @ map snd (unpublished st)"
    by (simp flip: map_append)
  have img: "gs_file st = take (length (gs_file st)) (wal_image key s ?all)"
    unfolding all wal_image_append [of key s "fs0 @ map snd (published st)"] by (simp add: j min_def)
  have le: "length (gs_file st) \<le> length (wal_image key s ?all)"
    using arg_cong [OF img, of length] by simp
  have cut: "take k (gs_file st) = take k (wal_image key s ?all)"
    using arg_cong [OF img, of "take k"] k(2) by (simp only: take_take min.absorb1)
  have "k \<le> length (wal_image key s ?all)" using k(2) le by simp
  from scan_cut [OF s ok k(3) this, of True] obtain n c d where
    n: "n \<le> length ?all" and sr: "scan (Some (take k (wal_image key s ?all))) key True (sg_scope s) (sg_segment s) None =
      \<lparr>sr_class = c, sr_frames = take n ?all, sr_last_seq = next_seq_of s (take n ?all) - 1,
       sr_consumed = length (wal_image key s (take n ?all)), sr_dropped = d, sr_sealed = False,
       sr_header = Some (header_info s)\<rparr>"
    and c: "c \<in> {CLEAN, TAIL_DROPPED}"
      "take (length (wal_image key s (take n ?all))) (take k (wal_image key s ?all)) = wal_image key s (take n ?all)"
      "c = CLEAN \<longrightarrow> take k (wal_image key s ?all) = wal_image key s (take n ?all)"
    and mx: "\<forall>m \<le> length ?all. length (wal_image key s (take m ?all)) \<le> k \<longrightarrow> m \<le> n"
    by blast
  obtain hn where hn: "abs_replay ?base history0 (take n ?all) = Inr (Inr hn)"
    using abs_replay_take [OF h] by blast
  have okn: "frames_ok (sg_first s) (take n ?all)"
    using ok append_take_drop_id [of n ?all] by (metis frames_ok_simps(3))
  have "du \<le> length (take k (wal_image key s ?all))" using k du le by simp
  from gc_resume_scanned [OF s sr c okn hn this, where lim = lim and ek = None and ep = None] obtain st' where
    st': "gc_resume ops (take k (wal_image key s ?all)) du key (sg_scope s) (sg_segment s) lim base None None = Inr st'"
      "snapshot_ok ops key s ?base history0 (take n ?all) hn (gs_snapshot st') (gs_hasher st')"
      "gs_durable st' = du \<or> gs_durable st' = length (wal_image key s (take n ?all))"
      "gs_log st' = []" "gs_finished st' = []"
      "gc_inv ops winv tinv key s ?base history0 (take n ?all) st'"
    by blast
  show ?thesis
    by (rule that [of n st' hn, unfolded cut]) (fact n, rule mx [rule_format], assumption+, (fact st')+)
qed

lemma empty_snapshot:
  assumes s: "seg_id_ok s"
  shows "\<exists>snap. snapshot_ok ops key s base history0 [] history0 snap (header_bytes key s) \<and>
    winv (ls_index snap) \<and> tinv (ls_txindex snap)"
  using s by (intro exI [of _ "\<lparr>ls_index = io_wal_new ops, ls_txindex = io_tx_new ops,
      ls_visible_through_seq = sg_first s - 1, ls_wal_head = head_of key s []\<rparr>"])
    (simp add: snapshot_ok_def index_reads_def wal_image_def next_seq_of_def new_get new_check new_get_seq new_inv
        history0_def fun_eq_iff)

text \<open>Creating: the header is on disk, the history empty.\<close>

lemma gc_create_inv:
  assumes s: "seg_id_ok s"
    and c: "gc_create ops ex key (sg_scope s) (sg_segment s) (sg_first s) lim base (sg_key_id s) (sg_prev s) sc = (Ret st, file)"
  shows "gc_inv ops winv tinv key s (case base of None \<Rightarrow> EmptyBaseView | Some b \<Rightarrow> b) history0 [] st \<and>
    gs_durable st = 67 \<and> gs_finished st = [] \<and> gs_log st = []"
proof -
  let ?base = "case base of None \<Rightarrow> EmptyBaseView | Some b \<Rightarrow> b"
  have lh: "length (header_bytes key s) = 67" by (rule length_header_bytes [OF s])
  let ?snap = "\<lparr>ls_index = io_wal_new ops, ls_txindex = io_tx_new ops, ls_visible_through_seq = sg_first s - 1,
      ls_wal_head = head_of key s []\<rparr>"
  have st: "st = gc_boot key (sg_scope s) (sg_segment s) (header_bytes key s) 67 ?snap (header_bytes key s) lim base
      (sg_key_id s) (sg_prev s) False"
    using c header_bytes_eq(1) [OF s, of key] lh
    by (auto simp: gc_create_def Let_def head_of_def next_seq_of_def wal_image_def
        dest!: write_all_prefix split: option.splits prod.splits io_end.splits bool.splits)
  have sn: "snapshot_ok ops key s ?base history0 [] history0 ?snap (header_bytes key s)"
    using s by (simp add: snapshot_ok_def index_reads_def wal_image_def next_seq_of_def new_get new_check new_get_seq
        history0_def fun_eq_iff)
  have "gc_log_ok ops winv tinv key s ?base history0 [] st"
    using sn by (auto simp: gc_log_ok_def st gc_boot_def new_inv wal_image_def lh history0_def)
  moreover have "gc_quiet st" "gc_answers st" "gc_wf st"
    unfolding st by (rule gc_boot_wf | simp add: gc_quiet_def gc_answers_def gc_boot_def inflight_def)+
  ultimately show ?thesis by (simp add: gc_inv_def) (simp add: st gc_boot_def)
qed

end

subsection \<open>Many lives of a store\<close>

text \<open>The operations a state has answered \<open>APPLIED\<close>: id, digest and sequence number.\<close>

definition applied_answers :: "('w, 't) gc_store \<Rightarrow> (bytes \<times> bytes \<times> int) list" where
  "applied_answers st = map (\<lambda>r. (cc_operation_id (rq_cmd r), projr (cmd_digest (rq_cmd r)), the (rq_wal_seq r)))
     (filter (\<lambda>r. rq_status r = Some (Logged APPLIED)) (gs_finished st))"

text \<open>
  A life starts with the constructor; a crash (of the process or of the machine) keeps some
  prefix of the file with everything that was synced, and \<open>resume_existing\<close> starts the next life.
  The answers of earlier lives are collected.
\<close>

inductive gc_lives ::
  "('w, 'wb, 't, 'tb) index_ops \<Rightarrow> bytes \<Rightarrow> seg_id \<Rightarrow> base_view option \<Rightarrow> ('w, 't) gc_store \<Rightarrow> (bytes \<times> bytes \<times> int) list \<Rightarrow> bool"
  for ops :: "('w, 'wb, 't, 'tb) index_ops" and key :: bytes and s :: seg_id and base :: "base_view option" where
  lives_create: "seg_id_ok s \<Longrightarrow>
    gc_create ops None key (sg_scope s) (sg_segment s) (sg_first s) lim base (sg_key_id s) (sg_prev s) sc = (Ret st, file) \<Longrightarrow>
    gc_lives ops key s base st []"
| lives_step: "gc_lives ops key s base st acks \<Longrightarrow> gc_step ops st st' \<Longrightarrow> gc_lives ops key s base st' acks"
| lives_crash: "gc_lives ops key s base st acks \<Longrightarrow> gs_durable st \<le> du \<Longrightarrow> du \<le> k \<Longrightarrow> k \<le> length (gs_file st) \<Longrightarrow>
    gc_resume ops (take k (gs_file st)) du key (sg_scope s) (sg_segment s) lim base None None = Inr st' \<Longrightarrow>
    gc_lives ops key s base st' (acks @ applied_answers st)"

definition acked_in :: "(bytes \<times> bytes \<times> int) list \<Rightarrow> wframe list \<Rightarrow> bool" where
  "acked_in acks fs \<longleftrightarrow> (\<forall>(oid, d, q) \<in> set acks. \<exists>op fid ver v. (op, q, oid, fid, ver, v) \<in> set fs \<and>
     content_digest op fid ver v = Inr d)"

definition lives_ok ::
  "('w, 'wb, 't, 'tb) index_ops \<Rightarrow> ('w \<Rightarrow> bool) \<Rightarrow> ('t \<Rightarrow> bool) \<Rightarrow> bytes \<Rightarrow> seg_id \<Rightarrow> base_view option
     \<Rightarrow> ('w, 't) gc_store \<Rightarrow> (bytes \<times> bytes \<times> int) list \<Rightarrow> bool" where
  "lives_ok ops wi ti key s base st acks \<longleftrightarrow>
     (\<exists>fs0 m. gc_inv ops wi ti key s (case base of None \<Rightarrow> EmptyBaseView | Some b \<Rightarrow> b) history0 fs0 st \<and>
       m \<le> length fs0 \<and> length (wal_image key s (take m fs0)) \<le> gs_durable st \<and> 67 \<le> gs_durable st \<and>
       acked_in acks (take m fs0))"

lemma digest_of_frame:
  assumes "abs_replay b h fs = Inr (Inr h')" "cmd_frame cmd q \<in> set fs"
  shows "content_digest (cc_op cmd) (cc_fact_id cmd) (cc_fact_version cmd) (cc_value cmd) = Inr (projr (cmd_digest cmd))"
  using frame_in_history [OF assms(1)] assms(2) by (force simp: cmd_frame_def cmd_digest_def)

lemma acked_in_applied:
  assumes a: "gc_answers st" and r: "abs_replay b h (fs0 @ map snd (gs_log st)) = Inr (Inr h')"
  shows "acked_in (applied_answers st) (map snd (published st))"
proof -
  have "\<exists>op fid ver v. (op, the (rq_wal_seq r), cc_operation_id (rq_cmd r), fid, ver, v) \<in> set (map snd (published st)) \<and>
     content_digest op fid ver v = Inr (projr (cmd_digest (rq_cmd r)))"
    if m: "r \<in> set (gs_finished st)" "rq_status r = Some (Logged APPLIED)" for r
  proof -
    from gc_answersD(1) [OF a m] obtain q where q: "rq_wal_seq r = Some q"
      "(rq_ticket r, cmd_frame (rq_cmd r) q) \<in> set (published st)" by blast
    have f: "cmd_frame (rq_cmd r) q \<in> set (map snd (published st))" using q(2) by force
    then have "cmd_frame (rq_cmd r) q \<in> set (fs0 @ map snd (gs_log st))"
      using set_take_subset [of "gs_published st" "gs_log st"] by auto
    from digest_of_frame [OF r this] f q(1) show ?thesis unfolding cmd_frame_def by (metis option.sel)
  qed
  then show ?thesis by (auto simp: acked_in_def applied_answers_def)
qed

lemma acked_in_append: "acked_in (xs @ ys) fs \<longleftrightarrow> acked_in xs fs \<and> acked_in ys fs"
  unfolding acked_in_def set_append ball_Un ..

lemma acked_in_mono: "acked_in xs fs \<Longrightarrow> set fs \<subseteq> set gs \<Longrightarrow> acked_in xs gs"
  unfolding acked_in_def by fast

context l0_index
begin

lemma gc_durable_grows:
  assumes st: "gc_step ops st st'" and l: "gs_durable st \<le> length (gs_file st)"
  shows "gs_durable st \<le> gs_durable st'"
  using st
proof cases
  case (gstep_commit batch sc)
  show ?thesis
  proof (cases "gc_plan ops st batch")
    case (Inl e)
    then show ?thesis by (simp add: gstep_commit(1) gc_commit_def)
  next
    case (Inr plan)
    obtain r fl where c: "commit_prepared (gs_file st) plan sc = (r, fl)" by fastforce
    have "length (gs_file st) \<le> length fl" using commit_prepared_file [OF c] by auto
    then show ?thesis
      using l Inr c by (auto simp: gstep_commit(1) gc_commit_def gc_poison_def release_lease_def gc_written_def
          gc_swap_def gc_answer_def split: out.splits option.splits)
  qed
qed (auto simp: gc_submit_def gc_cancel_def gc_resolve_def withdraw_def gc_stop_def gc_fence_def gc_claim_def
    Let_def split: if_splits option.splits prod.splits)

lemma gc_lives_ok: "gc_lives ops key s base st acks \<Longrightarrow> lives_ok ops winv tinv key s base st acks"
proof (induction rule: gc_lives.induct)
  case (lives_create lim sc st image)
  from gc_create_inv [OF lives_create] show ?case
    unfolding lives_ok_def acked_in_def using length_header_bytes [OF lives_create(1), of key]
    by (intro exI [of _ "[]"] exI [of _ 0]) (simp add: wal_image_def)
next
  case (lives_step st acks st')
  from lives_step.IH obtain fs0 m where
    i: "gc_inv ops winv tinv key s (case base of None \<Rightarrow> EmptyBaseView | Some b \<Rightarrow> b) history0 fs0 st"
    and m: "m \<le> length fs0" "length (wal_image key s (take m fs0)) \<le> gs_durable st" "67 \<le> gs_durable st"
      "acked_in acks (take m fs0)"
    unfolding lives_ok_def by blast
  have "gs_durable st \<le> gs_durable st'"
    using gc_durable_grows [OF lives_step.hyps(2)] i by (simp add: gc_inv_def gc_log_ok_def)
  then show ?case
    unfolding lives_ok_def using gc_step_inv [OF lives_step.hyps(2) i] m by (meson le_trans)
next
  case (lives_crash st acks du k lim st')
  let ?base = "case base of None \<Rightarrow> EmptyBaseView | Some b \<Rightarrow> b"
  from lives_crash.IH obtain fs0 m where
    i: "gc_inv ops winv tinv key s ?base history0 fs0 st"
    and m: "m \<le> length fs0" "length (wal_image key s (take m fs0)) \<le> gs_durable st" "67 \<le> gs_durable st"
      "acked_in acks (take m fs0)"
    unfolding lives_ok_def by blast
  let ?all = "fs0 @ map snd (gs_log st)"
  have l: "gc_log_ok ops winv tinv key s ?base history0 fs0 st" and a: "gc_answers st"
    using i by (simp_all add: gc_inv_def)
  obtain h where h: "abs_replay ?base history0 ?all = Inr (Inr h)" using l unfolding gc_log_ok_def by blast
  have pre: "take (length fs0 + gs_published st) ?all = fs0 @ map snd (published st)"
    "length fs0 + gs_published st \<le> length ?all"
    using l by (simp_all add: take_map gc_log_ok_def)
  have k: "gs_durable st \<le> k" "67 \<le> k" using lives_crash.hyps m by simp_all
  define m' where "m' = (if published st = [] then m else length fs0 + gs_published st)"
  have m': "m' \<le> length ?all" "length (wal_image key s (take m' ?all)) \<le> gs_durable st" "m \<le> m'"
    using m(1,2) pre l by (auto simp: m'_def gc_log_ok_def)
  have acks: "acked_in (acks @ applied_answers st) (take m' ?all)"
  proof -
    have "acked_in acks (take m' ?all)"
      by (rule acked_in_mono [OF m(4)]) (use m(1) m'(3) set_take_subset_set_take [of m m' ?all] in simp)
    moreover have "acked_in (applied_answers st) (take m' ?all)"
    proof (cases "published st = []")
      case True
      then show ?thesis using acked_in_applied [OF a h] by (auto simp: acked_in_def)
    next
      case False
      then have "take m' ?all = fs0 @ map snd (published st)" using pre(1) by (simp add: m'_def)
      then show ?thesis using acked_in_mono [OF acked_in_applied [OF a h]] by auto
    qed
    ultimately show ?thesis by (simp add: acked_in_append)
  qed
  obtain n st1 where
    n: "n \<le> length ?all" "\<And>m. m \<le> length ?all \<Longrightarrow> length (wal_image key s (take m ?all)) \<le> k \<Longrightarrow> m \<le> n"
      "gs_durable st1 = du \<or> gs_durable st1 = length (wal_image key s (take n ?all))"
      "gc_resume ops (take k (gs_file st)) du key (sg_scope s) (sg_segment s) lim base None None = Inr st1"
      "gc_inv ops winv tinv key s ?base history0 (take n ?all) st1"
    by (rule gc_crash_resume [OF i k(1) lives_crash.hyps(4) k(2) lives_crash.hyps(3), where lim = lim]) (rule that; assumption)
  have e: "st1 = st'" using n(4) lives_crash.hyps(5) by simp
  have mn: "m' \<le> n" using n(2) m'(1,2) k(1) le_trans by blast
  have t: "take m' (take n ?all) = take m' ?all" using mn by (simp add: min_def)
  have "length (wal_image key s (take m' ?all)) \<le> length (wal_image key s (take n ?all))"
    using mn image_take_mono by blast
  moreover have "67 \<le> length (wal_image key s (take n ?all))"
    using l by (auto simp: gc_log_ok_def snapshot_ok_def wal_image_def length_header_bytes)
  ultimately have "length (wal_image key s (take m' (take n ?all))) \<le> gs_durable st'" "67 \<le> gs_durable st'"
    unfolding t using n(3) m'(2) lives_crash.hyps(2) m(3) unfolding e by linarith+
  moreover have "m' \<le> length (take n ?all)" using mn n(1) by simp
  ultimately show ?case
    unfolding lives_ok_def using n(5) acks t unfolding e by metis
qed

text \<open>Every answer of every life is known to the current snapshot, and every crash can be resumed.\<close>

lemma gc_lives_reads:
  assumes lv: "gc_lives ops key s base st acks" and a: "(oid, d, q) \<in> set acks"
  shows "io_tx_check ops (ls_txindex (gs_snapshot st)) oid d = TxReplay \<and>
    io_tx_get_seq ops (ls_txindex (gs_snapshot st)) oid = Some q"
proof -
  let ?base = "case base of None \<Rightarrow> EmptyBaseView | Some b \<Rightarrow> b"
  from gc_lives_ok [OF lv] obtain fs0 m where
    i: "gc_inv ops winv tinv key s ?base history0 fs0 st" and m: "acked_in acks (take m fs0)"
    unfolding lives_ok_def by blast
  obtain h where h: "snapshot_ok ops key s ?base history0 (fs0 @ map snd (published st)) h (gs_snapshot st) (gs_hasher st)"
    using i unfolding gc_inv_def gc_log_ok_def by blast
  from m a obtain op fid ver v where f: "(op, q, oid, fid, ver, v) \<in> set (take m fs0)"
    "content_digest op fid ver v = Inr d"
    by (fastforce simp: acked_in_def)
  then have "(op, q, oid, fid, ver, v) \<in> set (fs0 @ map snd (published st))"
    using set_take_subset by fastforce
  from frame_in_history [OF _ this, of ?base history0 h] h f(2) have "snd h oid = Some (d, q)"
    by (auto simp: snapshot_ok_def)
  then show ?thesis using h by (simp add: snapshot_ok_def index_reads_def)
qed

lemma gc_lives_resume:
  assumes lv: "gc_lives ops key s base st acks" and k: "gs_durable st \<le> du" "du \<le> k" "k \<le> length (gs_file st)"
  shows "\<exists>st'. gc_resume ops (take k (gs_file st)) du key (sg_scope s) (sg_segment s) lim base None None = Inr st' \<and>
    gc_lives ops key s base st' (acks @ applied_answers st)"
proof -
  from gc_lives_ok [OF lv] obtain fs0 where
    i: "gc_inv ops winv tinv key s (case base of None \<Rightarrow> EmptyBaseView | Some b \<Rightarrow> b) history0 fs0 st" and d: "67 \<le> gs_durable st"
    unfolding lives_ok_def by blast
  have "gs_durable st \<le> k" "67 \<le> k" using k d by simp_all
  then obtain st' where
    "gc_resume ops (take k (gs_file st)) du key (sg_scope s) (sg_segment s) lim base None None = Inr st'"
    by (rule gc_crash_resume [OF i _ k(3) _ k(2), where lim = lim]) (rule that; assumption)
  then show ?thesis using lives_crash [OF lv k] by blast
qed

lemma gc_lives_survive:
  assumes lv: "gc_lives ops key s base st acks" and k: "gs_durable st \<le> du" "du \<le> k" "k \<le> length (gs_file st)"
    and a: "(oid, d, q) \<in> set (acks @ applied_answers st)"
  shows "\<exists>st'. gc_resume ops (take k (gs_file st)) du key (sg_scope s) (sg_segment s) lim base None None = Inr st' \<and>
    io_tx_check ops (ls_txindex (gs_snapshot st')) oid d = TxReplay \<and>
    io_tx_get_seq ops (ls_txindex (gs_snapshot st')) oid = Some q"
  using gc_lives_resume [OF lv k, of lim] gc_lives_reads a by blast

lemma gc_lives_not_accepted:
  assumes lv: "gc_lives ops key s base st acks"
    and r: "r \<in> set (gs_finished st)" "rq_status r = Some NOT_ACCEPTED"
  shows "rq_ticket r \<notin> fst ` set (gs_log st)"
proof -
  from gc_lives_ok [OF lv] have "gc_answers st" by (auto simp: lives_ok_def gc_inv_def)
  from gc_answersD(2) [OF this r] show ?thesis .
qed

lemma gc_lives_refused:
  assumes lv: "gc_lives ops key s base st acks"
    and t: "t \<in> set (gs_withdrawn st) \<or> (\<exists>r \<in> set (gs_finished st). rq_ticket r = t \<and> rq_status r = Some NOT_ACCEPTED)"
  shows "t \<notin> fst ` set (gs_log st)"
proof -
  from gc_lives_ok [OF lv] have a: "gc_answers st" and w: "gc_withdrawals st"
    by (auto simp: lives_ok_def gc_inv_def gc_wf_def)
  from t w consider r where "r \<in> set (gs_queue st)" "rq_ticket r = t"
    | r where "r \<in> set (gs_finished st)" "rq_ticket r = t" "rq_status r = Some NOT_ACCEPTED"
    unfolding gc_withdrawals_def by blast
  then show ?thesis by cases (use gc_answersD(2,3) [OF a] in blast)+
qed

lemma gc_lives_wf: "gc_lives ops key s base st acks \<Longrightarrow> gc_wf st"
  using gc_lives_ok by (auto simp: lives_ok_def gc_inv_def)

end

lemma gc_wf_summary:
  assumes w: "gc_wf st"
  shows "distinct (map rq_ticket (gs_finished st @ inflight st @ gs_queue st)) \<and>
    rq_ticket ` set (gs_finished st @ inflight st @ gs_queue st) = {1..int (gs_ticket st)} \<and>
    sorted_wrt (<) (map rq_ticket (inflight st @ gs_queue st)) \<and>
    (\<forall>r \<in> set (gs_finished st). rq_state r = DONE \<and> rq_status r \<noteq> None) \<and>
    gs_queue_bytes st = sum_list (map rq_size (gs_queue st)) \<and>
    length (gs_queue st) \<le> max_queue_commands (gs_limits st) \<and>
    gs_queue_bytes st \<le> max_queue_bytes (gs_limits st) \<and>
    length (inflight st) \<le> max_batch_commands (gs_limits st)"
proof -
  have "gc_tickets st" using w by (simp add: gc_wf_def)
  note t = gc_tickets_range [OF this]
  show ?thesis
    using t(2) t(1) w by (simp only: set_append Un_assoc) (simp add: gc_wf_def gc_fifo_def gc_states_def gc_bounds_def)
qed

text \<open>A command whose version does not fit the frame ends the worker in the middle of its batch.\<close>

lemma gc_commit_wide:
  assumes "r \<in> set batch" "cmd_ok (gs_u8_domain st) (rq_cmd r)" "2 ^ 32 \<le> cc_fact_version (rq_cmd r)"
  shows "gc_commit ops st batch sc = st\<lparr>gs_worker_dead := True\<rparr>"
proof -
  have "\<not> version_fits (gs_u8_domain st) (rq_cmd r)" using assms by (simp add: version_fits_def)
  moreover have "rq_cmd r \<in> set (map rq_cmd batch)" using assms(1) by simp
  ultimately obtain e where "gc_plan ops st batch = Inl e"
    using prepare_batch_raises [of "rq_cmd r" "map rq_cmd batch" "gs_u8_domain st"] assms(2) by (metis gc_plan_def)
  then show ?thesis by (simp add: gc_commit_def)
qed

lemma gc_dead_step:
  assumes "gc_step ops st st'" "gs_worker_dead st"
  shows "gs_worker_dead st' \<and> gs_inflight st' = gs_inflight st \<and> gs_finished st' = gs_finished st"
  using assms(1)
proof cases
  case (gstep_claim)
  then show ?thesis using assms(2) by simp
next
  case (gstep_commit batch sc)
  then show ?thesis using assms(2) by simp
qed (use assms(2) in \<open>auto simp: gc_submit_def gc_cancel_def gc_resolve_def withdraw_def gc_stop_def gc_fence_def
    Let_def split: if_splits option.splits\<close>)

lemma gc_dead_run:
  "gc_run ops st st' \<Longrightarrow> gs_worker_dead st \<Longrightarrow>
   gs_worker_dead st' \<and> gs_inflight st' = gs_inflight st \<and> gs_finished st' = gs_finished st"
  by (induction rule: gc_run.induct) (use gc_dead_step in fastforce)+

subsection \<open>One acknowledged command\<close>

definition put5 :: commit_command where
  "put5 = \<lparr>cc_operation_id = opid1, cc_op = OP_PUT, cc_fact_id = 5, cc_fact_version = 1, cc_value = Some 200,
     cc_enqueue_ticket = 1\<rparr>"

lemma put5_simps [simp]:
  "cc_operation_id put5 = opid1" "cc_op put5 = OP_PUT" "cc_fact_id put5 = 5" "cc_fact_version put5 = 1"
  "cc_value put5 = Some 200" "cc_enqueue_ticket put5 = 1" "cmd_ok False put5" "version_fits False put5"
  using cmd1 by (simp_all add: put5_def cmd_ok_def version_fits_def)

lemma put5_batch:
  "\<exists>h. abs_batch EmptyBaseView False history0 1 [put5] = ([PlannedReceipt 1 (Logged APPLIED) (Some 1)], [cmd_frame put5 1], h)"
proof -
  have "abs_decide EmptyBaseView history0 put5 d = None" for d
    by (simp add: abs_decide_def history0_def preflight_def current_line_def EmptyBaseView_def)
  then show ?thesis by (auto simp: Let_def)
qed

context l0_index
begin

lemma gc_created:
  assumes s: "seg_id_ok s"
  shows "\<exists>st. gc_create ops None key (sg_scope s) (sg_segment s) (sg_first s) lim None (sg_key_id s) (sg_prev s) (all_at_once 67)
      = (Ret st, Some (header_bytes key s)) \<and> gs_limits st = lim \<and> gs_queue st = [] \<and> gs_queue_bytes st = 0 \<and>
    gs_ticket st = 0 \<and> \<not> gs_poisoned st \<and> \<not> gs_stop st \<and> \<not> gs_killed st \<and> \<not> gs_worker_dead st \<and>
    gs_inflight st = None \<and> gs_finished st = [] \<and> \<not> gs_u8_domain st \<and>
    ls_wal_head (gs_snapshot st) = head_of key s []"
proof -
  have l: "length (header_bytes key s) = 67" by (rule length_header_bytes [OF s])
  then have w: "write_all None (header_bytes key s) [Wrote 67] = (header_bytes key s, IoDone)"
    using write_all_once [of "header_bytes key s"] by auto
  show ?thesis
    using l w header_bytes_eq(1) [OF s, of key]
    by (simp add: gc_create_def Let_def all_at_once_def gc_boot_def head_of_def next_seq_of_def wal_image_def
        del: write_all.simps)
qed

lemma gc_lives_one:
  "\<exists>st r. gc_lives ops [7] seg31 None st [] \<and> gs_finished st = [r] \<and> rq_cmd r = put5 \<and>
     rq_status r = Some (Logged APPLIED) \<and> rq_wal_seq r = Some 1 \<and> gs_durable st = length (gs_file st) \<and>
     gs_queue st = [] \<and> inflight st = [] \<and> gs_ticket st = 1 \<and> \<not> gs_stop st"
proof -
  from gc_created [OF seg31_ok, of "[7]" default_gc_limits] obtain st0 where
    c: "gc_create ops None [7] (sg_scope seg31) (sg_segment seg31) (sg_first seg31) default_gc_limits None
      (sg_key_id seg31) (sg_prev seg31) (all_at_once 67) = (Ret st0, Some (header_bytes [7] seg31))"
    and e: "gs_limits st0 = default_gc_limits" "gs_queue st0 = []" "gs_queue_bytes st0 = 0" "gs_ticket st0 = 0"
      "\<not> gs_poisoned st0" "\<not> gs_stop st0" "\<not> gs_killed st0" "\<not> gs_worker_dead st0" "gs_inflight st0 = None"
      "gs_finished st0 = []" "\<not> gs_u8_domain st0" "ls_wal_head (gs_snapshot st0) = head_of [7] seg31 []"
    by blast
  have l0: "gc_lives ops [7] seg31 None st0 []" by (rule lives_create [OF seg31_ok c])
  define req where "req = new_request put5 80"
  define st1 where "st1 = st0\<lparr>gs_ticket := 1, gs_queue := [req], gs_queue_bytes := 80\<rparr>"
  have sb: "gc_submit st0 OP_PUT 5 1 (Some 200) opid1 = (req, st1)"
    by (simp add: gc_submit_def Let_def e default_gc_limits_def req_def st1_def put5_def)
  have l1: "gc_lives ops [7] seg31 None st1 []"
    by (rule lives_step [OF l0 gstep_submit [OF e(7) sb]])
  define st2 where "st2 = gc_claim st1"
  have rq: "rq_cancelled req = False" "rq_size req = 80" "rq_cmd req = put5" by (simp_all add: req_def new_request_def)
  have e1: "gs_limits st1 = default_gc_limits" "gs_queue st1 = [req]" "gs_queue_bytes st1 = 80" "gs_finished st1 = []"
    "\<not> gs_killed st1" "\<not> gs_worker_dead st1" "gs_inflight st1 = None"
    using e by (simp_all add: st1_def)
  have l2: "gc_lives ops [7] seg31 None st2 []"
    unfolding st2_def by (rule lives_step [OF l1 gstep_claim]) (use e1 in simp_all)
  have e2: "gs_inflight st2 = Some [claim req]" "gs_queue st2 = []" "gs_finished st2 = []"
    by (simp_all add: st2_def gc_claim_def e1 default_gc_limits_def rq)
  have e2': "\<not> gs_killed st2" "\<not> gs_worker_dead st2" "\<not> gs_u8_domain st2" "\<not> gs_stop st2" "gs_ticket st2 = 1"
    "ls_wal_head (gs_snapshot st2) = head_of [7] seg31 []"
    using e e1 by (simp_all add: st2_def st1_def) (simp add: gc_claim_def e1 split: prod.split)
  have room: "seq_room st2" by (simp add: seq_room_def e2 e2' head_of_def next_seq_of_def seg31_def)
  have i0: "gc_inv ops winv tinv [7] seg31 EmptyBaseView history0 [] st0" and lg: "gs_log st0 = []"
    using gc_create_inv [OF seg31_ok c] by simp_all
  have "gc_inv ops winv tinv [7] seg31 EmptyBaseView history0 [] st2"
    unfolding st2_def by (rule gc_step_inv [OF gstep_claim gc_step_inv [OF gstep_submit i0]]) (use e e1 sb in simp_all)
  moreover have "gs_log st2 = []" using lg by (simp add: st2_def st1_def)
  ultimately obtain h where
    sn: "snapshot_ok ops [7] seg31 EmptyBaseView history0 [] h (gs_snapshot st2) (gs_hasher st2)"
    and iv: "winv (ls_index (gs_snapshot st2))" "tinv (ls_txindex (gs_snapshot st2))"
    and id: "gs_key st2 = [7]" "gs_scope_id st2 = sg_scope seg31" "gs_segment_id st2 = sg_segment seg31"
      "gs_base st2 = EmptyBaseView"
    by (auto simp: gc_inv_def gc_log_ok_def)
  have h: "h = history0" using sn by (simp add: snapshot_ok_def)
  have q: "next_seq_of seg31 [] = 1" by (simp add: next_seq_of_def seg31_def)
  obtain h' where b: "abs_batch EmptyBaseView False history0 (next_seq_of seg31 []) [put5] =
      ([PlannedReceipt 1 (Logged APPLIED) (Some 1)], [cmd_frame put5 1], h')" using put5_batch unfolding q by blast
  have "\<forall>c \<in> set [put5]. version_fits False c" "next_seq_of seg31 [] + int (length [put5]) \<le> MAX_SEQ"
    by (simp_all add: q)
  from prepare_batch_extends [OF sn [unfolded h] iv this b] obtain plan where
    pl: "gc_plan ops st2 [claim req] = Inr plan"
    and rs: "bp_receipts plan = [PlannedReceipt 1 (Logged APPLIED) (Some 1)]" "bp_frames plan \<noteq> []"
      "concat (bp_frames plan) = frames_bytes [7] (sg_scope seg31) (sg_segment seg31) [cmd_frame put5 1]"
    by (auto simp: gc_plan_def id rq e2' plan_extends_def)
  let ?d = "concat (bp_frames plan)"
  have "?d \<noteq> []" unfolding rs(3) using frame_bytes_first [of "[7]" "sg_scope seg31" "sg_segment seg31" "cmd_frame put5 1"]
    by (auto simp: frames_bytes_def)
  then have cp: "commit_prepared (gs_file st2) plan (all_at_once (length ?d)) = (Ret True, gs_file st2 @ ?d)"
    using write_all_once [of ?d] rs(2) by (simp add: commit_prepared_def Let_def all_at_once_def del: write_all.simps)
  define st3 where "st3 = gc_commit ops st2 [claim req] (all_at_once (length ?d))"
  have l3: "gc_lives ops [7] seg31 None st3 []"
    unfolding st3_def by (rule lives_step [OF l2 gstep_commit]) (use e2 e2' room in simp_all)
  have "st3 = gc_answer (Some [rq_finish (Logged APPLIED) (Some 1) (claim req)])
      (gc_swap True plan (gc_written (gs_file st2 @ ?d) [put5] plan st2))"
    by (simp add: st3_def gc_commit_def pl cp rs(1) rq receipt_of_def)
  then have "gs_finished st3 = [rq_finish (Logged APPLIED) (Some 1) (claim req)]" "gs_durable st3 = length (gs_file st3)"
    "gs_queue st3 = []" "inflight st3 = []" "gs_ticket st3 = 1" "\<not> gs_stop st3"
    using e2 e2' by (simp_all add: gc_answer_def gc_swap_def gc_written_def inflight_def)
  then show ?thesis
    using l3 rq by (intro exI [of _ st3] exI [of _ "rq_finish (Logged APPLIED) (Some 1) (claim req)"]) simp
qed

text \<open>One request that is withdrawn while it is queued.\<close>

lemma gc_lives_withdrawn:
  "\<exists>st. gc_lives ops [7] seg31 None st [] \<and> gs_withdrawn st = [1] \<and> gs_queue st \<noteq> []"
proof -
  from gc_created [OF seg31_ok, of "[7]" default_gc_limits] obtain st0 where
    c: "gc_create ops None [7] (sg_scope seg31) (sg_segment seg31) (sg_first seg31) default_gc_limits None
      (sg_key_id seg31) (sg_prev seg31) (all_at_once 67) = (Ret st0, Some (header_bytes [7] seg31))"
    and e: "gs_limits st0 = default_gc_limits" "gs_queue st0 = []" "gs_queue_bytes st0 = 0" "gs_ticket st0 = 0"
      "\<not> gs_poisoned st0" "\<not> gs_stop st0" "\<not> gs_killed st0"
    by blast
  have w: "gs_withdrawn st0 = []"
    using c by (auto simp: gc_create_def Let_def gc_boot_def split: option.splits prod.splits io_end.splits bool.splits)
  define st1 where "st1 = st0\<lparr>gs_ticket := 1, gs_queue := [new_request put5 80], gs_queue_bytes := 80\<rparr>"
  have sb: "gc_submit st0 OP_PUT 5 1 (Some 200) opid1 = (new_request put5 80, st1)"
    by (simp add: gc_submit_def Let_def e default_gc_limits_def st1_def put5_def)
  have q: "queued 1 st1" "\<not> gs_killed st1" by (simp_all add: queued_def st1_def new_request_def e)
  then have cn: "gc_cancel st1 1 = (True, withdraw 1 st1)" by (simp add: gc_cancel_def)
  have "gc_lives ops [7] seg31 None (withdraw 1 st1) []"
    by (rule lives_step [OF lives_step [OF lives_create [OF seg31_ok c] gstep_submit [OF e(7) sb]] gstep_cancel [OF q(2) cn]])
  then show ?thesis by (intro exI conjI) (assumption, simp_all add: withdraw_def st1_def w)
qed

end

end
