(* ===== verification/Linearizability.thy ===== *)
theory Linearizability
  imports Prelude "HOL-Library.Multiset"
begin

section \<open>The linearizability checker (\<open>horizon_linearizability.py\<close>)\<close>

text \<open>
  The checker decides whether an observed history of operations has a total order that respects
  real time and reproduces every observed answer on a sequential reference model. The model of
  the reference, \<open>apply_op\<close>, and the memoised depth-first search are written here as in the code:
  the mask is the bit mask of the operations already placed, the search state (memo, count of
  explored states, budget flag, best mask) is passed along. A Python exception of comparing or
  sorting with \<open>None\<close> is \<open>LTypeError\<close>; the recursion limit of the interpreter is not modelled.

  The search decides linearizability: an answer \<open>LINEARIZABLE\<close> has such an
  order, an answer \<open>NON_LINEARIZABLE\<close> has none, an exhausted budget is answered as itself, and
  with a budget of \<open>search_bound\<close> on a well typed history the answer is definite (theory LinSearch).
\<close>

unbundle bit_operations_syntax

subsection \<open>Operations and the reference model\<close>

datatype lin_kind = L_PUT | L_DELETE | L_READ | L_CAPTURE | L_ROTATE | L_COMPACT | L_RECOVER | L_OTHER string

datatype lin_exn = LTypeError

text \<open>An element of a result tuple.\<close>

datatype rv = RNone | RInt int | RStr string

record lin_op =
  lo_inv_id :: int
  lo_actor :: string
  lo_kind :: lin_kind
  lo_invocation :: int
  lo_response :: "int option"
  lo_operation_id :: "int option"
  lo_fact_id :: "int option"
  lo_version :: "int option"
  lo_value :: "int option"
  lo_result :: "rv list option"
  lo_snapshot_of :: "int option"

definition is_write :: "lin_kind \<Rightarrow> bool" where
  "is_write k \<longleftrightarrow> k = L_PUT \<or> k = L_DELETE"

type_synonym lin_line = "int option \<times> lin_kind \<times> int option"   \<comment> \<open>version, kind, value\<close>
type_synonym lin_facts = "(int option, lin_line) pydict"
type_synonym lin_digest = "lin_kind \<times> int option \<times> int option \<times> int option"

abbreviation (input) S_APPLIED :: string where "S_APPLIED \<equiv> ''APPLIED''"
abbreviation (input) S_IDEMPOTENT :: string where "S_IDEMPOTENT \<equiv> ''IDEMPOTENT''"
abbreviation (input) S_STALE :: string where "S_STALE \<equiv> ''STALE_REJECTED''"
abbreviation (input) S_CONFLICT :: string where "S_CONFLICT \<equiv> ''VERSION_CONFLICT''"
abbreviation (input) S_DEDUP_REPLAY :: string where "S_DEDUP_REPLAY \<equiv> ''DEDUP_REPLAY''"
abbreviation (input) S_TXID_CONFLICT :: string where "S_TXID_CONFLICT \<equiv> ''TXID_CONFLICT''"
abbreviation (input) S_PRESENT :: string where "S_PRESENT \<equiv> ''present''"
abbreviation (input) S_DELETED :: string where "S_DELETED \<equiv> ''deleted''"
abbreviation (input) S_NOT_FOUND :: string where "S_NOT_FOUND \<equiv> ''not_found''"
abbreviation (input) S_RECOVERED :: string where "S_RECOVERED \<equiv> ''recovered''"

text \<open>\<open>_preflight\<close>; comparing \<open>None\<close> with a version raises.\<close>

definition lin_preflight :: "lin_line option \<Rightarrow> int option \<Rightarrow> int option \<Rightarrow> lin_kind \<Rightarrow> lin_exn + string" where
  "lin_preflight cur version val kind =
     (case cur of
        None \<Rightarrow> Inr S_APPLIED
      | Some (cv, ck, cval) \<Rightarrow>
          (case (version, cv) of
             (Some v, Some c) \<Rightarrow>
               Inr (if v < c then S_STALE
                    else if v = c then (if (kind, val) = (ck, cval) then S_IDEMPOTENT else S_CONFLICT)
                    else S_APPLIED)
           | _ \<Rightarrow> Inl LTypeError))"

datatype lin_outcome = O_VALID | O_INVALID | O_NOT_READY

definition command_digest :: "lin_op \<Rightarrow> lin_digest" where
  "command_digest p = (lo_kind p, lo_fact_id p, lo_version p, lo_value p)"

record lin_state =
  ln_facts :: lin_facts
  ln_dedup :: "(int, lin_digest \<times> string \<times> int) pydict"
  ln_read_seq :: int
  ln_generation :: int
  ln_captures :: "(int, lin_facts \<times> int \<times> int) pydict"

text \<open>\<open>sorted\<close> of the items of a dictionary: with two keys or more it compares them all.\<close>

definition sorted_facts :: "lin_facts \<Rightarrow> lin_exn + lin_facts" where
  "sorted_facts fs =
     (if 2 \<le> length fs \<and> None \<in> set (dkeys fs) then Inl LTypeError
      else Inr (sort_key (\<lambda>e. case fst e of None \<Rightarrow> 0 | Some f \<Rightarrow> f) fs))"

type_synonym lin_key =
  "lin_facts \<times> (int \<times> lin_digest \<times> string \<times> int) list \<times> int \<times> int \<times> (int \<times> lin_facts \<times> int \<times> int) list"

definition state_key :: "lin_state \<Rightarrow> lin_exn + lin_key" where
  "state_key st =
     (case sorted_facts (ln_facts st) of
        Inl e \<Rightarrow> Inl e
      | Inr fs \<Rightarrow> Inr (fs, sort_key fst (ln_dedup st), ln_read_seq st, ln_generation st, sort_key fst (ln_captures st)))"

text \<open>The write branch of \<open>apply_op\<close>; \<open>record_write\<close> is its mutation.\<close>

definition record_write :: "lin_state \<Rightarrow> lin_op \<Rightarrow> lin_state" where
  "record_write st p =
     (let q = ln_read_seq st + 1;
          line = (lo_version p, lo_kind p, if lo_kind p = L_DELETE then None else lo_value p)
      in st\<lparr>ln_read_seq := q, ln_facts := dput (lo_fact_id p) line (ln_facts st),
            ln_dedup := (case lo_operation_id p of
                None \<Rightarrow> ln_dedup st
              | Some oid \<Rightarrow> dput oid (command_digest p, S_APPLIED, q) (ln_dedup st))\<rparr>)"

definition apply_write :: "lin_state \<Rightarrow> lin_op \<Rightarrow> lin_exn + lin_outcome \<times> rv list \<times> lin_state" where
  "apply_write st p =
     (case (case lo_operation_id p of None \<Rightarrow> None | Some oid \<Rightarrow> dget (ln_dedup st) oid) of
        Some (stored, status, orig_seq) \<Rightarrow>
          Inr (O_VALID,
               if command_digest p = stored
               then (if status = S_APPLIED then [RStr S_DEDUP_REPLAY, RInt orig_seq] else [RStr status, RNone])
               else [RStr S_TXID_CONFLICT, RNone],
               st)
      | None \<Rightarrow>
          (case lin_preflight (dget (ln_facts st) (lo_fact_id p)) (lo_version p) (lo_value p) (lo_kind p) of
             Inl e \<Rightarrow> Inl e
           | Inr decision \<Rightarrow>
               if decision = S_APPLIED
               then Inr (O_VALID, [RStr S_APPLIED, RInt (ln_read_seq st + 1)], record_write st p)
               else Inr (O_VALID, [RStr decision, RNone], st)))"

text \<open>The read branch: the line read, from a capture or from the current facts.\<close>

definition read_answer :: "lin_line option \<Rightarrow> rv list" where
  "read_answer cur =
     (case cur of
        None \<Rightarrow> [RStr S_NOT_FOUND, RNone]
      | Some (ver, k, val) \<Rightarrow>
          if k = L_DELETE then [RStr S_DELETED, RNone]
          else [RStr S_PRESENT, case val of None \<Rightarrow> RNone | Some x \<Rightarrow> RInt x])"

definition apply_read :: "lin_state \<Rightarrow> lin_op \<Rightarrow> int list \<Rightarrow> lin_outcome \<times> rv list" where
  "apply_read st p cap_ids =
     (case lo_snapshot_of p of
        None \<Rightarrow> (O_VALID, read_answer (dget (ln_facts st) (lo_fact_id p)))
      | Some c \<Rightarrow>
          if c \<notin> set cap_ids then (O_INVALID, [])
          else
            (case dget (ln_captures st) c of
               None \<Rightarrow> (O_NOT_READY, [])
             | Some (fs, rs, gn) \<Rightarrow> (O_VALID, read_answer (dget fs (lo_fact_id p)))))"

text \<open>\<open>apply_op\<close>: the outcome, the expected answer (empty unless valid) and the new state.\<close>

definition apply_op :: "lin_state \<Rightarrow> lin_op \<Rightarrow> int list \<Rightarrow> lin_exn + lin_outcome \<times> rv list \<times> lin_state" where
  "apply_op st p cap_ids =
     (if is_write (lo_kind p) then apply_write st p
      else
        (case lo_kind p of
           L_READ \<Rightarrow> (let (c, e) = apply_read st p cap_ids in Inr (c, e, st))
         | L_CAPTURE \<Rightarrow>
             (case sorted_facts (ln_facts st) of
                Inl e \<Rightarrow> Inl e
              | Inr fs \<Rightarrow>
                  Inr (O_VALID, [RInt (ln_generation st), RInt (ln_read_seq st)],
                    st\<lparr>ln_captures := dput (lo_inv_id p) (fs, ln_read_seq st, ln_generation st) (ln_captures st)\<rparr>))
         | L_ROTATE \<Rightarrow> Inr (O_VALID, [RInt (ln_generation st)], st)
         | L_COMPACT \<Rightarrow> Inr (O_VALID, [RInt (ln_generation st + 1)], st\<lparr>ln_generation := ln_generation st + 1\<rparr>)
         | L_RECOVER \<Rightarrow> Inr (O_VALID, [RStr S_RECOVERED], st)
         | _ \<Rightarrow> Inr (O_INVALID, [], st)))"

subsection \<open>The search\<close>

text \<open>\<open>precedes a b\<close>: \<open>a\<close> had answered before \<open>b\<close> was called.\<close>

definition precedes :: "lin_op \<Rightarrow> lin_op \<Rightarrow> bool" where
  "precedes a b \<longleftrightarrow> (case lo_response a of None \<Rightarrow> False | Some r \<Rightarrow> r < lo_invocation b)"

definition real_time_preds :: "lin_op list \<Rightarrow> nat list list" where
  "real_time_preds ops =
     map (\<lambda>i. filter (\<lambda>j. i \<noteq> j \<and> precedes (ops ! j) (ops ! i)) [0..<length ops]) [0..<length ops]"

record lin_problem =
  lp_ops :: "lin_op list"
  lp_preds :: "nat list list"
  lp_captures :: "int list"
  lp_complete :: nat
  lp_max_states :: nat

definition complete_mask :: "lin_op list \<Rightarrow> nat" where
  "complete_mask ops =
     foldl (\<lambda>m i. if lo_response (ops ! i) \<noteq> None then set_bit i m else m) 0 [0..<length ops]"

record lin_search =
  ls_memo :: "(nat \<times> lin_key) list"
  ls_explored :: nat
  ls_budget_hit :: bool
  ls_best :: int
  ls_best_mask :: nat

text \<open>\<open>bin(x).count("1")\<close>.\<close>

fun ones :: "nat \<Rightarrow> nat" where
  "ones m = (if m = 0 then 0 else m mod 2 + ones (m div 2))"

declare ones.simps [simp del]

definition all_placed :: "lin_problem \<Rightarrow> nat \<Rightarrow> bool" where
  "all_placed h msk \<longleftrightarrow> (msk AND lp_complete h) = lp_complete h"

definition visit :: "lin_problem \<Rightarrow> nat \<Rightarrow> lin_search \<Rightarrow> lin_search" where
  "visit h msk g =
     (let completed = int (ones (msk AND lp_complete h)); g1 = g\<lparr>ls_explored := ls_explored g + 1\<rparr>
      in if completed > ls_best g then g1\<lparr>ls_best := completed, ls_best_mask := msk\<rparr> else g1)"

definition pred_pending :: "lin_problem \<Rightarrow> nat \<Rightarrow> nat \<Rightarrow> bool" where
  "pred_pending h msk i \<longleftrightarrow> list_ex (\<lambda>j. \<not> bit msk j) (lp_preds h ! i)"

definition contradicts :: "lin_op \<Rightarrow> rv list \<Rightarrow> bool" where
  "contradicts p expected \<longleftrightarrow>
     lo_response p \<noteq> None \<and> (case lo_result p of None \<Rightarrow> False | Some r \<Rightarrow> expected \<noteq> r)"

definition unplaced :: "lin_problem \<Rightarrow> nat \<Rightarrow> nat" where
  "unplaced h msk = length (filter (\<lambda>i. \<not> bit msk i) [0..<length (lp_ops h)])"

lemma unplaced_less:
  assumes "i < length (lp_ops h)" "\<not> bit msk i"
  shows "unplaced h (set_bit i msk) < unplaced h msk"
proof -
  have "filter (\<lambda>j. \<not> bit (set_bit i msk) j) [0..<length (lp_ops h)]
      = filter (\<lambda>j. j \<noteq> i) (filter (\<lambda>j. \<not> bit msk j) [0..<length (lp_ops h)])"
    by (auto simp: bit_set_bit_iff intro!: filter_cong)
  moreover have "i \<in> set (filter (\<lambda>j. \<not> bit msk j) [0..<length (lp_ops h)])" using assms by simp
  ultimately show ?thesis using length_filter_less [of i _ "\<lambda>j. j \<noteq> i"] by (simp add: unplaced_def del: filter_filter)
qed

text \<open>\<open>dfs\<close>, and its loop over the candidates from \<open>i\<close> on.\<close>

function dfs :: "lin_problem \<Rightarrow> nat \<Rightarrow> lin_state \<Rightarrow> lin_search \<Rightarrow> lin_exn + bool \<times> lin_search"
  and dfs_from :: "lin_problem \<Rightarrow> nat \<Rightarrow> lin_state \<Rightarrow> nat \<Rightarrow> lin_search \<Rightarrow> lin_exn + bool \<times> lin_search" where
  "dfs h msk st g =
     (if all_placed h msk then Inr (True, g)
      else if ls_explored g \<ge> lp_max_states h then Inr (False, g\<lparr>ls_budget_hit := True\<rparr>)
      else
        (case state_key st of
           Inl e \<Rightarrow> Inl e
         | Inr k \<Rightarrow>
             if (msk, k) \<in> set (ls_memo g) then Inr (False, g)
             else
               (case dfs_from h msk st 0 (visit h msk g) of
                  Inl e \<Rightarrow> Inl e
                | Inr (found, g2) \<Rightarrow>
                    if found then Inr (True, g2) else Inr (False, g2\<lparr>ls_memo := (msk, k) # ls_memo g2\<rparr>))))"
| "dfs_from h msk st i g =
     (if i \<ge> length (lp_ops h) then Inr (False, g)
      else if bit msk i then dfs_from h msk st (i + 1) g
      else if pred_pending h msk i then dfs_from h msk st (i + 1) g
      else
        (case apply_op st (lp_ops h ! i) (lp_captures h) of
           Inl e \<Rightarrow> Inl e
         | Inr (outcome, expected, ns) \<Rightarrow>
             if outcome \<noteq> O_VALID then dfs_from h msk st (i + 1) g
             else if contradicts (lp_ops h ! i) expected then dfs_from h msk st (i + 1) g
             else
               (case dfs h (set_bit i msk) ns g of
                  Inl e \<Rightarrow> Inl e
                | Inr (found, g2) \<Rightarrow> if found then Inr (True, g2) else dfs_from h msk st (i + 1) g2)))"
  by pat_completeness auto
termination
  by (relation "inv_image (less_than <*lex*> less_than)
      (\<lambda>x. case x of Inl (h, msk, st, g) \<Rightarrow> (unplaced h msk, length (lp_ops h) + 1)
         | Inr (h, msk, st, i, g) \<Rightarrow> (unplaced h msk, length (lp_ops h) - i))")
    (auto simp: unplaced_less)

declare dfs.simps [simp del] dfs_from.simps [simp del]

subsection \<open>The verdict\<close>

datatype lin_verdict = LINEARIZABLE | NON_LINEARIZABLE | BUDGET_EXHAUSTED

record check_result =
  cr_verdict :: lin_verdict
  cr_counterexample :: "int list"
  cr_states_explored :: nat

definition lin_problem_of :: "lin_op list \<Rightarrow> nat \<Rightarrow> lin_problem" where
  "lin_problem_of ops max_states =
     \<lparr>lp_ops = ops, lp_preds = real_time_preds ops,
      lp_captures = map lo_inv_id (filter (\<lambda>p. lo_kind p = L_CAPTURE) ops),
      lp_complete = complete_mask ops, lp_max_states = max_states\<rparr>"

definition lin_init :: "int \<Rightarrow> int \<Rightarrow> lin_facts \<Rightarrow> lin_state" where
  "lin_init initial_read_seq initial_generation initial_facts =
     \<lparr>ln_facts = initial_facts, ln_dedup = [], ln_read_seq = initial_read_seq,
      ln_generation = initial_generation, ln_captures = []\<rparr>"

definition search0 :: lin_search where
  "search0 = \<lparr>ls_memo = [], ls_explored = 0, ls_budget_hit = False, ls_best = -1, ls_best_mask = 0\<rparr>"

definition check_linearizable :: "lin_op list \<Rightarrow> nat \<Rightarrow> int \<Rightarrow> int \<Rightarrow> lin_facts \<Rightarrow> lin_exn + check_result" where
  "check_linearizable ops max_states initial_read_seq initial_generation initial_facts =
     (let h = lin_problem_of ops max_states
      in case dfs h 0 (lin_init initial_read_seq initial_generation initial_facts) search0 of
           Inl e \<Rightarrow> Inl e
         | Inr (found, g) \<Rightarrow>
             Inr (if found then \<lparr>cr_verdict = LINEARIZABLE, cr_counterexample = [], cr_states_explored = ls_explored g\<rparr>
                  else if ls_budget_hit g
                  then \<lparr>cr_verdict = BUDGET_EXHAUSTED, cr_counterexample = [], cr_states_explored = ls_explored g\<rparr>
                  else \<lparr>cr_verdict = NON_LINEARIZABLE,
                    cr_counterexample = map (\<lambda>i. lo_inv_id (ops ! i))
                      (filter (\<lambda>i. bit (lp_complete h) i \<and> \<not> bit (ls_best_mask g) i) [0..<length ops]),
                    cr_states_explored = ls_explored g\<rparr>))"

end
