(* ===== verification/LinSearch.thy ===== *)
theory LinSearch
  imports Linearizability
begin

section \<open>The checker decides linearizability\<close>

text \<open>
  The search of \<open>check_linearizable\<close> against the definition of a linearization. States with equal
  keys answer alike (so the memo is sound), the search finds an order exactly when one exists, the
  budget is spent before it is reported, and the counterexample is what a runnable partial order
  leaves out. Every proof about the search follows one induction rule, \<open>dfs_induct\<close>.
\<close>

subsection \<open>Equal keys\<close>

text \<open>The dictionaries of a state have no key twice.\<close>

definition lin_wf :: "lin_state \<Rightarrow> bool" where
  "lin_wf st \<longleftrightarrow> distinct (dkeys (ln_facts st)) \<and> distinct (dkeys (ln_dedup st)) \<and> distinct (dkeys (ln_captures st))"

definition same_state :: "lin_state \<Rightarrow> lin_state \<Rightarrow> bool" where
  "same_state s t \<longleftrightarrow>
     lin_wf s \<and> lin_wf t \<and> dget (ln_facts s) = dget (ln_facts t) \<and> dget (ln_dedup s) = dget (ln_dedup t) \<and>
     ln_read_seq s = ln_read_seq t \<and> ln_generation s = ln_generation t \<and> dget (ln_captures s) = dget (ln_captures t)"

lemma sort_key_dget: "distinct (dkeys d) \<Longrightarrow> dget (sort_key k d) = dget d"
  by (subst map_of_inject_set) (simp_all add: distinct_map)

lemma dget_eq_sort:
  assumes "distinct (dkeys c)" "distinct (dkeys d)" "dget c = dget d" "inj_on k (set c)"
  shows "sort_key k c = sort_key k d"
proof -
  have "set c = set d" using map_of_inject_set [OF assms(1,2)] assms(3) by simp
  then have "mset c = mset d" using assms(1,2) by (simp add: set_eq_iff_mset_eq_distinct distinct_map)
  then show ?thesis by (intro sort_key_inj_key_eq assms(4)) simp_all
qed

lemma inj_on_fst: "distinct (dkeys d) \<Longrightarrow> inj_on fst (set d)"
  by (simp add: distinct_map)

lemma inj_on_fact_key:
  assumes "distinct (dkeys d)" "\<not> (2 \<le> length d \<and> None \<in> set (dkeys d))"
  shows "inj_on (\<lambda>e. case fst e of None \<Rightarrow> 0 | Some f \<Rightarrow> f) (set d)"
proof (cases "None \<in> set (dkeys d)")
  case True
  then obtain e where "d = [e]" using assms(2) by (cases d; cases "List.tl d") auto
  then show ?thesis by simp
next
  case False
  show ?thesis
  proof (rule inj_onI)
    fix x y assume m: "x \<in> set d" "y \<in> set d"
      and e: "(case fst x of None \<Rightarrow> 0 | Some f \<Rightarrow> f) = (case fst y of None \<Rightarrow> 0 | Some f \<Rightarrow> f)"
    have "fst x \<noteq> None" "fst y \<noteq> None" using m False by (metis image_eqI list.set_map)+
    then have "fst x = fst y" using e by (auto split: option.splits)
    then show "x = y" using inj_onD [OF inj_on_fst [OF assms(1)]] m by blast
  qed
qed

lemma dget_eq_length: "distinct (dkeys c) \<Longrightarrow> distinct (dkeys d) \<Longrightarrow> dget c = dget d \<Longrightarrow> length c = length d \<and> set c = set d"
  by (metis distinct_card distinct_map map_of_inject_set)

lemma sorted_facts_cong:
  assumes "distinct (dkeys c)" "distinct (dkeys d)" "dget c = dget d"
  shows "sorted_facts c = sorted_facts d"
  using dget_eq_length [OF assms] dget_eq_sort [OF assms inj_on_fact_key [OF assms(1)]]
  by (simp add: sorted_facts_def)

lemma state_key_fields:
  assumes "lin_wf s" "state_key s = Inr (fs, ds, rs, gn, cs)"
  shows "dget (ln_facts s) = dget fs \<and> dget (ln_dedup s) = dget ds \<and> ln_read_seq s = rs \<and> ln_generation s = gn \<and>
    dget (ln_captures s) = dget cs"
  using assms by (auto simp: lin_wf_def state_key_def sorted_facts_def sort_key_dget split: if_splits)

lemma state_key_same:
  assumes "lin_wf s" "lin_wf t" "state_key s = Inr k" "state_key t = Inr k"
  shows "same_state s t"
proof (cases k)
  case (fields fs ds rs gn cs)
  show ?thesis
    using state_key_fields [OF assms(1) assms(3) [unfolded fields]] state_key_fields [OF assms(2) assms(4) [unfolded fields]] assms(1,2)
    by (simp add: same_state_def)
qed

lemma record_write_wf: "lin_wf st \<Longrightarrow> lin_wf (record_write st p)"
  by (simp add: lin_wf_def record_write_def Let_def distinct_dput split: option.split)

lemma apply_op_wf:
  assumes "lin_wf st" "apply_op st p caps = Inr (c, e, st')"
  shows "lin_wf st'"
proof -
  have cap: "lin_wf (st\<lparr>ln_captures := dput k v (ln_captures st)\<rparr>)" "lin_wf (st\<lparr>ln_generation := n\<rparr>)" for k v n
    using assms(1) by (simp_all add: lin_wf_def distinct_dput)
  show ?thesis
  proof (cases "is_write (lo_kind p)")
    case True
    then show ?thesis
      using assms record_write_wf [OF assms(1), of p]
      by (auto simp: apply_op_def apply_write_def split: option.splits sum.splits if_splits)
  next
    case False
    then show ?thesis
      using assms cap
      by (cases "lo_kind p") (auto simp: apply_op_def is_write_def split: sum.splits prod.splits)
  qed
qed

text \<open>Same states give the same answers and the same states.\<close>

definition same_reads :: "lin_state \<Rightarrow> lin_state \<Rightarrow> bool" where
  "same_reads s t \<longleftrightarrow>
     dget (ln_facts s) = dget (ln_facts t) \<and> dget (ln_dedup s) = dget (ln_dedup t) \<and>
     ln_read_seq s = ln_read_seq t \<and> ln_generation s = ln_generation t \<and> dget (ln_captures s) = dget (ln_captures t)"

lemma dget_dput_cong: "dget c = dget d \<Longrightarrow> dget (dput k v c) = dget (dput k v d)"
  by (simp add: fun_eq_iff dget_dput)

lemma record_write_same:
  assumes "same_reads s t"
  shows "same_reads (record_write s p) (record_write t p)"
proof -
  have e: "ln_read_seq s = ln_read_seq t" "ln_generation s = ln_generation t" and
    d: "dget (ln_facts s) = dget (ln_facts t)" "dget (ln_dedup s) = dget (ln_dedup t)" "dget (ln_captures s) = dget (ln_captures t)"
    using assms by (simp_all add: same_reads_def)
  show ?thesis
    using dget_dput_cong [OF d(1)] dget_dput_cong [OF d(2)] d(3)
    by (cases "lo_operation_id p") (simp_all add: same_reads_def record_write_def Let_def e d(2))
qed

lemma apply_write_same:
  assumes q: "same_reads s t" and a: "apply_write s p = Inr (c, e, s')"
  shows "\<exists>t'. apply_write t p = Inr (c, e, t') \<and> same_reads s' t'"
proof -
  have e: "dget (ln_facts t) = dget (ln_facts s)" "dget (ln_dedup t) = dget (ln_dedup s)" "ln_read_seq t = ln_read_seq s"
    using q by (simp_all add: same_reads_def)
  have r: "same_reads (record_write s p) (record_write t p)" by (rule record_write_same [OF q])
  show ?thesis
  proof (cases "case lo_operation_id p of None \<Rightarrow> None | Some oid \<Rightarrow> dget (ln_dedup s) oid")
    case None
    note o = this
    then obtain d where d: "lin_preflight (dget (ln_facts s) (lo_fact_id p)) (lo_version p) (lo_value p) (lo_kind p) = Inr d"
      using a by (simp add: apply_write_def split: sum.splits)
    have w: "apply_write x p = (if d = S_APPLIED then Inr (O_VALID, [RStr S_APPLIED, RInt (ln_read_seq s + 1)], record_write x p)
        else Inr (O_VALID, [RStr d, RNone], x))" if "x = s \<or> x = t" for x
      using that unfolding apply_write_def by (elim disjE; simp only: e o d option.case sum.case)
    show ?thesis using a r q by (cases "d = S_APPLIED") (auto simp: w)
  next
    case (Some x)
    obtain dg sts sq where x: "x = (dg, sts, sq)" by (cases x)
    have w: "\<exists>ans. \<forall>y \<in> {s, t}. apply_write y p = Inr (O_VALID, ans, y)"
      unfolding apply_write_def by (simp only: ball_simps e Some x option.case prod.case) auto
    then show ?thesis using a q by auto
  qed
qed

lemma apply_op_same_reads:
  assumes q: "same_reads s t" and sf: "sorted_facts (ln_facts s) = sorted_facts (ln_facts t)"
    and a: "apply_op s p caps = Inr (c, e, s')"
  shows "\<exists>t'. apply_op t p caps = Inr (c, e, t') \<and> same_reads s' t'"
proof (cases "is_write (lo_kind p)")
  case True
  then show ?thesis using a apply_write_same [OF q] by (simp add: apply_op_def)
next
  case False
  have r: "apply_read t p caps = apply_read s p caps" 
  proof -
    have "dget (ln_facts t) = dget (ln_facts s)" "dget (ln_captures t) = dget (ln_captures s)" using q by (simp_all add: same_reads_def)
    then show ?thesis by (simp only: apply_read_def)
  qed
  have g: "ln_generation t = ln_generation s" "ln_read_seq t = ln_read_seq s" using q by (simp_all add: same_reads_def)
  show ?thesis
  proof (cases "lo_kind p")
    case L_CAPTURE
    then obtain fs where "sorted_facts (ln_facts s) = Inr fs" using a False by (simp add: apply_op_def split: sum.splits)
    then show ?thesis using L_CAPTURE a False sf q
      by (auto simp: apply_op_def same_reads_def update_conv')
  next
    case L_READ
    obtain c0 e0 where ap: "apply_read s p caps = (c0, e0)" by fastforce
    have "apply_op s p caps = Inr (c0, e0, s)" "apply_op t p caps = Inr (c0, e0, t)"
      using L_READ False r ap by (simp_all add: apply_op_def)
    then show ?thesis using a q by simp
  next
    case L_COMPACT
    then show ?thesis using a False q by (auto simp: apply_op_def same_reads_def)
  qed (use a False q g in \<open>simp_all add: apply_op_def is_write_def, auto\<close>)
qed

lemma apply_op_same:
  assumes s: "same_state s t" and a: "apply_op s p caps = Inr (c, e, s')"
  shows "\<exists>t'. apply_op t p caps = Inr (c, e, t') \<and> same_state s' t'"
proof -
  have w: "lin_wf s" "lin_wf t" "same_reads s t" using s by (simp_all add: same_state_def same_reads_def)
  have "sorted_facts (ln_facts s) = sorted_facts (ln_facts t)"
    using w by (intro sorted_facts_cong) (simp_all add: lin_wf_def same_reads_def)
  from apply_op_same_reads [OF w(3) this a] obtain t' where t: "apply_op t p caps = Inr (c, e, t')" "same_reads s' t'" by blast
  then show ?thesis using apply_op_wf [OF w(1) a] apply_op_wf [OF w(2) t(1)] by (auto simp: same_state_def same_reads_def)
qed

subsection \<open>The search is sound and complete\<close>

text \<open>One operation placed: valid, and not against the answer observed.\<close>

definition lin_step :: "int list \<Rightarrow> lin_state \<Rightarrow> lin_op \<Rightarrow> lin_state option" where
  "lin_step caps st p =
     (case apply_op st p caps of
        Inl e \<Rightarrow> None
      | Inr (c, e, ns) \<Rightarrow> if c = O_VALID \<and> \<not> contradicts p e then Some ns else None)"

text \<open>The operations that may be placed next, and the states from which the rest can be placed.\<close>

definition placeable :: "lin_problem \<Rightarrow> nat \<Rightarrow> nat \<Rightarrow> bool" where
  "placeable h msk i \<longleftrightarrow> i < length (lp_ops h) \<and> \<not> bit msk i \<and> \<not> pred_pending h msk i"

inductive completes :: "lin_problem \<Rightarrow> nat \<Rightarrow> lin_state \<Rightarrow> bool" for h :: lin_problem where
  completes_done: "all_placed h msk \<Longrightarrow> completes h msk st"
| completes_step: "placeable h msk i \<Longrightarrow> lin_step (lp_captures h) st (lp_ops h ! i) = Some ns \<Longrightarrow>
    completes h (set_bit i msk) ns \<Longrightarrow> completes h msk st"

lemma lin_step_same:
  assumes "same_state s t" "lin_step caps s p = Some s'"
  shows "\<exists>t'. lin_step caps t p = Some t' \<and> same_state s' t'"
proof -
  obtain c e where a: "apply_op s p caps = Inr (c, e, s')" "c = O_VALID" "\<not> contradicts p e"
    using assms(2) by (auto simp: lin_step_def split: sum.splits prod.splits if_splits)
  from apply_op_same [OF assms(1) a(1)] show ?thesis using a by (auto simp: lin_step_def)
qed

lemma completes_same: "completes h msk s \<Longrightarrow> same_state s t \<Longrightarrow> completes h msk t"
proof (induction msk s arbitrary: t rule: completes.induct)
  case (completes_done msk st)
  then show ?case by (intro completes.completes_done)
next
  case (completes_step msk i st ns)
  obtain t' where "lin_step (lp_captures h) t (lp_ops h ! i) = Some t'" "same_state ns t'"
    using lin_step_same [OF completes_step.prems completes_step.hyps(2)] by blast
  then show ?case using completes_step by (blast intro: completes.completes_step)
qed

text \<open>The loop, one turn at a time, and the induction it follows.\<close>

lemma dfs_from_turn:
  "dfs_from h msk st i g =
     (if i \<ge> length (lp_ops h) then Inr (False, g)
      else if \<not> placeable h msk i then dfs_from h msk st (i + 1) g
      else
        (case apply_op st (lp_ops h ! i) (lp_captures h) of
           Inl e \<Rightarrow> Inl e
         | Inr _ \<Rightarrow>
             (case lin_step (lp_captures h) st (lp_ops h ! i) of
                None \<Rightarrow> dfs_from h msk st (i + 1) g
              | Some ns \<Rightarrow>
                  (case dfs h (set_bit i msk) ns g of
                     Inl e \<Rightarrow> Inl e
                   | Inr (found, g2) \<Rightarrow> if found then Inr (True, g2) else dfs_from h msk st (i + 1) g2))))"
  unfolding dfs_from.simps [of h msk st i g]
  by (simp add: placeable_def lin_step_def split: sum.split prod.split)

lemma dfs_induct:
  assumes dfs: "\<And>msk st g. (\<And>k. state_key st = Inr k \<Longrightarrow> Q msk st 0 (visit h msk g)) \<Longrightarrow> P msk st g"
    and loop: "\<And>msk st i g. (\<And>g. i < length (lp_ops h) \<Longrightarrow> Q msk st (i + 1) g) \<Longrightarrow>
      (\<And>ns. placeable h msk i \<Longrightarrow> lin_step (lp_captures h) st (lp_ops h ! i) = Some ns \<Longrightarrow> P (set_bit i msk) ns g) \<Longrightarrow>
      Q msk st i g"
  shows "P msk st g" "Q msk st i g"
proof -
  have "(\<forall>st g. P msk st g) \<and> (\<forall>st i g. Q msk st i g)" for msk
  proof (induction "unplaced h msk" arbitrary: msk rule: less_induct)
    case less
    have q: "Q msk st i g" for st i g
    proof (induction "length (lp_ops h) - i" arbitrary: i g rule: less_induct)
      case (less i g)
      note inner = less.hyps
      show ?case
      proof (rule loop)
        show "i < length (lp_ops h) \<Longrightarrow> Q msk st (i + 1) g'" for g' by (rule inner) simp
        show "placeable h msk i \<Longrightarrow> lin_step (lp_captures h) st (lp_ops h ! i) = Some ns \<Longrightarrow> P (set_bit i msk) ns g" for ns
          using \<open>\<And>m. unplaced h m < unplaced h msk \<Longrightarrow> _\<close> unplaced_less [of i h msk] by (simp add: placeable_def)
      qed
    qed
    then show ?case using dfs by blast
  qed
  then show "P msk st g" "Q msk st i g" by blast+
qed

definition memo_ok :: "lin_problem \<Rightarrow> lin_search \<Rightarrow> bool" where
  "memo_ok h g \<longleftrightarrow> ls_budget_hit g \<or>
     (\<forall>(m, k) \<in> set (ls_memo g). \<forall>st. lin_wf st \<and> state_key st = Inr k \<longrightarrow> \<not> completes h m st)"

lemma memo_ok_visit [simp]: "memo_ok h (visit h msk g) \<longleftrightarrow> memo_ok h g"
  by (simp add: memo_ok_def visit_def Let_def)

lemma visit_simps [simp]:
  "ls_budget_hit (visit h msk g) = ls_budget_hit g" "ls_memo (visit h msk g) = ls_memo g"
  "ls_explored (visit h msk g) = ls_explored g + 1"
  by (simp_all add: visit_def Let_def)

definition dfs_post :: "lin_problem \<Rightarrow> bool \<Rightarrow> lin_search \<Rightarrow> bool \<Rightarrow> lin_search \<Rightarrow> bool" where
  "dfs_post h good g b g' \<longleftrightarrow> memo_ok h g' \<and> (b \<longrightarrow> good) \<and> (\<not> b \<and> \<not> ls_budget_hit g' \<longrightarrow> \<not> good) \<and>
     (ls_budget_hit g \<longrightarrow> ls_budget_hit g')"

lemma lin_step_wf: "lin_wf st \<Longrightarrow> lin_step caps st p = Some ns \<Longrightarrow> lin_wf ns"
  using apply_op_wf by (auto simp: lin_step_def split: sum.splits prod.splits if_splits)

lemma dfs_correct:
  "lin_wf st \<Longrightarrow> memo_ok h g \<Longrightarrow> dfs h msk st g = Inr (b, g') \<Longrightarrow> dfs_post h (completes h msk st) g b g'"
  "lin_wf st \<Longrightarrow> memo_ok h g \<Longrightarrow> dfs_from h msk st i g = Inr (b, g') \<Longrightarrow>
   dfs_post h (\<exists>j ns. i \<le> j \<and> placeable h msk j \<and> lin_step (lp_captures h) st (lp_ops h ! j) = Some ns \<and>
     completes h (set_bit j msk) ns) g b g'"
proof (induction msk st g and msk st i g arbitrary: b g' and b g' rule: dfs_induct [where h = h])
  case (1 msk st g)
  note eq = dfs.simps [of h msk st g]
  show ?case
  proof (cases "all_placed h msk")
    case True
    then show ?thesis using 1 by (auto simp: eq dfs_post_def intro: completes_done)
  next
    case na: False
    then have c: "completes h msk st \<longleftrightarrow> (\<exists>j ns. placeable h msk j \<and>
        lin_step (lp_captures h) st (lp_ops h ! j) = Some ns \<and> completes h (set_bit j msk) ns)"
      by (subst completes.simps) blast
    show ?thesis
    proof (cases "ls_explored g \<ge> lp_max_states h")
      case True
      then show ?thesis using 1 na by (auto simp: eq dfs_post_def memo_ok_def)
    next
      case nb: False
      obtain k where k: "state_key st = Inr k" using 1(4) na nb by (auto simp: eq split: sum.splits)
      show ?thesis
      proof (cases "(msk, k) \<in> set (ls_memo g)")
        case True
        then have "ls_budget_hit g \<or> \<not> completes h msk st" using 1(2,3) k by (auto simp: memo_ok_def)
        moreover have "b = False" "g' = g" using 1(4) na nb k True by (simp_all add: eq)
        ultimately show ?thesis using 1(3) by (auto simp: dfs_post_def)
      next
        case nm: False
        obtain g2 where g2: "dfs_from h msk st 0 (visit h msk g) = Inr (b, g2)"
          and g': "g' = (if b then g2 else g2\<lparr>ls_memo := (msk, k) # ls_memo g2\<rparr>)"
          using 1(4) na nb k nm by (auto simp: eq split: sum.splits prod.splits if_splits)
        have p: "dfs_post h (completes h msk st) g b g2"
          using 1(1) [OF k 1(2) _ g2] 1(3) by (simp add: c dfs_post_def)
        have "\<not> completes h msk t" if "\<not> b" "\<not> ls_budget_hit g2" "lin_wf t" "state_key t = Inr k" for t
          using p that completes_same [of h msk t st] state_key_same [OF that(3) 1(2) that(4) k]
          by (auto simp: dfs_post_def)
        then show ?thesis using p by (auto simp: g' dfs_post_def memo_ok_def)
      qed
    qed
  qed
next
  case (2 msk st i g)
  let ?C = "\<lambda>i. \<exists>j ns. i \<le> j \<and> placeable h msk j \<and> lin_step (lp_captures h) st (lp_ops h ! j) = Some ns \<and>
     completes h (set_bit j msk) ns"
  let ?now = "placeable h msk i \<and> (\<exists>ns. lin_step (lp_captures h) st (lp_ops h ! i) = Some ns \<and> completes h (set_bit i msk) ns)"
  have split: "?C i \<longleftrightarrow> ?now \<or> ?C (i + 1)"
    by (metis Suc_eq_plus1 Suc_leD Suc_leI le_eq_less_or_eq)
  note eq = dfs_from_turn [of h msk st i g] and skip = 2(1) [OF _ 2(3)]
  show ?case
  proof (cases "length (lp_ops h) \<le> i")
    case True
    then have "\<not> ?C i" by (auto simp: placeable_def)
    then show ?thesis using 2(4,5) True by (simp add: eq dfs_post_def)
  next
    case n: False
    show ?thesis
    proof (cases "placeable h msk i \<and> lin_step (lp_captures h) st (lp_ops h ! i) \<noteq> None")
      case False
      then have "dfs_from h msk st (i + 1) g = Inr (b, g')" using 2(5) n by (auto simp: eq split: if_splits sum.splits)
      then have "dfs_post h (?C (i + 1)) g b g'" using skip [OF _ 2(4)] n by simp
      moreover have "?C i = ?C (i + 1)" using False split by force
      ultimately show ?thesis by (simp only:)
    next
      case True
      then obtain ns where ns: "lin_step (lp_captures h) st (lp_ops h ! i) = Some ns" "placeable h msk i" by blast
      obtain f g2 where d: "dfs h (set_bit i msk) ns g = Inr (f, g2)"
        and r: "if f then b \<and> g' = g2 else dfs_from h msk st (i + 1) g2 = Inr (b, g')"
        using 2(5) n ns by (auto simp: eq split: sum.splits prod.splits if_splits)
      have p: "dfs_post h ?now g f g2"
        using 2(2) [OF ns(2,1) lin_step_wf [OF 2(3) ns(1)] 2(4) d] ns by simp
      show ?thesis
      proof (cases f)
        case True
        then show ?thesis using p r by (auto simp: dfs_post_def split)
      next
        case False
        then have "dfs_post h (?C (i + 1)) g2 b g'" using skip [of g2] r n p by (auto simp: dfs_post_def)
        then show ?thesis using p False unfolding split by (auto simp: dfs_post_def)
      qed
    qed
  qed
qed

subsection \<open>Linearizations\<close>

text \<open>
  A linearization places every answered operation, and perhaps some unanswered ones, once; nothing
  that had answered before an operation was called comes after it; and the reference model, run in
  this order, gives every answer observed.
\<close>

fun lin_run :: "int list \<Rightarrow> lin_state \<Rightarrow> lin_op list \<Rightarrow> lin_state option" where
  "lin_run caps st [] = Some st"
| "lin_run caps st (p # ps) =
     (case lin_step caps st p of None \<Rightarrow> None | Some ns \<Rightarrow> lin_run caps ns ps)"

definition capture_ids :: "lin_op list \<Rightarrow> int list" where
  "capture_ids ops = map lo_inv_id (filter (\<lambda>p. lo_kind p = L_CAPTURE) ops)"

definition linearization :: "lin_op list \<Rightarrow> lin_state \<Rightarrow> nat list \<Rightarrow> bool" where
  "linearization ops st is \<longleftrightarrow>
     distinct is \<and> set is \<subseteq> {..<length ops} \<and> (\<forall>i < length ops. lo_response (ops ! i) \<noteq> None \<longrightarrow> i \<in> set is) \<and>
     sorted_wrt (\<lambda>i j. \<not> precedes (ops ! j) (ops ! i)) is \<and>
     lin_run (capture_ids ops) st (map ((!) ops) is) \<noteq> None"

lemma bit_set_bits:
  "bit (foldl (\<lambda>m j. if P j then set_bit j m else m) m is) i \<longleftrightarrow> bit (m :: nat) i \<or> i \<in> set is \<and> P i"
proof (induction "is" arbitrary: m)
  case Nil
  then show ?case by simp
next
  case (Cons j "is")
  then show ?case by (cases "P j") (auto simp: bit_set_bit_iff)
qed

lemma bit_complete_mask:
  "bit (complete_mask ops) i \<longleftrightarrow> i < length ops \<and> lo_response (ops ! i) \<noteq> None"
  unfolding complete_mask_def bit_set_bits by simp

lemma all_placed_iff:
  "all_placed h msk \<longleftrightarrow> (\<forall>i. bit (lp_complete h) i \<longrightarrow> bit msk i)"
  by (auto simp: all_placed_def bit_eq_iff bit_and_iff)

lemma problem_simps [simp]:
  "lp_ops (lin_problem_of ops ms) = ops" "lp_captures (lin_problem_of ops ms) = capture_ids ops"
  "lp_complete (lin_problem_of ops ms) = complete_mask ops" "lp_max_states (lin_problem_of ops ms) = ms"
  by (simp_all add: lin_problem_of_def capture_ids_def)

lemma pred_pending_iff:
  "i < length ops \<Longrightarrow> pred_pending (lin_problem_of ops ms) msk i \<longleftrightarrow>
     (\<exists>j < length ops. j \<noteq> i \<and> precedes (ops ! j) (ops ! i) \<and> \<not> bit msk j)"
  by (auto simp: pred_pending_def lin_problem_of_def real_time_preds_def list_ex_iff)

text \<open>The orders of the operations that are not yet placed.\<close>

definition finishes :: "lin_op list \<Rightarrow> nat \<Rightarrow> lin_state \<Rightarrow> nat list \<Rightarrow> bool" where
  "finishes ops msk st is \<longleftrightarrow>
     distinct is \<and> (\<forall>i \<in> set is. i < length ops \<and> \<not> bit msk i) \<and>
     (\<forall>i < length ops. lo_response (ops ! i) \<noteq> None \<longrightarrow> bit msk i \<or> i \<in> set is) \<and>
     sorted_wrt (\<lambda>i j. \<not> precedes (ops ! j) (ops ! i)) is \<and>
     lin_run (capture_ids ops) st (map ((!) ops) is) \<noteq> None"

lemma precedes_complete: "precedes a b \<Longrightarrow> lo_response a \<noteq> None"
  by (auto simp: precedes_def split: option.splits)

lemma finishes_Cons:
  "finishes ops msk st (i # is) \<longleftrightarrow>
     placeable (lin_problem_of ops ms) msk i \<and>
     (\<exists>ns. lin_step (capture_ids ops) st (ops ! i) = Some ns \<and> finishes ops (set_bit i msk) ns is)"
proof
  assume f: "finishes ops msk st (i # is)"
  have i: "i < length ops" "\<not> bit msk i" "i \<notin> set is" using f by (simp_all add: finishes_def)
  have "bit msk j" if "j < length ops" "j \<noteq> i" "precedes (ops ! j) (ops ! i)" for j
    using f that precedes_complete [OF that(3)] by (auto simp: finishes_def)
  then have "placeable (lin_problem_of ops ms) msk i" using i by (auto simp: placeable_def pred_pending_iff)
  moreover obtain ns where "lin_step (capture_ids ops) st (ops ! i) = Some ns"
    "lin_run (capture_ids ops) ns (map ((!) ops) is) \<noteq> None"
    using f by (auto simp: finishes_def split: option.splits)
  ultimately show "placeable (lin_problem_of ops ms) msk i \<and>
      (\<exists>ns. lin_step (capture_ids ops) st (ops ! i) = Some ns \<and> finishes ops (set_bit i msk) ns is)"
    using f i by (auto simp: finishes_def bit_set_bit_iff)
next
  assume a: "placeable (lin_problem_of ops ms) msk i \<and>
    (\<exists>ns. lin_step (capture_ids ops) st (ops ! i) = Some ns \<and> finishes ops (set_bit i msk) ns is)"
  then have i: "i < length ops" "\<not> bit msk i" by (simp_all add: placeable_def)
  have "\<not> precedes (ops ! j) (ops ! i)" if "j \<in> set is" for j
    using a that i by (auto simp: placeable_def pred_pending_iff finishes_def bit_set_bit_iff)
  then show "finishes ops msk st (i # is)"
    using a i by (auto simp: finishes_def bit_set_bit_iff)
qed

lemma completes_iff:
  "completes (lin_problem_of ops ms) msk st \<longleftrightarrow> (\<exists>is. finishes ops msk st is)"
proof
  show "\<exists>is. finishes ops msk st is" if "completes (lin_problem_of ops ms) msk st"
    using that
  proof (induction rule: completes.induct)
    case (completes_done msk st)
    then have "finishes ops msk st []" by (simp add: finishes_def all_placed_iff bit_complete_mask)
    then show ?case by blast
  next
    case (completes_step msk i st ns)
    then show ?case using finishes_Cons [of ops msk st i _ ms] by (metis problem_simps(1,2))
  qed
  show "completes (lin_problem_of ops ms) msk st" if "\<exists>is. finishes ops msk st is"
  proof -
    from that obtain "is" where "finishes ops msk st is" by blast
    then show ?thesis
    proof (induction "is" arbitrary: msk st)
      case Nil
      then show ?case by (intro completes_done) (simp add: finishes_def all_placed_iff bit_complete_mask)
    next
      case (Cons i "is")
      then show ?case using finishes_Cons [of ops msk st i "is" ms] by (metis completes_step problem_simps(1,2))
    qed
  qed
qed

lemma completes_linearization:
  "completes (lin_problem_of ops ms) 0 st \<longleftrightarrow> (\<exists>is. linearization ops st is)"
proof -
  have "finishes ops 0 st is \<longleftrightarrow> linearization ops st is" for "is"
    by (auto simp: finishes_def linearization_def subset_iff)
  then have "finishes ops 0 st = linearization ops st" by (simp add: fun_eq_iff)
  then show ?thesis unfolding completes_iff by simp
qed

subsection \<open>The budget, the counterexample and the exceptions\<close>

text \<open>The number of states a search of \<open>k\<close> open operations explores at most.\<close>

fun search_bound :: "nat \<Rightarrow> nat" where
  "search_bound 0 = 1"
| "search_bound (Suc k) = 1 + Suc k * search_bound k"

definition candidates :: "lin_problem \<Rightarrow> nat \<Rightarrow> nat \<Rightarrow> nat" where
  "candidates h msk i = length (filter (\<lambda>j. \<not> bit msk j) [i..<length (lp_ops h)])"

lemma candidates_turn:
  "candidates h msk i = (if i < length (lp_ops h) then (if bit msk i then 0 else 1) + candidates h msk (i + 1) else 0)"
  by (simp add: candidates_def upt_conv_Cons del: upt_Suc)

lemma unplaced_set_bit:
  assumes "i < length (lp_ops h)" "\<not> bit msk i"
  shows "unplaced h msk = Suc (unplaced h (set_bit i msk))"
proof -
  have c: "unplaced h m = card {j. j < length (lp_ops h) \<and> \<not> bit m j}" for m
    by (simp add: unplaced_def distinct_length_filter) (rule arg_cong [of _ _ card], auto)
  have "{j. j < length (lp_ops h) \<and> \<not> bit msk j} = insert i {j. j < length (lp_ops h) \<and> \<not> bit (set_bit i msk) j}"
    using assms by (auto simp: bit_set_bit_iff)
  then show ?thesis unfolding c by (simp add: bit_set_bit_iff)
qed

text \<open>A search that explored at most \<open>B\<close> more states, and hit the budget only by spending it.\<close>

definition spent :: "lin_problem \<Rightarrow> nat \<Rightarrow> lin_search \<Rightarrow> lin_search \<Rightarrow> bool" where
  "spent h B g g' \<longleftrightarrow>
     ls_explored g' \<le> ls_explored g + B \<and> (ls_explored g \<le> lp_max_states h \<longrightarrow> ls_explored g' \<le> lp_max_states h) \<and>
     ls_explored g \<le> ls_explored g' \<and>
     (ls_budget_hit g' \<longrightarrow> ls_budget_hit g \<or> (lp_max_states h \<le> ls_explored g' \<and> lp_max_states h < ls_explored g + B))"

lemma spent_refl: "spent h B g g"
  by (simp add: spent_def)

lemma spent_trans: "spent h B g g2 \<Longrightarrow> spent h C g2 g3 \<Longrightarrow> spent h (B + C) g g3"
  by (auto simp: spent_def)

lemma spent_mono: "spent h B g g' \<Longrightarrow> B \<le> C \<Longrightarrow> spent h C g g'"
  by (auto simp: spent_def)

lemma dfs_spent:
  "dfs h msk st g = Inr (b, g') \<Longrightarrow> spent h (search_bound (unplaced h msk)) g g'"
  "dfs_from h msk st i g = Inr (b, g') \<Longrightarrow> spent h (candidates h msk i * search_bound (unplaced h msk - 1)) g g'"
proof (induction msk st g and msk st i g arbitrary: b g' and b g' rule: dfs_induct [where h = h])
  case (1 msk st g)
  note eq = dfs.simps [of h msk st g]
  have pos: "0 < search_bound n" for n by (cases n) simp_all
  show ?case
  proof (cases "all_placed h msk \<or> lp_max_states h \<le> ls_explored g")
    case True
    then show ?thesis using 1(2) pos [of "unplaced h msk"] by (auto simp: eq spent_def split: if_splits)
  next
    case False
    then obtain k where k: "state_key st = Inr k" using 1(2) by (auto simp: eq split: sum.splits)
    show ?thesis
    proof (cases "(msk, k) \<in> set (ls_memo g)")
      case True
      then show ?thesis using 1(2) False k by (simp add: eq spent_refl)
    next
      case nm: False
      obtain g2 where g2: "dfs_from h msk st 0 (visit h msk g) = Inr (b, g2)"
        and g': "g' = (if b then g2 else g2\<lparr>ls_memo := (msk, k) # ls_memo g2\<rparr>)"
        using 1(2) False k nm by (auto simp: eq split: sum.splits prod.splits if_splits)
      have "candidates h msk 0 = unplaced h msk" by (simp add: candidates_def unplaced_def)
      then have "1 + candidates h msk 0 * search_bound (unplaced h msk - 1) \<le> search_bound (unplaced h msk)"
        by (cases "unplaced h msk") simp_all
      moreover have "spent h 1 g (visit h msk g)" using False by (simp add: spent_def)
      ultimately have "spent h (search_bound (unplaced h msk)) g g2"
        using spent_trans [OF _ 1(1) [OF k g2]] spent_mono by blast
      then show ?thesis by (auto simp: g' spent_def)
    qed
  qed
next
  case (2 msk st i g)
  note eq = dfs_from_turn [of h msk st i g]
  show ?case
  proof (cases "length (lp_ops h) \<le> i")
    case True
    then show ?thesis using 2(3) by (simp add: eq spent_refl)
  next
    case n: False
    have "candidates h msk i = (if bit msk i then 0 else 1) + candidates h msk (i + 1)"
      using n by (subst candidates_turn) simp
    then have le: "candidates h msk (i + 1) * s \<le> candidates h msk i * s" for s by simp
    show ?thesis
    proof (cases "placeable h msk i \<and> lin_step (lp_captures h) st (lp_ops h ! i) \<noteq> None")
      case False
      then have "dfs_from h msk st (i + 1) g = Inr (b, g')" using 2(3) n by (auto simp: eq split: if_splits sum.splits)
      then show ?thesis using 2(1) [of g] n le spent_mono by (metis not_le)
    next
      case True
      then obtain ns where ns: "lin_step (lp_captures h) st (lp_ops h ! i) = Some ns" "placeable h msk i" by blast
      obtain f g2 where d: "dfs h (set_bit i msk) ns g = Inr (f, g2)"
        and r: "if f then b \<and> g' = g2 else dfs_from h msk st (i + 1) g2 = Inr (b, g')"
        using 2(3) n ns by (auto simp: eq split: sum.splits prod.splits if_splits)
      let ?s = "search_bound (unplaced h msk - 1)"
      have c: "candidates h msk i = 1 + candidates h msk (i + 1)" and u: "unplaced h (set_bit i msk) = unplaced h msk - 1"
        using ns(2) unplaced_set_bit [of i h msk] \<open>candidates h msk i = _\<close> by (simp_all add: placeable_def)
      have "spent h ?s g g2" using 2(2) [OF ns(2,1) d] by (simp add: u)
      moreover have "spent h (candidates h msk (i + 1) * ?s) g2 g'"
        using r 2(1) [of g2] n spent_refl by (cases f) auto
      ultimately have "spent h (?s + candidates h msk (i + 1) * ?s) g g'" by (rule spent_trans)
      then show ?thesis by (simp add: c)
    qed
  qed
qed

text \<open>The mask of the counterexample is one that the search reached.\<close>

inductive reached :: "lin_problem \<Rightarrow> lin_state \<Rightarrow> nat \<Rightarrow> lin_state \<Rightarrow> bool" for h :: lin_problem and st0 :: lin_state where
  reached_start: "reached h st0 0 st0"
| reached_step: "reached h st0 msk st \<Longrightarrow> placeable h msk i \<Longrightarrow>
    lin_step (lp_captures h) st (lp_ops h ! i) = Some ns \<Longrightarrow> reached h st0 (set_bit i msk) ns"

definition best_ok :: "lin_problem \<Rightarrow> lin_state \<Rightarrow> lin_search \<Rightarrow> bool" where
  "best_ok h st0 g \<longleftrightarrow> (0 \<le> ls_best g \<longrightarrow>
     \<not> all_placed h (ls_best_mask g) \<and> (\<exists>st. reached h st0 (ls_best_mask g) st))"

lemma best_ok_visit:
  "best_ok h st0 g \<Longrightarrow> \<not> all_placed h msk \<Longrightarrow> reached h st0 msk st \<Longrightarrow>
   best_ok h st0 (visit h msk g) \<and> 0 \<le> ls_best (visit h msk g)"
  by (auto simp: best_ok_def visit_def Let_def)

lemma dfs_best:
  "dfs h msk st g = Inr (b, g') \<Longrightarrow> reached h st0 msk st \<Longrightarrow> best_ok h st0 g \<Longrightarrow>
   best_ok h st0 g' \<and> ls_best g \<le> ls_best g' \<and>
   (\<not> all_placed h msk \<and> ls_explored g < lp_max_states h \<and> ls_memo g = [] \<longrightarrow> 0 \<le> ls_best g')"
  "dfs_from h msk st i g = Inr (b, g') \<Longrightarrow> reached h st0 msk st \<Longrightarrow> best_ok h st0 g \<Longrightarrow>
   best_ok h st0 g' \<and> ls_best g \<le> ls_best g'"
proof (induction msk st g and msk st i g arbitrary: b g' and b g' rule: dfs_induct [where h = h])
  case (1 msk st g)
  note eq = dfs.simps [of h msk st g]
  show ?case
  proof (cases "all_placed h msk \<or> lp_max_states h \<le> ls_explored g")
    case True
    then show ?thesis using 1(2,4) by (auto simp: eq best_ok_def split: if_splits)
  next
    case False
    then obtain k where k: "state_key st = Inr k" using 1(2) by (auto simp: eq split: sum.splits)
    show ?thesis
    proof (cases "(msk, k) \<in> set (ls_memo g)")
      case True
      then show ?thesis using 1(2,4) False k by (auto simp: eq)
    next
      case nm: False
      obtain g2 where g2: "dfs_from h msk st 0 (visit h msk g) = Inr (b, g2)"
        and g': "g' = (if b then g2 else g2\<lparr>ls_memo := (msk, k) # ls_memo g2\<rparr>)"
        using 1(2) False k nm by (auto simp: eq split: sum.splits prod.splits if_splits)
      have v: "best_ok h st0 (visit h msk g)" "0 \<le> ls_best (visit h msk g)"
        using best_ok_visit [OF 1(4) _ 1(3)] False by auto
      have "ls_best g \<le> ls_best (visit h msk g)" by (simp add: visit_def Let_def)
      then show ?thesis using 1(1) [OF k g2 1(3) v(1)] v(2) by (auto simp: g' best_ok_def)
    qed
  qed
next
  case (2 msk st i g)
  note eq = dfs_from_turn [of h msk st i g]
  show ?case
  proof (cases "length (lp_ops h) \<le> i")
    case True
    then show ?thesis using 2(3,5) by (simp add: eq)
  next
    case n: False
    show ?thesis
    proof (cases "placeable h msk i \<and> lin_step (lp_captures h) st (lp_ops h ! i) \<noteq> None")
      case False
      then have "dfs_from h msk st (i + 1) g = Inr (b, g')" using 2(3) n by (auto simp: eq split: if_splits sum.splits)
      then show ?thesis using 2(1) [OF _ _ 2(4,5)] n by simp
    next
      case True
      then obtain ns where ns: "lin_step (lp_captures h) st (lp_ops h ! i) = Some ns" "placeable h msk i" by blast
      obtain f g2 where d: "dfs h (set_bit i msk) ns g = Inr (f, g2)"
        and r: "if f then b \<and> g' = g2 else dfs_from h msk st (i + 1) g2 = Inr (b, g')"
        using 2(3) n ns by (auto simp: eq split: sum.splits prod.splits if_splits)
      have p: "best_ok h st0 g2 \<and> ls_best g \<le> ls_best g2"
        using 2(2) [OF ns(2,1) d reached_step [OF 2(4) ns(2,1)] 2(5)] by blast
      show ?thesis
      proof (cases f)
        case True
        then show ?thesis using p r by simp
      next
        case False
        then show ?thesis using 2(1) [OF _ _ 2(4), of g2] n r p by (auto intro: order_trans)
      qed
    qed
  qed
qed

text \<open>A partial order that the reference model can run.\<close>

definition partial_linearization :: "lin_op list \<Rightarrow> lin_state \<Rightarrow> nat list \<Rightarrow> bool" where
  "partial_linearization ops st is \<longleftrightarrow>
     distinct is \<and> set is \<subseteq> {..<length ops} \<and> sorted_wrt (\<lambda>i j. \<not> precedes (ops ! j) (ops ! i)) is \<and>
     lin_run (capture_ids ops) st (map ((!) ops) is) \<noteq> None"

lemma lin_run_snoc:
  "lin_run caps st (ps @ [p]) = (case lin_run caps st ps of None \<Rightarrow> None | Some ns \<Rightarrow> lin_step caps ns p)"
  by (induction ps arbitrary: st) (simp_all split: option.split)

lemma reached_partial:
  assumes "reached (lin_problem_of ops ms) st0 msk st"
  shows "\<exists>is. partial_linearization ops st0 is \<and> (\<forall>i. bit msk i \<longleftrightarrow> i \<in> set is) \<and>
    lin_run (capture_ids ops) st0 (map ((!) ops) is) = Some st \<and>
    (\<forall>i \<in> set is. \<forall>j < length ops. j \<noteq> i \<longrightarrow> precedes (ops ! j) (ops ! i) \<longrightarrow> j \<in> set is)"
  using assms
proof (induction rule: reached.induct)
  case reached_start
  show ?case by (rule exI [of _ "[]"]) (simp add: partial_linearization_def)
next
  case (reached_step msk st i ns)
  then obtain "is" where x: "partial_linearization ops st0 is" "\<forall>i. bit msk i \<longleftrightarrow> i \<in> set is"
    "lin_run (capture_ids ops) st0 (map ((!) ops) is) = Some st"
    "\<forall>i \<in> set is. \<forall>j < length ops. j \<noteq> i \<longrightarrow> precedes (ops ! j) (ops ! i) \<longrightarrow> j \<in> set is" by blast
  have i: "i < length ops" "i \<notin> set is" "\<forall>j < length ops. j \<noteq> i \<longrightarrow> precedes (ops ! j) (ops ! i) \<longrightarrow> j \<in> set is"
  proof -
    show n: "i < length ops" and "i \<notin> set is" using reached_step.hyps(2) x(2) by (simp_all add: placeable_def)
    have "\<not> pred_pending (lin_problem_of ops ms) msk i" using reached_step.hyps(2) by (simp add: placeable_def)
    then show "\<forall>j < length ops. j \<noteq> i \<longrightarrow> precedes (ops ! j) (ops ! i) \<longrightarrow> j \<in> set is"
      unfolding pred_pending_iff [OF n] using x(2) by blast
  qed
  have r: "lin_run (capture_ids ops) st0 (map ((!) ops) (is @ [i])) = Some ns"
    using x(3) reached_step.hyps(3) by (simp add: lin_run_snoc)
  then show ?case
    (is "\<exists>is. ?P is")
  proof (intro exI)
    have p: "partial_linearization ops st0 (is @ [i])"
    proof -
      have "\<not> precedes (ops ! i) (ops ! j)" if m: "j \<in> set is" for j
      proof
        assume "precedes (ops ! i) (ops ! j)"
        moreover have "i \<noteq> j" using m i(2) by metis
        ultimately have "i \<in> set is" using bspec [OF x(4) m] i(1) by metis
        then show False using i(2) by contradiction
      qed
      then show ?thesis using x(1) i(1,2) r by (simp add: partial_linearization_def sorted_wrt_append)
    qed
    moreover have "\<forall>k. bit (set_bit i msk) k \<longleftrightarrow> k \<in> set (is @ [i])"
      by (simp add: bit_set_bit_iff x(2)) blast
    moreover have "\<forall>k \<in> set (is @ [i]). \<forall>j < length ops. j \<noteq> k \<longrightarrow> precedes (ops ! j) (ops ! k) \<longrightarrow> j \<in> set (is @ [i])"
      using x(4) i(3) by (metis Un_iff empty_iff insert_iff list.set(1) list.simps(15) set_append)
    ultimately show "?P (is @ [i])" using r by blast
  qed
qed

subsection \<open>Well typed histories\<close>

text \<open>Writes carry a fact and a version; then nothing raises.\<close>

definition typed_op :: "lin_op \<Rightarrow> bool" where
  "typed_op p \<longleftrightarrow> (is_write (lo_kind p) \<longrightarrow> lo_fact_id p \<noteq> None \<and> lo_version p \<noteq> None)"

definition typed_facts :: "lin_facts \<Rightarrow> bool" where
  "typed_facts fs \<longleftrightarrow> (\<forall>(f, v, _) \<in> set fs. f \<noteq> None \<and> v \<noteq> None)"

lemma typed_sorted: "typed_facts fs \<Longrightarrow> \<exists>s. sorted_facts fs = Inr s"
  by (force simp: typed_facts_def sorted_facts_def)

lemma typed_dput:
  "typed_facts fs \<Longrightarrow> f \<noteq> None \<Longrightarrow> v \<noteq> None \<Longrightarrow> typed_facts (dput f (v, k, x) fs)"
  unfolding typed_facts_def using set_dput_cases by fastforce

lemma typed_get: "typed_facts fs \<Longrightarrow> dget fs f = Some (v, k, x) \<Longrightarrow> v \<noteq> None"
  unfolding typed_facts_def using map_of_SomeD by fastforce

lemma apply_op_typed:
  assumes "typed_facts (ln_facts st)" "typed_op p"
  shows "\<exists>c e ns. apply_op st p caps = Inr (c, e, ns) \<and> typed_facts (ln_facts ns)"
proof (cases "is_write (lo_kind p)")
  case True
  then obtain f v where w: "lo_fact_id p = Some f" "lo_version p = Some v" using assms(2) by (auto simp: typed_op_def)
  have pf: "\<exists>d. lin_preflight (dget (ln_facts st) (Some f)) (Some v) (lo_value p) (lo_kind p) = Inr d"
    using typed_get [OF assms(1), of "Some f"] by (auto simp: lin_preflight_def split: option.splits)
  have "typed_facts (ln_facts (record_write st p))"
    using typed_dput [OF assms(1), of "Some f" "Some v"] by (simp add: record_write_def Let_def w)
  then show ?thesis
    using True assms(1) w pf by (auto simp: apply_op_def apply_write_def split: option.split)
next
  case False
  obtain s where "sorted_facts (ln_facts st) = Inr s" using typed_sorted [OF assms(1)] by blast
  then show ?thesis
    using False assms(1) by (cases "lo_kind p") (auto simp: apply_op_def is_write_def split: prod.split)
qed

lemma lin_step_typed:
  "lin_step caps st p = Some ns \<Longrightarrow> typed_facts (ln_facts st) \<Longrightarrow> typed_op p \<Longrightarrow> typed_facts (ln_facts ns)"
  using apply_op_typed [of st p caps] by (auto simp: lin_step_def split: if_splits)

lemma dfs_typed:
  assumes ops: "\<forall>p \<in> set (lp_ops h). typed_op p"
  shows "typed_facts (ln_facts st) \<Longrightarrow> \<exists>b g'. dfs h msk st g = Inr (b, g')"
    and "typed_facts (ln_facts st) \<Longrightarrow> \<exists>b g'. dfs_from h msk st i g = Inr (b, g')"
proof (induction msk st g and msk st i g rule: dfs_induct [where h = h])
  case (1 msk st g)
  obtain fs where "sorted_facts (ln_facts st) = Inr fs" using typed_sorted [OF 1(2)] by blast
  then obtain k where k: "state_key st = Inr k" by (simp add: state_key_def)
  from 1(1) [OF this 1(2)] show ?case by (auto simp: dfs.simps [of h msk st g] k)
next
  case (2 msk st i g)
  show ?case
  proof (cases "i < length (lp_ops h)")
    case False
    then have "dfs_from h msk st i g = Inr (False, g)" by (simp add: dfs_from_turn)
    then show ?thesis by blast
  next
    case True
    then have t: "typed_op (lp_ops h ! i)" using ops by simp
    obtain r where r: "apply_op st (lp_ops h ! i) (lp_captures h) = Inr r" using apply_op_typed [OF 2(3) t] by blast
    show ?thesis
    proof (cases "placeable h msk i \<and> lin_step (lp_captures h) st (lp_ops h ! i) \<noteq> None")
      case False
      then show ?thesis using 2(1) [OF True 2(3)] True r by (auto simp: dfs_from_turn [of h msk st i g])
    next
      case nF: True
      then obtain ns where ns: "lin_step (lp_captures h) st (lp_ops h ! i) = Some ns" "placeable h msk i" by blast
      obtain f g2 where "dfs h (set_bit i msk) ns g = Inr (f, g2)"
        using 2(2) [OF ns(2,1) lin_step_typed [OF ns(1) 2(3) t]] by blast
      then show ?thesis using 2(1) [OF True 2(3), of g2] True r ns by (auto simp: dfs_from_turn [of h msk st i g])
    qed
  qed
qed


subsection \<open>The checker decides linearizability\<close>

lemma lin_init_ok:
  "distinct (dkeys fs) \<Longrightarrow> lin_wf (lin_init rs gn fs)" "ln_facts (lin_init rs gn fs) = fs"
  by (simp_all add: lin_wf_def lin_init_def)

lemma search0_ok [simp]:
  "memo_ok h search0" "best_ok h st search0" "ls_explored search0 = 0" "\<not> ls_budget_hit search0" "ls_memo search0 = []"
  by (simp_all add: memo_ok_def best_ok_def search0_def)

text \<open>What the answer says of the search.\<close>

lemma check_search:
  assumes "check_linearizable ops ms rs gn fs = Inr r"
  obtains found g where "dfs (lin_problem_of ops ms) 0 (lin_init rs gn fs) search0 = Inr (found, g)"
    "cr_states_explored r = ls_explored g"
    "cr_verdict r = (if found then LINEARIZABLE else if ls_budget_hit g then BUDGET_EXHAUSTED else NON_LINEARIZABLE)"
    "cr_counterexample r = (if found \<or> ls_budget_hit g then [] else map (\<lambda>i. lo_inv_id (ops ! i))
       (filter (\<lambda>i. bit (complete_mask ops) i \<and> \<not> bit (ls_best_mask g) i) [0..<length ops]))"
  using assms by (auto simp: check_linearizable_def Let_def split: sum.splits prod.splits if_splits)

text \<open>C38: A verdict is right: \<open>LINEARIZABLE\<close> has a linearization, \<open>NON_LINEARIZABLE\<close> has none, and an
  exhausted budget was spent to the last state.\<close>

theorem checker_verdicts:
  assumes "distinct (dkeys fs)" "check_linearizable ops ms rs gn fs = Inr r"
  shows "(cr_verdict r = LINEARIZABLE \<longrightarrow> (\<exists>is. linearization ops (lin_init rs gn fs) is)) \<and>
    (cr_verdict r = NON_LINEARIZABLE \<longrightarrow> (\<nexists>is. linearization ops (lin_init rs gn fs) is)) \<and>
    (cr_verdict r = BUDGET_EXHAUSTED \<longrightarrow> cr_states_explored r = ms) \<and> cr_states_explored r \<le> ms"
proof -
  obtain found g where d: "dfs (lin_problem_of ops ms) 0 (lin_init rs gn fs) search0 = Inr (found, g)"
    and r: "cr_states_explored r = ls_explored g"
      "cr_verdict r = (if found then LINEARIZABLE else if ls_budget_hit g then BUDGET_EXHAUSTED else NON_LINEARIZABLE)"
    by (rule check_search [OF assms(2)])
  have p: "dfs_post (lin_problem_of ops ms) (\<exists>is. linearization ops (lin_init rs gn fs) is) search0 found g"
    using dfs_correct(1) [OF lin_init_ok(1) [OF assms(1)] _ d] by (simp add: completes_linearization)
  have "spent (lin_problem_of ops ms) (search_bound (unplaced (lin_problem_of ops ms) 0)) search0 g"
    by (rule dfs_spent(1) [OF d])
  then show ?thesis using p by (auto simp: r dfs_post_def spent_def)
qed

text \<open>C39: On a history whose writes carry a fact and a version, nothing raises, and with a budget of
  \<open>search_bound\<close> of its length the answer is definite.\<close>

theorem checker_decides:
  assumes "\<forall>p \<in> set ops. typed_op p" "typed_facts fs" "distinct (dkeys fs)" "search_bound (length ops) \<le> ms"
  shows "\<exists>r. check_linearizable ops ms rs gn fs = Inr r \<and> cr_states_explored r \<le> search_bound (length ops) \<and>
    cr_verdict r = (if \<exists>is. linearization ops (lin_init rs gn fs) is then LINEARIZABLE else NON_LINEARIZABLE)"
proof -
  let ?h = "lin_problem_of ops ms" and ?st = "lin_init rs gn fs"
  obtain found g where d: "dfs ?h 0 ?st search0 = Inr (found, g)"
    using dfs_typed(1) [of ?h ?st 0 search0] assms(1,2) by (auto simp: lin_init_ok)
  have u: "unplaced ?h 0 = length ops" by (simp add: unplaced_def)
  have p: "dfs_post ?h (\<exists>is. linearization ops ?st is) search0 found g"
    using dfs_correct(1) [OF lin_init_ok(1) [OF assms(3)] _ d] by (simp add: completes_linearization)
  have s: "spent ?h (search_bound (length ops)) search0 g" using dfs_spent(1) [OF d] by (simp add: u)
  then have "\<not> ls_budget_hit g" using assms(4) by (auto simp: spent_def)
  then show ?thesis using d p s by (auto simp: check_linearizable_def dfs_post_def spent_def)
qed


definition hist2 :: "rv list \<Rightarrow> lin_op list" where
  "hist2 ans =
     [\<lparr>lo_inv_id = 1, lo_actor = ''a'', lo_kind = L_PUT, lo_invocation = 0, lo_response = Some 1, lo_operation_id = Some 9,
       lo_fact_id = Some 5, lo_version = Some 1, lo_value = Some 7, lo_result = Some [RStr S_APPLIED, RInt 1], lo_snapshot_of = None\<rparr>,
      \<lparr>lo_inv_id = 2, lo_actor = ''b'', lo_kind = L_READ, lo_invocation = 2, lo_response = Some 3, lo_operation_id = None,
       lo_fact_id = Some 5, lo_version = None, lo_value = None, lo_result = Some ans, lo_snapshot_of = None\<rparr>]"

lemma hist2_runs:
  "check_linearizable (hist2 [RStr S_PRESENT, RInt 7]) 9 0 0 []
    = Inr \<lparr>cr_verdict = LINEARIZABLE, cr_counterexample = [], cr_states_explored = 2\<rparr>"
  "check_linearizable (hist2 [RStr S_NOT_FOUND, RNone]) 9 0 0 []
    = Inr \<lparr>cr_verdict = NON_LINEARIZABLE, cr_counterexample = [2], cr_states_explored = 2\<rparr>"
  by code_simp+

theorem checker_verdicts_witness:
  "(\<exists>is. linearization (hist2 [RStr S_PRESENT, RInt 7]) (lin_init 0 0 []) is) \<and>
   (\<nexists>is. linearization (hist2 [RStr S_NOT_FOUND, RNone]) (lin_init 0 0 []) is)"
  using checker_verdicts [OF _ hist2_runs(1)] checker_verdicts [OF _ hist2_runs(2)] by simp

theorem checker_decides_witness:
  "\<exists>r. check_linearizable (hist2 [RStr S_NOT_FOUND, RNone]) 5 0 0 [] = Inr r \<and> cr_verdict r \<noteq> BUDGET_EXHAUSTED"
proof -
  have "\<forall>p \<in> set (hist2 [RStr S_NOT_FOUND, RNone]). typed_op p" by (simp add: hist2_def typed_op_def is_write_def)
  moreover have "typed_facts []" "distinct (dkeys [])" by (simp_all add: typed_facts_def)
  moreover have "search_bound (length (hist2 [RStr S_NOT_FOUND, RNone])) \<le> 5" by (simp add: hist2_def numeral_2_eq_2)
  ultimately show ?thesis using checker_decides [of "hist2 [RStr S_NOT_FOUND, RNone]" "[]" 5 0 0] by fastforce
qed


end
