(* ===== verification/PubCodec.thy ===== *)
theory PubCodec
  imports Generation Lease
begin

section \<open>PublicationRecord and CURRENT (\<open>horizon_publication.py\<close>)\<close>

text \<open>
  The published generation of a scope is named in three steps: the fixed size pointer
  \<open>CURRENT\<close> holds the digest of a \<open>PublicationRecord\<close>, the record holds the digest of a
  manifest, and both records and manifests live in the object store under their digests. This
  theory models the two encodings, their parsers and the bounded read of the pointer. The lemmas
  show that a parser accepts exactly the canonical encodings made with the key of the key ring.
  The human readable reasons are left out.
\<close>

datatype publication_state = PS_VALID | PS_MISSING | PS_CORRUPT | PS_INCOMPATIBLE | PS_RESOURCE_LIMIT

definition PR_MAGIC :: bytes where "PR_MAGIC = [0x48, 0x50, 0x52, 0x31]"
definition CUR_MAGIC :: bytes where "CUR_MAGIC = [0x48, 0x43, 0x55, 0x52]"
definition HORIZONPUB :: bytes where
  "HORIZONPUB = [0x48, 0x4F, 0x52, 0x49, 0x5A, 0x4F, 0x4E, 0x50, 0x55, 0x42]"
definition HORIZONCURRENT :: bytes where
  "HORIZONCURRENT = [0x48, 0x4F, 0x52, 0x49, 0x5A, 0x4F, 0x4E, 0x43, 0x55, 0x52, 0x52, 0x45, 0x4E, 0x54]"

abbreviation (input) PR_LAYOUT :: "sfmt list" where
  "PR_LAYOUT \<equiv> [FS 4, FU 2, FU 4, FU 4, FU 8, FU 8, FS 32, FS 32, FU 4]"
abbreviation (input) PR_SIZE :: nat where "PR_SIZE \<equiv> 98"
abbreviation (input) CUR_LAYOUT :: "sfmt list" where "CUR_LAYOUT \<equiv> [FS 4, FU 2, FS 32, FU 4]"
abbreviation (input) CUR_SIZE :: nat where "CUR_SIZE \<equiv> 42"
abbreviation (input) CURRENT_LEN :: nat where "CURRENT_LEN \<equiv> 58"
abbreviation (input) PUB_VERSION :: int where "PUB_VERSION \<equiv> 1"

subsection \<open>The record\<close>

record publication_record =
  pub_scope_id :: int
  pub_generation_id :: int
  pub_revision :: int
  pub_read_seq :: int
  pub_manifest_sha256 :: bytes
  pub_previous_sha256 :: bytes
  pub_key_id :: int

definition pub_row :: "publication_record \<Rightarrow> sval list" where
  "pub_row r = [VB PR_MAGIC, VI PUB_VERSION, VI (pub_scope_id r), VI (pub_generation_id r),
     VI (pub_revision r), VI (pub_read_seq r), VB (pub_manifest_sha256 r), VB (pub_previous_sha256 r),
     VI (pub_key_id r)]"

text \<open>\<open>None\<close> stands for \<open>struct.error\<close>.\<close>

definition pub_serialize :: "publication_record \<Rightarrow> bytes \<Rightarrow> bytes option" where
  "pub_serialize r key = map_option (\<lambda>body. body @ mac16 key (HORIZONPUB @ body)) (struct_pack PR_LAYOUT (pub_row r))"

definition pub_of_row :: "sval list \<Rightarrow> publication_record" where
  "pub_of_row x = \<lparr>pub_scope_id = fi x 2, pub_generation_id = fi x 3, pub_revision = fi x 4,
     pub_read_seq = fi x 5, pub_manifest_sha256 = fb x 6, pub_previous_sha256 = fb x 7, pub_key_id = fi x 8\<rparr>"

definition parse_publication_record ::
  "bytes option \<Rightarrow> keyring \<Rightarrow> publication_state \<times> publication_record option" where
  "parse_publication_record blob_opt kr =
     (case blob_opt of
        None \<Rightarrow> (PS_MISSING, None)
      | Some blob \<Rightarrow>
          if length blob \<noteq> PR_SIZE + TAG_BYTES then (PS_CORRUPT, None)
          else
            (let x = struct_unpack PR_LAYOUT blob
             in if fb x 0 \<noteq> PR_MAGIC then (PS_CORRUPT, None)
                else if fi x 1 \<noteq> PUB_VERSION then (PS_INCOMPATIBLE, None)
                else
                  (case dget kr (fi x 8) of
                     None \<Rightarrow> (PS_INCOMPATIBLE, None)
                   | Some key \<Rightarrow>
                       if mac16 key (HORIZONPUB @ take PR_SIZE blob) \<noteq> drop PR_SIZE blob then (PS_CORRUPT, None)
                       else if fi x 2 > U32_MAX \<or> fi x 3 > U32_MAX then (PS_CORRUPT, None)
                       else if fb x 6 = ZERO32 then (PS_CORRUPT, None)
                       else if (fi x 4 = 0) \<noteq> (fb x 7 = ZERO32) then (PS_CORRUPT, None)
                       else if \<not> (0 \<le> fi x 5 \<and> fi x 5 < MAX_SEQ) then (PS_CORRUPT, None)
                       else (PS_VALID, Some (pub_of_row x)))))"

subsection \<open>The pointer\<close>

record current_pointer =
  cp_publication_sha256 :: bytes
  cp_key_id :: int

definition cur_row :: "bytes \<Rightarrow> int \<Rightarrow> sval list" where
  "cur_row d key_id = [VB CUR_MAGIC, VI PUB_VERSION, VB d, VI key_id]"

text \<open>\<open>None\<close> stands for the \<open>ValueError\<close> of a digest of another length and for
  \<open>struct.error\<close>.\<close>

definition serialize_current :: "bytes \<Rightarrow> int \<Rightarrow> bytes \<Rightarrow> bytes option" where
  "serialize_current d key_id key =
     (if length d \<noteq> 32 then None
      else map_option (\<lambda>body. body @ mac16 key (HORIZONCURRENT @ body)) (struct_pack CUR_LAYOUT (cur_row d key_id)))"

definition parse_current ::
  "bytes option \<Rightarrow> keyring \<Rightarrow> publication_state \<times> current_pointer option" where
  "parse_current blob_opt kr =
     (case blob_opt of
        None \<Rightarrow> (PS_MISSING, None)
      | Some blob \<Rightarrow>
          if length blob \<noteq> CURRENT_LEN then (PS_CORRUPT, None)
          else
            (let x = struct_unpack CUR_LAYOUT blob
             in if fb x 0 \<noteq> CUR_MAGIC then (PS_CORRUPT, None)
                else if fi x 1 \<noteq> PUB_VERSION then (PS_INCOMPATIBLE, None)
                else
                  (case dget kr (fi x 3) of
                     None \<Rightarrow> (PS_INCOMPATIBLE, None)
                   | Some key \<Rightarrow>
                       if mac16 key (HORIZONCURRENT @ take CUR_SIZE blob) \<noteq> drop CUR_SIZE blob
                       then (PS_CORRUPT, None)
                       else (PS_VALID, Some \<lparr>cp_publication_sha256 = fb x 2, cp_key_id = fi x 3\<rparr>))))"

subsection \<open>Outcomes of the operations on the directory\<close>

text \<open>A call returns, raises, or the process dies in it.\<close>

datatype pub_exn = PubOSError | PubIntegrityError | PubStructError | PubValueError | PubGenExn gen_exn

datatype 'a pub_out = PRet 'a | PRaise pub_exn | PKilled

text \<open>
  \<open>read_current\<close> of the node under the name \<open>CURRENT\<close>: a failing \<open>open\<close> and a short read
  are answered, a failing \<open>pread\<close> raises.
\<close>

definition read_current ::
  "file_node option \<Rightarrow> keyring \<Rightarrow> int \<Rightarrow> read_fault option
     \<Rightarrow> (publication_state \<times> current_pointer option) pub_out" where
  "read_current node kr max_bytes fault =
     (case node of
        None \<Rightarrow> PRet (PS_MISSING, None)
      | Some nd \<Rightarrow>
          if fault = Some OpenFault then PRet (PS_CORRUPT, None)
          else
            (case nd of
               Symlink \<Rightarrow> PRet (PS_CORRUPT, None)
             | OtherNode \<Rightarrow> PRet (PS_CORRUPT, None)
             | RegularFile b \<Rightarrow>
                 if int (length b) > max_bytes then PRet (PS_RESOURCE_LIMIT, None)
                 else if fault = Some ReadFault then PRaise PubOSError
                 else if fault = Some ChangeFault then PRet (PS_CORRUPT, None)
                 else PRet (parse_current (Some b) kr)))"

subsection \<open>The parsers accept exactly the canonical encodings\<close>

definition pub_canonical :: "publication_record \<Rightarrow> bool" where
  "pub_canonical r \<longleftrightarrow> length (pub_manifest_sha256 r) = 32 \<and> length (pub_previous_sha256 r) = 32
     \<and> pub_manifest_sha256 r \<noteq> ZERO32 \<and> ((pub_revision r = 0) = (pub_previous_sha256 r = ZERO32))
     \<and> pub_read_seq r < MAX_SEQ"

lemma pub_of_row_row [simp]: "pub_of_row (pub_row r) = r"
  by (simp add: pub_of_row_def pub_row_def)

lemma length_PR_MAGIC [simp]: "length PR_MAGIC = 4" "length CUR_MAGIC = 4"
  by (simp_all add: PR_MAGIC_def CUR_MAGIC_def)

lemma fits_packed:
  "struct_pack fs vs = Some b \<Longrightarrow> \<forall>i < length fs. \<forall>n d. fs ! i = FS n \<longrightarrow> vs ! i = VB d \<longrightarrow> length d = n
    \<Longrightarrow> list_all2 fits fs vs"
proof (induction fs vs arbitrary: b rule: struct_pack.induct)
  case (2 f fs v vs)
  obtain b1 bs where p: "pack1 f v = Some b1" "struct_pack fs vs = Some bs"
    using "2.prems"(1) by (auto split: option.splits)
  have "list_all2 fits fs vs"
    using "2.IH" [OF p] "2.prems"(2) by force
  moreover have "fits f v"
    using p(1) "2.prems"(2) [rule_format, of 0] by (cases f; cases v) (auto split: if_splits)
  ultimately show ?case by simp
qed auto

lemma pub_pack_fits:
  assumes "struct_pack PR_LAYOUT (pub_row r) = Some body" "pub_canonical r"
  shows "list_all2 fits PR_LAYOUT (pub_row r)"
  by (rule fits_packed [OF assms(1)])
     (use assms(2) in \<open>auto simp: pub_row_def pub_canonical_def nth_Cons split: nat.splits\<close>)

lemma pub_parse_serialized:
  assumes s: "pub_serialize r key = Some b" and k: "dget kr (pub_key_id r) = Some key" and c: "pub_canonical r"
  shows "parse_publication_record (Some b) kr = (PS_VALID, Some r)"
proof -
  obtain body where body: "struct_pack PR_LAYOUT (pub_row r) = Some body" and b: "b = body @ mac16 key (HORIZONPUB @ body)"
    using s by (auto simp: pub_serialize_def)
  have l: "length body = PR_SIZE" using struct_pack_length [OF body] by simp
  have f: "list_all2 fits PR_LAYOUT (pub_row r)" by (rule pub_pack_fits [OF body c])
  have u: "struct_unpack PR_LAYOUT b = pub_row r" unfolding b by (rule struct_unpack_pack [OF body f])
  have t: "take PR_SIZE b = body" "drop PR_SIZE b = mac16 key (HORIZONPUB @ body)" using l by (simp_all add: b)
  have lb: "length b = PR_SIZE + TAG_BYTES" using l by (simp add: b)
  have rng: "fi (pub_row r) 2 \<le> U32_MAX" "fi (pub_row r) 3 \<le> U32_MAX" "0 \<le> pub_read_seq r"
    using f by (simp_all add: pub_row_def)
  have x: "fb (pub_row r) 0 = PR_MAGIC" "fi (pub_row r) 1 = PUB_VERSION" "fi (pub_row r) 8 = pub_key_id r"
    "fb (pub_row r) 6 = pub_manifest_sha256 r" "fb (pub_row r) 7 = pub_previous_sha256 r"
    "fi (pub_row r) 4 = pub_revision r" "fi (pub_row r) 5 = pub_read_seq r"
    by (simp_all add: pub_row_def)
  show ?thesis
    unfolding parse_publication_record_def option.case u Let_def x k t
    using lb rng c by (simp add: pub_canonical_def)
qed

lemma u4_row: "struct_unpack PR_LAYOUT b = x \<Longrightarrow> fb x 0 = PR_MAGIC \<Longrightarrow> fi x 1 = PUB_VERSION \<Longrightarrow> x = pub_row (pub_of_row x)"
  by (auto simp: pub_row_def pub_of_row_def)

lemma pub_parse_inv:
  assumes p: "parse_publication_record (Some b) kr = (PS_VALID, Some r)"
  shows "\<exists>key. dget kr (pub_key_id r) = Some key \<and> pub_serialize r key = Some b \<and> pub_canonical r"
proof -
  define x where "x = struct_unpack PR_LAYOUT b"
  obtain key where h: "length b = PR_SIZE + TAG_BYTES" "fb x 0 = PR_MAGIC" "fi x 1 = PUB_VERSION"
    "dget kr (fi x 8) = Some key" "mac16 key (HORIZONPUB @ take PR_SIZE b) = drop PR_SIZE b"
    "fb x 6 \<noteq> ZERO32" "(fi x 4 = 0) = (fb x 7 = ZERO32)" "fi x 5 < MAX_SEQ" "r = pub_of_row x"
    using p unfolding parse_publication_record_def option.case Let_def x_def [symmetric]
    by (auto split: if_splits option.splits)
  have row: "x = pub_row r" using u4_row [OF x_def [symmetric] h(2,3)] by (simp add: h(9))
  have k: "dget kr (pub_key_id r) = Some key" using h(4) by (simp add: row pub_row_def)
  have "struct_pack PR_LAYOUT x = Some (take PR_SIZE b)"
    using struct_pack_unpack [of PR_LAYOUT b] h(1) unfolding x_def by simp
  then have "pub_serialize r key = Some (take PR_SIZE b @ mac16 key (HORIZONPUB @ take PR_SIZE b))"
    by (simp add: pub_serialize_def row)
  then have s: "pub_serialize r key = Some b" by (simp add: h(5))
  have "length (fb x 6) = 32" "length (fb x 7) = 32" using h(1) by (simp_all add: x_def)
  then have "pub_canonical r" using h(6-8) by (simp add: pub_canonical_def row pub_row_def)
  then show ?thesis using k s by blast
qed

lemma cur_parse_serialized:
  assumes s: "serialize_current d key_id key = Some b" and k: "dget kr key_id = Some key"
  shows "parse_current (Some b) kr = (PS_VALID, Some \<lparr>cp_publication_sha256 = d, cp_key_id = key_id\<rparr>)"
proof -
  obtain body where d: "length d = 32" and body: "struct_pack CUR_LAYOUT (cur_row d key_id) = Some body"
    and b: "b = body @ mac16 key (HORIZONCURRENT @ body)"
    using s by (auto simp: serialize_current_def split: if_splits)
  have l: "length body = CUR_SIZE" using struct_pack_length [OF body] by simp
  have f: "list_all2 fits CUR_LAYOUT (cur_row d key_id)"
    by (rule fits_packed [OF body]) (use d in \<open>auto simp: cur_row_def nth_Cons split: nat.splits\<close>)
  have u: "struct_unpack CUR_LAYOUT b = cur_row d key_id" unfolding b by (rule struct_unpack_pack [OF body f])
  have t: "take CUR_SIZE b = body" "drop CUR_SIZE b = mac16 key (HORIZONCURRENT @ body)" using l by (simp_all add: b)
  have lb: "length b = CURRENT_LEN" using l by (simp add: b)
  have x: "fb (cur_row d key_id) 0 = CUR_MAGIC" "fi (cur_row d key_id) 1 = PUB_VERSION"
    "fb (cur_row d key_id) 2 = d" "fi (cur_row d key_id) 3 = key_id"
    by (simp_all add: cur_row_def)
  show ?thesis unfolding parse_current_def option.case u Let_def x k t using lb by simp
qed

lemma cur_parse_inv:
  assumes p: "parse_current (Some b) kr = (PS_VALID, Some cp)"
  shows "\<exists>key. dget kr (cp_key_id cp) = Some key
    \<and> serialize_current (cp_publication_sha256 cp) (cp_key_id cp) key = Some b"
proof -
  define x where "x = struct_unpack CUR_LAYOUT b"
  obtain key where h: "length b = CURRENT_LEN" "fb x 0 = CUR_MAGIC" "fi x 1 = PUB_VERSION"
    "dget kr (fi x 3) = Some key" "mac16 key (HORIZONCURRENT @ take CUR_SIZE b) = drop CUR_SIZE b"
    "cp = \<lparr>cp_publication_sha256 = fb x 2, cp_key_id = fi x 3\<rparr>"
    using p unfolding parse_current_def option.case Let_def x_def [symmetric]
    by (auto split: if_splits option.splits)
  have row: "x = cur_row (fb x 2) (fi x 3)" using h(2,3) by (simp add: x_def cur_row_def)
  have "struct_pack CUR_LAYOUT x = Some (take CUR_SIZE b)"
    using struct_pack_unpack [of CUR_LAYOUT b] h(1) unfolding x_def by simp
  moreover have "length (fb x 2) = 32" using h(1) by (simp add: x_def)
  ultimately have "serialize_current (fb x 2) (fi x 3) key = Some (take CUR_SIZE b @ mac16 key (HORIZONCURRENT @ take CUR_SIZE b))"
    using row by (simp add: serialize_current_def)
  then show ?thesis using h(4,5) by (simp add: h(6))
qed

lemma serialize_current_length: "serialize_current d k key = Some b \<Longrightarrow> length b = CURRENT_LEN"
  by (auto simp: serialize_current_def split: if_splits dest: struct_pack_length)

end
