(* ===== verification/Transition.thy ===== *)
theory Transition
  imports PubCodec Batch
begin

section \<open>What a publication may change (\<open>horizon_publication.py\<close>)\<close>

text \<open>
  Every publication has a purpose, which fixes the authority it needs (a lease of the scope in a
  given state) and the change it may make to the published manifest. This theory models the pure
  part: the transition check of each purpose, the authority check and the derivation of the
  manifest of a batch. The lemmas show that a batch and a rotation keep the coverage law and that
  the derived manifest of a batch is a legal transition that adds exactly the applied records.
\<close>

datatype publication_purpose = PP_GENESIS | PP_BATCH | PP_ROTATION | PP_MAINTENANCE

datatype transition_state = T_OK | T_INVALID | T_NOT_ENABLED

subsection \<open>Equality of manifests\<close>

text \<open>Python compares dictionaries as maps, whatever their order.\<close>

definition same_dict :: "('k, 'v) pydict \<Rightarrow> ('k, 'v) pydict \<Rightarrow> bool" where
  "same_dict d e \<longleftrightarrow> list_all (\<lambda>k. dget d k = dget e k) (dkeys d @ dkeys e)"

definition same_manifest :: "epoch_manifest \<Rightarrow> epoch_manifest \<Rightarrow> bool" where
  "same_manifest a b \<longleftrightarrow>
     em_scope_id a = em_scope_id b \<and> em_generation_id a = em_generation_id b \<and> em_fact_count a = em_fact_count b
     \<and> em_base_seq a = em_base_seq b \<and> em_read_seq a = em_read_seq b
     \<and> em_parent_generation_id a = em_parent_generation_id b
     \<and> em_parent_manifest_digest a = em_parent_manifest_digest b
     \<and> same_dict (em_base_descriptors a) (em_base_descriptors b)
     \<and> em_segments a = em_segments b \<and> em_key_id a = em_key_id b"

definition same_generation_identity :: "epoch_manifest \<Rightarrow> epoch_manifest \<Rightarrow> bool" where
  "same_generation_identity prev cand \<longleftrightarrow>
     em_scope_id prev = em_scope_id cand \<and> em_generation_id prev = em_generation_id cand
     \<and> em_fact_count prev = em_fact_count cand \<and> em_base_seq prev = em_base_seq cand
     \<and> em_parent_generation_id prev = em_parent_generation_id cand
     \<and> em_parent_manifest_digest prev = em_parent_manifest_digest cand
     \<and> same_dict (em_base_descriptors prev) (em_base_descriptors cand) \<and> em_key_id prev = em_key_id cand"

subsection \<open>The three transitions\<close>

definition validate_batch :: "epoch_manifest \<Rightarrow> epoch_manifest \<Rightarrow> transition_state" where
  "validate_batch prev cand =
     (let old = last (em_segments prev); new = last (em_segments cand);
          expected_active = old\<lparr>sd_record_count := sd_record_count new,
            wsd_durable_prefix_length := wsd_durable_prefix_length new,
            wsd_durable_prefix_sha256 := wsd_durable_prefix_sha256 new\<rparr>;
          expected = prev\<lparr>em_read_seq := em_read_seq cand,
            em_segments := butlast (em_segments prev) @ [expected_active]\<rparr>
      in if wsd_status old \<noteq> STATE_ACTIVE \<or> wsd_status new \<noteq> STATE_ACTIVE then T_INVALID
         else if em_read_seq cand \<le> em_read_seq prev then T_INVALID
         else if \<not> same_manifest cand expected then T_INVALID
         else if wsd_durable_prefix_length new < wsd_durable_prefix_length old then T_INVALID
         else if sd_record_count new < sd_record_count old then T_INVALID
         else if int (sd_record_count new) \<noteq> em_read_seq cand - sd_first_seq new + 1 then T_INVALID
         else if wsd_sealed_object_length new \<noteq> 0 \<or> wsd_sealed_object_sha256 new \<noteq> ZERO32 then T_INVALID
         else T_OK)"

definition validate_rotation :: "epoch_manifest \<Rightarrow> epoch_manifest \<Rightarrow> transition_state" where
  "validate_rotation prev cand =
     (let old = last (em_segments prev); n = length (em_segments prev);
          sealed = em_segments cand ! (n - 1); na = last (em_segments cand)
      in if wsd_status old \<noteq> STATE_ACTIVE then T_INVALID
         else if em_read_seq cand \<noteq> em_read_seq prev then T_INVALID
         else if length (em_segments cand) \<noteq> n + 1 then T_INVALID
         else if take (n - 1) (em_segments cand) \<noteq> take (n - 1) (em_segments prev) then T_INVALID
         else if wsd_status sealed \<noteq> STATE_SEALED then T_INVALID
         else if sd_ordinal sealed \<noteq> sd_ordinal old \<or> sd_segment_id sealed \<noteq> sd_segment_id old
             \<or> sd_first_seq sealed \<noteq> sd_first_seq old \<or> sd_record_count sealed \<noteq> sd_record_count old
             \<or> wsd_prev_segment_digest sealed \<noteq> wsd_prev_segment_digest old
             \<or> wsd_key_id sealed \<noteq> wsd_key_id old then T_INVALID
         else if wsd_sealed_object_length sealed \<noteq> wsd_durable_prefix_length sealed
             \<or> wsd_sealed_object_sha256 sealed \<noteq> wsd_durable_prefix_sha256 sealed
             \<or> wsd_sealed_object_sha256 sealed = ZERO32 then T_INVALID
         else if wsd_durable_prefix_length sealed \<noteq> wsd_durable_prefix_length old + int SEAL_FOOTER_BYTES then T_INVALID
         else if wsd_status na \<noteq> STATE_ACTIVE then T_INVALID
         else if sd_ordinal na \<noteq> sd_ordinal old + 1 \<or> sd_segment_id na \<noteq> sd_segment_id old + 1 then T_INVALID
         else if sd_first_seq na \<noteq> em_read_seq cand + 1 then T_INVALID
         else if sd_record_count na \<noteq> 0 \<or> wsd_sealed_object_length na \<noteq> 0
             \<or> wsd_sealed_object_sha256 na \<noteq> ZERO32 then T_INVALID
         else if wsd_durable_prefix_length na \<le> 0 then T_INVALID
         else if wsd_prev_segment_digest na \<noteq> take 16 (wsd_sealed_object_sha256 sealed) then T_INVALID
         else if wsd_key_id na \<noteq> wsd_key_id old then T_INVALID
         else T_OK)"

definition validate_maintenance :: "epoch_manifest \<Rightarrow> epoch_manifest \<Rightarrow> transition_state" where
  "validate_maintenance prev cand =
     (let na = hd (em_segments cand)
      in if em_scope_id cand \<noteq> em_scope_id prev then T_INVALID
         else if em_generation_id cand \<noteq> em_generation_id prev + 1 then T_INVALID
         else if em_parent_generation_id cand \<noteq> em_generation_id prev then T_INVALID
         else if em_read_seq cand \<noteq> em_read_seq prev then T_INVALID
         else if em_base_seq cand \<noteq> em_read_seq cand then T_INVALID
         else if length (em_segments cand) \<noteq> 1 then T_INVALID
         else if wsd_status na \<noteq> STATE_ACTIVE then T_INVALID
         else if sd_first_seq na \<noteq> em_read_seq cand + 1 then T_INVALID
         else if sd_record_count na \<noteq> 0 \<or> wsd_sealed_object_length na \<noteq> 0
             \<or> wsd_sealed_object_sha256 na \<noteq> ZERO32 then T_INVALID
         else if wsd_durable_prefix_length na \<le> 0 then T_INVALID
         else T_OK)"

definition validate_publication_transition ::
  "epoch_manifest option \<Rightarrow> epoch_manifest \<Rightarrow> publication_purpose \<Rightarrow> transition_state" where
  "validate_publication_transition previous candidate purpose =
     (if purpose = PP_GENESIS then (if previous \<noteq> None then T_INVALID else T_OK)
      else
        (case previous of
           None \<Rightarrow> T_INVALID
         | Some prev \<Rightarrow>
             if em_segments prev = [] \<or> em_segments candidate = [] then T_INVALID
             else if purpose = PP_MAINTENANCE then validate_maintenance prev candidate
             else if \<not> same_generation_identity prev candidate then T_INVALID
             else if purpose = PP_BATCH then validate_batch prev candidate
             else if purpose = PP_ROTATION then validate_rotation prev candidate
             else T_INVALID))"

subsection \<open>Authority\<close>

fun allowed_states :: "publication_purpose \<Rightarrow> lease_state list" where
  "allowed_states PP_GENESIS = []"
| "allowed_states PP_BATCH = [OWNED_BY_STORE, OWNED_BY_NEW_STORE]"
| "allowed_states PP_ROTATION = [OWNED_BY_PREPARED]"
| "allowed_states PP_MAINTENANCE = [OWNED_BY_COMPACTION_PREPARED]"

text \<open>\<open>fd_ok\<close>: \<open>os.fstat\<close> of the descriptor of the lease does not raise.\<close>

definition check_authority :: "scope_lease option \<Rightarrow> publication_purpose \<Rightarrow> int option \<Rightarrow> bool \<Rightarrow> bool" where
  "check_authority authority purpose store_scope fd_ok =
     (if purpose = PP_GENESIS then authority = None
      else
        (case authority of
           None \<Rightarrow> False
         | Some l \<Rightarrow>
             if \<not> le_sealed l \<or> \<not> lease_held l then False
             else if \<not> fd_ok then False
             else if store_scope \<noteq> None \<and> le_scope_id l \<noteq> the store_scope then False
             else if le_state l \<notin> set (allowed_states purpose) then False
             else True))"

subsection \<open>The published cursor\<close>

record publication_proof =
  pp_scope_id :: int
  pp_generation_id :: int
  pp_revision :: int
  pp_read_seq :: int
  pp_manifest_sha256 :: bytes
  pp_publication_sha256 :: bytes
  pp_next_active_segment_id :: int
  pp_next_active_first_seq :: int
  pp_next_active_prefix_length :: int
  pp_next_active_prefix_sha256 :: bytes
  pp_seal :: bool

record published_cursor =
  pc_proof :: publication_proof
  pc_manifest_blob :: bytes
  pc_manifest :: epoch_manifest
  pc_active :: wal_segment_descriptor
  pc_revision :: int
  pc_read_seq :: int
  pc_seal :: bool

definition is_sealed_cursor :: "published_cursor \<Rightarrow> bool" where
  "is_sealed_cursor cursor = pc_seal cursor"

definition proof_from :: "publication_record \<Rightarrow> bytes \<Rightarrow> wal_segment_descriptor \<Rightarrow> publication_proof" where
  "proof_from r pub_sha active =
     \<lparr>pp_scope_id = pub_scope_id r, pp_generation_id = pub_generation_id r, pp_revision = pub_revision r,
      pp_read_seq = pub_read_seq r, pp_manifest_sha256 = pub_manifest_sha256 r,
      pp_publication_sha256 = pub_sha, pp_next_active_segment_id = sd_segment_id active,
      pp_next_active_first_seq = sd_first_seq active,
      pp_next_active_prefix_length = wsd_durable_prefix_length active,
      pp_next_active_prefix_sha256 = wsd_durable_prefix_sha256 active, pp_seal = True\<rparr>"

subsection \<open>The manifest of a batch\<close>

datatype advance_state = AV_OK | AV_INVALID | AV_RESOURCE_LIMIT

record advance_result =
  av_state :: advance_state
  av_manifest_blob :: "bytes option"
  av_manifest :: "epoch_manifest option"
  av_candidate_read_seq :: int

abbreviation (input) AdvanceResult ::
  "advance_state \<Rightarrow> bytes option \<Rightarrow> epoch_manifest option \<Rightarrow> int \<Rightarrow> advance_result" where
  "AdvanceResult s b m r \<equiv> \<lparr>av_state = s, av_manifest_blob = b, av_manifest = m, av_candidate_read_seq = r\<rparr>"

definition advanced_manifest :: "epoch_manifest \<Rightarrow> wal_segment_descriptor \<Rightarrow> wal_head \<Rightarrow> nat \<Rightarrow> epoch_manifest" where
  "advanced_manifest man old head applied =
     man\<lparr>em_read_seq := wh_durable_through_seq head,
       em_segments := butlast (em_segments man) @
         [old\<lparr>sd_record_count := sd_record_count old + applied,
            wsd_durable_prefix_length := int (wh_byte_length head),
            wsd_durable_prefix_sha256 := wh_prefix_digest head\<rparr>]\<rparr>"

text \<open>\<open>None\<close> is the \<open>struct.error\<close> of a manifest whose fields do not fit the layout.\<close>

definition advance_batch_manifest ::
  "published_cursor \<Rightarrow> wal_head \<Rightarrow> nat \<Rightarrow> keyring \<Rightarrow> advance_result option" where
  "advance_batch_manifest cursor head applied kr =
     (let man = pc_manifest cursor; old = pc_active cursor; candidate_R = wh_durable_through_seq head;
          invalid = Some (AdvanceResult AV_INVALID None None candidate_R)
      in if applied = 0 then Some (AdvanceResult AV_INVALID None None 0)
         else if candidate_R \<noteq> pc_read_seq cursor + int applied then invalid
         else if wh_scope_id head \<noteq> em_scope_id man then invalid
         else if wh_segment_id head \<noteq> sd_segment_id old \<or> wh_first_seq head \<noteq> sd_first_seq old then invalid
         else if int (wh_byte_length head) < wsd_durable_prefix_length old then invalid
         else if length (wh_prefix_digest head) \<noteq> 32 then invalid
         else if int (sd_record_count old + applied) \<noteq> candidate_R - sd_first_seq old + 1 then invalid
         else if candidate_R \<ge> MAX_SEQ then Some (AdvanceResult AV_RESOURCE_LIMIT None None candidate_R)
         else
           (case dget kr (em_key_id man) of
              None \<Rightarrow> invalid
            | Some key \<Rightarrow>
                (let new_man = advanced_manifest man old head applied
                 in map_option (\<lambda>blob. AdvanceResult AV_OK (Some blob) (Some new_man) candidate_R)
                      (em_serialize new_man key))))"

subsection \<open>Equality of manifests is an equality of maps\<close>

lemma dget_None_keys: "k \<notin> set (dkeys d) \<Longrightarrow> dget d k = None"
  by (simp add: map_of_eq_None_iff)

lemma same_dict_iff: "same_dict d e \<longleftrightarrow> map_of d = map_of e"
proof
  assume s: "same_dict d e"
  show "map_of d = map_of e"
  proof
    fix k
    show "dget d k = dget e k"
      using s dget_None_keys [of k d] dget_None_keys [of k e]
      by (cases "k \<in> set (dkeys d @ dkeys e)") (auto simp: same_dict_def list_all_iff)
  qed
qed (simp add: same_dict_def list_all_iff)

lemma same_dict_refl [simp]: "same_dict d d"
  by (simp add: same_dict_iff)

lemma same_manifest_refl [simp]: "same_manifest m m"
  by (simp add: same_manifest_def)

lemma same_generation_refl: "same_manifest cand (prev\<lparr>em_read_seq := r, em_segments := ss\<rparr>) \<Longrightarrow>
  same_generation_identity prev cand"
  by (auto simp: same_manifest_def same_generation_identity_def same_dict_iff)

lemma with_order_same:
  assumes "\<And>k. dget (em_base_descriptors m) k \<noteq> None"
  shows "same_manifest (with_order BASE_KINDS m) m"
proof -
  have "map_of (map (\<lambda>k. (k, the (dget (em_base_descriptors m) k))) BASE_KINDS) = map_of (em_base_descriptors m)"
  proof
    fix k
    show "dget (map (\<lambda>k. (k, the (dget (em_base_descriptors m) k))) BASE_KINDS) k = dget (em_base_descriptors m) k"
      using assms [of k] by (simp add: map_of_map_restrict)
  qed
  then show ?thesis by (simp add: same_manifest_def with_order_def same_dict_iff)
qed

subsection \<open>A parsed manifest fits the layout\<close>

lemma seg_row_unpacked:
  assumes "MAN_SEG_SIZE \<le> length b"
  shows "seg_row (seg_of_row (struct_unpack MAN_SEG b)) = struct_unpack MAN_SEG b"
  by (simp add: seg_row_def seg_of_row_def)

lemma seg_unpacked_fits: "MAN_SEG_SIZE \<le> length b \<Longrightarrow> seg_fits (seg_of_row (struct_unpack MAN_SEG b))"
  unfolding seg_fits_def by (simp only: seg_row_unpacked) (rule struct_unpack_fits, simp)

definition desc_rows_ok :: "sval list list \<Rightarrow> bool" where
  "desc_rows_ok rows \<longleftrightarrow> (\<forall>x \<in> set rows. list_all2 fits MAN_DESC x)"

lemma desc_of_row_fits:
  assumes "list_all2 fits MAN_DESC x" "code_kind (fi x 0) = Some k"
  shows "desc_fits k \<lparr>ad_kind = k, ad_format_version = fi x 1, ad_required = r,
     ad_byte_length = fi x 3, ad_sha256 = fb x 4, ad_key_id = fi x 5\<rparr>"
proof -
  obtain a b c d e f where x: "x = [a, b, c, d, e, f]"
    using assms(1) by (auto simp: list_all2_Cons1)
  show ?thesis
    using assms(1) unfolding x by (cases b; cases d; cases e; cases f) (auto simp: desc_fits_def u32_def)
qed

lemma read_descs_fits:
  "read_descs rows acc = Some ds \<Longrightarrow> desc_rows_ok rows \<Longrightarrow> \<forall>k d. dget acc k = Some d \<longrightarrow> desc_fits k d \<Longrightarrow>
   \<forall>k d. dget ds k = Some d \<longrightarrow> desc_fits k d"
proof (induction rows arbitrary: acc)
  case (Cons x xs)
  obtain k where k: "code_kind (fi x 0) = Some k" "dget acc k = None"
    and r: "read_descs xs (dput k \<lparr>ad_kind = k, ad_format_version = fi x 1, ad_required = (fi x 2 \<noteq> 0),
                  ad_byte_length = fi x 3, ad_sha256 = fb x 4, ad_key_id = fi x 5\<rparr> acc) = Some ds"
    using Cons.prems(1) by (auto split: option.splits if_splits)
  have f: "list_all2 fits MAN_DESC x" "desc_rows_ok xs" using Cons.prems(2) by (simp_all add: desc_rows_ok_def)
  show ?case
    by (rule Cons.IH [OF r f(2)]) (use Cons.prems(3) desc_of_row_fits [OF f(1) k(1)] in \<open>auto simp: dget_dput\<close>)
qed simp

lemma row_at_fits: "off + (i + 1) * struct_size fs \<le> length blob \<Longrightarrow> list_all2 fits fs (row_at fs blob off i)"
  unfolding row_at_def by (rule struct_unpack_fits) (simp add: algebra_simps)

lemma check_man_headerD:
  assumes "check_man_header blob x kr = G_VALID"
  shows "fi x 9 = 5" "0 \<le> fi x 10" "fi x 10 \<le> 2 ^ 20" "int (length blob) = 336 + fi x 10 * 121"
    "dget kr (fi x 11) \<noteq> None"
  using assms by (auto simp: check_man_header_def Let_def split: if_splits option.splits)

lemma header_unpacked_bounds:
  assumes "48 \<le> length blob" "x = struct_unpack MAN_HEADER blob"
  shows "u32 (fi x 2)" "u32 (fi x 3)" "u32 (fi x 4)" "u32 (fi x 11)" "fi x 7 < 2 ^ 31"
proof -
  have l: "list_all2 fits MAN_HEADER x" unfolding assms(2) by (rule struct_unpack_fits) (use assms(1) in simp)
  then obtain a b c d e f g h i j k m where x: "x = [a, b, c, d, e, f, g, h, i, j, k, m]"
    by (auto simp: list_all2_Cons1)
  show "u32 (fi x 2)" "u32 (fi x 3)" "u32 (fi x 4)" "u32 (fi x 11)" "fi x 7 < 2 ^ 31"
    using l unfolding x by (cases c; cases d; cases e; cases m; cases h; simp add: u32_def)+
qed

lemma parse_manifestE:
  assumes "parse_manifest (Some blob) kr = (G_VALID, Some m)"
  obtains x descs where "x = struct_unpack MAN_HEADER blob" "96 \<le> length blob"
    "check_man_header blob x kr = G_VALID" "check_man_fields blob x"
    "read_descs (map (row_at MAN_DESC blob 80) [0..<5]) [] = Some descs" "set (dkeys descs) = UNIV"
    "m = \<lparr>em_scope_id = fi x 2, em_generation_id = fi x 3, em_fact_count = fi x 4,
           em_base_seq = fi x 5, em_read_seq = fi x 6, em_parent_generation_id = fi x 7,
           em_parent_manifest_digest = slice blob 48 80, em_base_descriptors = descs,
           em_segments = map (\<lambda>i. seg_of_row (row_at MAN_SEG blob 320 i)) [0..<nat (fi x 10)],
           em_key_id = fi x 11\<rparr>"
  using assms unfolding parse_manifest_def option.case Let_def
  by (auto split: if_splits generation_state.splits option.splits)

lemma parse_manifest_fits:
  assumes p: "parse_manifest (Some blob) kr = (G_VALID, Some m)"
  shows "manifest_fits m" "\<exists>key. dget kr (em_key_id m) = Some key"
proof -
  obtain x descs where x: "x = struct_unpack MAN_HEADER blob" "96 \<le> length blob"
    and h: "check_man_header blob x kr = G_VALID" and f: "check_man_fields blob x"
    and ds: "read_descs (map (row_at MAN_DESC blob 80) [0..<5]) [] = Some descs" "set (dkeys descs) = UNIV"
    and m: "m = \<lparr>em_scope_id = fi x 2, em_generation_id = fi x 3, em_fact_count = fi x 4,
           em_base_seq = fi x 5, em_read_seq = fi x 6, em_parent_generation_id = fi x 7,
           em_parent_manifest_digest = slice blob 48 80, em_base_descriptors = descs,
           em_segments = map (\<lambda>i. seg_of_row (row_at MAN_SEG blob 320 i)) [0..<nat (fi x 10)],
           em_key_id = fi x 11\<rparr>"
    by (rule parse_manifestE [OF p]) blast
  note hd = check_man_headerD [OF h]
  have l48: "48 \<le> length blob" using x(2) by simp
  note b = header_unpacked_bounds [OF l48 x(1)]
  have len: "length blob = 336 + nat (fi x 10) * 121" using hd(2,4) by linarith
  have "desc_rows_ok (map (row_at MAN_DESC blob 80) [0..<5])"
    unfolding desc_rows_ok_def using len by (auto intro!: row_at_fits)
  from read_descs_fits [OF ds(1) this] have df: "\<forall>k d. dget descs k = Some d \<longrightarrow> desc_fits k d" by simp
  have dd: "\<exists>d. dget descs k = Some d \<and> desc_fits k d" for k
  proof -
    have "k \<in> set (dkeys descs)" using ds(2) by simp
    then obtain d where "dget descs k = Some d" by (cases "dget descs k") (simp_all add: map_of_eq_None_iff)
    then show ?thesis using df by blast
  qed
  have sf: "seg_fits (seg_of_row (row_at MAN_SEG blob 320 i))" if "i < nat (fi x 10)" for i
    unfolding row_at_def by (rule seg_unpacked_fits) (use that len in simp)
  have pd: "length (slice blob 48 80) = 32" using x(2) by simp
  have fl: "seq_ok (fi x 5)" "seq_ok (fi x 6)" "-1 \<le> fi x 7" "0 \<le> fi x 7 \<Longrightarrow> fi x 7 < fi x 3"
    "fi x 7 < 0 \<Longrightarrow> slice blob 48 80 = ZERO32" "0 \<le> fi x 7 \<Longrightarrow> slice blob 48 80 \<noteq> ZERO32"
    using f by (auto simp: check_man_fields_def Let_def split: if_splits)
  have par: "if fi x 7 = -1 then slice blob 48 80 = ZERO32
      else 0 \<le> fi x 7 \<and> fi x 7 < 2 ^ 31 \<and> fi x 7 < fi x 3 \<and> slice blob 48 80 \<noteq> ZERO32"
    using fl(3-6) b(5) by (cases "fi x 7 = -1") auto
  have ns: "nat (fi x 10) \<le> 2 ^ 20" using hd(3) by (simp add: nat_le_iff)
  show "manifest_fits m"
    unfolding manifest_fits_def m epoch_manifest.simps
    using b(1-4) fl(1,2) pd par dd ns sf by (intro conjI allI ballI) (simp_all only: length_map, auto)
  show "\<exists>key. dget kr (em_key_id m) = Some key" using hd(5) by (auto simp: m)
qed

subsection \<open>The manifest of a batch round trips\<close>

lemma pack_rows_each: "pack_rows fs rs = Some b \<Longrightarrow> r \<in> set rs \<Longrightarrow> \<exists>c. struct_pack fs r = Some c"
  by (induction rs arbitrary: b) (auto split: option.splits)

lemma packed_seg_fits:
  assumes "struct_pack MAN_SEG (seg_row s) = Some b" "length (wsd_durable_prefix_sha256 s) = 32"
    "length (wsd_sealed_object_sha256 s) = 32" "length (wsd_prev_segment_digest s) = 16"
  shows "seg_fits s"
  unfolding seg_fits_def
  by (rule fits_packed [OF assms(1)]) (use assms(2-4) in \<open>auto simp: seg_row_def nth_Cons split: nat.splits\<close>)

lemma seg_fits_lengths:
  "seg_fits s \<Longrightarrow> length (wsd_durable_prefix_sha256 s) = 32 \<and> length (wsd_sealed_object_sha256 s) = 32
    \<and> length (wsd_prev_segment_digest s) = 16"
  by (simp add: seg_fits_def seg_row_def)

lemma em_serialize_parses:
  assumes s: "em_serialize m key = Some blob" and k: "dget kr (em_key_id m) = Some key" and f: "manifest_fits m"
  shows "parse_manifest (Some blob) kr = (G_VALID, Some (with_order BASE_KINDS m))"
proof -
  obtain body where b: "em_body BASE_KINDS m = Some body"
    "parse_manifest (Some (body @ em_mac key body)) kr = (G_VALID, Some (with_order BASE_KINDS m))"
    using parse_any_order [OF f _ _ k, of BASE_KINDS] by auto
  then show ?thesis using s by (simp add: em_serialize_def)
qed

text \<open>Only the read position and the segments change, and the new segments pack.\<close>

lemma em_body_segments: "em_body kinds m = Some b \<Longrightarrow> s \<in> set (em_segments m) \<Longrightarrow>
  \<exists>c. struct_pack MAN_SEG (seg_row s) = Some c"
  using pack_rows_each [of MAN_SEG "map seg_row (em_segments m)" _ "seg_row s"]
  by (auto simp: em_body_def split: if_splits option.splits)

lemma fits_update:
  assumes "manifest_fits m" "seq_ok r" "length ss \<le> 2 ^ 20" "\<forall>s \<in> set ss. seg_fits s"
  shows "manifest_fits (m\<lparr>em_read_seq := r, em_segments := ss\<rparr>)"
  using assms by (simp add: manifest_fits_def cong: if_cong)

subsection \<open>Coverage is kept\<close>

text \<open>The loop over all segments but the last ones; it does not look at the read position.\<close>

fun cover_prefix :: "wal_segment_descriptor list \<Rightarrow> nat \<times> int \<times> bytes \<times> int \<Rightarrow> (nat \<times> int \<times> bytes \<times> int) option" where
  "cover_prefix [] st = Some st"
| "cover_prefix (s # ss) (i, pid, pd, e) =
     (if \<not> segment_covers 0 0 s False i pid pd e then None
      else cover_prefix ss (Suc i, sd_segment_id s, take 16 (wsd_sealed_object_sha256 s), e + int (sd_record_count s)))"

lemma segment_covers_inner: "segment_covers H R s False = segment_covers 0 0 s False"
  by (intro ext) (simp add: segment_covers_def)

lemma coverage_loop_split:
  "ys \<noteq> [] \<Longrightarrow> coverage_loop H R (xs @ ys) i pid pd e =
     (case cover_prefix xs (i, pid, pd, e) of None \<Rightarrow> None
      | Some (i', pid', pd', e') \<Rightarrow> coverage_loop H R ys i' pid' pd' e')"
  by (induction xs arbitrary: i pid pd e) (simp_all add: segment_covers_inner [of H R])

lemma coverage_snoc:
  assumes "em_segments m = xs @ [s]" "em_base_seq m = H" "em_read_seq m = R"
  shows "check_coverage m \<longleftrightarrow> H \<le> R \<and> (\<exists>i pid pd e. cover_prefix xs (0, -1, ZERO16, H + 1) = Some (i, pid, pd, e)
    \<and> segment_covers H R s True i pid pd e \<and> e + int (sd_record_count s) = R + 1)"
  using assms by (auto simp: check_coverage_def Let_def coverage_loop_split split: option.splits)

lemma coverage_snoc2:
  assumes "em_segments m = xs @ [s, t]" "em_base_seq m = H" "em_read_seq m = R"
  shows "check_coverage m \<longleftrightarrow> H \<le> R \<and> (\<exists>i pid pd e. cover_prefix xs (0, -1, ZERO16, H + 1) = Some (i, pid, pd, e)
    \<and> segment_covers 0 0 s False i pid pd e
    \<and> segment_covers H R t True (Suc i) (sd_segment_id s) (take 16 (wsd_sealed_object_sha256 s)) (e + int (sd_record_count s))
    \<and> e + int (sd_record_count s) + int (sd_record_count t) = R + 1)"
  using assms segment_covers_inner [of H R]
  by (auto simp: check_coverage_def Let_def coverage_loop_split split: option.splits)

text \<open>The conditions on the last ACTIVE segment and on a SEALED one.\<close>

definition active_covers :: "wal_segment_descriptor \<Rightarrow> nat \<Rightarrow> int \<Rightarrow> bytes \<Rightarrow> int \<Rightarrow> bool" where
  "active_covers s i pid pd e \<longleftrightarrow> sd_ordinal s = i \<and> u32 (sd_segment_id s) \<and> pid < sd_segment_id s \<and> sd_first_seq s = e
     \<and> 0 < wsd_durable_prefix_length s \<and> wsd_sealed_object_length s = 0 \<and> wsd_sealed_object_sha256 s = ZERO32
     \<and> wsd_prev_segment_digest s = pd \<and> e + int (sd_record_count s) < MAX_SEQ"

definition sealed_covers :: "wal_segment_descriptor \<Rightarrow> nat \<Rightarrow> int \<Rightarrow> bytes \<Rightarrow> int \<Rightarrow> bool" where
  "sealed_covers s i pid pd e \<longleftrightarrow> sd_ordinal s = i \<and> u32 (sd_segment_id s) \<and> pid < sd_segment_id s \<and> sd_first_seq s = e
     \<and> 0 < sd_record_count s \<and> 0 < wsd_durable_prefix_length s
     \<and> wsd_sealed_object_length s = wsd_durable_prefix_length s
     \<and> wsd_sealed_object_sha256 s = wsd_durable_prefix_sha256 s \<and> wsd_sealed_object_sha256 s \<noteq> ZERO32
     \<and> wsd_prev_segment_digest s = pd \<and> e + int (sd_record_count s) < MAX_SEQ"

lemma active_covers_last:
  "wsd_status s = STATE_ACTIVE \<Longrightarrow> segment_covers H R s True i pid pd e \<longleftrightarrow> active_covers s i pid pd e"
  by (auto simp: segment_covers_def active_covers_def Let_def)

lemma sealed_covers_inner:
  "wsd_status s = STATE_SEALED \<Longrightarrow> segment_covers H R s False i pid pd e \<longleftrightarrow> sealed_covers s i pid pd e"
  by (auto simp: segment_covers_def sealed_covers_def Let_def)

lemma batch_coverage:
  assumes v: "validate_batch prev cand = T_OK" and ne: "em_segments prev \<noteq> []" and c: "check_coverage prev"
  shows "check_coverage cand \<longleftrightarrow> em_read_seq cand + 1 < MAX_SEQ"
proof -
  define old where "old = last (em_segments prev)"
  define new where "new = last (em_segments cand)"
  define xs where "xs = butlast (em_segments prev)"
  have sp: "em_segments prev = xs @ [old]" using ne by (simp add: xs_def old_def)
  have a: "wsd_status old = STATE_ACTIVE" "wsd_status new = STATE_ACTIVE" "em_read_seq prev < em_read_seq cand"
    "wsd_durable_prefix_length old \<le> wsd_durable_prefix_length new"
    "int (sd_record_count new) = em_read_seq cand - sd_first_seq new + 1"
    "wsd_sealed_object_length new = 0" "wsd_sealed_object_sha256 new = ZERO32"
    "same_manifest cand (prev\<lparr>em_read_seq := em_read_seq cand,
       em_segments := xs @ [old\<lparr>sd_record_count := sd_record_count new,
            wsd_durable_prefix_length := wsd_durable_prefix_length new,
            wsd_durable_prefix_sha256 := wsd_durable_prefix_sha256 new\<rparr>]\<rparr>)"
    using v by (auto simp: validate_batch_def Let_def old_def new_def xs_def split: if_splits)
  define n where "n = old\<lparr>sd_record_count := sd_record_count new,
            wsd_durable_prefix_length := wsd_durable_prefix_length new,
            wsd_durable_prefix_sha256 := wsd_durable_prefix_sha256 new\<rparr>"
  have sc: "em_segments cand = xs @ [n]" and H: "em_base_seq cand = em_base_seq prev"
    using a(8) by (simp_all add: same_manifest_def n_def)
  have nn: "new = n" using sc by (simp add: new_def)
  have nf: "sd_ordinal n = sd_ordinal old" "sd_segment_id n = sd_segment_id old" "sd_first_seq n = sd_first_seq old"
    "wsd_prev_segment_digest n = wsd_prev_segment_digest old"
    by (simp_all add: n_def)
  obtain i pid pd e where p: "cover_prefix xs (0, -1, ZERO16, em_base_seq prev + 1) = Some (i, pid, pd, e)"
    and o: "active_covers old i pid pd e" and le: "em_base_seq prev \<le> em_read_seq prev"
    using c coverage_snoc [OF sp refl refl] active_covers_last [OF a(1)] by blast
  have "check_coverage cand \<longleftrightarrow> active_covers n i pid pd e \<and> e + int (sd_record_count n) = em_read_seq cand + 1"
    using coverage_snoc [OF sc H refl] p le a(3) active_covers_last [OF a(2) [unfolded nn]] by auto
  also have "\<dots> \<longleftrightarrow> em_read_seq cand + 1 < MAX_SEQ"
    using o a(4-7) nf unfolding nn active_covers_def by auto
  finally show ?thesis .
qed

lemma rotation_coverage:
  assumes v: "validate_rotation prev cand = T_OK" and ne: "em_segments prev \<noteq> []" and c: "check_coverage prev"
    and H: "em_base_seq cand = em_base_seq prev"
  shows "check_coverage cand \<longleftrightarrow> 0 < sd_record_count (last (em_segments prev))
    \<and> sd_segment_id (last (em_segments prev)) < U32_MAX"
proof -
  define old where "old = last (em_segments prev)"
  define xs where "xs = butlast (em_segments prev)"
  define sealed where "sealed = em_segments cand ! length xs"
  define na where "na = last (em_segments cand)"
  have sp: "em_segments prev = xs @ [old]" using ne by (simp add: xs_def old_def)
  have n1: "length (em_segments prev) - 1 = length xs" using sp by simp
  have a: "wsd_status old = STATE_ACTIVE" "em_read_seq cand = em_read_seq prev"
    "length (em_segments cand) = length xs + 2" "take (length xs) (em_segments cand) = xs"
    and s: "wsd_status sealed = STATE_SEALED" "sd_ordinal sealed = sd_ordinal old"
    "sd_segment_id sealed = sd_segment_id old" "sd_first_seq sealed = sd_first_seq old"
    "sd_record_count sealed = sd_record_count old" "wsd_prev_segment_digest sealed = wsd_prev_segment_digest old"
    "wsd_sealed_object_length sealed = wsd_durable_prefix_length sealed"
    "wsd_sealed_object_sha256 sealed = wsd_durable_prefix_sha256 sealed" "wsd_sealed_object_sha256 sealed \<noteq> ZERO32"
    "wsd_durable_prefix_length sealed = wsd_durable_prefix_length old + int SEAL_FOOTER_BYTES"
    and t: "wsd_status na = STATE_ACTIVE" "sd_ordinal na = Suc (sd_ordinal old)" "sd_segment_id na = sd_segment_id old + 1"
    "sd_first_seq na = em_read_seq cand + 1" "sd_record_count na = 0" "wsd_sealed_object_length na = 0"
    "wsd_sealed_object_sha256 na = ZERO32" "0 < wsd_durable_prefix_length na"
    "wsd_prev_segment_digest na = take 16 (wsd_sealed_object_sha256 sealed)"
    using v unfolding validate_rotation_def Let_def n1 old_def [symmetric] na_def [symmetric] sealed_def [symmetric]
    by (auto simp: sp split: if_splits)
  have sc: "em_segments cand = xs @ [sealed, na]"
  proof -
    obtain u w where d: "drop (length xs) (em_segments cand) = [u, w]"
      using a(3) by (cases "drop (length xs) (em_segments cand)" rule: remdups_adj.cases) (auto dest: arg_cong [of _ _ length])
    then have e: "em_segments cand = xs @ [u, w]" using append_take_drop_id [of "length xs" "em_segments cand"] a(4) by simp
    then show ?thesis by (simp add: sealed_def na_def nth_append)
  qed
  obtain i pid pd e where p: "cover_prefix xs (0, -1, ZERO16, em_base_seq prev + 1) = Some (i, pid, pd, e)"
    and o: "active_covers old i pid pd e" "e + int (sd_record_count old) = em_read_seq prev + 1"
    and le: "em_base_seq prev \<le> em_read_seq prev"
    using c coverage_snoc [OF sp refl refl] active_covers_last [OF a(1)] by blast
  have "check_coverage cand \<longleftrightarrow> sealed_covers sealed i pid pd e
      \<and> active_covers na (Suc i) (sd_segment_id sealed) (take 16 (wsd_sealed_object_sha256 sealed)) (e + int (sd_record_count sealed))
      \<and> e + int (sd_record_count sealed) + int (sd_record_count na) = em_read_seq cand + 1"
    using coverage_snoc2 [OF sc H refl] p le a(2) active_covers_last [OF t(1)] sealed_covers_inner [OF s(1)] by auto
  also have "\<dots> \<longleftrightarrow> 0 < sd_record_count old \<and> sd_segment_id old < U32_MAX"
    using o a(2) s t unfolding active_covers_def sealed_covers_def by (auto simp: u32_def)
  finally show ?thesis by (simp add: old_def)
qed

lemma maintenance_coverage:
  assumes v: "validate_maintenance prev cand = T_OK"
  shows "check_coverage cand \<longleftrightarrow> sd_ordinal (hd (em_segments cand)) = 0 \<and> u32 (sd_segment_id (hd (em_segments cand)))
    \<and> wsd_prev_segment_digest (hd (em_segments cand)) = ZERO16 \<and> em_read_seq cand + 1 < MAX_SEQ"
proof -
  define na where "na = hd (em_segments cand)"
  have a: "em_base_seq cand = em_read_seq cand" "length (em_segments cand) = 1" "wsd_status na = STATE_ACTIVE"
    "sd_first_seq na = em_read_seq cand + 1" "sd_record_count na = 0" "wsd_sealed_object_length na = 0"
    "wsd_sealed_object_sha256 na = ZERO32" "0 < wsd_durable_prefix_length na"
    using v by (auto simp: validate_maintenance_def Let_def na_def split: if_splits)
  have s: "em_segments cand = [] @ [na]"
    using a(2) by (cases "em_segments cand") (simp_all add: na_def)
  have "check_coverage cand \<longleftrightarrow> active_covers na 0 (-1) ZERO16 (em_read_seq cand + 1)"
    using coverage_snoc [OF s a(1) refl] active_covers_last [OF a(3)] a(5) by auto
  also have "\<dots> \<longleftrightarrow> sd_ordinal na = 0 \<and> u32 (sd_segment_id na) \<and> wsd_prev_segment_digest na = ZERO16 \<and> em_read_seq cand + 1 < MAX_SEQ"
    using a by (auto simp: active_covers_def u32_def)
  finally show ?thesis by (simp add: na_def)
qed

subsection \<open>The derived manifest of a batch is a legal transition\<close>

text \<open>What \<open>open_published_cursor\<close> checks of the manifest before it seals a cursor.\<close>

definition cursor_ok :: "published_cursor \<Rightarrow> bool" where
  "cursor_ok c \<longleftrightarrow> em_segments (pc_manifest c) \<noteq> [] \<and> pc_active c = last (em_segments (pc_manifest c))
     \<and> wsd_status (pc_active c) = STATE_ACTIVE \<and> pc_read_seq c = em_read_seq (pc_manifest c)
     \<and> manifest_fits (pc_manifest c) \<and> check_coverage (pc_manifest c)"

lemma advanceE:
  assumes "advance_batch_manifest cursor head applied kr = Some res" "av_state res = AV_OK"
  obtains key blob where "0 < applied" "wh_durable_through_seq head = pc_read_seq cursor + int applied"
    "wh_segment_id head = sd_segment_id (pc_active cursor)" "wh_first_seq head = sd_first_seq (pc_active cursor)"
    "wsd_durable_prefix_length (pc_active cursor) \<le> int (wh_byte_length head)" "length (wh_prefix_digest head) = 32"
    "int (sd_record_count (pc_active cursor) + applied) = wh_durable_through_seq head - sd_first_seq (pc_active cursor) + 1"
    "wh_durable_through_seq head < MAX_SEQ" "dget kr (em_key_id (pc_manifest cursor)) = Some key"
    "em_serialize (advanced_manifest (pc_manifest cursor) (pc_active cursor) head applied) key = Some blob"
    "res = AdvanceResult AV_OK (Some blob) (Some (advanced_manifest (pc_manifest cursor) (pc_active cursor) head applied))
       (wh_durable_through_seq head)"
  using assms unfolding advance_batch_manifest_def Let_def by (auto split: if_splits option.splits)

lemma advanced_simps [simp]:
  "em_key_id (advanced_manifest m s h n) = em_key_id m"
  "em_read_seq (advanced_manifest m s h n) = wh_durable_through_seq h"
  "em_base_descriptors (advanced_manifest m s h n) = em_base_descriptors m"
  "em_base_seq (advanced_manifest m s h n) = em_base_seq m"
  by (simp_all add: advanced_manifest_def)

lemma manifest_fits_descs: "manifest_fits m \<Longrightarrow> dget (em_base_descriptors m) k \<noteq> None"
  unfolding manifest_fits_def by (metis option.distinct(1))

lemma advanced_fits:
  assumes c: "cursor_ok c" and s: "em_serialize (advanced_manifest (pc_manifest c) (pc_active c) head applied) key = Some blob"
    and r: "wh_durable_through_seq head = pc_read_seq c + int applied" "wh_durable_through_seq head < MAX_SEQ"
    and d: "length (wh_prefix_digest head) = 32"
  shows "manifest_fits (advanced_manifest (pc_manifest c) (pc_active c) head applied)"
proof -
  let ?m = "pc_manifest c" and ?s = "pc_active c"
  let ?n = "?s\<lparr>sd_record_count := sd_record_count ?s + applied, wsd_durable_prefix_length := int (wh_byte_length head),
            wsd_durable_prefix_sha256 := wh_prefix_digest head\<rparr>"
  have sg: "em_segments (advanced_manifest ?m ?s head applied) = butlast (em_segments ?m) @ [?n]"
    by (simp add: advanced_manifest_def)
  have m: "manifest_fits ?m" and ne: "em_segments ?m \<noteq> []" and l: "?s = last (em_segments ?m)"
    using c by (simp_all add: cursor_ok_def)
  have sf: "\<forall>s \<in> set (em_segments ?m). seg_fits s" and ln: "length (em_segments ?m) \<le> 2 ^ 20"
    and rs: "seq_ok (em_read_seq ?m)"
    using m by (simp_all add: manifest_fits_def)
  have fs: "seg_fits ?s" using sf ne l by simp
  obtain body where "em_body BASE_KINDS (advanced_manifest ?m ?s head applied) = Some body"
    using s by (auto simp: em_serialize_def)
  from em_body_segments [OF this, of ?n] obtain b where b: "struct_pack MAN_SEG (seg_row ?n) = Some b"
    using sg by auto
  have "seg_fits ?n" by (rule packed_seg_fits [OF b]) (use seg_fits_lengths [OF fs] d in simp_all)
  then have "\<forall>s \<in> set (butlast (em_segments ?m) @ [?n]). seg_fits s" using sf in_set_butlastD [of _ "em_segments ?m"] by auto
  moreover have "length (butlast (em_segments ?m) @ [?n]) \<le> 2 ^ 20" using ln ne by (cases "em_segments ?m") simp_all
  moreover have "seq_ok (wh_durable_through_seq head)" using rs r c by (auto simp: seq_ok_def cursor_ok_def)
  ultimately show ?thesis unfolding advanced_manifest_def using fits_update [OF m] by blast
qed

lemma same_manifest_segments: "same_manifest a b \<Longrightarrow> em_segments a = em_segments b \<and> em_read_seq a = em_read_seq b
    \<and> em_base_seq a = em_base_seq b"
  by (simp add: same_manifest_def)

lemma advance_is_batch:
  assumes a: "advance_batch_manifest c head applied kr = Some res" "av_state res = AV_OK" and c: "cursor_ok c"
  obtains blob m where "av_manifest_blob res = Some blob" "av_manifest res = Some m"
    "parse_manifest (Some blob) kr = (G_VALID, Some (with_order BASE_KINDS m))"
    "same_manifest (with_order BASE_KINDS m) m"
    "validate_publication_transition (Some (pc_manifest c)) (with_order BASE_KINDS m) PP_BATCH = T_OK"
    "em_read_seq m = em_read_seq (pc_manifest c) + int applied" "0 < applied"
    "m = advanced_manifest (pc_manifest c) (pc_active c) head applied"
    "av_candidate_read_seq res = em_read_seq m"
proof -
  obtain key blob where h: "0 < applied" "wh_durable_through_seq head = pc_read_seq c + int applied"
    "wsd_durable_prefix_length (pc_active c) \<le> int (wh_byte_length head)" "length (wh_prefix_digest head) = 32"
    "int (sd_record_count (pc_active c) + applied) = wh_durable_through_seq head - sd_first_seq (pc_active c) + 1"
    "wh_durable_through_seq head < MAX_SEQ" "dget kr (em_key_id (pc_manifest c)) = Some key"
    "em_serialize (advanced_manifest (pc_manifest c) (pc_active c) head applied) key = Some blob"
    "res = AdvanceResult AV_OK (Some blob) (Some (advanced_manifest (pc_manifest c) (pc_active c) head applied))
       (wh_durable_through_seq head)"
    by (rule advanceE [OF a]) blast
  define m where "m = advanced_manifest (pc_manifest c) (pc_active c) head applied"
  have f: "manifest_fits m" unfolding m_def by (rule advanced_fits [OF c h(8,2,6,4)])
  have p: "parse_manifest (Some blob) kr = (G_VALID, Some (with_order BASE_KINDS m))"
    by (rule em_serialize_parses [OF h(8) [folded m_def] _ f]) (simp add: m_def h(7))
  have sm: "same_manifest (with_order BASE_KINDS m) m" by (rule with_order_same [OF manifest_fits_descs [OF f]])
  have co: "em_segments (pc_manifest c) \<noteq> []" "pc_active c = last (em_segments (pc_manifest c))"
    "wsd_status (pc_active c) = STATE_ACTIVE" "pc_read_seq c = em_read_seq (pc_manifest c)"
    using c unfolding cursor_ok_def by blast+
  have cv: "wsd_sealed_object_length (pc_active c) = 0" "wsd_sealed_object_sha256 (pc_active c) = ZERO32"
  proof -
    have sp: "em_segments (pc_manifest c) = butlast (em_segments (pc_manifest c)) @ [pc_active c]" using co by simp
    have "check_coverage (pc_manifest c)" using c by (simp add: cursor_ok_def)
    then obtain i pid pd e where "active_covers (pc_active c) i pid pd e"
      using coverage_snoc [OF sp refl refl] active_covers_last [OF co(3)] by blast
    then show "wsd_sealed_object_length (pc_active c) = 0" "wsd_sealed_object_sha256 (pc_active c) = ZERO32"
      by (simp_all add: active_covers_def)
  qed
  let ?n = "(pc_active c)\<lparr>sd_record_count := sd_record_count (pc_active c) + applied,
     wsd_durable_prefix_length := int (wh_byte_length head), wsd_durable_prefix_sha256 := wh_prefix_digest head\<rparr>"
  have sg: "em_segments (with_order BASE_KINDS m) = butlast (em_segments (pc_manifest c)) @ [?n]"
    by (simp add: m_def advanced_manifest_def with_order_def)
  have rd: "em_read_seq (with_order BASE_KINDS m) = pc_read_seq c + int applied"
    using h(2) by (simp add: m_def with_order_def)
  have eq: "same_manifest (with_order BASE_KINDS m)
     ((pc_manifest c)\<lparr>em_read_seq := em_read_seq (with_order BASE_KINDS m),
       em_segments := butlast (em_segments (pc_manifest c)) @ [?n]\<rparr>)"
    using sm rd h(2) by (simp add: m_def advanced_manifest_def with_order_def)
  have "validate_batch (pc_manifest c) (with_order BASE_KINDS m) = T_OK"
    unfolding validate_batch_def Let_def sg last_snoc co(2) [symmetric]
    using eq co cv h rd by simp
  moreover have "same_generation_identity (pc_manifest c) (with_order BASE_KINDS m)"
    using eq by (rule same_generation_refl)
  ultimately have "validate_publication_transition (Some (pc_manifest c)) (with_order BASE_KINDS m) PP_BATCH = T_OK"
    using co(1) by (simp add: validate_publication_transition_def sg)
  then show ?thesis using that [of blob m] p sm h(1,2,9) co(4) by (simp add: m_def)
qed
end
