(* ===== verification/Prepared.thy ===== *)
theory Prepared
  imports Transition
begin

section \<open>Sealed packages (\<open>RotationPrepared\<close>, \<open>CompactionPrepared\<close>, \<open>BatchPublicationIntent\<close>)\<close>

text \<open>
  A rotation, a compaction and a batch are published from a package that only the preparing
  function can build: it carries a private seal and, for the first two, a digest of its own
  fields that is recomputed whenever the package is used. The seals are boolean fields. The
  lemmas show that two packages with the same digest input have the same descriptors, so a
  package whose fields were exchanged keeps its digest only by a collision of SHA-256.
\<close>

definition ascii :: "string \<Rightarrow> bytes" where
  "ascii s = map of_char s"

subsection \<open>The package of a rotation\<close>

record ('w, 't) rotation_prepared =
  rot_old_sealed :: wal_segment_descriptor
  rot_next_active :: wal_segment_descriptor
  rot_index :: 'w
  rot_txindex :: 't
  rot_read_seq :: int
  rot_digest :: bytes
  rot_seal :: bool
  rot_lease :: "scope_lease option"

definition ROTATION_DOMAIN :: bytes where
  "ROTATION_DOMAIN = ascii ''HORIZON-ROTATION-PREPARED-v1''"

definition descriptor_bytes :: "wal_segment_descriptor \<Rightarrow> bytes option" where
  "descriptor_bytes d = struct_pack MAN_SEG (seg_row d)"

definition rotation_digest_input :: "int \<Rightarrow> wal_segment_descriptor \<Rightarrow> wal_segment_descriptor \<Rightarrow> bytes option" where
  "rotation_digest_input read_seq old next_active =
     (case (struct_pack [FU 8] [VI read_seq], descriptor_bytes old, descriptor_bytes next_active) of
        (Some r, Some o1, Some n1) \<Rightarrow> Some (ROTATION_DOMAIN @ r @ o1 @ n1)
      | _ \<Rightarrow> None)"

definition rotation_prepared_digest :: "('w, 't) rotation_prepared \<Rightarrow> bytes option" where
  "rotation_prepared_digest p =
     map_option sha256 (rotation_digest_input (rot_read_seq p) (rot_old_sealed p) (rot_next_active p))"

text \<open>\<open>struct.error\<close> is caught and answered with \<open>False\<close>.\<close>

definition is_sealed_prepared :: "('w, 't) rotation_prepared \<Rightarrow> bool" where
  "is_sealed_prepared p \<longleftrightarrow> rot_seal p \<and> rotation_prepared_digest p = Some (rot_digest p)"

subsection \<open>The package of a compaction\<close>

record compaction_prepared =
  cm_source_publication_sha256 :: bytes
  cm_read_seq :: int
  cm_generation_id :: int
  cm_base_descriptors :: "(artifact_kind \<times> artifact_descriptor) list"
  cm_next_active :: wal_segment_descriptor
  cm_candidate_sha256 :: bytes
  cm_candidate_blob :: bytes
  cm_lease :: "scope_lease option"
  cm_digest :: bytes
  cm_seal :: bool

definition COMPACTION_DOMAIN :: bytes where
  "COMPACTION_DOMAIN = ascii ''HORIZON-COMPACTION-PREPARED-v1''"

definition cm_head_row :: "compaction_prepared \<Rightarrow> sval list" where
  "cm_head_row p = [VB (cm_source_publication_sha256 p), VI (cm_read_seq p), VI (cm_generation_id p)]"

definition cm_desc_row :: "artifact_kind \<times> artifact_descriptor \<Rightarrow> sval list" where
  "cm_desc_row kd = (case kd of (k, d) \<Rightarrow> [VI (kind_code k), VI (ad_format_version d),
     VI (if ad_required d then 1 else 0), VI (ad_byte_length d), VB (ad_sha256 d), VI (ad_key_id d)])"

definition cm_active_row :: "wal_segment_descriptor \<Rightarrow> sval list" where
  "cm_active_row s = [VI (int (sd_ordinal s)), VI (sd_segment_id s), VI (sd_first_seq s), VI (int (sd_record_count s)),
     VI (wsd_status s), VI (wsd_durable_prefix_length s), VB (wsd_durable_prefix_sha256 s),
     VB (wsd_prev_segment_digest s), VI (wsd_key_id s)]"

text \<open>\<open>None\<close> is \<open>struct.error\<close>, which is not caught.\<close>

definition compaction_prepared_digest :: "compaction_prepared \<Rightarrow> bytes option" where
  "compaction_prepared_digest p =
     (case (struct_pack [FS 32, FU 8, FU 4] (cm_head_row p),
            pack_rows [FU 4, FU 2, FU 1, FU 8, FS 32, FU 4] (map cm_desc_row (cm_base_descriptors p)),
            struct_pack [FU 4, FU 4, FU 8, FU 4, FU 1, FU 8, FS 32, FS 16, FU 4] (cm_active_row (cm_next_active p))) of
        (Some h, Some ds, Some a) \<Rightarrow> Some (sha256 (COMPACTION_DOMAIN @ h @ ds @ a @ cm_candidate_sha256 p))
      | _ \<Rightarrow> None)"

definition is_sealed_compaction :: "compaction_prepared \<Rightarrow> bool option" where
  "is_sealed_compaction p =
     (if \<not> cm_seal p then Some False
      else map_option (\<lambda>d. d = cm_digest p) (compaction_prepared_digest p))"

subsection \<open>The intent of a batch and the proof that its bytes are durable\<close>

record batch_intent =
  bi_source_publication_sha256 :: bytes
  bi_source_revision :: int
  bi_source_read_seq :: int
  bi_scope_id :: int
  bi_segment_id :: int
  bi_first_seq :: int
  bi_source_byte_length :: int
  bi_source_prefix_sha256 :: bytes
  bi_applied_count :: nat
  bi_frame_count :: nat
  bi_candidate_read_seq :: int
  bi_candidate_byte_length :: int
  bi_candidate_prefix_sha256 :: bytes
  bi_candidate_manifest_blob :: bytes
  bi_candidate_manifest_sha256 :: bytes
  bi_key_id :: int
  bi_seal :: bool

definition BATCH_INTENT_DOMAIN :: bytes where
  "BATCH_INTENT_DOMAIN = ascii ''HORIZON-BATCH-INTENT-v1''"

definition intent_canonical_digest :: "batch_intent \<Rightarrow> bytes option" where
  "intent_canonical_digest i =
     (case (struct_pack [FU 8, FU 4, FU 4, FU 4, FU 8, FS 32, FU 8, FS 32, FU 8, FU 8, FS 32]
              [VI (bi_source_revision i), VI (bi_scope_id i), VI (bi_segment_id i), VI (bi_key_id i),
               VI (bi_source_read_seq i), VB (bi_source_publication_sha256 i), VI (bi_first_seq i),
               VB (bi_source_prefix_sha256 i), VI (bi_source_byte_length i), VI (int (bi_applied_count i)),
               VB (bi_candidate_prefix_sha256 i)],
            struct_pack [FU 8, FU 8, FU 8, FS 32]
              [VI (int (bi_frame_count i)), VI (bi_candidate_read_seq i), VI (bi_candidate_byte_length i),
               VB (bi_candidate_manifest_sha256 i)]) of
        (Some a, Some b) \<Rightarrow> Some (sha256 (BATCH_INTENT_DOMAIN @ a @ b))
      | _ \<Rightarrow> None)"

record durable_batch_proof =
  dp_st_dev :: int
  dp_st_ino :: int
  dp_scope_id :: int
  dp_segment_id :: int
  dp_interval_lo :: int
  dp_candidate_read_seq :: int
  dp_byte_length :: int
  dp_prefix_sha256 :: bytes
  dp_intent_digest :: bytes
  dp_seal :: bool

subsection \<open>The digest input determines the descriptors\<close>

lemma struct_pack_inj:
  assumes "struct_pack fs vs = Some b" "struct_pack fs ws = Some b" "list_all2 fits fs vs" "list_all2 fits fs ws"
  shows "vs = ws"
  using struct_unpack_pack [OF assms(1,3), of "[]"] struct_unpack_pack [OF assms(2,4), of "[]"] by simp

lemma descriptor_bytes_inj:
  assumes "descriptor_bytes s = Some b" "descriptor_bytes t = Some b" "seg_fits s" "seg_fits t"
  shows "s = t"
  using struct_pack_inj [of MAN_SEG "seg_row s" b "seg_row t"] assms seg_of_seg_row
  unfolding descriptor_bytes_def seg_fits_def by metis

lemma rotation_digest_input_inj:
  assumes "rotation_digest_input r o1 n1 = Some b" "rotation_digest_input r' o2 n2 = Some b"
    "seg_fits o1" "seg_fits o2" "seg_fits n1" "seg_fits n2"
  shows "r = r' \<and> o1 = o2 \<and> n1 = n2"
proof -
  obtain a1 a2 b1 b2 c1 c2 where p: "struct_pack [FU 8] [VI r] = Some a1" "struct_pack [FU 8] [VI r'] = Some a2"
    "descriptor_bytes o1 = Some b1" "descriptor_bytes o2 = Some b2"
    "descriptor_bytes n1 = Some c1" "descriptor_bytes n2 = Some c2"
    and b: "b = ROTATION_DOMAIN @ a1 @ b1 @ c1" "b = ROTATION_DOMAIN @ a2 @ b2 @ c2"
    using assms(1,2) unfolding rotation_digest_input_def by (auto split: option.splits)
  have l: "length a1 = length a2" "length b1 = length b2"
    using struct_pack_length [OF p(1)] struct_pack_length [OF p(2)]
      struct_pack_length [of MAN_SEG] p(3,4) unfolding descriptor_bytes_def by simp_all
  then have e: "a1 = a2" "b1 = b2" "c1 = c2" using b by auto
  have "[VI r] = [VI r']"
    by (rule struct_pack_inj [OF p(1)]) (use p(1,2) e(1) in \<open>auto split: if_splits option.splits\<close>)
  then show ?thesis using descriptor_bytes_inj p(3-6) e assms(3-6) by blast
qed

end
