(* ===== verification/Publication.thy ===== *)
theory Publication
  imports Prepared
begin

section \<open>Publishing a generation (\<open>PublicationStore\<close> and its operations in \<open>horizon_publication.py\<close>)\<close>

text \<open>
  A publication is a compare and swap on \<open>CURRENT\<close>, under the lock of the directory: the
  candidate is checked, the pointer is read and compared with the expected one, the transition
  and its authority are checked, the manifest and the record are written as objects, and the
  pointer is replaced by a rename. The state is the directory of one scope and the object store;
  a fault names the one call of a publication that fails or in which the process dies. The lemmas
  show what a publication does to the pointer for every fault, and that a pointer which was
  published opens.
\<close>

datatype publish_state = PB_PUBLISHED | PB_ALREADY_PUBLISHED | PB_STALE_CURRENT | PB_INVALID_CANDIDATE
  | PB_INVALID_SEMANTICS | PB_ABSTAIN | PB_IO_ERROR | PB_INVALID_AUTHORITY | PB_INVALID_TRANSITION
  | PB_PURPOSE_NOT_ENABLED | PB_INVALID_PURPOSE | PB_NO_PUBLICATION_REQUIRED | PB_INVALID_INTENT
  | PB_INVALID_DURABILITY | PB_RESOURCE_LIMIT

datatype cursor_state = CS_VALID | CS_NO_CURRENT | CS_CORRUPT | CS_INCOMPATIBLE | CS_RESOURCE_LIMIT

text \<open>
  The directory: the node under the name \<open>CURRENT\<close>, the node a power loss would leave there
  (the last one synced with the directory), the temporary files left behind, and the objects.
  \<open>pd_scope\<close> is the scope of a \<open>PublicationStore\<close>, \<open>None\<close> for a bare directory.
\<close>

record pub_store =
  pd_scope :: "int option"
  pd_current :: "file_node option"
  pd_synced :: "file_node option"
  pd_temps :: nat
  pd_objects :: object_store

record pub_env =
  pe_gen :: gen_env
  pe_max_current_bytes :: int
  pe_max_record_bytes :: int
  pe_fd_ok :: bool

abbreviation pe_keyring :: "pub_env \<Rightarrow> keyring" where "pe_keyring env \<equiv> ge_keyring (pe_gen env)"

text \<open>The environment of the \<open>open_generation\<close> call: no parent, limits derived from the budget.\<close>

definition pub_gen_env :: "pub_env \<Rightarrow> object_store \<Rightarrow> gen_env" where
  "pub_gen_env env objs = (pe_gen env)\<lparr>ge_objects := objs, ge_parent := None,
     ge_reducer_limits := derived_reducer_limits (ge_gen_limits (pe_gen env))\<rparr>"

subsection \<open>Reading the published generation\<close>

definition open_publication_record ::
  "pub_env \<Rightarrow> object_store \<Rightarrow> bytes \<Rightarrow> publication_state \<times> publication_record option" where
  "open_publication_record env objs digest =
     (let rr = get_limited objs digest (pe_max_record_bytes env) (ge_changed (pe_gen env) digest)
      in if \<not> or_ok rr then (if or_reason rr = MISSING then PS_MISSING else PS_CORRUPT, None)
         else parse_publication_record (or_blob rr) (pe_keyring env))"

definition open_manifest_object :: "pub_env \<Rightarrow> object_store \<Rightarrow> bytes \<Rightarrow> (bytes \<times> epoch_manifest) option" where
  "open_manifest_object env objs digest =
     (let rr = get_limited objs digest (max_blob_bytes (ge_limits (pe_gen env))) (ge_changed (pe_gen env) digest)
      in if \<not> or_ok rr then None
         else
           (case parse_manifest (or_blob rr) (pe_keyring env) of
              (G_VALID, Some man) \<Rightarrow> Some (the (or_blob rr), man)
            | _ \<Rightarrow> None))"

text \<open>The checks of \<open>open_published_cursor\<close> behind a readable pointer.\<close>

definition cursor_of_pointer ::
  "pub_env \<Rightarrow> pub_store \<Rightarrow> current_pointer \<Rightarrow> cursor_state \<times> published_cursor option" where
  "cursor_of_pointer env st cp =
     (case open_publication_record env (pd_objects st) (cp_publication_sha256 cp) of
        (PS_VALID, Some r) \<Rightarrow>
          if cp_key_id cp \<noteq> pub_key_id r then (CS_CORRUPT, None)
          else
            (case open_manifest_object env (pd_objects st) (pub_manifest_sha256 r) of
               None \<Rightarrow> (CS_CORRUPT, None)
             | Some (blob, man) \<Rightarrow>
                 if sha256 blob \<noteq> pub_manifest_sha256 r then (CS_CORRUPT, None)
                 else if pub_scope_id r \<noteq> em_scope_id man \<or> pub_generation_id r \<noteq> em_generation_id man
                     \<or> pub_read_seq r \<noteq> em_read_seq man then (CS_CORRUPT, None)
                 else if pd_scope st \<noteq> None \<and> pd_scope st \<noteq> Some (em_scope_id man) then (CS_INCOMPATIBLE, None)
                 else if \<not> check_coverage man then (CS_CORRUPT, None)
                 else if \<not> generation_preflight man (length blob) (ge_gen_limits (pe_gen env))
                   then (CS_RESOURCE_LIMIT, None)
                 else if em_segments man = [] \<or> wsd_status (last (em_segments man)) \<noteq> STATE_ACTIVE
                   then (CS_CORRUPT, None)
                 else
                   (let active = last (em_segments man)
                    in (CS_VALID, Some \<lparr>pc_proof = proof_from r (cp_publication_sha256 cp) active,
                          pc_manifest_blob = blob, pc_manifest = man, pc_active = active,
                          pc_revision = pub_revision r, pc_read_seq = em_read_seq man, pc_seal = True\<rparr>)))
      | _ \<Rightarrow> (CS_CORRUPT, None))"

definition open_published_cursor ::
  "pub_env \<Rightarrow> pub_store \<Rightarrow> read_fault option \<Rightarrow> (cursor_state \<times> published_cursor option) pub_out" where
  "open_published_cursor env st fault =
     (case read_current (pd_current st) (pe_keyring env) (pe_max_current_bytes env) fault of
        PRet (PS_MISSING, _) \<Rightarrow> PRet (CS_NO_CURRENT, None)
      | PRet (PS_RESOURCE_LIMIT, _) \<Rightarrow> PRet (CS_RESOURCE_LIMIT, None)
      | PRet (PS_VALID, Some cp) \<Rightarrow> PRet (cursor_of_pointer env st cp)
      | PRet _ \<Rightarrow> PRet (CS_CORRUPT, None)
      | PRaise e \<Rightarrow> PRaise e
      | PKilled \<Rightarrow> PKilled)"

subsection \<open>The compare and swap\<close>

record publish_result =
  pres_state :: publish_state
  pres_proof :: "publication_proof option"

abbreviation (input) PublishResult :: "publish_state \<Rightarrow> publication_proof option \<Rightarrow> publish_result" where
  "PublishResult s p \<equiv> \<lparr>pres_state = s, pres_proof = p\<rparr>"

text \<open>The calls of a publication that can fail, and the points where the process can die.\<close>

datatype pub_fault = PF_Mkdir | PF_Lock | PF_Current read_fault
  | PF_Manifest put_fault | PF_KillManifest | PF_Record put_fault | PF_KillRecord
  | PF_TmpOpen | PF_TmpWrite | PF_KillBeforeReplace | PF_Replace | PF_KillAfterReplace | PF_DirSync | PF_KillBeforeProof

definition pub_check_candidate ::
  "pub_env \<Rightarrow> pub_store \<Rightarrow> bytes \<Rightarrow> bool \<Rightarrow> gen_exn + (publish_state + epoch_manifest)" where
  "pub_check_candidate env st blob physical =
     (case (if physical then open_generation (pub_gen_env env (pd_objects st)) (Some blob) else Inr (G_VALID, None)) of
        Inl e \<Rightarrow> Inl e
      | Inr (gs, _) \<Rightarrow>
          Inr (if gs \<noteq> G_VALID then Inl PB_INVALID_CANDIDATE
               else
                 (case parse_manifest (Some blob) (pe_keyring env) of
                    (G_VALID, Some man) \<Rightarrow>
                      if em_segments man = [] \<or> wsd_status (last (em_segments man)) \<noteq> STATE_ACTIVE
                      then Inl PB_INVALID_SEMANTICS
                      else if sha256 blob = ZERO32 then Inl PB_INVALID_SEMANTICS
                      else Inr man
                  | _ \<Rightarrow> Inl PB_INVALID_CANDIDATE)))"

text \<open>Under the lock: the observed pointer, as a finished answer or as the revision and the
  previous publication of the new record.\<close>

definition pub_observe ::
  "pub_env \<Rightarrow> pub_store \<Rightarrow> bytes \<Rightarrow> bytes \<Rightarrow> epoch_manifest \<Rightarrow> read_fault option
     \<Rightarrow> (publish_result + int \<times> bytes \<times> publication_record option) pub_out" where
  "pub_observe env st expected manifest_sha256 man fault =
     (case read_current (pd_current st) (pe_keyring env) (pe_max_current_bytes env) fault of
        PRaise e \<Rightarrow> PRaise e
      | PKilled \<Rightarrow> PKilled
      | PRet (PS_MISSING, _) \<Rightarrow>
          PRet (if expected \<noteq> ZERO32 then Inl (PublishResult PB_STALE_CURRENT None) else Inr (0, ZERO32, None))
      | PRet (PS_VALID, Some cp) \<Rightarrow>
          PRet (case open_publication_record env (pd_objects st) (cp_publication_sha256 cp) of
                  (PS_VALID, Some r) \<Rightarrow>
                    if cp_key_id cp \<noteq> pub_key_id r then Inl (PublishResult PB_ABSTAIN None)
                    else if pub_previous_sha256 r = expected \<and> pub_manifest_sha256 r = manifest_sha256
                        \<and> pub_read_seq r = em_read_seq man \<and> pub_scope_id r = em_scope_id man
                        \<and> pub_generation_id r = em_generation_id man
                      then Inl (PublishResult PB_ALREADY_PUBLISHED
                             (Some (proof_from r (cp_publication_sha256 cp) (last (em_segments man)))))
                    else if cp_publication_sha256 cp \<noteq> expected then Inl (PublishResult PB_STALE_CURRENT None)
                    else Inr (pub_revision r + 1, cp_publication_sha256 cp, Some r)
                | _ \<Rightarrow> Inl (PublishResult PB_ABSTAIN None))
      | PRet _ \<Rightarrow> PRet (Inl (PublishResult PB_ABSTAIN None)))"

text \<open>Authority and transition; \<open>None\<close> when both are fine.\<close>

definition pub_authorize ::
  "pub_env \<Rightarrow> pub_store \<Rightarrow> scope_lease option \<Rightarrow> publication_purpose \<Rightarrow> publication_record option
     \<Rightarrow> epoch_manifest \<Rightarrow> publish_state option" where
  "pub_authorize env st authority purpose prev_record man =
     (if \<not> check_authority authority purpose (pd_scope st) (pe_fd_ok env) then Some PB_INVALID_AUTHORITY
      else
        (case (case prev_record of None \<Rightarrow> Some None
                 | Some r \<Rightarrow> map_option (\<lambda>x. Some (snd x)) (open_manifest_object env (pd_objects st) (pub_manifest_sha256 r))) of
           None \<Rightarrow> Some PB_ABSTAIN
         | Some prev_man \<Rightarrow>
             (case validate_publication_transition prev_man man purpose of
                T_NOT_ENABLED \<Rightarrow> Some PB_PURPOSE_NOT_ENABLED
              | T_INVALID \<Rightarrow> Some PB_INVALID_TRANSITION
              | T_OK \<Rightarrow> None)))"

definition put_step ::
  "pub_store \<Rightarrow> bytes \<Rightarrow> put_fault option \<Rightarrow> unit pub_out \<times> pub_store" where
  "put_step st blob fault =
     (case put_object (pd_objects st) blob fault of
        (PutOk _, objs) \<Rightarrow> (PRet (), st\<lparr>pd_objects := objs\<rparr>)
      | (PutOSError, objs) \<Rightarrow> (PRaise PubOSError, st\<lparr>pd_objects := objs\<rparr>)
      | (PutIntegrityError, objs) \<Rightarrow> (PRaise PubIntegrityError, st\<lparr>pd_objects := objs\<rparr>))"

text \<open>\<open>_write_current_pointer\<close>: a failing write leaves its temporary file behind, a failing
  rename removes it.\<close>

definition write_current_pointer :: "pub_store \<Rightarrow> bytes \<Rightarrow> pub_fault option \<Rightarrow> unit pub_out \<times> pub_store" where
  "write_current_pointer st blob fault =
     (let tmp = st\<lparr>pd_temps := pd_temps st + 1\<rparr>; shown = st\<lparr>pd_current := Some (RegularFile blob)\<rparr>
      in case fault of
           Some PF_TmpOpen \<Rightarrow> (PRaise PubOSError, st)
         | Some PF_TmpWrite \<Rightarrow> (PRaise PubOSError, tmp)
         | Some PF_KillBeforeReplace \<Rightarrow> (PKilled, tmp)
         | Some PF_Replace \<Rightarrow> (PRaise PubOSError, st)
         | Some PF_KillAfterReplace \<Rightarrow> (PKilled, shown)
         | Some PF_DirSync \<Rightarrow> (PRaise PubOSError, shown)
         | _ \<Rightarrow> (PRet (), shown\<lparr>pd_synced := Some (RegularFile blob)\<rparr>))"

text \<open>The writes of a publication: the manifest, the record, the pointer.\<close>

definition pub_commit ::
  "pub_store \<Rightarrow> bytes \<Rightarrow> bytes \<Rightarrow> publication_record \<Rightarrow> wal_segment_descriptor \<Rightarrow> pub_fault option
     \<Rightarrow> publish_result pub_out \<times> pub_store" where
  "pub_commit st key blob r active fault =
     (case pub_serialize r key of
        None \<Rightarrow> (PRaise PubStructError, st)
      | Some record_blob \<Rightarrow>
          (case put_step st blob (case fault of Some (PF_Manifest f) \<Rightarrow> Some f | _ \<Rightarrow> None) of
             (PRet _, st) \<Rightarrow>
               if fault = Some PF_KillManifest then (PKilled, st)
               else
                 (case put_step st record_blob (case fault of Some (PF_Record f) \<Rightarrow> Some f | _ \<Rightarrow> None) of
                    (PRet _, st) \<Rightarrow>
                      if fault = Some PF_KillRecord then (PKilled, st)
                      else
                        (case serialize_current (sha256 record_blob) (pub_key_id r) key of
                           None \<Rightarrow> (PRaise PubStructError, st)
                         | Some cur \<Rightarrow>
                             (case write_current_pointer st cur fault of
                                (PRet _, st) \<Rightarrow>
                                  if fault = Some PF_KillBeforeProof then (PKilled, st)
                                  else (PRet (PublishResult PB_PUBLISHED (Some (proof_from r (sha256 record_blob) active))), st)
                              | (PRaise e, st) \<Rightarrow> (PRaise e, st)
                              | (PKilled, st) \<Rightarrow> (PKilled, st)))
                  | (PRaise e, st) \<Rightarrow> (PRaise e, st)
                  | (PKilled, st) \<Rightarrow> (PKilled, st))
           | (PRaise e, st) \<Rightarrow> (PRaise e, st)
           | (PKilled, st) \<Rightarrow> (PKilled, st)))"

definition publish_impl ::
  "pub_env \<Rightarrow> pub_store \<Rightarrow> bytes \<Rightarrow> bytes \<Rightarrow> int \<Rightarrow> scope_lease option \<Rightarrow> publication_purpose option \<Rightarrow> bool
     \<Rightarrow> pub_fault option \<Rightarrow> publish_result pub_out \<times> pub_store" where
  "publish_impl env st blob expected key_id authority purpose physical fault =
     (case dget (pe_keyring env) key_id of
        None \<Rightarrow> (PRet (PublishResult PB_INVALID_SEMANTICS None), st)
      | Some key \<Rightarrow>
          (case pub_check_candidate env st blob physical of
             Inl e \<Rightarrow> (PRaise (PubGenExn e), st)
           | Inr (Inl ps) \<Rightarrow> (PRet (PublishResult ps None), st)
           | Inr (Inr man) \<Rightarrow>
               if fault = Some PF_Mkdir \<or> fault = Some PF_Lock then (PRaise PubOSError, st)
               else
                 (case pub_observe env st expected (sha256 blob) man
                         (case fault of Some (PF_Current f) \<Rightarrow> Some f | _ \<Rightarrow> None) of
                    PRaise e \<Rightarrow> (PRaise e, st)
                  | PKilled \<Rightarrow> (PKilled, st)
                  | PRet (Inl res) \<Rightarrow> (PRet res, st)
                  | PRet (Inr (revision, previous, prev_record)) \<Rightarrow>
                      (case (case purpose of None \<Rightarrow> None | Some pp \<Rightarrow> pub_authorize env st authority pp prev_record man) of
                         Some ps \<Rightarrow> (PRet (PublishResult ps None), st)
                       | None \<Rightarrow>
                           pub_commit st key blob
                             \<lparr>pub_scope_id = em_scope_id man, pub_generation_id = em_generation_id man,
                              pub_revision = revision, pub_read_seq = em_read_seq man,
                              pub_manifest_sha256 = sha256 blob, pub_previous_sha256 = previous, pub_key_id = key_id\<rparr>
                             (last (em_segments man)) fault))))"
subsection \<open>The two ways a publication ends\<close>

text \<open>The objects of a store are never lost, and its scope does not change.\<close>

definition grows :: "pub_store \<Rightarrow> pub_store \<Rightarrow> bool" where
  "grows st st' \<longleftrightarrow> pd_scope st' = pd_scope st
     \<and> (\<forall>d b. dget (pd_objects st) d = Some b \<longrightarrow> dget (pd_objects st') d = Some b)"

lemma grows_refl [simp]: "grows st st"
  by (simp add: grows_def)

lemma grows_trans: "grows a b \<Longrightarrow> grows b c \<Longrightarrow> grows a c"
  by (simp add: grows_def)

lemma put_step_cases:
  assumes "put_step st blob f = (out, st')"
  shows "grows st st'" "pd_current st' = pd_current st" "pd_synced st' = pd_synced st" "pd_temps st' = pd_temps st"
    "out = PRet u \<Longrightarrow> dget (pd_objects st') (sha256 blob) = Some blob" "out \<noteq> PKilled"
proof -
  obtain r objs where p: "put_object (pd_objects st) blob f = (r, objs)" by (cases "put_object (pd_objects st) blob f")
  have k: "dget (pd_objects st) d = Some b \<Longrightarrow> dget objs d = Some b" for d b
    using put_object_keeps [of "pd_objects st" d b blob f] by (simp add: p)
  have s: "st' = st\<lparr>pd_objects := objs\<rparr>" using assms by (auto simp: put_step_def p split: put_result.splits)
  show "grows st st'" "pd_current st' = pd_current st" "pd_synced st' = pd_synced st" "pd_temps st' = pd_temps st"
    using k by (simp_all add: s grows_def)
  show "out \<noteq> PKilled" using assms by (auto simp: put_step_def p split: put_result.splits)
  show "dget (pd_objects st') (sha256 blob) = Some blob" if o: "out = PRet u"
  proof -
    obtain d where "r = PutOk d" using assms o by (cases r) (auto simp: put_step_def p)
    then show ?thesis using put_object_get [of "pd_objects st" blob f d objs] p by (auto simp: s)
  qed
qed

text \<open>Before the rename nothing but objects and temporary files changed; behind it the new
  pointer is shown and its two objects are there.\<close>

definition unpublished_end :: "pub_store \<Rightarrow> 'a pub_out \<Rightarrow> pub_store \<Rightarrow> bool" where
  "unpublished_end st out st' \<longleftrightarrow> grows st st' \<and> pd_current st' = pd_current st \<and> pd_synced st' = pd_synced st"

definition shows_record :: "bytes \<Rightarrow> publication_record \<Rightarrow> bytes \<Rightarrow> pub_store \<Rightarrow> bytes \<Rightarrow> bytes \<Rightarrow> bool" where
  "shows_record key r blob st rb cur \<longleftrightarrow> pub_serialize r key = Some rb
     \<and> serialize_current (sha256 rb) (pub_key_id r) key = Some cur
     \<and> pd_current st = Some (RegularFile cur)
     \<and> dget (pd_objects st) (sha256 blob) = Some blob \<and> dget (pd_objects st) (sha256 rb) = Some rb"

lemma write_current_pointer_cases:
  assumes "write_current_pointer st cur f = (out, st')"
  shows "grows st st'" "pd_objects st' = pd_objects st"
    "(pd_current st' = pd_current st \<and> pd_synced st' = pd_synced st \<and> (\<forall>u. out \<noteq> PRet u))
     \<or> (pd_current st' = Some (RegularFile cur) \<and>
        (if out = PRet () then pd_synced st' = Some (RegularFile cur) else pd_synced st' = pd_synced st))"
    "out = PRet () \<longleftrightarrow> f \<notin> Some ` {PF_TmpOpen, PF_TmpWrite, PF_KillBeforeReplace, PF_Replace, PF_KillAfterReplace, PF_DirSync}"
  using assms by (auto simp: write_current_pointer_def Let_def grows_def split: option.splits pub_fault.splits)

lemma pub_commit_cases:
  assumes c: "pub_commit st key blob r active fault = (out, st')"
  shows "grows st st' \<and>
    ((pd_current st' = pd_current st \<and> pd_synced st' = pd_synced st \<and> (\<forall>x. out \<noteq> PRet x))
     \<or> (\<exists>rb cur. shows_record key r blob st' rb cur \<and> pd_synced st' \<in> {pd_synced st, Some (RegularFile cur)}
          \<and> (\<forall>x. out = PRet x \<longrightarrow> x = PublishResult PB_PUBLISHED (Some (proof_from r (sha256 rb) active))
                 \<and> pd_synced st' = Some (RegularFile cur))))"
proof (cases "pub_serialize r key")
  case None
  then show ?thesis using c by (auto simp: pub_commit_def)
next
  case (Some rb)
  obtain o1 s1 where p1: "put_step st blob (case fault of Some (PF_Manifest f) \<Rightarrow> Some f | _ \<Rightarrow> None) = (o1, s1)"
    by (cases "put_step st blob (case fault of Some (PF_Manifest f) \<Rightarrow> Some f | _ \<Rightarrow> None)")
  note e1 = put_step_cases [OF p1]
  show ?thesis
  proof (cases "o1 = PRet () \<and> fault \<noteq> Some PF_KillManifest")
    case False
    then show ?thesis using c e1 by (auto simp: pub_commit_def Some p1 split: pub_out.splits if_splits)
  next
    case True
    obtain o2 s2 where p2: "put_step s1 rb (case fault of Some (PF_Record f) \<Rightarrow> Some f | _ \<Rightarrow> None) = (o2, s2)"
      by (cases "put_step s1 rb (case fault of Some (PF_Record f) \<Rightarrow> Some f | _ \<Rightarrow> None)")
    note e2 = put_step_cases [OF p2]
    have g2: "grows st s2" using grows_trans [OF e1(1) e2(1)] .
    show ?thesis
    proof (cases "o2 = PRet () \<and> fault \<noteq> Some PF_KillRecord \<and> serialize_current (sha256 rb) (pub_key_id r) key \<noteq> None")
      case False
      then show ?thesis using c True e1 e2 g2
        by (auto simp: pub_commit_def Some p1 p2 split: pub_out.splits if_splits option.splits)
    next
      case True2: True
      then obtain cur where cur: "serialize_current (sha256 rb) (pub_key_id r) key = Some cur" by blast
      obtain o3 s3 where p3: "write_current_pointer s2 cur fault = (o3, s3)" by (cases "write_current_pointer s2 cur fault")
      note e3 = write_current_pointer_cases [OF p3]
      have g3: "grows st s3" using grows_trans [OF g2 e3(1)] .
      have ob: "dget (pd_objects s3) (sha256 blob) = Some blob" "dget (pd_objects s3) (sha256 rb) = Some rb"
        using e1(5) True e2(1,5) True2 e3(2) by (auto simp: grows_def)
      have out: "st' = s3 \<and> (case o3 of PRet _ \<Rightarrow> out = (if fault = Some PF_KillBeforeProof then PKilled
              else PRet (PublishResult PB_PUBLISHED (Some (proof_from r (sha256 rb) active))))
            | PRaise e \<Rightarrow> out = PRaise e | PKilled \<Rightarrow> out = PKilled)"
        using c True True2 by (auto simp: pub_commit_def Some p1 p2 p3 cur split: pub_out.splits if_splits)
      show ?thesis
      proof (cases "pd_current s3 = pd_current s2 \<and> pd_synced s3 = pd_synced s2 \<and> (\<forall>u. o3 \<noteq> PRet u)")
        case True
        then show ?thesis using out g3 e1 e2 by (auto split: pub_out.splits)
      next
        case False
        then have sh: "pd_current s3 = Some (RegularFile cur)"
          "if o3 = PRet () then pd_synced s3 = Some (RegularFile cur) else pd_synced s3 = pd_synced s2"
          using e3(3) by blast+
        have "shows_record key r blob st' rb cur"
          using Some cur sh(1) ob out by (simp add: shows_record_def)
        moreover have "pd_synced st' \<in> {pd_synced st, Some (RegularFile cur)}" using sh(2) out e1(3) e2(3) by (auto split: if_splits)
        moreover have "x = PublishResult PB_PUBLISHED (Some (proof_from r (sha256 rb) active)) \<and> pd_synced st' = Some (RegularFile cur)"
          if "out = PRet x" for x
        proof -
          have "o3 = PRet ()" using out that by (cases o3) auto
          then show ?thesis using out that sh(2) by (auto split: if_splits)
        qed
        ultimately show ?thesis using out g3 by blast
      qed
    qed
  qed
qed

subsection \<open>A published pointer opens\<close>

text \<open>The limits leave room for the pointer, the record and a manifest, and no object changes
  while it is read.\<close>

definition env_ok :: "pub_env \<Rightarrow> bool" where
  "env_ok env \<longleftrightarrow> int CURRENT_LEN \<le> pe_max_current_bytes env \<and> int (PR_SIZE + TAG_BYTES) \<le> pe_max_record_bytes env
     \<and> gl_max_manifest_bytes (ge_gen_limits (pe_gen env)) \<le> max_blob_bytes (ge_limits (pe_gen env))
     \<and> (\<forall>d. \<not> ge_changed (pe_gen env) d)"

text \<open>What the cursor needs of the manifest; \<open>open_generation\<close> checks it.\<close>

definition publishable :: "pub_env \<Rightarrow> pub_store \<Rightarrow> bytes \<Rightarrow> epoch_manifest \<Rightarrow> bool" where
  "publishable env st blob man \<longleftrightarrow> parse_manifest (Some blob) (pe_keyring env) = (G_VALID, Some man)
     \<and> check_coverage man \<and> generation_preflight man (length blob) (ge_gen_limits (pe_gen env))
     \<and> em_segments man \<noteq> [] \<and> wsd_status (last (em_segments man)) = STATE_ACTIVE
     \<and> sha256 blob \<noteq> ZERO32 \<and> (pd_scope st = None \<or> pd_scope st = Some (em_scope_id man))"

lemma candidate_parsed:
  assumes "pub_check_candidate env st blob physical = Inr (Inr man)"
  shows "parse_manifest (Some blob) (pe_keyring env) = (G_VALID, Some man)" "em_segments man \<noteq> []"
    "wsd_status (last (em_segments man)) = STATE_ACTIVE" "sha256 blob \<noteq> ZERO32"
  using assms unfolding pub_check_candidate_def
  by (auto split: sum.splits prod.splits generation_state.splits option.splits if_splits)

lemma candidate_opened:
  assumes "pub_check_candidate env st blob True = Inr (Inr man)" "pd_scope st = None \<or> pd_scope st = Some (em_scope_id man)"
  shows "publishable env st blob man"
proof -
  have "fst (parse_manifest (Some blob) (pe_keyring env)) = G_VALID" and "\<exists>h. open_generation (pub_gen_env env (pd_objects st)) (Some blob) = Inr (G_VALID, h)"
    using assms(1) candidate_parsed(1) [OF assms(1)] unfolding pub_check_candidate_def
    by (auto split: sum.splits prod.splits generation_state.splits option.splits if_splits)
  then have "check_coverage man" "generation_preflight man (length blob) (ge_gen_limits (pe_gen env))"
    using candidate_parsed(1) [OF assms(1)] unfolding open_generation_def by (auto simp: pub_gen_env_def split: if_splits)
  then show ?thesis using candidate_parsed [OF assms(1)] assms(2) by (simp add: publishable_def)
qed

definition cursor_of :: "publication_record \<Rightarrow> bytes \<Rightarrow> bytes \<Rightarrow> epoch_manifest \<Rightarrow> published_cursor" where
  "cursor_of r rb blob man = \<lparr>pc_proof = proof_from r (sha256 rb) (last (em_segments man)), pc_manifest_blob = blob,
     pc_manifest = man, pc_active = last (em_segments man), pc_revision = pub_revision r,
     pc_read_seq = em_read_seq man, pc_seal = True\<rparr>"

lemma get_limited_some: "dget store d = Some b \<Longrightarrow> int (length b) \<le> m \<Longrightarrow>
    get_limited store d m False = \<lparr>or_ok = True, or_blob = Some b, or_reason = OK\<rparr>"
  by (simp add: get_limited_def)

lemma preflight_length: "generation_preflight m n gl \<Longrightarrow> int n \<le> gl_max_manifest_bytes gl"
  by (simp add: generation_preflight_def split: if_splits)

lemma shown_record_opens:
  assumes e: "env_ok env" and k: "dget (pe_keyring env) (pub_key_id r) = Some key"
    and sh: "shows_record key r blob st rb cur" and c: "pub_canonical r" and p: "publishable env st blob man"
    and m: "pub_manifest_sha256 r = sha256 blob" "pub_scope_id r = em_scope_id man"
      "pub_generation_id r = em_generation_id man" "pub_read_seq r = em_read_seq man"
  shows "open_published_cursor env st None = PRet (CS_VALID, Some (cursor_of r rb blob man))"
proof -
  have ch: "ge_changed (pe_gen env) d = False" for d using e by (simp add: env_ok_def)
  have s: "pub_serialize r key = Some rb" "serialize_current (sha256 rb) (pub_key_id r) key = Some cur"
    "pd_current st = Some (RegularFile cur)" "dget (pd_objects st) (sha256 blob) = Some blob"
    "dget (pd_objects st) (sha256 rb) = Some rb"
    using sh by (simp_all add: shows_record_def)
  have "parse_current (Some cur) (pe_keyring env) = (PS_VALID, Some \<lparr>cp_publication_sha256 = sha256 rb, cp_key_id = pub_key_id r\<rparr>)"
    by (rule cur_parse_serialized [OF s(2) k])
  then have rc: "read_current (pd_current st) (pe_keyring env) (pe_max_current_bytes env) None
      = PRet (PS_VALID, Some \<lparr>cp_publication_sha256 = sha256 rb, cp_key_id = pub_key_id r\<rparr>)"
    using e serialize_current_length [OF s(2)] by (simp add: read_current_def s(3) env_ok_def)
  have "length rb = PR_SIZE + TAG_BYTES"
    using s(1) by (auto simp: pub_serialize_def dest: struct_pack_length)
  then have or: "open_publication_record env (pd_objects st) (sha256 rb) = (PS_VALID, Some r)"
    using e get_limited_some [OF s(5)] pub_parse_serialized [OF s(1) k c]
    by (simp add: open_publication_record_def ch env_ok_def)
  have "int (length blob) \<le> max_blob_bytes (ge_limits (pe_gen env))"
    using e p preflight_length [of man "length blob"] by (force simp: env_ok_def publishable_def)
  then have om: "open_manifest_object env (pd_objects st) (pub_manifest_sha256 r) = Some (blob, man)"
    using get_limited_some [OF s(4)] p by (simp add: open_manifest_object_def ch m publishable_def)
  show ?thesis
    unfolding open_published_cursor_def rc pub_out.case prod.case publication_state.case option.case cursor_of_pointer_def
      current_pointer.simps or om
    using p m by (auto simp: publishable_def cursor_of_def Let_def)
qed

subsection \<open>What a publication does to the pointer\<close>

text \<open>The pointer the publication expects: none at the genesis, otherwise the one that names the
  expected record.\<close>

definition expects :: "pub_env \<Rightarrow> pub_store \<Rightarrow> bytes \<Rightarrow> int \<Rightarrow> bool" where
  "expects env st expected revision \<longleftrightarrow>
     (pd_current st = None \<and> expected = ZERO32 \<and> revision = 0)
     \<or> (\<exists>b cp r. pd_current st = Some (RegularFile b) \<and> parse_current (Some b) (pe_keyring env) = (PS_VALID, Some cp)
          \<and> cp_publication_sha256 cp = expected
          \<and> open_publication_record env (pd_objects st) expected = (PS_VALID, Some r) \<and> revision = pub_revision r + 1)"

lemma read_current_missing: "read_current node kr m f = PRet (PS_MISSING, x) \<Longrightarrow> node = None"
  by (auto simp: read_current_def parse_current_def Let_def split: option.splits file_node.splits if_splits)

lemma read_current_valid:
  "read_current node kr m f = PRet (PS_VALID, x) \<Longrightarrow> \<exists>b. node = Some (RegularFile b) \<and> parse_current (Some b) kr = (PS_VALID, x)"
  by (auto simp: read_current_def split: option.splits file_node.splits if_splits)

lemma read_current_no_kill: "read_current node kr m f \<noteq> PKilled"
  by (auto simp: read_current_def split: option.splits file_node.splits)

lemma observe_cases:
  assumes "pub_observe env st expected msha man f = PRet (Inr (revision, previous, prev))"
  shows "expects env st expected revision" "previous = expected" "prev = None \<longleftrightarrow> pd_current st = None"
    "\<And>r. prev = Some r \<Longrightarrow> open_publication_record env (pd_objects st) expected = (PS_VALID, Some r) \<and> revision = pub_revision r + 1"
proof -
  obtain x where x: "read_current (pd_current st) (pe_keyring env) (pe_max_current_bytes env) f = PRet x"
    using assms by (cases "read_current (pd_current st) (pe_keyring env) (pe_max_current_bytes env) f") (auto simp: pub_observe_def)
  obtain s cp where sx: "x = (s, cp)" by (cases x)
  have "expects env st expected revision \<and> previous = expected \<and> (prev = None \<longleftrightarrow> pd_current st = None) \<and>
    (\<forall>r. prev = Some r \<longrightarrow> open_publication_record env (pd_objects st) expected = (PS_VALID, Some r) \<and> revision = pub_revision r + 1)"
  proof (cases "s = PS_MISSING")
    case True
    then show ?thesis
      using assms x sx read_current_missing [of "pd_current st" "pe_keyring env" "pe_max_current_bytes env" f cp]
      by (auto simp: pub_observe_def expects_def split: if_splits)
  next
    case False
    then obtain c where v: "s = PS_VALID" "cp = Some c"
      using assms x sx by (cases s; cases cp) (auto simp: pub_observe_def)
    obtain b where b: "pd_current st = Some (RegularFile b)" "parse_current (Some b) (pe_keyring env) = (PS_VALID, Some c)"
      using read_current_valid x sx v by blast
    show ?thesis
      using assms x sx v b unfolding pub_observe_def expects_def
      by (auto split: prod.splits publication_state.splits option.splits if_splits)
  qed
  then show "expects env st expected revision" "previous = expected" "prev = None \<longleftrightarrow> pd_current st = None"
    "\<And>r. prev = Some r \<Longrightarrow> open_publication_record env (pd_objects st) expected = (PS_VALID, Some r) \<and> revision = pub_revision r + 1"
    by blast+
qed

lemma open_publication_record_canonical:
  assumes "open_publication_record env objs d = (PS_VALID, Some r)"
  shows "0 \<le> pub_revision r" "dget objs d \<noteq> None"
proof -
  obtain b where b: "parse_publication_record (Some b) (pe_keyring env) = (PS_VALID, Some r)" and d: "dget objs d = Some b"
    using assms unfolding open_publication_record_def
    by (auto simp: Let_def get_limited_def parse_publication_record_def split: if_splits option.splits)
  show "dget objs d \<noteq> None" using d by simp
  obtain key where "pub_serialize r key = Some b" using pub_parse_inv [OF b] by blast
  then show "0 \<le> pub_revision r" by (auto simp: pub_serialize_def pub_row_def split: option.splits if_splits)
qed

text \<open>The one theorem behind the rest: a publication either stops before the rename, or it had
  observed the expected pointer and shows a canonical record of its candidate.\<close>

definition new_record :: "epoch_manifest \<Rightarrow> bytes \<Rightarrow> int \<Rightarrow> bytes \<Rightarrow> int \<Rightarrow> publication_record" where
  "new_record man blob revision expected key_id =
     \<lparr>pub_scope_id = em_scope_id man, pub_generation_id = em_generation_id man, pub_revision = revision,
      pub_read_seq = em_read_seq man, pub_manifest_sha256 = sha256 blob, pub_previous_sha256 = expected, pub_key_id = key_id\<rparr>"

definition published_end ::
  "pub_env \<Rightarrow> pub_store \<Rightarrow> bytes \<Rightarrow> bytes \<Rightarrow> int \<Rightarrow> publish_result pub_out \<Rightarrow> pub_store \<Rightarrow> bool" where
  "published_end env st blob expected key_id out st' \<longleftrightarrow>
     (\<exists>man key revision rb cur. parse_manifest (Some blob) (pe_keyring env) = (G_VALID, Some man)
        \<and> dget (pe_keyring env) key_id = Some key \<and> expects env st expected revision
        \<and> shows_record key (new_record man blob revision expected key_id) blob st' rb cur
        \<and> pd_synced st' \<in> {pd_synced st, Some (RegularFile cur)}
        \<and> (\<forall>x. out = PRet x \<longrightarrow>
             x = PublishResult PB_PUBLISHED (Some (proof_from (new_record man blob revision expected key_id) (sha256 rb)
                   (last (em_segments man)))) \<and> pd_synced st' = Some (RegularFile cur)))"

lemma candidate_answer: "pub_check_candidate env st blob physical \<noteq> Inr (Inl PB_PUBLISHED)"
  unfolding pub_check_candidate_def
  by (auto split: sum.splits prod.splits generation_state.splits option.splits if_splits)

lemma authorize_answer: "pub_authorize env st authority pp prev man \<noteq> Some PB_PUBLISHED"
  unfolding pub_authorize_def by (auto split: option.splits transition_state.splits if_splits)

lemma observe_answer:
  "pub_observe env st expected d man f \<noteq> PKilled"
  "pub_observe env st expected d man f \<noteq> PRet (Inl (PublishResult PB_PUBLISHED q))"
  using read_current_no_kill [of "pd_current st" "pe_keyring env" "pe_max_current_bytes env" f]
  unfolding pub_observe_def
  by (auto split: pub_out.splits prod.splits publication_state.splits option.splits if_splits)

lemma publish_impl_cases:
  assumes p: "publish_impl env st blob expected key_id authority purpose physical fault = (out, st')"
  obtains "st' = st" "\<And>q. out \<noteq> PRet (PublishResult PB_PUBLISHED q)"
  | key man revision prev where "dget (pe_keyring env) key_id = Some key"
    "pub_check_candidate env st blob physical = Inr (Inr man)"
    "pub_observe env st expected (sha256 blob) man (case fault of Some (PF_Current f) \<Rightarrow> Some f | _ \<Rightarrow> None)
       = PRet (Inr (revision, expected, prev))"
    "(case purpose of None \<Rightarrow> None | Some pp \<Rightarrow> pub_authorize env st authority pp prev man) = None"
    "pub_commit st key blob (new_record man blob revision expected key_id) (last (em_segments man)) fault = (out, st')"
proof (cases "\<exists>key man revision prev. dget (pe_keyring env) key_id = Some key
    \<and> pub_check_candidate env st blob physical = Inr (Inr man) \<and> fault \<noteq> Some PF_Mkdir \<and> fault \<noteq> Some PF_Lock
    \<and> pub_observe env st expected (sha256 blob) man (case fault of Some (PF_Current f) \<Rightarrow> Some f | _ \<Rightarrow> None)
        = PRet (Inr (revision, expected, prev))
    \<and> (case purpose of None \<Rightarrow> None | Some pp \<Rightarrow> pub_authorize env st authority pp prev man) = None")
  case True
  then obtain key man revision prev where k: "dget (pe_keyring env) key_id = Some key"
    and c: "pub_check_candidate env st blob physical = Inr (Inr man)" and f: "fault \<noteq> Some PF_Mkdir" "fault \<noteq> Some PF_Lock"
    and o: "pub_observe env st expected (sha256 blob) man (case fault of Some (PF_Current f) \<Rightarrow> Some f | _ \<Rightarrow> None)
        = PRet (Inr (revision, expected, prev))"
    and a: "(case purpose of None \<Rightarrow> None | Some pp \<Rightarrow> pub_authorize env st authority pp prev man) = None"
    by blast
  have "pub_commit st key blob (new_record man blob revision expected key_id) (last (em_segments man)) fault = (out, st')"
    using p f unfolding publish_impl_def new_record_def by (simp only: k c o a option.case sum.case pub_out.case prod.case) simp
  then show ?thesis using that(2) k c o a by blast
next
  case False
  have "st' = st \<and> (\<forall>q. out \<noteq> PRet (PublishResult PB_PUBLISHED q))"
  proof (cases "dget (pe_keyring env) key_id")
    case None
    then show ?thesis using p by (auto simp: publish_impl_def)
  next
    case (Some key)
    note k = Some
    show ?thesis
    proof (cases "\<exists>man. pub_check_candidate env st blob physical = Inr (Inr man) \<and> fault \<noteq> Some PF_Mkdir \<and> fault \<noteq> Some PF_Lock")
      case False
      then show ?thesis
        using p k candidate_answer [of env st blob physical] unfolding publish_impl_def
        by (auto split: sum.splits if_splits)
    next
      case True
      then obtain man where c: "pub_check_candidate env st blob physical = Inr (Inr man)"
        and f: "fault \<noteq> Some PF_Mkdir" "fault \<noteq> Some PF_Lock" by blast
      let ?o = "pub_observe env st expected (sha256 blob) man (case fault of Some (PF_Current f) \<Rightarrow> Some f | _ \<Rightarrow> None)"
      let ?a = "\<lambda>prev. case purpose of None \<Rightarrow> None | Some pp \<Rightarrow> pub_authorize env st authority pp prev man"
      show ?thesis
      proof (cases "\<exists>rev prv prev. ?o = PRet (Inr (rev, prv, prev))")
        case True
        then obtain rev prv prev where o: "?o = PRet (Inr (rev, prv, prev))" by blast
        have prv: "prv = expected" by (rule observe_cases(2) [OF o])
        have "?a prev \<noteq> None"
        proof
          assume a: "?a prev = None"
          show False
            by (rule notE [OF False])
               (intro exI conjI, rule k, rule c, rule f(1), rule f(2), rule o [unfolded prv], rule a)
        qed
        then obtain ps where a: "?a prev = Some ps" by blast
        have "(out, st') = (PRet (PublishResult ps None), st)"
          using p f unfolding publish_impl_def
          by (simp only: k c o a option.case sum.case pub_out.case prod.case) simp
        then show ?thesis using authorize_answer [of env st authority _ prev man] a by (cases purpose) auto
      next
        case False
        then show ?thesis
          using p f observe_answer [of env st expected "sha256 blob" man] unfolding publish_impl_def
          by (simp only: k c option.case sum.case) (cases ?o; auto split: sum.splits)
      qed
    qed
  qed
  then show ?thesis using that(1) by blast
qed

lemma publish_impl_ends:
  assumes p: "publish_impl env st blob expected key_id authority purpose physical fault = (out, st')"
  shows "grows st st' \<and>
    ((pd_current st' = pd_current st \<and> pd_synced st' = pd_synced st \<and> (\<forall>q. out \<noteq> PRet (PublishResult PB_PUBLISHED q)))
     \<or> ((\<exists>man. pub_check_candidate env st blob physical = Inr (Inr man)) \<and> published_end env st blob expected key_id out st'))"
  using p
proof (cases rule: publish_impl_cases)
  case 1
  then show ?thesis by auto
next
  case (2 key man revision prev)
  from pub_commit_cases [OF 2(5)] show ?thesis
    using 2(1,2) candidate_parsed(1) [OF 2(2)] observe_cases(1) [OF 2(3)]
    unfolding published_end_def new_record_def by auto
qed

subsection \<open>The pointer always opens\<close>

text \<open>What a node under the name \<open>CURRENT\<close> opens to.\<close>

definition reopen :: "pub_env \<Rightarrow> pub_store \<Rightarrow> file_node option \<Rightarrow> (cursor_state \<times> published_cursor option) pub_out" where
  "reopen env st n = open_published_cursor env (st\<lparr>pd_current := n\<rparr>) None"

lemma reopen_current: "reopen env st (pd_current st) = open_published_cursor env st None"
  by (simp add: reopen_def)

lemma get_limited_grows:
  "\<forall>d b. dget s d = Some b \<longrightarrow> dget s' d = Some b \<Longrightarrow> or_ok (get_limited s d m f) \<Longrightarrow> get_limited s' d m f = get_limited s d m f"
  by (auto simp: get_limited_def split: option.splits if_splits)

lemma open_record_grows:
  assumes g: "grows st st'" and o: "open_publication_record env (pd_objects st) d = (PS_VALID, Some r)"
  shows "open_publication_record env (pd_objects st') d = (PS_VALID, Some r)"
proof -
  let ?g = "\<lambda>s. get_limited (pd_objects s) d (pe_max_record_bytes env) (ge_changed (pe_gen env) d)"
  have "or_ok (?g st)" using o by (auto simp: open_publication_record_def Let_def split: if_splits)
  then have "?g st' = ?g st" using g by (intro get_limited_grows) (simp_all add: grows_def)
  then show ?thesis using o by (simp add: open_publication_record_def)
qed

lemma open_manifest_grows:
  assumes g: "grows st st'" and o: "open_manifest_object env (pd_objects st) d = Some x"
  shows "open_manifest_object env (pd_objects st') d = Some x"
proof -
  let ?g = "\<lambda>s. get_limited (pd_objects s) d (max_blob_bytes (ge_limits (pe_gen env))) (ge_changed (pe_gen env) d)"
  have "or_ok (?g st)" using o by (auto simp: open_manifest_object_def Let_def split: if_splits)
  then have "?g st' = ?g st" using g by (intro get_limited_grows) (simp_all add: grows_def)
  then show ?thesis using o by (simp add: open_manifest_object_def)
qed

lemma cursor_of_pointer_grows:
  assumes g: "grows st st'" and o: "cursor_of_pointer env st cp = (CS_VALID, Some c)"
  shows "cursor_of_pointer env st' cp = (CS_VALID, Some c)"
proof -
  obtain r where r: "open_publication_record env (pd_objects st) (cp_publication_sha256 cp) = (PS_VALID, Some r)"
    using o unfolding cursor_of_pointer_def by (auto split: prod.splits publication_state.splits option.splits)
  have k: "cp_key_id cp = pub_key_id r"
    using o unfolding cursor_of_pointer_def by (auto simp: r split: if_splits)
  obtain x where x: "open_manifest_object env (pd_objects st) (pub_manifest_sha256 r) = Some x"
    using o unfolding cursor_of_pointer_def by (auto simp: r k split: option.splits)
  have s: "pd_scope st' = pd_scope st" using g by (simp add: grows_def)
  show ?thesis
    using o unfolding cursor_of_pointer_def
    by (simp only: r open_record_grows [OF g r] x open_manifest_grows [OF g x] s prod.case publication_state.case option.case)
qed

lemma open_cursor_valid:
  "open_published_cursor env st f = PRet (CS_VALID, Some c) \<Longrightarrow>
   \<exists>b cp. pd_current st = Some (RegularFile b) \<and> parse_current (Some b) (pe_keyring env) = (PS_VALID, Some cp)
     \<and> cursor_of_pointer env st cp = (CS_VALID, Some c)"
  unfolding open_published_cursor_def
  by (auto split: pub_out.splits prod.splits publication_state.splits option.splits dest!: read_current_valid)

lemma reopen_grows:
  assumes g: "grows st st'" and o: "reopen env st n = PRet (CS_VALID, Some c)"
  shows "reopen env st' n = PRet (CS_VALID, Some c)"
proof -
  have g': "grows (st\<lparr>pd_current := n\<rparr>) (st'\<lparr>pd_current := n\<rparr>)" using g by (simp add: grows_def)
  obtain cp where rc: "read_current n (pe_keyring env) (pe_max_current_bytes env) None = PRet (PS_VALID, Some cp)"
    and cp: "cursor_of_pointer env (st\<lparr>pd_current := n\<rparr>) cp = (CS_VALID, Some c)"
    using o unfolding reopen_def open_published_cursor_def
    by (auto split: pub_out.splits prod.splits publication_state.splits option.splits)
  show ?thesis
    unfolding reopen_def open_published_cursor_def using rc cursor_of_pointer_grows [OF g' cp] by simp
qed

lemma new_record_canonical:
  assumes e: "expects env st expected revision" and z: "dget (pd_objects st) ZERO32 = None"
    and p: "parse_manifest (Some blob) kr = (G_VALID, Some man)" and s: "sha256 blob \<noteq> ZERO32"
  shows "pub_canonical (new_record man blob revision expected key_id)"
proof -
  have r: "em_read_seq man < MAX_SEQ" using parse_manifest_fits(1) [OF p] by (simp add: manifest_fits_def seq_ok_def)
  have "length expected = 32 \<and> ((revision = 0) = (expected = ZERO32))"
  proof (cases "pd_current st = None")
    case True
    then show ?thesis using e by (auto simp: expects_def)
  next
    case False
    then obtain b cp r where c: "parse_current (Some b) (pe_keyring env) = (PS_VALID, Some cp)"
      and x: "cp_publication_sha256 cp = expected" "open_publication_record env (pd_objects st) expected = (PS_VALID, Some r)"
        "revision = pub_revision r + 1"
      using e by (auto simp: expects_def)
    have "length (cp_publication_sha256 cp) = 32"
      using cur_parse_inv [OF c] by (auto simp: serialize_current_def split: if_splits)
    moreover have "expected \<noteq> ZERO32" using open_publication_record_canonical(2) [OF x(2)] z by auto
    moreover have "revision \<noteq> 0" using open_publication_record_canonical(1) [OF x(2)] x(3) by simp
    ultimately show ?thesis using x(1) by simp
  qed
  then show ?thesis using r s by (auto simp: pub_canonical_def new_record_def)
qed

lemma publishable_grows: "publishable env st blob man \<Longrightarrow> grows st st' \<Longrightarrow> publishable env st' blob man"
  by (simp add: publishable_def grows_def)

text \<open>A publication that reached the rename shows a pointer that opens to its candidate.\<close>

lemma published_opens:
  assumes e: "env_ok env" and z: "dget (pd_objects st) ZERO32 = None" and g: "grows st st'"
    and p: "\<And>man. parse_manifest (Some blob) (pe_keyring env) = (G_VALID, Some man) \<Longrightarrow> publishable env st blob man"
    and d: "published_end env st blob expected key_id out st'"
  shows "\<exists>c cur revision. expects env st expected revision \<and> pd_current st' = Some (RegularFile cur)
    \<and> pd_synced st' \<in> {pd_synced st, Some (RegularFile cur)}
    \<and> open_published_cursor env st' None = PRet (CS_VALID, Some c)
    \<and> pc_manifest_blob c = blob \<and> pc_revision c = revision
    \<and> (\<forall>x. out = PRet x \<longrightarrow> x = PublishResult PB_PUBLISHED (Some (pc_proof c)) \<and> pd_synced st' = pd_current st')"
proof -
  obtain man key revision rb cur where m: "parse_manifest (Some blob) (pe_keyring env) = (G_VALID, Some man)"
    and k: "dget (pe_keyring env) key_id = Some key" and x: "expects env st expected revision"
    and sh: "shows_record key (new_record man blob revision expected key_id) blob st' rb cur"
    and sy: "pd_synced st' \<in> {pd_synced st, Some (RegularFile cur)}"
    and o: "\<forall>x. out = PRet x \<longrightarrow>
             x = PublishResult PB_PUBLISHED (Some (proof_from (new_record man blob revision expected key_id) (sha256 rb)
                   (last (em_segments man)))) \<and> pd_synced st' = Some (RegularFile cur)"
    using d unfolding published_end_def by blast
  let ?r = "new_record man blob revision expected key_id"
  have pb: "publishable env st' blob man" by (rule publishable_grows [OF p [OF m] g])
  have s: "sha256 blob \<noteq> ZERO32" using pb by (simp add: publishable_def)
  have "open_published_cursor env st' None = PRet (CS_VALID, Some (cursor_of ?r rb blob man))"
    by (rule shown_record_opens [OF e _ sh new_record_canonical [OF x z m s] pb]) (simp_all add: k new_record_def)
  moreover have "pd_current st' = Some (RegularFile cur)" using sh by (simp add: shows_record_def)
  ultimately show ?thesis using x sy o
    by (intro exI [of _ "cursor_of ?r rb blob man"] exI [of _ cur] exI [of _ revision])
       (auto simp: cursor_of_def new_record_def)
qed

text \<open>The steps of the scope: publications of candidates that open (or, on the fast path of a
  batch, that pass the checks of the cursor), and a power loss, which shows the synced pointer.\<close>

inductive pub_step :: "pub_env \<Rightarrow> pub_store \<Rightarrow> pub_store \<Rightarrow> bool" where
  pub_publish: "publish_impl env' st blob expected key_id authority purpose physical fault = (out, st') \<Longrightarrow>
    pe_keyring env' = pe_keyring env \<Longrightarrow> dget (pd_objects st) ZERO32 = None \<Longrightarrow>
    ge_gen_limits (pe_gen env') = ge_gen_limits (pe_gen env) \<Longrightarrow>
    (\<And>man. pub_check_candidate env' st blob physical = Inr (Inr man) \<Longrightarrow>
       (pd_scope st = None \<or> pd_scope st = Some (em_scope_id man)) \<and> (physical \<or> publishable env st blob man)) \<Longrightarrow>
    ge_changed (pe_gen env') = ge_changed (pe_gen env) \<Longrightarrow> pe_max_record_bytes env' = pe_max_record_bytes env \<Longrightarrow>
    pub_step env st st'"
| pub_power_loss: "pub_step env st (st\<lparr>pd_current := pd_synced st, pd_temps := 0\<rparr>)"

inductive pub_reach :: "pub_env \<Rightarrow> pub_store \<Rightarrow> bool" for env where
  pub_start: "pd_current st = None \<Longrightarrow> pd_synced st = None \<Longrightarrow> pub_reach env st"
| pub_next: "pub_reach env st \<Longrightarrow> pub_step env st st' \<Longrightarrow> pub_reach env st'"

definition node_opens :: "pub_env \<Rightarrow> pub_store \<Rightarrow> file_node option \<Rightarrow> bool" where
  "node_opens env st n \<longleftrightarrow> n = None \<or> (\<exists>c. reopen env st n = PRet (CS_VALID, Some c))"

lemma node_opens_grows: "node_opens env st n \<Longrightarrow> grows st st' \<Longrightarrow> node_opens env st' n"
  unfolding node_opens_def using reopen_grows by blast

lemma expects_cong:
  assumes "pe_keyring env' = pe_keyring env" "ge_changed (pe_gen env') = ge_changed (pe_gen env)"
    "pe_max_record_bytes env' = pe_max_record_bytes env"
  shows "expects env' st x r = expects env st x r"
  unfolding expects_def open_publication_record_def assms ..

lemma pub_step_opens:
  assumes s: "pub_step env st st'" and e: "env_ok env"
    and i: "node_opens env st (pd_current st)" "node_opens env st (pd_synced st)"
  shows "node_opens env st' (pd_current st') \<and> node_opens env st' (pd_synced st')"
  using s
proof (cases rule: pub_step.cases)
  case (pub_publish env' blob expected key_id authority purpose physical fault out)
  note ends = publish_impl_ends [OF pub_publish(1)]
  have g: "grows st st'" using ends by blast
  show ?thesis
  proof (cases "pd_current st' = pd_current st \<and> pd_synced st' = pd_synced st")
    case True
    then show ?thesis using node_opens_grows [OF _ g] i by simp
  next
    case False
    then obtain man where c: "pub_check_candidate env' st blob physical = Inr (Inr man)"
      and d: "published_end env' st blob expected key_id out st'" using ends by blast
    have d': "published_end env st blob expected key_id out st'"
      using d expects_cong [of env' env] pub_publish(2,6,7) by (simp add: published_end_def)
    have p: "publishable env st blob m" if m: "parse_manifest (Some blob) (pe_keyring env) = (G_VALID, Some m)" for m
    proof -
      have mm: "m = man" using candidate_parsed(1) [OF c] m pub_publish(2) by simp
      have sc: "pd_scope st = None \<or> pd_scope st = Some (em_scope_id man)" and ph: "physical \<or> publishable env st blob man"
        using pub_publish(5) [OF c] by auto
      show ?thesis
      proof (cases physical)
        case True
        then have "publishable env' st blob man" using c by (intro candidate_opened [OF _ sc]) simp
        then show ?thesis using pub_publish(2,4) mm by (simp add: publishable_def)
      next
        case False
        then show ?thesis using ph mm by simp
      qed
    qed
    obtain c cur where o: "pd_current st' = Some (RegularFile cur)" "pd_synced st' \<in> {pd_synced st, Some (RegularFile cur)}"
      "open_published_cursor env st' None = PRet (CS_VALID, Some c)"
      using published_opens [OF e pub_publish(3) g p d'] by blast
    have n: "node_opens env st' (pd_current st')" using o(3) by (auto simp: node_opens_def reopen_current)
    moreover have "node_opens env st' (pd_synced st')"
      using o(2) node_opens_grows [OF i(2) g] n o(1) by auto
    ultimately show ?thesis by blast
  qed
next
  case pub_power_loss
  then have "grows st st'" by (simp add: grows_def)
  then show ?thesis using node_opens_grows [OF i(2)] pub_power_loss by simp
qed

lemma pub_reach_opens:
  assumes "pub_reach env st" "env_ok env"
  shows "node_opens env st (pd_current st) \<and> node_opens env st (pd_synced st)"
  using assms(1)
proof (induction rule: pub_reach.induct)
  case (pub_start st)
  then show ?case by (simp add: node_opens_def)
next
  case (pub_next st st')
  then show ?case using pub_step_opens assms(2) by blast
qed

subsection \<open>A retry is answered without a write\<close>

lemma publish_retried:
  assumes e: "env_ok env" and z: "dget (pd_objects st) ZERO32 = None" and g: "grows st st'"
    and d: "published_end env st blob expected key_id out st'"
    and c: "pub_check_candidate env st' blob physical = Inr (Inr man)"
  shows "\<exists>proof. publish_impl env st' blob expected key_id authority purpose physical None
      = (PRet (PublishResult PB_ALREADY_PUBLISHED (Some proof)), st')
    \<and> (\<forall>x. out = PRet x \<longrightarrow> x = PublishResult PB_PUBLISHED (Some proof))"
proof -
  obtain m key revision rb cur where m: "parse_manifest (Some blob) (pe_keyring env) = (G_VALID, Some m)"
    and k: "dget (pe_keyring env) key_id = Some key" and x: "expects env st expected revision"
    and sh: "shows_record key (new_record m blob revision expected key_id) blob st' rb cur"
    and o: "\<forall>x. out = PRet x \<longrightarrow>
             x = PublishResult PB_PUBLISHED (Some (proof_from (new_record m blob revision expected key_id) (sha256 rb)
                   (last (em_segments m)))) \<and> pd_synced st' = Some (RegularFile cur)"
    using d unfolding published_end_def by blast
  let ?r = "new_record m blob revision expected key_id"
  have mm: "man = m" and s: "sha256 blob \<noteq> ZERO32" using candidate_parsed [OF c] m by simp_all
  have h: "pub_serialize ?r key = Some rb" "serialize_current (sha256 rb) key_id key = Some cur"
    "pd_current st' = Some (RegularFile cur)" "dget (pd_objects st') (sha256 rb) = Some rb"
    using sh by (simp_all add: shows_record_def new_record_def)
  have rc: "read_current (pd_current st') (pe_keyring env) (pe_max_current_bytes env) None
      = PRet (PS_VALID, Some \<lparr>cp_publication_sha256 = sha256 rb, cp_key_id = key_id\<rparr>)"
    using e serialize_current_length [OF h(2)] cur_parse_serialized [OF h(2) k]
    by (simp add: read_current_def h(3) env_ok_def)
  have ch: "ge_changed (pe_gen env) d = False" for d using e by (simp add: env_ok_def)
  have l: "length rb = PR_SIZE + TAG_BYTES" using h(1) by (auto simp: pub_serialize_def dest: struct_pack_length)
  have k': "dget (pe_keyring env) (pub_key_id ?r) = Some key" using k by (simp add: new_record_def)
  have or: "open_publication_record env (pd_objects st') (sha256 rb) = (PS_VALID, Some ?r)"
    using e l get_limited_some [OF h(4)] pub_parse_serialized [OF h(1) k' new_record_canonical [OF x z m s]]
    by (simp add: open_publication_record_def ch env_ok_def)
  have ob: "pub_observe env st' expected (sha256 blob) man None
      = PRet (Inl (PublishResult PB_ALREADY_PUBLISHED (Some (proof_from ?r (sha256 rb) (last (em_segments man))))))"
    unfolding pub_observe_def rc pub_out.case prod.case publication_state.case option.case current_pointer.simps or
    by (simp add: new_record_def mm)
  have "publish_impl env st' blob expected key_id authority purpose physical None
      = (PRet (PublishResult PB_ALREADY_PUBLISHED (Some (proof_from ?r (sha256 rb) (last (em_segments man))))), st')"
    unfolding publish_impl_def by (simp add: k c ob)
  then show ?thesis using o mm by auto
qed

end
