(* ===== verification/Publishers.thy ===== *)
theory Publishers
  imports Publication
begin

section \<open>The typed publications (\<open>horizon_publication.py\<close>)\<close>

text \<open>
  The public operations: the genesis, a batch, a rotation and a compaction. Each binds its sealed
  package to the published cursor and hands the candidate to the compare and swap with its
  purpose. The lemmas show what an accepted package is: the candidate of a batch is the advance of
  the cursor by exactly the applied records and its bytes are the ones proved durable; the
  candidate of a rotation is the published manifest with its ACTIVE segment replaced by the
  prepared pair. The cleanup of the registry of prepared packages is part of the garbage
  collection and left out.
\<close>

definition publish_genesis ::
  "pub_env \<Rightarrow> pub_store \<Rightarrow> bytes \<Rightarrow> int \<Rightarrow> pub_fault option \<Rightarrow> publish_result pub_out \<times> pub_store" where
  "publish_genesis env st blob key_id fault =
     publish_impl env st blob ZERO32 key_id None (Some PP_GENESIS) True fault"

text \<open>\<open>_publish_cas_primitive\<close>: no purpose and no authority.\<close>

definition publish_cas_primitive ::
  "pub_env \<Rightarrow> pub_store \<Rightarrow> bytes \<Rightarrow> bytes \<Rightarrow> int \<Rightarrow> pub_fault option \<Rightarrow> publish_result pub_out \<times> pub_store" where
  "publish_cas_primitive env st blob expected key_id fault =
     publish_impl env st blob expected key_id None None True fault"

subsection \<open>Rotation\<close>

text \<open>\<open>bind_rotation_prepared\<close>: the next segments, or \<open>None\<close>.\<close>

definition bind_rotation_prepared ::
  "('w, 't) rotation_prepared \<Rightarrow> bytes \<Rightarrow> bytes \<Rightarrow> bytes \<Rightarrow> keyring \<Rightarrow> wal_segment_descriptor list option" where
  "bind_rotation_prepared p current_digest record_blob manifest_blob kr =
     (let old = rot_old_sealed p; nxt = rot_next_active p
      in if \<not> is_sealed_prepared p then None
         else if sha256 record_blob \<noteq> current_digest then None
         else
           (case parse_publication_record (Some record_blob) kr of
              (PS_VALID, Some r) \<Rightarrow>
                if pub_manifest_sha256 r \<noteq> sha256 manifest_blob then None
                else
                  (case parse_manifest (Some manifest_blob) kr of
                     (G_VALID, Some man) \<Rightarrow>
                       if pub_scope_id r \<noteq> em_scope_id man \<or> pub_generation_id r \<noteq> em_generation_id man
                           \<or> pub_read_seq r \<noteq> em_read_seq man then None
                       else if em_segments man = [] \<or> wsd_status (last (em_segments man)) \<noteq> STATE_ACTIVE then None
                       else
                         (let cur = last (em_segments man)
                          in if rot_read_seq p \<noteq> pub_read_seq r then None
                             else if sd_ordinal old \<noteq> sd_ordinal cur \<or> sd_segment_id old \<noteq> sd_segment_id cur
                                 \<or> sd_first_seq old \<noteq> sd_first_seq cur
                                 \<or> wsd_prev_segment_digest old \<noteq> wsd_prev_segment_digest cur then None
                             else if wsd_prev_segment_digest nxt \<noteq> take 16 (wsd_sealed_object_sha256 old)
                                 \<or> sd_first_seq nxt \<noteq> rot_read_seq p + 1 \<or> sd_ordinal nxt \<noteq> sd_ordinal old + 1 then None
                             else Some (butlast (em_segments man) @ [old, nxt]))
                   | _ \<Rightarrow> None)
            | _ \<Rightarrow> None))"

definition publish_rotation ::
  "pub_env \<Rightarrow> pub_store \<Rightarrow> published_cursor \<Rightarrow> ('w, 't) rotation_prepared \<Rightarrow> bytes \<Rightarrow> int \<Rightarrow> scope_lease option
     \<Rightarrow> pub_fault option \<Rightarrow> publish_result pub_out \<times> pub_store" where
  "publish_rotation env st cursor p candidate key_id authority fault =
     (let old = rot_old_sealed p; nxt = rot_next_active p; ca = pc_active cursor;
          answer = (\<lambda>s. (PRet (PublishResult s None), st))
      in if \<not> is_sealed_cursor cursor then answer PB_INVALID_TRANSITION
         else if \<not> is_sealed_prepared p then answer PB_INVALID_TRANSITION
         else if \<not> check_authority authority PP_ROTATION (pd_scope st) (pe_fd_ok env) then answer PB_INVALID_AUTHORITY
         else if rot_read_seq p \<noteq> pc_read_seq cursor \<or> sd_ordinal old \<noteq> sd_ordinal ca
             \<or> sd_segment_id old \<noteq> sd_segment_id ca \<or> sd_first_seq old \<noteq> sd_first_seq ca
             \<or> wsd_prev_segment_digest old \<noteq> wsd_prev_segment_digest ca
             \<or> wsd_key_id old \<noteq> wsd_key_id ca then answer PB_INVALID_TRANSITION
         else
           (case parse_manifest (Some candidate) (pe_keyring env) of
              (G_VALID, Some cand) \<Rightarrow>
                if \<not> same_manifest cand ((pc_manifest cursor)\<lparr>em_segments :=
                      butlast (em_segments (pc_manifest cursor)) @ [old, nxt]\<rparr>) then answer PB_INVALID_TRANSITION
                else publish_impl env st candidate (pp_publication_sha256 (pc_proof cursor)) key_id authority
                       (Some PP_ROTATION) True fault
            | _ \<Rightarrow> answer PB_INVALID_CANDIDATE))"

subsection \<open>Batch\<close>

definition applied_receipts :: "('w, 't) batch_plan \<Rightarrow> nat" where
  "applied_receipts plan = length (filter (\<lambda>rc. pr_status rc = Logged APPLIED) (bp_receipts plan))"

text \<open>\<open>prepare_batch_publication\<close> on the cursor of the published state; the outer \<open>None\<close> is
  \<open>struct.error\<close>.\<close>

definition prepare_batch_publication ::
  "published_cursor option \<Rightarrow> ('w, 't) batch_plan \<Rightarrow> keyring \<Rightarrow> (publish_state \<times> batch_intent option) option" where
  "prepare_batch_publication cursor_opt plan kr =
     (case cursor_opt of
        None \<Rightarrow> Some (PB_INVALID_INTENT, None)
      | Some cursor \<Rightarrow>
          if \<not> is_sealed_cursor cursor then Some (PB_INVALID_INTENT, None)
          else
            (let applied = applied_receipts plan; head = bp_candidate_head plan; act = pc_active cursor
             in if applied = 0 then Some (PB_NO_PUBLICATION_REQUIRED, None)
                else if applied \<noteq> length (bp_frames plan) then Some (PB_INVALID_INTENT, None)
                else
                  (case advance_batch_manifest cursor head applied kr of
                     None \<Rightarrow> None
                   | Some adv \<Rightarrow>
                       if av_state adv = AV_RESOURCE_LIMIT then Some (PB_RESOURCE_LIMIT, None)
                       else if av_state adv \<noteq> AV_OK then Some (PB_INVALID_INTENT, None)
                       else
                         (let blob = the (av_manifest_blob adv)
                          in Some (PB_PUBLISHED, Some
                               \<lparr>bi_source_publication_sha256 = pp_publication_sha256 (pc_proof cursor),
                                bi_source_revision = pc_revision cursor, bi_source_read_seq = pc_read_seq cursor,
                                bi_scope_id = em_scope_id (pc_manifest cursor), bi_segment_id = sd_segment_id act,
                                bi_first_seq = sd_first_seq act, bi_source_byte_length = wsd_durable_prefix_length act,
                                bi_source_prefix_sha256 = wsd_durable_prefix_sha256 act,
                                bi_applied_count = applied, bi_frame_count = length (bp_frames plan),
                                bi_candidate_read_seq = av_candidate_read_seq adv,
                                bi_candidate_byte_length = int (wh_byte_length head),
                                bi_candidate_prefix_sha256 = wh_prefix_digest head,
                                bi_candidate_manifest_blob = blob, bi_candidate_manifest_sha256 = sha256 blob,
                                bi_key_id = em_key_id (pc_manifest cursor), bi_seal = True\<rparr>)))))"

definition intent_matches_cursor :: "batch_intent \<Rightarrow> published_cursor \<Rightarrow> bool" where
  "intent_matches_cursor i cursor \<longleftrightarrow>
     bi_source_publication_sha256 i = pp_publication_sha256 (pc_proof cursor)
     \<and> bi_source_revision i = pc_revision cursor \<and> bi_source_read_seq i = pc_read_seq cursor
     \<and> bi_scope_id i = em_scope_id (pc_manifest cursor) \<and> bi_segment_id i = sd_segment_id (pc_active cursor)
     \<and> bi_first_seq i = sd_first_seq (pc_active cursor)
     \<and> bi_source_byte_length i = wsd_durable_prefix_length (pc_active cursor)
     \<and> bi_source_prefix_sha256 i = wsd_durable_prefix_sha256 (pc_active cursor)"

definition proof_matches_intent :: "durable_batch_proof \<Rightarrow> batch_intent \<Rightarrow> bytes \<Rightarrow> bool" where
  "proof_matches_intent dp i digest \<longleftrightarrow> dp_intent_digest dp = digest
     \<and> dp_byte_length dp = bi_candidate_byte_length i \<and> dp_prefix_sha256 dp = bi_candidate_prefix_sha256 i
     \<and> dp_candidate_read_seq dp = bi_candidate_read_seq i \<and> dp_interval_lo dp = bi_source_read_seq i + 1
     \<and> dp_scope_id dp = bi_scope_id i \<and> dp_segment_id dp = bi_segment_id i"

text \<open>\<open>os.stat\<close> of the ACTIVE file: device, inode and length; \<open>None\<close> when it raises.\<close>

type_synonym active_stat = "(int \<times> int \<times> int) option"

definition publish_batch ::
  "pub_env \<Rightarrow> pub_store \<Rightarrow> published_cursor \<Rightarrow> batch_intent \<Rightarrow> durable_batch_proof \<Rightarrow> active_stat
     \<Rightarrow> scope_lease option \<Rightarrow> pub_fault option \<Rightarrow> read_fault option
     \<Rightarrow> (publish_state \<times> published_cursor option) pub_out \<times> pub_store" where
  "publish_batch env st cursor i dp stat authority fault rfault =
     (let answer = (\<lambda>s. (PRet (s, None), st))
      in if \<not> is_sealed_cursor cursor then answer PB_INVALID_INTENT
         else if \<not> bi_seal i then answer PB_INVALID_INTENT
         else if \<not> dp_seal dp then answer PB_INVALID_DURABILITY
         else if \<not> check_authority authority PP_BATCH (pd_scope st) (pe_fd_ok env) then answer PB_INVALID_AUTHORITY
         else if \<not> intent_matches_cursor i cursor then answer PB_INVALID_INTENT
         else if bi_candidate_read_seq i \<noteq> bi_source_read_seq i + int (bi_applied_count i) then answer PB_INVALID_INTENT
         else
           (case intent_canonical_digest i of
              None \<Rightarrow> (PRaise PubStructError, st)
            | Some digest \<Rightarrow>
                if \<not> proof_matches_intent dp i digest then answer PB_INVALID_DURABILITY
                else
                  (case stat of
                     None \<Rightarrow> answer PB_INVALID_DURABILITY
                   | Some (dev, ino, st_size) \<Rightarrow>
                       if dev \<noteq> dp_st_dev dp \<or> ino \<noteq> dp_st_ino dp \<or> st_size < dp_byte_length dp
                       then answer PB_INVALID_DURABILITY
                       else
                         (case publish_impl env st (bi_candidate_manifest_blob i) (pp_publication_sha256 (pc_proof cursor))
                                 (bi_key_id i) authority (Some PP_BATCH) False fault of
                            (PRaise e, st) \<Rightarrow> (PRaise e, st)
                          | (PKilled, st) \<Rightarrow> (PKilled, st)
                          | (PRet res, st) \<Rightarrow>
                              if pres_state res \<noteq> PB_PUBLISHED \<and> pres_state res \<noteq> PB_ALREADY_PUBLISHED
                              then (PRet (pres_state res, None), st)
                              else
                                (case open_published_cursor env st rfault of
                                   PRet (CS_VALID, c) \<Rightarrow> (PRet (pres_state res, c), st)
                                 | PRet _ \<Rightarrow> (PRet (PB_IO_ERROR, None), st)
                                 | PRaise e \<Rightarrow> (PRaise e, st)
                                 | PKilled \<Rightarrow> (PKilled, st))))))"

subsection \<open>Compaction\<close>

definition publish_maintenance ::
  "pub_env \<Rightarrow> pub_store \<Rightarrow> published_cursor \<Rightarrow> compaction_prepared \<Rightarrow> pub_fault option
     \<Rightarrow> publish_result pub_out \<times> pub_store" where
  "publish_maintenance env st cursor p fault =
     (let answer = (\<lambda>s. (PRet (PublishResult s None), st)); blob = cm_candidate_blob p
      in if \<not> is_sealed_cursor cursor then answer PB_INVALID_TRANSITION
         else
           (case is_sealed_compaction p of
              None \<Rightarrow> (PRaise PubStructError, st)
            | Some sealed \<Rightarrow>
                if \<not> sealed then answer PB_INVALID_TRANSITION
                else if cm_candidate_sha256 p \<noteq> sha256 blob then answer PB_INVALID_CANDIDATE
                else if cm_source_publication_sha256 p \<noteq> pp_publication_sha256 (pc_proof cursor)
                    \<or> cm_read_seq p \<noteq> pc_read_seq cursor then answer PB_INVALID_TRANSITION
                else
                  (case parse_manifest (Some blob) (pe_keyring env) of
                     (G_VALID, Some cand) \<Rightarrow>
                       if \<not> same_dict (rev (cm_base_descriptors p)) (em_base_descriptors cand) then answer PB_INVALID_CANDIDATE
                       else if em_segments cand = [] \<or> cm_next_active p \<noteq> last (em_segments cand)
                         then answer PB_INVALID_CANDIDATE
                       else if em_parent_manifest_digest cand \<noteq> pp_manifest_sha256 (pc_proof cursor)
                         then answer PB_INVALID_TRANSITION
                       else if em_generation_id cand \<noteq> em_generation_id (pc_manifest cursor) + 1
                         then answer PB_INVALID_TRANSITION
                       else
                         (case publish_impl env st blob (pp_publication_sha256 (pc_proof cursor)) (em_key_id cand)
                                 (cm_lease p) (Some PP_MAINTENANCE) True fault of
                            (PRet res, st') \<Rightarrow>
                              if (pres_state res = PB_PUBLISHED \<or> pres_state res = PB_ALREADY_PUBLISHED)
                                  \<and> (case pres_proof res of None \<Rightarrow> False | Some q \<Rightarrow> pp_manifest_sha256 q \<noteq> cm_candidate_sha256 p)
                              then (PRet (PublishResult PB_INVALID_CANDIDATE None), st')
                              else (PRet res, st')
                          | x \<Rightarrow> x)
                   | _ \<Rightarrow> answer PB_INVALID_CANDIDATE)))"

subsection \<open>The published batch\<close>

lemma shown_record_cursor:
  assumes e: "env_ok env" and k: "dget (pe_keyring env) (pub_key_id r) = Some key"
    and sh: "shows_record key r blob st rb cur" and c: "pub_canonical r"
    and p: "parse_manifest (Some blob) (pe_keyring env) = (G_VALID, Some man)" and m: "pub_manifest_sha256 r = sha256 blob"
    and o: "open_published_cursor env st None = PRet (CS_VALID, c')"
  shows "c' = Some (cursor_of r rb blob man)"
proof -
  have ch: "ge_changed (pe_gen env) d = False" for d using e by (simp add: env_ok_def)
  have s: "pub_serialize r key = Some rb" "serialize_current (sha256 rb) (pub_key_id r) key = Some cur"
    "pd_current st = Some (RegularFile cur)" "dget (pd_objects st) (sha256 blob) = Some blob"
    "dget (pd_objects st) (sha256 rb) = Some rb"
    using sh by (simp_all add: shows_record_def)
  have rc: "read_current (pd_current st) (pe_keyring env) (pe_max_current_bytes env) None
      = PRet (PS_VALID, Some \<lparr>cp_publication_sha256 = sha256 rb, cp_key_id = pub_key_id r\<rparr>)"
    using e serialize_current_length [OF s(2)] cur_parse_serialized [OF s(2) k] by (simp add: read_current_def s(3) env_ok_def)
  have l: "length rb = PR_SIZE + TAG_BYTES" using s(1) by (auto simp: pub_serialize_def dest: struct_pack_length)
  have or: "open_publication_record env (pd_objects st) (sha256 rb) = (PS_VALID, Some r)"
    using e l get_limited_some [OF s(5)] pub_parse_serialized [OF s(1) k c]
    by (simp add: open_publication_record_def ch env_ok_def)
  have om: "open_manifest_object env (pd_objects st) (sha256 blob) \<in> {None, Some (blob, man)}"
    using p by (auto simp: open_manifest_object_def get_limited_def s(4) ch)
  have cp: "cursor_of_pointer env st \<lparr>cp_publication_sha256 = sha256 rb, cp_key_id = pub_key_id r\<rparr> = (CS_VALID, c')"
    using o by (simp add: open_published_cursor_def rc)
  show ?thesis
  proof (cases "open_manifest_object env (pd_objects st) (sha256 blob)")
    case None
    then show ?thesis using cp by (simp add: cursor_of_pointer_def or m)
  next
    case (Some x)
    then have x: "open_manifest_object env (pd_objects st) (sha256 blob) = Some (blob, man)" using om by simp
    show ?thesis
      using cp unfolding cursor_of_pointer_def current_pointer.simps or m x prod.case publication_state.case option.case
      by (simp add: cursor_of_def Let_def split: if_splits)
  qed
qed

lemma publish_impl_purpose:
  assumes p: "publish_impl env st blob expected key_id authority (Some pp) physical fault = (out, st')"
    and n: "pd_current st' \<noteq> pd_current st \<or> pd_synced st' \<noteq> pd_synced st \<or> out = PRet (PublishResult PB_PUBLISHED q)"
  shows "\<exists>man prev. parse_manifest (Some blob) (pe_keyring env) = (G_VALID, Some man)
     \<and> pub_authorize env st authority pp prev man = None
     \<and> (prev = None \<longleftrightarrow> pd_current st = None)
     \<and> (\<forall>r. prev = Some r \<longrightarrow> open_publication_record env (pd_objects st) expected = (PS_VALID, Some r))"
  using p
proof (cases rule: publish_impl_cases)
  case 1
  then show ?thesis using n by auto
next
  case (2 key man revision prev)
  then show ?thesis using candidate_parsed(1) [OF 2(2)] observe_cases(3,4) [OF 2(3)] by auto
qed

lemma authorize_None:
  assumes "pub_authorize env st authority pp prev man = None"
  shows "check_authority authority pp (pd_scope st) (pe_fd_ok env)"
    "prev = None \<Longrightarrow> validate_publication_transition None man pp = T_OK"
    "prev = Some r \<Longrightarrow> \<exists>x. open_manifest_object env (pd_objects st) (pub_manifest_sha256 r) = Some x
        \<and> validate_publication_transition (Some (snd x)) man pp = T_OK"
  using assms unfolding pub_authorize_def by (auto split: if_splits option.splits transition_state.splits)

lemma pres_proof_ex: "(\<exists>q. x = PublishResult ps q) \<longleftrightarrow> pres_state x = ps"
  by (cases x) auto

lemma prepare_batchE:
  assumes "prepare_batch_publication (Some cursor) plan kr = Some (PB_PUBLISHED, Some i)"
  obtains adv where "is_sealed_cursor cursor" "0 < applied_receipts plan" "applied_receipts plan = length (bp_frames plan)"
    "advance_batch_manifest cursor (bp_candidate_head plan) (applied_receipts plan) kr = Some adv" "av_state adv = AV_OK"
    "bi_candidate_manifest_blob i = the (av_manifest_blob adv)" "bi_key_id i = em_key_id (pc_manifest cursor)"
    "bi_candidate_byte_length i = int (wh_byte_length (bp_candidate_head plan))"
    "bi_candidate_prefix_sha256 i = wh_prefix_digest (bp_candidate_head plan)" "bi_applied_count i = applied_receipts plan"
    "intent_matches_cursor i cursor" "bi_seal i" "bi_candidate_read_seq i = av_candidate_read_seq adv"
    "bi_scope_id i = em_scope_id (pc_manifest cursor)" "bi_segment_id i = sd_segment_id (pc_active cursor)"
  using assms unfolding prepare_batch_publication_def Let_def
  by (auto simp: intent_matches_cursor_def split: if_splits option.splits)

text \<open>What a call of \<open>publish_batch\<close> that got past its guards did.\<close>

lemma publish_batch_cases:
  assumes "publish_batch env st cursor i dp stat authority fault rf = (out, st')"
  obtains "st' = st" "\<And>c. out \<noteq> PRet (PB_PUBLISHED, c)" "\<And>c. out \<noteq> PRet (PB_ALREADY_PUBLISHED, c)"
  | digest st_size res where "check_authority authority PP_BATCH (pd_scope st) (pe_fd_ok env)"
    "intent_canonical_digest i = Some digest" "proof_matches_intent dp i digest"
    "stat = Some (dp_st_dev dp, dp_st_ino dp, st_size)" "dp_byte_length dp \<le> st_size"
    "publish_impl env st (bi_candidate_manifest_blob i) (pp_publication_sha256 (pc_proof cursor))
       (bi_key_id i) authority (Some PP_BATCH) False fault = (res, st')"
    "\<And>c. out = PRet (PB_PUBLISHED, c) \<Longrightarrow> \<exists>q. res = PRet (PublishResult PB_PUBLISHED q)"
    "\<And>c. out = PRet (PB_PUBLISHED, c) \<Longrightarrow> open_published_cursor env st' rf = PRet (CS_VALID, c)"
    "\<And>c. out = PRet (PB_ALREADY_PUBLISHED, c) \<Longrightarrow> \<exists>x. res = PRet x \<and> pres_state x = PB_ALREADY_PUBLISHED"
proof -
  let ?p = "publish_impl env st (bi_candidate_manifest_blob i) (pp_publication_sha256 (pc_proof cursor))
       (bi_key_id i) authority (Some PP_BATCH) False fault"
  show ?thesis
  proof (cases "\<exists>digest st_size. check_authority authority PP_BATCH (pd_scope st) (pe_fd_ok env)
      \<and> intent_canonical_digest i = Some digest \<and> proof_matches_intent dp i digest
      \<and> stat = Some (dp_st_dev dp, dp_st_ino dp, st_size) \<and> dp_byte_length dp \<le> st_size
      \<and> is_sealed_cursor cursor \<and> bi_seal i \<and> dp_seal dp \<and> intent_matches_cursor i cursor
      \<and> bi_candidate_read_seq i = bi_source_read_seq i + int (bi_applied_count i)")
    case True
    then obtain digest st_size where g: "check_authority authority PP_BATCH (pd_scope st) (pe_fd_ok env)"
      "intent_canonical_digest i = Some digest" "proof_matches_intent dp i digest"
      "stat = Some (dp_st_dev dp, dp_st_ino dp, st_size)" "dp_byte_length dp \<le> st_size"
      and h: "is_sealed_cursor cursor" "bi_seal i" "dp_seal dp" "intent_matches_cursor i cursor"
      "bi_candidate_read_seq i = bi_source_read_seq i + int (bi_applied_count i)" by blast
    obtain res s1 where p: "?p = (res, s1)" by (cases ?p)
    have r: "publish_batch env st cursor i dp stat authority fault rf = (case (res, s1) of
          (PRaise e, st) \<Rightarrow> (PRaise e, st) | (PKilled, st) \<Rightarrow> (PKilled, st)
        | (PRet res, st) \<Rightarrow>
            if pres_state res \<noteq> PB_PUBLISHED \<and> pres_state res \<noteq> PB_ALREADY_PUBLISHED
            then (PRet (pres_state res, None), st)
            else (case open_published_cursor env st rf of
                    PRet (CS_VALID, c) \<Rightarrow> (PRet (pres_state res, c), st)
                  | PRet _ \<Rightarrow> (PRet (PB_IO_ERROR, None), st)
                  | PRaise e \<Rightarrow> (PRaise e, st) | PKilled \<Rightarrow> (PKilled, st)))"
      unfolding publish_batch_def Let_def by (simp add: g h p leD [OF g(5)])
    have s: "st' = s1" using assms r
      by (auto split: pub_out.splits if_splits prod.splits cursor_state.splits)
    show ?thesis
    proof (rule that(2) [OF g p [folded s]])
      fix c assume "out = PRet (PB_PUBLISHED, c)"
      then have "\<exists>x. res = PRet x \<and> pres_state x = PB_PUBLISHED \<and> open_published_cursor env s1 rf = PRet (CS_VALID, c)"
        using assms r by (auto split: pub_out.splits if_splits prod.splits cursor_state.splits)
      then show "\<exists>q. res = PRet (PublishResult PB_PUBLISHED q)" "open_published_cursor env st' rf = PRet (CS_VALID, c)"
        by (auto simp: s pres_proof_ex)
    next
      fix c assume "out = PRet (PB_ALREADY_PUBLISHED, c)"
      then show "\<exists>x. res = PRet x \<and> pres_state x = PB_ALREADY_PUBLISHED"
        using assms r by (auto split: pub_out.splits if_splits prod.splits cursor_state.splits)
    qed
  next
    case False
    then have "st' = st \<and> (\<forall>c. out \<noteq> PRet (PB_PUBLISHED, c) \<and> out \<noteq> PRet (PB_ALREADY_PUBLISHED, c))"
      using assms unfolding publish_batch_def Let_def by (auto simp: not_less split: if_splits option.splits prod.splits)
    then show ?thesis using that(1) by blast
  qed
qed

lemma publish_batch_publishes:
  assumes e: "env_ok env" and z: "dget (pd_objects st) ZERO32 = None" and co: "cursor_ok cursor"
    and pr: "prepare_batch_publication (Some cursor) plan (pe_keyring env) = Some (PB_PUBLISHED, Some i)"
    and pb: "publish_batch env st cursor i dp stat authority fault None = (out, st')"
  shows "grows st st' \<and>
    (pd_current st' = pd_current st \<and> pd_synced st' = pd_synced st \<and> (\<forall>c. out \<noteq> PRet (PB_PUBLISHED, c))
     \<or> (\<exists>m rev cur l st_size.
          parse_manifest (Some (bi_candidate_manifest_blob i)) (pe_keyring env) = (G_VALID, Some m)
        \<and> same_manifest m (advanced_manifest (pc_manifest cursor) (pc_active cursor) (bp_candidate_head plan) (applied_receipts plan))
        \<and> expects env st (pp_publication_sha256 (pc_proof cursor)) rev
        \<and> authority = Some l \<and> le_state l \<in> {OWNED_BY_STORE, OWNED_BY_NEW_STORE}
        \<and> stat = Some (dp_st_dev dp, dp_st_ino dp, st_size) \<and> dp_byte_length dp \<le> st_size
        \<and> dp_byte_length dp = int (wh_byte_length (bp_candidate_head plan))
        \<and> dp_prefix_sha256 dp = wh_prefix_digest (bp_candidate_head plan)
        \<and> pd_current st' = Some (RegularFile cur) \<and> pd_synced st' \<in> {pd_synced st, Some (RegularFile cur)}
        \<and> (\<forall>c. out = PRet (PB_PUBLISHED, c) \<longrightarrow> pd_synced st' = pd_current st' \<and>
             (\<exists>c'. c = Some c' \<and> pc_manifest c' = m \<and> pc_revision c' = rev))))"
proof -
  obtain adv where a: "advance_batch_manifest cursor (bp_candidate_head plan) (applied_receipts plan) (pe_keyring env) = Some adv"
      "av_state adv = AV_OK"
    and b: "bi_candidate_manifest_blob i = the (av_manifest_blob adv)"
    and hd: "bi_candidate_byte_length i = int (wh_byte_length (bp_candidate_head plan))"
      "bi_candidate_prefix_sha256 i = wh_prefix_digest (bp_candidate_head plan)"
    by (rule prepare_batchE [OF pr]) blast
  obtain blob m0 where m0: "av_manifest_blob adv = Some blob"
      "parse_manifest (Some blob) (pe_keyring env) = (G_VALID, Some (with_order BASE_KINDS m0))"
      "same_manifest (with_order BASE_KINDS m0) m0"
      "m0 = advanced_manifest (pc_manifest cursor) (pc_active cursor) (bp_candidate_head plan) (applied_receipts plan)"
    by (rule advance_is_batch [OF a co]) blast
  let ?m = "with_order BASE_KINDS m0"
  have bb: "bi_candidate_manifest_blob i = blob" using b m0(1) by simp
  show ?thesis
    using pb
  proof (cases rule: publish_batch_cases)
    case 1
    then show ?thesis by simp
  next
    case (2 digest st_size res)
    note ends = publish_impl_ends [OF 2(6)]
    show ?thesis
    proof (cases "pd_current st' = pd_current st \<and> pd_synced st' = pd_synced st \<and> (\<forall>q. res \<noteq> PRet (PublishResult PB_PUBLISHED q))")
      case True
      then show ?thesis using ends 2(7) by blast
    next
      case False
      then obtain man where g: "grows st st'" and c: "pub_check_candidate env st blob False = Inr (Inr man)"
        and d: "published_end env st blob (pp_publication_sha256 (pc_proof cursor)) (bi_key_id i) res st'"
        using ends unfolding bb by blast
      obtain mm key revision rb cur where m: "parse_manifest (Some blob) (pe_keyring env) = (G_VALID, Some mm)"
        and k: "dget (pe_keyring env) (bi_key_id i) = Some key"
        and x: "expects env st (pp_publication_sha256 (pc_proof cursor)) revision"
        and sh: "shows_record key (new_record mm blob revision (pp_publication_sha256 (pc_proof cursor)) (bi_key_id i)) blob st' rb cur"
        and sy: "pd_synced st' \<in> {pd_synced st, Some (RegularFile cur)}"
        and o: "\<forall>x. res = PRet x \<longrightarrow>
             x = PublishResult PB_PUBLISHED (Some (proof_from (new_record mm blob revision (pp_publication_sha256 (pc_proof cursor)) (bi_key_id i)) (sha256 rb)
                   (last (em_segments mm)))) \<and> pd_synced st' = Some (RegularFile cur)"
        using d unfolding published_end_def by blast
      have mm: "mm = ?m" using m m0(2) by simp
      have s: "sha256 blob \<noteq> ZERO32" by (rule candidate_parsed(4) [OF c])
      have cur: "pd_current st' = Some (RegularFile cur)" using sh by (simp add: shows_record_def)
      obtain l where l: "authority = Some l" "le_state l \<in> {OWNED_BY_STORE, OWNED_BY_NEW_STORE}"
        using 2(1) by (auto simp: check_authority_def split: option.splits if_splits)
      have ok: "pd_synced st' = pd_current st' \<and> (\<exists>c'. c = Some c' \<and> pc_manifest c' = ?m \<and> pc_revision c' = revision)"
        if out: "out = PRet (PB_PUBLISHED, c)" for c
      proof -
        obtain q where "res = PRet (PublishResult PB_PUBLISHED q)" using 2(7) [OF out] by blast
        moreover have "c = Some (cursor_of (new_record mm blob revision (pp_publication_sha256 (pc_proof cursor)) (bi_key_id i)) rb blob mm)"
          by (rule shown_record_cursor [OF e _ sh new_record_canonical [OF x z m s] m _ 2(8) [OF out]])
             (simp_all add: k new_record_def)
        ultimately show ?thesis using o cur mm by (simp add: cursor_of_def new_record_def)
      qed
      have pm: "dp_byte_length dp = int (wh_byte_length (bp_candidate_head plan))"
        "dp_prefix_sha256 dp = wh_prefix_digest (bp_candidate_head plan)"
        using 2(3) hd by (simp_all add: proof_matches_intent_def)
      have "parse_manifest (Some (bi_candidate_manifest_blob i)) (pe_keyring env) = (G_VALID, Some ?m)" using m0(2) bb by simp
      moreover have "same_manifest ?m (advanced_manifest (pc_manifest cursor) (pc_active cursor) (bp_candidate_head plan) (applied_receipts plan))"
        using m0(3,4) by simp
      ultimately show ?thesis using g x l 2(4,5) pm cur sy ok by blast
    qed
  qed
qed

text \<open>The fast path does not check the limits: a batch that passes them is published, and the
  pointer it leaves is refused from then on.\<close>

lemma batch_over_limits:
  assumes e: "env_ok env" and d: "published_end env st blob expected key_id res st'" and z: "dget (pd_objects st) ZERO32 = None"
    and p: "parse_manifest (Some blob) (pe_keyring env) = (G_VALID, Some man)" "sha256 blob \<noteq> ZERO32"
    and l: "\<not> generation_preflight man (length blob) (ge_gen_limits (pe_gen env))"
    and s: "pd_scope st' = None \<or> pd_scope st' = Some (em_scope_id man)" "check_coverage man"
      "int (length blob) \<le> max_blob_bytes (ge_limits (pe_gen env))"
  shows "open_published_cursor env st' None = PRet (CS_RESOURCE_LIMIT, None)"
proof -
  obtain key revision rb cur where k: "dget (pe_keyring env) key_id = Some key" and x: "expects env st expected revision"
    and sh: "shows_record key (new_record man blob revision expected key_id) blob st' rb cur"
    using d p(1) unfolding published_end_def by auto
  let ?r = "new_record man blob revision expected key_id"
  have ch: "ge_changed (pe_gen env) d = False" for d using e by (simp add: env_ok_def)
  have h: "pub_serialize ?r key = Some rb" "serialize_current (sha256 rb) key_id key = Some cur"
    "pd_current st' = Some (RegularFile cur)" "dget (pd_objects st') (sha256 blob) = Some blob" "dget (pd_objects st') (sha256 rb) = Some rb"
    using sh by (simp_all add: shows_record_def new_record_def)
  have rc: "read_current (pd_current st') (pe_keyring env) (pe_max_current_bytes env) None
      = PRet (PS_VALID, Some \<lparr>cp_publication_sha256 = sha256 rb, cp_key_id = key_id\<rparr>)"
    using e serialize_current_length [OF h(2)] cur_parse_serialized [OF h(2) k] by (simp add: read_current_def h(3) env_ok_def)
  have ln: "length rb = PR_SIZE + TAG_BYTES" using h(1) by (auto simp: pub_serialize_def dest: struct_pack_length)
  have k': "dget (pe_keyring env) (pub_key_id ?r) = Some key" using k by (simp add: new_record_def)
  have or: "open_publication_record env (pd_objects st') (sha256 rb) = (PS_VALID, Some ?r)"
    using e ln get_limited_some [OF h(5)] pub_parse_serialized [OF h(1) k' new_record_canonical [OF x z p]]
    by (simp add: open_publication_record_def ch env_ok_def)
  have om: "open_manifest_object env (pd_objects st') (sha256 blob) = Some (blob, man)"
    using get_limited_some [OF h(4) s(3)] p(1) by (simp add: open_manifest_object_def ch)
  have "cursor_of_pointer env st' \<lparr>cp_publication_sha256 = sha256 rb, cp_key_id = key_id\<rparr> = (CS_RESOURCE_LIMIT, None)"
    unfolding cursor_of_pointer_def current_pointer.simps or prod.case publication_state.case option.case
    using s l om by (auto simp: new_record_def)
  then show ?thesis by (simp add: open_published_cursor_def rc)
qed
end
