(* ===== verification/PublicationProperties.thy ===== *)
theory PublicationProperties
  imports Publishers
begin

section \<open>Properties of publication\<close>

text \<open>
  The properties of the naming layer: the encodings, the compare and swap, what every failure of
  a publication leaves, the retry, and the manifest of a batch. The witnesses use one scope with an
  ACTIVE segment and a key ring of one key.
\<close>

definition seg4 :: wal_segment_descriptor where
  "seg4 = \<lparr>sd_ordinal = 0, sd_segment_id = 1, sd_first_seq = 7, sd_record_count = 0, wsd_status = STATE_ACTIVE,
     wsd_durable_prefix_length = 67, wsd_durable_prefix_sha256 = replicate 32 1, wsd_sealed_object_length = 0,
     wsd_sealed_object_sha256 = ZERO32, wsd_prev_segment_digest = ZERO16, wsd_key_id = 1\<rparr>"

definition man4 :: epoch_manifest where
  "man4 = \<lparr>em_scope_id = 3, em_generation_id = 1, em_fact_count = 3, em_base_seq = 6, em_read_seq = 6,
     em_parent_generation_id = -1, em_parent_manifest_digest = ZERO32,
     em_base_descriptors = map (\<lambda>k. (k, \<lparr>ad_kind = k, ad_format_version = 1, ad_required = True, ad_byte_length = 9,
       ad_sha256 = ZERO32, ad_key_id = 1\<rparr>)) BASE_KINDS, em_segments = [seg4], em_key_id = 1\<rparr>"

definition env4 :: pub_env where
  "env4 = \<lparr>pe_gen = \<lparr>ge_np = np_concrete, ge_objects = [], ge_wal = \<lparr>ws_active = [], ws_objects = [], ws_keyring = [(1, [7])]\<rparr>,
       ge_keyring = [(1, [7])], ge_changed = (\<lambda>_. False), ge_fault = (\<lambda>_. None), ge_limits = default_limits, ge_parent = None,
       ge_reducer_limits = derived_reducer_limits DEFAULT_GENERATION_LIMITS, ge_gen_limits = DEFAULT_GENERATION_LIMITS\<rparr>,
     pe_max_current_bytes = 4096, pe_max_record_bytes = 4096, pe_fd_ok = True\<rparr>"

definition st4 :: pub_store where
  "st4 = \<lparr>pd_scope = Some 3, pd_current = None, pd_synced = None, pd_temps = 0, pd_objects = []\<rparr>"

definition cursor4 :: published_cursor where
  "cursor4 = \<lparr>pc_proof = proof_from (new_record man4 [] 0 ZERO32 1) (replicate 32 9) seg4, pc_manifest_blob = [],
     pc_manifest = man4, pc_active = seg4, pc_revision = 0, pc_read_seq = 6, pc_seal = True\<rparr>"

definition head4 :: wal_head where
  "head4 = \<lparr>wh_scope_id = 3, wh_segment_id = 1, wh_first_seq = 7, wh_durable_through_seq = 7, wh_byte_length = 200,
     wh_prefix_digest = replicate 32 2, wh_state = STATE_ACTIVE\<rparr>"

definition plan4 :: "(wal_index, tx_index) batch_plan" where
  "plan4 = \<lparr>bp_expected_first_seq = 7, bp_frames = [replicate 133 5], bp_receipts = [PlannedReceipt 1 (Logged APPLIED) (Some 7)],
     bp_candidate_snapshot = \<lparr>ls_index = wi_empty, ls_txindex = [], ls_visible_through_seq = 7, ls_wal_head = head4\<rparr>,
     bp_candidate_head = head4, bp_byte_count = 133, bp_candidate_hasher = []\<rparr>"

lemma seg4_fits: "seg_fits seg4"
  by (simp add: seg_fits_def seg_row_def seg4_def)

lemma man4_fits: "manifest_fits man4"
proof -
  have "\<exists>d. dget (em_base_descriptors man4) k = Some d \<and> desc_fits k d" for k
    by (cases k) (simp_all add: man4_def BASE_KINDS_def desc_fits_def u32_def)
  then show ?thesis by (simp add: manifest_fits_def man4_def u32_def seq_ok_def seg4_fits)
qed

lemma man4_coverage: "check_coverage man4"
  by (simp add: check_coverage_def man4_def seg4_def segment_covers_def Let_def u32_def)

lemma env4_ok: "env_ok env4"
  by (simp add: env_ok_def env4_def DEFAULT_GENERATION_LIMITS_def default_limits_def)

lemma cursor4_ok: "cursor_ok cursor4"
  using man4_fits man4_coverage by (simp add: cursor_ok_def cursor4_def) (simp add: man4_def seg4_def)

lemma st4_clean: "dget (pd_objects st4) ZERO32 = None"
  by (simp add: st4_def)

section \<open>The encodings\<close>

text \<open>C37: A publication record and a CURRENT pointer are accepted exactly when they are the canonical
  encoding made with the key the key ring holds under their key id: nothing else parses, every
  canonical record and every pointer parses back, and what parses is determined by its bytes.\<close>

theorem publication_codec:
  "(parse_publication_record (Some b) kr = (PS_VALID, Some r) \<longleftrightarrow>
      (\<exists>key. dget kr (pub_key_id r) = Some key \<and> pub_serialize r key = Some b \<and> pub_canonical r)) \<and>
   (parse_current (Some b) kr = (PS_VALID, Some cp) \<longleftrightarrow>
      (\<exists>key. dget kr (cp_key_id cp) = Some key
         \<and> serialize_current (cp_publication_sha256 cp) (cp_key_id cp) key = Some b))"
proof -
  have "parse_current (Some b) kr = (PS_VALID, Some cp)"
    if "dget kr (cp_key_id cp) = Some key" "serialize_current (cp_publication_sha256 cp) (cp_key_id cp) key = Some b" for key
    using cur_parse_serialized [OF that(2,1)] by simp
  then show ?thesis using pub_parse_inv cur_parse_inv pub_parse_serialized by blast
qed

section \<open>The compare and swap\<close>


lemma man4_blob: "\<exists>blob. em_serialize man4 [7] = Some blob \<and> parse_manifest (Some blob) (pe_keyring env4) = (G_VALID, Some man4)"
proof -
  have k: "dget (pe_keyring env4) (em_key_id man4) = Some [7]" by (simp add: env4_def man4_def)
  have w: "with_order BASE_KINDS man4 = man4" by (simp add: with_order_def man4_def BASE_KINDS_def)
  obtain body where "em_body BASE_KINDS man4 = Some body"
    "parse_manifest (Some (body @ em_mac [7] body)) (pe_keyring env4) = (G_VALID, Some (with_order BASE_KINDS man4))"
    using parse_any_order [OF man4_fits _ _ k, of BASE_KINDS] by auto
  then show ?thesis by (auto simp: em_serialize_def w)
qed






section \<open>Transitions\<close>

text \<open>C35: A batch and a rotation keep the coverage law, up to the limits of the format and no further:
  over a published manifest that satisfies it, the candidate of a legal batch satisfies it exactly when
  its next sequence number is in range, the candidate of a legal rotation exactly when the sealed
  segment is not empty and the next segment id fits.\<close>

theorem transitions_keep_coverage:
  assumes "check_coverage prev"
    and "validate_publication_transition (Some prev) cand purpose = T_OK"
    and "purpose = PP_BATCH \<or> purpose = PP_ROTATION"
  shows "check_coverage cand \<longleftrightarrow>
    (if purpose = PP_BATCH then em_read_seq cand + 1 < MAX_SEQ
     else 0 < sd_record_count (last (em_segments prev)) \<and> sd_segment_id (last (em_segments prev)) < U32_MAX)"
proof (cases "purpose = PP_BATCH")
  case True
  then have "validate_batch prev cand = T_OK" "em_segments prev \<noteq> []"
    using assms(2) by (auto simp: validate_publication_transition_def split: if_splits)
  then show ?thesis using batch_coverage assms(1) True by simp
next
  case False
  then have "validate_rotation prev cand = T_OK" "em_segments prev \<noteq> []" "em_base_seq cand = em_base_seq prev"
    using assms(2,3) by (auto simp: validate_publication_transition_def same_generation_identity_def split: if_splits)
  then show ?thesis using rotation_coverage assms(1) False by simp
qed

definition cand4 :: epoch_manifest where "cand4 = advanced_manifest man4 seg4 head4 1"

lemma cand4_batch: "validate_publication_transition (Some man4) cand4 PP_BATCH = T_OK"
  by (simp add: validate_publication_transition_def same_generation_identity_def validate_batch_def same_manifest_def
      cand4_def advanced_manifest_def Let_def) (simp add: man4_def seg4_def head4_def)

theorem transitions_keep_coverage_witness: "check_coverage cand4 \<and> em_read_seq cand4 = 7"
  using transitions_keep_coverage [OF man4_coverage cand4_batch] by (simp add: cand4_def head4_def)


lemma advance4: "\<exists>blob. advance_batch_manifest cursor4 head4 1 (pe_keyring env4) =
    Some (AdvanceResult AV_OK (Some blob) (Some cand4) 7)"
proof -
  have "seg_fits (seg4\<lparr>sd_record_count := 1, wsd_durable_prefix_length := 200, wsd_durable_prefix_sha256 := replicate 32 2\<rparr>)"
    by (simp add: seg_fits_def seg_row_def seg4_def)
  then have "manifest_fits (man4\<lparr>em_read_seq := 7, em_segments :=
      [seg4\<lparr>sd_record_count := 1, wsd_durable_prefix_length := 200, wsd_durable_prefix_sha256 := replicate 32 2\<rparr>]\<rparr>)"
    by (intro fits_update [OF man4_fits]) (simp_all add: seq_ok_def)
  moreover have "cand4 = man4\<lparr>em_read_seq := 7, em_segments :=
      [seg4\<lparr>sd_record_count := 1, wsd_durable_prefix_length := 200, wsd_durable_prefix_sha256 := replicate 32 2\<rparr>]\<rparr>"
    by (simp add: cand4_def advanced_manifest_def head4_def man4_def) (simp add: seg4_def)
  ultimately have "manifest_fits cand4" by simp
  then obtain body where "em_body BASE_KINDS cand4 = Some body" using em_body_parts [of cand4 BASE_KINDS] by metis
  then have "\<exists>blob. em_serialize cand4 [7] = Some blob" by (simp add: em_serialize_def)
  moreover have "pc_manifest cursor4 = man4" "pc_active cursor4 = seg4" "pc_read_seq cursor4 = 6"
    "dget (pe_keyring env4) 1 = Some [7]" "em_scope_id man4 = 3" "em_key_id man4 = 1"
    by (simp_all add: cursor4_def env4_def man4_def)
  moreover have "wh_scope_id head4 = 3" "wh_segment_id head4 = 1" "wh_first_seq head4 = 7" "wh_durable_through_seq head4 = 7"
    "wh_byte_length head4 = 200" "length (wh_prefix_digest head4) = 32"
    by (simp_all add: head4_def)
  moreover have "sd_segment_id seg4 = 1" "sd_first_seq seg4 = 7" "wsd_durable_prefix_length seg4 = 67" "sd_record_count seg4 = 0"
    by (simp_all add: seg4_def)
  ultimately show ?thesis
    by (simp add: advance_batch_manifest_def Let_def cand4_def [symmetric] del: One_nat_def)
qed


end
