(* ===== verification/PublishedCommit.thy ===== *)
theory PublishedCommit
  imports Publishers GroupRecovery
begin

section \<open>The published commit of the group commit store (\<open>horizon_batch.py\<close>)\<close>

text \<open>
  A writer with a publication context answers a batch only behind a published manifest: it plans,
  prepares the publication, writes and syncs the frames at the exact end of the published prefix,
  publishes the new manifest by compare and swap, and swaps the snapshot and the cursor together.
  The state is the group commit store of \<open>GroupCommit\<close> with its cursor and the publication store
  of its scope. The lemmas show that this commit is a commit of the plain store as far as the log is
  concerned, and that the synced pointer always covers what was answered.
\<close>

record ('w, 't) pub_writer =
  pw_gc :: "('w, 't) gc_store"
  pw_cursor :: "published_cursor option"
  pw_store :: pub_store
  pw_dev :: int
  pw_ino :: int

text \<open>The answers of the operating system to one commit, and the points where the process dies:
  between the durable write and the publication (\<open>cs_kill_durable\<close>); the other kills are in the
  scripts. \<open>cs_adopted\<close> says that another thread swapped the published state meanwhile.\<close>

record commit_script =
  cs_fstat0 :: bool
  cs_io :: io_script
  cs_fstat1 :: bool
  cs_kill_durable :: bool
  cs_stat :: active_stat
  cs_publish :: "pub_fault option"
  cs_reopen :: "read_fault option"
  cs_adopted :: bool

subsection \<open>The durable write\<close>

text \<open>\<open>_pwrite_all\<close>; a write behind the end of the file leaves zeros in between.\<close>

definition pwrite_all :: "bytes \<Rightarrow> bytes \<Rightarrow> nat \<Rightarrow> os_write list \<Rightarrow> bytes \<times> io_end" where
  "pwrite_all file data off s =
     (let (b, e) = write_all None data s
      in (if b = [] then file
          else take off file @ replicate (off - length file) 0 @ b @ drop (off + length b) file, e))"

text \<open>\<open>commit_prepared_durable\<close>: the proof, if there is one, and whether the frames were written and
  synced.\<close>

definition commit_prepared_durable ::
  "bytes \<Rightarrow> int \<Rightarrow> int \<Rightarrow> ('w, 't) batch_plan \<Rightarrow> batch_intent \<Rightarrow> commit_script
     \<Rightarrow> (durable_batch_proof option \<times> bool) out \<times> bytes" where
  "commit_prepared_durable file dev ino plan i sc =
     (let head = bp_candidate_head plan
      in if bp_frames plan = [] then (Ret (None, False), file)
         else if \<not> cs_fstat0 sc then (Raise OSError, file)
         else if int (length file) \<noteq> bi_source_byte_length i then (Ret (None, False), file)
         else
           (let (file, e) = pwrite_all file (concat (bp_frames plan)) (nat (bi_source_byte_length i)) (io_writes (cs_io sc))
            in case e of
                 IoRaise x \<Rightarrow> (Raise x, file)
               | IoKilled \<Rightarrow> (Killed, file)
               | IoDone \<Rightarrow>
                   (case io_fsync (cs_io sc) of
                      None \<Rightarrow> (Killed, file)
                    | Some False \<Rightarrow> (Raise OSError, file)
                    | Some True \<Rightarrow>
                        if \<not> cs_fstat1 sc then (Raise OSError, file)
                        else if int (length file) \<noteq> bi_candidate_byte_length i
                            \<or> wh_prefix_digest head \<noteq> bi_candidate_prefix_sha256 i
                            \<or> wh_scope_id head \<noteq> bi_scope_id i \<or> wh_segment_id head \<noteq> bi_segment_id i
                          then (Ret (None, True), file)
                        else
                          (case intent_canonical_digest i of
                             None \<Rightarrow> (Raise StructError, file)
                           | Some digest \<Rightarrow>
                               (Ret (Some \<lparr>dp_st_dev = dev, dp_st_ino = ino, dp_scope_id = wh_scope_id head,
                                   dp_segment_id = wh_segment_id head, dp_interval_lo = bi_source_read_seq i + 1,
                                   dp_candidate_read_seq = bi_candidate_read_seq i, dp_byte_length = int (length file),
                                   dp_prefix_sha256 = wh_prefix_digest head, dp_intent_digest = digest, dp_seal = True\<rparr>,
                                 True), file)))))"

subsection \<open>The preconditions\<close>

definition check_batch_preconditions ::
  "published_cursor option \<Rightarrow> ('w, 't) l0_snapshot \<Rightarrow> ('w, 't) batch_plan \<Rightarrow> bool" where
  "check_batch_preconditions cursor_opt snapshot plan =
     (case cursor_opt of
        None \<Rightarrow> False
      | Some cursor \<Rightarrow>
          (let act = pc_active cursor; head = ls_wal_head snapshot
           in if ls_visible_through_seq snapshot \<noteq> pc_read_seq cursor then False
              else if wh_segment_id head \<noteq> sd_segment_id act \<or> wh_first_seq head \<noteq> sd_first_seq act
                  \<or> int (wh_byte_length head) \<noteq> wsd_durable_prefix_length act
                  \<or> wh_prefix_digest head \<noteq> wsd_durable_prefix_sha256 act then False
              else if bp_expected_first_seq plan \<noteq> pc_read_seq cursor + 1 then False
              else if ls_wal_head (bp_candidate_snapshot plan) \<noteq> bp_candidate_head plan then False
              else if int (wh_byte_length (bp_candidate_head plan))
                  \<noteq> wsd_durable_prefix_length act + int (bp_byte_count plan) then False
              else map pr_wal_seq (filter (\<lambda>r. pr_status r = Logged APPLIED) (bp_receipts plan))
                  = map Some [pc_read_seq cursor + 1 .. wh_durable_through_seq (bp_candidate_head plan)]))"

text \<open>\<open>adopt_published_cursor\<close>; \<open>None\<close> is the \<open>WalError\<close>.\<close>

definition adopt_published_cursor :: "('w, 't) pub_writer \<Rightarrow> published_cursor \<Rightarrow> ('w, 't) pub_writer option" where
  "adopt_published_cursor w cursor =
     (let head = ls_wal_head (gs_snapshot (pw_gc w)); act = pc_active cursor
      in if \<not> is_sealed_cursor cursor then None
         else if sd_segment_id act \<noteq> wh_segment_id head \<or> sd_first_seq act \<noteq> wh_first_seq head
             \<or> pp_scope_id (pc_proof cursor) \<noteq> wh_scope_id head then None
         else Some (w\<lparr>pw_cursor := Some cursor\<rparr>))"

subsection \<open>The commit\<close>

text \<open>Ghost: an fsync that returned made the whole file durable.\<close>

definition gc_synced :: "('w, 't) gc_store \<Rightarrow> ('w, 't) gc_store" where
  "gc_synced st = st\<lparr>gs_durable := length (gs_file st)\<rparr>"

text \<open>The publication of a durable batch, the swap and the answers.\<close>

definition publish_and_swap ::
  "pub_env \<Rightarrow> ('w, 't) pub_writer \<Rightarrow> ('w, 't) gc_store \<Rightarrow> request list \<Rightarrow> ('w, 't) batch_plan \<Rightarrow> published_cursor
     \<Rightarrow> batch_intent \<Rightarrow> durable_batch_proof \<Rightarrow> commit_script \<Rightarrow> ('w, 't) pub_writer" where
  "publish_and_swap env w written batch plan cursor i dp sc =
     (if cs_kill_durable sc then w\<lparr>pw_gc := written\<lparr>gs_killed := True\<rparr>\<rparr>
      else
        (case publish_batch env (pw_store w) cursor i dp (cs_stat sc) (gs_lease written) (cs_publish sc) (cs_reopen sc) of
           (PKilled, st) \<Rightarrow> w\<lparr>pw_gc := written\<lparr>gs_killed := True\<rparr>, pw_store := st\<rparr>
         | (PRaise e, st) \<Rightarrow> w\<lparr>pw_gc := gc_poison COMMIT_UNKNOWN batch written, pw_store := st\<rparr>
         | (PRet (rst, new_cursor), st) \<Rightarrow>
             if rst \<noteq> PB_PUBLISHED \<and> rst \<noteq> PB_ALREADY_PUBLISHED \<or> cs_adopted sc
             then w\<lparr>pw_gc := gc_poison COMMIT_UNKNOWN batch written, pw_store := st\<rparr>
             else w\<lparr>pw_gc := gc_answer (finish_receipts (bp_receipts plan) batch) (gc_swap True plan written),
                    pw_store := st, pw_cursor := new_cursor\<rparr>))"

definition gc_commit_published ::
  "('w, 'wb, 't, 'tb) index_ops \<Rightarrow> pub_env \<Rightarrow> ('w, 't) pub_writer \<Rightarrow> request list \<Rightarrow> commit_script \<Rightarrow> ('w, 't) pub_writer" where
  "gc_commit_published ops env w batch sc =
     (let st = pw_gc w
      in case gc_plan ops st batch of
           Inl e \<Rightarrow> w\<lparr>pw_gc := st\<lparr>gs_worker_dead := True\<rparr>\<rparr>
         | Inr plan \<Rightarrow>
             if \<not> check_batch_preconditions (pw_cursor w) (gs_snapshot st) plan
             then w\<lparr>pw_gc := gc_poison NOT_ACCEPTED batch st\<rparr>
             else
               (case prepare_batch_publication (pw_cursor w) plan (pe_keyring env) of
                  None \<Rightarrow> w\<lparr>pw_gc := st\<lparr>gs_worker_dead := True\<rparr>\<rparr>
                | Some (PB_NO_PUBLICATION_REQUIRED, _) \<Rightarrow>
                    w\<lparr>pw_gc := gc_answer (finish_receipts (bp_receipts plan) batch) st\<rparr>
                | Some (PB_PUBLISHED, Some i) \<Rightarrow>
                    (case commit_prepared_durable (gs_file st) (pw_dev w) (pw_ino w) plan i sc of
                       (Killed, fl) \<Rightarrow> w\<lparr>pw_gc := (gc_written fl (map rq_cmd batch) plan st)\<lparr>gs_killed := True\<rparr>\<rparr>
                     | (Raise e, fl) \<Rightarrow> w\<lparr>pw_gc := gc_poison COMMIT_UNKNOWN batch (gc_written fl (map rq_cmd batch) plan st)\<rparr>
                     | (Ret (None, False), fl) \<Rightarrow> w\<lparr>pw_gc := gc_poison NOT_ACCEPTED batch st\<rparr>
                     | (Ret (None, True), fl) \<Rightarrow>
                         w\<lparr>pw_gc := gc_poison COMMIT_UNKNOWN batch (gc_synced (gc_written fl (map rq_cmd batch) plan st))\<rparr>
                     | (Ret (Some dp, _), fl) \<Rightarrow>
                         publish_and_swap env w (gc_synced (gc_written fl (map rq_cmd batch) plan st)) batch plan
                           (the (pw_cursor w)) i dp sc)
                | _ \<Rightarrow> w\<lparr>pw_gc := gc_poison NOT_ACCEPTED batch st\<rparr>))"

subsection \<open>The published commit is a commit of the plain store\<close>

lemma pwrite_at_end: "off = length file \<Longrightarrow> pwrite_all file data off s = (let (b, e) = write_all None data s in (file @ b, e))"
  by (simp add: pwrite_all_def split: prod.split)

lemma commit_prepared_scripts:
  assumes "bp_frames plan \<noteq> []"
  shows "commit_prepared file plan \<lparr>io_writes = [WriteRaises], io_fsync = Some False\<rparr> = (Raise OSError, file)"
    and "commit_prepared file plan io = (Ret True, fl) \<Longrightarrow> commit_prepared file plan (io\<lparr>io_fsync := Some False\<rparr>) = (Raise OSError, fl)"
    and "commit_prepared file plan io = (Ret True, fl) \<Longrightarrow> commit_prepared file plan (io\<lparr>io_fsync := None\<rparr>) = (Killed, fl)"
  using assms by (auto simp: commit_prepared_def Let_def split: prod.splits io_end.splits option.splits bool.splits if_splits)

lemma durable_write_cases:
  assumes d: "commit_prepared_durable file dev ino plan i sc = (r, fl)"
  obtains (empty) "r = Ret (None, False)" "fl = file"
  | (untouched) "bp_frames plan \<noteq> []" "r = Raise OSError" "fl = file"
  | (raised) x where "bp_frames plan \<noteq> []" "r = Raise x" "commit_prepared file plan (cs_io sc) = (Raise x, fl)"
  | (killed) "bp_frames plan \<noteq> []" "r = Killed" "commit_prepared file plan (cs_io sc) = (Killed, fl)"
  | (written) "bp_frames plan \<noteq> []" "commit_prepared file plan (cs_io sc) = (Ret True, fl)"
      "(\<exists>x. r = Raise x) \<or> r = Ret (None, True) \<or> (\<exists>dp. r = Ret (Some dp, True) \<and> dp_byte_length dp = int (length fl))"
proof -
  consider "bp_frames plan = [] \<or> cs_fstat0 sc \<and> int (length file) \<noteq> bi_source_byte_length i"
    | "bp_frames plan \<noteq> []" "\<not> cs_fstat0 sc"
    | "bp_frames plan \<noteq> []" "cs_fstat0 sc" "int (length file) = bi_source_byte_length i" by blast
  then show ?thesis
  proof cases
    case 1
    then show ?thesis using d empty by (auto simp: commit_prepared_durable_def Let_def split: if_splits)
  next
    case 2
    then show ?thesis using d untouched by (auto simp: commit_prepared_durable_def Let_def)
  next
    case 3
    obtain b e where w: "write_all None (concat (bp_frames plan)) (io_writes (cs_io sc)) = (b, e)" by fastforce
    have n: "nat (bi_source_byte_length i) = length file" using 3(3) by simp
    note p = pwrite_at_end [OF n, of "concat (bp_frames plan)" "io_writes (cs_io sc)", unfolded w Let_def prod.case]
    show ?thesis
    proof (cases e)
      case (IoRaise x)
      then show ?thesis using d 3 p w raised
        by (auto simp: commit_prepared_durable_def commit_prepared_def Let_def)
    next
      case IoKilled
      then show ?thesis using d 3 p w killed
        by (auto simp: commit_prepared_durable_def commit_prepared_def Let_def)
    next
      case IoDone
      show ?thesis
      proof (cases "io_fsync (cs_io sc)")
        case None
        then show ?thesis using d 3 p w IoDone killed
          by (auto simp: commit_prepared_durable_def commit_prepared_def Let_def)
      next
        case (Some ok)
        show ?thesis
        proof (cases ok)
          case False
          then show ?thesis using d 3 p w IoDone Some raised
            by (auto simp: commit_prepared_durable_def commit_prepared_def Let_def)
        next
          case True
          have c: "commit_prepared file plan (cs_io sc) = (Ret True, file @ b)"
            using 3(1) w IoDone Some True by (simp add: commit_prepared_def)
          have f: "fl = file @ b" "(\<exists>x. r = Raise x) \<or> r = Ret (None, True) \<or> (\<exists>dp. r = Ret (Some dp, True) \<and> dp_byte_length dp = int (length fl))"
            using d 3 p w IoDone Some True
            by (auto simp: commit_prepared_durable_def Let_def split: if_splits option.splits)
          show ?thesis by (rule written [OF 3(1)]) (use c f in simp_all)
        qed
      qed
    qed
  qed
qed

definition plain_commit_of ::
  "('w, 'wb, 't, 'tb) index_ops \<Rightarrow> ('w, 't) gc_store \<Rightarrow> request list \<Rightarrow> ('w, 't) gc_store \<Rightarrow> bool" where
  "plain_commit_of ops st batch st' \<longleftrightarrow>
     (\<exists>sc. st' = gc_commit ops st batch sc \<or> st' = gc_synced (gc_commit ops st batch sc)) \<or> st' = gc_poison NOT_ACCEPTED batch st
     \<or> st' = st\<lparr>gs_worker_dead := True\<rparr>"

lemma gc_synced_commutes [simp]:
  "gc_poison s batch (gc_synced st) = gc_synced (gc_poison s batch st)"
  "(gc_synced st)\<lparr>gs_killed := k\<rparr> = gc_synced (st\<lparr>gs_killed := k\<rparr>)"
  "gc_swap True plan (gc_synced st) = gc_swap True plan st" "inflight (gc_synced st) = inflight st"
  "gs_lease (gc_synced st) = gs_lease st"
  by (simp_all add: gc_synced_def gc_poison_def release_lease_def gc_swap_def inflight_def)

lemma plain_commit_write:
  assumes p: "gc_plan ops st batch = Inr plan" and f: "bp_frames plan \<noteq> []"
  shows "commit_prepared (gs_file st) plan io = (Raise x, fl) \<Longrightarrow>
      plain_commit_of ops st batch (gc_poison COMMIT_UNKNOWN batch (gc_written fl (map rq_cmd batch) plan st))"
    and "commit_prepared (gs_file st) plan io = (Killed, fl) \<Longrightarrow>
      plain_commit_of ops st batch ((gc_written fl (map rq_cmd batch) plan st)\<lparr>gs_killed := True\<rparr>)"
    and "plain_commit_of ops st batch (gc_poison COMMIT_UNKNOWN batch (gc_written (gs_file st) (map rq_cmd batch) plan st))"
    and "commit_prepared (gs_file st) plan io = (Ret True, fl) \<Longrightarrow>
      plain_commit_of ops st batch (gc_answer (finish_receipts (bp_receipts plan) batch)
        (gc_swap True plan (gc_written fl (map rq_cmd batch) plan st)))"
    and "commit_prepared (gs_file st) plan io = (Ret True, fl) \<Longrightarrow>
      plain_commit_of ops st batch (gc_poison COMMIT_UNKNOWN batch (gc_written fl (map rq_cmd batch) plan st))"
    and "commit_prepared (gs_file st) plan io = (Ret True, fl) \<Longrightarrow>
      plain_commit_of ops st batch (gc_synced (gc_poison COMMIT_UNKNOWN batch (gc_written fl (map rq_cmd batch) plan st)))"
    and "commit_prepared (gs_file st) plan io = (Ret True, fl) \<Longrightarrow>
      plain_commit_of ops st batch (gc_synced ((gc_written fl (map rq_cmd batch) plan st)\<lparr>gs_killed := True\<rparr>))"
proof -
  note s = commit_prepared_scripts [OF f]
  have c: "gc_commit ops st batch io' = (case commit_prepared (gs_file st) plan io' of
             (Killed, fl) \<Rightarrow> (gc_written fl (map rq_cmd batch) plan st)\<lparr>gs_killed := True\<rparr>
           | (Raise e, fl) \<Rightarrow> gc_poison COMMIT_UNKNOWN batch (gc_written fl (map rq_cmd batch) plan st)
           | (Ret durable, fl) \<Rightarrow>
               gc_answer (finish_receipts (bp_receipts plan) batch)
                 (gc_swap durable plan (gc_written fl (map rq_cmd batch) plan st)))" for io'
    using p by (simp add: gc_commit_def)
  show "commit_prepared (gs_file st) plan io = (Raise x, fl) \<Longrightarrow>
      plain_commit_of ops st batch (gc_poison COMMIT_UNKNOWN batch (gc_written fl (map rq_cmd batch) plan st))"
    unfolding plain_commit_of_def by (intro disjI1 exI [of _ io]) (simp add: c)
  show "commit_prepared (gs_file st) plan io = (Killed, fl) \<Longrightarrow>
      plain_commit_of ops st batch ((gc_written fl (map rq_cmd batch) plan st)\<lparr>gs_killed := True\<rparr>)"
    unfolding plain_commit_of_def by (intro disjI1 exI [of _ io]) (simp add: c)
  show "plain_commit_of ops st batch (gc_poison COMMIT_UNKNOWN batch (gc_written (gs_file st) (map rq_cmd batch) plan st))"
    unfolding plain_commit_of_def
    by (intro disjI1 exI [of _ "\<lparr>io_writes = [WriteRaises], io_fsync = Some False\<rparr>"]) (simp add: c s(1))
  show "commit_prepared (gs_file st) plan io = (Ret True, fl) \<Longrightarrow>
      plain_commit_of ops st batch (gc_answer (finish_receipts (bp_receipts plan) batch)
        (gc_swap True plan (gc_written fl (map rq_cmd batch) plan st)))"
    unfolding plain_commit_of_def by (intro disjI1 exI [of _ io]) (simp add: c)
  show "commit_prepared (gs_file st) plan io = (Ret True, fl) \<Longrightarrow>
      plain_commit_of ops st batch (gc_poison COMMIT_UNKNOWN batch (gc_written fl (map rq_cmd batch) plan st))"
    unfolding plain_commit_of_def by (intro disjI1 exI [of _ "io\<lparr>io_fsync := Some False\<rparr>"]) (simp add: c s(2))
  show "commit_prepared (gs_file st) plan io = (Ret True, fl) \<Longrightarrow>
      plain_commit_of ops st batch (gc_synced (gc_poison COMMIT_UNKNOWN batch (gc_written fl (map rq_cmd batch) plan st)))"
    unfolding plain_commit_of_def by (rule disjI1, rule exI [of _ "io\<lparr>io_fsync := Some False\<rparr>"], rule disjI2, simp add: c s(2))
  show "commit_prepared (gs_file st) plan io = (Ret True, fl) \<Longrightarrow>
      plain_commit_of ops st batch (gc_synced ((gc_written fl (map rq_cmd batch) plan st)\<lparr>gs_killed := True\<rparr>))"
    unfolding plain_commit_of_def by (rule disjI1, rule exI [of _ "io\<lparr>io_fsync := None\<rparr>"], rule disjI2, simp add: c s(3))
qed

text \<open>A commit either leaves the publication store alone, or it published a durable batch, whatever
  came of it.\<close>

lemma gc_commit_published_cases:
  assumes w': "w' = gc_commit_published ops env w batch sc" and du: "gs_durable (pw_gc w) \<le> length (gs_file (pw_gc w))"
    and np: "\<forall>plan. gc_plan ops (pw_gc w) batch = Inr plan \<longrightarrow> applied_receipts plan = 0 \<longrightarrow>
      bp_frames plan = [] \<and> plan_log (map rq_cmd batch) (bp_receipts plan) = []"
  obtains (quiet) x where "pw_store w' = pw_store w" "pw_cursor w' = pw_cursor w" "plain_commit_of ops (pw_gc w) batch (pw_gc w')"
      "gs_log (pw_gc w') = gs_log (pw_gc w) @ x" "x = [] \<or> gs_poisoned (pw_gc w') \<or> gs_killed (pw_gc w')"
      "gs_published (pw_gc w') = gs_published (pw_gc w)" "gs_durable (pw_gc w) \<le> gs_durable (pw_gc w')"
  | (attempt) plan c i fl dp out st where "gc_plan ops (pw_gc w) batch = Inr plan" "pw_cursor w = Some c"
      "check_batch_preconditions (Some c) (gs_snapshot (pw_gc w)) plan"
      "prepare_batch_publication (Some c) plan (pe_keyring env) = Some (PB_PUBLISHED, Some i)" "bp_frames plan \<noteq> []"
      "commit_prepared (gs_file (pw_gc w)) plan (cs_io sc) = (Ret True, fl)" "dp_byte_length dp = int (length fl)"
      "publish_batch env (pw_store w) c i dp (cs_stat sc) (gs_lease (pw_gc w)) (cs_publish sc) (cs_reopen sc) = (out, st)"
      "pw_store w' = st" "plain_commit_of ops (pw_gc w) batch (pw_gc w')"
      "gs_log (pw_gc w') = gs_log (pw_gc w) @ plan_log (map rq_cmd batch) (bp_receipts plan)"
      "gs_durable (pw_gc w') = length fl"
      "(gs_poisoned (pw_gc w') \<or> gs_killed (pw_gc w')) \<and> gs_published (pw_gc w') = gs_published (pw_gc w)
       \<or> (\<exists>rst nc. out = PRet (rst, nc) \<and> (rst = PB_PUBLISHED \<or> rst = PB_ALREADY_PUBLISHED) \<and> pw_cursor w' = nc
            \<and> gs_published (pw_gc w') = length (gs_log (pw_gc w'))
            \<and> gs_poisoned (pw_gc w') = gs_poisoned (pw_gc w) \<and> gs_killed (pw_gc w') = gs_killed (pw_gc w))"
proof -
  let ?st = "pw_gc w"
  note defs = gc_poison_def release_lease_def gc_written_def gc_synced_def gc_answer_def gc_swap_def
  show ?thesis
  proof (cases "gc_plan ops ?st batch")
    case (Inl e)
    then have e: "w' = w\<lparr>pw_gc := ?st\<lparr>gs_worker_dead := True\<rparr>\<rparr>" using w' by (simp add: gc_commit_published_def)
    have "plain_commit_of ops ?st batch (?st\<lparr>gs_worker_dead := True\<rparr>)"
      using Inl unfolding plain_commit_of_def by (auto simp: gc_commit_def)
    then show ?thesis by (intro quiet [of "[]"]) (simp_all add: e)
  next
    case (Inr plan)
    let ?new = "plan_log (map rq_cmd batch) (bp_receipts plan)"
    let ?wr = "\<lambda>fl. gc_written fl (map rq_cmd batch) plan ?st"
    have refused: ?thesis if "w' = w\<lparr>pw_gc := gc_poison NOT_ACCEPTED batch ?st\<rparr>"
      by (rule quiet [of "[]"]) (simp_all add: that plain_commit_of_def, simp_all add: defs)
    have dead: ?thesis if "w' = w\<lparr>pw_gc := ?st\<lparr>gs_worker_dead := True\<rparr>\<rparr>"
      by (rule quiet [of "[]"]) (simp_all add: that plain_commit_of_def)
    show ?thesis
    proof (cases "check_batch_preconditions (pw_cursor w) (gs_snapshot ?st) plan")
      case False
      then show ?thesis using w' Inr refused by (simp add: gc_commit_published_def)
    next
      case pre: True
      then obtain c where c: "pw_cursor w = Some c"
        by (auto simp: check_batch_preconditions_def split: option.splits)
      have pre': "check_batch_preconditions (Some c) (gs_snapshot ?st) plan" using pre c by simp
      then have pre2: "check_batch_preconditions (Some c) (gs_snapshot ?st) plan = True" by simp
      note step = w' [unfolded gc_commit_published_def Let_def Inr sum.case c pre2 not_True_eq_False if_False]
      show ?thesis
      proof (cases "prepare_batch_publication (Some c) plan (pe_keyring env)")
        case None
        then show ?thesis using step dead by simp
      next
        case (Some pr)
        obtain ps io where pr: "pr = (ps, io)" by fastforce
        consider (none) "ps = PB_NO_PUBLICATION_REQUIRED" | (some) i where "ps = PB_PUBLISHED" "io = Some i"
          | (other) "ps \<noteq> PB_NO_PUBLICATION_REQUIRED" "ps = PB_PUBLISHED \<longrightarrow> io = None" by (cases io) auto
        then show ?thesis
        proof cases
          case other
          then have "w' = w\<lparr>pw_gc := gc_poison NOT_ACCEPTED batch ?st\<rparr>"
            using step Some pr by (cases ps; cases io) simp_all
          then show ?thesis by (rule refused)
        next
          case none
          have e: "w' = w\<lparr>pw_gc := gc_answer (finish_receipts (bp_receipts plan) batch) ?st\<rparr>"
            using step Some pr none by simp
          have "applied_receipts plan = 0"
            using Some pr none by (auto simp: prepare_batch_publication_def Let_def split: if_splits option.splits)
          with np Inr have z: "bp_frames plan = []" "?new = []" by simp_all
          have "gc_commit ops ?st batch sc' = gc_answer (finish_receipts (bp_receipts plan) batch) ?st" for sc'
            using Inr z by (simp add: gc_commit_def commit_prepared_def gc_written_def gc_swap_def)
          then have "plain_commit_of ops ?st batch (gc_answer (finish_receipts (bp_receipts plan) batch) ?st)"
            unfolding plain_commit_of_def by metis
          then show ?thesis
            by (intro quiet [of "[]"]) (simp_all add: e, auto simp: gc_answer_def split: option.splits)
        next
          case some
          have pp: "prepare_batch_publication (Some c) plan (pe_keyring env) = Some (PB_PUBLISHED, Some i)"
            using Some pr some by simp
          obtain r fl where d: "commit_prepared_durable (gs_file ?st) (pw_dev w) (pw_ino w) plan i sc = (r, fl)" by fastforce
          note step' = step [unfolded pp option.case prod.case publish_state.case d option.sel]
          have grown: "gs_durable ?st \<le> length fl'" if "commit_prepared (gs_file ?st) plan io = (r', fl')" for io r' fl'
            using commit_prepared_file [OF that] du by auto
          show ?thesis
            using d
          proof (cases rule: durable_write_cases)
            case empty
            then show ?thesis using step' refused by simp
          next
            case untouched
            note e = step' [unfolded untouched(2,3) out.case prod.case]
            show ?thesis
              by (rule quiet [of ?new]) (use plain_commit_write(3) [OF Inr untouched(1)] in \<open>simp_all add: e\<close>, simp_all add: defs)
          next
            case (raised x)
            note e = step' [unfolded raised(2) out.case prod.case]
            show ?thesis
              by (rule quiet [of ?new]) (use plain_commit_write(1) [OF Inr raised(1,3)] in \<open>simp_all add: e\<close>, simp_all add: defs)
          next
            case killed
            note e = step' [unfolded killed(2) out.case prod.case]
            show ?thesis
              by (rule quiet [of ?new]) (use plain_commit_write(2) [OF Inr killed(1,3)] in \<open>simp_all add: e\<close>, simp_all add: defs)
          next
            case written
            note pw = plain_commit_write [OF Inr written(1)]
            consider (raised) x where "r = Raise x" | (refuted) "r = Ret (None, True)"
              | (proved) dp where "r = Ret (Some dp, True)" "dp_byte_length dp = int (length fl)"
              using written(3) by blast
            then show ?thesis
            proof cases
              case (raised x)
              note e = step' [unfolded raised(1) out.case prod.case]
              show ?thesis
                by (rule quiet [of ?new]) (use pw(5) [OF written(2)] in \<open>simp_all add: e\<close>, simp_all add: defs)
            next
              case refuted
              note e = step' [unfolded refuted(1) out.case prod.case option.case bool.case]
              show ?thesis
                by (rule quiet [of ?new]) (use pw(6) [OF written(2)] grown [OF written(2)] in \<open>simp_all add: e\<close>, simp_all add: defs)
            next
              case proved
              note e = step' [unfolded proved(1) out.case prod.case option.case, unfolded publish_and_swap_def]
              show ?thesis
              proof (cases "cs_kill_durable sc")
                case True
                then have e: "w' = w\<lparr>pw_gc := (gc_synced (?wr fl))\<lparr>gs_killed := True\<rparr>\<rparr>" using e by simp
                show ?thesis
                  by (rule quiet [of ?new]) (use pw(7) [OF written(2)] grown [OF written(2)] in \<open>simp_all add: e\<close>, simp_all add: defs)
              next
                case False
                obtain out st where pb: "publish_batch env (pw_store w) c i dp (cs_stat sc) (gs_lease ?st) (cs_publish sc) (cs_reopen sc) = (out, st)"
                  by fastforce
                have lease: "gs_lease (gc_synced (?wr fl)) = gs_lease ?st" by (simp add: gc_written_def)
                note e = e [unfolded lease pb prod.case] False
                let ?poison = "w\<lparr>pw_gc := gc_poison COMMIT_UNKNOWN batch (gc_synced (?wr fl)), pw_store := st\<rparr>"
                let ?kill = "w\<lparr>pw_gc := (gc_synced (?wr fl))\<lparr>gs_killed := True\<rparr>, pw_store := st\<rparr>"
                have poison: ?thesis if "w' = ?poison"
                  by (rule attempt [OF Inr c pre' pp written(1,2) proved(2) pb]) (use that pw(6) [OF written(2)] in \<open>simp_all\<close>, simp_all add: defs)
                have kill: ?thesis if "w' = ?kill"
                  by (rule attempt [OF Inr c pre' pp written(1,2) proved(2) pb]) (use that pw(7) [OF written(2)] in \<open>simp_all\<close>, simp_all add: defs)
                show ?thesis
                proof (cases out)
                  case (PRaise x)
                  then show ?thesis using e poison by simp
                next
                  case PKilled
                  then show ?thesis using e kill by simp
                next
                  case (PRet res)
                  obtain rst nc where res: "res = (rst, nc)" by fastforce
                  show ?thesis
                  proof (cases "rst \<noteq> PB_PUBLISHED \<and> rst \<noteq> PB_ALREADY_PUBLISHED \<or> cs_adopted sc")
                    case True
                    then have "w' = ?poison" using e PRet res by simp
                    then show ?thesis by (rule poison)
                  next
                    case ok: False
                    then have "w' = w\<lparr>pw_gc := gc_answer (finish_receipts (bp_receipts plan) batch) (gc_swap True plan (gc_synced (?wr fl))),
                        pw_store := st, pw_cursor := nc\<rparr>" using e PRet res by (cases rst) simp_all
                    then have w2: "w' = w\<lparr>pw_gc := gc_answer (finish_receipts (bp_receipts plan) batch) (gc_swap True plan (?wr fl)),
                        pw_store := st, pw_cursor := nc\<rparr>" by simp
                    have "plain_commit_of ops ?st batch (pw_gc w')" using pw(4) [OF written(2)] w2 by simp
                    moreover have "(\<exists>rst nc. out = PRet (rst, nc) \<and> (rst = PB_PUBLISHED \<or> rst = PB_ALREADY_PUBLISHED) \<and> pw_cursor w' = nc
                      \<and> gs_published (pw_gc w') = length (gs_log (pw_gc w'))
                      \<and> gs_poisoned (pw_gc w') = gs_poisoned ?st \<and> gs_killed (pw_gc w') = gs_killed ?st)"
                      using PRet res ok by (auto simp: w2 defs split: option.splits)
                    ultimately show ?thesis
                      by (intro attempt [OF Inr c pre' pp written(1,2) proved(2) pb])
                         (simp_all add: w2, simp_all add: defs split: option.splits)
                  qed
                qed
              qed
            qed
          qed
        qed
      qed
    qed
  qed
qed

subsection \<open>The invariant of the store\<close>

lemma gc_refused_answers:
  assumes a: "gc_answers st" and i: "gs_inflight st = Some batch" and k: "\<not> gs_killed st"
  shows "gc_answers (gc_poison NOT_ACCEPTED batch st)"
proof (rule gc_answersI)
  have b: "inflight st = batch" using i by (simp add: inflight_def)
  have fin: "gs_finished (gc_poison NOT_ACCEPTED batch st) = gs_finished st @ map (rq_finish NOT_ACCEPTED None) batch
      @ map (rq_finish NOT_ACCEPTED None) (gs_queue st)" by (simp add: gc_poison_def release_lease_def)
  have other: "gs_log (gc_poison NOT_ACCEPTED batch st) = gs_log st" "gs_published (gc_poison NOT_ACCEPTED batch st) = gs_published st"
    "gs_queue (gc_poison NOT_ACCEPTED batch st) = []" "inflight (gc_poison NOT_ACCEPTED batch st) = []"
    "gs_ticket (gc_poison NOT_ACCEPTED batch st) = gs_ticket st"
    by (simp_all add: gc_poison_def release_lease_def inflight_def)
  note g = gc_answersD [OF a, unfolded b]
  show "\<exists>q. rq_wal_seq r = Some q \<and> (rq_ticket r, cmd_frame (rq_cmd r) q) \<in> set (published (gc_poison NOT_ACCEPTED batch st))"
    if "r \<in> set (gs_finished (gc_poison NOT_ACCEPTED batch st))" "rq_status r = Some (Logged APPLIED)" for r
    using that g(1) [of r] unfolding fin other by auto
  show "rq_ticket r \<notin> fst ` set (gs_log (gc_poison NOT_ACCEPTED batch st))"
    if r: "r \<in> set (gs_finished (gc_poison NOT_ACCEPTED batch st))" "rq_status r = Some NOT_ACCEPTED" for r
  proof -
    have "r \<in> set (gs_finished st) \<or> rq_ticket r \<in> rq_ticket ` set batch \<or> rq_ticket r \<in> rq_ticket ` set (gs_queue st)"
      using r(1) unfolding fin by auto
    then show ?thesis using g(2) [OF _ r(2)] g(3,4) k unfolding other by blast
  qed
  show "t \<notin> fst ` set (gs_log (gc_poison NOT_ACCEPTED batch st))"
    if "t \<in> rq_ticket ` set (gs_queue (gc_poison NOT_ACCEPTED batch st))" for t using that by (simp add: other)
  show "t \<notin> fst ` set (gs_log (gc_poison NOT_ACCEPTED batch st))"
    if "t \<in> rq_ticket ` set (inflight (gc_poison NOT_ACCEPTED batch st))" for t using that by (simp add: other)
  show "t \<le> int (gs_ticket (gc_poison NOT_ACCEPTED batch st))"
    if "t \<in> fst ` set (gs_log (gc_poison NOT_ACCEPTED batch st))" for t using that g(5) by (simp add: other)
qed

context l0_index
begin

lemma gc_refused_inv:
  assumes i: "gc_inv ops winv tinv key s base h0 fs0 st" and b: "gs_inflight st = Some batch" and k: "\<not> gs_killed st"
  shows "gc_inv ops winv tinv key s base h0 fs0 (gc_poison NOT_ACCEPTED batch st)"
proof -
  have g: "gc_wf st" "gc_log_ok ops winv tinv key s base h0 fs0 st" "gc_quiet st" "gc_answers st"
    using i by (simp_all add: gc_inv_def)
  have "gc_wf (gc_poison NOT_ACCEPTED batch st)" by (rule gc_poison_wf [OF g(1)]) (simp add: b inflight_def)
  moreover have "gc_log_ok ops winv tinv key s base h0 fs0 (gc_poison NOT_ACCEPTED batch st)"
    by (rule gc_log_ok_frame [OF g(2)]) (simp_all add: gc_poison_def release_lease_def)
  moreover have "gc_quiet (gc_poison NOT_ACCEPTED batch st)" by (simp add: gc_quiet_def gc_poison_def release_lease_def)
  ultimately show ?thesis using gc_refused_answers [OF g(4) b k] by (simp add: gc_inv_def)
qed

lemma gc_synced_inv:
  assumes i: "gc_inv ops winv tinv key s base h0 fs0 st"
  shows "gc_inv ops winv tinv key s base h0 fs0 (gc_synced st)"
proof -
  have g: "gc_wf st" "gc_log_ok ops winv tinv key s base h0 fs0 st" "gc_quiet st" "gc_answers st"
    using i by (simp_all add: gc_inv_def)
  have "gc_log_ok ops winv tinv key s base h0 fs0 (gc_synced st)"
    using g(2) unfolding gc_log_ok_def gc_synced_def by auto
  moreover have "gc_answers (gc_synced st)"
    by (rule gc_answers_frame [OF g(4)]) (simp_all add: gc_synced_def inflight_def)
  ultimately show ?thesis using g by (simp add: gc_inv_def gc_synced_def gc_quiet_def)
qed

lemma gc_died_inv:
  assumes i: "gc_inv ops winv tinv key s base h0 fs0 st"
  shows "gc_inv ops winv tinv key s base h0 fs0 (st\<lparr>gs_worker_dead := True\<rparr>)"
proof -
  have g: "gc_wf st" "gc_log_ok ops winv tinv key s base h0 fs0 st" "gc_quiet st" "gc_answers st"
    using i by (simp_all add: gc_inv_def)
  have "gc_log_ok ops winv tinv key s base h0 fs0 (st\<lparr>gs_worker_dead := True\<rparr>)"
    by (rule gc_log_ok_frame [OF g(2)]) simp_all
  moreover have "gc_answers (st\<lparr>gs_worker_dead := True\<rparr>)"
    by (rule gc_answers_frame [OF g(4)]) (simp_all add: inflight_def)
  ultimately show ?thesis using g by (simp add: gc_inv_def gc_quiet_def)
qed

lemma plain_commit_inv:
  assumes c: "plain_commit_of ops st batch st'" and i: "gc_inv ops winv tinv key s base h0 fs0 st"
    and b: "gs_inflight st = Some batch" and r: "seq_room st" and k: "\<not> gs_killed st" "\<not> gs_worker_dead st"
  shows "gc_inv ops winv tinv key s base h0 fs0 st'"
proof -
  have "gc_inv ops winv tinv key s base h0 fs0 (gc_commit ops st batch sc)" for sc
    by (rule gc_step_inv [OF gstep_commit [OF k b r] i])
  then show ?thesis
    using c gc_synced_inv [of key s base h0 fs0] gc_refused_inv [OF i b k(1)] gc_died_inv [OF i]
    unfolding plain_commit_of_def by blast
qed

end

subsection \<open>What the published pointer covers\<close>

lemma read_current_unfaulted:
  "read_current node kr m f = PRet (PS_VALID, x) \<Longrightarrow> read_current node kr m None = PRet (PS_VALID, x)"
  by (auto simp: read_current_def split: option.splits file_node.splits if_splits)

lemma open_cursor_unfaulted:
  "open_published_cursor env st f = PRet (CS_VALID, Some c) \<Longrightarrow> open_published_cursor env st None = PRet (CS_VALID, Some c)"
  using read_current_unfaulted [of "pd_current st" "pe_keyring env" "pe_max_current_bytes env" f]
  by (auto simp: open_published_cursor_def split: pub_out.splits prod.splits publication_state.splits option.splits)

lemma cursor_valid_Some: "open_published_cursor env st f \<noteq> PRet (CS_VALID, None)"
proof -
  have "cursor_of_pointer env st cp \<noteq> (CS_VALID, None)" for cp
    unfolding cursor_of_pointer_def Let_def by (auto split: prod.splits publication_state.splits option.splits if_splits)
  then show ?thesis
    unfolding open_published_cursor_def by (auto split: pub_out.splits prod.splits publication_state.splits option.splits)
qed

lemma open_manifest_valid:
  assumes "open_manifest_object env objs d = Some (blob, man)"
  shows "parse_manifest (Some blob) (pe_keyring env) = (G_VALID, Some man)"
proof -
  let ?g = "get_limited objs d (max_blob_bytes (ge_limits (pe_gen env))) (ge_changed (pe_gen env) d)"
  have ok: "or_ok ?g" and p: "parse_manifest (or_blob ?g) (pe_keyring env) = (G_VALID, Some man)" "blob = the (or_blob ?g)"
    using assms by (auto simp: open_manifest_object_def Let_def split: if_splits prod.splits option.splits generation_state.splits)
  have "or_blob ?g \<noteq> None" using ok by (auto simp: get_limited_def Let_def split: if_splits option.splits)
  then show ?thesis using p by auto
qed

lemma cursor_of_pointer_valid:
  assumes "cursor_of_pointer env st cp = (CS_VALID, Some c)"
  obtains r where "open_publication_record env (pd_objects st) (cp_publication_sha256 cp) = (PS_VALID, Some r)"
    "open_manifest_object env (pd_objects st) (pub_manifest_sha256 r) = Some (pc_manifest_blob c, pc_manifest c)"
    "pub_read_seq r = pc_read_seq c" "check_coverage (pc_manifest c)" "em_segments (pc_manifest c) \<noteq> []"
    "pc_active c = last (em_segments (pc_manifest c))" "wsd_status (pc_active c) = STATE_ACTIVE"
    "pc_read_seq c = em_read_seq (pc_manifest c)" "pc_seal c"
    "pc_proof c = proof_from r (cp_publication_sha256 cp) (pc_active c)"
    "generation_preflight (pc_manifest c) (length (pc_manifest_blob c)) (ge_gen_limits (pe_gen env))"
    "pd_scope st = None \<or> pd_scope st = Some (em_scope_id (pc_manifest c))" "sha256 (pc_manifest_blob c) = pub_manifest_sha256 r"
proof -
  from assms obtain r blob man where r: "open_publication_record env (pd_objects st) (cp_publication_sha256 cp) = (PS_VALID, Some r)"
    "open_manifest_object env (pd_objects st) (pub_manifest_sha256 r) = Some (blob, man)"
    unfolding cursor_of_pointer_def by (auto split: prod.splits publication_state.splits option.splits if_splits)
  show ?thesis
    by (rule that [OF r(1)]) (use assms r(2) in \<open>auto simp: cursor_of_pointer_def r(1) Let_def split: if_splits\<close>)
qed

lemma opened_cursor_ok:
  assumes "open_published_cursor env st f = PRet (CS_VALID, Some c)"
  shows "cursor_ok c" "is_sealed_cursor c" "parse_manifest (Some (pc_manifest_blob c)) (pe_keyring env) = (G_VALID, Some (pc_manifest c))"
proof -
  obtain cp where "cursor_of_pointer env st cp = (CS_VALID, Some c)" using open_cursor_valid [OF assms] by blast
  then obtain r :: publication_record where o: "open_manifest_object env (pd_objects st) (pub_manifest_sha256 r) = Some (pc_manifest_blob c, pc_manifest c)"
    "check_coverage (pc_manifest c)" "em_segments (pc_manifest c) \<noteq> []" "pc_active c = last (em_segments (pc_manifest c))"
    "wsd_status (pc_active c) = STATE_ACTIVE" "pc_read_seq c = em_read_seq (pc_manifest c)" "pc_seal c"
    by (rule cursor_of_pointer_valid) blast
  note p = open_manifest_valid [OF o(1)]
  show "parse_manifest (Some (pc_manifest_blob c)) (pe_keyring env) = (G_VALID, Some (pc_manifest c))" by (rule p)
  show "cursor_ok c" using o parse_manifest_fits(1) [OF p] by (simp add: cursor_ok_def)
  show "is_sealed_cursor c" using o(7) by (simp add: is_sealed_cursor_def)
qed

lemma observe_already:
  assumes "pub_observe env st expected d man f = PRet (Inl (PublishResult PB_ALREADY_PUBLISHED q))"
  shows "\<exists>cp r. read_current (pd_current st) (pe_keyring env) (pe_max_current_bytes env) f = PRet (PS_VALID, Some cp)
    \<and> open_publication_record env (pd_objects st) (cp_publication_sha256 cp) = (PS_VALID, Some r) \<and> pub_read_seq r = em_read_seq man"
  using assms unfolding pub_observe_def
  by (auto split: pub_out.splits prod.splits publication_state.splits option.splits if_splits)

lemma publish_impl_already:
  assumes p: "publish_impl env st blob expected key_id authority purpose physical fault = (PRet res, st')"
    and a: "pres_state res = PB_ALREADY_PUBLISHED"
  shows "st' = st \<and> (\<exists>man cp r. parse_manifest (Some blob) (pe_keyring env) = (G_VALID, Some man)
    \<and> read_current (pd_current st) (pe_keyring env) (pe_max_current_bytes env) None = PRet (PS_VALID, Some cp)
    \<and> open_publication_record env (pd_objects st) (cp_publication_sha256 cp) = (PS_VALID, Some r) \<and> pub_read_seq r = em_read_seq man)"
proof -
  let ?f = "case fault of Some (PF_Current f) \<Rightarrow> Some f | _ \<Rightarrow> None"
  have cm: "pub_commit st key blob r active fault = (PRet res, st') \<Longrightarrow> False" for key r active
    using pub_commit_cases [of st key blob r active fault "PRet res" st'] a by auto
  have au: "pub_authorize env st authority pp prev man \<noteq> Some PB_ALREADY_PUBLISHED" for pp prev man
    by (auto simp: pub_authorize_def split: option.splits transition_state.splits if_splits)
  have ca: "pub_check_candidate env st blob physical \<noteq> Inr (Inl PB_ALREADY_PUBLISHED)"
    by (auto simp: pub_check_candidate_def split: sum.splits prod.splits option.splits generation_state.splits if_splits)
  obtain man q where o: "pub_check_candidate env st blob physical = Inr (Inr man)" "st' = st"
    "pub_observe env st expected (sha256 blob) man ?f = PRet (Inl (PublishResult PB_ALREADY_PUBLISHED q))"
  proof (cases "dget (pe_keyring env) key_id")
    case None
    then show ?thesis using p a by (auto simp: publish_impl_def)
  next
    case (Some key)
    note k = Some
    show ?thesis
    proof (cases "\<exists>man. pub_check_candidate env st blob physical = Inr (Inr man) \<and> fault \<noteq> Some PF_Mkdir \<and> fault \<noteq> Some PF_Lock")
      case False
      then show ?thesis using p a k ca unfolding publish_impl_def by (auto split: sum.splits if_splits)
    next
      case True
      then obtain man where c: "pub_check_candidate env st blob physical = Inr (Inr man)" and f: "fault \<noteq> Some PF_Mkdir" "fault \<noteq> Some PF_Lock"
        by blast
      note p' = p [unfolded publish_impl_def k option.case c sum.case]
      show ?thesis
      proof (cases "pub_observe env st expected (sha256 blob) man ?f")
        case (PRet x)
        show ?thesis
        proof (cases x)
          case (Inl y)
          then have e: "res = y" "st' = st" using p' PRet f by simp_all
          then have "y = PublishResult PB_ALREADY_PUBLISHED (pres_proof y)" using a by simp
          then show ?thesis using that [OF c e(2), of "pres_proof y"] PRet Inl by simp
        next
          case (Inr y)
          then show ?thesis using p' PRet f a cm au by (cases y) (auto split: option.splits)
        qed
      qed (use p' f in simp_all)
    qed
  qed
  show ?thesis
    using o(2) candidate_parsed(1) [OF o(1)] observe_already [OF o(3)] read_current_unfaulted by blast
qed

text \<open>A batch published from the current cursor: either nothing was shown and the batch is not
  answered, or the pointer opens to the advanced manifest, whatever was answered.\<close>

lemma publish_batch_shows:
  assumes e: "env_ok env" and z: "dget (pd_objects st) ZERO32 = None"
    and cur: "open_published_cursor env st None = PRet (CS_VALID, Some c)"
    and pr: "prepare_batch_publication (Some c) plan (pe_keyring env) = Some (PB_PUBLISHED, Some i)"
    and room: "\<And>m. parse_manifest (Some (bi_candidate_manifest_blob i)) (pe_keyring env) = (G_VALID, Some m) \<Longrightarrow>
      publishable env st (bi_candidate_manifest_blob i) m"
    and pb: "publish_batch env st c i dp stat lease fault rf = (out, st')"
  shows "grows st st' \<and>
    (pd_current st' = pd_current st \<and> pd_synced st' = pd_synced st
       \<and> (\<forall>nc. out \<noteq> PRet (PB_PUBLISHED, nc) \<and> out \<noteq> PRet (PB_ALREADY_PUBLISHED, nc))
     \<or> (\<exists>c'. open_published_cursor env st' None = PRet (CS_VALID, Some c')
          \<and> same_manifest (pc_manifest c') (advanced_manifest (pc_manifest c) (pc_active c) (bp_candidate_head plan) (applied_receipts plan))
          \<and> pd_synced st' \<in> {pd_synced st, pd_current st'}
          \<and> (\<forall>rst nc. out = PRet (rst, nc) \<and> (rst = PB_PUBLISHED \<or> rst = PB_ALREADY_PUBLISHED) \<longrightarrow>
               nc = Some c' \<and> pd_synced st' = pd_current st')))"
proof -
  let ?blob = "bi_candidate_manifest_blob i"
  let ?adv = "advanced_manifest (pc_manifest c) (pc_active c) (bp_candidate_head plan) (applied_receipts plan)"
  note co = opened_cursor_ok [OF cur]
  obtain adv where a: "advance_batch_manifest c (bp_candidate_head plan) (applied_receipts plan) (pe_keyring env) = Some adv"
      "av_state adv = AV_OK" and b: "?blob = the (av_manifest_blob adv)"
    by (rule prepare_batchE [OF pr]) blast
  obtain blob m0 where m0: "av_manifest_blob adv = Some blob"
      "parse_manifest (Some blob) (pe_keyring env) = (G_VALID, Some (with_order BASE_KINDS m0))"
      "same_manifest (with_order BASE_KINDS m0) m0" "m0 = ?adv" "0 < applied_receipts plan"
      "em_read_seq m0 = em_read_seq (pc_manifest c) + int (applied_receipts plan)"
    by (rule advance_is_batch [OF a co(1)]) blast
  have bb: "?blob = blob" using b m0(1) by simp
  have rd: "em_read_seq (with_order BASE_KINDS m0) \<noteq> pc_read_seq c"
    using m0(5,6) co(1) by (simp add: with_order_def cursor_ok_def)
  show ?thesis
    using pb
  proof (cases rule: publish_batch_cases)
    case 1
    then show ?thesis by simp
  next
    case (2 digest st_size res)
    have na: "out \<noteq> PRet (PB_ALREADY_PUBLISHED, nc)" for nc
    proof
      assume "out = PRet (PB_ALREADY_PUBLISHED, nc)"
      then obtain x where x: "res = PRet x" "pres_state x = PB_ALREADY_PUBLISHED" using 2(9) by blast
      obtain man cp r where r: "parse_manifest (Some blob) (pe_keyring env) = (G_VALID, Some man)"
        "read_current (pd_current st) (pe_keyring env) (pe_max_current_bytes env) None = PRet (PS_VALID, Some cp)"
        "open_publication_record env (pd_objects st) (cp_publication_sha256 cp) = (PS_VALID, Some r)" "pub_read_seq r = em_read_seq man"
        using publish_impl_already [OF 2(6) [unfolded x(1)] x(2)] unfolding bb by blast
      have cv: "cursor_of_pointer env st cp = (CS_VALID, Some c)" using cur by (simp add: open_published_cursor_def r(2))
      have "pub_read_seq r = pc_read_seq c"
        by (rule cursor_of_pointer_valid [OF cv]) (use r(3) in simp)
      then show False using r(1,4) m0(2) rd by simp
    qed
    note ends = publish_impl_ends [OF 2(6)]
    show ?thesis
    proof (cases "pd_current st' = pd_current st \<and> pd_synced st' = pd_synced st \<and> (\<forall>q. res \<noteq> PRet (PublishResult PB_PUBLISHED q))")
      case True
      then show ?thesis using ends 2(7) na by blast
    next
      case False
      then have g: "grows st st'" and d: "published_end env st ?blob (pp_publication_sha256 (pc_proof c)) (bi_key_id i) res st'"
        using ends by blast+
      from published_opens [OF e z g room d] obtain c' cur' where
        o: "pd_current st' = Some (RegularFile cur')" "pd_synced st' \<in> {pd_synced st, Some (RegularFile cur')}"
          "open_published_cursor env st' None = PRet (CS_VALID, Some c')" "pc_manifest_blob c' = ?blob"
          "\<forall>x. res = PRet x \<longrightarrow> x = PublishResult PB_PUBLISHED (Some (pc_proof c')) \<and> pd_synced st' = pd_current st'"
        by blast
      have "pc_manifest c' = with_order BASE_KINDS m0" using opened_cursor_ok(3) [OF o(3)] o(4) m0(2) bb by simp
      then have sm: "same_manifest (pc_manifest c') ?adv" using m0(3,4) by simp
      have ans: "nc = Some c' \<and> pd_synced st' = pd_current st'" if a: "out = PRet (PB_PUBLISHED, nc)" for nc
      proof -
        obtain q where "res = PRet (PublishResult PB_PUBLISHED q)" using 2(7) [OF a] by blast
        then have s: "pd_synced st' = pd_current st'" using o(5) by blast
        have op: "open_published_cursor env st' rf = PRet (CS_VALID, nc)" by (rule 2(8) [OF a])
        have "nc = Some c'"
        proof (cases nc)
          case None
          then show ?thesis using op cursor_valid_Some by simp
        next
          case (Some y)
          then show ?thesis using open_cursor_unfaulted [of env st' rf y] op o(3) by simp
        qed
        then show ?thesis using s by blast
      qed
      show ?thesis using g o(1-3) sm ans na by (intro conjI disjI2 exI [of _ c']) auto
    qed
  qed
qed

subsection \<open>Runs of a published writer\<close>

text \<open>The cursor describes exactly the image of the frames \<open>fs\<close> in the ACTIVE file.\<close>

definition covers :: "bytes \<Rightarrow> seg_id \<Rightarrow> published_cursor \<Rightarrow> wframe list \<Rightarrow> bool" where
  "covers key s c fs \<longleftrightarrow> cursor_ok c \<and> em_scope_id (pc_manifest c) = sg_scope s
     \<and> sd_segment_id (pc_active c) = sg_segment s \<and> sd_first_seq (pc_active c) = sg_first s
     \<and> wsd_durable_prefix_length (pc_active c) = int (length (wal_image key s fs))
     \<and> wsd_durable_prefix_sha256 (pc_active c) = sha256 (wal_image key s fs)
     \<and> pc_read_seq c = next_seq_of s fs - 1"

lemma covers_advanced:
  assumes c: "covers key s c fs" and c': "cursor_ok c'"
    and sm: "same_manifest (pc_manifest c') (advanced_manifest (pc_manifest c) (pc_active c) (head_of key s (fs @ gs)) n)"
  shows "covers key s c' (fs @ gs)"
proof -
  let ?h = "head_of key s (fs @ gs)"
  have "pc_active c' = last (em_segments (pc_manifest c'))" "pc_read_seq c' = em_read_seq (pc_manifest c')"
    using c' by (simp_all add: cursor_ok_def)
  moreover have "last (em_segments (pc_manifest c')) = (pc_active c)\<lparr>sd_record_count := sd_record_count (pc_active c) + n,
      wsd_durable_prefix_length := int (wh_byte_length ?h), wsd_durable_prefix_sha256 := wh_prefix_digest ?h\<rparr>"
    using sm by (simp add: same_manifest_def advanced_manifest_def)
  moreover have "em_read_seq (pc_manifest c') = wh_durable_through_seq ?h" "em_scope_id (pc_manifest c') = em_scope_id (pc_manifest c)"
    using sm by (simp_all add: same_manifest_def advanced_manifest_def)
  ultimately show ?thesis using c c' by (simp add: covers_def head_of_def)
qed

text \<open>All the frames of a store that started with \<open>fs0\<close>, and a pointer that covers the first \<open>m\<close>.\<close>

definition all_frames :: "wframe list \<Rightarrow> ('w, 't) gc_store \<Rightarrow> wframe list" where
  "all_frames fs0 st = fs0 @ map snd (gs_log st)"

definition pointer_at ::
  "pub_env \<Rightarrow> bytes \<Rightarrow> seg_id \<Rightarrow> pub_store \<Rightarrow> file_node option \<Rightarrow> nat \<Rightarrow> wframe list \<Rightarrow> nat \<Rightarrow> bool" where
  "pointer_at env key s st node durable fs m \<longleftrightarrow>
     m \<le> length fs \<and> length (wal_image key s (take m fs)) \<le> durable \<and>
     (\<exists>c. reopen env st node = PRet (CS_VALID, Some c) \<and> covers key s c (take m fs))"

lemma pointer_at_mono:
  assumes "pointer_at env key s st node du fs m" "grows st st'" "du \<le> du'"
  shows "pointer_at env key s st' node du' (fs @ x) m"
  using assms reopen_grows [OF assms(2)] by (fastforce simp: pointer_at_def)

text \<open>The pointer shown covers every published frame, the synced one every frame answered: at least
  \<open>m0\<close>, and all the published ones once this life has published.\<close>

definition pw_pointers ::
  "pub_env \<Rightarrow> bytes \<Rightarrow> seg_id \<Rightarrow> nat \<Rightarrow> nat \<Rightarrow> pub_store \<Rightarrow> nat \<Rightarrow> nat \<Rightarrow> wframe list \<Rightarrow> nat \<Rightarrow> nat \<Rightarrow> bool" where
  "pw_pointers env key s n0 m0 st durable pub fs mc ms \<longleftrightarrow>
     m0 \<le> ms \<and> ms \<le> mc \<and> n0 + pub \<le> mc \<and> (0 < pub \<longrightarrow> n0 + pub \<le> ms) \<and>
     pointer_at env key s st (pd_current st) durable fs mc \<and> pointer_at env key s st (pd_synced st) durable fs ms"

lemma pointer_at_le: "pointer_at env key s st node du fs m \<Longrightarrow> m \<le> length fs"
  by (simp add: pointer_at_def)

lemma pw_pointers_grow:
  assumes p: "pw_pointers env key s n0 m0 st du pub fs mc ms" and g: "grows st st'" and d: "du \<le> du'"
    and e: "pd_current st' = pd_current st" "pd_synced st' = pd_synced st"
  shows "pw_pointers env key s n0 m0 st' du' pub (fs @ x) mc ms"
  using p pointer_at_mono [OF _ g d] unfolding pw_pointers_def e by blast

lemma pw_pointers_shown:
  assumes p: "pw_pointers env key s n0 m0 st du pub fs mc ms" and g: "grows st st'" and d: "du \<le> du'"
    and at: "pointer_at env key s st' (pd_current st') du' (fs @ x) (length (fs @ x))"
    and sy: "pd_synced st' \<in> {pd_synced st, pd_current st'}"
    and b: "n0 + pub' \<le> length (fs @ x)" "pub' = pub \<or> pd_synced st' = pd_current st'"
  shows "\<exists>mc' ms'. pw_pointers env key s n0 m0 st' du' pub' (fs @ x) mc' ms'"
proof -
  have q: "m0 \<le> ms" "ms \<le> mc" "0 < pub \<longrightarrow> n0 + pub \<le> ms" "pointer_at env key s st (pd_synced st) du fs ms"
    using p unfolding pw_pointers_def by blast+
  have ms: "ms \<le> length fs" by (rule pointer_at_le [OF q(4)])
  show ?thesis
  proof (cases "pd_synced st' = pd_current st'")
    case True
    have "pw_pointers env key s n0 m0 st' du' pub' (fs @ x) (length (fs @ x)) (length (fs @ x))"
      unfolding pw_pointers_def using at q(1) ms b(1) True by simp
    then show ?thesis by blast
  next
    case False
    then have "pd_synced st' = pd_synced st" "pub' = pub" using sy b(2) by blast+
    then have "pw_pointers env key s n0 m0 st' du' pub' (fs @ x) (length (fs @ x)) ms"
      unfolding pw_pointers_def using at q(1,3) pointer_at_mono [OF q(4) g d, of x] ms b(1) by simp
    then show ?thesis by blast
  qed
qed

definition pw_inv ::
  "('w, 'wb, 't, 'tb) index_ops \<Rightarrow> ('w \<Rightarrow> bool) \<Rightarrow> ('t \<Rightarrow> bool) \<Rightarrow> bytes \<Rightarrow> seg_id \<Rightarrow> base_view \<Rightarrow> history \<Rightarrow> wframe list
     \<Rightarrow> nat \<Rightarrow> pub_env \<Rightarrow> ('w, 't) pub_writer \<Rightarrow> bool" where
  "pw_inv ops wi ti key s base h0 fs0 m0 env w \<longleftrightarrow>
     (let st = pw_gc w; fs = all_frames fs0 st
      in gc_inv ops wi ti key s base h0 fs0 st \<and>
         (\<exists>mc ms. pw_pointers env key s (length fs0) m0 (pw_store w) (gs_durable st) (gs_published st) fs mc ms) \<and>
         (\<not> gs_poisoned st \<and> \<not> gs_killed st \<longrightarrow>
            (\<exists>c. pw_cursor w = Some c \<and> open_published_cursor env (pw_store w) None = PRet (CS_VALID, Some c)
                 \<and> covers key s c (fs0 @ map snd (published st)))))"

text \<open>The steps of the clients, and those of the worker; a batch has room when its candidate stays
  within the generation limits (past them, see \<open>batch_over_limits\<close>) and no stored object has the
  digest zero.\<close>

inductive gc_client_step :: "('w, 't) gc_store \<Rightarrow> ('w, 't) gc_store \<Rightarrow> bool" where
  gcl_submit: "\<not> gs_killed st \<Longrightarrow> gc_submit st op fid ver v oid = (r, st') \<Longrightarrow> gc_client_step st st'"
| gcl_cancel: "\<not> gs_killed st \<Longrightarrow> gc_cancel st t = (b, st') \<Longrightarrow> gc_client_step st st'"
| gcl_timeout: "\<not> gs_killed st \<Longrightarrow> gc_resolve st t = (a, st') \<Longrightarrow> gc_client_step st st'"
| gcl_stop: "\<not> gs_killed st \<Longrightarrow> gc_client_step st (gc_stop st)"
| gcl_fence: "\<not> gs_killed st \<Longrightarrow> gc_fence st = Inr st' \<Longrightarrow> gc_client_step st st'"
| gcl_claim: "\<not> gs_killed st \<Longrightarrow> \<not> gs_worker_dead st \<Longrightarrow> gs_inflight st = None \<Longrightarrow> gs_queue st \<noteq> [] \<Longrightarrow>
    gc_client_step st (gc_claim st)"
| gcl_kill: "gc_client_step st (st\<lparr>gs_killed := True\<rparr>)"

definition pw_room :: "('w, 'wb, 't, 'tb) index_ops \<Rightarrow> pub_env \<Rightarrow> ('w, 't) pub_writer \<Rightarrow> request list \<Rightarrow> bool" where
  "pw_room ops env w batch \<longleftrightarrow> seq_room (pw_gc w) \<and> dget (pd_objects (pw_store w)) ZERO32 = None \<and>
     (\<forall>plan i m. gc_plan ops (pw_gc w) batch = Inr plan \<longrightarrow>
        prepare_batch_publication (pw_cursor w) plan (pe_keyring env) = Some (PB_PUBLISHED, Some i) \<longrightarrow>
        parse_manifest (Some (bi_candidate_manifest_blob i)) (pe_keyring env) = (G_VALID, Some m) \<longrightarrow>
        publishable env (pw_store w) (bi_candidate_manifest_blob i) m)"

inductive pw_step ::
  "('w, 'wb, 't, 'tb) index_ops \<Rightarrow> pub_env \<Rightarrow> ('w, 't) pub_writer \<Rightarrow> ('w, 't) pub_writer \<Rightarrow> bool"
  for ops :: "('w, 'wb, 't, 'tb) index_ops" and env :: pub_env where
  pws_client: "gc_client_step (pw_gc w) st' \<Longrightarrow> pw_step ops env w (w\<lparr>pw_gc := st'\<rparr>)"
| pws_commit: "\<not> gs_killed (pw_gc w) \<Longrightarrow> \<not> gs_worker_dead (pw_gc w) \<Longrightarrow> gs_inflight (pw_gc w) = Some batch \<Longrightarrow>
    pw_room ops env w batch \<Longrightarrow> pw_step ops env w (gc_commit_published ops env w batch sc)"

inductive pw_run ::
  "('w, 'wb, 't, 'tb) index_ops \<Rightarrow> pub_env \<Rightarrow> ('w, 't) pub_writer \<Rightarrow> ('w, 't) pub_writer \<Rightarrow> bool"
  for ops :: "('w, 'wb, 't, 'tb) index_ops" and env :: pub_env where
  pwr_refl: "pw_run ops env w w"
| pwr_step: "pw_run ops env w w' \<Longrightarrow> pw_step ops env w' w'' \<Longrightarrow> pw_run ops env w w''"

lemma client_step_gc: "gc_client_step st st' \<Longrightarrow> gc_step ops st st'"
  by (induction rule: gc_client_step.induct) (auto intro: gc_step.intros)

lemma client_step_log:
  assumes "gc_client_step st st'"
  shows "gs_log st' = gs_log st \<and> gs_published st' = gs_published st \<and> gs_durable st' = gs_durable st \<and>
    gs_poisoned st' = gs_poisoned st \<and> (gs_killed st \<longrightarrow> gs_killed st') \<and> gs_file st' = gs_file st"
  using assms
  by cases (auto simp: gc_submit_def gc_cancel_def gc_resolve_def gc_stop_def gc_fence_def withdraw_def Let_def
      split: if_splits option.splits)

lemma plan_log_none: "applied_receipts plan = 0 \<Longrightarrow> plan_log cmds (bp_receipts plan) = []"
proof -
  assume "applied_receipts plan = 0"
  then have "\<forall>r \<in> set (bp_receipts plan). pr_status r \<noteq> Logged APPLIED" by (simp add: applied_receipts_def filter_empty_conv)
  then have "filter (\<lambda>(c, r). pr_status r = Logged APPLIED) (zip cmds (bp_receipts plan)) = []"
    by (auto simp: filter_empty_conv dest: set_zip_rightD)
  then show ?thesis by (simp add: plan_log_def)
qed

lemma gc_alive_published:
  assumes "gc_inv ops wi ti key s base h0 fs0 st" "gs_inflight st = Some batch" "\<not> gs_killed st"
  shows "\<not> gs_poisoned st" "unpublished st = []" "published st = gs_log st" "gs_published st = length (gs_log st)"
    "gs_durable st \<le> length (gs_file st)" "gs_file st = wal_image key s (all_frames fs0 st)"
proof -
  have l: "gc_log_ok ops wi ti key s base h0 fs0 st" and q: "gc_quiet st" using assms(1) by (simp_all add: gc_inv_def)
  show p: "\<not> gs_poisoned st" using q assms(2) by (auto simp: gc_quiet_def)
  show u: "unpublished st = []" using l p assms(3) by (auto simp: gc_log_ok_def)
  then show pub: "published st = gs_log st" by simp
  show "gs_published st = length (gs_log st)" using u l by (simp add: gc_log_ok_def)
  show "gs_durable st \<le> length (gs_file st)" using l by (simp add: gc_log_ok_def)
  obtain k where "gs_file st = wal_image key s (fs0 @ map snd (published st)) @ take k (frames_bytes key (sg_scope s) (sg_segment s) (map snd (unpublished st)))"
    using l unfolding gc_log_ok_def by blast
  then show "gs_file st = wal_image key s (all_frames fs0 st)" unfolding pub u all_frames_def by simp
qed

context l0_index
begin

lemma pw_client_inv:
  assumes i: "pw_inv ops winv tinv key s base h0 fs0 m0 env w" and c: "gc_client_step (pw_gc w) st'"
  shows "pw_inv ops winv tinv key s base h0 fs0 m0 env (w\<lparr>pw_gc := st'\<rparr>)"
proof -
  note l = client_step_log [OF c]
  have g: "gc_inv ops winv tinv key s base h0 fs0 st'"
    using i gc_step_inv [OF client_step_gc [OF c]] by (simp add: pw_inv_def Let_def)
  have f: "all_frames fs0 st' = all_frames fs0 (pw_gc w)" using l by (simp add: all_frames_def)
  show ?thesis using i g l unfolding pw_inv_def Let_def by (auto simp: f)
qed

lemma pw_commit_inv:
  assumes i: "pw_inv ops winv tinv key s base h0 fs0 m0 env w" and e: "env_ok env"
    and k: "\<not> gs_killed (pw_gc w)" "\<not> gs_worker_dead (pw_gc w)" and b: "gs_inflight (pw_gc w) = Some batch"
    and room: "pw_room ops env w batch"
  shows "pw_inv ops winv tinv key s base h0 fs0 m0 env (gc_commit_published ops env w batch sc)"
proof -
  define w' where "w' = gc_commit_published ops env w batch sc"
  let ?st = "pw_gc w" and ?st' = "pw_gc w'" and ?F = "all_frames fs0 (pw_gc w)"
  have gi: "gc_inv ops winv tinv key s base h0 fs0 ?st"
    and ptr: "\<exists>mc ms. pw_pointers env key s (length fs0) m0 (pw_store w) (gs_durable ?st) (gs_published ?st) ?F mc ms"
    using i by (simp_all add: pw_inv_def Let_def)
  note a = gc_alive_published [OF gi b k(1)]
  have pf: "fs0 @ map snd (published ?st) = ?F" by (simp add: a(3) all_frames_def)
  obtain c where c: "pw_cursor w = Some c" "open_published_cursor env (pw_store w) None = PRet (CS_VALID, Some c)" "covers key s c ?F"
    using i a(1) k(1) pf by (auto simp: pw_inv_def Let_def)
  have rm: "seq_room ?st" "dget (pd_objects (pw_store w)) ZERO32 = None" using room by (simp_all add: pw_room_def)
  have lo: "gc_log_ok ops winv tinv key s base h0 fs0 ?st" using gi by (simp add: gc_inv_def)
  note plan = gc_commit_plan [OF lo b rm(1) a(2)]
  have np: "\<forall>plan. gc_plan ops ?st batch = Inr plan \<longrightarrow> applied_receipts plan = 0 \<longrightarrow>
      bp_frames plan = [] \<and> plan_log (map rq_cmd batch) (bp_receipts plan) = []"
  proof (intro allI impI)
    fix plan assume p: "gc_plan ops ?st batch = Inr plan" and z: "applied_receipts plan = 0"
    have n: "plan_log (map rq_cmd batch) (bp_receipts plan) = []" by (rule plan_log_none [OF z])
    from plan [OF p] obtain gs h' rs where "map snd (plan_log (map rq_cmd batch) rs) = gs" "bp_receipts plan = rs"
      "plan_extends ops key s base h0 (fs0 @ map snd (gs_log ?st)) gs h' rs plan" by metis
    then show "bp_frames plan = [] \<and> plan_log (map rq_cmd batch) (bp_receipts plan) = []"
      using n by (auto simp: plan_extends_def)
  qed
  have inv': "gc_inv ops winv tinv key s base h0 fs0 ?st'" if "plain_commit_of ops ?st batch ?st'"
    by (rule plain_commit_inv [OF that gi b rm(1) k])
  have "pw_inv ops winv tinv key s base h0 fs0 m0 env w'"
    using w'_def a(5) np
  proof (cases rule: gc_commit_published_cases)
    case (quiet x)
    have f: "all_frames fs0 ?st' = ?F @ map snd x" using quiet(4) by (simp add: all_frames_def)
    have ptr': "\<exists>mc ms. pw_pointers env key s (length fs0) m0 (pw_store w') (gs_durable ?st') (gs_published ?st') (?F @ map snd x) mc ms"
      using ptr pw_pointers_grow [OF _ grows_refl quiet(7)] quiet(1,6) by metis
    have "\<exists>c. pw_cursor w' = Some c \<and> open_published_cursor env (pw_store w') None = PRet (CS_VALID, Some c)
                 \<and> covers key s c (fs0 @ map snd (published ?st'))"
      if al: "\<not> gs_poisoned ?st'" "\<not> gs_killed ?st'"
    proof -
      have "x = []" using quiet(5) al by blast
      then have "fs0 @ map snd (published ?st') = ?F" using quiet(4,6) a(4) by (simp add: all_frames_def)
      then show ?thesis using c quiet(1,2) by auto
    qed
    then show ?thesis
      using inv' [OF quiet(3)] ptr' unfolding pw_inv_def Let_def f by blast
  next
    case (attempt plan c1 i fl dp out st)
    have c1: "c1 = c" using attempt(2) c(1) by simp
    from plan [OF attempt(1)] obtain gs h' rs where gs: "map snd (plan_log (map rq_cmd batch) rs) = gs" "bp_receipts plan = rs"
      "plan_extends ops key s base h0 (fs0 @ map snd (gs_log ?st)) gs h' rs plan" by metis
    have f: "all_frames fs0 ?st' = ?F @ gs" using attempt(11) gs(1,2) by (simp add: all_frames_def)
    have ext: "concat (bp_frames plan) = frames_bytes key (sg_scope s) (sg_segment s) gs"
      "bp_candidate_head plan = head_of key s (?F @ gs)"
      using gs(3) by (simp_all add: plan_extends_def snapshot_ok_def all_frames_def)
    have fl: "fl = wal_image key s (?F @ gs)"
      using commit_prepared_file [OF attempt(6)] a(6) ext(1) by (simp add: wal_image_append)
    have du: "gs_durable ?st \<le> gs_durable ?st'" using a(5,6) attempt(12) fl by (simp add: wal_image_append)
    have room': "publishable env (pw_store w) (bi_candidate_manifest_blob i) m"
      if "parse_manifest (Some (bi_candidate_manifest_blob i)) (pe_keyring env) = (G_VALID, Some m)" for m
      using room attempt(1,4) that c(1) c1 unfolding pw_room_def by auto
    note sh = publish_batch_shows [OF e rm(2) c(2) attempt(4) [unfolded c1] room' attempt(8) [unfolded c1]]
    have gr: "grows (pw_store w) (pw_store w')" using sh attempt(9) by simp
    from sh consider (unchanged) "pd_current st = pd_current (pw_store w)" "pd_synced st = pd_synced (pw_store w)"
        "\<And>nc. out \<noteq> PRet (PB_PUBLISHED, nc) \<and> out \<noteq> PRet (PB_ALREADY_PUBLISHED, nc)"
      | (shown) c' where "open_published_cursor env st None = PRet (CS_VALID, Some c')"
        "same_manifest (pc_manifest c') (advanced_manifest (pc_manifest c) (pc_active c) (bp_candidate_head plan) (applied_receipts plan))"
        "pd_synced st \<in> {pd_synced (pw_store w), pd_current st}"
        "\<And>rst nc. out = PRet (rst, nc) \<Longrightarrow> rst = PB_PUBLISHED \<or> rst = PB_ALREADY_PUBLISHED \<Longrightarrow>
               nc = Some c' \<and> pd_synced st = pd_current st"
      by blast
    then show ?thesis
    proof cases
      case unchanged
      then have "(gs_poisoned ?st' \<or> gs_killed ?st') \<and> gs_published ?st' = gs_published ?st" using attempt(13) by blast
      moreover have "pd_current (pw_store w') = pd_current (pw_store w)" "pd_synced (pw_store w') = pd_synced (pw_store w)"
        using unchanged(1,2) attempt(9) by simp_all
      ultimately show ?thesis
        using inv' [OF attempt(10)] ptr pw_pointers_grow [OF _ gr du] unfolding pw_inv_def Let_def f by metis
    next
      case shown
      have cv: "covers key s c' (?F @ gs)"
        by (rule covers_advanced [OF c(3) opened_cursor_ok(1) [OF shown(1)] shown(2) [unfolded ext(2)]])
      have at: "pointer_at env key s (pw_store w') (pd_current (pw_store w')) (gs_durable ?st') (?F @ gs) (length (?F @ gs))"
        unfolding pointer_at_def using shown(1) cv attempt(9,12) fl reopen_current [of env st] by simp
      have pub: "length fs0 + gs_published ?st \<le> length (?F @ gs)" using a(4) by (simp add: all_frames_def)
      obtain mc ms where pt: "pw_pointers env key s (length fs0) m0 (pw_store w) (gs_durable ?st) (gs_published ?st) ?F mc ms"
        using ptr by blast
      have sy: "pd_synced (pw_store w') \<in> {pd_synced (pw_store w), pd_current (pw_store w')}" using shown(3) attempt(9) by simp
      note ptr' = pw_pointers_shown [OF pt gr du at sy]
      consider (dead) "gs_poisoned ?st' \<or> gs_killed ?st'" "gs_published ?st' = gs_published ?st"
        | (answered) rst nc where "out = PRet (rst, nc)" "rst = PB_PUBLISHED \<or> rst = PB_ALREADY_PUBLISHED" "pw_cursor w' = nc"
            "gs_published ?st' = length (gs_log ?st')"
        using attempt(13) by metis
      then show ?thesis
      proof cases
        case dead
        have "\<exists>mc ms. pw_pointers env key s (length fs0) m0 (pw_store w') (gs_durable ?st') (gs_published ?st') (?F @ gs) mc ms"
          by (rule ptr') (use pub dead(2) in simp_all)
        then show ?thesis using inv' [OF attempt(10)] dead(1) unfolding pw_inv_def Let_def f by blast
      next
        case o: answered
        note p = o(4)
        have nc: "nc = Some c'" "pd_synced st = pd_current st" using shown(4) [OF o(1,2)] by simp_all
        have ln: "length fs0 + gs_published ?st' = length (?F @ gs)"
          using p arg_cong [OF f, of length] by (simp add: all_frames_def [of fs0 ?st'])
        have all: "fs0 @ map snd (published ?st') = ?F @ gs" using p f by (simp add: all_frames_def [of fs0 ?st'])
        have "\<exists>mc ms. pw_pointers env key s (length fs0) m0 (pw_store w') (gs_durable ?st') (gs_published ?st') (?F @ gs) mc ms"
          by (rule ptr') (use ln nc(2) attempt(9) in simp_all)
        moreover have "\<exists>c. pw_cursor w' = Some c \<and> open_published_cursor env (pw_store w') None = PRet (CS_VALID, Some c)
            \<and> covers key s c (fs0 @ map snd (published ?st'))"
          unfolding all using o(3) nc(1) shown(1) attempt(9) cv by simp
        ultimately show ?thesis using inv' [OF attempt(10)] unfolding pw_inv_def Let_def f by blast
      qed
    qed
  qed
  then show ?thesis by (simp add: w'_def)
qed

end

context l0_index
begin

lemma pw_step_inv:
  assumes s: "pw_step ops env w w'" and i: "pw_inv ops winv tinv key s base h0 fs0 m0 env w" and e: "env_ok env"
  shows "pw_inv ops winv tinv key s base h0 fs0 m0 env w'"
  using s
proof cases
  case (pws_client st')
  then show ?thesis using pw_client_inv [OF i] by simp
next
  case (pws_commit batch sc)
  then show ?thesis using pw_commit_inv [OF i e] by simp
qed

lemma pw_run_inv:
  "pw_run ops env w w' \<Longrightarrow> pw_inv ops winv tinv key s base h0 fs0 m0 env w \<Longrightarrow> env_ok env \<Longrightarrow>
   pw_inv ops winv tinv key s base h0 fs0 m0 env w'"
  by (induction rule: pw_run.induct) (auto intro: pw_step_inv)

end

end
