(* ===== verification/Recovery.thy ===== *)
theory Recovery
  imports PublishedCommit
begin

section \<open>Recovering a scope and resuming its writer (\<open>horizon_recovery.py\<close>)\<close>

text \<open>
  After the death of a process the recovered state is the one \<open>CURRENT\<close> names. \<open>recover\<close> only reads:
  it opens the cursor and the generation and classifies the bytes of the ACTIVE file behind the
  published prefix. \<open>resume_from_recovery\<close> takes the lease, recovers again, compares the publication
  with the one the caller saw, cuts the unpublished tail through one descriptor after checking the
  digest of the prefix, and boots a writer. The lemmas show that only bytes behind the published
  prefix are ever cut, that nothing is touched on a stale plan, and what the resumed writer knows.
\<close>

datatype recovery_state = RS_RECOVERED | RS_NO_CURRENT | RS_ABSTAIN_CURRENT | RS_MISSING_REQUIRED | RS_CORRUPT
  | RS_INCOMPATIBLE | RS_RESOURCE_LIMIT

record writer_resume_plan =
  wrp_identity :: wal_identity
  wrp_resume_seq :: int
  wrp_published_length :: int
  wrp_published_sha256 :: bytes
  wrp_physical_length :: int
  wrp_tail_bytes :: int
  wrp_key_id :: int
  wrp_tail_reconciled :: bool

record scope_recovery =
  rec_state :: recovery_state
  rec_handle :: "generation_handle option"
  rec_cursor :: "published_cursor option"
  rec_plan :: "writer_resume_plan option"

abbreviation (input) RecoveryFailed :: "recovery_state \<Rightarrow> published_cursor option \<Rightarrow> scope_recovery" where
  "RecoveryFailed s c \<equiv> \<lparr>rec_state = s, rec_handle = None, rec_cursor = c, rec_plan = None\<rparr>"

text \<open>\<open>_GEN_STATE_MAP\<close>, with its default.\<close>

fun gen_state_map :: "generation_state \<Rightarrow> recovery_state" where
  "gen_state_map G_REQUIRED_MISSING = RS_MISSING_REQUIRED"
| "gen_state_map G_CORRUPT = RS_CORRUPT"
| "gen_state_map G_INCOMPATIBLE = RS_INCOMPATIBLE"
| "gen_state_map G_RESOURCE_LIMIT = RS_RESOURCE_LIMIT"
| "gen_state_map G_COVERAGE_ERROR = RS_CORRUPT"
| "gen_state_map _ = RS_CORRUPT"

text \<open>The faults of one recovery; \<open>rc_link\<close> is the size of the regular file a symbolic link under
  the name of the ACTIVE file leads to (\<open>os.stat\<close> follows it).\<close>

record recover_script =
  rc_current :: "read_fault option"
  rc_stat_raises :: bool
  rc_link :: "int option"

definition physical_active_length :: "wal_store \<Rightarrow> wal_identity \<Rightarrow> recover_script \<Rightarrow> int option" where
  "physical_active_length ws ident sc =
     (if rc_stat_raises sc then None
      else
        (case dget (ws_active ws) ident of
           None \<Rightarrow> None
         | Some (RegularFile b) \<Rightarrow> Some (int (length b))
         | Some Symlink \<Rightarrow> rc_link sc
         | Some OtherNode \<Rightarrow> None))"

text \<open>The environment of the \<open>open_generation\<close> call of a recovery.\<close>

definition recovery_gen_env :: "pub_env \<Rightarrow> generation_limits \<Rightarrow> object_store \<Rightarrow> wal_store \<Rightarrow> gen_env" where
  "recovery_gen_env env glim objs ws = (pe_gen env)\<lparr>ge_objects := objs, ge_wal := ws, ge_parent := None,
     ge_gen_limits := glim, ge_reducer_limits := derived_reducer_limits glim\<rparr>"

definition recover_scope ::
  "pub_env \<Rightarrow> generation_limits \<Rightarrow> pub_store \<Rightarrow> wal_store \<Rightarrow> recover_script \<Rightarrow> scope_recovery pub_out" where
  "recover_scope env glim st ws sc =
     (case open_published_cursor env st (rc_current sc) of
        PRaise e \<Rightarrow> PRaise e
      | PKilled \<Rightarrow> PKilled
      | PRet (CS_NO_CURRENT, _) \<Rightarrow> PRet (RecoveryFailed RS_NO_CURRENT None)
      | PRet (CS_RESOURCE_LIMIT, _) \<Rightarrow> PRet (RecoveryFailed RS_RESOURCE_LIMIT None)
      | PRet (CS_VALID, Some cursor) \<Rightarrow>
          (case open_generation (recovery_gen_env env glim (pd_objects st) ws) (Some (pc_manifest_blob cursor)) of
             Inl e \<Rightarrow> PRaise (PubGenExn e)
           | Inr (og, handle) \<Rightarrow>
               if og \<noteq> G_VALID then PRet (RecoveryFailed (gen_state_map og) (Some cursor))
               else
                 (let active = pc_active cursor;
                      identity = (em_scope_id (pc_manifest cursor), sd_segment_id active);
                      published_length = wsd_durable_prefix_length active
                  in case physical_active_length ws identity sc of
                       None \<Rightarrow> PRet (RecoveryFailed RS_MISSING_REQUIRED (Some cursor))
                     | Some physical \<Rightarrow>
                         if physical < published_length then PRet (RecoveryFailed RS_CORRUPT (Some cursor))
                         else PRet \<lparr>rec_state = RS_RECOVERED, rec_handle = handle, rec_cursor = Some cursor,
                                rec_plan = Some \<lparr>wrp_identity = identity, wrp_resume_seq = pc_read_seq cursor + 1,
                                  wrp_published_length = published_length,
                                  wrp_published_sha256 = wsd_durable_prefix_sha256 active,
                                  wrp_physical_length = physical, wrp_tail_bytes = physical - published_length,
                                  wrp_key_id = wsd_key_id active, wrp_tail_reconciled = False\<rparr>\<rparr>))
      | PRet _ \<Rightarrow> PRet (RecoveryFailed RS_ABSTAIN_CURRENT None))"

subsection \<open>Cutting the tail\<close>

text \<open>The calls of a resume that can fail, and the points where the process can die.\<close>

datatype resume_fault = RF_KillLease | RF_Open | RF_Stat | RF_Read | RF_KillBeforeTruncate | RF_Truncate
  | RF_KillAfterTruncate | RF_Sync | RF_KillAfterSync | RF_DirSync | RF_KillAfterDirSync | RF_ShortRead | RF_Build
  | RF_Worker

text \<open>
  \<open>_verify_and_truncate_fd\<close>: whether the file is the published prefix now, the node it leaves, and
  (ghost) whether what it changed has reached the disk; a change that has not may come back after a
  power loss.
\<close>

definition verify_and_truncate_fd ::
  "file_node \<Rightarrow> int \<Rightarrow> bytes \<Rightarrow> resume_fault option \<Rightarrow> bool out \<times> file_node \<times> bool" where
  "verify_and_truncate_fd nd published_length published_sha fault =
     (if fault = Some RF_Stat then (Ret False, nd, True)
      else
        (case nd of
           RegularFile b \<Rightarrow>
             if int (length b) < published_length then (Ret False, nd, True)
             else if fault = Some RF_Read then (Ret False, nd, True)
             else
               (let prefix = take (nat published_length) b; cut = RegularFile prefix
                in if int (length prefix) \<noteq> published_length \<or> sha256 prefix \<noteq> published_sha then (Ret False, nd, True)
                   else if int (length b) \<noteq> published_length then
                     (if fault = Some RF_KillBeforeTruncate then (Killed, nd, True)
                      else if fault = Some RF_Truncate then (Ret False, nd, True)
                      else if fault = Some RF_KillAfterTruncate then (Killed, cut, False)
                      else if fault = Some RF_Sync then (Ret False, cut, False)
                      else if fault = Some RF_KillAfterSync then (Killed, cut, True)
                      else if fault = Some RF_DirSync then (Ret False, cut, True)
                      else if fault = Some RF_KillAfterDirSync then (Killed, cut, True)
                      else (Ret True, cut, True))
                   else (Ret True, nd, True))
         | _ \<Rightarrow> (Ret False, nd, True)))"

subsection \<open>Resuming\<close>

datatype activation_state = AS_ACTIVATED | AS_WRITER_ACTIVE | AS_STALE_PROOF | AS_INVALID_PROOF | AS_INVALID_ACTIVE
  | AS_IO_ERROR | AS_STALE_RECOVERY

text \<open>The writer over the published prefix. \<open>limits\<close> is \<open>None\<close>, the default.\<close>

definition resumed_writer ::
  "pub_store \<Rightarrow> published_cursor \<Rightarrow> generation_handle \<Rightarrow> writer_resume_plan \<Rightarrow> bytes \<Rightarrow> bytes \<Rightarrow> nat \<Rightarrow> bool
     \<Rightarrow> scope_lease \<Rightarrow> int \<Rightarrow> int \<Rightarrow> (wal_index, tx_index) pub_writer" where
  "resumed_writer st cursor handle plan key prefix durable u8_domain lease dev ino =
     (let man = pc_manifest cursor; act = pc_active cursor; R = pc_read_seq cursor;
          head = \<lparr>wh_scope_id = em_scope_id man, wh_segment_id = snd (wrp_identity plan), wh_first_seq = sd_first_seq act,
            wh_durable_through_seq = R, wh_byte_length = nat (wrp_published_length plan), wh_prefix_digest = sha256 prefix,
            wh_state = STATE_ACTIVE\<rparr>;
          snapshot = \<lparr>ls_index = gh_l0 handle, ls_txindex = gh_txindex handle, ls_visible_through_seq = R,
            ls_wal_head = head\<rparr>;
          base = bundle_base_view \<lparr>bb_view = handle_view handle, bb_bundle = gh_bundle handle,
            bb_base_dedup = Some (gh_dedup handle)\<rparr>
      in \<lparr>pw_gc = (gc_boot key (em_scope_id man) (snd (wrp_identity plan)) prefix durable snapshot prefix default_gc_limits
              (Some base) (wsd_key_id act) (wsd_prev_segment_digest act) u8_domain)\<lparr>gs_lease := Some lease\<rparr>,
          pw_cursor = Some cursor, pw_store = st, pw_dev = dev, pw_ino = ino\<rparr>)"

text \<open>
  From the open of the ACTIVE file on; \<open>durable\<close> (ghost) is how much of the file was synced. The
  answer, the node left under the name, and whether its change was synced.
\<close>

definition resume_on_fd ::
  "pub_store \<Rightarrow> wal_store \<Rightarrow> nat \<Rightarrow> published_cursor \<Rightarrow> generation_handle option \<Rightarrow> writer_resume_plan \<Rightarrow> bytes \<Rightarrow> bool
     \<Rightarrow> scope_lease \<Rightarrow> int \<Rightarrow> int \<Rightarrow> resume_fault option
     \<Rightarrow> (activation_state \<times> (wal_index, tx_index) pub_writer option) pub_out \<times> wal_store \<times> bool" where
  "resume_on_fd st ws durable cursor handle plan key u8_domain lease dev ino fault =
     (case dget (ws_active ws) (wrp_identity plan) of
        None \<Rightarrow> (PRet (AS_INVALID_ACTIVE, None), ws, True)
      | Some nd \<Rightarrow>
          if fault = Some RF_Open \<or> nd = Symlink then (PRet (AS_INVALID_ACTIVE, None), ws, True)
          else
            (let n = wrp_published_length plan;
                 (r, nd', synced) = verify_and_truncate_fd nd n (wrp_published_sha256 plan) fault;
                 ws' = ws\<lparr>ws_active := dput (wrp_identity plan) nd' (ws_active ws)\<rparr>
             in case r of
                  Killed \<Rightarrow> (PKilled, ws', synced)
                | Raise e \<Rightarrow> (PRet (AS_IO_ERROR, None), ws', synced)
                | Ret False \<Rightarrow> (PRet (AS_INVALID_ACTIVE, None), ws', synced)
                | Ret True \<Rightarrow>
                    (case (nd', handle) of
                       (RegularFile b, Some h) \<Rightarrow>
                         if fault = Some RF_ShortRead then (PRet (AS_INVALID_ACTIVE, None), ws', synced)
                         else if fault = Some RF_Build \<or> fault = Some RF_Worker then (PRet (AS_IO_ERROR, None), ws', synced)
                         else
                           (PRet (AS_ACTIVATED, Some (resumed_writer st cursor h plan key b
                              (if nd' = nd then min durable (length b) else length b) u8_domain lease dev ino)), ws', synced)
                     | _ \<Rightarrow> (PRet (AS_IO_ERROR, None), ws', synced))))"

definition resume_from_recovery ::
  "pub_env \<Rightarrow> scope_recovery \<Rightarrow> pub_store \<Rightarrow> wal_store \<Rightarrow> nat \<Rightarrow> scope_locks \<Rightarrow> bool \<Rightarrow> int \<Rightarrow> int \<Rightarrow> recover_script
     \<Rightarrow> resume_fault option
     \<Rightarrow> (activation_state \<times> (wal_index, tx_index) pub_writer option) pub_out \<times> wal_store \<times> bool \<times> scope_locks" where
  "resume_from_recovery env intended st ws durable held u8_domain dev ino sc fault =
     (case pd_scope st of
        None \<Rightarrow> (PRet (AS_INVALID_PROOF, None), ws, True, held)
      | Some scope \<Rightarrow>
          (case rec_cursor intended of
             None \<Rightarrow> (PRet (AS_INVALID_PROOF, None), ws, True, held)
           | Some intent \<Rightarrow>
               if rec_state intended \<noteq> RS_RECOVERED then (PRet (AS_INVALID_PROOF, None), ws, True, held)
               else
                 (case lease_acquire held scope of
                    (None, _) \<Rightarrow> (PRet (AS_WRITER_ACTIVE, None), ws, True, held)
                  | (Some lease, taken) \<Rightarrow>
                      let abort = (\<lambda>s. (PRet (s, None), ws, True, snd (lease_close lease taken)))
                      in if fault = Some RF_KillLease then (PKilled, ws, True, held)
                         else
                           (case recover_scope env DEFAULT_GENERATION_LIMITS st ws sc of
                              PRaise e \<Rightarrow> (PRaise e, ws, True, taken)
                            | PKilled \<Rightarrow> (PKilled, ws, True, held)
                            | PRet fresh \<Rightarrow>
                                (case (rec_state fresh, rec_cursor fresh, rec_plan fresh) of
                                   (RS_RECOVERED, Some cursor, Some plan) \<Rightarrow>
                                     if pp_publication_sha256 (pc_proof cursor) \<noteq> pp_publication_sha256 (pc_proof intent)
                                     then abort AS_STALE_RECOVERY
                                     else
                                       (case dget (pe_keyring env) (wrp_key_id plan) of
                                          None \<Rightarrow> abort AS_INVALID_PROOF
                                        | Some key \<Rightarrow>
                                            (case resume_on_fd st ws durable cursor (rec_handle fresh) plan key u8_domain
                                                    lease dev ino fault of
                                               (PRet (AS_ACTIVATED, w), ws', synced) \<Rightarrow>
                                                 (PRet (AS_ACTIVATED, w), ws', synced, taken)
                                             | (PKilled, ws', synced) \<Rightarrow> (PKilled, ws', synced, held)
                                             | (r, ws', synced) \<Rightarrow> (r, ws', synced, snd (lease_close lease taken))))
                                 | _ \<Rightarrow> abort AS_STALE_RECOVERY)))))"

subsection \<open>What a recovery may change\<close>

text \<open>Only bytes behind a proved prefix are cut.\<close>

lemma verify_and_truncate_cases:
  assumes "verify_and_truncate_fd nd n sha fault = (r, nd', synced)"
  obtains "nd' = nd" "synced" "r = Ret True \<Longrightarrow> \<exists>b. nd = RegularFile b \<and> int (length b) = n \<and> sha256 b = sha"
  | b where "nd = RegularFile b" "nd' = RegularFile (take (nat n) b)" "0 \<le> n" "n < int (length b)"
      "sha256 (take (nat n) b) = sha" "r = Ret True \<Longrightarrow> synced"
proof (cases nd)
  case (RegularFile b)
  show thesis
  proof (cases "int (length (take (nat n) b)) \<noteq> n \<or> sha256 (take (nat n) b) \<noteq> sha \<or> int (length b) = n")
    case True
    then have "nd' = nd \<and> synced \<and> (r = Ret True \<longrightarrow> int (length b) = n \<and> sha256 b = sha)"
      using assms RegularFile by (auto simp: verify_and_truncate_fd_def Let_def split: if_splits)
    then show thesis using that(1) RegularFile by blast
  next
    case False
    have n: "0 \<le> n" "n < int (length b)" using False by auto
    have "nd' = nd \<and> synced \<and> r \<noteq> Ret True \<or> nd' = RegularFile (take (nat n) b) \<and> (r = Ret True \<longrightarrow> synced)"
      using assms RegularFile False by (auto simp: verify_and_truncate_fd_def Let_def split: if_splits)
    then show thesis using that(1) that(2) [OF RegularFile _ n] False by blast
  qed
qed (use assms that(1) in \<open>auto simp: verify_and_truncate_fd_def split: if_splits\<close>)

text \<open>The recovered state: a published cursor, its generation, and an ACTIVE file with at least the
  published prefix.\<close>

lemma recover_recovered:
  assumes "recover_scope env glim st ws sc = PRet r" "rec_state r = RS_RECOVERED"
  obtains c h physical where "open_published_cursor env st (rc_current sc) = PRet (CS_VALID, Some c)"
    "open_generation (recovery_gen_env env glim (pd_objects st) ws) (Some (pc_manifest_blob c)) = Inr (G_VALID, h)"
    "physical_active_length ws (em_scope_id (pc_manifest c), sd_segment_id (pc_active c)) sc = Some physical"
    "wsd_durable_prefix_length (pc_active c) \<le> physical"
    "r = \<lparr>rec_state = RS_RECOVERED, rec_handle = h, rec_cursor = Some c,
       rec_plan = Some \<lparr>wrp_identity = (em_scope_id (pc_manifest c), sd_segment_id (pc_active c)),
         wrp_resume_seq = pc_read_seq c + 1, wrp_published_length = wsd_durable_prefix_length (pc_active c),
         wrp_published_sha256 = wsd_durable_prefix_sha256 (pc_active c), wrp_physical_length = physical,
         wrp_tail_bytes = physical - wsd_durable_prefix_length (pc_active c), wrp_key_id = wsd_key_id (pc_active c),
         wrp_tail_reconciled = False\<rparr>\<rparr>"
proof -
  obtain c where o: "open_published_cursor env st (rc_current sc) = PRet (CS_VALID, Some c)"
    using assms by (auto simp: recover_scope_def split: pub_out.splits prod.splits cursor_state.splits option.splits)
  have m: "gen_state_map og \<noteq> RS_RECOVERED" for og by (cases og) simp_all
  obtain og h where g: "open_generation (recovery_gen_env env glim (pd_objects st) ws) (Some (pc_manifest_blob c)) = Inr (og, h)"
    using assms by (auto simp: recover_scope_def o split: sum.splits)
  have og: "og = G_VALID" using assms m by (auto simp: recover_scope_def o g split: if_splits)
  obtain ph where p: "physical_active_length ws (em_scope_id (pc_manifest c), sd_segment_id (pc_active c)) sc = Some ph"
    using assms by (auto simp: recover_scope_def o g og Let_def split: option.splits)
  show thesis
    using assms by (intro that [OF o g [unfolded og] p]) (auto simp: recover_scope_def o g og p Let_def split: if_splits)
qed

lemma resume_on_fd_cases:
  assumes r: "resume_on_fd st ws durable cursor handle plan key u8 lease dev ino fault = (r, ws', synced)"
  obtains (kept) "synced" "\<And>w. r \<noteq> PRet (AS_ACTIVATED, w)"
      "ws' = ws \<or> (\<exists>nd. dget (ws_active ws) (wrp_identity plan) = Some nd
         \<and> ws' = ws\<lparr>ws_active := dput (wrp_identity plan) nd (ws_active ws)\<rparr>)"
  | (cut) b where "dget (ws_active ws) (wrp_identity plan) = Some (RegularFile b)" "0 \<le> wrp_published_length plan"
      "wrp_published_length plan < int (length b)"
      "sha256 (take (nat (wrp_published_length plan)) b) = wrp_published_sha256 plan" "\<And>w. r \<noteq> PRet (AS_ACTIVATED, w)"
      "ws' = ws\<lparr>ws_active := dput (wrp_identity plan) (RegularFile (take (nat (wrp_published_length plan)) b)) (ws_active ws)\<rparr>"
  | (activated) b h where "dget (ws_active ws) (wrp_identity plan) = Some (RegularFile b)" "handle = Some h" "synced"
      "0 \<le> wrp_published_length plan" "wrp_published_length plan \<le> int (length b)"
      "sha256 (take (nat (wrp_published_length plan)) b) = wrp_published_sha256 plan"
      "ws' = ws\<lparr>ws_active := dput (wrp_identity plan) (RegularFile (take (nat (wrp_published_length plan)) b)) (ws_active ws)\<rparr>"
      "r = PRet (AS_ACTIVATED, Some (resumed_writer st cursor h plan key (take (nat (wrp_published_length plan)) b)
         (if int (length b) = wrp_published_length plan then min durable (length b) else nat (wrp_published_length plan)) u8 lease dev ino))"
proof -
  let ?n = "wrp_published_length plan"
  show thesis
  proof (cases "dget (ws_active ws) (wrp_identity plan)")
    case None
    with r show thesis by (intro kept) (auto simp: resume_on_fd_def)
  next
    case (Some nd)
    show thesis
    proof (cases "fault = Some RF_Open \<or> nd = Symlink")
      case True
      with r Some show thesis by (intro kept) (auto simp: resume_on_fd_def)
    next
      case False
      obtain q nd' sy where v: "verify_and_truncate_fd nd ?n (wrp_published_sha256 plan) fault = (q, nd', sy)"
        by (cases "verify_and_truncate_fd nd ?n (wrp_published_sha256 plan) fault") auto
      note r' = r [unfolded resume_on_fd_def Some option.case if_not_P [OF False] Let_def v prod.case]
      have sy: "synced = sy" and ws': "ws' = ws\<lparr>ws_active := dput (wrp_identity plan) nd' (ws_active ws)\<rparr>"
        using r' by (auto split: out.splits bool.splits file_node.splits option.splits if_splits)
      show thesis
      proof (cases "\<exists>w. r = PRet (AS_ACTIVATED, w)")
        case False
        from v show thesis
        proof (cases rule: verify_and_truncate_cases)
          case 1
          then show thesis using False ws' sy Some by (intro kept) auto
        next
          case (2 b)
          then show thesis using False ws' Some by (intro cut [of b]) auto
        qed
      next
        case True
        then obtain b h where q: "q = Ret True" "nd' = RegularFile b" "handle = Some h"
          and w: "r = PRet (AS_ACTIVATED, Some (resumed_writer st cursor h plan key b
            (if nd' = nd then min durable (length b) else length b) u8 lease dev ino))"
          using r' by (auto split: out.splits bool.splits file_node.splits option.splits if_splits)
        from v show thesis
        proof (cases rule: verify_and_truncate_cases)
          case 1
          then show thesis using q w ws' sy Some by (intro activated [of b h]) auto
        next
          case (2 b')
          then show thesis using q w ws' sy Some by (intro activated [of b' h]) auto
        qed
      qed
    qed
  qed
qed

text \<open>The file \<open>ident\<close> keeps its bytes or is cut to a prefix of \<open>n\<close> bytes with the digest \<open>sha\<close>;
  everything else stays.\<close>

definition cut_to_prefix :: "wal_identity \<Rightarrow> int \<Rightarrow> bytes \<Rightarrow> wal_store \<Rightarrow> wal_store \<Rightarrow> bool" where
  "cut_to_prefix ident n sha ws ws' \<longleftrightarrow>
     ws_objects ws' = ws_objects ws \<and> ws_keyring ws' = ws_keyring ws \<and>
     (\<forall>i. i \<noteq> ident \<longrightarrow> dget (ws_active ws') i = dget (ws_active ws) i) \<and>
     (dget (ws_active ws') ident = dget (ws_active ws) ident \<or>
      (\<exists>b. dget (ws_active ws) ident = Some (RegularFile b) \<and> 0 \<le> n \<and> n < int (length b) \<and> sha256 (take (nat n) b) = sha \<and>
         dget (ws_active ws') ident = Some (RegularFile (take (nat n) b))))"

text \<open>The answers of \<open>resume_from_recovery\<close>: refused before the file was opened, or decided on the
  descriptor of the ACTIVE file of the recovered cursor, which is the one intended.\<close>

lemma resume_cases:
  assumes r: "resume_from_recovery env intended st ws durable held u8 dev ino sc fault = (out, ws', synced, held')"
  obtains (refused) "ws' = ws" "synced" "\<And>w. out \<noteq> PRet (AS_ACTIVATED, w)"
  | (decided) scope lease fresh c plan key intent q where "pd_scope st = Some scope" "\<not> held scope"
      "lease = \<lparr>le_scope_id = scope, le_state = OWNED_BY_STORE, le_sealed = True\<rparr>"
      "rec_cursor intended = Some intent" "rec_state intended = RS_RECOVERED"
      "recover_scope env DEFAULT_GENERATION_LIMITS st ws sc = PRet fresh" "rec_state fresh = RS_RECOVERED"
      "rec_cursor fresh = Some c" "rec_plan fresh = Some plan"
      "pp_publication_sha256 (pc_proof c) = pp_publication_sha256 (pc_proof intent)"
      "dget (pe_keyring env) (wrp_key_id plan) = Some key"
      "resume_on_fd st ws durable c (rec_handle fresh) plan key u8 lease dev ino fault = (q, ws', synced)"
      "\<And>w. out = PRet (AS_ACTIVATED, w) \<longleftrightarrow> q = PRet (AS_ACTIVATED, w)"
      "(\<exists>w. out = PRet (AS_ACTIVATED, w)) \<Longrightarrow> held' = held(scope := True)"
      "\<And>x. out = PRet x \<Longrightarrow> fst x \<noteq> AS_ACTIVATED \<Longrightarrow> held' = held"
proof -
  note rd = r [unfolded resume_from_recovery_def]
  show thesis
  proof (cases "pd_scope st")
    case None
    with rd show thesis by (intro refused) auto
  next
    case scope: (Some scope)
    show thesis
    proof (cases "rec_cursor intended")
      case None
      with rd scope show thesis by (intro refused) auto
    next
      case intent: (Some intent)
      let ?lease = "\<lparr>le_scope_id = scope, le_state = OWNED_BY_STORE, le_sealed = True\<rparr>"
      have early: thesis if o: "rec_state intended \<noteq> RS_RECOVERED \<or> held scope \<or> fault = Some RF_KillLease"
        using rd o by (intro refused) (auto simp: scope intent lease_acquire_def Let_def split: if_splits)
      have close: "snd (lease_close ?lease (held(scope := True))) = held" if "\<not> held scope"
        using that by (auto simp: lease_close_def fun_upd_idem)
      show thesis
      proof (cases "rec_state intended \<noteq> RS_RECOVERED \<or> held scope \<or> fault = Some RF_KillLease")
        case True
        then show thesis by (rule early)
      next
        case False
        then have f: "rec_state intended = RS_RECOVERED" "\<not> held scope" "fault \<noteq> Some RF_KillLease" by auto
        note r2 = rd [unfolded scope intent option.case, simplified f lease_acquire_def Let_def, simplified]
        show thesis
        proof (cases "recover_scope env DEFAULT_GENERATION_LIMITS st ws sc")
          case (PRet fresh)
          show thesis
          proof (cases "\<exists>c plan key. rec_state fresh = RS_RECOVERED \<and> rec_cursor fresh = Some c \<and> rec_plan fresh = Some plan \<and>
              pp_publication_sha256 (pc_proof c) = pp_publication_sha256 (pc_proof intent) \<and>
              dget (pe_keyring env) (wrp_key_id plan) = Some key")
            case False
            then show thesis
              using r2 PRet f by (intro refused) (auto split: recovery_state.splits option.splits if_splits)
          next
            case True
            then obtain c plan key where t: "rec_state fresh = RS_RECOVERED" "rec_cursor fresh = Some c" "rec_plan fresh = Some plan"
              "pp_publication_sha256 (pc_proof c) = pp_publication_sha256 (pc_proof intent)"
              "dget (pe_keyring env) (wrp_key_id plan) = Some key" by blast
            obtain q ws2 sy where q: "resume_on_fd st ws durable c (rec_handle fresh) plan key u8 ?lease dev ino fault = (q, ws2, sy)"
              by (cases "resume_on_fd st ws durable c (rec_handle fresh) plan key u8 ?lease dev ino fault") auto
            have e: "ws2 = ws'" "sy = synced" "\<And>w. out = PRet (AS_ACTIVATED, w) \<longleftrightarrow> q = PRet (AS_ACTIVATED, w)"
              "(\<exists>w. out = PRet (AS_ACTIVATED, w)) \<Longrightarrow> held' = held(scope := True)"
              "\<And>x. out = PRet x \<Longrightarrow> fst x \<noteq> AS_ACTIVATED \<Longrightarrow> held' = held"
              using r2 PRet t q close [OF f(2)] f
              by (auto split: pub_out.splits prod.splits activation_state.splits)
            show thesis
              by (rule decided [OF scope f(2) refl intent f(1) PRet t(1-5) q [unfolded e(1,2)] e(3-5)]) 
          qed
        qed (use r2 f in \<open>intro refused; auto\<close>)+
      qed
    qed
  qed
qed

lemma resume_on_fd_cuts:
  assumes "resume_on_fd st ws durable cursor handle plan key u8 lease dev ino fault = (r, ws', synced)"
  shows "cut_to_prefix (wrp_identity plan) (wrp_published_length plan) (wrp_published_sha256 plan) ws ws'"
  using assms
proof (cases rule: resume_on_fd_cases)
  case kept
  then show ?thesis by (auto simp: cut_to_prefix_def dget_dput)
next
  case (cut b)
  then show ?thesis by (auto simp: cut_to_prefix_def dget_dput)
next
  case (activated b h)
  then show ?thesis
    by (cases "wrp_published_length plan = int (length b)") (auto simp: cut_to_prefix_def dget_dput)
qed

end
