(* ===== verification/RecoveryLives.thy ===== *)
theory RecoveryLives
  imports Recovery
begin

section \<open>Lives of a scope: publish, die, recover, resume\<close>

text \<open>
  A scope alternates between resting (a publication store and the directory of ACTIVE files) and a
  writer that publishes its batches. Dying cuts the ACTIVE file anywhere behind the synced bytes and
  may take \<open>CURRENT\<close> back to the pointer synced last; resuming may itself fail or die anywhere. The
  invariants say that the synced pointer always covers every operation that was answered
  \<open>APPLIED\<close>, so that the resumed writer knows it and every reader finds it.
\<close>

subsection \<open>The ACTIVE segment of an opened generation\<close>

lemma replay_generation_handle: "replay_generation env m b d \<noteq> Inr (G_VALID, None)"
proof
  assume a: "replay_generation env m b d = Inr (G_VALID, None)"
  have r: "reduce_state_map c \<noteq> G_VALID" for c by (cases c) simp_all
  have s: "segment_state_map st \<noteq> G_VALID" for st by (cases st) simp_all
  have rs: "replay_segments ws kr sc wl f ss red \<noteq> Inr (Inl G_VALID)" for ws kr sc wl f ss red
    by (induction ss arbitrary: red)
       (auto simp: r s split: option.splits prod.splits active_prefix_state.splits sum.splits)
  show False
    using a r rs by (auto simp: replay_generation_def Let_def split: sum.splits prod.splits option.splits if_splits)
qed

lemma open_generation_handle: "open_generation env mb \<noteq> Inr (G_VALID, None)"
proof
  assume a: "open_generation env mb = Inr (G_VALID, None)"
  have b: "open_base_components opn ds ks = Inl G_VALID \<Longrightarrow> \<exists>d. opn d = Inl G_VALID" for opn ds ks
    by (induction ks) (auto split: option.splits sum.splits)
  have m: "base_state_map s \<noteq> G_VALID" for s by (cases s) simp_all
  have o: "open_base_artifact np d st ch lim kr \<noteq> Inl G_VALID" for np d st ch lim kr
    by (auto simp: open_base_artifact_def Let_def m split: if_splits prod.splits artifact_open_state.splits option.splits)
  have bc: "open_base_components (\<lambda>d. open_base_artifact np d st ch lim kr) ds ks \<noteq> Inl G_VALID" for np st ch lim kr ds ks
    using b o by blast
  have ob: "open_over_base e man parts \<noteq> Inr (G_VALID, None)" for e man parts
    using replay_generation_handle
    by (auto simp: open_over_base_def split: list.splits component.splits option.splits if_splits)
  have pm: "parse_manifest mb kr \<noteq> (G_VALID, None)" for kr
    by (auto simp: parse_manifest_def Let_def split: option.splits generation_state.splits if_splits)
  show False
    using a bc ob pm by (auto simp: open_generation_def split: prod.splits generation_state.splits option.splits sum.splits if_splits)
qed

lemma replay_segments_keys:
  "replay_segments ws kr sc wl f ss red = Inr (Inr red') \<Longrightarrow> x \<in> set ss \<Longrightarrow> dget kr (wsd_key_id x) \<noteq> None"
  by (induction ss arbitrary: red) (auto split: if_splits option.splits prod.splits active_prefix_state.splits sum.splits)

lemma opened_active_segment:
  assumes n: "numpy_bits (ge_np env)" and o: "open_generation env (Some mb) = Inr (G_VALID, oh)"
    and p: "parse_manifest (Some mb) (ge_keyring env) = (G_VALID, Some m)" and ne: "em_segments m \<noteq> []"
  obtains h r b f t d pre h0 g hist where "oh = Some h" "opened_base r b f t"
    "segment_read env (em_scope_id m) (last (em_segments m)) g" "dget (ge_keyring env) (wsd_key_id (last (em_segments m))) \<noteq> None"
    "abs_replay (man_base m r b f t d) history0 pre = Inr (Inr h0)"
    "abs_replay (man_base m r b f t d) h0 (st_frames g) = Inr (Inr hist)" "generation_of m r b f t d hist h"
    "em_read_seq m = em_base_seq m + int (length (pre @ st_frames g))" "seqs_from (em_base_seq m + 1) (pre @ st_frames g)"
proof -
  obtain h where h: "oh = Some h" using o open_generation_handle by (cases oh) auto
  from opened_is_generation [OF n o [unfolded h]] p obtain r b f t d frs hist where
    g: "generation_parts env m r b f t d frs hist h" by auto
  note g' = g [unfolded generation_parts_def]
  obtain gs where gs: "list_all2 (segment_read env (em_scope_id m)) (em_segments m) gs" "frs = concat (map st_frames gs)"
    using g' by blast
  obtain ss s where ss: "em_segments m = ss @ [s]" using ne by (metis append_butlast_last_id)
  with gs(1) obtain gss gl where gl: "gs = gss @ [gl]" "segment_read env (em_scope_id m) s gl"
    by (auto simp: list_all2_append1 list_all2_Cons1)
  let ?pre = "concat (map st_frames gss)"
  have frs: "frs = ?pre @ st_frames gl" using gs(2) gl(1) by simp
  have rp: "abs_replay (man_base m r b f t d) history0 (?pre @ st_frames gl) = Inr (Inr hist)" using g' frs by simp
  obtain h0 where h0: "abs_replay (man_base m r b f t d) history0 ?pre = Inr (Inr h0)"
    using abs_replay_take [OF rp, of "length ?pre"] by auto
  have k: "dget (ge_keyring env) (wsd_key_id s) \<noteq> None"
  proof -
    obtain parts where "open_over_base env m parts = Inr (G_VALID, Some h)"
      using open_generation_valid [OF o [unfolded h]] p by (metis option.inject prod.inject)
    then obtain bd dd where "replay_generation env m bd dd = Inr (G_VALID, Some h)"
      by (auto simp: open_over_base_def split: list.splits component.splits option.splits if_splits)
    then obtain red red' where "replay_segments (ge_wal env) (ge_keyring env) (em_scope_id m) (wal_limits (ge_gen_limits env))
        (ge_fault env) (em_segments m) red = Inr (Inr red')"
      by (auto simp: replay_generation_def Let_def split: sum.splits)
    from replay_segments_keys [OF this, of s] show ?thesis using ss by simp
  qed
  have l: "last (em_segments m) = s" using ss by simp
  show thesis
    using g' h0 rp abs_replay_append [OF h0, of "st_frames gl"] gl(2) k frs
    by (intro that [of h r b f t gl d ?pre h0 hist]) (auto simp: h l)
qed

subsection \<open>The resumed writer\<close>

definition plan_of :: "published_cursor \<Rightarrow> int \<Rightarrow> writer_resume_plan" where
  "plan_of c physical = \<lparr>wrp_identity = (em_scope_id (pc_manifest c), sd_segment_id (pc_active c)),
     wrp_resume_seq = pc_read_seq c + 1, wrp_published_length = wsd_durable_prefix_length (pc_active c),
     wrp_published_sha256 = wsd_durable_prefix_sha256 (pc_active c), wrp_physical_length = physical,
     wrp_tail_bytes = physical - wsd_durable_prefix_length (pc_active c), wrp_key_id = wsd_key_id (pc_active c),
     wrp_tail_reconciled = False\<rparr>"

lemma resume_activated:
  assumes r: "resume_from_recovery env intended st ws durable held u8 dev ino sc fault = (PRet (AS_ACTIVATED, ow), ws', synced, held')"
  obtains scope c h ph b key where "pd_scope st = Some scope" "\<not> held scope" "held' = held(scope := True)" "synced"
    "open_published_cursor env st None = PRet (CS_VALID, Some c)"
    "open_generation (recovery_gen_env env DEFAULT_GENERATION_LIMITS (pd_objects st) ws) (Some (pc_manifest_blob c))
       = Inr (G_VALID, Some h)"
    "dget (pe_keyring env) (wsd_key_id (pc_active c)) = Some key"
    "dget (ws_active ws) (em_scope_id (pc_manifest c), sd_segment_id (pc_active c)) = Some (RegularFile b)"
    "0 \<le> wsd_durable_prefix_length (pc_active c)" "wsd_durable_prefix_length (pc_active c) \<le> int (length b)"
    "sha256 (take (nat (wsd_durable_prefix_length (pc_active c))) b) = wsd_durable_prefix_sha256 (pc_active c)"
    "ws' = ws\<lparr>ws_active := dput (em_scope_id (pc_manifest c), sd_segment_id (pc_active c))
       (RegularFile (take (nat (wsd_durable_prefix_length (pc_active c))) b)) (ws_active ws)\<rparr>"
    "ow = Some (resumed_writer st c h (plan_of c ph) key (take (nat (wsd_durable_prefix_length (pc_active c))) b)
       (if int (length b) = wsd_durable_prefix_length (pc_active c) then min durable (length b)
        else nat (wsd_durable_prefix_length (pc_active c))) u8
       \<lparr>le_scope_id = scope, le_state = OWNED_BY_STORE, le_sealed = True\<rparr> dev ino)"
  using r
proof (cases rule: resume_cases)
  case refused
  then show ?thesis by blast
next
  case (decided scope lease fresh c plan key intent q)
  from recover_recovered [OF decided(6,7)] obtain c' h ph where
    o: "open_published_cursor env st (rc_current sc) = PRet (CS_VALID, Some c')"
      "open_generation (recovery_gen_env env DEFAULT_GENERATION_LIMITS (pd_objects st) ws) (Some (pc_manifest_blob c')) = Inr (G_VALID, h)"
      "fresh = \<lparr>rec_state = RS_RECOVERED, rec_handle = h, rec_cursor = Some c', rec_plan = Some (plan_of c' ph)\<rparr>"
    unfolding plan_of_def by metis
  have e: "c' = c" "plan = plan_of c ph" "rec_handle fresh = h" using o(3) decided by auto
  have q: "resume_on_fd st ws durable c h plan key u8 lease dev ino fault = (PRet (AS_ACTIVATED, ow), ws', synced)"
    using decided e by auto
  have hd: "held' = held(scope := True)" using decided by blast
  from q show ?thesis
  proof (cases rule: resume_on_fd_cases)
    case (activated b hh)
    show ?thesis
      using activated o(2) decided(1-3,11) hd open_cursor_unfaulted [OF o(1)] e
      by (intro that [of scope c hh key b ph]) (auto simp: plan_of_def)
  qed auto
qed

lemma read_active_prefix_valid:
  assumes "read_active_prefix ws ident ex lim f = (AP_VALID, Some g)"
  shows "read_active_prefix ws ident ex lim None = (AP_VALID, Some g)" "ape_byte_length ex \<le> max_active_bytes lim"
  using assms by (auto simp: read_active_prefix_def split: if_splits option.splits file_node.splits)

lemma pointer_at_take:
  "pointer_at env key s st nd du fs m \<Longrightarrow> m \<le> n \<Longrightarrow> n \<le> length fs \<Longrightarrow> pointer_at env key s st nd du (take n fs) m"
  by (auto simp: pointer_at_def min_def)

lemma image_take: "\<exists>r. wal_image key s fs = wal_image key s (take n fs) @ r"
  using wal_image_append [of key s "take n fs" "drop n fs"] by auto

lemma covers_sizes: "covers key s c fs \<Longrightarrow> nat (wsd_durable_prefix_length (pc_active c)) = length (wal_image key s fs)"
  by (simp add: covers_def)

lemma gc_wf_lease [simp]: "gc_wf (st\<lparr>gs_lease := l\<rparr>) = gc_wf st"
  by (simp add: gc_wf_defs inflight_def)

text \<open>The boot of a writer over the frames that the cursor of \<open>CURRENT\<close> covers.\<close>

lemma resumed_writer_inv:
  assumes n: "numpy_bits (ge_np (pe_gen env))" and s: "seg_id_ok s"
    and kw: "dget (ws_keyring ws) (sg_key_id s) = Some key" and kp: "dget (pe_keyring env) (sg_key_id s) = Some key"
    and nd: "dget (ws_active ws) (sg_scope s, sg_segment s) = Some (RegularFile (wal_image key s F @ r))"
    and ok: "frames_ok (sg_first s) F" and le: "ms \<le> mc"
    and mc: "pointer_at env key s st (pd_current st) du F mc" and ms: "pointer_at env key s st (pd_synced st) du F ms"
    and re: "resume_from_recovery env intended st ws du held u8 dev ino sc fault = (PRet (AS_ACTIVATED, Some w), ws', synced, held')"
  shows "\<exists>base h0. pw_inv plain_ops wi_inv (\<lambda>m. distinct (dkeys m)) key s base h0 (take mc F) ms env w \<and> pw_store w = st \<and>
    ws_keyring ws' = ws_keyring ws"
proof -
  let ?fs = "take mc F"
  from re obtain scope c h ph b k where
    a: "open_published_cursor env st None = PRet (CS_VALID, Some c)"
      "open_generation (recovery_gen_env env DEFAULT_GENERATION_LIMITS (pd_objects st) ws) (Some (pc_manifest_blob c)) = Inr (G_VALID, Some h)"
      "dget (pe_keyring env) (wsd_key_id (pc_active c)) = Some k"
      "dget (ws_active ws) (em_scope_id (pc_manifest c), sd_segment_id (pc_active c)) = Some (RegularFile b)"
      "sha256 (take (nat (wsd_durable_prefix_length (pc_active c))) b) = wsd_durable_prefix_sha256 (pc_active c)"
      "ws' = ws\<lparr>ws_active := dput (em_scope_id (pc_manifest c), sd_segment_id (pc_active c))
         (RegularFile (take (nat (wsd_durable_prefix_length (pc_active c))) b)) (ws_active ws)\<rparr>"
      "Some w = Some (resumed_writer st c h (plan_of c ph) k (take (nat (wsd_durable_prefix_length (pc_active c))) b)
         (if int (length b) = wsd_durable_prefix_length (pc_active c) then min du (length b)
          else nat (wsd_durable_prefix_length (pc_active c))) u8
         \<lparr>le_scope_id = scope, le_state = OWNED_BY_STORE, le_sealed = True\<rparr> dev ino)"
    by (rule resume_activated) blast
  have m: "mc \<le> length F" "length (wal_image key s ?fs) \<le> du" and cv: "covers key s c ?fs"
    using mc a(1) reopen_current [of env st] by (auto simp: pointer_at_def)
  obtain r1 where r1: "wal_image key s F = wal_image key s ?fs @ r1" using image_take by blast
  have cv': "em_scope_id (pc_manifest c) = sg_scope s" "sd_segment_id (pc_active c) = sg_segment s"
    "sd_first_seq (pc_active c) = sg_first s" "pc_read_seq c = next_seq_of s ?fs - 1"
    "wsd_durable_prefix_length (pc_active c) = int (length (wal_image key s ?fs))"
    "wsd_durable_prefix_sha256 (pc_active c) = sha256 (wal_image key s ?fs)" "cursor_ok c"
    using cv by (auto simp: covers_def)
  have b: "b = wal_image key s ?fs @ (r1 @ r)" using a(4) nd by (simp add: cv' r1)
  have tk: "take (nat (wsd_durable_prefix_length (pc_active c))) b = wal_image key s ?fs" by (simp add: cv' b)
  have okf: "frames_ok (sg_first s) ?fs" using ok append_take_drop_id [of mc F] by (metis frames_ok_simps(3))
  from opened_cursor_ok [OF a(1)] have cu: "cursor_ok c"
    "parse_manifest (Some (pc_manifest_blob c)) (pe_keyring env) = (G_VALID, Some (pc_manifest c))" by auto
  have act: "em_segments (pc_manifest c) \<noteq> []" "pc_active c = last (em_segments (pc_manifest c))"
    "wsd_status (pc_active c) = STATE_ACTIVE" "pc_read_seq c = em_read_seq (pc_manifest c)"
    using open_cursor_valid [OF a(1)] cursor_of_pointer_valid by metis+
  let ?genv = "recovery_gen_env env DEFAULT_GENERATION_LIMITS (pd_objects st) ws"
  have np: "numpy_bits (ge_np ?genv)" using n by (simp add: recovery_gen_env_def)
  have pm: "parse_manifest (Some (pc_manifest_blob c)) (ge_keyring ?genv) = (G_VALID, Some (pc_manifest c))"
    using cu by (simp add: recovery_gen_env_def)
  from opened_active_segment [OF np a(2) pm act(1)] obtain rg bu rf t d h0 g hist and pre :: "wframe list" where
    g: "segment_read ?genv (em_scope_id (pc_manifest c)) (pc_active c) g"
      "abs_replay (man_base (pc_manifest c) rg bu rf t d) h0 (st_frames g) = Inr (Inr hist)"
      "generation_of (pc_manifest c) rg bu rf t d hist h"
    unfolding act(2) by (metis option.inject)
  have rd: "read_active_prefix ws (sg_scope s, sg_segment s) (expect_image key s ?fs) (wal_limits (ge_gen_limits ?genv))
      (ge_fault ?genv (pc_active c)) = (AP_VALID, Some g)" and hb: "header_binds (vs_header g) (sg_scope s) (pc_active c)"
    using g(1) act(3) by (simp_all add: segment_read_def read_validated_segment_def cv' expect_image_def recovery_gen_env_def)
  from read_active_prefix_valid [OF rd]
  have "read_active_prefix ws (sg_scope s, sg_segment s) (expect_image key s ?fs) (wal_limits (ge_gen_limits ?genv)) None = (AP_VALID, Some g)"
    "int (length (wal_image key s ?fs)) \<le> max_active_bytes (wal_limits (ge_gen_limits ?genv))"
    by (simp_all add: expect_image_def)
  with read_active_prefix_image [OF s okf kw, of "r1 @ r" "wal_limits (ge_gen_limits ?genv)"] nd
  have gf: "st_frames g = ?fs" "vs_header g = header_info s" by (auto simp: expect_image_def r1)
  have kid: "wsd_key_id (pc_active c) = sg_key_id s" using hb gf by (simp add: header_binds_def header_info_def)
  then have k: "k = key" using a(3) kp by simp
  let ?base = "man_base (pc_manifest c) rg bu rf t d"
  let ?st = "pw_gc w"
  have w: "w = resumed_writer st c h (plan_of c ph) key (wal_image key s ?fs)
         (if int (length b) = wsd_durable_prefix_length (pc_active c) then min du (length b)
          else length (wal_image key s ?fs)) u8
         \<lparr>le_scope_id = scope, le_state = OWNED_BY_STORE, le_sealed = True\<rparr> dev ino"
    using a(7) tk k by (simp add: cv')
  have base: "bundle_base_view \<lparr>bb_view = handle_view h, bb_bundle = gh_bundle h, bb_base_dedup = Some (gh_dedup h)\<rparr> = ?base"
    using g(3) by (simp add: generation_of_def man_base_def handle_view_def)
  have hs: "snapshot_ok plain_ops key s ?base h0 ?fs hist (gs_snapshot ?st) (gs_hasher ?st)"
    using s okf g(2,3) gf(1) act(4) cv'
    by (simp add: w resumed_writer_def gc_boot_def snapshot_ok_def Let_def head_of_def plan_of_def index_reads_def
        generation_of_def plain_ops_def)
  have du: "gs_durable ?st \<le> length (gs_file ?st)" "length (wal_image key s ?fs) \<le> gs_durable ?st"
    using m(2) by (auto simp: w resumed_writer_def gc_boot_def Let_def cv' b simp flip: length_0_conv)
  have flds: "gs_key ?st = key" "gs_scope_id ?st = sg_scope s" "gs_segment_id ?st = sg_segment s" "gs_base ?st = ?base"
    "gs_published ?st = 0" "gs_log ?st = []" "gs_file ?st = wal_image key s ?fs"
    by (simp_all add: w resumed_writer_def gc_boot_def Let_def plan_of_def cv' base)
  have inv: "wi_inv (ls_index (gs_snapshot ?st))" "distinct (dkeys (ls_txindex (gs_snapshot ?st)))"
    using g(3) by (simp_all add: w resumed_writer_def gc_boot_def Let_def generation_of_def)
  have "gc_log_ok plain_ops wi_inv (\<lambda>m. distinct (dkeys m)) key s ?base h0 ?fs ?st"
    using hs okf g(2) gf(1) du(1) flds inv by (cases hist) (auto simp: gc_log_ok_def)
  moreover have "gc_wf ?st" by (simp add: w resumed_writer_def gc_boot_wf Let_def)
  moreover have "gc_quiet ?st" "gc_answers ?st"
    by (simp_all add: gc_quiet_def gc_answers_def w resumed_writer_def Let_def gc_boot_def inflight_def)
  ultimately have gi: "gc_inv plain_ops wi_inv (\<lambda>m. distinct (dkeys m)) key s ?base h0 ?fs ?st" by (simp add: gc_inv_def)
  have f: "gs_log ?st = []" "gs_published ?st = 0" "pw_store w = st" "pw_cursor w = Some c"
    by (simp_all add: w resumed_writer_def gc_boot_def Let_def)
  have all: "all_frames ?fs ?st = ?fs" by (simp add: all_frames_def f)
  have pc: "pointer_at env key s st (pd_current st) (gs_durable ?st) ?fs mc"
    and ps: "pointer_at env key s st (pd_synced st) (gs_durable ?st) ?fs ms"
    using pointer_at_take [OF mc order_refl m(1)] pointer_at_take [OF ms le m(1)] du(2) le m(1)
      image_take [of key s ?fs ms] by (auto simp: pointer_at_def)
  have "pw_pointers env key s (length ?fs) ms st (gs_durable ?st) 0 ?fs mc ms"
    using pc ps le m(1) by (simp add: pw_pointers_def)
  then have "pw_inv plain_ops wi_inv (\<lambda>m. distinct (dkeys m)) key s ?base h0 ?fs ms env w"
    using gi a(1) cv f by (auto simp: pw_inv_def Let_def all)
  then show ?thesis using f(3) a(6) by (intro exI conjI) simp_all
qed

subsection \<open>The steps of a scope\<close>

datatype scope_life =
    Resting pub_store wal_store nat   \<comment> \<open>and how much of the ACTIVE file was synced\<close>
  | Writing "(wal_index, tx_index) pub_writer" wal_store

text \<open>
  A scope at rest: no pointer and nothing answered yet, or the frames \<open>F\<close> in the ACTIVE file (and
  anything behind them) and two pointers, the one shown and the one synced, that cover prefixes of
  \<open>F\<close>; the synced one covers all that was answered.
\<close>

definition rest_ok ::
  "pub_env \<Rightarrow> bytes \<Rightarrow> seg_id \<Rightarrow> (bytes \<times> bytes \<times> int) list \<Rightarrow> pub_store \<Rightarrow> wal_store \<Rightarrow> nat \<Rightarrow> bool" where
  "rest_ok env key s acks st ws du \<longleftrightarrow>
     seg_id_ok s \<and> dget (ws_keyring ws) (sg_key_id s) = Some key \<and> dget (pe_keyring env) (sg_key_id s) = Some key \<and>
     (acks = [] \<and> pd_current st = None \<and> pd_synced st = None
      \<or> (\<exists>F r mc ms. dget (ws_active ws) (sg_scope s, sg_segment s) = Some (RegularFile (wal_image key s F @ r)) \<and>
           frames_ok (sg_first s) F \<and> ms \<le> mc \<and> pointer_at env key s st (pd_current st) du F mc \<and>
           pointer_at env key s st (pd_synced st) du F ms \<and> acked_in acks (take ms F)))"

text \<open>
  The steps: a resume that fails or dies (an unsynced cut may be undone), a resume that answers
  \<open>ACTIVATED\<close>, a step of the live writer, the death of the writer, and a power loss at rest. A death
  keeps at least the synced bytes of the file, and \<open>CURRENT\<close> or the pointer synced last; closing a
  writer is a death that keeps everything.
\<close>

inductive pub_lives ::
  "pub_env \<Rightarrow> bytes \<Rightarrow> seg_id \<Rightarrow> scope_life \<Rightarrow> (bytes \<times> bytes \<times> int) list \<Rightarrow> bool"
  for env :: pub_env and key :: bytes and s :: seg_id where
  pl_start: "rest_ok env key s [] st ws du \<Longrightarrow> pub_lives env key s (Resting st ws du) []"
| pl_failed: "pub_lives env key s (Resting st ws du) acks \<Longrightarrow>
    resume_from_recovery env intended st ws du held u8 dev ino sc fault = (out, ws', synced, held') \<Longrightarrow>
    (\<And>w. out \<noteq> PRet (AS_ACTIVATED, w)) \<Longrightarrow> ws'' = ws' \<or> \<not> synced \<and> ws'' = ws \<Longrightarrow>
    pub_lives env key s (Resting st ws'' du) acks"
| pl_resumed: "pub_lives env key s (Resting st ws du) acks \<Longrightarrow>
    resume_from_recovery env intended st ws du held u8 dev ino sc fault = (PRet (AS_ACTIVATED, Some w), ws', synced, held') \<Longrightarrow>
    pub_lives env key s (Writing w ws') acks"
| pl_step: "pub_lives env key s (Writing w ws) acks \<Longrightarrow> pw_step plain_ops env w w' \<Longrightarrow>
    pub_lives env key s (Writing w' ws) acks"
| pl_death: "pub_lives env key s (Writing w ws) acks \<Longrightarrow>
    gs_durable (pw_gc w) \<le> du \<Longrightarrow> du \<le> k \<Longrightarrow> k \<le> length (gs_file (pw_gc w)) \<Longrightarrow>
    cur \<in> {pd_current (pw_store w), pd_synced (pw_store w)} \<Longrightarrow>
    ws' = ws\<lparr>ws_active := dput (sg_scope s, sg_segment s) (RegularFile (take k (gs_file (pw_gc w)))) (ws_active ws)\<rparr> \<Longrightarrow>
    pub_lives env key s (Resting ((pw_store w)\<lparr>pd_current := cur\<rparr>) ws' du) (acks @ applied_answers (pw_gc w))"
| pl_power_loss: "pub_lives env key s (Resting st ws du) acks \<Longrightarrow>
    dget (ws_active ws) (sg_scope s, sg_segment s) = Some (RegularFile b) \<Longrightarrow> min du (length b) \<le> k \<Longrightarrow>
    ws' = ws\<lparr>ws_active := dput (sg_scope s, sg_segment s) (RegularFile (take k b)) (ws_active ws)\<rparr> \<Longrightarrow>
    pub_lives env key s (Resting (st\<lparr>pd_current := pd_synced st\<rparr>) ws' du) acks"

definition writing_ok ::
  "pub_env \<Rightarrow> bytes \<Rightarrow> seg_id \<Rightarrow> (bytes \<times> bytes \<times> int) list \<Rightarrow> (wal_index, tx_index) pub_writer \<Rightarrow> wal_store \<Rightarrow> bool" where
  "writing_ok env key s acks w ws \<longleftrightarrow>
     seg_id_ok s \<and> dget (ws_keyring ws) (sg_key_id s) = Some key \<and> dget (pe_keyring env) (sg_key_id s) = Some key \<and>
     (\<exists>base h0 fs0 m0. pw_inv plain_ops wi_inv (\<lambda>m. distinct (dkeys m)) key s base h0 fs0 m0 env w \<and>
        acked_in acks (take m0 fs0))"

fun life_ok :: "pub_env \<Rightarrow> bytes \<Rightarrow> seg_id \<Rightarrow> (bytes \<times> bytes \<times> int) list \<Rightarrow> scope_life \<Rightarrow> bool" where
  "life_ok env key s acks (Resting st ws du) = rest_ok env key s acks st ws du"
| "life_ok env key s acks (Writing w ws) = writing_ok env key s acks w ws"

lemma acked_in_take: "acked_in acks (take m fs) \<Longrightarrow> m \<le> n \<Longrightarrow> acked_in acks (take n fs)"
  by (rule acked_in_mono) (auto dest: set_take_subset_set_take)

lemma pointer_at_current [simp]:
  "pointer_at env key s (st\<lparr>pd_current := n\<rparr>) nd du fs m = pointer_at env key s st nd du fs m"
  by (simp add: pointer_at_def reopen_def)

text \<open>A scope stays at rest as long as its file keeps the frames that the pointer shown covers.\<close>

lemma rest_kept:
  assumes hd: "seg_id_ok s" "dget (ws_keyring ws) (sg_key_id s) = Some key" "dget (pe_keyring env) (sg_key_id s) = Some key"
    and nd: "dget (ws_active ws) (sg_scope s, sg_segment s) = Some (RegularFile (wal_image key s (take mc F) @ r))"
    and ok: "frames_ok (sg_first s) F" and le: "ms \<le> mc" and mc: "pointer_at env key s st (pd_current st) du F mc"
    and ms: "pointer_at env key s st (pd_synced st) du F ms" and a: "acked_in acks (take ms F)"
    and cur: "cur \<in> {pd_current st, pd_synced st}"
  shows "rest_ok env key s acks (st\<lparr>pd_current := cur\<rparr>) ws du"
proof -
  let ?F = "take mc F"
  have l: "mc \<le> length F" using mc by (rule pointer_at_le)
  have okf: "frames_ok (sg_first s) ?F" using ok append_take_drop_id [of mc F] by (metis frames_ok_simps(3))
  have m: "pointer_at env key s st (pd_current st) du ?F mc" "pointer_at env key s st (pd_synced st) du ?F ms"
    using pointer_at_take [OF mc order_refl l] pointer_at_take [OF ms le l] by auto
  have ac: "acked_in acks (take ms ?F)" using a le by (simp add: min_def)
  obtain mc' where "ms \<le> mc'" "pointer_at env key s st cur du ?F mc'"
    using cur m le by auto
  then show ?thesis
    unfolding rest_ok_def using hd nd okf m(2) ac by (intro conjI disjI2 exI [of _ ?F] exI [of _ r] exI [of _ mc'] exI [of _ ms]) simp_all
qed

lemma image_cut:
  assumes "length (wal_image key s (take m F)) \<le> k"
  shows "\<exists>r'. take k (wal_image key s F @ r) = wal_image key s (take m F) @ r'"
  using image_take [of key s F m] assms by auto

lemma rest_power_loss:
  assumes a: "rest_ok env key s acks st ws du"
    and nd: "dget (ws_active ws) (sg_scope s, sg_segment s) = Some (RegularFile b)" and k: "min du (length b) \<le> k"
  shows "rest_ok env key s acks (st\<lparr>pd_current := pd_synced st\<rparr>)
    (ws\<lparr>ws_active := dput (sg_scope s, sg_segment s) (RegularFile (take k b)) (ws_active ws)\<rparr>) du"
  using a unfolding rest_ok_def [of env key s acks st]
proof (elim conjE disjE exE)
  fix F r mc ms
  assume s: "seg_id_ok s" "dget (ws_keyring ws) (sg_key_id s) = Some key" "dget (pe_keyring env) (sg_key_id s) = Some key"
    and F: "dget (ws_active ws) (sg_scope s, sg_segment s) = Some (RegularFile (wal_image key s F @ r))" "frames_ok (sg_first s) F"
      "ms \<le> mc" "pointer_at env key s st (pd_current st) du F mc" "pointer_at env key s st (pd_synced st) du F ms"
      "acked_in acks (take ms F)"
  have "length (wal_image key s (take mc F)) \<le> k"
    using k F(4) F(1) nd image_take [of key s F mc] by (auto simp: pointer_at_def min_def split: if_splits)
  from image_cut [OF this, of r] F(1) nd obtain r' where "take k b = wal_image key s (take mc F) @ r'" by auto
  then show ?thesis by (intro rest_kept [OF _ _ _ _ F(2-6)]) (simp_all add: s dget_dput)
qed (simp add: rest_ok_def)

subsection \<open>The invariant of all lives\<close>

lemma rest_resume_failed:
  assumes a: "rest_ok env key s acks st ws du"
    and re: "resume_from_recovery env intended st ws du held u8 dev ino sc fault = (out, ws', synced, held')"
  shows "rest_ok env key s acks st ws' du"
  using re
proof (cases rule: resume_cases)
  case refused
  then show ?thesis using a by simp
next
  case (decided scope lease fresh c plan k intent q)
  have cut: "cut_to_prefix (wrp_identity plan) (wrp_published_length plan) (wrp_published_sha256 plan) ws ws'"
    using decided by (intro resume_on_fd_cuts)
  then have kr: "ws_keyring ws' = ws_keyring ws" by (simp add: cut_to_prefix_def)
  from recover_recovered [OF decided(6,7)] obtain ph where
    o: "open_published_cursor env st (rc_current sc) = PRet (CS_VALID, Some c)" "plan = plan_of c ph"
    unfolding plan_of_def using decided(8,9)
    by (metis option.inject scope_recovery.select_convs(3) scope_recovery.select_convs(4))
  from a show ?thesis
    unfolding rest_ok_def [of env key s acks st ws]
  proof (elim conjE disjE exE)
    fix F r mc ms
    assume s: "seg_id_ok s" "dget (ws_keyring ws) (sg_key_id s) = Some key" "dget (pe_keyring env) (sg_key_id s) = Some key"
      and F: "dget (ws_active ws) (sg_scope s, sg_segment s) = Some (RegularFile (wal_image key s F @ r))" "frames_ok (sg_first s) F"
        "ms \<le> mc" "pointer_at env key s st (pd_current st) du F mc" "pointer_at env key s st (pd_synced st) du F ms"
        "acked_in acks (take ms F)"
    have cv: "covers key s c (take mc F)"
      using F(4) open_cursor_unfaulted [OF o(1)] reopen_current [of env st] by (auto simp: pointer_at_def)
    obtain r1 where r1: "wal_image key s F = wal_image key s (take mc F) @ r1" using image_take by blast
    have "\<exists>r'. dget (ws_active ws') (sg_scope s, sg_segment s) = Some (RegularFile (wal_image key s (take mc F) @ r'))"
      using cut F(1) cv by (auto simp: cut_to_prefix_def o(2) plan_of_def covers_def r1)
    then obtain r' where "dget (ws_active ws') (sg_scope s, sg_segment s) = Some (RegularFile (wal_image key s (take mc F) @ r'))"
      by blast
    then have "rest_ok env key s acks (st\<lparr>pd_current := pd_current st\<rparr>) ws' du"
      by (intro rest_kept [OF _ _ _ _ F(2-6)]) (simp_all add: s kr)
    then show ?thesis by simp
  qed (simp add: rest_ok_def kr)
qed

lemma rest_resumed:
  assumes n: "numpy_bits (ge_np (pe_gen env))" and a: "rest_ok env key s acks st ws du"
    and re: "resume_from_recovery env intended st ws du held u8 dev ino sc fault = (PRet (AS_ACTIVATED, Some w), ws', synced, held')"
  shows "writing_ok env key s acks w ws'"
  using a unfolding rest_ok_def
proof (elim conjE disjE exE)
  fix F r mc ms
  assume s: "seg_id_ok s" "dget (ws_keyring ws) (sg_key_id s) = Some key" "dget (pe_keyring env) (sg_key_id s) = Some key"
    and F: "dget (ws_active ws) (sg_scope s, sg_segment s) = Some (RegularFile (wal_image key s F @ r))" "frames_ok (sg_first s) F"
      "ms \<le> mc" "pointer_at env key s st (pd_current st) du F mc" "pointer_at env key s st (pd_synced st) du F ms"
      "acked_in acks (take ms F)"
  from resumed_writer_inv [OF n s F(1-5) re] obtain base h0 where
    "pw_inv plain_ops wi_inv (\<lambda>m. distinct (dkeys m)) key s base h0 (take mc F) ms env w" "ws_keyring ws' = ws_keyring ws"
    by blast
  moreover from this(2) s(2) have "dget (ws_keyring ws') (sg_key_id s) = Some key" by simp
  moreover have "acked_in acks (take ms (take mc F))" using F(3,6) by (simp add: min_def)
  ultimately show ?thesis unfolding writing_ok_def using s by blast
next
  assume n: "pd_current st = None"
  from re obtain c where "open_published_cursor env st None = PRet (CS_VALID, Some c)" by (rule resume_activated) blast
  then show ?thesis using n by (simp add: open_published_cursor_def read_current_def)
qed

lemma gc_file_cut:
  assumes l: "gc_log_ok ops wi ti key s base h0 fs0 st" and k: "k \<le> length (gs_file st)"
  shows "take k (gs_file st) = take k (wal_image key s (all_frames fs0 st))"
proof -
  obtain j where j: "gs_file st = wal_image key s (fs0 @ map snd (published st))
      @ take j (frames_bytes key (sg_scope s) (sg_segment s) (map snd (unpublished st)))"
    using l by (auto simp: gc_log_ok_def)
  have all: "all_frames fs0 st = (fs0 @ map snd (published st)) @ map snd (unpublished st)"
    by (simp add: all_frames_def flip: map_append)
  show ?thesis
    using k unfolding all wal_image_append [of key s "fs0 @ map snd (published st)"] j
    by (auto simp: min_def split: if_splits)
qed

lemma writing_death:
  assumes a: "writing_ok env key s acks w ws" and du: "gs_durable (pw_gc w) \<le> du" "du \<le> k" "k \<le> length (gs_file (pw_gc w))"
    and cur: "cur \<in> {pd_current (pw_store w), pd_synced (pw_store w)}"
    and ws': "ws' = ws\<lparr>ws_active := dput (sg_scope s, sg_segment s) (RegularFile (take k (gs_file (pw_gc w)))) (ws_active ws)\<rparr>"
  shows "rest_ok env key s (acks @ applied_answers (pw_gc w)) ((pw_store w)\<lparr>pd_current := cur\<rparr>) ws' du"
proof -
  let ?st = "pw_gc w"
  obtain base h0 fs0 m0 where i: "pw_inv plain_ops wi_inv (\<lambda>m. distinct (dkeys m)) key s base h0 fs0 m0 env w"
    and ac: "acked_in acks (take m0 fs0)"
    and s: "seg_id_ok s" "dget (ws_keyring ws) (sg_key_id s) = Some key" "dget (pe_keyring env) (sg_key_id s) = Some key"
    using a by (auto simp: writing_ok_def)
  let ?all = "all_frames fs0 ?st"
  obtain mc ms where gi: "gc_inv plain_ops wi_inv (\<lambda>m. distinct (dkeys m)) key s base h0 fs0 ?st"
    and pp: "pw_pointers env key s (length fs0) m0 (pw_store w) (gs_durable ?st) (gs_published ?st) ?all mc ms"
    using i by (auto simp: pw_inv_def Let_def)
  have l: "gc_log_ok plain_ops wi_inv (\<lambda>m. distinct (dkeys m)) key s base h0 fs0 ?st" using gi by (simp add: gc_inv_def)
  have ok: "frames_ok (sg_first s) ?all" using l by (simp add: gc_log_ok_def all_frames_def)
  obtain h where h: "abs_replay base h0 ?all = Inr (Inr h)" using l by (auto simp: gc_log_ok_def all_frames_def)
  have pt: "ms \<le> mc" "pointer_at env key s (pw_store w) (pd_current (pw_store w)) du ?all mc"
    "pointer_at env key s (pw_store w) (pd_synced (pw_store w)) du ?all ms" "m0 \<le> ms"
    "0 < gs_published ?st \<longrightarrow> length fs0 + gs_published ?st \<le> ms"
    using pp du(1) by (auto simp: pw_pointers_def pointer_at_def)
  have "length (wal_image key s (take mc ?all)) \<le> k" using pt(2) du(2) by (simp add: pointer_at_def)
  from image_cut [OF this, of "[]"] gc_file_cut [OF l du(3)] obtain r where
    r: "take k (gs_file ?st) = wal_image key s (take mc ?all) @ r" by auto
  have "set (take m0 fs0) \<subseteq> set (take ms ?all)"
    using pt(4) set_take_subset_set_take [of m0 ms fs0] by (auto simp: all_frames_def)
  then have a1: "acked_in acks (take ms ?all)" by (rule acked_in_mono [OF ac])
  have ans: "acked_in (applied_answers ?st) (map snd (published ?st))"
    using gi h by (intro acked_in_applied [of _ base h0 fs0]) (auto simp: gc_inv_def all_frames_def)
  have "set (map snd (published ?st)) \<subseteq> set (take ms ?all)"
  proof (cases "0 < gs_published ?st")
    case True
    with pt(5) have "gs_published ?st \<le> ms - length fs0" by simp
    from set_take_subset_set_take [OF this, of "gs_log ?st"] show ?thesis
      by (auto simp: all_frames_def take_map)
  qed simp
  then have a2: "acked_in (applied_answers ?st) (take ms ?all)" by (rule acked_in_mono [OF ans])
  have nd: "dget (ws_active ws') (sg_scope s, sg_segment s) = Some (RegularFile (wal_image key s (take mc ?all) @ r))"
    by (simp add: ws' dget_dput r)
  show ?thesis
    by (rule rest_kept [OF s(1) _ s(3) nd ok pt(1-3) _ cur]) (simp_all add: s ws' acked_in_append a1 a2)
qed

lemma pub_lives_ok:
  assumes "pub_lives env key s l acks" and e: "env_ok env" and n: "numpy_bits (ge_np (pe_gen env))"
  shows "life_ok env key s acks l"
  using assms(1)
proof induction
  case (pl_failed st ws du acks intended held u8 dev ino sc fault out ws' synced held' ws'')
  then show ?case using rest_resume_failed by auto
next
  case (pl_resumed st ws du acks intended held u8 dev ino sc fault w ws' synced held')
  then show ?case using rest_resumed [OF n] by auto
next
  case (pl_step w ws acks w')
  then show ?case unfolding life_ok.simps writing_ok_def using plain.pw_step_inv [OF pl_step(2) _ e] by blast
next
  case (pl_death w ws acks du k cur ws')
  then show ?case using writing_death by auto
next
  case (pl_power_loss st ws du acks b k ws')
  then show ?case using rest_power_loss by auto
qed simp_all

subsection \<open>What the lives promise\<close>

text \<open>What a life knows of an answered operation: a writer answers a retry from its memory and with
  the sequence number it had; at rest the synced pointer opens to a cursor whose prefix of the ACTIVE
  file reads back, and has the frame.\<close>

fun remembers :: "pub_env \<Rightarrow> bytes \<times> bytes \<times> int \<Rightarrow> scope_life \<Rightarrow> bool" where
  "remembers env (oid, d, q) (Writing w ws) \<longleftrightarrow>
     tx_check (ls_txindex (gs_snapshot (pw_gc w))) oid d = TxReplay \<and>
     tx_get_seq (ls_txindex (gs_snapshot (pw_gc w))) oid = Some q"
| "remembers env (oid, d, q) (Resting st ws du) \<longleftrightarrow>
     (\<exists>c op fid ver v. reopen env st (pd_synced st) = PRet (CS_VALID, Some c) \<and> content_digest op fid ver v = Inr d \<and>
        (\<forall>lim. wsd_durable_prefix_length (pc_active c) \<le> max_active_bytes lim \<longrightarrow>
           (\<exists>g. read_active_prefix ws (em_scope_id (pc_manifest c), sd_segment_id (pc_active c))
                  \<lparr>ape_byte_length = wsd_durable_prefix_length (pc_active c),
                   ape_sha256 = wsd_durable_prefix_sha256 (pc_active c)\<rparr> lim None = (AP_VALID, Some g)
                \<and> (op, q, oid, fid, ver, v) \<in> set (st_frames g))))"

definition answered :: "scope_life \<Rightarrow> (bytes \<times> bytes \<times> int) list" where
  "answered l = (case l of Writing w ws \<Rightarrow> applied_answers (pw_gc w) | Resting st ws du \<Rightarrow> [])"

lemma writing_remembers:
  assumes a: "writing_ok env key s acks w ws" and x: "x \<in> set (acks @ applied_answers (pw_gc w))"
  shows "remembers env x (Writing w ws)"
proof -
  let ?st = "pw_gc w"
  obtain oid d q where xe: "x = (oid, d, q)" by (cases x)
  obtain base h0 fs0 m0 where i: "pw_inv plain_ops wi_inv (\<lambda>m. distinct (dkeys m)) key s base h0 fs0 m0 env w"
    and ac: "acked_in acks (take m0 fs0)"
    using a by (auto simp: writing_ok_def)
  have l: "gc_log_ok plain_ops wi_inv (\<lambda>m. distinct (dkeys m)) key s base h0 fs0 ?st" and an: "gc_answers ?st"
    using i by (auto simp: pw_inv_def Let_def gc_inv_def)
  obtain h where h: "abs_replay base h0 (fs0 @ map snd (gs_log ?st)) = Inr (Inr h)" using l by (auto simp: gc_log_ok_def)
  obtain hp where sn: "snapshot_ok plain_ops key s base h0 (fs0 @ map snd (published ?st)) hp (gs_snapshot ?st) (gs_hasher ?st)"
    using l by (auto simp: gc_log_ok_def)
  have "acked_in acks (fs0 @ map snd (published ?st))" by (rule acked_in_mono [OF ac]) (auto dest: in_set_takeD)
  moreover have "acked_in (applied_answers ?st) (fs0 @ map snd (published ?st))"
    by (rule acked_in_mono [OF acked_in_applied [OF an h]]) auto
  ultimately have "acked_in (acks @ applied_answers ?st) (fs0 @ map snd (published ?st))" by (simp add: acked_in_append)
  then obtain op fid ver v where f: "(op, q, oid, fid, ver, v) \<in> set (fs0 @ map snd (published ?st))"
    "content_digest op fid ver v = Inr d"
    using x unfolding acked_in_def xe by blast
  have rp: "abs_replay base h0 (fs0 @ map snd (published ?st)) = Inr (Inr hp)" using sn by (simp add: snapshot_ok_def)
  from frame_in_history [OF rp f(1)] f(2) have "snd hp oid = Some (d, q)" by auto
  then show ?thesis using sn by (auto simp: xe snapshot_ok_def index_reads_def plain_ops_def)
qed

lemma rest_remembers:
  assumes a: "rest_ok env key s acks st ws du" and x: "x \<in> set acks"
  shows "remembers env x (Resting st ws du)"
proof -
  obtain oid d q where xe: "x = (oid, d, q)" by (cases x)
  obtain F r ms where s: "seg_id_ok s" "dget (ws_keyring ws) (sg_key_id s) = Some key"
    and nd: "dget (ws_active ws) (sg_scope s, sg_segment s) = Some (RegularFile (wal_image key s F @ r))"
    and ok: "frames_ok (sg_first s) F" and pt: "pointer_at env key s st (pd_synced st) du F ms" and ac: "acked_in acks (take ms F)"
    using a x unfolding rest_ok_def by auto
  obtain c where c: "reopen env st (pd_synced st) = PRet (CS_VALID, Some c)" "covers key s c (take ms F)"
    using pt by (auto simp: pointer_at_def)
  obtain op fid ver v where f: "(op, q, oid, fid, ver, v) \<in> set (take ms F)" "content_digest op fid ver v = Inr d"
    using ac x unfolding acked_in_def xe by blast
  obtain r1 where r1: "wal_image key s F = wal_image key s (take ms F) @ r1" using image_take by blast
  have okf: "frames_ok (sg_first s) (take ms F)" using ok append_take_drop_id [of ms F] by (metis frames_ok_simps(3))
  have nd': "dget (ws_active ws) (sg_scope s, sg_segment s) = Some (RegularFile (wal_image key s (take ms F) @ (r1 @ r)))"
    using nd r1 by simp
  have "\<exists>g. read_active_prefix ws (em_scope_id (pc_manifest c), sd_segment_id (pc_active c))
      \<lparr>ape_byte_length = wsd_durable_prefix_length (pc_active c), ape_sha256 = wsd_durable_prefix_sha256 (pc_active c)\<rparr> lim None
      = (AP_VALID, Some g) \<and> (op, q, oid, fid, ver, v) \<in> set (st_frames g)"
    if "wsd_durable_prefix_length (pc_active c) \<le> max_active_bytes lim" for lim
    using read_active_prefix_image [OF s(1) okf s(2) nd', of lim] that c(2) f(1) by (simp add: covers_def)
  then show ?thesis using c(1) f(2) unfolding xe remembers.simps by blast
qed

lemma life_remembers:
  assumes "pub_lives env key s l acks" "env_ok env" "numpy_bits (ge_np (pe_gen env))"
  shows "\<forall>x \<in> set (acks @ answered l). remembers env x l"
  using pub_lives_ok [OF assms] writing_remembers rest_remembers by (cases l) (auto simp: answered_def)

text \<open>A recovery that found a published generation can always be resumed.\<close>

lemma recovered_segment:
  assumes n: "numpy_bits (ge_np (pe_gen env))" and r: "recover_scope env glim st ws sc = PRet r" "rec_state r = RS_RECOVERED"
  obtains c h b ph where "open_published_cursor env st (rc_current sc) = PRet (CS_VALID, Some c)" "rec_handle r = Some h"
    "rec_cursor r = Some c" "rec_plan r = Some (plan_of c ph)" "dget (pe_keyring env) (wsd_key_id (pc_active c)) \<noteq> None"
    "dget (ws_active ws) (em_scope_id (pc_manifest c), sd_segment_id (pc_active c)) = Some (RegularFile b)"
    "0 < wsd_durable_prefix_length (pc_active c)" "wsd_durable_prefix_length (pc_active c) \<le> int (length b)"
    "sha256 (take (nat (wsd_durable_prefix_length (pc_active c))) b) = wsd_durable_prefix_sha256 (pc_active c)"
proof -
  from recover_recovered [OF r] obtain c oh ph where o: "open_published_cursor env st (rc_current sc) = PRet (CS_VALID, Some c)"
    "open_generation (recovery_gen_env env glim (pd_objects st) ws) (Some (pc_manifest_blob c)) = Inr (G_VALID, oh)"
    "r = \<lparr>rec_state = RS_RECOVERED, rec_handle = oh, rec_cursor = Some c, rec_plan = Some (plan_of c ph)\<rparr>"
    unfolding plan_of_def by metis
  let ?genv = "recovery_gen_env env glim (pd_objects st) ws"
  have np: "numpy_bits (ge_np ?genv)" using n by (simp add: recovery_gen_env_def)
  have pm: "parse_manifest (Some (pc_manifest_blob c)) (ge_keyring ?genv) = (G_VALID, Some (pc_manifest c))"
    using opened_cursor_ok [OF o(1)] by (simp add: recovery_gen_env_def)
  have act: "em_segments (pc_manifest c) \<noteq> []" "pc_active c = last (em_segments (pc_manifest c))"
    "wsd_status (pc_active c) = STATE_ACTIVE"
    using open_cursor_valid [OF open_cursor_unfaulted [OF o(1)]] cursor_of_pointer_valid by metis+
  from opened_active_segment [OF np o(2) pm act(1)] obtain h g where
    g: "oh = Some h" "segment_read ?genv (em_scope_id (pc_manifest c)) (pc_active c) g"
      "dget (ge_keyring ?genv) (wsd_key_id (pc_active c)) \<noteq> None"
    unfolding act(2) by metis
  have rd: "read_active_prefix ws (em_scope_id (pc_manifest c), sd_segment_id (pc_active c))
      \<lparr>ape_byte_length = wsd_durable_prefix_length (pc_active c), ape_sha256 = wsd_durable_prefix_sha256 (pc_active c)\<rparr>
      (wal_limits (ge_gen_limits ?genv)) (ge_fault ?genv (pc_active c)) = (AP_VALID, Some g)"
    using g(2) act(3) by (simp add: segment_read_def read_validated_segment_def recovery_gen_env_def)
  then obtain b where "dget (ws_active ws) (em_scope_id (pc_manifest c), sd_segment_id (pc_active c)) = Some (RegularFile b)"
    "0 < wsd_durable_prefix_length (pc_active c)" "wsd_durable_prefix_length (pc_active c) \<le> int (length b)"
    "sha256 (take (nat (wsd_durable_prefix_length (pc_active c))) b) = wsd_durable_prefix_sha256 (pc_active c)"
    by (auto simp: read_active_prefix_def check_prefix_def split: if_splits option.splits file_node.splits)
  then show thesis
    using o(1,3) g(1,3) by (intro that [of c h ph b]) (auto simp: recovery_gen_env_def)
qed

lemma resume_succeeds:
  assumes n: "numpy_bits (ge_np (pe_gen env))" and r: "recover_scope env DEFAULT_GENERATION_LIMITS st ws sc = PRet r" "rec_state r = RS_RECOVERED"
    and h: "pd_scope st = Some scope" "\<not> held scope"
  shows "\<exists>w ws' c plan b. resume_from_recovery env r st ws durable held u8 dev ino sc None
      = (PRet (AS_ACTIVATED, Some w), ws', True, held(scope := True)) \<and>
    rec_cursor r = Some c \<and> rec_plan r = Some plan \<and> pw_cursor w = Some c \<and> pw_store w = st \<and>
    dget (ws_active ws) (wrp_identity plan) = Some (RegularFile b) \<and>
    gs_file (pw_gc w) = take (nat (wrp_published_length plan)) b \<and> sha256 (gs_file (pw_gc w)) = wrp_published_sha256 plan \<and>
    dget (ws_active ws') (wrp_identity plan) = Some (RegularFile (gs_file (pw_gc w))) \<and>
    ls_visible_through_seq (gs_snapshot (pw_gc w)) + 1 = wrp_resume_seq plan"
proof -
  from recovered_segment [OF n r] obtain c gh ph b key where
    c: "rec_handle r = Some gh" "rec_cursor r = Some c" "rec_plan r = Some (plan_of c ph)"
      "dget (pe_keyring env) (wsd_key_id (pc_active c)) = Some key"
      "dget (ws_active ws) (em_scope_id (pc_manifest c), sd_segment_id (pc_active c)) = Some (RegularFile b)"
      "0 < wsd_durable_prefix_length (pc_active c)" "wsd_durable_prefix_length (pc_active c) \<le> int (length b)"
      "sha256 (take (nat (wsd_durable_prefix_length (pc_active c))) b) = wsd_durable_prefix_sha256 (pc_active c)"
    by (metis not_None_eq)
  let ?n = "wsd_durable_prefix_length (pc_active c)"
  have v: "verify_and_truncate_fd (RegularFile b) ?n (wsd_durable_prefix_sha256 (pc_active c)) None
      = (Ret True, RegularFile (take (nat ?n) b), True)"
    using c(6-8) by (auto simp: verify_and_truncate_fd_def Let_def)
  let ?l = "\<lparr>le_scope_id = scope, le_state = OWNED_BY_STORE, le_sealed = True\<rparr>"
  let ?w = "resumed_writer st c gh (plan_of c ph) key (take (nat ?n) b)
      (if RegularFile (take (nat ?n) b) = RegularFile b then min durable (length (take (nat ?n) b)) else length (take (nat ?n) b)) u8 ?l dev ino"
  have fd: "resume_on_fd st ws durable c (Some gh) (plan_of c ph) key u8 ?l dev ino None
      = (PRet (AS_ACTIVATED, Some ?w),
         ws\<lparr>ws_active := dput (em_scope_id (pc_manifest c), sd_segment_id (pc_active c)) (RegularFile (take (nat ?n) b)) (ws_active ws)\<rparr>,
         True)"
    using c(5) v by (simp add: resume_on_fd_def plan_of_def Let_def)
  have ex: "dget (pe_keyring env) (wrp_key_id (plan_of c ph)) = Some key" using c(4) by (simp add: plan_of_def)
  have "resume_from_recovery env r st ws durable held u8 dev ino sc None
      = (PRet (AS_ACTIVATED, Some ?w),
         ws\<lparr>ws_active := dput (em_scope_id (pc_manifest c), sd_segment_id (pc_active c)) (RegularFile (take (nat ?n) b)) (ws_active ws)\<rparr>,
         True, held(scope := True))"
    using h r c(1-3) ex fd by (simp add: resume_from_recovery_def lease_acquire_def Let_def)
  moreover have "pw_cursor ?w = Some c" "pw_store ?w = st" "gs_file (pw_gc ?w) = take (nat ?n) b"
    "ls_visible_through_seq (gs_snapshot (pw_gc ?w)) + 1 = wrp_resume_seq (plan_of c ph)"
    "wrp_identity (plan_of c ph) = (em_scope_id (pc_manifest c), sd_segment_id (pc_active c))"
    "wrp_published_length (plan_of c ph) = ?n" "wrp_published_sha256 (plan_of c ph) = wsd_durable_prefix_sha256 (pc_active c)"
    by (simp_all add: resumed_writer_def gc_boot_def Let_def plan_of_def)
  ultimately show ?thesis using c(2,3,5,8) by (intro exI conjI) (auto simp: dget_dput)
qed

end
