(* ===== verification/RecoveryProperties.thy ===== *)
theory RecoveryProperties
  imports RecoveryLives PublicationProperties
begin

section \<open>Properties of the published writer and its recovery\<close>

text \<open>
  The properties of a scope across deaths, recoveries and resumes. The witnesses use the scope of
  \<open>PublicationProperties\<close>, before its genesis.
\<close>

definition seg5 :: seg_id where
  "seg5 = \<lparr>sg_scope = 3, sg_segment = 1, sg_first = 7, sg_key_id = 1, sg_prev = ZERO16\<rparr>"

definition ws5 :: wal_store where
  "ws5 = \<lparr>ws_active = [((3, 1), RegularFile (wal_image [7] seg5 [] @ [1, 2]))], ws_objects = [], ws_keyring = [(1, [7])]\<rparr>"

definition script5 :: recover_script where
  "script5 = \<lparr>rc_current = None, rc_stat_raises = False, rc_link = None\<rparr>"

text \<open>A result that a caller took at some earlier time.\<close>

definition recovered5 :: scope_recovery where
  "recovered5 = \<lparr>rec_state = RS_RECOVERED, rec_handle = None, rec_cursor = Some cursor4, rec_plan = Some (plan_of cursor4 67)\<rparr>"

lemma seg5_ok: "seg_id_ok seg5"
  by (simp add: seg_id_ok_def seg5_def u32_def)

lemma env4_numpy: "numpy_bits (ge_np (pe_gen env4))"
  using npc.numpy_bits_axioms by (simp add: env4_def)

lemma recover5: "recover_scope env4 glim st4 ws script5 = PRet (RecoveryFailed RS_NO_CURRENT None)"
  by (simp add: recover_scope_def open_published_cursor_def read_current_def st4_def script5_def)

lemma rest5: "rest_ok env4 [7] seg5 [] st4 ws5 0"
  using seg5_ok by (simp add: rest_ok_def st4_def ws5_def seg5_def env4_def)



text \<open>C2: A resume only ever cuts unpublished bytes. Whatever fails or dies in it, the object store, the key
  ring and all other files stay, and the ACTIVE file of the published cursor either keeps its bytes or
  was longer than the published prefix and is cut to exactly that prefix, whose digest is the published
  one. Unless the cursor CURRENT opens to under the lease names the publication the caller saw, nothing
  changes and no writer is returned; a writer is returned only with the lease taken.\<close>

theorem resume_cuts_only_tail:
  assumes "resume_from_recovery env intended st ws durable held u8 dev ino sc fault = (out, ws', synced, held')"
  shows "ws' = ws \<and> (\<forall>w. out \<noteq> PRet (AS_ACTIVATED, w))
    \<or> (\<exists>c intent scope. open_published_cursor env st None = PRet (CS_VALID, Some c) \<and> rec_cursor intended = Some intent
         \<and> pp_publication_sha256 (pc_proof c) = pp_publication_sha256 (pc_proof intent)
         \<and> pd_scope st = Some scope \<and> \<not> held scope
         \<and> cut_to_prefix (em_scope_id (pc_manifest c), sd_segment_id (pc_active c)) (wsd_durable_prefix_length (pc_active c))
             (wsd_durable_prefix_sha256 (pc_active c)) ws ws'
         \<and> (\<forall>w. out = PRet (AS_ACTIVATED, w) \<longrightarrow> held' = held(scope := True)))"
  using assms
proof (cases rule: resume_cases)
  case (decided scope lease fresh c plan key intent q)
  from recover_recovered [OF decided(6,7)] obtain ph where
    o: "open_published_cursor env st (rc_current sc) = PRet (CS_VALID, Some c)" "plan = plan_of c ph"
    unfolding plan_of_def using decided(8,9)
    by (metis option.inject scope_recovery.select_convs(3) scope_recovery.select_convs(4))
  have "cut_to_prefix (wrp_identity plan) (wrp_published_length plan) (wrp_published_sha256 plan) ws ws'"
    using decided by (intro resume_on_fd_cuts)
  then show ?thesis
    using open_cursor_unfaulted [OF o(1)] decided(1,2,4,10,14) by (auto simp: o(2) plan_of_def)
qed blast

theorem resume_cuts_only_tail_witness:
  "\<exists>out held'. resume_from_recovery env4 recovered5 st4 ws5 0 (\<lambda>_. False) False 1 2 script5 (Some RF_Sync) = (out, ws5, True, held')"
proof -
  obtain out ws' sy h' where r: "resume_from_recovery env4 recovered5 st4 ws5 0 (\<lambda>_. False) False 1 2 script5 (Some RF_Sync) = (out, ws', sy, h')"
    by (cases "resume_from_recovery env4 recovered5 st4 ws5 0 (\<lambda>_. False) False 1 2 script5 (Some RF_Sync)")
  have n: "\<not> open_published_cursor env4 st4 None = PRet (CS_VALID, Some c)" for c
    by (simp add: open_published_cursor_def read_current_def st4_def)
  from resume_cuts_only_tail [OF r] n have "ws' = ws5" by blast
  moreover have "sy = True"
    using r recover5 by (auto simp: resume_from_recovery_def recovered5_def st4_def lease_acquire_def split: prod.splits)
  ultimately show ?thesis using r by blast
qed



end
