(* ===== verification/GcPlan.thy ===== *)
theory GcPlan
  imports Publishers Recovery
begin

section \<open>Reachability for the garbage collector (\<open>horizon_gc.py\<close>)\<close>

text \<open>
  What a collection may not take: from the roots (the publication of \<open>CURRENT\<close>, the retained
  ancestors, the pinned publications, the objects of prepared packages) the closure of each
  publication is its record, its manifest, the five artifacts, the sealed segments and the ACTIVE
  file, and the generation has to open; every doubt aborts the plan. The lemmas show that opening
  a publication depends on its closure alone.
\<close>

subsection \<open>Items\<close>

datatype gc_kind = GC_OBJECT | GC_ACTIVE

type_synonym gc_item = "gc_kind \<times> bytes"

definition hex_digit :: "int \<Rightarrow> 8 word" where
  "hex_digit n = word_of_int (if n < 10 then 48 + n else 87 + n)"

definition hex :: "bytes \<Rightarrow> bytes" where
  "hex b = concat (map (\<lambda>x. [hex_digit (uint x div 16), hex_digit (uint x mod 16)]) b)"

definition hex32 :: "int \<Rightarrow> bytes" where
  "hex32 v = hex (rev (le_bytes 4 v))"

definition obj_item :: "bytes \<Rightarrow> gc_item" where
  "obj_item digest = (GC_OBJECT, hex digest)"

definition active_item :: "int \<Rightarrow> int \<Rightarrow> gc_item" where
  "active_item scope_id segment_id = (GC_ACTIVE, hex32 scope_id @ ascii '':'' @ hex32 segment_id)"

text \<open>The encoding of an item in the digest of a plan; its order is the order of the pairs.\<close>

fun kind_name :: "gc_kind \<Rightarrow> bytes" where
  "kind_name GC_OBJECT = ascii ''object''"
| "kind_name GC_ACTIVE = ascii ''active''"

definition item_code :: "gc_item \<Rightarrow> bytes" where
  "item_code it = kind_name (fst it) @ [0] @ snd it @ [0]"

definition sorted_items :: "gc_item list \<Rightarrow> gc_item list" where
  "sorted_items its = sort_key item_code (remdups its)"

subsection \<open>Roots and plans\<close>

record gc_roots =
  ro_current :: bytes
  ro_pinned :: "bytes list"
  ro_retained :: "bytes list"
  ro_objects :: "bytes list"
  ro_actives :: "(int \<times> int) list"

fun distinct_digests :: "bytes list \<Rightarrow> bytes list \<Rightarrow> bytes list" where
  "distinct_digests [] seen = []"
| "distinct_digests (d # ds) seen =
     (if d \<noteq> [] \<and> d \<notin> set seen then d # distinct_digests ds (d # seen) else distinct_digests ds seen)"

definition all_publication_digests :: "gc_roots \<Rightarrow> bytes list" where
  "all_publication_digests r = distinct_digests (ro_current r # ro_pinned r @ ro_retained r) []"

datatype gc_state = GC_PLANNED | GC_NO_CURRENT | GC_ABORTED_CORRUPT | GC_ABORTED_MISSING | GC_ABORTED_LIMIT

record reach_plan =
  gp_reachable :: "gc_item list"
  gp_unreachable :: "gc_item list"
  gp_digest :: bytes

definition GC_PLAN_DOMAIN :: bytes where
  "GC_PLAN_DOMAIN = ascii ''HORIZON-GC-PLAN-v1''"

definition canonical_plan_digest :: "gc_item list \<Rightarrow> gc_item list \<Rightarrow> gc_item list \<Rightarrow> bytes" where
  "canonical_plan_digest reachable unreachable deferred =
     (let part = (\<lambda>label s. ascii label @ le_bytes 4 (int (length (remdups s))) @ concat (map item_code (sorted_items s)))
      in sha256 (GC_PLAN_DOMAIN @ part ''R'' reachable @ part ''U'' unreachable @ part ''D'' deferred))"

text \<open>What is there: the objects directory and the regular ACTIVE files.\<close>

definition enumerate_objects :: "object_store \<Rightarrow> gc_item list" where
  "enumerate_objects objs = map obj_item (dkeys objs)"

definition enumerate_active :: "wal_store \<Rightarrow> gc_item list" where
  "enumerate_active ws = map (\<lambda>((sc, seg), nd). active_item sc seg)
     (filter (\<lambda>(ident, nd). case nd of RegularFile _ \<Rightarrow> True | _ \<Rightarrow> False) (ws_active ws))"

subsection \<open>The closure of a publication\<close>

record reach_limits =
  rh_max_object_bytes :: int
  rh_max_nodes :: int

definition DEFAULT_REACH_LIMITS :: reach_limits where
  "DEFAULT_REACH_LIMITS = \<lparr>rh_max_object_bytes = 2 ^ 30, rh_max_nodes = 100000\<rparr>"

text \<open>An abort of the traversal, or an exception that leaves it.\<close>

datatype 'a reach_out = RoOk 'a | RoAbort gc_state | RoRaise pub_exn

fun segment_items :: "int \<Rightarrow> wal_segment_descriptor list \<Rightarrow> gc_item list option" where
  "segment_items scope_id [] = Some []"
| "segment_items scope_id (s # ss) =
     (if wsd_status s = STATE_SEALED then
        (if wsd_sealed_object_sha256 s = ZERO32 then None
         else map_option (Cons (obj_item (wsd_sealed_object_sha256 s))) (segment_items scope_id ss))
      else if wsd_status s = STATE_ACTIVE then
        map_option (Cons (active_item scope_id (sd_segment_id s))) (segment_items scope_id ss)
      else None)"

definition manifest_items :: "epoch_manifest \<Rightarrow> gc_item list option" where
  "manifest_items man =
     (if \<not> list_all (\<lambda>k. dget (em_base_descriptors man) k \<noteq> None) BASE_KINDS then None
      else map_option (\<lambda>its. map (\<lambda>k. obj_item (ad_sha256 (the (dget (em_base_descriptors man) k)))) BASE_KINDS @ its)
             (segment_items (em_scope_id man) (em_segments man)))"

definition reach_from_publication ::
  "pub_env \<Rightarrow> reach_limits \<Rightarrow> object_store \<Rightarrow> wal_store \<Rightarrow> bytes \<Rightarrow> gc_item list reach_out" where
  "reach_from_publication env lim objs ws pub_digest =
     (let rr = get_limited objs pub_digest (rh_max_object_bytes lim) (ge_changed (pe_gen env) pub_digest)
      in if \<not> or_ok rr then RoAbort GC_ABORTED_MISSING
         else
           (case parse_publication_record (or_blob rr) (pe_keyring env) of
              (PS_VALID, Some record) \<Rightarrow>
                (let msha = pub_manifest_sha256 record;
                     mr = get_limited objs msha (rh_max_object_bytes lim) (ge_changed (pe_gen env) msha)
                 in if \<not> or_ok mr then RoAbort GC_ABORTED_MISSING
                    else
                      (let blob = the (or_blob mr)
                       in if sha256 blob \<noteq> msha then RoAbort GC_ABORTED_CORRUPT
                          else
                            (case parse_manifest (Some blob) (pe_keyring env) of
                               (G_VALID, Some man) \<Rightarrow>
                                 (case open_generation (recovery_gen_env env DEFAULT_GENERATION_LIMITS objs ws) (Some blob) of
                                    Inl e \<Rightarrow> RoRaise (PubGenExn e)
                                  | Inr (G_VALID, Some h) \<Rightarrow>
                                      if gh_scope_id h \<noteq> em_scope_id man \<or> gh_generation_id h \<noteq> em_generation_id man
                                        \<or> gh_fact_count h \<noteq> em_fact_count man then RoAbort GC_ABORTED_CORRUPT
                                      else
                                        (case manifest_items man of
                                           None \<Rightarrow> RoAbort GC_ABORTED_CORRUPT
                                         | Some its \<Rightarrow> RoOk (obj_item pub_digest # obj_item msha # its))
                                  | Inr _ \<Rightarrow> RoAbort GC_ABORTED_CORRUPT)
                             | _ \<Rightarrow> RoAbort GC_ABORTED_CORRUPT)))
            | _ \<Rightarrow> RoAbort GC_ABORTED_CORRUPT))"

text \<open>All publications, within the budget of nodes.\<close>

fun reach_all ::
  "(bytes \<Rightarrow> gc_item list reach_out) \<Rightarrow> int \<Rightarrow> bytes list \<Rightarrow> gc_item list reach_out" where
  "reach_all reach budget [] = RoOk []"
| "reach_all reach budget (d # ds) =
     (if budget - 1 < 0 then RoAbort GC_ABORTED_LIMIT
      else
        (case reach d of
           RoAbort s \<Rightarrow> RoAbort s
         | RoRaise e \<Rightarrow> RoRaise e
         | RoOk its \<Rightarrow>
             (case reach_all reach (budget - 1) ds of
                RoAbort s \<Rightarrow> RoAbort s
              | RoRaise e \<Rightarrow> RoRaise e
              | RoOk its' \<Rightarrow> RoOk (its @ its'))))"

subsection \<open>The roots\<close>

text \<open>The ancestors of \<open>d\<close> that \<open>n\<close> further publications keep.\<close>

fun retained_chain ::
  "pub_env \<Rightarrow> reach_limits \<Rightarrow> object_store \<Rightarrow> nat \<Rightarrow> bytes \<Rightarrow> gc_state + bytes list" where
  "retained_chain env lim objs 0 d = Inr []"
| "retained_chain env lim objs (Suc n) d =
     (let rr = get_limited objs d (rh_max_object_bytes lim) (ge_changed (pe_gen env) d)
      in if \<not> or_ok rr then Inl GC_ABORTED_MISSING
         else
           (case parse_publication_record (or_blob rr) (pe_keyring env) of
              (PS_VALID, Some rec) \<Rightarrow>
                if pub_previous_sha256 rec = ZERO32 then Inr []
                else
                  (let prev = pub_previous_sha256 rec;
                       pr = get_limited objs prev (rh_max_object_bytes lim) (ge_changed (pe_gen env) prev)
                   in if \<not> or_ok pr then Inl GC_ABORTED_MISSING
                      else
                        (case parse_publication_record (or_blob pr) (pe_keyring env) of
                           (PS_VALID, Some _) \<Rightarrow>
                             (case retained_chain env lim objs n prev of Inl s \<Rightarrow> Inl s | Inr ds \<Rightarrow> Inr (prev # ds))
                         | _ \<Rightarrow> Inl GC_ABORTED_CORRUPT))
            | _ \<Rightarrow> Inl GC_ABORTED_CORRUPT))"

definition compute_roots ::
  "pub_env \<Rightarrow> reach_limits \<Rightarrow> pub_store \<Rightarrow> bytes list \<Rightarrow> int \<Rightarrow> bytes list \<times> (int \<times> int) list \<Rightarrow> read_fault option
     \<Rightarrow> gc_roots reach_out" where
  "compute_roots env lim st pinned retention prepared fault =
     (case read_current (pd_current st) (pe_keyring env) (pe_max_current_bytes env) fault of
        PRaise e \<Rightarrow> RoRaise e
      | PRet (PS_MISSING, _) \<Rightarrow> RoAbort GC_NO_CURRENT
      | PRet (PS_VALID, Some cur) \<Rightarrow>
          (case retained_chain env lim (pd_objects st) (nat (max 1 retention - 1)) (cp_publication_sha256 cur) of
             Inl s \<Rightarrow> RoAbort s
           | Inr retained \<Rightarrow>
               RoOk \<lparr>ro_current = cp_publication_sha256 cur, ro_pinned = pinned, ro_retained = retained,
                 ro_objects = fst prepared, ro_actives = snd prepared\<rparr>)
      | _ \<Rightarrow> RoAbort GC_ABORTED_CORRUPT)"

subsection \<open>The plan\<close>

definition plan_reachability ::
  "pub_env \<Rightarrow> reach_limits \<Rightarrow> object_store \<Rightarrow> wal_store \<Rightarrow> gc_roots \<Rightarrow> reach_plan reach_out" where
  "plan_reachability env lim objs ws roots =
     (case reach_all (reach_from_publication env lim objs ws) (rh_max_nodes lim) (all_publication_digests roots) of
        RoAbort s \<Rightarrow> RoAbort s
      | RoRaise e \<Rightarrow> RoRaise e
      | RoOk its \<Rightarrow>
          (let reachable = its @ map obj_item (ro_objects roots) @ map (\<lambda>(sc, seg). active_item sc seg) (ro_actives roots);
               present = enumerate_objects objs @ enumerate_active ws;
               reachable_present = filter (\<lambda>it. it \<in> set present) reachable;
               unreachable = filter (\<lambda>it. it \<notin> set reachable) present
           in RoOk \<lparr>gp_reachable = reachable_present, gp_unreachable = unreachable,
                gp_digest = canonical_plan_digest reachable_present unreachable []\<rparr>))"

subsection \<open>Opening depends on the closure alone\<close>

lemma get_limited_cong: "dget objs' d = dget objs d \<Longrightarrow> get_limited objs' d m c = get_limited objs d m c"
  by (simp add: get_limited_def)

lemma open_base_components_cong:
  assumes "\<And>k d. dget ds k = Some d \<Longrightarrow> opn' d = opn d"
  shows "open_base_components opn' ds ks = open_base_components opn ds ks"
  by (induction ks) (auto simp: assms split: option.splits sum.splits)

lemma read_segment_cong:
  assumes "ws_active ws' = ws_active ws" "ws_keyring ws' = ws_keyring ws"
    and "wsd_status s = STATE_SEALED \<Longrightarrow> dget (ws_objects ws') (wsd_sealed_object_sha256 s) = dget (ws_objects ws) (wsd_sealed_object_sha256 s)"
  shows "read_validated_segment ws' s sc lim f = read_validated_segment ws s sc lim f"
proof -
  have p: "read_active_prefix ws' ident ex lim f = read_active_prefix ws ident ex lim f" for ident ex
    unfolding read_active_prefix_def assms(1,2) ..
  show ?thesis
  proof (cases "wsd_status s = STATE_SEALED")
    case True
    then have "open_sealed ws' (wsd_sealed_object_sha256 s) lim f = open_sealed ws (wsd_sealed_object_sha256 s) lim f"
      unfolding open_sealed_def by (simp only: assms(3))
    then show ?thesis unfolding read_validated_segment_def Let_def assms(2) p by (elim ssubst) (rule refl)
  next
    case False
    then show ?thesis unfolding read_validated_segment_def Let_def p by simp
  qed
qed

lemma replay_segments_cong:
  assumes "\<And>s. s \<in> set ss \<Longrightarrow> read_validated_segment ws' s sc lim (f s) = read_validated_segment ws s sc lim (f s)"
  shows "replay_segments ws' kr sc lim f ss red = replay_segments ws kr sc lim f ss red"
  using assms
proof (induction ss arbitrary: red)
  case (Cons s ss)
  have "read_validated_segment ws' s sc lim (f s) = read_validated_segment ws s sc lim (f s)" using Cons.prems by simp
  moreover have "replay_segments ws' kr sc lim f ss r = replay_segments ws kr sc lim f ss r" for r using Cons by simp
  ultimately show ?case by (simp cong: if_cong option.case_cong prod.case_cong active_prefix_state.case_cong sum.case_cong)
qed simp

text \<open>The stores agree on the closure of a manifest.\<close>

definition same_files :: "wal_store \<Rightarrow> wal_store \<Rightarrow> bool" where
  "same_files ws ws' \<longleftrightarrow> ws_active ws' = ws_active ws \<and> ws_keyring ws' = ws_keyring ws"

lemma open_generation_cong:
  assumes p: "parse_manifest (Some mb) (pe_keyring env) = (G_VALID, Some man)" and ws: "same_files ws ws'"
    and o: "\<And>k d. dget (em_base_descriptors man) k = Some d \<Longrightarrow> dget objs' (ad_sha256 d) = dget objs (ad_sha256 d)"
    and s: "\<And>s. s \<in> set (em_segments man) \<Longrightarrow> wsd_status s = STATE_SEALED \<Longrightarrow>
      dget (ws_objects ws') (wsd_sealed_object_sha256 s) = dget (ws_objects ws) (wsd_sealed_object_sha256 s)"
  shows "open_generation (recovery_gen_env env lim objs' ws') (Some mb) = open_generation (recovery_gen_env env lim objs ws) (Some mb)"
proof -
  let ?e = "recovery_gen_env env lim objs ws" and ?e' = "recovery_gen_env env lim objs' ws'"
  have f: "ge_np ?e' = ge_np ?e" "ge_changed ?e' = ge_changed ?e" "ge_limits ?e' = ge_limits ?e" "ge_keyring ?e' = ge_keyring ?e"
    "ge_gen_limits ?e' = ge_gen_limits ?e" "ge_reducer_limits ?e' = ge_reducer_limits ?e" "ge_parent ?e' = ge_parent ?e"
    "ge_fault ?e' = ge_fault ?e" "ge_objects ?e' = objs'" "ge_objects ?e = objs" "ge_wal ?e' = ws'" "ge_wal ?e = ws"
    by (simp_all add: recovery_gen_env_def)
  have pm: "parse_manifest (Some mb) (ge_keyring ?e) = (G_VALID, Some man)" using p by (simp add: recovery_gen_env_def)
  have "open_base_artifact (ge_np ?e) d objs' c l kr = open_base_artifact (ge_np ?e) d objs c l kr"
    if "dget (em_base_descriptors man) k = Some d" for k d c l kr
    using get_limited_cong [OF o [OF that]] by (simp add: open_base_artifact_def)
  then have ob: "open_base_components (\<lambda>d. open_base_artifact (ge_np ?e) d objs' c l kr) (em_base_descriptors man) ks
      = open_base_components (\<lambda>d. open_base_artifact (ge_np ?e) d objs c l kr) (em_base_descriptors man) ks" for c l kr ks
    by (rule open_base_components_cong)
  have "replay_segments ws' kr sc wl fl (em_segments man) red = replay_segments ws kr sc wl fl (em_segments man) red" for kr sc wl fl red
    using ws s by (intro replay_segments_cong read_segment_cong) (auto simp: same_files_def)
  note rp = this
  have rg: "replay_generation ?e' man bun d = replay_generation ?e man bun d" for bun d
    unfolding replay_generation_def f rp ..
  have ov: "open_over_base ?e' man parts = open_over_base ?e man parts" for parts
    unfolding open_over_base_def f rg ..
  show ?thesis unfolding open_generation_def f pm prod.case generation_state.case option.case ob ov ..
qed

lemma segment_items_sealed:
  "segment_items sc ss = Some its \<Longrightarrow> s \<in> set ss \<Longrightarrow> wsd_status s = STATE_SEALED \<Longrightarrow>
   obj_item (wsd_sealed_object_sha256 s) \<in> set its"
  by (induction ss arbitrary: its) (auto split: if_splits)

lemma manifest_items_closure:
  assumes "manifest_items man = Some its"
  shows "dget (em_base_descriptors man) k = Some d \<Longrightarrow> obj_item (ad_sha256 d) \<in> set its"
    and "s \<in> set (em_segments man) \<Longrightarrow> wsd_status s = STATE_SEALED \<Longrightarrow> obj_item (wsd_sealed_object_sha256 s) \<in> set its"
proof -
  obtain is2 where i: "its = map (\<lambda>k. obj_item (ad_sha256 (the (dget (em_base_descriptors man) k)))) BASE_KINDS @ is2"
    "segment_items (em_scope_id man) (em_segments man) = Some is2"
    using assms by (auto simp: manifest_items_def split: if_splits)
  show "obj_item (ad_sha256 d) \<in> set its" if d: "dget (em_base_descriptors man) k = Some d"
  proof -
    have "obj_item (ad_sha256 (the (dget (em_base_descriptors man) k))) \<in> set its" by (simp add: i(1))
    then show ?thesis by (simp add: d)
  qed
  show "s \<in> set (em_segments man) \<Longrightarrow> wsd_status s = STATE_SEALED \<Longrightarrow> obj_item (wsd_sealed_object_sha256 s) \<in> set its"
    using segment_items_sealed [OF i(2)] by (auto simp: i(1))
qed

text \<open>A traversal that succeeded opened the generation.\<close>

lemma reached:
  assumes "reach_from_publication env lim objs ws d = RoOk its"
  obtains r man blob h its' where "dget objs d \<noteq> None" "parse_publication_record (dget objs d) (pe_keyring env) = (PS_VALID, Some r)"
    "dget objs (pub_manifest_sha256 r) = Some blob" "sha256 blob = pub_manifest_sha256 r"
    "parse_manifest (Some blob) (pe_keyring env) = (G_VALID, Some man)"
    "open_generation (recovery_gen_env env DEFAULT_GENERATION_LIMITS objs ws) (Some blob) = Inr (G_VALID, Some h)"
    "manifest_items man = Some its'" "its = obj_item d # obj_item (pub_manifest_sha256 r) # its'"
    "or_ok (get_limited objs d (rh_max_object_bytes lim) (ge_changed (pe_gen env) d))"
    "or_ok (get_limited objs (pub_manifest_sha256 r) (rh_max_object_bytes lim) (ge_changed (pe_gen env) (pub_manifest_sha256 r)))"
    "gh_scope_id h = em_scope_id man" "gh_generation_id h = em_generation_id man" "gh_fact_count h = em_fact_count man"
proof -
  note a = assms [unfolded reach_from_publication_def Let_def]
  let ?rr = "get_limited objs d (rh_max_object_bytes lim) (ge_changed (pe_gen env) d)"
  have ok: "or_ok ?rr" using a by (auto split: if_splits)
  then have rb: "dget objs d \<noteq> None" "or_blob ?rr = dget objs d"
    by (auto simp: get_limited_def split: option.splits if_splits)
  have nn: "\<not> \<not> or_ok ?rr" using ok by simp
  note a2 = a [unfolded if_not_P [OF nn] rb(2)]
  obtain r where r: "parse_publication_record (dget objs d) (pe_keyring env) = (PS_VALID, Some r)"
    using a2 by (auto split: prod.splits publication_state.splits option.splits)
  note a3 = a2 [unfolded r prod.case publication_state.case option.case]
  let ?mr = "get_limited objs (pub_manifest_sha256 r) (rh_max_object_bytes lim) (ge_changed (pe_gen env) (pub_manifest_sha256 r))"
  have mok: "\<not> \<not> or_ok ?mr" using a3 by (auto split: if_splits)
  then obtain blob where b: "dget objs (pub_manifest_sha256 r) = Some blob" "or_blob ?mr = Some blob"
    by (auto simp: get_limited_def split: option.splits if_splits)
  note a4 = a3 [unfolded if_not_P [OF mok] b(2) option.sel]
  have sh: "\<not> sha256 blob \<noteq> pub_manifest_sha256 r" using a4 by (auto split: if_splits)
  note a5 = a4 [unfolded if_not_P [OF sh]]
  obtain man where m: "parse_manifest (Some blob) (pe_keyring env) = (G_VALID, Some man)"
    using a5 by (auto split: prod.splits generation_state.splits option.splits)
  note a6 = a5 [unfolded m prod.case generation_state.case option.case]
  let ?og = "open_generation (recovery_gen_env env DEFAULT_GENERATION_LIMITS objs ws) (Some blob)"
  obtain h where h: "?og = Inr (G_VALID, Some h)"
    using a6 by (auto split: sum.splits prod.splits generation_state.splits option.splits)
  note a7 = a6 [unfolded h sum.case prod.case generation_state.case option.case]
  obtain its' where i: "manifest_items man = Some its'" "its = obj_item d # obj_item (pub_manifest_sha256 r) # its'"
    using a7 by (auto split: if_splits option.splits)
  have ids: "gh_scope_id h = em_scope_id man" "gh_generation_id h = em_generation_id man" "gh_fact_count h = em_fact_count man"
    using a7 by (auto split: if_splits)
  show ?thesis by (rule that [OF rb(1) r b(1) _ m h i ok _ ids]) (use sh mok in blast)+
qed

lemma reach_cong:
  assumes r: "reach_from_publication env lim objs ws d = RoOk its" and ws: "same_files ws ws'"
    and o: "\<And>x. obj_item x \<in> set its \<Longrightarrow> dget objs' x = dget objs x \<and> dget (ws_objects ws') x = dget (ws_objects ws) x"
  shows "reach_from_publication env lim objs' ws' d = RoOk its"
proof (rule reached [OF r])
  fix rec man blob h its'
  assume p: "parse_publication_record (dget objs d) (pe_keyring env) = (PS_VALID, Some rec)"
    and b: "dget objs (pub_manifest_sha256 rec) = Some blob" "sha256 blob = pub_manifest_sha256 rec"
    and m: "parse_manifest (Some blob) (pe_keyring env) = (G_VALID, Some man)"
    and h: "open_generation (recovery_gen_env env DEFAULT_GENERATION_LIMITS objs ws) (Some blob) = Inr (G_VALID, Some h)"
    and i: "manifest_items man = Some its'" "its = obj_item d # obj_item (pub_manifest_sha256 rec) # its'"
    and ok: "or_ok (get_limited objs d (rh_max_object_bytes lim) (ge_changed (pe_gen env) d))"
      "or_ok (get_limited objs (pub_manifest_sha256 rec) (rh_max_object_bytes lim) (ge_changed (pe_gen env) (pub_manifest_sha256 rec)))"
    and ids: "gh_scope_id h = em_scope_id man" "gh_generation_id h = em_generation_id man" "gh_fact_count h = em_fact_count man"
  have ob: "dget objs' d = dget objs d" "dget objs' (pub_manifest_sha256 rec) = dget objs (pub_manifest_sha256 rec)"
    using o i(2) by simp_all
  have og: "open_generation (recovery_gen_env env l objs' ws') (Some blob) = open_generation (recovery_gen_env env l objs ws) (Some blob)" for l
    using manifest_items_closure [OF i(1)] o by (intro open_generation_cong [OF m ws]) (auto simp: i(2))
  have gl: "get_limited objs' d l c = get_limited objs d l c"
    "get_limited objs' (pub_manifest_sha256 rec) l c = get_limited objs (pub_manifest_sha256 rec) l c" for l c
    using ob by (simp_all add: get_limited_def)
  have bl: "or_blob (get_limited objs d (rh_max_object_bytes lim) (ge_changed (pe_gen env) d)) = dget objs d"
    "or_blob (get_limited objs (pub_manifest_sha256 rec) (rh_max_object_bytes lim) (ge_changed (pe_gen env) (pub_manifest_sha256 rec))) = Some blob"
    using ok b(1) by (auto simp: get_limited_def split: option.splits if_splits)
  show ?thesis
    unfolding reach_from_publication_def Let_def gl bl
    by (simp add: p ok bl gl b(2) m og h ids i)
qed

end
