(* ===== verification/GcRegistry.thy ===== *)
theory GcRegistry
  imports GcPlan
begin

section \<open>The records of the garbage collector (\<open>horizon_gc.py\<close>)\<close>

text \<open>
  The durable authorities of a collection: the records of prepared packages, the named pins, the
  journals of what was moved, all small authenticated files, and the ephemeral pins, which live as
  long as a process holds their lock. File names are ASCII. The lemmas show that names
  are determined by their digests and that a journal and a named pin parse back.
\<close>

abbreviation (input) MAX_RECORD_BYTES :: nat where "MAX_RECORD_BYTES \<equiv> 65536"

subsection \<open>Names and small files\<close>

definition ascii_alnum :: "8 word \<Rightarrow> bool" where
  "ascii_alnum c \<longleftrightarrow> (let n = uint c in 48 \<le> n \<and> n \<le> 57 \<or> 65 \<le> n \<and> n \<le> 90 \<or> 97 \<le> n \<and> n \<le> 122)"

fun has_dotdot :: "bytes \<Rightarrow> bool" where
  "has_dotdot (a # b # s) = (a = 46 \<and> b = 46 \<or> has_dotdot (b # s))"
| "has_dotdot _ = False"

definition valid_name :: "bytes \<Rightarrow> bool" where
  "valid_name name \<longleftrightarrow> 1 \<le> length name \<and> length name \<le> 128 \<and> name \<noteq> [46] \<and> \<not> has_dotdot name \<and>
     list_all (\<lambda>c. ascii_alnum c \<or> c = 46 \<or> c = 95 \<or> c = 45) name"

datatype scan_state = SCAN_VALID | SCAN_CORRUPT | SCAN_IO_ERROR | SCAN_RESOURCE_LIMIT

text \<open>What a scan answers; \<open>ScRaise\<close> is an exception that leaves it.\<close>

datatype 'a scan_out = ScOk 'a | ScFail scan_state | ScRaise pub_exn

definition read_record_limited :: "file_node option \<Rightarrow> read_fault option \<Rightarrow> scan_state \<times> bytes option" where
  "read_record_limited node fault =
     (case node of
        None \<Rightarrow> (SCAN_IO_ERROR, None)
      | Some nd \<Rightarrow>
          if fault = Some OpenFault then (SCAN_IO_ERROR, None)
          else
            (case nd of
               RegularFile b \<Rightarrow>
                 if length b > MAX_RECORD_BYTES then (SCAN_RESOURCE_LIMIT, None)
                 else if fault = Some ReadFault then (SCAN_IO_ERROR, None)
                 else if fault = Some ChangeFault then (SCAN_CORRUPT, None)
                 else (SCAN_VALID, Some b)
             | _ \<Rightarrow> (SCAN_CORRUPT, None)))"

text \<open>The durable write of a record: a failure before the rename leaves the directory alone, a failing
  fsync of the directory raises behind it; one the file system does not support is let pass with
  \<open>best_effort\<close>.\<close>

datatype name_fault = NF_Write | NF_DirSync | NF_DirUnsupported

definition durable_write_record ::
  "(bytes, file_node) pydict \<Rightarrow> bytes \<Rightarrow> bytes \<Rightarrow> bool \<Rightarrow> name_fault option \<Rightarrow> bool \<times> (bytes, file_node) pydict" where
  "durable_write_record dir name blob best_effort fault =
     (case fault of
        Some NF_Write \<Rightarrow> (False, dir)
      | Some NF_DirSync \<Rightarrow> (False, dput name (RegularFile blob) dir)
      | Some NF_DirUnsupported \<Rightarrow> (best_effort, dput name (RegularFile blob) dir)
      | None \<Rightarrow> (True, dput name (RegularFile blob) dir))"

subsection \<open>The records of prepared packages\<close>

abbreviation (input) PREP :: "sfmt list" where "PREP \<equiv> [FS 4, FU 2, FU 1, FU 4, FU 4, FU 4]"
abbreviation (input) PREP_SIZE :: nat where "PREP_SIZE \<equiv> 19"

definition PREP_MAGIC :: bytes where "PREP_MAGIC = ascii ''HGCP''"

datatype prep_kind = PREP_COMPACTION | PREP_ROTATION

fun prep_code :: "prep_kind \<Rightarrow> int" where
  "prep_code PREP_COMPACTION = 1"
| "prep_code PREP_ROTATION = 2"

definition prep_mac :: "bytes \<Rightarrow> bytes \<Rightarrow> bytes" where
  "prep_mac key body = mac16 key (ascii ''HORIZONGCPREP'' @ body)"

text \<open>\<open>None\<close> is \<open>struct.error\<close>.\<close>

definition prepared_record_blob ::
  "prep_kind \<Rightarrow> int \<Rightarrow> bytes list \<Rightarrow> int list \<Rightarrow> int \<Rightarrow> bytes \<Rightarrow> bytes option" where
  "prepared_record_blob kind key_id digests segments scope_id key =
     (case (struct_pack PREP [VB PREP_MAGIC, VI 1, VI (prep_code kind), VI key_id, VI (int (length digests)), VI (int (length segments))],
            pack_rows [FU 4, FU 4] (map (\<lambda>seg. [VI scope_id, VI seg]) segments)) of
        (Some header, Some rows) \<Rightarrow>
          (let body = header @ concat digests @ rows in Some (body @ prep_mac key body))
      | _ \<Rightarrow> None)"

type_synonym prepared_roots = "bytes list \<times> (int \<times> int) list"

definition parse_prepared_record :: "bytes \<Rightarrow> keyring \<Rightarrow> prepared_roots option" where
  "parse_prepared_record blob kr =
     (if length blob < PREP_SIZE + TAG_BYTES then None
      else
        (let x = struct_unpack PREP blob
         in if fb x 0 \<noteq> PREP_MAGIC \<or> fi x 1 \<noteq> 1 \<or> fi x 2 \<notin> {1, 2} then None
            else if fi x 4 > 4096 \<or> fi x 5 > 4096 then None
            else if int (length blob) \<noteq> int PREP_SIZE + fi x 4 * 32 + fi x 5 * 8 + int TAG_BYTES then None
            else
              (case dget kr (fi x 3) of
                 None \<Rightarrow> None
               | Some key \<Rightarrow>
                   (let body = take (length blob - TAG_BYTES) blob; n = nat (fi x 4); off = PREP_SIZE + n * 32
                    in if prep_mac key body \<noteq> drop (length blob - TAG_BYTES) blob then None
                       else Some (map (\<lambda>i. slice blob (PREP_SIZE + i * 32) (PREP_SIZE + (i + 1) * 32)) [0..<n],
                              map (\<lambda>i. let r = struct_unpack [FU 4, FU 4] (drop (off + i * 8) blob) in (fi r 0, fi r 1))
                                [0..<nat (fi x 5)])))))"

text \<open>The registry: the packages are checked, the record is written under the name of the package.\<close>

datatype registry_exn = RgValueError | RgStructError | RgOSError

definition write_prepared_record ::
  "(bytes, file_node) pydict \<Rightarrow> int \<Rightarrow> bytes \<Rightarrow> prep_kind \<Rightarrow> int \<Rightarrow> bytes list \<Rightarrow> int list \<Rightarrow> keyring \<Rightarrow> bool
     \<Rightarrow> name_fault option \<Rightarrow> registry_exn option \<times> (bytes, file_node) pydict" where
  "write_prepared_record dir scope_id name kind key_id digests segments kr best_effort fault =
     (case dget kr key_id of
        None \<Rightarrow> (Some RgValueError, dir)
      | Some key \<Rightarrow>
          (case prepared_record_blob kind key_id digests segments scope_id key of
             None \<Rightarrow> (Some RgStructError, dir)
           | Some blob \<Rightarrow>
               (case durable_write_record dir name blob best_effort fault of
                  (True, dir) \<Rightarrow> (None, dir)
                | (False, dir) \<Rightarrow> (Some RgOSError, dir))))"

definition register_compaction ::
  "(bytes, file_node) pydict \<Rightarrow> int \<Rightarrow> bytes \<Rightarrow> compaction_prepared \<Rightarrow> keyring \<Rightarrow> bool \<Rightarrow> name_fault option
     \<Rightarrow> registry_exn option \<times> (bytes, file_node) pydict" where
  "register_compaction dir scope_id name prepared kr best_effort fault =
     (if \<not> valid_name name then (Some RgValueError, dir)
      else
        (case is_sealed_compaction prepared of
           None \<Rightarrow> (Some RgStructError, dir)
         | Some False \<Rightarrow> (Some RgValueError, dir)
         | Some True \<Rightarrow>
             (let na = cm_next_active prepared;
                  objs = map (\<lambda>(k, d). ad_sha256 d) (cm_base_descriptors prepared) @ [cm_candidate_sha256 prepared]
              in write_prepared_record dir scope_id name PREP_COMPACTION (wsd_key_id na) objs [sd_segment_id na] kr best_effort fault)))"

definition register_rotation ::
  "(bytes, file_node) pydict \<Rightarrow> int \<Rightarrow> bytes \<Rightarrow> ('w, 't) rotation_prepared \<Rightarrow> keyring \<Rightarrow> bool \<Rightarrow> name_fault option
     \<Rightarrow> registry_exn option \<times> (bytes, file_node) pydict" where
  "register_rotation dir scope_id name prepared kr best_effort fault =
     (if \<not> valid_name name then (Some RgValueError, dir)
      else if \<not> is_sealed_prepared prepared then (Some RgValueError, dir)
      else
        (let na = rot_next_active prepared
         in write_prepared_record dir scope_id name PREP_ROTATION (wsd_key_id na)
              [wsd_sealed_object_sha256 (rot_old_sealed prepared)] [sd_segment_id na] kr best_effort fault))"

definition unregister_prepared :: "(bytes, file_node) pydict \<Rightarrow> bytes \<Rightarrow> (bytes, file_node) pydict" where
  "unregister_prepared dir name = (if \<not> valid_name name then dir else filter (\<lambda>e. fst e \<noteq> name) dir)"

text \<open>\<open>scan\<close> over the records in the order of their names; \<open>fault\<close> tells which read fails.\<close>

fun scan_prepared ::
  "keyring \<Rightarrow> (bytes \<Rightarrow> read_fault option) \<Rightarrow> (bytes, file_node) pydict \<Rightarrow> prepared_roots scan_out" where
  "scan_prepared kr fault [] = ScOk ([], [])"
| "scan_prepared kr fault ((name, nd) # es) =
     (if \<not> valid_name name then ScFail SCAN_CORRUPT
      else
        (case read_record_limited (Some nd) (fault name) of
           (SCAN_VALID, Some data) \<Rightarrow>
             (case parse_prepared_record data kr of
                None \<Rightarrow> ScFail SCAN_CORRUPT
              | Some pr \<Rightarrow>
                  (case scan_prepared kr fault es of
                     ScOk prs \<Rightarrow> ScOk (fst pr @ fst prs, snd pr @ snd prs)
                   | e \<Rightarrow> e))
         | (s, _) \<Rightarrow> ScFail s))"

subsection \<open>Pins\<close>

abbreviation (input) PIN :: "sfmt list" where "PIN \<equiv> [FS 4, FU 2, FS 32, FU 4]"
abbreviation (input) PIN_SIZE :: nat where "PIN_SIZE \<equiv> 42"

definition PIN_MAGIC :: bytes where "PIN_MAGIC = ascii ''HPIN''"

definition pin_mac :: "bytes \<Rightarrow> bytes \<Rightarrow> bytes" where
  "pin_mac key body = mac16 key (ascii ''HORIZONGCPIN'' @ body)"

definition named_pin_blob :: "bytes \<Rightarrow> bytes \<Rightarrow> int \<Rightarrow> bytes \<Rightarrow> bytes option" where
  "named_pin_blob name publication_sha256 key_id key =
     (case (struct_pack PIN [VB PIN_MAGIC, VI 1, VB publication_sha256, VI key_id], struct_pack [FU 2] [VI (int (length name))]) of
        (Some h, Some n) \<Rightarrow> (let body = h @ n @ name in Some (body @ pin_mac key body))
      | _ \<Rightarrow> None)"

text \<open>Whether bytes are valid UTF-8.\<close>

fun utf8_ok :: "bytes \<Rightarrow> bool" where
  "utf8_ok [] = True"
| "utf8_ok (a # s) =
     (let x = uint a; tail_ok = (\<lambda>c. 128 \<le> uint c \<and> uint c \<le> 191)
      in if x < 128 then utf8_ok s
         else if 194 \<le> x \<and> x \<le> 223 then
           (case s of b # r \<Rightarrow> tail_ok b \<and> utf8_ok r | _ \<Rightarrow> False)
         else if 224 \<le> x \<and> x \<le> 239 then
           (case s of b # c # r \<Rightarrow>
              tail_ok b \<and> tail_ok c \<and> (x \<noteq> 224 \<or> 160 \<le> uint b) \<and> (x \<noteq> 237 \<or> uint b \<le> 159) \<and> utf8_ok r
            | _ \<Rightarrow> False)
         else if 240 \<le> x \<and> x \<le> 244 then
           (case s of b # c # d # r \<Rightarrow>
              tail_ok b \<and> tail_ok c \<and> tail_ok d \<and> (x \<noteq> 240 \<or> 144 \<le> uint b) \<and> (x \<noteq> 244 \<or> uint b \<le> 143) \<and> utf8_ok r
            | _ \<Rightarrow> False)
         else False)"

text \<open>A name that is not UTF-8 raises \<open>UnicodeDecodeError\<close>, a \<open>ValueError\<close>.\<close>

definition parse_named_pin :: "bytes \<Rightarrow> keyring \<Rightarrow> pub_exn + (bytes \<times> int \<times> bytes) option" where
  "parse_named_pin blob kr =
     (if length blob < PIN_SIZE + 2 + TAG_BYTES then Inr None
      else
        (let x = struct_unpack PIN blob; nlen = fi (struct_unpack [FU 2] (drop PIN_SIZE blob)) 0
         in if fb x 0 \<noteq> PIN_MAGIC \<or> fi x 1 \<noteq> 1 then Inr None
            else if int (length blob) \<noteq> int PIN_SIZE + 2 + nlen + int TAG_BYTES then Inr None
            else
              (case dget kr (fi x 3) of
                 None \<Rightarrow> Inr None
               | Some key \<Rightarrow>
                   if pin_mac key (take (length blob - TAG_BYTES) blob) \<noteq> drop (length blob - TAG_BYTES) blob then Inr None
                   else
                     (let name = slice blob (PIN_SIZE + 2) (PIN_SIZE + 2 + nat nlen)
                      in if utf8_ok name then Inr (Some (fb x 2, fi x 3, name)) else Inl PubValueError))))"

definition pin_named ::
  "(bytes, file_node) pydict \<Rightarrow> bytes \<Rightarrow> bytes \<Rightarrow> int \<Rightarrow> keyring \<Rightarrow> bool \<Rightarrow> name_fault option
     \<Rightarrow> registry_exn option \<times> (bytes, file_node) pydict" where
  "pin_named dir name publication_sha256 key_id kr best_effort fault =
     (if \<not> valid_name name then (Some RgValueError, dir)
      else
        (case dget kr key_id of
           None \<Rightarrow> (Some RgValueError, dir)
         | Some key \<Rightarrow>
             (case named_pin_blob name publication_sha256 key_id key of
                None \<Rightarrow> (Some RgStructError, dir)
              | Some blob \<Rightarrow>
                  (case durable_write_record dir name blob best_effort fault of
                     (True, dir) \<Rightarrow> (None, dir)
                   | (False, dir) \<Rightarrow> (Some RgOSError, dir)))))"

definition unpin_named :: "(bytes, file_node) pydict \<Rightarrow> bytes \<Rightarrow> (bytes, file_node) pydict" where
  "unpin_named dir name = (if \<not> valid_name name then dir else filter (\<lambda>e. fst e \<noteq> name) dir)"

fun scan_named ::
  "keyring \<Rightarrow> (bytes \<Rightarrow> read_fault option) \<Rightarrow> (bytes, file_node) pydict \<Rightarrow> bytes list scan_out" where
  "scan_named kr fault [] = ScOk []"
| "scan_named kr fault ((name, nd) # es) =
     (if \<not> valid_name name then ScFail SCAN_CORRUPT
      else
        (case read_record_limited (Some nd) (fault name) of
           (SCAN_VALID, Some data) \<Rightarrow>
             (case parse_named_pin data kr of
                Inl e \<Rightarrow> ScRaise e
              | Inr None \<Rightarrow> ScFail SCAN_CORRUPT
              | Inr (Some (psha, _, _)) \<Rightarrow>
                  (case scan_named kr fault es of ScOk ds \<Rightarrow> ScOk (psha # ds) | e \<Rightarrow> e))
         | (s, _) \<Rightarrow> ScFail s))"

text \<open>An ephemeral pin is a file named by the digest, the process and a random part, with the flag
  whether a process holds its lock. \<open>bytes.fromhex\<close> of the first part of the name.\<close>

type_synonym eph_pin = "bytes \<times> bool"

definition unhex_digit :: "8 word \<Rightarrow> int option" where
  "unhex_digit c = (let n = uint c in
     if 48 \<le> n \<and> n \<le> 57 then Some (n - 48) else if 97 \<le> n \<and> n \<le> 102 then Some (n - 87)
     else if 65 \<le> n \<and> n \<le> 70 then Some (n - 55) else None)"

fun unhex :: "bytes \<Rightarrow> bytes option" where
  "unhex [] = Some []"
| "unhex [c] = (if c = 32 \<or> 9 \<le> uint c \<and> uint c \<le> 13 then Some [] else None)"
| "unhex (c # d # s) =
     (if c = 32 \<or> 9 \<le> uint c \<and> uint c \<le> 13 then unhex (d # s)
      else
        (case (unhex_digit c, unhex_digit d) of
           (Some a, Some b) \<Rightarrow> map_option (Cons (word_of_int (16 * a + b))) (unhex s)
         | _ \<Rightarrow> None))"

text \<open>\<open>_ephemeral_alive\<close>: an \<open>open\<close> that fails counts as dead.\<close>

definition ephemeral_alive :: "(bytes \<Rightarrow> bool) \<Rightarrow> eph_pin \<Rightarrow> bool" where
  "ephemeral_alive open_fails p = (if open_fails (fst p) then False else snd p)"

definition live_ephemeral :: "(bytes \<Rightarrow> bool) \<Rightarrow> eph_pin list \<Rightarrow> bytes list" where
  "live_ephemeral open_fails eph =
     concat (map (\<lambda>p. case unhex (takeWhile (\<lambda>c. c \<noteq> 46) (fst p)) of None \<Rightarrow> [] | Some d \<Rightarrow> [d])
       (filter (ephemeral_alive open_fails) eph))"

definition scan_pins ::
  "keyring \<Rightarrow> (bytes \<Rightarrow> read_fault option) \<Rightarrow> (bytes \<Rightarrow> bool) \<Rightarrow> (bytes, file_node) pydict \<Rightarrow> eph_pin list
     \<Rightarrow> bytes list scan_out" where
  "scan_pins kr fault open_fails named eph =
     (case scan_named kr fault named of ScOk ds \<Rightarrow> ScOk (ds @ live_ephemeral open_fails eph) | e \<Rightarrow> e)"

definition reap_dead_ephemeral :: "(bytes \<Rightarrow> bool) \<Rightarrow> eph_pin list \<Rightarrow> eph_pin list" where
  "reap_dead_ephemeral open_fails eph = filter (ephemeral_alive open_fails) eph"

text \<open>\<open>pin_ephemeral\<close> in its two steps: the file appears unlocked, then the lock is taken.\<close>

definition eph_create :: "bytes \<Rightarrow> eph_pin list \<Rightarrow> eph_pin list" where
  "eph_create name eph = eph @ [(name, False)]"

definition eph_lock :: "bytes \<Rightarrow> eph_pin list \<Rightarrow> eph_pin list" where
  "eph_lock name eph = map (\<lambda>p. if fst p = name then (name, True) else p) eph"

definition pin_ephemeral :: "bytes \<Rightarrow> bytes \<Rightarrow> eph_pin list \<Rightarrow> eph_pin list" where
  "pin_ephemeral publication_sha256 suffix eph =
     (let name = hex publication_sha256 @ [46] @ suffix in eph_lock name (eph_create name eph))"

definition eph_close :: "bytes \<Rightarrow> eph_pin list \<Rightarrow> eph_pin list" where
  "eph_close name eph = filter (\<lambda>p. fst p \<noteq> name) eph"

subsection \<open>Journals\<close>

abbreviation (input) JRN :: "sfmt list" where "JRN \<equiv> [FS 4, FU 2, FS 32, FU 4]"
abbreviation (input) JRN_SIZE :: nat where "JRN_SIZE \<equiv> 42"

definition JOURNAL_MAGIC :: bytes where "JOURNAL_MAGIC = ascii ''HGCJ''"

definition journal_mac :: "bytes \<Rightarrow> bytes \<Rightarrow> bytes" where
  "journal_mac key body = mac16 key (ascii ''HORIZONGCJRN'' @ body)"

fun journal_kind :: "gc_kind \<Rightarrow> int" where
  "journal_kind GC_OBJECT = 0"
| "journal_kind GC_ACTIVE = 1"

fun pack_items :: "gc_item list \<Rightarrow> bytes option" where
  "pack_items [] = Some []"
| "pack_items ((k, name) # its) =
     (case (struct_pack [FU 1, FU 2] [VI (journal_kind k), VI (int (length name))], pack_items its) of
        (Some h, Some b) \<Rightarrow> Some (h @ name @ b)
      | _ \<Rightarrow> None)"

definition authenticated_journal :: "bytes \<Rightarrow> gc_item list \<Rightarrow> bytes \<Rightarrow> bytes option" where
  "authenticated_journal plan_digest items key =
     (let its = sorted_items items
      in case (struct_pack JRN [VB JOURNAL_MAGIC, VI 1, VB plan_digest, VI (int (length its))], pack_items its) of
           (Some header, Some rows) \<Rightarrow> (let body = header @ rows in Some (body @ journal_mac key body))
         | _ \<Rightarrow> None)"

text \<open>The loop over the items, on the bytes between the header and the MAC.\<close>

fun parse_items :: "nat \<Rightarrow> bytes \<Rightarrow> gc_item list option" where
  "parse_items 0 b = (if b = [] then Some [] else None)"
| "parse_items (Suc n) b =
     (if length b < 3 then None
      else
        (let x = struct_unpack [FU 1, FU 2] b; k = fi x 0; ln = nat (fi x 1); rest = drop 3 b
         in if k \<notin> {0, 1} \<or> ln > length rest then None
            else if \<not> utf8_ok (take ln rest) then None
            else map_option (Cons (if k = 0 then GC_OBJECT else GC_ACTIVE, take ln rest)) (parse_items n (drop ln rest))))"

definition object_name_ok :: "gc_item \<Rightarrow> bool" where
  "object_name_ok it \<longleftrightarrow> (case it of (GC_OBJECT, key) \<Rightarrow> length key = 64 \<and>
       list_all (\<lambda>c. let n = uint c in 48 \<le> n \<and> n \<le> 57 \<or> 97 \<le> n \<and> n \<le> 102) key
     | _ \<Rightarrow> True)"

definition parse_journal :: "bytes \<Rightarrow> bytes \<Rightarrow> (bytes \<times> gc_item list) option" where
  "parse_journal blob key =
     (if length blob < JRN_SIZE + 16 then None
      else
        (let x = struct_unpack JRN blob
         in if fb x 0 \<noteq> JOURNAL_MAGIC \<or> fi x 1 \<noteq> 1 \<or> fi x 3 > 1000000 then None
            else if journal_mac key (take (length blob - 16) blob) \<noteq> drop (length blob - 16) blob then None
            else
              (case parse_items (nat (fi x 3)) (slice blob JRN_SIZE (length blob - 16)) of
                 None \<Rightarrow> None
               | Some items \<Rightarrow>
                   if items \<noteq> sorted_items items \<or> \<not> list_all object_name_ok items then None
                   else Some (fb x 2, items))))"

text \<open>\<open>_publish_journal_immutable\<close>; \<open>False\<close> is an \<open>OSError\<close>.\<close>

definition publish_journal ::
  "(bytes, file_node) pydict \<Rightarrow> bytes \<Rightarrow> bytes \<Rightarrow> bool \<Rightarrow> name_fault option \<Rightarrow> bool \<times> (bytes, file_node) pydict" where
  "publish_journal js plan_digest blob best_effort fault =
     (case dget js (hex plan_digest) of
        Some nd \<Rightarrow> (read_record_limited (Some nd) None = (SCAN_VALID, Some blob), js)
      | None \<Rightarrow> durable_write_record js (hex plan_digest) blob best_effort fault)"

subsection \<open>Hexadecimal names\<close>

lemma hex_simps [simp]: "hex [] = []" "hex (x # b) = hex_digit (uint x div 16) # hex_digit (uint x mod 16) # hex b"
  by (simp_all add: hex_def)

lemma length_hex [simp]: "length (hex b) = 2 * length b"
  by (induction b) auto

lemma nibbles: "uint (x :: 8 word) div 16 < 16" "0 \<le> uint x div 16" "0 \<le> uint x mod 16" "uint x mod 16 < 16"
  using uint_bounded [of x] by (auto simp: pos_imp_zdiv_nonneg_iff)

lemma uint_hex_digit: "0 \<le> n \<Longrightarrow> n < 16 \<Longrightarrow> uint (hex_digit n) = (if n < 10 then 48 + n else 87 + n)"
  by (simp add: hex_digit_def uint_word_of_int)

lemma unhex_hex_digit: "0 \<le> n \<Longrightarrow> n < 16 \<Longrightarrow> unhex_digit (hex_digit n) = Some n"
  by (auto simp: unhex_digit_def Let_def uint_hex_digit)

lemma hex_digit_not_space: "0 \<le> n \<Longrightarrow> n < 16 \<Longrightarrow> hex_digit n \<noteq> 32 \<and> \<not> uint (hex_digit n) \<le> 13 \<and> hex_digit n \<noteq> 46"
proof -
  assume n: "0 \<le> n" "n < 16"
  have "uint (hex_digit n) \<noteq> uint (32 :: 8 word)" "uint (hex_digit n) \<noteq> uint (46 :: 8 word)" "\<not> uint (hex_digit n) \<le> 13"
    using n by (auto simp: uint_hex_digit)
  then show ?thesis by auto
qed

lemma unhex_hex [simp]: "unhex (hex b) = Some b"
proof (induction b)
  case (Cons x b)
  have "word_of_int (16 * (uint x div 16) + uint x mod 16) = x" by simp
  moreover note n = nibbles [of x]
  ultimately show ?case
    using Cons hex_digit_not_space [OF n(2,1)] hex_digit_not_space [OF n(3,4)]
      unhex_hex_digit [OF n(2,1)] unhex_hex_digit [OF n(3,4)] by simp
qed simp

lemma hex_inject [simp]: "hex a = hex b \<longleftrightarrow> a = b"
  by (metis option.inject unhex_hex)

definition hex_char :: "8 word \<Rightarrow> bool" where
  "hex_char c \<longleftrightarrow> (let n = uint c in 48 \<le> n \<and> n \<le> 57 \<or> 97 \<le> n \<and> n \<le> 102)"

lemma hex_digit_char: "0 \<le> n \<Longrightarrow> n < 16 \<Longrightarrow> hex_char (hex_digit n)"
  by (simp add: hex_char_def Let_def uint_hex_digit)

lemma hex_chars: "c \<in> set (hex b) \<Longrightarrow> hex_char c \<and> c \<noteq> 46"
proof (induction b)
  case (Cons x b)
  note n = nibbles [of x]
  have "c = hex_digit (uint x div 16) \<or> c = hex_digit (uint x mod 16) \<or> c \<in> set (hex b)" using Cons.prems by simp
  then show ?case
    using Cons.IH hex_digit_not_space [OF n(2,1)] hex_digit_not_space [OF n(3,4)] hex_digit_char [OF n(2,1)] hex_digit_char [OF n(3,4)]
    by (elim disjE) simp_all
qed simp

lemma utf8_ascii: "\<forall>c \<in> set s. uint c < 128 \<Longrightarrow> utf8_ok s"
  by (induction s) (simp_all add: Let_def)

text \<open>The items of a journal: objects named by digests.\<close>

definition object_items :: "gc_item list \<Rightarrow> bool" where
  "object_items its \<longleftrightarrow> (\<forall>it \<in> set its. \<exists>d. length d = 32 \<and> it = obj_item d)"

lemma object_item_ok: "length d = 32 \<Longrightarrow> object_name_ok (obj_item d) \<and> utf8_ok (snd (obj_item d))"
proof -
  assume d: "length d = 32"
  have h: "\<forall>c \<in> set (hex d). hex_char c" using hex_chars by blast
  then have "\<forall>c \<in> set (hex d). uint c < 128" by (auto simp: hex_char_def Let_def)
  then show ?thesis using h d utf8_ascii by (simp add: obj_item_def object_name_ok_def list_all_iff hex_char_def)
qed

lemma set_sorted_items [simp]: "set (sorted_items its) = set its"
  by (simp add: sorted_items_def)

lemma sorted_items_idem [simp]: "sorted_items (sorted_items its) = sorted_items its"
  by (simp add: sorted_items_def distinct_remdups_id sort_key_id_if_sorted)

subsection \<open>The codecs\<close>

lemma object_items_sorted: "object_items its \<Longrightarrow> object_items (sorted_items its)"
  by (simp add: object_items_def)

lemma pack_items_parse:
  assumes "object_items its"
  shows "\<exists>b. pack_items its = Some b \<and> parse_items (length its) b = Some its \<and> length b = 67 * length its"
  using assms
proof (induction its)
  case (Cons it its)
  obtain d where d: "length d = 32" "it = obj_item d" using Cons.prems by (auto simp: object_items_def)
  obtain b where b: "pack_items its = Some b" "parse_items (length its) b = Some its" "length b = 67 * length its"
    using Cons by (auto simp: object_items_def)
  let ?l = "[FU 1, FU 2]" and ?v = "[VI 0, VI 64]"
  have f: "list_all2 fits ?l ?v" by simp
  obtain h where h: "struct_pack ?l ?v = Some h" using fits_struct_pack [OF f] by blast
  have lh: "length h = 3" using struct_pack_length [OF h] by simp
  have u: "struct_unpack ?l (h @ hex d @ b) = ?v" by (rule struct_unpack_pack [OF h f])
  have p: "pack_items (it # its) = Some (h @ hex d @ b)"
    using h b(1) d by (simp add: obj_item_def del: struct_pack.simps)
  have "parse_items (Suc (length its)) (h @ hex d @ b) = Some (it # its)"
    unfolding parse_items.simps u Let_def using lh d b(2) object_item_ok [OF d(1)] by (simp add: obj_item_def)
  then show ?case using p lh d b(3) by simp
qed (auto simp: object_items_def)

lemma fits_journal: "length pd = 32 \<Longrightarrow> 0 \<le> n \<Longrightarrow> n < 2 ^ 32 \<Longrightarrow> list_all2 fits JRN [VB JOURNAL_MAGIC, VI 1, VB pd, VI n]"
  by (simp add: JOURNAL_MAGIC_def ascii_def)

lemma journal_round_trip:
  assumes o: "object_items its" and pd: "length pd = 32" and n: "length (sorted_items its) \<le> 1000000"
  shows "\<exists>blob. authenticated_journal pd its key = Some blob \<and> length blob = 58 + 67 * length (sorted_items its) \<and>
    parse_journal blob key = Some (pd, sorted_items its)"
proof -
  let ?s = "sorted_items its" and ?v = "[VB JOURNAL_MAGIC, VI 1, VB pd, VI (int (length (sorted_items its)))]"
  obtain rows where r: "pack_items ?s = Some rows" "parse_items (length ?s) rows = Some ?s" "length rows = 67 * length ?s"
    using pack_items_parse [OF object_items_sorted [OF o]] by blast
  have f: "list_all2 fits JRN ?v" using pd n by (intro fits_journal) auto
  obtain h where h: "struct_pack JRN ?v = Some h" using fits_struct_pack [OF f] by blast
  have lh: "length h = 42" using struct_pack_length [OF h] by simp
  let ?b = "h @ rows" let ?blob = "?b @ journal_mac key ?b"
  have u: "struct_unpack JRN ?blob = ?v" by (simp only: append_assoc struct_unpack_pack [OF h f])
  have m: "length (journal_mac key ?b) = 16" by (simp add: journal_mac_def)
  have a: "authenticated_journal pd its key = Some ?blob"
    using h r(1) by (simp add: authenticated_journal_def Let_def del: struct_pack.simps)
  have sl: "slice ?blob 42 (length ?blob - 16) = rows"
    using slice_mid [of h 42 "length ?blob - 16" rows "journal_mac key ?b"] lh m by simp
  have ok: "list_all object_name_ok ?s" using o object_item_ok by (fastforce simp: object_items_def list_all_iff)
  have "parse_journal ?blob key = Some (pd, ?s)"
    unfolding parse_journal_def u Let_def using n m lh r(2) ok sl by simp
  then show ?thesis using a lh m r(3) by auto
qed

lemma named_pin_round_trip:
  assumes "valid_name name" "length d = 32" "0 \<le> kid" "kid < 2 ^ 32" "dget kr kid = Some key"
  shows "\<exists>blob. named_pin_blob name d kid key = Some blob \<and> length blob = 60 + length name \<and> parse_named_pin blob kr = Inr (Some (d, kid, name))"
proof -
  let ?v = "[VB PIN_MAGIC, VI 1, VB d, VI kid]" and ?w = "[VI (int (length name))]"
  have f: "list_all2 fits PIN ?v" using assms by (simp add: PIN_MAGIC_def ascii_def)
  have g: "list_all2 fits [FU 2] ?w" using assms by (simp add: valid_name_def)
  obtain h where h: "struct_pack PIN ?v = Some h" using fits_struct_pack [OF f] by blast
  obtain n where n: "struct_pack [FU 2] ?w = Some n" using fits_struct_pack [OF g] by blast
  have l: "length h = 42" "length n = 2" using struct_pack_length [OF h] struct_pack_length [OF n] by simp_all
  let ?b = "h @ n @ name" let ?blob = "?b @ pin_mac key ?b"
  have m: "length (pin_mac key ?b) = 16" by (simp add: pin_mac_def)
  have u: "struct_unpack PIN ?blob = ?v" by (simp only: append_assoc struct_unpack_pack [OF h f])
  have u2: "struct_unpack [FU 2] (drop 42 ?blob) = ?w"
  proof -
    have "drop 42 ?blob = n @ name @ pin_mac key ?b" using l by simp
    then show ?thesis by (simp only: struct_unpack_pack [OF n g])
  qed
  have "uint c < 128" if "c \<in> set name" for c
  proof -
    have "ascii_alnum c \<or> c = 46 \<or> c = 95 \<or> c = 45" using that assms(1) by (auto simp: valid_name_def list_all_iff)
    then show ?thesis by (auto simp: ascii_alnum_def Let_def)
  qed
  then have utf: "utf8_ok name" by (intro utf8_ascii) blast
  have sl: "slice ?blob 44 (44 + length name) = name"
    using slice_mid [of "h @ n" 44 "44 + length name" name "pin_mac key ?b"] l by simp
  have p: "named_pin_blob name d kid key = Some ?blob"
    using h n by (simp add: named_pin_blob_def Let_def del: struct_pack.simps)
  have "parse_named_pin ?blob kr = Inr (Some (d, kid, name))"
    unfolding parse_named_pin_def u u2 Let_def using l m assms(5) utf sl by simp
  then show ?thesis using p l m by auto
qed

end
