(* ===== verification/GcRun.thy ===== *)
theory GcRun
  imports GcRegistry
begin

section \<open>Running and recovering a collection (\<open>horizon_gc.py\<close>)\<close>

text \<open>
  The protocol: under \<open>.gc.lock\<close> the roots are gathered and a plan is made; under \<open>pin.lock\<close> the
  roots are read again, and only if they are the same the journal is published and the unreachable
  objects are renamed into the quarantine. The recovery takes every journaled object out of the
  quarantine, plans again and puts back what is still unreachable. The lemmas show that objects only
  move, and which of them.
\<close>

subsection \<open>The directories\<close>

text \<open>The stores of one scope. \<open>gw_legacy\<close> is the single journal of older versions where \<open>is_file\<close>
  holds for it. Publications take \<open>publish.lock\<close>, pins \<open>pin.lock\<close>; a collection holds \<open>.gc.lock\<close>.\<close>

record gc_world =
  gw_store :: pub_store
  gw_active :: "(wal_identity, file_node) pydict"
  gw_wal_keys :: keyring
  gw_quarantine :: object_store
  gw_journals :: "(bytes, file_node) pydict"
  gw_legacy :: "file_node option"
  gw_prepared :: "(bytes, file_node) pydict"
  gw_named :: "(bytes, file_node) pydict"
  gw_eph :: "eph_pin list"

abbreviation gw_objects :: "gc_world \<Rightarrow> object_store" where "gw_objects w \<equiv> pd_objects (gw_store w)"

definition gw_wal :: "gc_world \<Rightarrow> wal_store" where
  "gw_wal w = \<lparr>ws_active = gw_active w, ws_objects = gw_objects w, ws_keyring = gw_wal_keys w\<rparr>"

definition with_objects :: "gc_world \<Rightarrow> object_store \<times> object_store \<Rightarrow> gc_world" where
  "with_objects w oq = w\<lparr>gw_store := (gw_store w)\<lparr>pd_objects := fst oq\<rparr>, gw_quarantine := snd oq\<rparr>"

text \<open>\<open>sorted(dir.glob("*.suffix"))\<close>.\<close>

definition by_name :: "string \<Rightarrow> (bytes, file_node) pydict \<Rightarrow> (bytes, file_node) pydict" where
  "by_name suffix dir = sort_key (\<lambda>e. fst e @ ascii suffix) dir"

subsection \<open>Gathering the roots\<close>

text \<open>The reads of one pass over the roots that fail.\<close>

record gc_reads =
  rd_current :: "read_fault option"
  rd_named :: "bytes \<Rightarrow> read_fault option"
  rd_prepared :: "bytes \<Rightarrow> read_fault option"
  rd_open_fails :: "bytes \<Rightarrow> bool"

definition world_pins :: "keyring \<Rightarrow> gc_reads \<Rightarrow> gc_world \<Rightarrow> bytes list scan_out" where
  "world_pins kr rd w = scan_pins kr (rd_named rd) (rd_open_fails rd) (by_name ''.pin'' (gw_named w)) (gw_eph w)"

definition world_prepared :: "keyring \<Rightarrow> gc_reads \<Rightarrow> gc_world \<Rightarrow> prepared_roots scan_out" where
  "world_prepared kr rd w = scan_prepared kr (rd_prepared rd) (by_name ''.prep'' (gw_prepared w))"

definition gather_roots :: "pub_env \<Rightarrow> reach_limits \<Rightarrow> int \<Rightarrow> gc_reads \<Rightarrow> gc_world \<Rightarrow> gc_roots reach_out" where
  "gather_roots env lim retention rd w =
     (case world_pins (pe_keyring env) rd w of
        ScRaise e \<Rightarrow> RoRaise e
      | ScFail _ \<Rightarrow> RoAbort GC_ABORTED_CORRUPT
      | ScOk pins \<Rightarrow>
          (case world_prepared (pe_keyring env) rd w of
             ScRaise e \<Rightarrow> RoRaise e
           | ScFail _ \<Rightarrow> RoAbort GC_ABORTED_CORRUPT
           | ScOk prep \<Rightarrow> compute_roots env lim (gw_store w) (remdups pins) retention prep (rd_current rd)))"

text \<open>The signature of the roots; \<open>None\<close> where a record is damaged.\<close>

type_synonym root_sig = "bytes option \<times> bytes set \<times> bytes set \<times> (int \<times> int) set"

definition root_signature :: "pub_env \<Rightarrow> gc_reads \<Rightarrow> gc_world \<Rightarrow> root_sig option pub_out" where
  "root_signature env rd w =
     (case read_current (pd_current (gw_store w)) (pe_keyring env) (pe_max_current_bytes env) (rd_current rd) of
        PRaise e \<Rightarrow> PRaise e
      | PKilled \<Rightarrow> PKilled
      | PRet (cst, cur) \<Rightarrow>
          (let current = (if cst = PS_VALID then map_option cp_publication_sha256 cur else None)
           in case world_pins (pe_keyring env) rd w of
                ScRaise e \<Rightarrow> PRaise e
              | ScFail _ \<Rightarrow> PRet None
              | ScOk pins \<Rightarrow>
                  (case world_prepared (pe_keyring env) rd w of
                     ScRaise e \<Rightarrow> PRaise e
                   | ScFail _ \<Rightarrow> PRet None
                   | ScOk prep \<Rightarrow> PRet (Some (current, set pins, set (fst prep), set (snd prep))))))"

subsection \<open>Moving\<close>

definition find_object :: "object_store \<Rightarrow> bytes \<Rightarrow> (bytes \<times> bytes) option" where
  "find_object objs key = List.find (\<lambda>e. hex (fst e) = key) objs"

datatype move_fault = MvRename | MvSync

text \<open>\<open>_move_file\<close>: the answer, the directory that is left and the one that is entered. A failing
  fsync of the directories is let pass with \<open>best_effort\<close>.\<close>

definition move_file ::
  "object_store \<Rightarrow> object_store \<Rightarrow> bytes \<Rightarrow> bool \<Rightarrow> move_fault option \<Rightarrow> bool \<times> object_store \<times> object_store" where
  "move_file src dst key best_effort fault =
     (case find_object src key of
        None \<Rightarrow> (find_object dst key \<noteq> None, src, dst)
      | Some (d, b) \<Rightarrow>
          if fault = Some MvRename then (False, src, dst)
          else
            (let src' = filter (\<lambda>e. hex (fst e) \<noteq> key) src; dst' = dput d b dst
             in (fault = Some MvSync \<longrightarrow> best_effort, src', dst')))"

definition quarantine_key :: "gc_item \<Rightarrow> bytes option" where
  "quarantine_key it = (if fst it \<noteq> GC_OBJECT then None else Some (snd it))"

datatype gc_point = KillBeforeJournal | KillAfterJournal | KillBeforeMove nat | KillAfterMove nat

datatype move_end = MV_ALL | MV_FAILED | MV_KILLED

fun move_items ::
  "bool \<Rightarrow> (bytes \<Rightarrow> move_fault option) \<Rightarrow> gc_point option \<Rightarrow> nat \<Rightarrow> gc_item list \<Rightarrow> object_store \<times> object_store
     \<Rightarrow> move_end \<times> gc_item list \<times> (object_store \<times> object_store)" where
  "move_items be mf kill i [] oq = (MV_ALL, [], oq)"
| "move_items be mf kill i (it # its) oq =
     (if kill = Some (KillBeforeMove i) then (MV_KILLED, [], oq)
      else
        (let (ok, moved, oq') =
           (case quarantine_key it of
              None \<Rightarrow> (True, [], oq)
            | Some key \<Rightarrow>
                (case move_file (fst oq) (snd oq) key be (mf key) of (ok, o', q') \<Rightarrow> (ok, if ok then [it] else [], (o', q'))))
         in if \<not> ok then (MV_FAILED, [], oq')
            else if kill = Some (KillAfterMove i) then (MV_KILLED, moved, oq')
            else
              (case move_items be mf kill (Suc i) its oq' of (e, moved', oq'') \<Rightarrow> (e, moved @ moved', oq''))))"

subsection \<open>The run\<close>

datatype gc_run_state =
    GCR_DONE | GCR_NO_CURRENT | GCR_NOTHING_TO_COLLECT | GCR_STALE_PLAN | GCR_ABORTED | GCR_BUSY | GCR_MOVE_FAILED

text \<open>The plan of a result is absent, aborted or made.\<close>

record gc_result =
  gr_state :: gc_run_state
  gr_plan :: "(gc_state + reach_plan) option"
  gr_quarantined :: "gc_item list"

abbreviation (input) GcRunResult :: "gc_run_state \<Rightarrow> (gc_state + reach_plan) option \<Rightarrow> gc_item list \<Rightarrow> gc_result" where
  "GcRunResult s p q \<equiv> \<lparr>gr_state = s, gr_plan = p, gr_quarantined = q\<rparr>"

text \<open>What the run meets. The three \<open>gs_after\<close> fields are what other processes do between two of its
  steps: behind the gathering of the roots and behind the plan no lock but \<open>.gc.lock\<close> is held, so
  pins and publications come and go; behind the second reading \<open>pin.lock\<close> is held as well, which
  publications do not take.\<close>

record gc_script =
  gs_gc_lock :: bool
  gs_pin_lock :: bool
  gs_busy :: bool
  gs_gather :: gc_reads
  gs_sig1 :: gc_reads
  gs_sig2 :: gc_reads
  gs_reap_fails :: "bytes \<Rightarrow> bool"
  gs_after_roots :: "gc_world \<Rightarrow> gc_world"
  gs_after_plan :: "gc_world \<Rightarrow> gc_world"
  gs_after_reread :: "pub_store \<Rightarrow> pub_store"
  gs_journal :: "name_fault option"
  gs_move :: "bytes \<Rightarrow> move_fault option"
  gs_kill :: "gc_point option"

text \<open>\<open>_registry_pair\<close>: the scopes of the registries the caller passes.\<close>

definition registry_pair :: "pub_store \<Rightarrow> int option option \<Rightarrow> int option option \<Rightarrow> bool" where
  "registry_pair st pins prepared \<longleftrightarrow>
     (case pins of None \<Rightarrow> True | Some s \<Rightarrow> s = pd_scope st) \<and> (case prepared of None \<Rightarrow> True | Some s \<Rightarrow> s = pd_scope st)"

text \<open>The part behind the second reading of the roots.\<close>

definition execute_plan ::
  "pub_env \<Rightarrow> int \<Rightarrow> bool \<Rightarrow> gc_script \<Rightarrow> reach_plan \<Rightarrow> gc_world \<Rightarrow> gc_result pub_out \<times> gc_world" where
  "execute_plan env journal_key_id best_effort sc plan w =
     (let movable = filter (\<lambda>it. fst it = GC_OBJECT) (sorted_items (gp_unreachable plan))
      in if movable = [] then (PRet (GcRunResult GCR_NOTHING_TO_COLLECT (Some (Inr plan)) []), w)
         else
           (case dget (pe_keyring env) journal_key_id of
              None \<Rightarrow> (PRet (GcRunResult GCR_ABORTED (Some (Inr plan)) []), w)
            | Some jkey \<Rightarrow>
                (case authenticated_journal (gp_digest plan) movable jkey of
                   None \<Rightarrow> (PRaise PubStructError, w)
                 | Some blob \<Rightarrow>
                     if gs_kill sc = Some KillBeforeJournal then (PKilled, w)
                     else
                       (case publish_journal (gw_journals w) (gp_digest plan) blob best_effort (gs_journal sc) of
                          (False, js) \<Rightarrow>
                            (PRet (GcRunResult GCR_MOVE_FAILED (Some (Inr plan)) []), w\<lparr>gw_journals := js\<rparr>)
                        | (True, js) \<Rightarrow>
                            (let w = w\<lparr>gw_journals := js\<rparr>
                             in if gs_kill sc = Some KillAfterJournal then (PKilled, w)
                                else
                                  (case move_items best_effort (gs_move sc) (gs_kill sc) 0 movable
                                          (gw_objects w, gw_quarantine w) of
                                     (e, moved, oq) \<Rightarrow>
                                       (let w' = with_objects w oq
                                        in case e of
                                             MV_KILLED \<Rightarrow> (PKilled, w')
                                           | MV_FAILED \<Rightarrow> (PRet (GcRunResult GCR_MOVE_FAILED (Some (Inr plan)) moved), w')
                                           | MV_ALL \<Rightarrow> (PRet (GcRunResult GCR_DONE (Some (Inr plan)) moved), w'))))))))"

definition run_gc ::
  "pub_env \<Rightarrow> reach_limits \<Rightarrow> int option option \<Rightarrow> int option option \<Rightarrow> int \<Rightarrow> int \<Rightarrow> bool \<Rightarrow> gc_script \<Rightarrow> gc_world
     \<Rightarrow> gc_result pub_out \<times> gc_world" where
  "run_gc env lim pins prepared retention journal_key_id best_effort sc w =
     (if \<not> registry_pair (gw_store w) pins prepared then (PRet (GcRunResult GCR_ABORTED None []), w)
      else if \<not> gs_gc_lock sc then (PRaise PubOSError, w)
      else if gs_busy sc then (PRet (GcRunResult GCR_BUSY None []), w)
      else
        (let w1 = w\<lparr>gw_eph := reap_dead_ephemeral (gs_reap_fails sc) (gw_eph w)\<rparr>
         in case gather_roots env lim retention (gs_gather sc) w1 of
              RoRaise e \<Rightarrow> (PRaise e, w1)
            | RoAbort GC_NO_CURRENT \<Rightarrow> (PRet (GcRunResult GCR_NO_CURRENT None []), w1)
            | RoAbort _ \<Rightarrow> (PRet (GcRunResult GCR_ABORTED None []), w1)
            | RoOk roots \<Rightarrow>
                (let w2 = gs_after_roots sc w1
                 in case root_signature env (gs_sig1 sc) w2 of
                      PRaise e \<Rightarrow> (PRaise e, w2)
                    | PKilled \<Rightarrow> (PKilled, w2)
                    | PRet sig_before \<Rightarrow>
                        (case plan_reachability env lim (gw_objects w2) (gw_wal w2) roots of
                           RoRaise e \<Rightarrow> (PRaise e, w2)
                         | RoAbort s \<Rightarrow> (PRet (GcRunResult GCR_ABORTED (Some (Inl s)) []), w2)
                         | RoOk plan \<Rightarrow>
                             if \<not> gs_pin_lock sc then (PRaise PubOSError, w2)
                             else
                               (let w3 = gs_after_plan sc w2
                                in case root_signature env (gs_sig2 sc) w3 of
                                     PRaise e \<Rightarrow> (PRaise e, w3)
                                   | PKilled \<Rightarrow> (PKilled, w3)
                                   | PRet sig_after \<Rightarrow>
                                       if sig_before = None \<or> sig_after = None then
                                         (PRet (GcRunResult GCR_ABORTED (Some (Inr plan)) []), w3)
                                       else if sig_after \<noteq> sig_before then
                                         (PRet (GcRunResult GCR_STALE_PLAN (Some (Inr plan)) []), w3)
                                       else execute_plan env journal_key_id best_effort sc plan
                                              (w3\<lparr>gw_store := gs_after_reread sc (gw_store w3)\<rparr>))))))"

subsection \<open>The recovery\<close>

datatype gc_recover_state = GRS_OK | GRS_FAIL_CLOSED | GRS_BUSY | GRS_MOVE_FAILED

record gc_recovery =
  grc_state :: gc_recover_state
  grc_restored :: "bytes list"
  grc_kept :: "bytes list"

record gc_recover_script =
  gv_gc_lock :: bool
  gv_pin_lock :: bool
  gv_busy :: bool
  gv_journal :: "bytes option \<Rightarrow> read_fault option"
  gv_gather :: gc_reads
  gv_restore :: "bytes \<Rightarrow> move_fault option"
  gv_return :: "bytes \<Rightarrow> move_fault option"

text \<open>The journals with their stems; the older single journal has none and is not bound to a name.\<close>

definition journal_files :: "gc_world \<Rightarrow> (bytes option \<times> file_node) list" where
  "journal_files w = map (\<lambda>(name, nd). (Some name, nd)) (by_name ''.hgcj'' (gw_journals w)) @
     (case gw_legacy w of None \<Rightarrow> [] | Some nd \<Rightarrow> [(None, nd)])"

fun read_journals ::
  "bytes option \<Rightarrow> (bytes option \<Rightarrow> read_fault option) \<Rightarrow> (bytes option \<times> file_node) list \<Rightarrow> gc_item list option" where
  "read_journals jkey fault [] = Some []"
| "read_journals jkey fault ((name, nd) # js) =
     (case (read_record_limited (Some nd) (fault name), jkey) of
        ((SCAN_VALID, Some data), Some key) \<Rightarrow>
          (case parse_journal data key of
             None \<Rightarrow> None
           | Some (pd, its) \<Rightarrow>
               if name \<noteq> None \<and> name \<noteq> Some (hex pd) then None
               else map_option ((@) its) (read_journals jkey fault js))
      | _ \<Rightarrow> None)"

text \<open>Everything journaled comes back first; the keys that were moved.\<close>

fun restore_items ::
  "bool \<Rightarrow> (bytes \<Rightarrow> move_fault option) \<Rightarrow> gc_item list \<Rightarrow> object_store \<times> object_store
     \<Rightarrow> bool \<times> bytes list \<times> (object_store \<times> object_store)" where
  "restore_items be mf [] oq = (True, [], oq)"
| "restore_items be mf ((kind, key) # its) oq =
     (if kind \<noteq> GC_OBJECT \<or> find_object (snd oq) key = None then restore_items be mf its oq
      else
        (case move_file (snd oq) (fst oq) key be (mf key) of
           (False, q', o') \<Rightarrow> (False, [], (o', q'))
         | (True, q', o') \<Rightarrow>
             (case restore_items be mf its (o', q') of (ok, ks, oq') \<Rightarrow> (ok, key # ks, oq'))))"

fun return_items ::
  "bool \<Rightarrow> (bytes \<Rightarrow> move_fault option) \<Rightarrow> gc_item list \<Rightarrow> bytes list \<Rightarrow> gc_item list \<Rightarrow> object_store \<times> object_store
     \<Rightarrow> bool \<times> bytes list \<times> bytes list \<times> (object_store \<times> object_store)" where
  "return_items be mf reachable temp [] oq = (True, [], [], oq)"
| "return_items be mf reachable temp ((kind, key) # its) oq =
     (if kind \<noteq> GC_OBJECT then return_items be mf reachable temp its oq
      else if (GC_OBJECT, key) \<in> set reachable then
        (case return_items be mf reachable temp its oq of
           (ok, rs, ks, oq') \<Rightarrow> (ok, if key \<in> set temp then key # rs else rs, ks, oq'))
      else
        (case (if find_object (fst oq) key = None then (True, oq) else move_file (fst oq) (snd oq) key be (mf key)) of
           (False, oq') \<Rightarrow> (False, [], [], oq')
         | (True, oq') \<Rightarrow>
             (case return_items be mf reachable temp its oq' of (ok, rs, ks, oq'') \<Rightarrow> (ok, rs, key # ks, oq''))))"

definition recover_gc ::
  "pub_env \<Rightarrow> reach_limits \<Rightarrow> int option option \<Rightarrow> int option option \<Rightarrow> int \<Rightarrow> int \<Rightarrow> bool \<Rightarrow> gc_recover_script \<Rightarrow> gc_world
     \<Rightarrow> gc_recovery pub_out \<times> gc_world" where
  "recover_gc env lim pins prepared retention journal_key_id best_effort sc w =
     (let answer = (\<lambda>s rs ks. PRet \<lparr>grc_state = s, grc_restored = rs, grc_kept = ks\<rparr>)
      in if \<not> registry_pair (gw_store w) pins prepared then (answer GRS_FAIL_CLOSED [] [], w)
         else if \<not> gv_gc_lock sc then (PRaise PubOSError, w)
         else if gv_busy sc then (answer GRS_BUSY [] [], w)
         else if \<not> gv_pin_lock sc then (PRaise PubOSError, w)
         else if journal_files w = [] then (answer GRS_OK [] [], w)
         else
           (case read_journals (dget (pe_keyring env) journal_key_id) (gv_journal sc) (journal_files w) of
              None \<Rightarrow> (answer GRS_FAIL_CLOSED [] [], w)
            | Some journaled \<Rightarrow>
                (let items = sorted_items journaled
                 in case restore_items best_effort (gv_restore sc) items (gw_objects w, gw_quarantine w) of
                      (False, temp, oq) \<Rightarrow> (answer GRS_MOVE_FAILED [] [], with_objects w oq)
                    | (True, temp, oq) \<Rightarrow>
                        (let w1 = with_objects w oq
                         in case gather_roots env lim retention (gv_gather sc) w1 of
                              RoRaise e \<Rightarrow> (PRaise e, w1)
                            | RoAbort _ \<Rightarrow> (answer GRS_FAIL_CLOSED [] [], w1)
                            | RoOk roots \<Rightarrow>
                                (case plan_reachability env lim (gw_objects w1) (gw_wal w1) roots of
                                   RoRaise e \<Rightarrow> (PRaise e, w1)
                                 | RoAbort _ \<Rightarrow> (answer GRS_FAIL_CLOSED [] [], w1)
                                 | RoOk plan \<Rightarrow>
                                     (case return_items best_effort (gv_return sc) (gp_reachable plan) temp items oq of
                                        (ok, rs, ks, oq') \<Rightarrow>
                                          (answer (if ok then GRS_OK else GRS_MOVE_FAILED) rs ks, with_objects w1 oq')))))))"

subsection \<open>Capturing a snapshot\<close>

record capture_script =
  cs_lock :: bool
  cs_read :: "read_fault option"
  cs_pin :: "name_fault option"
  cs_suffix :: bytes

text \<open>The snapshot with its pin: a named one is not handed out, an ephemeral one by its file name. Only
  an ephemeral pin is closed again when the generation does not open.\<close>

definition capture_snapshot ::
  "pub_env \<Rightarrow> bytes option \<Rightarrow> capture_script \<Rightarrow> gc_world
     \<Rightarrow> (generation_handle \<times> bytes \<times> bytes option) option pub_out \<times> gc_world" where
  "capture_snapshot env name sc w =
     (if \<not> cs_lock sc then (PRaise PubOSError, w)
      else
        (case open_published_cursor env (gw_store w) (cs_read sc) of
           PRaise e \<Rightarrow> (PRaise e, w)
         | PKilled \<Rightarrow> (PKilled, w)
         | PRet (CS_VALID, Some c) \<Rightarrow>
             (let d = pp_publication_sha256 (pc_proof c);
                  (raised, pin, w') =
                    (case name of
                       Some n \<Rightarrow>
                         (case pin_named (gw_named w) n d (em_key_id (pc_manifest c)) (pe_keyring env) False (cs_pin sc) of
                            (e, dir) \<Rightarrow> (e, None, w\<lparr>gw_named := dir\<rparr>))
                     | None \<Rightarrow>
                         (let w' = w\<lparr>gw_eph := pin_ephemeral d (cs_suffix sc) (gw_eph w)\<rparr>
                          in case cs_pin sc of
                               Some NF_Write \<Rightarrow> (Some RgOSError, None, w)
                             | Some NF_DirSync \<Rightarrow> (Some RgOSError, None, w')
                             | _ \<Rightarrow> (None, Some (hex d @ [46] @ cs_suffix sc), w')))
              in case raised of
                   Some RgValueError \<Rightarrow> (PRaise PubValueError, w')
                 | Some RgStructError \<Rightarrow> (PRaise PubStructError, w')
                 | Some RgOSError \<Rightarrow> (PRaise PubOSError, w')
                 | None \<Rightarrow>
                     (case open_generation (recovery_gen_env env DEFAULT_GENERATION_LIMITS (gw_objects w') (gw_wal w'))
                             (Some (pc_manifest_blob c)) of
                        Inl e \<Rightarrow> (PRaise (PubGenExn e), w')
                      | Inr (G_VALID, Some h) \<Rightarrow> (PRet (Some (h, d, pin)), w')
                      | Inr _ \<Rightarrow>
                          (PRet None, case pin of None \<Rightarrow> w' | Some p \<Rightarrow> w'\<lparr>gw_eph := eph_close p (gw_eph w')\<rparr>)))
         | PRet _ \<Rightarrow> (PRet None, w)))"

subsection \<open>Objects move and nothing else\<close>

lemma dget_filter_key: "dget (filter (\<lambda>e. fst e \<noteq> d) objs) x = (if x = d then None else dget objs x)"
  by (induction objs) auto

lemma find_object_hex: "find_object objs (hex d) = map_option (Pair d) (dget objs d)"
  by (induction objs) (auto simp: find_object_def)

lemma find_object_some: "find_object objs key = Some (d, b) \<Longrightarrow> key = hex d \<and> dget objs d = Some b"
  by (induction objs) (auto simp: find_object_def split: if_splits)

lemma move_file_effect:
  assumes "move_file src dst key be f = (ok, src', dst')"
  shows "(src' = src \<and> dst' = dst \<and> (ok \<longrightarrow> find_object src key = None)) \<or>
    (\<exists>d b. key = hex d \<and> dget src d = Some b \<and> (\<forall>x. dget src' x = (if x = d then None else dget src x)) \<and>
       (\<forall>x. dget dst' x = (if x = d then Some b else dget dst x)))"
proof (cases "find_object src key")
  case None
  then show ?thesis using assms by (auto simp: move_file_def)
next
  case (Some e)
  obtain d b where e: "e = (d, b)" by (cases e)
  have k: "key = hex d" "dget src d = Some b" using find_object_some Some e by auto
  have g: "dget (filter (\<lambda>e. hex (fst e) \<noteq> key) src) x = (if x = d then None else dget src x)" for x
    using dget_filter_key [of d src x] by (simp add: k(1))
  show ?thesis
    using assms Some k g by (auto simp: move_file_def e Let_def dget_dput split: if_splits)
qed

text \<open>Where the bytes of a digest are: in one of the two directories.\<close>

definition held :: "object_store \<times> object_store \<Rightarrow> bytes \<Rightarrow> bytes set" where
  "held oq d = {b. dget (fst oq) d = Some b \<or> dget (snd oq) d = Some b}"

definition nothing_lost :: "object_store \<times> object_store \<Rightarrow> object_store \<times> object_store \<Rightarrow> bool" where
  "nothing_lost oq oq' \<longleftrightarrow> (\<forall>d. held oq' d \<subseteq> held oq d \<and> (held oq d \<noteq> {} \<longrightarrow> held oq' d \<noteq> {}))"

lemma nothing_lost_refl [simp]: "nothing_lost oq oq"
  by (simp add: nothing_lost_def)

lemma nothing_lost_trans [trans]: "nothing_lost a b \<Longrightarrow> nothing_lost b c \<Longrightarrow> nothing_lost a c"
  by (fastforce simp: nothing_lost_def)

lemma move_file_nothing_lost:
  assumes "move_file src dst key be f = (ok, src', dst')"
  shows "nothing_lost (src, dst) (src', dst')" "nothing_lost (dst, src) (dst', src')"
proof -
  have "nothing_lost (src, dst) (src', dst') \<and> nothing_lost (dst, src) (dst', src')"
  proof (cases "src' = src \<and> dst' = dst")
    case False
    then obtain d b where d: "dget src d = Some b" "\<And>x. dget src' x = (if x = d then None else dget src x)"
        "\<And>x. dget dst' x = (if x = d then Some b else dget dst x)"
      using move_file_effect [OF assms] by blast
    have "held (src', dst') x \<subseteq> held (src, dst) x \<and> (held (src, dst) x \<noteq> {} \<longrightarrow> held (src', dst') x \<noteq> {})" for x
      by (cases "x = d") (auto simp: held_def d)
    moreover have "held (dst, src) x = held (src, dst) x" "held (dst', src') x = held (src', dst') x" for x
      by (auto simp: held_def)
    ultimately show ?thesis unfolding nothing_lost_def by simp
  qed simp
  then show "nothing_lost (src, dst) (src', dst')" "nothing_lost (dst, src) (dst', src')" by blast+
qed

text \<open>What a directory has to keep for the others: the digest has what it had, or was moved.\<close>

definition moved_out :: "gc_item set \<Rightarrow> object_store \<times> object_store \<Rightarrow> object_store \<times> object_store \<Rightarrow> bool" where
  "moved_out S oq oq' \<longleftrightarrow> (\<forall>d. dget (fst oq') d = dget (fst oq) d \<and> dget (snd oq') d = dget (snd oq) d \<or>
     obj_item d \<in> S \<and> dget (fst oq') d = None \<and> dget (snd oq') d = dget (fst oq) d \<and> dget (fst oq) d \<noteq> None)"

lemma moved_out_refl [simp]: "moved_out S oq oq"
  by (simp add: moved_out_def)

lemma moved_out_trans: "moved_out S a b \<Longrightarrow> moved_out S b c \<Longrightarrow> moved_out S a c"
  unfolding moved_out_def by metis

lemma moved_out_mono: "moved_out S a b \<Longrightarrow> S \<subseteq> T \<Longrightarrow> moved_out T a b"
  unfolding moved_out_def by blast

lemma moved_out_nothing_lost: "moved_out S a b \<Longrightarrow> nothing_lost a b"
  unfolding nothing_lost_def
proof
  fix d
  assume "moved_out S a b"
  then have "dget (fst b) d = dget (fst a) d \<and> dget (snd b) d = dget (snd a) d \<or>
      dget (fst b) d = None \<and> dget (snd b) d = dget (fst a) d \<and> dget (fst a) d \<noteq> None"
    unfolding moved_out_def by blast
  then show "held b d \<subseteq> held a d \<and> (held a d \<noteq> {} \<longrightarrow> held b d \<noteq> {})"
    by (elim disjE conjE) (auto simp: held_def)
qed

lemma move_file_out:
  assumes "move_file (fst oq) (snd oq) key be f = (ok, o', q')"
  shows "moved_out {(GC_OBJECT, key)} oq (o', q')"
    and "ok \<Longrightarrow> key = hex d \<Longrightarrow> dget o' d = None"
  using move_file_effect [OF assms] by (auto simp: moved_out_def obj_item_def find_object_hex split: if_splits)

lemma move_items_out:
  assumes "move_items be mf kill i its oq = (e, moved, oq')"
  shows "moved_out (set its) oq oq' \<and> set moved \<subseteq> set its \<and>
    (e = MV_ALL \<longrightarrow> (\<forall>d. obj_item d \<in> set its \<longrightarrow> dget (fst oq') d = None) \<and>
       ((\<forall>it \<in> set its. fst it = GC_OBJECT) \<longrightarrow> moved = its))"
  using assms
proof (induction its arbitrary: i oq e moved oq')
  case Nil
  then show ?case by auto
next
  case (Cons it its)
  show ?case
  proof (cases "kill = Some (KillBeforeMove i)")
    case True
    then show ?thesis using Cons.prems by auto
  next
    case False
    let ?step = "case quarantine_key it of None \<Rightarrow> (True, [], oq)
      | Some key \<Rightarrow> (case move_file (fst oq) (snd oq) key be (mf key) of (ok, o', q') \<Rightarrow> (ok, if ok then [it] else [], (o', q')))"
    obtain ok m oq1 where s: "?step = (ok, m, oq1)" by (cases ?step)
    have one: "moved_out {it} oq oq1 \<and> set m \<subseteq> {it} \<and> (ok \<and> it = obj_item d \<longrightarrow> dget (fst oq1) d = None) \<and>
        (ok \<and> fst it = GC_OBJECT \<longrightarrow> m = [it])" for d
    proof (cases "quarantine_key it")
      case None
      then show ?thesis using s by (auto simp: quarantine_key_def obj_item_def split: if_splits)
    next
      case (Some key)
      then have it: "it = (GC_OBJECT, key)" by (cases it) (auto simp: quarantine_key_def split: if_splits)
      obtain k o' q' where mv: "move_file (fst oq) (snd oq) key be (mf key) = (k, o', q')" by (cases "move_file (fst oq) (snd oq) key be (mf key)") auto
      have r: "ok = k" "m = (if k then [it] else [])" "oq1 = (o', q')" using s Some mv by auto
      show ?thesis using move_file_out(1) [OF mv] move_file_out(2) [OF mv, of d] by (auto simp: r it obj_item_def)
    qed
    note a = Cons.prems [unfolded move_items.simps if_not_P [OF False] s Let_def prod.case]
    show ?thesis
    proof (cases "ok \<and> kill \<noteq> Some (KillAfterMove i)")
      case False
      then have r: "e \<noteq> MV_ALL" "oq' = oq1" "moved = [] \<or> moved = m"
        using a by (auto split: if_splits)
      have "moved_out (set (it # its)) oq oq1" by (rule moved_out_mono [of "{it}"]) (use one in auto)
      then show ?thesis using one r by auto
    next
      case True
      obtain e2 m2 oq2 where rec: "move_items be mf kill (Suc i) its oq1 = (e2, m2, oq2)" by (cases "move_items be mf kill (Suc i) its oq1") auto
      have r: "e = e2" "moved = m @ m2" "oq' = oq2" using a True rec by auto
      note ih = Cons.IH [OF rec]
      have "moved_out (set (it # its)) oq oq2"
      proof (rule moved_out_trans)
        show "moved_out (set (it # its)) oq oq1" by (rule moved_out_mono [of "{it}"]) (use one in auto)
        show "moved_out (set (it # its)) oq1 oq2" by (rule moved_out_mono [of "set its"]) (use ih in auto)
      qed
      moreover have "dget (fst oq2) d = None" if "e2 = MV_ALL" "obj_item d \<in> set (it # its)" for d
      proof (cases "obj_item d \<in> set its")
        case True
        then show ?thesis using ih that by blast
      next
        case False
        then have "dget (fst oq1) d = None" using one [of d] that True \<open>ok \<and> _\<close> by auto
        then show ?thesis using ih unfolding moved_out_def by metis
      qed
      moreover have "set (m @ m2) \<subseteq> set (it # its)" using one ih by auto
      moreover have "m @ m2 = it # its" if "e2 = MV_ALL" "\<forall>it \<in> set (it # its). fst it = GC_OBJECT"
        using one ih that True by simp
      ultimately show ?thesis unfolding r by blast
    qed
  qed
qed

end
