(* ===== verification/GcSafety.thy ===== *)
theory GcSafety
  imports GcRun
begin

section \<open>What a collection keeps\<close>

text \<open>
  The objects of a closure are present, a plan protects the closures of its roots, and growing stores
  keep them. Run and recovery only move objects, and a run moves only objects its plan found
  unreachable, under a journal.
\<close>

subsection \<open>The objects of a closure are there\<close>

lemma obj_item_inject [simp]: "obj_item a = obj_item b \<longleftrightarrow> a = b"
  by (simp add: obj_item_def)

lemma obj_active_distinct [simp]: "obj_item d \<noteq> active_item sc seg"
  by (simp add: obj_item_def active_item_def)

lemma base_artifact_present: "open_base_artifact np d objs c l kr = Inr part \<Longrightarrow> dget objs (ad_sha256 d) \<noteq> None"
proof
  assume a: "open_base_artifact np d objs c l kr = Inr part" and n: "dget objs (ad_sha256 d) = None"
  let ?o = "open_artifact np d None [] l (Some kr)"
  have "oa_state ?o \<noteq> A_VALID" using open_artifact_valid by blast
  then show False
    using a n by (auto simp: open_base_artifact_def get_limited_def Let_def split: artifact_open_state.splits option.splits)
qed

lemma base_components_present:
  assumes "open_base_components opn ds ks = Inr parts" "k \<in> set ks"
  obtains d part where "dget ds k = Some d" "opn d = Inr part"
  using assms by (induction ks arbitrary: parts thesis) (auto split: option.splits sum.splits)

lemma replay_segments_read:
  assumes "replay_segments ws kr sc wl f ss red = Inr (Inr red')" "s \<in> set ss"
  shows "\<exists>g. read_validated_segment ws s sc wl (f s) = (AP_VALID, Some g)"
  using assms
  by (induction ss arbitrary: red) (fastforce split: if_splits prod.splits active_prefix_state.splits option.splits sum.splits)+

lemma sealed_present:
  assumes r: "read_validated_segment ws s sc wl f = (AP_VALID, Some g)" and s: "wsd_status s = STATE_SEALED"
  shows "dget (ws_objects ws) (wsd_sealed_object_sha256 s) \<noteq> None"
proof
  assume n: "dget (ws_objects ws) (wsd_sealed_object_sha256 s) = None"
  have "fst (open_sealed ws (wsd_sealed_object_sha256 s) wl f) \<in> {WS_CORRUPT, WS_MISSING}"
    by (simp add: open_sealed_def n safe_read_def)
  then show False
    using r s by (auto simp: read_validated_segment_def Let_def split: prod.splits wal_store_state.splits)
qed

lemma replayed_segments:
  assumes "replay_generation env m bun d = Inr (G_VALID, Some h)" "s \<in> set (em_segments m)"
  shows "\<exists>g. read_validated_segment (ge_wal env) s (em_scope_id m) (wal_limits (ge_gen_limits env)) (ge_fault env s) = (AP_VALID, Some g)"
proof -
  obtain red red' where "replay_segments (ge_wal env) (ge_keyring env) (em_scope_id m) (wal_limits (ge_gen_limits env))
      (ge_fault env) (em_segments m) red = Inr (Inr red')"
    using assms(1) unfolding replay_generation_def Let_def by (auto split: sum.splits)
  from replay_segments_read [OF this assms(2)] show ?thesis .
qed

lemma over_base_replayed:
  assumes "open_over_base env m parts = Inr (G_VALID, Some h)"
  obtains bun d where "replay_generation env m bun d = Inr (G_VALID, Some h)"
  using assms unfolding open_over_base_def
  by (auto split: list.splits component.splits if_splits option.splits)

lemma segment_items_only:
  "segment_items sc ss = Some its \<Longrightarrow> obj_item x \<in> set its \<Longrightarrow>
   \<exists>s \<in> set ss. wsd_status s = STATE_SEALED \<and> x = wsd_sealed_object_sha256 s"
  by (induction ss arbitrary: its) (auto split: if_splits)

lemma reach_present:
  assumes r: "reach_from_publication env lim objs ws d = RoOk its" and w: "ws_objects ws = objs" and x: "obj_item x \<in> set its"
  shows "dget objs x \<noteq> None"
proof (rule reached [OF r])
  fix rec man blob h its'
  assume p: "dget objs d \<noteq> None" "dget objs (pub_manifest_sha256 rec) = Some blob"
    and m: "parse_manifest (Some blob) (pe_keyring env) = (G_VALID, Some man)"
    and h: "open_generation (recovery_gen_env env DEFAULT_GENERATION_LIMITS objs ws) (Some blob) = Inr (G_VALID, Some h)"
    and i: "manifest_items man = Some its'" "its = obj_item d # obj_item (pub_manifest_sha256 rec) # its'"
  let ?e = "recovery_gen_env env DEFAULT_GENERATION_LIMITS objs ws"
  have e: "ge_objects ?e = objs" "ge_wal ?e = ws" "ge_keyring ?e = pe_keyring env" by (simp_all add: recovery_gen_env_def)
  obtain parts where parts: "open_base_components (\<lambda>d. open_base_artifact (ge_np ?e) d objs (ge_changed ?e)
        (ge_limits ?e) (ge_keyring ?e)) (em_base_descriptors man) BASE_KINDS = Inr parts"
      "open_over_base ?e man parts = Inr (G_VALID, Some h)"
    using open_generation_valid [OF h] m unfolding e by (metis option.inject prod.inject)
  obtain its2 where j: "its' = map (\<lambda>k. obj_item (ad_sha256 (the (dget (em_base_descriptors man) k)))) BASE_KINDS @ its2"
      "segment_items (em_scope_id man) (em_segments man) = Some its2"
    using i(1) by (auto simp: manifest_items_def split: if_splits)
  consider "x = d" | "x = pub_manifest_sha256 rec" | k where "k \<in> set BASE_KINDS" "x = ad_sha256 (the (dget (em_base_descriptors man) k))"
    | "obj_item x \<in> set its2"
    using x unfolding i(2) j(1) by auto
  then show ?thesis
  proof cases
    case 3
    obtain ad part where "dget (em_base_descriptors man) k = Some ad"
      "open_base_artifact (ge_np ?e) ad objs (ge_changed ?e) (ge_limits ?e) (ge_keyring ?e) = Inr part"
      using base_components_present [OF parts(1) 3(1)] by blast
    then show ?thesis using base_artifact_present 3(2) by fastforce
  next
    case 4
    obtain s where s: "s \<in> set (em_segments man)" "wsd_status s = STATE_SEALED" "x = wsd_sealed_object_sha256 s"
      using segment_items_only [OF j(2) 4] by blast
    obtain bun dd where "replay_generation ?e man bun dd = Inr (G_VALID, Some h)" using over_base_replayed [OF parts(2)] .
    from replayed_segments [OF this s(1)] obtain g where
      "read_validated_segment ws s (em_scope_id man) (wal_limits (ge_gen_limits ?e)) (ge_fault ?e s) = (AP_VALID, Some g)"
      unfolding e by blast
    from sealed_present [OF this s(2)] show ?thesis by (simp add: s(3) w)
  qed (use p in auto)
qed

subsection \<open>Stores that only grow\<close>

definition world_reach :: "pub_env \<Rightarrow> reach_limits \<Rightarrow> gc_world \<Rightarrow> bytes \<Rightarrow> gc_item list reach_out" where
  "world_reach env lim w d = reach_from_publication env lim (gw_objects w) (gw_wal w) d"

text \<open>What the other processes may do: objects are put, pins and packages come and go, \<open>CURRENT\<close>
  moves; no object is lost and no file of the WAL directory changes.\<close>

definition store_grows :: "gc_world \<Rightarrow> gc_world \<Rightarrow> bool" where
  "store_grows w w' \<longleftrightarrow> (\<forall>d b. dget (gw_objects w) d = Some b \<longrightarrow> dget (gw_objects w') d = Some b) \<and>
     gw_active w' = gw_active w \<and> gw_wal_keys w' = gw_wal_keys w"

lemma store_grows_refl [simp]: "store_grows w w"
  by (simp add: store_grows_def)

lemma store_grows_trans [trans]: "store_grows a b \<Longrightarrow> store_grows b c \<Longrightarrow> store_grows a c"
  by (simp add: store_grows_def)

lemma gw_wal_simps [simp]: "ws_active (gw_wal w) = gw_active w" "ws_objects (gw_wal w) = gw_objects w" "ws_keyring (gw_wal w) = gw_wal_keys w"
  by (simp_all add: gw_wal_def)

lemma world_reach_present: "world_reach env lim w d = RoOk its \<Longrightarrow> obj_item x \<in> set its \<Longrightarrow> dget (gw_objects w) x \<noteq> None"
  using reach_present [of env lim "gw_objects w" "gw_wal w"] by (simp add: world_reach_def)

lemma world_reach_same:
  assumes "world_reach env lim w d = RoOk its" "gw_active w' = gw_active w" "gw_wal_keys w' = gw_wal_keys w"
    and "\<And>x. obj_item x \<in> set its \<Longrightarrow> dget (gw_objects w') x = dget (gw_objects w) x"
  shows "world_reach env lim w' d = RoOk its"
  unfolding world_reach_def
  by (rule reach_cong [OF assms(1) [unfolded world_reach_def]]) (simp_all add: same_files_def assms)

lemma world_reach_grows:
  assumes "world_reach env lim w d = RoOk its" "store_grows w w'"
  shows "world_reach env lim w' d = RoOk its"
proof (rule world_reach_same [OF assms(1)])
  show "dget (gw_objects w') x = dget (gw_objects w) x" if "obj_item x \<in> set its" for x
    using world_reach_present [OF assms(1) that] assms(2) by (auto simp: store_grows_def)
qed (use assms(2) in \<open>simp_all add: store_grows_def\<close>)

subsection \<open>A plan protects the closures of its roots\<close>

lemma reach_all_ok:
  "reach_all reach n ds = RoOk its \<Longrightarrow> d \<in> set ds \<Longrightarrow> \<exists>its'. reach d = RoOk its' \<and> set its' \<subseteq> set its"
  by (induction ds arbitrary: n its) (fastforce split: if_splits reach_out.splits)+

lemma plan_protects:
  assumes "plan_reachability env lim (gw_objects w) (gw_wal w) roots = RoOk plan"
  shows "d \<in> set (all_publication_digests roots) \<Longrightarrow>
      \<exists>its. world_reach env lim w d = RoOk its \<and> set its \<inter> set (gp_unreachable plan) = {}"
    and "x \<in> set (ro_objects roots) \<Longrightarrow> obj_item x \<notin> set (gp_unreachable plan)"
    and "obj_item x \<in> set (gp_unreachable plan) \<Longrightarrow> dget (gw_objects w) x \<noteq> None"
    and "length (gp_digest plan) = 32"
    and "obj_item x \<in> set (gp_reachable plan) \<Longrightarrow> obj_item x \<notin> set (gp_unreachable plan)"
    and "dget (gw_objects w) x \<noteq> None \<Longrightarrow> obj_item x \<in> set (gp_reachable plan) \<union> set (gp_unreachable plan)"
proof -
  let ?reach = "reach_from_publication env lim (gw_objects w) (gw_wal w)"
  obtain its where its: "reach_all ?reach (rh_max_nodes lim) (all_publication_digests roots) = RoOk its"
    using assms unfolding plan_reachability_def by (auto split: reach_out.splits)
  define reachable where "reachable = its @ map obj_item (ro_objects roots) @ map (\<lambda>(sc, seg). active_item sc seg) (ro_actives roots)"
  define present where "present = enumerate_objects (gw_objects w) @ enumerate_active (gw_wal w)"
  have u: "gp_unreachable plan = filter (\<lambda>it. it \<notin> set reachable) present" "gp_reachable plan = filter (\<lambda>it. it \<in> set present) reachable"
      "length (gp_digest plan) = 32"
    using assms unfolding plan_reachability_def its Let_def reachable_def present_def by (auto simp: canonical_plan_digest_def)
  show "\<exists>its. world_reach env lim w d = RoOk its \<and> set its \<inter> set (gp_unreachable plan) = {}"
    if "d \<in> set (all_publication_digests roots)"
    using reach_all_ok [OF its that] by (fastforce simp: world_reach_def u reachable_def)
  show "obj_item x \<notin> set (gp_unreachable plan)" if "x \<in> set (ro_objects roots)"
    using that by (simp add: u reachable_def)
  have p: "obj_item x \<in> set present \<longleftrightarrow> dget (gw_objects w) x \<noteq> None"
  proof -
    have "obj_item x \<in> set (enumerate_objects (gw_objects w)) \<longleftrightarrow> x \<in> set (dkeys (gw_objects w))"
      by (force simp: enumerate_objects_def)
    moreover have "obj_item x \<notin> set (enumerate_active (gw_wal w))"
      by (auto simp: enumerate_active_def obj_item_def active_item_def)
    ultimately show ?thesis by (simp add: present_def map_of_eq_None_iff)
  qed
  show "dget (gw_objects w) x \<noteq> None" if "obj_item x \<in> set (gp_unreachable plan)"
    using that p by (simp add: u)
  show "length (gp_digest plan) = 32" by (rule u(3))
  show "obj_item x \<notin> set (gp_unreachable plan)" if "obj_item x \<in> set (gp_reachable plan)"
    using that by (simp add: u)
  show "obj_item x \<in> set (gp_reachable plan) \<union> set (gp_unreachable plan)" if "dget (gw_objects w) x \<noteq> None"
    using that p by (auto simp: u)
qed

subsection \<open>What a run does to the directories\<close>

text \<open>Only the journals change, and objects move to the quarantine.\<close>

definition world_moves :: "gc_item set \<Rightarrow> gc_world \<Rightarrow> gc_world \<Rightarrow> bool" where
  "world_moves S w w' \<longleftrightarrow> moved_out S (gw_objects w, gw_quarantine w) (gw_objects w', gw_quarantine w') \<and>
     w' = with_objects (w\<lparr>gw_journals := gw_journals w'\<rparr>) (gw_objects w', gw_quarantine w')"

lemma with_objects_simps [simp]:
  "gw_objects (with_objects w oq) = fst oq" "gw_quarantine (with_objects w oq) = snd oq"
  "gw_active (with_objects w oq) = gw_active w" "gw_wal_keys (with_objects w oq) = gw_wal_keys w"
  "gw_journals (with_objects w oq) = gw_journals w" "gw_named (with_objects w oq) = gw_named w"
  "gw_eph (with_objects w oq) = gw_eph w" "gw_prepared (with_objects w oq) = gw_prepared w"
  "pd_current (gw_store (with_objects w oq)) = pd_current (gw_store w)" "gw_legacy (with_objects w oq) = gw_legacy w"
  by (simp_all add: with_objects_def)

lemma with_objects_same [simp]: "with_objects w (gw_objects w, gw_quarantine w) = w"
  by (simp add: with_objects_def)

lemma world_moves_refl [simp]: "world_moves S w w"
  by (simp add: world_moves_def with_objects_def)

lemma world_moves_journals: "world_moves S w (w\<lparr>gw_journals := js\<rparr>)"
  by (simp add: world_moves_def with_objects_def)

lemma world_moves_object: "world_moves S w w' \<Longrightarrow> obj_item x \<notin> S \<Longrightarrow> dget (gw_objects w') x = dget (gw_objects w) x"
  unfolding world_moves_def moved_out_def by (metis fst_conv)

lemma world_reach_moves:
  assumes "world_reach env lim w d = RoOk its" "world_moves S w w'" "set its \<inter> S = {}"
  shows "world_reach env lim w' d = RoOk its"
proof (rule world_reach_same [OF assms(1)])
  have w: "w' = with_objects (w\<lparr>gw_journals := gw_journals w'\<rparr>) (gw_objects w', gw_quarantine w')"
    using assms(2) unfolding world_moves_def by blast
  show "gw_active w' = gw_active w" "gw_wal_keys w' = gw_wal_keys w" by (subst w, simp)+
  show "dget (gw_objects w') x = dget (gw_objects w) x" if "obj_item x \<in> set its" for x
    by (rule world_moves_object [OF assms(2)]) (use assms(3) that in blast)
qed

text \<open>The objects a plan moves, in their order, and the journal of them.\<close>

definition movable_items :: "reach_plan \<Rightarrow> gc_item list" where
  "movable_items plan = filter (\<lambda>it. fst it = GC_OBJECT) (sorted_items (gp_unreachable plan))"

lemma execute_plan_ends:
  assumes "execute_plan env kid be sc plan w = (out, w')"
  shows "w' = w \<and> (\<forall>r. out = PRet r \<longrightarrow> gr_state r \<noteq> GCR_DONE) \<or>
    (\<exists>jkey blob ok js. dget (pe_keyring env) kid = Some jkey \<and>
       authenticated_journal (gp_digest plan) (movable_items plan) jkey = Some blob \<and>
       publish_journal (gw_journals w) (gp_digest plan) blob be (gs_journal sc) = (ok, js) \<and> gw_journals w' = js \<and>
       world_moves (set (gp_unreachable plan)) w w' \<and>
       (if ok then True else w' = w\<lparr>gw_journals := js\<rparr>) \<and>
       (\<forall>r. out = PRet r \<and> gr_state r = GCR_DONE \<longrightarrow> gr_quarantined r = movable_items plan \<and>
          (\<forall>x. obj_item x \<in> set (gp_unreachable plan) \<longrightarrow> dget (gw_objects w') x = None)))"
proof -
  let ?m = "movable_items plan"
  have mk: "set ?m \<subseteq> set (gp_unreachable plan)" "\<forall>it \<in> set ?m. fst it = GC_OBJECT"
    "obj_item x \<in> set (gp_unreachable plan) \<Longrightarrow> obj_item x \<in> set ?m" for x
    by (auto simp: movable_items_def obj_item_def)
  note a = assms [unfolded execute_plan_def Let_def, folded movable_items_def]
  show ?thesis
  proof (cases "?m = []")
    case True
    then show ?thesis using a by auto
  next
    case False
    note a1 = a [unfolded if_not_P [OF False]]
    show ?thesis
    proof (cases "dget (pe_keyring env) kid")
      case None
      then show ?thesis using a1 by auto
    next
      case (Some jkey)
      note a2 = a1 [unfolded Some option.case]
      show ?thesis
      proof (cases "authenticated_journal (gp_digest plan) ?m jkey")
        case None
        then show ?thesis using a2 by auto
      next
        case (Some blob)
        note a3 = a2 [unfolded Some option.case]
        show ?thesis
        proof (cases "gs_kill sc = Some KillBeforeJournal")
          case True
          then show ?thesis using a3 by auto
        next
          case False
          obtain ok js where p: "publish_journal (gw_journals w) (gp_digest plan) blob be (gs_journal sc) = (ok, js)"
            by (cases "publish_journal (gw_journals w) (gp_digest plan) blob be (gs_journal sc)")
          note a4 = a3 [unfolded if_not_P [OF False] p prod.case]
          let ?oq = "(gw_objects w, gw_quarantine w)"
          obtain e moved oq where m: "move_items be (gs_move sc) (gs_kill sc) 0 ?m ?oq = (e, moved, oq)"
            by (cases "move_items be (gs_move sc) (gs_kill sc) 0 ?m ?oq") auto
          have js: "(\<forall>r. out = PRet r \<longrightarrow> gr_state r \<noteq> GCR_DONE) \<and> w' = w\<lparr>gw_journals := js\<rparr> \<or>
              ok \<and> w' = with_objects (w\<lparr>gw_journals := js\<rparr>) oq \<and>
              (\<forall>r. out = PRet r \<and> gr_state r = GCR_DONE \<longrightarrow> e = MV_ALL \<and> gr_quarantined r = moved)"
            using a4 by (cases ok; cases e) (auto simp: m split: if_splits)
          note mo = move_items_out [OF m]
          have "world_moves (set (gp_unreachable plan)) w (with_objects (w\<lparr>gw_journals := js\<rparr>) oq)"
            using moved_out_mono [OF _ mk(1)] mo unfolding world_moves_def by (cases oq) (simp add: with_objects_def)
          then have "world_moves (set (gp_unreachable plan)) w w'" using js world_moves_journals by metis
          moreover have "gw_journals w' = js" using js by auto
          moreover have "gr_quarantined r = ?m \<and> (\<forall>x. obj_item x \<in> set (gp_unreachable plan) \<longrightarrow> dget (gw_objects w') x = None)"
            if "out = PRet r" "gr_state r = GCR_DONE" for r
          proof -
            have q: "w' = with_objects (w\<lparr>gw_journals := js\<rparr>) oq" "e = MV_ALL" "gr_quarantined r = moved" using js that by blast+
            then show ?thesis using mo mk by (simp add: q)
          qed
          moreover have "if ok then True else w' = w\<lparr>gw_journals := js\<rparr>" using js by auto
          ultimately show ?thesis using \<open>dget (pe_keyring env) kid = Some jkey\<close> Some p by blast
        qed
      qed
    qed
  qed
qed

subsection \<open>A run as a whole\<close>

definition gentle :: "gc_script \<Rightarrow> bool" where
  "gentle sc \<longleftrightarrow> (\<forall>w. store_grows w (gs_after_roots sc w)) \<and> (\<forall>w. store_grows w (gs_after_plan sc w)) \<and>
     (\<forall>w. store_grows w (w\<lparr>gw_store := gs_after_reread sc (gw_store w)\<rparr>))"

definition reaped :: "gc_script \<Rightarrow> gc_world \<Rightarrow> gc_world" where
  "reaped sc w = w\<lparr>gw_eph := reap_dead_ephemeral (gs_reap_fails sc) (gw_eph w)\<rparr>"

definition reread :: "gc_script \<Rightarrow> gc_world \<Rightarrow> gc_world" where
  "reread sc w = w\<lparr>gw_store := gs_after_reread sc (gw_store w)\<rparr>"

text \<open>A run either ends without touching the directories, or it executes the plan it made for the
  roots it gathered, after the two signatures were equal.\<close>

lemma run_gc_ends:
  assumes "run_gc env lim pins prepared ret kid be sc w = (out, w')"
  shows "w' \<in> {w, reaped sc w, gs_after_roots sc (reaped sc w), gs_after_plan sc (gs_after_roots sc (reaped sc w))} \<and>
      (\<forall>r. out = PRet r \<longrightarrow> gr_state r \<noteq> GCR_DONE) \<or>
    (\<exists>roots plan sig. gather_roots env lim ret (gs_gather sc) (reaped sc w) = RoOk roots \<and>
       (let w2 = gs_after_roots sc (reaped sc w); w3 = gs_after_plan sc w2
        in root_signature env (gs_sig1 sc) w2 = PRet (Some sig) \<and> root_signature env (gs_sig2 sc) w3 = PRet (Some sig) \<and>
           plan_reachability env lim (gw_objects w2) (gw_wal w2) roots = RoOk plan \<and>
           execute_plan env kid be sc plan (reread sc w3) = (out, w')))"
proof -
  define w1 where "w1 = reaped sc w"
  define w2 where "w2 = gs_after_roots sc w1"
  define w3 where "w3 = gs_after_plan sc w2"
  note a = assms [unfolded run_gc_def Let_def, folded reaped_def w1_def, folded w2_def, folded w3_def, folded reread_def]
  have g: ?thesis if "\<not> (w' \<in> {w, w1, w2, w3} \<and> (\<forall>r. out = PRet r \<longrightarrow> gr_state r \<noteq> GCR_DONE)) \<Longrightarrow>
    \<exists>roots plan sig. gather_roots env lim ret (gs_gather sc) w1 = RoOk roots \<and>
      root_signature env (gs_sig1 sc) w2 = PRet (Some sig) \<and> root_signature env (gs_sig2 sc) w3 = PRet (Some sig) \<and>
      plan_reachability env lim (gw_objects w2) (gw_wal w2) roots = RoOk plan \<and>
      execute_plan env kid be sc plan (reread sc w3) = (out, w')"
    using that unfolding w3_def w2_def w1_def Let_def by blast
  show ?thesis
  proof (rule g)
    assume e: "\<not> (w' \<in> {w, w1, w2, w3} \<and> (\<forall>r. out = PRet r \<longrightarrow> gr_state r \<noteq> GCR_DONE))"
    have n: "\<not> \<not> registry_pair (gw_store w) pins prepared" "\<not> \<not> gs_gc_lock sc" "\<not> gs_busy sc"
      using a e by (auto split: if_splits)
    note a1 = a [unfolded if_not_P [OF n(1)] if_not_P [OF n(2)] if_not_P [OF n(3)]]
    obtain roots where roots: "gather_roots env lim ret (gs_gather sc) w1 = RoOk roots"
      using a1 e by (cases "gather_roots env lim ret (gs_gather sc) w1") (auto split: gc_state.splits)
    note a2 = a1 [unfolded roots reach_out.case]
    obtain s1 where s1: "root_signature env (gs_sig1 sc) w2 = PRet s1"
      using a2 e by (cases "root_signature env (gs_sig1 sc) w2") auto
    note a3 = a2 [unfolded s1 pub_out.case]
    obtain plan where plan: "plan_reachability env lim (gw_objects w2) (gw_wal w2) roots = RoOk plan"
      using a3 e by (cases "plan_reachability env lim (gw_objects w2) (gw_wal w2) roots") auto
    note a4 = a3 [unfolded plan reach_out.case]
    have n4: "\<not> \<not> gs_pin_lock sc" using a4 e by (auto split: if_splits)
    note a5 = a4 [unfolded if_not_P [OF n4]]
    obtain s2 where s2: "root_signature env (gs_sig2 sc) w3 = PRet s2"
      using a5 e by (cases "root_signature env (gs_sig2 sc) w3") auto
    note a6 = a5 [unfolded s2 pub_out.case]
    have n6: "\<not> (s1 = None \<or> s2 = None)" "\<not> s2 \<noteq> s1" using a6 e by (auto split: if_splits)
    from a6 [unfolded if_not_P [OF n6(1)] if_not_P [OF n6(2)]] roots s1 s2 plan n6
    show "\<exists>roots plan sig. gather_roots env lim ret (gs_gather sc) w1 = RoOk roots \<and>
      root_signature env (gs_sig1 sc) w2 = PRet (Some sig) \<and> root_signature env (gs_sig2 sc) w3 = PRet (Some sig) \<and>
      plan_reachability env lim (gw_objects w2) (gw_wal w2) roots = RoOk plan \<and>
      execute_plan env kid be sc plan (reread sc w3) = (out, w')"
      by (metis option.exhaust)
  qed
qed

lemma gentle_grows:
  assumes "gentle sc"
  shows "store_grows w (reaped sc w)" "store_grows w (gs_after_roots sc (reaped sc w))"
    "store_grows (gs_after_roots sc (reaped sc w)) (gs_after_plan sc (gs_after_roots sc (reaped sc w)))"
    "store_grows w (gs_after_plan sc (gs_after_roots sc (reaped sc w)))"
    "store_grows (gs_after_roots sc (reaped sc w)) (reread sc (gs_after_plan sc (gs_after_roots sc (reaped sc w))))"
proof -
  show r: "store_grows w (reaped sc w)" by (simp add: reaped_def store_grows_def)
  have a: "store_grows x (gs_after_roots sc x)" "store_grows x (gs_after_plan sc x)" "store_grows x (reread sc x)" for x
    using assms by (simp_all add: gentle_def reread_def)
  show b: "store_grows w (gs_after_roots sc (reaped sc w))" by (rule store_grows_trans [OF r a(1)])
  show c: "store_grows (gs_after_roots sc (reaped sc w)) (gs_after_plan sc (gs_after_roots sc (reaped sc w)))" by (rule a(2))
  show "store_grows w (gs_after_plan sc (gs_after_roots sc (reaped sc w)))" by (rule store_grows_trans [OF b c])
  show "store_grows (gs_after_roots sc (reaped sc w)) (reread sc (gs_after_plan sc (gs_after_roots sc (reaped sc w))))"
    by (rule store_grows_trans [OF c a(3)])
qed

text \<open>Safety: the closure of every root the run gathered is kept by every outcome.\<close>

lemma run_gc_keeps:
  assumes run: "run_gc env lim pins prepared ret kid be sc w = (out, w')" and g: "gentle sc"
    and roots: "gather_roots env lim ret (gs_gather sc) (reaped sc w) = RoOk roots"
  shows "d \<in> set (all_publication_digests roots) \<Longrightarrow> world_reach env lim w d = RoOk its \<Longrightarrow> world_reach env lim w' d = RoOk its"
    and "x \<in> set (ro_objects roots) \<Longrightarrow> dget (gw_objects w) x = Some b \<Longrightarrow> dget (gw_objects w') x = Some b"
proof -
  define w2 where "w2 = gs_after_roots sc (reaped sc w)"
  define w4 where "w4 = reread sc (gs_after_plan sc w2)"
  have gr: "store_grows w w2" "store_grows w2 w4" "store_grows w w4"
    using gentle_grows [OF g, of w] store_grows_trans unfolding w2_def w4_def by blast+
  have ends: "store_grows w w' \<or> (\<exists>plan. plan_reachability env lim (gw_objects w2) (gw_wal w2) roots = RoOk plan \<and>
      world_moves (set (gp_unreachable plan)) w4 w')"
    using run_gc_ends [OF run]
  proof (elim disjE exE conjE)
    assume "w' \<in> {w, reaped sc w, gs_after_roots sc (reaped sc w), gs_after_plan sc (gs_after_roots sc (reaped sc w))}"
    then show ?thesis using gentle_grows [OF g, of w] by auto
  next
    fix roots' plan sig
    assume r: "gather_roots env lim ret (gs_gather sc) (reaped sc w) = RoOk roots'"
      and l: "let w2 = gs_after_roots sc (reaped sc w); w3 = gs_after_plan sc w2
        in root_signature env (gs_sig1 sc) w2 = PRet (Some sig) \<and> root_signature env (gs_sig2 sc) w3 = PRet (Some sig) \<and>
           plan_reachability env lim (gw_objects w2) (gw_wal w2) roots' = RoOk plan \<and>
           execute_plan env kid be sc plan (reread sc w3) = (out, w')"
    have "roots' = roots" using r roots by simp
    then have p: "plan_reachability env lim (gw_objects w2) (gw_wal w2) roots = RoOk plan" "execute_plan env kid be sc plan w4 = (out, w')"
      using l by (simp_all add: Let_def w2_def w4_def)
    from execute_plan_ends [OF p(2)] have "world_moves (set (gp_unreachable plan)) w4 w'" by auto
    then show ?thesis using p(1) by blast
  qed
  show "world_reach env lim w' d = RoOk its" if d: "d \<in> set (all_publication_digests roots)" "world_reach env lim w d = RoOk its"
    using ends
  proof (elim disjE exE conjE)
    fix plan
    assume p: "plan_reachability env lim (gw_objects w2) (gw_wal w2) roots = RoOk plan" "world_moves (set (gp_unreachable plan)) w4 w'"
    have "world_reach env lim w2 d = RoOk its" "world_reach env lim w4 d = RoOk its"
      using world_reach_grows [OF d(2)] gr by blast+
    moreover from this(1) plan_protects(1) [OF p(1) d(1)] have "set its \<inter> set (gp_unreachable plan) = {}" by auto
    ultimately show ?thesis using world_reach_moves p(2) by blast
  qed (use world_reach_grows [OF d(2)] in blast)
  show "dget (gw_objects w') x = Some b" if x: "x \<in> set (ro_objects roots)" "dget (gw_objects w) x = Some b"
    using ends
  proof (elim disjE exE conjE)
    fix plan
    assume p: "plan_reachability env lim (gw_objects w2) (gw_wal w2) roots = RoOk plan" "world_moves (set (gp_unreachable plan)) w4 w'"
    have "dget (gw_objects w4) x = Some b" using x(2) gr(3) by (simp add: store_grows_def)
    then show ?thesis using world_moves_object [OF p(2) plan_protects(2) [OF p(1) x(1)]] by simp
  qed (use x(2) in \<open>simp add: store_grows_def\<close>)
qed

subsection \<open>The roots depend on the records of their publications\<close>

lemma set_distinct_digests: "set (distinct_digests ds seen) = {d \<in> set ds. d \<noteq> [] \<and> d \<notin> set seen}"
  by (induction ds seen rule: distinct_digests.induct) auto

lemma set_all_publication_digests:
  "set (all_publication_digests r) = {d \<in> {ro_current r} \<union> set (ro_pinned r) \<union> set (ro_retained r). d \<noteq> []}"
  by (auto simp: all_publication_digests_def set_distinct_digests)

lemma current_digest_32: "read_current node kr m f = PRet (PS_VALID, Some cp) \<Longrightarrow> length (cp_publication_sha256 cp) = 32"
  using cur_parse_inv by (fastforce simp: read_current_def serialize_current_def split: option.splits file_node.splits if_splits)

lemma previous_32: "parse_publication_record b kr = (PS_VALID, Some r) \<Longrightarrow> length (pub_previous_sha256 r) = 32"
  using pub_parse_inv by (cases b) (force simp: pub_canonical_def parse_publication_record_def)+

lemma retained_chain_cong:
  assumes "retained_chain env lim objs n d = Inr ds" "\<And>x. x \<in> insert d (set ds) \<Longrightarrow> dget objs' x = dget objs x"
  shows "retained_chain env lim objs' n d = Inr ds \<and> (\<forall>x \<in> set ds. length x = 32)"
  using assms
proof (induction n arbitrary: d ds)
  case (Suc n)
  let ?rr = "get_limited objs d (rh_max_object_bytes lim) (ge_changed (pe_gen env) d)"
  have g: "get_limited objs' x m c = get_limited objs x m c" if "x \<in> insert d (set ds)" for x m c
    using get_limited_cong Suc.prems(2) [OF that] by blast
  note gd = g [of d, simplified]
  note a = Suc.prems(1) [unfolded retained_chain.simps Let_def]
  have ok: "\<not> \<not> or_ok ?rr" using a by (auto split: if_splits)
  note a1 = a [unfolded if_not_P [OF ok]]
  obtain r where r: "parse_publication_record (or_blob ?rr) (pe_keyring env) = (PS_VALID, Some r)"
    using a1 by (auto split: prod.splits publication_state.splits option.splits)
  note a2 = a1 [unfolded r prod.case publication_state.case option.case]
  show ?case
  proof (cases "pub_previous_sha256 r = ZERO32")
    case True
    then show ?thesis using a2 ok r by (simp add: gd Let_def)
  next
    case False
    note a3 = a2 [unfolded if_not_P [OF False]]
    let ?prev = "pub_previous_sha256 r"
    let ?pr = "get_limited objs ?prev (rh_max_object_bytes lim) (ge_changed (pe_gen env) ?prev)"
    have ok2: "\<not> \<not> or_ok ?pr" using a3 by (auto split: if_splits)
    note a4 = a3 [unfolded if_not_P [OF ok2]]
    obtain r2 where r2: "parse_publication_record (or_blob ?pr) (pe_keyring env) = (PS_VALID, Some r2)"
      using a4 by (auto split: prod.splits publication_state.splits option.splits)
    note a5 = a4 [unfolded r2 prod.case publication_state.case option.case]
    obtain ds2 where ds2: "retained_chain env lim objs n ?prev = Inr ds2" "ds = ?prev # ds2"
      using a5 by (auto split: sum.splits)
    have "retained_chain env lim objs' n ?prev = Inr ds2 \<and> (\<forall>x \<in> set ds2. length x = 32)"
      by (rule Suc.IH [OF ds2(1)]) (use Suc.prems(2) ds2(2) in auto)
    moreover have "get_limited objs' ?prev m c = get_limited objs ?prev m c" for m c by (rule g) (simp add: ds2(2))
    ultimately show ?thesis using ok r False ok2 r2 previous_32 [OF r] by (simp add: gd Let_def ds2(2))
  qed
qed simp

lemma gather_roots_cong:
  assumes r: "gather_roots env lim ret rd w = RoOk roots"
    and w: "gw_named w' = gw_named w" "gw_eph w' = gw_eph w" "gw_prepared w' = gw_prepared w"
      "pd_current (gw_store w') = pd_current (gw_store w)"
    and o: "\<And>d. d \<in> set (all_publication_digests roots) \<Longrightarrow> dget (gw_objects w') d = dget (gw_objects w) d"
  shows "gather_roots env lim ret rd w' = RoOk roots"
proof -
  have p: "world_pins kr rd w' = world_pins kr rd w" "world_prepared kr rd w' = world_prepared kr rd w" for kr
    by (simp_all add: world_pins_def world_prepared_def w)
  obtain pins prep where s: "world_pins (pe_keyring env) rd w = ScOk pins" "world_prepared (pe_keyring env) rd w = ScOk prep"
    "compute_roots env lim (gw_store w) (remdups pins) ret prep (rd_current rd) = RoOk roots"
    using r by (auto simp: gather_roots_def split: scan_out.splits)
  obtain cp ds where c: "read_current (pd_current (gw_store w)) (pe_keyring env) (pe_max_current_bytes env) (rd_current rd) = PRet (PS_VALID, Some cp)"
    "retained_chain env lim (gw_objects w) (nat (max 1 ret - 1)) (cp_publication_sha256 cp) = Inr ds"
    "roots = \<lparr>ro_current = cp_publication_sha256 cp, ro_pinned = remdups pins, ro_retained = ds, ro_objects = fst prep, ro_actives = snd prep\<rparr>"
    using s(3) unfolding compute_roots_def
    by (auto split: pub_out.splits prod.splits publication_state.splits option.splits sum.splits)
  have ds: "\<forall>x \<in> set ds. length x = 32" using retained_chain_cong [OF c(2)] by blast
  have "dget (gw_objects w') x = dget (gw_objects w) x" if "x \<in> insert (cp_publication_sha256 cp) (set ds)" for x
  proof (rule o)
    have "length x = 32" using that ds current_digest_32 [OF c(1)] by blast
    then show "x \<in> set (all_publication_digests roots)" using that by (auto simp: set_all_publication_digests c(3))
  qed
  from retained_chain_cong [OF c(2) this] show ?thesis
    unfolding gather_roots_def p s(1,2) scan_out.case compute_roots_def w(4) by (simp add: c(1,3))
qed

subsection \<open>The recovery\<close>

lemma restore_items_back:
  "restore_items be mf its oq = (ok, ks, oq') \<Longrightarrow> nothing_lost oq oq'"
proof (induction its arbitrary: oq ok ks oq')
  case (Cons it its)
  obtain kind key where it: "it = (kind, key)" by (cases it)
  show ?case
  proof (cases "kind \<noteq> GC_OBJECT \<or> find_object (snd oq) key = None")
    case True
    then show ?thesis using Cons by (auto simp: it)
  next
    case False
    obtain k q1 o1 where m: "move_file (snd oq) (fst oq) key be (mf key) = (k, q1, o1)" by (cases "move_file (snd oq) (fst oq) key be (mf key)")
    have n: "nothing_lost oq (o1, q1)" using move_file_nothing_lost(2) [OF m] by simp
    show ?thesis
    proof (cases k)
      case True
      obtain ok2 ks2 oq2 where rec: "restore_items be mf its (o1, q1) = (ok2, ks2, oq2)" by (cases "restore_items be mf its (o1, q1)") auto
      have "oq' = oq2" using Cons.prems False m rec True by (auto simp: it)
      then show ?thesis using n Cons.IH [OF rec] nothing_lost_trans by blast
    next
      case f: False
      then show ?thesis using Cons.prems False m n by (auto simp: it)
    qed
  qed
qed simp

lemma return_items_out:
  "return_items be mf reachable temp its oq = (ok, rs, ks, oq') \<Longrightarrow>
   moved_out {it. it \<in> set its \<and> it \<notin> set reachable} oq oq' \<and> (\<forall>key \<in> set rs. (GC_OBJECT, key) \<in> set reachable) \<and>
   (\<forall>key \<in> set ks. find_object (fst oq') key = None \<and> (GC_OBJECT, key) \<notin> set reachable)"
proof (induction its arbitrary: oq ok rs ks oq')
  case (Cons it its)
  obtain kind key where it: "it = (kind, key)" by (cases it)
  let ?S = "\<lambda>its. {it. it \<in> set its \<and> it \<notin> set reachable}"
  have mono: "moved_out (?S its) a b \<Longrightarrow> moved_out (?S (it # its)) a b" for a b by (erule moved_out_mono) auto
  consider "kind \<noteq> GC_OBJECT" | "kind = GC_OBJECT" "(GC_OBJECT, key) \<in> set reachable"
    | "kind = GC_OBJECT" "(GC_OBJECT, key) \<notin> set reachable" by blast
  then show ?case
  proof cases
    case 1
    then show ?thesis using Cons mono by (auto simp: it)
  next
    case 2
    obtain ok2 rs2 ks2 oq2 where rec: "return_items be mf reachable temp its oq = (ok2, rs2, ks2, oq2)"
      by (cases "return_items be mf reachable temp its oq") auto
    have q: "oq' = oq2" "ks = ks2" "set rs \<subseteq> insert key (set rs2)" using Cons.prems 2 rec by (auto simp: it split: if_splits)
    note ih = Cons.IH [OF rec]
    have "moved_out (?S (it # its)) oq oq2" by (rule mono) (use ih in blast)
    moreover have "\<forall>key \<in> set rs. (GC_OBJECT, key) \<in> set reachable" using ih 2(2) q(3) by auto
    ultimately show ?thesis using ih q(1,2) by simp
  next
    case 3
    let ?mv = "if find_object (fst oq) key = None then (True, oq) else move_file (fst oq) (snd oq) key be (mf key)"
    obtain k o1 q1 where m: "?mv = (k, o1, q1)" by (cases ?mv) auto
    have one: "moved_out {it} oq (o1, q1) \<and> (k \<longrightarrow> find_object o1 key = None)"
    proof (cases "find_object (fst oq) key = None")
      case True
      then show ?thesis using m by auto
    next
      case False
      then obtain d b where d: "find_object (fst oq) key = Some (d, b)" by auto
      have mv: "move_file (fst oq) (snd oq) key be (mf key) = (k, o1, q1)" using m False by simp
      have h: "key = hex d" using find_object_some [OF d] by blast
      show ?thesis
        using move_file_out(1) [OF mv] move_file_out(2) [OF mv _ h] 3 by (auto simp: it h find_object_hex)
    qed
    have S: "moved_out (?S (it # its)) oq (o1, q1)" by (rule moved_out_mono [of "{it}"]) (use one 3 in \<open>auto simp: it\<close>)
    show ?thesis
    proof (cases k)
      case False
      then show ?thesis using Cons.prems 3 m S by (auto simp: it)
    next
      case True
      obtain ok2 rs2 ks2 oq2 where rec: "return_items be mf reachable temp its (o1, q1) = (ok2, rs2, ks2, oq2)"
        by (cases "return_items be mf reachable temp its (o1, q1)") auto
      have q: "oq' = oq2" "ks = key # ks2" "rs = rs2" using Cons.prems 3 m rec True by (auto simp: it)
      have mo: "moved_out (?S its) (o1, q1) oq2" using Cons.IH [OF rec] by blast
      have k: "find_object (fst oq2) key = None"
      proof (rule ccontr)
        assume "find_object (fst oq2) key \<noteq> None"
        then obtain d b where d: "find_object (fst oq2) key = Some (d, b)" by auto
        then have "key = hex d" "dget (fst oq2) d = Some b" using find_object_some by blast+
        moreover have "dget (fst oq2) d = dget o1 d \<or> dget (fst oq2) d = None"
          using mo [unfolded moved_out_def, THEN spec [of _ d]] by auto
        ultimately show False using one True by (simp add: find_object_hex)
      qed
      have "moved_out (?S (it # its)) oq oq2" by (rule moved_out_trans [OF S mono [OF mo]])
      then show ?thesis using Cons.IH [OF rec] k 3(2) unfolding q by simp
    qed
  qed
qed simp

text \<open>A recovery moves objects between the two directories and changes nothing else; one that ends
  well leaves every publication among its roots open.\<close>

lemma recover_gc_ends:
  assumes "recover_gc env lim pins prepared ret kid be sc w = (out, w')"
  shows "w' = with_objects w (gw_objects w', gw_quarantine w') \<and> nothing_lost (gw_objects w, gw_quarantine w) (gw_objects w', gw_quarantine w')"
    and "out = PRet r \<Longrightarrow> grc_state r = GRS_OK \<Longrightarrow> journal_files w \<noteq> [] \<Longrightarrow>
      \<exists>roots. gather_roots env lim ret (gv_gather sc) w' = RoOk roots \<and>
        (\<forall>d \<in> set (all_publication_digests roots). \<exists>its. world_reach env lim w' d = RoOk its)"
proof -
  define oq where "oq = (gw_objects w, gw_quarantine w)"
  have w0: "w = with_objects w oq" by (simp add: oq_def)
  note a = assms [unfolded recover_gc_def Let_def, folded oq_def]
  have "(\<exists>oq'. w' = with_objects w oq' \<and> nothing_lost oq oq') \<and>
    (out = PRet r \<and> grc_state r = GRS_OK \<and> journal_files w \<noteq> [] \<longrightarrow>
      (\<exists>roots. gather_roots env lim ret (gv_gather sc) w' = RoOk roots \<and>
        (\<forall>d \<in> set (all_publication_digests roots). \<exists>its. world_reach env lim w' d = RoOk its)))" (is "?G w' out")
  proof (rule ccontr)
    assume e: "\<not> ?G w' out"
    have same: "\<exists>oq'. w = with_objects w oq' \<and> nothing_lost oq oq'" using w0 nothing_lost_refl by blast
    have n: "\<not> \<not> registry_pair (gw_store w) pins prepared" "\<not> \<not> gv_gc_lock sc" "\<not> gv_busy sc" "\<not> \<not> gv_pin_lock sc" "\<not> journal_files w = []"
      using a e same by (auto split: if_splits)
    note a1 = a [unfolded if_not_P [OF n(1)] if_not_P [OF n(2)] if_not_P [OF n(3)] if_not_P [OF n(4)] if_not_P [OF n(5)]]
    obtain js where js: "read_journals (dget (pe_keyring env) kid) (gv_journal sc) (journal_files w) = Some js"
      using a1 e same by (cases "read_journals (dget (pe_keyring env) kid) (gv_journal sc) (journal_files w)") auto
    note a2 = a1 [unfolded js option.case]
    obtain ok temp oq1 where rs: "restore_items be (gv_restore sc) (sorted_items js) oq = (ok, temp, oq1)"
      by (cases "restore_items be (gv_restore sc) (sorted_items js) oq") auto
    have nl: "nothing_lost oq oq1" by (rule restore_items_back [OF rs])
    define w1 where "w1 = with_objects w oq1"
    note a3 = a2 [unfolded rs prod.case, folded w1_def]
    have mid: "\<exists>oq'. w1 = with_objects w oq' \<and> nothing_lost oq oq'" using nl w1_def by blast
    have ok: ok using a3 e mid by (cases ok) auto
    note a4 = a3 [unfolded ok [THEN eqTrueI] bool.case]
    obtain roots where roots: "gather_roots env lim ret (gv_gather sc) w1 = RoOk roots"
      using a4 e mid by (cases "gather_roots env lim ret (gv_gather sc) w1") auto
    note a5 = a4 [unfolded roots reach_out.case]
    obtain plan where plan: "plan_reachability env lim (gw_objects w1) (gw_wal w1) roots = RoOk plan"
      using a5 e mid by (cases "plan_reachability env lim (gw_objects w1) (gw_wal w1) roots") auto
    note a6 = a5 [unfolded plan reach_out.case]
    obtain ok2 rs2 ks2 oq2 where rt: "return_items be (gv_return sc) (gp_reachable plan) temp (sorted_items js) oq1 = (ok2, rs2, ks2, oq2)"
      by (cases "return_items be (gv_return sc) (gp_reachable plan) temp (sorted_items js) oq1") auto
    have w': "w' = with_objects w oq2" using a6 by (simp add: rt w1_def with_objects_def)
    have mo: "moved_out {it. it \<in> set (sorted_items js) \<and> it \<notin> set (gp_reachable plan)} oq1 oq2" using return_items_out [OF rt] by blast
    have "nothing_lost oq oq2" using nl moved_out_nothing_lost [OF mo] nothing_lost_trans by blast
    moreover have kept: "dget (gw_objects w') x = dget (gw_objects w1) x" if "obj_item x \<in> set (gp_reachable plan)" for x
      using mo that unfolding moved_out_def w' w1_def by fastforce
    have reach: "\<exists>its. world_reach env lim w' d = RoOk its \<and> dget (gw_objects w') d = dget (gw_objects w1) d"
      if d: "d \<in> set (all_publication_digests roots)" for d
    proof -
      obtain its where its: "world_reach env lim w1 d = RoOk its" "set its \<inter> set (gp_unreachable plan) = {}"
        using plan_protects(1) [OF plan d] by blast
      have k: "dget (gw_objects w') x = dget (gw_objects w1) x" if x: "obj_item x \<in> set its" for x
      proof (rule kept)
        have "obj_item x \<in> set (gp_reachable plan) \<union> set (gp_unreachable plan)"
          by (rule plan_protects(6) [OF plan world_reach_present [OF its(1) x]])
        then show "obj_item x \<in> set (gp_reachable plan)" using its(2) x by blast
      qed
      have "world_reach env lim w' d = RoOk its" by (rule world_reach_same [OF its(1) _ _ k]) (simp_all add: w' w1_def)
      moreover have "obj_item d \<in> set its" by (rule reached [OF its(1) [unfolded world_reach_def]]) simp
      ultimately show ?thesis using k by blast
    qed
    have "gather_roots env lim ret (gv_gather sc) w' = RoOk roots"
      by (rule gather_roots_cong [OF roots]) (use reach in \<open>auto simp: w' w1_def\<close>)
    ultimately show False using e reach w' by blast
  qed
  then show "w' = with_objects w (gw_objects w', gw_quarantine w') \<and> nothing_lost (gw_objects w, gw_quarantine w) (gw_objects w', gw_quarantine w')"
    "out = PRet r \<Longrightarrow> grc_state r = GRS_OK \<Longrightarrow> journal_files w \<noteq> [] \<Longrightarrow>
      \<exists>roots. gather_roots env lim ret (gv_gather sc) w' = RoOk roots \<and>
        (\<forall>d \<in> set (all_publication_digests roots). \<exists>its. world_reach env lim w' d = RoOk its)"
    by (auto simp: oq_def)
qed

end
