(* ===== verification/GcLive.thy ===== *)
theory GcLive
  imports GcSafety
begin

section \<open>Journals, a run without failures, and pins\<close>

text \<open>
  What left the objects directory is listed in a journal the recovery reads; a journal that is too
  long is never read again. A run in which nothing fails collects what its plan found, and a pin
  that is held is among the roots of every collection.
\<close>

subsection \<open>The journal stands before the first move\<close>

lemma length_sorted_items: "length (sorted_items its) = card (set its)"
  by (simp add: sorted_items_def length_remdups_card_conv)

definition names_ok :: "object_store \<Rightarrow> bool" where
  "names_ok objs \<longleftrightarrow> (\<forall>x \<in> set (dkeys objs). length x = 32)"

lemma unreachable_objects:
  assumes "plan_reachability env lim objs ws roots = RoOk plan" "it \<in> set (gp_unreachable plan)" "fst it = GC_OBJECT"
  obtains x where "it = obj_item x" "x \<in> set (dkeys objs)"
proof -
  have "it \<in> set (enumerate_objects objs @ enumerate_active ws)"
    using assms(1,2) unfolding plan_reachability_def Let_def by (auto split: reach_out.splits)
  moreover have "it \<notin> set (enumerate_active ws)" using assms(3) by (auto simp: enumerate_active_def active_item_def)
  ultimately show ?thesis using that by (auto simp: enumerate_objects_def)
qed

lemma movable_objects:
  assumes "plan_reachability env lim objs ws roots = RoOk plan"
  shows "set (movable_items plan) \<subseteq> obj_item ` set (dkeys objs)"
    and "names_ok objs \<Longrightarrow> object_items (movable_items plan)"
    and "length (sorted_items (movable_items plan)) \<le> length objs"
proof -
  show s: "set (movable_items plan) \<subseteq> obj_item ` set (dkeys objs)"
  proof
    fix it
    assume "it \<in> set (movable_items plan)"
    then have "it \<in> set (gp_unreachable plan)" "fst it = GC_OBJECT" by (simp_all add: movable_items_def)
    from unreachable_objects [OF assms this] show "it \<in> obj_item ` set (dkeys objs)" by blast
  qed
  then show "object_items (movable_items plan)" if "names_ok objs"
    using that by (fastforce simp: names_ok_def object_items_def)
  have "card (set (movable_items plan)) \<le> card (set (dkeys objs))"
    using s by (meson card_image_le card_mono finite_imageI finite_set le_trans)
  also have "\<dots> \<le> length objs" using card_length [of "dkeys objs"] by simp
  finally show "length (sorted_items (movable_items plan)) \<le> length objs" by (simp add: length_sorted_items)
qed

lemma published_journal:
  assumes "publish_journal js pd blob be f = (True, js')"
  shows "dget js' (hex pd) = Some (RegularFile blob)"
proof (cases "dget js (hex pd)")
  case None
  then show ?thesis using assms
    by (auto simp: publish_journal_def durable_write_record_def dget_dput split: option.splits name_fault.splits)
next
  case (Some nd)
  have "read_record_limited (Some nd) None = (SCAN_VALID, Some blob)" "js' = js" using assms Some by (auto simp: publish_journal_def)
  then show ?thesis using Some by (auto simp: read_record_limited_def split: file_node.splits if_splits)
qed

lemma read_one_journal:
  assumes "parse_journal blob key = Some (pd, its)" "length blob \<le> 65536"
  shows "read_journals (Some key) (\<lambda>_. None) [(Some (hex pd), RegularFile blob)] = Some its"
  using assms by (simp add: read_record_limited_def)

definition undisturbed :: "gc_script \<Rightarrow> bool" where
  "undisturbed sc \<longleftrightarrow> gs_after_roots sc = (\<lambda>w. w) \<and> gs_after_plan sc = (\<lambda>w. w) \<and> gs_after_reread sc = (\<lambda>s. s)"

lemma undisturbed_simps:
  assumes "undisturbed sc"
  shows "gs_after_roots sc w = w" "gs_after_plan sc w = w" "reread sc w = w" "gentle sc"
  using assms by (simp_all add: undisturbed_def reread_def gentle_def)

lemma reaped_simps [simp]: "gw_objects (reaped sc w) = gw_objects w" "gw_wal (reaped sc w) = gw_wal w"
  "gw_journals (reaped sc w) = gw_journals w" "gw_quarantine (reaped sc w) = gw_quarantine w"
  by (simp_all add: reaped_def gw_wal_def)

lemma run_gc_journaled:
  assumes run: "run_gc env lim pins prepared ret kid be sc w = (out, w')" and u: "undisturbed sc"
    and n: "names_ok (gw_objects w)" "length (gw_objects w) \<le> 977" and x: "dget (gw_objects w) x = Some b"
  shows "dget (gw_objects w') x = Some b \<or>
    dget (gw_objects w') x = None \<and> dget (gw_quarantine w') x = Some b \<and>
    (\<exists>key pd nd its. dget (pe_keyring env) kid = Some key \<and> dget (gw_journals w') (hex pd) = Some nd \<and>
       read_journals (Some key) (\<lambda>_. None) [(Some (hex pd), nd)] = Some its \<and> obj_item x \<in> set its)"
  using run_gc_ends [OF run]
proof (elim disjE exE conjE)
  assume "w' \<in> {w, reaped sc w, gs_after_roots sc (reaped sc w), gs_after_plan sc (gs_after_roots sc (reaped sc w))}"
  then show ?thesis using x by (auto simp: undisturbed_simps [OF u])
next
  fix roots plan sig
  assume "let w2 = gs_after_roots sc (reaped sc w); w3 = gs_after_plan sc w2
        in root_signature env (gs_sig1 sc) w2 = PRet (Some sig) \<and> root_signature env (gs_sig2 sc) w3 = PRet (Some sig) \<and>
           plan_reachability env lim (gw_objects w2) (gw_wal w2) roots = RoOk plan \<and>
           execute_plan env kid be sc plan (reread sc w3) = (out, w')"
  then have p: "plan_reachability env lim (gw_objects (reaped sc w)) (gw_wal (reaped sc w)) roots = RoOk plan"
    "execute_plan env kid be sc plan (reaped sc w) = (out, w')"
    by (simp_all only: Let_def undisturbed_simps [OF u])
  from execute_plan_ends [OF p(2)] show ?thesis
  proof (elim disjE exE conjE)
    assume "w' = reaped sc w"
    then show ?thesis using x by simp
  next
    fix key blob ok js
    assume k: "dget (pe_keyring env) kid = Some key" "authenticated_journal (gp_digest plan) (movable_items plan) key = Some blob"
      and j: "publish_journal (gw_journals (reaped sc w)) (gp_digest plan) blob be (gs_journal sc) = (ok, js)" "gw_journals w' = js"
      and m: "world_moves (set (gp_unreachable plan)) (reaped sc w) w'"
      and nok: "if ok then True else w' = reaped sc w\<lparr>gw_journals := js\<rparr>"
    show ?thesis
    proof (cases ok)
      case False
      then show ?thesis using nok x by simp
    next
      case True
      have po: "plan_reachability env lim (gw_objects w) (gw_wal w) roots = RoOk plan" using p(1) by simp
      have l: "length (sorted_items (movable_items plan)) \<le> 977" using movable_objects(3) [OF po] n(2) by simp
      have rt: "length blob = 58 + 67 * length (sorted_items (movable_items plan))"
        "parse_journal blob key = Some (gp_digest plan, sorted_items (movable_items plan))"
        using journal_round_trip [OF movable_objects(2) [OF po n(1)] plan_protects(4) [OF po], of key] l k(2) by auto
      have "dget (gw_journals w') (hex (gp_digest plan)) = Some (RegularFile blob)"
      proof -
        have "publish_journal (gw_journals (reaped sc w)) (gp_digest plan) blob be (gs_journal sc) = (True, js)" using j(1) True by simp
        from published_journal [OF this] show ?thesis by (simp add: j(2))
      qed
      moreover have "read_journals (Some key) (\<lambda>_. None) [(Some (hex (gp_digest plan)), RegularFile blob)] = Some (sorted_items (movable_items plan))"
        by (rule read_one_journal [OF rt(2)]) (use l in \<open>simp add: rt(1)\<close>)
      moreover have "dget (gw_objects w') x = Some b \<or> dget (gw_objects w') x = None \<and> dget (gw_quarantine w') x = Some b \<and>
          obj_item x \<in> set (gp_unreachable plan)"
        using m [unfolded world_moves_def moved_out_def, THEN conjunct1, THEN spec [of _ x]] x by auto
      moreover have "obj_item x \<in> set (gp_unreachable plan) \<Longrightarrow> obj_item x \<in> set (sorted_items (movable_items plan))"
        by (simp add: movable_items_def obj_item_def)
      ultimately show ?thesis using k(1) by blast
    qed
  qed
qed

subsection \<open>A journal that is too long\<close>

lemma pack_items_length: "pack_items its = Some b \<Longrightarrow> object_items its \<Longrightarrow> length b = 67 * length its"
  using pack_items_parse by fastforce

lemma authenticated_journal_length:
  assumes "authenticated_journal pd its key = Some blob" "object_items its"
  shows "length blob = 58 + 67 * length (sorted_items its)"
proof -
  obtain h rows where h: "struct_pack JRN [VB JOURNAL_MAGIC, VI 1, VB pd, VI (int (length (sorted_items its)))] = Some h"
    "pack_items (sorted_items its) = Some rows" "blob = (h @ rows) @ journal_mac key (h @ rows)"
    using assms(1) unfolding authenticated_journal_def Let_def by (auto split: option.splits simp del: struct_pack.simps)
  have "length h = 42" using struct_pack_length [OF h(1)] by simp
  moreover have "length rows = 67 * length (sorted_items its)"
    by (rule pack_items_length [OF h(2) object_items_sorted [OF assms(2)]])
  ultimately show ?thesis by (simp add: h(3) journal_mac_def)
qed

lemma read_journals_oversized:
  "(name, RegularFile blob) \<in> set js \<Longrightarrow> 65536 < length blob \<Longrightarrow> read_journals key fault js = None"
proof (induction js)
  case (Cons e js)
  show ?case
  proof (cases "e = (name, RegularFile blob)")
    case True
    then show ?thesis using Cons.prems(2) by (auto simp: read_record_limited_def)
  next
    case False
    then have "read_journals key fault js = None" using Cons by auto
    then show ?thesis by (cases e) (auto split: prod.splits scan_state.splits option.splits)
  qed
qed simp

lemma journal_files_listed: "dget (gw_journals w) name = Some nd \<Longrightarrow> (Some name, nd) \<in> set (journal_files w)"
  using map_of_SomeD by (fastforce simp: journal_files_def by_name_def)

subsection \<open>A run in which nothing fails\<close>

lemma move_items_quiet:
  assumes "\<forall>it \<in> set its. \<exists>x. it = obj_item x \<and> dget (fst oq) x \<noteq> None" "distinct its"
  shows "\<exists>oq'. move_items be (\<lambda>_. None) None i its oq = (MV_ALL, its, oq')"
  using assms
proof (induction its arbitrary: i oq)
  case (Cons it its)
  obtain x b where x: "it = obj_item x" "dget (fst oq) x = Some b" using Cons.prems(1) by auto
  obtain ok o1 q1 where m: "move_file (fst oq) (snd oq) (hex x) be None = (ok, o1, q1)" by (cases "move_file (fst oq) (snd oq) (hex x) be None")
  have ok: "ok" and o1: "dget o1 y = (if y = x then None else dget (fst oq) y)" for y
    using m dget_filter_key [of x "fst oq"] by (auto simp: move_file_def find_object_hex x(2) Let_def)
  have "\<forall>it \<in> set its. \<exists>y. it = obj_item y \<and> dget o1 y \<noteq> None"
  proof
    fix it2
    assume i: "it2 \<in> set its"
    then obtain y where y: "it2 = obj_item y" "dget (fst oq) y \<noteq> None" using Cons.prems(1) by auto
    then have "y \<noteq> x" using i Cons.prems(2) x(1) by auto
    then show "\<exists>y. it2 = obj_item y \<and> dget o1 y \<noteq> None" using y o1 by auto
  qed
  then obtain oq' where "move_items be (\<lambda>_. None) None (Suc i) its (o1, q1) = (MV_ALL, its, oq')"
    using Cons.IH [of "(o1, q1)" "Suc i"] Cons.prems(2) by (auto simp del: split_paired_Ex)
  then show ?case using m ok by (simp add: x(1) obj_item_def quarantine_key_def)
qed simp

definition quiet_gc :: "gc_script \<Rightarrow> bool" where
  "quiet_gc sc \<longleftrightarrow> gs_gc_lock sc \<and> gs_pin_lock sc \<and> \<not> gs_busy sc \<and> gs_sig2 sc = gs_sig1 sc \<and> gs_after_plan sc = (\<lambda>w. w) \<and>
     gs_after_reread sc = (\<lambda>s. s) \<and> gs_journal sc = None \<and> gs_move sc = (\<lambda>_. None) \<and> gs_kill sc = None"

lemma quiet_run:
  assumes q: "quiet_gc sc" "registry_pair (gw_store w) pins prepared"
    and roots: "gather_roots env lim ret (gs_gather sc) (reaped sc w) = RoOk roots"
    and w2: "w2 = gs_after_roots sc (reaped sc w)"
    and sig: "root_signature env (gs_sig1 sc) w2 = PRet (Some sig)"
    and plan: "plan_reachability env lim (gw_objects w2) (gw_wal w2) roots = RoOk plan"
    and key: "dget (pe_keyring env) kid = Some key" and nj: "dget (gw_journals w2) (hex (gp_digest plan)) = None"
    and n: "names_ok (gw_objects w2)" "length (gw_objects w2) \<le> 1000000" and mv: "movable_items plan \<noteq> []"
  shows "\<exists>w'. run_gc env lim pins prepared ret kid be sc w =
      (PRet (GcRunResult GCR_DONE (Some (Inr plan)) (movable_items plan)), w') \<and>
    (\<exists>blob. authenticated_journal (gp_digest plan) (movable_items plan) key = Some blob \<and>
       w' = with_objects (w2\<lparr>gw_journals := dput (hex (gp_digest plan)) (RegularFile blob) (gw_journals w2)\<rparr>) (gw_objects w', gw_quarantine w')) \<and>
    pd_current (gw_store w') = pd_current (gw_store w2) \<and>
    (\<forall>x. obj_item x \<in> set (gp_unreachable plan) \<longrightarrow> dget (gw_objects w') x = None \<and> dget (gw_quarantine w') x = dget (gw_objects w2) x) \<and>
    (\<forall>x. obj_item x \<notin> set (gp_unreachable plan) \<longrightarrow>
       dget (gw_objects w') x = dget (gw_objects w2) x \<and> dget (gw_quarantine w') x = dget (gw_quarantine w2) x)"
proof -
  let ?m = "movable_items plan"
  have oi: "object_items ?m" by (rule movable_objects(2) [OF plan n(1)])
  have l: "length (sorted_items ?m) \<le> 1000000" using movable_objects(3) [OF plan] n(2) by simp
  obtain blob where blob: "authenticated_journal (gp_digest plan) ?m key = Some blob"
    using journal_round_trip [OF oi plan_protects(4) [OF plan] l] by blast
  let ?js = "dput (hex (gp_digest plan)) (RegularFile blob) (gw_journals w2)"
  have pj: "publish_journal (gw_journals w2) (gp_digest plan) blob be None = (True, ?js)"
    by (simp add: publish_journal_def durable_write_record_def nj)
  have d: "distinct ?m" by (simp add: movable_items_def sorted_items_def)
  have pr: "\<forall>it \<in> set ?m. \<exists>x. it = obj_item x \<and> dget (fst (gw_objects w2, gw_quarantine w2)) x \<noteq> None"
  proof
    fix it
    assume it: "it \<in> set ?m"
    then obtain x where x: "it = obj_item x" using oi by (auto simp: object_items_def)
    have "obj_item x \<in> set (gp_unreachable plan)" using it by (simp add: movable_items_def x)
    then show "\<exists>x. it = obj_item x \<and> dget (fst (gw_objects w2, gw_quarantine w2)) x \<noteq> None"
      using plan_protects(3) [OF plan] x by auto
  qed
  obtain oq where m: "move_items be (\<lambda>_. None) None 0 ?m (gw_objects w2, gw_quarantine w2) = (MV_ALL, ?m, oq)"
    using move_items_quiet [OF pr d] by blast
  let ?w' = "with_objects (w2\<lparr>gw_journals := ?js\<rparr>) oq"
  have ex: "execute_plan env kid be sc plan w2 = (PRet (GcRunResult GCR_DONE (Some (Inr plan)) ?m), ?w')"
    using q(1) mv unfolding execute_plan_def Let_def movable_items_def [symmetric]
    by (simp add: key blob pj m quiet_gc_def)
  have rr: "reread sc w2 = w2" using q(1) by (simp add: quiet_gc_def reread_def)
  have run: "run_gc env lim pins prepared ret kid be sc w = (PRet (GcRunResult GCR_DONE (Some (Inr plan)) ?m), ?w')"
    using q unfolding run_gc_def Let_def reaped_def [symmetric] reread_def [symmetric]
    by (simp add: roots w2 [symmetric] sig plan quiet_gc_def ex rr)
  note mo = move_items_out [OF m]
  have S: "moved_out (set ?m) (gw_objects w2, gw_quarantine w2) oq" using mo by blast
  have un: "obj_item x \<in> set ?m \<longleftrightarrow> obj_item x \<in> set (gp_unreachable plan)" for x by (simp add: movable_items_def obj_item_def)
  have "dget (gw_objects ?w') x = None \<and> dget (gw_quarantine ?w') x = dget (gw_objects w2) x" if "obj_item x \<in> set (gp_unreachable plan)" for x
  proof -
    have "dget (fst oq) x = None" using mo un that by blast
    moreover have "dget (gw_objects w2) x \<noteq> None" by (rule plan_protects(3) [OF plan that])
    ultimately show ?thesis using S [unfolded moved_out_def, THEN spec [of _ x]] by auto
  qed
  moreover have "dget (gw_objects ?w') x = dget (gw_objects w2) x \<and> dget (gw_quarantine ?w') x = dget (gw_quarantine w2) x" if "obj_item x \<notin> set (gp_unreachable plan)" for x
    using S [unfolded moved_out_def, THEN spec [of _ x]] that un by auto
  moreover have "?w' = with_objects (w2\<lparr>gw_journals := ?js\<rparr>) (gw_objects ?w', gw_quarantine ?w')" by simp
  moreover have "pd_current (gw_store ?w') = pd_current (gw_store w2)" by simp
  ultimately show ?thesis using run blob by blast
qed

subsection \<open>A recovery in which nothing fails\<close>

lemma restore_items_quiet: "\<exists>ks oq'. restore_items be (\<lambda>_. None) its oq = (True, ks, oq')"
proof (induction its arbitrary: oq)
  case (Cons it its)
  obtain kind key where it: "it = (kind, key)" by (cases it)
  show ?case
  proof (cases "kind \<noteq> GC_OBJECT \<or> find_object (snd oq) key = None")
    case True
    then show ?thesis using Cons.IH [of oq] by (auto simp: it)
  next
    case False
    then obtain d b where f: "find_object (snd oq) key = Some (d, b)" by auto
    obtain q1 o1 where m: "move_file (snd oq) (fst oq) key be None = (True, q1, o1)" by (auto simp: move_file_def f)
    obtain ks oq' where "restore_items be (\<lambda>_. None) its (o1, q1) = (True, ks, oq')" using Cons.IH by blast
    then show ?thesis using False m by (auto simp: it)
  qed
qed simp

lemma return_items_quiet: "\<exists>rs ks oq'. return_items be (\<lambda>_. None) reachable temp its oq = (True, rs, ks, oq')"
proof (induction its arbitrary: oq)
  case (Cons it its)
  obtain kind key where it: "it = (kind, key)" by (cases it)
  consider "kind \<noteq> GC_OBJECT" | "kind = GC_OBJECT" "(GC_OBJECT, key) \<in> set reachable"
    | "kind = GC_OBJECT" "(GC_OBJECT, key) \<notin> set reachable" by blast
  then show ?case
  proof cases
    case 1
    then show ?thesis using Cons.IH [of oq] by (simp add: it)
  next
    case 2
    then show ?thesis using Cons.IH [of oq] by (auto simp: it)
  next
    case 3
    obtain oq1 where m: "(if find_object (fst oq) key = None then (True, oq) else move_file (fst oq) (snd oq) key be None) = (True, oq1)"
      by (cases "find_object (fst oq) key") (auto simp: move_file_def)
    obtain rs ks oq' where "return_items be (\<lambda>_. None) reachable temp its oq1 = (True, rs, ks, oq')" using Cons.IH by blast
    then show ?thesis using 3 m by (simp add: it)
  qed
qed simp

lemma reach_all_exists:
  "\<forall>d \<in> set ds. \<exists>its. reach d = RoOk its \<Longrightarrow> int (length ds) \<le> n \<Longrightarrow> \<exists>its. reach_all reach n ds = RoOk its"
proof (induction ds arbitrary: n)
  case (Cons d ds)
  obtain a where a: "reach d = RoOk a" using Cons.prems(1) by auto
  obtain b where "reach_all reach (n - 1) ds = RoOk b" using Cons.IH [of "n - 1"] Cons.prems by auto
  then show ?case using a Cons.prems(2) by simp
qed simp

text \<open>What a restoration puts into the store comes from the quarantine.\<close>

definition moved_in :: "object_store \<times> object_store \<Rightarrow> object_store \<times> object_store \<Rightarrow> bool" where
  "moved_in oq oq' \<longleftrightarrow> (\<forall>x. (dget (snd oq') x = dget (snd oq) x \<or> dget (snd oq') x = None) \<and>
     (dget (fst oq') x = dget (fst oq) x \<or> dget (snd oq) x \<noteq> None \<and> dget (fst oq') x = dget (snd oq) x))"

lemma moved_in_trans: "moved_in a b \<Longrightarrow> moved_in b c \<Longrightarrow> moved_in a c"
  unfolding moved_in_def by metis

lemma restore_items_in: "restore_items be mf its oq = (ok, ks, oq') \<Longrightarrow> moved_in oq oq'"
proof (induction its arbitrary: oq ok ks oq')
  case Nil
  then show ?case by (simp add: moved_in_def)
next
  case (Cons it its)
  obtain kind key where it: "it = (kind, key)" by (cases it)
  show ?case
  proof (cases "kind \<noteq> GC_OBJECT \<or> find_object (snd oq) key = None")
    case True
    then show ?thesis using Cons by (auto simp: it)
  next
    case False
    obtain k q1 o1 where m: "move_file (snd oq) (fst oq) key be (mf key) = (k, q1, o1)" by (cases "move_file (snd oq) (fst oq) key be (mf key)")
    have n: "moved_in oq (o1, q1)" using move_file_effect [OF m] by (auto simp: moved_in_def split: if_splits)
    obtain ok2 ks2 oq2 where rec: "restore_items be mf its (o1, q1) = (ok2, ks2, oq2)" by (cases "restore_items be mf its (o1, q1)") auto
    have "oq' = oq2 \<or> oq' = (o1, q1)" using Cons.prems False m rec by (cases k) (auto simp: it)
    then show ?thesis using n Cons.IH [OF rec] moved_in_trans by blast
  qed
qed

lemma plan_exists:
  assumes "\<forall>d \<in> set (all_publication_digests roots). \<exists>its. world_reach env lim w d = RoOk its"
    and "int (length (all_publication_digests roots)) \<le> rh_max_nodes lim"
  shows "\<exists>plan. plan_reachability env lim (gw_objects w) (gw_wal w) roots = RoOk plan"
  using reach_all_exists [OF assms [unfolded world_reach_def]] by (auto simp: plan_reachability_def Let_def)

definition quiet_recover :: "gc_recover_script \<Rightarrow> bool" where
  "quiet_recover sc \<longleftrightarrow> gv_gc_lock sc \<and> gv_pin_lock sc \<and> \<not> gv_busy sc \<and> gv_restore sc = (\<lambda>_. None) \<and> gv_return sc = (\<lambda>_. None)"

lemma recovery_answers:
  assumes q: "quiet_recover sc" "registry_pair (gw_store w) pins prepared"
    and js: "journal_files w \<noteq> []" "read_journals (dget (pe_keyring env) kid) (gv_journal sc) (journal_files w) = Some js"
    and r: "\<And>oq. moved_in (gw_objects w, gw_quarantine w) oq \<Longrightarrow> \<exists>roots. gather_roots env lim ret (gv_gather sc) (with_objects w oq) = RoOk roots \<and>
      int (length (all_publication_digests roots)) \<le> rh_max_nodes lim \<and>
      (\<forall>d \<in> set (all_publication_digests roots). \<exists>its. world_reach env lim (with_objects w oq) d = RoOk its)"
  shows "\<exists>rs ks w'. recover_gc env lim pins prepared ret kid be sc w = (PRet \<lparr>grc_state = GRS_OK, grc_restored = rs, grc_kept = ks\<rparr>, w')"
proof -
  obtain temp oq where rs: "restore_items be (\<lambda>_. None) (sorted_items js) (gw_objects w, gw_quarantine w) = (True, temp, oq)"
    using restore_items_quiet by blast
  let ?w1 = "with_objects w oq"
  obtain roots where roots: "gather_roots env lim ret (gv_gather sc) ?w1 = RoOk roots"
    "int (length (all_publication_digests roots)) \<le> rh_max_nodes lim"
    "\<forall>d \<in> set (all_publication_digests roots). \<exists>its. world_reach env lim ?w1 d = RoOk its"
    using r [OF restore_items_in [OF rs]] by blast
  obtain plan where plan: "plan_reachability env lim (gw_objects ?w1) (gw_wal ?w1) roots = RoOk plan"
    using plan_exists [OF roots(3,2)] by blast
  obtain rs2 ks oq2 where "return_items be (\<lambda>_. None) (gp_reachable plan) temp (sorted_items js) oq = (True, rs2, ks, oq2)"
    using return_items_quiet by blast
  then show ?thesis
    using q js rs roots(1) plan unfolding recover_gc_def Let_def quiet_recover_def
    by (simp del: with_objects_simps)
qed

subsection \<open>A pin that is held is a root\<close>

text \<open>The pin of a capture is held: the named record is the one it wrote, or a process has the lock.\<close>

definition pin_held :: "bytes option \<Rightarrow> bytes option \<Rightarrow> gc_world \<Rightarrow> gc_world \<Rightarrow> bool" where
  "pin_held name pin w1 w2 \<longleftrightarrow> (case name of Some n \<Rightarrow> dget (gw_named w2) n = dget (gw_named w1) n
     | None \<Rightarrow> (case pin of Some p \<Rightarrow> (p, True) \<in> set (gw_eph w2) | None \<Rightarrow> False))"

lemma scan_named_ok:
  "scan_named kr f dir = ScOk ds \<Longrightarrow> (n, RegularFile blob) \<in> set dir \<Longrightarrow> parse_named_pin blob kr = Inr (Some (d, k, n')) \<Longrightarrow> d \<in> set ds"
proof (induction dir arbitrary: ds)
  case (Cons e dir)
  obtain n1 nd where e: "e = (n1, nd)" by (cases e)
  obtain data psha k1 n2 ds1 where s: "read_record_limited (Some nd) (f n1) = (SCAN_VALID, Some data)"
    "parse_named_pin data kr = Inr (Some (psha, k1, n2))" "scan_named kr f dir = ScOk ds1" "ds = psha # ds1"
    using Cons.prems(1) by (auto simp: e split: if_splits prod.splits scan_state.splits option.splits sum.splits scan_out.splits)
  show ?case
  proof (cases "(n, RegularFile blob) = e")
    case True
    then have "data = blob" using s(1) by (auto simp: e read_record_limited_def split: if_splits)
    then show ?thesis using s(2,4) Cons.prems(3) by simp
  next
    case False
    then show ?thesis using Cons.IH [OF s(3)] Cons.prems(2,3) s(4) by auto
  qed
qed simp

lemma takeWhile_hex: "takeWhile (\<lambda>c. c \<noteq> 46) (hex d @ 46 # s) = hex d"
proof -
  have "\<And>c. c \<in> set (hex d) \<Longrightarrow> c \<noteq> 46" using hex_chars by blast
  then show ?thesis by (simp add: takeWhile_append2)
qed

lemma held_ephemeral:
  assumes "(hex d @ [46] @ s, True) \<in> set eph" "open_fails = (\<lambda>_. False)"
  shows "d \<in> set (live_ephemeral open_fails eph)"
proof -
  have "(hex d @ [46] @ s, True) \<in> set (filter (ephemeral_alive open_fails) eph)" using assms by (simp add: ephemeral_alive_def)
  moreover have "unhex (takeWhile (\<lambda>c. c \<noteq> 46) (fst (hex d @ [46] @ s, True))) = Some d" by (simp add: takeWhile_hex)
  ultimately show ?thesis unfolding live_ephemeral_def by force
qed

lemma gathered_pins:
  assumes "gather_roots env lim ret rd w = RoOk roots" "world_pins (pe_keyring env) rd w = ScOk ps"
  shows "set (ro_pinned roots) = set ps"
  using assms unfolding gather_roots_def compute_roots_def
  by (auto split: scan_out.splits pub_out.splits prod.splits publication_state.splits option.splits sum.splits)

lemma gathered_scan: "gather_roots env lim ret rd w = RoOk roots \<Longrightarrow> \<exists>ps. world_pins (pe_keyring env) rd w = ScOk ps"
  by (auto simp: gather_roots_def split: scan_out.splits)

lemma named_pin_key: "named_pin_blob name d kid key = Some blob \<Longrightarrow> 0 \<le> kid \<and> kid < 2 ^ 32"
  by (auto simp: named_pin_blob_def split: option.splits if_splits)

lemma pinned_by_name:
  assumes n: "pin_named dir name d kid kr be f = (None, dir')" and d: "length d = 32"
    and s: "scan_named kr flt (by_name sfx dir2) = ScOk ds" and same: "dget dir2 name = dget dir' name"
  shows "d \<in> set ds"
proof -
  obtain key where v: "valid_name name" "dget kr kid = Some key" using n by (auto simp: pin_named_def split: if_splits option.splits)
  obtain blob where b: "named_pin_blob name d kid key = Some blob"
    using n v by (auto simp: pin_named_def split: option.splits)
  have k: "0 \<le> kid" "kid < 2 ^ 32" using named_pin_key [OF b] by auto
  have p: "parse_named_pin blob kr = Inr (Some (d, kid, name))"
    using named_pin_round_trip [OF v(1) d k v(2)] b by auto
  have "dget dir' name = Some (RegularFile blob)"
    using n v b by (auto simp: pin_named_def durable_write_record_def dget_dput split: option.splits name_fault.splits bool.splits prod.splits)
  then have "(name, RegularFile blob) \<in> set (by_name sfx dir2)" using same by (auto simp: by_name_def dest: map_of_SomeD)
  from scan_named_ok [OF s this p] show ?thesis .
qed

lemma captured:
  assumes c: "capture_snapshot env name sc w = (PRet (Some (h, d, pin)), w1)"
  shows "length d = 32"
    and "name = Some n \<Longrightarrow> \<exists>kid. pin_named (gw_named w) n d kid (pe_keyring env) False (cs_pin sc) = (None, gw_named w1)"
    and "name = None \<Longrightarrow> pin = Some (hex d @ [46] @ cs_suffix sc)"
proof -
  note a = c [unfolded capture_snapshot_def]
  have lk: "\<not> \<not> cs_lock sc" using a by (auto split: if_splits)
  note a1 = a [unfolded if_not_P [OF lk]]
  obtain cu where cu: "open_published_cursor env (gw_store w) (cs_read sc) = PRet (CS_VALID, Some cu)"
    using a1 by (auto split: pub_out.splits prod.splits cursor_state.splits option.splits)
  note a2 = a1 [unfolded cu pub_out.case prod.case cursor_state.case option.case Let_def]
  obtain cp where cp: "read_current (pd_current (gw_store w)) (pe_keyring env) (pe_max_current_bytes env) (cs_read sc) = PRet (PS_VALID, Some cp)"
      "cursor_of_pointer env (gw_store w) cp = (CS_VALID, Some cu)"
    using cu unfolding open_published_cursor_def by (auto split: pub_out.splits prod.splits publication_state.splits option.splits)
  have pd: "pp_publication_sha256 (pc_proof cu) = cp_publication_sha256 cp"
    using cp(2) unfolding cursor_of_pointer_def
    by (auto simp: proof_from_def Let_def split: prod.splits publication_state.splits option.splits if_splits)
  let ?d = "pp_publication_sha256 (pc_proof cu)"
  let ?t = "case name of
      Some n \<Rightarrow> (case pin_named (gw_named w) n ?d (em_key_id (pc_manifest cu)) (pe_keyring env) False (cs_pin sc) of
                   (e, dir) \<Rightarrow> (e, None, w\<lparr>gw_named := dir\<rparr>))
    | None \<Rightarrow> (case cs_pin sc of
          Some NF_Write \<Rightarrow> (Some RgOSError, None, w)
        | Some NF_DirSync \<Rightarrow> (Some RgOSError, None, w\<lparr>gw_eph := pin_ephemeral ?d (cs_suffix sc) (gw_eph w)\<rparr>)
        | _ \<Rightarrow> (None, Some (hex ?d @ [46] @ cs_suffix sc), w\<lparr>gw_eph := pin_ephemeral ?d (cs_suffix sc) (gw_eph w)\<rparr>))"
  obtain e pn w0 where t: "?t = (e, pn, w0)" by (cases ?t) auto
  note a3 = a2 [unfolded t prod.case]
  have e: "e = None" using a3 by (auto split: option.splits registry_exn.splits)
  note a4 = a3 [unfolded e option.case]
  have r: "d = ?d" "pin = pn" "w1 = w0"
    using a4 by (auto split: sum.splits prod.splits generation_state.splits option.splits)
  show "length d = 32" using current_digest_32 [OF cp(1)] pd r(1) by simp
  show "\<exists>kid. pin_named (gw_named w) n d kid (pe_keyring env) False (cs_pin sc) = (None, gw_named w1)" if "name = Some n"
    using t that by (intro exI [of _ "em_key_id (pc_manifest cu)"]) (auto simp: e r split: prod.splits)
  show "pin = Some (hex d @ [46] @ cs_suffix sc)" if "name = None"
    using t that by (auto simp: e r split: option.splits name_fault.splits)
qed

lemma captured_pin_is_root:
  assumes c: "capture_snapshot env name sc w = (PRet (Some (h, d, pin)), w1)" and p: "pin_held name pin w1 w2"
    and r: "gather_roots env lim ret rd w2 = RoOk roots" and o: "rd_open_fails rd = (\<lambda>_. False)"
  shows "d \<in> set (all_publication_digests roots)"
proof -
  obtain ps where ps: "world_pins (pe_keyring env) rd w2 = ScOk ps" using gathered_scan [OF r] by blast
  obtain ds where ds: "scan_named (pe_keyring env) (rd_named rd) (by_name ''.pin'' (gw_named w2)) = ScOk ds"
    "ps = ds @ live_ephemeral (rd_open_fails rd) (gw_eph w2)"
    using ps by (auto simp: world_pins_def scan_pins_def split: scan_out.splits)
  have "d \<in> set ps"
  proof (cases name)
    case None
    then have "(hex d @ [46] @ cs_suffix sc, True) \<in> set (gw_eph w2)" using captured(3) [OF c] p by (simp add: pin_held_def)
    from held_ephemeral [OF this o] show ?thesis by (simp add: ds(2))
  next
    case (Some n)
    obtain kid where k: "pin_named (gw_named w) n d kid (pe_keyring env) False (cs_pin sc) = (None, gw_named w1)"
      using captured(2) [OF c Some] by blast
    have "d \<in> set ds" by (rule pinned_by_name [OF k captured(1) [OF c] ds(1)]) (use p in \<open>simp add: pin_held_def Some\<close>)
    then show ?thesis by (simp add: ds(2))
  qed
  then show ?thesis using gathered_pins [OF r ps] captured(1) [OF c] by (auto simp: set_all_publication_digests)
qed

lemma pinned_closure_kept:
  assumes c: "capture_snapshot env name cs w = (PRet (Some (h, d, pin)), w1)" and p: "pin_held name pin w1 w2"
    and its: "world_reach env lim w2 d = RoOk its"
    and run: "run_gc env lim pins prepared ret kid be sc w2 = (out, w3)" and g: "gentle sc"
    and o: "rd_open_fails (gs_gather sc) = (\<lambda>_. False)" "gs_reap_fails sc = (\<lambda>_. False)"
  shows "world_reach env lim w3 d = RoOk its"
proof (cases "\<exists>roots. gather_roots env lim ret (gs_gather sc) (reaped sc w2) = RoOk roots")
  case True
  then obtain roots where r: "gather_roots env lim ret (gs_gather sc) (reaped sc w2) = RoOk roots" by blast
  have "pin_held name pin w1 (reaped sc w2)"
    using p by (auto simp: pin_held_def reaped_def reap_dead_ephemeral_def ephemeral_alive_def o(2) split: option.splits)
  from captured_pin_is_root [OF c this r o(1)] show ?thesis by (rule run_gc_keeps(1) [OF run g r _ its])
next
  case False
  then have "w3 \<in> {w2, reaped sc w2, gs_after_roots sc (reaped sc w2), gs_after_plan sc (gs_after_roots sc (reaped sc w2))}"
    using run_gc_ends [OF run] by blast
  then have "store_grows w2 w3" using gentle_grows [OF g, of w2] by auto
  from world_reach_grows [OF its this] show ?thesis .
qed

end
