(* ===== verification/Compaction.thy ===== *)
theory Compaction
  imports Publishers BaseRound
begin

section \<open>Preparing a compaction (\<open>horizon_compaction.py\<close>)\<close>

text \<open>
  A compaction turns a generation and its log into the base of the next generation: the state of
  every known fact at the read position, dense ordinals over the sorted fact ids, an exact bulk,
  an empty residual, the deleted facts as tombstones, and the merged retry memory with the
  retention applied per client; then an empty ACTIVE segment and a candidate manifest. The lemmas
  relate what a reader and a retry are answered before and after.
\<close>

text \<open>Exceptions that leave these functions.\<close>

datatype compaction_exn = CxOpen open_exn | CxGen gen_exn | CxKey | CxType | CxWal | CxOS | CxIntegrity | CxStruct

subsection \<open>The state at the read position\<close>

text \<open>\<open>_materialize_state\<close>: a fact of the base the L0 does not hold is read through the handle; one
  that abstains is left out.\<close>

fun materialize_base ::
  "generation_handle \<Rightarrow> (int \<times> int \<times> int) list \<Rightarrow> (int, vline) pydict \<Rightarrow> compaction_exn + (int, vline) pydict" where
  "materialize_base h [] facts = Inr facts"
| "materialize_base h ((fid, ordinal, fver) # es) facts =
     (if wi_get (gh_l0 h) fid \<noteq> None then materialize_base h es facts
      else
        (case read_fact h fid of
           Inl e \<Rightarrow> Inl (CxOpen e)
         | Inr None \<Rightarrow> Inl CxType
         | Inr (Some rr) \<Rightarrow>
             if rr_status rr = RDeleted then materialize_base h es (dput fid (fver, OP_DELETE, None) facts)
             else
               (case rr_value rr of
                  Some v \<Rightarrow> materialize_base h es (dput fid (fver, OP_PUT, Some v) facts)
                | None \<Rightarrow> materialize_base h es facts)))"

definition materialize_state :: "generation_handle \<Rightarrow> compaction_exn + (int, vline) pydict" where
  "materialize_state h =
     (case (case gb_registry (gh_bundle h) of
              None \<Rightarrow> Inr []
            | Some reg \<Rightarrow> materialize_base h (reg_iter_entries reg) []) of
        Inl e \<Rightarrow> Inl e
      | Inr facts \<Rightarrow> Inr (fold (\<lambda>(fid, line). dput fid line) (wi_items (gh_l0 h)) facts))"

subsection \<open>The merged retry memory\<close>

text \<open>The entries, the highest transaction id seen per client, and the lowest admissible one.\<close>

record merge_state =
  mg_entries :: "(bytes, bytes \<times> int) pydict"
  mg_hi :: "(int, int) pydict"
  mg_lo :: "(int, int) pydict"

definition merge_base :: "dedup_table option \<Rightarrow> merge_state" where
  "merge_base base_dedup =
     (case base_dedup of
        None \<Rightarrow> \<lparr>mg_entries = [], mg_hi = [], mg_lo = []\<rparr>
      | Some d \<Rightarrow>
          \<lparr>mg_entries = fold (\<lambda>(o', x). dput o' x) (dt_iter_entries d) [],
           mg_hi = fold (\<lambda>(c, hi, lo). dput c hi) (dt_clients d) [],
           mg_lo = fold (\<lambda>(c, hi, lo). dput c lo) (dt_clients d) []\<rparr>)"

datatype 'a merge_out = MergeOk 'a | MergeCollision | MergeRaise compaction_exn

fun merge_wal :: "(bytes \<times> bytes \<times> int) list \<Rightarrow> merge_state \<Rightarrow> merge_state merge_out" where
  "merge_wal [] st = MergeOk st"
| "merge_wal ((op_id, x) # items) st =
     (if dget (mg_entries st) op_id \<noteq> None then MergeCollision
      else
        (case split_opid op_id of
           None \<Rightarrow> MergeRaise (CxOpen PackError)
         | Some (cid, txid) \<Rightarrow>
             let hi = (case dget (mg_hi st) cid of None \<Rightarrow> txid | Some m \<Rightarrow> max m txid);
                 lo = (case dget (mg_lo st) cid of None \<Rightarrow> txid | Some m \<Rightarrow> min m txid)
             in merge_wal items \<lparr>mg_entries = dput op_id x (mg_entries st), mg_hi = dput cid hi (mg_hi st),
                  mg_lo = dput cid lo (mg_lo st)\<rparr>))"

definition floor_of :: "merge_state \<Rightarrow> int \<Rightarrow> (int, int) pydict" where
  "floor_of st r =
     map (\<lambda>(cid, hi). (cid, max (case dget (mg_lo st) cid of None \<Rightarrow> 0 | Some lo \<Rightarrow> lo) (hi - r + 1))) (mg_hi st)"

fun kept_entries ::
  "(int, int) pydict \<Rightarrow> (bytes \<times> bytes \<times> int) list \<Rightarrow> compaction_exn + (bytes \<times> bytes \<times> int) list" where
  "kept_entries floors [] = Inr []"
| "kept_entries floors ((op_id, x) # es) =
     (case split_opid op_id of
        None \<Rightarrow> Inl (CxOpen PackError)
      | Some (cid, txid) \<Rightarrow>
          (case dget floors cid of
             None \<Rightarrow> Inl CxKey
           | Some fl \<Rightarrow>
               (case kept_entries floors es of
                  Inl e \<Rightarrow> Inl e
                | Inr ks \<Rightarrow> Inr (if txid \<ge> fl then (op_id, x) # ks else ks))))"

definition merge_dedup ::
  "dedup_table option \<Rightarrow> tx_index \<Rightarrow> int \<Rightarrow> int \<Rightarrow> int \<Rightarrow> int \<Rightarrow> bytes \<Rightarrow> bytes merge_out" where
  "merge_dedup base_dedup txindex scope_id gen read_seq retention key =
     (let r = max 1 retention
      in case merge_wal (tx_items txindex) (merge_base base_dedup) of
           MergeCollision \<Rightarrow> MergeCollision
         | MergeRaise e \<Rightarrow> MergeRaise e
         | MergeOk st \<Rightarrow>
             (let floors = floor_of st r
              in case kept_entries floors (mg_entries st) of
                   Inl e \<Rightarrow> MergeRaise e
                 | Inr kept \<Rightarrow>
                     (let floor_seq = (if kept \<noteq> [] then Min (set (map (snd \<circ> snd) kept)) else read_seq + 1);
                          clients = map (\<lambda>(cid, hi). (cid, (hi, the (dget floors cid)))) (mg_hi st)
                      in case dt_build scope_id gen floor_seq read_seq r kept clients key of
                           Inl e \<Rightarrow> MergeRaise (CxOpen e)
                         | Inr t \<Rightarrow> MergeOk (dt_blob t))))"

subsection \<open>The artifacts of the new base\<close>

datatype compaction_state = CP_PREPARED | CP_FAILED | CP_POISONED | CP_INCOMPATIBLE

abbreviation (input) DEFAULT_PAGE_BYTES :: int where "DEFAULT_PAGE_BYTES \<equiv> 128"

definition u8_line :: "vline \<Rightarrow> bool" where
  "u8_line l = (case l of (ver, op, val) \<Rightarrow>
     op = OP_DELETE \<or> (case val of None \<Rightarrow> False | Some v \<Rightarrow> 0 \<le> v \<and> v \<le> 255))"

text \<open>The dictionaries over the sorted fact ids: registry, bulk values, tombstones.\<close>

definition compacted_model :: "(int, vline) pydict \<Rightarrow> base_model" where
  "compacted_model facts =
     (let fids = sort (dkeys facts); rows = zip fids (map int [0..<length fids])
      in \<lparr>bm_registry = map (\<lambda>(fid, i). (fid, (i, fst (the (dget facts fid))))) rows,
          bm_values = map (\<lambda>(fid, i). (i, case the (dget facts fid) of (ver, op, val) \<Rightarrow>
            if op = OP_DELETE then 0 else the val)) rows,
          bm_corrections = [],
          bm_deleted = map snd (filter (\<lambda>(fid, i). fst (snd (the (dget facts fid))) = OP_DELETE) rows),
          bm_fact_count = int (length fids)\<rparr>)"

definition build_base_artifacts ::
  "numpy \<Rightarrow> (int, vline) pydict \<Rightarrow> dedup_table option \<Rightarrow> tx_index \<Rightarrow> int \<Rightarrow> int \<Rightarrow> int \<Rightarrow> int \<Rightarrow> bytes
     \<Rightarrow> compaction_exn + (compaction_state \<times> (artifact_kind \<times> bytes) list \<times> int)" where
  "build_base_artifacts np facts base_dedup txindex scope_id gen read_seq retention key =
     (if \<not> (\<forall>(fid, line) \<in> set facts. u8_line line) then Inr (CP_INCOMPATIBLE, [], 0)
      else
        (let m = compacted_model facts; n = bm_fact_count m
         in case merge_dedup base_dedup txindex scope_id gen read_seq retention key of
              MergeCollision \<Rightarrow> Inr (CP_INCOMPATIBLE, [], 0)
            | MergeRaise e \<Rightarrow> Inl e
            | MergeOk dedup_blob \<Rightarrow>
                (case (reg_build (bm_registry m) scope_id gen n key, bs_build np n (bm_values m) scope_id gen key,
                       rf_build np n (bm_corrections m) DEFAULT_PAGE_BYTES scope_id gen key,
                       tl_build np n (bm_deleted m) scope_id gen key) of
                   (Inr reg, Inr bulk, Inr field, Inr tomb) \<Rightarrow>
                     Inr (CP_PREPARED, [(REGISTRY, fr_blob reg), (BULK, bs_blob bulk), (RESIDUAL, rf_blob field),
                       (TOMBSTONE, tl_blob tomb), (DEDUP, dedup_blob)], n)
                 | (Inl e, _) \<Rightarrow> Inl (CxOpen e)
                 | (_, Inl e, _) \<Rightarrow> Inl (CxOpen e)
                 | (_, _, Inl e, _) \<Rightarrow> Inl (CxOpen e)
                 | (_, _, _, Inl e) \<Rightarrow> Inl (CxOpen e))))"

subsection \<open>The materialized state\<close>

lemma fold_dput:
  "distinct (map fst xs) \<Longrightarrow>
   dget (fold (\<lambda>(k, v). dput k v) xs d) k = (case map_of xs k of None \<Rightarrow> dget d k | Some v \<Rightarrow> Some v)"
proof (induction xs arbitrary: d)
  case (Cons e xs)
  obtain a b where e: "e = (a, b)" by (cases e)
  have n: "map_of xs a = None" using Cons.prems by (simp add: e map_of_eq_None_iff)
  have "distinct (map fst xs)" using Cons.prems by simp
  from Cons.IH [OF this, of "dput a b d"] n show ?case by (auto simp: e dget_dput split: option.splits)
qed simp

lemma fold_dput_distinct: "distinct (dkeys d) \<Longrightarrow> distinct (dkeys (fold (\<lambda>(k, v). dput k v) xs d))"
  by (induction xs arbitrary: d) (auto simp: distinct_dput)

text \<open>The line a read of the base leaves.\<close>

definition line_of_read :: "int \<Rightarrow> read_result \<Rightarrow> vline option" where
  "line_of_read ver a =
     (if rr_status a = RDeleted then Some (ver, OP_DELETE, None) else map_option (\<lambda>v. (ver, OP_PUT, Some v)) (rr_value a))"

lemma materialize_base_spec:
  "\<forall>e \<in> set es. wi_get (gh_l0 h) (fst e) = None \<longrightarrow> read_fact h (fst e) = Inr (Some (A (fst e))) \<Longrightarrow>
   distinct (map fst es) \<Longrightarrow> distinct (dkeys facts) \<Longrightarrow> set (map fst es) \<inter> set (dkeys facts) = {} \<Longrightarrow>
   \<exists>facts'. materialize_base h es facts = Inr facts' \<and> distinct (dkeys facts') \<and>
     (\<forall>fid. dget facts' fid = (case dget facts fid of Some l \<Rightarrow> Some l
        | None \<Rightarrow> if wi_get (gh_l0 h) fid \<noteq> None then None
            else (case map_of es fid of None \<Rightarrow> None | Some (ordinal, ver) \<Rightarrow> line_of_read ver (A fid))))"
proof (induction es arbitrary: facts)
  case Nil
  then show ?case by (auto split: option.splits)
next
  case (Cons e es)
  obtain fid ordinal fver where e: "e = (fid, ordinal, fver)" by (cases e)
  have fn: "dget facts fid = None" "map_of es fid = None" "fid \<notin> set (dkeys facts)"
    using Cons.prems(2,4) by (auto simp: e map_of_eq_None_iff)
  have step: "\<exists>facts1. materialize_base h (e # es) facts = materialize_base h es facts1 \<and> distinct (dkeys facts1)
      \<and> set (dkeys facts1) \<subseteq> insert fid (set (dkeys facts)) \<and>
      (\<forall>k. dget facts1 k = (if k = fid \<and> wi_get (gh_l0 h) fid = None then line_of_read fver (A fid) else dget facts k))"
  proof (cases "wi_get (gh_l0 h) fid")
    case (Some l)
    then show ?thesis using Cons.prems(3) by (intro exI [of _ facts]) (auto simp: e)
  next
    case None
    then have rd: "read_fact h fid = Inr (Some (A fid))" using Cons.prems(1) by (simp add: e)
    show ?thesis
    proof (cases "line_of_read fver (A fid)")
      case None
      then show ?thesis using rd \<open>wi_get (gh_l0 h) fid = None\<close> fn Cons.prems(3)
        by (intro exI [of _ facts]) (auto simp: e line_of_read_def split: if_splits)
    next
      case (Some l)
      then have "materialize_base h (e # es) facts = materialize_base h es (dput fid l facts)"
        using rd \<open>wi_get (gh_l0 h) fid = None\<close> by (auto simp: e line_of_read_def split: if_splits)
      then show ?thesis
        using Some \<open>wi_get (gh_l0 h) fid = None\<close> Cons.prems(3)
        by (intro exI [of _ "dput fid l facts"]) (auto simp: dget_dput distinct_dput dom_map_of_conv_image_fst [symmetric] dom_update)
    qed
  qed
  then obtain facts1 where f1: "materialize_base h (e # es) facts = materialize_base h es facts1" "distinct (dkeys facts1)"
    "set (dkeys facts1) \<subseteq> insert fid (set (dkeys facts))"
    "\<And>k. dget facts1 k = (if k = fid \<and> wi_get (gh_l0 h) fid = None then line_of_read fver (A fid) else dget facts k)"
    by blast
  have "set (map fst es) \<inter> insert fid (set (dkeys facts)) = {}" using Cons.prems(2,4) by (auto simp: e)
  then have "set (map fst es) \<inter> set (dkeys facts1) = {}" using f1(3) by blast
  then obtain facts' where f': "materialize_base h es facts1 = Inr facts'" "distinct (dkeys facts')"
    "\<And>fid. dget facts' fid = (case dget facts1 fid of Some l \<Rightarrow> Some l
        | None \<Rightarrow> if wi_get (gh_l0 h) fid \<noteq> None then None
            else (case map_of es fid of None \<Rightarrow> None | Some (ordinal, ver) \<Rightarrow> line_of_read ver (A fid)))"
    using Cons.IH [of facts1] Cons.prems(1,2) f1(2) by auto
  show ?case
    using f1(1) f'(1,2) fn by (intro exI [of _ facts']) (auto simp: f'(3) f1(4) e split: option.splits)
qed

definition materialized_line ::
  "fact_registry \<Rightarrow> (int \<Rightarrow> vline option) \<Rightarrow> (int \<Rightarrow> read_result) \<Rightarrow> int \<Rightarrow> vline option" where
  "materialized_line r L A fid =
     (case L fid of
        Some l \<Rightarrow> Some l
      | None \<Rightarrow> (case reg_lookup r fid of None \<Rightarrow> None | Some (ordinal, ver) \<Rightarrow> line_of_read ver (A fid)))"

lemma materialize_state_spec:
  assumes n: "numpy_bits (ge_np env)" and g: "generation_parts env m r b f t d frs hist h"
  shows "\<exists>facts. materialize_state h = Inr facts \<and> distinct (dkeys facts) \<and>
    dget facts = materialized_line r (fst hist) (generation_answer r b f t (fst hist))"
proof -
  let ?A = "generation_answer r b f t (fst hist)"
  have go: "generation_of m r b f t d hist h" and ob: "opened_base r b f t" using g by (simp_all add: generation_parts_def)
  have reg: "gb_registry (gh_bundle h) = Some r" "wi_get (gh_l0 h) = fst hist" "wi_inv (gh_l0 h)"
    using go by (simp_all add: generation_of_def base_bundle_def)
  have rv: "reg_valid r" using ob by (simp add: opened_base_def)
  have ds: "distinct (map fst (reg_iter_entries r))" using rv strict_sorted_iff unfolding reg_valid_def by blast
  have rd: "\<forall>e \<in> set (reg_iter_entries r). wi_get (gh_l0 h) (fst e) = None \<longrightarrow> read_fact h (fst e) = Inr (Some (?A (fst e)))"
    using generation_reads [OF n g] by blast
  obtain facts where f: "materialize_base h (reg_iter_entries r) [] = Inr facts" "distinct (dkeys facts)"
    "\<And>fid. dget facts fid = (if fst hist fid \<noteq> None then None
        else (case reg_lookup r fid of None \<Rightarrow> None | Some (ordinal, ver) \<Rightarrow> line_of_read ver (?A fid)))"
    using materialize_base_spec [OF rd ds, of "[]"] by (auto simp: reg(2) reg_lookup_map_of [OF rv])
  let ?facts = "fold (\<lambda>(fid, line). dput fid line) (wi_items (gh_l0 h)) facts"
  have "materialize_state h = Inr ?facts" by (simp add: materialize_state_def reg(1) f(1))
  moreover have "dget ?facts = materialized_line r (fst hist) ?A"
  proof
    fix fid
    have "dget (wi_state (gh_l0 h)) fid = fst hist fid" using reg(2) by (metis wi_get_def)
    then show "dget ?facts fid = materialized_line r (fst hist) ?A fid"
      using fold_dput [of "wi_items (gh_l0 h)" facts fid] reg(3)
      by (auto simp: wi_inv_def wi_items_def materialized_line_def f(3) split: option.splits)
  qed
  ultimately show ?thesis using fold_dput_distinct [OF f(2)] by blast
qed

subsection \<open>The model of the new base\<close>

definition facts_ok :: "(int, vline) pydict \<Rightarrow> bool" where
  "facts_ok facts \<longleftrightarrow> distinct (dkeys facts) \<and> int (length facts) \<le> MAX_REGISTRY_ENTRIES \<and>
     (\<forall>(fid, line) \<in> set facts. 0 \<le> fid \<and> fid < 2 ^ 64 \<and> 1 \<le> fst line \<and> fst line < 2 ^ 32 \<and> u8_line line)"

lemma facts_line:
  assumes "facts_ok facts" "fid \<in> set (dkeys facts)"
  shows "\<exists>ver op val. dget facts fid = Some (ver, op, val) \<and> 1 \<le> ver \<and> ver < 2 ^ 32 \<and> 0 \<le> fid \<and> fid < 2 ^ 64 \<and>
    (op \<noteq> OP_DELETE \<longrightarrow> (\<exists>v. val = Some v \<and> 0 \<le> v \<and> v \<le> 255))"
proof -
  obtain line where l: "dget facts fid = Some line" using assms(2) by (metis map_of_eq_None_iff not_None_eq set_map)
  obtain ver op val where e: "line = (ver, op, val)" by (cases line)
  have "(fid, ver, op, val) \<in> set facts" using map_of_SomeD [OF l] e by simp
  then show ?thesis using l assms(1) by (fastforce simp: e facts_ok_def u8_line_def split: option.splits)
qed

text \<open>The dictionaries over the sorted ids, by position.\<close>

lemma compacted_rows:
  fixes facts :: "(int, vline) pydict"
  defines "fids \<equiv> sort (dkeys facts)"
  assumes d: "distinct (dkeys facts)"
  shows "distinct fids" "set fids = set (dkeys facts)" "length fids = length facts"
    and "bm_registry (compacted_model facts) = map (\<lambda>j. (fids ! j, (int j, fst (the (dget facts (fids ! j)))))) [0..<length fids]"
    and "bm_values (compacted_model facts) = map (\<lambda>j. (int j, case the (dget facts (fids ! j)) of (ver, op, val) \<Rightarrow>
            if op = OP_DELETE then 0 else the val)) [0..<length fids]"
    and "set (bm_deleted (compacted_model facts)) = {int j |j. j < length fids \<and> fst (snd (the (dget facts (fids ! j)))) = OP_DELETE}"
    and "bm_fact_count (compacted_model facts) = int (length fids)" "bm_corrections (compacted_model facts) = []"
proof -
  have z: "zip fids (map int [0..<length fids]) = map (\<lambda>j. (fids ! j, int j)) [0..<length fids]"
    by (intro nth_equalityI) simp_all
  note def = compacted_model_def [of facts, folded fids_def, unfolded Let_def z]
  show "distinct fids" "set fids = set (dkeys facts)" "length fids = length facts" using d by (simp_all add: fids_def)
  show "bm_registry (compacted_model facts) = map (\<lambda>j. (fids ! j, (int j, fst (the (dget facts (fids ! j)))))) [0..<length fids]"
    "bm_values (compacted_model facts) = map (\<lambda>j. (int j, case the (dget facts (fids ! j)) of (ver, op, val) \<Rightarrow>
            if op = OP_DELETE then 0 else the val)) [0..<length fids]"
    "bm_fact_count (compacted_model facts) = int (length fids)" "bm_corrections (compacted_model facts) = []"
    by (simp_all add: def comp_def)
  show "set (bm_deleted (compacted_model facts)) = {int j |j. j < length fids \<and> fst (snd (the (dget facts (fids ! j)))) = OP_DELETE}"
    by (force simp: def)
qed

lemma map_of_nth_keys:
  assumes "distinct (map f [0..<n])" "j < n"
  shows "map_of (map (\<lambda>j. (f j, g j)) [0..<n]) (f j) = Some (g j)"
proof -
  have "map fst (map (\<lambda>j. (f j, g j)) [0..<n]) = map f [0..<n]" by simp
  with assms(1) have "distinct (map fst (map (\<lambda>j. (f j, g j)) [0..<n]))" by (simp only:)
  then show ?thesis using assms(2) by (intro map_of_is_SomeI) auto
qed

lemma compacted_model_ok:
  assumes f: "facts_ok facts"
  shows "bm_ok (compacted_model facts)"
proof -
  let ?fids = "sort (dkeys facts)"
  have d: "distinct (dkeys facts)" using f by (simp add: facts_ok_def)
  note r = compacted_rows [OF d]
  have ln: "int (length ?fids) \<le> MAX_REGISTRY_ENTRIES" using f r(3) by (simp add: facts_ok_def)
  have li: "\<exists>ver op val. dget facts (?fids ! j) = Some (ver, op, val) \<and> 1 \<le> ver \<and> ver < 2 ^ 32 \<and> 0 \<le> ?fids ! j \<and> ?fids ! j < 2 ^ 64 \<and>
    (op \<noteq> OP_DELETE \<longrightarrow> (\<exists>v. val = Some v \<and> 0 \<le> v \<and> v \<le> 255))" if "j < length ?fids" for j
    using facts_line [OF f, of "?fids ! j"] that r(2) nth_mem by blast
  have dk: "dkeys (bm_registry (compacted_model facts)) = ?fids"
    unfolding r(4) by (intro nth_equalityI) simp_all
  have od: "map (\<lambda>e. fst (snd e)) (bm_registry (compacted_model facts)) = map int [0..<length ?fids]"
    unfolding r(4) by simp
  have vk: "dkeys (bm_values (compacted_model facts)) = map int [0..<length ?fids]" unfolding r(5) by simp
  have "reg_mapping_ok (bm_registry (compacted_model facts)) (bm_fact_count (compacted_model facts))"
    unfolding reg_mapping_ok_def dk od r(7)
  proof (intro conjI)
    show "distinct ?fids" by (rule r(1))
    show "distinct (map int [0..<length ?fids])" by (simp add: distinct_map)
    show "int (length (bm_registry (compacted_model facts))) \<le> MAX_REGISTRY_ENTRIES" using ln by (simp add: r(4))
    show "\<forall>(fid, ordinal, fver) \<in> set (bm_registry (compacted_model facts)).
        0 \<le> fid \<and> fid < 2 ^ 64 \<and> 0 \<le> ordinal \<and> ordinal < int (length ?fids) \<and> 1 \<le> fver \<and> fver < 2 ^ 32"
      unfolding r(4) using li by fastforce
  qed
  moreover have "value_dict (bm_values (compacted_model facts)) (bm_fact_count (compacted_model facts))"
    unfolding value_dict_def ordinal_dict_def vk r(7)
  proof (intro conjI)
    show "distinct (map int [0..<length ?fids])" by (simp add: distinct_map)
    show "\<forall>k \<in> set (map int [0..<length ?fids]). 0 \<le> k \<and> k < int (length ?fids)" by auto
    show "\<forall>e \<in> set (bm_values (compacted_model facts)). 0 \<le> snd e \<and> snd e \<le> 0xFF"
    proof
      fix e
      assume "e \<in> set (bm_values (compacted_model facts))"
      then obtain j where j: "j < length ?fids" "snd e = (case the (dget facts (?fids ! j)) of (ver, op, val) \<Rightarrow>
          if op = OP_DELETE then 0 else the val)" unfolding r(5) by auto
      from li [OF j(1)] show "0 \<le> snd e \<and> snd e \<le> 0xFF" unfolding j(2) by auto
    qed
  qed
  moreover have "(\<lambda>e. fst (snd e)) ` set (bm_registry (compacted_model facts)) = set (dkeys (bm_values (compacted_model facts)))"
    using arg_cong [OF od, of set] unfolding vk by simp
  moreover have "set (bm_deleted (compacted_model facts)) \<subseteq> set (dkeys (bm_values (compacted_model facts)))"
    unfolding vk r(6) by auto
  moreover have "int (length ?fids) \<le> MAX_FACT_COUNT" using ln by simp
  ultimately show ?thesis unfolding bm_ok_def by (simp add: r(7,8) ordinal_dict_def)
qed

text \<open>What the new base says of a fact.\<close>

lemma compacted_model_answer:
  assumes f: "facts_ok facts"
  shows "bm_answer (compacted_model facts) fid =
    (case dget facts fid of
       None \<Rightarrow> ReadResult RNotFound None True SrcNone
     | Some (ver, op, val) \<Rightarrow> if op = OP_DELETE then ReadResult RDeleted None True SrcTombstone
         else ReadResult RFromBulk val True SrcBulk)" (is ?ans)
    and "map_option snd (dget (bm_registry (compacted_model facts)) fid) = map_option fst (dget facts fid)" (is ?ver)
proof -
  let ?fids = "sort (dkeys facts)"
  have d: "distinct (dkeys facts)" using f by (simp add: facts_ok_def)
  note r = compacted_rows [OF d]
  have dk: "dkeys (bm_registry (compacted_model facts)) = ?fids"
    unfolding r(4) by (intro nth_equalityI) simp_all
  have "?ans \<and> ?ver"
  proof (cases "fid \<in> set (dkeys facts)")
    case False
    moreover have "fid \<notin> set (dkeys (bm_registry (compacted_model facts)))" unfolding dk using False by simp
    ultimately have "dget facts fid = None" "dget (bm_registry (compacted_model facts)) fid = None"
      by (simp_all add: map_of_eq_None_iff)
    then show ?thesis by (simp add: bm_answer_def)
  next
    case True
    then obtain j where j: "j < length ?fids" "?fids ! j = fid" using r(2) by (metis in_set_conv_nth)
    from facts_line [OF f True] obtain ver op val where l: "dget facts fid = Some (ver, op, val)"
      "op \<noteq> OP_DELETE \<longrightarrow> (\<exists>v. val = Some v)" by blast
    have di: "distinct (map ((!) ?fids) [0..<length ?fids])" using r(1) by (simp only: map_nth)
    have rg: "dget (bm_registry (compacted_model facts)) fid = Some (int j, ver)"
      unfolding r(4) using map_of_nth_keys [OF di j(1), of "\<lambda>j. (int j, fst (the (dget facts (?fids ! j))))"]
      by (simp only: j(2) l(1) option.sel fst_conv)
    have dv: "distinct (map int [0..<length ?fids])" by (simp add: distinct_map)
    have vl: "dget (bm_values (compacted_model facts)) (int j) = Some (if op = OP_DELETE then 0 else the val)"
      unfolding r(5) using map_of_nth_keys [OF dv j(1), of "\<lambda>j. case the (dget facts (?fids ! j)) of (ver, op, val) \<Rightarrow>
        if op = OP_DELETE then 0 else the val"] by (simp only: j(2) l(1) option.sel prod.case)
    have dl: "int j \<in> set (bm_deleted (compacted_model facts)) \<longleftrightarrow> op = OP_DELETE"
      unfolding r(6) using j l(1) by auto
    show ?thesis using rg vl dl l by (auto simp: bm_answer_def r(8))
  qed
  then show ?ans ?ver by blast+
qed

subsection \<open>What the log of an opened generation holds\<close>

text \<open>The lines are in range; an operation of the log is new to the base and has a sequence number of
  the log.\<close>

definition log_ok :: "base_view \<Rightarrow> int \<Rightarrow> int \<Rightarrow> history \<Rightarrow> bool" where
  "log_ok base lo hi h \<longleftrightarrow>
     (\<forall>f ver op x. fst h f = Some (ver, op, x) \<longrightarrow> 0 \<le> f \<and> f < 2 ^ 64 \<and> 1 \<le> ver \<and> ver < 2 ^ 32) \<and>
     (\<forall>k e q. snd h k = Some (e, q) \<longrightarrow> length k = 16 \<and> length e = 16 \<and> lo < q \<and> q \<le> hi \<and> bv_dedup_probe base k e = PNew)"

lemma content_digest_length: "content_digest op f v x = Inr d \<Longrightarrow> length d = 16"
  by (auto simp: content_digest_def split: option.splits if_splits)

lemma abs_step_log_ok:
  assumes s: "abs_step base h fr = Inr (Inr h')" and v: "valid_frame fr" "seqs_from (hi + 1) [fr]"
    and l: "log_ok base lo hi h" "lo \<le> hi"
  shows "log_ok base lo (hi + 1) h'"
proof -
  obtain op q oid fid ver x where fr: "fr = (op, q, oid, fid, ver, x)" by (cases fr) auto
  obtain d where d: "content_digest op fid ver x = Inr d" "bv_dedup_probe base oid d = PNew"
    "h' = ((fst h)(fid \<mapsto> (ver, op, x)), (snd h)(oid \<mapsto> (d, q)))"
    using s by (auto simp: abs_step_def fr split: prod.splits sum.splits if_splits option.splits)
  have "q = hi + 1" "length oid = 16" "0 \<le> fid" "fid < MAX_FACT_ID" "1 \<le> ver" "ver < 2 ^ 32"
    using v by (auto simp: fr u32_def)
  then show ?thesis
    using l d content_digest_length [OF d(1)] unfolding log_ok_def by (auto split: if_splits) force+
qed

lemma abs_replay_log_ok:
  "abs_replay base h frs = Inr (Inr h') \<Longrightarrow> \<forall>fr \<in> set frs. valid_frame fr \<Longrightarrow> seqs_from (hi + 1) frs \<Longrightarrow>
   log_ok base lo hi h \<Longrightarrow> lo \<le> hi \<Longrightarrow> log_ok base lo (hi + int (length frs)) h'"
proof (induction frs arbitrary: h hi)
  case (Cons fr frs)
  from Cons.prems(1) obtain h1 where h1: "abs_step base h fr = Inr (Inr h1)" "abs_replay base h1 frs = Inr (Inr h')"
    by (auto split: sum.splits)
  have "log_ok base lo (hi + 1) h1"
    using Cons.prems by (intro abs_step_log_ok [OF h1(1)]) simp_all
  from Cons.IH [OF h1(2) _ _ this] Cons.prems show ?case by (auto simp: algebra_simps)
qed simp

lemma generation_log_ok:
  assumes g: "generation_parts env m r b f t d frs hist h"
  shows "log_ok (man_base m r b f t d) (em_base_seq m) (em_read_seq m) hist"
proof -
  have "abs_replay (man_base m r b f t d) history0 frs = Inr (Inr hist)" "seqs_from (em_base_seq m + 1) frs"
    "em_read_seq m = em_base_seq m + int (length frs)"
    using g by (auto simp: generation_parts_def)
  moreover have "log_ok (man_base m r b f t d) (em_base_seq m) (em_base_seq m) history0"
    by (simp add: log_ok_def history0_def)
  ultimately show ?thesis using abs_replay_log_ok generation_parts_frames [OF g] by fastforce
qed

lemma le_int_take_bound: "le_int (take n b) < 256 ^ n"
proof -
  have "(256 :: int) ^ length (take n b) \<le> 256 ^ n" by (rule power_increasing) simp_all
  then show ?thesis using le_int_bound [of "take n b"] by (rule order_less_le_trans [rotated])
qed

lemma reg_entry_bounds: "fst (reg_entry blob i) < 2 ^ 64" "snd (snd (reg_entry blob i)) < 2 ^ 32"
  using le_int_take_bound [of 8] le_int_take_bound [of 4] by (simp_all add: reg_entry_def Let_def)

text \<open>A value read from a base is a byte.\<close>

lemma generation_answer_byte:
  assumes "L fid = None" "rr_value (generation_answer r b f t L fid) = Some v"
  shows "0 \<le> v \<and> v \<le> 255"
proof -
  have w: "0 \<le> uint x \<and> uint x \<le> 255" for x :: "8 word" using uint_bounded [of x] by simp
  show ?thesis
    using assms w by (auto simp: generation_answer_def bs_lookup_def split: option.splits prod.splits if_splits)
qed

lemma materialized_bounds:
  assumes g: "generation_parts env m r b f t d frs hist h"
    and l: "materialized_line r (fst hist) (generation_answer r b f t (fst hist)) fid = Some (ver, op, val)"
  shows "0 \<le> fid \<and> fid < 2 ^ 64 \<and> 1 \<le> ver \<and> ver < 2 ^ 32"
    and "fst hist fid = None \<Longrightarrow> u8_line (ver, op, val)"
proof -
  have rv: "reg_valid r" using g by (simp add: generation_parts_def opened_base_def)
  have lg: "0 \<le> fid \<and> fid < 2 ^ 64 \<and> 1 \<le> ver \<and> ver < 2 ^ 32" if "fst hist fid = Some (ver, op, val)"
    using generation_log_ok [OF g] that unfolding log_ok_def by blast
  have bs: "0 \<le> fid \<and> fid < 2 ^ 64 \<and> 1 \<le> ver \<and> ver < 2 ^ 32 \<and> u8_line (ver, op, val)" if n: "fst hist fid = None"
  proof -
    obtain i ver' where e: "reg_lookup r fid = Some (i, ver')"
      "line_of_read ver' (generation_answer r b f t (fst hist) fid) = Some (ver, op, val)"
      using l n by (auto simp: materialized_line_def split: option.splits)
    have "(fid, i, ver') \<in> set (reg_iter_entries r)"
      using e(1) by (auto simp: reg_lookup_map_of [OF rv] dest: map_of_SomeD)
    moreover from this obtain j where "reg_entry (fr_blob r) j = (fid, i, ver')" by (auto simp: reg_iter_entries_def)
    moreover have "ver = ver'" "u8_line (ver, op, val)"
      using e(2) generation_answer_byte [of "fst hist" fid r b f t] n
      by (auto simp: line_of_read_def u8_line_def split: if_splits)
    ultimately show ?thesis
      using rv reg_entry_bounds [of "fr_blob r" j] by (auto simp: reg_valid_def)
  qed
  show "0 \<le> fid \<and> fid < 2 ^ 64 \<and> 1 \<le> ver \<and> ver < 2 ^ 32"
    using l lg bs by (cases "fst hist fid") (auto simp: materialized_line_def)
  show "fst hist fid = None \<Longrightarrow> u8_line (ver, op, val)" using bs by blast
qed

lemma materialized_facts_ok:
  assumes g: "generation_parts env m r b f t d frs hist h" and d: "distinct (dkeys facts)"
    and f: "dget facts = materialized_line r (fst hist) (generation_answer r b f t (fst hist))"
    and u: "\<forall>(fid, line) \<in> set facts. u8_line line" and n: "int (length facts) \<le> MAX_REGISTRY_ENTRIES"
  shows "facts_ok facts"
proof -
  have "0 \<le> fid \<and> fid < 2 ^ 64 \<and> 1 \<le> fst line \<and> fst line < 2 ^ 32" if "(fid, line) \<in> set facts" for fid line
  proof -
    obtain ver op val where l: "line = (ver, op, val)" by (cases line)
    have "dget facts fid = Some line" using that d by simp
    then show ?thesis using materialized_bounds(1) [OF g] by (simp add: f l)
  qed
  then show ?thesis using d u n by (fastforce simp: facts_ok_def)
qed

end
