(* ===== verification/CompactionDedup.thy ===== *)
theory CompactionDedup
  imports Compaction
begin

section \<open>The merged retry memory of a compaction\<close>

text \<open>
  What \<open>_merge_dedup\<close> leaves of the retry memory of a generation: the entries of the base and of the
  log, cut per client to the last \<open>retention\<close> transaction ids. The lemmas show that the merge of an
  opened generation never collides, and relate the probe of the new table to the answers before.
\<close>

subsection \<open>The two loops\<close>

text \<open>Every entry is between the lowest and the highest id of its client.\<close>

definition merge_ok :: "merge_state \<Rightarrow> bool" where
  "merge_ok st \<longleftrightarrow> distinct (dkeys (mg_entries st)) \<and> distinct (dkeys (mg_hi st)) \<and>
     (\<forall>c. dget (mg_hi st) c = None \<longleftrightarrow> dget (mg_lo st) c = None) \<and>
     (\<forall>c h l. dget (mg_hi st) c = Some h \<and> dget (mg_lo st) c = Some l \<longrightarrow> 0 \<le> l \<and> l \<le> h \<and> h < 2 ^ 64) \<and>
     (\<forall>c. dget (mg_hi st) c \<noteq> None \<longrightarrow> 0 \<le> c \<and> c < 2 ^ 64) \<and>
     (\<forall>o'. dget (mg_entries st) o' \<noteq> None \<longrightarrow>
        (\<exists>c x h l. split_opid o' = Some (c, x) \<and> dget (mg_hi st) c = Some h \<and> dget (mg_lo st) c = Some l \<and> l \<le> x \<and> x \<le> h))"

text \<open>The highest id per client, with the ids of \<open>items\<close>.\<close>

definition seen_after :: "(int, int) pydict \<Rightarrow> (bytes \<times> bytes \<times> int) list \<Rightarrow> int \<Rightarrow> int option" where
  "seen_after hi items c =
     (let xs = (case dget hi c of None \<Rightarrow> {} | Some h \<Rightarrow> {h}) \<union> {x. \<exists>e \<in> set items. split_opid (fst e) = Some (c, x)}
      in if xs = {} then None else Some (Max xs))"

lemma split_opid_bounds: "split_opid o' = Some (c, x) \<Longrightarrow> 0 \<le> c \<and> c < 2 ^ 64 \<and> 0 \<le> x \<and> x < 2 ^ 64 \<and> length o' = 16"
  using le_int_bound [of "take 8 o'"] le_int_bound [of "drop 8 o'"]
  by (auto simp: split_opid_def split: if_splits)

lemma split_opid_total: "length o' = 16 \<Longrightarrow> \<exists>c x. split_opid o' = Some (c, x)"
  by (simp add: split_opid_def)

definition merge_step :: "bytes \<Rightarrow> bytes \<times> int \<Rightarrow> int \<Rightarrow> int \<Rightarrow> merge_state \<Rightarrow> merge_state" where
  "merge_step o' v c x st = \<lparr>mg_entries = dput o' v (mg_entries st),
     mg_hi = dput c (case dget (mg_hi st) c of None \<Rightarrow> x | Some m \<Rightarrow> max m x) (mg_hi st),
     mg_lo = dput c (case dget (mg_lo st) c of None \<Rightarrow> x | Some m \<Rightarrow> min m x) (mg_lo st)\<rparr>"

lemma merge_step_ok:
  assumes m: "merge_ok st" and s: "split_opid o' = Some (c, x)"
  shows "merge_ok (merge_step o' v c x st)"
proof -
  note b = split_opid_bounds [OF s]
  let ?st = "merge_step o' v c x st"
  have hi: "dget (mg_hi ?st) k = (if k = c then Some (case dget (mg_hi st) c of None \<Rightarrow> x | Some m \<Rightarrow> max m x) else dget (mg_hi st) k)"
    and lo: "dget (mg_lo ?st) k = (if k = c then Some (case dget (mg_lo st) c of None \<Rightarrow> x | Some m \<Rightarrow> min m x) else dget (mg_lo st) k)"
    and en: "dget (mg_entries ?st) k' = (if k' = o' then Some v else dget (mg_entries st) k')" for k k'
    by (simp_all add: merge_step_def dget_dput)
  have m1: "distinct (dkeys (mg_entries st))" "distinct (dkeys (mg_hi st))"
    "\<And>c. dget (mg_hi st) c = None \<longleftrightarrow> dget (mg_lo st) c = None"
    "\<And>c h l. dget (mg_hi st) c = Some h \<Longrightarrow> dget (mg_lo st) c = Some l \<Longrightarrow> 0 \<le> l \<and> l \<le> h \<and> h < 2 ^ 64"
    "\<And>c. dget (mg_hi st) c \<noteq> None \<Longrightarrow> 0 \<le> c \<and> c < 2 ^ 64"
    "\<And>o'. dget (mg_entries st) o' \<noteq> None \<Longrightarrow>
        \<exists>c x h l. split_opid o' = Some (c, x) \<and> dget (mg_hi st) c = Some h \<and> dget (mg_lo st) c = Some l \<and> l \<le> x \<and> x \<le> h"
    using m unfolding merge_ok_def by blast+
  have d: "distinct (dkeys (mg_entries ?st))" "distinct (dkeys (mg_hi ?st))"
    using m1(1,2) by (simp_all add: merge_step_def distinct_dput)
  have r: "0 \<le> l \<and> l \<le> h \<and> h < 2 ^ 64" if "dget (mg_hi ?st) k = Some h" "dget (mg_lo ?st) k = Some l" for k h l
    using that m1(3,4) [of k] b by (auto simp: hi lo split: if_splits option.splits)
  have e: "\<exists>c x h l. split_opid k' = Some (c, x) \<and> dget (mg_hi ?st) c = Some h \<and> dget (mg_lo ?st) c = Some l \<and> l \<le> x \<and> x \<le> h"
    if k: "dget (mg_entries ?st) k' \<noteq> None" for k'
  proof (cases "k' = o'")
    case True
    then show ?thesis using s m1(3) [of c] by (fastforce simp: hi lo split: option.splits)
  next
    case False
    then obtain c1 x1 h1 l1 where q: "split_opid k' = Some (c1, x1)" "dget (mg_hi st) c1 = Some h1" "dget (mg_lo st) c1 = Some l1"
      "l1 \<le> x1" "x1 \<le> h1" using k m1(6) [of k'] by (auto simp: en)
    then show ?thesis by (cases "c1 = c") (auto simp: hi lo intro: min.coboundedI1 max.coboundedI1)
  qed
  have n: "dget (mg_hi ?st) k = None \<longleftrightarrow> dget (mg_lo ?st) k = None" for k using m1(3) [of k] by (simp add: hi lo)
  have kb: "0 \<le> k \<and> k < 2 ^ 64" if "dget (mg_hi ?st) k \<noteq> None" for k using that b m1(5) [of k] by (simp add: hi split: if_splits)
  show ?thesis unfolding merge_ok_def using d r e n kb by blast
qed

lemma seen_after_step:
  assumes s: "split_opid o' = Some (c, x)"
  shows "seen_after (dput c (case dget hi c of None \<Rightarrow> x | Some m \<Rightarrow> max m x) hi) items k = seen_after hi ((o', v) # items) k"
proof -
  let ?I = "{y. \<exists>e \<in> set items. split_opid (fst e) = Some (k, y)}"
  have fin: "finite ?I"
  proof (rule finite_subset)
    show "?I \<subseteq> (\<lambda>e. snd (the (split_opid (fst e)))) ` set items" by force
  qed simp
  have b: "{y. \<exists>e \<in> set ((o', v) # items). split_opid (fst e) = Some (k, y)} = (if k = c then insert x ?I else ?I)"
    using s by auto
  show ?thesis
  proof (cases "k = c")
    case True
    have "Max (insert (max m x) ?I) = Max (insert m (insert x ?I))" for m
      using fin by (cases "?I = {}") (auto simp: max.assoc)
    then show ?thesis using True unfolding seen_after_def b by (simp add: dget_dput insert_commute split: option.splits)
  next
    case False
    then show ?thesis unfolding seen_after_def b by (simp add: dget_dput)
  qed
qed

lemma merge_wal_spec:
  "merge_ok st \<Longrightarrow> distinct (map fst items) \<Longrightarrow>
   \<forall>e \<in> set items. length (fst e) = 16 \<and> dget (mg_entries st) (fst e) = None \<Longrightarrow>
   \<exists>st'. merge_wal items st = MergeOk st' \<and> merge_ok st' \<and>
     (\<forall>k. dget (mg_entries st') k = (case map_of items k of Some v \<Rightarrow> Some v | None \<Rightarrow> dget (mg_entries st) k)) \<and>
     (\<forall>c. dget (mg_hi st') c = seen_after (mg_hi st) items c)"
proof (induction items arbitrary: st)
  case Nil
  then show ?case by (auto simp: seen_after_def split: option.splits)
next
  case (Cons e items)
  obtain o' v where e: "e = (o', v)" by (cases e)
  obtain c x where s: "split_opid o' = Some (c, x)" using Cons.prems(3) split_opid_total [of o'] by (auto simp: e)
  let ?st = "merge_step o' v c x st"
  have "\<forall>e \<in> set items. length (fst e) = 16 \<and> dget (mg_entries ?st) (fst e) = None"
    using Cons.prems(2,3) by (auto simp: e merge_step_def dget_dput)
  from Cons.IH [OF merge_step_ok [OF Cons.prems(1) s] _ this] Cons.prems(2)
  obtain st' where st': "merge_wal items ?st = MergeOk st'" "merge_ok st'"
    "\<And>k. dget (mg_entries st') k = (case map_of items k of Some v \<Rightarrow> Some v | None \<Rightarrow> dget (mg_entries ?st) k)"
    "\<And>c. dget (mg_hi st') c = seen_after (mg_hi ?st) items c"
    by auto
  have "merge_wal (e # items) st = MergeOk st'"
    using Cons.prems(3) s st'(1) by (simp add: e Let_def merge_step_def)
  moreover have "map_of items o' = None" using Cons.prems(2) by (simp add: e map_of_eq_None_iff)
  ultimately show ?case
    using st'(2-4) seen_after_step [OF s]
    by (intro exI [of _ st']) (auto simp: e merge_step_def dget_dput split: option.splits)
qed

lemma floor_of_get:
  "dget (floor_of st r) c = map_option (\<lambda>hi. max (case dget (mg_lo st) c of None \<Rightarrow> 0 | Some lo \<Rightarrow> lo) (hi - r + 1)) (dget (mg_hi st) c)"
proof -
  have "dget (map (\<lambda>(cid, hi). (cid, f cid hi)) d) c = map_option (f c) (dget d c)" for f :: "int \<Rightarrow> int \<Rightarrow> int" and d :: "(int, int) pydict"
    by (induction d) auto
  then show ?thesis by (simp add: floor_of_def)
qed

definition entry_kept :: "(int, int) pydict \<Rightarrow> bytes \<times> bytes \<times> int \<Rightarrow> bool" where
  "entry_kept floors e = (case split_opid (fst e) of None \<Rightarrow> False
     | Some (c, x) \<Rightarrow> (case dget floors c of None \<Rightarrow> False | Some fl \<Rightarrow> fl \<le> x))"

lemma kept_entries_filter:
  "\<forall>e \<in> set es. \<exists>c x fl. split_opid (fst e) = Some (c, x) \<and> dget floors c = Some fl \<Longrightarrow>
   kept_entries floors es = Inr (filter (entry_kept floors) es)"
proof (induction es)
  case (Cons e es)
  then show ?case by (cases e) (auto simp: entry_kept_def)
qed simp

subsection \<open>The table of the base\<close>

lemma dt_open_fields:
  assumes o: "dt_open b k = Inr d"
  shows "\<forall>(c, hi, lo) \<in> set (dt_clients d). 0 \<le> c \<and> c < 2 ^ 64 \<and> 0 \<le> lo \<and> hi < 2 ^ 64"
    and "\<forall>(o', e, q) \<in> set (dt_iter_entries d). length e = 16 \<and> 0 \<le> q"
    and "int (length (dt_clients d)) = int (dt_client_count d)"
proof -
  define x where "x = struct_unpack DEDUP_HEADER b"
  define cs where "cs = map (dt_client_at b (DEDUP_HEADER_SIZE + nat (fi x 7) * DEDUP_ENTRY_SIZE)) [0..<nat (fi x 8)]"
  have c: "dt_read_clients cs (-1) = Some (dt_clients d)" "dt_client_count d = nat (fi x 8)"
    and n: "dt_entry_count d = nat (fi x 7)" "dt_blob d = b"
    and l: "length b = DEDUP_HEADER_SIZE + nat (fi x 7) * DEDUP_ENTRY_SIZE + nat (fi x 8) * DEDUP_CLIENT_SIZE + TAG_BYTES"
    using o unfolding dt_open_def Let_def x_def [symmetric] cs_def
    by (auto simp del: struct_unpack.simps split: if_split_asm option.split_asm)
  have cl: "dt_clients d = cs" using dt_read_clients_sorted [OF c(1)] by simp
  have u: "le_int (take 8 b) < 2 ^ 64" for b using le_int_take_bound [of 8 b] by simp
  show "\<forall>(c, hi, lo) \<in> set (dt_clients d). 0 \<le> c \<and> c < 2 ^ 64 \<and> 0 \<le> lo \<and> hi < 2 ^ 64"
    using u by (auto simp: cl cs_def dt_client_at_def Let_def le_int_nonneg)
  show "int (length (dt_clients d)) = int (dt_client_count d)" by (simp add: cl cs_def c(2))
  show "\<forall>(o', e, q) \<in> set (dt_iter_entries d). length e = 16 \<and> 0 \<le> q"
  proof (clarify)
    fix o' e q
    assume "(o', e, q) \<in> set (dt_iter_entries d)"
    then obtain i where i: "i < nat (fi x 7)" "dt_entry_at b i = (o', e, q)" by (auto simp: dt_iter_entries_def n)
    have "i * DEDUP_ENTRY_SIZE + DEDUP_ENTRY_SIZE \<le> nat (fi x 7) * DEDUP_ENTRY_SIZE" using i(1) by linarith
    then have "DEDUP_HEADER_SIZE + i * DEDUP_ENTRY_SIZE + 40 \<le> length b" using l by linarith
    then show "length e = 16 \<and> 0 \<le> q" using i(2) by (auto simp: dt_entry_at_def Let_def le_int_nonneg)
  qed
qed

subsection \<open>The base and the log of an opened generation\<close>

lemma fold_dput_proj: "fold (\<lambda>(c, hi, lo). dput c (f hi lo)) cs d = fold (\<lambda>(k, v). dput k v) (map (\<lambda>(c, hi, lo). (c, f hi lo)) cs) d"
  by (induction cs arbitrary: d) auto

lemma fold_dput_field:
  fixes cs :: dedup_clients
  assumes "distinct (map fst cs)"
  shows "dget (fold (\<lambda>(c, hi, lo). dput c (f hi lo)) cs []) c = map_option (\<lambda>(hi, lo). f hi lo) (dget cs c)"
proof -
  have "map_of (map (\<lambda>(c, hi, lo). (c, f hi lo)) cs) c = map_option (\<lambda>(hi, lo). f hi lo) (dget cs c)"
    by (induction cs) auto
  moreover have "map fst (map (\<lambda>(c, hi, lo). (c, f hi lo)) cs) = map fst cs" by (simp add: split_def comp_def)
  then have "distinct (map fst (map (\<lambda>(c, hi, lo). (c, f hi lo)) cs))" using assms by (simp only:)
  ultimately show ?thesis
    unfolding fold_dput_proj by (simp only: fold_dput list.simps map_of.simps option.case_eq_if) (cases "dget cs c"; simp)
qed

lemma merge_base_ok:
  assumes v: "dt_valid d" and o: "dt_open b k = Inr d"
  shows "merge_ok (merge_base (Some d))" "dget (mg_entries (merge_base (Some d))) = dt_entry d"
    "dget (mg_hi (merge_base (Some d))) c = map_option fst (dget (dt_clients d) c)"
    "dget (mg_lo (merge_base (Some d))) c = map_option snd (dget (dt_clients d) c)"
proof -
  have de: "distinct (map fst (dt_iter_entries d))" and dc: "distinct (map fst (dt_clients d))"
    using v by (simp_all add: dt_valid_def strict_sorted_iff)
  have e: "mg_entries (merge_base (Some d)) = fold (\<lambda>(k, v). dput k v) (dt_iter_entries d) []"
    and h: "mg_hi (merge_base (Some d)) = fold (\<lambda>(c, hi, lo). dput c hi) (dt_clients d) []"
    and l: "mg_lo (merge_base (Some d)) = fold (\<lambda>(c, hi, lo). dput c lo) (dt_clients d) []"
    by (simp_all add: merge_base_def)
  show ge: "dget (mg_entries (merge_base (Some d))) = dt_entry d"
    using fold_dput [OF de, of "[]"] by (simp add: e fun_eq_iff dt_entry_map_of [OF v] option.case_eq_if)
  have gh: "dget (mg_hi (merge_base (Some d))) c = map_option fst (dget (dt_clients d) c)"
    and gl: "dget (mg_lo (merge_base (Some d))) c = map_option snd (dget (dt_clients d) c)" for c
    unfolding h l fold_dput_field [OF dc] by (cases "dget (dt_clients d) c"; auto)+
  then show "dget (mg_hi (merge_base (Some d))) c = map_option fst (dget (dt_clients d) c)"
    "dget (mg_lo (merge_base (Some d))) c = map_option snd (dget (dt_clients d) c)" by blast+
  have dd: "distinct (dkeys (mg_entries (merge_base (Some d))))" "distinct (dkeys (mg_hi (merge_base (Some d))))"
    unfolding e h fold_dput_proj by (rule fold_dput_distinct, simp)+
  have cb: "0 \<le> c \<and> c < 2 ^ 64 \<and> 0 \<le> lo \<and> lo \<le> hi \<and> hi < 2 ^ 64" if "dget (dt_clients d) c = Some (hi, lo)" for c hi lo
  proof -
    have "(c, hi, lo) \<in> set (dt_clients d)" by (rule map_of_SomeD [OF that])
    then show ?thesis using dt_open_fields(1) [OF o] v by (auto simp: dt_valid_def)
  qed
  have en: "\<exists>c x h l. split_opid o' = Some (c, x) \<and> dget (dt_clients d) c = Some (h, l) \<and> l \<le> x \<and> x \<le> h"
    if known: "dt_entry d o' \<noteq> None" for o'
  proof -
    obtain y where "dt_entry d o' = Some y" using known by blast
    then have "(o', y) \<in> set (dt_iter_entries d)" by (simp add: dt_entry_map_of [OF v] map_of_SomeD)
    then have "dt_entry_ok d (o', y)" using v by (simp add: dt_valid_def)
    then show ?thesis by (cases y) (auto simp: dt_entry_ok_def)
  qed
  have "\<exists>c x h l. split_opid o' = Some (c, x) \<and> dget (mg_hi (merge_base (Some d))) c = Some h \<and>
      dget (mg_lo (merge_base (Some d))) c = Some l \<and> l \<le> x \<and> x \<le> h" if "dt_entry d o' \<noteq> None" for o'
    using en [OF that] by (fastforce simp: gh gl)
  moreover have "0 \<le> l \<and> l \<le> h \<and> h < 2 ^ 64" "0 \<le> c \<and> c < 2 ^ 64"
    if "dget (mg_hi (merge_base (Some d))) c = Some h" "dget (mg_lo (merge_base (Some d))) c = Some l" for c h l
    using that cb by (auto simp: gh gl)
  ultimately show "merge_ok (merge_base (Some d))"
    using dd cb unfolding merge_ok_def by (fastforce simp: ge gh gl)
qed

text \<open>The log of a generation, by its history.\<close>

lemma txindex_history:
  assumes "generation_of m r b f t d hist h"
  shows "dget (gh_txindex h) k = snd hist k"
proof -
  have s: "tx_get_seq (gh_txindex h) k = map_option snd (snd hist k)"
    and c: "\<And>e. tx_check (gh_txindex h) k e = (case snd hist k of None \<Rightarrow> TxNew
        | Some (e', q) \<Rightarrow> if e' = e then TxReplay else TxConflict)"
    using assms by (simp_all add: generation_of_def)
  show ?thesis
  proof (cases "dget (gh_txindex h) k")
    case None
    then show ?thesis using s by (simp add: tx_get_seq_def)
  next
    case (Some v)
    obtain e q where v: "v = (e, q)" by (cases v)
    obtain e' where "snd hist k = Some (e', q)" using s Some by (cases "snd hist k") (auto simp: tx_get_seq_def v)
    then show ?thesis using c [of e] Some by (auto simp: tx_check_def v split: if_splits)
  qed
qed

lemma log_items_new:
  assumes g: "generation_parts env m r b f t d frs hist h" and e: "(k, e, q) \<in> set (gh_txindex h)"
  shows "length k = 16 \<and> length e = 16 \<and> em_base_seq m < q \<and> q \<le> em_read_seq m \<and> dt_entry d k = None"
proof -
  have go: "generation_of m r b f t d hist h" using g by (simp add: generation_parts_def)
  then have "distinct (dkeys (gh_txindex h))" by (simp add: generation_of_def)
  with e have "snd hist k = Some (e, q)" using txindex_history [OF go, of k] by simp
  then have l: "length k = 16" "length e = 16" "em_base_seq m < q" "q \<le> em_read_seq m"
    "bv_dedup_probe (man_base m r b f t d) k e = PNew"
    using generation_log_ok [OF g] unfolding log_ok_def by blast+
  then have "dt_probe d k e = Inr PNew"
    unfolding man_base_def by (auto simp: bundle_base_view_def bb_dedup_probe_def split: sum.splits if_splits)
  then have "dt_entry d k = None" by (auto simp: dt_probe_def split: option.splits if_splits)
  then show ?thesis using l by blast
qed

subsection \<open>The merge of an opened generation\<close>

lemma length_dput: "length (dput k v d) \<le> Suc (length d)"
  by (induction d) auto

lemma length_fold_dput: "length (fold (\<lambda>(k, v). dput k v) xs d) \<le> length d + length xs"
proof (induction xs arbitrary: d)
  case (Cons e xs)
  obtain k v where e: "e = (k, v)" by (cases e)
  show ?case using Cons [of "dput k v d"] length_dput [of k v d] by (simp add: e)
qed simp

lemma merge_wal_lengths:
  "merge_wal items st = MergeOk st' \<Longrightarrow> length (mg_entries st') \<le> length (mg_entries st) + length items \<and>
   length (mg_hi st') \<le> length (mg_hi st) + length items"
proof (induction items arbitrary: st)
  case (Cons e items)
  obtain o' v where e: "e = (o', v)" by (cases e)
  then obtain c x where s: "merge_wal items (merge_step o' v c x st) = MergeOk st'"
    using Cons.prems by (auto simp: Let_def merge_step_def split: if_splits option.splits prod.splits)
  have "length (mg_entries (merge_step o' v c x st)) \<le> Suc (length (mg_entries st))"
    "length (mg_hi (merge_step o' v c x st)) \<le> Suc (length (mg_hi st))"
    by (simp_all add: merge_step_def length_dput)
  then show ?case using Cons.IH [OF s] by simp
qed simp

lemma merge_base_lengths:
  "length (mg_entries (merge_base (Some d))) \<le> dt_entry_count d" "length (mg_hi (merge_base (Some d))) \<le> length (dt_clients d)"
  using length_fold_dput [of "dt_iter_entries d" "[]"] length_fold_dput [of "map (\<lambda>(c, hi, lo). (c, hi)) (dt_clients d)" "[]"]
  unfolding fold_dput_proj [of "\<lambda>hi lo. hi", symmetric]
  by (simp_all add: merge_base_def dt_iter_entries_def split_def)

lemma map_of_filter_entry:
  "distinct (map fst es) \<Longrightarrow> map_of (filter P es) k = (case map_of es k of None \<Rightarrow> None | Some v \<Rightarrow> if P (k, v) then Some v else None)"
  by (induction es) (auto simp: map_of_eq_None_iff split: option.splits)

text \<open>What a generation remembers of an operation, and the highest id it has seen of a client.\<close>

definition remembered :: "generation_handle \<Rightarrow> bytes \<Rightarrow> (bytes \<times> int) option" where
  "remembered h op = (case dget (gh_txindex h) op of Some v \<Rightarrow> Some v | None \<Rightarrow> dt_entry (gh_dedup h) op)"

definition client_seen :: "generation_handle \<Rightarrow> int \<Rightarrow> int option" where
  "client_seen h = seen_after (map (\<lambda>(c, hi, lo). (c, hi)) (dt_clients (gh_dedup h))) (tx_items (gh_txindex h))"

text \<open>What a retry is answered by the new table.\<close>

definition merged_probe :: "generation_handle \<Rightarrow> int \<Rightarrow> bytes \<Rightarrow> bytes \<Rightarrow> int \<Rightarrow> int \<Rightarrow> probe" where
  "merged_probe h retention op digest c x =
     (case client_seen h c of
        None \<Rightarrow> PNew
      | Some H \<Rightarrow>
          if H < x then PNew
          else
            (case remembered h op of
               None \<Rightarrow> PExpired
             | Some (d, q) \<Rightarrow>
                 if x \<le> H - max 1 retention then PExpired else if d = digest then PReplay q else PConflict))"

lemma dt_build_reopens:
  assumes "dt_build sc gn fl th rt es cl key = Inr t"
  shows "dt_open (dt_blob t) key = Inr t"
proof -
  obtain blob where "dt_open blob key = Inr t" using assms by (auto simp: dt_build_def Let_def split: option.splits)
  then show ?thesis using dt_open_valid by fastforce
qed

lemma seen_after_cong: "(\<And>c. dget hi c = dget hi' c) \<Longrightarrow> seen_after hi items c = seen_after hi' items c"
  by (simp add: seen_after_def)

text \<open>The clients and the entries of a merge, with the floors.\<close>

lemma merge_ok_client:
  assumes m: "merge_ok st" and h: "dget (mg_hi st) c = Some H"
  shows "\<exists>lo. dget (mg_lo st) c = Some lo \<and> dget (floor_of st r) c = Some (max lo (H - r + 1)) \<and>
    0 \<le> lo \<and> lo \<le> H \<and> H < 2 ^ 64 \<and> 0 \<le> c \<and> c < 2 ^ 64"
proof -
  have "dget (mg_lo st) c \<noteq> None" using m h unfolding merge_ok_def by (metis option.distinct(1))
  then obtain lo where l: "dget (mg_lo st) c = Some lo" by blast
  then have "0 \<le> lo \<and> lo \<le> H \<and> H < 2 ^ 64" "0 \<le> c \<and> c < 2 ^ 64"
    using m h unfolding merge_ok_def by (blast, metis option.distinct(1))
  then show ?thesis using l h by (simp add: floor_of_get)
qed

lemma merge_ok_entry:
  assumes m: "merge_ok st" and e: "e \<in> set (mg_entries st)"
  shows "\<exists>c x H lo. split_opid (fst e) = Some (c, x) \<and> dget (mg_hi st) c = Some H \<and> dget (mg_lo st) c = Some lo \<and>
      dget (floor_of st r) c = Some (max lo (H - r + 1)) \<and> lo \<le> x \<and> x \<le> H"
proof -
  have "dget (mg_entries st) (fst e) \<noteq> None" using e by (metis map_of_eq_None_iff rev_image_eqI)
  then obtain c x H lo where "split_opid (fst e) = Some (c, x)" "dget (mg_hi st) c = Some H" "dget (mg_lo st) c = Some lo"
    "lo \<le> x" "x \<le> H" using m unfolding merge_ok_def by blast
  then show ?thesis using merge_ok_client [OF m, of c H r] by auto
qed

text \<open>An entry is kept when its id is among the last \<open>r\<close> of its client.\<close>

lemma entry_kept_iff:
  assumes "merge_ok st" "split_opid op = Some (c, x)" "dget (mg_hi st) c = Some H" "dget (mg_entries st) op = Some w"
  shows "entry_kept (floor_of st r) (op, w) \<longleftrightarrow> H - r < x"
proof -
  from merge_ok_entry [OF assms(1) map_of_SomeD [OF assms(4)], of r] assms(2,3)
  obtain lo where "dget (floor_of st r) c = Some (max lo (H - r + 1))" "lo \<le> x" by auto
  then show ?thesis by (auto simp: entry_kept_def assms(2))
qed

definition kept_of :: "merge_state \<Rightarrow> int \<Rightarrow> (bytes \<times> bytes \<times> int) list" where
  "kept_of st r = filter (entry_kept (floor_of st r)) (mg_entries st)"

definition clients_of :: "merge_state \<Rightarrow> int \<Rightarrow> dedup_clients" where
  "clients_of st r = map (\<lambda>(cid, hi). (cid, (hi, the (dget (floor_of st r) cid)))) (mg_hi st)"

definition floor_seq_of :: "merge_state \<Rightarrow> int \<Rightarrow> int \<Rightarrow> int" where
  "floor_seq_of st r read_seq = (if kept_of st r \<noteq> [] then Min (set (map (snd \<circ> snd) (kept_of st r))) else read_seq + 1)"

lemma clients_of_get: "dget (clients_of st r) c = map_option (\<lambda>H. (H, the (dget (floor_of st r) c))) (dget (mg_hi st) c)"
proof -
  have "dget (map (\<lambda>(cid, hi). (cid, (hi, F cid))) xs) c = map_option (\<lambda>H. (H, F c)) (dget xs c)"
    for F :: "int \<Rightarrow> int" and xs :: "(int, int) pydict" by (induction xs) auto
  then show ?thesis by (simp add: clients_of_def)
qed

lemma merged_args_ok:
  assumes m: "merge_ok st" and r: "1 \<le> r" and n: "length (mg_entries st) < 2 ^ 32" "length (mg_hi st) < 2 ^ 32"
    and e: "\<forall>e \<in> set (mg_entries st). length (fst (snd e)) = 16 \<and> 0 \<le> snd (snd e) \<and> snd (snd e) \<le> R" and R: "0 \<le> R"
  shows "dedup_args_ok (floor_seq_of st r R) R (kept_of st r) (clients_of st r)"
    and "0 \<le> floor_seq_of st r R" "floor_seq_of st r R \<le> R + 1"
proof -
  have sub: "set (kept_of st r) \<subseteq> set (mg_entries st)" by (auto simp: kept_of_def)
  have fm: "floor_seq_of st r R \<le> snd (snd e)" if "e \<in> set (kept_of st r)" for e
    using that by (auto simp: floor_seq_of_def intro: Min_le)
  show "0 \<le> floor_seq_of st r R" using e R sub by (auto simp: floor_seq_of_def)
  show "floor_seq_of st r R \<le> R + 1"
  proof (cases "kept_of st r")
    case (Cons e' es)
    then have "e' \<in> set (kept_of st r)" by simp
    then show ?thesis using fm [of e'] e sub by fastforce
  qed (simp add: floor_seq_of_def)
  show "dedup_args_ok (floor_seq_of st r R) R (kept_of st r) (clients_of st r)"
    unfolding dedup_args_ok_def
  proof (intro conjI ballI)
    show "distinct (map fst (kept_of st r))" using m by (simp add: merge_ok_def kept_of_def distinct_map_filter)
    have "map fst (clients_of st r) = dkeys (mg_hi st)" by (simp add: clients_of_def split_def comp_def)
    then show "distinct (map fst (clients_of st r))" using m by (simp add: merge_ok_def)
    show "length (kept_of st r) < 2 ^ 32"
      unfolding kept_of_def by (rule order_le_less_trans [OF length_filter_le n(1)])
    show "length (clients_of st r) < 2 ^ 32" using n(2) by (simp add: clients_of_def)
    show "kept_of st r = [] \<longrightarrow> floor_seq_of st r R = R + 1" by (simp add: floor_seq_of_def)
  next
    fix e' assume k: "e' \<in> set (kept_of st r)"
    then have me: "e' \<in> set (mg_entries st)" "entry_kept (floor_of st r) e'" by (simp_all add: kept_of_def)
    obtain c x H lo where s: "split_opid (fst e') = Some (c, x)" "dget (mg_hi st) c = Some H"
      "dget (floor_of st r) c = Some (max lo (H - r + 1))" "lo \<le> x" "x \<le> H" using merge_ok_entry [OF m me(1), of r] by blast
    show "length (fst e') = 16" using split_opid_bounds [OF s(1)] by simp
    show "length (fst (snd e')) = 16" "snd (snd e') \<le> R" using e me(1) by blast+
    show "floor_seq_of st r R \<le> snd (snd e')" by (rule fm [OF k])
    show "\<exists>c x hi lo. split_opid (fst e') = Some (c, x) \<and> dget (clients_of st r) c = Some (hi, lo) \<and> lo \<le> x \<and> x \<le> hi"
      using s me(2) by (auto simp: clients_of_get entry_kept_def)
  next
    fix e' assume "e' \<in> set (clients_of st r)"
    then obtain c H where ce: "e' = (c, H, the (dget (floor_of st r) c))" "(c, H) \<in> set (mg_hi st)" by (auto simp: clients_of_def)
    then have "dget (mg_hi st) c = Some H" using m by (simp add: merge_ok_def)
    from merge_ok_client [OF m this, of r] obtain lo where "dget (floor_of st r) c = Some (max lo (H - r + 1))"
      "0 \<le> lo" "lo \<le> H" "H < 2 ^ 64" "0 \<le> c" "c < 2 ^ 64" by blast
    then show "0 \<le> fst e'" "fst e' < 2 ^ 64" "0 \<le> snd (snd e')" "snd (snd e') \<le> fst (snd e')" "fst (snd e') < 2 ^ 64"
      using r by (auto simp: ce(1))
  qed
qed

text \<open>The merge before retention.\<close>

lemma merge_generation_state:
  assumes g: "generation_parts env m r b f t d frs hist h" and o: "dt_open bb kk = Inr d" and q: "0 \<le> em_base_seq m"
  shows "\<exists>st. merge_wal (gh_txindex h) (merge_base (Some d)) = MergeOk st \<and> merge_ok st \<and>
    dget (mg_entries st) = remembered h \<and> dget (mg_hi st) = client_seen h \<and>
    (\<forall>e \<in> set (mg_entries st). length (fst (snd e)) = 16 \<and> 0 \<le> snd (snd e) \<and> snd (snd e) \<le> em_read_seq m)"
proof -
  have v: "dt_valid d" and go: "generation_of m r b f t d hist h" and gd: "gh_dedup h = d" and le: "em_base_seq m \<le> em_read_seq m"
    and du: "dt_dedup_through_seq d = em_base_seq m"
    using g by (auto simp: generation_parts_def generation_of_def)
  let ?items = "gh_txindex h" and ?st0 = "merge_base (Some d)"
  have di: "distinct (map fst ?items)" using go by (simp add: generation_of_def)
  note mb = merge_base_ok [OF v o]
  have new: "\<forall>e \<in> set ?items. length (fst e) = 16 \<and> dget (mg_entries ?st0) (fst e) = None"
    using log_items_new [OF g] by (auto simp: mb(2))
  obtain st where st: "merge_wal ?items ?st0 = MergeOk st" "merge_ok st"
    "\<And>k. dget (mg_entries st) k = (case map_of ?items k of Some v \<Rightarrow> Some v | None \<Rightarrow> dget (mg_entries ?st0) k)"
    "\<And>c. dget (mg_hi st) c = seen_after (mg_hi ?st0) ?items c"
    using merge_wal_spec [OF mb(1) di new] by auto
  have en: "dget (mg_entries st) k = remembered h k" for k
    by (simp add: st(3) mb(2) remembered_def gd split: option.splits)
  have hi: "dget (mg_hi st) c = client_seen h c" for c
  proof -
    have "dget (map (\<lambda>(c, hi, lo). (c, hi)) cs) c = map_option fst (dget cs c)" for cs :: dedup_clients and c
      by (induction cs) auto
    then have "dget (mg_hi ?st0) c = dget (map (\<lambda>(c, hi, lo). (c, hi)) (dt_clients d)) c" for c by (simp add: mb(3))
    then show ?thesis unfolding st(4) client_seen_def tx_items_def gd by (rule seen_after_cong)
  qed
  have "length dg = 16 \<and> 0 \<le> w \<and> w \<le> em_read_seq m" if k: "(op, dg, w) \<in> set (mg_entries st)" for op dg w
  proof -
    have "dget (mg_entries st) op = Some (dg, w)" using k st(2) by (simp add: merge_ok_def)
    then consider "(op, dg, w) \<in> set ?items" | "dt_entry d op = Some (dg, w)"
      using di by (auto simp: st(3) mb(2) split: option.splits dest: map_of_SomeD)
    then show ?thesis
    proof cases
      case 1
      then show ?thesis using log_items_new [OF g] q by fastforce
    next
      case 2
      then have i: "(op, dg, w) \<in> set (dt_iter_entries d)" by (auto simp: dt_entry_map_of [OF v] dest: map_of_SomeD)
      then have "dt_entry_ok d (op, dg, w)" using v by (simp add: dt_valid_def)
      then show ?thesis using i dt_open_fields(2) [OF o] le by (auto simp: dt_entry_ok_def du)
    qed
  qed
  then have "\<forall>e \<in> set (mg_entries st). length (fst (snd e)) = 16 \<and> 0 \<le> snd (snd e) \<and> snd (snd e) \<le> em_read_seq m"
    by fastforce
  then show ?thesis using st(1,2) en hi by blast
qed

text \<open>The probe of the table that is built of a merge.\<close>

lemma merged_table_probe:
  assumes m: "merge_ok st" and r: "r = max 1 retention" and e: "dget (mg_entries st) = remembered h" "dget (mg_hi st) = client_seen h"
    and t: "dt_valid t'" "dt_iter_entries t' = sort_key fst (kept_of st r)" "dt_clients t' = sort_key fst (clients_of st r)"
    and d: "distinct (map fst (kept_of st r))" "distinct (map fst (clients_of st r))" and s: "split_opid op = Some (c, x)"
  shows "dt_probe t' op digest = Inr (merged_probe h retention op digest c x)"
proof -
  have E: "dt_entry t' op = (case remembered h op of None \<Rightarrow> None | Some w \<Rightarrow> if entry_kept (floor_of st r) (op, w) then Some w else None)"
    using m unfolding dt_entry_map_of [OF t(1)] t(2) sort_key_dict(2) [OF d(1)]
    by (simp add: kept_of_def map_of_filter_entry merge_ok_def e(1))
  have C: "dget (dt_clients t') c = map_option (\<lambda>H. (H, the (dget (floor_of st r) c))) (client_seen h c)"
    unfolding t(3) sort_key_dict(2) [OF d(2)] clients_of_get e(2) ..
  show ?thesis
  proof (cases "remembered h op")
    case None
    then show ?thesis using s by (auto simp: dt_probe_def E C merged_probe_def split: option.splits)
  next
    case (Some w)
    obtain dg wq where w: "w = (dg, wq)" by (cases w)
    have me: "(op, w) \<in> set (mg_entries st)" using Some e(1) by (intro map_of_SomeD) simp
    from merge_ok_entry [OF m this, of r] s obtain H where H: "dget (mg_hi st) c = Some H" "x \<le> H" by auto
    have "entry_kept (floor_of st r) (op, w) \<longleftrightarrow> H - r < x" using entry_kept_iff [OF m s H(1)] Some e(1) by simp
    moreover have "client_seen h c = Some H" using H(1) e(2) by simp
    ultimately show ?thesis using H(2) s Some by (simp add: dt_probe_def E C merged_probe_def w r linorder_not_less)
  qed
qed

lemma merge_generation:
  assumes g: "generation_parts env m r b f t d frs hist h" and o: "dt_open bb kk = Inr d"
    and q: "0 \<le> em_base_seq m" "em_read_seq m < MAX_SEQ" and ids: "u32 sc" "u32 gn" "retention < 2 ^ 32"
    and n: "dt_entry_count d + length (gh_txindex h) < 2 ^ 32" "dt_client_count d + length (gh_txindex h) < 2 ^ 32"
  shows "\<exists>t'. merge_dedup (Some d) (gh_txindex h) sc gn (em_read_seq m) retention key = MergeOk (dt_blob t') \<and>
    dt_open (dt_blob t') key = Inr t' \<and> dt_scope_id t' = sc \<and> dt_generation_id t' = gn \<and>
    dt_dedup_through_seq t' = em_read_seq m \<and> dt_entry_count t' \<le> dt_entry_count d + length (gh_txindex h) \<and>
    dt_client_count t' \<le> dt_client_count d + length (gh_txindex h) \<and>
    (\<forall>op digest c x. split_opid op = Some (c, x) \<longrightarrow> dt_probe t' op digest = Inr (merged_probe h retention op digest c x))"
proof -
  let ?R = "max 1 retention"
  obtain st where st: "merge_wal (gh_txindex h) (merge_base (Some d)) = MergeOk st" "merge_ok st"
    "dget (mg_entries st) = remembered h" "dget (mg_hi st) = client_seen h"
    "\<forall>e \<in> set (mg_entries st). length (fst (snd e)) = 16 \<and> 0 \<le> snd (snd e) \<and> snd (snd e) \<le> em_read_seq m"
    using merge_generation_state [OF g o q(1)] by blast
  have le: "0 \<le> em_read_seq m" using g q(1) by (auto simp: generation_parts_def)
  have ls: "length (mg_entries st) \<le> dt_entry_count d + length (gh_txindex h)"
    "length (mg_hi st) \<le> dt_client_count d + length (gh_txindex h)"
    using merge_wal_lengths [OF st(1)] merge_base_lengths [of d] dt_open_fields(3) [OF o] by linarith+
  then have ln: "length (mg_entries st) < 2 ^ 32" "length (mg_hi st) < 2 ^ 32" using n by linarith+
  note args = merged_args_ok [OF st(2) max.cobounded1 ln st(5) le, of retention]
  obtain t' where t': "dt_build sc gn (floor_seq_of st ?R (em_read_seq m)) (em_read_seq m) ?R (kept_of st ?R) (clients_of st ?R) key = Inr t'"
    "dt_valid t'" "dt_scope_id t' = sc" "dt_generation_id t' = gn" "dt_dedup_through_seq t' = em_read_seq m"
    "dt_iter_entries t' = sort_key fst (kept_of st ?R)" "dt_clients t' = sort_key fst (clients_of st ?R)"
  proof -
    have "0 \<le> ?R" "?R < 2 ^ 32" using ids(3) by auto
    then show ?thesis
      using that dt_build_opens [OF args(1), of sc gn ?R key] ids(1,2) q(2) le args(2,3) by (auto simp: u32_def)
  qed
  have ke: "kept_entries (floor_of st ?R) (mg_entries st) = Inr (kept_of st ?R)"
    unfolding kept_of_def using merge_ok_entry [OF st(2), of _ ?R] by (intro kept_entries_filter) blast
  have "merge_dedup (Some d) (gh_txindex h) sc gn (em_read_seq m) retention key = MergeOk (dt_blob t')"
    using t'(1) unfolding floor_seq_of_def clients_of_def
    by (simp add: merge_dedup_def Let_def tx_items_def st(1) ke)
  moreover have "distinct (map fst (kept_of st ?R))" "distinct (map fst (clients_of st ?R))"
    using args(1) by (simp_all add: dedup_args_ok_def)
  moreover have "dt_entry_count t' \<le> length (mg_entries st)"
    using arg_cong [OF t'(6), of length] by (simp add: dt_iter_entries_def kept_of_def order_trans [OF length_filter_le])
  moreover have "dt_client_count t' = length (mg_hi st)"
    using arg_cong [OF t'(7), of length] dt_open_fields(3) [OF dt_build_reopens [OF t'(1)]] by (simp add: clients_of_def)
  ultimately show ?thesis
    using t' ls dt_build_reopens [OF t'(1)] merged_table_probe [OF st(2) refl st(3,4) t'(2,6,7)] by (intro exI [of _ t']) auto
qed

end
