(* ===== verification/FreshGeneration.thy ===== *)
theory FreshGeneration
  imports BaseRound Transition
begin

section \<open>A generation of stored artifacts and an empty ACTIVE segment\<close>

text \<open>
  What a compaction (and a bootstrap) publishes: the five artifacts under their digests, an ACTIVE
  file with nothing but its header, and a manifest that names them. Such a manifest opens, the
  handle reads the model of the base, and its retry memory is the dedup table.
\<close>

subsection \<open>Opening one stored artifact\<close>

text \<open>The counts a header announces are those of the opened component.\<close>

fun part_counts :: "component \<Rightarrow> counts" where
  "part_counts (CRegistry r) = \<lparr>c_fact_count = fr_fact_count r, c_entries = int (fr_n_entries r), c_corrections = 0,
     c_pages = 0, c_clients = 0\<rparr>"
| "part_counts (CBulk b) = \<lparr>c_fact_count = int (bs_fact_count b), c_entries = 0, c_corrections = 0, c_pages = 0, c_clients = 0\<rparr>"
| "part_counts (CResidual f) = \<lparr>c_fact_count = int (rf_fact_count f), c_entries = 0, c_corrections = int (rf_n_corrections f),
     c_pages = (int (rf_n_corrections f) + int (rf_page_size_bytes f) - 1) div int (rf_page_size_bytes f), c_clients = 0\<rparr>"
| "part_counts (CTombstone t) = \<lparr>c_fact_count = int (tl_fact_count t), c_entries = 0, c_corrections = 0, c_pages = 0, c_clients = 0\<rparr>"
| "part_counts (CDedup d) = \<lparr>c_fact_count = 0, c_entries = int (dt_entry_count d), c_corrections = 0, c_pages = 0,
     c_clients = int (dt_client_count d)\<rparr>"

lemma unpacked_nonneg:
  assumes "struct_size fs \<le> length b" "i < length fs" "fs ! i = FU n"
  shows "0 \<le> fi (struct_unpack fs b) i"
proof -
  have "fits (FU n) (struct_unpack fs b ! i)"
    using struct_unpack_fits [OF assms(1)] assms(2,3) by (metis list_all2_conv_all_nth)
  then show ?thesis by (cases "struct_unpack fs b ! i") (simp_all add: fi_def)
qed

lemma peek_opened:
  assumes "parse_artifact np k b key = Inr part"
  shows "peek_counts k b = Some (part_counts part)"
proof (cases k)
  case REGISTRY
  with assms obtain r where r: "part = CRegistry r" "reg_open b key = Inr r" by (cases "reg_open b key") auto
  show ?thesis
    using r(2) unfolding REGISTRY r(1) reg_open_def Let_def
    by (auto simp: unpack_from_def unpacked_nonneg simp del: struct_unpack.simps split: if_splits)
next
  case BULK
  with assms obtain s where r: "part = CBulk s" "bs_parse b key = Inr s"
    by (cases "bs_parse b key") (auto simp: bs_open_def split: if_splits)
  show ?thesis
    using r(2) unfolding BULK r(1) bs_parse_def Let_def
    by (auto simp: unpack_from_def unpacked_nonneg simp del: struct_unpack.simps split: if_splits)
next
  case RESIDUAL
  with assms obtain f where r: "part = CResidual f" "rf_parse b key = Inr f"
    by (cases "rf_parse b key") (auto simp: rf_open_def split: if_splits)
  show ?thesis
  proof -
    define x where "x = struct_unpack RF_HEADER b"
    have l: "\<not> length b < RF_HEADER_SIZE"
      and f: "rf_fact_count f = nat (fi x 4)" "rf_page_size_bytes f = nat (fi x 5)" "rf_n_corrections f = nat (fi x 6)"
        "nat (fi x 5) \<noteq> 0"
      using r(2) unfolding rf_parse_def Let_def x_def [symmetric] by (auto split: if_splits)
    have "0 \<le> fi x 4" "0 \<le> fi x 5" "0 \<le> fi x 6"
      unfolding x_def by (rule unpacked_nonneg [where n = 4], use l in simp_all)+
    moreover have "unpack_from RF_HEADER b 0 = Some x" using l by (simp add: unpack_from_def x_def del: struct_unpack.simps)
    ultimately show ?thesis using f(4) unfolding RESIDUAL r(1) by (simp add: f Let_def)
  qed
next
  case TOMBSTONE
  with assms obtain t where r: "part = CTombstone t" "tl_open np b key = Inr t" by (cases "tl_open np b key") auto
  show ?thesis
    using r(2) unfolding TOMBSTONE r(1) tl_open_def Let_def
    by (auto simp: unpack_from_def unpacked_nonneg simp del: struct_unpack.simps split: if_splits)
next
  case DEDUP
  with assms obtain d where r: "part = CDedup d" "dt_open b key = Inr d" by (cases "dt_open b key") auto
  show ?thesis
    using r(2) unfolding DEDUP r(1) dt_open_def Let_def
    by (auto simp: unpack_from_def unpacked_nonneg simp del: struct_unpack.simps split: if_splits option.splits)
qed

lemma open_base_artifact_stored:
  assumes p: "parse_artifact np k b key = Inr part" and s: "dget store (sha256 b) = Some b" "\<not> changed (sha256 b)"
    and l: "int (length b) \<le> max_blob_bytes lim" "within_limits k (part_counts part) lim" and k: "dget kr kid = Some key"
  shows "open_base_artifact np (make_descriptor k b True kid) store changed lim kr = Inr part"
  using s l k peek_opened [OF p] p
  by (simp add: open_base_artifact_def make_descriptor_def get_limited_def open_artifact_def open_present_def Let_def)

subsection \<open>The empty ACTIVE segment\<close>

definition fresh_segment :: "bytes \<Rightarrow> seg_id \<Rightarrow> wal_segment_descriptor" where
  "fresh_segment key s =
     \<lparr>sd_ordinal = 0, sd_segment_id = sg_segment s, sd_first_seq = sg_first s, sd_record_count = 0,
      wsd_status = STATE_ACTIVE, wsd_durable_prefix_length = int (length (wal_image key s [])),
      wsd_durable_prefix_sha256 = sha256 (wal_image key s []), wsd_sealed_object_length = 0,
      wsd_sealed_object_sha256 = ZERO32, wsd_prev_segment_digest = ZERO16, wsd_key_id = sg_key_id s\<rparr>"

text \<open>The file is there with nothing but its header, or with anything behind it.\<close>

definition fresh_active :: "wal_store \<Rightarrow> bytes \<Rightarrow> seg_id \<Rightarrow> bool" where
  "fresh_active ws key s \<longleftrightarrow> seg_id_ok s \<and> sg_prev s = ZERO16 \<and> dget (ws_keyring ws) (sg_key_id s) = Some key \<and>
     (\<exists>tail. dget (ws_active ws) (sg_scope s, sg_segment s) = Some (RegularFile (wal_image key s [] @ tail)))"

lemma fresh_image_length: "seg_id_ok s \<Longrightarrow> length (wal_image key s []) = 67"
  by (simp add: wal_image_def length_header_bytes frames_bytes_def)

lemma fresh_covers:
  assumes "seg_id_ok s" "em_segments m = [fresh_segment key s]" "em_read_seq m = em_base_seq m" "sg_first s = em_base_seq m + 1"
  shows "check_coverage m"
  using assms by (simp add: check_coverage_def segment_covers_def fresh_segment_def fresh_image_length seg_id_ok_def u32_def Let_def)

lemma fresh_segment_fits: "seg_id_ok s \<Longrightarrow> seg_fits (fresh_segment key s)"
  by (simp add: seg_fits_def seg_row_def fresh_segment_def fresh_image_length seg_id_ok_def u32_def)

lemma fresh_segment_read:
  assumes f: "fresh_active ws key s" and l: "67 \<le> max_active_bytes lim"
  shows "read_validated_segment ws (fresh_segment key s) (sg_scope s) lim None =
    (AP_VALID, Some \<lparr>st_sealed_by_store = True, st_frames = [], st_byte_length = 67, vs_identity = (sg_scope s, sg_segment s),
       vs_header = header_info s, vs_last_seq = sg_first s - 1, vs_is_sealed = False\<rparr>)"
proof -
  obtain t where t: "dget (ws_active ws) (sg_scope s, sg_segment s) = Some (RegularFile (wal_image key s [] @ t))"
    and s: "seg_id_ok s" "dget (ws_keyring ws) (sg_key_id s) = Some key"
    using f by (auto simp: fresh_active_def)
  show ?thesis
    using read_active_prefix_image [OF s(1) _ s(2) t, of lim] l fresh_image_length [OF s(1), of key]
    by (simp add: read_validated_segment_def fresh_segment_def next_seq_of_def)
qed

lemma fresh_binds:
  "sg_prev s = ZERO16 \<Longrightarrow> header_binds (header_info s) (sg_scope s) (fresh_segment key s)"
  by (simp add: header_binds_def header_info_def fresh_segment_def)

subsection \<open>The replay over the base\<close>

definition roomy :: "gen_env \<Rightarrow> bool" where
  "roomy env \<longleftrightarrow> 67 \<le> gl_max_segment_bytes (ge_gen_limits env) \<and> 1 \<le> rl_max_segments (ge_reducer_limits env) \<and>
     67 \<le> rl_max_segment_bytes (ge_reducer_limits env) \<and> 67 \<le> rl_max_total_wal_bytes (ge_reducer_limits env)"

lemma fresh_replay:
  assumes f: "fresh_active (ge_wal env) key s" "dget (ge_keyring env) (sg_key_id s) = Some key"
    and flt: "ge_fault env (fresh_segment key s) = None" and r: "roomy env"
    and m: "em_segments m = [fresh_segment key s]" "em_read_seq m = em_base_seq m" "sg_first s = em_base_seq m + 1"
      "em_scope_id m = sg_scope s"
    and lin: "resolve_lineage m (ge_parent env) (ge_keyring env) = Some lin"
  shows "\<exists>h. replay_generation env m bundle d = Inr (G_VALID, Some h) \<and> gh_lineage h = lin \<and> gh_sealed h \<and>
    gh_scope_id h = em_scope_id m \<and> gh_generation_id h = em_generation_id m \<and> gh_fact_count h = em_fact_count m \<and>
    gh_base_seq h = em_base_seq m \<and> gh_read_seq h = em_read_seq m \<and> gh_bundle h = bundle \<and> gh_dedup h = d \<and>
    gh_l0 h = wi_freeze (wi_begin_mutation wi_empty) \<and> gh_txindex h = tx_freeze (tx_begin_mutation [])"
proof -
  have l: "67 \<le> max_active_bytes (wal_limits (ge_gen_limits env))" using r by (simp add: roomy_def wal_limits_def)
  have s: "sg_prev s = ZERO16" "seg_id_ok s" using f(1) by (simp_all add: fresh_active_def)
  note rd = fresh_segment_read [OF f(1) l]
  note bi = fresh_binds [OF s(1), of key]
  have v: "whi_format_version (header_info s) = WAL_FORMAT_VERSION" by (simp add: header_info_def)
  have u: "\<not> sg_segment s \<le> -1" using s(2) by (auto simp: seg_id_ok_def u32_def)
  define base where "base = bundle_base_view \<lparr>bb_view = \<lparr>rv_generation_id = em_generation_id m, rv_scope_id = em_scope_id m,
    rv_base_seq = em_base_seq m, rv_read_seq = em_read_seq m\<rparr>, bb_bundle = bundle, bb_base_dedup = Some d\<rparr>"
  let ?red = "reducer_begin plain_ops (Some base) (em_base_seq m) (em_read_seq m) (ge_reducer_limits env)"
  let ?red' = "?red\<lparr>rs_seg_count := 1, rs_prev_segment_id := sg_segment s, rs_total_frames := 0, rs_total_bytes := 67\<rparr>"
  have fd: "feed_segment plain_ops ?red (segment_token.truncate \<lparr>st_sealed_by_store = True, st_frames = [], st_byte_length = 67,
      vs_identity = (sg_scope s, sg_segment s), vs_header = header_info s, vs_last_seq = sg_first s - 1, vs_is_sealed = False\<rparr>)
      (segment_desc.truncate (fresh_segment key s)) = Inr (REDUCE_OK, ?red')"
    using r u m(3) by (simp add: feed_segment_def segment_token.truncate_def segment_desc.truncate_def fresh_segment_def
        reducer_begin_def roomy_def Let_def)
  have k: "wsd_key_id (fresh_segment key s) = sg_key_id s" by (simp add: fresh_segment_def)
  have rs: "replay_segments (ge_wal env) (ge_keyring env) (em_scope_id m) (wal_limits (ge_gen_limits env)) (ge_fault env)
      (em_segments m) ?red = Inr (Inr ?red')"
    by (simp add: m(1,4) k f(2) flt rd v bi fd)
  have fin: "reducer_finish plain_ops ?red' = Inr (\<lparr>rr_class = REDUCE_OK, rr_index = wi_freeze (wi_begin_mutation wi_empty),
      rr_txindex = tx_freeze (tx_begin_mutation []), rr_applied_count = 0, rr_applied_seq = em_base_seq m\<rparr>,
      ?red'\<lparr>rs_finished := True, rs_wal := None, rs_tx := None\<rparr>)"
    by (simp add: reducer_finish_def reducer_begin_def m(2) plain_ops_def)
  show ?thesis
    unfolding replay_generation_def Let_def base_def [symmetric] rs sum.case fin prod.case
    by (simp add: m(2) lin)
qed

subsection \<open>The generation\<close>

text \<open>The five blobs, what they parse to, and that they are stored within the limits.\<close>

definition stored_base :: "gen_env \<Rightarrow> bytes \<Rightarrow> (artifact_kind \<Rightarrow> bytes) \<Rightarrow> (artifact_kind \<Rightarrow> component) \<Rightarrow> bool" where
  "stored_base env key B C \<longleftrightarrow>
     (\<forall>k. parse_artifact (ge_np env) k (B k) key = Inr (C k) \<and> dget (ge_objects env) (sha256 (B k)) = Some (B k) \<and>
        \<not> ge_changed env (sha256 (B k)) \<and> int (length (B k)) \<le> max_blob_bytes (ge_limits env) \<and>
        within_limits k (part_counts (C k)) (ge_limits env))"

definition base_descriptors :: "(artifact_kind \<Rightarrow> bytes) \<Rightarrow> int \<Rightarrow> (artifact_kind \<times> artifact_descriptor) list" where
  "base_descriptors B kid = map (\<lambda>k. (k, make_descriptor k (B k) True kid)) BASE_KINDS"

lemma dget_base_descriptors [simp]: "dget (base_descriptors B kid) k = Some (make_descriptor k (B k) True kid)"
  by (cases k) (simp_all add: base_descriptors_def BASE_KINDS_def)

lemma base_descriptors_order: "em_base_descriptors m = base_descriptors B kid \<Longrightarrow> with_order BASE_KINDS m = m"
  by (simp add: with_order_def base_descriptors_def BASE_KINDS_def)

lemma stored_components:
  assumes "stored_base env key B C" "dget (ge_keyring env) kid = Some key"
  shows "open_base_components (\<lambda>d. open_base_artifact (ge_np env) d (ge_objects env) (ge_changed env) (ge_limits env) (ge_keyring env))
      (base_descriptors B kid) BASE_KINDS = Inr (map C BASE_KINDS)"
    and "check_base_descriptors (base_descriptors B kid) BASE_KINDS = G_VALID"
proof -
  have o: "open_base_artifact (ge_np env) (make_descriptor k (B k) True kid) (ge_objects env) (ge_changed env) (ge_limits env)
      (ge_keyring env) = Inr (C k)" for k
    using assms by (intro open_base_artifact_stored) (auto simp: stored_base_def)
  show "open_base_components (\<lambda>d. open_base_artifact (ge_np env) d (ge_objects env) (ge_changed env) (ge_limits env) (ge_keyring env))
      (base_descriptors B kid) BASE_KINDS = Inr (map C BASE_KINDS)"
    by (simp add: BASE_KINDS_def o)
  show "check_base_descriptors (base_descriptors B kid) BASE_KINDS = G_VALID"
    by (simp add: BASE_KINDS_def make_descriptor_def)
qed

lemma frozen_empty: "wi_get (wi_freeze (wi_begin_mutation wi_empty)) = fst history0"
    "wi_inv (wi_freeze (wi_begin_mutation wi_empty))" "tx_check (tx_freeze (tx_begin_mutation [])) k e = TxNew"
    "tx_get_seq (tx_freeze (tx_begin_mutation [])) k = None" "dkeys (tx_freeze (tx_begin_mutation [])) = []"
  using plain.begin_get [OF plain.new_inv(1)] plain.freeze_get [OF plain.begin_inv(1) [OF plain.new_inv(1)]] plain.new_get
    plain.freeze_inv(1) [OF plain.begin_inv(1) [OF plain.new_inv(1)]]
  by (auto simp: plain_ops_def history0_def tx_freeze_def tx_begin_mutation_def tx_clone_def tx_check_def tx_get_seq_def fun_eq_iff)

lemma fresh_generation_opens:
  assumes n: "numpy_bits (ge_np env)" and st: "stored_base env key B C" and kid: "dget (ge_keyring env) (em_key_id m) = Some key"
    and c: "C REGISTRY = CRegistry r" "C BULK = CBulk b" "C RESIDUAL = CResidual f" "C TOMBSTONE = CTombstone t" "C DEDUP = CDedup d"
    and mb: "bm_ok mdl" "bm_parts mdl (em_scope_id m) (em_generation_id m) r b f t" "em_fact_count m = bm_fact_count mdl"
    and ds: "em_base_descriptors m = base_descriptors B (em_key_id m)"
    and dd: "dt_scope_id d = em_scope_id m" "dt_generation_id d = em_generation_id m" "dt_dedup_through_seq d = em_base_seq m"
    and act: "fresh_active (ge_wal env) key s" "ge_fault env (fresh_segment key s) = None" "roomy env"
    and m: "em_segments m = [fresh_segment key s]" "em_read_seq m = em_base_seq m" "sg_first s = em_base_seq m + 1"
      "em_scope_id m = sg_scope s" "sg_key_id s = em_key_id m"
    and fits: "manifest_fits m" "em_serialize m key = Some blob" "generation_preflight m (length blob) (ge_gen_limits env)"
    and lin: "resolve_lineage m (ge_parent env) (ge_keyring env) = Some lin"
  shows "\<exists>h. open_generation env (Some blob) = Inr (G_VALID, Some h) \<and> gh_lineage h = lin \<and>
    generation_parts env m r b f t d [] history0 h"
proof -
  note comps = stored_components [OF st kid]
  have parse: "parse_manifest (Some blob) (ge_keyring env) = (G_VALID, Some m)"
    using em_serialize_parses [OF fits(2) kid fits(1)] base_descriptors_order [OF ds] by simp
  have s: "seg_id_ok s" using act(1) by (simp add: fresh_active_def)
  note cov = fresh_covers [OF s m(1,2,3)]
  have pc: "parse_artifact (ge_np env) k (B k) key = Inr (C k)" for k using st by (simp add: stored_base_def)
  have to: "tl_open (ge_np env) (B TOMBSTONE) key = Inr t" "dt_open (B DEDUP) key = Inr d"
    using parse_artifact_kind(4) [of "ge_np env" TOMBSTONE] parse_artifact_kind(5) [of "ge_np env" DEDUP] pc c(4,5) by metis+
  note v = numpy_bits.bm_validates [OF n mb(1,2)]
  let ?bun = "base_bundle (em_scope_id m) (em_generation_id m) r b f t"
  obtain h where h: "replay_generation env m ?bun d = Inr (G_VALID, Some h)" "gh_lineage h = lin" "gh_sealed h"
    "gh_scope_id h = em_scope_id m" "gh_generation_id h = em_generation_id m" "gh_fact_count h = em_fact_count m"
    "gh_base_seq h = em_base_seq m" "gh_read_seq h = em_read_seq m" "gh_bundle h = ?bun" "gh_dedup h = d"
    "gh_l0 h = wi_freeze (wi_begin_mutation wi_empty)" "gh_txindex h = tx_freeze (tx_begin_mutation [])"
    using fresh_replay [OF act(1) kid [folded m(5)] act(2,3) m(1-4) lin, of ?bun d] by blast
  have parts: "map C BASE_KINDS = [CRegistry r, CBulk b, CResidual f, CTombstone t, CDedup d]"
    by (simp add: BASE_KINDS_def c)
  have "open_tombstone (ge_np env) (Some (tl_blob t)) key True = \<lparr>or_state = VALID, or_layer = Some t\<rparr>"
    using to(1) tl_open_valid [OF to(1)] by (simp add: open_tombstone_def)
  then have "open_over_base env m (map C BASE_KINDS) = Inr (G_VALID, Some h)"
    unfolding parts open_over_base_def using v h(1)
    by (simp add: mb(3) dd ds kid base_bundle_def make_descriptor_def)
  then have o: "open_generation env (Some blob) = Inr (G_VALID, Some h)"
    by (simp add: open_generation_def parse cov fits(3) ds comps)
  have "generation_of m r b f t d history0 h"
    by (simp add: generation_of_def h frozen_empty) (simp add: history0_def)
  moreover have "segment_read env (em_scope_id m) (fresh_segment key s)
      \<lparr>st_sealed_by_store = True, st_frames = [], st_byte_length = 67, vs_identity = (sg_scope s, sg_segment s),
       vs_header = header_info s, vs_last_seq = sg_first s - 1, vs_is_sealed = False\<rparr>"
    using fresh_segment_read [OF act(1), of "wal_limits (ge_gen_limits env)"] fresh_binds [of s key] act
    by (simp add: segment_read_def roomy_def wal_limits_def fresh_active_def m(4))
  moreover have "opened_base r b f t" using mb(2) by (simp add: bm_parts_def)
  moreover have "dt_valid d" using dt_open_valid [OF to(2)] by blast
  ultimately have "generation_parts env m r b f t d [] history0 h"
    unfolding generation_parts_def using v mb(3) dd m(1,2) by (auto simp: list_all2_Cons1)
  then show ?thesis using o h(2) by blast
qed

text \<open>Conversely, a generation that opens over stored artifacts is made of them.\<close>

lemma stored_generation_parts:
  assumes n: "numpy_bits (ge_np env)" and p: "parse_manifest (Some blob) (ge_keyring env) = (G_VALID, Some m)"
    and ds: "em_base_descriptors m = base_descriptors B kid" and kid: "dget (ge_keyring env) kid = Some key"
    and st: "\<And>k. dget (ge_objects env) (sha256 (B k)) = Some (B k)" "\<And>k. parse_artifact (ge_np env) k (B k) key = Inr (C k)"
    and c: "C REGISTRY = CRegistry r" "C BULK = CBulk b" "C RESIDUAL = CResidual f" "C TOMBSTONE = CTombstone t" "C DEDUP = CDedup d"
    and o: "opened_base r b f t" and e: "em_read_seq m = em_base_seq m"
    and g: "open_generation env (Some blob) = Inr (G_VALID, Some h)"
  shows "generation_parts env m r b f t d [] history0 h"
proof -
  let ?opn = "\<lambda>d. open_base_artifact (ge_np env) d (ge_objects env) (ge_changed env) (ge_limits env) (ge_keyring env)"
  obtain parts where parts: "open_base_components ?opn (em_base_descriptors m) BASE_KINDS = Inr parts"
    "open_over_base env m parts = Inr (G_VALID, Some h)"
    using open_generation_valid [OF g] p by (metis option.inject prod.inject)
  have "?opn (make_descriptor k (B k) True kid) = Inr x \<Longrightarrow> x = C k" for k x
  proof -
    assume "?opn (make_descriptor k (B k) True kid) = Inr x"
    from open_base_artifact_parsed [OF this] show "x = C k" using st kid by (auto simp: make_descriptor_def)
  qed
  then have "parts = map C BASE_KINDS"
    using open_base_components_Inr [OF parts(1)] by (auto simp: BASE_KINDS_def ds list_all2_Cons1)
  then have ov: "open_over_base env m [CRegistry r, CBulk b, CResidual f, CTombstone t, CDedup d] = Inr (G_VALID, Some h)"
    using parts(2) by (simp add: BASE_KINDS_def c)
  have to: "tl_open (ge_np env) (B TOMBSTONE) key = Inr t" "dt_open (B DEDUP) key = Inr d"
    using parse_artifact_kind(4) [of "ge_np env" TOMBSTONE] parse_artifact_kind(5) [of "ge_np env" DEDUP] st(2) c(4,5) by metis+
  have tb: "open_tombstone (ge_np env) (Some (tl_blob t)) key True = \<lparr>or_state = VALID, or_layer = Some t\<rparr>"
    using to(1) tl_open_valid [OF to(1)] by (simp add: open_tombstone_def)
  have v: "validate_base_artifacts (ge_np env) r b f t (em_scope_id m) (em_generation_id m) (em_fact_count m) = None"
    "dt_scope_id d = em_scope_id m" "dt_generation_id d = em_generation_id m" "dt_dedup_through_seq d = em_base_seq m"
    "replay_generation env m (base_bundle (em_scope_id m) (em_generation_id m) r b f t) d = Inr (G_VALID, Some h)"
    using ov by (auto simp: open_over_base_def ds kid tb base_bundle_def make_descriptor_def split: if_splits)
  from replay_generation_history [OF v(5)] obtain gs hist where gs: "list_all2 (segment_read env (em_scope_id m)) (em_segments m) gs"
    "em_read_seq m = em_base_seq m + int (length (concat (map st_frames gs)))"
    "abs_replay (man_base m r b f t d) history0 (concat (map st_frames gs)) = Inr (Inr hist)" "generation_of m r b f t d hist h"
    by blast
  have e0: "concat (map st_frames gs) = []" using gs(2) e by (simp flip: length_0_conv)
  then have "hist = history0" using gs(3) [unfolded e0] by simp
  moreover have "dt_valid d" using dt_open_valid [OF to(2)] by blast
  ultimately show ?thesis
    unfolding generation_parts_def using v(1-4) o e gs e0 by (intro conjI exI [of _ gs]) auto
qed

lemma replay_generation_dedup:
  assumes "replay_generation env m bun d = Inr (G_VALID, Some h)"
  shows "gh_dedup h = d"
  using assms unfolding replay_generation_def Let_def
  by (auto split: sum.splits prod.splits if_splits option.splits)

lemma opened_dedup:
  assumes "open_generation env mb = Inr (G_VALID, Some h)"
  shows "\<exists>b k. dt_open b k = Inr (gh_dedup h)"
proof -
  obtain m parts where c: "open_base_components (\<lambda>d. open_base_artifact (ge_np env) d (ge_objects env) (ge_changed env)
        (ge_limits env) (ge_keyring env)) (em_base_descriptors m) BASE_KINDS = Inr parts" "open_over_base env m parts = Inr (G_VALID, Some h)"
    by (rule open_generation_valid [OF assms])
  obtain r b f t d where p: "parts = [CRegistry r, CBulk b, CResidual f, CTombstone t, CDedup d]"
    and o: "\<exists>bun. replay_generation env m bun d = Inr (G_VALID, Some h)"
    using c(2) unfolding open_over_base_def by (auto split: list.splits component.splits if_splits option.splits)
  have "gh_dedup h = d" using o replay_generation_dedup by blast
  moreover obtain e where "open_base_artifact (ge_np env) e (ge_objects env) (ge_changed env) (ge_limits env) (ge_keyring env) = Inr (CDedup d)"
    using open_base_components_Inr [OF c(1)] by (auto simp: p BASE_KINDS_def)
  ultimately show ?thesis using open_base_artifact_parsed parse_artifact_kind(5) by metis
qed

subsection \<open>Sizes\<close>

fun part_size :: "component \<Rightarrow> nat" where
  "part_size (CRegistry r) = 38 + 16 * fr_n_entries r"
| "part_size (CBulk b) = bs_mac_off b + 16"
| "part_size (CResidual f) = rf_manifest_off f + 16"
| "part_size (CTombstone t) = tl_tag_off t + 16"
| "part_size (CDedup d) = 58 + 40 * dt_entry_count d + 24 * dt_client_count d"

lemma part_length:
  assumes "parse_artifact np k b key = Inr part"
  shows "length b = part_size part"
proof (cases k)
  case REGISTRY
  with assms obtain r where r: "part = CRegistry r" "reg_open b key = Inr r" by (cases "reg_open b key") auto
  show ?thesis
    using r(2) unfolding r(1) reg_open_def Let_def by (auto simp del: struct_unpack.simps split: if_split_asm)
next
  case BULK
  with assms obtain s where r: "part = CBulk s" "bs_parse b key = Inr s"
    by (cases "bs_parse b key") (auto simp: bs_open_def split: if_splits)
  show ?thesis using bs_parse_ok [OF r(2)] by (simp add: r(1))
next
  case RESIDUAL
  with assms obtain f where r: "part = CResidual f" "rf_parse b key = Inr f"
    by (cases "rf_parse b key") (auto simp: rf_open_def split: if_splits)
  show ?thesis using rf_parse_ok [OF r(2)] by (simp add: r(1))
next
  case TOMBSTONE
  with assms obtain t where r: "part = CTombstone t" "tl_open np b key = Inr t" by (cases "tl_open np b key") auto
  show ?thesis
    using r(2) unfolding r(1) tl_open_def Let_def by (auto simp del: struct_unpack.simps split: if_split_asm)
next
  case DEDUP
  with assms obtain d where r: "part = CDedup d" "dt_open b key = Inr d" by (cases "dt_open b key") auto
  show ?thesis
    using r(2) unfolding r(1) dt_open_def Let_def
    by (auto simp del: struct_unpack.simps split: if_split_asm option.split_asm)
qed

text \<open>A base of at most \<open>2 ^ 21\<close> facts without corrections, and a memory of \<open>2 ^ 20\<close> operations and
  \<open>2 ^ 19\<close> clients, is within the default limits.\<close>

lemma registry_entries_bound:
  assumes "reg_valid r"
  shows "int (fr_n_entries r) \<le> max 0 (fr_fact_count r)"
proof -
  let ?os = "map (\<lambda>e. fst (snd e)) (reg_iter_entries r)"
  have "set ?os \<subseteq> {0..<fr_fact_count r}" "distinct ?os" using assms by (auto simp: reg_valid_def)
  then have "length ?os \<le> card {0..<fr_fact_count r}"
    using card_mono [of "{0..<fr_fact_count r}" "set ?os"] distinct_card [of ?os] by simp
  then show ?thesis by (simp add: reg_iter_entries_def)
qed

lemma support_bound: "bs_valid b \<Longrightarrow> bs_support_count b \<le> bs_fact_count b"
proof -
  assume v: "bs_valid b"
  let ?bits = "bitmap_at (bs_blob b) BULK_HEADER_SIZE ((bs_fact_count b + 7) div 8)"
  have "count_true ?bits = bs_support_count b" "count_true (drop (bs_fact_count b) ?bits) = 0"
    using v by (auto simp: bs_valid_def ranked_def bs_rank_off_def)
  moreover have "count_true ?bits = count_true (take (bs_fact_count b) ?bits) + count_true (drop (bs_fact_count b) ?bits)"
    by (metis append_take_drop_id count_true_simps(3))
  moreover have "count_true (take (bs_fact_count b) ?bits) \<le> bs_fact_count b"
    using count_true_le [of "take (bs_fact_count b) ?bits"] by simp
  ultimately show ?thesis by simp
qed

lemma base_sizes:
  assumes p: "bm_parts mdl sc gn r b f t" "bm_corrections mdl = []"
  shows "fr_n_entries r \<le> nat (bm_fact_count mdl)" "fr_fact_count r = bm_fact_count mdl" "bs_fact_count b = nat (bm_fact_count mdl)"
    "bs_support_count b \<le> nat (bm_fact_count mdl)" "rf_fact_count f = nat (bm_fact_count mdl)" "rf_n_corrections f = 0"
    "0 < rf_page_size_bytes f" "tl_fact_count t = nat (bm_fact_count mdl)"
proof -
  show "fr_n_entries r \<le> nat (bm_fact_count mdl)" "fr_fact_count r = bm_fact_count mdl"
    using registry_entries_bound [of r] p by (auto simp: bm_parts_def opened_base_def)
  show "bs_fact_count b = nat (bm_fact_count mdl)" "bs_support_count b \<le> nat (bm_fact_count mdl)"
    using p(1) support_bound [of b] by (auto simp: bm_parts_def opened_base_def)
  show "rf_fact_count f = nat (bm_fact_count mdl)" "rf_n_corrections f = 0" "0 < rf_page_size_bytes f"
    using p(1,2) rf_valid_lengths(1) [of f] by (auto simp: bm_parts_def rf_built_def rf_valid_def)
  show "tl_fact_count t = nat (bm_fact_count mdl)" using p(1) by (auto simp: bm_parts_def)
qed

lemma base_within_limits:
  assumes p: "bm_parts mdl sc gn r b f t" "bm_corrections mdl = []" "0 \<le> bm_fact_count mdl" "bm_fact_count mdl \<le> 2 ^ 21"
    and d: "dt_entry_count d \<le> 2 ^ 20" "dt_client_count d \<le> 2 ^ 19" and c: "c \<in> {CRegistry r, CBulk b, CResidual f, CTombstone t, CDedup d}"
  shows "part_size c \<le> 2 ^ 26" "within_limits k (part_counts c) default_limits"
proof -
  define n where "n = nat (bm_fact_count mdl)"
  note sz = base_sizes [OF p(1,2), folded n_def]
  have n: "bm_fact_count mdl = int n" using p(3) by (simp add: n_def)
  then have m: "n \<le> 2 ^ 21" "(n + 7) div 8 \<le> 2 ^ 21" "n_blocks n \<le> 2 ^ 21" using p(4) by (auto simp: n_blocks_def)
  show "part_size c \<le> 2 ^ 26"
    using c m sz d by (auto simp: bs_mac_off_def bs_payload_off_def bs_rank_off_def rf_manifest_off_def rf_page_tags_off_def
        rf_payload_off_def rf_rank_off_def rf_n_pages_def tl_tag_off_def)
  show "within_limits k (part_counts c) default_limits"
    using c m(1) sz d unfolding n by (auto simp: within_limits_def default_limits_def)
qed

end
