(* ===== verification/CompactionRun.thy ===== *)
theory CompactionRun
  imports RecoveryLives CompactionDedup FreshGeneration
begin

section \<open>Running a compaction (\<open>prepare_compaction\<close> of \<open>horizon_compaction.py\<close>)\<close>

text \<open>
  \<open>prepare_compaction\<close> fences and drains the writer, checks that the drained state is coherent,
  materializes the generation, stores the five artifacts of the next base, creates its empty ACTIVE
  segment and seals the package a publication takes. The state is the writer, the object store, the
  WAL directory and the locks of the scopes. The lemmas show what a prepared package is, that its
  candidate opens, and that reads and retries are answered the same in the new generation.
\<close>

record compaction_result =
  cr_state :: compaction_state
  cr_prepared :: "compaction_prepared option"

abbreviation (input) CompactionResult :: "compaction_state \<Rightarrow> compaction_prepared option \<Rightarrow> compaction_result" where
  "CompactionResult s p \<equiv> \<lparr>cr_state = s, cr_prepared = p\<rparr>"

datatype 'a compaction_out = CxRet 'a | CxRaise compaction_exn | CxKilled

text \<open>The answers of the system: the lock of the garbage collector, the five \<open>put_object\<close> calls, the
  creation of the ACTIVE file or the read of an existing one, the registration of the package; and
  the points where the process dies.\<close>

record compaction_script =
  px_lock_ok :: bool
  px_puts :: "put_fault option list"
  px_kill_base :: bool
  px_create :: "create_fault option"
  px_read :: "read_fault option"
  px_kill_manifest :: bool
  px_register_ok :: bool

subsection \<open>The drained state\<close>

text \<open>\<open>_validate_input\<close>\<close>

definition validate_compaction_input :: "published_cursor \<Rightarrow> scope_lease option \<Rightarrow> int \<Rightarrow> int \<Rightarrow> bool" where
  "validate_compaction_input cursor lease scope_id read_seq =
     (if \<not> is_sealed_cursor cursor then False
      else
        (case lease of
           None \<Rightarrow> False
         | Some l \<Rightarrow>
             if \<not> le_sealed l \<or> \<not> lease_held l then False
             else if le_state l \<noteq> OWNED_BY_COMPACTION then False
             else if le_scope_id l \<noteq> scope_id then False
             else pc_read_seq cursor = read_seq))"

text \<open>\<open>_validate_post_drain_state\<close>\<close>

definition validate_post_drain_state :: "('w, 't) l0_snapshot \<Rightarrow> published_cursor \<Rightarrow> bool" where
  "validate_post_drain_state snapshot cursor =
     (let head = ls_wal_head snapshot; act = pc_active cursor
      in if ls_visible_through_seq snapshot \<noteq> pc_read_seq cursor then False
         else if wh_durable_through_seq head \<noteq> pc_read_seq cursor then False
         else if wh_scope_id head \<noteq> em_scope_id (pc_manifest cursor) then False
         else if wh_segment_id head \<noteq> sd_segment_id act \<or> wh_first_seq head \<noteq> sd_first_seq act then False
         else int (wh_byte_length head) = wsd_durable_prefix_length act
              \<and> wh_prefix_digest head = wsd_durable_prefix_sha256 act)"

text \<open>The end of \<open>begin_compaction\<close>, behind the join of the worker; \<open>None\<close> is an exception, which
  \<open>prepare_compaction\<close> catches.\<close>

definition detach_compaction ::
  "('w, 't) pub_writer \<Rightarrow> scope_locks \<Rightarrow> (('w, 't) l0_snapshot \<times> scope_lease option) option \<times> ('w, 't) pub_writer" where
  "detach_compaction w held =
     (case gc_drained (pw_gc w) of
        Inl e \<Rightarrow> (None, w)
      | Inr (snapshot, st) \<Rightarrow>
          (case gs_lease st of
             None \<Rightarrow> (Some (snapshot, None), w\<lparr>pw_gc := st\<rparr>)
           | Some l \<Rightarrow>
               (case lease_transfer l OWNED_BY_COMPACTION held of
                  None \<Rightarrow> (None, w\<lparr>pw_gc := st\<lparr>gs_lease := None\<rparr>\<rparr>)
                | Some (l', _) \<Rightarrow> (Some (snapshot, Some l'), w\<lparr>pw_gc := st\<lparr>gs_lease := None\<rparr>\<rparr>))))"

subsection \<open>The artifacts, the ACTIVE segment, the package\<close>

text \<open>The loop over the blobs: what each call raises, or the descriptors.\<close>

fun put_artifacts ::
  "object_store \<Rightarrow> (artifact_kind \<times> bytes) list \<Rightarrow> int \<Rightarrow> put_fault option list
     \<Rightarrow> (compaction_exn + (artifact_kind \<times> artifact_descriptor) list) \<times> object_store" where
  "put_artifacts objs [] key_id faults = (Inr [], objs)"
| "put_artifacts objs ((kind, blob) # bs) key_id faults =
     (case put_object objs blob (case faults of [] \<Rightarrow> None | f # _ \<Rightarrow> f) of
        (PutOSError, objs) \<Rightarrow> (Inl CxOS, objs)
      | (PutIntegrityError, objs) \<Rightarrow> (Inl CxIntegrity, objs)
      | (PutOk _, objs) \<Rightarrow>
          (case put_artifacts objs bs key_id (case faults of [] \<Rightarrow> [] | _ # fs \<Rightarrow> fs) of
             (Inl e, objs) \<Rightarrow> (Inl e, objs)
           | (Inr ds, objs) \<Rightarrow> (Inr ((kind, make_descriptor kind blob True key_id) # ds), objs)))"

text \<open>Whether the ACTIVE file of the next segment is there with exactly the header.\<close>

definition create_next_active ::
  "wal_store \<Rightarrow> wal_identity \<Rightarrow> bytes \<Rightarrow> wal_store_limits \<Rightarrow> compaction_script \<Rightarrow> bool compaction_out \<times> wal_store" where
  "create_next_active ws ident header wlim sc =
     (case create_active ws ident header (px_create sc) of
        (Killed, ws) \<Rightarrow> (CxKilled, ws)
      | (Raise e, ws) \<Rightarrow> (CxRaise CxOS, ws)
      | (Ret (s, _), ws) \<Rightarrow>
          if s = WS_ALREADY_EXISTS then
            (case open_active ws ident wlim (px_read sc) of
               (WS_VALID, Some (data, _)) \<Rightarrow> (CxRet (data = header), ws)
             | _ \<Rightarrow> (CxRet False, ws))
          else (CxRet (s = WS_VALID), ws))"

definition next_active_descriptor :: "int \<Rightarrow> int \<Rightarrow> bytes \<Rightarrow> int \<Rightarrow> wal_segment_descriptor" where
  "next_active_descriptor segment_id read_seq header key_id =
     \<lparr>sd_ordinal = 0, sd_segment_id = segment_id, sd_first_seq = read_seq + 1, sd_record_count = 0,
      wsd_status = STATE_ACTIVE, wsd_durable_prefix_length = int (length header),
      wsd_durable_prefix_sha256 = sha256 header, wsd_sealed_object_length = 0, wsd_sealed_object_sha256 = ZERO32,
      wsd_prev_segment_digest = ZERO16, wsd_key_id = key_id\<rparr>"

definition compaction_candidate ::
  "published_cursor \<Rightarrow> int \<Rightarrow> (artifact_kind \<times> artifact_descriptor) list \<Rightarrow> wal_segment_descriptor \<Rightarrow> epoch_manifest" where
  "compaction_candidate cursor fact_count base_desc next_active =
     \<lparr>em_scope_id = em_scope_id (pc_manifest cursor), em_generation_id = em_generation_id (pc_manifest cursor) + 1,
      em_fact_count = fact_count, em_base_seq = pc_read_seq cursor, em_read_seq = pc_read_seq cursor,
      em_parent_generation_id = em_generation_id (pc_manifest cursor),
      em_parent_manifest_digest = pp_manifest_sha256 (pc_proof cursor), em_base_descriptors = base_desc,
      em_segments = [next_active], em_key_id = em_key_id (pc_manifest cursor)\<rparr>"

text \<open>The package: a draft without digest, then its digest; \<open>None\<close> is \<open>struct.error\<close>.\<close>

definition seal_compaction ::
  "published_cursor \<Rightarrow> (artifact_kind \<times> artifact_descriptor) list \<Rightarrow> wal_segment_descriptor \<Rightarrow> bytes \<Rightarrow> scope_lease
     \<Rightarrow> compaction_prepared option" where
  "seal_compaction cursor base_desc next_active blob lease =
     (let draft = \<lparr>cm_source_publication_sha256 = pp_publication_sha256 (pc_proof cursor), cm_read_seq = pc_read_seq cursor,
            cm_generation_id = em_generation_id (pc_manifest cursor) + 1,
            cm_base_descriptors = map (\<lambda>k. (k, the (dget base_desc k))) BASE_KINDS, cm_next_active = next_active,
            cm_candidate_sha256 = sha256 blob, cm_candidate_blob = blob, cm_lease = Some lease, cm_digest = [],
            cm_seal = True\<rparr>
      in map_option (\<lambda>d. draft\<lparr>cm_digest := d\<rparr>) (compaction_prepared_digest draft))"

subsection \<open>\<open>prepare_compaction\<close>\<close>

text \<open>From the lock of the garbage collector on: the answer, the two stores, the lease, the locks.\<close>

definition write_compaction ::
  "published_cursor \<Rightarrow> bytes \<Rightarrow> (artifact_kind \<times> bytes) list \<Rightarrow> int \<Rightarrow> object_store \<Rightarrow> wal_store \<Rightarrow> wal_store_limits
     \<Rightarrow> scope_lease \<Rightarrow> scope_locks \<Rightarrow> compaction_script
     \<Rightarrow> compaction_result compaction_out \<times> object_store \<times> wal_store \<times> scope_locks" where
  "write_compaction cursor key blobs fact_count objs ws wlim lease held sc =
     (let man = pc_manifest cursor; scope = em_scope_id man; key_id = em_key_id man; R = pc_read_seq cursor;
          next_seg = sd_segment_id (pc_active cursor) + 1;
          fail = (\<lambda>s. (CxRet (CompactionResult s None), snd (lease_close lease held)))
      in if \<not> px_lock_ok sc then (CxRaise CxOS, objs, ws, held)
         else
           (case put_artifacts objs blobs key_id (px_puts sc) of
              (Inl e, objs) \<Rightarrow> (CxRaise e, objs, ws, held)
            | (Inr base_desc, objs) \<Rightarrow>
                if px_kill_base sc then (CxKilled, objs, ws, held)
                else
                  (case encode_segment_header key scope next_seg (R + 1) key_id STATE_ACTIVE ZERO16 of
                     None \<Rightarrow> (CxRaise CxStruct, objs, ws, held)
                   | Some header \<Rightarrow>
                       (case create_next_active ws (scope, next_seg) header wlim sc of
                          (CxKilled, ws) \<Rightarrow> (CxKilled, objs, ws, held)
                        | (CxRaise e, ws) \<Rightarrow> (CxRaise e, objs, ws, held)
                        | (CxRet False, ws) \<Rightarrow> (case fail CP_FAILED of (r, held) \<Rightarrow> (r, objs, ws, held))
                        | (CxRet True, ws) \<Rightarrow>
                            (let next_active = next_active_descriptor next_seg R header key_id
                             in case em_serialize (compaction_candidate cursor fact_count base_desc next_active) key of
                                  None \<Rightarrow> (CxRaise CxStruct, objs, ws, held)
                                | Some blob \<Rightarrow>
                                    if px_kill_manifest sc then (CxKilled, objs, ws, held)
                                    else
                                      (case lease_transfer lease OWNED_BY_COMPACTION_PREPARED held of
                                         None \<Rightarrow> (CxRaise CxWal, objs, ws, held)
                                       | Some (lease', held) \<Rightarrow>
                                           (case seal_compaction cursor base_desc next_active blob lease' of
                                              None \<Rightarrow> (CxRaise CxStruct, objs, ws, held)
                                            | Some p \<Rightarrow>
                                                if \<not> px_register_ok sc
                                                then (CxRet (CompactionResult CP_FAILED None), objs, ws,
                                                      snd (lease_close lease' held))
                                                else (CxRet (CompactionResult CP_PREPARED (Some p)), objs, ws, held))))))))"

definition prepare_compaction ::
  "pub_env \<Rightarrow> ('w, 't) pub_writer \<Rightarrow> object_store \<Rightarrow> wal_store \<Rightarrow> wal_store_limits \<Rightarrow> int \<Rightarrow> scope_locks \<Rightarrow> compaction_script
     \<Rightarrow> compaction_result compaction_out \<times> ('w, 't) pub_writer \<times> object_store \<times> wal_store \<times> scope_locks" where
  "prepare_compaction env w objs ws wlim retention held sc =
     (case detach_compaction w held of
        (None, w) \<Rightarrow> (CxRet (CompactionResult CP_POISONED None), w, objs, ws, held)
      | (Some (snapshot, lease), w) \<Rightarrow>
          (let fail = (\<lambda>s. (CxRet (CompactionResult s None), w, objs, ws,
                 case lease of None \<Rightarrow> held | Some l \<Rightarrow> snd (lease_close l held)))
           in case pw_cursor w of
                None \<Rightarrow> fail CP_FAILED
              | Some cursor \<Rightarrow>
                  (let man = pc_manifest cursor; scope = em_scope_id man; R = pc_read_seq cursor;
                       new_gen = em_generation_id man + 1; next_seg = sd_segment_id (pc_active cursor) + 1
                   in if \<not> validate_compaction_input cursor lease scope R then fail CP_FAILED
                      else if \<not> validate_post_drain_state snapshot cursor then fail CP_FAILED
                      else
                        (case dget (pe_keyring env) (em_key_id man) of
                           None \<Rightarrow> fail CP_FAILED
                         | Some key \<Rightarrow>
                             if new_gen > U32_MAX \<or> next_seg > U32_MAX \<or> R + 1 \<ge> MAX_SEQ then fail CP_INCOMPATIBLE
                             else
                               (case open_generation (recovery_gen_env env DEFAULT_GENERATION_LIMITS objs ws)
                                       (Some (pc_manifest_blob cursor)) of
                                  Inl e \<Rightarrow> (CxRaise (CxGen e), w, objs, ws, held)
                                | Inr (og, handle) \<Rightarrow>
                                    if og \<noteq> G_VALID then fail CP_FAILED
                                    else
                                      (let h = the handle
                                       in case materialize_state h of
                                            Inl e \<Rightarrow> (CxRaise e, w, objs, ws, held)
                                          | Inr facts \<Rightarrow>
                                              if length facts > gl_max_total_frames DEFAULT_GENERATION_LIMITS then fail CP_INCOMPATIBLE
                                              else
                                                (case build_base_artifacts (ge_np (pe_gen env)) facts (Some (gh_dedup h))
                                                        (gh_txindex h) scope new_gen R retention key of
                                                   Inl e \<Rightarrow> (CxRaise e, w, objs, ws, held)
                                                 | Inr (st, blobs, fact_count) \<Rightarrow>
                                                     if st \<noteq> CP_PREPARED then fail st
                                                     else
                                                       (case write_compaction cursor key blobs fact_count objs ws wlim
                                                               (the lease) held sc of
                                                          (r, objs, ws, held) \<Rightarrow> (r, w, objs, ws, held)))))))))"

subsection \<open>The artifacts of a compaction\<close>

definition five :: "fact_registry \<Rightarrow> bulk_snapshot \<Rightarrow> residual_field \<Rightarrow> tombstone_layer \<Rightarrow> dedup_table \<Rightarrow> artifact_kind \<Rightarrow> component" where
  "five r b f t d k = (case k of REGISTRY \<Rightarrow> CRegistry r | BULK \<Rightarrow> CBulk b | RESIDUAL \<Rightarrow> CResidual f | TOMBSTONE \<Rightarrow> CTombstone t
     | DEDUP \<Rightarrow> CDedup d)"

fun part_blob :: "component \<Rightarrow> bytes" where
  "part_blob (CRegistry r) = fr_blob r"
| "part_blob (CBulk b) = bs_blob b"
| "part_blob (CResidual f) = rf_blob f"
| "part_blob (CTombstone t) = tl_blob t"
| "part_blob (CDedup d) = dt_blob d"

lemma five_simps [simp]: "five r b f t d REGISTRY = CRegistry r" "five r b f t d BULK = CBulk b" "five r b f t d RESIDUAL = CResidual f"
  "five r b f t d TOMBSTONE = CTombstone t" "five r b f t d DEDUP = CDedup d"
  by (simp_all add: five_def)

definition part_blobs :: "(artifact_kind \<Rightarrow> component) \<Rightarrow> (artifact_kind \<times> bytes) list" where
  "part_blobs C = map (\<lambda>k. (k, part_blob (C k))) BASE_KINDS"

lemma reg_build_count:
  assumes "reg_build mp sc gn fc key = Inr r"
  shows "int (length mp) \<le> MAX_REGISTRY_ENTRIES"
proof -
  let ?vs = "[VB REG_MAGIC, VI REG_FORMAT_VERSION, VI sc, VI gn, VI fc, VI (int (length mp))]"
  obtain h body where h: "struct_pack REG_HEADER ?vs = Some h" and o: "reg_open (h @ body @ reg_mac key h body) key = Inr r"
    using assms by (auto simp: reg_build_def Let_def simp del: struct_pack.simps split: option.splits)
  have "list_all2 fits REG_HEADER ?vs" by (rule fits_packed [OF h]) (auto simp: REG_MAGIC_def nth_Cons split: nat.splits)
  from struct_unpack_pack [OF h this] have un: "struct_unpack REG_HEADER (h @ body @ reg_mac key h body) = ?vs" .
  have "fi ?vs 5 = int (length mp)" by simp
  then show ?thesis
    using o unfolding reg_open_def Let_def un
    by (cases "fi ?vs 5 > MAX_REGISTRY_ENTRIES") (simp_all split: if_split_asm)
qed

context numpy_bits
begin

lemma built_reopens:
  "reg_build rm sc gn fc key = Inr r \<Longrightarrow> parse_artifact np REGISTRY (fr_blob r) key = Inr (CRegistry r)"
  "bs_build np fc vm sc gn key = Inr b \<Longrightarrow> parse_artifact np BULK (bs_blob b) key = Inr (CBulk b)"
  "rf_build np fc cm ps sc gn key = Inr f \<Longrightarrow> parse_artifact np RESIDUAL (rf_blob f) key = Inr (CResidual f)"
  "tl_build np fc dl sc gn key = Inr t \<Longrightarrow> parse_artifact np TOMBSTONE (tl_blob t) key = Inr (CTombstone t)"
proof -
  show "reg_build rm sc gn fc key = Inr r \<Longrightarrow> parse_artifact np REGISTRY (fr_blob r) key = Inr (CRegistry r)"
    by (simp add: reg_build_reopens)
next
  assume "bs_build np fc vm sc gn key = Inr b"
  then obtain blob where "bs_open np blob key = Inr b"
    by (auto simp: bs_build_def Let_def simp del: struct_pack.simps split: if_splits option.splits)
  then show "parse_artifact np BULK (bs_blob b) key = Inr (CBulk b)" using bs_open_valid(2) by simp
next
  assume "rf_build np fc cm ps sc gn key = Inr f"
  then obtain blob where "rf_open np blob key = Inr f"
    by (auto simp: rf_build_def Let_def simp del: struct_pack.simps split: if_splits option.splits)
  then show "parse_artifact np RESIDUAL (rf_blob f) key = Inr (CResidual f)" using rf_open_valid(2) by simp
next
  assume "tl_build np fc dl sc gn key = Inr t"
  then obtain blob where "tl_open np blob key = Inr t"
    by (auto simp: tl_build_def Let_def simp del: struct_pack.simps split: if_splits option.splits)
  then show "parse_artifact np TOMBSTONE (tl_blob t) key = Inr (CTombstone t)" using tl_open_valid by fastforce
qed

lemma build_base_succeeds:
  assumes f: "facts_ok facts" and ids: "u32 sc" "u32 gn"
    and d: "merge_dedup bd tx sc gn R ret key = MergeOk (dt_blob d)" "dt_open (dt_blob d) key = Inr d"
  shows "\<exists>r b f t. build_base_artifacts np facts bd tx sc gn R ret key
      = Inr (CP_PREPARED, part_blobs (five r b f t d), int (length facts)) \<and>
    bm_parts (compacted_model facts) sc gn r b f t \<and>
    (\<forall>k. parse_artifact np k (part_blob (five r b f t d k)) key = Inr (five r b f t d k))"
proof -
  let ?m = "compacted_model facts"
  have fc: "bm_fact_count ?m = int (length facts)" using compacted_rows(3,7) f by (simp add: facts_ok_def)
  have cr: "bm_corrections ?m = []" using compacted_rows(8) f by (simp add: facts_ok_def)
  obtain r b fl t where p: "reg_build (bm_registry ?m) sc gn (bm_fact_count ?m) key = Inr r"
    "bs_build np (bm_fact_count ?m) (bm_values ?m) sc gn key = Inr b"
    "rf_build np (bm_fact_count ?m) (bm_corrections ?m) DEFAULT_PAGE_BYTES sc gn key = Inr fl"
    "tl_build np (bm_fact_count ?m) (bm_deleted ?m) sc gn key = Inr t" "bm_parts ?m sc gn r b fl t"
    using bm_build [OF compacted_model_ok [OF f] ids, of DEFAULT_PAGE_BYTES key] by (auto simp: u32_def)
  have u: "\<forall>(fid, line) \<in> set facts. u8_line line" using f by (auto simp: facts_ok_def)
  have "build_base_artifacts np facts bd tx sc gn R ret key = Inr (CP_PREPARED, part_blobs (five r b fl t d), int (length facts))"
    using u p(1-4) by (simp add: build_base_artifacts_def d(1) Let_def part_blobs_def BASE_KINDS_def fc)
  moreover have "parse_artifact np k (part_blob (five r b fl t d k)) key = Inr (five r b fl t d k)" for k
    using built_reopens p(1-4) d(2) by (cases k) auto
  ultimately show ?thesis using p(5) by blast
qed

end

lemma build_base_prepared:
  assumes "build_base_artifacts np facts bd tx sc gn R ret key = Inr (CP_PREPARED, blobs, n)"
  shows "\<forall>(fid, line) \<in> set facts. u8_line line"
    and "\<exists>r. reg_build (bm_registry (compacted_model facts)) sc gn (bm_fact_count (compacted_model facts)) key = Inr r"
    and "\<exists>db. merge_dedup bd tx sc gn R ret key = MergeOk db"
proof -
  show u: "\<forall>(fid, line) \<in> set facts. u8_line line"
    by (rule ccontr, use assms in \<open>simp add: build_base_artifacts_def\<close>)
  then have "\<not> \<not> (\<forall>(fid, line) \<in> set facts. u8_line line)" by blast
  note a = assms [unfolded build_base_artifacts_def, unfolded if_not_P [OF this] Let_def]
  show m: "\<exists>db. merge_dedup bd tx sc gn R ret key = MergeOk db"
    using a by (cases "merge_dedup bd tx sc gn R ret key") simp_all
  then obtain db where "merge_dedup bd tx sc gn R ret key = MergeOk db" by blast
  with a show "\<exists>r. reg_build (bm_registry (compacted_model facts)) sc gn (bm_fact_count (compacted_model facts)) key = Inr r"
    by (cases "reg_build (bm_registry (compacted_model facts)) sc gn (bm_fact_count (compacted_model facts)) key") simp_all
qed

subsection \<open>What the new base says\<close>

text \<open>A value keeps its value and a deleted fact stays deleted; what abstained is gone.\<close>

definition compacted_read :: "read_result \<Rightarrow> read_result" where
  "compacted_read a =
     (if rr_status a = RDeleted then ReadResult RDeleted None True SrcTombstone
      else (case rr_value a of Some v \<Rightarrow> ReadResult RFromBulk (Some v) True SrcBulk
            | None \<Rightarrow> ReadResult RNotFound None True SrcNone))"

lemma compacted_answers:
  assumes g: "generation_parts env m r b f t d frs hist h" and fo: "facts_ok facts"
    and e: "dget facts = materialized_line r (fst hist) (generation_answer r b f t (fst hist))"
  shows "bm_answer (compacted_model facts) fid = compacted_read (generation_answer r b f t (fst hist) fid)"
proof (cases "fst hist fid")
  case None
  show ?thesis
  proof (cases "reg_lookup r fid")
    case None
    then show ?thesis using \<open>fst hist fid = None\<close>
      by (simp add: compacted_model_answer(1) [OF fo] e materialized_line_def compacted_read_def generation_answer_def)
  next
    case (Some iv)
    then show ?thesis using None
      by (cases iv) (auto simp: compacted_model_answer(1) [OF fo] e materialized_line_def compacted_read_def line_of_read_def
          split: option.splits)
  qed
next
  case (Some l)
  obtain ver op x where l: "l = (ver, op, x)" by (cases l)
  have "abs_replay (man_base m r b f t d) history0 frs = Inr (Inr hist)" using g by (simp add: generation_parts_def)
  from abs_replay_values [OF this generation_parts_frames [OF g]] have "op = OP_DELETE \<longleftrightarrow> x = None"
    using Some by (simp add: history0_def l)
  then show ?thesis using Some
    by (auto simp: compacted_model_answer(1) [OF fo] e materialized_line_def compacted_read_def generation_answer_def l)
qed

subsection \<open>The stored artifacts and the candidate\<close>

lemma put_object_stored:
  assumes "put_object objs blob f = (PutOk dg, objs')"
  shows "dget objs' (sha256 blob) = Some blob" "dget objs d = Some b \<Longrightarrow> dget objs' d = Some b"
  using assms
  by (auto simp: put_object_def Let_def dget_dput get_limited_def split: option.splits put_fault.splits if_splits)

lemma put_artifacts_ok:
  "put_artifacts objs bs kid fs = (Inr ds, objs') \<Longrightarrow>
   ds = map (\<lambda>(k, b). (k, make_descriptor k b True kid)) bs \<and> (\<forall>(k, b) \<in> set bs. dget objs' (sha256 b) = Some b) \<and>
   (\<forall>d b. dget objs d = Some b \<longrightarrow> dget objs' d = Some b)"
proof (induction objs bs kid fs arbitrary: ds objs' rule: put_artifacts.induct)
  case (1 objs kid fs)
  then show ?case by simp
next
  case (2 objs k b bs kid fs)
  obtain dg objs1 ds1 where p: "put_object objs b (case fs of [] \<Rightarrow> None | f # _ \<Rightarrow> f) = (PutOk dg, objs1)"
    and r: "put_artifacts objs1 bs kid (case fs of [] \<Rightarrow> [] | _ # fs \<Rightarrow> fs) = (Inr ds1, objs')"
    and ds: "ds = (k, make_descriptor k b True kid) # ds1"
    using "2.prems" by (auto split: prod.splits put_result.splits sum.splits)
  note ih = "2.IH" [OF p [symmetric] refl r]
  show ?case using ih put_object_stored(1) [OF p] put_object_stored(2) [OF p] by (auto simp: ds)
qed

lemma put_part_blobs:
  assumes "put_artifacts objs (part_blobs C) kid fs = (Inr ds, objs')"
  shows "ds = base_descriptors (\<lambda>k. part_blob (C k)) kid" "dget objs' (sha256 (part_blob (C k))) = Some (part_blob (C k))"
    "dget objs d = Some b \<Longrightarrow> dget objs' d = Some b"
proof -
  note p = put_artifacts_ok [OF assms]
  show "ds = base_descriptors (\<lambda>k. part_blob (C k)) kid" using p by (simp add: part_blobs_def base_descriptors_def)
  have "(k, part_blob (C k)) \<in> set (part_blobs C)" by (simp add: part_blobs_def)
  then show "dget objs' (sha256 (part_blob (C k))) = Some (part_blob (C k))" using p by blast
  show "dget objs d = Some b \<Longrightarrow> dget objs' d = Some b" using p by blast
qed

lemma serialized_fits:
  assumes s: "em_serialize m key = Some blob"
    and dg: "length (em_parent_manifest_digest m) = 32" "seq_ok (em_base_seq m)" "seq_ok (em_read_seq m)"
    and par: "0 \<le> em_parent_generation_id m" "em_parent_generation_id m < em_generation_id m" "em_parent_manifest_digest m \<noteq> ZERO32"
    and ds: "em_base_descriptors m = base_descriptors B kid" and sg: "length (em_segments m) \<le> 2 ^ 20" "\<forall>s \<in> set (em_segments m). seg_fits s"
  shows "manifest_fits m"
proof -
  obtain h where h: "struct_pack MAN_HEADER (header_row m) = Some h"
    and rows: "\<exists>b. pack_rows MAN_DESC (map (\<lambda>k. desc_row k (the (dget (em_base_descriptors m) k))) BASE_KINDS) = Some b"
    using s by (auto simp: em_serialize_def em_body_def simp del: struct_pack.simps split: if_splits option.splits)
  have hf: "list_all2 fits MAN_HEADER (header_row m)"
    by (rule fits_packed [OF h]) (auto simp: header_row_def MANIFEST_MAGIC_def nth_Cons split: nat.splits)
  have df: "desc_fits k (make_descriptor k (B k) True kid)" for k
  proof -
    have "desc_row k (make_descriptor k (B k) True kid)
        \<in> set (map (\<lambda>k. desc_row k (the (dget (em_base_descriptors m) k))) BASE_KINDS)"
      by (simp add: ds)
    then obtain c where c: "struct_pack MAN_DESC (desc_row k (make_descriptor k (B k) True kid)) = Some c"
      using rows pack_rows_each by blast
    have "list_all2 fits MAN_DESC (desc_row k (make_descriptor k (B k) True kid))"
      by (rule fits_packed [OF c]) (auto simp: desc_row_def make_descriptor_def nth_Cons split: nat.splits)
    then show ?thesis by (cases k) (auto simp: desc_row_def make_descriptor_def desc_fits_def u32_def)
  qed
  show ?thesis
    using hf dg par sg df unfolding manifest_fits_def ds dget_base_descriptors by (auto simp: header_row_def u32_def)
qed

text \<open>A package that was written.\<close>

lemma write_prepared:
  assumes "write_compaction c key blobs n objs ws wlim lease held sc = (CxRet (CompactionResult CP_PREPARED (Some p)), objs', ws', held')"
  obtains base_desc header lease' blob where
    "put_artifacts objs blobs (em_key_id (pc_manifest c)) (px_puts sc) = (Inr base_desc, objs')"
    "encode_segment_header key (em_scope_id (pc_manifest c)) (sd_segment_id (pc_active c) + 1) (pc_read_seq c + 1)
       (em_key_id (pc_manifest c)) STATE_ACTIVE ZERO16 = Some header"
    "create_next_active ws (em_scope_id (pc_manifest c), sd_segment_id (pc_active c) + 1) header wlim sc = (CxRet True, ws')"
    "em_serialize (compaction_candidate c n base_desc
       (next_active_descriptor (sd_segment_id (pc_active c) + 1) (pc_read_seq c) header (em_key_id (pc_manifest c)))) key = Some blob"
    "lease_transfer lease OWNED_BY_COMPACTION_PREPARED held = Some (lease', held')"
    "seal_compaction c base_desc
       (next_active_descriptor (sd_segment_id (pc_active c) + 1) (pc_read_seq c) header (em_key_id (pc_manifest c))) blob lease' = Some p"
proof -
  note b1 = assms [unfolded write_compaction_def Let_def]
  have lk: "\<not> \<not> px_lock_ok sc" using b1 by (auto split: if_splits)
  note b2 = b1 [unfolded if_not_P [OF lk]]
  obtain base_desc objs1 where pa: "put_artifacts objs blobs (em_key_id (pc_manifest c)) (px_puts sc) = (Inr base_desc, objs1)"
    using b2 by (cases "put_artifacts objs blobs (em_key_id (pc_manifest c)) (px_puts sc)") (auto split: sum.splits)
  note b3 = b2 [unfolded pa prod.case sum.case]
  have kb: "\<not> px_kill_base sc" using b3 by (auto split: if_splits)
  note b4 = b3 [unfolded if_not_P [OF kb]]
  obtain header where he: "encode_segment_header key (em_scope_id (pc_manifest c)) (sd_segment_id (pc_active c) + 1) (pc_read_seq c + 1)
       (em_key_id (pc_manifest c)) STATE_ACTIVE ZERO16 = Some header"
    using b4 by (auto split: option.splits)
  note b5 = b4 [unfolded he option.case]
  obtain ws1 where cn: "create_next_active ws (em_scope_id (pc_manifest c), sd_segment_id (pc_active c) + 1) header wlim sc = (CxRet True, ws1)"
    using b5 by (auto split: prod.splits compaction_out.splits bool.splits)
  note b6 = b5 [unfolded cn prod.case compaction_out.case bool.case]
  let ?na = "next_active_descriptor (sd_segment_id (pc_active c) + 1) (pc_read_seq c) header (em_key_id (pc_manifest c))"
  obtain blob where bl: "em_serialize (compaction_candidate c n base_desc ?na) key = Some blob" using b6 by (auto split: option.splits)
  note b7 = b6 [unfolded bl option.case]
  have km: "\<not> px_kill_manifest sc" using b7 by (auto split: if_splits)
  note b8 = b7 [unfolded if_not_P [OF km]]
  obtain lease' held1 where lt: "lease_transfer lease OWNED_BY_COMPACTION_PREPARED held = Some (lease', held1)"
    using b8 by (auto split: option.splits prod.splits)
  note b9 = b8 [unfolded lt option.case prod.case]
  obtain q where sl: "seal_compaction c base_desc ?na blob lease' = Some q" using b9 by (auto split: option.splits)
  note b10 = b9 [unfolded sl option.case]
  have "q = p" "objs1 = objs'" "ws1 = ws'" "held1 = held'" using b10 by (auto split: if_splits)
  then show ?thesis using that pa he cn bl lt sl by blast
qed

text \<open>A prepared package, with everything that led to it.\<close>

lemma prepared_inv:
  assumes "prepare_compaction env w objs ws wlim ret held sc = (CxRet (CompactionResult CP_PREPARED (Some p)), w', objs', ws', held')"
  obtains snapshot lease c key h facts blobs n base_desc header lease' blob where
    "detach_compaction w held = (Some (snapshot, Some lease), w')" "pw_cursor w' = Some c"
    "validate_compaction_input c (Some lease) (em_scope_id (pc_manifest c)) (pc_read_seq c)" "validate_post_drain_state snapshot c"
    "dget (pe_keyring env) (em_key_id (pc_manifest c)) = Some key" "em_generation_id (pc_manifest c) + 1 \<le> U32_MAX"
    "sd_segment_id (pc_active c) + 1 \<le> U32_MAX" "pc_read_seq c + 1 < MAX_SEQ"
    "open_generation (recovery_gen_env env DEFAULT_GENERATION_LIMITS objs ws) (Some (pc_manifest_blob c)) = Inr (G_VALID, Some h)"
    "materialize_state h = Inr facts"
    "build_base_artifacts (ge_np (pe_gen env)) facts (Some (gh_dedup h)) (gh_txindex h) (em_scope_id (pc_manifest c))
       (em_generation_id (pc_manifest c) + 1) (pc_read_seq c) ret key = Inr (CP_PREPARED, blobs, n)"
    "put_artifacts objs blobs (em_key_id (pc_manifest c)) (px_puts sc) = (Inr base_desc, objs')"
    "encode_segment_header key (em_scope_id (pc_manifest c)) (sd_segment_id (pc_active c) + 1) (pc_read_seq c + 1)
       (em_key_id (pc_manifest c)) STATE_ACTIVE ZERO16 = Some header"
    "create_next_active ws (em_scope_id (pc_manifest c), sd_segment_id (pc_active c) + 1) header wlim sc = (CxRet True, ws')"
    "em_serialize (compaction_candidate c n base_desc
       (next_active_descriptor (sd_segment_id (pc_active c) + 1) (pc_read_seq c) header (em_key_id (pc_manifest c)))) key = Some blob"
    "lease_transfer lease OWNED_BY_COMPACTION_PREPARED held = Some (lease', held')"
    "seal_compaction c base_desc
       (next_active_descriptor (sd_segment_id (pc_active c) + 1) (pc_read_seq c) header (em_key_id (pc_manifest c))) blob lease' = Some p"
proof -
  obtain snapshot ol w1 where d: "detach_compaction w held = (Some (snapshot, ol), w1)"
    using assms unfolding prepare_compaction_def by (auto split: prod.splits option.splits)
  note a1 = assms [unfolded prepare_compaction_def d prod.case option.case Let_def]
  obtain c where c: "pw_cursor w1 = Some c" using a1 by (cases "pw_cursor w1") auto
  note a2 = a1 [unfolded c option.case]
  have v: "validate_compaction_input c ol (em_scope_id (pc_manifest c)) (pc_read_seq c)" "validate_post_drain_state snapshot c"
    using a2 by (auto split: if_splits)
  then have nv: "\<not> \<not> validate_compaction_input c ol (em_scope_id (pc_manifest c)) (pc_read_seq c)"
    "\<not> \<not> validate_post_drain_state snapshot c" by blast+
  note a3 = a2 [unfolded if_not_P [OF nv(1)] if_not_P [OF nv(2)]]
  obtain key where k: "dget (pe_keyring env) (em_key_id (pc_manifest c)) = Some key"
    using a3 by (cases "dget (pe_keyring env) (em_key_id (pc_manifest c))") auto
  note a4 = a3 [unfolded k option.case]
  have b: "\<not> (em_generation_id (pc_manifest c) + 1 > U32_MAX \<or> sd_segment_id (pc_active c) + 1 > U32_MAX \<or> pc_read_seq c + 1 \<ge> MAX_SEQ)"
    using a4 by (auto split: if_splits)
  note a5 = a4 [unfolded if_not_P [OF b]]
  let ?og = "open_generation (recovery_gen_env env DEFAULT_GENERATION_LIMITS objs ws) (Some (pc_manifest_blob c))"
  obtain og oh where og: "?og = Inr (og, oh)" using a5 by (cases ?og) auto
  note a6 = a5 [unfolded og sum.case prod.case]
  have gv: "og = G_VALID" using a6 by (auto split: if_splits)
  obtain h where h: "oh = Some h" using open_generation_handle og gv by (cases oh) auto
  have ng: "\<not> G_VALID \<noteq> G_VALID" by simp
  note a7 = a6 [unfolded gv if_not_P [OF ng] h option.sel]
  obtain facts where f: "materialize_state h = Inr facts" using a7 by (cases "materialize_state h") auto
  note a8 = a7 [unfolded f sum.case]
  have nl: "\<not> length facts > gl_max_total_frames DEFAULT_GENERATION_LIMITS" using a8 by (auto split: if_splits)
  note a9 = a8 [unfolded if_not_P [OF nl]]
  let ?bb = "build_base_artifacts (ge_np (pe_gen env)) facts (Some (gh_dedup h)) (gh_txindex h) (em_scope_id (pc_manifest c))
       (em_generation_id (pc_manifest c) + 1) (pc_read_seq c) ret key"
  obtain st blobs n where bb: "?bb = Inr (st, blobs, n)" using a9 by (cases ?bb) auto
  note a10 = a9 [unfolded bb sum.case prod.case]
  have st: "st = CP_PREPARED" using a10 by (auto split: if_splits)
  have np: "\<not> CP_PREPARED \<noteq> CP_PREPARED" by simp
  note a11 = a10 [unfolded st if_not_P [OF np]]
  obtain lease where l: "ol = Some lease" using v(1) by (cases ol) (auto simp: validate_compaction_input_def split: if_splits)
  have wc: "write_compaction c key blobs n objs ws wlim lease held sc = (CxRet (CompactionResult CP_PREPARED (Some p)), objs', ws', held')"
    and w': "w' = w1"
    using a11 unfolding l option.sel by (auto split: prod.splits)
  show ?thesis
    by (rule write_prepared [OF wc], rule that [OF d [folded w', unfolded l] c [folded w'] v(1) [unfolded l] v(2) k _ _ _
        og [unfolded gv h] f bb [unfolded st]]) (use b in auto)
qed

subsection \<open>The generation of a prepared package\<close>

lemma published_cursor_proof:
  assumes o: "open_published_cursor env st f = PRet (CS_VALID, Some c)" and z: "dget (pd_objects st) ZERO32 = None"
  shows "length (pp_manifest_sha256 (pc_proof c)) = 32" "pp_manifest_sha256 (pc_proof c) \<noteq> ZERO32"
proof -
  obtain cp where cp: "cursor_of_pointer env st cp = (CS_VALID, Some c)" using open_cursor_valid [OF o] by blast
  obtain r where r: "open_manifest_object env (pd_objects st) (pub_manifest_sha256 r) = Some (pc_manifest_blob c, pc_manifest c)"
    "sha256 (pc_manifest_blob c) = pub_manifest_sha256 r" "pc_proof c = proof_from r (cp_publication_sha256 cp) (pc_active c)"
    by (rule cursor_of_pointer_valid [OF cp]) blast
  have "dget (pd_objects st) (pub_manifest_sha256 r) \<noteq> None"
    using r(1) by (auto simp: open_manifest_object_def get_limited_def Let_def split: option.splits if_splits)
  then have "pub_manifest_sha256 r \<noteq> ZERO32" using z by metis
  moreover have "length (pub_manifest_sha256 r) = 32" unfolding r(2) [symmetric] by simp
  ultimately show "length (pp_manifest_sha256 (pc_proof c)) = 32" "pp_manifest_sha256 (pc_proof c) \<noteq> ZERO32"
    by (simp_all add: r(3) proof_from_def)
qed

text \<open>The ACTIVE segment of the candidate.\<close>

definition next_seg_id :: "published_cursor \<Rightarrow> seg_id" where
  "next_seg_id c = \<lparr>sg_scope = em_scope_id (pc_manifest c), sg_segment = sd_segment_id (pc_active c) + 1,
     sg_first = pc_read_seq c + 1, sg_key_id = em_key_id (pc_manifest c), sg_prev = ZERO16\<rparr>"

lemma next_seg_ok:
  assumes "cursor_ok c" "sd_segment_id (pc_active c) + 1 \<le> U32_MAX" "pc_read_seq c + 1 < MAX_SEQ"
  shows "seg_id_ok (next_seg_id c)"
proof -
  have "pc_active c \<in> set (em_segments (pc_manifest c))" using assms(1) by (auto simp: cursor_ok_def)
  then have "seg_fits (pc_active c)" using assms(1) by (auto simp: cursor_ok_def manifest_fits_def)
  then have "0 \<le> sd_segment_id (pc_active c)" by (simp add: seg_fits_def seg_row_def)
  then show ?thesis
    using assms by (auto simp: seg_id_ok_def next_seg_id_def cursor_ok_def manifest_fits_def u32_def seq_ok_def)
qed

lemma next_active_fresh:
  assumes "seg_id_ok (next_seg_id c)"
    "encode_segment_header key (em_scope_id (pc_manifest c)) (sd_segment_id (pc_active c) + 1) (pc_read_seq c + 1)
       (em_key_id (pc_manifest c)) STATE_ACTIVE ZERO16 = Some header"
  shows "header = wal_image key (next_seg_id c) []"
    "next_active_descriptor (sd_segment_id (pc_active c) + 1) (pc_read_seq c) header (em_key_id (pc_manifest c))
      = fresh_segment key (next_seg_id c)"
proof -
  show h: "header = wal_image key (next_seg_id c) []"
    using assms(2) by (simp add: wal_image_def frames_bytes_def header_bytes_def next_seg_id_def)
  show "next_active_descriptor (sd_segment_id (pc_active c) + 1) (pc_read_seq c) header (em_key_id (pc_manifest c))
      = fresh_segment key (next_seg_id c)"
    unfolding h by (simp add: next_active_descriptor_def fresh_segment_def) (simp add: next_seg_id_def)
qed

text \<open>The sizes that fit the layout of the retry memory.\<close>

definition memory_fits :: "generation_handle \<Rightarrow> bool" where
  "memory_fits h \<longleftrightarrow> dt_entry_count (gh_dedup h) + length (gh_txindex h) < 2 ^ 32 \<and>
     dt_client_count (gh_dedup h) + length (gh_txindex h) < 2 ^ 32"

text \<open>What the cursor and its generation give; a cursor that a store opened has the first part.\<close>

definition sealed_source :: "pub_env \<Rightarrow> published_cursor \<Rightarrow> bool" where
  "sealed_source env c \<longleftrightarrow> cursor_ok c \<and> parse_manifest (Some (pc_manifest_blob c)) (pe_keyring env) = (G_VALID, Some (pc_manifest c)) \<and>
     length (pp_manifest_sha256 (pc_proof c)) = 32 \<and> pp_manifest_sha256 (pc_proof c) \<noteq> ZERO32"

lemma opened_sealed_source:
  assumes "open_published_cursor env st f = PRet (CS_VALID, Some c)" "dget (pd_objects st) ZERO32 = None"
  shows "sealed_source env c"
  using opened_cursor_ok(1,3) [OF assms(1)] published_cursor_proof [OF assms] by (simp add: sealed_source_def)

definition compaction_source :: "pub_env \<Rightarrow> object_store \<Rightarrow> wal_store \<Rightarrow> published_cursor \<Rightarrow> generation_handle \<Rightarrow> bool" where
  "compaction_source env objs ws c h \<longleftrightarrow> numpy_bits (ge_np (pe_gen env)) \<and> sealed_source env c \<and>
     open_generation (recovery_gen_env env DEFAULT_GENERATION_LIMITS objs ws) (Some (pc_manifest_blob c)) = Inr (G_VALID, Some h) \<and>
     memory_fits h"

lemma source_parts:
  assumes s: "compaction_source env objs ws c h"
  obtains r b f t frs hist where "cursor_ok c"
    "generation_parts (recovery_gen_env env DEFAULT_GENERATION_LIMITS objs ws) (pc_manifest c) r b f t (gh_dedup h) frs hist h"
    "gh_scope_id h = em_scope_id (pc_manifest c)" "gh_generation_id h = em_generation_id (pc_manifest c)"
    "gh_read_seq h = pc_read_seq c" "seq_ok (em_base_seq (pc_manifest c))" "seq_ok (pc_read_seq c)"
proof -
  have n: "numpy_bits (ge_np (recovery_gen_env env DEFAULT_GENERATION_LIMITS objs ws))"
    and og: "open_generation (recovery_gen_env env DEFAULT_GENERATION_LIMITS objs ws) (Some (pc_manifest_blob c)) = Inr (G_VALID, Some h)"
    and co: "cursor_ok c" and pm: "parse_manifest (Some (pc_manifest_blob c)) (pe_keyring env) = (G_VALID, Some (pc_manifest c))"
    using s by (simp_all add: compaction_source_def sealed_source_def recovery_gen_env_def)
  obtain m r b f t d frs hist where m: "parse_manifest (Some (pc_manifest_blob c)) (pe_keyring env) = (G_VALID, Some m)"
    and g: "generation_parts (recovery_gen_env env DEFAULT_GENERATION_LIMITS objs ws) m r b f t d frs hist h"
    using opened_is_generation [OF n og] by (auto simp: recovery_gen_env_def)
  have e: "m = pc_manifest c" using m pm by simp
  have d: "d = gh_dedup h" and ids: "gh_scope_id h = em_scope_id m" "gh_generation_id h = em_generation_id m" "gh_read_seq h = em_read_seq m"
    using g by (auto simp: generation_parts_def generation_of_def)
  show ?thesis
    using that [OF co g [unfolded e d]] ids co by (auto simp: e cursor_ok_def manifest_fits_def)
qed

text \<open>The version fence of a fact.\<close>

definition fact_version :: "generation_handle \<Rightarrow> int \<Rightarrow> int option" where
  "fact_version h fid =
     (case wi_get (gh_l0 h) fid of
        Some l \<Rightarrow> Some (fst l)
      | None \<Rightarrow> (case gb_registry (gh_bundle h) of None \<Rightarrow> None | Some r \<Rightarrow> map_option snd (reg_lookup r fid)))"

text \<open>A generation that answers as the compaction of another one.\<close>

definition compacted_from :: "generation_handle \<Rightarrow> int \<Rightarrow> generation_handle \<Rightarrow> bool" where
  "compacted_from h retention h' \<longleftrightarrow>
     gh_scope_id h' = gh_scope_id h \<and> gh_generation_id h' = gh_generation_id h + 1 \<and>
     gh_base_seq h' = gh_read_seq h \<and> gh_read_seq h' = gh_read_seq h \<and>
     (\<forall>fid. \<exists>a. read_fact h fid = Inr (Some a) \<and> read_fact h' fid = Inr (Some (compacted_read a)) \<and>
        (rr_status (compacted_read a) \<noteq> RNotFound \<longrightarrow> fact_version h' fid = fact_version h fid)) \<and>
     (\<forall>op. dget (gh_txindex h') op = None) \<and>
     (\<forall>op digest c x. split_opid op = Some (c, x) \<longrightarrow>
        dt_probe (gh_dedup h') op digest = Inr (merged_probe h retention op digest c x))"

definition compacted_base ::
  "pub_env \<Rightarrow> published_cursor \<Rightarrow> generation_handle \<Rightarrow> int \<Rightarrow> (int, vline) pydict \<Rightarrow> bytes
     \<Rightarrow> fact_registry \<Rightarrow> bulk_snapshot \<Rightarrow> residual_field \<Rightarrow> tombstone_layer \<Rightarrow> dedup_table \<Rightarrow> bool" where
  "compacted_base env c h ret facts key r b f t d \<longleftrightarrow>
     build_base_artifacts (ge_np (pe_gen env)) facts (Some (gh_dedup h)) (gh_txindex h) (em_scope_id (pc_manifest c))
       (em_generation_id (pc_manifest c) + 1) (pc_read_seq c) ret key = Inr (CP_PREPARED, part_blobs (five r b f t d), int (length facts)) \<and>
     bm_ok (compacted_model facts) \<and> bm_fact_count (compacted_model facts) = int (length facts) \<and>
     bm_parts (compacted_model facts) (em_scope_id (pc_manifest c)) (em_generation_id (pc_manifest c) + 1) r b f t \<and>
     (\<forall>k. parse_artifact (ge_np (pe_gen env)) k (part_blob (five r b f t d k)) key = Inr (five r b f t d k)) \<and>
     dt_scope_id d = em_scope_id (pc_manifest c) \<and> dt_generation_id d = em_generation_id (pc_manifest c) + 1 \<and>
     dt_dedup_through_seq d = pc_read_seq c \<and> dt_entry_count d \<le> dt_entry_count (gh_dedup h) + length (gh_txindex h) \<and>
     dt_client_count d \<le> dt_client_count (gh_dedup h) + length (gh_txindex h) \<and>
     (\<forall>fid. \<exists>a. read_fact h fid = Inr (Some a) \<and> bm_answer (compacted_model facts) fid = compacted_read a \<and>
        (rr_status (compacted_read a) \<noteq> RNotFound \<longrightarrow> map_option snd (dget (bm_registry (compacted_model facts)) fid) = fact_version h fid)) \<and>
     (\<forall>op digest cl x. split_opid op = Some (cl, x) \<longrightarrow> dt_probe d op digest = Inr (merged_probe h ret op digest cl x))"

lemma source_builds:
  assumes s: "compaction_source env objs ws c h" and f: "materialize_state h = Inr facts"
    and u: "\<forall>(fid, line) \<in> set facts. u8_line line" and n: "int (length facts) \<le> MAX_REGISTRY_ENTRIES"
    and g: "em_generation_id (pc_manifest c) + 1 \<le> U32_MAX" "ret < 2 ^ 32"
  shows "\<exists>r b f t d. compacted_base env c h ret facts key r b f t d"
proof -
  let ?sc = "em_scope_id (pc_manifest c)" and ?gn = "em_generation_id (pc_manifest c) + 1"
  have np: "numpy_bits (ge_np (pe_gen env))" using s by (simp add: compaction_source_def)
  then have np': "numpy_bits (ge_np (recovery_gen_env env DEFAULT_GENERATION_LIMITS objs ws))" by (simp add: recovery_gen_env_def)
  obtain r0 b0 f0 t0 frs hist where co: "cursor_ok c"
    and gp: "generation_parts (recovery_gen_env env DEFAULT_GENERATION_LIMITS objs ws) (pc_manifest c) r0 b0 f0 t0 (gh_dedup h) frs hist h"
    and q: "seq_ok (em_base_seq (pc_manifest c))" "seq_ok (pc_read_seq c)"
    by (rule source_parts [OF s])
  let ?A = "generation_answer r0 b0 f0 t0 (fst hist)"
  have R: "em_read_seq (pc_manifest c) = pc_read_seq c" using co by (simp add: cursor_ok_def)
  obtain facts' where f': "materialize_state h = Inr facts'" "distinct (dkeys facts')" "dget facts' = materialized_line r0 (fst hist) ?A"
    using materialize_state_spec [OF np' gp] by blast
  then have fs: "distinct (dkeys facts)" "dget facts = materialized_line r0 (fst hist) ?A" using f by auto
  have fo: "facts_ok facts" by (rule materialized_facts_ok [OF gp fs u n])
  have ids: "u32 ?sc" "u32 ?gn" using co g by (auto simp: cursor_ok_def manifest_fits_def u32_def)
  have "\<exists>b k. dt_open b k = Inr (gh_dedup h)" using s unfolding compaction_source_def by (blast dest: opened_dedup)
  then obtain b' k' where od: "dt_open b' k' = Inr (gh_dedup h)" by blast
  obtain d where d: "merge_dedup (Some (gh_dedup h)) (gh_txindex h) ?sc ?gn (pc_read_seq c) ret key = MergeOk (dt_blob d)"
    "dt_open (dt_blob d) key = Inr d" "dt_scope_id d = ?sc" "dt_generation_id d = ?gn" "dt_dedup_through_seq d = pc_read_seq c"
    "dt_entry_count d \<le> dt_entry_count (gh_dedup h) + length (gh_txindex h)"
    "dt_client_count d \<le> dt_client_count (gh_dedup h) + length (gh_txindex h)"
    "\<forall>op digest cl x. split_opid op = Some (cl, x) \<longrightarrow> dt_probe d op digest = Inr (merged_probe h ret op digest cl x)"
    using merge_generation [OF gp od _ _ ids g(2), of key, unfolded R] q s
    by (auto simp: seq_ok_def compaction_source_def memory_fits_def)
  obtain r b f t where bb: "build_base_artifacts (ge_np (pe_gen env)) facts (Some (gh_dedup h)) (gh_txindex h) ?sc ?gn (pc_read_seq c) ret key
      = Inr (CP_PREPARED, part_blobs (five r b f t d), int (length facts))" "bm_parts (compacted_model facts) ?sc ?gn r b f t"
    "\<forall>k. parse_artifact (ge_np (pe_gen env)) k (part_blob (five r b f t d k)) key = Inr (five r b f t d k)"
    using numpy_bits.build_base_succeeds [OF np fo ids d(1,2)] by blast
  have an: "bm_answer (compacted_model facts) fid = compacted_read (?A fid)" for fid by (rule compacted_answers [OF gp fo fs(2)])
  have ve: "map_option snd (dget (bm_registry (compacted_model facts)) fid) = fact_version h fid"
    if "rr_status (compacted_read (?A fid)) \<noteq> RNotFound" for fid
  proof -
    have "wi_get (gh_l0 h) = fst hist" "gb_registry (gh_bundle h) = Some r0"
      using gp by (simp_all add: generation_parts_def generation_of_def base_bundle_def)
    then show ?thesis
      using that unfolding compacted_model_answer(2) [OF fo] fs(2)
      by (auto simp: fact_version_def materialized_line_def line_of_read_def compacted_read_def generation_answer_def
          split: option.splits if_splits)
  qed
  have "bm_fact_count (compacted_model facts) = int (length facts)" using compacted_rows(3,7) [OF fs(1)] by simp
  then have "compacted_base env c h ret facts key r b f t d"
    unfolding compacted_base_def using bb d(3-8) compacted_model_ok [OF fo] an ve generation_reads [OF np' gp] by blast
  then show ?thesis by blast
qed

subsection \<open>The candidate of a prepared package\<close>

lemma fresh_compacted:
  assumes b: "compacted_base env c h ret facts key r b f t d" and n: "numpy_bits (ge_np e)"
    and h: "gh_scope_id h = em_scope_id (pc_manifest c)" "gh_generation_id h = em_generation_id (pc_manifest c)"
      "gh_read_seq h = pc_read_seq c"
    and m: "em_scope_id m = em_scope_id (pc_manifest c)" "em_generation_id m = em_generation_id (pc_manifest c) + 1"
      "em_base_seq m = pc_read_seq c" "em_read_seq m = pc_read_seq c"
    and g: "generation_parts e m r b f t d [] history0 h'"
  shows "compacted_from h ret h'"
proof -
  let ?mdl = "compacted_model facts"
  have go: "generation_of m r b f t d history0 h'" and v: "opened_base r b f t" using g by (simp_all add: generation_parts_def)
  have mp: "bm_ok ?mdl" "bm_parts ?mdl (em_scope_id m) (em_generation_id m) r b f t"
    using b by (simp_all add: compacted_base_def m)
  have l0: "wi_get (gh_l0 h') fid = None" "tx_get_seq (gh_txindex h') op = None" for fid op
    using go by (simp_all add: generation_of_def history0_def)
  have rd: "read_fact h' fid = Inr (Some (bm_answer ?mdl fid))" for fid
    using numpy_bits.bm_reads [OF n mp, of "handle_view h'" "wi_get (gh_l0 h')" fid] go l0
    by (simp add: read_fact_def generation_of_def handle_view_def)
  have ve: "fact_version h' fid = map_option snd (dget (bm_registry ?mdl) fid)" for fid
    using go mp(2) l0(1) [of fid] by (simp add: fact_version_def generation_of_def base_bundle_def bm_parts_def)
  have "dget (gh_txindex h') op = None" for op using l0(2) [of op] by (simp add: tx_get_seq_def)
  then show ?thesis
    using b go unfolding compacted_from_def compacted_base_def rd ve h
    by (auto simp: generation_of_def m)
qed

lemma prepared_blob: "seal_compaction c ds na blob l = Some p \<Longrightarrow> cm_candidate_blob p = blob"
  by (auto simp: seal_compaction_def)

lemma candidate_fits:
  assumes co: "sealed_source env c" and sg: "seg_id_ok (next_seg_id c)" and q: "seq_ok (pc_read_seq c)"
    and e: "em_serialize (compaction_candidate c n (base_descriptors B kid) (fresh_segment key (next_seg_id c))) key = Some blob"
  shows "manifest_fits (compaction_candidate c n (base_descriptors B kid) (fresh_segment key (next_seg_id c)))"
proof -
  have "0 \<le> em_generation_id (pc_manifest c)" using co by (simp add: sealed_source_def cursor_ok_def manifest_fits_def u32_def)
  then show ?thesis
    using co q by (intro serialized_fits [OF e]) (auto simp: compaction_candidate_def sealed_source_def fresh_segment_fits [OF sg])
qed

lemma prepared_compacted:
  assumes r: "prepare_compaction env w objs ws wlim ret held sc = (CxRet (CompactionResult CP_PREPARED (Some p)), w', objs', ws', held')"
    and c: "pw_cursor w' = Some c" and s: "compaction_source env objs ws c h" and ret: "ret < 2 ^ 32"
    and g: "\<And>d b. dget objs' d = Some b \<Longrightarrow> dget objs2 d = Some b"
    and o: "open_generation (recovery_gen_env env lim objs2 ws2) (Some (cm_candidate_blob p)) = Inr (G_VALID, Some h')"
  shows "compacted_from h ret h'"
proof (rule prepared_inv [OF r])
  fix snapshot lease and c1 :: published_cursor and key h1 facts blobs n base_desc header lease' blob
  let ?man = "pc_manifest c1" let ?na = "next_active_descriptor (sd_segment_id (pc_active c1) + 1) (pc_read_seq c1) header (em_key_id ?man)"
  assume c1: "pw_cursor w' = Some c1"
    and key: "dget (pe_keyring env) (em_key_id ?man) = Some key"
    and u: "em_generation_id ?man + 1 \<le> U32_MAX" "sd_segment_id (pc_active c1) + 1 \<le> U32_MAX" "pc_read_seq c1 + 1 < MAX_SEQ"
    and og: "open_generation (recovery_gen_env env DEFAULT_GENERATION_LIMITS objs ws) (Some (pc_manifest_blob c1)) = Inr (G_VALID, Some h1)"
    and f: "materialize_state h1 = Inr facts"
    and bb: "build_base_artifacts (ge_np (pe_gen env)) facts (Some (gh_dedup h1)) (gh_txindex h1) (em_scope_id ?man)
       (em_generation_id ?man + 1) (pc_read_seq c1) ret key = Inr (CP_PREPARED, blobs, n)"
    and pa: "put_artifacts objs blobs (em_key_id ?man) (px_puts sc) = (Inr base_desc, objs')"
    and he: "encode_segment_header key (em_scope_id ?man) (sd_segment_id (pc_active c1) + 1) (pc_read_seq c1 + 1)
       (em_key_id ?man) STATE_ACTIVE ZERO16 = Some header"
    and em: "em_serialize (compaction_candidate c1 n base_desc ?na) key = Some blob"
    and sl: "seal_compaction c1 base_desc ?na blob lease' = Some p"
  have cc: "c1 = c" using c c1 by simp
  have hh: "h1 = h" using og s by (simp add: cc compaction_source_def)
  have np: "numpy_bits (ge_np (pe_gen env))" and ss: "sealed_source env c" using s by (simp_all add: compaction_source_def)
  obtain r0 b0 f0 t0 frs hist where co: "cursor_ok c"
    and gp: "generation_parts (recovery_gen_env env DEFAULT_GENERATION_LIMITS objs ws) (pc_manifest c) r0 b0 f0 t0 (gh_dedup h) frs hist h"
    and ids: "gh_scope_id h = em_scope_id (pc_manifest c)" "gh_generation_id h = em_generation_id (pc_manifest c)"
      "gh_read_seq h = pc_read_seq c" and q: "seq_ok (em_base_seq (pc_manifest c))" "seq_ok (pc_read_seq c)"
    by (rule source_parts [OF s])
  have "numpy_bits (ge_np (recovery_gen_env env DEFAULT_GENERATION_LIMITS objs ws))" using np by (simp add: recovery_gen_env_def)
  from materialize_state_spec [OF this gp] have ds: "distinct (dkeys facts)" using f by (auto simp: hh)
  note bp = build_base_prepared [OF bb]
  have len: "int (length facts) \<le> MAX_REGISTRY_ENTRIES"
    using bp(2) reg_build_count compacted_rows(3,4) [OF ds] by fastforce
  obtain r1 b1 f1 t1 d1 where cb: "compacted_base env c h ret facts key r1 b1 f1 t1 d1"
    using source_builds [OF s f [unfolded hh] bp(1) len u(1) [unfolded cc] ret] by blast
  define C where "C = five r1 b1 f1 t1 d1"
  have bl: "blobs = part_blobs C" "n = int (length facts)"
    using bb cb by (simp_all add: compacted_base_def C_def cc hh)
  note pp = put_part_blobs [OF pa [unfolded bl]]
  have sg: "seg_id_ok (next_seg_id c)" by (rule next_seg_ok [OF co u(2,3) [unfolded cc]])
  note nf = next_active_fresh [OF sg he [unfolded cc]]
  define m where "m = compaction_candidate c n base_desc (fresh_segment key (next_seg_id c))"
  have em': "em_serialize m key = Some blob" using em nf(2) by (simp add: m_def cc)
  have fits: "manifest_fits m" using candidate_fits [OF ss sg q(2)] em' by (simp add: m_def pp(1) cc)
  have m: "em_scope_id m = em_scope_id (pc_manifest c)" "em_generation_id m = em_generation_id (pc_manifest c) + 1"
      "em_base_seq m = pc_read_seq c" "em_read_seq m = pc_read_seq c" "em_key_id m = em_key_id (pc_manifest c)"
      "em_base_descriptors m = base_descriptors (\<lambda>k. part_blob (C k)) (em_key_id (pc_manifest c))"
    by (simp_all add: m_def compaction_candidate_def pp(1) cc)
  let ?e = "recovery_gen_env env lim objs2 ws2"
  have kr: "dget (ge_keyring ?e) (em_key_id (pc_manifest c)) = Some key" and np': "numpy_bits (ge_np ?e)"
    using key np by (simp_all add: recovery_gen_env_def cc)
  have pm: "parse_manifest (Some blob) (ge_keyring ?e) = (G_VALID, Some m)"
    using em_serialize_parses [OF em' _ fits, of "ge_keyring ?e"] kr base_descriptors_order [OF m(6)] by (simp add: m(5))
  have st: "dget (ge_objects ?e) (sha256 (part_blob (C k))) = Some (part_blob (C k))"
    "parse_artifact (ge_np ?e) k (part_blob (C k)) key = Inr (C k)" for k
    using g [OF pp(2)] cb by (simp_all add: recovery_gen_env_def compacted_base_def C_def)
  have ob: "opened_base r1 b1 f1 t1" using cb by (simp add: compacted_base_def bm_parts_def)
  have "generation_parts ?e m r1 b1 f1 t1 d1 [] history0 h'"
    by (rule stored_generation_parts [OF np' pm m(6) kr st _ _ _ _ _ ob _ o [unfolded prepared_blob [OF sl]]])
      (simp_all add: C_def m)
  from fresh_compacted [OF cb np' ids m(1-4) this] show ?thesis .
qed

subsection \<open>What no outcome touches\<close>

lemma put_object_grows: "put_object objs blob f = (r, objs') \<Longrightarrow> dget objs d = Some b \<Longrightarrow> dget objs' d = Some b"
  by (auto simp: put_object_def Let_def dget_dput split: option.splits put_fault.splits if_splits)

lemma put_artifacts_grows: "put_artifacts objs bs kid fs = (x, objs') \<Longrightarrow> dget objs d = Some b \<Longrightarrow> dget objs' d = Some b"
proof (induction objs bs kid fs arbitrary: x objs' rule: put_artifacts.induct)
  case (2 objs k blob bs kid fs)
  obtain r objs1 where p: "put_object objs blob (case fs of [] \<Rightarrow> None | f # _ \<Rightarrow> f) = (r, objs1)" by fastforce
  have "dget objs1 d = Some b" by (rule put_object_grows [OF p "2.prems"(2)])
  then show ?case
    using "2.prems"(1) "2.IH" [OF p [symmetric]] by (auto simp: p split: put_result.splits prod.splits sum.splits)
qed simp

definition adds_file :: "wal_store \<Rightarrow> wal_identity \<Rightarrow> wal_store \<Rightarrow> bool" where
  "adds_file ws ident ws' \<longleftrightarrow>
     ws' = ws \<or> dget (ws_active ws) ident = None \<and> (\<exists>nd. ws' = ws\<lparr>ws_active := dput ident nd (ws_active ws)\<rparr>)"

lemma create_next_adds: "create_next_active ws ident header wlim sc = (x, ws') \<Longrightarrow> adds_file ws ident ws'"
proof -
  assume a: "create_next_active ws ident header wlim sc = (x, ws')"
  obtain y ws1 where c: "create_active ws ident header (px_create sc) = (y, ws1)" by fastforce
  have "ws' = ws1"
    using a by (cases y) (auto simp: create_next_active_def c split: prod.splits option.splits if_splits wal_store_state.splits)
  moreover have "adds_file ws ident ws1"
    using c by (auto simp: create_active_def adds_file_def split: if_splits prod.splits wal_store_state.splits option.splits create_fault.splits)
  ultimately show ?thesis by simp
qed

text \<open>The lock of the scope at the end of a call that held the lease \<open>l\<close>: released with every status
  but \<open>PREPARED\<close>, kept in the package, and still held by a lease nobody has after an exception.\<close>

definition lease_outcome ::
  "scope_lease \<Rightarrow> scope_locks \<Rightarrow> scope_locks \<Rightarrow> compaction_result compaction_out \<Rightarrow> bool" where
  "lease_outcome l held held' out =
     (case out of
        CxRet res \<Rightarrow>
          (case cr_prepared res of
             None \<Rightarrow> cr_state res \<noteq> CP_PREPARED \<and> held' = held(le_scope_id l := False)
           | Some p \<Rightarrow> cr_state res = CP_PREPARED \<and> held' = held \<and> cm_seal p \<and>
               cm_lease p = Some (l\<lparr>le_state := OWNED_BY_COMPACTION_PREPARED\<rparr>))
      | _ \<Rightarrow> held' = held)"

lemma write_keeps:
  assumes w: "write_compaction c key blobs n objs ws wlim l held sc = (out, objs', ws', held')" and l: "le_state l \<noteq> CLOSED"
  shows "\<forall>d b. dget objs d = Some b \<longrightarrow> dget objs' d = Some b"
    and "adds_file ws (em_scope_id (pc_manifest c), sd_segment_id (pc_active c) + 1) ws'"
    and "lease_outcome l held held' out"
proof -
  let ?pa = "put_artifacts objs blobs (em_key_id (pc_manifest c)) (px_puts sc)"
  obtain x objs1 where pa: "?pa = (x, objs1)" by fastforce
  have g: "\<forall>d b. dget objs d = Some b \<longrightarrow> dget objs1 d = Some b" using put_artifacts_grows [OF pa] by blast
  have k: "held' = held \<Longrightarrow> lease_outcome l held held' (CxRaise e)" "held' = held \<Longrightarrow> lease_outcome l held held' CxKilled" for e
    by (simp_all add: lease_outcome_def)
  have cl: "snd (lease_close l held) = held(le_scope_id l := False)" using l by (simp add: lease_close_def)
  have t: "lease_transfer l OWNED_BY_COMPACTION_PREPARED held = Some (l', held1) \<Longrightarrow>
      held1 = held \<and> l' = l\<lparr>le_state := OWNED_BY_COMPACTION_PREPARED\<rparr>" for l' held1
    by (auto simp: lease_transfer_def split: if_splits)
  have cl': "snd (lease_close (l\<lparr>le_state := OWNED_BY_COMPACTION_PREPARED\<rparr>) held) = held(le_scope_id l := False)"
    by (simp add: lease_close_def)
  have sl: "seal_compaction c ds na blob l' = Some p \<Longrightarrow> cm_lease p = Some l' \<and> cm_seal p" for ds na blob l' p
    by (auto simp: seal_compaction_def)
  note w1 = w [unfolded write_compaction_def Let_def pa prod.case]
  have "(objs' = objs \<or> objs' = objs1) \<and> adds_file ws (em_scope_id (pc_manifest c), sd_segment_id (pc_active c) + 1) ws' \<and>
    lease_outcome l held held' out"
  proof (cases "px_lock_ok sc")
    case False
    then show ?thesis using w1 k by (auto simp: adds_file_def)
  next
    case lk: True
    show ?thesis
    proof (cases x)
      case (Inl e)
      then show ?thesis using w1 k lk by (auto simp: adds_file_def)
    next
      case (Inr ds)
      let ?he = "encode_segment_header key (em_scope_id (pc_manifest c)) (sd_segment_id (pc_active c) + 1) (pc_read_seq c + 1)
         (em_key_id (pc_manifest c)) STATE_ACTIVE ZERO16"
      show ?thesis
      proof (cases "px_kill_base sc \<or> ?he = None")
        case True
        then show ?thesis using w1 k lk Inr by (auto simp: adds_file_def split: if_splits)
      next
        case False
        then obtain header where he: "?he = Some header" by blast
        obtain y ws1 where cn: "create_next_active ws (em_scope_id (pc_manifest c), sd_segment_id (pc_active c) + 1) header wlim sc = (y, ws1)"
          by fastforce
        note ad = create_next_adds [OF cn]
        have nl: "\<not> \<not> px_lock_ok sc" using lk by simp
        note w2 = w1 [unfolded if_not_P [OF nl] Inr sum.case he option.case cn prod.case]
        have nk: "\<not> px_kill_base sc" using False by blast
        note w3 = w2 [unfolded if_not_P [OF nk]]
        have "objs' = objs1 \<and> ws' = ws1 \<and> lease_outcome l held held' out"
        proof (cases y)
          case (CxRet b)
          show ?thesis
          proof (cases b)
            case False
            then show ?thesis using w3 by (auto simp: CxRet cl lease_outcome_def)
          next
            case True
            then have b: "b = True" by simp
            note w4 = w3 [unfolded CxRet compaction_out.case b bool.case]
            show ?thesis
              using w4 by (auto simp: k cl' lease_outcome_def dest: t dest!: sl split: option.splits prod.splits if_splits)
          qed
        qed (use w3 k in auto)
        then show ?thesis using ad by blast
      qed
    qed
  qed
  with g show "\<forall>d b. dget objs d = Some b \<longrightarrow> dget objs' d = Some b"
    "adds_file ws (em_scope_id (pc_manifest c), sd_segment_id (pc_active c) + 1) ws'" "lease_outcome l held held' out"
    by blast+
qed

definition compaction_keeps ::
  "('w, 't) pub_writer \<Rightarrow> ('w, 't) pub_writer \<Rightarrow> object_store \<Rightarrow> object_store \<Rightarrow> wal_store \<Rightarrow> wal_store \<Rightarrow> bool" where
  "compaction_keeps w w' objs objs' ws ws' \<longleftrightarrow>
     pw_store w' = pw_store w \<and> pw_cursor w' = pw_cursor w \<and> gs_file (pw_gc w') = gs_file (pw_gc w) \<and>
     gs_snapshot (pw_gc w') = gs_snapshot (pw_gc w) \<and> (\<forall>d b. dget objs d = Some b \<longrightarrow> dget objs' d = Some b) \<and>
     (ws' = ws \<or> (\<exists>c. pw_cursor w = Some c \<and> adds_file ws (em_scope_id (pc_manifest c), sd_segment_id (pc_active c) + 1) ws'))"

lemma detach_keeps:
  assumes "detach_compaction w held = (x, w')"
  shows "pw_store w' = pw_store w" "pw_cursor w' = pw_cursor w" "gs_file (pw_gc w') = gs_file (pw_gc w)"
    "gs_snapshot (pw_gc w') = gs_snapshot (pw_gc w)" "x = Some (sn, Some l) \<Longrightarrow> le_state l = OWNED_BY_COMPACTION"
  using assms
  by (auto simp: detach_compaction_def gc_drained_def lease_transfer_def split: sum.splits option.splits prod.splits if_splits)

text \<open>A call fails with the lease closed, raises before it wrote anything, or comes to write.\<close>

lemma prepare_writes:
  assumes d: "detach_compaction w held = (Some (sn, ol), w1)"
    and r: "prepare_compaction env w objs ws wlim ret held sc = (out, w', objs', ws', held')"
    and nf: "\<And>s. s \<noteq> CP_PREPARED \<Longrightarrow> (CxRet (CompactionResult s None), w1, objs, ws,
       case ol of None \<Rightarrow> held | Some l \<Rightarrow> snd (lease_close l held)) \<noteq> (out, w', objs', ws', held')"
    and nx: "\<And>e. (CxRaise e, w1, objs, ws, held) \<noteq> (out, w', objs', ws', held')"
  shows "\<exists>c l key blobs n. ol = Some l \<and> pw_cursor w1 = Some c \<and> w' = w1 \<and>
    write_compaction c key blobs n objs ws wlim l held sc = (out, objs', ws', held')"
proof -
  note fails = nf [of CP_FAILED, simplified] nf [of CP_INCOMPATIBLE, simplified]
  note r1 = r [unfolded prepare_compaction_def d prod.case option.case Let_def]
  obtain c where c: "pw_cursor w1 = Some c" using r1 fails by (cases "pw_cursor w1") auto
  note r2 = r1 [unfolded c option.case]
  have nv: "\<not> \<not> validate_compaction_input c ol (em_scope_id (pc_manifest c)) (pc_read_seq c)"
    using r2 fails by (auto split: if_splits)
  then obtain l where l: "ol = Some l" by (cases ol) (auto simp: validate_compaction_input_def split: if_splits)
  note r3 = r2 [unfolded if_not_P [OF nv]]
  have nd: "\<not> \<not> validate_post_drain_state sn c" using r3 fails by (auto split: if_splits)
  note r4 = r3 [unfolded if_not_P [OF nd]]
  obtain key where k: "dget (pe_keyring env) (em_key_id (pc_manifest c)) = Some key"
    using r4 fails by (cases "dget (pe_keyring env) (em_key_id (pc_manifest c))") auto
  note r5 = r4 [unfolded k option.case]
  have b: "\<not> (em_generation_id (pc_manifest c) + 1 > U32_MAX \<or> sd_segment_id (pc_active c) + 1 > U32_MAX \<or> pc_read_seq c + 1 \<ge> MAX_SEQ)"
    using r5 fails by (auto split: if_splits)
  note r6 = r5 [unfolded if_not_P [OF b]]
  let ?og = "open_generation (recovery_gen_env env DEFAULT_GENERATION_LIMITS objs ws) (Some (pc_manifest_blob c))"
  obtain og oh where og: "?og = Inr (og, oh)" using r6 nx by (cases ?og) auto
  note r7 = r6 [unfolded og sum.case prod.case]
  have gv: "\<not> og \<noteq> G_VALID" using r7 fails by (auto split: if_splits)
  note r8 = r7 [unfolded if_not_P [OF gv]]
  obtain facts where f: "materialize_state (the oh) = Inr facts" using r8 nx by (cases "materialize_state (the oh)") auto
  note r9 = r8 [unfolded f sum.case]
  have nl: "\<not> length facts > gl_max_total_frames DEFAULT_GENERATION_LIMITS" using r9 fails by (auto split: if_splits)
  note r10 = r9 [unfolded if_not_P [OF nl]]
  let ?bb = "build_base_artifacts (ge_np (pe_gen env)) facts (Some (gh_dedup (the oh))) (gh_txindex (the oh)) (em_scope_id (pc_manifest c))
       (em_generation_id (pc_manifest c) + 1) (pc_read_seq c) ret key"
  obtain st blobs n where bb: "?bb = Inr (st, blobs, n)" using r10 nx by (cases ?bb) auto
  note r11 = r10 [unfolded bb sum.case prod.case]
  have np: "\<not> st \<noteq> CP_PREPARED" using r11 nf [of st] by (auto split: if_splits)
  note r12 = r11 [unfolded if_not_P [OF np] l option.sel]
  show ?thesis using l c r12 by (cases "write_compaction c key blobs n objs ws wlim l held sc") auto
qed

lemma prepare_keeps:
  assumes r: "prepare_compaction env w objs ws wlim ret held sc = (out, w', objs', ws', held')"
  shows "compaction_keeps w w' objs objs' ws ws'"
    and "detach_compaction w held = (Some (sn, Some l), w1) \<Longrightarrow> lease_outcome l held held' out"
proof -
  obtain x w2 where d: "detach_compaction w held = (x, w2)" by fastforce
  note dk = detach_keeps [OF d]
  have kept: "compaction_keeps w w2 objs objs ws ws" using dk(1-4) by (simp add: compaction_keeps_def)
  have both: "compaction_keeps w w' objs objs' ws ws' \<and> (\<forall>sn l. x = Some (sn, Some l) \<longrightarrow> lease_outcome l held held' out)"
  proof (cases x)
    case None
    then show ?thesis using r d kept by (auto simp: prepare_compaction_def)
  next
    case (Some p)
    obtain sn ol where p: "x = Some (sn, ol)" using Some by (cases p) simp
    have cl: "le_state l = OWNED_BY_COMPACTION" if "ol = Some l" for l using dk(5) p that by blast
    show ?thesis
    proof (cases "(\<exists>s. s \<noteq> CP_PREPARED \<and> (CxRet (CompactionResult s None), w2, objs, ws,
       case ol of None \<Rightarrow> held | Some l \<Rightarrow> snd (lease_close l held)) = (out, w', objs', ws', held')) \<or>
       (\<exists>e. (CxRaise e, w2, objs, ws, held) = (out, w', objs', ws', held'))")
      case True
      then show ?thesis using kept cl p by (auto simp: lease_outcome_def lease_close_def)
    next
      case False
      then obtain c l key blobs n where l: "ol = Some l" and c: "pw_cursor w2 = Some c" "w' = w2"
        and w: "write_compaction c key blobs n objs ws wlim l held sc = (out, objs', ws', held')"
        using prepare_writes [OF d [unfolded p] r] by blast
      have nc: "le_state l \<noteq> CLOSED" using cl [OF l] by simp
      note wk = write_keeps [OF w nc]
      show ?thesis using wk c dk(1-4) p l by (auto simp: compaction_keeps_def)
    qed
  qed
  then show "compaction_keeps w w' objs objs' ws ws'" by blast
  show "detach_compaction w held = (Some (sn, Some l), w1) \<Longrightarrow> lease_outcome l held held' out" using both d by simp
qed

end
