(* ===== verification/CompactionLive.thy ===== *)
theory CompactionLive
  imports CompactionRun
begin

section \<open>A compaction that prepares\<close>

text \<open>
  Without failing calls, a compaction of a drained writer within the sizes of the limits returns a
  package, unless the object store has another blob under the digest of one of the artifacts; the
  candidate of the package opens in the stores that the call leaves.
\<close>

subsection \<open>Writing without failures\<close>

lemma put_object_clean:
  "(\<exists>objs'. put_object objs blob None = (PutOk (sha256 blob), objs')) \<or>
   put_object objs blob None = (PutIntegrityError, objs) \<and> (\<exists>b. dget objs (sha256 blob) = Some b \<and> b \<noteq> blob)"
  by (auto simp: put_object_def get_limited_def Let_def split: option.splits)

lemma put_artifacts_clean:
  "(\<exists>ds objs'. put_artifacts objs bs kid [] = (Inr ds, objs')) \<or>
   (\<exists>objs'. put_artifacts objs bs kid [] = (Inl CxIntegrity, objs') \<and>
      (\<exists>blob \<in> snd ` set bs. \<exists>b. dget objs' (sha256 blob) = Some b \<and> b \<noteq> blob))"
proof (induction bs arbitrary: objs)
  case (Cons kb bs)
  obtain k blob where kb: "kb = (k, blob)" by fastforce
  from put_object_clean [of objs blob] show ?case
  proof (elim disjE exE conjE)
    fix objs1 assume p: "put_object objs blob None = (PutOk (sha256 blob), objs1)"
    from Cons.IH [of objs1] show ?thesis by (fastforce simp: kb p)
  next
    fix b assume "put_object objs blob None = (PutIntegrityError, objs)" "dget objs (sha256 blob) = Some b" "b \<noteq> blob"
    then show ?thesis by (auto simp: kb)
  qed
qed simp

lemma create_next_clean:
  assumes s: "seg_id_ok (next_seg_id c)" and k: "dget (ws_keyring ws) (em_key_id (pc_manifest c)) = Some key"
    and a: "dget (ws_active ws) (em_scope_id (pc_manifest c), sd_segment_id (pc_active c) + 1) = None"
    and sc: "px_create sc = None"
  shows "create_next_active ws (em_scope_id (pc_manifest c), sd_segment_id (pc_active c) + 1) (wal_image key (next_seg_id c) []) wlim sc
    = (CxRet True, ws\<lparr>ws_active := dput (em_scope_id (pc_manifest c), sd_segment_id (pc_active c) + 1)
        (RegularFile (wal_image key (next_seg_id c) [])) (ws_active ws)\<rparr>)"
proof -
  let ?id = "(em_scope_id (pc_manifest c), sd_segment_id (pc_active c) + 1)"
  have "authenticate_header (ws_keyring ws) (wal_image key (next_seg_id c) []) ?id = (WS_VALID, Some (header_info (next_seg_id c)))"
    using authenticate_image [OF s, of "ws_keyring ws" key "[]" "[]"] k by (simp add: next_seg_id_def)
  moreover have "identity_ok ?id" using s by (simp add: identity_ok_def seg_id_ok_def next_seg_id_def)
  ultimately show ?thesis using a sc by (simp add: create_next_active_def create_active_def)
qed

subsection \<open>The candidate\<close>

lemma em_serialize_length:
  assumes f: "manifest_fits m" and s: "em_serialize m key = Some blob"
  shows "length blob = 48 + 32 + 5 * 48 + length (em_segments m) * 121 + TAG_BYTES"
proof -
  obtain h ds ss where b: "em_body BASE_KINDS m = Some (h @ em_parent_manifest_digest m @ ds @ ss)"
    and p: "struct_pack MAN_HEADER (header_row m) = Some h"
    "pack_rows MAN_DESC (map (\<lambda>k. desc_row k (the (dget (em_base_descriptors m) k))) BASE_KINDS) = Some ds"
    "pack_rows MAN_SEG (map seg_row (em_segments m)) = Some ss"
    by (rule em_body_parts [OF f, of BASE_KINDS]) blast
  have "length (em_parent_manifest_digest m) = 32" using f by (simp add: manifest_fits_def)
  then show ?thesis
    using s b struct_pack_length [OF p(1)] pack_rows_length [OF p(2)] pack_rows_length [OF p(3)]
    by (auto simp: em_serialize_def em_mac_def)
qed

lemma candidate_serializes:
  assumes f: "manifest_fits m" shows "\<exists>blob. em_serialize m key = Some blob"
proof -
  obtain body where "em_body BASE_KINDS m = Some body" by (rule em_body_parts [OF f, of BASE_KINDS]) blast
  then show ?thesis by (simp add: em_serialize_def)
qed

lemma candidate_manifest_fits:
  assumes ss: "sealed_source env c" and sg: "seg_id_ok (next_seg_id c)" and q: "seq_ok (pc_read_seq c)"
    and g: "em_generation_id (pc_manifest c) < 2 ^ 31" and n: "0 \<le> n" "n < 2 ^ 32" and b: "\<And>k. length (B k) < 2 ^ 32"
  shows "manifest_fits (compaction_candidate c n (base_descriptors B (em_key_id (pc_manifest c))) (fresh_segment key (next_seg_id c)))"
proof -
  have m: "u32 (em_scope_id (pc_manifest c))" "u32 (em_key_id (pc_manifest c))" "0 \<le> em_generation_id (pc_manifest c)"
    using ss by (auto simp: sealed_source_def cursor_ok_def manifest_fits_def u32_def)
  have "desc_fits k (make_descriptor k (B k) True (em_key_id (pc_manifest c)))" for k
    using b [of k] m by (cases k) (simp_all add: desc_fits_def make_descriptor_def u32_def)
  moreover have "pp_manifest_sha256 (pc_proof c) \<noteq> ZERO32" "length (pp_manifest_sha256 (pc_proof c)) = 32"
    using ss by (simp_all add: sealed_source_def)
  ultimately show ?thesis
    using m g n q fresh_segment_fits [OF sg] by (simp add: manifest_fits_def compaction_candidate_def u32_def)
qed

lemma candidate_preflight:
  assumes sg: "seg_id_ok (next_seg_id c)" and b: "\<And>k. length (B k) \<le> 2 ^ 26" and l: "length blob \<le> 2 ^ 24"
    and m: "em_base_descriptors m = base_descriptors B kid" "em_segments m = [fresh_segment key (next_seg_id c)]"
  shows "generation_preflight m (length blob) DEFAULT_GENERATION_LIMITS"
proof -
  have "int (length (B k)) \<le> 2 ^ 26" for k using b [of k] by simp
  from this [of REGISTRY] this [of BULK] this [of RESIDUAL] this [of TOMBSTONE] this [of DEDUP] show ?thesis
    using l by (simp add: generation_preflight_def m base_descriptors_def BASE_KINDS_def make_descriptor_def
        DEFAULT_GENERATION_LIMITS_def fresh_segment_def fresh_image_length [OF sg])
qed

lemma compaction_seals:
  assumes m: "manifest_fits (compaction_candidate c n (base_descriptors B kid) (fresh_segment key s))"
  shows "\<exists>p. seal_compaction c (base_descriptors B kid) (fresh_segment key s) blob l = Some p"
proof -
  let ?d = "base_descriptors B kid"
  have q: "u32 (em_generation_id (pc_manifest c) + 1)" "seq_ok (pc_read_seq c)" "seg_fits (fresh_segment key s)"
    using m by (simp_all add: manifest_fits_def compaction_candidate_def)
  have d: "desc_fits k (make_descriptor k (B k) True kid)" for k
    using m by (simp add: manifest_fits_def compaction_candidate_def)
  have "\<exists>h. struct_pack [FS 32, FU 8, FU 4] [VB x, VI (pc_read_seq c), VI (em_generation_id (pc_manifest c) + 1)] = Some h" for x
    using q(1,2) by (simp add: seq_ok_def u32_def)
  moreover have "\<exists>a. struct_pack [FU 4, FU 4, FU 8, FU 4, FU 1, FU 8, FS 32, FS 16, FU 4] (cm_active_row (fresh_segment key s)) = Some a"
    using q(3) by (intro fits_struct_pack) (simp add: cm_active_row_def seg_fits_def seg_row_def)
  moreover have "\<exists>ds. pack_rows [FU 4, FU 2, FU 1, FU 8, FS 32, FU 4] (map cm_desc_row (map (\<lambda>k. (k, the (dget ?d k))) BASE_KINDS)) = Some ds"
  proof (rule pack_rows_fits, rule ballI)
    fix r assume "r \<in> set (map cm_desc_row (map (\<lambda>k. (k, the (dget ?d k))) BASE_KINDS))"
    then obtain k where r: "r = cm_desc_row (k, make_descriptor k (B k) True kid)" by auto
    show "list_all2 fits [FU 4, FU 2, FU 1, FU 8, FS 32, FU 4] r"
      unfolding r using d [of k] by (cases k) (simp_all add: cm_desc_row_def desc_fits_def make_descriptor_def u32_def)
  qed
  ultimately show ?thesis
    by (auto simp: seal_compaction_def compaction_prepared_digest_def cm_head_row_def Let_def simp del: struct_pack.simps map_map
        split: option.splits)
qed

subsection \<open>The candidate opens\<close>

text \<open>No object changes under a read, no WAL read fails, and the limits of the artifacts are the default.\<close>

definition quiet_env :: "pub_env \<Rightarrow> bool" where
  "quiet_env env \<longleftrightarrow> ge_limits (pe_gen env) = default_limits \<and> (\<forall>d. \<not> ge_changed (pe_gen env) d) \<and>
     (\<forall>s. ge_fault (pe_gen env) s = None)"

text \<open>The sizes of a compaction whose artifacts are within the default limits.\<close>

definition small_enough :: "generation_handle \<Rightarrow> (int, vline) pydict \<Rightarrow> bool" where
  "small_enough h facts \<longleftrightarrow> length facts \<le> 2 ^ 21 \<and> dt_entry_count (gh_dedup h) + length (gh_txindex h) \<le> 2 ^ 20 \<and>
     dt_client_count (gh_dedup h) + length (gh_txindex h) \<le> 2 ^ 19"

lemma small_parts:
  assumes cb: "compacted_base env c h ret facts key r b f t d" and sm: "small_enough h facts"
  shows "length (part_blob (five r b f t d k)) \<le> 2 ^ 26" "within_limits k (part_counts (five r b f t d k)) default_limits"
proof -
  have p: "parse_artifact (ge_np (pe_gen env)) k (part_blob (five r b f t d k)) key = Inr (five r b f t d k)"
    using cb by (simp add: compacted_base_def)
  have mp: "bm_parts (compacted_model facts) (em_scope_id (pc_manifest c)) (em_generation_id (pc_manifest c) + 1) r b f t"
    "bm_fact_count (compacted_model facts) = int (length facts)" using cb by (simp_all add: compacted_base_def)
  have d: "dt_entry_count d \<le> 2 ^ 20" "dt_client_count d \<le> 2 ^ 19" using cb sm by (simp_all add: compacted_base_def small_enough_def)
  have nc: "bm_corrections (compacted_model facts) = []" by (simp add: compacted_model_def Let_def)
  have n: "0 \<le> bm_fact_count (compacted_model facts)" "bm_fact_count (compacted_model facts) \<le> 2 ^ 21"
    using sm by (simp_all add: mp(2) small_enough_def)
  have c: "five r b f t d k \<in> {CRegistry r, CBulk b, CResidual f, CTombstone t, CDedup d}" by (cases k) simp_all
  note w = base_within_limits [OF mp(1) nc n d c]
  show "length (part_blob (five r b f t d k)) \<le> 2 ^ 26" using w(1) part_length [OF p] by simp
  show "within_limits k (part_counts (five r b f t d k)) default_limits" by (rule w(2))
qed

lemma candidate_opens:
  assumes s: "compaction_source env objs ws c h" and cb: "compacted_base env c h ret facts key r b f t d"
    and sm: "small_enough h facts" and qe: "quiet_env env" and key: "dget (pe_keyring env) (em_key_id (pc_manifest c)) = Some key"
    and st: "\<And>k. dget objs2 (sha256 (part_blob (five r b f t d k))) = Some (part_blob (five r b f t d k))"
    and act: "fresh_active ws2 key (next_seg_id c)"
    and m: "m = compaction_candidate c (int (length facts)) (base_descriptors (\<lambda>k. part_blob (five r b f t d k)) (em_key_id (pc_manifest c)))
       (fresh_segment key (next_seg_id c))"
    and fits: "manifest_fits m" "em_serialize m key = Some blob"
  shows "\<exists>h'. open_generation (recovery_gen_env env DEFAULT_GENERATION_LIMITS objs2 ws2) (Some blob) = Inr (G_VALID, Some h') \<and>
    compacted_from h ret h'"
proof -
  let ?e = "recovery_gen_env env DEFAULT_GENERATION_LIMITS objs2 ws2" and ?B = "\<lambda>k. part_blob (five r b f t d k)"
  have e: "ge_np ?e = ge_np (pe_gen env)" "ge_objects ?e = objs2" "ge_keyring ?e = pe_keyring env" "ge_wal ?e = ws2"
    "ge_limits ?e = default_limits" "\<not> ge_changed ?e x" "ge_fault ?e y = None" "ge_parent ?e = None"
    "ge_gen_limits ?e = DEFAULT_GENERATION_LIMITS" "roomy ?e" for x y
    using qe by (simp_all add: recovery_gen_env_def quiet_env_def roomy_def derived_reducer_limits_def DEFAULT_GENERATION_LIMITS_def)
  have np: "numpy_bits (ge_np ?e)" using s by (simp add: e compaction_source_def)
  have sg: "seg_id_ok (next_seg_id c)" using act by (simp add: fresh_active_def)
  have gn: "0 \<le> em_generation_id (pc_manifest c)" using s
    by (simp add: compaction_source_def sealed_source_def cursor_ok_def manifest_fits_def u32_def)
  have ms: "em_segments m = [fresh_segment key (next_seg_id c)]" "em_read_seq m = em_base_seq m"
    "sg_first (next_seg_id c) = em_base_seq m + 1" "em_scope_id m = sg_scope (next_seg_id c)" "sg_key_id (next_seg_id c) = em_key_id m"
    "em_base_descriptors m = base_descriptors ?B (em_key_id m)" "em_fact_count m = bm_fact_count (compacted_model facts)"
    and mi: "em_scope_id m = em_scope_id (pc_manifest c)" "em_generation_id m = em_generation_id (pc_manifest c) + 1"
    "em_base_seq m = pc_read_seq c" "em_read_seq m = pc_read_seq c" "em_key_id m = em_key_id (pc_manifest c)"
    using cb by (simp_all add: m compaction_candidate_def next_seg_id_def compacted_base_def)
  have sb: "stored_base ?e key ?B (five r b f t d)"
    using cb st small_parts [OF cb sm] unfolding stored_base_def e
    by (auto simp: compacted_base_def default_limits_def e)
  have pf: "generation_preflight m (length blob) (ge_gen_limits ?e)"
    unfolding e using small_parts(1) [OF cb sm] em_serialize_length [OF fits]
    by (intro candidate_preflight [OF sg _ _ ms(6,1)]) (simp_all add: ms(1))
  have lin: "resolve_lineage m (ge_parent ?e) (ge_keyring ?e) = Some UNVERIFIED"
    using gn by (simp add: resolve_lineage_def e m compaction_candidate_def)
  have kid: "dget (ge_keyring ?e) (em_key_id m) = Some key" by (simp add: e key mi)
  have mb: "bm_ok (compacted_model facts)" "bm_parts (compacted_model facts) (em_scope_id m) (em_generation_id m) r b f t"
    "dt_scope_id d = em_scope_id m" "dt_generation_id d = em_generation_id m" "dt_dedup_through_seq d = em_base_seq m"
    using cb by (simp_all add: compacted_base_def mi)
  obtain h' where o: "open_generation ?e (Some blob) = Inr (G_VALID, Some h')" "generation_parts ?e m r b f t d [] history0 h'"
    using fresh_generation_opens [OF np sb kid _ _ _ _ _ mb(1,2) ms(7,6) mb(3-5) _ e(7,10) ms(1-5) fits pf lin] act by (auto simp: e)
  have ids: "gh_scope_id h = em_scope_id (pc_manifest c)" "gh_generation_id h = em_generation_id (pc_manifest c)" "gh_read_seq h = pc_read_seq c"
    using source_parts [OF s] by metis+
  from fresh_compacted [OF cb np ids mi(1-4) o(2)] o(1) show ?thesis by blast
qed

subsection \<open>The call\<close>

definition quiet_script :: "compaction_script \<Rightarrow> bool" where
  "quiet_script sc \<longleftrightarrow> px_lock_ok sc \<and> px_puts sc = [] \<and> \<not> px_kill_base sc \<and> px_create sc = None \<and>
     \<not> px_kill_manifest sc \<and> px_register_ok sc"

text \<open>The object store has another blob under the digest of one of these.\<close>

definition digest_clash :: "object_store \<Rightarrow> (artifact_kind \<times> bytes) list \<Rightarrow> bool" where
  "digest_clash objs blobs \<longleftrightarrow> (\<exists>blob \<in> snd ` set blobs. \<exists>b. dget objs (sha256 blob) = Some b \<and> b \<noteq> blob)"

lemma write_succeeds:
  assumes s: "compaction_source env objs ws c h" and cb: "compacted_base env c h ret facts key r b f t d"
    and sm: "small_enough h facts" and qe: "quiet_env env" and key: "dget (pe_keyring env) (em_key_id (pc_manifest c)) = Some key"
    and g: "em_generation_id (pc_manifest c) < 2 ^ 31" "sd_segment_id (pc_active c) + 1 \<le> U32_MAX" "pc_read_seq c + 1 < MAX_SEQ"
    and ws: "dget (ws_keyring ws) (em_key_id (pc_manifest c)) = Some key"
      "dget (ws_active ws) (em_scope_id (pc_manifest c), sd_segment_id (pc_active c) + 1) = None"
    and sc: "quiet_script sc" and l: "le_state l = OWNED_BY_COMPACTION"
    and w: "write_compaction c key (part_blobs (five r b f t d)) (int (length facts)) objs ws wlim l held sc = (out, objs', ws', held')"
  shows "out = CxRaise CxIntegrity \<and> digest_clash objs' (part_blobs (five r b f t d)) \<or>
    (\<exists>p h'. out = CxRet (CompactionResult CP_PREPARED (Some p)) \<and>
       open_generation (recovery_gen_env env DEFAULT_GENERATION_LIMITS objs' ws') (Some (cm_candidate_blob p)) = Inr (G_VALID, Some h') \<and>
       compacted_from h ret h')"
proof -
  let ?man = "pc_manifest c" and ?B = "\<lambda>k. part_blob (five r b f t d k)" and ?s = "next_seg_id c"
  let ?id = "(em_scope_id ?man, sd_segment_id (pc_active c) + 1)"
  have ss: "sealed_source env c" using s by (simp add: compaction_source_def)
  then have co: "cursor_ok c" by (simp add: sealed_source_def)
  have sg: "seg_id_ok ?s" by (rule next_seg_ok [OF co g(2,3)])
  have q: "seq_ok (pc_read_seq c)" using source_parts [OF s] by metis
  have he: "encode_segment_header key (em_scope_id ?man) (sd_segment_id (pc_active c) + 1) (pc_read_seq c + 1) (em_key_id ?man)
      STATE_ACTIVE ZERO16 = Some (wal_image key ?s [])"
    using header_bytes_eq(1) [OF sg, of key] by (simp add: next_seg_id_def wal_image_def frames_bytes_def)
  note na = next_active_fresh(2) [OF sg he]
  define m where "m = compaction_candidate c (int (length facts)) (base_descriptors ?B (em_key_id ?man)) (fresh_segment key ?s)"
  have small: "length (?B k) < 2 ^ 32" "int (length facts) < 2 ^ 32" for k
    using small_parts(1) [OF cb sm, of k] sm by (simp_all add: small_enough_def)
  have fits: "manifest_fits m" unfolding m_def by (rule candidate_manifest_fits [OF ss sg q g(1) _ small(2,1)]) simp
  obtain blob where em: "em_serialize m key = Some blob" using candidate_serializes [OF fits] by blast
  define ws2 where "ws2 = ws\<lparr>ws_active := dput ?id (RegularFile (wal_image key ?s [])) (ws_active ws)\<rparr>"
  have cn: "create_next_active ws ?id (wal_image key ?s []) wlim sc = (CxRet True, ws2)"
    unfolding ws2_def using sc by (intro create_next_clean [OF sg ws]) (simp add: quiet_script_def)
  have act: "fresh_active ws2 key ?s"
    using sg ws(1) by (simp add: fresh_active_def ws2_def next_seg_id_def dget_dput)
  let ?l = "l\<lparr>le_state := OWNED_BY_COMPACTION_PREPARED\<rparr>"
  obtain p where p: "seal_compaction c (base_descriptors ?B (em_key_id ?man)) (fresh_segment key ?s) blob ?l = Some p"
    using compaction_seals [OF fits [unfolded m_def]] by blast
  have lt: "lease_transfer l OWNED_BY_COMPACTION_PREPARED held = Some (?l, held)" using l by (simp add: lease_transfer_def)
  from put_artifacts_clean [of objs "part_blobs (five r b f t d)" "em_key_id ?man"] show ?thesis
  proof (elim disjE exE conjE)
    fix objs1 assume pa: "put_artifacts objs (part_blobs (five r b f t d)) (em_key_id ?man) [] = (Inl CxIntegrity, objs1)"
      and cl: "\<exists>blob \<in> snd ` set (part_blobs (five r b f t d)). \<exists>b. dget objs1 (sha256 blob) = Some b \<and> b \<noteq> blob"
    have "out = CxRaise CxIntegrity" "objs' = objs1"
      using w sc by (auto simp: write_compaction_def Let_def quiet_script_def pa)
    then show ?thesis using cl by (simp add: digest_clash_def)
  next
    fix ds objs1 assume pa: "put_artifacts objs (part_blobs (five r b f t d)) (em_key_id ?man) [] = (Inr ds, objs1)"
    note pp = put_part_blobs [OF pa]
    have "out = CxRet (CompactionResult CP_PREPARED (Some p))" "objs' = objs1" "ws' = ws2"
      using w sc by (auto simp: write_compaction_def Let_def quiet_script_def pa he cn na pp(1) em [unfolded m_def] lt p)
    then show ?thesis using candidate_opens [OF s cb sm qe key pp(2) act m_def fits em] prepared_blob [OF p] by simp
  qed
qed

lemma materialized_distinct:
  assumes s: "compaction_source env objs ws c h" and f: "materialize_state h = Inr facts"
  shows "distinct (dkeys facts)"
proof -
  obtain r0 b0 f0 t0 frs hist where
    gp: "generation_parts (recovery_gen_env env DEFAULT_GENERATION_LIMITS objs ws) (pc_manifest c) r0 b0 f0 t0 (gh_dedup h) frs hist h"
    using source_parts [OF s] by metis
  have "numpy_bits (ge_np (recovery_gen_env env DEFAULT_GENERATION_LIMITS objs ws))"
    using s by (simp add: compaction_source_def recovery_gen_env_def)
  from materialize_state_spec [OF this gp] f show ?thesis by auto
qed

text \<open>The writer is drained, owns the lease of its scope, and its snapshot is the one of the cursor.\<close>

definition ready_writer :: "('w, 't) pub_writer \<Rightarrow> published_cursor \<Rightarrow> scope_lease \<Rightarrow> bool" where
  "ready_writer w c l \<longleftrightarrow> \<not> worker_alive (pw_gc w) \<and> \<not> gs_poisoned (pw_gc w) \<and> gs_lease (pw_gc w) = Some l \<and> le_sealed l \<and>
     le_state l \<in> {OWNED_BY_STORE, OWNED_BY_NEW_STORE} \<and> le_scope_id l = em_scope_id (pc_manifest c) \<and>
     pw_cursor w = Some c \<and> is_sealed_cursor c \<and> validate_post_drain_state (gs_snapshot (pw_gc w)) c"

lemma ready_detaches:
  assumes "ready_writer w c l"
  shows "\<exists>w1. detach_compaction w held = (Some (gs_snapshot (pw_gc w), Some (l\<lparr>le_state := OWNED_BY_COMPACTION\<rparr>)), w1)"
    and "validate_compaction_input c (Some (l\<lparr>le_state := OWNED_BY_COMPACTION\<rparr>)) (em_scope_id (pc_manifest c)) (pc_read_seq c)"
  using assms
  by (auto simp: ready_writer_def detach_compaction_def gc_drained_def lease_transfer_def validate_compaction_input_def lease_held_def)

lemma prepare_succeeds:
  assumes s: "compaction_source env objs ws c h" and rw: "ready_writer w c l" and qe: "quiet_env env" and sc: "quiet_script sc"
    and key: "dget (pe_keyring env) (em_key_id (pc_manifest c)) = Some key"
    and g: "em_generation_id (pc_manifest c) < 2 ^ 31" "sd_segment_id (pc_active c) < U32_MAX" "pc_read_seq c + 1 < MAX_SEQ" "ret < 2 ^ 32"
    and f: "materialize_state h = Inr facts" "\<forall>(fid, line) \<in> set facts. u8_line line" "small_enough h facts"
    and ws: "dget (ws_keyring ws) (em_key_id (pc_manifest c)) = Some key"
      "dget (ws_active ws) (em_scope_id (pc_manifest c), sd_segment_id (pc_active c) + 1) = None"
    and r: "prepare_compaction env w objs ws wlim ret held sc = (out, w', objs', ws', held')"
  shows "out = CxRaise CxIntegrity \<and> (\<exists>blobs n. build_base_artifacts (ge_np (pe_gen env)) facts (Some (gh_dedup h)) (gh_txindex h)
         (em_scope_id (pc_manifest c)) (em_generation_id (pc_manifest c) + 1) (pc_read_seq c) ret key = Inr (CP_PREPARED, blobs, n) \<and>
         digest_clash objs' blobs) \<or>
    (\<exists>p h'. out = CxRet (CompactionResult CP_PREPARED (Some p)) \<and>
       open_generation (recovery_gen_env env DEFAULT_GENERATION_LIMITS objs' ws') (Some (cm_candidate_blob p)) = Inr (G_VALID, Some h') \<and>
       compacted_from h ret h')"
proof -
  let ?l = "l\<lparr>le_state := OWNED_BY_COMPACTION\<rparr>"
  obtain w1 where d: "detach_compaction w held = (Some (gs_snapshot (pw_gc w), Some ?l), w1)"
    using ready_detaches(1) [OF rw] by blast
  have c: "pw_cursor w1 = Some c" using detach_keeps(2) [OF d] rw by (simp add: ready_writer_def)
  have v: "validate_post_drain_state (gs_snapshot (pw_gc w)) c" using rw by (simp add: ready_writer_def)
  have og: "open_generation (recovery_gen_env env DEFAULT_GENERATION_LIMITS objs ws) (Some (pc_manifest_blob c)) = Inr (G_VALID, Some h)"
    using s by (simp add: compaction_source_def)
  have n: "int (length facts) \<le> MAX_REGISTRY_ENTRIES" "\<not> length facts > gl_max_total_frames DEFAULT_GENERATION_LIMITS"
    using f(3) by (simp_all add: small_enough_def DEFAULT_GENERATION_LIMITS_def)
  have u: "em_generation_id (pc_manifest c) + 1 \<le> U32_MAX" "sd_segment_id (pc_active c) + 1 \<le> U32_MAX"
    using g by simp_all
  then have b: "\<not> (em_generation_id (pc_manifest c) + 1 > U32_MAX \<or> sd_segment_id (pc_active c) + 1 > U32_MAX \<or> pc_read_seq c + 1 \<ge> MAX_SEQ)"
    using g(3) by simp
  obtain r1 b1 f1 t1 d1 where cb: "compacted_base env c h ret facts key r1 b1 f1 t1 d1"
    using source_builds [OF s f(1,2) n(1) u(1) g(4)] by blast
  then have bb: "build_base_artifacts (ge_np (pe_gen env)) facts (Some (gh_dedup h)) (gh_txindex h) (em_scope_id (pc_manifest c))
      (em_generation_id (pc_manifest c) + 1) (pc_read_seq c) ret key
    = Inr (CP_PREPARED, part_blobs (five r1 b1 f1 t1 d1), int (length facts))" by (simp add: compacted_base_def)
  note v1 = ready_detaches(2) [OF rw]
  obtain out1 objs1 ws1 held1 where w: "write_compaction c key (part_blobs (five r1 b1 f1 t1 d1)) (int (length facts)) objs ws wlim ?l held sc
      = (out1, objs1, ws1, held1)"
    by (cases "write_compaction c key (part_blobs (five r1 b1 f1 t1 d1)) (int (length facts)) objs ws wlim ?l held sc")
  have "(out, objs', ws') = (out1, objs1, ws1)"
    using r [unfolded prepare_compaction_def d prod.case option.case Let_def c] v v1 b key og f(1) n(2) bb w by simp
  then have o: "out = out1" "objs' = objs1" "ws' = ws1" by simp_all
  have ls: "le_state ?l = OWNED_BY_COMPACTION" by simp
  from write_succeeds [OF s cb f(3) qe key g(1) u(2) g(3) ws sc ls w] show ?thesis unfolding o using bb by blast
qed

end
