(* ===== verification/CompactionProperties.thy ===== *)
theory CompactionProperties
  imports CompactionLive RecoveryProperties
begin

section \<open>Properties of compaction\<close>

text \<open>
  What a compaction prepares, that it prepares when no call fails, and what none of its outcomes
  touches. The witnesses compact the generation of a base of three facts and one remembered operation.
\<close>

subsection \<open>A generation to compact\<close>

text \<open>Materializing a generation that was compacted gives its facts back.\<close>

definition canonical_line :: "vline \<Rightarrow> bool" where
  "canonical_line l \<longleftrightarrow> (case l of (ver, op, x) \<Rightarrow> op = OP_DELETE \<and> x = None \<or> op = OP_PUT \<and> x \<noteq> None)"

lemma compacted_reads:
  assumes n: "numpy_bits (ge_np e)" and f: "facts_ok facts"
    and p: "bm_parts (compacted_model facts) (em_scope_id m) (em_generation_id m) r b f t"
    and g: "generation_parts e m r b f t d [] history0 h"
  shows "read_fact h fid = Inr (Some (bm_answer (compacted_model facts) fid))"
  using numpy_bits.bm_reads [OF n compacted_model_ok [OF f] p, of "handle_view h" "wi_get (gh_l0 h)" fid] g
  by (simp add: generation_parts_def read_fact_def generation_of_def handle_view_def history0_def)

lemma materialize_compacted:
  assumes n: "numpy_bits (ge_np e)" and f: "facts_ok facts" "\<forall>(fid, line) \<in> set facts. canonical_line line"
    and p: "bm_parts (compacted_model facts) (em_scope_id m) (em_generation_id m) r b f t"
    and g: "generation_parts e m r b f t d [] history0 h"
  shows "\<exists>facts'. materialize_state h = Inr facts' \<and> distinct (dkeys facts') \<and> dget facts' = dget facts"
proof -
  have A: "generation_answer r b f t (\<lambda>_. None) fid = bm_answer (compacted_model facts) fid" for fid
    using compacted_reads [OF n f(1) p g, of fid] generation_reads [OF n g, of fid] by (simp add: history0_def)
  have "materialized_line r (fst history0) (generation_answer r b f t (fst history0)) fid = dget facts fid" for fid
  proof -
    have lk: "reg_lookup r fid = dget (bm_registry (compacted_model facts)) fid" using p by (simp add: bm_parts_def)
    have ve: "map_option snd (reg_lookup r fid) = map_option fst (dget facts fid)"
      using compacted_model_answer(2) [OF f(1), of fid] by (simp add: lk)
    show ?thesis
    proof (cases "dget facts fid")
      case None
      then show ?thesis using ve by (simp add: materialized_line_def history0_def)
    next
      case (Some l)
      then have "canonical_line l" using f(2) map_of_SomeD [OF Some] by blast
      then show ?thesis
        using ve Some by (auto simp: materialized_line_def history0_def A compacted_model_answer(1) [OF f(1)]
            line_of_read_def canonical_line_def split: prod.splits)
    qed
  qed
  then show ?thesis using materialize_state_spec [OF n g] by (simp add: fun_eq_iff)
qed

lemma same_lines:
  assumes "distinct (dkeys xs)" "distinct (dkeys ys)" "dget xs = dget ys"
  shows "set xs = set ys" "length xs = length ys"
proof -
  show s: "set xs = set ys" using assms map_of_eq_Some_iff [of xs] map_of_eq_Some_iff [of ys] by auto
  have "distinct xs" "distinct ys" using assms(1,2) by (simp_all add: distinct_map)
  then show "length xs = length ys" using s by (metis distinct_card)
qed

definition facts7 :: "(int, vline) pydict" where
  "facts7 = [(9, (2, OP_DELETE, None)), (5, (1, OP_PUT, Some 40)), (12, (4, OP_PUT, Some 7))]"

definition op7 :: bytes where
  "op7 = [1, 0, 0, 0, 0, 0, 0, 0, 5, 0, 0, 0, 0, 0, 0, 0]"

definition objs7 :: "(artifact_kind \<Rightarrow> bytes) \<Rightarrow> object_store" where
  "objs7 B = map (\<lambda>k. (sha256 (B k), B k)) BASE_KINDS"

definition ws7 :: wal_store where
  "ws7 = \<lparr>ws_active = [((3, 1), RegularFile (wal_image [7] seg5 []))], ws_objects = [], ws_keyring = [(1, [7])]\<rparr>"

definition man7 :: "(artifact_kind \<Rightarrow> bytes) \<Rightarrow> epoch_manifest" where
  "man7 B = \<lparr>em_scope_id = 3, em_generation_id = 1, em_fact_count = 3, em_base_seq = 6, em_read_seq = 6,
     em_parent_generation_id = -1, em_parent_manifest_digest = ZERO32, em_base_descriptors = base_descriptors B 1,
     em_segments = [fresh_segment [7] seg5], em_key_id = 1\<rparr>"

definition cursor7 :: "(artifact_kind \<Rightarrow> bytes) \<Rightarrow> bytes \<Rightarrow> published_cursor" where
  "cursor7 B blob = \<lparr>pc_proof = proof_from (new_record (man7 B) blob 0 ZERO32 1) (replicate 32 9) (fresh_segment [7] seg5),
     pc_manifest_blob = blob, pc_manifest = man7 B, pc_active = fresh_segment [7] seg5, pc_revision = 0, pc_read_seq = 6,
     pc_seal = True\<rparr>"

definition lease7 :: scope_lease where
  "lease7 = \<lparr>le_scope_id = 3, le_state = OWNED_BY_NEW_STORE, le_sealed = True\<rparr>"

text \<open>The writer that a resume boots, fenced.\<close>

definition writer7 :: "published_cursor \<Rightarrow> generation_handle \<Rightarrow> (wal_index, tx_index) pub_writer" where
  "writer7 c h = (let w = resumed_writer st4 c h (plan_of c 67) [7] (wal_image [7] seg5 []) 67 True lease7 1 2
     in w\<lparr>pw_gc := (pw_gc w)\<lparr>gs_stop := True, gs_rotating := True\<rparr>\<rparr>)"

definition quiet7 :: compaction_script where
  "quiet7 = \<lparr>px_lock_ok = True, px_puts = [], px_kill_base = False, px_create = None, px_read = None, px_kill_manifest = False,
     px_register_ok = True\<rparr>"

lemma facts7_ok: "facts_ok facts7" "\<forall>(fid, line) \<in> set facts7. canonical_line line \<and> u8_line line" "length facts7 = 3"
  by (simp_all add: facts_ok_def facts7_def u8_line_def canonical_line_def)

lemma base7:
  "\<exists>r b f t d. bm_parts (compacted_model facts7) 3 1 r b f t \<and>
     (\<forall>k. parse_artifact np_concrete k (part_blob (five r b f t d k)) [7] = Inr (five r b f t d k)) \<and>
     dt_scope_id d = 3 \<and> dt_generation_id d = 1 \<and> dt_dedup_through_seq d = 6 \<and> dt_entry_count d = 1 \<and> dt_client_count d = 1"
proof -
  have i: "u32 3" "u32 1" "0 < DEFAULT_PAGE_BYTES" "u32 DEFAULT_PAGE_BYTES" by (simp_all add: u32_def)
  from npc.bm_build [OF compacted_model_ok [OF facts7_ok(1)] i, of "[7]"] obtain r b f t where
    p: "reg_build (bm_registry (compacted_model facts7)) 3 1 (bm_fact_count (compacted_model facts7)) [7] = Inr r"
    "bs_build np_concrete (bm_fact_count (compacted_model facts7)) (bm_values (compacted_model facts7)) 3 1 [7] = Inr b"
    "rf_build np_concrete (bm_fact_count (compacted_model facts7)) (bm_corrections (compacted_model facts7)) DEFAULT_PAGE_BYTES 3 1 [7] = Inr f"
    "tl_build np_concrete (bm_fact_count (compacted_model facts7)) (bm_deleted (compacted_model facts7)) 3 1 [7] = Inr t"
    "bm_parts (compacted_model facts7) 3 1 r b f t" by blast
  have "split_opid op7 = Some (1, 5)" by (simp add: split_opid_def op7_def)
  then have a: "dedup_args_ok 6 6 [(op7, replicate 16 8, 6)] [(1, (5, 2))]"
    by (simp add: dedup_args_ok_def) (simp add: op7_def)
  from dt_build_opens [OF a, of 3 1 4 "[7]"] obtain d where
    d: "dt_build 3 1 6 6 4 [(op7, replicate 16 8, 6)] [(1, (5, 2))] [7] = Inr d" "dt_scope_id d = 3" "dt_generation_id d = 1"
    "dt_dedup_through_seq d = 6" "dt_iter_entries d = [(op7, replicate 16 8, 6)]" "dt_clients d = [(1, (5, 2))]" by auto
  have o: "dt_open (dt_blob d) [7] = Inr d" by (rule dt_build_reopens [OF d(1)])
  have "dt_entry_count d = 1" "dt_client_count d = 1"
    using arg_cong [OF d(5), of length] dt_open_fields(3) [OF o] by (simp_all add: dt_iter_entries_def d(6))
  moreover have "parse_artifact np_concrete k (part_blob (five r b f t d k)) [7] = Inr (five r b f t d k)" for k
    using npc.built_reopens p(1-4) o by (cases k) auto
  ultimately show ?thesis using p(5) d(2-4) by blast
qed

lemma objs7_get:
  assumes "\<And>k k'. sha256 (B k) = sha256 (B k') \<Longrightarrow> B k = B k'"
  shows "dget (objs7 B) (sha256 (B k)) = Some (B k)"
proof -
  have "(sha256 (B k), B k) \<in> set (objs7 B)" by (simp add: objs7_def)
  then obtain b where b: "dget (objs7 B) (sha256 (B k)) = Some b" by (metis weak_map_of_SomeI)
  then have "(sha256 (B k), b) \<in> set (objs7 B)" by (rule map_of_SomeD)
  then show ?thesis using b assms by (auto simp: objs7_def)
qed

lemma man7_fits:
  assumes "\<And>k. length (B k) \<le> 2 ^ 26"
  shows "manifest_fits (man7 B)" "check_coverage (man7 B)" "generation_preflight (man7 B) (length blob) DEFAULT_GENERATION_LIMITS \<longleftrightarrow> length blob \<le> 2 ^ 24"
proof -
  have b: "length (B k) < 2 ^ 64" "int (length (B k)) \<le> 2 ^ 26" for k using assms [of k] by simp_all
  have d: "desc_fits k (make_descriptor k (B k) True 1)" for k
    using b(1) [of k] by (cases k) (simp_all add: desc_fits_def make_descriptor_def u32_def)
  show "manifest_fits (man7 B)"
    using d fresh_segment_fits [OF seg5_ok, of "[7]"] by (simp add: manifest_fits_def man7_def u32_def seq_ok_def)
  show "check_coverage (man7 B)"
    using fresh_covers [OF seg5_ok, of "man7 B" "[7]"] by (simp add: man7_def) (simp add: seg5_def)
  show "generation_preflight (man7 B) (length blob) DEFAULT_GENERATION_LIMITS \<longleftrightarrow> length blob \<le> 2 ^ 24"
    using b(2) [of REGISTRY] b(2) [of BULK] b(2) [of RESIDUAL] b(2) [of TOMBSTONE] b(2) [of DEDUP]
    by (simp add: generation_preflight_def man7_def base_descriptors_def BASE_KINDS_def make_descriptor_def
        DEFAULT_GENERATION_LIMITS_def fresh_segment_def fresh_image_length [OF seg5_ok])
qed

lemma world7:
  "\<exists>B blob. em_serialize (man7 B) [7] = Some blob \<and>
    ((\<exists>k k'. B k \<noteq> B k' \<and> sha256 (B k) = sha256 (B k')) \<or> sha256 blob = ZERO32 \<or>
     (\<exists>h facts. compaction_source env4 (objs7 B) ws7 (cursor7 B blob) h \<and> materialize_state h = Inr facts \<and>
        (\<forall>(fid, line) \<in> set facts. u8_line line) \<and> small_enough h facts \<and>
        read_fact h 5 = Inr (Some (ReadResult RFromBulk (Some 40) True SrcBulk)) \<and>
        read_fact h 9 = Inr (Some (ReadResult RDeleted None True SrcTombstone))))"
proof -
  obtain r b f t d where mp: "bm_parts (compacted_model facts7) 3 1 r b f t"
    and pa: "\<And>k. parse_artifact np_concrete k (part_blob (five r b f t d k)) [7] = Inr (five r b f t d k)"
    and d: "dt_scope_id d = 3" "dt_generation_id d = 1" "dt_dedup_through_seq d = 6" "dt_entry_count d = 1" "dt_client_count d = 1"
    using base7 by blast
  define B where "B = (\<lambda>k. part_blob (five r b f t d k))"
  have rows: "bm_corrections (compacted_model facts7) = []" "bm_fact_count (compacted_model facts7) = 3"
    using compacted_rows(3,7,8) [of facts7] facts7_ok by (simp_all add: facts_ok_def)
  have sz: "part_size (five r b f t d k) \<le> 2 ^ 26" "within_limits k (part_counts (five r b f t d k)) default_limits" for k
    using base_within_limits [OF mp rows(1), of d "five r b f t d k"] d by (cases k; simp add: rows(2))+
  have len: "length (B k) \<le> 2 ^ 26" for k using sz(1) [of k] part_length [OF pa] by (simp add: B_def)
  note mf = man7_fits [of B, OF len]
  obtain blob where em: "em_serialize (man7 B) [7] = Some blob" using candidate_serializes [OF mf(1)] by blast
  have bl: "length blob \<le> 2 ^ 24" using em_serialize_length [OF mf(1) em] by (simp add: man7_def)
  have k: "dget (pe_keyring env4) 1 = Some [7]" by (simp add: env4_def)
  show ?thesis
  proof (cases "(\<exists>k k'. B k \<noteq> B k' \<and> sha256 (B k) = sha256 (B k')) \<or> sha256 blob = ZERO32")
    case False
    then have inj: "\<And>k k'. sha256 (B k) = sha256 (B k') \<Longrightarrow> B k = B k'" and nz: "sha256 blob \<noteq> ZERO32" by blast+
    let ?e = "recovery_gen_env env4 DEFAULT_GENERATION_LIMITS (objs7 B) ws7" and ?m = "man7 B"
    have e: "ge_np ?e = np_concrete" "ge_objects ?e = objs7 B" "ge_keyring ?e = [(1, [7])]" "ge_wal ?e = ws7"
      "ge_limits ?e = default_limits" "\<not> ge_changed ?e x" "ge_fault ?e y = None" "ge_parent ?e = None"
      "ge_gen_limits ?e = DEFAULT_GENERATION_LIMITS" "roomy ?e" for x y
      by (simp_all add: recovery_gen_env_def env4_def roomy_def derived_reducer_limits_def DEFAULT_GENERATION_LIMITS_def)
    have np: "numpy_bits (ge_np ?e)" unfolding e by (rule npc.numpy_bits_axioms)
    have sb: "stored_base ?e [7] B (five r b f t d)"
    proof -
      have "parse_artifact np_concrete k (B k) [7] = Inr (five r b f t d k)" "int (length (B k)) \<le> 2 ^ 26"
        "dget (objs7 B) (sha256 (B k)) = Some (B k)" for k
        using pa len [of k] objs7_get [of B, OF inj] by (simp_all add: B_def)
      then show ?thesis using sz(2) e(6) unfolding stored_base_def e by (simp add: default_limits_def)
    qed
    have act: "fresh_active (ge_wal ?e) [7] seg5"
      unfolding e using seg5_ok by (simp add: fresh_active_def ws7_def) (simp add: seg5_def)
    have ms: "em_segments ?m = [fresh_segment [7] seg5]" "em_read_seq ?m = em_base_seq ?m" "sg_first seg5 = em_base_seq ?m + 1"
      "em_scope_id ?m = sg_scope seg5" "sg_key_id seg5 = em_key_id ?m" "em_base_descriptors ?m = base_descriptors B (em_key_id ?m)"
      "em_fact_count ?m = bm_fact_count (compacted_model facts7)" "dget (ge_keyring ?e) (em_key_id ?m) = Some [7]"
      "bm_parts (compacted_model facts7) (em_scope_id ?m) (em_generation_id ?m) r b f t"
      "dt_scope_id d = em_scope_id ?m" "dt_generation_id d = em_generation_id ?m" "dt_dedup_through_seq d = em_base_seq ?m"
      using mp d by (simp_all add: man7_def seg5_def rows e)
    have pf: "generation_preflight ?m (length blob) (ge_gen_limits ?e)" unfolding e using mf(3) bl by blast
    have lin: "resolve_lineage ?m (ge_parent ?e) (ge_keyring ?e) = Some GENESIS" by (simp add: resolve_lineage_def man7_def)
    obtain h where h: "open_generation ?e (Some blob) = Inr (G_VALID, Some h)" "generation_parts ?e ?m r b f t d [] history0 h"
      using fresh_generation_opens [OF np sb ms(8) _ _ _ _ _ compacted_model_ok [OF facts7_ok(1)] ms(9,7,6,10-12) act e(7,10) ms(1-5)
          mf(1) em pf lin] by auto
    have f: "\<forall>(fid, line) \<in> set facts7. canonical_line line" using facts7_ok(2) by blast
    obtain facts where fa: "materialize_state h = Inr facts" "distinct (dkeys facts)" "dget facts = dget facts7"
      using materialize_compacted [OF np facts7_ok(1) f ms(9) h(2)] by blast
    have sl: "set facts = set facts7" "length facts = length facts7"
      using same_lines [OF fa(2) _ fa(3)] facts7_ok(1) by (simp_all add: facts_ok_def)
    have gd: "gh_dedup h = d" "\<And>op. tx_get_seq (gh_txindex h) op = None"
      using h(2) by (simp_all add: generation_parts_def generation_of_def history0_def)
    have "gh_txindex h = []"
      using gd(2) [of "fst (hd (gh_txindex h))"] by (cases "gh_txindex h") (auto simp: tx_get_seq_def)
    then have sm: "memory_fits h" "small_enough h facts"
      using d sl(2) facts7_ok(3) by (simp_all add: memory_fits_def small_enough_def gd(1))
    have "parse_manifest (Some blob) (pe_keyring env4) = (G_VALID, Some ?m)"
      using em_serialize_parses [OF em _ mf(1), of "pe_keyring env4"] k base_descriptors_order [OF ms(6)] by (simp add: man7_def)
    moreover have "cursor_ok (cursor7 B blob)"
      using mf(1,2) by (simp add: cursor_ok_def cursor7_def) (simp add: man7_def fresh_segment_def)
    ultimately have "sealed_source env4 (cursor7 B blob)"
      using nz by (simp add: sealed_source_def cursor7_def proof_from_def new_record_def)
    then have "compaction_source env4 (objs7 B) ws7 (cursor7 B blob) h"
      using h(1) sm(1) env4_numpy by (simp add: compaction_source_def cursor7_def)
    moreover have "\<forall>(fid, line) \<in> set facts. u8_line line" using facts7_ok(2) sl(1) by auto
    moreover have "read_fact h fid = Inr (Some (bm_answer (compacted_model facts7) fid))" for fid
      using compacted_reads [OF np facts7_ok(1) ms(9) h(2)] .
    then have "read_fact h 5 = Inr (Some (ReadResult RFromBulk (Some 40) True SrcBulk))"
      "read_fact h 9 = Inr (Some (ReadResult RDeleted None True SrcTombstone))"
      unfolding compacted_model_answer(1) [OF facts7_ok(1)] by (simp_all add: facts7_def)
    ultimately show ?thesis using em fa(1) sm(2) by blast
  qed (use em in blast)
qed


lemma ready7: "ready_writer (writer7 (cursor7 B blob) h) (cursor7 B blob) lease7"
proof -
  have "fresh_segment [7] seg5 = \<lparr>sd_ordinal = 0, sd_segment_id = 1, sd_first_seq = 7, sd_record_count = 0, wsd_status = STATE_ACTIVE,
      wsd_durable_prefix_length = 67, wsd_durable_prefix_sha256 = sha256 (wal_image [7] seg5 []), wsd_sealed_object_length = 0,
      wsd_sealed_object_sha256 = ZERO32, wsd_prev_segment_digest = ZERO16, wsd_key_id = 1\<rparr>"
    using fresh_image_length [OF seg5_ok, of "[7]"] by (simp add: fresh_segment_def) (simp add: seg5_def)
  then show ?thesis
    by (simp add: ready_writer_def writer7_def resumed_writer_def gc_boot_def worker_alive_def plan_of_def cursor7_def man7_def
        lease7_def is_sealed_cursor_def validate_post_drain_state_def Let_def)
qed

lemma call7:
  assumes s: "compaction_source env4 (objs7 B) ws7 (cursor7 B blob) h" and m: "materialize_state h = Inr facts"
    "\<forall>(fid, line) \<in> set facts. u8_line line" "small_enough h facts"
  shows "em_generation_id (pc_manifest (cursor7 B blob)) < 2 ^ 31" "sd_segment_id (pc_active (cursor7 B blob)) < U32_MAX"
    "pc_read_seq (cursor7 B blob) + 1 < MAX_SEQ" "(4 :: int) < 2 ^ 32" "quiet_env env4" "quiet_script quiet7"
    "dget (pe_keyring env4) (em_key_id (pc_manifest (cursor7 B blob))) = Some [7]"
    "dget (ws_keyring ws7) (em_key_id (pc_manifest (cursor7 B blob))) = Some [7]"
    "dget (ws_active ws7) (em_scope_id (pc_manifest (cursor7 B blob)), sd_segment_id (pc_active (cursor7 B blob)) + 1) = None"
  by (simp_all add: cursor7_def man7_def fresh_segment_def seg5_def quiet_env_def env4_def quiet_script_def quiet7_def ws7_def)

subsection \<open>The properties\<close>

text \<open>C4: A compaction of a healthy scope succeeds. When the writer is drained and owns the lease, its
  snapshot is the one of the published cursor, the published generation opens, its values are bytes and
  its sizes are within the limits, and no call fails, then the call returns a package whose candidate
  opens as VALID in the stores it leaves, and the new generation answers as the compaction of the old
  one; or the object store has another blob under the SHA-256 of one of the artifacts, and the
  integrity error of the store is raised.\<close>

theorem compaction_prepares:
  assumes "compaction_source env objs ws c h" "ready_writer w c l" "quiet_env env" "quiet_script sc"
    and "dget (pe_keyring env) (em_key_id (pc_manifest c)) = Some key" "dget (ws_keyring ws) (em_key_id (pc_manifest c)) = Some key"
    and "em_generation_id (pc_manifest c) < 2 ^ 31" "sd_segment_id (pc_active c) < U32_MAX" "pc_read_seq c + 1 < MAX_SEQ" "ret < 2 ^ 32"
    and "materialize_state h = Inr facts" "\<forall>(fid, line) \<in> set facts. u8_line line" "small_enough h facts"
    and "dget (ws_active ws) (em_scope_id (pc_manifest c), sd_segment_id (pc_active c) + 1) = None"
    and "prepare_compaction env w objs ws wlim ret held sc = (out, w', objs', ws', held')"
  shows "out = CxRaise CxIntegrity \<and> (\<exists>blobs n. build_base_artifacts (ge_np (pe_gen env)) facts (Some (gh_dedup h)) (gh_txindex h)
         (em_scope_id (pc_manifest c)) (em_generation_id (pc_manifest c) + 1) (pc_read_seq c) ret key = Inr (CP_PREPARED, blobs, n) \<and>
         digest_clash objs' blobs) \<or>
    (\<exists>p h'. out = CxRet (CompactionResult CP_PREPARED (Some p)) \<and>
       open_generation (recovery_gen_env env DEFAULT_GENERATION_LIMITS objs' ws') (Some (cm_candidate_blob p)) = Inr (G_VALID, Some h') \<and>
       compacted_from h ret h')"
  by (rule prepare_succeeds [OF assms(1-5,7-13,6,14,15)])

theorem compaction_prepares_witness:
  "\<exists>B blob. em_serialize (man7 B) [7] = Some blob \<and>
    ((\<exists>k k'. B k \<noteq> B k' \<and> sha256 (B k) = sha256 (B k')) \<or> sha256 blob = ZERO32 \<or>
     (\<exists>h out w' objs' ws' held'.
        prepare_compaction env4 (writer7 (cursor7 B blob) h) (objs7 B) ws7 (wal_limits DEFAULT_GENERATION_LIMITS) 4 (\<lambda>s. s = 3) quiet7
          = (out, w', objs', ws', held') \<and>
        (out = CxRaise CxIntegrity \<or>
         (\<exists>p h'. out = CxRet (CompactionResult CP_PREPARED (Some p)) \<and>
            open_generation (recovery_gen_env env4 DEFAULT_GENERATION_LIMITS objs' ws') (Some (cm_candidate_blob p)) = Inr (G_VALID, Some h')))))"
proof -
  obtain B blob where em: "em_serialize (man7 B) [7] = Some blob" and alt: "(\<exists>k k'. B k \<noteq> B k' \<and> sha256 (B k) = sha256 (B k')) \<or>
      sha256 blob = ZERO32 \<or> (\<exists>h facts. compaction_source env4 (objs7 B) ws7 (cursor7 B blob) h \<and> materialize_state h = Inr facts \<and>
        (\<forall>(fid, line) \<in> set facts. u8_line line) \<and> small_enough h facts)"
    using world7 by blast
  from alt show ?thesis
  proof (elim disjE)
    assume "\<exists>h facts. compaction_source env4 (objs7 B) ws7 (cursor7 B blob) h \<and> materialize_state h = Inr facts \<and>
        (\<forall>(fid, line) \<in> set facts. u8_line line) \<and> small_enough h facts"
    then obtain h facts where s: "compaction_source env4 (objs7 B) ws7 (cursor7 B blob) h" and m: "materialize_state h = Inr facts"
      "\<forall>(fid, line) \<in> set facts. u8_line line" "small_enough h facts" by blast
    note c = call7 [OF s m]
    obtain out w' objs' ws' held' where r: "prepare_compaction env4 (writer7 (cursor7 B blob) h) (objs7 B) ws7
        (wal_limits DEFAULT_GENERATION_LIMITS) 4 (\<lambda>s. s = 3) quiet7 = (out, w', objs', ws', held')"
      using prod_cases5 by blast
    from compaction_prepares [OF s ready7 c(5-8,1-4) m c(9) r] em r show ?thesis by blast
  qed (use em in blast)+
qed

text \<open>C5: The generation of a prepared package answers like the one it compacts. Whatever calls of the
  compaction failed before, if it returned a package, then wherever its candidate opens as VALID (with
  any limits, any log, in any store that kept the objects) the new generation has the same scope, the
  next number, and the read position of the old one as its base; every fact reads the same value or is
  deleted as before, with the same version fence, a fact the old base abstained on is not found, and a
  retry of every operation is answered as the retention window and the merged memory say.\<close>

theorem prepared_compaction_answers:
  assumes "compaction_source env objs ws c h" "pw_cursor w = Some c" "ret < 2 ^ 32"
    and "prepare_compaction env w objs ws wlim ret held sc = (CxRet (CompactionResult CP_PREPARED (Some p)), w', objs', ws', held')"
    and "\<And>d b. dget objs' d = Some b \<Longrightarrow> dget objs2 d = Some b"
    and "open_generation (recovery_gen_env env lim objs2 ws2) (Some (cm_candidate_blob p)) = Inr (G_VALID, Some h')"
  shows "gh_scope_id h' = gh_scope_id h \<and> gh_generation_id h' = gh_generation_id h + 1 \<and>
    gh_base_seq h' = gh_read_seq h \<and> gh_read_seq h' = gh_read_seq h \<and>
    (\<forall>fid. \<exists>a. read_fact h fid = Inr (Some a) \<and> read_fact h' fid = Inr (Some (compacted_read a)) \<and>
       (rr_status (compacted_read a) = RNotFound \<or> fact_version h' fid = fact_version h fid)) \<and>
    (\<forall>op. dget (gh_txindex h') op = None) \<and>
    (\<forall>op digest. case split_opid op of None \<Rightarrow> True
       | Some (cl, x) \<Rightarrow> dt_probe (gh_dedup h') op digest = Inr (merged_probe h ret op digest cl x))"
proof -
  have c: "pw_cursor w' = Some c" using prepare_keeps(1) [OF assms(4)] assms(2) by (simp add: compaction_keeps_def)
  have "compacted_from h ret h'" by (rule prepared_compacted [OF assms(4) c assms(1,3,5,6)])
  then show ?thesis unfolding compacted_from_def by (intro conjI) (blast, blast, blast, blast, blast, blast, simp split: option.splits)
qed

theorem prepared_compaction_answers_witness:
  "\<exists>B blob. em_serialize (man7 B) [7] = Some blob \<and>
    ((\<exists>k k'. B k \<noteq> B k' \<and> sha256 (B k) = sha256 (B k')) \<or> sha256 blob = ZERO32 \<or>
     (\<exists>h out w' objs' ws' held'.
        prepare_compaction env4 (writer7 (cursor7 B blob) h) (objs7 B) ws7 (wal_limits DEFAULT_GENERATION_LIMITS) 4 (\<lambda>s. s = 3) quiet7
          = (out, w', objs', ws', held') \<and>
        (out = CxRaise CxIntegrity \<or>
         (\<exists>p h'. out = CxRet (CompactionResult CP_PREPARED (Some p)) \<and>
            open_generation (recovery_gen_env env4 DEFAULT_GENERATION_LIMITS objs' ws') (Some (cm_candidate_blob p)) = Inr (G_VALID, Some h') \<and>
            read_fact h' 5 = Inr (Some (ReadResult RFromBulk (Some 40) True SrcBulk)) \<and>
            read_fact h' 9 = Inr (Some (ReadResult RDeleted None True SrcTombstone))))))"
proof -
  obtain B blob where em: "em_serialize (man7 B) [7] = Some blob" and alt: "(\<exists>k k'. B k \<noteq> B k' \<and> sha256 (B k) = sha256 (B k')) \<or>
      sha256 blob = ZERO32 \<or> (\<exists>h facts. compaction_source env4 (objs7 B) ws7 (cursor7 B blob) h \<and> materialize_state h = Inr facts \<and>
        (\<forall>(fid, line) \<in> set facts. u8_line line) \<and> small_enough h facts \<and>
        read_fact h 5 = Inr (Some (ReadResult RFromBulk (Some 40) True SrcBulk)) \<and>
        read_fact h 9 = Inr (Some (ReadResult RDeleted None True SrcTombstone)))"
    using world7 by blast
  from alt show ?thesis
  proof (elim disjE exE)
    fix h facts
    assume w: "compaction_source env4 (objs7 B) ws7 (cursor7 B blob) h \<and> materialize_state h = Inr facts \<and>
        (\<forall>(fid, line) \<in> set facts. u8_line line) \<and> small_enough h facts \<and>
        read_fact h 5 = Inr (Some (ReadResult RFromBulk (Some 40) True SrcBulk)) \<and>
        read_fact h 9 = Inr (Some (ReadResult RDeleted None True SrcTombstone))"
    then have s: "compaction_source env4 (objs7 B) ws7 (cursor7 B blob) h" and m: "materialize_state h = Inr facts"
      "\<forall>(fid, line) \<in> set facts. u8_line line" "small_enough h facts" by blast+
    note c = call7 [OF s m]
    obtain out w' objs' ws' held' where r: "prepare_compaction env4 (writer7 (cursor7 B blob) h) (objs7 B) ws7
        (wal_limits DEFAULT_GENERATION_LIMITS) 4 (\<lambda>s. s = 3) quiet7 = (out, w', objs', ws', held')"
      using prod_cases5 by blast
    have pc: "pw_cursor (writer7 (cursor7 B blob) h) = Some (cursor7 B blob)" using ready7 by (simp add: ready_writer_def)
    from prepare_succeeds [OF s ready7 c(5-7,1-4) m c(8,9) r] show ?thesis
    proof (elim disjE exE conjE)
      assume "out = CxRaise CxIntegrity"
      then show ?thesis using em r by blast
    next
      fix p h'
      assume o: "out = CxRet (CompactionResult CP_PREPARED (Some p))"
        and g: "open_generation (recovery_gen_env env4 DEFAULT_GENERATION_LIMITS objs' ws') (Some (cm_candidate_blob p)) = Inr (G_VALID, Some h')"
      from prepared_compaction_answers [OF s pc c(4) r [unfolded o] _ g]
      have rd: "\<exists>a. read_fact h fid = Inr (Some a) \<and> read_fact h' fid = Inr (Some (compacted_read a))" for fid by blast
      have "read_fact h' 5 = Inr (Some (ReadResult RFromBulk (Some 40) True SrcBulk))"
        "read_fact h' 9 = Inr (Some (ReadResult RDeleted None True SrcTombstone))"
        using rd [of 5] rd [of 9] w by (auto simp: compacted_read_def)
      then show ?thesis using em r o g by blast
    qed
  qed (use em in blast)+
qed

text \<open>C6: No outcome of a compaction touches what is published. Whatever fails and wherever the process
  dies: the pointer, the published cursor, the bytes of the log and the snapshot of the writer stay, no
  object is lost, and no file of the WAL directory changes but the ACTIVE file of the next segment, which
  is written only where there was none. The lease of the scope is released with every answer but
  PREPARED, goes into the sealed package with PREPARED, and is still held when an exception escapes.\<close>

theorem compaction_touches_nothing:
  assumes "prepare_compaction env w objs ws wlim ret held sc = (out, w', objs', ws', held')"
  shows "pw_store w' = pw_store w \<and> pw_cursor w' = pw_cursor w \<and> gs_file (pw_gc w') = gs_file (pw_gc w) \<and>
    gs_snapshot (pw_gc w') = gs_snapshot (pw_gc w) \<and> (\<forall>d \<in> set (dkeys objs). dget objs' d = dget objs d) \<and>
    ws_objects ws' = ws_objects ws \<and> ws_keyring ws' = ws_keyring ws \<and>
    (\<forall>i. dget (ws_active ws') i = dget (ws_active ws) i \<or>
       dget (ws_active ws) i = None \<and> (\<exists>c. pw_cursor w = Some c \<and> i = (em_scope_id (pc_manifest c), sd_segment_id (pc_active c) + 1))) \<and>
    (case detach_compaction w held of (Some (sn, Some l), w1) \<Rightarrow> lease_outcome l held held' out | _ \<Rightarrow> True)"
proof -
  note k = prepare_keeps(1) [OF assms, unfolded compaction_keeps_def]
  have o: "\<forall>d \<in> set (dkeys objs). dget objs' d = dget objs d"
    using k by (metis map_of_eq_None_iff not_None_eq set_map)
  have w: "ws_objects ws' = ws_objects ws" "ws_keyring ws' = ws_keyring ws"
    "dget (ws_active ws') i = dget (ws_active ws) i \<or>
       dget (ws_active ws) i = None \<and> (\<exists>c. pw_cursor w = Some c \<and> i = (em_scope_id (pc_manifest c), sd_segment_id (pc_active c) + 1))" for i
    using k by (auto simp: adds_file_def dget_dput split: if_splits)
  have "case detach_compaction w held of (Some (sn, Some l), w1) \<Rightarrow> lease_outcome l held held' out | _ \<Rightarrow> True"
    using prepare_keeps(2) [OF assms] by (auto split: prod.splits option.splits)
  then show ?thesis using k o w by blast
qed

theorem compaction_touches_nothing_witness:
  "\<exists>h out w' objs' ws' held'. prepare_compaction env4 (writer7 (cursor7 (\<lambda>_. []) []) h) [([1], [2])] ws7
      (wal_limits DEFAULT_GENERATION_LIMITS) 4 (\<lambda>s. s = 3) (quiet7\<lparr>px_kill_base := True\<rparr>) = (out, w', objs', ws', held') \<and>
    dget objs' [1] = Some [2] \<and> dget (ws_active ws') (3, 1) = Some (RegularFile (wal_image [7] seg5 []))"
proof -
  fix h
  obtain out w' objs' ws' held' where r: "prepare_compaction env4 (writer7 (cursor7 (\<lambda>_. []) []) h) [([1], [2])] ws7
      (wal_limits DEFAULT_GENERATION_LIMITS) 4 (\<lambda>s. s = 3) (quiet7\<lparr>px_kill_base := True\<rparr>) = (out, w', objs', ws', held')"
    using prod_cases5 by blast
  note t = compaction_touches_nothing [OF r]
  have "dget (ws_active ws7) (3, 1) = Some (RegularFile (wal_image [7] seg5 []))" by (simp add: ws7_def)
  moreover have "dget [([1 :: 8 word], [2 :: 8 word])] [1] = Some [2]" by simp
  ultimately show ?thesis using r t by (metis (no_types, lifting) option.distinct(1) list.set_intros(1) list.simps(9) fst_conv)
qed

end
