(* ===== verification/GcProperties.thy ===== *)
theory GcProperties
  imports GcLive CompactionProperties
begin

section \<open>Properties of garbage collection\<close>

text \<open>
  What every outcome of a collection keeps, what a recovery gives back, what a collection without
  failures does, and two ways in which the protocol falls short of its purpose. The witnesses
  collect one stray object beside the published generation of three facts.
\<close>

subsection \<open>A scope to collect\<close>

definition stray :: bytes where "stray = replicate 32 5"

text \<open>The digests of the objects are taken to differ.\<close>

definition digests_clash :: "(artifact_kind \<Rightarrow> bytes) \<Rightarrow> bytes list \<Rightarrow> bool" where
  "digests_clash B xs \<longleftrightarrow> (\<exists>k k'. B k \<noteq> B k' \<and> sha256 (B k) = sha256 (B k')) \<or> \<not> distinct (ZERO32 # stray # map sha256 xs) \<or>
     (\<exists>k. sha256 (B k) \<in> set (stray # map sha256 xs))"

definition record8 :: "(artifact_kind \<Rightarrow> bytes) \<Rightarrow> bytes \<Rightarrow> int \<Rightarrow> bytes \<Rightarrow> publication_record" where
  "record8 B blob revision prev = new_record (man7 B) blob revision prev 1"

definition world8 :: "(artifact_kind \<Rightarrow> bytes) \<Rightarrow> bytes list \<Rightarrow> bytes \<Rightarrow> gc_world" where
  "world8 B xs cur = \<lparr>gw_store = \<lparr>pd_scope = Some 3, pd_current = Some (RegularFile cur), pd_synced = None, pd_temps = 0,
       pd_objects = objs7 B @ map (\<lambda>x. (sha256 x, x)) xs @ [(stray, [1])]\<rparr>,
     gw_active = ws_active ws7, gw_wal_keys = [(1, [7])], gw_quarantine = [], gw_journals = [], gw_legacy = None,
     gw_prepared = [], gw_named = [], gw_eph = []\<rparr>"

text \<open>The manifest, its record and its pointer, and a later record of the same manifest with its pointer.\<close>

definition published8 :: "(artifact_kind \<Rightarrow> bytes) \<Rightarrow> bytes \<Rightarrow> bytes \<Rightarrow> bytes \<Rightarrow> bytes \<Rightarrow> bytes \<Rightarrow> bool" where
  "published8 B blob rb cur rb2 cur2 \<longleftrightarrow> em_serialize (man7 B) [7] = Some blob \<and>
     pub_serialize (record8 B blob 0 ZERO32) [7] = Some rb \<and> serialize_current (sha256 rb) 1 [7] = Some cur \<and>
     pub_serialize (record8 B blob 1 (sha256 rb)) [7] = Some rb2 \<and> serialize_current (sha256 rb2) 1 [7] = Some cur2"

definition reads0 :: gc_reads where
  "reads0 = \<lparr>rd_current = None, rd_named = (\<lambda>_. None), rd_prepared = (\<lambda>_. None), rd_open_fails = (\<lambda>_. False)\<rparr>"

definition script8 :: "(gc_world \<Rightarrow> gc_world) \<Rightarrow> gc_script" where
  "script8 hook = \<lparr>gs_gc_lock = True, gs_pin_lock = True, gs_busy = False, gs_gather = reads0, gs_sig1 = reads0, gs_sig2 = reads0,
     gs_reap_fails = (\<lambda>_. False), gs_after_roots = hook, gs_after_plan = (\<lambda>w. w), gs_after_reread = (\<lambda>s. s),
     gs_journal = None, gs_move = (\<lambda>_. None), gs_kill = None\<rparr>"

lemma objs8_get:
  assumes "\<not> digests_clash B xs"
  shows "dget (gw_objects (world8 B xs cur)) (sha256 (B k)) = Some (B k)"
    and "x \<in> set xs \<Longrightarrow> dget (gw_objects (world8 B xs cur)) (sha256 x) = Some x"
    and "dget (gw_objects (world8 B xs cur)) stray = Some [1]" "names_ok (gw_objects (world8 B xs cur))"
proof -
  have inj: "\<And>k k'. sha256 (B k) = sha256 (B k') \<Longrightarrow> B k = B k'" using assms by (auto simp: digests_clash_def)
  have o7: "dget (objs7 B) (sha256 (B k)) = Some (B k)" for k using objs7_get [of B, OF inj] .
  then show "dget (gw_objects (world8 B xs cur)) (sha256 (B k)) = Some (B k)" by (simp add: world8_def dget_append)
  have n7: "dget (objs7 B) y = None" if "y \<in> set (stray # map sha256 xs)" for y
  proof -
    have "sha256 (B k) \<noteq> y" for k using assms that by (auto simp: digests_clash_def)
    then show ?thesis unfolding objs7_def map_of_eq_None_iff by fastforce
  qed
  have xs: "dget (map (\<lambda>x. (sha256 x, x)) ys) (sha256 x) = Some x" if "distinct (map sha256 ys)" "x \<in> set ys" for ys x
    using that by (induction ys) (auto simp: image_iff)
  show "dget (gw_objects (world8 B xs cur)) (sha256 x) = Some x" if "x \<in> set xs"
    using that n7 [of "sha256 x"] xs [of xs x] assms by (simp add: world8_def map_add_def digests_clash_def)
  have "dget (map (\<lambda>x. (sha256 x, x)) xs) stray = None"
    using assms by (auto simp: digests_clash_def map_of_eq_None_iff image_iff)
  then show "dget (gw_objects (world8 B xs cur)) stray = Some [1]"
    using n7 [of stray] by (simp add: world8_def map_add_def)
  show "names_ok (gw_objects (world8 B xs cur))"
    by (auto simp: names_ok_def world8_def objs7_def stray_def)
qed

lemma published8_exists:
  "\<exists>B blob rb cur rb2 cur2. published8 B blob rb cur rb2 cur2 \<and>
    (digests_clash B [blob, rb, rb2] \<or> (\<exists>h. compaction_source env4 (objs7 B) ws7 (cursor7 B blob) h))"
proof -
  obtain B blob where em: "em_serialize (man7 B) [7] = Some blob" and alt: "(\<exists>k k'. B k \<noteq> B k' \<and> sha256 (B k) = sha256 (B k')) \<or>
      sha256 blob = ZERO32 \<or> (\<exists>h. compaction_source env4 (objs7 B) ws7 (cursor7 B blob) h)"
    using world7 by blast
  have sr: "\<exists>rb. pub_serialize (record8 B blob rev prev) [7] = Some rb" if "length prev = 32" "rev \<in> {0, 1}" for rev prev
  proof -
    have "list_all2 fits PR_LAYOUT (pub_row (record8 B blob rev prev))"
      using that by (auto simp: pub_row_def record8_def new_record_def man7_def)
    then show ?thesis using fits_struct_pack by (fastforce simp: pub_serialize_def)
  qed
  have sc: "\<exists>cur. serialize_current d 1 [7] = Some cur" if "length d = 32" for d
  proof -
    have "list_all2 fits CUR_LAYOUT (cur_row d 1)" using that by (simp add: cur_row_def)
    then show ?thesis using fits_struct_pack that by (fastforce simp: serialize_current_def)
  qed
  obtain rb where rb: "pub_serialize (record8 B blob 0 ZERO32) [7] = Some rb" using sr [of ZERO32 0] by auto
  obtain rb2 where rb2: "pub_serialize (record8 B blob 1 (sha256 rb)) [7] = Some rb2" using sr [of "sha256 rb" 1] by auto
  obtain cur cur2 where "serialize_current (sha256 rb) 1 [7] = Some cur" "serialize_current (sha256 rb2) 1 [7] = Some cur2"
    using sc [of "sha256 rb"] sc [of "sha256 rb2"] by auto
  then have p: "published8 B blob rb cur rb2 cur2" using em rb rb2 by (simp add: published8_def)
  have "digests_clash B [blob, rb, rb2] \<or> (\<exists>h. compaction_source env4 (objs7 B) ws7 (cursor7 B blob) h)"
    using alt by (auto simp: digests_clash_def)
  then show ?thesis using p by blast
qed

text \<open>The closure of the publication, and the roots.\<close>

lemma opens8:
  assumes n: "\<not> digests_clash B [blob, rb, rb2]" and s: "compaction_source env4 (objs7 B) ws7 (cursor7 B blob) h"
  shows "parse_manifest (Some blob) (pe_keyring env4) = (G_VALID, Some (man7 B))" "cursor_ok (cursor7 B blob)"
    "gh_scope_id h = 3" "gh_generation_id h = 1" "gh_fact_count h = 3"
    "open_generation (recovery_gen_env env4 DEFAULT_GENERATION_LIMITS (gw_objects (world8 B [blob, rb, rb2] c)) (gw_wal (world8 B [blob, rb, rb2] c)))
       (Some blob) = Inr (G_VALID, Some h)"
    "generation_preflight (man7 B) (length blob) DEFAULT_GENERATION_LIMITS"
proof -
  let ?w = "world8 B [blob, rb, rb2] c"
  let ?e = "recovery_gen_env env4 DEFAULT_GENERATION_LIMITS (objs7 B) ws7"
  note g = objs8_get [OF n, where cur = c]
  have og: "open_generation ?e (Some blob) = Inr (G_VALID, Some h)"
    and co: "cursor_ok (cursor7 B blob)" and pm: "parse_manifest (Some blob) (pe_keyring env4) = (G_VALID, Some (man7 B))"
    using s by (simp_all add: compaction_source_def sealed_source_def cursor7_def)
  show "parse_manifest (Some blob) (pe_keyring env4) = (G_VALID, Some (man7 B))" "cursor_ok (cursor7 B blob)" by (rule pm co)+
  have pe: "parse_manifest (Some blob) (ge_keyring ?e) = (G_VALID, Some (man7 B))" and ge: "ge_gen_limits ?e = DEFAULT_GENERATION_LIMITS"
    using pm by (simp_all add: recovery_gen_env_def)
  obtain m where "parse_manifest (Some blob) (ge_keyring ?e) = (G_VALID, Some m)" "generation_preflight m (length (the (Some blob))) (ge_gen_limits ?e)"
    using open_generation_valid [OF og] by blast
  then show "generation_preflight (man7 B) (length blob) DEFAULT_GENERATION_LIMITS" using pe by (simp add: ge)
  obtain r b f t frs hist where gp: "generation_parts (recovery_gen_env env4 DEFAULT_GENERATION_LIMITS (objs7 B) ws7) (man7 B) r b f t (gh_dedup h) frs hist h"
    by (rule source_parts [OF s]) (simp add: cursor7_def)
  then show "gh_scope_id h = 3" "gh_generation_id h = 1" "gh_fact_count h = 3"
    by (simp_all add: generation_parts_def generation_of_def man7_def)
  have same: "dget (objs7 B) (sha256 (B k)) = dget (gw_objects ?w) (sha256 (B k))" for k
    using objs7_get [of B] n g(1) by (auto simp: digests_clash_def)
  have "open_generation (recovery_gen_env env4 DEFAULT_GENERATION_LIMITS (gw_objects ?w) (gw_wal ?w)) (Some blob)
      = open_generation (recovery_gen_env env4 DEFAULT_GENERATION_LIMITS (objs7 B) ws7) (Some blob)"
  proof (rule open_generation_cong [OF pm])
    show "same_files ws7 (gw_wal ?w)" by (simp add: same_files_def world8_def ws7_def)
    show "dget (gw_objects ?w) (ad_sha256 d) = dget (objs7 B) (ad_sha256 d)" if "dget (em_base_descriptors (man7 B)) k = Some d" for k d
      using that same [of k] by (auto simp: man7_def make_descriptor_def)
    show "dget (ws_objects (gw_wal ?w)) (wsd_sealed_object_sha256 x) = dget (ws_objects ws7) (wsd_sealed_object_sha256 x)"
      if "x \<in> set (em_segments (man7 B))" "wsd_status x = STATE_SEALED" for x
      using that by (auto simp: man7_def fresh_segment_def)
  qed
  then show "open_generation (recovery_gen_env env4 DEFAULT_GENERATION_LIMITS (gw_objects ?w) (gw_wal ?w)) (Some blob) = Inr (G_VALID, Some h)"
    using og by simp
qed

lemma reach8:
  assumes p: "published8 B blob rb cur rb2 cur2" and n: "\<not> digests_clash B [blob, rb, rb2]"
    and s: "compaction_source env4 (objs7 B) ws7 (cursor7 B blob) h"
  shows "world_reach env4 DEFAULT_REACH_LIMITS (world8 B [blob, rb, rb2] c) (sha256 rb) =
    RoOk (obj_item (sha256 rb) # obj_item (sha256 blob) # map (\<lambda>k. obj_item (sha256 (B k))) BASE_KINDS @ [active_item 3 1])"
proof -
  let ?w = "world8 B [blob, rb, rb2] c"
  note g = objs8_get [OF n, where cur = c]
  note pm = opens8(1) [OF n s] and co = opens8(2) [OF n s] and ids = opens8(3-5) [OF n s] and og8 = opens8(6) [OF n s, of c]
  have z: "sha256 blob \<noteq> ZERO32" using n by (auto simp: digests_clash_def)
  have canon: "pub_canonical (record8 B blob 0 ZERO32)"
    using z by (simp add: pub_canonical_def record8_def new_record_def man7_def)
  have pr: "parse_publication_record (Some rb) (pe_keyring env4) = (PS_VALID, Some (record8 B blob 0 ZERO32))"
    by (rule pub_parse_serialized [OF _ _ canon, of "[7]"]) (use p in \<open>simp_all add: published8_def record8_def new_record_def env4_def\<close>)
  have lr: "length rb = 114"
    using p struct_pack_length by (fastforce simp: published8_def pub_serialize_def)
  have "manifest_fits (man7 B)" using co by (simp add: cursor_ok_def cursor7_def)
  then have lb: "length blob \<le> 2 ^ 24" using p em_serialize_length [of "man7 B" "[7]" blob] by (simp add: published8_def man7_def)
  have gr: "dget (gw_objects ?w) (sha256 rb) = Some rb" "dget (gw_objects ?w) (sha256 blob) = Some blob" using g(2) by simp_all
  have its: "manifest_items (man7 B) = Some (map (\<lambda>k. obj_item (sha256 (B k))) BASE_KINDS @ [active_item 3 1])"
    by (simp add: manifest_items_def man7_def make_descriptor_def list_all_iff fresh_segment_def seg5_def)
  have ms: "pub_manifest_sha256 (record8 B blob 0 ZERO32) = sha256 blob" by (simp add: record8_def new_record_def)
  have ch: "ge_changed (pe_gen env4) x = False" for x by (simp add: env4_def)
  have mid: "em_scope_id (man7 B) = 3" "em_generation_id (man7 B) = 1" "em_fact_count (man7 B) = 3" by (simp_all add: man7_def)
  show ?thesis
    unfolding world_reach_def reach_from_publication_def Let_def
    using lr lb by (simp add: get_limited_def gr DEFAULT_REACH_LIMITS_def ch pr ms pm og8 mid ids its)
qed

lemma gather8:
  assumes "published8 B blob rb cur rb2 cur2" "c \<in> {(sha256 rb, cur), (sha256 rb2, cur2)}"
  shows "gather_roots env4 DEFAULT_REACH_LIMITS 1 reads0 (world8 B xs (snd c)) =
      RoOk \<lparr>ro_current = fst c, ro_pinned = [], ro_retained = [], ro_objects = [], ro_actives = []\<rparr>"
    and "root_signature env4 reads0 (world8 B xs (snd c)) = PRet (Some (Some (fst c), {}, {}, {}))"
    and "read_current (Some (RegularFile (snd c))) (pe_keyring env4) (pe_max_current_bytes env4) None =
      PRet (PS_VALID, Some \<lparr>cp_publication_sha256 = fst c, cp_key_id = 1\<rparr>)"
proof -
  have k: "dget (pe_keyring env4) 1 = Some [7]" "pe_max_current_bytes env4 = 4096" by (simp_all add: env4_def)
  have s: "serialize_current (fst c) 1 [7] = Some (snd c)" using assms by (auto simp: published8_def)
  then have "length (snd c) = 58" by (rule serialize_current_length)
  then show rc: "read_current (Some (RegularFile (snd c))) (pe_keyring env4) (pe_max_current_bytes env4) None =
      PRet (PS_VALID, Some \<lparr>cp_publication_sha256 = fst c, cp_key_id = 1\<rparr>)"
    using cur_parse_serialized [OF s k(1)] by (simp add: read_current_def k(2))
  have w: "world_pins kr reads0 (world8 B xs y) = ScOk []" "world_prepared kr reads0 (world8 B xs y) = ScOk ([], [])" for kr y
    by (simp_all add: world_pins_def scan_pins_def world_prepared_def by_name_def world8_def live_ephemeral_def)
  have c: "pd_current (gw_store (world8 B xs (snd c))) = Some (RegularFile (snd c))" "rd_current reads0 = None"
    by (simp_all add: world8_def reads0_def)
  show "gather_roots env4 DEFAULT_REACH_LIMITS 1 reads0 (world8 B xs (snd c)) =
      RoOk \<lparr>ro_current = fst c, ro_pinned = [], ro_retained = [], ro_objects = [], ro_actives = []\<rparr>"
    by (simp add: gather_roots_def w compute_roots_def c rc)
  show "root_signature env4 reads0 (world8 B xs (snd c)) = PRet (Some (Some (fst c), {}, {}, {}))"
    by (simp add: root_signature_def w c rc Let_def)
qed

lemma sha256_not_Nil [simp]: "sha256 m \<noteq> []"
  using length_sha256 [of m] by (metis list.size(3) zero_neq_numeral)

lemma reaped8 [simp]: "reaped sc (world8 B xs cur) = world8 B xs cur"
  by (simp add: reaped_def world8_def reap_dead_ephemeral_def)

lemma plan8:
  assumes p: "published8 B blob rb cur rb2 cur2" and n: "\<not> digests_clash B [blob, rb, rb2]"
    and s: "compaction_source env4 (objs7 B) ws7 (cursor7 B blob) h"
  shows "\<exists>plan. plan_reachability env4 DEFAULT_REACH_LIMITS (gw_objects (world8 B [blob, rb, rb2] c)) (gw_wal (world8 B [blob, rb, rb2] c))
      \<lparr>ro_current = sha256 rb, ro_pinned = [], ro_retained = [], ro_objects = [], ro_actives = []\<rparr> = RoOk plan \<and>
    obj_item stray \<in> set (gp_unreachable plan) \<and> obj_item (sha256 rb2) \<in> set (gp_unreachable plan)"
proof -
  let ?w = "world8 B [blob, rb, rb2] c"
  let ?its = "obj_item (sha256 rb) # obj_item (sha256 blob) # map (\<lambda>k. obj_item (sha256 (B k))) BASE_KINDS @ [active_item 3 1]"
  have ap: "all_publication_digests \<lparr>ro_current = sha256 rb, ro_pinned = [], ro_retained = [], ro_objects = [], ro_actives = []\<rparr> = [sha256 rb]"
    by (simp add: all_publication_digests_def)
  have "reach_from_publication env4 DEFAULT_REACH_LIMITS (gw_objects ?w) (gw_wal ?w) (sha256 rb) = RoOk ?its"
    using reach8 [OF p n s] by (simp add: world_reach_def)
  then have ra: "reach_all (reach_from_publication env4 DEFAULT_REACH_LIMITS (gw_objects ?w) (gw_wal ?w)) (rh_max_nodes DEFAULT_REACH_LIMITS)
      [sha256 rb] = RoOk ?its"
    by (simp add: DEFAULT_REACH_LIMITS_def)
  have u: "obj_item x \<in> set (filter (\<lambda>it. it \<notin> set ?its) (enumerate_objects (gw_objects ?w) @ enumerate_active (gw_wal ?w)))"
    if x: "x = stray \<or> x = sha256 rb2" for x
  proof -
    have "x \<in> set (dkeys (gw_objects ?w))" using x by (auto simp: world8_def)
    then have "obj_item x \<in> set (enumerate_objects (gw_objects ?w))" by (force simp: enumerate_objects_def)
    moreover have "x \<noteq> sha256 rb" "x \<noteq> sha256 blob" "\<And>k. x \<noteq> sha256 (B k)"
      using n x by (auto simp: digests_clash_def)
    ultimately show ?thesis by auto
  qed
  show ?thesis
    unfolding plan_reachability_def ap ra using u by (simp add: Let_def)
qed

lemma world8_simps:
  "registry_pair (gw_store (world8 B xs c)) None None" "dget (gw_journals (world8 B xs c)) y = None"
  "length (gw_objects (world8 B [blob, rb, rb2] c)) = 9" "gw_active (world8 B xs c) = ws_active ws7"
  "gw_wal_keys (world8 B xs c) = [(1, [7])]" "gw_objects (world8 B xs c') = gw_objects (world8 B xs c)"
  by (simp_all add: registry_pair_def world8_def objs7_def BASE_KINDS_def)

lemma script8_simps:
  "quiet_gc (script8 hook)" "gs_gather (script8 hook) = reads0" "gs_sig1 (script8 hook) = reads0" "gs_sig2 (script8 hook) = reads0"
  "undisturbed (script8 (\<lambda>w. w))" "gentle (script8 (\<lambda>w. w))" "gs_after_roots (script8 hook) = hook"
  "gs_reap_fails (script8 hook) = (\<lambda>_. False)"
  by (simp_all add: quiet_gc_def script8_def undisturbed_def gentle_def)

subsection \<open>The properties\<close>

text \<open>C7: A collection keeps what its roots reach. Whatever fails, wherever the process dies, and while
  other processes put objects, register packages, pin and publish between its steps: for every
  publication among the roots the collection gathered (the one of \<open>CURRENT\<close>, the retained ancestors,
  the pinned ones) whose generation opens before, the traversal finds the same closure afterwards, so
  the generation still opens; and every object of a prepared package stays.\<close>

theorem collection_keeps_roots:
  assumes "run_gc env lim pins prepared ret kid be sc w = (out, w')" "gentle sc"
    and "gather_roots env lim ret (gs_gather sc) (reaped sc w) = RoOk roots"
  shows "(\<forall>d \<in> set (all_publication_digests roots). \<forall>its. world_reach env lim w d = RoOk its \<longrightarrow> world_reach env lim w' d = RoOk its) \<and>
    (\<forall>x \<in> set (ro_objects roots). \<forall>b. dget (gw_objects w) x = Some b \<longrightarrow> dget (gw_objects w') x = Some b)"
  using run_gc_keeps [OF assms] by blast

theorem collection_keeps_roots_witness:
  "\<exists>B blob rb cur rb2 cur2. published8 B blob rb cur rb2 cur2 \<and> (digests_clash B [blob, rb, rb2] \<or>
    (\<exists>out w' its. run_gc env4 DEFAULT_REACH_LIMITS None None 1 1 False (script8 (\<lambda>w. w)) (world8 B [blob, rb, rb2] cur) = (out, w') \<and>
       world_reach env4 DEFAULT_REACH_LIMITS w' (sha256 rb) = RoOk its \<and> obj_item (sha256 blob) \<in> set its))"
proof -
  obtain B blob rb cur rb2 cur2 where p: "published8 B blob rb cur rb2 cur2"
    and alt: "digests_clash B [blob, rb, rb2] \<or> (\<exists>h. compaction_source env4 (objs7 B) ws7 (cursor7 B blob) h)"
    using published8_exists by blast
  let ?w = "world8 B [blob, rb, rb2] cur" and ?sc = "script8 (\<lambda>w. w)"
  let ?roots = "\<lparr>ro_current = sha256 rb, ro_pinned = [], ro_retained = [], ro_objects = [], ro_actives = []\<rparr>"
  show ?thesis
  proof (cases "digests_clash B [blob, rb, rb2]")
    case False
    then obtain h where s: "compaction_source env4 (objs7 B) ws7 (cursor7 B blob) h" using alt by blast
    obtain out w' where run: "run_gc env4 DEFAULT_REACH_LIMITS None None 1 1 False ?sc ?w = (out, w')"
      by (cases "run_gc env4 DEFAULT_REACH_LIMITS None None 1 1 False ?sc ?w")
    have g: "gather_roots env4 DEFAULT_REACH_LIMITS 1 (gs_gather ?sc) (reaped ?sc ?w) = RoOk ?roots"
      using gather8(1) [OF p, of "(sha256 rb, cur)"] by (simp add: script8_simps)
    have "sha256 rb \<in> set (all_publication_digests ?roots)"
      by (simp add: set_all_publication_digests)
    with collection_keeps_roots [OF run script8_simps(6) g] reach8 [OF p False s]
    have "world_reach env4 DEFAULT_REACH_LIMITS w' (sha256 rb) = RoOk (obj_item (sha256 rb) # obj_item (sha256 blob) #
        map (\<lambda>k. obj_item (sha256 (B k))) BASE_KINDS @ [active_item 3 1])" by blast
    then show ?thesis using p run by fastforce
  qed (use p in blast)
qed

text \<open>C11: A collection in which no call fails and nothing intervenes does what its plan says. With readable
  roots, a plan, a known journal key and no journal of that plan yet, it ends DONE; exactly the objects
  the plan found unreachable are in the quarantine, in the order of their names, with their bytes, and
  everything else and the pointer are as they were.\<close>

theorem quiet_collection:
  assumes "quiet_gc sc" "undisturbed sc" "registry_pair (gw_store w) pins prepared"
    and "gather_roots env lim ret (gs_gather sc) (reaped sc w) = RoOk roots"
    and "root_signature env (gs_sig1 sc) (reaped sc w) = PRet (Some sig)"
    and "plan_reachability env lim (gw_objects w) (gw_wal w) roots = RoOk plan"
    and "dget (pe_keyring env) kid = Some key" "dget (gw_journals w) (hex (gp_digest plan)) = None"
    and "names_ok (gw_objects w)" "length (gw_objects w) \<le> 1000000" "movable_items plan \<noteq> []"
  shows "\<exists>w'. run_gc env lim pins prepared ret kid be sc w =
      (PRet (GcRunResult GCR_DONE (Some (Inr plan)) (movable_items plan)), w') \<and>
    pd_current (gw_store w') = pd_current (gw_store w) \<and>
    (\<forall>x. obj_item x \<in> set (gp_unreachable plan) \<longrightarrow> dget (gw_objects w') x = None \<and> dget (gw_quarantine w') x = dget (gw_objects w) x) \<and>
    (\<forall>x. obj_item x \<notin> set (gp_unreachable plan) \<longrightarrow>
       dget (gw_objects w') x = dget (gw_objects w) x \<and> dget (gw_quarantine w') x = dget (gw_quarantine w) x)"
proof -
  have r: "gs_after_roots sc (reaped sc w) = reaped sc w" by (rule undisturbed_simps(1) [OF assms(2)])
  have "pd_current (gw_store (reaped sc w)) = pd_current (gw_store w)" by (simp add: reaped_def)
  moreover have "plan_reachability env lim (gw_objects (reaped sc w)) (gw_wal (reaped sc w)) roots = RoOk plan"
    "dget (gw_journals (reaped sc w)) (hex (gp_digest plan)) = None" "names_ok (gw_objects (reaped sc w))"
    "length (gw_objects (reaped sc w)) \<le> 1000000"
    using assms(6,8-10) by simp_all
  from quiet_run [OF assms(1,3,4) r [symmetric] assms(5) this(1) assms(7) this(2-4) assms(11), of be]
  obtain w' where "run_gc env lim pins prepared ret kid be sc w = (PRet (GcRunResult GCR_DONE (Some (Inr plan)) (movable_items plan)), w')"
    "pd_current (gw_store w') = pd_current (gw_store (reaped sc w))"
    "\<forall>x. obj_item x \<in> set (gp_unreachable plan) \<longrightarrow> dget (gw_objects w') x = None \<and> dget (gw_quarantine w') x = dget (gw_objects (reaped sc w)) x"
    "\<forall>x. obj_item x \<notin> set (gp_unreachable plan) \<longrightarrow> dget (gw_objects w') x = dget (gw_objects (reaped sc w)) x \<and>
       dget (gw_quarantine w') x = dget (gw_quarantine (reaped sc w)) x" by blast
  ultimately show ?thesis by simp
qed

theorem quiet_collection_witness:
  "\<exists>B blob rb cur rb2 cur2. published8 B blob rb cur rb2 cur2 \<and> (digests_clash B [blob, rb, rb2] \<or>
    (\<exists>plan w'. run_gc env4 DEFAULT_REACH_LIMITS None None 1 1 False (script8 (\<lambda>w. w)) (world8 B [blob, rb, rb2] cur) =
        (PRet (GcRunResult GCR_DONE (Some (Inr plan)) (movable_items plan)), w') \<and>
       dget (gw_objects w') stray = None \<and> dget (gw_quarantine w') stray = Some [1]))"
proof -
  obtain B blob rb cur rb2 cur2 where p: "published8 B blob rb cur rb2 cur2"
    and alt: "digests_clash B [blob, rb, rb2] \<or> (\<exists>h. compaction_source env4 (objs7 B) ws7 (cursor7 B blob) h)"
    using published8_exists by blast
  let ?w = "world8 B [blob, rb, rb2] cur" and ?sc = "script8 (\<lambda>w. w)"
  show ?thesis
  proof (cases "digests_clash B [blob, rb, rb2]")
    case False
    then obtain h where s: "compaction_source env4 (objs7 B) ws7 (cursor7 B blob) h" using alt by blast
    obtain plan where plan: "plan_reachability env4 DEFAULT_REACH_LIMITS (gw_objects ?w) (gw_wal ?w)
        \<lparr>ro_current = sha256 rb, ro_pinned = [], ro_retained = [], ro_objects = [], ro_actives = []\<rparr> = RoOk plan"
      "obj_item stray \<in> set (gp_unreachable plan)"
      using plan8 [OF p False s] by blast
    have mv: "movable_items plan \<noteq> []"
    proof -
      have "obj_item stray \<in> set (movable_items plan)" using plan(2) by (simp add: movable_items_def) (simp add: obj_item_def)
      then show ?thesis by auto
    qed
    have g: "gather_roots env4 DEFAULT_REACH_LIMITS 1 (gs_gather ?sc) (reaped ?sc ?w) =
        RoOk \<lparr>ro_current = sha256 rb, ro_pinned = [], ro_retained = [], ro_objects = [], ro_actives = []\<rparr>"
      and sg: "root_signature env4 (gs_sig1 ?sc) (reaped ?sc ?w) = PRet (Some (Some (sha256 rb), {}, {}, {}))"
      using gather8(1,2) [OF p, of "(sha256 rb, cur)"] by (simp_all add: script8_simps)
    have k: "dget (pe_keyring env4) 1 = Some [7]" by (simp add: env4_def)
    have l: "length (gw_objects ?w) \<le> 1000000" by (simp add: world8_simps)
    from quiet_collection [OF script8_simps(1,5) world8_simps(1) g sg plan(1) k world8_simps(2) objs8_get(4) [OF False] l mv]
      plan(2) objs8_get(3) [OF False] p
    show ?thesis by fastforce
  qed (use p in blast)
qed

text \<open>C9: What a collection moves is journaled first. Whatever call fails and wherever the process dies,
  every object of the scope (of at most 977, with names of 32 bytes, and no other process in between)
  is afterwards where it was, or it is in the quarantine with the same bytes and listed in a journal
  on disk that the recovery reads under the same key.\<close>

theorem moves_are_journaled:
  assumes "run_gc env lim pins prepared ret kid be sc w = (out, w')" "undisturbed sc"
    and "names_ok (gw_objects w)" "length (gw_objects w) \<le> 977" "dget (gw_objects w) x = Some b"
  shows "dget (gw_objects w') x = Some b \<or>
    dget (gw_objects w') x = None \<and> dget (gw_quarantine w') x = Some b \<and>
    (\<exists>key pd nd its. dget (pe_keyring env) kid = Some key \<and> dget (gw_journals w') (hex pd) = Some nd \<and>
       read_journals (Some key) (\<lambda>_. None) [(Some (hex pd), nd)] = Some its \<and> obj_item x \<in> set its)"
  by (rule run_gc_journaled [OF assms])

text \<open>The process dies behind the first move.\<close>

definition killed8 :: gc_script where
  "killed8 = (script8 (\<lambda>w. w))\<lparr>gs_kill := Some (KillAfterMove 0)\<rparr>"

theorem moves_are_journaled_witness:
  "\<exists>B blob rb cur rb2 cur2. published8 B blob rb cur rb2 cur2 \<and> (digests_clash B [blob, rb, rb2] \<or>
    (\<exists>out w'. run_gc env4 DEFAULT_REACH_LIMITS None None 1 1 False killed8 (world8 B [blob, rb, rb2] cur) = (out, w') \<and>
       (dget (gw_objects w') stray = Some [1] \<or> dget (gw_quarantine w') stray = Some [1] \<and> gw_journals w' \<noteq> [])))"
proof -
  obtain B blob rb cur rb2 cur2 where p: "published8 B blob rb cur rb2 cur2" using published8_exists by blast
  let ?w = "world8 B [blob, rb, rb2] cur"
  show ?thesis
  proof (cases "digests_clash B [blob, rb, rb2]")
    case False
    obtain out w' where run: "run_gc env4 DEFAULT_REACH_LIMITS None None 1 1 False killed8 ?w = (out, w')"
      by (cases "run_gc env4 DEFAULT_REACH_LIMITS None None 1 1 False killed8 ?w")
    have u: "undisturbed killed8" by (simp add: undisturbed_def killed8_def script8_def)
    have l: "length (gw_objects ?w) \<le> 977" by (simp add: world8_simps)
    from moves_are_journaled [OF run u objs8_get(4) [OF False] l objs8_get(3) [OF False]]
    have "dget (gw_objects w') stray = Some [1] \<or> dget (gw_quarantine w') stray = Some [1] \<and> gw_journals w' \<noteq> []"
      by fastforce
    then show ?thesis using p run by blast
  qed (use p in blast)
qed

text \<open>C8: A recovery loses nothing and ends with every root open. Whatever fails in it, only objects move
  between the store and the quarantine, none is lost and none gets other bytes, and pins, packages,
  journals and the pointer stay. If there was a journal and it answers OK, then the roots can be
  gathered in the store it leaves and every publication among them has its whole closure in place.\<close>

theorem recovery_reopens_roots:
  assumes "recover_gc env lim pins prepared ret kid be sc w = (out, w')"
  shows "w' = with_objects w (gw_objects w', gw_quarantine w') \<and>
    nothing_lost (gw_objects w, gw_quarantine w) (gw_objects w', gw_quarantine w') \<and>
    (out = PRet r \<and> grc_state r = GRS_OK \<and> journal_files w \<noteq> [] \<longrightarrow>
      (\<exists>roots. gather_roots env lim ret (gv_gather sc) w' = RoOk roots \<and>
        (\<forall>d \<in> set (all_publication_digests roots). \<exists>its. world_reach env lim w' d = RoOk its)))"
  using recover_gc_ends [OF assms] by blast

definition recover8 :: gc_recover_script where
  "recover8 = \<lparr>gv_gc_lock = True, gv_pin_lock = True, gv_busy = False, gv_journal = (\<lambda>_. None), gv_gather = reads0,
     gv_restore = (\<lambda>_. None), gv_return = (\<lambda>_. None)\<rparr>"

text \<open>The world behind a collection of the stray objects, and what a recovery may put into it.\<close>

lemma collected8:
  assumes p: "published8 B blob rb cur rb2 cur2" and n: "\<not> digests_clash B [blob, rb, rb2]"
    and s: "compaction_source env4 (objs7 B) ws7 (cursor7 B blob) h"
  obtains plan w1 jb where "run_gc env4 DEFAULT_REACH_LIMITS None None 1 1 False (script8 (\<lambda>w. w)) (world8 B [blob, rb, rb2] cur) =
        (PRet (GcRunResult GCR_DONE (Some (Inr plan)) (movable_items plan)), w1)"
    "dget (gw_quarantine w1) stray = Some [1]" "parse_journal jb [7] = Some (gp_digest plan, sorted_items (movable_items plan))"
    "length jb \<le> 65536" "gw_journals w1 = [(hex (gp_digest plan), RegularFile jb)]" "gw_legacy w1 = None"
    "w1 = with_objects ((world8 B [blob, rb, rb2] cur)\<lparr>gw_journals := gw_journals w1\<rparr>) (gw_objects w1, gw_quarantine w1)"
    "\<And>x. x \<in> {sha256 rb, sha256 blob} \<union> range (\<lambda>k. sha256 (B k)) \<Longrightarrow>
       dget (gw_objects w1) x = dget (gw_objects (world8 B [blob, rb, rb2] cur)) x \<and> dget (gw_quarantine w1) x = None"
proof -
  let ?w = "world8 B [blob, rb, rb2] cur" and ?sc = "script8 (\<lambda>w. w)"
  let ?roots = "\<lparr>ro_current = sha256 rb, ro_pinned = [], ro_retained = [], ro_objects = [], ro_actives = []\<rparr>"
  obtain plan where plan: "plan_reachability env4 DEFAULT_REACH_LIMITS (gw_objects ?w) (gw_wal ?w) ?roots = RoOk plan"
    "obj_item stray \<in> set (gp_unreachable plan)"
    using plan8 [OF p n s] by blast
  have "obj_item stray \<in> set (movable_items plan)" using plan(2) by (simp add: movable_items_def) (simp add: obj_item_def)
  then have mv: "movable_items plan \<noteq> []" by auto
  have g: "gather_roots env4 DEFAULT_REACH_LIMITS 1 (gs_gather ?sc) (reaped ?sc ?w) = RoOk ?roots"
    and sg: "root_signature env4 (gs_sig1 ?sc) ?w = PRet (Some (Some (sha256 rb), {}, {}, {}))"
    using gather8(1,2) [OF p, of "(sha256 rb, cur)"] by (simp_all add: script8_simps)
  have k: "dget (pe_keyring env4) 1 = Some [7]" by (simp add: env4_def)
  have l: "length (gw_objects ?w) \<le> 1000000" by (simp add: world8_simps)
  obtain w1 jb where r: "run_gc env4 DEFAULT_REACH_LIMITS None None 1 1 False ?sc ?w =
        (PRet (GcRunResult GCR_DONE (Some (Inr plan)) (movable_items plan)), w1)"
    and jb: "authenticated_journal (gp_digest plan) (movable_items plan) [7] = Some jb"
      "w1 = with_objects (?w\<lparr>gw_journals := dput (hex (gp_digest plan)) (RegularFile jb) (gw_journals ?w)\<rparr>) (gw_objects w1, gw_quarantine w1)"
    and un: "\<And>x. obj_item x \<in> set (gp_unreachable plan) \<Longrightarrow> dget (gw_objects w1) x = None \<and> dget (gw_quarantine w1) x = dget (gw_objects ?w) x"
    and ke: "\<And>x. obj_item x \<notin> set (gp_unreachable plan) \<Longrightarrow>
        dget (gw_objects w1) x = dget (gw_objects ?w) x \<and> dget (gw_quarantine w1) x = dget (gw_quarantine ?w) x"
    using quiet_run [OF script8_simps(1) world8_simps(1) g _ sg plan(1) k world8_simps(2) objs8_get(4) [OF n] l mv, of False]
    by (auto simp: script8_simps)
  have js: "gw_journals w1 = [(hex (gp_digest plan), RegularFile jb)]" "gw_legacy w1 = None"
    by (subst jb(2), simp add: world8_def)+
  have le: "length (sorted_items (movable_items plan)) \<le> 9" using movable_objects(3) [OF plan(1)] by (simp add: world8_simps)
  have rt: "parse_journal jb [7] = Some (gp_digest plan, sorted_items (movable_items plan))" "length jb \<le> 65536"
    using journal_round_trip [OF movable_objects(2) [OF plan(1) objs8_get(4) [OF n]] plan_protects(4) [OF plan(1)], of "[7]"] le jb(1) by auto
  have cl: "dget (gw_objects w1) x = dget (gw_objects ?w) x \<and> dget (gw_quarantine w1) x = None"
    if x: "x \<in> {sha256 rb, sha256 blob} \<union> range (\<lambda>k. sha256 (B k))" for x
  proof -
    have "sha256 rb \<in> set (all_publication_digests ?roots)" by (simp add: set_all_publication_digests)
    from plan_protects(1) [OF plan(1) this] reach8 [OF p n s, of cur] x
    have "obj_item x \<notin> set (gp_unreachable plan)" by auto
    from ke [OF this] show ?thesis by (simp add: world8_def)
  qed
  have "w1 = with_objects (?w\<lparr>gw_journals := gw_journals w1\<rparr>) (gw_objects w1, gw_quarantine w1)"
    using jb(2) by (simp add: js(1) world8_simps(2)) (simp add: world8_def)
  moreover have "dget (gw_quarantine w1) stray = Some [1]" using un [OF plan(2)] objs8_get(3) [OF n] by simp
  ultimately show ?thesis using that [OF r _ rt js] cl by blast
qed

lemma recovered8:
  assumes p: "published8 B blob rb cur rb2 cur2" and n: "\<not> digests_clash B [blob, rb, rb2]"
    and s: "compaction_source env4 (objs7 B) ws7 (cursor7 B blob) h"
    and w: "w1 = with_objects ((world8 B [blob, rb, rb2] cur)\<lparr>gw_journals := js\<rparr>) oq1"
    and cl: "\<And>x. x \<in> {sha256 rb, sha256 blob} \<union> range (\<lambda>k. sha256 (B k)) \<Longrightarrow>
       dget (gw_objects w1) x = dget (gw_objects (world8 B [blob, rb, rb2] cur)) x"
  shows "gather_roots env4 DEFAULT_REACH_LIMITS 1 reads0 w1 =
      RoOk \<lparr>ro_current = sha256 rb, ro_pinned = [], ro_retained = [], ro_objects = [], ro_actives = []\<rparr>"
    "\<exists>its. world_reach env4 DEFAULT_REACH_LIMITS w1 (sha256 rb) = RoOk its"
proof -
  let ?w = "world8 B [blob, rb, rb2] cur"
  have f: "gw_named w1 = gw_named ?w" "gw_eph w1 = gw_eph ?w" "gw_prepared w1 = gw_prepared ?w" "gw_active w1 = gw_active ?w"
    "gw_wal_keys w1 = gw_wal_keys ?w" "pd_current (gw_store w1) = pd_current (gw_store ?w)"
    by (simp_all add: w)
  have g: "gather_roots env4 DEFAULT_REACH_LIMITS 1 reads0 ?w =
      RoOk \<lparr>ro_current = sha256 rb, ro_pinned = [], ro_retained = [], ro_objects = [], ro_actives = []\<rparr>"
    using gather8(1) [OF p, of "(sha256 rb, cur)"] by simp
  show "gather_roots env4 DEFAULT_REACH_LIMITS 1 reads0 w1 =
      RoOk \<lparr>ro_current = sha256 rb, ro_pinned = [], ro_retained = [], ro_objects = [], ro_actives = []\<rparr>"
    by (rule gather_roots_cong [OF g f(1-3,6)]) (auto simp: set_all_publication_digests cl)
  have "world_reach env4 DEFAULT_REACH_LIMITS w1 (sha256 rb) = RoOk (obj_item (sha256 rb) # obj_item (sha256 blob) #
      map (\<lambda>k. obj_item (sha256 (B k))) BASE_KINDS @ [active_item 3 1])"
    by (rule world_reach_same [OF reach8 [OF p n s] f(4,5)]) (auto intro!: cl)
  then show "\<exists>its. world_reach env4 DEFAULT_REACH_LIMITS w1 (sha256 rb) = RoOk its" by blast
qed

text \<open>The recovery after that collection answers OK.\<close>

theorem recovery_reopens_roots_witness:
  "\<exists>B blob rb cur rb2 cur2. published8 B blob rb cur rb2 cur2 \<and> (digests_clash B [blob, rb, rb2] \<or>
    (\<exists>r1 w1 r w2 roots. run_gc env4 DEFAULT_REACH_LIMITS None None 1 1 False (script8 (\<lambda>w. w)) (world8 B [blob, rb, rb2] cur) = (PRet r1, w1) \<and>
       gr_state r1 = GCR_DONE \<and> dget (gw_quarantine w1) stray = Some [1] \<and>
       recover_gc env4 DEFAULT_REACH_LIMITS None None 1 1 False recover8 w1 = (PRet r, w2) \<and> grc_state r = GRS_OK \<and>
       nothing_lost (gw_objects w1, gw_quarantine w1) (gw_objects w2, gw_quarantine w2) \<and>
       gather_roots env4 DEFAULT_REACH_LIMITS 1 reads0 w2 = RoOk roots \<and>
       (\<forall>d \<in> set (all_publication_digests roots). \<exists>its. world_reach env4 DEFAULT_REACH_LIMITS w2 d = RoOk its)))"
proof -
  obtain B blob rb cur rb2 cur2 where p: "published8 B blob rb cur rb2 cur2"
    and alt: "digests_clash B [blob, rb, rb2] \<or> (\<exists>h. compaction_source env4 (objs7 B) ws7 (cursor7 B blob) h)"
    using published8_exists by blast
  show ?thesis
  proof (cases "digests_clash B [blob, rb, rb2]")
    case n: False
    then obtain h where s: "compaction_source env4 (objs7 B) ws7 (cursor7 B blob) h" using alt by blast
    let ?w = "world8 B [blob, rb, rb2] cur"
    let ?roots = "\<lparr>ro_current = sha256 rb, ro_pinned = [], ro_retained = [], ro_objects = [], ro_actives = []\<rparr>"
    show ?thesis
    proof (rule collected8 [OF p n s])
      fix plan w1 jb
      assume run: "run_gc env4 DEFAULT_REACH_LIMITS None None 1 1 False (script8 (\<lambda>w. w)) ?w =
          (PRet (GcRunResult GCR_DONE (Some (Inr plan)) (movable_items plan)), w1)"
        and q: "dget (gw_quarantine w1) stray = Some [1]"
        and jb: "parse_journal jb [7] = Some (gp_digest plan, sorted_items (movable_items plan))" "length jb \<le> 65536"
        and js: "gw_journals w1 = [(hex (gp_digest plan), RegularFile jb)]" "gw_legacy w1 = None"
        and w1: "w1 = with_objects (?w\<lparr>gw_journals := gw_journals w1\<rparr>) (gw_objects w1, gw_quarantine w1)"
        and cl: "\<And>x. x \<in> {sha256 rb, sha256 blob} \<union> range (\<lambda>k. sha256 (B k)) \<Longrightarrow>
           dget (gw_objects w1) x = dget (gw_objects ?w) x \<and> dget (gw_quarantine w1) x = None"
      have jf: "journal_files w1 = [(Some (hex (gp_digest plan)), RegularFile jb)]"
        by (simp add: journal_files_def by_name_def js)
      have rj: "read_journals (dget (pe_keyring env4) 1) (gv_journal recover8) (journal_files w1) = Some (sorted_items (movable_items plan))"
        using read_one_journal [OF jb] by (simp add: jf env4_def recover8_def)
      have rp: "registry_pair (gw_store w1) None None" by (simp add: registry_pair_def)
      have qr: "quiet_recover recover8" by (simp add: quiet_recover_def recover8_def)
      have "\<exists>roots. gather_roots env4 DEFAULT_REACH_LIMITS 1 (gv_gather recover8) (with_objects w1 oq) = RoOk roots \<and>
          int (length (all_publication_digests roots)) \<le> rh_max_nodes DEFAULT_REACH_LIMITS \<and>
          (\<forall>d \<in> set (all_publication_digests roots). \<exists>its. world_reach env4 DEFAULT_REACH_LIMITS (with_objects w1 oq) d = RoOk its)"
        if oq: "moved_in (gw_objects w1, gw_quarantine w1) oq" for oq
      proof -
        have v: "with_objects w1 oq = with_objects (?w\<lparr>gw_journals := gw_journals w1\<rparr>) oq"
          by (subst w1) (simp add: with_objects_def)
        have c: "dget (gw_objects (with_objects w1 oq)) x = dget (gw_objects ?w) x"
          if "x \<in> {sha256 rb, sha256 blob} \<union> range (\<lambda>k. sha256 (B k))" for x
          using cl [OF that] oq [unfolded moved_in_def, THEN spec [of _ x]] by auto
        note r8 = recovered8 [OF p n s v c]
        have "all_publication_digests ?roots = [sha256 rb]" by (simp add: all_publication_digests_def)
        moreover have "gv_gather recover8 = reads0" by (simp add: recover8_def)
        ultimately show ?thesis using r8 by (simp add: DEFAULT_REACH_LIMITS_def)
      qed
      from recovery_answers [OF qr rp _ rj this] jf obtain rs ks w2 where
        rec: "recover_gc env4 DEFAULT_REACH_LIMITS None None 1 1 False recover8 w1 = (PRet \<lparr>grc_state = GRS_OK, grc_restored = rs, grc_kept = ks\<rparr>, w2)"
        by (metis list.distinct(1))
      have "\<exists>roots. gather_roots env4 DEFAULT_REACH_LIMITS 1 reads0 w2 = RoOk roots \<and>
          (\<forall>d \<in> set (all_publication_digests roots). \<exists>its. world_reach env4 DEFAULT_REACH_LIMITS w2 d = RoOk its)"
        "nothing_lost (gw_objects w1, gw_quarantine w1) (gw_objects w2, gw_quarantine w2)"
        using recovery_reopens_roots [OF rec, of "\<lparr>grc_state = GRS_OK, grc_restored = rs, grc_kept = ks\<rparr>"] jf
        by (simp_all add: recover8_def)
      then show ?thesis using p run q rec by fastforce
    qed
  qed (use p in blast)
qed

text \<open>C10: A snapshot that is held is not collected. If a capture succeeded, its pin is held when a
  collection starts (the named record is still there, or a process holds the lock of the file), and its
  closure is complete then, then whatever the collection does, and whatever the others put, publish or
  pin meanwhile, the closure is complete afterwards; provided the files of the pins can be opened.\<close>

theorem held_snapshot_survives:
  assumes "capture_snapshot env name cs w = (PRet (Some (h, d, pin)), w1)" "pin_held name pin w1 w2"
    and "world_reach env lim w2 d = RoOk its"
    and "run_gc env lim pins prepared ret kid be sc w2 = (out, w3)" "gentle sc"
    and "rd_open_fails (gs_gather sc) = (\<lambda>_. False)" "gs_reap_fails sc = (\<lambda>_. False)"
  shows "world_reach env lim w3 d = RoOk its"
  by (rule pinned_closure_kept [OF assms])

definition capture8 :: capture_script where
  "capture8 = \<lparr>cs_lock = True, cs_read = None, cs_pin = None, cs_suffix = [49]\<rparr>"

lemma cursor8:
  assumes p: "published8 B blob rb cur rb2 cur2" and n: "\<not> digests_clash B [blob, rb, rb2]"
    and s: "compaction_source env4 (objs7 B) ws7 (cursor7 B blob) h"
    and c: "(r, pb, cb) \<in> {(record8 B blob 0 ZERO32, rb, cur), (record8 B blob 1 (sha256 rb), rb2, cur2)}"
  shows "\<exists>cu. open_published_cursor env4 (gw_store (world8 B [blob, rb, rb2] cb)) None = PRet (CS_VALID, Some cu) \<and>
    pp_publication_sha256 (pc_proof cu) = sha256 pb \<and> pc_manifest_blob cu = blob"
proof -
  let ?w = "world8 B [blob, rb, rb2] cb"
  note pm = opens8(1) [OF n s] and co = opens8(2) [OF n s]
  have cov: "check_coverage (man7 B)" using co by (simp add: cursor_ok_def cursor7_def)
  have pf: "generation_preflight (man7 B) (length blob) (ge_gen_limits (pe_gen env4))"
    using opens8(7) [OF n s] by (simp add: env4_def)
  have g: "dget (gw_objects ?w) (sha256 pb) = Some pb" "dget (gw_objects ?w) (sha256 blob) = Some blob"
    using c objs8_get(2) [OF n, where cur = cb] by auto
  have z: "sha256 blob \<noteq> ZERO32" "sha256 rb \<noteq> ZERO32" using n by (auto simp: digests_clash_def)
  have canon: "pub_canonical r"
    using c z by (auto simp: pub_canonical_def record8_def new_record_def man7_def)
  have ser: "pub_serialize r [7] = Some pb" "pub_key_id r = 1" "pub_manifest_sha256 r = sha256 blob" "pub_scope_id r = 3"
    "pub_generation_id r = 1" "pub_read_seq r = 6"
    using c p by (auto simp: published8_def record8_def new_record_def man7_def)
  have k: "dget (pe_keyring env4) (pub_key_id r) = Some [7]" by (simp add: env4_def ser(2))
  have pr: "parse_publication_record (Some pb) (pe_keyring env4) = (PS_VALID, Some r)"
    by (rule pub_parse_serialized [OF ser(1) k canon])
  have lr: "length pb = 114" using ser(1) struct_pack_length by (fastforce simp: pub_serialize_def)
  have "manifest_fits (man7 B)" using co by (simp add: cursor_ok_def cursor7_def)
  then have lb: "length blob \<le> 2 ^ 24" using p em_serialize_length [of "man7 B" "[7]" blob] by (simp add: published8_def man7_def)
  have e: "ge_changed (pe_gen env4) x = False" "pe_max_record_bytes env4 = 4096" "max_blob_bytes (ge_limits (pe_gen env4)) = 2 ^ 26" for x
    by (simp_all add: env4_def default_limits_def)
  have or: "open_publication_record env4 (gw_objects ?w) (sha256 pb) = (PS_VALID, Some r)"
    using lr by (simp add: open_publication_record_def get_limited_def g e pr)
  have om: "open_manifest_object env4 (gw_objects ?w) (sha256 blob) = Some (blob, man7 B)"
    using lb by (simp add: open_manifest_object_def get_limited_def g e pm)
  have rc: "read_current (pd_current (gw_store ?w)) (pe_keyring env4) (pe_max_current_bytes env4) None =
      PRet (PS_VALID, Some \<lparr>cp_publication_sha256 = sha256 pb, cp_key_id = 1\<rparr>)"
    using gather8(3) [OF p, of "(sha256 pb, cb)"] c by (auto simp: world8_def)
  have m: "em_scope_id (man7 B) = 3" "em_generation_id (man7 B) = 1" "em_read_seq (man7 B) = 6" "em_segments (man7 B) = [fresh_segment [7] seg5]"
    "pd_scope (gw_store ?w) = Some 3" "wsd_status (fresh_segment [7] seg5) = STATE_ACTIVE"
    by (simp_all add: man7_def world8_def fresh_segment_def)
  show ?thesis
    unfolding open_published_cursor_def rc
    by (simp add: cursor_of_pointer_def or ser om m cov pf Let_def proof_from_def)
qed

theorem held_snapshot_survives_witness:
  "\<exists>B blob rb cur rb2 cur2. published8 B blob rb cur rb2 cur2 \<and> (digests_clash B [blob, rb, rb2] \<or>
    (\<exists>h pin w1 w2 out w3 its. capture_snapshot env4 None capture8 (world8 B [blob, rb, rb2] cur) = (PRet (Some (h, sha256 rb, pin)), w1) \<and>
       w2 = w1\<lparr>gw_store := gw_store (world8 B [blob, rb, rb2] cur2)\<rparr> \<and>
       run_gc env4 DEFAULT_REACH_LIMITS None None 1 1 False (script8 (\<lambda>w. w)) w2 = (out, w3) \<and>
       world_reach env4 DEFAULT_REACH_LIMITS w3 (sha256 rb) = RoOk its))"
proof -
  obtain B blob rb cur rb2 cur2 where p: "published8 B blob rb cur rb2 cur2"
    and alt: "digests_clash B [blob, rb, rb2] \<or> (\<exists>h. compaction_source env4 (objs7 B) ws7 (cursor7 B blob) h)"
    using published8_exists by blast
  show ?thesis
  proof (cases "digests_clash B [blob, rb, rb2]")
    case n: False
    then obtain h where s: "compaction_source env4 (objs7 B) ws7 (cursor7 B blob) h" using alt by blast
    let ?w = "world8 B [blob, rb, rb2] cur" and ?pin = "hex (sha256 rb) @ [46] @ [49]"
    obtain cu where cu: "open_published_cursor env4 (gw_store ?w) None = PRet (CS_VALID, Some cu)"
      "pp_publication_sha256 (pc_proof cu) = sha256 rb" "pc_manifest_blob cu = blob"
      using cursor8 [OF p n s] by blast
    let ?w1 = "?w\<lparr>gw_eph := pin_ephemeral (sha256 rb) [49] (gw_eph ?w)\<rparr>"
    have o1: "gw_objects ?w1 = gw_objects ?w" "gw_wal ?w1 = gw_wal ?w" by (simp_all add: gw_wal_def)
    have cap: "capture_snapshot env4 None capture8 ?w = (PRet (Some (h, sha256 rb, Some ?pin)), ?w1)"
      unfolding capture_snapshot_def capture8_def capture_script.simps cu(1) pub_out.case prod.case cursor_state.case option.case Let_def cu(2,3)
        o1 opens8(6) [OF n s, of cur] by simp
    define w2 where "w2 = ?w1\<lparr>gw_store := gw_store (world8 B [blob, rb, rb2] cur2)\<rparr>"
    have held: "pin_held None (Some ?pin) ?w1 w2"
      by (simp add: pin_held_def w2_def pin_ephemeral_def Let_def eph_lock_def eph_create_def)
    have "gw_objects w2 = gw_objects ?w" "gw_active w2 = gw_active ?w" "gw_wal_keys w2 = gw_wal_keys ?w"
      by (simp_all add: w2_def) (simp add: world8_def)
    then have its: "world_reach env4 DEFAULT_REACH_LIMITS w2 (sha256 rb) = RoOk (obj_item (sha256 rb) # obj_item (sha256 blob) #
        map (\<lambda>k. obj_item (sha256 (B k))) BASE_KINDS @ [active_item 3 1])"
      by (intro world_reach_same [OF reach8 [OF p n s]]) simp_all
    obtain out w3 where run: "run_gc env4 DEFAULT_REACH_LIMITS None None 1 1 False (script8 (\<lambda>w. w)) w2 = (out, w3)"
      by (cases "run_gc env4 DEFAULT_REACH_LIMITS None None 1 1 False (script8 (\<lambda>w. w)) w2")
    have o: "rd_open_fails (gs_gather (script8 (\<lambda>w. w))) = (\<lambda>_. False)" by (simp add: script8_simps reads0_def)
    from held_snapshot_survives [OF cap held its run script8_simps(6) o script8_simps(8)]
    show ?thesis using p cap run unfolding w2_def by blast
  qed (use p in blast)
qed

text \<open>C13: A journal can be too long to be read again. The journal of at least 978 objects is written, and
  its parser accepts it, but it has more than the 65536 bytes a record may have: with such a journal in
  place every recovery answers FAIL_CLOSED and moves nothing back, and publishing the same journal
  again fails, so the objects stay in the quarantine.\<close>

theorem oversized_journal_blocks_recovery:
  assumes "object_items its" "length pd = 32" "978 \<le> length (sorted_items its)" "length (sorted_items its) \<le> 1000000"
    and "authenticated_journal pd its key = Some blob" "dget (gw_journals w) (hex pd) = Some (RegularFile blob)"
    and "registry_pair (gw_store w) pins prepared" "gv_gc_lock sc" "gv_pin_lock sc" "\<not> gv_busy sc"
  shows "parse_journal blob key = Some (pd, sorted_items its) \<and>
    recover_gc env lim pins prepared ret kid be sc w = (PRet \<lparr>grc_state = GRS_FAIL_CLOSED, grc_restored = [], grc_kept = []\<rparr>, w) \<and>
    publish_journal (gw_journals w) pd blob be f = (False, gw_journals w)"
proof -
  have l: "65536 < length blob" using authenticated_journal_length [OF assms(5,1)] assms(3) by simp
  have "parse_journal blob key = Some (pd, sorted_items its)" using journal_round_trip [OF assms(1,2,4), of key] assms(5) by auto
  moreover have j: "(Some (hex pd), RegularFile blob) \<in> set (journal_files w)" by (rule journal_files_listed [OF assms(6)])
  then have "read_journals (dget (pe_keyring env) kid) (gv_journal sc) (journal_files w) = None" by (rule read_journals_oversized [OF _ l])
  then have "recover_gc env lim pins prepared ret kid be sc w = (PRet \<lparr>grc_state = GRS_FAIL_CLOSED, grc_restored = [], grc_kept = []\<rparr>, w)"
    using assms(7-10) j by (auto simp: recover_gc_def Let_def)
  moreover have "publish_journal (gw_journals w) pd blob be f = (False, gw_journals w)"
    using l by (simp add: publish_journal_def assms(6) read_record_limited_def)
  ultimately show ?thesis by blast
qed

definition many :: "gc_item list" where
  "many = map (\<lambda>i. obj_item (le_bytes 32 (int i))) [0..<978]"

lemma many_ok: "object_items many" "length (sorted_items many) = 978"
proof -
  show "object_items many" by (auto simp: object_items_def many_def)
  have i: "le_bytes 32 (int i) = le_bytes 32 (int j) \<longleftrightarrow> i = j" if "i < 978" "j < 978" for i j
  proof
    assume "le_bytes 32 (int i) = le_bytes 32 (int j)"
    then have "int i mod 256 ^ 32 = int j mod 256 ^ 32" by (metis le_int_le_bytes_mod)
    then show "i = j" using that by simp
  qed simp
  then have "inj_on (\<lambda>i. obj_item (le_bytes 32 (int i))) {0..<978}" by (simp add: inj_on_def)
  then have "card ((\<lambda>i. obj_item (le_bytes 32 (int i))) ` {0..<978}) = 978" by (simp only: card_image card_atLeastLessThan)
  then show "length (sorted_items many) = 978" by (simp only: length_sorted_items many_def set_map set_upt)
qed

theorem oversized_journal_blocks_recovery_witness:
  "\<exists>blob w. authenticated_journal stray many [7] = Some blob \<and> gw_journals w = [(hex stray, RegularFile blob)] \<and>
    recover_gc env4 DEFAULT_REACH_LIMITS None None 1 1 False recover8 w = (PRet \<lparr>grc_state = GRS_FAIL_CLOSED, grc_restored = [], grc_kept = []\<rparr>, w)"
proof -
  have st: "length stray = 32" by (simp add: stray_def)
  have n: "978 \<le> length (sorted_items many)" "length (sorted_items many) \<le> 1000000" by (simp_all add: many_ok(2))
  obtain blob where b: "authenticated_journal stray many [7] = Some blob"
    using journal_round_trip [OF many_ok(1) st n(2)] by blast
  let ?w = "(world8 (\<lambda>_. []) [] [])\<lparr>gw_journals := [(hex stray, RegularFile blob)]\<rparr>"
  have "dget (gw_journals ?w) (hex stray) = Some (RegularFile blob)" "registry_pair (gw_store ?w) None None"
    "gv_gc_lock recover8" "gv_pin_lock recover8" "\<not> gv_busy recover8"
    by (simp_all add: registry_pair_def recover8_def)
  from oversized_journal_blocks_recovery [OF many_ok(1) st n b this, of env4 DEFAULT_REACH_LIMITS 1 1 False None] b
  show ?thesis by (intro exI [of _ blob] exI [of _ ?w]) simp
qed

text \<open>C12: A publication can be collected. The roots are gathered before the first of the two signatures
  that are compared, so a publication that swaps \<open>CURRENT\<close> between them is in both signatures but not
  among the roots. If its record is not reachable from the roots that were gathered, and no call fails,
  the collection ends DONE with that record in the quarantine, and the scope, whose published cursor
  was valid, is corrupt.\<close>

theorem unseen_publication_collected:
  assumes "quiet_gc sc" "registry_pair (gw_store w) pins prepared"
    and "gather_roots env lim ret (gs_gather sc) (reaped sc w) = RoOk roots"
    and "w2 = gs_after_roots sc (reaped sc w)" "open_published_cursor env (gw_store w2) None = PRet (CS_VALID, Some c)"
    and "root_signature env (gs_sig1 sc) w2 = PRet (Some sig)"
    and "plan_reachability env lim (gw_objects w2) (gw_wal w2) roots = RoOk plan"
    and "obj_item (pp_publication_sha256 (pc_proof c)) \<in> set (gp_unreachable plan)"
    and "dget (pe_keyring env) kid = Some key" "dget (gw_journals w2) (hex (gp_digest plan)) = None"
    and "names_ok (gw_objects w2)" "length (gw_objects w2) \<le> 1000000"
  shows "\<exists>w'. run_gc env lim pins prepared ret kid be sc w =
      (PRet (GcRunResult GCR_DONE (Some (Inr plan)) (movable_items plan)), w') \<and>
    dget (gw_quarantine w') (pp_publication_sha256 (pc_proof c)) \<noteq> None \<and>
    open_published_cursor env (gw_store w') None = PRet (CS_CORRUPT, None)"
proof -
  let ?p = "pp_publication_sha256 (pc_proof c)"
  have "obj_item ?p \<in> set (movable_items plan)" using assms(8) by (simp add: movable_items_def) (simp add: obj_item_def)
  then have mv: "movable_items plan \<noteq> []" by auto
  obtain w' where r: "run_gc env lim pins prepared ret kid be sc w = (PRet (GcRunResult GCR_DONE (Some (Inr plan)) (movable_items plan)), w')"
    and cur: "pd_current (gw_store w') = pd_current (gw_store w2)"
    and un: "\<And>x. obj_item x \<in> set (gp_unreachable plan) \<Longrightarrow> dget (gw_objects w') x = None \<and> dget (gw_quarantine w') x = dget (gw_objects w2) x"
    using quiet_run [OF assms(1-4,6,7,9-12) mv, of be] by blast
  obtain cp where cp: "read_current (pd_current (gw_store w2)) (pe_keyring env) (pe_max_current_bytes env) None = PRet (PS_VALID, Some cp)"
      "cursor_of_pointer env (gw_store w2) cp = (CS_VALID, Some c)"
    using assms(5) unfolding open_published_cursor_def by (auto split: pub_out.splits prod.splits publication_state.splits option.splits)
  have p: "?p = cp_publication_sha256 cp"
    using cp(2) unfolding cursor_of_pointer_def
    by (auto simp: proof_from_def Let_def split: prod.splits publication_state.splits option.splits if_splits)
  have "open_publication_record env (gw_objects w') (cp_publication_sha256 cp) = (PS_MISSING, None)"
    using un [OF assms(8)] by (simp add: open_publication_record_def get_limited_def p)
  then have "open_published_cursor env (gw_store w') None = PRet (CS_CORRUPT, None)"
    by (simp add: open_published_cursor_def cur cp(1) cursor_of_pointer_def)
  moreover have "dget (gw_quarantine w') ?p \<noteq> None" using un [OF assms(8)] plan_protects(3) [OF assms(7,8)] by simp
  ultimately show ?thesis using r by blast
qed

text \<open>The later record of the same manifest is published while the roots of the earlier one are planned.\<close>

theorem unseen_publication_collected_witness:
  "\<exists>B blob rb cur rb2 cur2. published8 B blob rb cur rb2 cur2 \<and> (digests_clash B [blob, rb, rb2] \<or>
    (\<exists>c r w'. open_published_cursor env4 (gw_store (world8 B [blob, rb, rb2] cur2)) None = PRet (CS_VALID, Some c) \<and>
       run_gc env4 DEFAULT_REACH_LIMITS None None 1 1 False (script8 (\<lambda>_. world8 B [blob, rb, rb2] cur2)) (world8 B [blob, rb, rb2] cur) = (PRet r, w') \<and>
       gr_state r = GCR_DONE \<and> open_published_cursor env4 (gw_store w') None = PRet (CS_CORRUPT, None)))"
proof -
  obtain B blob rb cur rb2 cur2 where p: "published8 B blob rb cur rb2 cur2"
    and alt: "digests_clash B [blob, rb, rb2] \<or> (\<exists>h. compaction_source env4 (objs7 B) ws7 (cursor7 B blob) h)"
    using published8_exists by blast
  show ?thesis
  proof (cases "digests_clash B [blob, rb, rb2]")
    case n: False
    then obtain h where s: "compaction_source env4 (objs7 B) ws7 (cursor7 B blob) h" using alt by blast
    let ?w = "world8 B [blob, rb, rb2] cur" and ?w2 = "world8 B [blob, rb, rb2] cur2"
    let ?sc = "script8 (\<lambda>_. ?w2)"
    obtain c where c: "open_published_cursor env4 (gw_store ?w2) None = PRet (CS_VALID, Some c)" "pp_publication_sha256 (pc_proof c) = sha256 rb2"
      using cursor8 [OF p n s, of "record8 B blob 1 (sha256 rb)" rb2 cur2] by auto
    obtain plan where plan: "plan_reachability env4 DEFAULT_REACH_LIMITS (gw_objects ?w2) (gw_wal ?w2)
        \<lparr>ro_current = sha256 rb, ro_pinned = [], ro_retained = [], ro_objects = [], ro_actives = []\<rparr> = RoOk plan"
      "obj_item (pp_publication_sha256 (pc_proof c)) \<in> set (gp_unreachable plan)"
      using plan8 [OF p n s] c(2) by metis
    have g: "gather_roots env4 DEFAULT_REACH_LIMITS 1 (gs_gather ?sc) (reaped ?sc ?w) =
        RoOk \<lparr>ro_current = sha256 rb, ro_pinned = [], ro_retained = [], ro_objects = [], ro_actives = []\<rparr>"
      using gather8(1) [OF p, of "(sha256 rb, cur)"] by (simp add: script8_simps)
    have sg: "root_signature env4 (gs_sig1 ?sc) ?w2 = PRet (Some (Some (sha256 rb2), {}, {}, {}))"
      using gather8(2) [OF p, of "(sha256 rb2, cur2)"] by (simp add: script8_simps)
    have k: "dget (pe_keyring env4) 1 = Some [7]" by (simp add: env4_def)
    have w2: "?w2 = gs_after_roots ?sc (reaped ?sc ?w)" by (simp add: script8_simps)
    have l: "length (gw_objects ?w2) \<le> 1000000" by (simp add: world8_simps)
    from unseen_publication_collected [OF script8_simps(1) world8_simps(1) g w2 c(1) sg plan k world8_simps(2) objs8_get(4) [OF n] l, of False]
    show ?thesis using p c(1) by fastforce
  qed (use p in blast)
qed

end
