(* ===== verification/Spec2Isabelle.thy ===== *)
theory Spec2Isabelle
  imports StorageProperties GroupRecovery LinSearch PublicationProperties RecoveryProperties GcProperties
begin

text \<open>
  A verification of the storage engine of Horizon Memory
  (\<open>src/src/horizon_memory/_engine/\<close>): an append-only memory of versioned facts with a
  write-ahead log, immutable generations, and a group commit writer.

  The program. A fact is an unsigned 32-bit id with a version line; a write is PUT or DELETE with a
  version and an operation id of 16 bytes, client and counter. A write is decided by the retry
  memory (same operation: replay or conflict), then by the version rule, and if it applies it
  becomes a frame of the log. The live index L0 is the replay of the log. A generation is a base of
  five authenticated artifacts (registry, bulk, residual field, tombstones, dedup table) named by a
  manifest, with the log segments since; reading goes L0, tombstones, residual, bulk. Every failure
  is a typed state, and anything not authenticated makes the reader abstain.

  Theories and the code they model.
  - Prelude, Crypto: bytes as \<open>8 word list\<close>, \<open>struct.pack\<close>/\<open>unpack\<close> with the ranges that raise,
    dictionaries as association lists in insertion order, SHA-256, CRC-32 and HMAC as functions.
  - Versions, Sharded, IndexOps: \<open>horizon_store.py\<close> (preflight, \<open>WalIndex\<close>, \<open>TxIdIndex\<close>,
    \<open>SequentialModel\<close>) and \<open>horizon_sharded.py\<close>. Three locales state what an index promises
    (\<open>version_index\<close>, \<open>retry_memory\<close>, \<open>l0_index\<close>) and \<open>index_refinement\<close> relates two of them;
    all are interpreted on the plain and on the sharded indexes, so the reducer and the writers are
    proved once for both.
  - WalCodec, WalScan, Reducer, WalWriter, WalCrash: \<open>horizon_wal.py\<close>. \<open>scan\<close> is inverse to the
    encoders on any cut (\<open>scan_cut\<close>) and accepts only authentic bytes (\<open>scan_accepted\<close>); the
    reducer refines \<open>abs_replay\<close>, a fold over frames; the writer keeps \<open>writer_inv\<close>, its file is
    the image of its frames, under a script of operating-system answers.
  - Bitmap, Registry, Residual, Bulk, Dedup: the artifacts (\<open>horizon_store.py\<close>,
    \<open>residual_field.py\<close>, \<open>horizon_bulk.py\<close>, \<open>horizon_artifacts.py\<close>), each with a validity
    predicate that its \<open>open\<close> establishes, lookups against it, and a build that opens.
  - ReadPath, Artifacts, WalStore, Manifest, Generation: the read path and cross validation, the
    object store and typed opening, the files of the log (\<open>horizon_walstore.py\<close>), the manifest and
    its coverage law, and \<open>open_generation\<close> (\<open>horizon_manifest.py\<close>). A valid generation is the
    abstract replay of its frames over its validated base (\<open>generation_reads\<close>). BaseRound builds a
    base from a model of facts and reads it back.
  - Batch, GroupCommit, GroupRecovery, Lease: \<open>horizon_batch.py\<close>: planning a batch refines
    \<open>abs_batch\<close>; the store is a step relation \<open>gc_step\<close> over submit, cancel, timeout, the worker's
    claim and commit, poison, stop and fence, with its invariants; lives of a store joined by
    crashes; the lease automaton.
  - Linearizability, LinSearch: \<open>horizon_linearizability.py\<close>: the sequential reference model and
    the memoised search, proved to decide linearizability.
  - PubCodec, Transition, Prepared, Publication, Publishers: \<open>horizon_publication.py\<close>, with the
    prepared packages of \<open>horizon_rotation.py\<close> and \<open>horizon_compaction.py\<close>: the record and the
    CURRENT pointer, the transition laws, the compare and swap with one fault at any of its calls, and
    the publications of a genesis, a batch, a rotation and a compaction. A publication leaves the
    pointer alone or shows the candidate (\<open>publish_impl_ends\<close>), and a published pointer opens
    (\<open>published_opens\<close>).
  - PublishedCommit: the commit of a writer with a publication context. It is a commit of the plain
    store as far as the log is concerned (\<open>plain_commit_of\<close>), and the synced pointer covers what was
    answered (\<open>pw_inv\<close>). Recovery, RecoveryLives: \<open>horizon_recovery.py\<close>; the lives of a scope
    (\<open>pub_lives\<close>) alternate between resting on disk and a live writer, and their invariant
    (\<open>life_ok\<close>) is kept by every batch, death, power loss and resume.
  - Compaction, CompactionDedup, CompactionRun, CompactionLive, over FreshGeneration:
    \<open>horizon_compaction.py\<close>: the materialized state, the merge of the dedup table with the retry
    memory of the log (\<open>merge_generation\<close>), the artifacts of the next base, and
    \<open>prepare_compaction\<close> with a script of its calls. FreshGeneration shows which manifests over
    stored artifacts and an empty ACTIVE segment open, and that what opens is made of them.
  - GcPlan, GcRegistry, GcRun, GcSafety, GcLive: \<open>horizon_gc.py\<close>: the closure of a publication and
    the plan, the small authenticated records (prepared packages, pins, journals), \<open>run_gc\<close>,
    \<open>recover_gc\<close> and \<open>capture_snapshot\<close> over one record of directories (\<open>gc_world\<close>). The script of a
    run holds its failing calls, the kill, and what other processes do between its steps
    (\<open>gentle\<close>: the stores only grow). Opening a publication depends on its closure alone
    (\<open>reach_cong\<close>), so a run keeps what it found reachable (\<open>run_gc_keeps\<close>); objects only move
    (\<open>moved_out\<close>, \<open>nothing_lost\<close>).
  - StorageProperties, PublicationProperties, RecoveryProperties, CompactionProperties,
    GcProperties and this theory: the properties, with a witness for each hypothesis.

  Modelling choices.
  - A machine integer is an int with the range its \<open>struct\<close> format enforces; the model raises
    where Python raises. Sequence numbers stay below \<open>MAX_SEQ\<close>, as the code checks.
  - Effects of the operating system are arguments: each write answers what it wrote, EINTR or an
    error, each fsync returns, fails or never returns; a crash keeps the synced prefix and any part
    of what was written behind it (\<open>crash_image\<close>). A fault of a store is an optional argument that
    names the failing call. What the process acknowledged is kept in ghost fields that no operation
    reads (\<open>sy_acked\<close>, \<open>gs_withdrawn\<close>, the log of planned receipts).
  - numpy's \<open>packbits\<close>/\<open>unpackbits\<close> are a parameter \<open>np\<close> with the documented order of bits as
    the locale \<open>numpy_bits\<close>; \<open>np_concrete\<close> satisfies it. No property assumes that digests do not
    collide unless it says so.
  - The worker's turn of the group commit store is two steps, claim and commit, as the lock of the
    code makes them; threads otherwise interleave in any order. Two lives of a store have histories
    of fewer than \<open>MAX_SEQ\<close> frames (\<open>seq_room\<close>).
  - The search of the checker is a recursive function on the operations left, so it needs no fuel;
    \<open>search_bound\<close> is the budget that is always enough.

  - A compaction within the limits needs at most \<open>2 ^ 21\<close> facts, \<open>2 ^ 20\<close> remembered operations and
    \<open>2 ^ 19\<close> clients (\<open>small_enough\<close>); then its artifacts are below the 64 MiB of a blob. The
    witnesses of the compaction and the collection have a disjunct for digests that collide, as SHA-256 of a base is too
    long to evaluate in the kernel.

  Not modelled: the rotation coordinator (\<open>horizon_rotation.py\<close>) and the parts of the group commit
  store that activate what it and a compaction prepared; the wrappers of system calls and the
  history recorder; telemetry and
  the human-readable reasons of results. Outside the engine, the retrieval, language and proof
  modules of \<open>horizon_memory\<close>, the application, the API and the web site work over text with
  lexicons and floating point scores and do not change what the engine stores.
\<close>

section \<open>Durability of the log\<close>

text \<open>C14: After any run of appends, kills, power losses and resumptions of the single writer, under
  any partial write, EINTR, write error or fsync error, recovering whatever the next crash leaves
  on disk succeeds, and the recovered retry memory holds every operation that was ever
  acknowledged as APPLIED, with its digest and its sequence number.\<close>

theorem acknowledged_survive_crash:
  assumes "wal_reachable st" "crash_image (sy_writer st) b"
  shows "\<exists>n h. recovers_to (ww_key (sy_writer st)) (ww_scope_id (sy_writer st))
      (ww_segment_id (sy_writer st)) b n h \<and>
    (\<forall>(oid, d, q) \<in> set (sy_acked st). snd h oid = Some (d, q))"
  using sys_inv_recovers [OF wal_reachable_inv] assms by blast

theorem acknowledged_survive_crash_witness:
  "\<exists>b n h d. recovers_to [7] 3 1 b n h \<and> snd h opid1 = Some (d, 1)"
proof -
  obtain st d where st: "wal_reachable st" "sy_acked st = [(opid1, d, 1)]"
    "crash_image (sy_writer st) (ww_file (sy_writer st))" "writer_id (sy_writer st) = seg31"
    "ww_key (sy_writer st) = [7]"
    using reachable_one_ack by blast
  have id: "ww_scope_id (sy_writer st) = 3" "ww_segment_id (sy_writer st) = 1"
    using arg_cong [OF st(4), of sg_scope] arg_cong [OF st(4), of sg_segment]
    by (simp_all add: seg31_def)
  obtain n h where "recovers_to [7] 3 1 (ww_file (sy_writer st)) n h"
    "\<forall>(oid, d, q) \<in> set (sy_acked st). snd h oid = Some (d, q)"
    using acknowledged_survive_crash [OF st(1,3)] unfolding id st(5) by blast
  moreover from this(2) have "snd h opid1 = Some (d, 1)" using st(2) by simp
  ultimately show ?thesis by blast
qed

section \<open>Group commit\<close>

text \<open>C15: A store of group commits is created, runs under any interleaving of its clients and its
  worker, is killed or loses power, and is resumed, any number of times. Whatever the next crash
  leaves of the file, resuming succeeds, and an operation that any life ever answered APPLIED is
  known to the new snapshot as a replay with the sequence number it was answered with.\<close>

theorem group_commit_answers_survive:
  assumes "gc_lives plain_ops key s base st acks"
    and "gs_durable st \<le> du" "du \<le> k" "k \<le> length (gs_file st)"
    and "(oid, d, q) \<in> set (acks @ applied_answers st)"
  shows "\<exists>st'. gc_resume plain_ops (take k (gs_file st)) du key (sg_scope s) (sg_segment s) lim base None None = Inr st' \<and>
    tx_check (ls_txindex (gs_snapshot st')) oid d = TxReplay \<and>
    tx_get_seq (ls_txindex (gs_snapshot st')) oid = Some q"
  using plain.gc_lives_survive [OF assms, of lim] by (simp add: plain_ops_def)

theorem group_commit_answers_survive_witness:
  "\<exists>fl n st' d. gc_resume plain_ops (take n fl) n [7] 3 1 default_gc_limits None None None = Inr st' \<and>
    tx_check (ls_txindex (gs_snapshot st')) opid1 d = TxReplay \<and>
    tx_get_seq (ls_txindex (gs_snapshot st')) opid1 = Some 1"
proof -
  obtain st r where st: "gc_lives plain_ops [7] seg31 None st []" "gs_finished st = [r]" "rq_cmd r = put5"
    "rq_status r = Some (Logged APPLIED)" "rq_wal_seq r = Some 1" "gs_durable st = length (gs_file st)"
    using plain.gc_lives_one by blast
  have "(opid1, projr (cmd_digest put5), 1) \<in> set ([] @ applied_answers st)"
    using st by (simp add: applied_answers_def)
  from group_commit_answers_survive [OF st(1) _ order.refl order.refl this, where lim = default_gc_limits] st(6)
  have "\<exists>st'. gc_resume plain_ops (take (length (gs_file st)) (gs_file st)) (length (gs_file st)) [7] 3 1 default_gc_limits
      None None None = Inr st' \<and> tx_check (ls_txindex (gs_snapshot st')) opid1 (projr (cmd_digest put5)) = TxReplay \<and>
      tx_get_seq (ls_txindex (gs_snapshot st')) opid1 = Some 1"
    by (simp add: seg31_def)
  then show ?thesis by blast
qed

text \<open>C16: A request that was answered NOT_ACCEPTED, or that a timeout or a cancel withdrew with that
  answer while it was queued, never reaches the log of the store, under any interleaving and any
  fault: sending it again is safe.\<close>

theorem not_accepted_never_logged:
  assumes "gc_lives (sharded_ops bits seed) key s base st acks"
    and "t \<in> set (gs_withdrawn st) \<or> (\<exists>r \<in> set (gs_finished st). rq_ticket r = t \<and> rq_status r = Some NOT_ACCEPTED)"
  shows "t \<notin> fst ` set (gs_log st)"
  using shl.gc_lives_refused [OF assms] .

theorem not_accepted_never_logged_witness:
  "\<exists>st. gc_lives (sharded_ops 2 0) [7] seg31 None st [] \<and> gs_queue st \<noteq> [] \<and> 1 \<notin> fst ` set (gs_log st)"
proof -
  obtain st where st: "gc_lives (sharded_ops 2 0) [7] seg31 None st []" "gs_withdrawn st = [1]" "gs_queue st \<noteq> []"
    using shl.gc_lives_withdrawn by blast
  have "1 \<notin> fst ` set (gs_log st)" using not_accepted_never_logged [OF st(1), of 1] st(2) by simp
  then show ?thesis using st by blast
qed

text \<open>C17: In every state of every life, each admitted request is at exactly one of three places:
  answered, in flight or queued. The requests in flight and the queue are in admission order, an
  answered request has a status, and the queue and the batch respect the limits.\<close>

theorem group_commit_requests:
  assumes "gc_lives plain_ops key s base st acks"
  shows "distinct (map rq_ticket (gs_finished st @ inflight st @ gs_queue st)) \<and>
    rq_ticket ` set (gs_finished st @ inflight st @ gs_queue st) = {1..int (gs_ticket st)} \<and>
    sorted_wrt (<) (map rq_ticket (inflight st @ gs_queue st)) \<and>
    (\<forall>r \<in> set (gs_finished st). rq_state r = DONE \<and> rq_status r \<noteq> None) \<and>
    gs_queue_bytes st = sum_list (map rq_size (gs_queue st)) \<and>
    length (gs_queue st) \<le> max_queue_commands (gs_limits st) \<and>
    gs_queue_bytes st \<le> max_queue_bytes (gs_limits st) \<and>
    length (inflight st) \<le> max_batch_commands (gs_limits st)"
  using gc_wf_summary [OF plain.gc_lives_wf [OF assms]] .

theorem group_commit_requests_witness:
  "\<exists>st :: (wal_index, tx_index) gc_store. gs_ticket st = 1 \<and>
    rq_ticket ` set (gs_finished st @ inflight st @ gs_queue st) = {1..1}"
proof -
  obtain st where st: "gc_lives plain_ops [7] seg31 None st []" "gs_ticket st = 1"
    using plain.gc_lives_one by blast
  note g = group_commit_requests [OF st(1)]
  have "rq_ticket ` set (gs_finished st @ inflight st @ gs_queue st) = {1..1}"
    using g [THEN conjunct2, THEN conjunct1] unfolding st(2) of_nat_1 .
  then show ?thesis using st(2) by blast
qed

text \<open>C18: Planning a batch over a snapshot that reads as the replay of the log does exactly what the
  abstract batch does, command by command: the receipts in order, the frames of the accepted
  commands with consecutive sequence numbers, and a candidate snapshot that reads as the replay of
  the longer log.\<close>

theorem batch_plan_refines:
  assumes "snapshot_ok (sharded_ops bits seed) key s base h0 fs h snap hasher"
    and "sharded_ok (fact_shard (ls_index snap)) (ls_index snap)"
    and "sharded_ok (opid_shard (ls_txindex snap)) (ls_txindex snap)"
    and "\<forall>c \<in> set cmds. version_fits u8 c" "next_seq_of s fs + int (length cmds) \<le> MAX_SEQ"
    and "abs_batch base u8 h (next_seq_of s fs) cmds = (rs, gs, h')"
  shows "\<exists>plan. prepare_batch (sharded_ops bits seed) snap hasher cmds key (sg_scope s) (sg_segment s) base u8 = Inr plan \<and>
    bp_receipts plan = rs \<and> concat (bp_frames plan) = frames_bytes key (sg_scope s) (sg_segment s) gs \<and>
    snapshot_ok (sharded_ops bits seed) key s base h0 (fs @ gs) h' (bp_candidate_snapshot plan) (bp_candidate_hasher plan)"
  using shl.prepare_batch_extends [OF assms] by (auto simp: plan_extends_def)

theorem batch_plan_refines_witness:
  "\<exists>snap plan. prepare_batch (sharded_ops 2 0) snap (header_bytes [7] seg31) [put5] [7] 3 1 EmptyBaseView False = Inr plan \<and>
    bp_receipts plan = [PlannedReceipt 1 (Logged APPLIED) (Some 1)]"
proof -
  obtain snap where sn: "snapshot_ok (sharded_ops 2 0) [7] seg31 EmptyBaseView history0 [] history0 snap (header_bytes [7] seg31)"
    "sharded_ok (fact_shard (ls_index snap)) (ls_index snap)" "sharded_ok (opid_shard (ls_txindex snap)) (ls_txindex snap)"
    using shl.empty_snapshot [OF seg31_ok, of _ _ "[7]"] by blast
  obtain h' where b: "abs_batch EmptyBaseView False history0 (next_seq_of seg31 []) [put5] =
      ([PlannedReceipt 1 (Logged APPLIED) (Some 1)], [cmd_frame put5 1], h')"
    using put5_batch by (auto simp: next_seq_of_def seg31_def)
  have "\<forall>c \<in> set [put5]. version_fits False c" "next_seq_of seg31 [] + int (length [put5]) \<le> MAX_SEQ"
    by (simp_all add: next_seq_of_def seg31_def)
  from batch_plan_refines [OF sn this b] show ?thesis by (auto simp: seg31_def)
qed

text \<open>C19: A canonical command whose fact version does not fit 32 bits passes every check of the store,
  and the worker dies while it plans the batch: the requests of that batch are never answered,
  whatever happens afterwards, and neither is any other request.\<close>

theorem wide_version_stops_worker:
  assumes "gs_inflight st = Some batch" "r \<in> set batch"
    and "cmd_ok (gs_u8_domain st) (rq_cmd r)" "2 ^ 32 \<le> cc_fact_version (rq_cmd r)"
    and "gc_run ops (gc_commit ops st batch sc) st'"
  shows "gs_inflight st' = Some batch \<and> gs_finished st' = gs_finished st \<and> gs_worker_dead st'"
  using gc_dead_run [OF assms(5)] assms(1) by (simp add: gc_commit_wide [OF assms(2-4)])

theorem wide_version_stops_worker_witness:
  "\<exists>st :: (wal_index, tx_index) gc_store. gs_inflight st = Some [new_request (put5\<lparr>cc_fact_version := 2 ^ 32\<rparr>) 80] \<and>
     gs_worker_dead (gc_commit plain_ops st [new_request (put5\<lparr>cc_fact_version := 2 ^ 32\<rparr>) 80] (all_at_once 80))"
proof -
  obtain st0 :: "(wal_index, tx_index) gc_store" where u: "\<not> gs_u8_domain st0"
    using plain.gc_created [OF seg31_ok, of "[7]" default_gc_limits] by blast
  let ?r = "new_request (put5\<lparr>cc_fact_version := 2 ^ 32\<rparr>) 80"
  let ?st = "st0\<lparr>gs_inflight := Some [?r]\<rparr>"
  have "cmd_ok (gs_u8_domain ?st) (rq_cmd ?r)" "2 ^ 32 \<le> cc_fact_version (rq_cmd ?r)"
    using u by (simp_all add: new_request_def cmd_ok_def command_is_canonical_def opid1_def)
  from wide_version_stops_worker [of ?st "[?r]" ?r, OF _ _ this grun_refl, of plain_ops "all_at_once 80"]
  have "gs_worker_dead (gc_commit plain_ops ?st [?r] (all_at_once 80))" by simp
  then show ?thesis by (intro exI [of _ ?st]) simp
qed

section \<open>The log on disk\<close>

text \<open>C20: A file that holds the header and any prefix, cut at any byte, of the bytes of a valid
  sequence of frames scans as exactly the frames that are whole in it, with the authenticated
  header; what is torn is dropped, and no whole frame is.\<close>

theorem scan_reads_cut:
  assumes "seg_id_ok s" "frames_ok (sg_first s) fs" "67 \<le> k" "k \<le> length (wal_image key s fs)"
  shows "\<exists>n \<le> length fs. let r = scan (Some (take k (wal_image key s fs))) key req (sg_scope s) (sg_segment s) None in
      sr_class r \<in> {CLEAN, TAIL_DROPPED} \<and> sr_frames r = take n fs \<and> sr_header r = Some (header_info s) \<and>
      sr_last_seq r = sg_first s + int n - 1 \<and> \<not> sr_sealed r \<and>
      take (sr_consumed r) (take k (wal_image key s fs)) = wal_image key s (take n fs) \<and>
      (\<forall>m \<le> length fs. length (wal_image key s (take m fs)) \<le> k \<longrightarrow> m \<le> n)"
  using scan_cut [OF assms, of req] by (auto simp: Let_def next_seq_of_def)

theorem scan_reads_cut_witness:
  "\<exists>n \<le> 1. sr_frames (scan (Some (take 67 (wal_image [7] seg31 [cmd_frame put5 1]))) [7] True 3 1 None) = take n [cmd_frame put5 1]"
proof -
  have "frames_ok (sg_first seg31) [cmd_frame put5 1]"
    by (simp add: frames_ok_def cmd_frame_def seg31_def opid1_def u32_def)
  from scan_reads_cut [OF seg31_ok this, of 67 "[7]" True] show ?thesis
    using length_header_bytes [OF seg31_ok, of "[7]"] by (auto simp: Let_def seg31_def wal_image_def)
qed

text \<open>C21: Conversely, a file that the scan accepts is byte for byte the authenticated header, the
  encoding of the frames the scan returns (valid, with consecutive sequence numbers) and, when it is
  reported sealed, exactly one valid footer; when a seal is expected, the file matches its sequence,
  length and digest. Nothing else can be returned.\<close>

theorem scan_accepts_only_authentic:
  assumes "sr_class (scan (Some blob) key req sc sg es) \<in> {CLEAN, TAIL_DROPPED}"
  shows "accepted_as key sc sg blob es (scan (Some blob) key req sc sg es)"
  by (rule scan_accepted [OF assms])

theorem scan_accepts_only_authentic_witness:
  "accepted_as [7] 3 1 (header_bytes [7] seg31) None (scan (Some (header_bytes [7] seg31)) [7] True 3 1 None)"
proof (rule scan_accepts_only_authentic)
  show "sr_class (scan (Some (header_bytes [7] seg31)) [7] True 3 1 None) \<in> {CLEAN, TAIL_DROPPED}"
    using scan_image_clean [OF seg31_ok, of "[]" "[7]" True] by (simp add: wal_image_def seg31_def)
qed

text \<open>A sealed file scans CLEAN with all its frames, against the seal it was sealed with; when the
  footer is torn, the scan without a seal still returns every frame and drops only the torn footer.\<close>

theorem sealed_scan:
  assumes "sealable key s fs" "k \<le> SEAL_FOOTER_BYTES" "0 < k"
  shows "let r = scan (Some (wal_image key s fs @ take k (footer_bytes key s fs))) key req (sg_scope s) (sg_segment s) None in
      sr_frames r = fs \<and> sr_class r = (if k = SEAL_FOOTER_BYTES then CLEAN else TAIL_DROPPED) \<and>
      sr_sealed r = (k = SEAL_FOOTER_BYTES) \<and>
      (k = SEAL_FOOTER_BYTES \<longrightarrow> r = scan (Some (wal_image key s fs @ footer_bytes key s fs)) key req (sg_scope s) (sg_segment s)
         (Some (seal_of key s fs)))"
proof (cases "k = SEAL_FOOTER_BYTES")
  case True
  then show ?thesis
    using scan_image_sealed [OF assms(1), of None req] scan_image_sealed [OF assms(1), of "Some (seal_of key s fs)" req]
      footer_bytes_eq(2) [OF assms(1)] by (simp add: Let_def)
next
  case False
  then show ?thesis using scan_image_seal_torn [OF assms(1,3), of req] assms(2) by (simp add: Let_def)
qed

theorem sealed_scan_witness:
  "sr_sealed (scan (Some (wal_image [7] seg31 [] @ take 53 (footer_bytes [7] seg31 []))) [7] True 3 1 None) = ((53 :: nat) = SEAL_FOOTER_BYTES)"
proof -
  have "(53 :: nat) \<le> SEAL_FOOTER_BYTES" "(0 :: nat) < 53" by simp_all
  from sealed_scan [OF seg31_sealable this, of True] show ?thesis
    unfolding Let_def seg31_ids by (elim conjE)
qed

text \<open>C22: Sealing a writer twice succeeds both times, and the second footer makes the segment corrupt
  to every later scan: all its committed frames become unreadable.\<close>

theorem second_seal_corrupts:
  assumes "writer_inv w fs h" "sealable (ww_key w) (writer_id w) fs"
    and "ww_seal w (Some True) sc = (Ret (), w1)" "ww_seal w1 (Some True) sc2 = (Ret (), w2)"
  shows "sr_class (scan (Some (ww_file w2)) (ww_key w) True (ww_scope_id w) (ww_segment_id w) None) = CORRUPT_COMMITTED_PREFIX"
  by (rule seal_twice [OF assms])

lemma seal_returns:
  assumes "\<not> ww_poisoned w" "ww_max_chunk w = None"
    and ft: "seal_footer (ww_key w) (ww_scope_id w) (ww_segment_id w) (ww_next_seq w - 1) (int (length (ww_file w)))
      (take 16 (sha256 (ww_file w))) = Some ft"
  shows "\<exists>w'. ww_seal w (Some True) (all_at_once 53) = (Ret (), w') \<and> ww_file w' = ww_file w @ ft \<and> \<not> ww_poisoned w' \<and>
    ww_max_chunk w' = None \<and> writer_id w' = writer_id w \<and> ww_key w' = ww_key w \<and> ww_next_seq w' = ww_next_seq w"
proof -
  have l: "length ft = 53" using seal_length [OF ft] by simp
  then have "write_all None ft [Wrote 53] = (ft, IoDone)" using write_all_once [of ft] by auto
  then show ?thesis using assms
    by (simp add: ww_seal_def Let_def write_sync_def all_at_once_def writer_id_def del: write_all.simps)
qed

theorem second_seal_corrupts_witness:
  "\<exists>w1 w2. ww_seal (fresh_writer [7] seg31) (Some True) (all_at_once 53) = (Ret (), w1) \<and>
     ww_seal w1 (Some True) (all_at_once 53) = (Ret (), w2) \<and>
     sr_class (scan (Some (ww_file w2)) [7] True 3 1 None) = CORRUPT_COMMITTED_PREFIX"
proof -
  let ?w = "fresh_writer [7] seg31"
  have inv: "writer_inv ?w [] history0" by (rule fresh_inv [OF seg31_ok])
  have id: "writer_id ?w = seg31" "ww_key ?w = [7]" "ww_scope_id ?w = 3" "ww_segment_id ?w = 1"
    by (simp_all add: fresh_writer_def writer_id_def seg31_def)
  have w: "\<not> ww_poisoned ?w" "ww_max_chunk ?w = None" "ww_next_seq ?w = 1" "length (ww_file ?w) = 67"
    using length_header_bytes [OF seg31_ok, of "[7]"] by (simp_all add: fresh_writer_def seg31_def)
  have sf: "\<exists>ft. seal_footer [7] 3 1 0 n (take 16 (sha256 b)) = Some ft \<and> length ft = 53" if "0 \<le> n" "n < 2 ^ 64" for n b
    using seal_footer_bytes [of 3 1 0 n "take 16 (sha256 b)" "[7]"] that by (auto simp: u32_def SEAL_MAGIC_def)
  obtain ft where ft: "seal_footer [7] 3 1 0 67 (take 16 (sha256 (ww_file ?w))) = Some ft" "length ft = 53"
    using sf [of 67 "ww_file ?w"] by auto
  obtain w1 where w1: "ww_seal ?w (Some True) (all_at_once 53) = (Ret (), w1)" "ww_file w1 = ww_file ?w @ ft"
    "\<not> ww_poisoned w1" "ww_max_chunk w1 = None" "writer_id w1 = seg31" "ww_key w1 = [7]" "ww_next_seq w1 = 1"
    using seal_returns [OF w(1,2)] ft(1) unfolding id w by auto
  have id1: "ww_scope_id w1 = 3" "ww_segment_id w1 = 1"
    using arg_cong [OF w1(5), of sg_scope] arg_cong [OF w1(5), of sg_segment] by (simp_all add: writer_id_def seg31_def)
  obtain f2 where "seal_footer [7] 3 1 0 120 (take 16 (sha256 (ww_file w1))) = Some f2"
    using sf [of 120 "ww_file w1"] by auto
  then obtain w2 where w2: "ww_seal w1 (Some True) (all_at_once 53) = (Ret (), w2)"
    using seal_returns [OF w1(3,4)] ft(2) w(4) unfolding id1 w1 by auto
  have "sealable (ww_key ?w) (writer_id ?w) []" using seg31_sealable id by simp
  from second_seal_corrupts [OF inv this w1(1) w2] show ?thesis using w1(1) w2 unfolding id by blast
qed

section \<open>Replay\<close>

text \<open>C23: Replaying the same frames over the same base with the sharded copy-on-write indexes gives
  exactly what the plain indexes give: the same exception, the same refusal, or indexes with the
  same lines and the same retry memory, whatever the number of shards and the seed.\<close>

theorem sharded_replay_is_plain:
  "(case reduce_frames plain_ops frs None base i of
      Inl e \<Rightarrow> reduce_frames (sharded_ops bits seed) frs None base i = Inl e
    | Inr p \<Rightarrow> \<exists>r. reduce_frames (sharded_ops bits seed) frs None base i = Inr r \<and> rr_class r = rr_class p \<and>
        rr_applied_count r = rr_applied_count p \<and> rr_applied_seq r = rr_applied_seq p \<and>
        shw_get (rr_index r) = wi_get (rr_index p) \<and> sht_check (rr_txindex r) = tx_check (rr_txindex p) \<and>
        sht_get_seq (rr_txindex r) = tx_get_seq (rr_txindex p))"
proof -
  let ?b = "case base of None \<Rightarrow> EmptyBaseView | Some b \<Rightarrow> b"
  note P = plain.reduce_frames_refines [where base = base and frs = frs and i = i]
  note S = shl.reduce_frames_refines [where base = base and frs = frs and i = i and bits = bits and seed = seed]
  consider (raises) e where "abs_replay ?b history0 frs = Inl e"
    | (refused) c where "abs_replay ?b history0 frs = Inr (Inl c)"
    | (replayed) h where "abs_replay ?b history0 frs = Inr (Inr h)"
    by (metis old.sum.exhaust)
  then show ?thesis
  proof cases
    case raises
    then show ?thesis using P S by simp
  next
    case refused
    then show ?thesis using P S
      by (simp add: empty_replay_def plain_ops_def sharded_ops_def sharded_empty_reads wi_get_def wi_empty_def
          tx_check_def tx_get_seq_def fun_eq_iff)
  next
    case replayed
    then show ?thesis using P S by (auto simp: plain_ops_def sharded_ops_def fun_eq_iff)
  qed
qed



text \<open>A reducer that refused a segment is closed: it has dropped its indexes, every later segment
  is answered with the same refusal and changes nothing, and finishing it yields empty indexes and the
  refusal, never a partial replay.\<close>

theorem reducer_fail_closed:
  assumes "feed_segment ops (reducer_begin ops base i t lim) seg d = Inr (c, st)" "c \<noteq> REDUCE_OK"
  shows "feed_all ops st segs = Inr st \<and> reducer_finish ops st = Inr (empty_replay ops c, st)"
proof -
  have "\<not> rs_terminal (reducer_begin ops base i t lim)" by (simp add: reducer_begin_def)
  with feed_segment_closes [OF assms(1)] assms(2) have "reducer_closed st" "rs_class st = c" by blast+
  then show ?thesis using feed_all_closed finish_closed by metis
qed

theorem reducer_fail_closed_witness:
  "\<exists>st. feed_segment plain_ops (reducer_begin plain_ops None 0 1 UNBOUNDED_REDUCER_LIMITS)
      \<lparr>st_sealed_by_store = False, st_frames = [], st_byte_length = 0\<rparr>
      \<lparr>sd_ordinal = 0, sd_segment_id = 1, sd_first_seq = 1, sd_record_count = 0\<rparr> = Inr (rs_class st, st) \<and>
    rs_class st \<noteq> REDUCE_OK \<and> reducer_finish plain_ops st = Inr (empty_replay plain_ops (rs_class st), st)"
proof -
  let ?seg = "\<lparr>st_sealed_by_store = False, st_frames = [], st_byte_length = 0\<rparr>"
  let ?d = "\<lparr>sd_ordinal = 0, sd_segment_id = 1, sd_first_seq = 1, sd_record_count = 0\<rparr>"
  obtain st where f: "feed_segment plain_ops (reducer_begin plain_ops None 0 1 UNBOUNDED_REDUCER_LIMITS) ?seg ?d = Inr (rs_class st, st)"
    "rs_class st \<noteq> REDUCE_OK"
    by (simp add: feed_segment_def reducer_begin_def to_terminal_def)
  show ?thesis using reducer_fail_closed [OF f] f by blast
qed

section \<open>The live indexes\<close>

interpretation seq_wal: index_refinement sm_get sm_write "\<lambda>m. distinct (dkeys (sm_state m))" wi_get wi_apply wi_inv
  by unfold_locales

text \<open>Over any sequence of versioned writes, the sequential reference model, the live index and
  the sharded copy-on-write builder give the same verdicts and end in the same lines.\<close>

theorem live_indexes_agree:
  "app_verdicts wi_apply wi_empty ops = app_verdicts sm_write sm_init ops \<and>
   app_verdicts sbw_apply (sb_begin (sharded_empty bits seed)) ops = app_verdicts sm_write sm_init ops \<and>
   wi_get (app_list wi_apply wi_empty ops) = sm_get (app_list sm_write sm_init ops) \<and>
   sbw_get (app_list sbw_apply (sb_begin (sharded_empty bits seed)) ops) = sm_get (app_list sm_write sm_init ops)"
proof -
  have i: "wi_inv wi_empty" "distinct (dkeys (sm_state sm_init))" "sbw_inv (sb_begin (sharded_empty bits seed))"
    by (simp_all add: wi_inv_def wi_empty_def sm_init_def sbw_inv_begin sharded_empty_ok)
  have "wi_get wi_empty = sm_get sm_init"
    by (simp add: wi_get_def sm_get_def wi_empty_def sm_init_def fun_eq_iff)
  moreover have "sbw_get (sb_begin (sharded_empty bits seed)) = wi_get wi_empty"
    by (simp add: sbw_get_begin sharded_empty_reads wi_get_def wi_empty_def fun_eq_iff)
  ultimately show ?thesis
    using seq_wal.run [OF i(2,1)] wal_shw.run [OF i(1,3)] by simp
qed

text \<open>C25: Two replicas that receive the same consistent set of writes, in any order and with any
  repetitions, end with the same line for every fact.\<close>

theorem replicas_converge:
  assumes "set ops = set ops'" "consistent_ops ops"
  shows "wi_get (app_list wi_apply wi_empty ops) g = wi_get (app_list wi_apply wi_empty ops') g"
  by (rule wal.app_list_order_independent [OF _ _ assms]) (simp_all add: wi_inv_def wi_empty_def wi_get_def)

theorem replicas_converge_witness:
  "wi_get (app_list wi_apply wi_empty [(5, 1, OP_PUT, Some 1), (5, 2, OP_DELETE, None)]) 5
   = wi_get (app_list wi_apply wi_empty [(5, 2, OP_DELETE, None), (5, 1, OP_PUT, Some 1), (5, 2, OP_DELETE, None)]) 5"
  by (rule replicas_converge) (auto simp: consistent_ops_def)

text \<open>No sequence of later writes loses a line or takes it to an older version, and no sequence of
  later records makes a known operation id new again, on the sharded indexes.\<close>

theorem no_regression:
  assumes "sbw_inv b" "sbt_inv m"
  shows "(\<forall>f l. sbw_get b f = Some l \<longrightarrow> (\<exists>l'. sbw_get (app_list sbw_apply b ops) f = Some l' \<and> fst l \<le> fst l')) \<and>
    (\<forall>oid d. sbt_check m oid d \<noteq> TxNew \<longrightarrow>
       sbt_check (foldl (\<lambda>m (i, d, s). sbt_record m i d s) m recs) oid d \<noteq> TxNew)"
  using shw.app_list_mono [OF assms(1)] sht.never_new_again [OF assms(2), of _ _ recs]
  unfolding sht.rec_list_def by blast

theorem no_regression_witness:
  "\<exists>l'. sbw_get (app_list sbw_apply (snd (sbw_apply (sb_begin (sharded_empty 2 0)) 5 3 OP_PUT (Some 1))) [(5, 2, OP_PUT, Some 9)]) 5
     = Some l' \<and> 3 \<le> fst l'"
proof -
  have i: "sbw_inv (sb_begin (sharded_empty 2 0))" "sbt_inv (sb_begin (sharded_empty 2 0))"
    by (simp_all add: sbw_inv_begin sbt_inv_begin sharded_empty_ok)
  let ?b = "snd (sbw_apply (sb_begin (sharded_empty 2 0)) 5 3 OP_PUT (Some 1))"
  have g: "sbw_get ?b 5 = Some (3, OP_PUT, Some 1)"
    by (simp add: sbw_get_apply sbw_get_begin sharded_empty_reads preflight_def i)
  from no_regression [OF sbw_inv_apply [OF i(1)] i(2), where recs = "[]" and ops = "[(5, 2, OP_PUT, Some 9)]",
      THEN conjunct1, rule_format, OF g]
  show ?thesis unfolding fst_conv .
qed

end
